(* ===== verification/Tb_Prelude.thy ===== *)
theory Tb_Prelude
  imports Main "HOL-Library.AList"
begin

text \<open>
  Shared vocabulary of the development: the Rust iterator and integer idioms that the
  components use (\<open>position\<close>, \<open>rposition\<close>, in-place update of the first match, saturating
  \<open>u64\<close> counters), and the generic facts about lists with unique keys that carry the
  component proofs. A \<open>HashMap\<close> the code iterates over is an association list with
  distinct keys, whose order stands for the unspecified iteration order; a \<open>HashMap\<close>
  that is only looked up is a partial function.
\<close>

named_theorems key_simps \<open>lookups by key in lists with unique keys\<close>

section \<open>Integers\<close>

definition u64_max :: nat where
  "u64_max = 2 ^ 64 - 1"

definition i64_max :: int where
  "i64_max = 2 ^ 63 - 1"

definition i64_min :: int where
  "i64_min = - (2 ^ 63)"

definition usize_max :: nat where
  "usize_max = 2 ^ 64 - 1"

text \<open>\<open>u64::saturating_add(1)\<close>.\<close>

definition sat_succ :: "nat \<Rightarrow> nat" where
  "sat_succ n = (if n < u64_max then Suc n else u64_max)"

lemma sat_succ_room [simp]: "n < u64_max \<Longrightarrow> sat_succ n = Suc n"
  by (simp add: sat_succ_def)

section \<open>Iterator idioms\<close>

text \<open>\<open>iter().position(p)\<close> and \<open>iter().rposition(p)\<close>.\<close>

fun position :: "('a \<Rightarrow> bool) \<Rightarrow> 'a list \<Rightarrow> nat option" where
  "position P [] = None"
| "position P (x # xs) = (if P x then Some 0 else map_option Suc (position P xs))"

fun rposition :: "('a \<Rightarrow> bool) \<Rightarrow> 'a list \<Rightarrow> nat option" where
  "rposition P [] = None"
| "rposition P (x # xs) =
     (case rposition P xs of Some i \<Rightarrow> Some (Suc i) | None \<Rightarrow> if P x then Some 0 else None)"

text \<open>\<open>if let Some(x) = iter_mut().find(p) { ... }\<close>: rewrites the first match in place.\<close>

fun update_first :: "('a \<Rightarrow> bool) \<Rightarrow> ('a \<Rightarrow> 'a) \<Rightarrow> 'a list \<Rightarrow> 'a list" where
  "update_first P f [] = []"
| "update_first P f (x # xs) = (if P x then f x # xs else x # update_first P f xs)"

text \<open>\<open>slice.get(i)\<close>.\<close>

definition nth_opt :: "'a list \<Rightarrow> nat \<Rightarrow> 'a option" where
  "nth_opt xs i = (if i < length xs then Some (xs ! i) else None)"

text \<open>\<open>iter().max()\<close> on natural numbers.\<close>

definition max_opt :: "nat list \<Rightarrow> nat option" where
  "max_opt xs = (case xs of [] \<Rightarrow> None | y # ys \<Rightarrow> Some (fold max ys y))"

lemma position_Some:
  "position P xs = Some i \<Longrightarrow> i < length xs \<and> P (xs ! i) \<and> (\<forall>j<i. \<not> P (xs ! j))"
proof (induction xs arbitrary: i)
  case (Cons x xs)
  show ?case
  proof (cases "P x")
    case False
    with Cons.prems obtain k where k: "position P xs = Some k" "i = Suc k" by auto
    with Cons.IH[OF k(1)] False show ?thesis by (auto simp: less_Suc_eq_0_disj)
  qed (use Cons.prems in auto)
qed simp

lemma position_SomeI:
  "i < length xs \<Longrightarrow> P (xs ! i) \<Longrightarrow> (\<And>j. j < i \<Longrightarrow> \<not> P (xs ! j)) \<Longrightarrow> position P xs = Some i"
proof (induction xs arbitrary: i)
  case (Cons x xs)
  show ?case
  proof (cases i)
    case (Suc k)
    have "\<not> P x" using Cons.prems(3)[of 0] Suc by simp
    moreover have "position P xs = Some k" using Cons.prems Suc by (intro Cons.IH) force+
    ultimately show ?thesis using Suc by simp
  qed (use Cons.prems in simp)
qed simp

lemma position_None: "position P xs = None \<longleftrightarrow> (\<forall>x\<in>set xs. \<not> P x)"
  by (induction xs) auto

lemma rposition_None: "rposition P xs = None \<longleftrightarrow> (\<forall>x\<in>set xs. \<not> P x)"
  by (induction xs) (auto split: option.splits)

lemma rposition_Some:
  "rposition P xs = Some i \<Longrightarrow>
     i < length xs \<and> P (xs ! i) \<and> (\<forall>j. i < j \<and> j < length xs \<longrightarrow> \<not> P (xs ! j))"
proof (induction xs arbitrary: i)
  case (Cons x xs)
  show ?case
  proof (cases "rposition P xs")
    case None
    with Cons.prems have "P x" "i = 0" by (auto split: if_splits)
    moreover from None have "\<forall>y\<in>set xs. \<not> P y" by (simp add: rposition_None)
    ultimately show ?thesis by (auto simp: nth_Cons split: nat.splits)
  next
    case (Some k)
    with Cons.prems have "i = Suc k" by simp
    with Cons.IH[OF Some] show ?thesis by (auto simp: nth_Cons split: nat.splits)
  qed
qed simp

lemma position_distinct:
  "distinct xs \<Longrightarrow> i < length xs \<Longrightarrow> position (\<lambda>y. y = xs ! i) xs = Some i"
proof (induction xs arbitrary: i)
  case (Cons x xs)
  then show ?case by (cases i) auto
qed simp

lemma fold_max_eq: "fold max ys (y::nat) = Max (set (y # ys))"
  by (rule Max.set_eq_fold[symmetric])

lemma max_opt_Some: "xs \<noteq> [] \<Longrightarrow> max_opt xs = Some (Max (set xs))"
  by (cases xs) (simp_all add: max_opt_def fold_max_eq del: fold_simps)

lemma find_None_iff_set: "find P xs = None \<longleftrightarrow> (\<forall>x\<in>set xs. \<not> P x)"
  by (induction xs) auto

lemma find_SomeD: "find P xs = Some x \<Longrightarrow> x \<in> set xs \<and> P x"
  by (induction xs) (auto split: if_splits)

lemma find_append: "find P (xs @ ys) = (case find P xs of None \<Rightarrow> find P ys | Some x \<Rightarrow> Some x)"
  by (induction xs) auto

lemma find_rev: "find P (rev xs) = map_option (nth xs) (rposition P xs)"
  by (induction xs) (auto simp: find_append split: option.splits)

section \<open>Lists with unique keys\<close>

lemma find_key [key_simps]:
  "distinct (map k xs) \<Longrightarrow> find (\<lambda>x. k x = i) xs = Some e \<longleftrightarrow> e \<in> set xs \<and> k e = i"
  by (induction xs) (auto simp: image_iff)

lemma find_key_None [key_simps]: "find (\<lambda>x. k x = i) xs = None \<longleftrightarrow> i \<notin> k ` set xs"
  by (induction xs) auto

lemma position_key_update:
  assumes "position (\<lambda>x. k x = i) xs = Some n"
  shows "xs[n := f (xs ! n)] = update_first (\<lambda>x. k x = i) f xs"
  using assms by (induction xs arbitrary: n) (auto split: if_splits)

lemma update_first_map:
  assumes "distinct (map k xs)"
  shows "update_first (\<lambda>x. k x = i) f xs = map (\<lambda>x. if k x = i then f x else x) xs"
  using assms
proof (induction xs)
  case (Cons x xs)
  then show ?case by (auto simp: image_iff intro!: map_idI[symmetric])
qed simp

lemma alist_fst_update [simp]:
  "fst ` set (AList.update k v al) = insert k (fst ` set al)"
  using dom_update[of k v al] by simp

lemma sorted_remdups_adj_distinct: "sorted xs \<Longrightarrow> distinct (remdups_adj xs)"
  by (induction xs rule: remdups_adj.induct) (auto simp: less_le_not_le antisym)

lemma sorted_list_of_set_remdups_adj_sort:
  "remdups_adj (sort xs) = sorted_list_of_set (set (xs :: nat list))"
proof -
  have "sorted (remdups_adj (sort xs))" by simp
  moreover have "distinct (remdups_adj (sort xs))" by (simp add: sorted_remdups_adj_distinct)
  moreover have "set (remdups_adj (sort xs)) = set xs" by simp
  ultimately show ?thesis by (metis sorted_list_of_set.idem_if_sorted_distinct)
qed

lemma sorted_list_of_set_filter:
  "finite A \<Longrightarrow> sorted_list_of_set {x \<in> A. P x} = filter P (sorted_list_of_set (A :: nat set))"
  by (rule sorted_distinct_set_unique) (auto simp: sorted_wrt_filter)

lemma sorted_list_of_set_snoc:
  "finite A \<Longrightarrow> (\<And>a. a \<in> A \<Longrightarrow> a < (x :: nat)) \<Longrightarrow>
     sorted_list_of_set (insert x A) = sorted_list_of_set A @ [x]"
  by (subgoal_tac "x \<notin> A") (auto simp: sorted_insort_is_snoc less_imp_le)

lemma rposition_sorted:
  assumes "sorted_wrt (<) (xs :: nat list)" "t < length xs"
  shows "rposition (\<lambda>s. s \<le> xs ! t) xs = Some t"
proof (cases "rposition (\<lambda>s. s \<le> xs ! t) xs")
  case None
  with nth_mem[OF assms(2)] show ?thesis by (auto simp: rposition_None)
next
  case (Some i)
  note i = rposition_Some[OF Some]
  have "\<not> i < t" using i assms(2) by blast
  moreover have "\<not> t < i" using i assms by (meson leD sorted_wrt_nth_less)
  ultimately show ?thesis using Some by simp
qed

end
