(* ===== verification/Url_Model.thy ===== *)
theory Url_Model
  imports Main "HOL-Library.Word"
begin

text \<open>
  The values of the \<open>url\<close> crate as the program sees them. Parsing and serialization of
  URLs belong to that crate, so a \<open>Url\<close> is a record of what its accessors return, and
  the operations that need the parser or the serializer take them as arguments.
  \<open>Url::origin()\<close> answers a fresh opaque origin for schemes with no tuple origin; the
  field \<open>u_origin\<close> is the value it returned. \<open>u_href\<close> is the serialization \<open>Url::as_str()\<close> keeps.
\<close>

datatype host =
    Domain string
  | Ipv4 "8 word" "8 word" "8 word" "8 word"
  | Ipv6 "16 word list"

datatype origin =
    Opaque nat
  | Tuple string host "16 word"

record url =
  u_href :: string
  u_scheme :: string
  u_username :: string
  u_password :: "string option"
  u_host :: "host option"
  u_port :: "16 word option"
  u_path :: string
  u_query :: "string option"
  u_fragment :: "string option"
  u_origin :: origin

definition is_tuple :: "origin \<Rightarrow> bool" where
  "is_tuple orig = (case orig of Tuple _ _ _ \<Rightarrow> True | Opaque _ \<Rightarrow> False)"

lemma is_tuple_simps [simp]: "is_tuple (Tuple s h p)" "\<not> is_tuple (Opaque n)"
  by (simp_all add: is_tuple_def)

text \<open>\<open>net::about_blank()\<close>: the URL a browsing context starts on.\<close>

definition about_blank :: url where
  "about_blank = \<lparr> u_href = ''about:blank'', u_scheme = ''about'', u_username = [], u_password = None, u_host = None,
     u_port = None, u_path = ''blank'', u_query = None, u_fragment = None, u_origin = Opaque 0 \<rparr>"

end
