(* ===== verification/Session_History.thy ===== *)
theory Session_History
  imports Tb_Prelude Url_Model
begin

text \<open>
  One tab's joint session history (\<open>crates/browser/src/history.rs\<close>): the entries of every
  frame, each frame's own list of entry identities, the navigations that have not
  committed, the current step, and the target names of the document states. The
  operations are those of \<open>SessionHistory\<close>; \<open>hist_apply\<close> runs one of them and
  \<open>hist_reach\<close> is what a tab can reach from its initial blank entry.
\<close>

named_theorems hist_defs \<open>operations that unfold into record updates\<close>

section \<open>State\<close>

type_synonym frame_id = nat
type_synonym entry_id = nat
type_synonym context_name = string

definition MAIN :: frame_id where
  "MAIN = 0"

datatype history_step = Delta int | ToEntry entry_id

datatype commit =
    CommitPush url "context_name option"
  | CommitTraverse entry_id url

datatype history_handling = HPush | HReplace

record history_entry =
  he_id :: entry_id
  he_url :: url
  he_title :: string

record history_snapshot =
  hs_entries :: "history_entry list"
  hs_current_index :: nat

record renderer_history_snapshot =
  rs_length :: nat
  rs_index :: nat
  rs_local_length :: nat
  rs_local_index :: nat
  rs_state :: "string option"

record entry =
  e_id :: entry_id
  e_step :: nat
  e_local_index :: nat
  e_url :: url
  e_title :: string
  e_state :: "string option"
  e_document :: nat

datatype pending_change =
    PendingPush "context_name option"
  | PendingReplace entry_id "context_name option"

record session_history =
  entries :: "entry list"
  frames :: "(frame_id \<times> entry_id list) list"
  pending :: "frame_id \<rightharpoonup> pending_change"
  current_step :: nat
  next_document :: nat
  next_entry :: nat
  names :: "nat \<rightharpoonup> context_name"

section \<open>Reading the list\<close>

definition hist_new :: "url \<Rightarrow> context_name option \<Rightarrow> session_history" where
  "hist_new blank name =
     \<lparr> entries = [\<lparr> e_id = 0, e_step = 0, e_local_index = 0, e_url = blank, e_title = [],
                    e_state = None, e_document = 0 \<rparr>],
       frames = [(MAIN, [0])],
       pending = Map.empty,
       current_step = 0,
       next_document = 1,
       next_entry = 1,
       names = (case name of None \<Rightarrow> Map.empty | Some n \<Rightarrow> [0 \<mapsto> n]) \<rparr>"

definition locate :: "session_history \<Rightarrow> entry_id \<Rightarrow> entry option" where
  "locate h i = find (\<lambda>e. e_id e = i) (entries h)"

definition locate_index :: "session_history \<Rightarrow> entry_id \<Rightarrow> nat option" where
  "locate_index h i = position (\<lambda>e. e_id e = i) (entries h)"

definition used_steps :: "session_history \<Rightarrow> nat list" where
  "used_steps h = remdups_adj (sort (map e_step (entries h)))"

definition current_step_index :: "session_history \<Rightarrow> nat list \<Rightarrow> nat" where
  "current_step_index h steps =
     (case rposition (\<lambda>s. s \<le> current_step h) steps of Some i \<Rightarrow> i | None \<Rightarrow> 0)"

definition frame_len :: "session_history \<Rightarrow> frame_id \<Rightarrow> nat" where
  "frame_len h f = (case map_of (frames h) f of None \<Rightarrow> 0 | Some ids \<Rightarrow> length ids)"

definition frame_id_at :: "session_history \<Rightarrow> frame_id \<Rightarrow> nat \<Rightarrow> entry_id option" where
  "frame_id_at h f i =
     (case map_of (frames h) f of None \<Rightarrow> None | Some ids \<Rightarrow> nth_opt ids i)"

definition frame_of :: "session_history \<Rightarrow> entry_id \<Rightarrow> frame_id option" where
  "frame_of h i = map_option fst (find (\<lambda>(f, ids). i \<in> set ids) (frames h))"

definition frame_position :: "session_history \<Rightarrow> frame_id \<Rightarrow> entry_id \<Rightarrow> nat option" where
  "frame_position h f i =
     (case map_of (frames h) f of None \<Rightarrow> None | Some ids \<Rightarrow> position (\<lambda>c. c = i) ids)"

definition hist_frames :: "session_history \<Rightarrow> frame_id list" where
  "hist_frames h = map fst (frames h)"

definition active_entry_at :: "session_history \<Rightarrow> frame_id \<Rightarrow> nat \<Rightarrow> entry_id option" where
  "active_entry_at h f at_step =
     (case map_of (frames h) f of
        None \<Rightarrow> None
      | Some ids \<Rightarrow>
          (case find (\<lambda>i. case locate h i of Some e \<Rightarrow> e_step e \<le> at_step | None \<Rightarrow> False) (rev ids) of
             Some i \<Rightarrow> Some i
           | None \<Rightarrow> nth_opt ids 0))"

definition active_entry :: "session_history \<Rightarrow> frame_id \<Rightarrow> entry_id option" where
  "active_entry h f = active_entry_at h f (current_step h)"

definition current_entry :: "session_history \<Rightarrow> entry_id" where
  "current_entry h = (case active_entry h MAIN of Some i \<Rightarrow> i | None \<Rightarrow> 0)"

definition entry_url :: "session_history \<Rightarrow> entry_id \<Rightarrow> url option" where
  "entry_url h i = map_option e_url (locate h i)"

definition local_index :: "session_history \<Rightarrow> entry_id \<Rightarrow> nat option" where
  "local_index h i = map_option e_local_index (locate h i)"

definition same_document :: "session_history \<Rightarrow> entry_id \<Rightarrow> entry_id \<Rightarrow> bool" where
  "same_document h l r =
     (case (locate h l, locate h r) of
        (Some a, Some b) \<Rightarrow> e_document a = e_document b
      | _ \<Rightarrow> False)"

definition hist_name :: "session_history \<Rightarrow> entry_id \<Rightarrow> context_name option" where
  "hist_name h i = Option.bind (locate h i) (\<lambda>e. names h (e_document e))"

definition renderer_snapshot_for ::
  "session_history \<Rightarrow> frame_id \<Rightarrow> renderer_history_snapshot option" where
  "renderer_snapshot_for h f =
     (case map_of (frames h) f of
        None \<Rightarrow> None
      | Some _ \<Rightarrow>
          (let active = active_entry h f;
               steps = used_steps h
           in Some \<lparr> rs_length = length steps,
                     rs_index = current_step_index h steps,
                     rs_local_length = frame_len h f,
                     rs_local_index =
                       (case Option.bind active (frame_position h f) of Some i \<Rightarrow> i | None \<Rightarrow> 0),
                     rs_state = Option.bind (Option.bind active (locate h)) e_state \<rparr>))"

definition renderer_snapshot_for_entry ::
  "session_history \<Rightarrow> entry_id \<Rightarrow> renderer_history_snapshot option" where
  "renderer_snapshot_for_entry h i =
     (case locate h i of
        None \<Rightarrow> None
      | Some found \<Rightarrow>
          (case frame_of h i of
             None \<Rightarrow> None
           | Some f \<Rightarrow>
               (let steps = used_steps h in
                case position (\<lambda>s. s = e_step found) steps of
                  None \<Rightarrow> None
                | Some idx \<Rightarrow>
                    Some \<lparr> rs_length = length steps,
                           rs_index = idx,
                           rs_local_length = frame_len h f,
                           rs_local_index =
                             (case frame_position h f i of Some p \<Rightarrow> p | None \<Rightarrow> e_local_index found),
                           rs_state = e_state found \<rparr>)))"

definition renderer_snapshot :: "session_history \<Rightarrow> renderer_history_snapshot" where
  "renderer_snapshot h =
     (let steps = used_steps h;
          active = active_entry h MAIN
      in \<lparr> rs_length = length steps,
           rs_index = current_step_index h steps,
           rs_local_length = frame_len h MAIN,
           rs_local_index =
             (case Option.bind active (frame_position h MAIN) of Some i \<Rightarrow> i | None \<Rightarrow> 0),
           rs_state = Option.bind (Option.bind active (locate h)) e_state \<rparr>)"

definition hist_snapshot :: "session_history \<Rightarrow> history_snapshot" where
  "hist_snapshot h =
     (let ids = (case map_of (frames h) MAIN of None \<Rightarrow> [] | Some ids \<Rightarrow> ids)
      in \<lparr> hs_entries =
             map (\<lambda>e. \<lparr> he_id = e_id e, he_url = e_url e, he_title = e_title e \<rparr>)
               (List.map_filter (locate h) ids),
           hs_current_index =
             (case Option.bind (active_entry h MAIN) (locate h) of
                None \<Rightarrow> 0
              | Some e \<Rightarrow> e_local_index e) \<rparr>)"

definition target_step :: "session_history \<Rightarrow> history_step \<Rightarrow> frame_id \<Rightarrow> nat option" where
  "target_step h st caller =
     (case st of
        ToEntry i \<Rightarrow> map_option e_step (locate h i)
      | Delta d \<Rightarrow>
          (let steps = used_steps h;
               target = int (current_step_index h steps) + d
           in if target < 0 then None else nth_opt steps (nat target)))"

section \<open>Changing the list\<close>

definition take_document :: "session_history \<Rightarrow> nat \<times> session_history" where
  "take_document h = (next_document h, h\<lparr>next_document := sat_succ (next_document h)\<rparr>)"

definition set_name :: "nat \<Rightarrow> context_name option \<Rightarrow> session_history \<Rightarrow> session_history" where
  "set_name d name h = (case name of None \<Rightarrow> h | Some n \<Rightarrow> h\<lparr>names := (names h)(d \<mapsto> n)\<rparr>)"

text \<open>The loop that drops the names no remaining entry refers to.\<close>

fun release_names :: "entry list \<Rightarrow> nat list \<Rightarrow> (nat \<rightharpoonup> context_name) \<Rightarrow> (nat \<rightharpoonup> context_name)" where
  "release_names es [] nm = nm"
| "release_names es (d # ds) nm =
     release_names es ds (if d \<in> set (map e_document es) then nm else nm(d := None))"

definition set_title :: "frame_id \<Rightarrow> string \<Rightarrow> session_history \<Rightarrow> session_history" where
  "set_title f title h =
     (case active_entry h f of
        None \<Rightarrow> h
      | Some i \<Rightarrow>
          h\<lparr>entries := update_first (\<lambda>e. e_id e = i) (\<lambda>e. e\<lparr>e_title := title\<rparr>) (entries h)\<rparr>)"

definition set_current_title :: "string \<Rightarrow> session_history \<Rightarrow> session_history" where
  "set_current_title title h = set_title MAIN title h"

definition insert_entry ::
  "frame_id \<Rightarrow> nat \<Rightarrow> nat \<Rightarrow> url \<Rightarrow> context_name option \<Rightarrow> string option \<Rightarrow> session_history \<Rightarrow>
     entry_id \<times> session_history" where
  "insert_entry f step li url name state h =
     (let (document, h) = take_document h;
          h = set_name document name h;
          i = next_entry h;
          h = h\<lparr>next_entry := sat_succ (next_entry h)\<rparr>;
          h = h\<lparr>entries := entries h @
                 [\<lparr> e_id = i, e_step = step, e_local_index = li, e_url = url, e_title = [],
                    e_state = state, e_document = document \<rparr>]\<rparr>;
          ids = (case map_of (frames h) f of None \<Rightarrow> [] | Some ids \<Rightarrow> ids);
          ids' = (if li < length ids then take li ids @ i # drop li ids else ids @ [i])
      in (i, h\<lparr>frames := AList.update f ids' (frames h)\<rparr>))"

definition add_frame :: "frame_id \<Rightarrow> url \<Rightarrow> context_name option \<Rightarrow> session_history \<Rightarrow> session_history" where
  "add_frame f url name h =
     (if f = MAIN \<or> map_of (frames h) f \<noteq> None then h
      else
        (let (document, h) = take_document h;
             h = set_name document name h;
             i = next_entry h;
             h = h\<lparr>next_entry := sat_succ (next_entry h)\<rparr>;
             h = h\<lparr>entries := entries h @
                    [\<lparr> e_id = i, e_step = current_step h, e_local_index = 0, e_url = url,
                       e_title = [], e_state = None, e_document = document \<rparr>]\<rparr>
         in h\<lparr>frames := AList.update f [i] (frames h)\<rparr>))"

definition truncate_forward :: "session_history \<Rightarrow> session_history" where
  "truncate_forward h =
     (let removed = map e_document (filter (\<lambda>e. e_step e > current_step h) (entries h));
          es = filter (\<lambda>e. e_step e \<le> current_step h) (entries h);
          live = map e_id es
      in h\<lparr>entries := es,
            frames := map (\<lambda>(f, ids). (f, filter (\<lambda>i. i \<in> set live) ids)) (frames h),
            names := release_names es removed (names h)\<rparr>)"

definition clamp_current_step :: "session_history \<Rightarrow> session_history" where
  "clamp_current_step h =
     (case max_opt (map e_step (filter (\<lambda>e. e_step e \<le> current_step h) (entries h))) of
        Some s \<Rightarrow> h\<lparr>current_step := s\<rparr>
      | None \<Rightarrow> h\<lparr>current_step := 0\<rparr>)"

definition replace_entry ::
  "entry_id \<Rightarrow> url \<Rightarrow> context_name option \<Rightarrow> session_history \<Rightarrow> session_history" where
  "replace_entry i url name h =
     (case locate_index h i of
        None \<Rightarrow> h
      | Some index \<Rightarrow>
          (let old_document = e_document (entries h ! index);
               (document, h) = take_document h;
               h = h\<lparr>entries := (entries h)[index := (entries h ! index)
                       \<lparr>e_url := url, e_title := [], e_state := None, e_document := document\<rparr>]\<rparr>;
               h = set_name document name h
           in if old_document \<in> set (map e_document (entries h)) then h
              else h\<lparr>names := (names h)(old_document := None)\<rparr>))"

text \<open>The three pushes share their last lines: the new entry takes the next step.\<close>

definition push_entry ::
  "frame_id \<Rightarrow> nat \<Rightarrow> url \<Rightarrow> context_name option \<Rightarrow> string option \<Rightarrow> session_history \<Rightarrow>
     entry_id \<times> session_history" where
  "push_entry f li url name state h =
     (let step = sat_succ (current_step h);
          (i, h) = insert_entry f step li url name state h
      in (i, h\<lparr>current_step := step\<rparr>))"

definition begin_navigation ::
  "frame_id \<Rightarrow> url \<Rightarrow> bool \<Rightarrow> nat \<Rightarrow> context_name option \<Rightarrow> bool \<Rightarrow> session_history \<Rightarrow>
     entry_id option \<times> session_history" where
  "begin_navigation f url replace li name is_pending h =
     (if f = MAIN then (None, h)
      else
        (let h = (if map_of (frames h) f = None then add_frame f url None h else h);
             current = active_entry h f
         in if is_pending then
              (let store = (\<lambda>change. (current, h\<lparr>pending := (pending h)(f \<mapsto> change)\<rparr>))
               in if replace then
                    (case current of
                       None \<Rightarrow> (None, h)
                     | Some c \<Rightarrow>
                         if li < frame_len h f then
                           (case frame_id_at h f li of
                              None \<Rightarrow> (None, h)
                            | Some i \<Rightarrow> store (PendingReplace i name))
                         else store (PendingReplace c name))
                  else store (PendingPush name))
            else
              (let h = h\<lparr>pending := (pending h)(f := None)\<rparr>
               in if replace \<and> current \<noteq> None then
                    (if li < frame_len h f then
                       (case frame_id_at h f li of
                          None \<Rightarrow> (None, h)
                        | Some i \<Rightarrow> (Some i, replace_entry i url name h))
                     else (current, replace_entry (the current) url name h))
                  else
                    (let (i, h) = push_entry f li url name None (truncate_forward h)
                     in (Some i, h)))))"

definition commit_url :: "frame_id \<Rightarrow> url \<Rightarrow> session_history \<Rightarrow> session_history" where
  "commit_url f url h =
     (case pending h f of
        Some change \<Rightarrow>
          (let h = h\<lparr>pending := (pending h)(f := None)\<rparr>
           in case change of
                PendingPush name \<Rightarrow>
                  (let h = truncate_forward h
                   in snd (push_entry f (frame_len h f) url name None h))
              | PendingReplace i name \<Rightarrow> replace_entry i url name h)
      | None \<Rightarrow>
          (case active_entry h f of
             None \<Rightarrow> h
           | Some i \<Rightarrow>
               h\<lparr>entries := update_first (\<lambda>e. e_id e = i) (\<lambda>e. e\<lparr>e_url := url\<rparr>) (entries h)\<rparr>))"

definition discard_pending :: "frame_id \<Rightarrow> session_history \<Rightarrow> session_history" where
  "discard_pending f h = h\<lparr>pending := (pending h)(f := None)\<rparr>"

definition sync_current_name :: "context_name option \<Rightarrow> session_history \<Rightarrow> session_history" where
  "sync_current_name name h =
     (case active_entry h MAIN of
        None \<Rightarrow> h
      | Some i \<Rightarrow>
          (case locate h i of
             None \<Rightarrow> h
           | Some e \<Rightarrow> h\<lparr>names := (names h)(e_document e := name)\<rparr>))"

definition hist_update ::
  "frame_id \<Rightarrow> url \<Rightarrow> string \<Rightarrow> history_handling \<Rightarrow> session_history \<Rightarrow> session_history" where
  "hist_update f url state handling h =
     (case active_entry h f of
        None \<Rightarrow> h
      | Some active \<Rightarrow>
          (case handling of
             HReplace \<Rightarrow>
               h\<lparr>entries := update_first (\<lambda>e. e_id e = active)
                   (\<lambda>e. e\<lparr>e_url := url, e_state := Some state\<rparr>) (entries h)\<rparr>
           | HPush \<Rightarrow>
               (case locate h active of
                  None \<Rightarrow> h
                | Some a \<Rightarrow>
                    (let h = truncate_forward h;
                         step = sat_succ (current_step h);
                         (i, h) = insert_entry f step (frame_len h f) url None (Some state) h;
                         h = h\<lparr>entries := update_first (\<lambda>e. e_id e = i)
                                (\<lambda>e. e\<lparr>e_document := e_document a, e_title := e_title a\<rparr>) (entries h)\<rparr>
                     in h\<lparr>current_step := step\<rparr>))))"

definition hist_commit :: "commit \<Rightarrow> session_history \<Rightarrow> bool \<times> session_history" where
  "hist_commit c h =
     (case c of
        CommitTraverse i url \<Rightarrow>
          (case locate_index h i of
             None \<Rightarrow> (False, h)
           | Some index \<Rightarrow>
               (let document = e_document (entries h ! index);
                    step = e_step (entries h ! index);
                    (nxt, h) = take_document h;
                    name = names h document;
                    h = h\<lparr>entries := (entries h)[index := (entries h ! index)
                            \<lparr>e_url := url, e_document := nxt\<rparr>]\<rparr>;
                    h = set_name nxt name h;
                    h = (if document \<in> set (map e_document (entries h)) then h
                         else h\<lparr>names := (names h)(document := None)\<rparr>)
                in (True, h\<lparr>current_step := step\<rparr>)))
      | CommitPush url name \<Rightarrow>
          (let h = truncate_forward h
           in (True, snd (push_entry MAIN (frame_len h MAIN) url name None h))))"

definition set_current_step :: "nat \<Rightarrow> session_history \<Rightarrow> session_history" where
  "set_current_step s h = h\<lparr>current_step := s\<rparr>"

definition traverse_same_document :: "entry_id \<Rightarrow> session_history \<Rightarrow> bool \<times> session_history" where
  "traverse_same_document i h =
     (case locate h i of
        None \<Rightarrow> (False, h)
      | Some e \<Rightarrow> (True, h\<lparr>current_step := e_step e\<rparr>))"

definition remove_frame :: "frame_id \<Rightarrow> session_history \<Rightarrow> session_history" where
  "remove_frame f h =
     (if f = MAIN then h
      else case map_of (frames h) f of
        None \<Rightarrow> h
      | Some ids \<Rightarrow>
          (let h = h\<lparr>frames := AList.delete f (frames h), pending := (pending h)(f := None)\<rparr>;
               documents = List.map_filter (\<lambda>i. map_option e_document (locate h i)) ids;
               h = h\<lparr>entries := filter (\<lambda>e. e_id e \<notin> set ids) (entries h)\<rparr>;
               h = h\<lparr>names := release_names (entries h) documents (names h)\<rparr>
           in clamp_current_step h))"

definition clear_children :: "session_history \<Rightarrow> session_history" where
  "clear_children h = fold remove_frame (filter (\<lambda>f. f \<noteq> MAIN) (map fst (frames h))) h"

end
