(* ===== verification/Session_History_Inv.thy ===== *)
theory Session_History_Inv
  imports Session_History
begin

text \<open>
  The representation invariant of the joint session history and its preservation by
  every operation. The invariant has four parts: entry identities are unique and every
  entry belongs to exactly one frame's list (\<open>ids_ok\<close>); identities, steps and document
  ids are below their counters (\<open>bounds_ok\<close>); a name is only kept for a document state
  some entry presents (\<open>names_ok\<close>); and the main frame's list is never empty, starts at
  step 0, has strictly increasing steps, and numbers its entries from 0 (\<open>main_ok\<close>).
\<close>

section \<open>The invariant\<close>

definition entry_ids :: "session_history \<Rightarrow> entry_id set" where
  "entry_ids h = e_id ` set (entries h)"

definition frame_ids :: "session_history \<Rightarrow> frame_id \<rightharpoonup> entry_id list" where
  "frame_ids h = map_of (frames h)"

lemma frame_ids_cong: "frames h' = frames h \<Longrightarrow> frame_ids h' = frame_ids h"
  by (simp add: frame_ids_def)

lemma view_simps [simp]:
  "frame_ids (h\<lparr>names := nm\<rparr>) = frame_ids h" "entry_ids (h\<lparr>names := nm\<rparr>) = entry_ids h"
  "frame_ids (h\<lparr>pending := p\<rparr>) = frame_ids h" "entry_ids (h\<lparr>pending := p\<rparr>) = entry_ids h"
  "frame_ids (h\<lparr>current_step := c\<rparr>) = frame_ids h" "entry_ids (h\<lparr>current_step := c\<rparr>) = entry_ids h"
  by (simp_all add: frame_ids_def entry_ids_def)

definition ids_ok :: "session_history \<Rightarrow> bool" where
  "ids_ok h \<longleftrightarrow>
     distinct (map e_id (entries h)) \<and> distinct (map fst (frames h)) \<and>
     (\<forall>f ids. frame_ids h f = Some ids \<longrightarrow> distinct ids \<and> set ids \<subseteq> entry_ids h) \<and>
     (\<forall>f g ids js. frame_ids h f = Some ids \<longrightarrow> frame_ids h g = Some js \<longrightarrow>
        f \<noteq> g \<longrightarrow> set ids \<inter> set js = {}) \<and>
     (\<forall>i\<in>entry_ids h. \<exists>f ids. frame_ids h f = Some ids \<and> i \<in> set ids)"

definition bounds_ok :: "session_history \<Rightarrow> bool" where
  "bounds_ok h \<longleftrightarrow>
     (\<forall>e\<in>set (entries h).
        e_id e < next_entry h \<and> e_step e < next_entry h \<and> e_document e < next_document h) \<and>
     current_step h < next_entry h"

definition names_ok :: "session_history \<Rightarrow> bool" where
  "names_ok h \<longleftrightarrow> dom (names h) \<subseteq> e_document ` set (entries h)"

definition main_list :: "entry list \<Rightarrow> bool" where
  "main_list es \<longleftrightarrow>
     es \<noteq> [] \<and> sorted_wrt (<) (map e_step es) \<and> e_step (hd es) = 0 \<and>
     map e_local_index es = [0..<length es]"

definition main_ok :: "session_history \<Rightarrow> bool" where
  "main_ok h \<longleftrightarrow>
     (\<exists>es. frame_ids h MAIN = Some (map e_id es) \<and> set es \<subseteq> set (entries h) \<and> main_list es)"

definition hist_wf :: "session_history \<Rightarrow> bool" where
  "hist_wf h \<longleftrightarrow> ids_ok h \<and> bounds_ok h \<and> names_ok h \<and> main_ok h"

text \<open>Room for \<open>k\<close> more identities before the \<open>u64\<close> counters saturate.\<close>

definition hist_room :: "nat \<Rightarrow> session_history \<Rightarrow> bool" where
  "hist_room k h \<longleftrightarrow> next_entry h + k \<le> u64_max \<and> next_document h + k \<le> u64_max"

section \<open>Lookups under the invariant\<close>

lemma ids_okD:
  assumes "ids_ok h"
  shows "distinct (map e_id (entries h))" "distinct (map fst (frames h))"
    and "frame_ids h f = Some ids \<Longrightarrow> distinct ids"
    and "frame_ids h f = Some ids \<Longrightarrow> i \<in> set ids \<Longrightarrow> i \<in> entry_ids h"
    and "frame_ids h f = Some ids \<Longrightarrow> frame_ids h g = Some js \<Longrightarrow>
      i \<in> set ids \<Longrightarrow> i \<in> set js \<Longrightarrow> f = g"
    and "i \<in> entry_ids h \<Longrightarrow> \<exists>f ids. frame_ids h f = Some ids \<and> i \<in> set ids"
  using assms unfolding ids_ok_def by - blast+

lemma locate_Some:
  "distinct (map e_id (entries h)) \<Longrightarrow> locate h i = Some e \<longleftrightarrow> e \<in> set (entries h) \<and> e_id e = i"
  by (simp add: locate_def find_key)

lemma locate_None: "locate h i = None \<longleftrightarrow> i \<notin> entry_ids h"
  by (simp add: locate_def find_key_None entry_ids_def)

lemma locate_SomeD: "locate h i = Some e \<Longrightarrow> e \<in> set (entries h) \<and> e_id e = i"
  by (auto simp: locate_def dest: find_SomeD)

lemma locate_index_Some:
  assumes "locate_index h i = Some n"
  shows "n < length (entries h)" "e_id (entries h ! n) = i" "entries h ! n \<in> set (entries h)"
  using position_Some[OF assms[unfolded locate_index_def]] by simp_all

lemma locate_index_None: "locate_index h i = None \<longleftrightarrow> locate h i = None"
  by (simp add: locate_index_def position_None locate_def find_None_iff_set)

lemma entries_update_index:
  assumes "ids_ok h" and "locate_index h i = Some n"
  shows "(entries h)[n := g (entries h ! n)] = map (\<lambda>e. if e_id e = i then g e else e) (entries h)"
  using position_key_update[where k = e_id and i = i and xs = "entries h" and n = n and f = g]
    update_first_map[where k = e_id and i = i and xs = "entries h" and f = g]
    assms ids_okD(1)[OF assms(1)]
  by (simp add: locate_index_def)

lemma release_names_apply:
  "release_names es ds nm d =
     (if d \<in> set ds \<and> d \<notin> e_document ` set es then None else nm d)"
  by (induction ds arbitrary: nm) auto

section \<open>Edits that keep identities, steps and positions\<close>

definition same_shape :: "(entry \<Rightarrow> entry) \<Rightarrow> bool" where
  "same_shape g \<longleftrightarrow>
     (\<forall>e. e_id (g e) = e_id e \<and> e_step (g e) = e_step e \<and> e_local_index (g e) = e_local_index e)"

lemma same_shape_if [simp]:
  "same_shape g \<Longrightarrow> same_shape (\<lambda>e. if P e then g e else e)"
  by (simp add: same_shape_def)

lemma same_shape_map:
  assumes "same_shape g"
  shows "map e_id (map g es) = map e_id es" "map e_step (map g es) = map e_step es"
    "map e_local_index (map g es) = map e_local_index es"
  using assms by (simp_all add: same_shape_def comp_def)

lemma locate_shape:
  assumes "entries h' = map g (entries h)" "same_shape g"
  shows "locate h' j = map_option g (locate h j)"
proof -
  have "find (\<lambda>e. e_id e = j) (map g es) = map_option g (find (\<lambda>e. e_id e = j) es)" for es
    using assms(2) by (induction es) (auto simp: same_shape_def)
  then show ?thesis using assms(1) by (simp add: locate_def)
qed

lemma ids_ok_shape:
  assumes "ids_ok h" "entries h' = map g (entries h)" "same_shape g" "frames h' = frames h"
  shows "ids_ok h'"
proof -
  have m: "map e_id (entries h') = map e_id (entries h)"
    using assms(2) same_shape_map(1)[OF assms(3)] by simp
  then have "entry_ids h' = entry_ids h" by (metis entry_ids_def list.set_map)
  with assms(1,4) m frame_ids_cong[OF assms(4)] show ?thesis unfolding ids_ok_def by metis
qed

lemma main_list_shape:
  assumes "main_list es" "same_shape g"
  shows "main_list (map g es)"
  using assms same_shape_map[OF assms(2), of es]
  by (simp add: main_list_def hd_map same_shape_def comp_def)

lemma main_ok_shape:
  assumes "main_ok h" "entries h' = map g (entries h)" "same_shape g" "frames h' = frames h"
  shows "main_ok h'"
proof -
  from assms(1) obtain es where es: "frame_ids h MAIN = Some (map e_id es)"
    "set es \<subseteq> set (entries h)" "main_list es" by (auto simp: main_ok_def)
  have "frame_ids h' MAIN = Some (map e_id (map g es))"
    using es(1) frame_ids_cong[OF assms(4)] same_shape_map(1)[OF assms(3)] by simp
  moreover have "set (map g es) \<subseteq> set (entries h')" using es(2) assms(2) by auto
  ultimately show ?thesis using main_list_shape[OF es(3) assms(3)] unfolding main_ok_def by blast
qed

text \<open>Edits of titles, URLs and states leave document states alone too.\<close>

lemma hist_wf_edit:
  assumes "hist_wf h" "same_shape g" "\<And>e. e_document (g e) = e_document e"
    "entries h' = map g (entries h)" "frames h' = frames h" "names h' = names h"
    "current_step h' < next_entry h" "next_entry h' = next_entry h" "next_document h' = next_document h"
  shows "hist_wf h'"
proof -
  have "bounds_ok h'" "names_ok h'"
    using assms by (auto simp: hist_wf_def bounds_ok_def names_ok_def same_shape_def image_image)
  with assms show ?thesis by (auto simp: hist_wf_def intro: ids_ok_shape main_ok_shape)
qed

lemma hist_wf_frame:
  assumes "hist_wf h" "entries h' = entries h" "frames h' = frames h" "names h' = names h"
    "current_step h' < next_entry h" "next_entry h' = next_entry h" "next_document h' = next_document h"
  shows "hist_wf h'"
  by (rule hist_wf_edit[where g = "\<lambda>e. e", OF assms(1)]) (use assms in \<open>auto simp: same_shape_def\<close>)

lemma hist_wf_step_bound: "hist_wf h \<Longrightarrow> current_step h < next_entry h"
  by (simp add: hist_wf_def bounds_ok_def)

text \<open>The new document state of one entry: the replacement of its document, with its name.\<close>

lemma hist_wf_redocument:
  assumes wf: "hist_wf h" and room: "next_document h < u64_max"
    and i: "e \<in> set (entries h)" "e_id e = i" "e_document e = old"
    and g: "same_shape g" "\<And>e. e_document (g e) = next_document h"
    and es: "entries h' = map (\<lambda>e. if e_id e = i then g e else e) (entries h)"
    and nm: "names h' = (if old \<in> e_document ` set (entries h') then nm else nm(old := None))"
            "dom nm \<subseteq> insert (next_document h) (dom (names h))"
    and rest: "frames h' = frames h" "next_entry h' = next_entry h"
      "next_document h' = Suc (next_document h)" "current_step h' < next_entry h"
  shows "hist_wf h'"
proof -
  let ?g = "\<lambda>e. if e_id e = i then g e else e"
  have ids: "distinct (map e_id (entries h))" using wf by (simp add: hist_wf_def ids_ok_def)
  have "ids_ok h'" "main_ok h'"
    using wf es g(1) rest(1) by (auto simp: hist_wf_def intro: ids_ok_shape main_ok_shape)
  moreover have "bounds_ok h'"
    using wf g es rest by (auto simp: hist_wf_def bounds_ok_def same_shape_def less_Suc_eq)
  moreover have "names_ok h'"
  proof -
    have new: "next_document h \<in> e_document ` set (entries h')"
    proof -
      have "g e \<in> set (entries h')" using i(1,2) es by auto
      then show ?thesis using g(2)[of e] by (metis image_eqI)
    qed
    have keep: "d \<in> e_document ` set (entries h')"
      if d: "d \<in> e_document ` set (entries h)" "d \<noteq> old" for d
    proof -
      from d obtain e' where e': "e' \<in> set (entries h)" "e_document e' = d" by auto
      have "e_id e' \<noteq> i"
      proof
        assume "e_id e' = i"
        with e'(1) i(1,2) ids have "e' = e" by (auto simp: distinct_map inj_on_def)
        with e'(2) d(2) i(3) show False by simp
      qed
      with e' es show ?thesis by (force simp: image_iff)
    qed
    have "dom nm \<subseteq> insert (next_document h) (e_document ` set (entries h))"
      using nm(2) wf by (auto simp: hist_wf_def names_ok_def)
    then have in_nm: "d = next_document h \<or> d \<in> e_document ` set (entries h)" if "d \<in> dom nm" for d
      using that by blast
    show ?thesis unfolding names_ok_def
    proof
      fix d assume "d \<in> dom (names h')"
      then have "d \<in> dom nm" "d = old \<Longrightarrow> d \<in> e_document ` set (entries h')"
        using nm(1) by (auto split: if_splits)
      then show "d \<in> e_document ` set (entries h')" using in_nm new keep by blast
    qed
  qed
  ultimately show ?thesis by (simp add: hist_wf_def)
qed

section \<open>Adding an entry\<close>

definition new_entry :: "session_history \<Rightarrow> nat \<Rightarrow> nat \<Rightarrow> url \<Rightarrow> string option \<Rightarrow> entry" where
  "new_entry h step li url state =
     \<lparr> e_id = next_entry h, e_step = step, e_local_index = li, e_url = url, e_title = [],
       e_state = state, e_document = next_document h \<rparr>"

lemma new_entry_sel [simp]:
  "e_id (new_entry h step li url state) = next_entry h"
  "e_step (new_entry h step li url state) = step"
  "e_local_index (new_entry h step li url state) = li"
  "e_url (new_entry h step li url state) = url"
  "e_state (new_entry h step li url state) = state"
  "e_document (new_entry h step li url state) = next_document h"
  by (simp_all add: new_entry_def)

definition insert_at :: "nat \<Rightarrow> 'a \<Rightarrow> 'a list \<Rightarrow> 'a list" where
  "insert_at li i ids = (if li < length ids then take li ids @ i # drop li ids else ids @ [i])"

lemma set_insert_at [simp]: "set (insert_at li i ids) = insert i (set ids)"
  by (auto simp: insert_at_def dest: in_set_takeD in_set_dropD) (metis UnE append_take_drop_id set_append)

lemma distinct_insert_at: "distinct ids \<Longrightarrow> i \<notin> set ids \<Longrightarrow> distinct (insert_at li i ids)"
  by (auto simp: insert_at_def dest: in_set_takeD in_set_dropD set_take_disj_set_drop_if_distinct)

lemma set_name_sel [simp]:
  "entries (set_name d name h) = entries h" "frames (set_name d name h) = frames h"
  "pending (set_name d name h) = pending h" "current_step (set_name d name h) = current_step h"
  "next_document (set_name d name h) = next_document h" "next_entry (set_name d name h) = next_entry h"
  "names (set_name d name h) = (case name of None \<Rightarrow> names h | Some n \<Rightarrow> (names h)(d \<mapsto> n))"
  by (auto simp: set_name_def split: option.splits)

lemma insert_entry_sel:
  "fst (insert_entry f step li url name state h) = next_entry h"
  "entries (snd (insert_entry f step li url name state h)) =
     entries h @ [new_entry h step li url state]"
  "frames (snd (insert_entry f step li url name state h)) =
     AList.update f (insert_at li (next_entry h) (case frame_ids h f of None \<Rightarrow> [] | Some ids \<Rightarrow> ids)) (frames h)"
  "pending (snd (insert_entry f step li url name state h)) = pending h"
  "current_step (snd (insert_entry f step li url name state h)) = current_step h"
  "next_document (snd (insert_entry f step li url name state h)) = sat_succ (next_document h)"
  "next_entry (snd (insert_entry f step li url name state h)) = sat_succ (next_entry h)"
  "names (snd (insert_entry f step li url name state h)) =
     (case name of None \<Rightarrow> names h | Some n \<Rightarrow> (names h)(next_document h \<mapsto> n))"
  by (auto simp: insert_entry_def take_document_def Let_def new_entry_def insert_at_def frame_ids_def
      split: option.splits)

lemma insert_entry_frame_ids:
  "frame_ids (snd (insert_entry f step li url name state h)) =
     (frame_ids h)(f \<mapsto> insert_at li (next_entry h) (case frame_ids h f of None \<Rightarrow> [] | Some ids \<Rightarrow> ids))"
  by (simp add: frame_ids_def insert_entry_sel update_conv')

lemma add_frame_eq:
  "add_frame f url name h =
     (if f = MAIN \<or> frame_ids h f \<noteq> None then h
      else snd (insert_entry f (current_step h) 0 url name None h))"
  by (simp add: add_frame_def insert_entry_def take_document_def Let_def frame_ids_def)

lemma fresh_id: "bounds_ok h \<Longrightarrow> next_entry h \<notin> entry_ids h"
  by (auto simp: bounds_ok_def entry_ids_def)

lemma ids_ok_insert:
  assumes "ids_ok h" "bounds_ok h"
  shows "ids_ok (snd (insert_entry f step li url name state h))"
proof -
  let ?h = "snd (insert_entry f step li url name state h)"
  define ids0 where "ids0 = (case frame_ids h f of None \<Rightarrow> [] | Some ids \<Rightarrow> ids)"
  note fresh = fresh_id[OF assms(2)] and old = ids_okD[OF assms(1)]
  have E: "entry_ids ?h = insert (next_entry h) (entry_ids h)"
    by (auto simp: entry_ids_def insert_entry_sel)
  have F: "frame_ids ?h = (frame_ids h)(f \<mapsto> insert_at li (next_entry h) ids0)"
    by (simp add: insert_entry_frame_ids ids0_def)
  have ids: "distinct ids0" "\<And>i. i \<in> set ids0 \<Longrightarrow> i \<in> entry_ids h" "next_entry h \<notin> set ids0"
    using old(3,4)[of f] fresh by (cases "frame_ids h f"; auto simp: ids0_def)+
  have apart: "i \<notin> set ids0" if "frame_ids h g = Some js" "g \<noteq> f" "i \<in> set js" for g js i
    using old(5)[OF _ that(1)] that(2,3) by (cases "frame_ids h f") (auto simp: ids0_def)
  show ?thesis unfolding ids_ok_def
  proof (intro conjI allI impI ballI)
    show "distinct (map e_id (entries ?h))"
      using old(1) fresh by (simp add: insert_entry_sel entry_ids_def)
    show "distinct (map fst (frames ?h))" using old(2) by (simp add: insert_entry_sel distinct_update)
  next
    fix g js assume g: "frame_ids ?h g = Some js"
    show "distinct js" using g ids distinct_insert_at old(3) by (auto simp: F split: if_splits)
    show "set js \<subseteq> entry_ids ?h" using g ids(2) old(4) by (auto simp: F E split: if_splits)
  next
    fix g g' js js' assume "frame_ids ?h g = Some js" "frame_ids ?h g' = Some js'" "g \<noteq> g'"
    then show "set js \<inter> set js' = {}"
      using apart old(4,5) fresh by (auto simp: F split: if_splits)
  next
    fix i assume "i \<in> entry_ids ?h"
    then consider "i = next_entry h" | "i \<in> entry_ids h" by (auto simp: E)
    then show "\<exists>g js. frame_ids ?h g = Some js \<and> i \<in> set js"
    proof cases
      case 2
      from old(6)[OF this] obtain g js where g: "frame_ids h g = Some js" "i \<in> set js" by blast
      then show ?thesis by (cases "g = f") (auto simp: F ids0_def)
    qed (auto simp: F)
  qed
qed

lemma main_ok_insert:
  assumes "main_ok h"
    and "f = MAIN \<Longrightarrow> li = frame_len h MAIN \<and> (\<forall>e\<in>set (entries h). e_step e < step)"
  shows "main_ok (snd (insert_entry f step li url name state h))"
proof -
  let ?h = "snd (insert_entry f step li url name state h)"
  from assms(1) obtain es where es: "frame_ids h MAIN = Some (map e_id es)"
    "set es \<subseteq> set (entries h)" "main_list es" by (auto simp: main_ok_def)
  show ?thesis
  proof (cases "f = MAIN")
    case False
    with es show ?thesis by (auto simp: main_ok_def insert_entry_frame_ids insert_entry_sel)
  next
    case True
    let ?new = "new_entry h step li url state"
    have li: "li = length es" using assms(2)[OF True] es(1) by (simp add: frame_len_def frame_ids_def)
    have "main_list (es @ [?new])"
      using es(2,3) assms(2)[OF True] li by (auto simp: main_list_def sorted_wrt_append)
    moreover have "frame_ids ?h MAIN = Some (map e_id (es @ [?new]))"
      using es(1) True li by (simp add: insert_entry_frame_ids insert_at_def)
    moreover have "set (es @ [?new]) \<subseteq> set (entries ?h)" using es(2) by (auto simp: insert_entry_sel)
    ultimately show ?thesis unfolding main_ok_def by blast
  qed
qed

lemma hist_wf_insert:
  assumes "hist_wf h" "hist_room 1 h" "step \<le> next_entry h"
    and "f = MAIN \<Longrightarrow> li = frame_len h MAIN \<and> (\<forall>e\<in>set (entries h). e_step e < step)"
  shows "hist_wf (snd (insert_entry f step li url name state h))"
proof -
  let ?h = "snd (insert_entry f step li url name state h)"
  have "bounds_ok ?h"
    using assms by (auto simp: hist_wf_def bounds_ok_def insert_entry_sel hist_room_def less_Suc_eq)
  moreover have "names_ok ?h"
    using assms(1) by (auto simp: hist_wf_def names_ok_def insert_entry_sel split: option.splits if_splits)
  ultimately show ?thesis
    using assms ids_ok_insert main_ok_insert by (auto simp: hist_wf_def)
qed

section \<open>Dropping entries\<close>

text \<open>
  Truncation and frame removal both keep the entries that satisfy a predicate and drop
  the others from the frame lists; the names only dropped entries referred to go too.
\<close>

lemma ids_ok_filter:
  assumes "ids_ok h" "entries h' = filter P (entries h)" "distinct (map fst (frames h'))"
    and fr: "\<And>g. frame_ids h' g =
      (if g \<in> D then None
       else map_option (filter (\<lambda>i. i \<in> e_id ` set (filter P (entries h)))) (frame_ids h g))"
    and D: "\<And>g ids. g \<in> D \<Longrightarrow> frame_ids h g = Some ids \<Longrightarrow>
      set ids \<inter> e_id ` set (filter P (entries h)) = {}"
  shows "ids_ok h'"
proof -
  note old = ids_okD[OF assms(1)]
  have E: "entry_ids h' = e_id ` set (filter P (entries h))" by (simp add: entry_ids_def assms(2))
  have sub: "entry_ids h' \<subseteq> entry_ids h" by (auto simp: entry_ids_def assms(2))
  have fr': "\<exists>ids. frame_ids h g = Some ids \<and> g \<notin> D \<and> js = filter (\<lambda>i. i \<in> entry_ids h') ids"
    if "frame_ids h' g = Some js" for g js
    using that by (auto simp: fr E split: if_splits)
  show ?thesis unfolding ids_ok_def
  proof (intro conjI allI impI ballI)
    show "distinct (map e_id (entries h'))" using old(1) by (simp add: assms(2) distinct_map_filter)
    show "distinct (map fst (frames h'))" by (rule assms(3))
  next
    fix g js assume g: "frame_ids h' g = Some js"
    from fr'[OF g] show "distinct js" "set js \<subseteq> entry_ids h'" using old(3) by auto
  next
    fix g g' js js' assume g: "frame_ids h' g = Some js" "frame_ids h' g' = Some js'" "g \<noteq> g'"
    from fr'[OF g(1)] fr'[OF g(2)] g(3) show "set js \<inter> set js' = {}" using old(5) by auto
  next
    fix i assume i: "i \<in> entry_ids h'"
    with sub old(6) obtain g ids where g: "frame_ids h g = Some ids" "i \<in> set ids" by blast
    with D i have "g \<notin> D" by (auto simp: E)
    with g i have "frame_ids h' g = Some (filter (\<lambda>i. i \<in> entry_ids h') ids)" by (simp add: fr E)
    moreover have "i \<in> set (filter (\<lambda>i. i \<in> entry_ids h') ids)" using g(2) i by simp
    ultimately show "\<exists>g js. frame_ids h' g = Some js \<and> i \<in> set js" by blast
  qed
qed

lemma names_ok_release:
  assumes "names_ok h" "entries h' = filter P (entries h)"
    "names h' = release_names (entries h') ds (names h)"
    "\<And>e. e \<in> set (entries h) \<Longrightarrow> \<not> P e \<Longrightarrow> e_document e \<in> set ds"
  shows "names_ok h'"
  unfolding names_ok_def
proof
  fix d assume "d \<in> dom (names h')"
  then have d: "d \<in> dom (names h)" "d \<in> set ds \<Longrightarrow> d \<in> e_document ` set (entries h')"
    by (auto simp: assms(3) release_names_apply split: if_splits)
  from d(1) assms(1) obtain e where e: "e \<in> set (entries h)" "d = e_document e"
    by (auto simp: names_ok_def)
  show "d \<in> e_document ` set (entries h')"
    using d(2) e assms(2,4) by (cases "P e") auto
qed

lemma truncate_forward_sel:
  "entries (truncate_forward h) = filter (\<lambda>e. e_step e \<le> current_step h) (entries h)"
  "current_step (truncate_forward h) = current_step h"
  "next_document (truncate_forward h) = next_document h"
  "next_entry (truncate_forward h) = next_entry h"
  "pending (truncate_forward h) = pending h"
  "names (truncate_forward h) = release_names (entries (truncate_forward h))
     (map e_document (filter (\<lambda>e. e_step e > current_step h) (entries h))) (names h)"
  "map fst (frames (truncate_forward h)) = map fst (frames h)"
  by (simp_all add: truncate_forward_def Let_def comp_def case_prod_unfold)

lemma truncate_forward_frame_ids:
  "frame_ids (truncate_forward h) f = map_option (filter (\<lambda>i. i \<in> entry_ids (truncate_forward h))) (frame_ids h f)"
  by (simp add: truncate_forward_def Let_def frame_ids_def entry_ids_def map_of_map)

lemma truncate_forward_steps:
  "e \<in> set (entries (truncate_forward h)) \<Longrightarrow> e_step e \<le> current_step (truncate_forward h)"
  by (simp add: truncate_forward_sel)

lemma filter_live_ids:
  assumes "distinct (map e_id es)" "set xs \<subseteq> set es"
  shows "filter (\<lambda>i. i \<in> e_id ` set (filter P es)) (map e_id xs) = map e_id (filter P xs)"
proof -
  have "e_id x \<in> e_id ` set (filter P es) \<longleftrightarrow> P x" if "x \<in> set xs" for x
    using assms that by (auto simp: distinct_map inj_on_def)
  then show ?thesis by (simp add: filter_map comp_def cong: filter_cong)
qed

lemma main_list_filter:
  assumes "main_list es" shows "main_list (filter (\<lambda>e. e_step e \<le> s) es)"
proof -
  have s: "sorted_wrt (\<lambda>a b. e_step a < e_step b) es" using assms by (simp add: main_list_def sorted_wrt_map)
  have tw: "filter (\<lambda>e. e_step e \<le> s) es = takeWhile (\<lambda>e. e_step e \<le> s) es"
    using s
  proof (induction es)
    case (Cons a es)
    then show ?case by (cases es) (auto simp: filter_empty_conv)
  qed simp
  obtain k where k: "takeWhile (\<lambda>e. e_step e \<le> s) es = take k es"
    by (metis takeWhile_eq_take)
  obtain x xs where es: "es = x # xs" "e_step x = 0"
    using assms by (cases es) (auto simp: main_list_def)
  then have ne: "take k es \<noteq> []" and hd: "hd (take k es) = hd es" using k by (cases k; auto)+
  have "map e_local_index (take k es) = [0..<length (take k es)]"
    using assms by (simp add: main_list_def take_map[symmetric] take_upt min_def)
  with assms ne hd show ?thesis
    by (simp add: main_list_def tw k take_map[symmetric] sorted_wrt_take)
qed

lemma hist_wf_truncate:
  assumes "hist_wf h" shows "hist_wf (truncate_forward h)"
proof -
  let ?h = "truncate_forward h" and ?P = "\<lambda>e. e_step e \<le> current_step h"
  have ids: "ids_ok h" using assms by (simp add: hist_wf_def)
  have "ids_ok ?h"
    by (rule ids_ok_filter[OF ids, where D = "{}" and P = ?P])
      (use ids_okD(2)[OF ids] in \<open>simp_all add: truncate_forward_sel truncate_forward_frame_ids entry_ids_def\<close>)
  moreover have "bounds_ok ?h"
    using assms by (auto simp: hist_wf_def bounds_ok_def truncate_forward_sel)
  moreover have "names_ok ?h"
    by (rule names_ok_release[where h = h and P = ?P])
      (use assms in \<open>auto simp: hist_wf_def truncate_forward_sel\<close>)
  moreover have "main_ok ?h"
  proof -
    from assms obtain es where es: "frame_ids h MAIN = Some (map e_id es)"
      "set es \<subseteq> set (entries h)" "main_list es" by (auto simp: hist_wf_def main_ok_def)
    have "frame_ids ?h MAIN = Some (map e_id (filter ?P es))"
      using filter_live_ids[OF ids_okD(1)[OF ids] es(2), of ?P]
      by (simp add: truncate_forward_frame_ids es(1) entry_ids_def truncate_forward_sel)
    with es main_list_filter[OF es(3), of "current_step h"] show ?thesis
      unfolding main_ok_def by (intro exI[of _ "filter ?P es"]) (auto simp: truncate_forward_sel)
  qed
  ultimately show ?thesis by (simp add: hist_wf_def)
qed

section \<open>The operations\<close>

lemma hist_room_mono: "hist_room k h \<Longrightarrow> j \<le> k \<Longrightarrow> hist_room j h"
  by (simp add: hist_room_def)

lemma hist_wf_add_frame:
  assumes "hist_wf h" "hist_room 1 h"
  shows "hist_wf (add_frame f url name h)"
  using hist_wf_insert[OF assms] hist_wf_step_bound[OF assms(1)] assms(1)
  by (simp add: add_frame_eq)

lemma push_entry_sel:
  "fst (push_entry f li url name state h) = next_entry h"
  "snd (push_entry f li url name state h) =
     (snd (insert_entry f (sat_succ (current_step h)) li url name state h))
       \<lparr>current_step := sat_succ (current_step h)\<rparr>"
  by (simp_all add: push_entry_def Let_def case_prod_unfold insert_entry_sel)

lemma hist_wf_push:
  assumes "hist_wf h" "hist_room 1 h" "\<And>e. e \<in> set (entries h) \<Longrightarrow> e_step e \<le> current_step h"
    "f = MAIN \<Longrightarrow> li = frame_len h MAIN"
  shows "hist_wf (snd (push_entry f li url name state h))"
proof -
  have cur: "current_step h < next_entry h" by (rule hist_wf_step_bound[OF assms(1)])
  with assms(2) have s: "sat_succ (current_step h) = Suc (current_step h)"
    by (simp add: hist_room_def)
  have "hist_wf (snd (insert_entry f (Suc (current_step h)) li url name state h))"
    using assms cur by (intro hist_wf_insert) (auto simp: less_Suc_eq_le)
  then show ?thesis
    by (rule hist_wf_frame) (use s cur assms(2) in \<open>auto simp: push_entry_sel insert_entry_sel hist_room_def\<close>)
qed

lemma hist_room_truncate [simp]: "hist_room k (truncate_forward h) = hist_room k h"
  by (simp add: hist_room_def truncate_forward_sel)

lemma hist_wf_truncate_push:
  assumes "hist_wf h" "hist_room 1 h" "f = MAIN \<Longrightarrow> li = frame_len (truncate_forward h) MAIN"
  shows "hist_wf (snd (push_entry f li url name state (truncate_forward h)))"
  using assms hist_wf_truncate truncate_forward_steps by (intro hist_wf_push) auto

lemma hist_wf_replace:
  assumes "hist_wf h" "hist_room 1 h"
  shows "hist_wf (replace_entry i url name h)"
proof (cases "locate_index h i")
  case None
  with assms show ?thesis by (simp add: replace_entry_def)
next
  case (Some n)
  let ?g = "\<lambda>e. e\<lparr>e_url := url, e_title := [], e_state := None, e_document := next_document h\<rparr>"
  have ids: "ids_ok h" using assms(1) by (simp add: hist_wf_def)
  note li = locate_index_Some[OF Some]
  have es: "(entries h)[n := ?g (entries h ! n)] = map (\<lambda>e. if e_id e = i then ?g e else e) (entries h)"
    by (rule entries_update_index[OF ids Some])
  show ?thesis
    by (rule hist_wf_redocument[OF assms(1) _ li(3) li(2) refl, where g = ?g and
          nm = "case name of None \<Rightarrow> names h | Some m \<Rightarrow> (names h)(next_document h \<mapsto> m)"])
      (use assms(2) Some es hist_wf_step_bound[OF assms(1)] in
        \<open>auto simp: replace_entry_def take_document_def Let_def hist_room_def same_shape_def split: option.splits\<close>)
qed

lemma hist_wf_pending: "hist_wf (h\<lparr>pending := p\<rparr>) = hist_wf h"
  by (simp add: hist_wf_def ids_ok_def bounds_ok_def names_ok_def main_ok_def)

lemma hist_room_pending [simp]: "hist_room k (h\<lparr>pending := p\<rparr>) = hist_room k h"
  by (simp add: hist_room_def)

lemma add_frame_room: "hist_room (Suc k) h \<Longrightarrow> hist_room k (add_frame f url name h)"
  by (auto simp: add_frame_eq hist_room_def insert_entry_sel)

text \<open>
  What \<open>begin\<close> can do to the state of a child frame: record a pending change, drop one,
  replace an entry, or push. A predicate kept by each of these is kept by \<open>begin\<close>.
\<close>

lemma begin_navigation_cases:
  assumes "f = MAIN \<Longrightarrow> P h"
    and h1: "h1 = (if map_of (frames h) f = None then add_frame f url None h else h)"
    and "f \<noteq> MAIN \<Longrightarrow> P h1" "\<And>p. f \<noteq> MAIN \<Longrightarrow> P (h1\<lparr>pending := p\<rparr>)"
    and "\<And>i p. f \<noteq> MAIN \<Longrightarrow> P (replace_entry i url name (h1\<lparr>pending := p\<rparr>))"
    and "\<And>p. f \<noteq> MAIN \<Longrightarrow> P (snd (push_entry f li url name None (truncate_forward (h1\<lparr>pending := p\<rparr>))))"
  shows "P (snd (begin_navigation f url replace li name is_pending h))"
proof (cases "f = MAIN")
  case True
  with assms(1) show ?thesis by (simp add: begin_navigation_def)
next
  case False
  note P = assms(3-6)[OF False]
  show ?thesis
    unfolding begin_navigation_def h1[symmetric] Let_def
    using False P by (cases is_pending) (auto simp: case_prod_unfold split: option.split)
qed

lemma hist_wf_begin:
  assumes "hist_wf h" "hist_room 2 h"
  shows "hist_wf (snd (begin_navigation f url replace li name is_pending h))"
proof (rule begin_navigation_cases[where P = hist_wf, OF assms(1) refl])
  let ?h = "if map_of (frames h) f = None then add_frame f url None h else h"
  have h1: "hist_wf ?h" "hist_room 1 ?h"
    using hist_wf_add_frame[OF assms(1) hist_room_mono[OF assms(2)]]
      add_frame_room[of 1 h f url None] assms hist_room_mono[of 2 h 1]
    by (auto simp: numeral_2_eq_2)
  show "hist_wf ?h" by (rule h1)
  show "hist_wf (?h\<lparr>pending := p\<rparr>)" for p using h1 by (simp only: hist_wf_pending)
  then show "hist_wf (replace_entry i url name (?h\<lparr>pending := p\<rparr>))" for i p
    using h1 by (intro hist_wf_replace) (simp_all only: hist_room_pending)
  show "f \<noteq> MAIN \<Longrightarrow> hist_wf (snd (push_entry f li url name None (truncate_forward (?h\<lparr>pending := p\<rparr>))))" for p
    using h1 by (intro hist_wf_truncate_push) (simp_all only: hist_wf_pending hist_room_pending)
qed

lemma hist_wf_rewrite_entry:
  assumes "hist_wf h" "same_shape g" "\<And>e. e_document (g e) = e_document e"
  shows "hist_wf (h\<lparr>entries := update_first (\<lambda>e. e_id e = i) g (entries h)\<rparr>)"
proof -
  let ?G = "\<lambda>e. if e_id e = i then g e else e"
  have dist: "distinct (map e_id (entries h))" using assms(1) by (simp add: hist_wf_def ids_ok_def)
  have shape: "same_shape ?G" using assms(2) by simp
  show ?thesis
    by (rule hist_wf_edit[OF assms(1) shape])
      (simp_all add: assms(3) update_first_map[OF dist] hist_wf_step_bound[OF assms(1)])
qed

lemma hist_wf_commit_url:
  assumes "hist_wf h" "hist_room 1 h"
  shows "hist_wf (commit_url f url h)"
proof -
  let ?h = "h\<lparr>pending := (pending h)(f := None)\<rparr>"
  have h: "hist_wf ?h" "hist_room 1 ?h" using assms by (simp_all add: hist_wf_pending)
  show ?thesis
    using hist_wf_rewrite_entry[OF assms(1), of "\<lambda>e. e\<lparr>e_url := url\<rparr>"] assms(1)
      hist_wf_replace[OF h] hist_wf_truncate_push[OF h, of f "frame_len (truncate_forward ?h) f"]
    by (auto simp: commit_url_def Let_def same_shape_def split: option.splits pending_change.splits)
qed

lemma hist_wf_set_title: "hist_wf h \<Longrightarrow> hist_wf (set_title f title h)"
  using hist_wf_rewrite_entry[of h "\<lambda>e. e\<lparr>e_title := title\<rparr>"]
  by (simp add: set_title_def same_shape_def split: option.splits)

lemma hist_wf_names:
  "hist_wf h \<Longrightarrow> dom nm \<subseteq> e_document ` set (entries h) \<Longrightarrow> hist_wf (h\<lparr>names := nm\<rparr>)"
  by (simp add: hist_wf_def ids_ok_def bounds_ok_def names_ok_def main_ok_def)

lemma hist_wf_sync_name:
  assumes "hist_wf h" shows "hist_wf (sync_current_name name h)"
proof -
  have "dom (names h) \<subseteq> e_document ` set (entries h)" using assms by (simp add: hist_wf_def names_ok_def)
  then have "dom ((names h)(e_document e := name)) \<subseteq> e_document ` set (entries h)"
    if "locate h i = Some e" for i e
    using locate_SomeD[OF that] by (auto split: if_splits)
  with assms show ?thesis by (simp add: sync_current_name_def hist_wf_names split: option.splits)
qed

text \<open>An entry without a name of its own starts presenting an existing document state.\<close>

lemma hist_wf_share_document:
  assumes "hist_wf h" "e \<in> set (entries h)" "e_id e = i" "names h (e_document e) = None"
    "d < next_document h"
  shows "hist_wf (h\<lparr>entries := update_first (\<lambda>e. e_id e = i)
           (\<lambda>e. e\<lparr>e_document := d, e_title := t\<rparr>) (entries h)\<rparr>)" (is "hist_wf ?h")
proof -
  let ?G = "\<lambda>e. if e_id e = i then e\<lparr>e_document := d, e_title := t\<rparr> else e"
  have dist: "distinct (map e_id (entries h))" using assms(1) by (simp add: hist_wf_def ids_ok_def)
  have es: "entries ?h = map ?G (entries h)" by (simp add: update_first_map[OF dist])
  have shape: "same_shape ?G" by (simp add: same_shape_def)
  have "ids_ok ?h" "main_ok ?h"
    using assms(1) ids_ok_shape[OF _ es shape] main_ok_shape[OF _ es shape] by (simp_all add: hist_wf_def)
  moreover have "bounds_ok ?h"
    using assms(1,5) unfolding bounds_ok_def es hist_wf_def by auto
  moreover have "names_ok ?h" unfolding names_ok_def es
  proof
    fix d' assume d': "d' \<in> dom (names ?h)"
    with assms(1) obtain e' where e': "e' \<in> set (entries h)" "d' = e_document e'"
      by (auto simp: hist_wf_def names_ok_def)
    have "e_id e' \<noteq> i"
    proof
      assume "e_id e' = i"
      with e'(1) assms(2,3) dist have "e' = e" by (auto simp: distinct_map inj_on_def)
      with d' e'(2) assms(4) show False by auto
    qed
    with e' show "d' \<in> e_document ` set (map ?G (entries h))" by (force simp: image_iff)
  qed
  ultimately show ?thesis by (simp add: hist_wf_def)
qed

lemma fresh_document_unnamed:
  assumes "hist_wf h" shows "names h (next_document h) = None"
proof (rule ccontr)
  assume "names h (next_document h) \<noteq> None"
  then have "next_document h \<in> dom (names h)" by auto
  then have "next_document h \<in> e_document ` set (entries h)"
    using assms by (auto simp: hist_wf_def names_ok_def)
  then show False using assms by (auto simp: hist_wf_def bounds_ok_def)
qed

lemma hist_wf_update_push:
  assumes "hist_wf h" "hist_room 1 h" "active_entry h f = Some active" "locate h active = Some a"
  shows "hist_wf (hist_update f url state HPush h)"
proof -
  let ?t = "truncate_forward h"
  let ?new = "new_entry ?t (sat_succ (current_step h)) (frame_len ?t f) url (Some state)"
  define h2 where "h2 = snd (push_entry f (frame_len ?t f) url None (Some state) ?t)"
  have eq: "hist_update f url state HPush h =
      h2\<lparr>entries := update_first (\<lambda>e. e_id e = next_entry h)
           (\<lambda>e. e\<lparr>e_document := e_document a, e_title := e_title a\<rparr>) (entries h2)\<rparr>"
    using assms(3,4)
    by (simp add: hist_update_def h2_def push_entry_sel insert_entry_sel Let_def
        case_prod_unfold truncate_forward_sel)
  have "names h2 (next_document h) = None"
    using fresh_document_unnamed[OF hist_wf_truncate[OF assms(1)]]
    by (simp add: h2_def push_entry_sel insert_entry_sel truncate_forward_sel)
  moreover have "?new \<in> set (entries h2)"
    by (simp add: h2_def push_entry_sel insert_entry_sel truncate_forward_sel)
  moreover have "e_document a < next_document h2"
    using locate_SomeD[OF assms(4)] assms(1,2)
    by (auto simp: hist_wf_def bounds_ok_def h2_def push_entry_sel insert_entry_sel
        truncate_forward_sel hist_room_def less_Suc_eq)
  moreover have "hist_wf h2" unfolding h2_def by (rule hist_wf_truncate_push[OF assms(1,2)]) simp
  ultimately show ?thesis unfolding eq
    by (intro hist_wf_share_document[where e = ?new]) (simp_all add: truncate_forward_sel)
qed

lemma hist_wf_update:
  assumes "hist_wf h" "hist_room 1 h"
  shows "hist_wf (hist_update f url state handling h)"
proof (cases handling)
  case HPush
  with assms hist_wf_update_push[OF assms] show ?thesis
    by (cases "active_entry h f"; cases "locate h (the (active_entry h f))") (auto simp: hist_update_def)
next
  case HReplace
  with assms(1) hist_wf_rewrite_entry[OF assms(1), of "\<lambda>e. e\<lparr>e_url := url, e_state := Some state\<rparr>"]
  show ?thesis by (simp add: hist_update_def same_shape_def split: option.splits)
qed

lemma hist_wf_commit:
  assumes "hist_wf h" "hist_room 1 h"
  shows "hist_wf (snd (hist_commit c h))"
proof (cases c)
  case (CommitPush url name)
  then show ?thesis
    using hist_wf_truncate_push[OF assms, of MAIN "frame_len (truncate_forward h) MAIN"]
    by (simp add: hist_commit_def Let_def)
next
  case (CommitTraverse i url)
  show ?thesis
  proof (cases "locate_index h i")
    case None
    with CommitTraverse assms show ?thesis by (simp add: hist_commit_def)
  next
    case (Some n)
    let ?g = "\<lambda>e. e\<lparr>e_url := url, e_document := next_document h\<rparr>"
    have ids: "ids_ok h" using assms(1) by (simp add: hist_wf_def)
    note li = locate_index_Some[OF Some]
    have es: "(entries h)[n := ?g (entries h ! n)] = map (\<lambda>e. if e_id e = i then ?g e else e) (entries h)"
      by (rule entries_update_index[OF ids Some])
    have st: "e_step (entries h ! n) < next_entry h"
      using assms(1) li(3) by (auto simp: hist_wf_def bounds_ok_def)
    show ?thesis
      by (rule hist_wf_redocument[OF assms(1) _ li(3) li(2) refl, where g = ?g and
          nm = "case names h (e_document (entries h ! n)) of None \<Rightarrow> names h
                | Some m \<Rightarrow> (names h)(next_document h \<mapsto> m)"])
        (use assms(2) Some es st CommitTraverse in
          \<open>auto simp: hist_commit_def take_document_def Let_def hist_room_def same_shape_def split: option.splits\<close>)
  qed
qed

lemma clamp_current_step_eq:
  "clamp_current_step h = h\<lparr>current_step :=
     (if \<exists>e\<in>set (entries h). e_step e \<le> current_step h
      then Max {e_step e | e. e \<in> set (entries h) \<and> e_step e \<le> current_step h} else 0)\<rparr>"
proof -
  let ?xs = "map e_step (filter (\<lambda>e. e_step e \<le> current_step h) (entries h))"
  have "set ?xs = {e_step e | e. e \<in> set (entries h) \<and> e_step e \<le> current_step h}" by auto
  moreover have "?xs = [] \<longleftrightarrow> \<not> (\<exists>e\<in>set (entries h). e_step e \<le> current_step h)"
    by (auto simp: filter_empty_conv)
  ultimately show ?thesis
    using max_opt_Some[of ?xs] by (auto simp: clamp_current_step_def max_opt_def)
qed

lemma clamp_current_step_le: "current_step (clamp_current_step h) \<le> current_step h"
proof -
  have "finite {e_step e | e. e \<in> set (entries h) \<and> e_step e \<le> current_step h}"
    by (rule finite_subset[of _ "{..current_step h}"]) auto
  then show ?thesis by (subst clamp_current_step_eq) (auto intro!: Max.boundedI)
qed

lemma remove_frame_eq:
  assumes "f \<noteq> MAIN" "frame_ids h f = Some ids"
  shows "remove_frame f h = clamp_current_step (h\<lparr>
      frames := AList.delete f (frames h), pending := (pending h)(f := None),
      entries := filter (\<lambda>e. e_id e \<notin> set ids) (entries h),
      names := release_names (filter (\<lambda>e. e_id e \<notin> set ids) (entries h))
        (List.map_filter (\<lambda>i. map_option e_document (locate h i)) ids) (names h)\<rparr>)"
  using assms by (simp add: remove_frame_def frame_ids_def Let_def locate_def)

lemma remove_frame_main: "remove_frame MAIN h = h"
  by (simp add: remove_frame_def)

lemma remove_frame_absent: "frame_ids h f = None \<Longrightarrow> remove_frame f h = h"
  by (simp add: remove_frame_def frame_ids_def)

lemma removed_documents:
  assumes "distinct (map e_id (entries h))" "e \<in> set (entries h)" "e_id e \<in> set ids"
  shows "e_document e \<in> set (List.map_filter (\<lambda>i. map_option e_document (locate h i)) ids)"
proof -
  have "locate h (e_id e) = Some e" using assms by (simp add: locate_Some)
  with assms(3) show ?thesis by (force simp: List.map_filter_def)
qed

lemma other_frames_keep:
  assumes "ids_ok h" "frame_ids h g = Some js" "frame_ids h f = Some ids" "g \<noteq> f"
  shows "filter (\<lambda>i. i \<in> e_id ` set (filter (\<lambda>e. e_id e \<notin> set ids) (entries h))) js = js"
proof -
  have "i \<in> e_id ` set (filter (\<lambda>e. e_id e \<notin> set ids) (entries h))" if "i \<in> set js" for i
    using ids_okD(4)[OF assms(1,2) that] ids_okD(5)[OF assms(1-3) that] assms(4)
    by (auto simp: entry_ids_def)
  then show ?thesis by (simp add: filter_id_conv)
qed

lemma hist_wf_remove_frame:
  assumes "hist_wf h" shows "hist_wf (remove_frame f h)"
proof (cases "f = MAIN \<or> frame_ids h f = None")
  case True
  with assms show ?thesis by (auto simp: remove_frame_main remove_frame_absent)
next
  case False
  then obtain ids where f: "f \<noteq> MAIN" "frame_ids h f = Some ids" by auto
  let ?P = "\<lambda>e. e_id e \<notin> set ids"
  let ?ds = "List.map_filter (\<lambda>i. map_option e_document (locate h i)) ids"
  define h1 where "h1 = h\<lparr>frames := AList.delete f (frames h), pending := (pending h)(f := None),
      entries := filter ?P (entries h), names := release_names (filter ?P (entries h)) ?ds (names h)\<rparr>"
  have ok: "ids_ok h" "bounds_ok h" "names_ok h" "main_ok h" using assms by (simp_all add: hist_wf_def)
  note old = ids_okD[OF ok(1)]
  have fr: "frame_ids h1 = (frame_ids h)(f := None)"
    by (simp add: h1_def frame_ids_def delete_conv')
  note keep = other_frames_keep[OF ok(1) _ f(2)]
  have "ids_ok h1"
  proof (rule ids_ok_filter[OF ok(1), where P = ?P and D = "{f}"])
    show "distinct (map fst (frames h1))" using old(2) by (simp add: h1_def distinct_delete)
    show "frame_ids h1 g = (if g \<in> {f} then None else
        map_option (filter (\<lambda>i. i \<in> e_id ` set (filter ?P (entries h)))) (frame_ids h g))" for g
      using keep[of g] by (cases "frame_ids h g") (auto simp: fr)
  qed (use f in \<open>auto simp: h1_def\<close>)
  moreover have "names_ok h1"
    by (rule names_ok_release[OF ok(3), where P = ?P and ds = ?ds])
      (use removed_documents[OF old(1)] in \<open>auto simp: h1_def\<close>)
  moreover have "main_ok h1"
  proof -
    from ok(4) obtain es where es: "frame_ids h MAIN = Some (map e_id es)"
      "set es \<subseteq> set (entries h)" "main_list es" by (auto simp: main_ok_def)
    have "set es \<subseteq> set (entries h1)"
      using es(2) old(5)[OF es(1) f(2)] f(1) by (auto simp: h1_def)
    with es f(1) fr show ?thesis unfolding main_ok_def by (intro exI[of _ es]) simp
  qed
  moreover have "bounds_ok h1" using ok(2) by (auto simp: h1_def bounds_ok_def)
  ultimately have "hist_wf h1" by (simp add: hist_wf_def)
  then have "hist_wf (clamp_current_step h1)"
    using hist_wf_step_bound[of h1] clamp_current_step_le[of h1]
    by - (rule hist_wf_frame[of h1], simp_all add: clamp_current_step_eq)
  then show ?thesis by (simp add: remove_frame_eq[OF f] h1_def)
qed

lemma hist_wf_clear_children: "hist_wf h \<Longrightarrow> hist_wf (clear_children h)"
proof -
  have "hist_wf (fold remove_frame fs h)" if "hist_wf h" for fs h
    using that by (induction fs arbitrary: h) (auto simp: hist_wf_remove_frame)
  then show "hist_wf h \<Longrightarrow> hist_wf (clear_children h)" by (simp add: clear_children_def)
qed

end
