(* ===== verification/Session_History_Props.thy ===== *)
theory Session_History_Props
  imports Session_History_Inv
begin

text \<open>
  What a tab's joint session history guarantees: runs of operations keep the invariant,
  the snapshots handed to renderers and to protocol adapters are in range, a push drops
  the forward branch, a traversal moves by exactly the distance asked for, and the
  error and rollback paths leave the list alone.
\<close>

section \<open>Runs of operations\<close>

datatype hist_op =
    AddFrame frame_id url "context_name option"
  | Begin frame_id url bool nat "context_name option" bool
  | CommitUrl frame_id url
  | DiscardPending frame_id
  | SyncName "context_name option"
  | SetTitle frame_id string
  | Update frame_id url string history_handling
  | Commit commit
  | SetCurrentStep nat
  | TraverseSameDocument entry_id
  | RemoveFrame frame_id
  | ClearChildren

fun hist_apply :: "hist_op \<Rightarrow> session_history \<Rightarrow> session_history" where
  "hist_apply (AddFrame f url name) h = add_frame f url name h"
| "hist_apply (Begin f url replace li name p) h = snd (begin_navigation f url replace li name p h)"
| "hist_apply (CommitUrl f url) h = commit_url f url h"
| "hist_apply (DiscardPending f) h = discard_pending f h"
| "hist_apply (SyncName name) h = sync_current_name name h"
| "hist_apply (SetTitle f title) h = set_title f title h"
| "hist_apply (Update f url state handling) h = hist_update f url state handling h"
| "hist_apply (Commit c) h = snd (hist_commit c h)"
| "hist_apply (SetCurrentStep s) h = set_current_step s h"
| "hist_apply (TraverseSameDocument i) h = snd (traverse_same_document i h)"
| "hist_apply (RemoveFrame f) h = remove_frame f h"
| "hist_apply ClearChildren h = clear_children h"

text \<open>
  The tab coordinator only makes a step current that some entry had when the traversal
  chose it. Steps never exceed the identity counter, so that is all the guard asks for.
\<close>

definition op_allowed :: "hist_op \<Rightarrow> session_history \<Rightarrow> bool" where
  "op_allowed op h = (case op of SetCurrentStep s \<Rightarrow> s < next_entry h | _ \<Rightarrow> True)"

inductive hist_reach :: "nat \<Rightarrow> session_history \<Rightarrow> bool" where
  start: "hist_reach 0 (hist_new blank name)"
| step: "hist_reach n h \<Longrightarrow> op_allowed op h \<Longrightarrow> hist_reach (Suc n) (hist_apply op h)"

inductive_cases hist_reach_SucE: "hist_reach (Suc n) h"

lemma hist_wf_new: "hist_wf (hist_new blank name)"
proof -
  have f: "frame_ids (hist_new blank name) f = (if f = MAIN then Some [0] else None)" for f
    by (simp add: frame_ids_def hist_new_def)
  have "ids_ok (hist_new blank name)"
    unfolding ids_ok_def f by (auto simp: hist_new_def entry_ids_def)
  moreover have "main_ok (hist_new blank name)"
    unfolding main_ok_def f
    by (intro exI[of _ "entries (hist_new blank name)"]) (simp add: main_list_def hist_new_def)
  ultimately show ?thesis
    by (auto simp: hist_wf_def bounds_ok_def names_ok_def hist_new_def split: option.splits)
qed

lemma hist_wf_apply:
  assumes "hist_wf h" "hist_room 2 h" "op_allowed op h"
  shows "hist_wf (hist_apply op h)"
proof -
  have r1: "hist_room 1 h" by (rule hist_room_mono[OF assms(2)]) simp
  have step: "e_step e < next_entry h" if "locate h i = Some e" for i e
    using assms(1) locate_SomeD[OF that] by (auto simp: hist_wf_def bounds_ok_def)
  have cur: "hist_wf (h\<lparr>current_step := s\<rparr>)" if "s < next_entry h" for s
    by (rule hist_wf_frame[OF assms(1)]) (simp_all add: that)
  show ?thesis
    using assms(1,3) hist_wf_add_frame[OF assms(1) r1] hist_wf_begin[OF assms(1,2)]
      hist_wf_commit_url[OF assms(1) r1] hist_wf_sync_name hist_wf_set_title
      hist_wf_update[OF assms(1) r1] hist_wf_commit[OF assms(1) r1] hist_wf_remove_frame
      hist_wf_clear_children cur step
    by (cases op) (simp_all add: discard_pending_def hist_wf_pending op_allowed_def
        set_current_step_def traverse_same_document_def split: option.split)
qed

text \<open>Every operation uses at most two entry identities and two document ids.\<close>

definition grows :: "nat \<Rightarrow> session_history \<Rightarrow> session_history \<Rightarrow> bool" where
  "grows k h h' \<longleftrightarrow> next_entry h' \<le> next_entry h + k \<and> next_document h' \<le> next_document h + k"

lemma sat_succ_le [simp]: "sat_succ n \<le> Suc n"
  by (simp add: sat_succ_def)

lemma insert_entry_grows: "grows 1 h (snd (insert_entry f step li url name state h))"
  by (simp add: grows_def insert_entry_sel)

lemma push_entry_grows: "grows 1 h (snd (push_entry f li url name state (truncate_forward h)))"
  using insert_entry_grows[of "truncate_forward h"]
  by (simp add: grows_def push_entry_sel truncate_forward_sel)

lemma replace_entry_grows: "grows 1 h (replace_entry i url name h)"
  by (simp add: grows_def replace_entry_def take_document_def Let_def split: option.splits)

lemma grows_mono: "grows j h h' \<Longrightarrow> j \<le> k \<Longrightarrow> grows k h h'"
  by (simp add: grows_def)

lemma grows_trans: "grows j h h' \<Longrightarrow> grows k h' h'' \<Longrightarrow> grows (j + k) h h''"
  by (simp add: grows_def)

lemma grows_pending [simp]:
  "grows k h (h'\<lparr>pending := p\<rparr>) = grows k h h'" "grows k (h\<lparr>pending := p\<rparr>) h' = grows k h h'"
  by (simp_all add: grows_def)

lemma add_frame_grows: "grows 1 h (add_frame f url name h)"
  by (simp add: add_frame_eq grows_def insert_entry_sel)

lemma begin_grows: "grows 2 h (snd (begin_navigation f url replace li name p h))"
proof (rule begin_navigation_cases[where P = "grows 2 h", OF _ refl])
  let ?h = "if map_of (frames h) f = None then add_frame f url None h else h"
  have h1: "grows 1 h ?h" using add_frame_grows by (simp add: grows_def)
  have two: "grows 2 h h'" if "grows 1 ?h h'" for h'
    using grows_trans[OF h1 that] by (simp only: one_add_one)
  show "grows 2 h h" by (simp add: grows_def)
  show "grows 2 h ?h" by (rule grows_mono[OF h1]) simp
  then show "grows 2 h (?h\<lparr>pending := q\<rparr>)" for q by (simp only: grows_pending)
  show "grows 2 h (replace_entry i url name (?h\<lparr>pending := q\<rparr>))" for i q
    by (rule two, rule replace_entry_grows[of "?h\<lparr>pending := q\<rparr>", unfolded grows_pending])
  show "grows 2 h (snd (push_entry f li url name None (truncate_forward (?h\<lparr>pending := q\<rparr>))))" for q
    by (rule two, rule push_entry_grows[of "?h\<lparr>pending := q\<rparr>", unfolded grows_pending])
qed

lemma release_counters [simp]:
  "next_entry (clamp_current_step h) = next_entry h"
  "next_document (clamp_current_step h) = next_document h"
  by (simp_all add: clamp_current_step_def split: option.splits)

lemma remove_frame_counters [simp]:
  "next_entry (remove_frame f h) = next_entry h" "next_document (remove_frame f h) = next_document h"
  by (simp_all add: remove_frame_def Let_def split: option.splits)

lemma clear_children_counters [simp]:
  "next_entry (clear_children h) = next_entry h" "next_document (clear_children h) = next_document h"
proof -
  have "next_entry (fold remove_frame fs h) = next_entry h \<and>
        next_document (fold remove_frame fs h) = next_document h" for fs
    by (induction fs arbitrary: h) auto
  then show "next_entry (clear_children h) = next_entry h" "next_document (clear_children h) = next_document h"
    by (simp_all add: clear_children_def)
qed

lemma hist_apply_grows: "grows 2 h (hist_apply op h)"
proof -
  have one: "grows 1 h h' \<Longrightarrow> grows 2 h h'" for h' by (rule grows_mono, assumption, simp)
  show ?thesis
  proof (cases op)
    case (AddFrame f url name)
    then show ?thesis using one add_frame_grows by simp
  next
    case (Begin f url replace li name p)
    then show ?thesis using begin_grows by simp
  next
    case (CommitUrl f url)
    then show ?thesis
      using one[OF push_entry_grows[of "h\<lparr>pending := (pending h)(f := None)\<rparr>", unfolded grows_pending]]
        one[OF replace_entry_grows[of "h\<lparr>pending := (pending h)(f := None)\<rparr>", unfolded grows_pending]]
      by (simp add: commit_url_def Let_def split: option.split pending_change.split) (simp add: grows_def)
  next
    case (Update f url state handling)
    then show ?thesis
      by (auto simp: hist_update_def Let_def case_prod_unfold grows_def insert_entry_sel truncate_forward_sel
          intro: le_SucI split: option.split history_handling.split)
  next
    case (Commit c)
    then show ?thesis
      using one[OF push_entry_grows[of h]]
      by (auto simp: hist_commit_def Let_def take_document_def grows_def intro: le_SucI
          split: commit.split option.split)
  qed (auto simp: grows_def discard_pending_def sync_current_name_def set_title_def set_current_step_def
      traverse_same_document_def split: option.split)
qed

lemma hist_reach_counters:
  "hist_reach n h \<Longrightarrow> next_entry h \<le> 2 * n + 1 \<and> next_document h \<le> 2 * n + 1"
proof (induction rule: hist_reach.induct)
  case (start blank name)
  then show ?case by (simp add: hist_new_def)
next
  case (step n h op)
  then show ?case using hist_apply_grows[of h op] by (simp add: grows_def)
qed

text \<open>
  \<^bold>\<open>C2.\<close> Every history a tab reaches by fewer than \<open>2 ^ 63\<close> operations is well formed: entry
  identities are unique, every entry belongs to exactly one frame, names are kept only
  for presented documents, and the main frame always has an entry at step 0.
\<close>

theorem hist_reach_wf:
  "hist_reach n h \<Longrightarrow> 2 * n + 1 \<le> u64_max \<Longrightarrow> hist_wf h"
proof (induction rule: hist_reach.induct)
  case (start blank name)
  show ?case by (rule hist_wf_new)
next
  case (step n h op)
  then have "hist_wf h" by simp
  moreover have "hist_room 2 h"
    using hist_reach_counters[OF step.hyps(1)] step.prems by (simp add: hist_room_def)
  ultimately show ?case using step.hyps(2) by (rule hist_wf_apply)
qed

theorem hist_reach_wf_witness:
  "hist_wf (hist_apply (Commit (CommitPush about_blank None)) (hist_new about_blank (Some ''n'')))"
proof (rule hist_reach_wf)
  show "hist_reach 1 (hist_apply (Commit (CommitPush about_blank None)) (hist_new about_blank (Some ''n'')))"
    unfolding One_nat_def by (rule hist_reach.step[OF hist_reach.start]) (simp add: op_allowed_def)
qed (simp add: u64_max_def)

section \<open>The active entry\<close>

text \<open>The main frame's list, with the position of its active entry.\<close>

lemma main_active:
  assumes "hist_wf h"
  obtains es k where "frame_ids h MAIN = Some (map e_id es)" "set es \<subseteq> set (entries h)" "main_list es"
    "k < length es" "active_entry h MAIN = Some (e_id (es ! k))" "e_step (es ! k) \<le> current_step h"
    "\<And>j. k < j \<Longrightarrow> j < length es \<Longrightarrow> current_step h < e_step (es ! j)"
    "\<And>j. j < length es \<Longrightarrow> locate h (e_id (es ! j)) = Some (es ! j)"
proof -
  have ids: "ids_ok h" using assms by (simp add: hist_wf_def)
  from assms obtain es where es: "frame_ids h MAIN = Some (map e_id es)"
    "set es \<subseteq> set (entries h)" "main_list es" by (auto simp: hist_wf_def main_ok_def)
  have loc: "locate h (e_id e) = Some e" if "e \<in> set es" for e
    using that es(2) locate_Some[OF ids_okD(1)[OF ids]] by auto
  let ?P = "\<lambda>i. case locate h i of Some e \<Rightarrow> e_step e \<le> current_step h | None \<Rightarrow> False"
  have P: "?P (map e_id es ! j) \<longleftrightarrow> e_step (es ! j) \<le> current_step h" if "j < length es" for j
    using loc[OF nth_mem[OF that]] that by simp
  have "rposition ?P (map e_id es) \<noteq> None"
  proof -
    from es(3) obtain x xs where "es = x # xs" "e_step x = 0" by (cases es) (auto simp: main_list_def)
    then show ?thesis using loc by (auto split: option.split)
  qed
  then obtain k where k: "rposition ?P (map e_id es) = Some k" by auto
  note kk = rposition_Some[OF k]
  have "active_entry h MAIN = Some (e_id (es ! k))"
    using es(1) k kk by (simp add: active_entry_def active_entry_at_def frame_ids_def find_rev)
  moreover have "current_step h < e_step (es ! j)" if "k < j" "j < length es" for j
    using kk P[of j] that by auto
  moreover have klen: "k < length es" using kk by simp
  moreover have "e_step (es ! k) \<le> current_step h" using kk P[OF klen] by blast
  ultimately show ?thesis using es loc kk by (intro that[of es k]) auto
qed

text \<open>
  The projection protocol adapters get is consistent: the current index is in range,
  it names the main frame's active entry, and every entry of the main frame's list is
  listed with its committed URL.
\<close>

theorem hist_snapshot_current:
  assumes "hist_wf h"
  shows "hs_current_index (hist_snapshot h) < length (hs_entries (hist_snapshot h)) \<and>
    he_id (hs_entries (hist_snapshot h) ! hs_current_index (hist_snapshot h)) = current_entry h \<and>
    length (hs_entries (hist_snapshot h)) = frame_len h MAIN \<and>
    (\<forall>he\<in>set (hs_entries (hist_snapshot h)). entry_url h (he_id he) = Some (he_url he))"
proof (rule main_active[OF assms])
  fix es k
  assume es: "frame_ids h MAIN = Some (map e_id es)" "main_list es" "k < length es"
    "active_entry h MAIN = Some (e_id (es ! k))"
    and loc: "\<And>j. j < length es \<Longrightarrow> locate h (e_id (es ! j)) = Some (es ! j)"
  have map_loc: "List.map_filter (locate h) (map e_id es) = es"
  proof -
    have "\<And>e. e \<in> set es \<Longrightarrow> locate h (e_id e) = Some e" using loc by (metis in_set_conv_nth)
    then show ?thesis by (induction es) (auto simp: List.map_filter_def)
  qed
  have li: "e_local_index (es ! k) = k"
    using es(2,3) by (simp add: main_list_def) (metis add.left_neutral diff_zero length_upt nth_map nth_upt)
  have snap: "hs_entries (hist_snapshot h) =
      map (\<lambda>e. \<lparr> he_id = e_id e, he_url = e_url e, he_title = e_title e \<rparr>) es"
    "hs_current_index (hist_snapshot h) = k"
    using es map_loc loc[OF es(3)] li by (simp_all add: hist_snapshot_def Let_def frame_ids_def)
  have "entry_url h (e_id e) = Some (e_url e)" if "e \<in> set es" for e
    using that loc by (metis entry_url_def in_set_conv_nth option.simps(9))
  with snap es show ?thesis by (auto simp: current_entry_def frame_len_def frame_ids_def)
qed

theorem hist_snapshot_current_witness:
  "hs_current_index (hist_snapshot (hist_new about_blank None)) = 0 \<and>
   length (hs_entries (hist_snapshot (hist_new about_blank None))) = 1"
  using hist_snapshot_current[OF hist_wf_new, of about_blank None]
  by (simp add: frame_len_def hist_new_def)

section \<open>Steps and traversal\<close>

lemma used_steps_eq: "used_steps h = sorted_list_of_set (e_step ` set (entries h))"
  by (simp add: used_steps_def sorted_list_of_set_remdups_adj_sort)

lemma set_used_steps [simp]: "set (used_steps h) = e_step ` set (entries h)"
  by (simp add: used_steps_eq)

lemma used_steps_strict: "sorted_wrt (<) (used_steps h)"
  unfolding used_steps_eq by (rule strict_sorted_list_of_set)

lemma used_steps_zero: "hist_wf h \<Longrightarrow> 0 \<in> set (used_steps h)"
  by (erule main_active) (force simp: main_list_def hd_conv_nth)

lemma current_step_index_wf:
  assumes "hist_wf h"
  shows "current_step_index h (used_steps h) < length (used_steps h)"
    and "used_steps h ! current_step_index h (used_steps h) \<le> current_step h"
    and "\<forall>j. current_step_index h (used_steps h) < j \<and> j < length (used_steps h) \<longrightarrow>
           current_step h < used_steps h ! j"
proof -
  have "rposition (\<lambda>s. s \<le> current_step h) (used_steps h) \<noteq> None"
    using used_steps_zero[OF assms] by (auto simp: rposition_None simp del: set_used_steps)
  then obtain i where i: "rposition (\<lambda>s. s \<le> current_step h) (used_steps h) = Some i" by auto
  with rposition_Some[OF i]
  show "current_step_index h (used_steps h) < length (used_steps h)"
    "used_steps h ! current_step_index h (used_steps h) \<le> current_step h"
    "\<forall>j. current_step_index h (used_steps h) < j \<and> j < length (used_steps h) \<longrightarrow>
       current_step h < used_steps h ! j"
    by (auto simp: current_step_index_def not_le)
qed

text \<open>
  What \<open>history.length\<close> and the mirrored index report to the main frame: the length is
  the number of distinct steps in use, never zero, the index is in range, and it is the
  greatest used step at or below the current one.
\<close>

theorem renderer_snapshot_in_range:
  assumes "hist_wf h"
  shows "rs_length (renderer_snapshot h) = card (e_step ` set (entries h)) \<and>
    rs_index (renderer_snapshot h) < rs_length (renderer_snapshot h) \<and>
    rs_local_index (renderer_snapshot h) < rs_local_length (renderer_snapshot h) \<and>
    used_steps h ! rs_index (renderer_snapshot h) =
      Max {s \<in> e_step ` set (entries h). s \<le> current_step h}"
proof -
  note idx = current_step_index_wf[OF assms]
  let ?i = "current_step_index h (used_steps h)"
  have "used_steps h ! ?i = Max {s \<in> e_step ` set (entries h). s \<le> current_step h}"
  proof (rule Max_eqI[symmetric])
    have "used_steps h ! ?i \<in> set (used_steps h)" using idx(1) by (rule nth_mem)
    with idx(2) show "used_steps h ! ?i \<in> {s \<in> e_step ` set (entries h). s \<le> current_step h}" by simp
  next
    fix s assume "s \<in> {s \<in> e_step ` set (entries h). s \<le> current_step h}"
    then have s: "s \<in> set (used_steps h)" "s \<le> current_step h" by auto
    then obtain j where j: "j < length (used_steps h)" "s = used_steps h ! j" by (metis in_set_conv_nth)
    with s(2) idx(3) have "j \<le> ?i" by (metis leD not_le_imp_less)
    then show "s \<le> used_steps h ! ?i"
      using j idx(1) used_steps_strict[of h] by (metis le_neq_implies_less less_imp_le order_refl sorted_wrt_nth_less)
  qed simp
  moreover have "rs_local_index (renderer_snapshot h) < rs_local_length (renderer_snapshot h)"
  proof (rule main_active[OF assms])
    fix es k
    assume es: "frame_ids h MAIN = Some (map e_id es)" "k < length es"
      "active_entry h MAIN = Some (e_id (es ! k))"
    have "distinct (map e_id es)" using assms es(1) by (auto simp: hist_wf_def dest: ids_okD(3))
    then have "position (\<lambda>c. c = e_id (es ! k)) (map e_id es) = Some k"
      using position_distinct[of "map e_id es" k] es(2) by simp
    with es show ?thesis by (simp add: renderer_snapshot_def Let_def frame_position_def frame_len_def frame_ids_def)
  qed
  ultimately show ?thesis using idx(1)
    by (simp add: renderer_snapshot_def Let_def used_steps_eq)
qed

theorem renderer_snapshot_in_range_witness:
  "rs_index (renderer_snapshot (hist_new about_blank None)) = 0 \<and>
   rs_length (renderer_snapshot (hist_new about_blank None)) = 1"
  using renderer_snapshot_in_range[OF hist_wf_new, of about_blank None]
  by (simp add: hist_new_def)

text \<open>
  A traversal by a delta moves by exactly that many used steps: when it selects a
  step, the step is in use, and making it current moves the index by the delta; when the
  delta leaves the list, it selects nothing.
\<close>

theorem target_step_moves_by_delta:
  "(\<forall>s. target_step h (Delta d) f = Some s \<longrightarrow>
      s \<in> e_step ` set (entries h) \<and>
      int (current_step_index (set_current_step s h) (used_steps (set_current_step s h))) =
        int (current_step_index h (used_steps h)) + d) \<and>
   (target_step h (Delta d) f = None \<longleftrightarrow>
      int (current_step_index h (used_steps h)) + d < 0 \<or>
      int (length (used_steps h)) \<le> int (current_step_index h (used_steps h)) + d)"
proof (intro conjI allI impI)
  fix s assume "target_step h (Delta d) f = Some s"
  then obtain t where t: "int t = int (current_step_index h (used_steps h)) + d"
    "t < length (used_steps h)" "s = used_steps h ! t"
    by (force simp: target_step_def Let_def nth_opt_def split: if_splits)
  then show "s \<in> e_step ` set (entries h)" using nth_mem[OF t(2)] by simp
  have "used_steps (set_current_step s h) = used_steps h" by (simp add: used_steps_def set_current_step_def)
  then show "int (current_step_index (set_current_step s h) (used_steps (set_current_step s h))) =
      int (current_step_index h (used_steps h)) + d"
    using rposition_sorted[OF used_steps_strict t(2)] t by (simp add: current_step_index_def set_current_step_def)
next
  show "target_step h (Delta d) f = None \<longleftrightarrow>
      int (current_step_index h (used_steps h)) + d < 0 \<or>
      int (length (used_steps h)) \<le> int (current_step_index h (used_steps h)) + d"
    by (auto simp: target_step_def Let_def nth_opt_def)
qed

theorem target_step_moves_by_delta_witness:
  "target_step (hist_new about_blank None) (Delta 0) MAIN = Some 0 \<and>
   target_step (hist_new about_blank None) (Delta 1) MAIN = None"
  using target_step_moves_by_delta[of "hist_new about_blank None" 0 MAIN]
    target_step_moves_by_delta[of "hist_new about_blank None" 1 MAIN]
  by (simp add: hist_new_def used_steps_def current_step_index_def target_step_def nth_opt_def)

lemma truncate_push_steps:
  assumes "hist_wf h" "hist_room 1 h"
  shows "used_steps (snd (push_entry f li url name state (truncate_forward h))) =
    filter (\<lambda>s. s \<le> current_step h) (used_steps h) @ [Suc (current_step h)]"
proof -
  let ?A = "{s \<in> e_step ` set (entries h). s \<le> current_step h}"
  have s: "sat_succ (current_step h) = Suc (current_step h)"
    using hist_wf_step_bound[OF assms(1)] assms(2) by (simp add: hist_room_def)
  have "e_step ` set (entries (snd (push_entry f li url name state (truncate_forward h)))) =
      insert (Suc (current_step h)) ?A"
    using s by (auto simp: push_entry_sel insert_entry_sel truncate_forward_sel)
  moreover have "sorted_list_of_set (insert (Suc (current_step h)) ?A) =
      filter (\<lambda>s. s \<le> current_step h) (used_steps h) @ [Suc (current_step h)]"
    by (subst sorted_list_of_set_snoc) (auto simp: used_steps_eq sorted_list_of_set_filter)
  ultimately show ?thesis by (simp add: used_steps_eq)
qed

lemma active_entry_last:
  assumes "frame_ids h f = Some (ids @ [i])" "locate h i = Some e" "e_step e \<le> current_step h"
  shows "active_entry h f = Some i"
  using assms by (simp add: active_entry_def active_entry_at_def frame_ids_def)

lemma push_entry_locate:
  assumes "hist_wf h"
  shows "locate (snd (push_entry f li url name state h)) (next_entry h) =
    Some (new_entry h (sat_succ (current_step h)) li url state)"
  using fresh_id[of h] assms
  by (simp add: locate_def push_entry_sel insert_entry_sel find_append find_key_None[THEN iffD2]
      entry_ids_def hist_wf_def)

lemma frame_len_ids: "frame_len h f = (case frame_ids h f of None \<Rightarrow> 0 | Some ids \<Rightarrow> length ids)"
  by (simp add: frame_len_def frame_ids_def)

lemma push_entry_active:
  assumes "hist_wf h" "li = frame_len h f"
  shows "active_entry (snd (push_entry f li url name state h)) f = Some (next_entry h)"
proof (rule active_entry_last[OF _ push_entry_locate[OF assms(1)]])
  show "frame_ids (snd (push_entry f li url name state h)) f =
      Some ((case frame_ids h f of None \<Rightarrow> [] | Some ids \<Rightarrow> ids) @ [next_entry h])"
    using assms(2)
    by (simp add: push_entry_sel insert_entry_frame_ids insert_at_def frame_len_ids split: option.splits)
qed (simp add: push_entry_sel)

text \<open>
  A committed push becomes the main frame's active entry with its URL and its
  document's name, takes the step after the current one, and drops the forward branch
  of every frame: going forward then selects nothing.
\<close>

theorem commit_push_activates:
  assumes "hist_wf h" "hist_room 1 h" "h' = snd (hist_commit (CommitPush url name) h)"
  shows "fst (hist_commit (CommitPush url name) h) \<and>
    current_step h' = Suc (current_step h) \<and>
    used_steps h' = filter (\<lambda>s. s \<le> current_step h) (used_steps h) @ [Suc (current_step h)] \<and>
    current_entry h' = next_entry h \<and> current_entry h' \<notin> entry_ids h \<and>
    entry_url h' (current_entry h') = Some url \<and> hist_name h' (current_entry h') = name \<and>
    target_step h' (Delta 1) f = None"
proof -
  let ?t = "truncate_forward h"
  have h': "h' = snd (push_entry MAIN (frame_len ?t MAIN) url name None ?t)"
    by (simp add: assms(3) hist_commit_def Let_def)
  have t: "hist_wf ?t" by (rule hist_wf_truncate[OF assms(1)])
  have s: "sat_succ (current_step h) = Suc (current_step h)"
    using hist_wf_step_bound[OF assms(1)] assms(2) by (simp add: hist_room_def)
  have cur: "current_step h' = Suc (current_step h)" by (simp add: h' push_entry_sel truncate_forward_sel s)
  have act: "current_entry h' = next_entry h"
    using push_entry_active[OF t refl] by (simp add: h' current_entry_def truncate_forward_sel)
  note loc = push_entry_locate[OF t, where f = MAIN and li = "frame_len ?t MAIN" and url = url
      and name = name and state = None, folded h']
  have steps: "used_steps h' = filter (\<lambda>s. s \<le> current_step h) (used_steps h) @ [Suc (current_step h)]"
    unfolding h' by (rule truncate_push_steps[OF assms(1,2)])
  have "current_step_index h' (used_steps h') = length (filter (\<lambda>s. s \<le> current_step h) (used_steps h))"
    using rposition_sorted[OF used_steps_strict, of "length (filter (\<lambda>s. s \<le> current_step h) (used_steps h))" h']
    by (simp add: current_step_index_def cur steps)
  then have fwd: "target_step h' (Delta 1) f = None"
    by (simp add: target_step_def steps Let_def nth_opt_def)
  have nm: "hist_name h' (next_entry h) = name"
    using loc fresh_document_unnamed[OF t]
    by (simp add: hist_name_def h' push_entry_sel insert_entry_sel truncate_forward_sel split: option.splits)
  show ?thesis
    using cur act loc steps fwd nm fresh_id[of h] assms(1)
    by (simp add: entry_url_def truncate_forward_sel hist_wf_def hist_commit_def Let_def)
qed

lemma hist_new_sel:
  "current_step (hist_new blank name) = 0" "next_entry (hist_new blank name) = 1"
  by (simp_all add: hist_new_def)

lemma hist_room_new: "k < u64_max \<Longrightarrow> hist_room k (hist_new blank name)"
  by (simp add: hist_room_def hist_new_def)

theorem commit_push_activates_witness:
  "current_step (snd (hist_commit (CommitPush about_blank (Some ''a'')) (hist_new about_blank None))) = 1 \<and>
   hist_name (snd (hist_commit (CommitPush about_blank (Some ''a'')) (hist_new about_blank None))) 1 = Some ''a''"
  using commit_push_activates[OF hist_wf_new hist_room_new refl,
      where url = about_blank and name = "Some ''a''" and blank2 = about_blank and name2 = None and f = MAIN]
  by (simp add: u64_max_def hist_new_sel) metis

section \<open>Pending navigations\<close>

text \<open>
  A navigation that starts in a known frame but does not commit adds no phantom step:
  the entries, the frame lists, the names and the current step are untouched, and dropping the
  pending change gives the history as if it had never started.
\<close>

theorem pending_navigation_no_phantom:
  assumes "f \<noteq> MAIN" "map_of (frames h) f \<noteq> None"
    "h' = snd (begin_navigation f url replace li name True h)"
  shows "entries h' = entries h \<and> frames h' = frames h \<and> names h' = names h \<and>
    current_step h' = current_step h \<and> discard_pending f h' = discard_pending f h"
proof -
  from assms(2) obtain ids where "map_of (frames h) f = Some ids" by auto
  with assms(1,3) show ?thesis
    by (simp add: begin_navigation_def Let_def discard_pending_def split: option.split)
qed

theorem pending_navigation_no_phantom_witness:
  "entries (snd (begin_navigation 1 about_blank False 1 None True (add_frame 1 about_blank None (hist_new about_blank None)))) =
   entries (add_frame 1 about_blank None (hist_new about_blank None))"
  using pending_navigation_no_phantom[OF _ _ refl, of 1 "add_frame 1 about_blank None (hist_new about_blank None)"
      about_blank False 1 None]
  by (simp add: add_frame_def MAIN_def hist_new_def take_document_def set_name_def)

lemma truncate_forward_pending:
  "truncate_forward (h\<lparr>pending := p\<rparr>) = (truncate_forward h)\<lparr>pending := p\<rparr>"
  by (simp add: truncate_forward_def Let_def)

lemma frame_len_pending [simp]: "frame_len (h\<lparr>pending := p\<rparr>) f = frame_len h f"
  by (simp add: frame_len_def)

text \<open>
  Committing a pending push has exactly the effect of a push that commits at once at
  the end of the frame's list: the step is taken when the document commits.
\<close>

theorem pending_push_then_commit:
  assumes "f \<noteq> MAIN" "map_of (frames h) f \<noteq> None"
  shows "commit_url f url (snd (begin_navigation f url\<^sub>0 False li name True h)) =
    snd (begin_navigation f url False (frame_len (truncate_forward h) f) name False h)"
proof -
  from assms(2) obtain ids where "map_of (frames h) f = Some ids" by auto
  with assms(1) show ?thesis
    by (simp add: begin_navigation_def commit_url_def Let_def case_prod_unfold truncate_forward_pending)
qed

theorem pending_push_then_commit_witness:
  "commit_url 1 about_blank (snd (begin_navigation 1 about_blank False 1 None True
      (add_frame 1 about_blank None (hist_new about_blank None)))) =
   snd (begin_navigation 1 about_blank False
      (frame_len (truncate_forward (add_frame 1 about_blank None (hist_new about_blank None))) 1) None False
      (add_frame 1 about_blank None (hist_new about_blank None)))"
  by (rule pending_push_then_commit)
    (simp_all add: add_frame_def MAIN_def hist_new_def take_document_def set_name_def)

section \<open>Frames come and go\<close>

text \<open>
  A frame that is created and torn down again leaves the joint list as it was: its
  blank entry, its name and its pending navigation are gone and only the identity
  counters have moved.
\<close>

theorem add_then_remove_frame:
  assumes "hist_wf h" "hist_room 1 h" "f \<noteq> MAIN" "map_of (frames h) f = None"
    and "current_step h \<in> e_step ` set (entries h)"
  shows "remove_frame f (add_frame f url name h) =
    h\<lparr>next_entry := Suc (next_entry h), next_document := Suc (next_document h),
      pending := (pending h)(f := None)\<rparr>"
proof -
  have f: "frame_ids h f = None" "f \<notin> fst ` set (frames h)"
    using assms(4) by (auto simp: frame_ids_def map_of_eq_None_iff)
  have ne: "next_entry h < u64_max" "next_document h < u64_max" using assms(2) by (simp_all add: hist_room_def)
  let ?new = "new_entry h (current_step h) 0 url None"
  define h1 where "h1 = add_frame f url name h"
  have h1: "h1 = h\<lparr>entries := entries h @ [?new], frames := AList.update f [next_entry h] (frames h),
      next_entry := Suc (next_entry h), next_document := Suc (next_document h),
      names := (case name of None \<Rightarrow> names h | Some n \<Rightarrow> (names h)(next_document h \<mapsto> n))\<rparr>"
    using assms(3,4) ne
    by (auto simp: h1_def add_frame_def take_document_def set_name_def new_entry_def Let_def split: option.splits)
  have fr: "frame_ids h1 f = Some [next_entry h]" by (simp add: h1 frame_ids_def update_conv')
  have es: "filter (\<lambda>e. e_id e \<notin> set [next_entry h]) (entries h1) = entries h"
    using assms(1) by (auto simp: h1 hist_wf_def bounds_ok_def filter_id_conv)
  have loc: "locate h1 (next_entry h) = Some ?new"
    using fresh_id[of h] assms(1)
    by (simp add: locate_def h1 find_append find_key_None[THEN iffD2] entry_ids_def hist_wf_def)
  have nm: "release_names (entries h) [next_document h] (names h1) = names h"
    using fresh_document_unnamed[OF assms(1)] assms(1)
    by (auto simp: fun_eq_iff release_names_apply h1 hist_wf_def bounds_ok_def split: option.splits)
  have "AList.delete f (AList.update f [next_entry h] (frames h)) = frames h"
    using f(2) by (simp add: delete_update_same delete_idem)
  then have rem: "remove_frame f h1 = clamp_current_step (h\<lparr>next_entry := Suc (next_entry h),
      next_document := Suc (next_document h), pending := (pending h)(f := None)\<rparr>)"
    using remove_frame_eq[OF assms(3) fr] es loc nm by (simp add: h1 List.map_filter_def)
  have "Max {e_step e |e. e \<in> set (entries h) \<and> e_step e \<le> current_step h} = current_step h"
  proof (rule Max_eqI)
    show "finite {e_step e |e. e \<in> set (entries h) \<and> e_step e \<le> current_step h}"
      by (rule finite_subset[of _ "{..current_step h}"]) auto
  qed (use assms(5) in auto)
  with rem assms(5) show ?thesis by (auto simp: h1_def[symmetric] clamp_current_step_eq)
qed

theorem add_then_remove_frame_witness:
  "entries (remove_frame 1 (add_frame 1 about_blank (Some ''c'') (hist_new about_blank None))) =
   entries (hist_new about_blank None)"
  using add_then_remove_frame[OF hist_wf_new hist_room_new, where f = 1 and url = about_blank
      and name = "Some ''c''" and blank1 = about_blank and name1 = None]
  by (simp add: u64_max_def MAIN_def hist_new_def)

lemma remove_frame_frame_ids:
  "frame_ids (remove_frame f h) = (if f = MAIN then frame_ids h else (frame_ids h)(f := None))"
proof (cases "f \<noteq> MAIN \<and> frame_ids h f \<noteq> None")
  case True
  then obtain ids where f: "f \<noteq> MAIN" "frame_ids h f = Some ids" by auto
  show ?thesis
    using f(1) unfolding remove_frame_eq[OF f] clamp_current_step_eq
    by (simp add: frame_ids_def delete_conv')
next
  case False
  then show ?thesis by (auto simp: remove_frame_main remove_frame_absent fun_upd_idem)
qed

lemma fold_remove_frame_ids:
  "frame_ids (fold remove_frame fs h) f =
     (if f \<in> set fs \<and> f \<noteq> MAIN then None else frame_ids h f)"
  by (induction fs arbitrary: h) (auto simp: remove_frame_frame_ids)

text \<open>
  Replacing the renderer drops every child: afterwards only the main frame has a list,
  unchanged, and the joint list holds exactly the main frame's entries.
\<close>

theorem clear_children_keeps_main:
  assumes "hist_wf h"
  shows "set (hist_frames (clear_children h)) = {MAIN} \<and>
    map_of (frames (clear_children h)) MAIN = map_of (frames h) MAIN \<and>
    entry_ids (clear_children h) = set (the (map_of (frames h) MAIN))"
proof -
  have fr: "frame_ids (clear_children h) f = (if f = MAIN then frame_ids h MAIN else None)" for f
    unfolding clear_children_def fold_remove_frame_ids
    by (auto simp: frame_ids_def map_of_eq_None_iff)
  have wf: "ids_ok (clear_children h)" using hist_wf_clear_children[OF assms] by (simp add: hist_wf_def)
  obtain ids where ids: "frame_ids h MAIN = Some ids" using assms by (auto simp: hist_wf_def main_ok_def)
  have "entry_ids (clear_children h) = set ids"
    using ids_okD(4)[OF wf, of MAIN ids] ids_okD(6)[OF wf] ids fr by (auto, metis option.inject option.simps(3))
  moreover have "fst ` set (frames (clear_children h)) = {MAIN}"
    using fr ids unfolding frame_ids_def by (auto simp: dom_map_of_conv_image_fst[symmetric] split: if_splits)
  ultimately show ?thesis using fr[of MAIN] ids by (simp add: frame_ids_def hist_frames_def)
qed

theorem clear_children_keeps_main_witness:
  "set (hist_frames (clear_children (add_frame 1 about_blank None (hist_new about_blank None)))) = {MAIN}"
  using clear_children_keeps_main[OF hist_wf_add_frame[OF hist_wf_new hist_room_new]]
  by (simp add: u64_max_def)

section \<open>Traversals that repopulate an entry\<close>

lemma commit_traverse_sel:
  assumes "ids_ok h" "locate_index h i = Some n"
  shows "fst (hist_commit (CommitTraverse i url) h)"
    and "entries (snd (hist_commit (CommitTraverse i url) h)) =
      map (\<lambda>e. if e_id e = i then e\<lparr>e_url := url, e_document := next_document h\<rparr> else e) (entries h)"
    and "current_step (snd (hist_commit (CommitTraverse i url) h)) = e_step (entries h ! n)"
    and "names (snd (hist_commit (CommitTraverse i url) h)) =
      (let nm = (case names h (e_document (entries h ! n)) of None \<Rightarrow> names h
                 | Some m \<Rightarrow> (names h)(next_document h \<mapsto> m))
       in if e_document (entries h ! n) \<in> e_document ` set (entries (snd (hist_commit (CommitTraverse i url) h)))
          then nm else nm(e_document (entries h ! n) := None))"
  using assms entries_update_index[OF assms, of "\<lambda>e. e\<lparr>e_url := url, e_document := next_document h\<rparr>"]
  by (simp_all add: hist_commit_def take_document_def Let_def split: option.split)

text \<open>
  A traversal commit whose entry was removed while its response was fetched reports
  failure and changes nothing. Otherwise it makes the entry's step current, stores the
  committed URL, gives the entry a document state of its own that keeps the entry's
  name, and leaves every other entry and its name alone.
\<close>

theorem commit_traverse:
  assumes "hist_wf h" "hist_room 1 h" "hist_commit (CommitTraverse i url) h = (ok, h')"
  shows "(locate h i = None \<longrightarrow> \<not> ok \<and> h' = h) \<and>
    (\<forall>e. locate h i = Some e \<longrightarrow>
       ok \<and> current_step h' = e_step e \<and> entry_url h' i = Some url \<and> hist_name h' i = hist_name h i \<and>
       (\<forall>j. j \<noteq> i \<longrightarrow> locate h' j = locate h j \<and> hist_name h' j = hist_name h j \<and>
          \<not> same_document h' i j))"
proof (cases "locate_index h i")
  case None
  with assms(3) show ?thesis by (auto simp: hist_commit_def locate_index_None)
next
  case (Some n)
  let ?e = "entries h ! n"
  let ?g = "\<lambda>e. e\<lparr>e_url := url, e_document := next_document h\<rparr>"
  have ids: "ids_ok h" and bnd: "bounds_ok h" using assms(1) by (simp_all add: hist_wf_def)
  have dist: "distinct (map e_id (entries h))" by (rule ids_okD(1)[OF ids])
  note li = locate_index_Some[OF Some]
  have loc: "locate h i = Some ?e" using li dist by (simp add: locate_Some)
  have h': "h' = snd (hist_commit (CommitTraverse i url) h)" using assms(3) by simp
  note sel = commit_traverse_sel[OF ids Some, of url, folded h']
  have es: "entries h' = map (\<lambda>e. if e_id e = i then ?g e else e) (entries h)"
    and st: "current_step h' = e_step ?e" "ok"
    and nm: "names h' = (let nm = (case names h (e_document ?e) of None \<Rightarrow> names h
                | Some m \<Rightarrow> (names h)(next_document h \<mapsto> m))
              in if e_document ?e \<in> e_document ` set (entries h') then nm else nm(e_document ?e := None))"
    using sel assms(3) by (simp_all only: fst_conv Let_def)
  have loc': "locate h' j = map_option (\<lambda>e. if e_id e = i then ?g e else e) (locate h j)" for j
    by (rule locate_shape[OF es]) (simp add: same_shape_def)
  have doc: "e_document x < next_document h" if "locate h j = Some x" for j x
    using bnd locate_SomeD[OF that] by (auto simp: bounds_ok_def)
  have others: "names h' (e_document x) = names h (e_document x)"
    if x: "locate h j = Some x" "j \<noteq> i" for j x
  proof -
    have "x \<in> set (entries h')" using locate_SomeD[OF x(1)] x(2) by (force simp: es)
    then have "e_document x \<in> e_document ` set (entries h')" by (rule imageI)
    then show ?thesis using doc[OF x(1)] by (auto simp: nm Let_def split: option.splits)
  qed
  have self: "names h' (next_document h) = names h (e_document ?e)"
    using doc[OF loc] fresh_document_unnamed[OF assms(1)] by (simp add: nm Let_def split: option.splits)
  have same: "locate h' j = locate h j" if "j \<noteq> i" for j
    using that loc'[of j] by (cases "locate h j") (auto dest!: locate_SomeD)
  moreover have "hist_name h' j = hist_name h j \<and> \<not> same_document h' i j" if "j \<noteq> i" for j
    using that others[of j] doc[of j] loc' loc li(2)
    by (cases "locate h j") (auto simp: hist_name_def same_document_def dest!: locate_SomeD)
  moreover have "entry_url h' i = Some url" "hist_name h' i = hist_name h i"
    using loc loc'[of i] li(2) self by (simp_all add: entry_url_def hist_name_def)
  ultimately show ?thesis using loc st by simp
qed

theorem commit_traverse_witness:
  "fst (hist_commit (CommitTraverse 7 about_blank) (hist_new about_blank None)) = False \<and>
   fst (hist_commit (CommitTraverse 0 about_blank) (hist_new about_blank None))"
  using commit_traverse[OF hist_wf_new hist_room_new prod.collapse[symmetric],
      where blank2 = about_blank and name2 = None and i = 7 and url = about_blank]
    commit_traverse[OF hist_wf_new hist_room_new prod.collapse[symmetric],
      where blank2 = about_blank and name2 = None and i = 0 and url = about_blank]
  by (simp add: u64_max_def locate_def hist_new_def)

end
