(* ===== verification/Web_Storage.thy ===== *)
theory Web_Storage
  imports Tb_Prelude
begin

text \<open>
  One origin's ordered storage area (\<open>crates/webstorage/src/lib.rs\<close>): an association list
  in insertion order with a byte quota. \<open>storage_map\<close> is the contract the browser's
  local and session storage rely on, as laws over the lookup function; the area
  implements it, and the facts about maps of areas are proved once from the laws.
\<close>

section \<open>The area\<close>

definition STORAGE_QUOTA_BYTES :: nat where
  "STORAGE_QUOTA_BYTES = 5 * 1024 * 1024"

record storage_change =
  sc_key :: "string option"
  sc_old_value :: "string option"
  sc_new_value :: "string option"

datatype storage_error = QuotaExceeded

record storage_area =
  a_entries :: "(string \<times> string) list"

definition area_default :: storage_area where
  "area_default = \<lparr> a_entries = [] \<rparr>"

definition area_get :: "storage_area \<Rightarrow> string \<Rightarrow> string option" where
  "area_get a key = map_option snd (find (\<lambda>p. fst p = key) (a_entries a))"

definition area_keys :: "storage_area \<Rightarrow> string list" where
  "area_keys a = map fst (a_entries a)"

definition area_used :: "storage_area \<Rightarrow> nat" where
  "area_used a = sum_list (map (\<lambda>(k, v). length k + length v) (a_entries a))"

definition area_set ::
  "string \<Rightarrow> string \<Rightarrow> storage_area \<Rightarrow> (storage_error + storage_change option) \<times> storage_area" where
  "area_set key val a =
     (let existing = position (\<lambda>p. fst p = key) (a_entries a);
          old = map_option (\<lambda>i. snd (a_entries a ! i)) existing
      in if old = Some val then (Inr None, a)
         else
           (let used = area_used a;
                replaced = (case old of None \<Rightarrow> 0 | Some o' \<Rightarrow> length key + length o')
            in if used - replaced + length key + length val > STORAGE_QUOTA_BYTES
               then (Inl QuotaExceeded, a)
               else
                 (Inr (Some \<lparr> sc_key = Some key, sc_old_value = old, sc_new_value = Some val \<rparr>),
                  (case existing of
                     Some i \<Rightarrow> a\<lparr>a_entries := (a_entries a)[i := (fst (a_entries a ! i), val)]\<rparr>
                   | None \<Rightarrow> a\<lparr>a_entries := a_entries a @ [(key, val)]\<rparr>))))"

definition area_remove :: "string \<Rightarrow> storage_area \<Rightarrow> storage_change option \<times> storage_area" where
  "area_remove key a =
     (case position (\<lambda>p. fst p = key) (a_entries a) of
        None \<Rightarrow> (None, a)
      | Some i \<Rightarrow>
          (Some \<lparr> sc_key = Some key, sc_old_value = Some (snd (a_entries a ! i)), sc_new_value = None \<rparr>,
           a\<lparr>a_entries := take i (a_entries a) @ drop (Suc i) (a_entries a)\<rparr>))"

definition area_clear :: "storage_area \<Rightarrow> storage_change option \<times> storage_area" where
  "area_clear a =
     (if a_entries a = [] then (None, a)
      else (Some \<lparr> sc_key = None, sc_old_value = None, sc_new_value = None \<rparr>, a\<lparr>a_entries := []\<rparr>))"

section \<open>Lookups\<close>

definition area_inv :: "storage_area \<Rightarrow> bool" where
  "area_inv a \<longleftrightarrow> distinct (area_keys a) \<and> area_used a \<le> STORAGE_QUOTA_BYTES"

lemma area_get_map_of: "area_get a = map_of (a_entries a)"
proof
  fix key
  have "map_option snd (find (\<lambda>p. fst p = key) xs) = map_of xs key" for xs :: "(string \<times> string) list"
    by (induction xs) auto
  then show "area_get a key = map_of (a_entries a) key" by (simp add: area_get_def)
qed

lemma area_old:
  "map_option (\<lambda>i. snd (a_entries a ! i)) (position (\<lambda>p. fst p = key) (a_entries a)) = area_get a key"
proof -
  have "map_option (\<lambda>i. snd (xs ! i)) (position (\<lambda>p. fst p = key) xs) = map_of xs key"
    for xs :: "(string \<times> string) list"
    by (induction xs) (auto simp: option.map_comp comp_def)
  then show ?thesis by (simp add: area_get_map_of)
qed

lemma sum_list_update_ge:
  "i < length xs \<Longrightarrow> sum_list (map f (xs[i := y])) + f (xs ! i) = sum_list (map f xs) + (f y :: nat)"
  by (induction xs arbitrary: i) (auto split: nat.splits)

lemma sum_list_delete:
  "i < length xs \<Longrightarrow> sum_list (map f (take i xs @ drop (Suc i) xs)) + f (xs ! i) = (sum_list (map f xs) :: nat)"
  by (induction xs arbitrary: i) (auto simp: nth_Cons ac_simps split: nat.splits)

lemma map_of_list_update:
  assumes "distinct (map fst xs)" "i < length xs" "fst (xs ! i) = k"
  shows "map_of (xs[i := (k, v)]) = (map_of xs)(k \<mapsto> v)"
  using assms
proof (induction xs arbitrary: i)
  case (Cons x xs)
  show ?case
  proof (cases i)
    case (Suc j)
    then have "fst x \<noteq> k" using Cons.prems nth_mem[of j xs] by force
    with Suc Cons show ?thesis by (cases x) (auto simp: fun_upd_twist)
  qed (use Cons.prems in \<open>cases x; auto\<close>)
qed simp

lemma map_of_list_delete:
  assumes "distinct (map fst xs)" "i < length xs" "fst (xs ! i) = k"
  shows "map_of (take i xs @ drop (Suc i) xs) = (map_of xs)(k := None)"
  using assms
proof (induction xs arbitrary: i)
  case (Cons x xs)
  show ?case
  proof (cases i)
    case 0
    then show ?thesis using Cons.prems by (cases x) (auto simp: fun_eq_iff map_of_eq_None_iff)
  next
    case (Suc j)
    then have "fst x \<noteq> k" using Cons.prems nth_mem[of j xs] by force
    with Suc Cons show ?thesis by (cases x) (auto simp: fun_upd_twist)
  qed
qed simp

lemma position_key:
  assumes "position (\<lambda>p. fst p = key) xs = Some i"
  shows "i < length xs" "fst (xs ! i) = key"
  using position_Some[OF assms] by simp_all

text \<open>The subtraction in the quota check never wraps: the replaced bytes are part of the used ones.\<close>

lemma area_replaced_le:
  "area_get a key = Some v \<Longrightarrow> length key + length v \<le> area_used a"
proof -
  assume "area_get a key = Some v"
  then have "(key, v) \<in> set (a_entries a)" by (auto simp: area_get_map_of dest: map_of_SomeD)
  then show ?thesis unfolding area_used_def by (force intro: member_le_sum_list)
qed

section \<open>The operations\<close>

lemma area_set_cases:
  obtains (same) "area_get a key = Some val" "area_set key val a = (Inr None, a)"
  | (quota) "area_get a key \<noteq> Some val" "area_set key val a = (Inl QuotaExceeded, a)"
      "area_used a - (case area_get a key of None \<Rightarrow> 0 | Some v \<Rightarrow> length key + length v)
         + length key + length val > STORAGE_QUOTA_BYTES"
  | (stored) c a' where "area_get a key \<noteq> Some val" "area_set key val a = (Inr (Some c), a')"
      "c = \<lparr> sc_key = Some key, sc_old_value = area_get a key, sc_new_value = Some val \<rparr>"
      "a' = (case position (\<lambda>p. fst p = key) (a_entries a) of
               Some i \<Rightarrow> a\<lparr>a_entries := (a_entries a)[i := (key, val)]\<rparr>
             | None \<Rightarrow> a\<lparr>a_entries := a_entries a @ [(key, val)]\<rparr>)"
      "area_used a - (case area_get a key of None \<Rightarrow> 0 | Some v \<Rightarrow> length key + length v)
         + length key + length val \<le> STORAGE_QUOTA_BYTES"
proof -
  have "(case position (\<lambda>p. fst p = key) (a_entries a) of
           Some i \<Rightarrow> a\<lparr>a_entries := (a_entries a)[i := (fst (a_entries a ! i), val)]\<rparr>
         | None \<Rightarrow> a\<lparr>a_entries := a_entries a @ [(key, val)]\<rparr>) =
        (case position (\<lambda>p. fst p = key) (a_entries a) of
           Some i \<Rightarrow> a\<lparr>a_entries := (a_entries a)[i := (key, val)]\<rparr>
         | None \<Rightarrow> a\<lparr>a_entries := a_entries a @ [(key, val)]\<rparr>)"
    by (auto split: option.splits dest: position_key)
  then show ?thesis
    using same quota stored unfolding area_set_def area_old Let_def
    by (metis (no_types, lifting) not_less)
qed

lemma area_get_entries: "distinct (area_keys a) \<Longrightarrow> position (\<lambda>p. fst p = key) (a_entries a) = Some i \<Longrightarrow>
    area_get a key = Some (snd (a_entries a ! i))"
  using area_old[of a key] by simp

text \<open>What a successful write does to the lookups, the order of the keys and the bytes used.\<close>

lemma area_set_stored:
  assumes "area_inv a" "area_set key val a = (Inr c, a')"
  shows "area_get a' = (area_get a)(key \<mapsto> val)"
    and "area_keys a' = (if area_get a key = None then area_keys a @ [key] else area_keys a)"
    and "area_used a' + (case area_get a key of None \<Rightarrow> 0 | Some v \<Rightarrow> length key + length v) =
         area_used a + length key + length val"
    and "c = None \<longleftrightarrow> area_get a key = Some val"
    and "area_used a' \<le> STORAGE_QUOTA_BYTES"
proof -
  have d: "distinct (map fst (a_entries a))" using assms(1) by (simp add: area_inv_def area_keys_def)
  have P: "area_get a' = (area_get a)(key \<mapsto> val) \<and>
      area_keys a' = (if area_get a key = None then area_keys a @ [key] else area_keys a) \<and>
      area_used a' + (case area_get a key of None \<Rightarrow> 0 | Some v \<Rightarrow> length key + length v) =
         area_used a + length key + length val \<and>
      (c = None \<longleftrightarrow> area_get a key = Some val) \<and> area_used a' \<le> STORAGE_QUOTA_BYTES"
  proof (cases rule: area_set_cases[of a key val])
    case same
    with assms show ?thesis by (auto simp: area_inv_def fun_upd_idem)
  next
    case quota
    with assms(2) show ?thesis by simp
  next
    case (stored c' b)
    with assms(2) have a': "a' = b" "c = Some c'" by auto
    show ?thesis
    proof (cases "position (\<lambda>p. fst p = key) (a_entries a)")
      case None
      then have "map_of (a_entries a) key = None" using area_old[of a key] by (simp add: area_get_map_of)
      with None stored a' show ?thesis
        by (auto simp: area_get_map_of area_keys_def area_used_def fun_eq_iff map_add_def split: option.splits)
    next
      case (Some i)
      note i = position_key[OF Some]
      have old: "area_get a key = Some (snd (a_entries a ! i))" using area_old[of a key] Some by simp
      have used: "area_used a' + (length key + length (snd (a_entries a ! i))) = area_used a + length key + length val"
        using sum_list_update_ge[OF i(1), of "\<lambda>(k, v). length k + length v" "(key, val)"] Some stored a' i(2)
        by (simp add: area_used_def case_prod_unfold)
      have "area_keys a' = area_keys a"
        using Some stored a' i by (simp add: area_keys_def map_update) (metis list_update_id nth_map)
      with used old stored a' Some map_of_list_update[OF d i] area_replaced_le[OF old] show ?thesis
        by (simp add: area_get_map_of)
    qed
  qed
  then show "area_get a' = (area_get a)(key \<mapsto> val)"
    "area_keys a' = (if area_get a key = None then area_keys a @ [key] else area_keys a)"
    "area_used a' + (case area_get a key of None \<Rightarrow> 0 | Some v \<Rightarrow> length key + length v) =
       area_used a + length key + length val"
    "c = None \<longleftrightarrow> area_get a key = Some val" "area_used a' \<le> STORAGE_QUOTA_BYTES" by blast+
qed

lemma area_set_inv: "area_inv a \<Longrightarrow> area_set key val a = (r, a') \<Longrightarrow> area_inv a'"
proof (cases r)
  case (Inl e)
  assume "area_inv a" "area_set key val a = (r, a')"
  with Inl show ?thesis by (cases rule: area_set_cases[of a key val]) auto
next
  case (Inr c)
  assume a: "area_inv a" "area_set key val a = (r, a')"
  note st = area_set_stored[OF a(1), of key val c a']
  have "key \<notin> set (area_keys a)" if "area_get a key = None"
    using that by (simp add: area_get_map_of area_keys_def map_of_eq_None_iff)
  with st Inr a show ?thesis by (auto simp: area_inv_def)
qed

lemma area_set_error:
  "area_set key val a = (Inl e, a') \<Longrightarrow> a' = a"
  by (cases rule: area_set_cases[of a key val]) auto

lemma area_remove_spec:
  assumes "area_inv a" "area_remove key a = (c, a')"
  shows "area_inv a' \<and> area_get a' = (area_get a)(key := None) \<and>
    c = map_option (\<lambda>v. \<lparr> sc_key = Some key, sc_old_value = Some v, sc_new_value = None \<rparr>) (area_get a key)"
proof (cases "position (\<lambda>p. fst p = key) (a_entries a)")
  case None
  then have "area_get a key = None" using area_old[of a key] by simp
  with None assms show ?thesis by (simp add: area_remove_def fun_upd_idem)
next
  case (Some i)
  note i = position_key[OF Some]
  have d: "distinct (map fst (a_entries a))" using assms(1) by (simp add: area_inv_def area_keys_def)
  have old: "area_get a key = Some (snd (a_entries a ! i))" using area_old[of a key] Some by simp
  have a': "a_entries a' = take i (a_entries a) @ drop (Suc i) (a_entries a)"
    using Some assms(2) by (auto simp: area_remove_def)
  have "distinct (area_keys a')"
    using d by (simp add: area_keys_def a' take_map[symmetric] drop_map[symmetric] distinct_take distinct_drop
        set_take_disj_set_drop_if_distinct)
  moreover have "area_used a' \<le> area_used a"
    using sum_list_delete[OF i(1), of "\<lambda>(k, v). length k + length v"] by (simp add: area_used_def a')
  ultimately show ?thesis
    using assms Some old map_of_list_delete[OF d i]
    by (auto simp: area_inv_def area_remove_def area_get_map_of a')
qed

lemma area_clear_spec:
  assumes "area_clear a = (c, a')"
  shows "area_inv a' \<or> \<not> area_inv a" "area_get a' = Map.empty" "c = None \<longleftrightarrow> area_get a = Map.empty"
  using assms
  by (auto simp: area_clear_def area_inv_def area_keys_def area_used_def area_get_map_of
      map_of_eq_empty_iff split: if_splits)

section \<open>The contract\<close>

text \<open>
  What a holder of areas relies on: a write that succeeds stores the value and touches
  no other key, a write that fails changes nothing, and removal and clearing are exact.
\<close>

locale storage_map =
  fixes empty :: 'a
    and get :: "'a \<Rightarrow> 'k \<Rightarrow> 'v option"
    and put :: "'k \<Rightarrow> 'v \<Rightarrow> 'a \<Rightarrow> ('e + 'c option) \<times> 'a"
    and del :: "'k \<Rightarrow> 'a \<Rightarrow> 'c option \<times> 'a"
    and wipe :: "'a \<Rightarrow> 'c option \<times> 'a"
    and inv :: "'a \<Rightarrow> bool"
  assumes inv_empty: "inv empty"
    and get_empty: "get empty = Map.empty"
    and put_inv: "inv a \<Longrightarrow> put k v a = (r, a') \<Longrightarrow> inv a'"
    and put_ok: "inv a \<Longrightarrow> put k v a = (Inr c, a') \<Longrightarrow> get a' = (get a)(k \<mapsto> v)"
    and put_noop: "inv a \<Longrightarrow> put k v a = (Inr c, a') \<Longrightarrow> c = None \<longleftrightarrow> get a k = Some v"
    and put_error: "put k v a = (Inl e, a') \<Longrightarrow> a' = a"
    and del_inv: "inv a \<Longrightarrow> del k a = (c, a') \<Longrightarrow> inv a'"
    and del_get: "inv a \<Longrightarrow> del k a = (c, a') \<Longrightarrow> get a' = (get a)(k := None)"
    and del_noop: "inv a \<Longrightarrow> del k a = (c, a') \<Longrightarrow> c = None \<longleftrightarrow> get a k = None"
    and wipe_inv: "inv a \<Longrightarrow> wipe a = (c, a') \<Longrightarrow> inv a'"
    and wipe_get: "inv a \<Longrightarrow> wipe a = (c, a') \<Longrightarrow> get a' = Map.empty"
    and wipe_noop: "inv a \<Longrightarrow> wipe a = (c, a') \<Longrightarrow> c = None \<longleftrightarrow> get a = Map.empty"
begin

text \<open>A map of areas, read through: an absent area reads as an empty one.\<close>

definition view :: "('o \<rightharpoonup> 'a) \<Rightarrow> 'o \<Rightarrow> 'k \<Rightarrow> 'v option" where
  "view areas origin k = (case areas origin of None \<Rightarrow> None | Some a \<Rightarrow> get a k)"

definition all_inv :: "('o \<rightharpoonup> 'a) \<Rightarrow> bool" where
  "all_inv areas \<longleftrightarrow> (\<forall>origin a. areas origin = Some a \<longrightarrow> inv a)"

definition or_default :: "'a option \<Rightarrow> 'a" where
  "or_default x = (case x of None \<Rightarrow> empty | Some a \<Rightarrow> a)"

lemma or_default_inv: "all_inv areas \<Longrightarrow> inv (or_default (areas origin))"
  by (simp add: or_default_def all_inv_def inv_empty split: option.split)

lemma view_or_default: "view areas origin = get (or_default (areas origin))"
  by (simp add: view_def or_default_def get_empty fun_eq_iff split: option.split)

lemma all_inv_upd: "all_inv areas \<Longrightarrow> inv a \<Longrightarrow> all_inv (areas(origin \<mapsto> a))"
  by (simp add: all_inv_def)

lemma view_upd: "view (areas(origin \<mapsto> a)) = (view areas)(origin := get a)"
  by (auto simp: view_def fun_eq_iff)

lemma view_put:
  assumes "all_inv areas" "put k v (or_default (areas origin)) = (Inr c, a')"
  shows "view (areas(origin \<mapsto> a')) = (view areas)(origin := (view areas origin)(k \<mapsto> v))"
  using put_ok[OF or_default_inv[OF assms(1)] assms(2)] by (simp add: view_upd view_or_default)

lemma view_put_error:
  assumes "put k v (or_default (areas origin)) = (Inl e, a')"
  shows "view (areas(origin \<mapsto> a')) = view areas"
  using put_error[OF assms] by (simp add: view_upd view_or_default fun_upd_idem)

lemma all_inv_put:
  assumes "all_inv areas" "put k v (or_default (areas origin)) = (r, a')"
  shows "all_inv (areas(origin \<mapsto> a'))"
  using put_inv[OF or_default_inv[OF assms(1)] assms(2)] assms(1) by (rule all_inv_upd[rotated])

lemma view_del:
  assumes "all_inv areas" "areas origin = Some a" "del k a = (c, a')"
  shows "view (areas(origin \<mapsto> a')) = (view areas)(origin := (view areas origin)(k := None))"
    and "all_inv (areas(origin \<mapsto> a'))"
  using assms del_get[OF _ assms(3)] del_inv[OF _ assms(3)]
  by (auto simp: view_upd all_inv_def view_def fun_eq_iff)

lemma view_wipe:
  assumes "all_inv areas" "areas origin = Some a" "wipe a = (c, a')"
  shows "view (areas(origin \<mapsto> a')) = (view areas)(origin := Map.empty)"
    and "all_inv (areas(origin \<mapsto> a'))"
  using assms wipe_get[OF _ assms(3)] wipe_inv[OF _ assms(3)]
  by (auto simp: view_upd all_inv_def)

end

interpretation ws: storage_map area_default area_get area_set area_remove area_clear area_inv
proof
  show "area_inv area_default" by (simp add: area_inv_def area_default_def area_keys_def area_used_def)
  show "area_get area_default = Map.empty" by (simp add: area_get_map_of area_default_def)
  fix a a' k v r c e
  show "area_set k v a = (Inl e, a') \<Longrightarrow> a' = a" by (rule area_set_error)
  assume inv: "area_inv a"
  show "area_set k v a = (r, a') \<Longrightarrow> area_inv a'" by (rule area_set_inv[OF inv])
  show "area_set k v a = (Inr c, a') \<Longrightarrow> area_get a' = (area_get a)(k \<mapsto> v)"
    "area_set k v a = (Inr c, a') \<Longrightarrow> c = None \<longleftrightarrow> area_get a k = Some v"
    using area_set_stored(1,4)[OF inv] by blast+
  show "area_remove k a = (c, a') \<Longrightarrow> area_inv a'"
    "area_remove k a = (c, a') \<Longrightarrow> area_get a' = (area_get a)(k := None)"
    "area_remove k a = (c, a') \<Longrightarrow> c = None \<longleftrightarrow> area_get a k = None"
    using area_remove_spec[OF inv, of k c a'] by simp_all
  show "area_clear a = (c, a') \<Longrightarrow> area_inv a'" "area_clear a = (c, a') \<Longrightarrow> area_get a' = Map.empty"
    "area_clear a = (c, a') \<Longrightarrow> c = None \<longleftrightarrow> area_get a = Map.empty"
    using area_clear_spec[of a c a'] inv by blast+
qed

end
