(* ===== verification/Browser_Storage.thy ===== *)
theory Browser_Storage
  imports Web_Storage Url_Model "HOL-Library.Char_ord" "HOL-Library.List_Lexorder"
    "HOL-Library.Product_Lexorder"
begin

text \<open>
  The browser-owned storage (\<open>crates/browser/src/storage.rs\<close>) over the areas of
  \<open>Web_Storage\<close>, and the typed keys it is indexed by (\<open>SerializedOrigin\<close> and \<open>StorageKey\<close> of
  \<open>crates/renderer/src/protocol.rs\<close>). Every method takes the mutex once, so one method is
  one step. The URL parser and the serialization of an origin belong to the \<open>url\<close> crate
  and are arguments. Rows are ordered as Rust orders tuples of strings: by bytes,
  lexicographically.
\<close>

type_synonym tab_id = nat
type_synonym storage_key = origin
type_synonym storage_result = "storage_error + storage_change option"

section \<open>Typed keys\<close>

datatype serialized_origin = SOpaque | STuple origin

definition serialized_origin_from :: "origin \<Rightarrow> serialized_origin" where
  "serialized_origin_from orig = (case orig of Opaque _ \<Rightarrow> SOpaque | Tuple _ _ _ \<Rightarrow> STuple orig)"

definition serialized_origin_parse ::
  "(string \<Rightarrow> url option) \<Rightarrow> string \<Rightarrow> serialized_origin option" where
  "serialized_origin_parse url_parse spec =
     (if spec = ''null'' then Some SOpaque
      else map_option (\<lambda>u. serialized_origin_from (u_origin u)) (url_parse spec))"

definition serialized_origin_is_opaque :: "serialized_origin \<Rightarrow> bool" where
  "serialized_origin_is_opaque s = (case s of SOpaque \<Rightarrow> True | STuple _ \<Rightarrow> False)"

definition serialized_origin_display :: "(origin \<Rightarrow> string) \<Rightarrow> serialized_origin \<Rightarrow> string" where
  "serialized_origin_display ascii s = (case s of SOpaque \<Rightarrow> ''null'' | STuple orig \<Rightarrow> ascii orig)"

definition storage_key_from_origin :: "origin \<Rightarrow> storage_key option" where
  "storage_key_from_origin orig = (if is_tuple orig then Some orig else None)"

definition storage_key_parse :: "(string \<Rightarrow> url option) \<Rightarrow> string \<Rightarrow> storage_key option" where
  "storage_key_parse url_parse spec =
     (case serialized_origin_parse url_parse spec of
        None \<Rightarrow> None
      | Some (STuple orig) \<Rightarrow> Some orig
      | Some SOpaque \<Rightarrow> None)"

lemma storage_key_parse_tuple: "storage_key_parse url_parse spec = Some k \<Longrightarrow> is_tuple k"
  by (cases "url_parse spec"; cases "u_origin (the (url_parse spec))")
    (auto simp: storage_key_parse_def serialized_origin_parse_def serialized_origin_from_def is_tuple_def
      split: if_splits origin.splits)

section \<open>Session storage\<close>

record session_storage =
  namespaces :: "tab_id \<rightharpoonup> storage_key \<rightharpoonup> storage_area"

definition session_create :: "tab_id \<Rightarrow> session_storage \<Rightarrow> session_storage" where
  "session_create tab s =
     s\<lparr>namespaces := (namespaces s)(tab \<mapsto>
         (case namespaces s tab of None \<Rightarrow> Map.empty | Some ns \<Rightarrow> ns))\<rparr>"

definition session_copy :: "tab_id \<Rightarrow> tab_id \<Rightarrow> session_storage \<Rightarrow> session_storage" where
  "session_copy source target s =
     (let namespace = (case namespaces s source of None \<Rightarrow> Map.empty | Some ns \<Rightarrow> ns)
      in s\<lparr>namespaces := (namespaces s)(target \<mapsto> namespace)\<rparr>)"

definition session_remove_namespace :: "tab_id \<Rightarrow> session_storage \<Rightarrow> session_storage" where
  "session_remove_namespace tab s = s\<lparr>namespaces := (namespaces s)(tab := None)\<rparr>"

definition session_get :: "session_storage \<Rightarrow> tab_id \<Rightarrow> storage_key \<Rightarrow> string \<Rightarrow> string option" where
  "session_get s tab origin key =
     Option.bind (Option.bind (namespaces s tab) (\<lambda>ns. ns origin)) (\<lambda>area. area_get area key)"

definition session_keys :: "session_storage \<Rightarrow> tab_id \<Rightarrow> storage_key \<Rightarrow> string list" where
  "session_keys s tab origin =
     (case Option.bind (namespaces s tab) (\<lambda>ns. ns origin) of None \<Rightarrow> [] | Some area \<Rightarrow> area_keys area)"

definition session_set ::
  "tab_id \<Rightarrow> storage_key \<Rightarrow> string \<Rightarrow> string \<Rightarrow> session_storage \<Rightarrow> storage_result \<times> session_storage" where
  "session_set tab origin key val s =
     (case namespaces s tab of
        None \<Rightarrow> (Inr None, s)
      | Some ns \<Rightarrow>
          (let area = (case ns origin of None \<Rightarrow> area_default | Some a \<Rightarrow> a);
               (result, area) = area_set key val area
           in (result, s\<lparr>namespaces := (namespaces s)(tab \<mapsto> ns(origin \<mapsto> area))\<rparr>)))"

definition session_remove ::
  "tab_id \<Rightarrow> storage_key \<Rightarrow> string \<Rightarrow> session_storage \<Rightarrow> storage_change option \<times> session_storage" where
  "session_remove tab origin key s =
     (case namespaces s tab of
        None \<Rightarrow> (None, s)
      | Some ns \<Rightarrow>
          (case ns origin of
             None \<Rightarrow> (None, s)
           | Some area \<Rightarrow>
               (let (change, area) = area_remove key area
                in (change, s\<lparr>namespaces := (namespaces s)(tab \<mapsto> ns(origin \<mapsto> area))\<rparr>))))"

definition session_clear ::
  "tab_id \<Rightarrow> storage_key \<Rightarrow> session_storage \<Rightarrow> storage_change option \<times> session_storage" where
  "session_clear tab origin s =
     (case namespaces s tab of
        None \<Rightarrow> (None, s)
      | Some ns \<Rightarrow>
          (case ns origin of
             None \<Rightarrow> (None, s)
           | Some area \<Rightarrow>
               (let (change, area) = area_clear area
                in (change, s\<lparr>namespaces := (namespaces s)(tab \<mapsto> ns(origin \<mapsto> area))\<rparr>))))"

section \<open>Local storage\<close>

record local_storage =
  areas :: "(storage_key \<times> storage_area) list"
  dirty :: bool

definition local_get :: "local_storage \<Rightarrow> storage_key \<Rightarrow> string \<Rightarrow> string option" where
  "local_get s origin key = Option.bind (map_of (areas s) origin) (\<lambda>area. area_get area key)"

definition local_keys :: "local_storage \<Rightarrow> storage_key \<Rightarrow> string list" where
  "local_keys s origin = (case map_of (areas s) origin of None \<Rightarrow> [] | Some area \<Rightarrow> area_keys area)"

definition local_set ::
  "storage_key \<Rightarrow> string \<Rightarrow> string \<Rightarrow> local_storage \<Rightarrow> storage_result \<times> local_storage" where
  "local_set origin key val s =
     (let area = (case map_of (areas s) origin of None \<Rightarrow> area_default | Some a \<Rightarrow> a);
          (result, area) = area_set key val area;
          s = s\<lparr>areas := AList.update origin area (areas s)\<rparr>
      in case result of
           Inl e \<Rightarrow> (Inl e, s)
         | Inr None \<Rightarrow> (Inr None, s)
         | Inr (Some change) \<Rightarrow> (Inr (Some change), s\<lparr>dirty := True\<rparr>))"

definition local_remove ::
  "storage_key \<Rightarrow> string \<Rightarrow> local_storage \<Rightarrow> storage_change option \<times> local_storage" where
  "local_remove origin key s =
     (case map_of (areas s) origin of
        None \<Rightarrow> (None, s)
      | Some area \<Rightarrow>
          (let (change, area) = area_remove key area;
               s = s\<lparr>areas := AList.update origin area (areas s)\<rparr>
           in case change of None \<Rightarrow> (None, s) | Some c \<Rightarrow> (Some c, s\<lparr>dirty := True\<rparr>)))"

definition local_clear :: "storage_key \<Rightarrow> local_storage \<Rightarrow> storage_change option \<times> local_storage" where
  "local_clear origin s =
     (case map_of (areas s) origin of
        None \<Rightarrow> (None, s)
      | Some area \<Rightarrow>
          (let (change, area) = area_clear area;
               s = s\<lparr>areas := AList.update origin area (areas s)\<rparr>
           in case change of None \<Rightarrow> (None, s) | Some c \<Rightarrow> (Some c, s\<lparr>dirty := True\<rparr>)))"

definition local_is_dirty :: "local_storage \<Rightarrow> bool" where
  "local_is_dirty s = dirty s"

definition local_mark_clean :: "local_storage \<Rightarrow> local_storage" where
  "local_mark_clean s = s\<lparr>dirty := False\<rparr>"

definition local_export ::
  "(origin \<Rightarrow> string) \<Rightarrow> local_storage \<Rightarrow> (string \<times> string \<times> string) list" where
  "local_export ascii s =
     sort (concat (map (\<lambda>(origin, area). map (\<lambda>(key, val). (ascii origin, key, val)) (a_entries area))
       (areas s)))"

fun import_rows ::
  "(string \<Rightarrow> storage_key option) \<Rightarrow> (string \<times> string \<times> string) list \<Rightarrow>
     (storage_key \<times> storage_area) list \<Rightarrow> (storage_key \<times> storage_area) list" where
  "import_rows parse [] as = as"
| "import_rows parse ((spec, key, val) # rows) as =
     (case parse spec of
        None \<Rightarrow> import_rows parse rows as
      | Some origin \<Rightarrow>
          (let area = (case map_of as origin of None \<Rightarrow> area_default | Some a \<Rightarrow> a)
           in import_rows parse rows (AList.update origin (snd (area_set key val area)) as)))"

definition local_import ::
  "(string \<Rightarrow> url option) \<Rightarrow> (string \<times> string \<times> string) list \<Rightarrow> local_storage \<Rightarrow> local_storage" where
  "local_import url_parse rows s = s\<lparr>areas := import_rows (storage_key_parse url_parse) rows []\<rparr>"

end
