(* ===== verification/Browser_Storage_Props.thy ===== *)
theory Browser_Storage_Props
  imports Browser_Storage "HOL-Library.Multiset"
begin

text \<open>
  What the browser's storage guarantees: the abstract state is a lookup per origin and key
  (\<open>ws.view\<close>), every operation refines the obvious update of it, the quota and the unique keys
  hold after any sequence of operations, and the rows handed to the profile store rebuild
  the same lookups.
\<close>

section \<open>Local storage as a map of areas\<close>

definition local_default :: local_storage where
  "local_default = \<lparr> areas = [], dirty = False \<rparr>"

definition local_inv :: "local_storage \<Rightarrow> bool" where
  "local_inv s \<longleftrightarrow> distinct (map fst (areas s)) \<and> ws.all_inv (map_of (areas s))"

abbreviation local_map :: "local_storage \<Rightarrow> storage_key \<rightharpoonup> storage_area" where
  "local_map s \<equiv> map_of (areas s)"

lemma local_get_view: "local_get s = ws.view (local_map s)"
  by (auto simp: local_get_def ws.view_def fun_eq_iff split: option.split)

lemma map_of_AList_update [simp]: "map_of (AList.update k v al) = (map_of al)(k \<mapsto> v)"
  by (simp add: update_conv')

lemma or_default_case: "(case x of None \<Rightarrow> area_default | Some a \<Rightarrow> a) = ws.or_default x"
  by (simp add: ws.or_default_def)

lemma default_area [simp]: "area_keys (ws.or_default None) = []" "area_used (ws.or_default None) = 0"
  by (simp_all add: ws.or_default_def) (simp_all add: area_default_def area_keys_def area_used_def)

lemma local_keys_or_default: "local_keys s origin = area_keys (ws.or_default (local_map s origin))"
  by (cases "local_map s origin") (simp_all add: local_keys_def, simp add: ws.or_default_def)

lemma local_set_props:
  assumes "local_inv s" "local_set origin key val s = (r, s')"
  shows "local_inv s'"
    and "r = fst (area_set key val (ws.or_default (local_map s origin)))"
    and "local_get s' = (case r of Inl _ \<Rightarrow> local_get s
           | Inr _ \<Rightarrow> (local_get s)(origin := (local_get s origin)(key \<mapsto> val)))"
    and "dirty s' \<longleftrightarrow> dirty s \<or> (\<exists>c. r = Inr (Some c))"
    and "r = Inr None \<longleftrightarrow> local_get s origin key = Some val"
proof -
  obtain r0 a' where r0: "area_set key val (ws.or_default (local_map s origin)) = (r0, a')" by fastforce
  have r: "r = r0" "areas s' = AList.update origin a' (areas s)" "dirty s' \<longleftrightarrow> dirty s \<or> (\<exists>c. r = Inr (Some c))"
    using assms(2) r0
    by (auto simp: local_set_def or_default_case Let_def split: sum.splits option.splits)
  have inv: "ws.all_inv (local_map s)" using assms(1) by (simp add: local_inv_def)
  show "local_inv s'"
    using ws.all_inv_put[OF inv r0] assms(1) r by (simp add: local_inv_def distinct_update)
  show "r = fst (area_set key val (ws.or_default (local_map s origin)))" using r r0 by simp
  show "local_get s' = (case r of Inl _ \<Rightarrow> local_get s
           | Inr _ \<Rightarrow> (local_get s)(origin := (local_get s origin)(key \<mapsto> val)))"
  proof (cases r)
    case (Inl e)
    then show ?thesis using ws.view_put_error[of key val "local_map s" origin e a'] r r0
      by (simp add: local_get_view)
  next
    case (Inr c)
    then show ?thesis using ws.view_put[OF inv, of key val origin c a'] r r0
      by (simp add: local_get_view)
  qed
  show "dirty s' \<longleftrightarrow> dirty s \<or> (\<exists>c. r = Inr (Some c))" by (rule r(3))
  have "fst (area_set key val a) = Inr None \<longleftrightarrow> area_get a key = Some val" for a
    by (cases rule: area_set_cases[of a key val]) auto
  then show "r = Inr None \<longleftrightarrow> local_get s origin key = Some val"
    using r r0 by (metis fst_conv local_get_view ws.view_or_default)
qed

lemma local_remove_props:
  assumes "local_inv s" "local_remove origin key s = (c, s')"
  shows "local_inv s'"
    and "local_get s' = (local_get s)(origin := (local_get s origin)(key := None))"
    and "c = None \<longleftrightarrow> local_get s origin key = None"
    and "dirty s' \<longleftrightarrow> dirty s \<or> c \<noteq> None"
proof -
  have inv: "ws.all_inv (local_map s)" using assms(1) by (simp add: local_inv_def)
  have "local_inv s' \<and> local_get s' = (local_get s)(origin := (local_get s origin)(key := None)) \<and>
    (c = None \<longleftrightarrow> local_get s origin key = None) \<and> (dirty s' \<longleftrightarrow> dirty s \<or> c \<noteq> None)"
  proof (cases "local_map s origin")
    case None
    then show ?thesis
      using assms by (auto simp: local_remove_def local_get_def fun_eq_iff)
  next
    case (Some a)
    obtain c0 a' where r0: "area_remove key a = (c0, a')" by fastforce
    have r: "c = c0" "areas s' = AList.update origin a' (areas s)" "dirty s' \<longleftrightarrow> dirty s \<or> c \<noteq> None"
      using assms(2) r0 Some by (auto simp: local_remove_def Let_def split: option.splits)
    have "area_inv a" using inv Some by (simp add: ws.all_inv_def)
    then show ?thesis
      using ws.view_del[OF inv Some r0] assms(1) r ws.del_noop[OF _ r0] Some
      by (simp add: local_inv_def distinct_update local_get_view) (simp add: ws.view_def)
  qed
  then show "local_inv s'" "local_get s' = (local_get s)(origin := (local_get s origin)(key := None))"
    "c = None \<longleftrightarrow> local_get s origin key = None" "dirty s' \<longleftrightarrow> dirty s \<or> c \<noteq> None" by blast+
qed

lemma local_clear_props:
  assumes "local_inv s" "local_clear origin s = (c, s')"
  shows "local_inv s'"
    and "local_get s' = (local_get s)(origin := Map.empty)"
    and "c = None \<longleftrightarrow> local_get s origin = Map.empty"
    and "dirty s' \<longleftrightarrow> dirty s \<or> c \<noteq> None"
proof -
  have inv: "ws.all_inv (local_map s)" using assms(1) by (simp add: local_inv_def)
  have "local_inv s' \<and> local_get s' = (local_get s)(origin := Map.empty) \<and>
    (c = None \<longleftrightarrow> local_get s origin = Map.empty) \<and> (dirty s' \<longleftrightarrow> dirty s \<or> c \<noteq> None)"
  proof (cases "local_map s origin")
    case None
    then show ?thesis
      using assms by (auto simp: local_clear_def local_get_def fun_eq_iff)
  next
    case (Some a)
    obtain c0 a' where r0: "area_clear a = (c0, a')" by fastforce
    have r: "c = c0" "areas s' = AList.update origin a' (areas s)" "dirty s' \<longleftrightarrow> dirty s \<or> c \<noteq> None"
      using assms(2) r0 Some by (auto simp: local_clear_def Let_def split: option.splits)
    have "area_inv a" using inv Some by (simp add: ws.all_inv_def)
    then have "c = None \<longleftrightarrow> local_get s origin = Map.empty"
      using ws.wipe_noop[OF _ r0] Some r by (simp add: local_get_def fun_eq_iff)
    then show ?thesis
      using ws.view_wipe[OF inv Some r0] assms(1) r
      by (simp add: local_inv_def distinct_update local_get_view)
  qed
  then show "local_inv s'" "local_get s' = (local_get s)(origin := Map.empty)"
    "c = None \<longleftrightarrow> local_get s origin = Map.empty" "dirty s' \<longleftrightarrow> dirty s \<or> c \<noteq> None" by blast+
qed

section \<open>The persisted rows\<close>

definition raw_rows :: "(origin \<Rightarrow> string) \<Rightarrow> local_storage \<Rightarrow> (string \<times> string \<times> string) list" where
  "raw_rows ascii s = concat (map (\<lambda>(origin, area).
     map (\<lambda>(key, val). (ascii origin, key, val)) (a_entries area)) (areas s))"

definition put_row ::
  "storage_key \<times> string \<times> string \<Rightarrow> (storage_key \<rightharpoonup> storage_area) \<Rightarrow> (storage_key \<rightharpoonup> storage_area)" where
  "put_row = (\<lambda>(origin, key, val) m. m(origin \<mapsto> snd (area_set key val (ws.or_default (m origin)))))"

definition decode_rows ::
  "(string \<Rightarrow> storage_key option) \<Rightarrow> (string \<times> string \<times> string) list \<Rightarrow> (storage_key \<times> string \<times> string) list" where
  "decode_rows parse rows =
     List.map_filter (\<lambda>(spec, kv). map_option (\<lambda>origin. (origin, kv)) (parse spec)) rows"

definition rows_bytes :: "storage_key \<Rightarrow> (storage_key \<times> string \<times> string) list \<Rightarrow> nat" where
  "rows_bytes origin rs = sum_list (map (\<lambda>(o', k, v). if o' = origin then length k + length v else 0) rs)"

definition rows_map :: "(storage_key \<times> string \<times> string) list \<Rightarrow> storage_key \<times> string \<rightharpoonup> string" where
  "rows_map rs = map_of (map (\<lambda>(o', k, v). ((o', k), v)) rs)"

definition rows_keys :: "storage_key \<Rightarrow> (storage_key \<times> string \<times> string) list \<Rightarrow> string list" where
  "rows_keys origin rs = map (\<lambda>(o', k, v). k) (filter (\<lambda>r. fst r = origin) rs)"

lemma import_rows_distinct:
  "distinct (map fst as) \<Longrightarrow> distinct (map fst (import_rows parse rows as))"
  by (induction parse rows as rule: import_rows.induct)
    (auto simp: Let_def distinct_update split: option.split)

lemma import_rows_fold:
  "map_of (import_rows parse rows as) = fold put_row (decode_rows parse rows) (map_of as)"
proof (induction rows arbitrary: as)
  case (Cons r rows)
  obtain spec key val where r: "r = (spec, key, val)" by (cases r)
  show ?case
    by (cases "parse spec")
      (simp_all add: r Cons.IH decode_rows_def map_filter_simps put_row_def or_default_case Let_def fun_upd_def)
qed (simp add: decode_rows_def map_filter_simps)

lemma put_row_inv: "ws.all_inv m \<Longrightarrow> ws.all_inv (put_row r m)"
  by (cases r) (auto simp: put_row_def intro: ws.all_inv_put[OF _ surjective_pairing])

lemma fold_put_row_inv: "ws.all_inv m \<Longrightarrow> ws.all_inv (fold put_row rs m)"
  by (induction rs arbitrary: m) (auto intro: put_row_inv)

lemma area_set_fits:
  assumes "area_inv a" "area_get a key = None" "area_used a + length key + length val \<le> STORAGE_QUOTA_BYTES"
  obtains c where "area_set key val a = (Inr (Some c), snd (area_set key val a))"
    "area_get (snd (area_set key val a)) = (area_get a)(key \<mapsto> val)"
    "area_keys (snd (area_set key val a)) = area_keys a @ [key]"
    "area_used (snd (area_set key val a)) = area_used a + length key + length val"
proof (cases rule: area_set_cases[of a key val])
  case same
  with assms show ?thesis by simp
next
  case quota
  with assms show ?thesis by simp
next
  case (stored c a')
  then show ?thesis using that[of c] area_set_stored[OF assms(1) stored(2)] assms by simp
qed

text \<open>Rows with distinct keys that fit the quota of each origin are all stored, in their order.\<close>

lemma fold_put_rows:
  assumes "ws.all_inv m" "distinct (map (\<lambda>(o', k, v). (o', k)) rs)"
    and "\<And>o' k v. (o', k, v) \<in> set rs \<Longrightarrow> ws.view m o' k = None"
    and "\<And>o'. area_used (ws.or_default (m o')) + rows_bytes o' rs \<le> STORAGE_QUOTA_BYTES"
  shows "ws.view (fold put_row rs m) origin k =
           (case rows_map rs (origin, k) of None \<Rightarrow> ws.view m origin k | Some v \<Rightarrow> Some v) \<and>
         area_keys (ws.or_default (fold put_row rs m origin)) =
           area_keys (ws.or_default (m origin)) @ rows_keys origin rs"
  using assms
proof (induction rs arbitrary: m)
  case Nil
  then show ?case by (simp add: rows_map_def rows_keys_def)
next
  case (Cons r rs)
  obtain o' key val where r: "r = (o', key, val)" by (cases r)
  define a where "a = ws.or_default (m o')"
  have a: "area_inv a" "area_get a key = None" "area_used a + length key + length val \<le> STORAGE_QUOTA_BYTES"
    using Cons.prems(3)[of o' key val] Cons.prems(4)[of o'] ws.or_default_inv[OF Cons.prems(1), of o']
    by (simp_all add: a_def r rows_bytes_def flip: ws.view_or_default)
  obtain c where put: "area_get (snd (area_set key val a)) = (area_get a)(key \<mapsto> val)"
    "area_keys (snd (area_set key val a)) = area_keys a @ [key]"
    "area_used (snd (area_set key val a)) = area_used a + length key + length val"
    using area_set_fits[OF a] by metis
  have m': "put_row r m = m(o' \<mapsto> snd (area_set key val a))" by (simp add: put_row_def r a_def)
  have view': "ws.view (put_row r m) = (ws.view m)(o' := (ws.view m o')(key \<mapsto> val))"
    by (simp add: m' ws.view_upd put) (simp add: a_def flip: ws.view_or_default)
  have used': "area_used (ws.or_default (put_row r m o2)) =
      area_used (ws.or_default (m o2)) + (if o2 = o' then length key + length val else 0)" for o2
    using put(3) by (simp add: m' a_def) (simp add: ws.or_default_def)
  have keys': "area_keys (ws.or_default (put_row r m origin)) =
      area_keys (ws.or_default (m origin)) @ (if origin = o' then [key] else [])"
    using put(2) by (simp add: m' a_def) (simp add: ws.or_default_def)
  have fresh: "(o', key, v) \<notin> set rs" for v using Cons.prems(2) by (force simp: r)
  have "ws.view (fold put_row rs (put_row r m)) origin k =
        (case rows_map rs (origin, k) of None \<Rightarrow> ws.view (put_row r m) origin k | Some v \<Rightarrow> Some v) \<and>
      area_keys (ws.or_default (fold put_row rs (put_row r m) origin)) =
        area_keys (ws.or_default (put_row r m origin)) @ rows_keys origin rs"
  proof (rule Cons.IH)
    show "ws.all_inv (put_row r m)" using Cons.prems(1) by (rule put_row_inv)
    show "distinct (map (\<lambda>(o', k, v). (o', k)) rs)" using Cons.prems(2) by simp
    show "ws.view (put_row r m) o2 k2 = None" if "(o2, k2, v2) \<in> set rs" for o2 k2 v2
      using Cons.prems(3)[of o2 k2 v2] that fresh[of v2] by (auto simp: view')
    show "area_used (ws.or_default (put_row r m o2)) + rows_bytes o2 rs \<le> STORAGE_QUOTA_BYTES" for o2
      using Cons.prems(4)[of o2] used'[of o2] by (cases "o2 = o'") (simp_all add: r rows_bytes_def)
  qed
  moreover have "rows_map rs (o', key) = None"
    using fresh by (force simp: rows_map_def map_of_eq_None_iff)
  ultimately show ?case
    by (auto simp: view'[unfolded r] keys'[unfolded r] r rows_map_def rows_keys_def split: option.split)
qed

definition triples :: "(storage_key \<times> storage_area) list \<Rightarrow> (storage_key \<times> string \<times> string) list" where
  "triples as = concat (map (\<lambda>(origin, area). map (\<lambda>(k, v). (origin, k, v)) (a_entries area)) as)"

lemma triples_simps [simp]:
  "triples [] = []"
  "triples ((origin, area) # as) = map (\<lambda>(k, v). (origin, k, v)) (a_entries area) @ triples as"
  by (simp_all add: triples_def)

lemma triples_origin: "(origin, k, v) \<in> set (triples as) \<Longrightarrow> origin \<in> fst ` set as"
  by (induction as) auto

lemma export_triples: "local_export ascii s = sort (map (\<lambda>(origin, kv). (ascii origin, kv)) (triples (areas s)))"
  by (simp add: local_export_def triples_def map_concat comp_def case_prod_unfold)

lemma triples_distinct:
  "distinct (map fst as) \<Longrightarrow> ws.all_inv (map_of as) \<Longrightarrow> distinct (map (\<lambda>(o', k, v). (o', k)) (triples as))"
proof (induction as)
  case (Cons x as)
  obtain origin area where x: "x = (origin, area)" by (cases x)
  have "map_of as origin = None" using Cons.prems(1) by (simp add: x map_of_eq_None_iff)
  then have "ws.all_inv (map_of as)"
    using Cons.prems(2) by (simp add: ws.all_inv_def x) (metis option.distinct(1))
  moreover have "area_inv area"
    using Cons.prems(2) unfolding ws.all_inv_def x by (metis map_of_Cons_code(2))
  moreover from \<open>area_inv area\<close> have "distinct (map (\<lambda>(k, v). (origin, k)) (a_entries area))"
    by (simp add: area_inv_def area_keys_def distinct_map inj_on_def case_prod_unfold)
  moreover have "(origin, k, v) \<notin> set (triples as)" for k v
    using Cons.prems(1) triples_origin[of origin k v as] by (auto simp: x)
  ultimately show ?case using Cons by (auto simp: x comp_def case_prod_unfold image_iff)
qed simp

lemma triples_view:
  "distinct (map fst as) \<Longrightarrow> rows_map (triples as) (origin, k) = ws.view (map_of as) origin k"
proof (induction as)
  case (Cons x as)
  obtain o' area where x: "x = (o', area)" by (cases x)
  have first: "map_of (map (\<lambda>(k, v). ((o', k), v)) xs) (origin, k) = (if origin = o' then map_of xs k else None)"
    for xs :: "(string \<times> string) list" by (induction xs) auto
  have "rows_map (triples as) (o', k) = None"
    using Cons.prems by (force simp: x rows_map_def map_of_eq_None_iff dest: triples_origin)
  then show ?case
    using Cons first[of "a_entries area"]
    by (simp add: x rows_map_def comp_def case_prod_unfold ws.view_def)
      (auto simp: area_get_map_of map_add_def split: option.splits)
qed (simp add: rows_map_def ws.view_def)

lemma triples_other:
  "origin \<notin> fst ` set as \<Longrightarrow> rows_bytes origin (triples as) = 0 \<and> rows_keys origin (triples as) = []"
  by (auto simp: rows_bytes_def rows_keys_def filter_empty_conv dest: triples_origin)

lemma triples_area:
  "distinct (map fst as) \<Longrightarrow>
     rows_bytes origin (triples as) = area_used (ws.or_default (map_of as origin)) \<and>
     rows_keys origin (triples as) = area_keys (ws.or_default (map_of as origin))"
proof (induction as)
  case Nil
  then show ?case by (simp add: rows_bytes_def rows_keys_def ws.or_default_def)
      (simp add: area_default_def area_used_def area_keys_def)
next
  case (Cons x as)
  obtain o' area where x: "x = (o', area)" by (cases x)
  show ?case
  proof (cases "origin = o'")
    case True
    then have "rows_bytes origin (triples as) = 0 \<and> rows_keys origin (triples as) = []"
      using Cons.prems by (intro triples_other) (auto simp: x)
    with True show ?thesis
      by (simp add: x rows_bytes_def rows_keys_def ws.or_default_def area_used_def area_keys_def
          comp_def case_prod_unfold)
  next
    case False
    then have "rows_bytes origin (triples (x # as)) = rows_bytes origin (triples as) \<and>
      rows_keys origin (triples (x # as)) = rows_keys origin (triples as)"
      by (simp add: x rows_bytes_def rows_keys_def comp_def case_prod_unfold)
    with False Cons show ?thesis by (simp add: x)
  qed
qed

lemma rows_bytes_cong: "mset rs = mset rs' \<Longrightarrow> rows_bytes origin rs = rows_bytes origin rs'"
  unfolding rows_bytes_def sum_mset_sum_list[symmetric] mset_map by simp

lemma triples_cong:
  assumes "mset as = mset as'"
  shows "mset (triples as) = mset (triples as')"
proof -
  have "mset (triples as) = (\<Sum>(origin, area)\<in>#mset as. mset (map (\<lambda>(k, v). (origin, k, v)) (a_entries area)))" for as
    by (induction as) (auto simp: triples_def)
  with assms show ?thesis by simp
qed

lemma mset_decode_sort: "mset (decode_rows parse (sort rows)) = mset (decode_rows parse rows)"
  by (simp add: decode_rows_def List.map_filter_def)

lemma decode_encode:
  assumes "\<And>origin. origin \<in> fst ` set rs \<Longrightarrow> parse (ascii origin) = Some origin"
  shows "decode_rows parse (map (\<lambda>(origin, kv). (ascii origin, kv)) rs) = rs"
  using assms by (induction rs) (auto simp: decode_rows_def map_filter_simps)

lemma rows_keys_decode:
  "rows_keys origin (decode_rows parse rows) =
     map (\<lambda>(spec, k, v). k) (filter (\<lambda>r. parse (fst r) = Some origin) rows)"
  by (induction rows) (auto simp: rows_keys_def decode_rows_def map_filter_simps split: option.splits)

lemma sorted_third:
  fixes rows :: "(string \<times> string \<times> string) list"
  assumes "sorted rows" "\<And>r. r \<in> set rows \<Longrightarrow> fst r = spec"
  shows "sorted (map (\<lambda>(s, k, v). k) rows)"
  unfolding sorted_map
proof (rule sorted_wrt_mono_rel[OF _ assms(1)])
  fix x y
  assume "x \<in> set rows" "y \<in> set rows" and le: "x \<le> y"
  then have "fst x = fst y" using assms(2) by metis
  with le show "(case x of (s, k, v) \<Rightarrow> k) \<le> (case y of (s, k, v) \<Rightarrow> k)"
    by (auto simp: less_eq_prod_def case_prod_unfold)
qed

text \<open>What the rows of an exported storage decode to.\<close>

lemma export_decode:
  assumes "local_inv s" "\<And>origin. origin \<in> fst ` set (areas s) \<Longrightarrow> parse (ascii origin) = Some origin"
  shows "mset (decode_rows parse (local_export ascii s)) = mset (triples (areas s))"
    and "rows_keys origin (decode_rows parse (local_export ascii s)) = sort (local_keys s origin)"
proof -
  have origins: "o' \<in> fst ` set (areas s)" if "o' \<in> fst ` set (triples (areas s))" for o'
    using that triples_origin by fastforce
  show m: "mset (decode_rows parse (local_export ascii s)) = mset (triples (areas s))"
    using assms(2) origins by (simp add: export_triples mset_decode_sort decode_encode)
  have "mset (rows_keys origin (decode_rows parse (local_export ascii s))) =
      mset (rows_keys origin (triples (areas s)))"
    using m by (simp add: rows_keys_def)
  also have "rows_keys origin (triples (areas s)) = local_keys s origin"
    using triples_area[of "areas s" origin] assms(1)
    by (simp add: local_inv_def local_keys_or_default)
  finally have keys: "mset (rows_keys origin (decode_rows parse (local_export ascii s))) =
      mset (local_keys s origin)" .
  have one: "fst r = ascii origin"
    if r: "r \<in> set (local_export ascii s)" "parse (fst r) = Some origin" for r
  proof -
    obtain o' kv where o': "(o', kv) \<in> set (triples (areas s))" "r = (ascii o', kv)"
      using r(1) by (auto simp: export_triples)
    then have "o' \<in> fst ` set (areas s)" using origins by (metis fst_conv image_eqI)
    then have "parse (ascii o') = Some o'" by (rule assms(2))
    then show ?thesis using r(2) o' by simp
  qed
  have "sorted (rows_keys origin (decode_rows parse (local_export ascii s)))"
    unfolding rows_keys_decode
    by (rule sorted_third[where spec = "ascii origin"])
      (use one in \<open>auto simp: sorted_wrt_filter local_export_def\<close>)
  with keys show "rows_keys origin (decode_rows parse (local_export ascii s)) = sort (local_keys s origin)"
    by (metis properties_for_sort)
qed

lemma import_inv:
  "local_inv (local_import url_parse rows s)"
  using fold_put_row_inv[of Map.empty]
  by (simp add: local_inv_def local_import_def import_rows_distinct import_rows_fold ws.all_inv_def)

lemma import_view:
  assumes "distinct (map (\<lambda>(o', k, v). (o', k)) rs)"
    and "\<And>o'. rows_bytes o' rs \<le> STORAGE_QUOTA_BYTES"
    and "rs = decode_rows (storage_key_parse url_parse) rows"
  shows "local_get (local_import url_parse rows s) origin k = rows_map rs (origin, k)"
    and "local_keys (local_import url_parse rows s) origin = rows_keys origin rs"
proof -
  have used: "area_used (ws.or_default (Map.empty o')) + rows_bytes o' rs \<le> STORAGE_QUOTA_BYTES" for o'
    using assms(2)[of o'] by simp
  have m: "local_map (local_import url_parse rows s) = fold put_row rs Map.empty"
    by (simp add: local_import_def import_rows_fold assms(3))
  have "ws.all_inv Map.empty" "\<And>o' k v. ws.view Map.empty o' k = None"
    by (simp_all add: ws.all_inv_def ws.view_def)
  from fold_put_rows[OF this(1) assms(1) this(2) used, of origin k] this(2)
  show "local_get (local_import url_parse rows s) origin k = rows_map rs (origin, k)"
    "local_keys (local_import url_parse rows s) origin = rows_keys origin rs"
    by (simp_all add: local_get_view m local_keys_or_default split: option.splits)
qed

section \<open>Session storage\<close>

definition session_inv :: "session_storage \<Rightarrow> bool" where
  "session_inv s \<longleftrightarrow> (\<forall>tab ns. namespaces s tab = Some ns \<longrightarrow> ws.all_inv ns)"

lemma session_get_view:
  "session_get s tab = (case namespaces s tab of None \<Rightarrow> \<lambda>_. Map.empty | Some ns \<Rightarrow> ws.view ns)"
  by (auto simp: session_get_def ws.view_def fun_eq_iff split: option.split)

lemma session_set_get:
  assumes "session_inv s" "session_set tab origin key val s = (r, s')"
  shows "session_inv s' \<and> session_get s' = (session_get s)(tab :=
    (if namespaces s tab = None \<or> (\<exists>e. r = Inl e) then session_get s tab
     else (session_get s tab)(origin := (session_get s tab origin)(key \<mapsto> val))))"
proof (cases "namespaces s tab")
  case None
  then show ?thesis using assms by (simp add: session_set_def)
next
  case (Some ns)
  obtain r0 a' where r0: "area_set key val (ws.or_default (ns origin)) = (r0, a')" by fastforce
  have s': "s' = s\<lparr>namespaces := (namespaces s)(tab \<mapsto> ns(origin \<mapsto> a'))\<rparr>" "r = r0"
    using assms(2) Some r0 by (simp_all add: session_set_def or_default_case)
  have inv: "ws.all_inv ns" using assms(1) Some by (simp add: session_inv_def)
  have "session_inv s'" using assms(1) ws.all_inv_put[OF inv r0] by (simp add: session_inv_def s')
  moreover have "session_get s' tab = (if \<exists>e. r = Inl e then session_get s tab
     else (session_get s tab)(origin := (session_get s tab origin)(key \<mapsto> val)))"
    using ws.view_put[OF inv, of key val origin] ws.view_put_error[of key val ns origin] r0
    by (cases r) (simp_all add: session_get_view s' Some)
  moreover have "session_get s' t = session_get s t" if "t \<noteq> tab" for t
    using that by (simp add: session_get_view s')
  ultimately show ?thesis using Some by (auto simp: fun_eq_iff)
qed

lemma session_remove_get:
  assumes "session_inv s" "session_remove tab origin key s = (c, s')"
  shows "session_inv s' \<and> session_get s' =
    (session_get s)(tab := (session_get s tab)(origin := (session_get s tab origin)(key := None)))"
proof (cases "Option.bind (namespaces s tab) (\<lambda>ns. ns origin)")
  case None
  then have "s' = s" using assms(2) by (auto simp: session_remove_def split: option.splits)
  moreover have "session_get s tab origin = Map.empty" using None by (simp add: session_get_def fun_eq_iff)
  ultimately show ?thesis using assms(1) by (simp add: fun_eq_iff)
next
  case (Some a)
  then obtain ns where ns: "namespaces s tab = Some ns" "ns origin = Some a"
    by (auto simp: bind_eq_Some_conv)
  obtain c0 a' where r0: "area_remove key a = (c0, a')" by fastforce
  have s': "s' = s\<lparr>namespaces := (namespaces s)(tab \<mapsto> ns(origin \<mapsto> a'))\<rparr>"
    using assms(2) ns r0 by (simp add: session_remove_def)
  have inv: "ws.all_inv ns" using assms(1) ns by (simp add: session_inv_def)
  show ?thesis
    using ws.view_del[OF inv ns(2) r0] assms(1) ns
    by (intro conjI ext) (simp_all add: session_inv_def s' session_get_view)
qed

lemma session_clear_get:
  assumes "session_inv s" "session_clear tab origin s = (c, s')"
  shows "session_inv s' \<and> session_get s' = (session_get s)(tab := (session_get s tab)(origin := Map.empty))"
proof (cases "Option.bind (namespaces s tab) (\<lambda>ns. ns origin)")
  case None
  then have "s' = s" using assms(2) by (auto simp: session_clear_def split: option.splits)
  moreover have "session_get s tab origin = Map.empty" using None by (simp add: session_get_def fun_eq_iff)
  ultimately show ?thesis using assms(1) by (simp add: fun_eq_iff)
next
  case (Some a)
  then obtain ns where ns: "namespaces s tab = Some ns" "ns origin = Some a"
    by (auto simp: bind_eq_Some_conv)
  obtain c0 a' where r0: "area_clear a = (c0, a')" by fastforce
  have s': "s' = s\<lparr>namespaces := (namespaces s)(tab \<mapsto> ns(origin \<mapsto> a'))\<rparr>"
    using assms(2) ns r0 by (simp add: session_clear_def)
  have inv: "ws.all_inv ns" using assms(1) ns by (simp add: session_inv_def)
  show ?thesis
    using ws.view_wipe[OF inv ns(2) r0] assms(1) ns
    by (intro conjI ext) (simp_all add: session_inv_def s' session_get_view)
qed

lemma session_copy_get:
  assumes "session_inv s"
  shows "session_inv (session_copy source target s) \<and>
    session_get (session_copy source target s) = (session_get s)(target := session_get s source)"
  using assms
  by (auto simp: session_inv_def session_copy_def session_get_view ws.all_inv_def fun_eq_iff ws.view_def
      split: option.split)

lemma session_create_get:
  "session_inv s \<Longrightarrow> session_inv (session_create tab s) \<and> session_get (session_create tab s) = session_get s"
  by (auto simp: session_inv_def session_create_def session_get_view ws.all_inv_def fun_eq_iff ws.view_def
      split: option.splits)

lemma session_remove_namespace_get:
  "session_inv s \<Longrightarrow> session_inv (session_remove_namespace tab s) \<and>
     session_get (session_remove_namespace tab s) = (session_get s)(tab := \<lambda>_. Map.empty)"
  by (auto simp: session_inv_def session_remove_namespace_def session_get_view)

section \<open>Sequences of operations\<close>

datatype local_op =
  LSet storage_key string string | LRemove storage_key string | LClear storage_key
| LMarkClean | LImport "(string \<times> string \<times> string) list"

definition local_step :: "(string \<Rightarrow> url option) \<Rightarrow> local_op \<Rightarrow> local_storage \<Rightarrow> local_storage" where
  "local_step url_parse op s = (case op of
     LSet origin key val \<Rightarrow> snd (local_set origin key val s)
   | LRemove origin key \<Rightarrow> snd (local_remove origin key s)
   | LClear origin \<Rightarrow> snd (local_clear origin s)
   | LMarkClean \<Rightarrow> local_mark_clean s
   | LImport rows \<Rightarrow> local_import url_parse rows s)"

datatype session_op =
  SCreate tab_id | SCopy tab_id tab_id | SDrop tab_id
| SSet tab_id storage_key string string | SRemove tab_id storage_key string | SClear tab_id storage_key

definition session_step :: "session_op \<Rightarrow> session_storage \<Rightarrow> session_storage" where
  "session_step op s = (case op of
     SCreate tab \<Rightarrow> session_create tab s
   | SCopy source target \<Rightarrow> session_copy source target s
   | SDrop tab \<Rightarrow> session_remove_namespace tab s
   | SSet tab origin key val \<Rightarrow> snd (session_set tab origin key val s)
   | SRemove tab origin key \<Rightarrow> snd (session_remove tab origin key s)
   | SClear tab origin \<Rightarrow> snd (session_clear tab origin s))"

fun session_target :: "session_op \<Rightarrow> tab_id" where
  "session_target (SCreate tab) = tab"
| "session_target (SCopy source target) = target"
| "session_target (SDrop tab) = tab"
| "session_target (SSet tab origin key val) = tab"
| "session_target (SRemove tab origin key) = tab"
| "session_target (SClear tab origin) = tab"

lemma local_mark_clean_simps [simp]:
  "local_inv (local_mark_clean s) = local_inv s" "local_get (local_mark_clean s) = local_get s"
  by (simp_all add: local_mark_clean_def local_inv_def local_get_def fun_eq_iff)

lemma local_step_inv: "local_inv s \<Longrightarrow> local_inv (local_step url_parse op s)"
  using local_set_props(1)[OF _ surjective_pairing] local_remove_props(1)[OF _ surjective_pairing]
    local_clear_props(1)[OF _ surjective_pairing]
  by (simp add: local_step_def import_inv split: local_op.split)

lemma local_fold_inv: "local_inv s \<Longrightarrow> local_inv (fold (local_step url_parse) ops s)"
  by (induction ops arbitrary: s) (simp_all add: local_step_inv)

lemma local_inv_default: "local_inv local_default"
  by (simp add: local_inv_def local_default_def ws.all_inv_def)

lemma local_inv_used:
  assumes "local_inv s"
  shows "distinct (local_keys s origin)"
    and "sum_list (map (\<lambda>k. length k + length (the (local_get s origin k))) (local_keys s origin)) \<le> STORAGE_QUOTA_BYTES"
proof -
  define a where "a = ws.or_default (local_map s origin)"
  have a: "area_inv a" "local_keys s origin = area_keys a" "local_get s origin = area_get a"
    using assms by (simp_all add: a_def local_inv_def ws.or_default_inv local_keys_or_default
        local_get_view ws.view_or_default)
  then show "distinct (local_keys s origin)" by (simp add: area_inv_def)
  have "map (\<lambda>k. length k + length (the (local_get s origin k))) (local_keys s origin) =
      map (\<lambda>(k, v). length k + length v) (a_entries a)"
    using a by (auto simp: area_inv_def area_keys_def area_get_map_of)
  then show "sum_list (map (\<lambda>k. length k + length (the (local_get s origin k))) (local_keys s origin)) \<le> STORAGE_QUOTA_BYTES"
    using a(1) by (simp add: area_inv_def area_used_def)
qed

lemma session_step_get:
  assumes "session_inv s"
  shows "session_inv (session_step op s) \<and>
    (tab \<noteq> session_target op \<longrightarrow> session_get (session_step op s) tab = session_get s tab)"
proof (cases op)
  case (SSet x1 x2 x3 x4)
  then show ?thesis
    using session_set_get[OF assms surjective_pairing, of x1 x2 x3 x4] by (simp add: session_step_def)
next
  case (SRemove x1 x2 x3)
  then show ?thesis
    using session_remove_get[OF assms surjective_pairing, of x1 x2 x3] by (simp add: session_step_def)
next
  case (SClear x1 x2)
  then show ?thesis
    using session_clear_get[OF assms surjective_pairing, of x1 x2] by (simp add: session_step_def)
qed (use assms session_copy_get session_create_get session_remove_namespace_get
     in \<open>simp_all add: session_step_def\<close>)

lemma session_fold_get:
  assumes "session_inv s" "\<forall>op \<in> set ops. session_target op \<noteq> tab"
  shows "session_inv (fold session_step ops s) \<and> session_get (fold session_step ops s) tab = session_get s tab"
  using assms
proof (induction ops arbitrary: s)
  case (Cons op ops)
  then show ?case using session_step_get[OF Cons.prems(1), of op tab] by simp
qed simp

section \<open>Properties\<close>

text \<open>The bytes an area would hold after a write.\<close>

definition bytes_after :: "storage_area \<Rightarrow> string \<Rightarrow> string \<Rightarrow> int" where
  "bytes_after a key val = int (area_used a)
     - (case area_get a key of None \<Rightarrow> 0 | Some v \<Rightarrow> int (length key + length v))
     + int (length key + length val)"

text \<open>
  \<open>StorageArea::set\<close>, on every branch. Writing the stored value is a no-op; a write whose
  resulting area would exceed the quota is refused and leaves the area untouched (the byte
  count is exact: the subtraction cannot wrap); any other write stores exactly that value,
  keeps an existing key's position or appends a new key, reports the old and new values, and
  keeps the area's keys unique and its bytes within the quota.
\<close>

theorem area_set_spec:
  assumes "area_inv a"
  shows "(area_set key val a =
    (if area_get a key = Some val then (Inr None, a)
     else if bytes_after a key val > int STORAGE_QUOTA_BYTES then (Inl QuotaExceeded, a)
     else (Inr (Some \<lparr> sc_key = Some key, sc_old_value = area_get a key, sc_new_value = Some val \<rparr>),
           snd (area_set key val a)))) \<and>
    (area_get a key \<noteq> Some val \<and> bytes_after a key val \<le> int STORAGE_QUOTA_BYTES \<longrightarrow>
      area_get (snd (area_set key val a)) = (area_get a)(key \<mapsto> val) \<and>
      area_keys (snd (area_set key val a)) =
        (if area_get a key = None then area_keys a @ [key] else area_keys a) \<and>
      int (area_used (snd (area_set key val a))) = bytes_after a key val) \<and>
    (area_inv (snd (area_set key val a)))"
proof (rule conjI[OF _ conjI])
  have bytes: "bytes_after a key val = int (area_used a - (case area_get a key of None \<Rightarrow> 0 | Some v \<Rightarrow> length key + length v)
      + length key + length val)"
    using area_replaced_le[of a key] by (cases "area_get a key") (simp_all add: bytes_after_def)
  show eq: "area_set key val a =
    (if area_get a key = Some val then (Inr None, a)
     else if bytes_after a key val > int STORAGE_QUOTA_BYTES then (Inl QuotaExceeded, a)
     else (Inr (Some \<lparr> sc_key = Some key, sc_old_value = area_get a key, sc_new_value = Some val \<rparr>),
           snd (area_set key val a)))"
    by (cases rule: area_set_cases[of a key val]) (simp_all add: bytes)
  show "area_get a key \<noteq> Some val \<and> bytes_after a key val \<le> int STORAGE_QUOTA_BYTES \<longrightarrow>
      area_get (snd (area_set key val a)) = (area_get a)(key \<mapsto> val) \<and>
      area_keys (snd (area_set key val a)) =
        (if area_get a key = None then area_keys a @ [key] else area_keys a) \<and>
      int (area_used (snd (area_set key val a))) = bytes_after a key val"
  proof
    assume "area_get a key \<noteq> Some val \<and> bytes_after a key val \<le> int STORAGE_QUOTA_BYTES"
    then have "area_set key val a =
      (Inr (Some \<lparr> sc_key = Some key, sc_old_value = area_get a key, sc_new_value = Some val \<rparr>),
       snd (area_set key val a))" using eq by simp
    from area_set_stored(1-3)[OF assms(1) this]
    show "area_get (snd (area_set key val a)) = (area_get a)(key \<mapsto> val) \<and>
      area_keys (snd (area_set key val a)) =
        (if area_get a key = None then area_keys a @ [key] else area_keys a) \<and>
      int (area_used (snd (area_set key val a))) = bytes_after a key val"
      by (cases "area_get a key") (simp_all add: bytes_after_def)
  qed
  show "area_inv (snd (area_set key val a))" by (rule area_set_inv[OF assms(1) surjective_pairing])
qed

theorem area_set_spec_witness:
  "area_set ''k'' ''v2'' \<lparr> a_entries = [(''k'', ''v''), (''x'', ''y'')] \<rparr> =
     (Inr (Some \<lparr> sc_key = Some ''k'', sc_old_value = Some ''v'', sc_new_value = Some ''v2'' \<rparr>),
      \<lparr> a_entries = [(''k'', ''v2''), (''x'', ''y'')] \<rparr>)"
proof -
  have "area_inv \<lparr> a_entries = [(''k'', ''v''), (''x'', ''y'')] \<rparr>"
    by (simp add: area_inv_def area_keys_def area_used_def STORAGE_QUOTA_BYTES_def)
  from area_set_spec[OF this, THEN conjunct1, of "''k''" "''v2''"] show ?thesis
    by (simp add: area_get_def area_used_def STORAGE_QUOTA_BYTES_def area_set_def Let_def bytes_after_def)
qed

text \<open>
  Whatever sequence of writes, removals, clears, saves and imports a profile's local
  storage goes through, every origin's keys stay unique and its stored bytes stay within
  the quota.
\<close>

theorem local_storage_reach:
  "distinct (local_keys (fold (local_step url_parse) ops local_default) origin) \<and>
   sum_list (map (\<lambda>k. length k + length (the (local_get (fold (local_step url_parse) ops local_default) origin k)))
     (local_keys (fold (local_step url_parse) ops local_default) origin)) \<le> STORAGE_QUOTA_BYTES"
  using local_inv_used[OF local_fold_inv[OF local_inv_default]] by blast

text \<open>
  \<^bold>\<open>C5.\<close> The operations of \<open>LocalStorage\<close> refine a lookup per origin and key: a write that is
  accepted updates exactly one cell, a refused one changes nothing, removal and clearing
  are exact, and in every case the dirty flag is raised exactly when some lookup changed.
\<close>

theorem local_storage_refines:
  assumes "local_inv s"
  shows "(local_get (snd (local_set origin key val s)) =
      (case fst (local_set origin key val s) of
         Inl _ \<Rightarrow> local_get s
       | Inr _ \<Rightarrow> (local_get s)(origin := (local_get s origin)(key \<mapsto> val)))) \<and>
    (local_get (snd (local_remove origin key s)) =
      (local_get s)(origin := (local_get s origin)(key := None))) \<and>
    (local_get (snd (local_clear origin s)) = (local_get s)(origin := Map.empty)) \<and>
    (s' \<in> {snd (local_set origin key val s), snd (local_remove origin key s), snd (local_clear origin s)} \<longrightarrow>
      (local_is_dirty s' \<longleftrightarrow> local_is_dirty s \<or> local_get s' \<noteq> local_get s))"
proof (rule conjI[OF _ conjI[OF _ conjI]])
  note set = local_set_props[OF assms surjective_pairing, of origin key val]
  note rem = local_remove_props[OF assms surjective_pairing, of origin key]
  note clr = local_clear_props[OF assms surjective_pairing, of origin]
  show "local_get (snd (local_set origin key val s)) =
      (case fst (local_set origin key val s) of
         Inl _ \<Rightarrow> local_get s
       | Inr _ \<Rightarrow> (local_get s)(origin := (local_get s origin)(key \<mapsto> val)))"
    "local_get (snd (local_remove origin key s)) = (local_get s)(origin := (local_get s origin)(key := None))"
    "local_get (snd (local_clear origin s)) = (local_get s)(origin := Map.empty)"
    by (rule set rem clr)+
  have "(\<exists>c. fst (local_set origin key val s) = Inr (Some c)) \<longleftrightarrow>
      local_get (snd (local_set origin key val s)) \<noteq> local_get s"
  proof (cases "fst (local_set origin key val s)")
    case (Inr c)
    have "(local_get s)(origin := (local_get s origin)(key \<mapsto> val)) = local_get s \<longleftrightarrow>
        local_get s origin key = Some val" by (metis fun_upd_same fun_upd_triv)
    with set(3,5) Inr show ?thesis by (cases c) simp_all
  qed (use set(3) in simp)
  moreover have "fst (local_remove origin key s) \<noteq> None \<longleftrightarrow>
      local_get (snd (local_remove origin key s)) \<noteq> local_get s"
    using rem(2,3) by (metis fun_upd_same fun_upd_triv)
  moreover have "fst (local_clear origin s) \<noteq> None \<longleftrightarrow> local_get (snd (local_clear origin s)) \<noteq> local_get s"
    using clr(2,3) by (metis fun_upd_same fun_upd_triv)
  ultimately show "s' \<in> {snd (local_set origin key val s), snd (local_remove origin key s), snd (local_clear origin s)} \<longrightarrow>
      (local_is_dirty s' \<longleftrightarrow> local_is_dirty s \<or> local_get s' \<noteq> local_get s)"
    using set(4) rem(4) clr(4) by (auto simp: local_is_dirty_def)
qed

definition example_key :: storage_key where
  "example_key = Tuple ''https'' (Domain ''a.test'') 443"

theorem local_storage_refines_witness:
  "local_is_dirty (snd (local_set example_key ''k'' ''v'' local_default)) \<and>
   local_get (snd (local_set example_key ''k'' ''v'' local_default)) example_key ''k'' = Some ''v''"
proof -
  have ok: "fst (local_set example_key ''k'' ''v'' local_default) =
      Inr (Some \<lparr> sc_key = Some ''k'', sc_old_value = None, sc_new_value = Some ''v'' \<rparr>)"
    by (simp add: local_set_def local_default_def area_default_def area_set_def area_used_def
        STORAGE_QUOTA_BYTES_def Let_def)
  have "local_get (snd (local_set example_key ''k'' ''v'' local_default)) example_key ''k'' = Some ''v''"
    using local_storage_refines[OF local_inv_default, THEN conjunct1, of example_key "''k''" "''v''"] ok by simp
  moreover have "local_get local_default example_key ''k'' = None" by (simp add: local_get_def local_default_def)
  ultimately show ?thesis
    using local_storage_refines[where s' = "snd (local_set example_key ''k'' ''v'' local_default)"
        and origin = example_key and key = "''k''" and val = "''v''",
        OF local_inv_default, THEN conjunct2, THEN conjunct2, THEN conjunct2] by auto
qed

text \<open>
  Saving a profile and loading it back restores every lookup, provided the serialization
  of each stored origin parses back to it. The keys of an area come back in byte order: the
  insertion order is not persisted. A fresh import never trips the quota.
\<close>

theorem local_export_import:
  assumes "local_inv s"
    and "\<forall>key \<in> fst ` set (areas s). storage_key_parse url_parse (ascii key) = Some key"
  shows "(local_get (local_import url_parse (local_export ascii s) t) = local_get s) \<and>
    (local_keys (local_import url_parse (local_export ascii s) t) origin = sort (local_keys s origin))"
proof (rule conjI)
  define rs where "rs = decode_rows (storage_key_parse url_parse) (local_export ascii s)"
  have as: "distinct (map fst (areas s))" "ws.all_inv (local_map s)" using assms(1) by (simp_all add: local_inv_def)
  have rs: "mset rs = mset (triples (areas s))" "rows_keys o' rs = sort (local_keys s o')" for o'
    using export_decode[OF assms(1), of "storage_key_parse url_parse" ascii] assms(2) by (simp_all add: rs_def)
  have d: "distinct (map (\<lambda>(o', k, v). (o', k)) rs)"
    using triples_distinct[OF as] rs(1) by (metis mset_eq_imp_distinct_iff mset_map)
  have bytes: "rows_bytes o' rs \<le> STORAGE_QUOTA_BYTES" for o'
  proof -
    have "rows_bytes o' rs = rows_bytes o' (triples (areas s))"
      by (rule rows_bytes_cong[OF rs(1)])
    also have "\<dots> = area_used (ws.or_default (local_map s o'))" using triples_area[OF as(1)] by simp
    also have "\<dots> \<le> STORAGE_QUOTA_BYTES" using ws.or_default_inv[OF as(2)] by (simp add: area_inv_def)
    finally show ?thesis .
  qed
  have "rows_map rs = rows_map (triples (areas s))"
    unfolding rows_map_def
    using triples_distinct[OF as] d rs(1)
    by (intro map_of_inject_set[THEN iffD2])
      (auto simp: comp_def case_prod_unfold dest: mset_eq_setD)
  then show "local_get (local_import url_parse (local_export ascii s) t) = local_get s"
    using import_view(1)[OF d bytes rs_def] triples_view[OF as(1)] by (simp add: local_get_view fun_eq_iff)
  show "local_keys (local_import url_parse (local_export ascii s) t) origin = sort (local_keys s origin)"
    using import_view(2)[OF d bytes rs_def] rs(2) by simp
qed

theorem local_export_import_witness:
  "local_get (local_import (\<lambda>_. Some (about_blank\<lparr>u_origin := example_key\<rparr>))
     (local_export (\<lambda>_. ''https://a.test'') (snd (local_set example_key ''k'' ''v'' local_default))) local_default)
     example_key ''k'' = Some ''v''"
proof -
  have "local_inv (snd (local_set example_key ''k'' ''v'' local_default))"
    by (rule local_set_props(1)[OF local_inv_default surjective_pairing])
  moreover have areas: "areas (snd (local_set example_key ''k'' ''v'' local_default)) =
      [(example_key, \<lparr> a_entries = [(''k'', ''v'')] \<rparr>)]"
    by (simp add: local_set_def local_default_def area_default_def area_set_def area_used_def
        STORAGE_QUOTA_BYTES_def Let_def)
  ultimately show ?thesis
    using local_export_import[THEN conjunct1, of "snd (local_set example_key ''k'' ''v'' local_default)"
        "\<lambda>_. Some (about_blank\<lparr>u_origin := example_key\<rparr>)" "\<lambda>_. ''https://a.test''" local_default]
    by (simp add: storage_key_parse_def serialized_origin_parse_def serialized_origin_from_def
        example_key_def local_get_def area_get_def)
qed

text \<open>
  The persisted rows do not depend on the iteration order of the hash map of areas, and
  they are sorted.
\<close>

theorem local_export_deterministic:
  assumes "mset (areas s) = mset (areas t)"
  shows "local_export ascii s = local_export ascii t \<and> sorted (local_export ascii s)"
proof -
  have "mset (map f (triples (areas s))) = mset (map f (triples (areas t)))" for f :: "_ \<Rightarrow> string \<times> string \<times> string"
    using triples_cong[OF assms] by simp
  then show ?thesis unfolding export_triples by (metis sorted_list_of_multiset_mset sorted_sort)
qed

theorem local_export_deterministic_witness:
  "local_export (\<lambda>_. ''x'') \<lparr> areas = [(example_key, \<lparr> a_entries = [(''b'', ''1'')] \<rparr>), (Opaque 0, \<lparr> a_entries = [(''a'', ''2'')] \<rparr>)], dirty = False \<rparr> =
   local_export (\<lambda>_. ''x'') \<lparr> areas = [(Opaque 0, \<lparr> a_entries = [(''a'', ''2'')] \<rparr>), (example_key, \<lparr> a_entries = [(''b'', ''1'')] \<rparr>)], dirty = False \<rparr>"
  by (rule local_export_deterministic[THEN conjunct1]) simp

text \<open>
  Copying a tab's session storage gives the target exactly the source's values, and from
  then on the two are isolated: no sequence of operations on other tabs changes what a
  tab reads.
\<close>

theorem session_copy_isolated:
  assumes "session_inv s" "source \<noteq> target" "\<forall>op \<in> set ops. session_target op \<noteq> source"
    and "\<forall>op \<in> set ops'. session_target op \<noteq> target"
  shows "(session_get (session_copy source target s) target = session_get s source) \<and>
    (session_get (fold session_step ops (session_copy source target s)) source = session_get s source) \<and>
    (session_get (fold session_step ops' (session_copy source target s)) target = session_get s source)"
  using session_copy_get[OF assms(1), of source target] assms
    session_fold_get[OF _ assms(3), of "session_copy source target s"]
    session_fold_get[OF _ assms(4), of "session_copy source target s"] by simp_all

theorem session_copy_isolated_witness:
  "session_get (fold session_step [SClear 2 example_key]
      (session_copy 1 2 \<lparr> namespaces = [1 \<mapsto> [example_key \<mapsto> \<lparr> a_entries = [(''k'', ''v'')] \<rparr>]] \<rparr>)) 1 example_key ''k'' = Some ''v''"
proof -
  have "session_inv \<lparr> namespaces = [1 \<mapsto> [example_key \<mapsto> \<lparr> a_entries = [(''k'', ''v'')] \<rparr>]] \<rparr>"
    by (simp add: session_inv_def ws.all_inv_def area_inv_def area_keys_def area_used_def STORAGE_QUOTA_BYTES_def)
  from session_copy_isolated[OF this, THEN conjunct2, THEN conjunct1, of 1 2 "[SClear 2 example_key]" "[]"] show ?thesis
    by (simp add: session_get_def area_get_def)
qed

end
