(* ===== verification/Rust_Std.thy ===== *)
theory Rust_Std
  imports Tb_Prelude Url_Model
begin

text \<open>
  The parts of Rust's standard library the modelled code relies on. A \<open>str\<close> is the list of
  its UTF-8 bytes (one \<open>char\<close> per byte), so \<open>len\<close> is \<open>length\<close> and slices are lists. The
  definitions follow the documented behaviour of \<open>core::str\<close>, \<open>core::num\<close> and
  \<open>core::net\<close>.
\<close>

section \<open>Bytes and ASCII\<close>

abbreviation byte :: "char \<Rightarrow> nat" where
  "byte c \<equiv> of_char c"

definition is_ascii_digit :: "char \<Rightarrow> bool" where
  "is_ascii_digit c = (48 \<le> byte c \<and> byte c \<le> 57)"

definition ascii_lower_char :: "char \<Rightarrow> char" where
  "ascii_lower_char c = (if 65 \<le> byte c \<and> byte c \<le> 90 then char_of (byte c + 32) else c)"

definition to_ascii_lowercase :: "string \<Rightarrow> string" where
  "to_ascii_lowercase s = map ascii_lower_char s"

definition eq_ignore_ascii_case :: "string \<Rightarrow> string \<Rightarrow> bool" where
  "eq_ignore_ascii_case a b = (to_ascii_lowercase a = to_ascii_lowercase b)"

lemma ascii_lower_idem [simp]: "ascii_lower_char (ascii_lower_char c) = ascii_lower_char c"
  by (simp add: ascii_lower_char_def)

lemma to_ascii_lowercase_idem [simp]: "to_ascii_lowercase (to_ascii_lowercase s) = to_ascii_lowercase s"
  by (simp add: to_ascii_lowercase_def)

lemma to_ascii_lowercase_simps [simp]:
  "to_ascii_lowercase [] = []" "to_ascii_lowercase (a @ b) = to_ascii_lowercase a @ to_ascii_lowercase b"
  "length (to_ascii_lowercase s) = length s"
  by (simp_all add: to_ascii_lowercase_def)

section \<open>Searching and splitting\<close>

definition starts_with :: "string \<Rightarrow> string \<Rightarrow> bool" where
  "starts_with s p = (take (length p) s = p)"

definition ends_with :: "string \<Rightarrow> string \<Rightarrow> bool" where
  "ends_with s p = (length p \<le> length s \<and> drop (length s - length p) s = p)"

definition strip_prefix :: "string \<Rightarrow> string \<Rightarrow> string option" where
  "strip_prefix p s = (if starts_with s p then Some (drop (length p) s) else None)"

fun split_once :: "char \<Rightarrow> string \<Rightarrow> (string \<times> string) option" where
  "split_once d [] = None"
| "split_once d (c # cs) =
     (if c = d then Some ([], cs) else map_option (\<lambda>(a, b). (c # a, b)) (split_once d cs))"

fun split_by :: "(char \<Rightarrow> bool) \<Rightarrow> string \<Rightarrow> string list" where
  "split_by p [] = [[]]"
| "split_by p (c # cs) =
     (if p c then [] # split_by p cs
      else (case split_by p cs of [] \<Rightarrow> [[c]] | w # ws \<Rightarrow> (c # w) # ws))"

definition rfind :: "char \<Rightarrow> string \<Rightarrow> nat option" where
  "rfind c s = rposition (\<lambda>x. x = c) s"

definition trim_start_matches :: "char \<Rightarrow> string \<Rightarrow> string" where
  "trim_start_matches d s = dropWhile (\<lambda>c. c = d) s"

definition trim_end_matches :: "char \<Rightarrow> string \<Rightarrow> string" where
  "trim_end_matches d s = rev (dropWhile (\<lambda>c. c = d) (rev s))"

definition trim_matches :: "char \<Rightarrow> string \<Rightarrow> string" where
  "trim_matches d s = trim_end_matches d (trim_start_matches d s)"

definition trim_chars :: "char list \<Rightarrow> string \<Rightarrow> string" where
  "trim_chars cs s = rev (dropWhile (\<lambda>c. c \<in> set cs) (rev (dropWhile (\<lambda>c. c \<in> set cs) s)))"

text \<open>The UTF-8 encodings of the characters with the Unicode property \<open>White_Space\<close>.\<close>

definition white_space :: "string list" where
  "white_space = map (map char_of)
     ([[9], [10], [11], [12], [13], [32], [0xC2, 0x85], [0xC2, 0xA0], [0xE1, 0x9A, 0x80]] @
      map (\<lambda>i. [0xE2, 0x80, 0x80 + i]) [0..<11] @
      [[0xE2, 0x80, 0xA8], [0xE2, 0x80, 0xA9], [0xE2, 0x80, 0xAF], [0xE2, 0x81, 0x9F],
       [0xE3, 0x80, 0x80 :: nat]])"

function strip_leading :: "string list \<Rightarrow> string \<Rightarrow> string" where
  "strip_leading pats s =
     (case find (\<lambda>p. p \<noteq> [] \<and> starts_with s p) pats of
        None \<Rightarrow> s
      | Some p \<Rightarrow> strip_leading pats (drop (length p) s))"
  by pat_completeness auto
termination
proof (relation "measure (length \<circ> snd)")
  fix pats :: "string list" and s p
  assume "find (\<lambda>p. p \<noteq> [] \<and> starts_with s p) pats = Some p"
  then have "p \<noteq> [] \<and> starts_with s p" by (auto dest: find_SomeD)
  then show "((pats, drop (length p) s), pats, s) \<in> measure (length \<circ> snd)"
    by (cases s; cases p) (auto simp: starts_with_def)
qed simp

declare strip_leading.simps [simp del]

definition trim_start :: "string \<Rightarrow> string" where
  "trim_start s = strip_leading white_space s"

definition trim_end :: "string \<Rightarrow> string" where
  "trim_end s = rev (strip_leading (map rev white_space) (rev s))"

definition trim :: "string \<Rightarrow> string" where
  "trim s = trim_end (trim_start s)"

text \<open>Trimming a string that starts with a space or with a printable ASCII character.\<close>

lemma strip_leading_same:
  assumes "list_all (\<lambda>p. p \<noteq> [] \<and> hd p \<noteq> c) pats"
  shows "strip_leading pats (c # s) = c # s"
proof -
  have "\<not> starts_with (c # s) p" if "p \<in> set pats" for p
    using assms that by (cases p) (auto simp: list_all_iff starts_with_def)
  then have "find (\<lambda>p. p \<noteq> [] \<and> starts_with (c # s) p) pats = None"
    by (auto simp: find_None_iff)
  then show ?thesis by (simp add: strip_leading.simps)
qed

lemma white_space_bytes:
  "list_all (\<lambda>p. p \<noteq> [] \<and> (byte (hd p) < 33 \<or> 126 < byte (hd p)) \<and> (byte (last p) < 33 \<or> 126 < byte (last p))) white_space"
  by (simp add: white_space_def upt_conv_Cons)

lemma strip_leading_plain [simp]:
  assumes "33 \<le> byte c" "byte c \<le> 126"
  shows "strip_leading white_space (c # s) = c # s" "strip_leading (map rev white_space) (c # s) = c # s"
  using white_space_bytes assms
  by (intro strip_leading_same; force simp: list_all_iff hd_rev)+

lemma white_space_head:
  obtains rest where "white_space = map (\<lambda>n. [char_of (n :: nat)]) [9, 10, 11, 12, 13] @ '' '' # rest"
proof -
  have "char_of (32 :: nat) = CHR '' ''" by (simp add: char_of_eq_iff)
  then have "white_space = map (\<lambda>n. [char_of (n :: nat)]) [9, 10, 11, 12, 13] @ '' '' # drop 6 white_space"
    by (simp add: white_space_def)
  then show ?thesis by (rule that)
qed

lemma strip_leading_space [simp]:
  "strip_leading white_space (CHR '' '' # s) = strip_leading white_space s"
  "strip_leading (map rev white_space) (CHR '' '' # s) = strip_leading (map rev white_space) s"
proof -
  obtain rest where ws: "white_space = map (\<lambda>n. [char_of (n :: nat)]) [9, 10, 11, 12, 13] @ '' '' # rest"
    by (rule white_space_head)
  have ne: "CHR '' '' \<noteq> char_of (n :: nat)" if "n \<in> {9, 10, 11, 12, 13}" for n
    using that by (auto simp: char_of_eq_iff dest: sym)
  have "find (\<lambda>p. p \<noteq> [] \<and> starts_with (CHR '' '' # s) p) white_space = Some '' ''"
    "find (\<lambda>p. p \<noteq> [] \<and> starts_with (CHR '' '' # s) p) (map rev white_space) = Some '' ''"
    unfolding ws using ne by (simp_all add: starts_with_def)
  then show "strip_leading white_space (CHR '' '' # s) = strip_leading white_space s"
    "strip_leading (map rev white_space) (CHR '' '' # s) = strip_leading (map rev white_space) s"
    by (simp_all add: strip_leading.simps[of _ "CHR '' '' # s"])
qed

lemma strip_leading_Nil [simp]: "strip_leading pats [] = []"
proof -
  have "find (\<lambda>p. p \<noteq> [] \<and> starts_with [] p) pats = None" by (auto simp: find_None_iff starts_with_def)
  then show ?thesis by (simp add: strip_leading.simps)
qed

section \<open>UTF-8\<close>

text \<open>Well-formed UTF-8, as \<open>str::from_utf8\<close> checks it (Unicode, table 3-7).\<close>

definition utf8_cont :: "char \<Rightarrow> bool" where
  "utf8_cont c = (0x80 \<le> byte c \<and> byte c \<le> 0xBF)"

function utf8_valid :: "string \<Rightarrow> bool" where
  "utf8_valid s =
     (case s of
        [] \<Rightarrow> True
      | a # r \<Rightarrow>
          (let b = byte a in
           if b < 0x80 then utf8_valid r
           else if 0xC2 \<le> b \<and> b \<le> 0xDF then
             (case r of c1 # r' \<Rightarrow> utf8_cont c1 \<and> utf8_valid r' | _ \<Rightarrow> False)
           else if 0xE0 \<le> b \<and> b \<le> 0xEF then
             (case r of c1 # c2 # r' \<Rightarrow> utf8_cont c1 \<and> utf8_cont c2 \<and>
                 (b = 0xE0 \<longrightarrow> 0xA0 \<le> byte c1) \<and> (b = 0xED \<longrightarrow> byte c1 \<le> 0x9F) \<and> utf8_valid r'
              | _ \<Rightarrow> False)
           else if 0xF0 \<le> b \<and> b \<le> 0xF4 then
             (case r of c1 # c2 # c3 # r' \<Rightarrow> utf8_cont c1 \<and> utf8_cont c2 \<and> utf8_cont c3 \<and>
                 (b = 0xF0 \<longrightarrow> 0x90 \<le> byte c1) \<and> (b = 0xF4 \<longrightarrow> byte c1 \<le> 0x8F) \<and> utf8_valid r'
              | _ \<Rightarrow> False)
           else False))"
  by pat_completeness auto
termination by (relation "measure length") auto

declare utf8_valid.simps [simp del]

text \<open>\<open>String::from_utf8_lossy\<close>: every maximal ill-formed part becomes U+FFFD.\<close>

definition second_ok :: "nat \<Rightarrow> char \<Rightarrow> bool" where
  "second_ok b c =
     (utf8_cont c \<and> (b = 0xE0 \<longrightarrow> 0xA0 \<le> byte c) \<and> (b = 0xED \<longrightarrow> byte c \<le> 0x9F) \<and>
      (b = 0xF0 \<longrightarrow> 0x90 \<le> byte c) \<and> (b = 0xF4 \<longrightarrow> byte c \<le> 0x8F))"

text \<open>The length of the first character, and whether it is well formed.\<close>

definition utf8_step :: "char \<Rightarrow> string \<Rightarrow> nat \<times> bool" where
  "utf8_step a r =
     (let b = byte a;
          n = (if b < 0x80 then 0 else if 0xC2 \<le> b \<and> b \<le> 0xDF then 1
               else if 0xE0 \<le> b \<and> b \<le> 0xEF then 2 else if 0xF0 \<le> b \<and> b \<le> 0xF4 then 3 else 4);
          good = (case r of [] \<Rightarrow> 0
                  | c # cs \<Rightarrow> if n = 0 \<or> n = 4 \<or> \<not> second_ok b c then 0
                      else 1 + length (takeWhile utf8_cont (take (n - 1) cs)))
      in (1 + good, n < 4 \<and> good = n))"

definition replacement_char :: string where
  "replacement_char = map char_of [0xEF, 0xBF, 0xBD :: nat]"

function from_utf8_lossy :: "string \<Rightarrow> string" where
  "from_utf8_lossy s =
     (case s of
        [] \<Rightarrow> []
      | a # r \<Rightarrow>
          (let (n, ok) = utf8_step a r
           in (if ok then take n s else replacement_char) @ from_utf8_lossy (drop n s)))"
  by pat_completeness auto
termination by (relation "measure length") (auto simp: utf8_step_def Let_def)

declare from_utf8_lossy.simps [simp del]

definition from_utf8 :: "string \<Rightarrow> string option" where
  "from_utf8 s = (if utf8_valid s then Some s else None)"

text \<open>Visible ASCII text needs no trimming and is UTF-8.\<close>

definition visible_ascii :: "string \<Rightarrow> bool" where
  "visible_ascii s = list_all (\<lambda>c. 33 \<le> byte c \<and> byte c \<le> 126) s"

lemma trim_visible:
  assumes "visible_ascii s"
  shows "trim s = s"
proof -
  have "strip_leading white_space t = t \<and> strip_leading (map rev white_space) t = t" if "set t \<subseteq> set s" for t
    using assms that by (cases t) (auto simp: visible_ascii_def list_all_iff strip_leading_Nil)
  then show ?thesis by (simp add: trim_def trim_start_def trim_end_def)
qed

lemma from_utf8_visible: "visible_ascii s \<Longrightarrow> from_utf8 s = Some s"
proof -
  have "visible_ascii s \<Longrightarrow> utf8_valid s"
    by (induction s) (simp_all add: visible_ascii_def utf8_valid.simps)
  then show "visible_ascii s \<Longrightarrow> from_utf8 s = Some s" by (simp add: from_utf8_def)
qed

section \<open>Numbers\<close>

definition digit_val :: "char \<Rightarrow> nat" where
  "digit_val c = byte c - 48"

definition digits_val :: "string \<Rightarrow> nat" where
  "digits_val ds = foldl (\<lambda>n c. 10 * n + digit_val c) 0 ds"

text \<open>\<open>str::parse\<close> at a signed type with the given bounds.\<close>

definition parse_signed :: "int \<Rightarrow> int \<Rightarrow> string \<Rightarrow> int option" where
  "parse_signed lo hi s =
     (let neg = starts_with s ''-'';
          ds = (if neg \<or> starts_with s ''+'' then drop 1 s else s);
          v = (if neg then - int (digits_val ds) else int (digits_val ds))
      in if ds = [] \<or> \<not> list_all is_ascii_digit ds then None
         else if v < lo \<or> hi < v then None else Some v)"

definition parse_unsigned :: "nat \<Rightarrow> string \<Rightarrow> nat option" where
  "parse_unsigned hi s =
     (let ds = (if starts_with s ''+'' then drop 1 s else s)
      in if ds = [] \<or> \<not> list_all is_ascii_digit ds then None
         else if hi < digits_val ds then None else Some (digits_val ds))"

fun show_nat :: "nat \<Rightarrow> string" where
  "show_nat n = (if n < 10 then [char_of (48 + n)] else show_nat (n div 10) @ [char_of (48 + n mod 10)])"

declare show_nat.simps [simp del]

lemma byte_digit: "n < 10 \<Longrightarrow> byte (char_of (48 + n)) = (48 + n :: nat)"
  by (simp add: of_char_of)

lemma is_ascii_digit_char [simp]: "n < 10 \<Longrightarrow> is_ascii_digit (char_of (48 + n :: nat))"
  by (simp add: is_ascii_digit_def of_char_of)

lemma show_nat_digits: "list_all is_ascii_digit (show_nat n) \<and> show_nat n \<noteq> []"
proof (induction n rule: show_nat.induct)
  case (1 n)
  then show ?case by (subst (1 2) show_nat.simps) auto
qed

lemma digits_val_snoc: "digits_val (ds @ [c]) = 10 * digits_val ds + digit_val c"
  by (simp add: digits_val_def)

lemma digits_val_show: "digits_val (show_nat n) = n"
proof (induction n rule: show_nat.induct)
  case (1 n)
  then show ?case
    by (subst show_nat.simps) (auto simp: digits_val_snoc digit_val_def of_char_of digits_val_def)
qed

lemma parse_unsigned_show: "n \<le> hi \<Longrightarrow> parse_unsigned hi (show_nat n) = Some n"
proof -
  assume "n \<le> hi"
  obtain c cs where c: "show_nat n = c # cs" "is_ascii_digit c"
    using show_nat_digits[of n] by (cases "show_nat n") auto
  then have "\<not> starts_with (show_nat n) ''+''" by (auto simp: starts_with_def is_ascii_digit_def)
  with \<open>n \<le> hi\<close> show_nat_digits[of n] show ?thesis
    by (simp add: parse_unsigned_def Let_def digits_val_show)
qed

end
