(* ===== verification/Rust_Net.thy ===== *)
theory Rust_Net
  imports Rust_Std
begin

text \<open>
  \<open>core::net\<close>: parsing and printing of IP addresses, as \<open>str::parse::<IpAddr>\<close> and
  \<open>Ipv4Addr\<close>/\<open>Ipv6Addr\<close> \<open>to_string\<close> do it. A reader takes the remaining input and answers the
  value with the input after it; a failed reader consumes nothing.
\<close>

section \<open>Readers\<close>

definition to_digit :: "nat \<Rightarrow> char \<Rightarrow> nat option" where
  "to_digit radix c =
     (let b = byte c;
          d = (if 48 \<le> b \<and> b \<le> 57 then Some (b - 48)
               else if 97 \<le> b \<and> b \<le> 122 then Some (b - 87)
               else if 65 \<le> b \<and> b \<le> 90 then Some (b - 55) else None)
      in case d of None \<Rightarrow> None | Some v \<Rightarrow> if v < radix then Some v else None)"

definition read_given_char :: "char \<Rightarrow> string \<Rightarrow> string option" where
  "read_given_char c s = (case s of [] \<Rightarrow> None | x # xs \<Rightarrow> if x = c then Some xs else None)"

fun read_digits :: "nat \<Rightarrow> string \<Rightarrow> nat \<Rightarrow> nat \<Rightarrow> nat \<times> nat \<times> string" where
  "read_digits radix [] val cnt = (val, cnt, [])"
| "read_digits radix (c # cs) val cnt =
     (case to_digit radix c of
        None \<Rightarrow> (val, cnt, c # cs)
      | Some d \<Rightarrow> read_digits radix cs (val * radix + d) (Suc cnt))"

definition read_number ::
  "nat \<Rightarrow> nat \<Rightarrow> bool \<Rightarrow> nat \<Rightarrow> string \<Rightarrow> (nat \<times> string) option" where
  "read_number radix max_digits allow_zero_prefix bound s =
     (let (val, cnt, rest) = read_digits radix s 0 0;
          has_leading_zero = starts_with s ''0''
      in if cnt > max_digits then None
         else if cnt = 0 then None
         else if \<not> allow_zero_prefix \<and> has_leading_zero \<and> cnt > 1 then None
         else if val > bound then None
         else Some (val, rest))"

definition read_separator ::
  "char \<Rightarrow> nat \<Rightarrow> (string \<Rightarrow> ('a \<times> string) option) \<Rightarrow> string \<Rightarrow> ('a \<times> string) option" where
  "read_separator sep index inner s =
     (if index > 0 then (case read_given_char sep s of None \<Rightarrow> None | Some s' \<Rightarrow> inner s') else inner s)"

definition read_octet :: "nat \<Rightarrow> string \<Rightarrow> (8 word \<times> string) option" where
  "read_octet i s =
     map_option (\<lambda>(n, rest). (of_nat n, rest)) (read_separator CHR ''.'' i (read_number 10 3 False 255) s)"

definition read_ipv4_addr :: "string \<Rightarrow> ((8 word \<times> 8 word \<times> 8 word \<times> 8 word) \<times> string) option" where
  "read_ipv4_addr s =
     (case read_octet 0 s of None \<Rightarrow> None | Some (a, s1) \<Rightarrow>
      (case read_octet 1 s1 of None \<Rightarrow> None | Some (b, s2) \<Rightarrow>
       (case read_octet 2 s2 of None \<Rightarrow> None | Some (c, s3) \<Rightarrow>
        (case read_octet 3 s3 of None \<Rightarrow> None | Some (d, s4) \<Rightarrow> Some ((a, b, c, d), s4)))))"

text \<open>The groups read so far, whether an embedded IPv4 address ended them, and the rest.\<close>

definition be_group :: "8 word \<Rightarrow> 8 word \<Rightarrow> 16 word" where
  "be_group hi lo = ucast hi * 256 + ucast lo"

function read_groups :: "nat \<Rightarrow> nat \<Rightarrow> string \<Rightarrow> 16 word list \<times> bool \<times> string" where
  "read_groups limit i s =
     (if i \<ge> limit then ([], False, s)
      else
        (case (if i < limit - 1 then read_separator CHR '':'' i read_ipv4_addr s else None) of
           Some ((a, b, c, d), rest) \<Rightarrow> ([be_group a b, be_group c d], True, rest)
         | None \<Rightarrow>
             (case read_separator CHR '':'' i (read_number 16 4 True 65535) s of
                None \<Rightarrow> ([], False, s)
              | Some (g, rest) \<Rightarrow>
                  (let (gs, v4, rest') = read_groups limit (Suc i) rest in (of_nat g # gs, v4, rest')))))"
  by pat_completeness auto
termination by (relation "measure (\<lambda>(limit, i, s). limit - i)") auto

declare read_groups.simps [simp del]

definition read_ipv6_addr :: "string \<Rightarrow> (16 word list \<times> string) option" where
  "read_ipv6_addr s =
     (let (head, head_ipv4, rest) = read_groups 8 0 s
      in if length head = 8 then Some (head, rest)
         else if head_ipv4 then None
         else
           (case read_given_char CHR '':'' rest of None \<Rightarrow> None | Some r1 \<Rightarrow>
            (case read_given_char CHR '':'' r1 of None \<Rightarrow> None | Some r2 \<Rightarrow>
             (let (tail, _, r3) = read_groups (8 - (length head + 1)) 0 r2
              in Some (head @ replicate (8 - length head - length tail) 0 @ tail, r3)))))"

definition parse_ip_addr :: "string \<Rightarrow> host option" where
  "parse_ip_addr s =
     (case read_ipv4_addr s of
        Some ((a, b, c, d), rest) \<Rightarrow> if rest = [] then Some (Ipv4 a b c d) else None
      | None \<Rightarrow>
          (case read_ipv6_addr s of
             Some (gs, rest) \<Rightarrow> if rest = [] then Some (Ipv6 gs) else None
           | None \<Rightarrow> None))"

section \<open>Printing\<close>

definition hex_char :: "nat \<Rightarrow> char" where
  "hex_char n = char_of (if n < 10 then 48 + n else 87 + n)"

fun show_hex :: "nat \<Rightarrow> string" where
  "show_hex n = (if n < 16 then [hex_char n] else show_hex (n div 16) @ [hex_char (n mod 16)])"

declare show_hex.simps [simp del]

fun join :: "string \<Rightarrow> string list \<Rightarrow> string" where
  "join sep [] = []"
| "join sep [x] = x"
| "join sep (x # y # xs) = x @ sep @ join sep (y # xs)"

definition show_ipv4 :: "8 word \<Rightarrow> 8 word \<Rightarrow> 8 word \<Rightarrow> 8 word \<Rightarrow> string" where
  "show_ipv4 a b c d = join ''.'' (map (\<lambda>w. show_nat (unat w)) [a, b, c, d])"

fun zero_span :: "16 word list \<Rightarrow> nat \<Rightarrow> nat \<times> nat \<Rightarrow> nat \<times> nat \<Rightarrow> nat \<times> nat" where
  "zero_span [] i cur longest = longest"
| "zero_span (g # gs) i (cstart, clen) (lstart, llen) =
     (if g = 0 then
        (let cstart = (if clen = 0 then i else cstart); clen = clen + 1
         in zero_span gs (Suc i) (cstart, clen) (if clen > llen then (cstart, clen) else (lstart, llen)))
      else zero_span gs (Suc i) (0, 0) (lstart, llen))"

definition show_groups :: "16 word list \<Rightarrow> string" where
  "show_groups gs = join '':'' (map (\<lambda>g. show_hex (unat g)) gs)"

definition ipv4_mapped :: "16 word list \<Rightarrow> (8 word \<times> 8 word \<times> 8 word \<times> 8 word) option" where
  "ipv4_mapped gs =
     (if length gs = 8 \<and> take 6 gs = [0, 0, 0, 0, 0, 0xFFFF]
      then Some (ucast (drop_bit 8 (gs ! 6)), ucast (gs ! 6), ucast (drop_bit 8 (gs ! 7)), ucast (gs ! 7))
      else None)"

definition show_ipv6 :: "16 word list \<Rightarrow> string" where
  "show_ipv6 gs =
     (case ipv4_mapped gs of
        Some (a, b, c, d) \<Rightarrow> ''::ffff:'' @ show_ipv4 a b c d
      | None \<Rightarrow>
          (let (start, len) = zero_span gs 0 (0, 0) (0, 0)
           in if len > 1 then show_groups (take start gs) @ ''::'' @ show_groups (drop (start + len) gs)
              else show_groups gs))"

definition ipv4_is_loopback :: "8 word \<Rightarrow> bool" where
  "ipv4_is_loopback a = (a = 127)"

definition ipv6_is_loopback :: "16 word list \<Rightarrow> bool" where
  "ipv6_is_loopback gs = (gs = [0, 0, 0, 0, 0, 0, 0, 1])"

section \<open>IPv4 addresses print and parse back\<close>

lemma to_digit_10: "to_digit 10 c = (if is_ascii_digit c then Some (digit_val c) else None)"
  by (auto simp: to_digit_def Let_def is_ascii_digit_def digit_val_def)

lemma read_digits_10:
  "list_all is_ascii_digit ds \<Longrightarrow> (case rest of [] \<Rightarrow> True | c # _ \<Rightarrow> \<not> is_ascii_digit c) \<Longrightarrow>
   read_digits 10 (ds @ rest) v n = (foldl (\<lambda>n c. 10 * n + digit_val c) v ds, n + length ds, rest)"
  by (induction ds arbitrary: v n) (auto simp: to_digit_10 mult.commute split: list.splits)

lemma show_nat_small:
  assumes "n < 256"
  shows "length (show_nat n) \<le> 3" "starts_with (show_nat n) ''0'' \<Longrightarrow> length (show_nat n) = 1"
proof -
  have eqs: "n < 10 \<Longrightarrow> show_nat n = [char_of (48 + n)]"
    "10 \<le> n \<Longrightarrow> n < 100 \<Longrightarrow> show_nat n = [char_of (48 + n div 10), char_of (48 + n mod 10)]"
    "100 \<le> n \<Longrightarrow> n < 256 \<Longrightarrow>
       show_nat n = [char_of (48 + n div 100), char_of (48 + n div 10 mod 10), char_of (48 + n mod 10)]"
    by (simp_all add: show_nat.simps div_mult2_eq[symmetric] div_less_iff_less_mult)
  have nz: "char_of (48 + k) \<noteq> CHR ''0''" if "0 < k" "k < 10" for k :: nat
  proof
    assume "char_of (48 + k) = CHR ''0''"
    then have "byte (char_of (48 + k)) = byte CHR ''0''" by simp
    with that byte_digit[of k] show False by simp
  qed
  show "length (show_nat n) \<le> 3" using eqs assms by (cases "n < 10"; cases "n < 100") auto
  show "length (show_nat n) = 1" if "starts_with (show_nat n) ''0''"
    using that eqs assms nz[of "n div 10"] nz[of "n div 100"]
    by (cases "n < 10"; cases "n < 100") (auto simp: starts_with_def)
qed

lemma read_number_show:
  assumes "n < 256" "case rest of [] \<Rightarrow> True | c # _ \<Rightarrow> \<not> is_ascii_digit c"
  shows "read_number 10 3 False 255 (show_nat n @ rest) = Some (n, rest)"
proof -
  have "starts_with (show_nat n @ rest) ''0'' = starts_with (show_nat n) ''0''"
    using show_nat_digits[of n] by (cases "show_nat n") (auto simp: starts_with_def)
  then show ?thesis
    using assms show_nat_small[OF assms(1)] show_nat_digits[of n]
      read_digits_10[OF _ assms(2), of "show_nat n" 0 0] digits_val_show[of n]
    by (auto simp: read_number_def digits_val_def)
qed

lemma unat_less_256: "unat (w :: 8 word) < 256"
proof -
  have "unat w < 2 ^ LENGTH(8)" by (rule unsigned_less)
  then show ?thesis by simp
qed

lemma read_octet_show:
  assumes "case rest of [] \<Rightarrow> True | c # _ \<Rightarrow> \<not> is_ascii_digit c"
  shows "read_octet i ((if i > 0 then ''.'' else []) @ show_nat (unat w) @ rest) = Some (w, rest)"
  using read_number_show[OF _ assms, of "unat w"] unat_less_256[of w]
  by (simp add: read_octet_def read_separator_def read_given_char_def)

lemma parse_show_ipv4: "parse_ip_addr (show_ipv4 a b c d) = Some (Ipv4 a b c d)"
proof -
  have dot: "\<not> is_ascii_digit CHR ''.''" by (simp add: is_ascii_digit_def)
  have "show_ipv4 a b c d = show_nat (unat a) @ ''.'' @ show_nat (unat b) @ ''.'' @ show_nat (unat c) @
      ''.'' @ show_nat (unat d) @ []" by (simp add: show_ipv4_def)
  then show ?thesis
    using read_octet_show[of "''.'' @ show_nat (unat b) @ ''.'' @ show_nat (unat c) @ ''.'' @ show_nat (unat d)" 0 a]
      read_octet_show[of "''.'' @ show_nat (unat c) @ ''.'' @ show_nat (unat d)" 1 b]
      read_octet_show[of "''.'' @ show_nat (unat d)" 2 c] read_octet_show[of "[]" 3 d] dot
    by (simp add: parse_ip_addr_def read_ipv4_addr_def)
qed

end
