(* ===== verification/Cookie_Date.thy ===== *)
theory Cookie_Date
  imports Rust_Net
begin

text \<open>
  Cookie dates (\<open>crates/cookies/src/lib.rs\<close>, \<open>parse_cookie_date\<close> to \<open>civil_to_system\<close>).
  A \<open>SystemTime\<close> is an integer number of nanoseconds since the Unix epoch. The calendar
  arithmetic keeps the checked \<open>i64\<close> operations of the source.
\<close>

type_synonym system_time = int

abbreviation nanos :: int where
  "nanos \<equiv> 1000000000"

section \<open>Tokens\<close>

definition is_cookie_date_delimiter :: "char \<Rightarrow> bool" where
  "is_cookie_date_delimiter c =
     (let b = byte c in b = 0x09 \<or> (0x20 \<le> b \<and> b \<le> 0x2F) \<or> (0x3B \<le> b \<and> b \<le> 0x40)
        \<or> (0x5B \<le> b \<and> b \<le> 0x60) \<or> (0x7B \<le> b \<and> b \<le> 0x7E))"

definition cookie_date_tokens :: "string \<Rightarrow> string list" where
  "cookie_date_tokens s = filter (\<lambda>t. t \<noteq> []) (split_by is_cookie_date_delimiter s)"

definition take_ascii_digits :: "string \<Rightarrow> nat \<Rightarrow> nat \<Rightarrow> (int \<times> string) option" where
  "take_ascii_digits bytes mn mx =
     (let n = length (takeWhile is_ascii_digit (take mx bytes))
      in if n < mn then None
         else map_option (\<lambda>v. (v, drop n bytes)) (parse_signed (- (2 ^ 31)) (2 ^ 31 - 1) (take n bytes)))"

definition first_is_digit :: "string \<Rightarrow> bool" where
  "first_is_digit s = (case s of [] \<Rightarrow> False | c # _ \<Rightarrow> is_ascii_digit c)"

text \<open>\<open>u32::try_from\<close> of an \<open>i32\<close>: fails on a negative value.\<close>

definition to_u32 :: "int \<Rightarrow> int option" where
  "to_u32 n = (if n < 0 then None else Some n)"

definition parse_day_token :: "string \<Rightarrow> int option" where
  "parse_day_token token =
     (case take_ascii_digits token 1 2 of
        None \<Rightarrow> None
      | Some (n, rest) \<Rightarrow> if first_is_digit rest then None else to_u32 n)"

definition parse_time_token :: "string \<Rightarrow> (int \<times> int \<times> int) option" where
  "parse_time_token token =
     (case take_ascii_digits token 1 2 of None \<Rightarrow> None | Some (hour, rest) \<Rightarrow>
      (case strip_prefix '':'' rest of None \<Rightarrow> None | Some rest \<Rightarrow>
       (case take_ascii_digits rest 1 2 of None \<Rightarrow> None | Some (minute, rest) \<Rightarrow>
        (case strip_prefix '':'' rest of None \<Rightarrow> None | Some rest \<Rightarrow>
         (case take_ascii_digits rest 1 2 of None \<Rightarrow> None | Some (sec, rest) \<Rightarrow>
            if first_is_digit rest then None
            else (case to_u32 hour of None \<Rightarrow> None | Some h \<Rightarrow>
                  (case to_u32 minute of None \<Rightarrow> None | Some m \<Rightarrow>
                   (case to_u32 sec of None \<Rightarrow> None | Some s \<Rightarrow> Some (h, m, s)))))))))"

definition parse_year_token :: "string \<Rightarrow> int option" where
  "parse_year_token token =
     (case take_ascii_digits token 2 4 of
        None \<Rightarrow> None
      | Some (n, rest) \<Rightarrow>
          if first_is_digit rest then None
          else Some (if 70 \<le> n \<and> n \<le> 99 then n + 1900
                     else if 0 \<le> n \<and> n \<le> 69 then n + 2000 else n))"

definition month_names :: "string list" where
  "month_names = [''jan'', ''feb'', ''mar'', ''apr'', ''may'', ''jun'',
                  ''jul'', ''aug'', ''sep'', ''oct'', ''nov'', ''dec'']"

definition month_num :: "string \<Rightarrow> int option" where
  "month_num t =
     (if length t < 3 then None
      else map_option (\<lambda>i. int i + 1) (position (\<lambda>n. n = to_ascii_lowercase (take 3 t)) month_names))"

section \<open>The calendar\<close>

definition days_in_month :: "int \<Rightarrow> int \<Rightarrow> int option" where
  "days_in_month year month =
     (if month \<in> set [1, 3, 5, 7, 8, 10, 12] then Some 31
      else if month \<in> set [4, 6, 9, 11] then Some 30
      else if month = 2 then
        Some (if year mod 4 = 0 \<and> (year mod 100 \<noteq> 0 \<or> year mod 400 = 0) then 29 else 28)
      else None)"

definition checked_i64 :: "int \<Rightarrow> int option" where
  "checked_i64 n = (if i64_min \<le> n \<and> n \<le> i64_max then Some n else None)"

definition civil_to_system :: "int \<Rightarrow> int \<Rightarrow> int \<Rightarrow> int \<Rightarrow> int \<Rightarrow> int \<Rightarrow> system_time option" where
  "civil_to_system year month day hour minute sec =
     (if \<not> (1 \<le> month \<and> month \<le> 12) \<or> day = 0 \<or> day > 31 \<or> hour > 23 \<or> minute > 59 \<or> sec > 59 then None
      else
        (let y = (if month \<le> 2 then year - 1 else year);
             era = y div 400;
             yoe = y mod 400;
             mp = (if month > 2 then month - 3 else month + 9);
             doy = (153 * mp + 2) div 5 + day - 1;
             doe = yoe * 365 + yoe div 4 - yoe div 100 + doy
         in case checked_i64 (era * 146097) of None \<Rightarrow> None | Some a \<Rightarrow>
            (case checked_i64 (a + doe) of None \<Rightarrow> None | Some b \<Rightarrow>
             (let days = b - 719468
              in case checked_i64 (days * 86400) of None \<Rightarrow> None | Some c \<Rightarrow>
                 map_option (\<lambda>secs. secs * nanos)
                   (checked_i64 (c + (hour * 3600 + minute * 60 + sec)))))))"

section \<open>The parser\<close>

record date_fields =
  df_time :: "(int \<times> int \<times> int) option"
  df_day :: "int option"
  df_month :: "int option"
  df_year :: "int option"

definition date_token :: "date_fields \<Rightarrow> string \<Rightarrow> date_fields" where
  "date_token f token =
     (if df_time f = None \<and> parse_time_token token \<noteq> None then f\<lparr>df_time := parse_time_token token\<rparr>
      else if df_day f = None \<and> parse_day_token token \<noteq> None then f\<lparr>df_day := parse_day_token token\<rparr>
      else if df_month f = None \<and> month_num token \<noteq> None then f\<lparr>df_month := month_num token\<rparr>
      else if df_year f = None \<and> parse_year_token token \<noteq> None then f\<lparr>df_year := parse_year_token token\<rparr>
      else f)"

definition no_fields :: date_fields where
  "no_fields = \<lparr> df_time = None, df_day = None, df_month = None, df_year = None \<rparr>"

definition parse_cookie_date :: "string \<Rightarrow> system_time option" where
  "parse_cookie_date s =
     (let f = foldl date_token no_fields (cookie_date_tokens s)
      in case (df_year f, df_month f, df_day f, df_time f) of
           (Some year, Some month, Some day, Some (hour, minute, sec)) \<Rightarrow>
             if year < 1601 \<or> \<not> (1 \<le> day \<and> day \<le> 31) \<or> hour > 23 \<or> minute > 59 \<or> sec > 59 then None
             else (case days_in_month year month of
                     None \<Rightarrow> None
                   | Some n \<Rightarrow> if day > n then None else civil_to_system year month day hour minute sec)
         | _ \<Rightarrow> None)"

section \<open>Calendar arithmetic\<close>

definition civil_days :: "int \<Rightarrow> int \<Rightarrow> int \<Rightarrow> int" where
  "civil_days year month day =
     (let y = (if month \<le> 2 then year - 1 else year);
          mp = (if month > 2 then month - 3 else month + 9)
      in (y div 400) * 146097 + (y mod 400 * 365 + y mod 400 div 4 - y mod 400 div 100
           + ((153 * mp + 2) div 5 + day - 1)) - 719468)"

definition leaps :: "int \<Rightarrow> int" where
  "leaps y = y div 4 - y div 100 + y div 400"

definition is_leap :: "int \<Rightarrow> bool" where
  "is_leap y \<longleftrightarrow> y mod 4 = 0 \<and> (y mod 100 \<noteq> 0 \<or> y mod 400 = 0)"

text \<open>The era arithmetic is the plain count of leap years.\<close>

lemma era_days: "(y div 400) * 146097 + (y mod 400 * 365 + y mod 400 div 4 - y mod 400 div 100) =
    365 * y + leaps y"
proof -
  define e r where "e = y div 400" and "r = y mod 400"
  have y: "y = r + 4 * (100 * e)" "y = r + 100 * (4 * e)" by (simp_all add: e_def r_def)
  have "y div 4 = r div 4 + 100 * e" by (subst y(1)) simp
  moreover have "y div 100 = r div 100 + 4 * e" by (subst y(2)) simp
  ultimately show ?thesis unfolding leaps_def e_def[symmetric] r_def[symmetric] by (simp add: y(1))
qed

lemma civil_days_count:
  "civil_days year month day =
     (let y = (if month \<le> 2 then year - 1 else year); mp = (if month > 2 then month - 3 else month + 9)
      in 365 * y + leaps y + (153 * mp + 2) div 5 + day - 719469)"
  using era_days[of "year - 1"] era_days[of year] by (simp add: civil_days_def Let_def)

lemma days_in_month_bounds: "days_in_month y m = Some n \<Longrightarrow> 28 \<le> n \<and> n \<le> 31 \<and> 1 \<le> m \<and> m \<le> 12"
  by (auto simp: days_in_month_def split: if_splits)

text \<open>Consecutive calendar dates are consecutive days.\<close>

definition next_date :: "int \<times> int \<times> int \<Rightarrow> int \<times> int \<times> int" where
  "next_date = (\<lambda>(y, m, d).
     if d < the (days_in_month y m) then (y, m, d + 1)
     else if m < 12 then (y, m + 1, 1) else (y + 1, 1, 1))"

lemma div_pred: "0 < n \<Longrightarrow> y div n = (y - 1) div n + (if y mod n = 0 then 1 else (0 :: int))"
proof -
  assume n: "0 < n"
  show ?thesis
  proof (cases "y mod n = 0")
    case True
    have "y - 1 = n * (y div n - 1) + (n - 1)" using True mult_div_mod_eq[of n y] by (simp add: algebra_simps)
    then have "(y - 1) div n = y div n - 1" by (rule int_div_pos_eq) (use n in simp_all)
    with True show ?thesis by simp
  next
    case False
    have "y - 1 = n * (y div n) + (y mod n - 1)" using mult_div_mod_eq[of n y] by simp
    then have "(y - 1) div n = y div n"
      by (rule int_div_pos_eq) (use n False pos_mod_bound[OF n, of y] pos_mod_sign[OF n, of y] in linarith)+
    with False show ?thesis by simp
  qed
qed

lemma nested_count:
  fixes a b c :: int
  assumes "a = a' + (if P then 1 else 0)" "b = b' + (if Q then 1 else 0)" "c = c' + (if R then 1 else 0)"
    and "R \<Longrightarrow> Q" "Q \<Longrightarrow> P"
  shows "a - b + c = a' - b' + c' + (if P \<and> (\<not> Q \<or> R) then 1 else 0)"
  unfolding assms(1-3) using assms(4,5) by (cases P; cases Q; cases R) simp_all

lemma leap_step: "leaps y = leaps (y - 1) + (if is_leap y then 1 else 0)"
proof -
  have "y mod 400 = 0 \<Longrightarrow> y mod 100 = 0" "y mod 100 = 0 \<Longrightarrow> y mod 4 = 0"
    using dvd_trans[of 100 400 y] dvd_trans[of 4 100 y] by (simp_all add: mod_eq_0_iff_dvd)
  then show ?thesis
    unfolding leaps_def is_leap_def by (intro nested_count div_pred) simp_all
qed

lemma month_cases:
  assumes "1 \<le> (m :: int)" "m \<le> 12"
  shows "m = 1 \<or> m = 2 \<or> m = 3 \<or> m = 4 \<or> m = 5 \<or> m = 6 \<or> m = 7 \<or> m = 8 \<or> m = 9 \<or> m = 10 \<or> m = 11 \<or> m = 12"
  using assms by presburger

lemma days_in_month_leap: "days_in_month y 2 = Some (if is_leap y then 29 else 28)"
  by (simp add: days_in_month_def is_leap_def)

lemma civil_days_next:
  assumes "1 \<le> m" "m \<le> 12" "1 \<le> d" "d \<le> the (days_in_month y m)"
  shows "(case next_date (y, m, d) of (y', m', d') \<Rightarrow> civil_days y' m' d') = civil_days y m d + 1"
proof (cases "d < the (days_in_month y m)")
  case True
  then show ?thesis by (simp add: next_date_def civil_days_def Let_def)
next
  case False
  then have d: "d = the (days_in_month y m)" using assms by simp
  show ?thesis
  proof (cases "m = 2")
    case True
    then show ?thesis using d leap_step[of y]
      by (auto simp: next_date_def civil_days_count Let_def days_in_month_leap split: if_splits)
  next
    case False
    have "(case next_date (y, m, d) of (y', m', d') \<Rightarrow> civil_days y' m' d') = civil_days y m d + 1"
      if "d = the (days_in_month y m)"
      using month_cases[OF assms(1,2)] False
      by (elim disjE) (simp_all add: that next_date_def civil_days_count Let_def days_in_month_def)
    then show ?thesis using d by blast
  qed
qed

definition valid_time :: "int \<Rightarrow> int \<Rightarrow> int \<Rightarrow> bool" where
  "valid_time h mi s \<longleftrightarrow> 0 \<le> h \<and> h \<le> 23 \<and> 0 \<le> mi \<and> mi \<le> 59 \<and> 0 \<le> s \<and> s \<le> 59"

lemma civil_days_bounds:
  assumes "1 \<le> m" "m \<le> 12" "1 \<le> d" "d \<le> 31" "\<bar>y\<bar> < 2 ^ 31"
  shows "\<bar>civil_days y m d\<bar> < 2 ^ 41"
proof -
  define y' mp where "y' = (if m \<le> 2 then y - 1 else y)" and "mp = (if m > 2 then m - 3 else m + 9)"
  have c: "civil_days y m d = 365 * y' + leaps y' + (153 * mp + 2) div 5 + d - 719469"
    by (simp add: civil_days_count y'_def mp_def Let_def)
  have "\<bar>y'\<bar> \<le> 2 ^ 31" "0 \<le> mp" "mp \<le> 11" using assms by (auto simp: y'_def mp_def)
  moreover have "\<bar>leaps y'\<bar> \<le> \<bar>y'\<bar> + 3" unfolding leaps_def by linarith
  moreover have "0 \<le> (153 * mp + 2) div 5" "(153 * mp + 2) div 5 \<le> 400" using calculation(2,3) by linarith+
  ultimately show ?thesis unfolding c using assms by (simp add: abs_le_iff) linarith
qed

text \<open>No checked operation fails on an \<open>i32\<close> year.\<close>

lemma civil_to_system_eq:
  assumes "1 \<le> m" "m \<le> 12" "1 \<le> d" "d \<le> 31" "valid_time h mi s" "\<bar>y\<bar> < 2 ^ 31"
  shows "civil_to_system y m d h mi s =
    Some ((civil_days y m d * 86400 + h * 3600 + mi * 60 + s) * nanos)"
proof -
  define y' where "y' = (if m \<le> 2 then y - 1 else y)"
  have "\<bar>y'\<bar> \<le> 2 ^ 31" using assms by (auto simp: y'_def)
  then have "\<bar>y' div 400\<bar> \<le> 2 ^ 31" by linarith
  then have c1: "checked_i64 (y' div 400 * 146097) = Some (y' div 400 * 146097)"
    by (simp add: checked_i64_def i64_min_def i64_max_def abs_le_iff)
  have c: "checked_i64 (civil_days y m d + 719468) = Some (civil_days y m d + 719468)"
    "checked_i64 ((civil_days y m d + 719468 - 719468) * 86400) = Some (civil_days y m d * 86400)"
    "checked_i64 (civil_days y m d * 86400 + (h * 3600 + mi * 60 + s)) =
       Some (civil_days y m d * 86400 + (h * 3600 + mi * 60 + s))"
    using civil_days_bounds[OF assms(1-4,6)] assms(5)
    by (simp_all add: checked_i64_def i64_min_def i64_max_def abs_less_iff valid_time_def)
  define mp where "mp = (if m > 2 then m - 3 else m + 9)"
  have eq: "y' div 400 * 146097 + (y' mod 400 * 365 + y' mod 400 div 4 - y' mod 400 div 100
      + ((153 * mp + 2) div 5 + d - 1)) = civil_days y m d + 719468"
    by (simp add: civil_days_def Let_def y'_def mp_def)
  have guard: "\<not> (\<not> (1 \<le> m \<and> m \<le> 12) \<or> d = 0 \<or> d > 31 \<or> h > 23 \<or> mi > 59 \<or> s > 59)"
    using assms(1-5) by (simp add: valid_time_def)
  show ?thesis
    unfolding civil_to_system_def if_not_P[OF guard] Let_def y'_def[symmetric] mp_def[symmetric]
      c1 option.case eq c option.map(2) by (simp add: add.assoc)
qed

section \<open>Printed dates\<close>

definition two_digits :: "int \<Rightarrow> string" where
  "two_digits n = [char_of (48 + nat n div 10), char_of (48 + nat n mod 10)]"

definition four_digits :: "int \<Rightarrow> string" where
  "four_digits n = two_digits (n div 100) @ two_digits (n mod 100)"

definition weekdays :: "string list" where
  "weekdays = [''Mon'', ''Tue'', ''Wed'', ''Thu'', ''Fri'', ''Sat'', ''Sun'']"

definition month_labels :: "string list" where
  "month_labels = [''Jan'', ''Feb'', ''Mar'', ''Apr'', ''May'', ''Jun'',
                   ''Jul'', ''Aug'', ''Sep'', ''Oct'', ''Nov'', ''Dec'']"

text \<open>The IMF-fixdate of RFC 9110, the form a server sends.\<close>

definition imf_date :: "string \<Rightarrow> int \<Rightarrow> int \<Rightarrow> int \<Rightarrow> int \<Rightarrow> int \<Rightarrow> int \<Rightarrow> string" where
  "imf_date wd y m d h mi s =
     wd @ '', '' @ two_digits d @ '' '' @ month_labels ! nat (m - 1) @ '' '' @ four_digits y @ '' '' @
     two_digits h @ '':'' @ two_digits mi @ '':'' @ two_digits s @ '' GMT''"

lemma split_by_word:
  "list_all (\<lambda>c. \<not> p c) w \<Longrightarrow> p c \<Longrightarrow> split_by p (w @ c # rest) = w # split_by p rest"
  by (induction w) auto

lemma split_by_last: "list_all (\<lambda>c. \<not> p c) w \<Longrightarrow> split_by p w = [w]"
  by (induction w) auto

lemma digit_not_delimiter: "is_ascii_digit c \<Longrightarrow> \<not> is_cookie_date_delimiter c"
  by (auto simp: is_ascii_digit_def is_cookie_date_delimiter_def Let_def)

lemma digits_not_delimiter: "list_all is_ascii_digit ds \<Longrightarrow> list_all (\<lambda>c. \<not> is_cookie_date_delimiter c) ds"
  by (auto simp: list_all_iff digit_not_delimiter)

lemma two_digits_digits [simp]:
  "0 \<le> n \<Longrightarrow> n < 100 \<Longrightarrow> list_all is_ascii_digit (two_digits n)" "length (two_digits n) = 2"
  by (auto simp: two_digits_def)

lemma four_digits_digits [simp]:
  "0 \<le> n \<Longrightarrow> n < 10000 \<Longrightarrow> list_all is_ascii_digit (four_digits n)" "length (four_digits n) = 4"
  by (auto simp: four_digits_def)

lemma digits_val_append2:
  "length b = 2 \<Longrightarrow> digits_val (a @ b) = 100 * digits_val a + digits_val b"
  by (cases b; cases "tl b") (auto simp: digits_val_def)

lemma digits_val_two: "0 \<le> n \<Longrightarrow> n < 100 \<Longrightarrow> int (digits_val (two_digits n)) = n"
proof -
  assume n: "0 \<le> n" "n < 100"
  then have "nat n div 10 < 10" by (simp add: div_less_iff_less_mult)
  then have "digits_val (two_digits n) = 10 * (nat n div 10) + nat n mod 10"
    by (simp add: digits_val_def two_digits_def digit_val_def of_char_of)
  then show ?thesis using n by simp
qed

lemma digits_val_four: "0 \<le> n \<Longrightarrow> n < 10000 \<Longrightarrow> int (digits_val (four_digits n)) = n"
  by (simp add: four_digits_def digits_val_append2 digits_val_two)

lemma take_ascii_digits_eq:
  assumes "list_all is_ascii_digit ds" "mn \<le> length ds" "length ds \<le> mx" "0 < mn"
    and "length ds = mx \<or> \<not> first_is_digit rest" "int (digits_val ds) < 2 ^ 31"
  shows "take_ascii_digits (ds @ rest) mn mx = Some (int (digits_val ds), rest)"
proof -
  have "takeWhile is_ascii_digit (ds @ take k rest) = ds" if "k = 0 \<or> \<not> first_is_digit rest" for k
    using assms(1) that
    by (cases rest; cases k) (auto simp: list_all_iff first_is_digit_def takeWhile_eq_all_conv takeWhile_append)
  from this[of "mx - length ds"] have n: "takeWhile is_ascii_digit (take mx (ds @ rest)) = ds"
    using assms(3,5) by auto
  obtain c cs where c: "ds = c # cs" "is_ascii_digit c" using assms(1,2,4) by (cases ds) auto
  then have "\<not> starts_with ds ''-''" "\<not> starts_with ds ''+''"
    by (auto simp: starts_with_def is_ascii_digit_def)
  then have "parse_signed (- (2 ^ 31)) (2 ^ 31 - 1) ds = Some (int (digits_val ds))"
    using assms(1,6) c by (auto simp: parse_signed_def Let_def)
  with n assms(2) show ?thesis by (simp add: take_ascii_digits_def Let_def)
qed

lemma take_two:
  assumes "0 \<le> n" "n < 100" "mn = 1 \<or> mn = 2" "mx = 2 \<or> mx = 4 \<and> \<not> first_is_digit rest"
  shows "take_ascii_digits (two_digits n @ rest) mn mx = Some (n, rest)"
  using take_ascii_digits_eq[of "two_digits n" mn mx rest] digits_val_two[OF assms(1,2)] assms by auto

lemma take_none: "\<not> first_is_digit s \<Longrightarrow> 0 < mn \<Longrightarrow> take_ascii_digits s mn mx = None"
  by (cases s; cases mx) (auto simp: take_ascii_digits_def first_is_digit_def Let_def)

lemma imf_tokens:
  assumes "wd \<in> set weekdays" "1 \<le> m" "m \<le> 12" "0 \<le> d" "d < 100" "0 \<le> y" "y < 10000"
    and "valid_time h mi s"
  shows "cookie_date_tokens (imf_date wd y m d h mi s) =
    [wd, two_digits d, month_labels ! nat (m - 1), four_digits y,
     two_digits h @ '':'' @ two_digits mi @ '':'' @ two_digits s, ''GMT'']"
proof -
  let ?p = is_cookie_date_delimiter
  have letters: "list_all (\<lambda>c. \<not> ?p c) w" if "w \<in> set (''GMT'' # weekdays @ month_labels)" for w
    using that by (auto simp: weekdays_def month_labels_def is_cookie_date_delimiter_def Let_def)
  have ml: "month_labels ! nat (m - 1) \<in> set month_labels"
    using assms(2,3) by (intro nth_mem) (simp add: month_labels_def)
  have t: "list_all (\<lambda>c. \<not> ?p c) (two_digits h @ '':'' @ two_digits mi @ '':'' @ two_digits s)"
    using assms(8) digits_not_delimiter[OF two_digits_digits(1)]
    by (simp add: valid_time_def is_cookie_date_delimiter_def)
  have sp: "?p CHR '' ''" "?p CHR '',''" by (simp_all add: is_cookie_date_delimiter_def)
  have ne: "wd \<noteq> []" "month_labels ! nat (m - 1) \<noteq> []" "four_digits y \<noteq> []" "two_digits d \<noteq> []"
    using assms(1) ml by (auto simp: weekdays_def month_labels_def four_digits_def two_digits_def)
  define T where "T = two_digits h @ '':'' @ two_digits mi @ '':'' @ two_digits s"
  have "imf_date wd y m d h mi s = wd @ CHR '','' # CHR '' '' # two_digits d @ CHR '' '' #
      month_labels ! nat (m - 1) @ CHR '' '' # four_digits y @ CHR '' '' # T @ CHR '' '' # ''GMT''"
    by (simp add: imf_date_def T_def)
  then have "split_by ?p (imf_date wd y m d h mi s) =
      [wd, [], two_digits d, month_labels ! nat (m - 1), four_digits y, T, ''GMT'']"
    using letters[of wd] letters[of "month_labels ! nat (m - 1)"] letters[of "''GMT''"] assms(1) ml
      t[folded T_def] sp digits_not_delimiter[OF two_digits_digits(1), of d]
      digits_not_delimiter[OF four_digits_digits(1), of y] assms(4-7)
    by (simp add: split_by_word split_by_last del: split_by.simps(2)) (simp add: split_by_word)
  moreover have "T \<noteq> []" by (simp add: T_def)
  ultimately show ?thesis using ne by (simp add: cookie_date_tokens_def T_def)
qed

lemma month_label_num:
  assumes "1 \<le> m" "m \<le> 12"
  shows "month_num (month_labels ! nat (m - 1)) = Some m"
proof -
  have "map month_num month_labels = map Some [1, 2, 3, 4, 5, 6, 7, 8, 9, 10, 11, 12]" by code_simp
  then have "map month_num month_labels ! nat (m - 1) = map Some [1, 2, 3, 4, 5, 6, 7, 8, 9, 10, 11, 12] ! nat (m - 1)"
    by simp
  then show ?thesis using month_cases[OF assms] by (elim disjE) (simp_all add: month_labels_def)
qed

lemma digits_not_colon: "list_all is_ascii_digit ds \<Longrightarrow> \<not> starts_with ds '':''"
  by (cases ds) (auto simp: starts_with_def is_ascii_digit_def)

lemma letters_tokens:
  assumes "\<not> first_is_digit t"
  shows "parse_time_token t = None" "parse_day_token t = None" "parse_year_token t = None"
  using take_none[OF assms]
  by (simp_all add: parse_time_token_def parse_day_token_def parse_year_token_def)

lemma weekday_tokens:
  assumes "wd \<in> set weekdays"
  shows "\<not> first_is_digit wd" "month_num wd = None"
proof -
  have "list_all (\<lambda>w. \<not> first_is_digit w \<and> month_num w = None) weekdays" by code_simp
  with assms show "\<not> first_is_digit wd" "month_num wd = None" by (auto simp: list_all_iff)
qed

lemma number_tokens:
  assumes "0 \<le> n" "n < 100"
  shows "parse_time_token (two_digits n @ rest) = None \<or> starts_with rest '':''"
    and "parse_day_token (two_digits n) = Some n"
  using take_two[OF assms, of 1 2 rest] take_two[OF assms, of 1 2 "[]"] assms
  by (simp_all add: parse_time_token_def parse_day_token_def strip_prefix_def first_is_digit_def to_u32_def)

lemma year_token:
  assumes "1601 \<le> y" "y < 10000"
  shows "parse_year_token (four_digits y) = Some y"
  using take_ascii_digits_eq[of "four_digits y" 2 4 "[]"] digits_val_four[of y] assms
  by (simp add: parse_year_token_def first_is_digit_def)

lemma time_token:
  assumes "valid_time h mi s"
  shows "parse_time_token (two_digits h @ '':'' @ two_digits mi @ '':'' @ two_digits s) = Some (h, mi, s)"
proof -
  have "take_ascii_digits (two_digits h @ '':'' @ two_digits mi @ '':'' @ two_digits s) 1 2 =
      Some (h, '':'' @ two_digits mi @ '':'' @ two_digits s)"
    "take_ascii_digits (two_digits mi @ '':'' @ two_digits s) 1 2 = Some (mi, '':'' @ two_digits s)"
    "take_ascii_digits (two_digits s @ []) 1 2 = Some (s, [])"
    using assms by (intro take_two; simp add: valid_time_def)+
  then show ?thesis using assms
    by (simp add: parse_time_token_def strip_prefix_def starts_with_def first_is_digit_def to_u32_def valid_time_def)
qed

lemma parse_imf:
  assumes "wd \<in> set weekdays" "days_in_month y m = Some n" "1 \<le> d" "d \<le> n" "1601 \<le> y" "y < 10000"
    and "valid_time h mi s"
  shows "parse_cookie_date (imf_date wd y m d h mi s) =
    Some ((civil_days y m d * 86400 + h * 3600 + mi * 60 + s) * nanos)"
proof -
  have b: "1 \<le> m" "m \<le> 12" "d \<le> 31" "0 \<le> d" "d < 100" "0 \<le> y"
    using days_in_month_bounds[OF assms(2)] assms by auto
  have y4: "four_digits y = two_digits (y div 100) @ two_digits (y mod 100)" by (simp add: four_digits_def)
  have "\<not> starts_with (two_digits (y mod 100)) '':''"
    by (rule digits_not_colon) simp
  then have yt: "parse_time_token (four_digits y) = None"
    using number_tokens(1)[of "y div 100" "two_digits (y mod 100)"] assms(5,6) y4 by auto
  have dt: "parse_time_token (two_digits d) = None"
    using number_tokens(1)[of d "[]"] b by (simp add: starts_with_def)
  have g: "\<not> first_is_digit ''GMT''" "\<not> first_is_digit (month_labels ! nat (m - 1))" "month_num ''GMT'' = None"
  proof -
    have "list_all (\<lambda>w. \<not> first_is_digit w) month_labels" by code_simp
    moreover have "nat (m - 1) < length month_labels" using b by (simp add: month_labels_def)
    ultimately show "\<not> first_is_digit (month_labels ! nat (m - 1))" by (simp add: list_all_length)
  qed code_simp+
  have "foldl date_token no_fields (cookie_date_tokens (imf_date wd y m d h mi s)) =
      \<lparr> df_time = Some (h, mi, s), df_day = Some d, df_month = Some m, df_year = Some y \<rparr>"
    using imf_tokens[OF assms(1) b(1,2,4,5,6) assms(6,7)] letters_tokens[OF weekday_tokens(1)[OF assms(1)]]
      weekday_tokens(2)[OF assms(1)] letters_tokens[OF g(1)] letters_tokens[OF g(2)] g(3)
      month_label_num[OF b(1,2)] number_tokens(2)[OF b(4,5)] year_token[OF assms(5,6)] time_token[OF assms(7)]
      yt dt
    by (simp add: date_token_def no_fields_def)
  then show ?thesis
    using civil_to_system_eq[OF b(1,2) assms(3) b(3) assms(7), of y] assms b
    by (simp add: parse_cookie_date_def valid_time_def)
qed

end
