(* ===== verification/Secure_Context.thy ===== *)
theory Secure_Context
  imports Rust_Net
begin

text \<open>
  \<open>crates/secure-context/src/lib.rs\<close>: whether a URL is potentially trustworthy. The URL
  parser is an argument (it is needed for the inner URL of a \<open>blob:\<close> URL only).
\<close>

definition is_localhost :: "host \<Rightarrow> bool" where
  "is_localhost h = (case h of
     Ipv4 a b c d \<Rightarrow> ipv4_is_loopback a
   | Ipv6 gs \<Rightarrow> ipv6_is_loopback gs
   | Domain name \<Rightarrow>
       (let name = to_ascii_lowercase (trim_end_matches CHR ''.'' name)
        in name = ''localhost'' \<or> ends_with name ''.localhost''))"

definition is_trustworthy_origin :: "origin \<Rightarrow> bool" where
  "is_trustworthy_origin orig = (case orig of
     Opaque _ \<Rightarrow> False
   | Tuple scheme h _ \<Rightarrow> scheme \<in> set [''https'', ''wss''] \<or> is_localhost h)"

definition blob_creator_is_file :: "(string \<Rightarrow> url option) \<Rightarrow> url \<Rightarrow> bool" where
  "blob_creator_is_file url_parse u =
     (case Option.bind (strip_prefix ''blob:'' (u_href u)) url_parse of
        None \<Rightarrow> False
      | Some inner \<Rightarrow> u_scheme inner = ''file'')"

definition is_potentially_trustworthy :: "(string \<Rightarrow> url option) \<Rightarrow> url \<Rightarrow> bool" where
  "is_potentially_trustworthy url_parse u =
     (if u_scheme u = ''about'' then u_path u \<in> set [''blank'', ''srcdoc'']
      else if u_scheme u \<in> set [''data'', ''file''] then True
      else if u_scheme u = ''blob'' then is_trustworthy_origin (u_origin u) \<or> blob_creator_is_file url_parse u
      else is_trustworthy_origin (u_origin u))"

definition is_secure_environment :: "(string \<Rightarrow> url option) \<Rightarrow> url \<Rightarrow> bool option \<Rightarrow> bool" where
  "is_secure_environment url_parse u creator =
     (u_scheme u \<noteq> ''data'' \<and> is_potentially_trustworthy url_parse u \<and>
      (case creator of None \<Rightarrow> True | Some b \<Rightarrow> b))"

lemma http_trustworthy_iff:
  assumes "u_scheme u = ''http''" "u_origin u = Tuple ''http'' h p"
  shows "is_potentially_trustworthy url_parse u \<longleftrightarrow> is_localhost h"
  using assms by (simp add: is_potentially_trustworthy_def is_trustworthy_origin_def)

end
