(* ===== verification/Site_Identity.thy ===== *)
theory Site_Identity
  imports Secure_Context
begin

text \<open>
  Site identity (\<open>crates/cookies/src/lib.rs\<close>): the registrable domain of a URL or origin,
  shared by the cookie rules and the renderer locks. The Public Suffix List and the host
  parser are third-party code; the record \<open>crates\<close> collects the functions of other
  crates the cookie code calls: \<open>psl_domain\<close> and \<open>psl_suffix\<close> are \<open>publicsuffix::List\<close>'s
  \<open>domain\<close> and \<open>suffix\<close>, \<open>host_parse\<close> is \<open>url::Host::parse\<close> and \<open>url_parse\<close> is \<open>Url::parse\<close>.
\<close>

record crates =
  psl_domain :: "string \<Rightarrow> string option"
  psl_suffix :: "string \<Rightarrow> string option"
  host_parse :: "string \<Rightarrow> host option"
  url_parse :: "string \<Rightarrow> url option"

definition canonical_host :: "host \<Rightarrow> string" where
  "canonical_host h = (case h of
     Domain d \<Rightarrow> to_ascii_lowercase d
   | Ipv4 a b c d \<Rightarrow> show_ipv4 a b c d
   | Ipv6 gs \<Rightarrow> show_ipv6 gs)"

definition canonicalize_host :: "url \<Rightarrow> string option" where
  "canonicalize_host u = map_option canonical_host (u_host u)"

definition canonicalize_domain_attr :: "crates \<Rightarrow> string \<Rightarrow> string option" where
  "canonicalize_domain_attr cx raw =
     (let stripped = (case strip_prefix ''.'' raw of Some s \<Rightarrow> s | None \<Rightarrow> raw)
      in if length stripped > 1024 then None
         else (case host_parse cx stripped of
                 None \<Rightarrow> None
               | Some (Domain d) \<Rightarrow> Some d
               | Some (Ipv4 a b c d) \<Rightarrow> Some (show_ipv4 a b c d)
               | Some (Ipv6 gs) \<Rightarrow> Some (show_ipv6 gs)))"

definition is_ip :: "string \<Rightarrow> bool" where
  "is_ip s = (parse_ip_addr s \<noteq> None)"

definition is_public_suffix :: "crates \<Rightarrow> string \<Rightarrow> bool" where
  "is_public_suffix cx domain =
     (let d = trim_matches CHR ''.'' domain in d \<noteq> [] \<and> psl_suffix cx d = Some d)"

definition registrable_domain :: "crates \<Rightarrow> string \<Rightarrow> string" where
  "registrable_domain cx h =
     (if is_ip h then h
      else (let h = trim_matches CHR ''.'' h
            in case Option.bind (psl_domain cx h) from_utf8 of None \<Rightarrow> h | Some d \<Rightarrow> d))"

definition site_scheme :: "string \<Rightarrow> string option" where
  "site_scheme scheme =
     (if scheme \<in> set [''http'', ''ws''] then Some ''http''
      else if scheme \<in> set [''https'', ''wss''] then Some ''https'' else None)"

definition site_tuple :: "crates \<Rightarrow> url \<Rightarrow> (string \<times> string) option" where
  "site_tuple cx u =
     (case site_scheme (u_scheme u) of
        None \<Rightarrow> None
      | Some scheme \<Rightarrow>
          (case canonicalize_host u of
             None \<Rightarrow> None
           | Some h \<Rightarrow> Some (scheme, registrable_domain cx h)))"

definition origin_site_tuple :: "crates \<Rightarrow> origin \<Rightarrow> (string \<times> string) option" where
  "origin_site_tuple cx orig = (case orig of
     Opaque _ \<Rightarrow> None
   | Tuple scheme h _ \<Rightarrow>
       (case site_scheme scheme of
          None \<Rightarrow> None
        | Some s \<Rightarrow> Some (s, registrable_domain cx (canonical_host h))))"

definition schemeful_same_site :: "crates \<Rightarrow> url \<Rightarrow> url \<Rightarrow> bool" where
  "schemeful_same_site cx a b =
     (case (site_tuple cx a, site_tuple cx b) of (Some l, Some r) \<Rightarrow> l = r | _ \<Rightarrow> False)"

definition origins_same_site :: "crates \<Rightarrow> origin \<Rightarrow> origin \<Rightarrow> bool" where
  "origins_same_site cx a b =
     (case (origin_site_tuple cx a, origin_site_tuple cx b) of (Some l, Some r) \<Rightarrow> l = r | _ \<Rightarrow> False)"

definition site :: "crates \<Rightarrow> url \<Rightarrow> string option" where
  "site cx u = map_option (\<lambda>(scheme, domain). scheme @ ''://'' @ domain) (site_tuple cx u)"

definition site_for_origin :: "crates \<Rightarrow> origin \<Rightarrow> string option" where
  "site_for_origin cx orig =
     map_option (\<lambda>(scheme, domain). scheme @ ''://'' @ domain) (origin_site_tuple cx orig)"

section \<open>Laws\<close>

lemma origins_same_site_sym: "origins_same_site cx a b = origins_same_site cx b a"
  by (auto simp: origins_same_site_def split: option.splits)

lemma origins_same_site_trans:
  "origins_same_site cx a b \<Longrightarrow> origins_same_site cx b c \<Longrightarrow> origins_same_site cx a c"
  by (auto simp: origins_same_site_def split: option.splits)

lemma site_scheme_cases: "site_scheme s = Some t \<Longrightarrow> t = ''http'' \<or> t = ''https''"
  by (auto simp: site_scheme_def split: if_splits)

text \<open>The two printed sites agree exactly when the pairs do: the scheme never contains a colon.\<close>

lemma site_string_inj:
  assumes "s \<in> {''http'', ''https''}" "t \<in> {''http'', ''https''}"
  shows "s @ ''://'' @ d = t @ ''://'' @ e \<longleftrightarrow> s = t \<and> d = e"
  using assms by auto

lemma same_site_iff_site:
  "origins_same_site cx a b \<longleftrightarrow> site_for_origin cx a \<noteq> None \<and> site_for_origin cx a = site_for_origin cx b"
proof (cases "origin_site_tuple cx a"; cases "origin_site_tuple cx b")
  fix p q
  assume ab: "origin_site_tuple cx a = Some p" "origin_site_tuple cx b = Some q"
  obtain s d t e where pq: "p = (s, d)" "q = (t, e)" by (cases p; cases q)
  have "s \<in> {''http'', ''https''}" "t \<in> {''http'', ''https''}"
    using ab pq by (auto simp: origin_site_tuple_def dest: site_scheme_cases split: origin.splits option.splits)
  then show ?thesis using ab pq site_string_inj[of s t d e]
    by (simp add: origins_same_site_def site_for_origin_def)
qed (auto simp: origins_same_site_def site_for_origin_def)

lemma site_tuple_origin:
  assumes "u_origin u = Tuple (u_scheme u) h p" "u_host u = Some h"
  shows "site_tuple cx u = origin_site_tuple cx (u_origin u)"
  using assms by (simp add: site_tuple_def origin_site_tuple_def canonicalize_host_def split: option.split)

end
