(* ===== verification/Cookie_Jar.thy ===== *)
theory Cookie_Jar
  imports Cookie_Date Site_Identity "HOL-Library.Product_Lexorder"
begin

text \<open>
  The cookie jar (\<open>crates/cookies/src/lib.rs\<close>): parsing of \<open>Set-Cookie\<close> lines, the storage
  model, retrieval, eviction and the persisted records. Times are nanoseconds since the
  epoch; the functions of other crates are in the record \<open>crates\<close>.
\<close>

section \<open>Data\<close>

datatype initiator_kind = Navigation | Fetch

datatype same_site = Strict | Lax | SSNone | SSDefault

datatype retrieval_kind = Http | NonHttp

record stored_cookie =
  c_name :: string
  c_value :: string
  c_expiry :: "system_time option"
  c_domain :: string
  c_path :: string
  c_created :: system_time
  c_last_access :: system_time
  c_host_only :: bool
  c_secure :: bool
  c_http_only :: bool
  c_same_site :: same_site

record cookie_jar =
  cookies :: "stored_cookie list"

record cookie_op =
  op_url :: url
  op_now :: system_time
  op_kind :: retrieval_kind
  op_initiator_kind :: initiator_kind
  op_method_is_safe :: bool
  op_initiator :: "origin option"
  op_cross_site_redirect :: bool

record parsed_set_cookie =
  p_name :: string
  p_value :: string
  p_max_age :: "int option"
  p_expires :: "system_time option"
  p_domain :: "string option"
  p_path :: "string option"
  p_secure :: bool
  p_http_only :: bool
  p_same_site :: "same_site option"

text \<open>\<open>Duration::from_hours(9600)\<close>, in nanoseconds.\<close>

definition MAX_LIFETIME :: int where
  "MAX_LIFETIME = 9600 * 3600 * nanos"

definition MAX_COOKIES_PER_DOMAIN :: nat where
  "MAX_COOKIES_PER_DOMAIN = 50"

definition MAX_COOKIES :: nat where
  "MAX_COOKIES = 3000"

section \<open>Parsing\<close>

definition has_ctl_excluding_htab :: "string \<Rightarrow> bool" where
  "has_ctl_excluding_htab s = list_ex (\<lambda>c. (byte c < 0x20 \<and> byte c \<noteq> 9) \<or> byte c = 0x7F) s"

definition parse_max_age :: "string \<Rightarrow> int option" where
  "parse_max_age val =
     (let digits = (case strip_prefix ''-'' val of Some d \<Rightarrow> d | None \<Rightarrow> val)
      in if digits = [] \<or> \<not> list_all is_ascii_digit digits then None
         else Some (case parse_signed i64_min i64_max val of
                      Some n \<Rightarrow> n
                    | None \<Rightarrow> if starts_with val ''-'' then i64_min else i64_max))"

definition parse_same_site :: "string \<Rightarrow> same_site" where
  "parse_same_site v =
     (if eq_ignore_ascii_case v ''Strict'' then Strict
      else if eq_ignore_ascii_case v ''None'' then SSNone
      else if eq_ignore_ascii_case v ''Lax'' then Lax else SSDefault)"

definition split_attr :: "string \<Rightarrow> string \<times> string" where
  "split_attr av = (case split_once CHR ''='' av of Some (n, v) \<Rightarrow> (trim n, trim v) | None \<Rightarrow> (av, []))"

definition apply_attr :: "parsed_set_cookie \<Rightarrow> string \<Rightarrow> parsed_set_cookie" where
  "apply_attr p raw =
     (let av = trim raw
      in if av = [] then p
         else (let (aname, avalue) = split_attr av
               in if eq_ignore_ascii_case aname ''Max-Age'' then
                    (case parse_max_age avalue of Some n \<Rightarrow> p\<lparr>p_max_age := Some n\<rparr> | None \<Rightarrow> p)
                  else if eq_ignore_ascii_case aname ''Expires'' then
                    (case parse_cookie_date avalue of Some t \<Rightarrow> p\<lparr>p_expires := Some t\<rparr> | None \<Rightarrow> p)
                  else if eq_ignore_ascii_case aname ''Domain'' then
                    (let d = (case strip_prefix ''.'' avalue of Some d \<Rightarrow> d | None \<Rightarrow> avalue)
                     in if length d \<le> 1024
                        then p\<lparr>p_domain := (if d \<noteq> [] then Some (to_ascii_lowercase d) else None)\<rparr>
                        else p)
                  else if eq_ignore_ascii_case aname ''Path'' then
                    (if length avalue \<le> 1024 \<and> starts_with avalue ''/'' then p\<lparr>p_path := Some avalue\<rparr> else p)
                  else if eq_ignore_ascii_case aname ''Secure'' then p\<lparr>p_secure := True\<rparr>
                  else if eq_ignore_ascii_case aname ''HttpOnly'' then p\<lparr>p_http_only := True\<rparr>
                  else if eq_ignore_ascii_case aname ''SameSite'' then
                    p\<lparr>p_same_site := Some (parse_same_site avalue)\<rparr>
                  else p))"

definition parse_set_cookie :: "string \<Rightarrow> parsed_set_cookie option" where
  "parse_set_cookie input =
     (if has_ctl_excluding_htab input then None
      else
        (let (pair, attrs) = (case split_once CHR '';'' input of Some (pair, rest) \<Rightarrow> (pair, rest) | None \<Rightarrow> (input, []));
             pair = trim pair;
             (name, val) = (case split_once CHR ''='' pair of Some (n, v) \<Rightarrow> (trim n, trim v) | None \<Rightarrow> ([], pair))
         in if name = [] \<and> val = [] then None
            else if length name + length val > 4096 then None
            else Some (foldl apply_attr
                   \<lparr> p_name = name, p_value = val, p_max_age = None, p_expires = None, p_domain = None,
                     p_path = None, p_secure = False, p_http_only = False, p_same_site = None \<rparr>
                   (split_by (\<lambda>c. c = CHR '';'') attrs))))"

section \<open>Matching\<close>

definition domain_match :: "string \<Rightarrow> string \<Rightarrow> bool" where
  "domain_match h domain =
     (if eq_ignore_ascii_case h domain then True
      else if is_ip h then False
      else length h > length domain \<and> h ! (length h - length domain - 1) = CHR ''.'' \<and>
           eq_ignore_ascii_case (drop (length h - length domain) h) domain)"

definition path_match :: "string \<Rightarrow> string \<Rightarrow> bool" where
  "path_match request_path cookie_path =
     (if request_path = cookie_path then True
      else if starts_with request_path cookie_path then
        (if ends_with cookie_path ''/'' then True
         else nth_opt request_path (length cookie_path) = Some (CHR ''/''))
      else False)"

definition default_path :: "string \<Rightarrow> string" where
  "default_path uri_path =
     (case rfind (CHR ''/'') uri_path of
        Some e \<Rightarrow> if e > 0 \<and> starts_with uri_path ''/'' then take e uri_path else ''/''
      | None \<Rightarrow> ''/'')"

definition is_same_site_request :: "crates \<Rightarrow> cookie_op \<Rightarrow> bool" where
  "is_same_site_request cx op =
     (if op_cross_site_redirect op then False
      else (case op_initiator op of
              None \<Rightarrow> True
            | Some from_origin \<Rightarrow> origins_same_site cx from_origin (u_origin (op_url op))))"

definition samesite_allows :: "same_site \<Rightarrow> bool \<Rightarrow> initiator_kind \<Rightarrow> bool \<Rightarrow> bool" where
  "samesite_allows ss same_site_request kind method_is_safe = (case ss of
     SSNone \<Rightarrow> True
   | Strict \<Rightarrow> same_site_request
   | Lax \<Rightarrow> same_site_request \<or> (kind = Navigation \<and> method_is_safe)
   | SSDefault \<Rightarrow> same_site_request \<or> (kind = Navigation \<and> method_is_safe))"

definition cookie_matches :: "crates \<Rightarrow> stored_cookie \<Rightarrow> string \<Rightarrow> string \<Rightarrow> cookie_op \<Rightarrow> bool \<Rightarrow> bool" where
  "cookie_matches cx c h request_path op trustworthy =
     (let host_ok = (if c_host_only c then c_domain c = h else domain_match h (c_domain c))
      in if \<not> host_ok then False
         else if \<not> path_match request_path (c_path c) then False
         else if c_secure c \<and> \<not> trustworthy then False
         else if c_http_only c \<and> op_kind op \<noteq> Http then False
         else samesite_allows (c_same_site c) (is_same_site_request cx op) (op_initiator_kind op)
                (op_method_is_safe op))"

definition same_cookie_identity :: "stored_cookie \<Rightarrow> stored_cookie \<Rightarrow> bool" where
  "same_cookie_identity old stored =
     (c_name old = c_name stored \<and> c_domain old = c_domain stored \<and>
      c_host_only old = c_host_only stored \<and> c_path old = c_path stored)"

section \<open>The storage model\<close>

definition cookie_prefixes_ok :: "string \<Rightarrow> string \<Rightarrow> bool \<Rightarrow> bool \<Rightarrow> string option \<Rightarrow> bool" where
  "cookie_prefixes_ok name val secure host_only path_attr =
     (if name = [] then
        (let lvalue = to_ascii_lowercase val
         in \<not> starts_with lvalue ''__secure-'' \<and> \<not> starts_with lvalue ''__host-'')
      else
        (let prefix = to_ascii_lowercase name
         in if starts_with prefix ''__secure-'' \<and> \<not> secure then False
            else if starts_with prefix ''__host-'' \<and> \<not> (secure \<and> host_only \<and> path_attr = Some ''/'') then False
            else True))"

definition overlays_secure_cookie :: "stored_cookie list \<Rightarrow> string \<Rightarrow> string \<Rightarrow> string \<Rightarrow> bool \<Rightarrow> bool" where
  "overlays_secure_cookie existing name domain path secure =
     (\<not> secure \<and>
      list_ex (\<lambda>old. c_secure old \<and> c_name old = name \<and>
        (domain_match (c_domain old) domain \<or> domain_match domain (c_domain old)) \<and>
        path_match path (c_path old)) existing)"

definition cookie_expiry :: "parsed_set_cookie \<Rightarrow> system_time \<Rightarrow> system_time option" where
  "cookie_expiry p now = (case p_max_age p of
     Some max_age \<Rightarrow> if max_age \<le> 0 then Some now else Some (now + min (\<bar>max_age\<bar> * nanos) MAX_LIFETIME)
   | None \<Rightarrow> map_option (\<lambda>e. min e (now + MAX_LIFETIME)) (p_expires p))"

definition cookie_scope ::
  "crates \<Rightarrow> parsed_set_cookie \<Rightarrow> url \<Rightarrow> string \<Rightarrow> (bool \<times> string \<times> string \<times> string option) option" where
  "cookie_scope cx p request_url h =
     (let finish = (\<lambda>domain_attr.
            Some (domain_attr = [], (if domain_attr = [] then h else domain_attr),
                  (case p_path p of Some path \<Rightarrow> path | None \<Rightarrow> default_path (u_path request_url)), p_path p))
      in case (case p_domain p of Some raw \<Rightarrow> canonicalize_domain_attr cx raw | None \<Rightarrow> Some []) of
           None \<Rightarrow> None
         | Some domain_attr \<Rightarrow>
             if domain_attr \<noteq> [] then
               (if is_ip h \<or> is_public_suffix cx domain_attr then
                  (if domain_attr \<noteq> h then None else finish [])
                else if \<not> domain_match h domain_attr then None
                else finish domain_attr)
             else finish domain_attr)"

definition receive_cookie ::
  "crates \<Rightarrow> parsed_set_cookie \<Rightarrow> cookie_op \<Rightarrow> stored_cookie list \<Rightarrow> bool \<Rightarrow> stored_cookie option" where
  "receive_cookie cx p op existing trustworthy =
     (case canonicalize_host (op_url op) of None \<Rightarrow> None | Some h \<Rightarrow>
      (let expiry = cookie_expiry p (op_now op)
       in case cookie_scope cx p (op_url op) h of None \<Rightarrow> None | Some (host_only, domain, path, path_attr) \<Rightarrow>
          (let secure = p_secure p; http_only = p_http_only p;
               ss = (case p_same_site p of Some s \<Rightarrow> s | None \<Rightarrow> SSDefault);
               stored = (\<lambda>created. \<lparr> c_name = p_name p, c_value = p_value p, c_expiry = expiry,
                 c_domain = domain, c_path = path, c_created = created, c_last_access = op_now op,
                 c_host_only = host_only, c_secure = secure, c_http_only = http_only, c_same_site = ss \<rparr>)
           in if secure \<and> \<not> trustworthy then None
              else if http_only \<and> op_kind op = NonHttp then None
              else if \<not> trustworthy \<and> overlays_secure_cookie existing (p_name p) domain path secure then None
              else if ss = SSNone \<and> \<not> secure then None
              else if ss \<noteq> SSNone \<and> \<not> is_same_site_request cx op \<and> op_initiator_kind op \<noteq> Navigation then None
              else if \<not> cookie_prefixes_ok (p_name p) (p_value p) secure host_only path_attr then None
              else
                (case find (\<lambda>old. c_name old = p_name p \<and> c_domain old = domain \<and>
                              c_host_only old = host_only \<and> c_path old = path) existing of
                   Some old \<Rightarrow>
                     if op_kind op = NonHttp \<and> c_http_only old then None else Some (stored (c_created old))
                 | None \<Rightarrow> Some (stored (op_now op))))))"

section \<open>Eviction\<close>

definition not_expired :: "system_time \<Rightarrow> stored_cookie \<Rightarrow> bool" where
  "not_expired now c = (case c_expiry c of None \<Rightarrow> True | Some e \<Rightarrow> e > now)"

definition evict_expired :: "system_time \<Rightarrow> cookie_jar \<Rightarrow> cookie_jar" where
  "evict_expired now j = j\<lparr>cookies := filter (not_expired now) (cookies j)\<rparr>"

fun count_over :: "(string \<Rightarrow> nat) \<Rightarrow> stored_cookie list \<Rightarrow> string option" where
  "count_over counts [] = None"
| "count_over counts (c # cs) =
     (let counts = counts(c_domain c := counts (c_domain c) + 1)
      in if counts (c_domain c) > MAX_COOKIES_PER_DOMAIN then Some (c_domain c) else count_over counts cs)"

definition over_quota_domain :: "stored_cookie list \<Rightarrow> string option" where
  "over_quota_domain cs = (if length cs \<le> MAX_COOKIES_PER_DOMAIN then None else count_over (\<lambda>_. 0) cs)"

definition evict_before :: "bool \<Rightarrow> stored_cookie \<Rightarrow> stored_cookie \<Rightarrow> bool" where
  "evict_before any a b =
     (let by_age = ((c_last_access a, c_created a) < (c_last_access b, c_created b))
      in if any then by_age
         else if \<not> c_secure a \<and> c_secure b then True
         else if c_secure a \<and> \<not> c_secure b then False
         else by_age)"

definition evict_one :: "stored_cookie list \<Rightarrow> string option \<Rightarrow> bool \<times> stored_cookie list" where
  "evict_one cs domain =
     (case filter (\<lambda>(i, c). case domain of None \<Rightarrow> True | Some d \<Rightarrow> c_domain c = d) (enumerate 0 cs) of
        [] \<Rightarrow> (False, cs)
      | x # xs \<Rightarrow>
          (let (i, _) = foldl (\<lambda>best y. if evict_before (domain = None) (snd y) (snd best) then y else best) x xs
           in (True, take i cs @ drop (Suc i) cs)))"

lemma foldl_pick_mem: "foldl (\<lambda>best y. if P y best then y else best) x xs \<in> set (x # xs)"
  by (induction xs arbitrary: x) (auto split: if_splits)

lemma evict_one_cases:
  obtains "\<forall>c \<in> set cs. \<not> (case domain of None \<Rightarrow> True | Some d \<Rightarrow> c_domain c = d)" "evict_one cs domain = (False, cs)"
  | i where "i < length cs" "case domain of None \<Rightarrow> True | Some d \<Rightarrow> c_domain (cs ! i) = d"
      "evict_one cs domain = (True, take i cs @ drop (Suc i) cs)"
proof (cases "filter (\<lambda>(i, c). case domain of None \<Rightarrow> True | Some d \<Rightarrow> c_domain c = d) (enumerate 0 cs)")
  case Nil
  then have "\<not> (case domain of None \<Rightarrow> True | Some d \<Rightarrow> c_domain (cs ! i) = d)" if "i < length cs" for i
    using that by (auto simp: filter_empty_conv in_set_enumerate_eq dest!: bspec[of _ _ "(i, cs ! i)"])
  then have "\<forall>c \<in> set cs. \<not> (case domain of None \<Rightarrow> True | Some d \<Rightarrow> c_domain c = d)"
    by (metis in_set_conv_nth)
  with that(1) Nil show ?thesis by (simp add: evict_one_def)
next
  case (Cons x xs)
  define b where "b = foldl (\<lambda>best y. if evict_before (domain = None) (snd y) (snd best) then y else best) x xs"
  have "b \<in> set (x # xs)" unfolding b_def by (rule foldl_pick_mem)
  then have "b \<in> set (enumerate 0 cs)" "case domain of None \<Rightarrow> True | Some d \<Rightarrow> c_domain (snd b) = d"
    unfolding Cons[symmetric] by (auto split: option.split)
  then have "fst b < length cs" "case domain of None \<Rightarrow> True | Some d \<Rightarrow> c_domain (cs ! fst b) = d"
    by (auto simp: in_set_enumerate_eq split: option.splits)
  moreover have "evict_one cs domain = (True, take (fst b) cs @ drop (Suc (fst b)) cs)"
    using Cons by (simp add: evict_one_def case_prod_unfold b_def Let_def)
  ultimately show ?thesis by (rule that(2))
qed

lemma evict_one_length: "evict_one cs domain = (True, cs') \<Longrightarrow> length cs = Suc (length cs')"
  by (rule evict_one_cases[of cs domain]) auto

function evict_domains :: "stored_cookie list \<Rightarrow> stored_cookie list" where
  "evict_domains cs =
     (case over_quota_domain cs of
        None \<Rightarrow> cs
      | Some domain \<Rightarrow>
          (case evict_one cs (Some domain) of (True, cs') \<Rightarrow> evict_domains cs' | (False, cs') \<Rightarrow> cs'))"
  by pat_completeness auto
termination by (relation "measure length") (auto dest!: evict_one_length[OF sym])

function evict_total :: "stored_cookie list \<Rightarrow> stored_cookie list" where
  "evict_total cs =
     (if length cs > MAX_COOKIES then
        (case evict_one cs None of (True, cs') \<Rightarrow> evict_total cs' | (False, cs') \<Rightarrow> cs')
      else cs)"
  by pat_completeness auto
termination by (relation "measure length") (auto dest!: evict_one_length[OF sym])

declare evict_domains.simps [simp del] evict_total.simps [simp del]

definition evict_excess :: "cookie_jar \<Rightarrow> cookie_jar" where
  "evict_excess j = j\<lparr>cookies := evict_total (evict_domains (cookies j))\<rparr>"

section \<open>The jar\<close>

definition jar_store :: "crates \<Rightarrow> string \<Rightarrow> cookie_op \<Rightarrow> cookie_jar \<Rightarrow> bool \<times> cookie_jar" where
  "jar_store cx set_cookie op j =
     (let j = evict_expired (op_now op) j
      in case parse_set_cookie set_cookie of None \<Rightarrow> (False, j) | Some parsed \<Rightarrow>
         (let trustworthy = is_potentially_trustworthy (url_parse cx) (op_url op)
          in case receive_cookie cx parsed op (cookies j) trustworthy of None \<Rightarrow> (False, j) | Some stored \<Rightarrow>
             (let j = j\<lparr>cookies := filter (\<lambda>old. \<not> same_cookie_identity old stored) (cookies j)\<rparr>
              in if not_expired (op_now op) stored
                 then (True, evict_excess (j\<lparr>cookies := cookies j @ [stored]\<rparr>))
                 else (True, j))))"

definition matched_indices :: "crates \<Rightarrow> cookie_op \<Rightarrow> string \<Rightarrow> stored_cookie list \<Rightarrow> nat list" where
  "matched_indices cx op h cs =
     map fst (filter (\<lambda>(i, c). cookie_matches cx c h (u_path (op_url op)) op
       (is_potentially_trustworthy (url_parse cx) (op_url op))) (enumerate 0 cs))"

definition touch_all :: "system_time \<Rightarrow> nat list \<Rightarrow> stored_cookie list \<Rightarrow> stored_cookie list" where
  "touch_all now is cs = foldl (\<lambda>cs i. cs[i := (cs ! i)\<lparr>c_last_access := now\<rparr>]) cs is"

definition sort_matched :: "stored_cookie list \<Rightarrow> nat list \<Rightarrow> nat list" where
  "sort_matched cs is = sort_key (\<lambda>i. (- int (length (c_path (cs ! i))), c_created (cs ! i))) is"

definition cookie_pair :: "stored_cookie \<Rightarrow> string" where
  "cookie_pair c = (if c_name c \<noteq> [] then c_name c @ ''='' else []) @ c_value c"

fun write_cookies :: "string \<Rightarrow> nat \<Rightarrow> stored_cookie list \<Rightarrow> string" where
  "write_cookies out i [] = out"
| "write_cookies out i (c # cs) =
     write_cookies ((if i > 0 then out @ ''; '' else out) @ cookie_pair c) (Suc i) cs"

definition cookie_string :: "crates \<Rightarrow> cookie_op \<Rightarrow> cookie_jar \<Rightarrow> string \<times> cookie_jar" where
  "cookie_string cx op j =
     (let j = evict_expired (op_now op) j
      in case canonicalize_host (op_url op) of None \<Rightarrow> ([], j) | Some h \<Rightarrow>
         (let matched = matched_indices cx op h (cookies j);
              cs = touch_all (op_now op) matched (cookies j);
              order = sort_matched cs matched
          in (write_cookies [] 0 (map (\<lambda>i. cs ! i) order), j\<lparr>cookies := cs\<rparr>)))"

section \<open>Records\<close>

datatype cookie_same_site = CStrict | CLax | CNone | CDefault

record cookie_record =
  r_name :: string
  r_value :: string
  r_expiry :: "system_time option"
  r_domain :: string
  r_path :: string
  r_created :: system_time
  r_last_access :: system_time
  r_host_only :: bool
  r_secure :: bool
  r_http_only :: bool
  r_same_site :: cookie_same_site

fun cookie_same_site_from :: "same_site \<Rightarrow> cookie_same_site" where
  "cookie_same_site_from Strict = CStrict"
| "cookie_same_site_from Lax = CLax"
| "cookie_same_site_from SSNone = CNone"
| "cookie_same_site_from SSDefault = CDefault"

fun same_site_from :: "cookie_same_site \<Rightarrow> same_site" where
  "same_site_from CStrict = Strict"
| "same_site_from CLax = Lax"
| "same_site_from CNone = SSNone"
| "same_site_from CDefault = SSDefault"

definition cookie_to_record :: "stored_cookie \<Rightarrow> cookie_record" where
  "cookie_to_record c = \<lparr> r_name = c_name c, r_value = c_value c, r_expiry = c_expiry c,
     r_domain = c_domain c, r_path = c_path c, r_created = c_created c, r_last_access = c_last_access c,
     r_host_only = c_host_only c, r_secure = c_secure c, r_http_only = c_http_only c,
     r_same_site = cookie_same_site_from (c_same_site c) \<rparr>"

definition records_for :: "crates \<Rightarrow> cookie_op \<Rightarrow> cookie_jar \<Rightarrow> cookie_record list \<times> cookie_jar" where
  "records_for cx op j =
     (let j = evict_expired (op_now op) j
      in case canonicalize_host (op_url op) of None \<Rightarrow> ([], j) | Some h \<Rightarrow>
         (map cookie_to_record (filter (\<lambda>c. cookie_matches cx c h (u_path (op_url op)) op
             (is_potentially_trustworthy (url_parse cx) (op_url op))) (cookies j)), j))"

definition jar_clear :: "cookie_jar \<Rightarrow> cookie_jar" where
  "jar_clear j = j\<lparr>cookies := []\<rparr>"

definition jar_snapshot :: "cookie_jar \<Rightarrow> cookie_record list" where
  "jar_snapshot j = map cookie_to_record (filter (\<lambda>c. c_expiry c \<noteq> None) (cookies j))"

definition show_ip :: "host \<Rightarrow> string" where
  "show_ip h = (case h of Ipv4 a b c d \<Rightarrow> show_ipv4 a b c d | Ipv6 gs \<Rightarrow> show_ipv6 gs | Domain d \<Rightarrow> d)"

definition sanitize :: "crates \<Rightarrow> cookie_record \<Rightarrow> system_time \<Rightarrow> stored_cookie list \<Rightarrow> stored_cookie option" where
  "sanitize cx r now live =
     (if (case r_expiry r of Some e \<Rightarrow> e \<le> now | None \<Rightarrow> False) then None
      else if (r_name r = [] \<and> r_value r = []) \<or> length (r_name r) + length (r_value r) > 4096
        \<or> has_ctl_excluding_htab (r_name r) \<or> has_ctl_excluding_htab (r_value r)
        \<or> CHR '';'' \<in> set (r_name r) \<or> CHR ''='' \<in> set (r_name r) \<or> CHR '';'' \<in> set (r_value r) then None
      else if \<not> starts_with (r_path r) ''/'' then None
      else
        (case (case parse_ip_addr (r_domain r) of
                 Some ip \<Rightarrow> Some (show_ip ip)
               | None \<Rightarrow> canonicalize_domain_attr cx (r_domain r)) of None \<Rightarrow> None | Some domain \<Rightarrow>
           if r_domain r \<noteq> domain then None
           else
             (let ss = same_site_from (r_same_site r)
              in if ss = SSNone \<and> \<not> r_secure r then None
                 else if \<not> r_host_only r \<and> (is_ip domain \<or> is_public_suffix cx domain) then None
                 else if \<not> cookie_prefixes_ok (r_name r) (r_value r) (r_secure r) (r_host_only r) (Some (r_path r))
                   then None
                 else if overlays_secure_cookie live (r_name r) domain (r_path r) (r_secure r) then None
                 else Some \<lparr> c_name = r_name r, c_value = r_value r,
                   c_expiry = map_option (\<lambda>e. min e (now + MAX_LIFETIME)) (r_expiry r),
                   c_domain = domain, c_path = r_path r, c_created = r_created r,
                   c_last_access = r_last_access r, c_host_only = r_host_only r, c_secure = r_secure r,
                   c_http_only = r_http_only r, c_same_site = ss \<rparr>)))"

definition restore_record ::
  "crates \<Rightarrow> system_time \<Rightarrow> cookie_jar \<Rightarrow> cookie_record \<Rightarrow> cookie_jar" where
  "restore_record cx now j r =
     (case sanitize cx r now (cookies j) of
        None \<Rightarrow> j
      | Some stored \<Rightarrow>
          j\<lparr>cookies := filter (\<lambda>old. \<not> same_cookie_identity old stored) (cookies j) @ [stored]\<rparr>)"

definition jar_restore :: "crates \<Rightarrow> cookie_record list \<Rightarrow> system_time \<Rightarrow> cookie_jar \<Rightarrow> cookie_jar" where
  "jar_restore cx records now j = evict_excess (foldl (restore_record cx now) (evict_expired now j) records)"

end
