(* ===== verification/Cookie_Jar_Inv.thy ===== *)
theory Cookie_Jar_Inv
  imports Cookie_Jar "HOL-Library.Sublist"
begin

text \<open>
  The invariant of the cookie jar and that every operation keeps it: unique identities,
  the storage-model caps, and for each cookie the rules of the storage model
  (\<open>cookie_ok\<close>).
\<close>

section \<open>The invariant\<close>

definition identity :: "stored_cookie \<Rightarrow> string \<times> string \<times> bool \<times> string" where
  "identity c = (c_name c, c_domain c, c_host_only c, c_path c)"

definition cookie_ok :: "crates \<Rightarrow> stored_cookie \<Rightarrow> bool" where
  "cookie_ok cx c \<longleftrightarrow>
     \<not> (c_name c = [] \<and> c_value c = []) \<and> length (c_name c) + length (c_value c) \<le> 4096 \<and>
     \<not> has_ctl_excluding_htab (c_name c) \<and> \<not> has_ctl_excluding_htab (c_value c) \<and>
     CHR '';'' \<notin> set (c_name c) \<and> CHR ''='' \<notin> set (c_name c) \<and> CHR '';'' \<notin> set (c_value c) \<and>
     starts_with (c_path c) ''/'' \<and>
     (c_same_site c = SSNone \<longrightarrow> c_secure c) \<and>
     (c_host_only c \<or> \<not> is_public_suffix cx (c_domain c)) \<and>
     cookie_prefixes_ok (c_name c) (c_value c) (c_secure c) (c_host_only c) (Some (c_path c))"

definition domain_count :: "string \<Rightarrow> stored_cookie list \<Rightarrow> nat" where
  "domain_count d cs = length (filter (\<lambda>c. c_domain c = d) cs)"

definition jar_core :: "crates \<Rightarrow> stored_cookie list \<Rightarrow> bool" where
  "jar_core cx cs \<longleftrightarrow> list_all (cookie_ok cx) cs \<and> distinct (map identity cs)"

definition jar_caps :: "stored_cookie list \<Rightarrow> bool" where
  "jar_caps cs \<longleftrightarrow> (\<forall>d. domain_count d cs \<le> MAX_COOKIES_PER_DOMAIN) \<and> length cs \<le> MAX_COOKIES"

definition jar_inv :: "crates \<Rightarrow> cookie_jar \<Rightarrow> bool" where
  "jar_inv cx j \<longleftrightarrow> jar_core cx (cookies j) \<and> jar_caps (cookies j)"

lemma same_identity [simp]: "same_cookie_identity a b \<longleftrightarrow> identity a = identity b"
  by (auto simp: same_cookie_identity_def identity_def)

section \<open>Sublists of a jar\<close>

lemma subseq_set: "subseq xs ys \<Longrightarrow> set xs \<subseteq> set ys"
  by (metis notin_set_nthsI subseq_conv_nths subsetI)

lemma subseq_distinct_map: "subseq xs ys \<Longrightarrow> distinct (map f ys) \<Longrightarrow> distinct (map f xs)"
  using subseq_map[of xs ys f] by (metis subseq_conv_nths distinct_nthsI)

lemma jar_core_subseq: "subseq cs cs' \<Longrightarrow> jar_core cx cs' \<Longrightarrow> jar_core cx cs"
  by (auto simp: jar_core_def list_all_iff dest: subseq_set subseq_distinct_map)

lemma domain_count_subseq: "subseq cs cs' \<Longrightarrow> domain_count d cs \<le> domain_count d cs'"
  unfolding domain_count_def by (rule list_emb_length[OF subseq_filter])

lemma jar_caps_subseq: "subseq cs cs' \<Longrightarrow> jar_caps cs' \<Longrightarrow> jar_caps cs"
  unfolding jar_caps_def by (meson domain_count_subseq le_trans list_emb_length)

lemma subseq_delete: "subseq (take i cs @ drop (Suc i) cs) cs"
proof (induction cs arbitrary: i)
  case (Cons c cs)
  then show ?case by (cases i) auto
qed simp

lemma evict_one_subseq: "subseq (snd (evict_one cs domain)) cs"
  by (rule evict_one_cases[of cs domain]) (auto simp: subseq_delete)

lemma evict_domains_subseq: "subseq (evict_domains cs) cs"
proof (induction cs rule: evict_domains.induct)
  case (1 cs)
  show ?case
  proof (cases "over_quota_domain cs")
    case (Some d)
    obtain b cs' where e: "evict_one cs (Some d) = (b, cs')" by fastforce
    have sub: "subseq cs' cs" using evict_one_subseq[of cs "Some d"] e by simp
    moreover have "b \<Longrightarrow> subseq (evict_domains cs') cs'" using 1 Some e by auto
    ultimately show ?thesis using Some e
      by (cases b) (auto simp: evict_domains.simps[of cs] intro: subseq_order.trans)
  qed (simp add: evict_domains.simps)
qed

lemma evict_total_subseq: "subseq (evict_total cs) cs"
proof (induction cs rule: evict_total.induct)
  case (1 cs)
  show ?case
  proof (cases "length cs > MAX_COOKIES")
    case True
    obtain b cs' where e: "evict_one cs None = (b, cs')" by fastforce
    have sub: "subseq cs' cs" using evict_one_subseq[of cs None] e by simp
    moreover have "b \<Longrightarrow> subseq (evict_total cs') cs'" using 1 True e by auto
    ultimately show ?thesis using True e
      by (cases b) (auto simp: evict_total.simps[of cs] intro: subseq_order.trans)
  qed (simp add: evict_total.simps)
qed

section \<open>The caps\<close>

lemma count_over_None:
  assumes "count_over counts cs = None" "\<And>d. counts d \<le> MAX_COOKIES_PER_DOMAIN"
  shows "counts d + domain_count d cs \<le> MAX_COOKIES_PER_DOMAIN"
  using assms
proof (induction cs arbitrary: counts)
  case Nil
  then show ?case by (simp add: domain_count_def)
next
  case (Cons c cs)
  let ?counts = "counts(c_domain c := counts (c_domain c) + 1)"
  have n: "count_over ?counts cs = None" "?counts (c_domain c) \<le> MAX_COOKIES_PER_DOMAIN"
    using Cons.prems(1) by (auto simp: Let_def split: if_splits)
  have "?counts d + domain_count d cs \<le> MAX_COOKIES_PER_DOMAIN"
    using Cons.IH[OF n(1)] Cons.prems(2) n(2) by auto
  then show ?case by (auto simp: domain_count_def split: if_splits)
qed

lemma over_quota_None:
  assumes "over_quota_domain cs = None"
  shows "domain_count d cs \<le> MAX_COOKIES_PER_DOMAIN"
proof (cases "length cs \<le> MAX_COOKIES_PER_DOMAIN")
  case True
  then show ?thesis unfolding domain_count_def by (meson le_trans length_filter_le)
next
  case False
  then show ?thesis
    using count_over_None[of "\<lambda>_. 0" cs d] assms by (simp add: over_quota_domain_def)
qed

lemma count_over_Some: "count_over counts cs = Some d \<Longrightarrow> \<exists>c \<in> set cs. c_domain c = d"
  by (induction cs arbitrary: counts) (auto simp: Let_def split: if_splits)

lemma over_quota_evicts:
  assumes "over_quota_domain cs = Some d"
  shows "fst (evict_one cs (Some d))"
proof -
  have "\<exists>c \<in> set cs. c_domain c = d"
    using assms by (auto simp: over_quota_domain_def dest: count_over_Some split: if_splits)
  then show ?thesis by (rule_tac evict_one_cases[of cs "Some d"]) auto
qed

lemma evict_domains_quota: "over_quota_domain (evict_domains cs) = None"
proof (induction cs rule: evict_domains.induct)
  case (1 cs)
  show ?case
  proof (cases "over_quota_domain cs")
    case None
    then show ?thesis by (simp add: evict_domains.simps)
  next
    case (Some d)
    then obtain cs' where "evict_one cs (Some d) = (True, cs')"
      using over_quota_evicts[OF Some] by (cases "evict_one cs (Some d)") auto
    with Some 1 show ?thesis by (subst evict_domains.simps) auto
  qed
qed

lemma evict_total_length: "length (evict_total cs) \<le> MAX_COOKIES"
proof (induction cs rule: evict_total.induct)
  case (1 cs)
  show ?case
  proof (cases "length cs > MAX_COOKIES")
    case True
    then have "cs \<noteq> []" by auto
    then obtain cs' where "evict_one cs None = (True, cs')"
      by (rule_tac evict_one_cases[of cs None]) auto
    with True 1 show ?thesis by (subst evict_total.simps) auto
  qed (simp add: evict_total.simps)
qed

lemma evict_excess_subseq: "subseq (cookies (evict_excess j)) (cookies j)"
  by (simp add: evict_excess_def) (meson evict_domains_subseq evict_total_subseq subseq_order.trans)

lemma evict_excess_caps: "jar_caps (cookies (evict_excess j))"
  unfolding jar_caps_def
  using le_trans[OF domain_count_subseq[OF evict_total_subseq] over_quota_None[OF evict_domains_quota]]
    evict_total_length by (simp add: evict_excess_def)

lemma evict_excess_inv: "jar_core cx (cookies j) \<Longrightarrow> jar_inv cx (evict_excess j)"
  unfolding jar_inv_def by (meson evict_excess_caps evict_excess_subseq jar_core_subseq)

lemma jar_inv_filter: "jar_inv cx j \<Longrightarrow> jar_inv cx (j\<lparr>cookies := filter P (cookies j)\<rparr>)"
  using jar_core_subseq[OF subseq_filter_left] jar_caps_subseq[OF subseq_filter_left] by (simp add: jar_inv_def)

lemma evict_expired_inv: "jar_inv cx j \<Longrightarrow> jar_inv cx (evict_expired now j)"
  unfolding evict_expired_def by (rule jar_inv_filter)

section \<open>What the parser yields\<close>

lemma strip_leading_suffix: "\<exists>k. strip_leading pats s = drop k s"
proof (induction pats s rule: strip_leading.induct)
  case (1 pats s)
  show ?case
  proof (cases "find (\<lambda>p. p \<noteq> [] \<and> starts_with s p) pats")
    case None
    then show ?thesis by (auto simp: strip_leading.simps intro: exI[of _ 0])
  next
    case (Some p)
    with 1 show ?thesis by (auto simp: strip_leading.simps[of pats s] drop_drop)
  qed
qed

lemma trim_set: "set (trim s) \<subseteq> set s"
proof -
  have "set (strip_leading pats t) \<subseteq> set t" for pats t
    using strip_leading_suffix[of pats t] by (metis set_drop_subset)
  then show ?thesis unfolding trim_def trim_end_def trim_start_def by (metis order_trans set_rev)
qed

lemma split_once_Some:
  "split_once d s = Some (a, b) \<Longrightarrow> s = a @ d # b \<and> d \<notin> set a"
  by (induction s arbitrary: a) (auto split: if_splits)

lemma split_once_None: "split_once d s = None \<Longrightarrow> d \<notin> set s"
  by (induction s) (auto split: if_splits)

lemma has_ctl_mono: "set s \<subseteq> set t \<Longrightarrow> has_ctl_excluding_htab s \<Longrightarrow> has_ctl_excluding_htab t"
  by (auto simp: has_ctl_excluding_htab_def list_ex_iff)

definition parsed_ok :: "parsed_set_cookie \<Rightarrow> bool" where
  "parsed_ok p \<longleftrightarrow>
     \<not> (p_name p = [] \<and> p_value p = []) \<and> length (p_name p) + length (p_value p) \<le> 4096 \<and>
     \<not> has_ctl_excluding_htab (p_name p) \<and> \<not> has_ctl_excluding_htab (p_value p) \<and>
     CHR '';'' \<notin> set (p_name p) \<and> CHR ''='' \<notin> set (p_name p) \<and> CHR '';'' \<notin> set (p_value p) \<and>
     (\<forall>path. p_path p = Some path \<longrightarrow> starts_with path ''/'')"

lemma apply_attr_fields:
  "p_name (apply_attr p raw) = p_name p" "p_value (apply_attr p raw) = p_value p"
  "p_path (apply_attr p raw) = p_path p \<or> (\<exists>q. p_path (apply_attr p raw) = Some q \<and> starts_with q ''/'')"
proof -
  obtain a v where av: "split_attr (trim raw) = (a, v)" by fastforce
  show "p_name (apply_attr p raw) = p_name p"
    unfolding apply_attr_def av Let_def prod.case by (simp split: option.split)
  show "p_value (apply_attr p raw) = p_value p"
    unfolding apply_attr_def av Let_def prod.case by (simp split: option.split)
  show "p_path (apply_attr p raw) = p_path p \<or> (\<exists>q. p_path (apply_attr p raw) = Some q \<and> starts_with q ''/'')"
    unfolding apply_attr_def av Let_def prod.case by (simp split: option.split)
qed

lemma apply_attr_ok: "parsed_ok p \<Longrightarrow> parsed_ok (apply_attr p raw)"
  using apply_attr_fields(3)[of p raw] by (auto simp: parsed_ok_def apply_attr_fields(1,2))

lemma apply_attrs_ok: "parsed_ok p \<Longrightarrow> parsed_ok (foldl apply_attr p raws)"
  by (induction raws arbitrary: p) (auto intro: apply_attr_ok)

lemma parse_set_cookie_ok:
  assumes "parse_set_cookie input = Some p"
  shows "parsed_ok p"
proof -
  obtain pair attrs where pa: "(case split_once CHR '';'' input of Some (pair, rest) \<Rightarrow> (pair, rest)
      | None \<Rightarrow> (input, [])) = (pair, attrs)" by fastforce
  have pair: "CHR '';'' \<notin> set pair" "set pair \<subseteq> set input"
    using pa split_once_Some[of "CHR '';''" input pair attrs] split_once_None[of "CHR '';''" input]
    by (auto split: option.splits)
  obtain name val where nv: "(case split_once CHR ''='' (trim pair) of Some (n, v) \<Rightarrow> (trim n, trim v)
      | None \<Rightarrow> ([], trim pair)) = (name, val)" by fastforce
  have sub: "set name \<subseteq> set pair" "set val \<subseteq> set pair" "CHR ''='' \<notin> set name"
  proof (atomize (full), cases "split_once CHR ''='' (trim pair)")
    case None
    then show "set name \<subseteq> set pair \<and> set val \<subseteq> set pair \<and> CHR ''='' \<notin> set name"
      using nv trim_set[of pair] by auto
  next
    case (Some r)
    obtain n v where r: "r = (n, v)" by (cases r)
    have "trim pair = n @ CHR ''='' # v" "CHR ''='' \<notin> set n" using split_once_Some Some r by auto
    then show "set name \<subseteq> set pair \<and> set val \<subseteq> set pair \<and> CHR ''='' \<notin> set name"
      using nv Some r trim_set[of pair] trim_set[of n] trim_set[of v] by auto
  qed
  have "\<not> has_ctl_excluding_htab input" and len: "\<not> (name = [] \<and> val = [])" "length name + length val \<le> 4096"
    and p: "p = foldl apply_attr
      \<lparr> p_name = name, p_value = val, p_max_age = None, p_expires = None, p_domain = None,
        p_path = None, p_secure = False, p_http_only = False, p_same_site = None \<rparr>
      (split_by (\<lambda>c. c = CHR '';'') attrs)"
    using assms by (auto simp: parse_set_cookie_def pa nv Let_def split: if_splits)
  moreover have "\<not> has_ctl_excluding_htab name" "\<not> has_ctl_excluding_htab val"
    using calculation(1) sub pair has_ctl_mono by (meson order_trans)+
  ultimately show ?thesis
    unfolding p using sub pair by (intro apply_attrs_ok) (auto simp: parsed_ok_def)
qed

section \<open>Storing\<close>

lemma default_path_rooted: "starts_with (default_path p) ''/''"
  by (cases p) (auto simp: default_path_def starts_with_def take_Cons' split: option.split)

lemma prefixes_path:
  "cookie_prefixes_ok name val secure host_only path_attr \<Longrightarrow>
   (\<forall>a. path_attr = Some a \<longrightarrow> a = path) \<Longrightarrow> cookie_prefixes_ok name val secure host_only (Some path)"
  by (auto simp: cookie_prefixes_ok_def Let_def split: if_splits)

lemma cookie_scope_cases:
  assumes "cookie_scope cx p u h = Some (host_only, domain, path, path_attr)"
  shows "path_attr = p_path p" "path = (case p_path p of Some q \<Rightarrow> q | None \<Rightarrow> default_path (u_path u))"
    and "host_only \<Longrightarrow> domain = h"
    and "\<not> host_only \<Longrightarrow> \<not> is_ip h \<and> \<not> is_public_suffix cx domain \<and> domain_match h domain \<and> domain \<noteq> []"
  using assms
  by (auto simp: cookie_scope_def Let_def split: option.splits if_splits)

lemma receive_cookie_Some:
  assumes "receive_cookie cx p op existing trustworthy = Some c"
  obtains h host_only domain path path_attr where
    "canonicalize_host (op_url op) = Some h"
    "cookie_scope cx p (op_url op) h = Some (host_only, domain, path, path_attr)"
    "c_name c = p_name p" "c_value c = p_value p" "c_domain c = domain" "c_path c = path"
    "c_host_only c = host_only" "c_secure c = p_secure p" "c_http_only c = p_http_only p"
    "c_expiry c = cookie_expiry p (op_now op)" "c_last_access c = op_now op"
    "c_same_site c = (case p_same_site p of Some s \<Rightarrow> s | None \<Rightarrow> SSDefault)"
    "c_secure c \<longrightarrow> trustworthy" "c_http_only c \<longrightarrow> op_kind op = Http"
    "trustworthy \<or> \<not> overlays_secure_cookie existing (c_name c) (c_domain c) (c_path c) (c_secure c)"
    "c_same_site c = SSNone \<longrightarrow> c_secure c"
    "c_same_site c = SSNone \<or> is_same_site_request cx op \<or> op_initiator_kind op = Navigation"
    "cookie_prefixes_ok (p_name p) (p_value p) (p_secure p) host_only path_attr"
    "op_kind op = NonHttp \<longrightarrow> (\<forall>old. find (\<lambda>old. identity old = identity c) existing = Some old \<longrightarrow> \<not> c_http_only old)"
    "c_created c = (case find (\<lambda>old. identity old = identity c) existing of Some old \<Rightarrow> c_created old | None \<Rightarrow> op_now op)"
proof -
  obtain h where h: "canonicalize_host (op_url op) = Some h"
    using assms by (auto simp: receive_cookie_def split: option.splits)
  obtain host_only domain path path_attr where
    sc: "cookie_scope cx p (op_url op) h = Some (host_only, domain, path, path_attr)"
    using assms h by (auto simp: receive_cookie_def split: option.splits)
  define ss where "ss = (case p_same_site p of Some s \<Rightarrow> s | None \<Rightarrow> SSDefault)"
  define st where "st = (\<lambda>created. \<lparr> c_name = p_name p, c_value = p_value p,
    c_expiry = cookie_expiry p (op_now op), c_domain = domain, c_path = path, c_created = created,
    c_last_access = op_now op, c_host_only = host_only, c_secure = p_secure p,
    c_http_only = p_http_only p, c_same_site = ss \<rparr>)"
  define bad where "bad \<longleftrightarrow> (p_secure p \<and> \<not> trustworthy) \<or> (p_http_only p \<and> op_kind op = NonHttp) \<or>
    (\<not> trustworthy \<and> overlays_secure_cookie existing (p_name p) domain path (p_secure p)) \<or>
    (ss = SSNone \<and> \<not> p_secure p) \<or>
    (ss \<noteq> SSNone \<and> \<not> is_same_site_request cx op \<and> op_initiator_kind op \<noteq> Navigation) \<or>
    \<not> cookie_prefixes_ok (p_name p) (p_value p) (p_secure p) host_only path_attr"
  define old where "old = find (\<lambda>old. c_name old = p_name p \<and> c_domain old = domain \<and>
    c_host_only old = host_only \<and> c_path old = path) existing"
  have "receive_cookie cx p op existing trustworthy =
    (if bad then None else
       (case old of
          Some o' \<Rightarrow> if op_kind op = NonHttp \<and> c_http_only o' then None else Some (st (c_created o'))
        | None \<Rightarrow> Some (st (op_now op))))"
    unfolding receive_cookie_def h sc Let_def option.case prod.case ss_def[symmetric] old_def[symmetric]
    by (cases old) (simp_all add: st_def bad_def)
  with assms have ok: "\<not> bad" and c: "c = st (case old of Some o' \<Rightarrow> c_created o' | None \<Rightarrow> op_now op)"
    and no: "op_kind op = NonHttp \<Longrightarrow> \<forall>o'. old = Some o' \<longrightarrow> \<not> c_http_only o'"
    by (auto split: if_splits option.splits)
  have k: "op_kind op \<noteq> NonHttp \<Longrightarrow> op_kind op = Http" by (cases "op_kind op") auto
  have id: "identity c = (p_name p, domain, host_only, path)" by (simp add: c st_def identity_def)
  show ?thesis
    by (rule that[OF h sc])
      (use ok no k in \<open>auto simp: c st_def bad_def ss_def id[unfolded c st_def] old_def identity_def\<close>)
qed

lemma receive_cookie_ok:
  assumes "parsed_ok p" "receive_cookie cx p op existing trustworthy = Some c"
  shows "cookie_ok cx c"
proof -
  from assms(2) obtain h host_only domain path path_attr where
    sc: "cookie_scope cx p (op_url op) h = Some (host_only, domain, path, path_attr)" and
    f: "c_name c = p_name p" "c_value c = p_value p" "c_domain c = domain" "c_path c = path"
      "c_host_only c = host_only" "c_secure c = p_secure p" "c_same_site c = SSNone \<longrightarrow> c_secure c"
      "cookie_prefixes_ok (p_name p) (p_value p) (p_secure p) host_only path_attr"
    by (elim receive_cookie_Some) blast
  have path: "starts_with path ''/''"
    using cookie_scope_cases(2)[OF sc] assms(1) default_path_rooted
    by (auto simp: parsed_ok_def split: option.splits)
  have "cookie_prefixes_ok (c_name c) (c_value c) (c_secure c) (c_host_only c) (Some path)"
    using prefixes_path[OF f(8), of path] cookie_scope_cases(1,2)[OF sc] f by (auto split: option.splits)
  then show ?thesis
    using assms(1) f path cookie_scope_cases(4)[OF sc] by (auto simp: cookie_ok_def parsed_ok_def)
qed

lemma jar_core_replace:
  assumes "jar_core cx cs" "cookie_ok cx c"
  shows "jar_core cx (filter (\<lambda>old. identity old \<noteq> identity c) cs @ [c])"
proof -
  have "distinct (map identity (filter (\<lambda>old. identity old \<noteq> identity c) cs))"
    using assms(1) by (auto simp: jar_core_def intro: subseq_distinct_map[OF subseq_filter_left])
  with assms show ?thesis by (auto simp: jar_core_def list_all_iff)
qed

lemma jar_store_inv:
  assumes "jar_inv cx j"
  shows "jar_inv cx (snd (jar_store cx line op j))"
proof -
  define j1 where "j1 = evict_expired (op_now op) j"
  have inv: "jar_inv cx j1" unfolding j1_def using assms by (rule evict_expired_inv)
  show ?thesis
  proof (cases "parse_set_cookie line")
    case None
    then show ?thesis using inv by (simp add: jar_store_def j1_def)
  next
    case (Some p)
    show ?thesis
    proof (cases "receive_cookie cx p op (cookies j1) (is_potentially_trustworthy (url_parse cx) (op_url op))")
      case None
      then show ?thesis using inv Some by (simp add: jar_store_def j1_def)
    next
      case c: (Some c)
      have "cookie_ok cx c" using receive_cookie_ok[OF parse_set_cookie_ok[OF Some] c] .
      with inv have "jar_core cx (filter (\<lambda>old. identity old \<noteq> identity c) (cookies j1) @ [c])"
        by (intro jar_core_replace) (simp_all add: jar_inv_def)
      then show ?thesis
        using c Some jar_inv_filter[OF inv, of "\<lambda>old. identity old \<noteq> identity c"]
        by (auto simp: jar_store_def Let_def simp flip: j1_def intro!: evict_excess_inv)
    qed
  qed
qed

lemma sanitize_ok:
  assumes "sanitize cx r now live = Some c"
  shows "cookie_ok cx c"
proof -
  obtain domain where d: "(case parse_ip_addr (r_domain r) of
      Some ip \<Rightarrow> Some (show_ip ip) | None \<Rightarrow> canonicalize_domain_attr cx (r_domain r)) = Some domain"
    using assms by (cases "case parse_ip_addr (r_domain r) of
      Some ip \<Rightarrow> Some (show_ip ip) | None \<Rightarrow> canonicalize_domain_attr cx (r_domain r)")
      (simp_all add: sanitize_def split: if_splits)
  show ?thesis
    using assms unfolding sanitize_def d option.case Let_def
    by (auto simp: cookie_ok_def split: if_splits)
qed

lemma restore_core:
  "jar_core cx (cookies j) \<Longrightarrow> jar_core cx (cookies (foldl (restore_record cx now) j records))"
proof (induction records arbitrary: j)
  case (Cons r records)
  have "jar_core cx (cookies (restore_record cx now j r))"
    using Cons.prems jar_core_replace sanitize_ok by (auto simp: restore_record_def split: option.split)
  then show ?case using Cons.IH by simp
qed simp

lemma jar_restore_inv: "jar_inv cx j \<Longrightarrow> jar_inv cx (jar_restore cx records now j)"
  unfolding jar_restore_def
  by (intro evict_excess_inv restore_core) (simp add: evict_expired_inv[unfolded jar_inv_def] jar_inv_def)

section \<open>Retrieval\<close>

lemma touch_all_length [simp]: "length (touch_all now is cs) = length cs"
  by (induction "is" arbitrary: cs) (simp_all add: touch_all_def)

lemma touch_all_nth:
  "k < length cs \<Longrightarrow> (\<And>i. i \<in> set is \<Longrightarrow> i < length cs) \<Longrightarrow>
   touch_all now is cs ! k = (if k \<in> set is then (cs ! k)\<lparr>c_last_access := now\<rparr> else cs ! k)"
proof (induction "is" arbitrary: cs)
  case (Cons i "is")
  have "touch_all now (i # is) cs = touch_all now is (cs[i := (cs ! i)\<lparr>c_last_access := now\<rparr>])"
    by (simp add: touch_all_def)
  then show ?case using Cons by (auto simp: nth_list_update)
qed (simp add: touch_all_def)

lemma enumerate_filter_map:
  "map (\<lambda>i. cs ! i) (map fst (filter (\<lambda>(i, c). P c) (enumerate 0 cs))) = filter P cs"
proof -
  have "map (\<lambda>i. cs ! i) (map fst (filter (\<lambda>(i, c). P c) (enumerate 0 cs))) =
      map snd (filter (P \<circ> snd) (enumerate 0 cs))"
    by (auto simp: in_set_enumerate_eq case_prod_unfold comp_def)
  also have "\<dots> = filter P cs" by (simp flip: filter_map)
  finally show ?thesis .
qed

lemma map_insort_key: "map g (insort_key (\<lambda>x. f (g x)) x xs) = insort_key f (g x) (map g xs)"
  by (induction xs) auto

lemma map_sort_key: "map g (sort_key (\<lambda>x. f (g x)) xs) = sort_key f (map g xs)"
  by (induction xs) (simp_all add: map_insort_key)

lemma sort_key_cong_set: "(\<And>x. x \<in> set xs \<Longrightarrow> f x = g x) \<Longrightarrow> sort_key f xs = sort_key g xs"
proof (induction xs)
  case (Cons x xs)
  have "insort_key f y ys = insort_key g y ys" if "\<And>z. z \<in> set (y # ys) \<Longrightarrow> f z = g z" for y ys
    using that by (induction ys) auto
  from this[of x "sort_key g xs"] show ?case using Cons by simp
qed simp

lemma write_cookies_join:
  "write_cookies out (Suc i) cs = out @ concat (map (\<lambda>c. ''; '' @ cookie_pair c) cs)"
  by (induction cs arbitrary: out i) simp_all

lemma write_cookies_eq: "write_cookies [] 0 cs = join ''; '' (map cookie_pair cs)"
proof (cases cs)
  case (Cons c cs')
  have "join ''; '' (map cookie_pair (c # cs')) = cookie_pair c @ concat (map (\<lambda>c. ''; '' @ cookie_pair c) cs')" for c cs'
    by (induction cs' arbitrary: c) simp_all
  with Cons show ?thesis by (simp add: write_cookies_join)
qed simp

end
