(* ===== verification/Cookie_Jar_Props.thy ===== *)
theory Cookie_Jar_Props
  imports Cookie_Jar_Inv
begin

text \<open>
  The properties of the cookie jar: what a request carries, what a response or a script may
  change, the caps and the eviction order, expiry, and the persisted records.
\<close>

section \<open>Retrieval against a reference\<close>

abbreviation op_trustworthy :: "crates \<Rightarrow> cookie_op \<Rightarrow> bool" where
  "op_trustworthy cx op \<equiv> is_potentially_trustworthy (url_parse cx) (op_url op)"

text \<open>The cookies a request carries: the live matching ones, longest path first, older first.\<close>

definition sent_cookies :: "crates \<Rightarrow> cookie_op \<Rightarrow> cookie_jar \<Rightarrow> stored_cookie list" where
  "sent_cookies cx op j =
     (case canonicalize_host (op_url op) of
        None \<Rightarrow> []
      | Some h \<Rightarrow> sort_key (\<lambda>c. (- int (length (c_path c)), c_created c))
          (filter (\<lambda>c. not_expired (op_now op) c \<and>
             cookie_matches cx c h (u_path (op_url op)) op (op_trustworthy cx op)) (cookies j)))"

definition touched :: "crates \<Rightarrow> cookie_op \<Rightarrow> stored_cookie \<Rightarrow> stored_cookie" where
  "touched cx op c =
     (case canonicalize_host (op_url op) of
        None \<Rightarrow> c
      | Some h \<Rightarrow> if cookie_matches cx c h (u_path (op_url op)) op (op_trustworthy cx op)
                  then c\<lparr>c_last_access := op_now op\<rparr> else c)"

lemma touch_matched:
  assumes "is = map fst (filter (\<lambda>(i, c). P c) (enumerate 0 cs))"
  shows "touch_all now is cs = map (\<lambda>c. if P c then c\<lparr>c_last_access := now\<rparr> else c) cs"
proof (rule nth_equalityI)
  fix k
  assume "k < length (touch_all now is cs)"
  then have k: "k < length cs" by simp
  have "\<And>i. i \<in> set is \<Longrightarrow> i < length cs" "k \<in> set is \<longleftrightarrow> P (cs ! k)"
    using k by (auto simp: assms in_set_enumerate_eq image_iff Bex_def)
  with touch_all_nth[OF k, of "is"] k
  show "touch_all now is cs ! k = map (\<lambda>c. if P c then c\<lparr>c_last_access := now\<rparr> else c) cs ! k" by simp
qed simp

lemma cookie_string_eq:
  "cookie_string cx op j =
     (join ''; '' (map cookie_pair (sent_cookies cx op j)),
      j\<lparr>cookies := map (touched cx op) (filter (not_expired (op_now op)) (cookies j))\<rparr>)"
proof (cases "canonicalize_host (op_url op)")
  case None
  then have "touched cx op = (\<lambda>c. c)" by (simp add: fun_eq_iff touched_def)
  with None show ?thesis by (simp add: cookie_string_def sent_cookies_def evict_expired_def)
next
  case (Some h)
  define live where "live = filter (not_expired (op_now op)) (cookies j)"
  define P where "P = (\<lambda>c. cookie_matches cx c h (u_path (op_url op)) op (op_trustworthy cx op))"
  define m where "m = matched_indices cx op h live"
  have m: "m = map fst (filter (\<lambda>(i, c). P c) (enumerate 0 live))"
    by (simp add: m_def matched_indices_def P_def)
  define cs where "cs = touch_all (op_now op) m live"
  have cs: "cs = map (touched cx op) live"
    unfolding cs_def touch_matched[OF m] by (simp add: touched_def Some P_def)
  have in_m: "i < length live" if "i \<in> set m" for i using that by (auto simp: m in_set_enumerate_eq)
  have same: "c_path (cs ! i) = c_path (live ! i)" "c_created (cs ! i) = c_created (live ! i)"
    "cookie_pair (cs ! i) = cookie_pair (live ! i)" if "i \<in> set m" for i
    using in_m[OF that] by (simp_all add: cs touched_def cookie_pair_def split: option.split)
  have ord: "sort_matched cs m = sort_key (\<lambda>i. (- int (length (c_path (live ! i))), c_created (live ! i))) m"
    unfolding sort_matched_def by (rule sort_key_cong_set) (simp add: same)
  have "map (\<lambda>i. live ! i) (sort_matched cs m) = sent_cookies cx op j"
  proof -
    have "sent_cookies cx op j = sort_key (\<lambda>c. (- int (length (c_path c)), c_created c)) (filter P live)"
      by (simp add: sent_cookies_def Some live_def P_def conj_commute)
    also have "filter P live = map (\<lambda>i. live ! i) m" unfolding m by (rule enumerate_filter_map[symmetric])
    finally show ?thesis
      unfolding ord using map_sort_key[of "\<lambda>i. live ! i" "\<lambda>c. (- int (length (c_path c)), c_created c)" m]
      by simp
  qed
  then have "map cookie_pair (map (\<lambda>i. cs ! i) (sort_matched cs m)) = map cookie_pair (sent_cookies cx op j)"
    by (smt (verit, best) list.map_comp map_eq_conv o_def ord same(3) set_sort)
  then show ?thesis
    using Some
    by (simp add: cookie_string_def evict_expired_def Let_def write_cookies_eq
        live_def[symmetric] m_def[symmetric] cs_def[symmetric] cs)
qed

section \<open>Sequences of operations\<close>

datatype jar_op =
  JStore string cookie_op | JCookieString cookie_op | JRecords cookie_op
| JRestore "cookie_record list" system_time | JClear

definition jar_step :: "crates \<Rightarrow> jar_op \<Rightarrow> cookie_jar \<Rightarrow> cookie_jar" where
  "jar_step cx a j = (case a of
     JStore line op \<Rightarrow> snd (jar_store cx line op j)
   | JCookieString op \<Rightarrow> snd (cookie_string cx op j)
   | JRecords op \<Rightarrow> snd (records_for cx op j)
   | JRestore records now \<Rightarrow> jar_restore cx records now j
   | JClear \<Rightarrow> jar_clear j)"

definition jar_default :: cookie_jar where
  "jar_default = \<lparr> cookies = [] \<rparr>"

lemma jar_default_inv: "jar_inv cx jar_default"
  by (simp add: jar_default_def jar_inv_def jar_core_def jar_caps_def domain_count_def)

lemma touched_fields [simp]:
  "c_name (touched cx op c) = c_name c" "c_value (touched cx op c) = c_value c"
  "c_domain (touched cx op c) = c_domain c" "c_path (touched cx op c) = c_path c"
  "c_host_only (touched cx op c) = c_host_only c" "c_secure (touched cx op c) = c_secure c"
  "c_http_only (touched cx op c) = c_http_only c" "c_same_site (touched cx op c) = c_same_site c"
  "c_expiry (touched cx op c) = c_expiry c"
  by (simp_all add: touched_def split: option.split)

lemma touched_ok [simp]: "cookie_ok cx' (touched cx op c) = cookie_ok cx' c" "identity (touched cx op c) = identity c"
  by (simp_all add: cookie_ok_def identity_def)

lemma jar_inv_touched: "jar_inv cx j \<Longrightarrow> jar_inv cx (j\<lparr>cookies := map (touched cx' op) (cookies j)\<rparr>)"
  by (simp add: jar_inv_def jar_core_def jar_caps_def domain_count_def list_all_iff filter_map comp_def)

lemma jar_step_inv:
  assumes "jar_inv cx j"
  shows "jar_inv cx (jar_step cx a j)"
proof (cases a)
  case (JCookieString op)
  have "jar_inv cx (j\<lparr>cookies := filter (not_expired (op_now op)) (cookies j)\<rparr>)"
    using jar_inv_filter[OF assms] .
  from jar_inv_touched[OF this] JCookieString show ?thesis by (simp add: jar_step_def cookie_string_eq)
next
  case (JRecords op)
  then show ?thesis using evict_expired_inv[OF assms]
    by (simp add: jar_step_def records_for_def Let_def split: option.split)
next
  case JClear
  then show ?thesis using jar_default_inv[of cx]
    by (simp add: jar_step_def jar_clear_def jar_default_def jar_inv_def)
qed (simp_all add: jar_step_def jar_store_inv[OF assms] jar_restore_inv[OF assms])

lemma jar_fold_inv: "jar_inv cx j \<Longrightarrow> jar_inv cx (fold (jar_step cx) ops j)"
  by (induction ops arbitrary: j) (simp_all add: jar_step_inv)

section \<open>What a store changes\<close>

lemma jar_store_cases:
  obtains (rejected) "jar_store cx line op j = (False, evict_expired (op_now op) j)"
  | (stored) p c where "parse_set_cookie line = Some p"
      "receive_cookie cx p op (filter (not_expired (op_now op)) (cookies j)) (op_trustworthy cx op) = Some c"
      "fst (jar_store cx line op j)"
      "cookies (snd (jar_store cx line op j)) =
         (let rest = filter (\<lambda>old. identity old \<noteq> identity c) (filter (not_expired (op_now op)) (cookies j))
          in if not_expired (op_now op) c then evict_total (evict_domains (rest @ [c])) else rest)"
proof (cases "parse_set_cookie line")
  case None
  then show ?thesis using rejected by (simp add: jar_store_def)
next
  case (Some p)
  show ?thesis
  proof (cases "receive_cookie cx p op (filter (not_expired (op_now op)) (cookies j)) (op_trustworthy cx op)")
    case None
    then show ?thesis using rejected Some by (simp add: jar_store_def evict_expired_def)
  next
    case c: (Some c)
    show ?thesis
      by (rule stored[OF Some c]) (use Some c in
        \<open>simp_all add: jar_store_def evict_expired_def evict_excess_def Let_def\<close>)
  qed
qed

lemma evict_subset: "set (evict_total (evict_domains cs)) \<subseteq> set cs"
  using subseq_set[OF evict_total_subseq] subseq_set[OF evict_domains_subseq] by blast

text \<open>
  A store that neither adds a cookie with property \<open>Q\<close> nor replaces one leaves the live
  cookies with \<open>Q\<close> alone, as far as the caps allow.
\<close>

text \<open>
  A cookie is safe from eviction while fewer than 50 live cookies have its domain and the jar has
  fewer than 3000 live cookies.
\<close>

definition has_room :: "system_time \<Rightarrow> cookie_jar \<Rightarrow> stored_cookie \<Rightarrow> bool" where
  "has_room now j c \<longleftrightarrow>
     length (filter (\<lambda>o'. not_expired now o' \<and> c_domain o' = c_domain c) (cookies j)) < MAX_COOKIES_PER_DOMAIN \<and>
     length (filter (not_expired now) (cookies j)) < MAX_COOKIES"

lemma count_over_full:
  "count_over counts cs = Some d \<Longrightarrow> MAX_COOKIES_PER_DOMAIN < counts d + length (filter (\<lambda>c. c_domain c = d) cs)"
proof (induction cs arbitrary: counts)
  case (Cons c cs)
  show ?case
  proof (cases "MAX_COOKIES_PER_DOMAIN < counts (c_domain c) + 1")
    case True
    then show ?thesis using Cons.prems by (auto simp: Let_def split: if_splits)
  next
    case False
    then have "count_over (counts(c_domain c := counts (c_domain c) + 1)) cs = Some d" using Cons.prems by (simp add: Let_def)
    from Cons.IH[OF this] show ?thesis by (auto split: if_splits)
  qed
qed simp

lemma evict_domains_keeps:
  "c \<in> set cs \<Longrightarrow> length (filter (\<lambda>o'. c_domain o' = c_domain c) cs) \<le> MAX_COOKIES_PER_DOMAIN \<Longrightarrow> c \<in> set (evict_domains cs)"
proof (induction cs rule: evict_domains.induct)
  case (1 cs)
  show ?case
  proof (cases "over_quota_domain cs")
    case None
    then show ?thesis using 1 by (simp add: evict_domains.simps)
  next
    case (Some d)
    then have "MAX_COOKIES_PER_DOMAIN < length (filter (\<lambda>c. c_domain c = d) cs)"
      using count_over_full[of "\<lambda>_. 0" cs d] by (simp add: over_quota_domain_def split: if_splits)
    then have other: "c_domain c \<noteq> d" using 1 by auto
    show ?thesis
    proof (cases rule: evict_one_cases[of cs "Some d"])
      case 1
      then show ?thesis using Some \<open>c \<in> set cs\<close> by (simp add: evict_domains.simps)
    next
      case (2 i)
      let ?cs = "take i cs @ drop (Suc i) cs"
      have cs: "cs = take i cs @ cs ! i # drop (Suc i) cs" using 2(1) by (rule id_take_nth_drop)
      have c: "c \<in> set ?cs"
        using \<open>c \<in> set cs\<close> 2(2) other arg_cong[OF cs, of set] by auto
      have "filter (\<lambda>o'. c_domain o' = c_domain c) cs = filter (\<lambda>o'. c_domain o' = c_domain c) ?cs"
        using 2(2) other by (subst cs) simp
      then have "length (filter (\<lambda>o'. c_domain o' = c_domain c) ?cs) \<le> MAX_COOKIES_PER_DOMAIN"
        using "1.prems"(2) by simp
      then have "c \<in> set (evict_domains ?cs)" using "1.IH"[OF Some 2(3)[symmetric]] c by simp
      then show ?thesis using Some 2(3) by (simp add: evict_domains.simps[of cs])
    qed
  qed
qed

lemma evict_keeps:
  assumes "c \<in> set cs" "length (filter (\<lambda>o'. c_domain o' = c_domain c) cs) \<le> MAX_COOKIES_PER_DOMAIN" "length cs \<le> MAX_COOKIES"
  shows "c \<in> set (evict_total (evict_domains cs))"
proof -
  have "length (evict_domains cs) \<le> MAX_COOKIES" using list_emb_length[OF evict_domains_subseq[of cs]] assms(3) by simp
  then show ?thesis using evict_domains_keeps[OF assms(1,2)] by (simp add: evict_total.simps)
qed

lemma store_preserves:
  assumes "\<forall>p c.
      receive_cookie cx p op (filter (not_expired (op_now op)) (cookies j)) (op_trustworthy cx op) = Some c \<longrightarrow>
      \<not> Q c \<and> (\<forall>old \<in> set (cookies j). not_expired (op_now op) old \<and> identity old = identity c \<longrightarrow> \<not> Q old)"
  shows "\<And>c. c \<in> set (cookies (snd (jar_store cx line op j))) \<Longrightarrow> Q c \<Longrightarrow> c \<in> set (cookies j)"
    and "has_room (op_now op) j c \<Longrightarrow> c \<in> set (cookies j) \<Longrightarrow> not_expired (op_now op) c \<Longrightarrow> Q c \<Longrightarrow>
      c \<in> set (cookies (snd (jar_store cx line op j)))"
proof -
  show "c \<in> set (cookies j)" if "c \<in> set (cookies (snd (jar_store cx line op j)))" "Q c" for c
  proof (cases rule: jar_store_cases[of cx line op j])
    case rejected
    then show ?thesis using that by (simp add: evict_expired_def)
  next
    case (stored p n)
    with that assms stored(2) evict_subset show ?thesis by (fastforce simp: Let_def split: if_splits)
  qed
  show "c \<in> set (cookies (snd (jar_store cx line op j)))"
    if "has_room (op_now op) j c" "c \<in> set (cookies j)" "not_expired (op_now op) c" "Q c"
  proof (cases rule: jar_store_cases[of cx line op j])
    case rejected
    then show ?thesis using that by (simp add: evict_expired_def)
  next
    case (stored p n)
    let ?rest = "filter (\<lambda>old. identity old \<noteq> identity n) (filter (not_expired (op_now op)) (cookies j))"
    have c: "c \<in> set ?rest" using that assms stored(2) by auto
    have fewer: "length (filter P (filter R xs)) \<le> length (filter P xs)" for P R and xs :: "stored_cookie list"
      by (induction xs) auto
    have "length (filter (\<lambda>o'. c_domain o' = c_domain c) ?rest) < MAX_COOKIES_PER_DOMAIN" "length ?rest < MAX_COOKIES"
      using that(1) fewer[of "\<lambda>o'. c_domain o' = c_domain c" "\<lambda>old. identity old \<noteq> identity n" "filter (not_expired (op_now op)) (cookies j)"]
        length_filter_le[of "\<lambda>old. identity old \<noteq> identity n" "filter (not_expired (op_now op)) (cookies j)"]
      by (auto simp: has_room_def conj_commute)
    then have "c \<in> set (evict_total (evict_domains (?rest @ [n])))" using c by (intro evict_keeps) auto
    then show ?thesis using c stored(4) by (simp add: Let_def)
  qed
qed


section \<open>A concrete jar\<close>

definition example_crates :: crates where
  "example_crates = \<lparr> psl_domain = (\<lambda>_. None), psl_suffix = (\<lambda>_. None),
     host_parse = (\<lambda>s. Some (Domain s)), url_parse = (\<lambda>_. None) \<rparr>"

definition example_url :: "string \<Rightarrow> url" where
  "example_url scheme = about_blank\<lparr>u_scheme := scheme, u_host := Some (Domain ''a.test''), u_path := ''/x'',
     u_origin := Tuple scheme (Domain ''a.test'') 443\<rparr>"

definition example_op :: "string \<Rightarrow> retrieval_kind \<Rightarrow> cookie_op" where
  "example_op scheme kind = \<lparr> op_url = example_url scheme, op_now = 0, op_kind = kind,
     op_initiator_kind = Fetch, op_method_is_safe = True, op_initiator = None, op_cross_site_redirect = False \<rparr>"

definition example_cookie :: "bool \<Rightarrow> bool \<Rightarrow> stored_cookie" where
  "example_cookie secure http_only = \<lparr> c_name = ''a'', c_value = ''b'', c_expiry = Some 5, c_domain = ''a.test'',
     c_path = ''/'', c_created = 0, c_last_access = 0, c_host_only = True, c_secure = secure,
     c_http_only = http_only, c_same_site = SSDefault \<rparr>"

definition example_jar :: cookie_jar where
  "example_jar = \<lparr> cookies = [example_cookie True True] \<rparr>"

lemmas literal_simps = starts_with_def to_ascii_lowercase_def ascii_lower_char_def eq_ignore_ascii_case_def

lemma example_host [simp]: "canonicalize_host (example_url s) = Some ''a.test''"
  by (simp add: example_url_def canonicalize_host_def canonical_host_def literal_simps)

lemma example_trustworthy [simp]:
  "op_trustworthy example_crates (example_op ''https'' k)" "\<not> op_trustworthy example_crates (example_op ''http'' k)"
  by (simp_all add: example_op_def example_url_def is_potentially_trustworthy_def is_trustworthy_origin_def
      is_localhost_def Let_def trim_end_matches_def literal_simps ends_with_def)

lemma example_jar_inv: "jar_inv example_crates example_jar"
  by (simp add: example_jar_def example_cookie_def jar_inv_def jar_core_def jar_caps_def domain_count_def
      cookie_ok_def identity_def has_ctl_excluding_htab_def cookie_prefixes_ok_def literal_simps
      MAX_COOKIES_def MAX_COOKIES_PER_DOMAIN_def)

section \<open>Properties\<close>

text \<open>
  \<^bold>\<open>C3.\<close> Whatever sequence of \<open>Set-Cookie\<close> lines, requests, queries, restores and clears a jar goes
  through, with any clock: no two cookies share name, domain, host-only flag and path; at
  most 50 cookies per domain and 3000 in all are kept; and every cookie obeys the
  storage-model rules (a sendable name and value, a rooted path, \<open>SameSite=None\<close> only with
  \<open>Secure\<close>, no domain cookie on a public suffix, the \<open>__Secure-\<close> and \<open>__Host-\<close> requirements).
\<close>

theorem cookie_jar_reach:
  "jar_inv cx (fold (jar_step cx) ops jar_default)"
  using jar_default_inv by (rule jar_fold_inv)

text \<open>
  \<^bold>\<open>C4.\<close> The \<open>Cookie\<close> header equals its reference: the pairs of the live matching cookies joined
  by \<open>"; "\<close>, longest path first and older first within one path length (stable); the only
  other effects are that expired cookies go and that the sent cookies' access time is set.
\<close>

theorem cookie_string_reference:
  "fst (cookie_string cx op j) = join ''; '' (map cookie_pair (sent_cookies cx op j)) \<and>
   cookies (snd (cookie_string cx op j)) = map (touched cx op) (filter (not_expired (op_now op)) (cookies j)) \<and>
   sorted (map (\<lambda>c. (- int (length (c_path c)), c_created c)) (sent_cookies cx op j))"
  by (simp add: cookie_string_eq sent_cookies_def split: option.split)

lemma sent_cookiesD:
  assumes "c \<in> set (sent_cookies cx op j)"
  obtains h where "canonicalize_host (op_url op) = Some h" "c \<in> set (cookies j)" "not_expired (op_now op) c"
    "cookie_matches cx c h (u_path (op_url op)) op (op_trustworthy cx op)"
  using assms by (cases "canonicalize_host (op_url op)") (auto simp: sent_cookies_def)

text \<open>
  \<^bold>\<open>C15.\<close> A cross-site request other than a safe top-level navigation carries only \<open>SameSite=None\<close>
  cookies, all of them \<open>Secure\<close>; so to a URL that is not potentially trustworthy it carries
  none at all, and script never sees an \<open>HttpOnly\<close> cookie.
\<close>

theorem cross_site_requests_carry_only_none:
  assumes "jar_inv cx j"
    and "\<not> is_same_site_request cx op" "op_initiator_kind op \<noteq> Navigation \<or> \<not> op_method_is_safe op"
  shows "(\<forall>c \<in> set (sent_cookies cx op j). c_same_site c = SSNone \<and> c_secure c \<and>
      (op_kind op = NonHttp \<longrightarrow> \<not> c_http_only c)) \<and>
    (\<not> op_trustworthy cx op \<longrightarrow> fst (cookie_string cx op j) = [])"
proof (rule conjI)
  have main: "c_same_site c = SSNone \<and> c_secure c \<and> op_trustworthy cx op \<and> (op_kind op = NonHttp \<longrightarrow> \<not> c_http_only c)"
    if c: "c \<in> set (sent_cookies cx op j)" for c
  proof -
    obtain h where c': "c \<in> set (cookies j)" "cookie_matches cx c h (u_path (op_url op)) op (op_trustworthy cx op)"
      using c by (rule sent_cookiesD)
    have "cookie_ok cx c" using assms(1) c'(1) by (auto simp: jar_inv_def jar_core_def list_all_iff)
    with c'(2) assms(2,3) show ?thesis
      by (cases "c_same_site c")
        (auto simp: cookie_matches_def samesite_allows_def cookie_ok_def Let_def split: if_splits)
  qed
  then show "\<forall>c \<in> set (sent_cookies cx op j). c_same_site c = SSNone \<and> c_secure c \<and>
      (op_kind op = NonHttp \<longrightarrow> \<not> c_http_only c)" by blast
  show "\<not> op_trustworthy cx op \<longrightarrow> fst (cookie_string cx op j) = []"
  proof
    assume that: "\<not> op_trustworthy cx op"
    have "sent_cookies cx op j = []" using main that by (metis list.set_intros(1) neq_Nil_conv)
    then show "fst (cookie_string cx op j) = []" by (simp add: cookie_string_eq)
  qed
qed

theorem cross_site_requests_carry_only_none_witness:
  "fst (cookie_string example_crates ((example_op ''http'' Http)\<lparr>op_cross_site_redirect := True\<rparr>) example_jar) = []"
proof -
  have "\<not> op_trustworthy example_crates ((example_op ''http'' Http)\<lparr>op_cross_site_redirect := True\<rparr>)"
    using example_trustworthy(2)[of Http] by (simp add: example_op_def)
  then show ?thesis
    using cross_site_requests_carry_only_none[where op = "(example_op ''http'' Http)\<lparr>op_cross_site_redirect := True\<rparr>",
        OF example_jar_inv, THEN conjunct2]
    by (simp add: is_same_site_request_def example_op_def)
qed



text \<open>
  \<^bold>\<open>C16.\<close> A response from a URL that is not potentially trustworthy cannot set or overwrite a \<open>Secure\<close>
  cookie. Nor can it delete one that has room: a live \<open>Secure\<close> cookie stays when fewer than 50 live cookies have its
  domain and the jar has fewer than 3000 live cookies. (Beyond these caps eviction may remove it.) And the cookie it does set
  never shadows a live \<open>Secure\<close> one: not one of the same name, with a domain that matches the new cookie's or is matched by
  it, and a path that the new path matches.
\<close>

theorem insecure_store_keeps_secure:
  assumes "\<not> op_trustworthy cx op"
  shows "(\<forall>c \<in> set (cookies (snd (jar_store cx line op j))). c_secure c \<longrightarrow> c \<in> set (cookies j)) \<and>
    (\<forall>c \<in> set (cookies j). not_expired (op_now op) c \<and> c_secure c \<and> has_room (op_now op) j c \<longrightarrow>
      c \<in> set (cookies (snd (jar_store cx line op j)))) \<and>
    (\<forall>c \<in> set (cookies (snd (jar_store cx line op j))) - set (cookies j). \<forall>old \<in> set (cookies j).
      not_expired (op_now op) old \<and> c_secure old \<and> c_name old = c_name c \<and>
      (domain_match (c_domain c) (c_domain old) \<or> domain_match (c_domain old) (c_domain c)) \<longrightarrow>
      \<not> path_match (c_path c) (c_path old))"
proof (rule conjI[OF _ conjI])
  have n: "\<not> c_secure n \<and> \<not> overlays_secure_cookie (filter (not_expired (op_now op)) (cookies j)) (c_name n)
      (c_domain n) (c_path n) False"
    if "receive_cookie cx p op (filter (not_expired (op_now op)) (cookies j)) (op_trustworthy cx op) = Some n" for p n
    using that assms by (elim receive_cookie_Some) auto
  have same: "domain_match d d" "path_match q q" for d q
    by (simp_all add: domain_match_def eq_ignore_ascii_case_def path_match_def)
  have *: "\<not> c_secure n \<and> (\<forall>old \<in> set (cookies j). not_expired (op_now op) old \<and> identity old = identity n \<longrightarrow> \<not> c_secure old)"
    if "receive_cookie cx p op (filter (not_expired (op_now op)) (cookies j)) (op_trustworthy cx op) = Some n" for p n
    using n[OF that] same by (auto simp: overlays_secure_cookie_def list_ex_iff identity_def)
  then have **: "\<forall>p n. receive_cookie cx p op (filter (not_expired (op_now op)) (cookies j)) (op_trustworthy cx op) = Some n \<longrightarrow>
      \<not> c_secure n \<and> (\<forall>old \<in> set (cookies j). not_expired (op_now op) old \<and> identity old = identity n \<longrightarrow> \<not> c_secure old)"
    by blast
  show "\<forall>c \<in> set (cookies (snd (jar_store cx line op j))). c_secure c \<longrightarrow> c \<in> set (cookies j)"
    using store_preserves(1)[where Q = c_secure, OF **] by blast
  show "\<forall>c \<in> set (cookies j). not_expired (op_now op) c \<and> c_secure c \<and> has_room (op_now op) j c \<longrightarrow>
      c \<in> set (cookies (snd (jar_store cx line op j)))"
    using store_preserves(2)[where Q = c_secure, OF **] by blast
  show "\<forall>c \<in> set (cookies (snd (jar_store cx line op j))) - set (cookies j). \<forall>old \<in> set (cookies j).
      not_expired (op_now op) old \<and> c_secure old \<and> c_name old = c_name c \<and>
      (domain_match (c_domain c) (c_domain old) \<or> domain_match (c_domain old) (c_domain c)) \<longrightarrow>
      \<not> path_match (c_path c) (c_path old)"
  proof (cases rule: jar_store_cases[of cx line op j])
    case rejected
    then show ?thesis by (auto simp: evict_expired_def)
  next
    case (stored p c)
    have "set (cookies (snd (jar_store cx line op j))) - set (cookies j) \<subseteq> {c}"
      using stored(4) evict_subset by (fastforce simp: Let_def split: if_splits)
    with n[OF stored(2)] show ?thesis by (auto simp: overlays_secure_cookie_def list_ex_iff)
  qed
qed

theorem insecure_store_keeps_secure_witness:
  "example_cookie True True \<in>
     set (cookies (snd (jar_store example_crates ''a=x'' (example_op ''http'' Http) example_jar)))"
  using insecure_store_keeps_secure[OF example_trustworthy(2)[of Http], THEN conjunct2, THEN conjunct1, of example_jar "''a=x''"]
  by (simp add: example_jar_def example_op_def has_room_def MAX_COOKIES_def MAX_COOKIES_PER_DOMAIN_def not_expired_def example_cookie_def)

text \<open>
  Lifetimes. A cookie a store adds expires strictly after now and at most 400 days
  after it (or with the session); and a line whose \<open>Max-Age\<close> is zero or negative deletes: after
  it no cookie of that identity is left.
\<close>

theorem store_lifetime:
  assumes "fst (jar_store cx line op j)"
  shows "(\<forall>c \<in> set (cookies (snd (jar_store cx line op j))) - set (cookies j).
      (case c_expiry c of None \<Rightarrow> True | Some e \<Rightarrow> op_now op < e \<and> e \<le> op_now op + MAX_LIFETIME)) \<and>
    (parse_set_cookie line = Some p \<and> p_max_age p = Some n \<and> n \<le> 0 \<longrightarrow>
      (\<exists>c. receive_cookie cx p op (filter (not_expired (op_now op)) (cookies j)) (op_trustworthy cx op) = Some c \<and>
        identity c \<notin> identity ` set (cookies (snd (jar_store cx line op j)))))"
proof (rule conjI)
  obtain p' c where st: "parse_set_cookie line = Some p'"
      "receive_cookie cx p' op (filter (not_expired (op_now op)) (cookies j)) (op_trustworthy cx op) = Some c"
      "cookies (snd (jar_store cx line op j)) =
         (let rest = filter (\<lambda>old. identity old \<noteq> identity c) (filter (not_expired (op_now op)) (cookies j))
          in if not_expired (op_now op) c then evict_total (evict_domains (rest @ [c])) else rest)"
    using assms by (cases rule: jar_store_cases[of cx line op j]) auto
  have e: "c_expiry c = cookie_expiry p' (op_now op)" using st(2) by (elim receive_cookie_Some) blast
  have new: "set (cookies (snd (jar_store cx line op j))) - set (cookies j) \<subseteq> (if not_expired (op_now op) c then {c} else {})"
    using st(3) evict_subset by (fastforce simp: Let_def split: if_splits)
  have "0 < MAX_LIFETIME" by (simp add: MAX_LIFETIME_def)
  then have "x \<le> op_now op + MAX_LIFETIME" if "c_expiry c = Some x" for x
    using that by (auto simp: e cookie_expiry_def split: option.splits if_splits)
  with new show "\<forall>c \<in> set (cookies (snd (jar_store cx line op j))) - set (cookies j).
      (case c_expiry c of None \<Rightarrow> True | Some e \<Rightarrow> op_now op < e \<and> e \<le> op_now op + MAX_LIFETIME)"
    by (auto simp: not_expired_def split: if_splits option.splits)
  show "parse_set_cookie line = Some p \<and> p_max_age p = Some n \<and> n \<le> 0 \<longrightarrow>
      (\<exists>c. receive_cookie cx p op (filter (not_expired (op_now op)) (cookies j)) (op_trustworthy cx op) = Some c \<and>
        identity c \<notin> identity ` set (cookies (snd (jar_store cx line op j))))"
  proof
    assume "parse_set_cookie line = Some p \<and> p_max_age p = Some n \<and> n \<le> 0"
    then have p: "p' = p" "\<not> not_expired (op_now op) c"
      using st(1) e by (auto simp: cookie_expiry_def not_expired_def)
    with st(2,3) show "\<exists>c. receive_cookie cx p op (filter (not_expired (op_now op)) (cookies j)) (op_trustworthy cx op) = Some c \<and>
        identity c \<notin> identity ` set (cookies (snd (jar_store cx line op j)))"
      by (intro exI[of _ c]) (auto simp: Let_def)
  qed
qed

lemma example_parse:
  "parse_set_cookie ''a=; Max-Age=0'' = Some \<lparr> p_name = ''a'', p_value = [], p_max_age = Some 0, p_expires = None,
     p_domain = None, p_path = None, p_secure = False, p_http_only = False, p_same_site = None \<rparr>"
proof -
  have "parse_max_age ''0'' = Some 0"
    by (simp add: parse_max_age_def strip_prefix_def starts_with_def is_ascii_digit_def parse_signed_def
        digits_val_def digit_val_def i64_min_def i64_max_def)
  then show ?thesis
    by (simp add: parse_set_cookie_def has_ctl_excluding_htab_def trim_def trim_start_def trim_end_def apply_attr_def
        split_attr_def literal_simps)
qed

lemma example_store: "fst (jar_store example_crates ''a=; Max-Age=0'' (example_op ''https'' Http) example_jar)"
proof -
  have "receive_cookie example_crates \<lparr> p_name = ''a'', p_value = [], p_max_age = Some 0, p_expires = None,
     p_domain = None, p_path = None, p_secure = False, p_http_only = False, p_same_site = None \<rparr>
     (example_op ''https'' Http) [example_cookie True True] True \<noteq> None"
    by (simp add: receive_cookie_def example_op_def cookie_scope_def Let_def is_same_site_request_def
        cookie_prefixes_ok_def literal_simps default_path_def rfind_def split: option.split)
  then show ?thesis
    using example_trustworthy(1)[of Http]
    by (auto simp: jar_store_def example_parse example_jar_def evict_expired_def Let_def not_expired_def
        example_cookie_def example_op_def split: option.split)
qed

theorem store_lifetime_witness:
  "\<exists>c. identity c = identity (example_cookie True True) \<and>
     identity c \<notin> identity ` set (cookies (snd (jar_store example_crates ''a=; Max-Age=0'' (example_op ''https'' Http) example_jar)))"
proof -
  let ?p = "\<lparr> p_name = ''a'', p_value = [], p_max_age = Some 0, p_expires = None,
     p_domain = None, p_path = None, p_secure = False, p_http_only = False, p_same_site = None \<rparr>"
  obtain c where c: "receive_cookie example_crates ?p (example_op ''https'' Http) (filter (not_expired (op_now (example_op ''https'' Http))) (cookies example_jar))
      (op_trustworthy example_crates (example_op ''https'' Http)) = Some c"
    "identity c \<notin> identity ` set (cookies (snd (jar_store example_crates ''a=; Max-Age=0'' (example_op ''https'' Http) example_jar)))"
    using store_lifetime[OF example_store, THEN conjunct2, of ?p 0] example_parse by auto
  have "canonicalize_host (op_url (example_op ''https'' Http)) = Some ''a.test''" by (simp add: example_op_def)
  then have "identity c = identity (example_cookie True True)"
    using c(1) by (elim receive_cookie_Some)
      (auto simp: identity_def example_cookie_def cookie_scope_def default_path_def rfind_def example_op_def
        example_url_def starts_with_def)
  with c(2) show ?thesis by blast
qed

section \<open>Eviction order\<close>

definition evict_key :: "bool \<Rightarrow> stored_cookie \<Rightarrow> bool \<times> int \<times> int" where
  "evict_key any c = (\<not> any \<and> c_secure c, c_last_access c, c_created c)"

lemma evict_before_key: "evict_before any a b \<longleftrightarrow> evict_key any a < evict_key any b"
  by (auto simp: evict_before_def evict_key_def Let_def less_prod_def)

lemma foldl_first_min:
  fixes k :: "'a \<Rightarrow> 'b :: linorder"
  defines "m \<equiv> \<lambda>x xs. foldl (\<lambda>best y. if k y < k best then y else best) x xs"
  shows "\<forall>y \<in> set (x # xs). k (m x xs) \<le> k y"
  unfolding m_def
proof (induction xs arbitrary: x)
  case (Cons y ys)
  show ?case using Cons[of y] Cons[of x] by (auto split: if_splits)
qed simp

text \<open>
  The victim of an eviction. For the per-domain cap it is a cookie of that domain, and a
  \<open>Secure\<close> cookie is evicted only when the domain has no other kind; among those it is the
  least recently used, the oldest one first. For the total cap only the age counts.
\<close>

theorem evict_one_victim:
  assumes "evict_one cs domain = (True, cs')"
  shows "\<exists>i < length cs. cs' = take i cs @ drop (Suc i) cs \<and>
    (case domain of None \<Rightarrow> True | Some d \<Rightarrow> c_domain (cs ! i) = d) \<and>
    (\<forall>c \<in> set cs. (case domain of None \<Rightarrow> True | Some d \<Rightarrow> c_domain c = d) \<longrightarrow>
       (domain \<noteq> None \<and> c_secure (cs ! i) \<longrightarrow> c_secure c) \<and>
       (domain = None \<or> c_secure c = c_secure (cs ! i) \<longrightarrow>
          c_last_access (cs ! i) < c_last_access c \<or>
          c_last_access (cs ! i) = c_last_access c \<and> c_created (cs ! i) \<le> c_created c))"
proof -
  define P where "P c = (case domain of None \<Rightarrow> True | Some d \<Rightarrow> c_domain c = d)" for c :: stored_cookie
  obtain x xs where f: "filter (\<lambda>(i, c). P c) (enumerate 0 cs) = x # xs"
    using assms by (auto simp: evict_one_def P_def split: list.splits)
  define b where "b = foldl (\<lambda>best y. if evict_key (domain = None) (snd y) < evict_key (domain = None) (snd best) then y else best) x xs"
  have b: "b \<in> set (x # xs)" unfolding b_def by (rule foldl_pick_mem)
  have mem: "y \<in> set (x # xs) \<longleftrightarrow> fst y < length cs \<and> snd y = cs ! fst y \<and> P (snd y)" for y
    unfolding f[symmetric] by (auto simp: in_set_enumerate_eq case_prod_unfold)
  have min: "evict_key (domain = None) (cs ! fst b) \<le> evict_key (domain = None) c" if c: "c \<in> set cs" "P c" for c
  proof -
    obtain i where "i < length cs" "cs ! i = c" using c(1) by (metis in_set_conv_nth)
    then have "(i, c) \<in> set (x # xs)" unfolding mem using c(2) by simp
    from bspec[OF foldl_first_min[of x xs "\<lambda>y. evict_key (domain = None) (snd y)"] this]
    have "evict_key (domain = None) (snd b) \<le> evict_key (domain = None) c" by (simp add: b_def)
    moreover have "snd b = cs ! fst b" using b mem by blast
    ultimately show ?thesis by simp
  qed
  have "cs' = take (fst b) cs @ drop (Suc (fst b)) cs"
    using assms f by (simp add: evict_one_def b_def evict_before_key P_def Let_def case_prod_unfold)
  moreover have "fst b < length cs" "P (cs ! fst b)" using b mem by auto
  moreover have "(domain \<noteq> None \<and> c_secure (cs ! fst b) \<longrightarrow> c_secure c) \<and>
      (domain = None \<or> c_secure c = c_secure (cs ! fst b) \<longrightarrow>
        c_last_access (cs ! fst b) < c_last_access c \<or>
        c_last_access (cs ! fst b) = c_last_access c \<and> c_created (cs ! fst b) \<le> c_created c)"
    if "c \<in> set cs" "P c" for c
    using min[OF that] by (auto simp: evict_key_def less_eq_prod_def)
  ultimately show ?thesis unfolding P_def by blast
qed

theorem evict_one_victim_witness:
  "\<exists>i < 2. [example_cookie True True] =
     take i [example_cookie True True, example_cookie False True] @ drop (Suc i) [example_cookie True True, example_cookie False True]"
proof -
  have "evict_one [example_cookie True True, example_cookie False True] (Some ''a.test'') = (True, [example_cookie True True])"
    by (simp add: evict_one_def example_cookie_def evict_before_def)
  then obtain i where "i < length [example_cookie True True, example_cookie False True]"
    "[example_cookie True True] =
     take i [example_cookie True True, example_cookie False True] @ drop (Suc i) [example_cookie True True, example_cookie False True]"
    using evict_one_victim by blast
  then show ?thesis by (intro exI[of _ i]) simp
qed

section \<open>Persistence\<close>

text \<open>
  What a restore relies on for a persistent cookie: its lifetime is still within bounds and
  its domain is the canonical one the jar writes (a host the URL parser produced parses
  back to itself).
\<close>

definition restorable :: "crates \<Rightarrow> system_time \<Rightarrow> stored_cookie \<Rightarrow> bool" where
  "restorable cx now c \<longleftrightarrow>
     (\<exists>e. c_expiry c = Some e \<and> now < e \<and> e \<le> now + MAX_LIFETIME) \<and>
     (case parse_ip_addr (c_domain c) of
        Some ip \<Rightarrow> show_ip ip = c_domain c \<and> c_host_only c
      | None \<Rightarrow> canonicalize_domain_attr cx (c_domain c) = Some (c_domain c))"

definition overlay_free :: "stored_cookie list \<Rightarrow> bool" where
  "overlay_free cs \<longleftrightarrow> (\<forall>c \<in> set cs. \<not> overlays_secure_cookie cs (c_name c) (c_domain c) (c_path c) (c_secure c))"

lemma same_site_roundtrip [simp]: "same_site_from (cookie_same_site_from ss) = ss"
  by (cases ss) simp_all

lemma record_fields [simp]:
  "r_name (cookie_to_record c) = c_name c" "r_value (cookie_to_record c) = c_value c"
  "r_expiry (cookie_to_record c) = c_expiry c" "r_domain (cookie_to_record c) = c_domain c"
  "r_path (cookie_to_record c) = c_path c" "r_created (cookie_to_record c) = c_created c"
  "r_last_access (cookie_to_record c) = c_last_access c" "r_host_only (cookie_to_record c) = c_host_only c"
  "r_secure (cookie_to_record c) = c_secure c" "r_http_only (cookie_to_record c) = c_http_only c"
  "r_same_site (cookie_to_record c) = cookie_same_site_from (c_same_site c)"
  by (simp_all add: cookie_to_record_def)

lemma sanitize_record:
  assumes "restorable cx now c" "cookie_ok cx c"
    and "\<not> overlays_secure_cookie live (c_name c) (c_domain c) (c_path c) (c_secure c)"
  shows "sanitize cx (cookie_to_record c) now live = Some c"
proof -
  obtain e where e: "c_expiry c = Some e" "now < e" "e \<le> now + MAX_LIFETIME"
    using assms(1) by (auto simp: restorable_def)
  have d: "(case parse_ip_addr (c_domain c) of Some ip \<Rightarrow> Some (show_ip ip)
      | None \<Rightarrow> canonicalize_domain_attr cx (c_domain c)) = Some (c_domain c)"
    using assms(1) by (auto simp: restorable_def split: option.splits)
  have ho: "c_host_only c \<or> \<not> is_ip (c_domain c)"
    using assms(1) by (auto simp: restorable_def is_ip_def split: option.splits)
  show ?thesis
    using assms(2,3) e ho unfolding sanitize_def record_fields d option.case cookie_ok_def
    by (simp add: min_def Let_def) blast
qed

lemma overlays_mono:
  "set live \<subseteq> set cs \<Longrightarrow> overlays_secure_cookie live n d p s \<Longrightarrow> overlays_secure_cookie cs n d p s"
  by (auto simp: overlays_secure_cookie_def list_ex_iff)

lemma restore_records:
  assumes "list_all (restorable cx now) (done @ cs)" "list_all (cookie_ok cx) (done @ cs)"
    and "overlay_free (done @ cs)" "distinct (map identity (done @ cs))"
  shows "foldl (restore_record cx now) \<lparr> cookies = done \<rparr> (map cookie_to_record cs) = \<lparr> cookies = done @ cs \<rparr>"
  using assms
proof (induction cs arbitrary: "done")
  case (Cons c cs)
  have "\<not> overlays_secure_cookie done (c_name c) (c_domain c) (c_path c) (c_secure c)"
    using Cons.prems(3) overlays_mono[of "done" "done @ c # cs"] by (auto simp: overlay_free_def)
  then have "sanitize cx (cookie_to_record c) now done = Some c"
    using Cons.prems(1,2) by (intro sanitize_record) simp_all
  moreover have "filter (\<lambda>old. identity old \<noteq> identity c) done = done"
    using Cons.prems(4) by (intro filter_True) (force simp: image_iff)
  ultimately have "restore_record cx now \<lparr> cookies = done \<rparr> (cookie_to_record c) = \<lparr> cookies = done @ [c] \<rparr>"
    by (simp add: restore_record_def)
  with Cons.IH[of "done @ [c]"] Cons.prems show ?case by simp
qed simp

lemma evict_caps_noop:
  assumes "jar_caps cs"
  shows "evict_total (evict_domains cs) = cs"
proof -
  have "over_quota_domain cs = None"
  proof (rule ccontr)
    assume "over_quota_domain cs \<noteq> None"
    then obtain d where d: "count_over (\<lambda>_. 0) cs = Some d" by (auto simp: over_quota_domain_def split: if_splits)
    have "count_over counts cs = Some d \<Longrightarrow> MAX_COOKIES_PER_DOMAIN < counts d + domain_count d cs" for counts
      by (induction cs arbitrary: counts) (force simp: domain_count_def Let_def split: if_splits)+
    from this[OF d] assms show False by (simp add: jar_caps_def leD)
  qed
  then show ?thesis using assms by (simp add: evict_domains.simps evict_total.simps jar_caps_def)
qed

text \<open>
  Saving and loading a profile keeps its persistent cookies: restoring the snapshot of a
  jar into a fresh one gives exactly the persistent cookies back, in order, with every
  field. It needs their domains to be canonical, their lifetimes in bounds, and no
  non-\<open>Secure\<close> cookie to overlay a \<open>Secure\<close> one (restore refuses those).
\<close>

theorem snapshot_restore:
  assumes "jar_inv cx j"
    and "list_all (restorable cx now) (filter (\<lambda>c. c_expiry c \<noteq> None) (cookies j))"
    and "overlay_free (filter (\<lambda>c. c_expiry c \<noteq> None) (cookies j))"
  shows "cookies (jar_restore cx (jar_snapshot j) now jar_default) = filter (\<lambda>c. c_expiry c \<noteq> None) (cookies j)"
proof -
  let ?cs = "filter (\<lambda>c. c_expiry c \<noteq> None) (cookies j)"
  have inv: "jar_inv cx (j\<lparr>cookies := ?cs\<rparr>)" by (rule jar_inv_filter[OF assms(1)])
  then have "foldl (restore_record cx now) \<lparr> cookies = [] \<rparr> (map cookie_to_record ?cs) = \<lparr> cookies = [] @ ?cs \<rparr>"
    using assms(2,3) by (intro restore_records) (auto simp: jar_inv_def jar_core_def)
  then show ?thesis
    using inv by (simp add: jar_restore_def jar_snapshot_def jar_default_def evict_expired_def evict_excess_def
        evict_caps_noop jar_inv_def)
qed

theorem snapshot_restore_witness:
  "cookies (jar_restore example_crates (jar_snapshot example_jar) 0 jar_default) = [example_cookie True True]"
proof -
  have "parse_ip_addr ''a.test'' = None"
    by (simp add: parse_ip_addr_def read_ipv4_addr_def read_octet_def read_separator_def read_number_def to_digit_def
        Let_def read_ipv6_addr_def read_groups.simps read_given_char_def)
  then have "restorable example_crates 0 (example_cookie True True)"
    by (simp add: restorable_def example_cookie_def MAX_LIFETIME_def canonicalize_domain_attr_def strip_prefix_def
        starts_with_def example_crates_def)
  then show ?thesis
    using snapshot_restore[OF example_jar_inv, of 0]
    by (simp add: example_jar_def overlay_free_def overlays_secure_cookie_def) (simp add: example_cookie_def)
qed

end
