(* ===== verification/Cookie_Rules_Props.thy ===== *)
theory Cookie_Rules_Props
  imports Cookie_Jar
begin

text \<open>
  The pure rules of the cookie crate: cookie dates against the calendar, path and domain
  matching against their definitions, and site identity.
\<close>

section \<open>Dates\<close>

abbreviation valid_date :: "int \<times> int \<times> int \<Rightarrow> bool" where
  "valid_date \<equiv> \<lambda>(y, m, d). 1 \<le> m \<and> m \<le> 12 \<and> 1 \<le> d \<and> d \<le> the (days_in_month y m)"

lemma days_in_month_Some: "1 \<le> m \<Longrightarrow> m \<le> 12 \<Longrightarrow> \<exists>n. days_in_month y m = Some n"
  using month_cases[of m] by (auto simp: days_in_month_def)

lemma days_in_month_1: "1 \<le> m \<Longrightarrow> m \<le> 12 \<Longrightarrow> 28 \<le> the (days_in_month y m) \<and> the (days_in_month y m) \<le> 31"
  using days_in_month_Some[of m y] days_in_month_bounds[of y m] by auto

lemma next_date_valid: "valid_date x \<Longrightarrow> valid_date (next_date x)"
  using days_in_month_1[of "fst (snd x) + 1" "fst x"] days_in_month_1[of 1 "fst x + 1"]
  by (auto simp: next_date_def split: prod.splits)

lemma next_date_year: "fst (next_date x) = fst x \<or> fst (next_date x) = fst x + 1"
  by (auto simp: next_date_def split: prod.splits)

lemma date_walk:
  "valid_date ((next_date ^^ n) (1970, 1, 1)) \<and>
   1970 \<le> fst ((next_date ^^ n) (1970, 1, 1)) \<and> fst ((next_date ^^ n) (1970, 1, 1)) \<le> 1970 + int n \<and>
   (case (next_date ^^ n) (1970, 1, 1) of (y, m, d) \<Rightarrow> civil_days y m d) = int n"
proof (induction n)
  case 0
  show ?case by (simp add: days_in_month_def civil_days_def)
next
  case (Suc n)
  obtain y m d where x: "(next_date ^^ n) (1970, 1, 1) = (y, m, d)" by (cases "(next_date ^^ n) (1970, 1, 1)")
  show ?case
    using Suc next_date_valid[of "(y, m, d)"] next_date_year[of "(y, m, d)"] civil_days_next[of m d y]
    by (auto simp: x split: prod.splits)
qed

text \<open>
  \<open>civil_to_system\<close> agrees with the calendar: walking day by day from 1 January 1970
  through months and leap years, the n-th day starts exactly n times 86400 seconds after the
  epoch, and no checked operation fails (for two thousand million days).
\<close>

theorem civil_to_system_calendar:
  assumes "n < 2 ^ 31 - 1970"
  shows "(case (next_date ^^ n) (1970, 1, 1) of (y, m, d) \<Rightarrow> civil_to_system y m d 0 0 0) =
    Some (int n * 86400 * nanos)"
proof -
  obtain y m d where x: "(next_date ^^ n) (1970, 1, 1) = (y, m, d)" by (cases "(next_date ^^ n) (1970, 1, 1)")
  have "int n < 2 ^ 31 - 1970" using assms by simp
  then show ?thesis
    using date_walk[of n] days_in_month_1[of m y] civil_to_system_eq[of m d 0 0 0 y]
    by (simp add: x valid_time_def)
qed

theorem civil_to_system_calendar_witness:
  "civil_to_system 1970 3 1 0 0 0 = Some (59 * 86400 * nanos)"
proof -
  have "(next_date ^^ 59) (1970, 1, 1) = (1970, 3, 1)"
    by (simp add: numeral_eq_Suc next_date_def days_in_month_def)
  then show ?thesis using civil_to_system_calendar[of 59] by simp
qed

text \<open>
  Every date a conforming server prints (IMF-fixdate, years 1601 to 9999) parses to the
  instant it names.
\<close>

theorem imf_date_parses:
  assumes "wd \<in> set weekdays" "days_in_month y m = Some n" "1 \<le> d" "d \<le> n" "1601 \<le> y" "y < 10000"
    and "valid_time h mi s"
  shows "parse_cookie_date (imf_date wd y m d h mi s) = civil_to_system y m d h mi s \<and>
    civil_to_system y m d h mi s \<noteq> None"
  using parse_imf[OF assms] civil_to_system_eq[of m d h mi s y] days_in_month_bounds[OF assms(2)] assms
  by simp

theorem imf_date_parses_witness:
  "parse_cookie_date (imf_date ''Sun'' 1994 11 6 8 49 37) = civil_to_system 1994 11 6 8 49 37"
  using imf_date_parses[of "''Sun''" 1994 11 30 6 8 49 37]
  by (simp add: weekdays_def days_in_month_def valid_time_def)

section \<open>Paths\<close>

text \<open>
  Path matching is the prefix relation cut at a slash, and the default path of a request
  URI is rooted and matches that URI.
\<close>

theorem path_match_spec:
  "(path_match r c \<longleftrightarrow> r = c \<or> (\<exists>rest. r = c @ rest \<and> (ends_with c ''/'' \<or> starts_with rest ''/''))) \<and>
   starts_with (default_path r) ''/'' \<and>
   (starts_with r ''/'' \<longrightarrow> path_match r (default_path r))"
proof -
  have pre: "starts_with r p \<longleftrightarrow> (\<exists>rest. r = p @ rest)" for r p
    by (metis starts_with_def append_eq_conv_conj append_take_drop_id)
  have nth: "nth_opt (c @ rest) (length c) = Some CHR ''/'' \<longleftrightarrow> starts_with rest ''/''" for rest
    by (cases rest) (auto simp: nth_opt_def starts_with_def)
  have 1: "path_match r c \<longleftrightarrow> r = c \<or> (\<exists>rest. r = c @ rest \<and> (ends_with c ''/'' \<or> starts_with rest ''/''))"
    using nth by (auto simp: path_match_def pre)
  have 2: "starts_with (default_path r) ''/''"
    by (cases r) (auto simp: default_path_def starts_with_def take_Cons' split: option.split)
  have 3: "path_match r (default_path r)" if r: "starts_with r ''/''"
  proof (cases "rfind CHR ''/'' r")
    case None
    then show ?thesis using r by (auto simp: default_path_def path_match_def ends_with_def)
  next
    case (Some e)
    then have e: "e < length r" "r ! e = CHR ''/''" using rposition_Some[of _ r e] by (auto simp: rfind_def)
    show ?thesis
    proof (cases "e > 0")
      case True
      then show ?thesis using Some r e
        by (auto simp: default_path_def path_match_def starts_with_def nth_opt_def)
    next
      case False
      then show ?thesis using Some r by (auto simp: default_path_def path_match_def ends_with_def)
    qed
  qed
  from 1 2 3 show ?thesis by blast
qed

theorem path_match_spec_witness:
  "path_match ''/a/b'' (default_path ''/a/b'')"
  by (rule path_match_spec[THEN conjunct2, THEN conjunct2, THEN mp]) (simp add: starts_with_def)

section \<open>Domains\<close>

text \<open>
  Domain matching: a host matches a cookie domain exactly when they are equal up to ASCII
  case, or the host is not an IP address and is the domain with whole labels in front.
  So an IPv4 host matches no domain but itself.
\<close>

theorem domain_match_spec:
  "(domain_match h d \<longleftrightarrow> to_ascii_lowercase h = to_ascii_lowercase d \<or>
     (\<not> is_ip h \<and> (\<exists>labels. to_ascii_lowercase h = labels @ ''.'' @ to_ascii_lowercase d))) \<and>
   (domain_match (show_ipv4 a b c e) d \<longrightarrow> to_ascii_lowercase (show_ipv4 a b c e) = to_ascii_lowercase d)"
proof -
  have dot: "ascii_lower_char x = CHR ''.'' \<longleftrightarrow> x = CHR ''.''" for x
    by (auto simp: ascii_lower_char_def char_of_eq_iff take_bit_eq_mod)
  have suffix: "(length h > length d \<and> h ! (length h - length d - 1) = CHR ''.'' \<and>
      eq_ignore_ascii_case (drop (length h - length d) h) d) \<longleftrightarrow>
      (\<exists>labels. to_ascii_lowercase h = labels @ ''.'' @ to_ascii_lowercase d)" (is "?L \<longleftrightarrow> ?R")
  proof
    assume L: ?L
    define k where "k = length h - length d - 1"
    have k: "k < length h" "Suc k = length h - length d" using L by (auto simp: k_def)
    have "h = take k h @ h ! k # drop (Suc k) h" using k(1) by (simp add: id_take_nth_drop[symmetric])
    then have "to_ascii_lowercase h = to_ascii_lowercase (take k h) @ ascii_lower_char (h ! k) # to_ascii_lowercase (drop (Suc k) h)"
      by (metis to_ascii_lowercase_def list.simps(9) map_append)
    then show ?R using L dot k by (auto simp: k_def eq_ignore_ascii_case_def)
  next
    assume ?R
    then obtain labels where l: "to_ascii_lowercase h = labels @ ''.'' @ to_ascii_lowercase d" by blast
    have len: "length h = length labels + 1 + length d"
      using arg_cong[OF l, of length] by simp
    have "ascii_lower_char (h ! length labels) = CHR ''.''"
      using l len by (metis (no_types, lifting) append_Cons less_add_Suc1 nth_append_length nth_map to_ascii_lowercase_def
          add.assoc add.commute plus_1_eq_Suc trans_less_add1 lessI)
    moreover have "to_ascii_lowercase (drop (length labels + 1) h) = to_ascii_lowercase d"
      using arg_cong[OF l, of "drop (length labels + 1)"] by (simp add: to_ascii_lowercase_def drop_map)
    ultimately show ?L using len dot by (simp add: eq_ignore_ascii_case_def)
  qed
  have main: "domain_match h d \<longleftrightarrow> to_ascii_lowercase h = to_ascii_lowercase d \<or>
     (\<not> is_ip h \<and> (\<exists>labels. to_ascii_lowercase h = labels @ ''.'' @ to_ascii_lowercase d))"
    unfolding domain_match_def suffix by (auto simp: eq_ignore_ascii_case_def)
  have "is_ip (show_ipv4 a b c e)" by (simp add: is_ip_def parse_show_ipv4)
  then have "domain_match (show_ipv4 a b c e) d \<longrightarrow> to_ascii_lowercase (show_ipv4 a b c e) = to_ascii_lowercase d"
    by (auto simp: domain_match_def eq_ignore_ascii_case_def)
  with main show ?thesis by blast
qed

theorem domain_match_spec_witness:
  "\<not> domain_match (show_ipv4 10 0 0 1) ''0.0.1''"
  using domain_match_spec[of "[]" "''0.0.1''" 10 0 0 1]
  by (auto simp: show_ipv4_def show_nat.simps char_of_eq_iff to_ascii_lowercase_def ascii_lower_char_def
      dest!: arg_cong[of _ _ length])

section \<open>Sites\<close>

text \<open>
  Same-site is a partial equivalence on origins, the one induced by the printed site the
  renderer locks use: two origins are same-site exactly when both have a site and the two
  are the same string. An opaque origin is same-site with nothing, itself included, and for a
  URL whose origin is its own tuple both forms agree.
\<close>

theorem same_site_equivalence:
  "(origins_same_site cx a b \<longleftrightarrow> site_for_origin cx a \<noteq> None \<and> site_for_origin cx a = site_for_origin cx b) \<and>
   (origins_same_site cx a b \<longrightarrow> origins_same_site cx b a) \<and>
   (origins_same_site cx a b \<and> origins_same_site cx b c \<longrightarrow> origins_same_site cx a c) \<and>
   \<not> origins_same_site cx (Opaque n) b \<and>
   (u_origin u = Tuple (u_scheme u) h p \<and> u_host u = Some h \<longrightarrow> site cx u = site_for_origin cx (u_origin u))"
proof (intro conjI impI)
  show "origins_same_site cx a b \<longleftrightarrow> site_for_origin cx a \<noteq> None \<and> site_for_origin cx a = site_for_origin cx b"
    by (rule same_site_iff_site)
  show "origins_same_site cx b a" if "origins_same_site cx a b" using that by (simp add: origins_same_site_sym)
  show "origins_same_site cx a c" if "origins_same_site cx a b \<and> origins_same_site cx b c"
    using that origins_same_site_trans by blast
  show "\<not> origins_same_site cx (Opaque n) b" by (simp add: origins_same_site_def origin_site_tuple_def)
  show "site cx u = site_for_origin cx (u_origin u)"
    if "u_origin u = Tuple (u_scheme u) h p \<and> u_host u = Some h"
    using site_tuple_origin[of u h p cx] that by (simp add: site_def site_for_origin_def)
qed

theorem same_site_equivalence_witness:
  "origins_same_site \<lparr> psl_domain = (\<lambda>_. Some ''a.test''), psl_suffix = (\<lambda>_. None), host_parse = (\<lambda>_. None), url_parse = (\<lambda>_. None) \<rparr>
     (Tuple ''wss'' (Ipv4 1 2 3 4) 443) (Tuple ''https'' (Ipv4 1 2 3 4) 8443)"
proof -
  let ?cx = "\<lparr> psl_domain = (\<lambda>_. Some ''a.test''), psl_suffix = (\<lambda>_. None), host_parse = (\<lambda>_. None), url_parse = (\<lambda>_. None) \<rparr>"
  have "origins_same_site ?cx (Tuple ''https'' (Ipv4 1 2 3 4) 8443) (Tuple ''wss'' (Ipv4 1 2 3 4) 443)"
    by (simp add: origins_same_site_def origin_site_tuple_def site_scheme_def)
  then show ?thesis
    using same_site_equivalence[of ?cx "Tuple ''https'' (Ipv4 1 2 3 4) 8443" "Tuple ''wss'' (Ipv4 1 2 3 4) 443"] by blast
qed

end
