(* ===== verification/Http_Headers.thy ===== *)
theory Http_Headers
  imports Rust_Net
begin

text \<open>
  \<open>crates/net/src/protocol.rs\<close>: header list values, the ordered header map and the request
  method. The token grammars belong to the \<open>http\<close> crate: \<open>header_name_of\<close>,
  \<open>header_value_of\<close> and \<open>method_of\<close> are its parsers (\<open>from_bytes\<close>), which answer the parsed
  text or nothing. A character iterator over a string is a scan of its UTF-8 bytes: every
  character the code inspects is ASCII, and the bytes of the others are copied unchanged.
\<close>

record http_crate =
  header_name_of :: "string \<Rightarrow> string option"
  header_value_of :: "string \<Rightarrow> string option"
  method_of :: "string \<Rightarrow> string option"

section \<open>List values\<close>

abbreviation http_ws :: "char list" where
  "http_ws \<equiv> [CHR '' '', char_of (9 :: nat)]"

definition combined_header :: "string list \<Rightarrow> string option" where
  "combined_header vals =
     (let vals = map (trim_chars http_ws) vals in if vals = [] then None else Some (join '', '' vals))"

definition combined_header_in :: "(string \<times> string) list \<Rightarrow> string \<Rightarrow> string option" where
  "combined_header_in headers name =
     combined_header (map snd (filter (\<lambda>h. eq_ignore_ascii_case (fst h) name) headers))"

text \<open>The quoted text with its quotes and escapes, and the input after it.\<close>

fun collect_quoted_string :: "string \<Rightarrow> string \<times> string" where
  "collect_quoted_string [] = ([], [])"
| "collect_quoted_string (c # cs) =
     (if c = CHR ''\"'' then ([c], cs)
      else if c = CHR 92 then
        (case cs of
           [] \<Rightarrow> ([c], [])
         | e # cs' \<Rightarrow> (let (q, rest) = collect_quoted_string cs' in (c # e # q, rest)))
      else (let (q, rest) = collect_quoted_string cs in (c # q, rest)))"

lemma collect_quoted_append: "fst (collect_quoted_string s) @ snd (collect_quoted_string s) = s"
proof (induction s rule: collect_quoted_string.induct)
  case (2 c cs)
  consider "c = CHR ''\"''" | "c = CHR 92" "cs = []" | e cs' where "c = CHR 92" "cs = e # cs'"
    | "c \<noteq> CHR ''\"''" "c \<noteq> CHR 92" by (cases cs) blast+
  then show ?case
    using 2 by cases (simp_all add: case_prod_unfold Let_def)
qed simp

lemma collect_quoted_length: "length (snd (collect_quoted_string s)) \<le> length s"
  using arg_cong[OF collect_quoted_append[of s], of length] by simp

function split_members :: "string \<Rightarrow> string \<Rightarrow> string list" where
  "split_members member [] = [trim_chars http_ws member]"
| "split_members member (c # cs) =
     (if c = CHR '','' then trim_chars http_ws member # split_members [] cs
      else if c = CHR ''\"'' then
        (let (q, rest) = collect_quoted_string cs in split_members (member @ c # q) rest)
      else split_members (member @ [c]) cs)"
  by pat_completeness auto
termination
proof (relation "measure (length \<circ> snd)", goal_cases)
  case (3 member c cs x q rest)
  then have "rest = snd (collect_quoted_string cs)" by (metis snd_conv)
  then show ?case using collect_quoted_length[of cs] by simp
qed simp_all

definition split_header_value :: "string \<Rightarrow> string list" where
  "split_header_value v = split_members [] v"

section \<open>Isomorphic encoding\<close>

fun isomorphic_encode :: "string \<Rightarrow> string option" where
  "isomorphic_encode [] = Some []"
| "isomorphic_encode (c # cs) =
     (if byte c < 0x80 then map_option ((#) c) (isomorphic_encode cs)
      else
        (case cs of
           d # ds \<Rightarrow>
             if byte c = 0xC2 \<or> byte c = 0xC3
             then map_option ((#) (char_of ((byte c - 0xC0) * 64 + (byte d - 0x80)))) (isomorphic_encode ds)
             else None
         | [] \<Rightarrow> None))"

definition latin1_utf8 :: "char \<Rightarrow> string" where
  "latin1_utf8 c =
     (if byte c < 0x80 then [c] else [char_of (0xC0 + byte c div 64), char_of (0x80 + byte c mod 64)])"

definition isomorphic_decode :: "string \<Rightarrow> string" where
  "isomorphic_decode bytes = concat (map latin1_utf8 bytes)"

section \<open>The header map\<close>

datatype header_error = InvalidName string | InvalidValue string

record header_map =
  hm_entries :: "(string \<times> string) list"

definition hm_new :: header_map where
  "hm_new = \<lparr> hm_entries = [] \<rparr>"

definition hm_insert :: "http_crate \<Rightarrow> string \<Rightarrow> string \<Rightarrow> header_map \<Rightarrow> (header_error + unit) \<times> header_map" where
  "hm_insert hc name val m =
     (case header_name_of hc name of
        None \<Rightarrow> (Inl (InvalidName name), m)
      | Some n \<Rightarrow>
          (case header_value_of hc val of
             None \<Rightarrow> (Inl (InvalidValue (from_utf8_lossy val)), m)
           | Some v \<Rightarrow> (Inr (), m\<lparr>hm_entries := hm_entries m @ [(n, v)]\<rparr>)))"

definition hm_append :: "string \<Rightarrow> string \<Rightarrow> header_map \<Rightarrow> header_map" where
  "hm_append name val m = m\<lparr>hm_entries := hm_entries m @ [(name, val)]\<rparr>"

fun set_entries ::
  "string \<Rightarrow> string option \<Rightarrow> (string \<times> string) list \<Rightarrow> (string \<times> string) list \<times> string option" where
  "set_entries name repl [] = ([], repl)"
| "set_entries name repl (e # es) =
     (if fst e \<noteq> name then (let (es', r) = set_entries name repl es in (e # es', r))
      else
        (case repl of
           Some v \<Rightarrow> (let (es', r) = set_entries name None es in ((name, v) # es', r))
         | None \<Rightarrow> set_entries name None es))"

definition hm_set :: "string \<Rightarrow> string \<Rightarrow> header_map \<Rightarrow> header_map" where
  "hm_set name val m =
     (let (es, repl) = set_entries name (Some val) (hm_entries m)
      in m\<lparr>hm_entries := (case repl of Some v \<Rightarrow> es @ [(name, v)] | None \<Rightarrow> es)\<rparr>)"

definition hm_insert_wire :: "string \<Rightarrow> string \<Rightarrow> header_map \<Rightarrow> header_map" where
  "hm_insert_wire name val m = m\<lparr>hm_entries := hm_entries m @ [(name, val)]\<rparr>"

definition hm_remove :: "string \<Rightarrow> header_map \<Rightarrow> header_map" where
  "hm_remove name m = m\<lparr>hm_entries := filter (\<lambda>e. \<not> eq_ignore_ascii_case (fst e) name) (hm_entries m)\<rparr>"

definition hm_get_all :: "header_map \<Rightarrow> string \<Rightarrow> string list" where
  "hm_get_all m name = map snd (filter (\<lambda>e. eq_ignore_ascii_case (fst e) name) (hm_entries m))"

definition hm_get :: "header_map \<Rightarrow> string \<Rightarrow> string option" where
  "hm_get m name = (case hm_get_all m name of [] \<Rightarrow> None | v # _ \<Rightarrow> Some v)"

definition hm_value :: "header_map \<Rightarrow> string \<Rightarrow> string option" where
  "hm_value m name = map_option snd (find (\<lambda>e. eq_ignore_ascii_case (fst e) name) (hm_entries m))"

definition hm_iter :: "header_map \<Rightarrow> (string \<times> string) list" where
  "hm_iter m = hm_entries m"

definition hm_len :: "header_map \<Rightarrow> nat" where
  "hm_len m = length (hm_entries m)"

definition hm_is_empty :: "header_map \<Rightarrow> bool" where
  "hm_is_empty m = (hm_entries m = [])"

fun combine_raw :: "string list \<Rightarrow> string option \<Rightarrow> string option" where
  "combine_raw [] acc = acc"
| "combine_raw (v # vs) acc =
     combine_raw vs (case acc of None \<Rightarrow> Some v | Some c \<Rightarrow> Some (c @ '', '' @ v))"

definition get_decode_split :: "header_map \<Rightarrow> string \<Rightarrow> string list option" where
  "get_decode_split m name =
     map_option (\<lambda>combined. split_header_value (isomorphic_decode combined)) (combine_raw (hm_get_all m name) None)"

definition get_decode_split_decoded :: "(string \<times> string) list \<Rightarrow> string \<Rightarrow> string list option" where
  "get_decode_split_decoded headers name = map_option split_header_value (combined_header_in headers name)"

section \<open>Methods\<close>

definition standard_methods :: "string list" where
  "standard_methods = [''GET'', ''HEAD'', ''POST'', ''PUT'', ''DELETE'', ''OPTIONS'']"

definition method_parse :: "http_crate \<Rightarrow> string \<Rightarrow> string + string" where
  "method_parse hc token =
     (case find (\<lambda>method. eq_ignore_ascii_case token method) standard_methods of
        Some method \<Rightarrow> Inr method
      | None \<Rightarrow> (case method_of hc token of Some method \<Rightarrow> Inr method | None \<Rightarrow> Inl token))"

definition method_is_forbidden :: "string \<Rightarrow> bool" where
  "method_is_forbidden method =
     list_ex (\<lambda>forbidden. eq_ignore_ascii_case method forbidden) [''CONNECT'', ''TRACE'', ''TRACK'']"

end
