(* ===== verification/Enumerated.thy ===== *)
theory Enumerated
  imports Rust_Std
begin

text \<open>
  \<open>crates/enumerated/src/lib.rs\<close>: keyword sets. The \<open>enumerated!\<close> macro declares an enum with
  its list of keywords, refuses two equal spellings at compile time, and derives the
  case-insensitive \<open>parse\<close>. The trait is the locale \<open>enumerated\<close>, whose assumption is that
  compile-time check plus the completeness of the list; each keyword set of the program
  interprets it.
\<close>

definition keywords_equal :: "string \<Rightarrow> string \<Rightarrow> bool" where
  "keywords_equal l r = (length l = length r \<and>
     list_all (\<lambda>i. ascii_lower_char (l ! i) = ascii_lower_char (r ! i)) [0..<length l])"

lemma keywords_equal_iff: "keywords_equal l r \<longleftrightarrow> eq_ignore_ascii_case l r"
proof -
  have "map ascii_lower_char l = map ascii_lower_char r \<longleftrightarrow>
      length l = length r \<and> (\<forall>i < length l. ascii_lower_char (l ! i) = ascii_lower_char (r ! i))"
    using list_eq_iff_nth_eq[of "map ascii_lower_char l" "map ascii_lower_char r"] by auto
  then show ?thesis
    by (simp add: keywords_equal_def eq_ignore_ascii_case_def to_ascii_lowercase_def list_all_iff Ball_def)
qed

text \<open>The compile-time assertion of the macro.\<close>

definition spelled_once :: "string list \<Rightarrow> bool" where
  "spelled_once ks =
     list_all (\<lambda>l. list_all (\<lambda>r. \<not> keywords_equal (ks ! l) (ks ! r)) [Suc l..<length ks]) [0..<length ks]"

lemma spelled_once_iff: "spelled_once ks \<longleftrightarrow> distinct (map to_ascii_lowercase ks)"
  unfolding distinct_conv_nth spelled_once_def keywords_equal_iff eq_ignore_ascii_case_def list_all_iff
proof safe
  fix i j
  assume "\<forall>l\<in>set [0..<length ks]. \<forall>r\<in>set [Suc l..<length ks]. to_ascii_lowercase (ks ! l) \<noteq> to_ascii_lowercase (ks ! r)"
  then have lt: "l < r \<Longrightarrow> r < length ks \<Longrightarrow> to_ascii_lowercase (ks ! l) \<noteq> to_ascii_lowercase (ks ! r)" for l r
    by simp
  assume "i < length (map to_ascii_lowercase ks)" "j < length (map to_ascii_lowercase ks)" "i \<noteq> j"
    "map to_ascii_lowercase ks ! i = map to_ascii_lowercase ks ! j"
  then show False using lt[of i j] lt[of j i] by (cases "i < j") simp_all
qed auto

definition enum_parse :: "'a list \<Rightarrow> ('a \<Rightarrow> string) \<Rightarrow> string \<Rightarrow> 'a option" where
  "enum_parse KEYWORDS keyword val =
     find (\<lambda>candidate. eq_ignore_ascii_case (keyword candidate) val) KEYWORDS"

definition enum_from_idl :: "'a list \<Rightarrow> ('a \<Rightarrow> string) \<Rightarrow> string \<Rightarrow> 'a option" where
  "enum_from_idl KEYWORDS keyword val = find (\<lambda>candidate. keyword candidate = val) KEYWORDS"

locale enumerated =
  fixes KEYWORDS :: "'a list" and keyword :: "'a \<Rightarrow> string"
  assumes complete: "x \<in> set KEYWORDS"
    and once: "spelled_once (map keyword KEYWORDS)"
begin

lemma keyword_inj: "eq_ignore_ascii_case (keyword x) (keyword y) \<longleftrightarrow> x = y"
proof
  assume eq: "eq_ignore_ascii_case (keyword x) (keyword y)"
  obtain i j where i: "i < length KEYWORDS" "KEYWORDS ! i = x" "j < length KEYWORDS" "KEYWORDS ! j = y"
    using complete by (metis in_set_conv_nth)
  have ne: "\<not> eq_ignore_ascii_case (keyword (KEYWORDS ! l)) (keyword (KEYWORDS ! r))"
    if "l < r" "r < length KEYWORDS" for l r
    using once that by (auto simp: spelled_once_def list_all_iff keywords_equal_iff)
  have "\<not> i < j" "\<not> j < i"
    using ne[of i j] ne[of j i] eq i by (simp_all add: eq_ignore_ascii_case_def) metis+
  then show "x = y" using i by (metis nat_neq_iff)
qed (simp add: eq_ignore_ascii_case_def)

lemma parse_iff: "enum_parse KEYWORDS keyword v = Some x \<longleftrightarrow> eq_ignore_ascii_case (keyword x) v"
proof
  show "eq_ignore_ascii_case (keyword x) v" if "enum_parse KEYWORDS keyword v = Some x"
    using that by (auto simp: enum_parse_def dest: find_SomeD)
  assume x: "eq_ignore_ascii_case (keyword x) v"
  then obtain y where y: "enum_parse KEYWORDS keyword v = Some y"
    using complete[of x] by (cases "enum_parse KEYWORDS keyword v") (auto simp: enum_parse_def find_None_iff)
  then have "eq_ignore_ascii_case (keyword y) v" by (auto simp: enum_parse_def dest: find_SomeD)
  then have "y = x" using x keyword_inj[of y x] by (simp add: eq_ignore_ascii_case_def)
  with y show "enum_parse KEYWORDS keyword v = Some x" by simp
qed

lemma from_idl_iff: "enum_from_idl KEYWORDS keyword v = Some x \<longleftrightarrow> keyword x = v"
proof
  show "keyword x = v" if "enum_from_idl KEYWORDS keyword v = Some x"
    using that by (auto simp: enum_from_idl_def dest: find_SomeD)
  assume x: "keyword x = v"
  then obtain y where y: "enum_from_idl KEYWORDS keyword v = Some y"
    using complete[of x] by (cases "enum_from_idl KEYWORDS keyword v") (auto simp: enum_from_idl_def find_None_iff)
  then have "keyword y = v" by (auto simp: enum_from_idl_def dest: find_SomeD)
  then have "y = x" using x keyword_inj[of y x] by (simp add: eq_ignore_ascii_case_def)
  with y show "enum_from_idl KEYWORDS keyword v = Some x" by simp
qed

lemma parse_keyword: "enum_parse KEYWORDS keyword (keyword x) = Some x"
  by (simp add: parse_iff eq_ignore_ascii_case_def)

end

end
