(* ===== verification/Cors.thy ===== *)
theory Cors
  imports Http_Headers Enumerated Url_Model "HOL-Library.Char_ord" "HOL-Library.List_Lexorder"
begin

text \<open>
  \<open>crates/net/src/cors.rs\<close>: request and response classification, the CORS check, the
  preflight request and its validation, and the exposed response headers.
\<close>

section \<open>Modes\<close>

datatype request_mode = Navigate | NoCors | MSameOrigin | MCors

fun request_mode_as_str :: "request_mode \<Rightarrow> string" where
  "request_mode_as_str Navigate = ''navigate''"
| "request_mode_as_str NoCors = ''no-cors''"
| "request_mode_as_str MSameOrigin = ''same-origin''"
| "request_mode_as_str MCors = ''cors''"

datatype credentials_mode = Omit | CSameOrigin | Include

definition credentials_keywords :: "credentials_mode list" where
  "credentials_keywords = [Omit, CSameOrigin, Include]"

fun credentials_keyword :: "credentials_mode \<Rightarrow> string" where
  "credentials_keyword Omit = ''omit''"
| "credentials_keyword CSameOrigin = ''same-origin''"
| "credentials_keyword Include = ''include''"

definition credentials_includes :: "credentials_mode \<Rightarrow> bool" where
  "credentials_includes m = (m = Include)"

definition credentials_from_idl :: "string \<Rightarrow> credentials_mode option" where
  "credentials_from_idl val = enum_from_idl credentials_keywords credentials_keyword val"

datatype cross_origin = Anonymous | UseCredentials

definition cross_origin_keywords :: "cross_origin list" where
  "cross_origin_keywords = [Anonymous, UseCredentials]"

fun cross_origin_keyword :: "cross_origin \<Rightarrow> string" where
  "cross_origin_keyword Anonymous = ''anonymous''"
| "cross_origin_keyword UseCredentials = ''use-credentials''"

fun cross_origin_credentials :: "cross_origin \<Rightarrow> credentials_mode" where
  "cross_origin_credentials Anonymous = CSameOrigin"
| "cross_origin_credentials UseCredentials = Include"

fun credentials_admitted :: "credentials_mode \<Rightarrow> bool \<Rightarrow> bool" where
  "credentials_admitted Omit cross = False"
| "credentials_admitted CSameOrigin cross = (\<not> cross)"
| "credentials_admitted Include cross = True"

datatype redirect_mode = RFollow | RError | RManual

definition redirect_keywords :: "redirect_mode list" where
  "redirect_keywords = [RFollow, RError, RManual]"

fun redirect_keyword :: "redirect_mode \<Rightarrow> string" where
  "redirect_keyword RFollow = ''follow''"
| "redirect_keyword RError = ''error''"
| "redirect_keyword RManual = ''manual''"

definition redirect_from_idl :: "string \<Rightarrow> redirect_mode option" where
  "redirect_from_idl val = enum_from_idl redirect_keywords redirect_keyword val"

record cors_parameters =
  cp_mode :: request_mode
  cp_credentials :: credentials_mode
  cp_redirect :: redirect_mode

record cors_settings =
  cs_mode :: request_mode
  cs_credentials :: credentials_mode
  cs_redirect :: redirect_mode
  cs_origin :: origin

definition with_origin :: "cors_parameters \<Rightarrow> origin \<Rightarrow> cors_settings" where
  "with_origin p orig = \<lparr> cs_mode = cp_mode p, cs_credentials = cp_credentials p,
     cs_redirect = cp_redirect p, cs_origin = orig \<rparr>"

datatype response_type = TBasic | TCors | TOpaque | TOpaqueRedirect

datatype filtering = FBasic | FCors bool | FOpaque | FOpaqueRedirect

fun filtering_response_type :: "filtering \<Rightarrow> response_type" where
  "filtering_response_type FBasic = TBasic"
| "filtering_response_type (FCors _) = TCors"
| "filtering_response_type FOpaque = TOpaque"
| "filtering_response_type FOpaqueRedirect = TOpaqueRedirect"

definition filtering_is_opaque :: "filtering \<Rightarrow> bool" where
  "filtering_is_opaque f = (f \<in> set [FOpaque, FOpaqueRedirect])"

fun response_type_as_str :: "response_type \<Rightarrow> string" where
  "response_type_as_str TBasic = ''basic''"
| "response_type_as_str TCors = ''cors''"
| "response_type_as_str TOpaque = ''opaque''"
| "response_type_as_str TOpaqueRedirect = ''opaqueredirect''"

definition response_type_is_opaque :: "response_type \<Rightarrow> bool" where
  "response_type_is_opaque t = (t \<in> set [TOpaque, TOpaqueRedirect])"

text \<open>The keyword sets obey the contract of \<open>enumerated\<close>.\<close>

interpretation credentials: enumerated credentials_keywords credentials_keyword
proof
  show "x \<in> set credentials_keywords" for x by (cases x) (simp_all add: credentials_keywords_def)
  show "spelled_once (map credentials_keyword credentials_keywords)"
    unfolding spelled_once_iff by code_simp
qed

interpretation cross_origin: enumerated cross_origin_keywords cross_origin_keyword
proof
  show "x \<in> set cross_origin_keywords" for x by (cases x) (simp_all add: cross_origin_keywords_def)
  show "spelled_once (map cross_origin_keyword cross_origin_keywords)"
    unfolding spelled_once_iff by code_simp
qed

interpretation redirect: enumerated redirect_keywords redirect_keyword
proof
  show "x \<in> set redirect_keywords" for x by (cases x) (simp_all add: redirect_keywords_def)
  show "spelled_once (map redirect_keyword redirect_keywords)"
    unfolding spelled_once_iff by code_simp
qed

section \<open>Safelists\<close>

definition is_cors_safelisted_method :: "string \<Rightarrow> bool" where
  "is_cors_safelisted_method method = (method \<in> set [''GET'', ''HEAD'', ''POST''])"

definition is_cors_unsafe_byte :: "char \<Rightarrow> bool" where
  "is_cors_unsafe_byte c =
     ((byte c < 0x20 \<and> byte c \<noteq> 9) \<or>
      byte c \<in> set [0x22, 0x28, 0x29, 0x3A, 0x3C, 0x3E, 0x3F, 0x40, 0x5B, 0x5C, 0x5D, 0x7B, 0x7D, 0x7F])"

definition contains_unsafe_byte :: "string \<Rightarrow> bool" where
  "contains_unsafe_byte val = list_ex is_cors_unsafe_byte val"

definition is_ascii_alphabetic :: "char \<Rightarrow> bool" where
  "is_ascii_alphabetic c = ((65 \<le> byte c \<and> byte c \<le> 90) \<or> (97 \<le> byte c \<and> byte c \<le> 122))"

definition is_language_byte :: "char \<Rightarrow> bool" where
  "is_language_byte c = (is_ascii_alphabetic c \<or> is_ascii_digit c \<or> c \<in> set '' *,-.;='')"

definition is_simple_range :: "string \<Rightarrow> bool" where
  "is_simple_range val =
     (case from_utf8 val of None \<Rightarrow> False | Some text \<Rightarrow>
      (case strip_prefix ''bytes='' text of None \<Rightarrow> False | Some rest \<Rightarrow>
       (case split_once CHR ''-'' rest of None \<Rightarrow> False | Some (start, e) \<Rightarrow>
          if start = [] \<or> \<not> list_all is_ascii_digit start then False
          else e = [] \<or> list_all is_ascii_digit e)))"

definition first_part :: "char \<Rightarrow> string \<Rightarrow> string" where
  "first_part d s = hd (split_by (\<lambda>c. c = d) s)"

definition content_type_essence :: "string \<Rightarrow> string" where
  "content_type_essence val = to_ascii_lowercase (trim (first_part CHR '';'' (from_utf8_lossy val)))"

definition is_cors_safelisted_request_header :: "string \<Rightarrow> string \<Rightarrow> bool" where
  "is_cors_safelisted_request_header name val =
     (if length val > 128 then False
      else (let n = to_ascii_lowercase name
            in if n = ''accept'' then \<not> contains_unsafe_byte val
               else if n \<in> set [''accept-language'', ''content-language''] then list_all is_language_byte val
               else if n = ''content-type'' then
                 (if contains_unsafe_byte val then False
                  else content_type_essence val \<in> set
                    [''application/x-www-form-urlencoded'', ''multipart/form-data'', ''text/plain''])
               else if n = ''range'' then is_simple_range val
               else False))"

definition is_no_cors_safelisted_request_header :: "string \<Rightarrow> string \<Rightarrow> bool" where
  "is_no_cors_safelisted_request_header name val =
     (to_ascii_lowercase name \<in> set [''accept'', ''accept-language'', ''content-language'', ''content-type'']
      \<and> is_cors_safelisted_request_header name val)"

definition forbidden_request_names :: "string list" where
  "forbidden_request_names =
     [''accept-charset'', ''accept-encoding'', ''access-control-request-headers'',
      ''access-control-request-method'', ''connection'', ''content-length'', ''cookie'', ''cookie2'',
      ''date'', ''dnt'', ''expect'', ''host'', ''keep-alive'', ''origin'', ''referer'', ''set-cookie'',
      ''te'', ''trailer'', ''transfer-encoding'', ''upgrade'', ''via'']"

definition is_forbidden_request_header_name :: "string \<Rightarrow> bool" where
  "is_forbidden_request_header_name name =
     (let name = to_ascii_lowercase name
      in if starts_with name ''proxy-'' \<or> starts_with name ''sec-'' then True
         else name \<in> set forbidden_request_names)"

definition is_forbidden_method_header :: "http_crate \<Rightarrow> string \<Rightarrow> string \<Rightarrow> bool" where
  "is_forbidden_method_header hc name val =
     (if to_ascii_lowercase name \<notin> set [''x-http-method-override'', ''x-http-method'', ''x-method-override'']
      then False
      else list_ex (\<lambda>token. case method_parse hc token of Inr method \<Rightarrow> method_is_forbidden method | Inl _ \<Rightarrow> False)
             (split_header_value (isomorphic_decode val)))"

definition is_forbidden_request_header :: "http_crate \<Rightarrow> string \<Rightarrow> string \<Rightarrow> bool" where
  "is_forbidden_request_header hc name val =
     (is_forbidden_request_header_name name \<or> is_forbidden_method_header hc name val)"

section \<open>The preflight decision\<close>

fun scan_unsafe ::
  "(string \<times> string) list \<Rightarrow> string list \<Rightarrow> string list \<Rightarrow> nat \<Rightarrow> string list \<times> string list \<times> nat" where
  "scan_unsafe [] unsafe potentially sz = (unsafe, potentially, sz)"
| "scan_unsafe ((name, val) # hs) unsafe potentially sz =
     (if is_forbidden_request_header_name name then scan_unsafe hs unsafe potentially sz
      else if is_cors_safelisted_request_header name val
        then scan_unsafe hs unsafe (potentially @ [to_ascii_lowercase name]) (sz + length val)
      else scan_unsafe hs (unsafe @ [to_ascii_lowercase name]) potentially sz)"

definition unsafe_request_header_names :: "header_map \<Rightarrow> string list" where
  "unsafe_request_header_names m =
     (let (unsafe, potentially, sz) = scan_unsafe (hm_iter m) [] [] 0
      in remdups_adj (sort (if sz > 1024 then unsafe @ potentially else unsafe)))"

definition needs_preflight :: "string \<Rightarrow> string list \<Rightarrow> bool" where
  "needs_preflight method unsafe_names = (\<not> is_cors_safelisted_method method \<or> unsafe_names \<noteq> [])"

section \<open>The CORS check\<close>

fun combine_text :: "string list \<Rightarrow> string option \<Rightarrow> string option" where
  "combine_text [] acc = acc"
| "combine_text (v # vs) acc =
     (case from_utf8 v of
        None \<Rightarrow> None
      | Some text \<Rightarrow> combine_text vs (case acc of Some c \<Rightarrow> Some (c @ '', '' @ text) | None \<Rightarrow> Some text))"

definition cors_header :: "header_map \<Rightarrow> string \<Rightarrow> string option" where
  "cors_header m name = combine_text (hm_get_all m name) None"

definition list_values :: "header_map \<Rightarrow> string \<Rightarrow> string list" where
  "list_values m name =
     filter (\<lambda>v. v \<noteq> []) (case get_decode_split m name of None \<Rightarrow> [] | Some vs \<Rightarrow> vs)"

definition cors_check :: "header_map \<Rightarrow> string \<Rightarrow> bool \<Rightarrow> bool" where
  "cors_check m orig credentials_include =
     (case cors_header m ''access-control-allow-origin'' of
        None \<Rightarrow> False
      | Some allow_origin \<Rightarrow>
          (let allow_origin = trim allow_origin
           in if \<not> credentials_include \<and> allow_origin = ''*'' then True
              else if allow_origin \<noteq> orig then False
              else if \<not> credentials_include then True
              else (case cors_header m ''access-control-allow-credentials'' of
                      None \<Rightarrow> False
                    | Some v \<Rightarrow> eq_ignore_ascii_case (trim v) ''true'')))"

definition list_items :: "header_map \<Rightarrow> string \<Rightarrow> string list" where
  "list_items m name =
     filter (\<lambda>v. v \<noteq> []) (case get_decode_split m name of None \<Rightarrow> [] | Some vs \<Rightarrow> vs)"

fun collect_options :: "'a option list \<Rightarrow> 'a list option" where
  "collect_options [] = Some []"
| "collect_options (x # xs) =
     (case x of None \<Rightarrow> None | Some y \<Rightarrow> map_option ((#) y) (collect_options xs))"

definition list_methods :: "http_crate \<Rightarrow> header_map \<Rightarrow> string \<Rightarrow> string list option" where
  "list_methods hc m name = collect_options (map (method_of hc) (list_items m name))"

definition list_header_names :: "http_crate \<Rightarrow> header_map \<Rightarrow> string \<Rightarrow> string list option" where
  "list_header_names hc m name = collect_options (map (header_name_of hc) (list_items m name))"

definition preflight_ok ::
  "http_crate \<Rightarrow> nat \<Rightarrow> header_map \<Rightarrow> string \<Rightarrow> bool \<Rightarrow> string \<Rightarrow> string list \<Rightarrow> bool" where
  "preflight_ok hc status m orig credentials_include method unsafe_names =
     (if \<not> (200 \<le> status \<and> status \<le> 299) then False
      else if \<not> cors_check m orig credentials_include then False
      else
        (case list_methods hc m ''access-control-allow-methods'' of None \<Rightarrow> False | Some methods \<Rightarrow>
         (let wildcard_ok = (\<not> credentials_include);
              method_allowed = (method \<in> set methods \<or> is_cors_safelisted_method method
                \<or> (wildcard_ok \<and> ''*'' \<in> set methods))
          in if \<not> method_allowed then False
             else
               (case list_header_names hc m ''access-control-allow-headers'' of None \<Rightarrow> False | Some allowed \<Rightarrow>
                 (let listed = (\<lambda>name. list_ex (\<lambda>v. eq_ignore_ascii_case v name) allowed)
                  in if ''authorization'' \<in> set unsafe_names \<and> \<not> listed ''authorization'' then False
                     else (wildcard_ok \<and> listed ''*'') \<or> list_all listed unsafe_names)))))"

definition preflight_headers :: "string \<Rightarrow> string list \<Rightarrow> string \<Rightarrow> header_map" where
  "preflight_headers method unsafe_names orig =
     (let m = hm_append ''access-control-request-method'' method
                (hm_append ''origin'' orig (hm_append ''accept'' ''*/*'' hm_new))
      in if unsafe_names \<noteq> [] then hm_append ''access-control-request-headers'' (join '','' unsafe_names) m else m)"

section \<open>Response headers\<close>

definition is_forbidden_response_header :: "string \<Rightarrow> bool" where
  "is_forbidden_response_header name =
     (eq_ignore_ascii_case name ''set-cookie'' \<or> eq_ignore_ascii_case name ''set-cookie2'')"

definition is_cors_safelisted_response_header :: "string \<Rightarrow> bool" where
  "is_cors_safelisted_response_header name =
     (to_ascii_lowercase name \<in> set [''cache-control'', ''content-language'', ''content-length'',
        ''content-type'', ''expires'', ''last-modified'', ''pragma''])"

record exposed_headers =
  eh_names :: "string list"
  eh_expose_all :: bool

definition exposed_headers_new :: "header_map \<Rightarrow> bool \<Rightarrow> exposed_headers" where
  "exposed_headers_new m credentials_include =
     (let names = map to_ascii_lowercase (list_values m ''access-control-expose-headers'')
      in \<lparr> eh_names = names, eh_expose_all = (\<not> credentials_include \<and> ''*'' \<in> set names) \<rparr>)"

definition exposed_keeps :: "exposed_headers \<Rightarrow> string \<Rightarrow> bool" where
  "exposed_keeps eh name =
     (if is_forbidden_response_header name then False
      else (let name = to_ascii_lowercase name
            in is_cors_safelisted_response_header name \<or> eh_expose_all eh \<or> name \<in> set (eh_names eh)))"

end
