(* ===== verification/Referrer.thy ===== *)
theory Referrer
  imports Secure_Context Enumerated
begin

text \<open>
  \<open>crates/net/src/referrer.rs\<close>: the referrer policy, its delivery parsers and the
  determination of a request's referrer. The setters of \<open>Url\<close> and its parser belong to the
  \<open>url\<close> crate: the record \<open>url_api\<close> holds them, and \<open>url_api_ok\<close> is what that crate documents
  for an HTTP(S) URL.
\<close>

section \<open>Policies\<close>

datatype referrer_policy =
  PNoReferrer | PNoReferrerWhenDowngrade | PSameOrigin | POrigin | PStrictOrigin
| POriginWhenCrossOrigin | PStrictOriginWhenCrossOrigin | PUnsafeUrl

definition referrer_keywords :: "referrer_policy list" where
  "referrer_keywords = [PNoReferrer, PNoReferrerWhenDowngrade, PSameOrigin, POrigin, PStrictOrigin,
     POriginWhenCrossOrigin, PStrictOriginWhenCrossOrigin, PUnsafeUrl]"

fun referrer_keyword :: "referrer_policy \<Rightarrow> string" where
  "referrer_keyword PNoReferrer = ''no-referrer''"
| "referrer_keyword PNoReferrerWhenDowngrade = ''no-referrer-when-downgrade''"
| "referrer_keyword PSameOrigin = ''same-origin''"
| "referrer_keyword POrigin = ''origin''"
| "referrer_keyword PStrictOrigin = ''strict-origin''"
| "referrer_keyword POriginWhenCrossOrigin = ''origin-when-cross-origin''"
| "referrer_keyword PStrictOriginWhenCrossOrigin = ''strict-origin-when-cross-origin''"
| "referrer_keyword PUnsafeUrl = ''unsafe-url''"

definition referrer_parse :: "string \<Rightarrow> referrer_policy option" where
  "referrer_parse v = enum_parse referrer_keywords referrer_keyword v"

interpretation referrer: enumerated referrer_keywords referrer_keyword
proof
  show "x \<in> set referrer_keywords" for x by (cases x) (simp_all add: referrer_keywords_def)
  show "spelled_once (map referrer_keyword referrer_keywords)"
    unfolding spelled_once_iff by code_simp
qed

definition is_list_byte :: "char \<Rightarrow> bool" where
  "is_list_byte c = ((65 \<le> byte c \<and> byte c \<le> 90) \<or> (97 \<le> byte c \<and> byte c \<le> 122) \<or> c = CHR ''-'')"

fun list_members :: "string list \<Rightarrow> string list option" where
  "list_members [] = Some []"
| "list_members (raw # raws) =
     (let member = trim_chars [CHR '' '', char_of (9 :: nat)] raw
      in if member = [] then list_members raws
         else if \<not> list_all is_list_byte member then None
         else map_option ((#) member) (list_members raws))"

definition header_list_members :: "string \<Rightarrow> string list option" where
  "header_list_members v = list_members (split_by (\<lambda>c. c = CHR '','') v)"

definition last_policy :: "string list \<Rightarrow> referrer_policy option \<Rightarrow> referrer_policy option" where
  "last_policy tokens policy =
     foldl (\<lambda>policy token. case referrer_parse token of Some p \<Rightarrow> Some p | None \<Rightarrow> policy) policy tokens"

fun from_header_loop :: "string list \<Rightarrow> referrer_policy option \<Rightarrow> referrer_policy option" where
  "from_header_loop [] policy = policy"
| "from_header_loop (v # vs) policy =
     (case header_list_members v of
        None \<Rightarrow> None
      | Some tokens \<Rightarrow> from_header_loop vs (last_policy tokens policy))"

definition referrer_from_header :: "string list \<Rightarrow> referrer_policy option" where
  "referrer_from_header vals = from_header_loop vals None"

definition referrer_from_meta :: "string \<Rightarrow> referrer_policy option" where
  "referrer_from_meta content =
     (let token = trim content
      in if eq_ignore_ascii_case token ''never'' then Some PNoReferrer
         else if eq_ignore_ascii_case token ''default'' then Some PStrictOriginWhenCrossOrigin
         else if eq_ignore_ascii_case token ''always'' then Some PUnsafeUrl
         else if eq_ignore_ascii_case token ''origin-when-crossorigin'' then Some POriginWhenCrossOrigin
         else referrer_parse token)"

section \<open>The referrer of a request\<close>

record referrer_client =
  rc_origin :: origin
  rc_url :: url

datatype referrer = NoReferrer | Client referrer_client | RUrl url

record url_api =
  set_username :: "string \<Rightarrow> url \<Rightarrow> url"
  set_password :: "string option \<Rightarrow> url \<Rightarrow> url"
  set_fragment :: "string option \<Rightarrow> url \<Rightarrow> url"
  set_path :: "string \<Rightarrow> url \<Rightarrow> url"
  set_query :: "string option \<Rightarrow> url \<Rightarrow> url"
  parse_url :: "string \<Rightarrow> url option"

definition strip_url :: "url_api \<Rightarrow> url \<Rightarrow> bool \<Rightarrow> url" where
  "strip_url api u origin_only =
     (let stripped = set_fragment api None (set_password api None (set_username api [] u))
      in if origin_only then set_query api None (set_path api [] stripped) else stripped)"

definition determine_referrer :: "url_api \<Rightarrow> referrer_policy \<Rightarrow> referrer \<Rightarrow> url \<Rightarrow> url option" where
  "determine_referrer api policy r target =
     (case (case r of
              NoReferrer \<Rightarrow> None
            | Client client \<Rightarrow> if \<not> is_tuple (rc_origin client) then None else Some (rc_url client)
            | RUrl u \<Rightarrow> Some u) of
        None \<Rightarrow> None
      | Some source \<Rightarrow>
          if u_scheme source \<notin> set [''http'', ''https''] then None
          else
            (let referrer_origin = strip_url api source True;
                 referrer_url = (let full = strip_url api source False
                                 in if length (u_href full) > 4096 then referrer_origin else full);
                 same_origin = (u_origin referrer_url = u_origin target);
                 source_trustworthy = is_potentially_trustworthy (parse_url api) referrer_url;
                 target_trustworthy = is_potentially_trustworthy (parse_url api) target;
                 downgrade = (source_trustworthy \<and> \<not> target_trustworthy)
             in case policy of
                  PNoReferrer \<Rightarrow> None
                | POrigin \<Rightarrow> Some referrer_origin
                | PUnsafeUrl \<Rightarrow> Some referrer_url
                | PStrictOrigin \<Rightarrow> if \<not> downgrade then Some referrer_origin else None
                | PStrictOriginWhenCrossOrigin \<Rightarrow>
                    if same_origin then Some referrer_url
                    else if downgrade then None else Some referrer_origin
                | PSameOrigin \<Rightarrow> if same_origin then Some referrer_url else None
                | POriginWhenCrossOrigin \<Rightarrow> Some (if same_origin then referrer_url else referrer_origin)
                | PNoReferrerWhenDowngrade \<Rightarrow> if \<not> downgrade then Some referrer_url else None))"

end
