(* ===== verification/Orb.thy ===== *)
theory Orb
  imports Rust_Net
begin

text \<open>
  \<open>crates/net/src/orb.rs\<close>: Opaque Response Blocking. A body is the list of its bytes.
\<close>

section \<open>MIME types\<close>

definition SNIFF_LIMIT :: nat where
  "SNIFF_LIMIT = 1024"

definition NEVER_SNIFFED :: "string list" where
  "NEVER_SNIFFED =
     [''application/gzip'', ''application/x-gzip'', ''application/zip'', ''text/event-stream'',
      ''application/msexcel'', ''application/mspowerpoint'', ''application/msword'',
      ''application/msword-template'', ''application/pdf'', ''application/vnd.ces-quickpoint'',
      ''application/vnd.ces-quicksheet'', ''application/vnd.ces-quickword'', ''application/vnd.ms-excel'',
      ''application/vnd.ms-excel.sheet.macroenabled.12'', ''application/vnd.ms-powerpoint'',
      ''application/vnd.ms-powerpoint.presentation.macroenabled.12'', ''application/vnd.ms-word'',
      ''application/vnd.ms-word.document.12'', ''application/vnd.ms-word.document.macroenabled.12'',
      ''application/vnd.msword'',
      ''application/vnd.openxmlformats-officedocument.presentationml.presentation'',
      ''application/vnd.openxmlformats-officedocument.presentationml.template'',
      ''application/vnd.openxmlformats-officedocument.spreadsheetml.sheet'',
      ''application/vnd.openxmlformats-officedocument.spreadsheetml.template'',
      ''application/vnd.openxmlformats-officedocument.wordprocessingml.document'',
      ''application/vnd.openxmlformats-officedocument.wordprocessingml.template'',
      ''application/vnd.presentation-openxml'', ''application/vnd.presentation-openxmlm'',
      ''application/vnd.spreadsheet-openxml'', ''application/vnd.wordprocessing-openxml'',
      ''text/csv'', ''text/pdf'', ''application/proto'', ''application/rtf'', ''application/x-7z-compressed'',
      ''text/calendar'', ''text/rtf'', ''text/tab-separated-values'', ''text/vcard'', ''text/x-vcard'',
      ''multipart/signed'', ''multipart/byteranges'']"

definition NEVER_SNIFFED_SUBSTRINGS :: "string list" where
  "NEVER_SNIFFED_SUBSTRINGS = [''opendocument'', ''protobuf'', ''yaml'']"

definition NEVER_SNIFFED_SUFFIXES :: "string list" where
  "NEVER_SNIFFED_SUFFIXES = [''+proto'']"

fun find_bytes :: "string \<Rightarrow> string \<Rightarrow> nat option" where
  "find_bytes [] needle = None"
| "find_bytes (c # cs) needle =
     (if length needle \<le> length (c # cs) \<and> starts_with (c # cs) needle then Some 0
      else map_option Suc (find_bytes cs needle))"

definition contains :: "string \<Rightarrow> string \<Rightarrow> bool" where
  "contains s needle = (needle = [] \<or> find_bytes s needle \<noteq> None)"

definition opaque_safelisted :: "string \<Rightarrow> bool" where
  "opaque_safelisted mime =
     (mime = ''text/css'' \<or> mime = ''image/svg+xml'' \<or> starts_with mime ''audio/'' \<or> starts_with mime ''video/'' \<or>
      mime \<in> set [''application/ogg'', ''application/dash+xml'', ''application/vnd.apple.mpegurl'', ''text/vtt''])"

datatype mime_kind = KHtml | KJson | KXml | KPlain | KNeverSniffed | KOther

definition never_sniffed :: "string \<Rightarrow> bool" where
  "never_sniffed mime =
     (mime \<in> set NEVER_SNIFFED \<or> list_ex (contains mime) NEVER_SNIFFED_SUBSTRINGS
      \<or> list_ex (ends_with mime) NEVER_SNIFFED_SUFFIXES)"

definition orb_kind :: "string \<Rightarrow> mime_kind" where
  "orb_kind mime =
     (if mime = ''image/svg+xml'' \<or> mime = ''application/dash+xml'' then KOther
      else if mime = ''text/html'' then KHtml
      else if mime = ''application/json'' \<or> mime = ''text/json'' \<or> mime = ''application/json+protobuf''
        \<or> ends_with mime ''+json'' then KJson
      else if mime = ''application/xml'' \<or> mime = ''text/xml'' \<or> ends_with mime ''+xml'' then KXml
      else if mime = ''text/plain'' then KPlain
      else if never_sniffed mime then KNeverSniffed
      else KOther)"

definition orb_essence :: "string \<Rightarrow> string" where
  "orb_essence mime_type = to_ascii_lowercase (trim (hd (split_by (\<lambda>c. c = CHR '';'') mime_type)))"

section \<open>Sniffers\<close>

definition WHITESPACE :: "char list" where
  "WHITESPACE = map char_of [9, 10, 12, 13, 32 :: nat]"

definition trim_bom :: "string \<Rightarrow> string" where
  "trim_bom data =
     (case strip_prefix (map char_of [0xEF, 0xBB, 0xBF :: nat]) data of Some d \<Rightarrow> d | None \<Rightarrow> data)"

definition trim_whitespace :: "string \<Rightarrow> string" where
  "trim_whitespace data =
     (case position (\<lambda>b. b \<notin> set WHITESPACE) data of None \<Rightarrow> [] | Some start \<Rightarrow> drop start data)"

definition starts_with_ignore_case :: "string \<Rightarrow> string \<Rightarrow> bool" where
  "starts_with_ignore_case data prefix =
     (length prefix \<le> length data \<and> eq_ignore_ascii_case (take (length prefix) data) prefix)"

definition HTML_SIGNATURES :: "string list" where
  "HTML_SIGNATURES = [''<!doctype html'', ''<script'', ''<html'', ''<head'', ''<iframe'', ''<h1'', ''<div'',
     ''<font'', ''<table'', ''<a'', ''<style'', ''<title'', ''<b'', ''<p'']"

definition line_end :: "string \<Rightarrow> nat option" where
  "line_end data = position (\<lambda>b. byte b = 10 \<or> byte b = 13 \<or> (byte b = 0xE2 \<and> length data > 2)) data"

definition skip_html_comment :: "string \<Rightarrow> string option" where
  "skip_html_comment data =
     (case strip_prefix ''<!--'' data of None \<Rightarrow> None | Some rest \<Rightarrow>
      (case find_bytes rest ''-->'' of None \<Rightarrow> None | Some i \<Rightarrow>
         (let after = drop (i + 3) rest
          in Some (case line_end after of Some e \<Rightarrow> drop e after | None \<Rightarrow> []))))"

lemma trim_whitespace_length: "length (trim_whitespace data) \<le> length data"
  by (simp add: trim_whitespace_def split: option.split)

lemma skip_html_comment_length: "skip_html_comment data = Some rest \<Longrightarrow> length rest < length data"
  by (cases data) (auto simp: skip_html_comment_def strip_prefix_def starts_with_def Let_def
      split: option.splits if_splits)

function sniff_html_loop :: "string \<Rightarrow> bool" where
  "sniff_html_loop data =
     (let d = trim_whitespace data
      in if d = [] then False
         else if list_ex (starts_with_ignore_case d) HTML_SIGNATURES then True
         else (case skip_html_comment d of None \<Rightarrow> False | Some rest \<Rightarrow> sniff_html_loop rest))"
  by pat_completeness auto
termination
  by (relation "measure length")
    (auto dest!: skip_html_comment_length intro: less_le_trans[OF _ trim_whitespace_length])

declare sniff_html_loop.simps [simp del]

definition sniff_html :: "string \<Rightarrow> bool" where
  "sniff_html data = sniff_html_loop (trim_bom data)"

definition sniff_xml :: "string \<Rightarrow> bool" where
  "sniff_xml data = starts_with (trim_whitespace (trim_bom data)) ''<?xml''"

definition SCRIPT_BREAKING_PREFIXES :: "string list" where
  "SCRIPT_BREAKING_PREFIXES = ['')]}'' @ [CHR 0x27], ''{}&&'', ''{} &&'', ''for(;;);'', ''while(1);'', ''for (;;);'', ''while (1);'']"

datatype json_state = JStart | JLeftBrace | JLeftQuote | JEscape | JRightQuote

fun json_scan :: "json_state \<Rightarrow> string \<Rightarrow> bool" where
  "json_scan st [] = False"
| "json_scan st (b # bs) =
     (if st \<noteq> JLeftQuote \<and> st \<noteq> JEscape \<and> b \<in> set WHITESPACE then json_scan st bs
      else (case st of
              JStart \<Rightarrow> if b \<noteq> CHR ''{'' then False else json_scan JLeftBrace bs
            | JLeftBrace \<Rightarrow> if b \<noteq> CHR 0x22 then False else json_scan JLeftQuote bs
            | JLeftQuote \<Rightarrow>
                if b = CHR 0x22 then json_scan JRightQuote bs
                else if b = CHR 0x5C then json_scan JEscape bs else json_scan JLeftQuote bs
            | JEscape \<Rightarrow> json_scan JLeftQuote bs
            | JRightQuote \<Rightarrow> b = CHR '':''))"

definition sniff_json :: "string \<Rightarrow> bool" where
  "sniff_json data = json_scan JStart (trim_bom data)"

definition sniff_fetch_only :: "string \<Rightarrow> bool" where
  "sniff_fetch_only data =
     (let data = trim_bom data
      in if list_ex (starts_with data) SCRIPT_BREAKING_PREFIXES then True else sniff_json data)"

definition MEDIA_SIGNATURES :: "string list" where
  "MEDIA_SIGNATURES =
     [''GIF87a'', ''GIF89a'', map char_of [0x89, 0x50, 0x4E, 0x47, 13, 10, 0x1A, 10 :: nat],
      map char_of [0xFF, 0xD8, 0xFF :: nat], ''RIFF'', ''BM'', map char_of [0, 0, 1, 0 :: nat], ''OggS'', ''ID3'',
      map char_of [0xFF, 0xFB :: nat], map char_of [0xFF, 0xF3 :: nat], map char_of [0xFF, 0xF2 :: nat],
      ''fLaC'', map char_of [0x1A, 0x45, 0xDF, 0xA3 :: nat], ''wOFF'', ''wOF2'', ''ftyp'',
      map char_of [0x47, 0x40 :: nat], map char_of [0, 0, 1, 0xBA :: nat], map char_of [0, 0, 1, 0xB3 :: nat]]"

definition sniff_media :: "string \<Rightarrow> bool" where
  "sniff_media data = list_ex (starts_with data) MEDIA_SIGNATURES"

section \<open>The decision\<close>

definition orb_blocks :: "string option \<Rightarrow> bool \<Rightarrow> string option \<Rightarrow> bool" where
  "orb_blocks mime_type nosniff body =
     (case mime_type of None \<Rightarrow> False | Some mime_type \<Rightarrow>
      (let essence = orb_essence mime_type
       in if essence = [] then False
          else if opaque_safelisted essence then False
          else if orb_kind essence = KNeverSniffed then True
          else if orb_kind essence \<in> set [KHtml, KJson, KXml, KPlain] \<and> nosniff then True
          else
            (case body of None \<Rightarrow> False | Some bytes \<Rightarrow>
             (let bytes = take SNIFF_LIMIT bytes
              in if sniff_media bytes then False
                 else sniff_html bytes \<or> sniff_xml bytes \<or> sniff_fetch_only bytes))))"

end
