(* ===== verification/Net_Props.thy ===== *)
theory Net_Props
  imports Cors Referrer Orb
begin

text \<open>
  The properties of the network protocol code: header lists and the header map, the CORS
  decisions, referrers, the keyword sets and opaque response blocking.
\<close>

section \<open>Header lists\<close>

text \<open>A quoted string that is terminated, and a member that contains no separator of its own.\<close>

fun quoted_closed :: "string \<Rightarrow> bool" where
  "quoted_closed [] = False"
| "quoted_closed (c # cs) =
     (if c = CHR ''\"'' then True
      else if c = CHR 92 then (case cs of [] \<Rightarrow> False | e # cs' \<Rightarrow> quoted_closed cs')
      else quoted_closed cs)"

function atomic_member :: "string \<Rightarrow> bool" where
  "atomic_member [] = True"
| "atomic_member (c # cs) =
     (if c = CHR '','' then False
      else if c = CHR ''\"'' then quoted_closed cs \<and> atomic_member (snd (collect_quoted_string cs))
      else atomic_member cs)"
  by pat_completeness auto
termination
  by (relation "measure length") (auto simp: less_Suc_eq_le collect_quoted_length)

lemma collect_quoted_closed:
  "quoted_closed s \<Longrightarrow>
     collect_quoted_string (s @ t) = (fst (collect_quoted_string s), snd (collect_quoted_string s) @ t)"
proof (induction s rule: quoted_closed.induct)
  case (2 c cs)
  consider "c = CHR ''\"''" | e cs' where "c = CHR 92" "cs = e # cs'" "c \<noteq> CHR ''\"''"
    | "c \<noteq> CHR ''\"''" "c \<noteq> CHR 92"
    using 2(3) by (cases cs) (auto split: if_splits)
  then show ?case
  proof cases
    case 2
    then have "collect_quoted_string (cs' @ t) = (fst (collect_quoted_string cs'), snd (collect_quoted_string cs') @ t)"
      using "2.IH"(1)[of e cs'] "2.prems" by simp
    with 2 show ?thesis by (simp add: case_prod_unfold Let_def)
  next
    case 3
    then have "collect_quoted_string (cs @ t) = (fst (collect_quoted_string cs), snd (collect_quoted_string cs) @ t)"
      using "2.IH"(2) "2.prems" by simp
    with 3 show ?thesis by (simp add: case_prod_unfold Let_def)
  qed simp
qed simp

lemma split_members_atomic:
  "atomic_member m \<Longrightarrow>
     split_members acc (m @ CHR '','' # rest) = trim_chars http_ws (acc @ m) # split_members [] rest \<and>
     split_members acc m = [trim_chars http_ws (acc @ m)]"
proof (induction m arbitrary: acc rule: atomic_member.induct)
  case (2 c cs)
  show ?case
  proof (cases "c = CHR ''\"''")
    case True
    let ?q = "fst (collect_quoted_string cs)" and ?r = "snd (collect_quoted_string cs)"
    have q: "quoted_closed cs" "atomic_member ?r" using 2(3) True by auto
    have "collect_quoted_string (cs @ CHR '','' # rest) = (?q, ?r @ CHR '','' # rest)"
      by (rule collect_quoted_closed[OF q(1)])
    moreover have "collect_quoted_string cs = (?q, ?r)" by simp
    ultimately show ?thesis
      using "2.IH"(1)[OF _ True q(2), of "acc @ c # ?q"] True collect_quoted_append[of cs]
      by (simp add: Let_def case_prod_unfold)
  next
    case False
    with 2 show ?thesis by (auto split: if_splits)
  qed
qed simp

lemma trim_chars_lead: "c \<in> set ws \<Longrightarrow> trim_chars ws (c # s) = trim_chars ws s"
  by (simp add: trim_chars_def)

lemma split_join:
  assumes "ms \<noteq> []" "\<forall>m \<in> set ms. atomic_member m \<and> trim_chars http_ws m = m"
    "sp \<in> {[], '' ''}" "sep \<in> {[], '' ''}"
  shows "split_members sp (join (CHR '','' # sep) ms) = ms"
  using assms
proof (induction ms arbitrary: sp)
  case (Cons x ms)
  have x: "trim_chars http_ws (sp @ x) = x" using Cons.prems by (auto simp: trim_chars_lead)
  have lead: "split_members [] (sep @ s) = split_members sep s" for s
    using Cons.prems(4) by auto
  show ?case
  proof (cases ms)
    case Nil
    then show ?thesis using split_members_atomic[of x sp] Cons.prems(2) x by simp
  next
    case ms: (Cons y ys)
    have "split_members sp (join (CHR '','' # sep) (x # y # ys)) =
        trim_chars http_ws (sp @ x) # split_members [] (sep @ join (CHR '','' # sep) (y # ys))"
      using split_members_atomic[of x sp] Cons.prems(2) by simp
    also have "\<dots> = x # split_members sep (join (CHR '','' # sep) (y # ys))" by (simp add: x lead)
    also have "\<dots> = x # y # ys" using Cons.IH[of sep] Cons.prems ms by simp
    finally show ?thesis using ms by simp
  qed
qed simp

text \<open>
  Combining header values and splitting the combined value gives the members back: a comma
  inside a terminated quoted string never splits, and surrounding blanks are not part of a
  member.
\<close>

theorem header_combine_split:
  assumes "ms \<noteq> []" "\<forall>m \<in> set ms. atomic_member m \<and> trim_chars http_ws m = m"
  shows "map_option split_header_value (combined_header ms) = Some ms"
proof -
  have "map (trim_chars http_ws) ms = ms" using assms(2) by (simp add: map_idI)
  then show ?thesis
    using assms split_join[of ms "[]" "'' ''"] by (simp add: combined_header_def split_header_value_def)
qed

theorem header_combine_split_witness:
  "map_option split_header_value (combined_header [''a'', [CHR 0x22, CHR '','', CHR 0x22]]) =
     Some [''a'', [CHR 0x22, CHR '','', CHR 0x22]]"
  by (rule header_combine_split) (simp_all add: trim_chars_def char_of_def)

lemma isomorphic_roundtrip: "isomorphic_encode (isomorphic_decode s) = Some s"
proof (induction s)
  case (Cons c s)
  have b: "byte c < 256" by (metis of_char_mod_256 mod_less_divisor zero_less_numeral)
  show ?case
  proof (cases "byte c < 0x80")
    case False
    have "byte c div 64 < 4" "2 \<le> byte c div 64"
      using b False div_le_mono[of 128 "byte c" 64] by (simp_all add: div_less_iff_less_mult)
    then have "byte c div 64 = 2 \<or> byte c div 64 = 3" by linarith
    moreover have "byte (char_of (0xC0 + byte c div 64)) = 0xC0 + byte c div 64"
      "byte (char_of (0x80 + byte c mod 64)) = 0x80 + byte c mod 64"
      using calculation by (auto simp: of_char_of)
    ultimately show ?thesis using Cons False
      by (auto simp: isomorphic_decode_def latin1_utf8_def mult.commute) 
  qed (use Cons in \<open>simp add: isomorphic_decode_def latin1_utf8_def\<close>)
qed (simp add: isomorphic_decode_def)

section \<open>The header map\<close>

text \<open>Names are stored in the lowercase form the \<open>http\<close> crate parses them to.\<close>

definition hm_wf :: "header_map \<Rightarrow> bool" where
  "hm_wf m \<longleftrightarrow> list_all (\<lambda>e. to_ascii_lowercase (fst e) = fst e) (hm_entries m)"

lemma set_entries_None:
  "set_entries name None es = (filter (\<lambda>e. fst e \<noteq> name) es, None)"
  by (induction es) auto

lemma set_entries_Some:
  assumes "set_entries name (Some v) es = (es', r)"
  shows "filter (\<lambda>e. fst e \<noteq> name) es' = filter (\<lambda>e. fst e \<noteq> name) es \<and>
    (case r of Some w \<Rightarrow> w = v \<and> name \<notin> fst ` set es \<and> es' = es
     | None \<Rightarrow> name \<in> fst ` set es \<and> filter (\<lambda>e. fst e = name) es' = [(name, v)] \<and>
         position (\<lambda>e. fst e = name) es' = position (\<lambda>e. fst e = name) es)"
  using assms
proof (induction es arbitrary: es')
  case (Cons e es)
  show ?case
  proof (cases "fst e = name")
    case True
    then have "es' = (name, v) # filter (\<lambda>e. fst e \<noteq> name) es" "r = None"
      using Cons.prems by (simp_all add: set_entries_None)
    with True show ?thesis by (simp add: filter_empty_conv)
  next
    case False
    obtain es2 r2 where es2: "set_entries name (Some v) es = (es2, r2)" by fastforce
    with Cons.prems False have eq: "es' = e # es2" "r = r2" by auto
    show ?thesis using Cons.IH[of es2] es2 False unfolding eq by (cases r2) auto
  qed
qed auto

text \<open>
  \<open>HeaderMap::set\<close> leaves exactly one field of that name, with the new value, at the
  position of the first old one (at the end when there was none), and no field of another
  name is touched or moved relative to the others.
\<close>

theorem header_map_set:
  assumes "hm_wf m" "to_ascii_lowercase name = name"
  shows "hm_get_all (hm_set name v m) name = [v] \<and>
    filter (\<lambda>e. fst e \<noteq> name) (hm_entries (hm_set name v m)) = filter (\<lambda>e. fst e \<noteq> name) (hm_entries m) \<and>
    position (\<lambda>e. fst e = name) (hm_entries (hm_set name v m)) =
      (case position (\<lambda>e. fst e = name) (hm_entries m) of Some i \<Rightarrow> Some i | None \<Rightarrow> Some (length (hm_entries m))) \<and>
    hm_wf (hm_set name v m)"
proof -
  obtain es r where se: "set_entries name (Some v) (hm_entries m) = (es, r)" by fastforce
  note S = conjunct1[OF set_entries_Some[OF se]] conjunct2[OF set_entries_Some[OF se]]
  define es' where "es' = (case r of Some w \<Rightarrow> es @ [(name, w)] | None \<Rightarrow> es)"
  have e': "hm_entries (hm_set name v m) = es'" using se by (simp add: hm_set_def es'_def)
  have f: "filter (\<lambda>e. fst e = name) es' = [(name, v)]"
    "filter (\<lambda>e. fst e \<noteq> name) es' = filter (\<lambda>e. fst e \<noteq> name) (hm_entries m)"
    using S by (auto simp: es'_def filter_empty_conv split: option.splits)
  have mem: "set es' \<subseteq> insert (name, v) (set (hm_entries m))"
  proof
    fix e
    assume "e \<in> set es'"
    then have "e \<in> set (filter (\<lambda>e. fst e = name) es') \<or> e \<in> set (filter (\<lambda>e. fst e \<noteq> name) es')" by auto
    then show "e \<in> insert (name, v) (set (hm_entries m))" unfolding f by auto
  qed
  have wf: "list_all (\<lambda>e. to_ascii_lowercase (fst e) = fst e) es'"
    using mem assms by (auto simp: hm_wf_def list_all_iff)
  have "filter (\<lambda>e. eq_ignore_ascii_case (fst e) name) es' = filter (\<lambda>e. fst e = name) es'"
    using wf assms(2) by (intro filter_cong) (auto simp: eq_ignore_ascii_case_def list_all_iff)
  then have "hm_get_all (hm_set name v m) name = [v]" by (simp add: hm_get_all_def e' f)
  moreover have "position (\<lambda>e. fst e = name) es' =
      (case position (\<lambda>e. fst e = name) (hm_entries m) of Some i \<Rightarrow> Some i | None \<Rightarrow> Some (length (hm_entries m)))"
  proof (cases r)
    case None
    then have "position (\<lambda>e. fst e = name) (hm_entries m) \<noteq> None" using S(2) by (auto simp: position_None)
    then show ?thesis using S(2) None by (auto simp: es'_def)
  next
    case (Some w)
    then have n: "position (\<lambda>e. fst e = name) (hm_entries m) = None" "es = hm_entries m"
      using S(2) by (auto simp: position_None)
    have "position P xs = None \<Longrightarrow> P x \<Longrightarrow> position P (xs @ [x]) = Some (length xs)"
      for P and xs :: "(string \<times> string) list" and x
      by (induction xs) (auto split: if_splits)
    then show ?thesis using n Some by (simp add: es'_def)
  qed
  ultimately show ?thesis using f(2) wf by (simp add: e' hm_wf_def)
qed

theorem header_map_set_witness:
  "hm_get_all (hm_set ''b'' ''3'' \<lparr> hm_entries = [(''a'', ''1''), (''b'', ''2'')] \<rparr>) ''b'' = [''3'']"
proof -
  have "hm_wf \<lparr> hm_entries = [(''a'', ''1''), (''b'', ''2'')] \<rparr>" "to_ascii_lowercase ''b'' = ''b''"
    by (simp_all add: hm_wf_def to_ascii_lowercase_def ascii_lower_char_def)
  from header_map_set[OF this, THEN conjunct1] show ?thesis by simp
qed

section \<open>CORS\<close>

definition page_headers :: "header_map \<Rightarrow> (string \<times> string) list" where
  "page_headers m = filter (\<lambda>(n, v). \<not> is_forbidden_request_header_name n) (hm_iter m)"

definition safelisted_size :: "header_map \<Rightarrow> nat" where
  "safelisted_size m = sum_list (map (\<lambda>(n, v). if is_cors_safelisted_request_header n v then length v else 0) (page_headers m))"

lemma scan_unsafe_eq:
  "scan_unsafe hs u p n =
     (let ps = filter (\<lambda>(n, v). \<not> is_forbidden_request_header_name n) hs
      in (u @ map (\<lambda>(n, v). to_ascii_lowercase n) (filter (\<lambda>(n, v). \<not> is_cors_safelisted_request_header n v) ps),
          p @ map (\<lambda>(n, v). to_ascii_lowercase n) (filter (\<lambda>(n, v). is_cors_safelisted_request_header n v) ps),
          n + sum_list (map (\<lambda>(n, v). if is_cors_safelisted_request_header n v then length v else 0) ps)))"
  by (induction hs u p n rule: scan_unsafe.induct) (auto simp: Let_def)

text \<open>
  The preflight decision. The CORS-unsafe names are the lowercased names, each once and
  in byte order, of the page's headers that are not safelisted, or of all of them when the
  safelisted values together exceed 1024 bytes; and a request skips the preflight exactly
  when its method is safelisted and every header a page may set is.
\<close>

theorem preflight_decision:
  "set (unsafe_request_header_names m) =
     {to_ascii_lowercase n | n v. (n, v) \<in> set (page_headers m) \<and>
        (\<not> is_cors_safelisted_request_header n v \<or> safelisted_size m > 1024)} \<and>
   sorted (unsafe_request_header_names m) \<and> distinct (unsafe_request_header_names m) \<and>
   (needs_preflight meth (unsafe_request_header_names m) \<longleftrightarrow>
     \<not> (is_cors_safelisted_method meth \<and> safelisted_size m \<le> 1024 \<and>
        (\<forall>(n, v) \<in> set (page_headers m). is_cors_safelisted_request_header n v)))"
proof -
  let ?ns = "unsafe_request_header_names m"
  define U P where "U = map (\<lambda>(n, v). to_ascii_lowercase n) (filter (\<lambda>(n, v). \<not> is_cors_safelisted_request_header n v) (page_headers m))"
    and "P = map (\<lambda>(n, v). to_ascii_lowercase n) (filter (\<lambda>(n, v). is_cors_safelisted_request_header n v) (page_headers m))"
  have ns: "?ns = remdups_adj (sort (if safelisted_size m > 1024 then U @ P else U))"
    by (simp add: unsafe_request_header_names_def scan_unsafe_eq page_headers_def U_def P_def safelisted_size_def Let_def)
  have set_ns: "set ?ns = {to_ascii_lowercase n | n v. (n, v) \<in> set (page_headers m) \<and>
        (\<not> is_cors_safelisted_request_header n v \<or> safelisted_size m > 1024)}"
    unfolding ns by (force simp: U_def P_def)
  have sz: "safelisted_size m = 0" if "page_headers m = []" using that by (simp add: safelisted_size_def)
  have "?ns = [] \<longleftrightarrow> safelisted_size m \<le> 1024 \<and>
      (\<forall>(n, v) \<in> set (page_headers m). is_cors_safelisted_request_header n v)"
    unfolding set_empty[symmetric] set_ns using sz by (cases "page_headers m") (auto simp: not_less)
  moreover have "sorted ?ns" "distinct ?ns" by (simp_all add: ns sorted_remdups_adj_distinct)
  ultimately show ?thesis using set_ns by (auto simp: needs_preflight_def)
qed

theorem preflight_decision_witness:
  "needs_preflight ''GET'' (unsafe_request_header_names \<lparr> hm_entries = [(''x-a'', ''1'')] \<rparr>)"
proof -
  have "(''x-a'', ''1'') \<in> set (page_headers \<lparr> hm_entries = [(''x-a'', ''1'')] \<rparr>)"
    "\<not> is_cors_safelisted_request_header ''x-a'' ''1''" by code_simp+
  then show ?thesis
    using preflight_decision[where meth = "''GET''" and m = "\<lparr> hm_entries = [(''x-a'', ''1'')] \<rparr>"] by blast
qed

subsection \<open>The preflight exchange\<close>

text \<open>A token as request methods and header names are: ASCII with no blank, comma or quote.\<close>

definition plain_token :: "string \<Rightarrow> bool" where
  "plain_token t \<longleftrightarrow> t \<noteq> [] \<and> list_all (\<lambda>c. byte c < 0x80 \<and> c \<notin> set http_ws \<and> c \<noteq> CHR '','' \<and> c \<noteq> CHR 0x22) t"

lemma plain_token_atomic: "list_all (\<lambda>c. c \<noteq> CHR '','' \<and> c \<noteq> CHR 0x22) t \<Longrightarrow> atomic_member t"
  by (induction t) auto

lemma trim_chars_id:
  assumes "list_all (\<lambda>c. c \<notin> set ws) t"
  shows "trim_chars ws t = t"
proof -
  have "dropWhile (\<lambda>c. c \<in> set ws) xs = xs" if "set xs = set t" for xs
    using assms that by (cases xs) (auto simp: list_all_iff)
  then show ?thesis by (simp add: trim_chars_def)
qed

lemma isomorphic_decode_ascii: "list_all (\<lambda>c. byte c < 0x80) s \<Longrightarrow> isomorphic_decode s = s"
  by (induction s) (simp_all add: isomorphic_decode_def latin1_utf8_def)

lemma list_all_join: "list_all P sep \<Longrightarrow> list_all (list_all P) ms \<Longrightarrow> list_all P (join sep ms)"
  by (induction sep ms rule: join.induct) auto

lemma list_items_joined:
  assumes "list_all plain_token ms" "ms \<noteq> []" "hm_get_all m name = [join '','' ms]"
  shows "list_items m name = ms"
proof -
  have ascii: "list_all (\<lambda>c. byte c < 0x80) (join '','' ms)"
    using assms(1) by (intro list_all_join) (auto simp: plain_token_def list_all_iff)
  have "atomic_member t \<and> trim_chars http_ws t = t" if "t \<in> set ms" for t
  proof
    have t: "list_all (\<lambda>c. byte c < 0x80 \<and> c \<notin> set http_ws \<and> c \<noteq> CHR '','' \<and> c \<noteq> CHR 0x22) t"
      using assms(1) that unfolding list_all_iff plain_token_def by blast
    show "atomic_member t" using t by (intro plain_token_atomic) (rule list.pred_mono_strong, assumption, blast)
    show "trim_chars http_ws t = t" using t by (intro trim_chars_id) (rule list.pred_mono_strong, assumption, blast)
  qed
  then have "\<forall>t \<in> set ms. atomic_member t \<and> trim_chars http_ws t = t" by blast
  from split_join[OF assms(2) this, of "[]" "[]"]
  have "get_decode_split m name = Some ms"
    using assms(3) by (simp add: get_decode_split_def isomorphic_decode_ascii[OF ascii] split_header_value_def)
  then show ?thesis using assms(1) by (auto simp: list_items_def plain_token_def list_all_iff filter_id_conv)
qed

text \<open>The response of a server that grants what the preflight request asks for.\<close>

definition granting_response :: "header_map \<Rightarrow> header_map" where
  "granting_response req =
     (let grant = (\<lambda>allow request m. case hm_get req request of Some v \<Rightarrow> hm_append allow v m | None \<Rightarrow> m)
      in grant ''access-control-allow-headers'' ''access-control-request-headers''
           (grant ''access-control-allow-methods'' ''access-control-request-method''
             (hm_append ''access-control-allow-credentials'' ''true''
               (grant ''access-control-allow-origin'' ''origin'' hm_new))))"

lemma granting_entries:
  "hm_entries (granting_response (preflight_headers meth ns orig)) =
     [(''access-control-allow-origin'', orig), (''access-control-allow-credentials'', ''true''),
      (''access-control-allow-methods'', meth)] @
     (if ns = [] then [] else [(''access-control-allow-headers'', join '','' ns)])"
proof -
  let ?N = "[''accept'', ''origin'', ''access-control-request-method'', ''access-control-request-headers'']"
  have "list_all (\<lambda>n. to_ascii_lowercase n = n) ?N" by code_simp
  then have names: "eq_ignore_ascii_case n n' \<longleftrightarrow> n = n'" if "n \<in> set ?N" "n' \<in> set ?N" for n n'
    using that unfolding list_all_iff eq_ignore_ascii_case_def by metis
  show ?thesis
    by (simp add: granting_response_def preflight_headers_def hm_append_def hm_new_def hm_get_def hm_get_all_def
        names Let_def)
qed

lemma granting_get_all:
  assumes "m = granting_response (preflight_headers meth ns orig)"
  shows "hm_get_all m ''access-control-allow-origin'' = [orig]"
    and "hm_get_all m ''access-control-allow-credentials'' = [''true'']"
    and "hm_get_all m ''access-control-allow-methods'' = [meth]"
    and "hm_get_all m ''access-control-allow-headers'' = (if ns = [] then [] else [join '','' ns])"
proof -
  let ?N = "[''access-control-allow-origin'', ''access-control-allow-credentials'',
    ''access-control-allow-methods'', ''access-control-allow-headers'']"
  have "list_all (\<lambda>n. to_ascii_lowercase n = n) ?N" by code_simp
  then have names: "eq_ignore_ascii_case n n' \<longleftrightarrow> n = n'" if "n \<in> set ?N" "n' \<in> set ?N" for n n'
    using that unfolding list_all_iff eq_ignore_ascii_case_def by metis
  show "hm_get_all m ''access-control-allow-origin'' = [orig]"
    "hm_get_all m ''access-control-allow-credentials'' = [''true'']"
    "hm_get_all m ''access-control-allow-methods'' = [meth]"
    "hm_get_all m ''access-control-allow-headers'' = (if ns = [] then [] else [join '','' ns])"
    by (simp_all add: assms hm_get_all_def granting_entries names)
qed

lemma collect_options_map: "(\<forall>x \<in> set xs. f x = Some (g x)) \<Longrightarrow> collect_options (map f xs) = Some (map g xs)"
  by (induction xs) auto

lemma collect_options_Some: "collect_options os = Some ys \<longleftrightarrow> os = map Some ys"
  by (induction os arbitrary: ys) (auto split: option.splits)

text \<open>
  The preflight exchange completes: a 2xx response that grants exactly what the preflight
  request asks for, in its \<open>Origin\<close>, \<open>Access-Control-Request-Method\<close> and
  \<open>Access-Control-Request-Headers\<close> fields, is accepted, with and without credentials. The names
  are plain tokens the \<open>http\<close> crate parses to themselves, the origin is visible ASCII text.
\<close>

theorem preflight_exchange:
  assumes "200 \<le> st" "st \<le> 299" "visible_ascii orig"
    and "plain_token meth" "method_of hc meth = Some meth"
    and "\<forall>n \<in> set ns. plain_token n \<and> header_name_of hc n = Some n"
  shows "preflight_ok hc st (granting_response (preflight_headers meth ns orig)) orig cred meth ns"
proof -
  let ?m = "granting_response (preflight_headers meth ns orig)"
  note get = granting_get_all[of ?m meth ns orig, OF refl]
  have true: "visible_ascii ''true''" by code_simp
  have check: "cors_check ?m orig cred"
    using assms(3) true
    by (simp add: cors_check_def cors_header_def get from_utf8_visible trim_visible eq_ignore_ascii_case_def)
  have "list_items ?m ''access-control-allow-methods'' = [meth]"
    using list_items_joined[of "[meth]"] assms(4) get(3) by simp
  then have methods: "list_methods hc ?m ''access-control-allow-methods'' = Some [meth]"
    using assms(5) by (simp add: list_methods_def)
  have items: "list_items ?m ''access-control-allow-headers'' = ns"
  proof (cases "ns = []")
    case True
    then show ?thesis using get(4) by (simp add: list_items_def get_decode_split_def)
  next
    case False
    then show ?thesis using list_items_joined[of ns] assms(6) get(4) by (simp add: list_all_iff)
  qed
  have "collect_options (map (header_name_of hc) ns) = Some (map (\<lambda>n. n) ns)"
    by (rule collect_options_map) (use assms(6) in blast)
  then have names: "list_header_names hc ?m ''access-control-allow-headers'' = Some ns"
    by (simp add: list_header_names_def items)
  have listed: "list_ex (\<lambda>v. eq_ignore_ascii_case v n) ns" if "n \<in> set ns" for n
    using that by (auto simp: list_ex_iff eq_ignore_ascii_case_def)
  show ?thesis
    unfolding preflight_ok_def methods names option.case Let_def
    using assms(1,2) listed check by (auto simp: list_all_iff)
qed

theorem preflight_exchange_witness:
  "preflight_ok \<lparr> header_name_of = Some, header_value_of = Some, method_of = Some \<rparr> 204
     (granting_response (preflight_headers ''PUT'' [''authorization'', ''x-a''] ''https://a.example''))
     ''https://a.example'' True ''PUT'' [''authorization'', ''x-a'']"
proof (rule preflight_exchange)
  show "visible_ascii ''https://a.example''" "plain_token ''PUT''" by code_simp+
  have "plain_token ''authorization''" "plain_token ''x-a''" by code_simp+
  then show "\<forall>n \<in> set [''authorization'', ''x-a'']. plain_token n \<and>
      header_name_of \<lparr> header_name_of = Some, header_value_of = Some, method_of = Some \<rparr> n = Some n" by simp
qed simp_all

text \<open>
  \<^bold>\<open>C26.\<close> What an accepted preflight response has granted. The status is 2xx; the origin is
  allowed by its exact serialization, or by \<open>*\<close> without credentials; credentials are allowed by
  the word \<open>true\<close>; the method is safelisted, listed, or covered by \<open>*\<close> without credentials; and
  every unsafe header name is listed, or covered by \<open>*\<close> without credentials, which never covers
  \<open>authorization\<close>. Both lists are well formed.
\<close>

theorem preflight_sound:
  assumes "preflight_ok hc st m orig cred meth ns"
  shows "200 \<le> st \<and> st \<le> 299 \<and>
    (\<exists>v. cors_header m ''access-control-allow-origin'' = Some v \<and> (trim v = orig \<or> trim v = ''*'' \<and> \<not> cred)) \<and>
    (\<not> cred \<or> (\<exists>v. cors_header m ''access-control-allow-credentials'' = Some v \<and> eq_ignore_ascii_case (trim v) ''true'')) \<and>
    (is_cors_safelisted_method meth \<or>
      Some meth \<in> method_of hc ` set (list_items m ''access-control-allow-methods'') \<or>
      \<not> cred \<and> Some ''*'' \<in> method_of hc ` set (list_items m ''access-control-allow-methods'')) \<and>
    (\<forall>n \<in> set ns. \<exists>t \<in> set (list_items m ''access-control-allow-headers''). \<exists>v. header_name_of hc t = Some v \<and>
       (eq_ignore_ascii_case v n \<or> \<not> cred \<and> n \<noteq> ''authorization'' \<and> eq_ignore_ascii_case v ''*'')) \<and>
    None \<notin> method_of hc ` set (list_items m ''access-control-allow-methods'') \<and>
    None \<notin> header_name_of hc ` set (list_items m ''access-control-allow-headers'')"
proof -
  let ?A = "list_items m ''access-control-allow-methods''" and ?H = "list_items m ''access-control-allow-headers''"
  have st: "200 \<le> st" "st \<le> 299" and check: "cors_check m orig cred"
    using assms by (auto simp: preflight_ok_def split: if_splits)
  obtain ms where ms: "list_methods hc m ''access-control-allow-methods'' = Some ms"
    using assms st check by (auto simp: preflight_ok_def split: option.splits)
  obtain hs where hs: "list_header_names hc m ''access-control-allow-headers'' = Some hs"
    using assms st check ms by (auto simp: preflight_ok_def Let_def split: option.splits if_splits)
  have maps: "map (method_of hc) ?A = map Some ms" "map (header_name_of hc) ?H = map Some hs"
    using ms hs by (simp_all add: list_methods_def list_header_names_def collect_options_Some)
  have sets: "method_of hc ` set ?A = Some ` set ms" "header_name_of hc ` set ?H = Some ` set hs"
    using maps[THEN arg_cong[of _ _ set]] by simp_all
  have ok: "meth \<in> set ms \<or> is_cors_safelisted_method meth \<or> (\<not> cred \<and> ''*'' \<in> set ms)"
    "''authorization'' \<in> set ns \<Longrightarrow> \<exists>v \<in> set hs. eq_ignore_ascii_case v ''authorization''"
    "(\<not> cred \<and> (\<exists>v \<in> set hs. eq_ignore_ascii_case v ''*'')) \<or> (\<forall>n \<in> set ns. \<exists>v \<in> set hs. eq_ignore_ascii_case v n)"
    using assms unfolding preflight_ok_def ms hs option.case Let_def list_ex_iff list_all_iff
    by (auto split: if_splits)
  have names: "\<exists>t \<in> set ?H. \<exists>v. header_name_of hc t = Some v \<and>
      (eq_ignore_ascii_case v n \<or> \<not> cred \<and> n \<noteq> ''authorization'' \<and> eq_ignore_ascii_case v ''*'')"
    if n: "n \<in> set ns" for n
  proof -
    obtain v where v: "v \<in> set hs"
      "eq_ignore_ascii_case v n \<or> \<not> cred \<and> n \<noteq> ''authorization'' \<and> eq_ignore_ascii_case v ''*''"
    proof (cases "n = ''authorization''")
      case True
      then show ?thesis using ok(2) n that by metis
    next
      case False
      then show ?thesis using ok(3) n that by metis
    qed
    have "Some v \<in> header_name_of hc ` set ?H" unfolding sets using v(1) by (rule imageI)
    then obtain t where "t \<in> set ?H" "header_name_of hc t = Some v" by (elim imageE) simp
    with v(2) show ?thesis by blast
  qed
  have orig: "\<exists>v. cors_header m ''access-control-allow-origin'' = Some v \<and> (trim v = orig \<or> trim v = ''*'' \<and> \<not> cred)"
    "\<not> cred \<or> (\<exists>v. cors_header m ''access-control-allow-credentials'' = Some v \<and> eq_ignore_ascii_case (trim v) ''true'')"
    using check unfolding cors_check_def Let_def by (auto split: option.splits if_splits)
  have methods: "is_cors_safelisted_method meth \<or> Some meth \<in> method_of hc ` set ?A \<or>
      \<not> cred \<and> Some ''*'' \<in> method_of hc ` set ?A"
    using ok(1) unfolding sets by blast
  have formed: "None \<notin> method_of hc ` set ?A" "None \<notin> header_name_of hc ` set ?H"
    unfolding sets by blast+
  show ?thesis
    by (intro conjI ballI) (rule st orig methods formed | erule names)+
qed

theorem preflight_sound_witness:
  "\<exists>v. cors_header \<lparr> hm_entries = [(''access-control-allow-origin'', ''*'')] \<rparr> ''access-control-allow-origin'' = Some v \<and>
     (trim v = ''https://a.example'' \<or> trim v = ''*'' \<and> \<not> False)"
proof -
  let ?m = "\<lparr> hm_entries = [(''access-control-allow-origin'', ''*'')] \<rparr>"
  have get: "hm_get_all ?m ''access-control-allow-origin'' = [''*'']" "hm_get_all ?m ''access-control-allow-methods'' = []"
    "hm_get_all ?m ''access-control-allow-headers'' = []" by code_simp+
  have "visible_ascii ''*''" by code_simp
  then have "preflight_ok \<lparr> header_name_of = Some, header_value_of = Some, method_of = Some \<rparr> 200 ?m
      ''https://a.example'' False ''GET'' []"
    by (simp add: preflight_ok_def cors_check_def cors_header_def get list_methods_def list_header_names_def
        list_items_def get_decode_split_def from_utf8_visible trim_visible is_cors_safelisted_method_def)
  from preflight_sound[OF this] show ?thesis by blast
qed

section \<open>Referrers\<close>

text \<open>
  What the \<open>url\<close> crate documents of its setters on an HTTP(S) URL, which always has a host:
  each changes its own component and the serialization, and an empty path becomes \<open>/\<close>.
\<close>

definition url_api_ok :: "url_api \<Rightarrow> bool" where
  "url_api_ok api \<longleftrightarrow> (\<forall>u. u_scheme u \<in> {''http'', ''https''} \<longrightarrow>
     (\<exists>h. set_username api [] u = u\<lparr>u_username := [], u_href := h\<rparr>) \<and>
     (\<exists>h. set_password api None u = u\<lparr>u_password := None, u_href := h\<rparr>) \<and>
     (\<exists>h. set_fragment api None u = u\<lparr>u_fragment := None, u_href := h\<rparr>) \<and>
     (\<exists>h. set_path api [] u = u\<lparr>u_path := ''/'', u_href := h\<rparr>) \<and>
     (\<exists>h. set_query api None u = u\<lparr>u_query := None, u_href := h\<rparr>))"

definition referrer_source :: "referrer \<Rightarrow> url option" where
  "referrer_source r =
     (case r of NoReferrer \<Rightarrow> None | Client c \<Rightarrow> (if is_tuple (rc_origin c) then Some (rc_url c) else None)
      | RUrl u \<Rightarrow> Some u)"

text \<open>The source without what a \<open>Referer\<close> never carries; \<open>bare\<close> also without path and query.\<close>

definition stripped_of :: "url \<Rightarrow> bool \<Rightarrow> url \<Rightarrow> bool" where
  "stripped_of source bare u \<longleftrightarrow>
     u_username u = [] \<and> u_password u = None \<and> u_fragment u = None \<and>
     u_scheme u = u_scheme source \<and> u_host u = u_host source \<and> u_port u = u_port source \<and>
     u_origin u = u_origin source \<and>
     (if bare then u_path u = ''/'' \<and> u_query u = None
      else u_path u = u_path source \<and> u_query u = u_query source)"

lemma strip_url_stripped:
  assumes "url_api_ok api" "u_scheme u \<in> {''http'', ''https''}"
  shows "stripped_of u bare (strip_url api u bare)"
proof -
  note law = assms(1)[unfolded url_api_ok_def, rule_format]
  obtain h1 where h1: "set_username api [] u = u\<lparr>u_username := [], u_href := h1\<rparr>" using law[of u] assms(2) by blast
  let ?u1 = "u\<lparr>u_username := [], u_href := h1\<rparr>"
  obtain h2 where h2: "set_password api None ?u1 = ?u1\<lparr>u_password := None, u_href := h2\<rparr>"
    using law[of ?u1] assms(2) by auto
  let ?u2 = "?u1\<lparr>u_password := None, u_href := h2\<rparr>"
  obtain h3 where h3: "set_fragment api None ?u2 = ?u2\<lparr>u_fragment := None, u_href := h3\<rparr>"
    using law[of ?u2] assms(2) by auto
  let ?u3 = "?u2\<lparr>u_fragment := None, u_href := h3\<rparr>"
  obtain h4 where h4: "set_path api [] ?u3 = ?u3\<lparr>u_path := ''/'', u_href := h4\<rparr>" using law[of ?u3] assms(2) by auto
  let ?u4 = "?u3\<lparr>u_path := ''/'', u_href := h4\<rparr>"
  obtain h5 where h5: "set_query api None ?u4 = ?u4\<lparr>u_query := None, u_href := h5\<rparr>"
    using law[of ?u4] assms(2) by auto
  show ?thesis
    unfolding strip_url_def h1 h2 h3 Let_def h4 h5 stripped_of_def by simp
qed

lemma stripped_trustworthy:
  "stripped_of u bare v \<Longrightarrow> u_scheme u \<in> {''http'', ''https''} \<Longrightarrow>
     is_potentially_trustworthy p v = is_potentially_trustworthy p u"
  by (auto simp: stripped_of_def is_potentially_trustworthy_def)

definition is_downgrade :: "url_api \<Rightarrow> url \<Rightarrow> url \<Rightarrow> bool" where
  "is_downgrade api source target \<longleftrightarrow>
     is_potentially_trustworthy (parse_url api) source \<and> \<not> is_potentially_trustworthy (parse_url api) target"

lemma determine_referrer_source:
  "determine_referrer api policy r target =
     (case referrer_source r of None \<Rightarrow> None | Some source \<Rightarrow> determine_referrer api policy (RUrl source) target)"
  by (cases r) (simp_all add: determine_referrer_def referrer_source_def)

lemma determine_referrer_other:
  "u_scheme source \<notin> {''http'', ''https''} \<Longrightarrow> determine_referrer api policy (RUrl source) target = None"
  by (simp add: determine_referrer_def)

definition full_referrer :: "url_api \<Rightarrow> url \<Rightarrow> url" where
  "full_referrer api source =
     (let full = strip_url api source False
      in if length (u_href full) > 4096 then strip_url api source True else full)"

lemma full_referrer_stripped:
  assumes "url_api_ok api" "u_scheme source \<in> {''http'', ''https''}"
  obtains bare where "stripped_of source bare (full_referrer api source)"
    "bare \<or> length (u_href (full_referrer api source)) \<le> 4096"
proof (cases "length (u_href (strip_url api source False)) > 4096")
  case True
  then show ?thesis using that[of True] strip_url_stripped[OF assms, of True] by (simp add: full_referrer_def)
next
  case False
  then show ?thesis using that[of False] strip_url_stripped[OF assms, of False] by (simp add: full_referrer_def)
qed

lemma determine_referrer_http:
  assumes "url_api_ok api" "u_scheme source \<in> {''http'', ''https''}"
  shows "determine_referrer api policy (RUrl source) target =
    (let same_origin = (u_origin source = u_origin target); downgrade = is_downgrade api source target;
         full = full_referrer api source; bare = strip_url api source True
     in case policy of
       PNoReferrer \<Rightarrow> None
     | POrigin \<Rightarrow> Some bare
     | PUnsafeUrl \<Rightarrow> Some full
     | PStrictOrigin \<Rightarrow> if \<not> downgrade then Some bare else None
     | PStrictOriginWhenCrossOrigin \<Rightarrow>
         if same_origin then Some full else if downgrade then None else Some bare
     | PSameOrigin \<Rightarrow> if same_origin then Some full else None
     | POriginWhenCrossOrigin \<Rightarrow> Some (if same_origin then full else bare)
     | PNoReferrerWhenDowngrade \<Rightarrow> if \<not> downgrade then Some full else None)"
proof -
  obtain b where f: "stripped_of source b (full_referrer api source)" by (rule full_referrer_stripped[OF assms])
  have same: "u_origin (full_referrer api source) = u_origin source" using f by (simp add: stripped_of_def)
  have trust: "is_potentially_trustworthy (parse_url api) (full_referrer api source) =
      is_potentially_trustworthy (parse_url api) source"
    by (rule stripped_trustworthy[OF f assms(2)])
  have sch: "(u_scheme source \<notin> set [''http'', ''https'']) = False" using assms(2) by simp
  show ?thesis
    unfolding determine_referrer_def referrer.case option.case sch if_False
      full_referrer_def[of api source, unfolded Let_def, symmetric] Let_def same trust is_downgrade_def ..
qed

text \<open>
  \<^bold>\<open>C27.\<close> What a request's \<open>Referer\<close> reveals. It is withheld exactly when there is no usable
  source or the policy withholds it for this target; otherwise it names the source without
  credentials and fragment. Under a policy that guards the path, a cross-origin target sees
  only the origin, and a full URL is sent only while its serialization fits 4096 bytes.
\<close>

theorem referrer_policy_respected:
  assumes "url_api_ok api"
  shows "case determine_referrer api policy r target of
    None \<Rightarrow> (case referrer_source r of None \<Rightarrow> True | Some source \<Rightarrow>
      u_scheme source \<notin> {''http'', ''https''} \<or> policy = PNoReferrer \<or>
      (policy = PSameOrigin \<and> u_origin source \<noteq> u_origin target) \<or>
      (policy \<in> {PStrictOrigin, PNoReferrerWhenDowngrade} \<and> is_downgrade api source target) \<or>
      (policy = PStrictOriginWhenCrossOrigin \<and> u_origin source \<noteq> u_origin target \<and> is_downgrade api source target))
  | Some u \<Rightarrow> (\<exists>source bare. referrer_source r = Some source \<and> u_scheme source \<in> {''http'', ''https''} \<and>
      policy \<noteq> PNoReferrer \<and> stripped_of source bare u \<and>
      (bare \<or> length (u_href u) \<le> 4096) \<and>
      (policy \<in> {POrigin, PStrictOrigin} \<longrightarrow> bare) \<and>
      (u_origin source \<noteq> u_origin target \<longrightarrow> policy \<in> {PUnsafeUrl, PNoReferrerWhenDowngrade} \<or> bare) \<and>
      (policy = PSameOrigin \<longrightarrow> u_origin source = u_origin target) \<and>
      (is_downgrade api source target \<longrightarrow>
         policy \<in> {PUnsafeUrl, POrigin, POriginWhenCrossOrigin} \<or> u_origin source = u_origin target))"
proof (cases "referrer_source r")
  case None
  then show ?thesis unfolding determine_referrer_source[of api policy r] None option.case by simp
next
  case (Some source)
  show ?thesis
  proof (cases "u_scheme source \<in> {''http'', ''https''}")
    case False
    then show ?thesis
      unfolding determine_referrer_source[of api policy r] Some option.case determine_referrer_other[OF False] by simp
  next
    case True
    obtain b where full: "stripped_of source b (full_referrer api source)"
      "b \<or> length (u_href (full_referrer api source)) \<le> 4096"
      by (rule full_referrer_stripped[OF assms True])
    note bare = strip_url_stripped[OF assms True, of True]
    note table = determine_referrer_http[OF assms True, of policy target]
    show ?thesis
      unfolding determine_referrer_source[of api policy r] Some option.case table Let_def
      using full bare True by (cases policy) auto
  qed
qed

text \<open>Setters that update the record alone obey the law.\<close>

definition field_url_api :: url_api where
  "field_url_api = \<lparr> set_username = (\<lambda>v u. u\<lparr>u_username := v\<rparr>), set_password = (\<lambda>v u. u\<lparr>u_password := v\<rparr>),
     set_fragment = (\<lambda>v u. u\<lparr>u_fragment := v\<rparr>),
     set_path = (\<lambda>v u. u\<lparr>u_path := (if v = [] then ''/'' else v)\<rparr>),
     set_query = (\<lambda>v u. u\<lparr>u_query := v\<rparr>), parse_url = (\<lambda>s. None) \<rparr>"

definition example_source :: url where
  "example_source = \<lparr> u_href = ''https://me:pw@a.example/p?q#f'', u_scheme = ''https'', u_username = ''me'',
     u_password = Some ''pw'', u_host = Some (Domain ''a.example''), u_port = None, u_path = ''/p'',
     u_query = Some ''q'', u_fragment = Some ''f'', u_origin = Tuple ''https'' (Domain ''a.example'') 443 \<rparr>"

definition example_target :: url where
  "example_target = example_source\<lparr>u_host := Some (Domain ''b.example''),
     u_origin := Tuple ''https'' (Domain ''b.example'') 443\<rparr>"

lemma field_url_api_ok: "url_api_ok field_url_api"
proof -
  have "\<exists>h. u = u\<lparr>u_href := h\<rparr>" for u :: url by (rule exI[of _ "u_href u"]) simp
  then show ?thesis
    unfolding url_api_ok_def field_url_api_def by (auto intro: exI[of _ "u_href u" for u])
qed

theorem referrer_policy_respected_witness:
  "\<exists>u. determine_referrer field_url_api POrigin (RUrl example_source) example_target = Some u \<and>
     u_password u = None \<and> u_path u = ''/'' \<and> u_query u = None"
proof -
  obtain u where u: "determine_referrer field_url_api POrigin (RUrl example_source) example_target = Some u"
    by (simp add: determine_referrer_def example_source_def Let_def)
  have "\<exists>source. stripped_of source True u"
    using referrer_policy_respected[where policy = POrigin and r = "RUrl example_source" and target = example_target,
        OF field_url_api_ok]
    unfolding u option.case by auto
  then show ?thesis using u by (auto simp: stripped_of_def)
qed

section \<open>Delivery of the policy\<close>

text \<open>The trimmed nonempty list members of all field values, in order.\<close>

definition policy_tokens :: "string list \<Rightarrow> string list" where
  "policy_tokens vals = filter (\<lambda>t. t \<noteq> [])
     (map (trim_chars http_ws) (concat (map (split_by (\<lambda>c. c = CHR '','')) vals)))"

lemma list_members_eq:
  "list_members raws =
     (let ts = filter (\<lambda>t. t \<noteq> []) (map (trim_chars http_ws) raws)
      in if list_all (list_all is_list_byte) ts then Some ts else None)"
  by (induction raws) (auto simp: Let_def)

lemma last_policy_append: "last_policy (ts @ us) p = last_policy us (last_policy ts p)"
  by (simp add: last_policy_def)

definition last_recognized :: "string list \<Rightarrow> referrer_policy \<Rightarrow> bool" where
  "last_recognized ts p \<longleftrightarrow>
     (\<exists>before t after. ts = before @ t # after \<and> referrer_parse t = Some p \<and> (\<forall>u \<in> set after. referrer_parse u = None))"

lemma last_recognized_snoc:
  "last_recognized (xs @ [x]) p \<longleftrightarrow>
     (case referrer_parse x of Some q \<Rightarrow> q = p | None \<Rightarrow> last_recognized xs p)"
proof (cases "referrer_parse x")
  case None
  have "last_recognized xs p" if "last_recognized (xs @ [x]) p"
  proof -
    obtain before t after where d: "xs @ [x] = before @ t # after" "referrer_parse t = Some p"
      "\<forall>u \<in> set after. referrer_parse u = None"
      using \<open>last_recognized (xs @ [x]) p\<close> unfolding last_recognized_def by blast
    then have "after \<noteq> []" using None by auto
    then obtain after' where "after = after' @ [x]" "xs = before @ t # after'"
      using d(1) by (cases after rule: rev_cases) auto
    with d(2,3) show ?thesis unfolding last_recognized_def by auto
  qed
  moreover have "last_recognized (xs @ [x]) p" if "last_recognized xs p"
  proof -
    obtain before t after where d: "xs = before @ t # after" "referrer_parse t = Some p"
      "\<forall>u \<in> set after. referrer_parse u = None"
      using \<open>last_recognized xs p\<close> unfolding last_recognized_def by blast
    then have "xs @ [x] = before @ t # (after @ [x])" "\<forall>u \<in> set (after @ [x]). referrer_parse u = None"
      using None by auto
    with d(2) show ?thesis unfolding last_recognized_def by blast
  qed
  ultimately show ?thesis using None by auto
next
  case (Some q)
  have "q = p" if "last_recognized (xs @ [x]) p"
  proof -
    obtain before t after where d: "xs @ [x] = before @ t # after" "referrer_parse t = Some p"
      "\<forall>u \<in> set after. referrer_parse u = None"
      using \<open>last_recognized (xs @ [x]) p\<close> unfolding last_recognized_def by blast
    then show ?thesis using Some by (cases after rule: rev_cases) auto
  qed
  moreover have "last_recognized (xs @ [x]) q" using Some unfolding last_recognized_def by fastforce
  ultimately show ?thesis using Some by auto
qed

lemma last_policy_Some: "last_policy ts None = Some p \<longleftrightarrow> last_recognized ts p"
proof (induction ts rule: rev_induct)
  case Nil
  then show ?case by (simp add: last_policy_def last_recognized_def)
next
  case (snoc x xs)
  have "last_policy (xs @ [x]) None =
      (case referrer_parse x of Some q \<Rightarrow> Some q | None \<Rightarrow> last_policy xs None)"
    by (simp add: last_policy_def split: option.split)
  then show ?case using snoc by (simp add: last_recognized_snoc split: option.split)
qed

lemma from_header_loop_eq:
  "from_header_loop vs p =
     (if list_all (list_all is_list_byte) (policy_tokens vs) then last_policy (policy_tokens vs) p else None)"
proof (induction vs arbitrary: p)
  case Nil
  then show ?case by (simp add: policy_tokens_def last_policy_def)
next
  case (Cons v vs)
  have "policy_tokens (v # vs) = policy_tokens [v] @ policy_tokens vs" by (simp add: policy_tokens_def)
  moreover have "header_list_members v =
      (if list_all (list_all is_list_byte) (policy_tokens [v]) then Some (policy_tokens [v]) else None)"
    by (simp add: header_list_members_def list_members_eq policy_tokens_def Let_def)
  ultimately show ?case using Cons.IH by (simp add: last_policy_append)
qed

text \<open>
  A \<open>Referrer-Policy\<close> field list delivers the policy whose keyword, in any case, is the
  last recognized member over all values; unknown members are skipped, and one malformed
  member anywhere voids the whole list.
\<close>

theorem referrer_from_header_last:
  "referrer_from_header vals = Some p \<longleftrightarrow>
     list_all (list_all is_list_byte) (policy_tokens vals) \<and>
     (\<exists>before t after. policy_tokens vals = before @ t # after \<and>
        to_ascii_lowercase t = to_ascii_lowercase (referrer_keyword p) \<and>
        (\<forall>u \<in> set after. \<forall>q. to_ascii_lowercase u \<noteq> to_ascii_lowercase (referrer_keyword q)))"
proof -
  let ?ts = "policy_tokens vals"
  have parse: "referrer_parse t = Some q \<longleftrightarrow> to_ascii_lowercase t = to_ascii_lowercase (referrer_keyword q)" for t q
    using referrer.parse_iff[of t q] by (auto simp: referrer_parse_def eq_ignore_ascii_case_def)
  have unknown: "referrer_parse t = None \<longleftrightarrow> (\<forall>q. to_ascii_lowercase t \<noteq> to_ascii_lowercase (referrer_keyword q))" for t
    using parse[of t] by (cases "referrer_parse t") auto
  show ?thesis
    unfolding referrer_from_header_def from_header_loop_eq parse[symmetric] unknown[symmetric]
    using last_policy_Some[of ?ts p] unfolding last_recognized_def by auto
qed

theorem referrer_from_header_last_witness:
  "referrer_from_header [''no-referrer, Unsafe-URL'', ''x''] = Some PUnsafeUrl"
proof -
  have tokens: "policy_tokens [''no-referrer, Unsafe-URL'', ''x''] = [''no-referrer''] @ ''Unsafe-URL'' # [''x'']"
    by code_simp
  have "list_all (list_all is_list_byte) [''no-referrer'', ''Unsafe-URL'', ''x'']"
    "to_ascii_lowercase ''Unsafe-URL'' = to_ascii_lowercase (referrer_keyword PUnsafeUrl)" by code_simp+
  moreover have "\<forall>u \<in> set [''x'']. \<forall>q. to_ascii_lowercase u \<noteq> to_ascii_lowercase (referrer_keyword q)"
  proof (intro ballI allI)
    fix u q
    assume "u \<in> set [''x'']"
    then show "to_ascii_lowercase u \<noteq> to_ascii_lowercase (referrer_keyword q)"
      by (cases q) (simp_all add: to_ascii_lowercase_def)
  qed
  ultimately show ?thesis
    using referrer_from_header_last[of "[''no-referrer, Unsafe-URL'', ''x'']" PUnsafeUrl] unfolding tokens
    by (metis append_Cons append_Nil)
qed

section \<open>Opaque response blocking\<close>

text \<open>The text of a JSON key between its quotes.\<close>

fun json_key :: "string \<Rightarrow> bool" where
  "json_key [] = True"
| "json_key (c # cs) =
     (c \<noteq> CHR 0x22 \<and> (if c = CHR 0x5C then (case cs of [] \<Rightarrow> False | e # cs' \<Rightarrow> json_key cs') else json_key cs))"

definition blanks :: "string \<Rightarrow> bool" where
  "blanks w = list_all (\<lambda>c. c \<in> set WHITESPACE) w"

lemma json_scan_blanks:
  "blanks w \<Longrightarrow> st \<noteq> JLeftQuote \<Longrightarrow> st \<noteq> JEscape \<Longrightarrow> json_scan st (w @ s) = json_scan st s"
  by (induction w) (simp_all add: blanks_def)

lemma json_scan_key: "json_key k \<Longrightarrow> json_scan JLeftQuote (k @ CHR 0x22 # s) = json_scan JRightQuote s"
proof (induction k rule: json_key.induct)
  case (2 c cs)
  show ?case
  proof (cases "c = CHR 0x5C")
    case True
    then obtain e cs' where cs: "cs = e # cs'" "json_key cs'" using 2(3) by (cases cs) auto
    then show ?thesis using True "2.IH"(1)[of e cs'] "2.prems" by simp
  next
    case False
    then show ?thesis using "2.IH"(2) "2.prems" by simp
  qed
qed simp

lemma whitespace_not_marks [simp]:
  "CHR ''{'' \<notin> set WHITESPACE" "CHR 0x22 \<notin> set WHITESPACE" "CHR '':'' \<notin> set WHITESPACE"
  by code_simp+

definition json_head :: "string \<Rightarrow> string \<Rightarrow> string \<Rightarrow> string \<Rightarrow> string" where
  "json_head w1 w2 key w3 = w1 @ CHR ''{'' # w2 @ CHR 0x22 # key @ CHR 0x22 # w3 @ [CHR '':'']"

lemma json_scan_head:
  assumes "blanks w1" "blanks w2" "blanks w3" "json_key key"
  shows "json_scan JStart (json_head w1 w2 key w3 @ rest)"
  using assms by (simp add: json_head_def json_scan_blanks json_scan_key)

lemma json_head_first:
  assumes "blanks w1"
  obtains c t where "json_head w1 w2 key w3 @ rest = c # t" "c \<in> set WHITESPACE \<union> {CHR ''{''}"
  using assms that by (cases w1) (auto simp: json_head_def blanks_def)

abbreviation BOM :: string where
  "BOM \<equiv> map char_of [0xEF, 0xBB, 0xBF :: nat]"

lemma trim_bom_cases:
  assumes "s = c # t" "c \<noteq> char_of (0xEF :: nat)"
  shows "trim_bom s = s" "trim_bom (BOM @ s) = s"
  using assms by (simp_all add: trim_bom_def strip_prefix_def starts_with_def)

lemma not_media:
  assumes "s = c # t" "c \<in> set WHITESPACE \<union> {CHR ''{'', char_of (0xEF :: nat)}"
  shows "\<not> sniff_media s"
proof -
  have heads: "list_all (\<lambda>c. list_all (\<lambda>g. g \<noteq> [] \<and> hd g \<noteq> c) MEDIA_SIGNATURES)
      (CHR ''{'' # char_of (0xEF :: nat) # WHITESPACE)" by code_simp
  have "\<not> starts_with s g" if "g \<in> set MEDIA_SIGNATURES" for g
    using heads assms that by (cases g) (auto simp: starts_with_def list_all_iff)
  then show ?thesis by (auto simp: sniff_media_def list_ex_iff)
qed

text \<open>
  A JSON object never leaks through a mislabelled opaque response: whatever the declared
  MIME type, unless it is safelisted, a body that opens with an object and its first key
  within the sniffed bytes is blocked, with or without a byte order mark and \<open>nosniff\<close>.
\<close>

theorem orb_blocks_json:
  assumes "orb_essence mime \<noteq> []" "\<not> opaque_safelisted (orb_essence mime)"
    and "blanks w1" "blanks w2" "blanks w3" "json_key key" "bom \<in> {[], BOM}"
    and "length (bom @ json_head w1 w2 key w3) \<le> SNIFF_LIMIT"
  shows "orb_blocks (Some mime) nosniff (Some (bom @ json_head w1 w2 key w3 @ rest))"
proof -
  let ?h = "json_head w1 w2 key w3"
  define rest' where "rest' = take (SNIFF_LIMIT - length (bom @ ?h)) rest"
  have take: "take SNIFF_LIMIT (bom @ ?h @ rest) = bom @ ?h @ rest'"
    using assms(8) by (simp add: rest'_def)
  obtain c t where ct: "?h @ rest' = c # t" "c \<in> set WHITESPACE \<union> {CHR ''{''}"
    by (rule json_head_first[OF assms(3)])
  have "list_all (\<lambda>c. c \<noteq> char_of (0xEF :: nat)) (CHR ''{'' # WHITESPACE)" by code_simp
  then have c: "c \<noteq> char_of (0xEF :: nat)" using ct(2) by (auto simp: list_all_iff)
  have media: "\<not> sniff_media (bom @ ?h @ rest')"
    using assms(7) not_media[of "?h @ rest'" c t] not_media[of "BOM @ ?h @ rest'"] ct by auto
  have "trim_bom (bom @ ?h @ rest') = ?h @ rest'" using assms(7) trim_bom_cases[OF ct(1) c] by auto
  then have "sniff_fetch_only (bom @ ?h @ rest')"
    using json_scan_head[OF assms(3-6)] trim_bom_cases(1)[OF ct(1) c] by (simp add: sniff_fetch_only_def sniff_json_def Let_def)
  with media take show ?thesis using assms(1,2) by (simp add: orb_blocks_def Let_def)
qed

theorem orb_blocks_json_witness:
  "orb_blocks (Some ''image/png'') False (Some (BOM @ json_head '' '' [] ''a'' [] @ ''1}''))"
proof (rule orb_blocks_json)
  have e: "orb_essence ''image/png'' = ''image/png''"
    by (simp add: orb_essence_def trim_def trim_start_def trim_end_def to_ascii_lowercase_def
        ascii_lower_char_def)
  show "orb_essence ''image/png'' \<noteq> []" unfolding e by simp
  show "\<not> opaque_safelisted (orb_essence ''image/png'')" unfolding e by code_simp
  show "length (BOM @ json_head '' '' [] ''a'' []) \<le> SNIFF_LIMIT" by code_simp
  show "blanks '' ''" "blanks []" "blanks []" "json_key ''a''" by code_simp+
qed simp

text \<open>
  The line end after a skipped comment is any byte \<open>E2\<close>, and the scan resumes on that byte,
  which is not white space: an em dash after the comment hides the markup of the next line.
\<close>

lemma line_end_any_e2:
  "sniff_html (''<!---->x'' @ [char_of (10 :: nat)] @ ''<html>'') \<and>
   \<not> sniff_html (''<!---->'' @ map char_of [0xE2, 0x80, 0x94, 10 :: nat] @ ''<html>'')"
  by code_simp

text \<open>The box size in front of \<open>ftyp\<close> keeps an MP4 file from being recognized as media.\<close>

lemma mp4_not_sniffed: "\<not> sniff_media (map char_of [0, 0, 0, 0x18 :: nat] @ ''ftypmp42'')"
  by code_simp

end
