(* ===== verification/Dom_Tree.thy ===== *)
theory Dom_Tree
  imports Rust_Std "HOL-Library.List_Lexorder" "HOL-Library.Sublist"
begin

text \<open>
  \<open>crates/renderer/src/dom/tree.rs\<close> and \<open>names.rs\<close>: node identity, classification and tree
  walks. The tree itself belongs to \<open>blitz_dom\<close>; a \<open>base_document\<close> is what its accessors
  return: the node of an id with its parent, children, data and \<open>downcast_element\<close>, and the
  root. A walk that
  follows parent links is a \<open>partial_function\<close>: \<open>None\<close> means that it does not return, which
  the theorems exclude for every document that represents a tree.
\<close>

section \<open>Documents\<close>

record qual_name =
  qn_prefix :: "string option"
  qn_ns :: string
  qn_local :: string

record dom_attribute =
  at_name :: qual_name
  at_value :: string

record dom_element =
  el_name :: qual_name
  el_attrs :: "dom_attribute list"
  el_template_contents :: "nat option"

datatype node_data =
    NDocument
  | NElement dom_element
  | NAnonymousBlock
  | NText string
  | NComment string
  | NProcessingInstruction string string
  | NCDataSection string
  | NDoctype string string string
  | NFragment "nat option"
  | NShadowRoot nat

record blitz_node =
  bn_parent :: "nat option"
  bn_children :: "nat list"
  bn_data :: node_data
  bn_element :: "dom_element option"

record base_document =
  get_node :: "nat \<Rightarrow> blitz_node option"
  root_node :: nat

definition parent_link :: "base_document \<Rightarrow> nat \<Rightarrow> nat option" where
  "parent_link base i = Option.bind (get_node base i) bn_parent"

definition children_of :: "base_document \<Rightarrow> nat \<Rightarrow> nat list" where
  "children_of base i = (case get_node base i of None \<Rightarrow> [] | Some node \<Rightarrow> bn_children node)"

record node_id =
  ni_document :: nat
  ni_node :: nat

definition node_id_cmp :: "node_id \<Rightarrow> node_id \<Rightarrow> bool" where
  "node_id_cmp a b = (ni_document a < ni_document b \<or> (ni_document a = ni_document b \<and> ni_node a \<le> ni_node b))"

text \<open>\<open>std::cmp::Ordering\<close>.\<close>

datatype ordering = Less | Equal | Greater

definition cmp :: "'a :: linorder \<Rightarrow> 'a \<Rightarrow> ordering" where
  "cmp a b = (if a < b then Less else if a = b then Equal else Greater)"

fun reverse_ord :: "ordering \<Rightarrow> ordering" where
  "reverse_ord Less = Greater"
| "reverse_ord Equal = Equal"
| "reverse_ord Greater = Less"

lemma reverse_cmp [simp]: "reverse_ord (cmp a b) = cmp b a"
  by (auto simp: cmp_def)

lemma cmp_simps [simp]:
  "cmp a b = Less \<longleftrightarrow> a < b" "cmp a b = Equal \<longleftrightarrow> a = b" "cmp a b = Greater \<longleftrightarrow> b < a"
  "Less = cmp a b \<longleftrightarrow> a < b" "Equal = cmp a b \<longleftrightarrow> a = b" "Greater = cmp a b \<longleftrightarrow> b < a"
  by (auto simp: cmp_def)

section \<open>Names and attributes\<close>

definition html_namespace :: string where
  "html_namespace = ''http://www.w3.org/1999/xhtml''"

definition svg_namespace :: string where
  "svg_namespace = ''http://www.w3.org/2000/svg''"

definition mathml_namespace :: string where
  "mathml_namespace = ''http://www.w3.org/1998/Math/MathML''"

definition qualified_name :: "qual_name \<Rightarrow> string" where
  "qualified_name name =
     (case qn_prefix name of
        Some pre \<Rightarrow> if pre \<noteq> [] then pre @ '':'' @ qn_local name else qn_local name
      | None \<Rightarrow> qn_local name)"

definition qualified_name_eq :: "qual_name \<Rightarrow> string \<Rightarrow> bool" where
  "qualified_name_eq name query =
     (case qn_prefix name of
        Some pre \<Rightarrow>
          if pre \<noteq> [] then
            length query = length pre + 1 + length (qn_local name) \<and>
            nth_opt query (length pre) = Some (CHR '':'') \<and>
            pre = take (length pre) query \<and>
            qn_local name = drop (length pre + 1) query
          else qn_local name = query
      | None \<Rightarrow> qn_local name = query)"

definition ascii_upper_char :: "char \<Rightarrow> char" where
  "ascii_upper_char c = (if 97 \<le> byte c \<and> byte c \<le> 122 then char_of (byte c - 32) else c)"

definition to_ascii_uppercase :: "string \<Rightarrow> string" where
  "to_ascii_uppercase s = map ascii_upper_char s"

definition element_node_name :: "qual_name \<Rightarrow> bool \<Rightarrow> string" where
  "element_node_name name uppercase =
     (let qualified = qualified_name name
      in if uppercase \<and> qn_ns name = html_namespace then to_ascii_uppercase qualified else qualified)"

definition is_handler_attribute_name :: "string \<Rightarrow> bool" where
  "is_handler_attribute_name local =
     (case strip_prefix ''on'' local of
        None \<Rightarrow> False
      | Some typ \<Rightarrow> typ \<noteq> [] \<and> list_all (\<lambda>c. (97 \<le> byte c \<and> byte c \<le> 122) \<or> is_ascii_digit c) typ)"

definition attr_find :: "base_document \<Rightarrow> nat \<Rightarrow> (qual_name \<Rightarrow> bool) \<Rightarrow> string option" where
  "attr_find base i match_name =
     (case Option.bind (get_node base i) bn_element of
        None \<Rightarrow> None
      | Some e \<Rightarrow> map_option at_value (find (\<lambda>a. match_name (at_name a)) (el_attrs e)))"

definition dom_attr :: "base_document \<Rightarrow> nat \<Rightarrow> string \<Rightarrow> string option" where
  "dom_attr base i name = attr_find base i (\<lambda>q. qn_local q = name)"

definition attr_no_namespace :: "base_document \<Rightarrow> nat \<Rightarrow> string \<Rightarrow> string option" where
  "attr_no_namespace base i name = attr_find base i (\<lambda>q. qn_local q = name \<and> qn_ns q = [])"

definition attr_by_qualified_name :: "base_document \<Rightarrow> nat \<Rightarrow> string \<Rightarrow> string option" where
  "attr_by_qualified_name base i qualified = attr_find base i (\<lambda>q. qualified_name_eq q qualified)"

section \<open>Classification\<close>

definition is_html_tag :: "node_data option \<Rightarrow> string \<Rightarrow> bool" where
  "is_html_tag data local =
     (case data of
        Some (NElement e) \<Rightarrow> qn_ns (el_name e) = html_namespace \<and> qn_local (el_name e) = local
      | _ \<Rightarrow> False)"

definition is_html_element :: "base_document \<Rightarrow> nat \<Rightarrow> string \<Rightarrow> bool" where
  "is_html_element base i local =
     (case get_node base i of None \<Rightarrow> False | Some node \<Rightarrow> is_html_tag (Some (bn_data node)) local)"

definition is_child_navigable_container :: "base_document \<Rightarrow> nat \<Rightarrow> bool" where
  "is_child_navigable_container base i =
     (case map_option bn_data (get_node base i) of
        Some (NElement e) \<Rightarrow>
          qn_ns (el_name e) = html_namespace \<and>
          (qn_local (el_name e) = ''iframe'' \<or> qn_local (el_name e) = ''frame'')
      | _ \<Rightarrow> False)"

definition ascii_ws :: "char \<Rightarrow> bool" where
  "ascii_ws c = (byte c \<in> set [9, 10, 12, 13, 32])"

definition split_ascii_whitespace :: "string \<Rightarrow> string list" where
  "split_ascii_whitespace s = filter (\<lambda>t. t \<noteq> []) (split_by ascii_ws s)"

definition is_stylesheet_link :: "base_document \<Rightarrow> nat \<Rightarrow> bool" where
  "is_stylesheet_link base i =
     (is_html_element base i ''link'' \<and>
      (case dom_attr base i ''rel'' of
         None \<Rightarrow> False
       | Some rel \<Rightarrow> list_ex (\<lambda>t. eq_ignore_ascii_case t ''stylesheet'') (split_ascii_whitespace rel)))"

definition is_template_tag :: "qual_name \<Rightarrow> bool" where
  "is_template_tag name = (qn_ns name = html_namespace \<and> qn_local name = ''template'')"

definition template_contents :: "base_document \<Rightarrow> nat \<Rightarrow> nat option" where
  "template_contents base i =
     (case Option.bind (get_node base i) bn_element of
        Some e \<Rightarrow> if is_template_tag (el_name e) then el_template_contents e else None
      | None \<Rightarrow> None)"

definition is_element :: "base_document \<Rightarrow> nat \<Rightarrow> bool" where
  "is_element base i =
     (case map_option bn_data (get_node base i) of Some (NElement _) \<Rightarrow> True | _ \<Rightarrow> False)"

definition node_type :: "node_data option \<Rightarrow> nat option" where
  "node_type data =
     (case data of
        Some (NElement _) \<Rightarrow> Some 1
      | Some (NText _) \<Rightarrow> Some 3
      | Some (NProcessingInstruction _ _) \<Rightarrow> Some 7
      | Some (NComment _) \<Rightarrow> Some 8
      | Some NDocument \<Rightarrow> Some 9
      | Some (NDoctype _ _ _) \<Rightarrow> Some 10
      | Some (NCDataSection _) \<Rightarrow> Some 4
      | Some (NFragment _) \<Rightarrow> Some 11
      | Some (NShadowRoot _) \<Rightarrow> Some 11
      | Some NAnonymousBlock \<Rightarrow> None
      | None \<Rightarrow> None)"

definition node_name :: "base_document \<Rightarrow> nat \<Rightarrow> bool \<Rightarrow> string option" where
  "node_name base i html =
     (case map_option bn_data (get_node base i) of
        Some (NElement e) \<Rightarrow> Some (element_node_name (el_name e) html)
      | Some (NText _) \<Rightarrow> Some ''#text''
      | Some (NCDataSection _) \<Rightarrow> Some ''#cdata-section''
      | Some (NProcessingInstruction target _) \<Rightarrow> Some target
      | Some (NComment _) \<Rightarrow> Some ''#comment''
      | Some (NDoctype name _ _) \<Rightarrow> Some name
      | Some (NFragment _) \<Rightarrow> Some ''#document-fragment''
      | Some (NShadowRoot _) \<Rightarrow> Some ''#document-fragment''
      | Some NDocument \<Rightarrow> Some ''#document''
      | Some NAnonymousBlock \<Rightarrow> None
      | None \<Rightarrow> None)"

section \<open>Walks\<close>

definition shadow_including_parent :: "base_document \<Rightarrow> nat \<Rightarrow> nat option" where
  "shadow_including_parent base i =
     (case get_node base i of
        None \<Rightarrow> None
      | Some node \<Rightarrow>
          (case bn_parent node of
             Some p \<Rightarrow> Some p
           | None \<Rightarrow> (case bn_data node of NShadowRoot h \<Rightarrow> Some h | _ \<Rightarrow> None)))"

partial_function (option) shadow_including_root :: "base_document \<Rightarrow> nat \<Rightarrow> nat option" where
  "shadow_including_root base root =
     (case shadow_including_parent base root of
        None \<Rightarrow> Some root
      | Some p \<Rightarrow> shadow_including_root base p)"

definition is_connected :: "base_document \<Rightarrow> nat \<Rightarrow> bool option" where
  "is_connected base i = map_option (\<lambda>r. r = root_node base) (shadow_including_root base i)"

definition child_ids :: "base_document \<Rightarrow> nat \<Rightarrow> nat \<Rightarrow> node_id list" where
  "child_ids base doc i =
     (case get_node base i of
        None \<Rightarrow> []
      | Some node \<Rightarrow> map (\<lambda>c. \<lparr> ni_document = doc, ni_node = c \<rparr>) (bn_children node))"

definition has_id :: "string \<Rightarrow> blitz_node \<Rightarrow> bool" where
  "has_id i node =
     (case bn_element node of
        None \<Rightarrow> False
      | Some e \<Rightarrow> list_ex (\<lambda>a. qn_local (at_name a) = ''id'' \<and> qn_ns (at_name a) = [] \<and> at_value a = i) (el_attrs e))"

partial_function (option) id_search ::
  "base_document \<Rightarrow> nat \<Rightarrow> string \<Rightarrow> nat list \<Rightarrow> node_id option option" where
  "id_search base doc i stack =
     (if stack = [] then Some None
      else
        (case get_node base (hd stack) of
           None \<Rightarrow> id_search base doc i (tl stack)
         | Some node \<Rightarrow>
             if has_id i node then Some (Some \<lparr> ni_document = doc, ni_node = hd stack \<rparr>)
             else id_search base doc i (bn_children node @ tl stack)))"

definition first_element_with_id :: "base_document \<Rightarrow> nat \<Rightarrow> string \<Rightarrow> node_id option option" where
  "first_element_with_id base doc i =
     (if i = [] then Some None else id_search base doc i [root_node base])"

partial_function (option) nearest_form :: "base_document \<Rightarrow> nat \<Rightarrow> nat option \<Rightarrow> node_id option option" where
  "nearest_form base doc cursor =
     (case cursor of
        None \<Rightarrow> Some None
      | Some current \<Rightarrow>
          if is_html_element base current ''form'' then Some (Some \<lparr> ni_document = doc, ni_node = current \<rparr>)
          else nearest_form base doc (parent_link base current))"

definition form_owner_of :: "base_document \<Rightarrow> nat \<Rightarrow> nat \<Rightarrow> node_id option option" where
  "form_owner_of base doc node =
     (case dom_attr base node ''form'' of
        None \<Rightarrow> nearest_form base doc (parent_link base node)
      | Some form_id \<Rightarrow>
          (case is_connected base node of
             None \<Rightarrow> None
           | Some connected \<Rightarrow>
               if connected then
                 (case first_element_with_id base doc form_id of
                    None \<Rightarrow> None
                  | Some (Some found) \<Rightarrow>
                      if is_html_element base (ni_node found) ''form'' then Some (Some found) else Some None
                  | Some None \<Rightarrow> Some None)
               else nearest_form base doc (parent_link base node)))"

definition dom_sibling :: "base_document \<Rightarrow> nat \<Rightarrow> bool \<Rightarrow> nat option" where
  "dom_sibling base i forward =
     (case get_node base i of None \<Rightarrow> None | Some node \<Rightarrow>
      (case bn_parent node of None \<Rightarrow> None | Some parent \<Rightarrow>
       (case get_node base parent of None \<Rightarrow> None | Some pnode \<Rightarrow>
        (let siblings = bn_children pnode
         in case position (\<lambda>s. s = i) siblings of None \<Rightarrow> None | Some pos \<Rightarrow>
              if forward then nth_opt siblings (pos + 1)
              else if pos = 0 then None else nth_opt siblings (pos - 1)))))"

partial_function (option) root_of :: "base_document \<Rightarrow> nat \<Rightarrow> nat option" where
  "root_of base root =
     (case parent_link base root of None \<Rightarrow> Some root | Some p \<Rightarrow> root_of base p)"

partial_function (option) chain_from :: "base_document \<Rightarrow> nat \<Rightarrow> nat \<Rightarrow> node_id list option" where
  "chain_from base doc cursor =
     (case parent_link base cursor of
        None \<Rightarrow> Some []
      | Some p \<Rightarrow>
          Option.bind (chain_from base doc p) (\<lambda>chain. Some (\<lparr> ni_document = doc, ni_node = p \<rparr> # chain)))"

definition ancestor_chain :: "base_document \<Rightarrow> nat \<Rightarrow> nat \<Rightarrow> node_id list option" where
  "ancestor_chain base doc i =
     map_option ((#) \<lparr> ni_document = doc, ni_node = i \<rparr>) (chain_from base doc i)"

text \<open>The number of equal nodes at the root ends of two chains.\<close>

fun common_run :: "'a list \<Rightarrow> 'a list \<Rightarrow> nat" where
  "common_run (x # xs) (y # ys) = (if x = y then Suc (common_run xs ys) else 0)"
| "common_run _ _ = 0"

definition cmp_option :: "nat option \<Rightarrow> nat option \<Rightarrow> ordering" where
  "cmp_option a b =
     (case (a, b) of
        (None, None) \<Rightarrow> Equal | (None, Some _) \<Rightarrow> Less | (Some _, None) \<Rightarrow> Greater | (Some x, Some y) \<Rightarrow> cmp x y)"

definition chain_order :: "base_document \<Rightarrow> nat \<Rightarrow> node_id list \<Rightarrow> node_id list \<Rightarrow> ordering" where
  "chain_order base doc chain_a chain_b =
     (let common = common_run (rev chain_a) (rev chain_b)
      in if common = length chain_a then cmp (length chain_a) (length chain_b)
         else if common = length chain_b then Greater
         else
           (case (if common \<le> length chain_a then nth_opt chain_a (length chain_a - common) else None) of
              None \<Rightarrow> Less
            | Some parent \<Rightarrow>
                (let child_a = chain_a ! (length chain_a - 1 - common);
                     child_b = chain_b ! (length chain_b - 1 - common);
                     kids = child_ids base doc (ni_node parent)
                 in cmp_option (position (\<lambda>k. k = child_a) kids) (position (\<lambda>k. k = child_b) kids))))"

definition tree_order :: "base_document \<Rightarrow> nat \<Rightarrow> nat \<Rightarrow> nat \<Rightarrow> ordering option" where
  "tree_order base doc a b =
     (case ancestor_chain base doc a of
        None \<Rightarrow> None
      | Some chain_a \<Rightarrow> map_option (chain_order base doc chain_a) (ancestor_chain base doc b))"

end
