(* ===== verification/Dom_Trees.thy ===== *)
theory Dom_Trees
  imports Dom_Tree
begin

text \<open>
  The tree a document represents, the addresses of its nodes, and the walks of \<open>tree.rs\<close> in
  terms of addresses. An address is the list of child indices from the root; addresses are
  ordered lexicographically, a prefix first, which is the order of a preorder traversal.
\<close>

section \<open>Represented trees\<close>

datatype dtree = DNode (troot: nat) (tkids: "dtree list")

fun tnodes :: "dtree \<Rightarrow> nat list" and fnodes :: "dtree list \<Rightarrow> nat list" where
  "tnodes (DNode n ts) = n # fnodes ts"
| "fnodes [] = []"
| "fnodes (t # ts) = tnodes t @ fnodes ts"

fun represents :: "base_document \<Rightarrow> nat option \<Rightarrow> dtree \<Rightarrow> bool"
  and forest_of :: "base_document \<Rightarrow> nat option \<Rightarrow> dtree list \<Rightarrow> bool" where
  "represents base par (DNode n ts) =
     (case get_node base n of
        None \<Rightarrow> False
      | Some node \<Rightarrow> bn_parent node = par \<and> bn_children node = map troot ts \<and> forest_of base (Some n) ts)"
| "forest_of base par [] = True"
| "forest_of base par (t # ts) = (represents base par t \<and> forest_of base par ts)"

definition doc_tree :: "base_document \<Rightarrow> dtree \<Rightarrow> bool" where
  "doc_tree base t = (represents base None t \<and> distinct (tnodes t))"

fun tat :: "dtree \<Rightarrow> nat list \<Rightarrow> dtree option" where
  "tat t [] = Some t"
| "tat t (i # p) = (if i < length (tkids t) then tat (tkids t ! i) p else None)"

fun taddrs :: "dtree \<Rightarrow> nat list list" and faddrs :: "nat \<Rightarrow> dtree list \<Rightarrow> nat list list" where
  "taddrs (DNode n ts) = [] # faddrs 0 ts"
| "faddrs k [] = []"
| "faddrs k (t # ts) = map ((#) k) (taddrs t) @ faddrs (Suc k) ts"

lemma tat_append: "tat t (p @ q) = Option.bind (tat t p) (\<lambda>s. tat s q)"
  by (induction p arbitrary: t) auto

lemma faddrs_Cons: "p \<in> set (faddrs k ts) \<Longrightarrow> \<exists>j q. p = j # q \<and> k \<le> j"
  by (induction ts arbitrary: k) (auto, fastforce)

lemma sorted_addrs: "sorted_wrt (<) (taddrs t)" "sorted_wrt (<) (faddrs k ts)"
proof (induction t and k ts rule: taddrs_faddrs.induct)
  case (1 n ts)
  then show ?case by (auto dest!: faddrs_Cons)
next
  case (3 k t ts)
  have "sorted_wrt (<) (map ((#) k) (taddrs t))" using 3(1) by (simp add: sorted_wrt_map)
  moreover have "x < y" if "x \<in> set (map ((#) k) (taddrs t))" "y \<in> set (faddrs (Suc k) ts)" for x y
    using that by (auto dest!: faddrs_Cons)
  ultimately show ?case using 3(2) by (simp add: sorted_wrt_append)
qed simp

lemma set_addrs:
  "p \<in> set (taddrs t) \<longleftrightarrow> tat t p \<noteq> None"
  "p \<in> set (faddrs k ts) \<longleftrightarrow> (\<exists>j q. p = (k + j) # q \<and> j < length ts \<and> tat (ts ! j) q \<noteq> None)"
proof (induction t and k ts arbitrary: p and p rule: taddrs_faddrs.induct)
  case (1 n ts)
  then show ?case by (cases p) auto
next
  case (3 k t ts)
  have "p \<in> set (faddrs k (t # ts)) \<longleftrightarrow>
      (\<exists>q. p = k # q \<and> tat t q \<noteq> None) \<or>
      (\<exists>j q. p = (Suc k + j) # q \<and> j < length ts \<and> tat (ts ! j) q \<noteq> None)"
    using 3 by auto
  also have "\<dots> \<longleftrightarrow> (\<exists>j q. p = (k + j) # q \<and> j < length (t # ts) \<and> tat ((t # ts) ! j) q \<noteq> None)"
    (is "?L \<longleftrightarrow> ?R")
  proof
    show "?R" if ?L
    proof (rule disjE[OF \<open>?L\<close>])
      show ?R if "\<exists>q. p = k # q \<and> tat t q \<noteq> None"
        using that by (intro exI[of _ 0]) auto
      assume "\<exists>j q. p = (Suc k + j) # q \<and> j < length ts \<and> tat (ts ! j) q \<noteq> None"
      then obtain j q where "p = (Suc k + j) # q" "j < length ts" "tat (ts ! j) q \<noteq> None" by blast
      then show ?R by (intro exI[of _ "Suc j"] exI[of _ q]) auto
    qed
    assume ?R
    then obtain j q where jq: "p = (k + j) # q" "j < length (t # ts)" "tat ((t # ts) ! j) q \<noteq> None" by blast
    then show ?L by (cases j) auto
  qed
  finally show ?case .
qed simp

lemma nodes_addrs:
  "tnodes t = map (\<lambda>p. troot (the (tat t p))) (taddrs t)"
  "fnodes ts = map (\<lambda>p. troot (the (tat (ts ! (hd p - k)) (tl p)))) (faddrs k ts)"
proof (induction t and k ts rule: taddrs_faddrs.induct)
  case (1 n ts)
  have "map (\<lambda>p. troot (the (tat (ts ! (hd p - 0)) (tl p)))) (faddrs 0 ts) =
      map (\<lambda>p. troot (the (tat (DNode n ts) p))) (faddrs 0 ts)"
    by (rule map_cong) (auto simp: set_addrs(2))
  then show ?case using 1 by simp
next
  case (3 k t ts)
  have "map (\<lambda>p. troot (the (tat (ts ! (hd p - Suc k)) (tl p)))) (faddrs (Suc k) ts) =
      map (\<lambda>p. troot (the (tat ((t # ts) ! (hd p - k)) (tl p)))) (faddrs (Suc k) ts)"
    by (rule map_cong) (auto simp: set_addrs(2))
  then show ?case using 3 by (simp add: comp_def)
qed simp

lemma addr_inj:
  assumes "distinct (tnodes t)" "tat t p = Some s" "tat t q = Some s'" "troot s = troot s'"
  shows "p = q"
proof -
  have "inj_on (\<lambda>p. troot (the (tat t p))) (set (taddrs t))"
    using assms(1) unfolding nodes_addrs(1) distinct_map by blast
  then show ?thesis using assms(2-4) by (auto simp: inj_on_def set_addrs(1))
qed

lemma node_addr: "n \<in> set (tnodes t) \<longleftrightarrow> (\<exists>p s. tat t p = Some s \<and> troot s = n)"
  unfolding nodes_addrs(1) by (force simp: set_addrs(1))

section \<open>Documents that represent a tree\<close>

lemma forest_nth: "forest_of base par ts \<longleftrightarrow> (\<forall>s \<in> set ts. represents base par s)"
  by (induction ts) auto

lemma represents_at:
  assumes "represents base par t" "tat t p = Some s"
  shows "represents base (if p = [] then par else Some (troot (the (tat t (butlast p))))) s"
  using assms
proof (induction p arbitrary: t par)
  case (Cons i p)
  obtain n ts where t: "t = DNode n ts" by (cases t)
  have i: "i < length ts" "tat (ts ! i) p = Some s" using Cons.prems t by (auto split: if_splits)
  have "represents base (Some n) (ts ! i)"
    using Cons.prems t i by (auto simp: forest_nth split: option.splits)
  from Cons.IH[OF this i(2)] show ?case using t i by (auto split: if_splits)
qed simp

lemma represents_node:
  assumes "represents base par t"
  obtains node where "get_node base (troot t) = Some node" "bn_parent node = par"
    "bn_children node = map troot (tkids t)"
  using assms by (cases t) (auto split: option.splits)

lemma parent_at:
  assumes "represents base par t" "tat t p = Some s"
  shows "parent_link base (troot s) = (if p = [] then par else Some (troot (the (tat t (butlast p)))))"
  using represents_node[OF represents_at[OF assms]] by (metis parent_link_def bind.bind_lunit)

lemma children_at:
  assumes "represents base par t" "tat t p = Some s"
  shows "child_ids base d (troot s) = map (\<lambda>c. \<lparr> ni_document = d, ni_node = troot c \<rparr>) (tkids s)"
  by (rule represents_node[OF represents_at[OF assms]]) (simp add: child_ids_def)

section \<open>Spines\<close>

text \<open>The nodes from the root down to an address.\<close>

fun spine :: "dtree \<Rightarrow> nat list \<Rightarrow> nat list" where
  "spine t [] = [troot t]"
| "spine t (i # p) = troot t # spine (tkids t ! i) p"

lemma length_spine [simp]: "length (spine t p) = Suc (length p)"
  by (induction p arbitrary: t) auto

lemma spine_nth: "tat t p = Some s \<Longrightarrow> k \<le> length p \<Longrightarrow> spine t p ! k = troot (the (tat t (take k p)))"
  by (induction p arbitrary: t k) (auto simp: nth_Cons' take_Cons' split: if_splits)

lemma rev_spine_nth: "k \<le> length p \<Longrightarrow> rev (spine t p) ! (length p - k) = spine t p ! k"
  by (subst rev_nth) simp_all

lemma spine_snoc: "tat t (p @ [i]) = Some s \<Longrightarrow> spine t (p @ [i]) = spine t p @ [troot s]"
  by (induction p arbitrary: t) (auto split: if_splits)

lemma spine_run:
  assumes "distinct (tnodes t)" "tat t p = Some s" "tat t q = Some s'"
  shows "common_run (spine t p) (spine t q) = Suc (common_run p q)"
  using assms
proof (induction p arbitrary: t q)
  case Nil
  then show ?case by (cases q) auto
next
  case (Cons i p)
  show ?case
  proof (cases q)
    case Nil
    then show ?thesis by simp
  next
    case q: (Cons j q')
    obtain n ts where t: "t = DNode n ts" by (cases t)
    have ij: "i < length ts" "j < length ts" "tat (ts ! i) p = Some s" "tat (ts ! j) q' = Some s'"
      using Cons.prems q t by (auto split: if_splits)
    have sub: "tat t [k] = Some (ts ! k)" if "k < length ts" for k using that t by simp
    show ?thesis
    proof (cases "i = j")
      case True
      have "distinct (fnodes ts)" using Cons.prems(1) t by simp
      then have "distinct (tnodes (ts ! i))" using ij(1)
        by (induction ts arbitrary: i) (auto simp: nth_Cons' split: if_splits)
      then show ?thesis using Cons.IH[of "ts ! i" q'] ij q t True by simp
    next
      case False
      have "spine (ts ! i) p ! 0 \<noteq> spine (ts ! j) q' ! 0"
        using addr_inj[OF Cons.prems(1) sub[OF ij(1)] sub[OF ij(2)]] False
        by (cases p; cases q') auto
      then have "common_run (spine (ts ! i) p) (spine (ts ! j) q') = 0"
        by (cases p; cases q') auto
      then show ?thesis using q t False by simp
    qed
  qed
qed

lemma cmp_Cons: "cmp (x # xs) (y # ys) = (if x = y then cmp xs ys else cmp x y)" for x :: nat
  by (auto simp: cmp_def)

lemma cmp_Suc: "cmp (Suc a) (Suc b) = cmp a b"
  by (auto simp: cmp_def)

lemma cmp_Nil: "cmp [] (q :: nat list) = cmp 0 (length q)"
  by (cases q) (simp_all add: cmp_def)

lemma cmp_Nil_right: "cmp (p :: nat list) [] = (if p = [] then cmp (0 :: nat) 0 else Greater)"
  by (cases p) (simp_all add: cmp_def)

lemma cmp_common_run:
  "cmp p (q :: nat list) =
     (let c = common_run p q
      in if c = length p then cmp (length p) (length q) else if c = length q then Greater else cmp (p ! c) (q ! c))"
proof (induction p q rule: common_run.induct)
  case (1 x xs y ys)
  then show ?case by (cases "x = y") (simp_all add: Let_def cmp_Cons cmp_Suc)
qed (simp_all add: cmp_Nil cmp_Nil_right)

lemma common_run_le: "common_run p q \<le> length p" "common_run p q \<le> length q"
  by (induction p q rule: common_run.induct) auto

lemma common_run_take: "k \<le> common_run p q \<Longrightarrow> take k p = take k q"
  by (induction p q arbitrary: k rule: common_run.induct) (auto simp: take_Cons' split: if_splits)

lemma chain_spine:
  assumes "represents base None t" "tat t p = Some s"
  shows "ancestor_chain base d (troot s) =
    Some (map (\<lambda>n. \<lparr> ni_document = d, ni_node = n \<rparr>) (rev (spine t p)))"
  using assms(2)
proof (induction p arbitrary: s rule: rev_induct)
  case Nil
  then show ?case using parent_at[OF assms(1) Nil] by (simp add: ancestor_chain_def chain_from.simps)
next
  case (snoc i p)
  then obtain s' where s': "tat t p = Some s'" by (cases "tat t p") (auto simp: tat_append)
  have par: "parent_link base (troot s) = Some (troot s')" using parent_at[OF assms(1) snoc.prems] s' by simp
  have "chain_from base d (troot s) = ancestor_chain base d (troot s')"
    unfolding chain_from.simps[of base d "troot s"] par ancestor_chain_def
    by (cases "chain_from base d (troot s')") simp_all
  then show ?case using snoc.IH[OF s'] spine_snoc[OF snoc.prems] by (simp add: ancestor_chain_def)
qed


section \<open>The walks\<close>

lemma position_kid:
  assumes "distinct (tnodes t)" "tat t p = Some s" "i < length (tkids s)"
  shows "position (\<lambda>k. k = \<lparr> ni_document = d, ni_node = troot (tkids s ! i) \<rparr>)
    (map (\<lambda>c. \<lparr> ni_document = d, ni_node = troot c \<rparr>) (tkids s)) = Some i"
proof -
  have at: "tat t (p @ [k]) = Some (tkids s ! k)" if "k < length (tkids s)" for k
    using assms(2) that by (simp add: tat_append)
  have "troot (tkids s ! k) \<noteq> troot (tkids s ! i)" if "k < i" for k
    using addr_inj[OF assms(1) at[of k] at[of i]] that assms(3) by auto
  then show ?thesis using assms(3) by (intro position_SomeI) simp_all
qed

lemma tree_order_addr:
  assumes "doc_tree base t" "tat t p = Some s" "tat t q = Some s'"
  shows "tree_order base d (troot s) (troot s') = Some (cmp p q)"
proof -
  have rep: "represents base None t" and dist: "distinct (tnodes t)" using assms(1) by (simp_all add: doc_tree_def)
  let ?id = "\<lambda>n. \<lparr> ni_document = d, ni_node = n \<rparr>"
  let ?a = "map ?id (rev (spine t p))" and ?b = "map ?id (rev (spine t q))"
  have map_run: "common_run (map ?id xs) (map ?id ys) = common_run xs ys" for xs ys
    by (induction xs ys rule: common_run.induct) auto
  define c where "c = common_run p q"
  have run: "common_run (rev ?a) (rev ?b) = Suc c"
    using spine_run[OF dist assms(2,3)] by (simp add: rev_map map_run c_def)
  have "chain_order base d ?a ?b = cmp p q"
  proof (cases "c = length p \<or> c = length q")
    case True
    then show ?thesis
      unfolding chain_order_def run Let_def cmp_common_run[of p q] c_def[symmetric] by (auto simp: cmp_Suc)
  next
    case False
    then have c: "c < length p" "c < length q"
      using common_run_le[of p q] by (auto simp: c_def le_neq_implies_less)
    obtain u where u: "tat t (take c p) = Some u"
      using assms(2) tat_append[of t "take c p" "drop c p"] by (cases "tat t (take c p)") auto
    have kid: "tat t (take (Suc c) r) = Some (tkids u ! (r ! c)) \<and> r ! c < length (tkids u)"
      if "tat t r = Some v" "c < length r" "take c r = take c p" for r v
    proof -
      have "tat t (take c r @ r ! c # drop (Suc c) r) = Some v" using that(1) id_take_nth_drop[OF that(2)] by metis
      then have "r ! c < length (tkids u)" using u that(3) by (auto simp: tat_append split: if_splits)
      then show ?thesis using u that by (simp add: take_Suc_conv_app_nth tat_append)
    qed
    note kp = kid[OF assms(2) c(1) refl] and kq = kid[OF assms(3) c(2) common_run_take[OF eq_refl[OF c_def], symmetric]]
    have nth: "?a ! (length p - Suc c) = ?id (troot (tkids u ! (p ! c)))"
      "?b ! (length q - Suc c) = ?id (troot (tkids u ! (q ! c)))" "?a ! (length p - c) = ?id (troot u)"
      using c u kp kq spine_nth[OF assms(2), of "Suc c"] spine_nth[OF assms(3), of "Suc c"]
        spine_nth[OF assms(2), of c] rev_spine_nth[of "Suc c" p t] rev_spine_nth[of "Suc c" q t]
        rev_spine_nth[of c p t] by simp_all
    have pos: "position (\<lambda>k. k = ?id (troot (tkids u ! (r ! c)))) (child_ids base d (troot u)) = Some (r ! c)"
      if "r ! c < length (tkids u)" for r
      using children_at[OF rep u] position_kid[OF dist u that] by simp
    have par: "(if Suc c \<le> length ?a then nth_opt ?a (length ?a - Suc c) else None) = Some (?id (troot u))"
      using c nth(3) by (simp add: nth_opt_def)
    have "length ?a - 1 - Suc c = length p - Suc c" "length ?b - 1 - Suc c = length q - Suc c" by simp_all
    then have "chain_order base d ?a ?b = cmp (p ! c) (q ! c)"
      unfolding chain_order_def run Let_def par option.case
      using c nth(1,2) pos[of p] pos[of q] kp kq by (simp add: cmp_option_def)
    also have "\<dots> = cmp p q" using c unfolding cmp_common_run[of p q] c_def[symmetric] Let_def by simp
    finally show ?thesis .
  qed
  then show ?thesis using chain_spine[OF rep assms(2)] chain_spine[OF rep assms(3)] by (simp add: tree_order_def)
qed

lemma root_of_addr:
  assumes "doc_tree base t" "tat t p = Some s"
  shows "root_of base (troot s) = Some (troot t)"
  using assms(2)
proof (induction p arbitrary: s rule: rev_induct)
  case Nil
  then show ?case using assms(1) parent_at[of base None t "[]"] by (simp add: root_of.simps doc_tree_def)
next
  case (snoc i p)
  then obtain s' where s': "tat t p = Some s'" by (cases "tat t p") (auto simp: tat_append)
  have "parent_link base (troot s) = Some (troot s')"
    using parent_at[of base None t "p @ [i]" s] assms(1) snoc.prems s' by (simp add: doc_tree_def)
  then show ?case using snoc.IH[OF s'] by (simp add: root_of.simps[of base "troot s"])
qed

text \<open>A stack of subtrees is searched in the order of their concatenated preorders.\<close>

lemma id_search_forest:
  "represents base par t \<Longrightarrow>
     id_search base d i (troot t # stack) =
       (case find (\<lambda>n. \<exists>node. get_node base n = Some node \<and> has_id i node) (tnodes t) of
          Some n \<Rightarrow> Some (Some \<lparr> ni_document = d, ni_node = n \<rparr>)
        | None \<Rightarrow> id_search base d i stack)"
  "forest_of base par ts \<Longrightarrow>
     id_search base d i (map troot ts @ stack) =
       (case find (\<lambda>n. \<exists>node. get_node base n = Some node \<and> has_id i node) (fnodes ts) of
          Some n \<Rightarrow> Some (Some \<lparr> ni_document = d, ni_node = n \<rparr>)
        | None \<Rightarrow> id_search base d i stack)"
proof (induction t and ts arbitrary: par stack and par stack rule: tnodes_fnodes.induct)
  case (1 n ts)
  obtain node where node: "get_node base n = Some node" "bn_children node = map troot ts" "forest_of base (Some n) ts"
    using "1.prems" by (auto split: option.splits)
  show ?case
    using node "1.IH"[OF node(3), of stack] by (simp add: id_search.simps[of base d i "n # stack"])
next
  case (3 t ts)
  then have "represents base par t" "forest_of base par ts" by simp_all
  then show ?case
    using "3.IH"(1)[of par "map troot ts @ stack"] "3.IH"(2)[of par stack]
    by (simp add: find_append split: option.splits)
qed simp_all

end
