(* ===== verification/Dom_Range.thy ===== *)
theory Dom_Range
  imports Dom_Trees
begin

text \<open>
  \<open>crates/renderer/src/dom/range.rs\<close>: boundary points, the table of live ranges, the position
  of boundary points and the adjustment of live ranges by mutations. Offsets are \<open>u32\<close>: natural
  numbers with the saturation and the wrap-around of the code written out.
\<close>

definition u32_max :: nat where
  "u32_max = 2 ^ 32 - 1"

definition u32_of :: "nat \<Rightarrow> nat" where
  "u32_of n = (if n \<le> u32_max then n else u32_max)"

definition sat_add32 :: "nat \<Rightarrow> nat \<Rightarrow> nat" where
  "sat_add32 a b = min u32_max (a + b)"

section \<open>Boundary points and the range table\<close>

record boundary_point =
  bp_node :: node_id
  bp_offset :: nat

record attr_point =
  ap_scope :: node_id
  ap_id :: nat

record range_state =
  rs_start :: boundary_point
  rs_end :: boundary_point
  rs_attr :: "attr_point option"

definition range_collapsed :: "boundary_point \<Rightarrow> range_state" where
  "range_collapsed point = \<lparr> rs_start = point, rs_end = point, rs_attr = None \<rparr>"

definition range_attribute :: "attr_point \<Rightarrow> range_state" where
  "range_attribute a =
     (let placeholder = \<lparr> bp_node = ap_scope a, bp_offset = 0 \<rparr>
      in \<lparr> rs_start = placeholder, rs_end = placeholder, rs_attr = Some a \<rparr>)"

definition range_document :: "range_state \<Rightarrow> nat" where
  "range_document r =
     (case rs_attr r of Some a \<Rightarrow> ni_document (ap_scope a) | None \<Rightarrow> ni_document (bp_node (rs_start r)))"

record range_table =
  rt_slots :: "range_state option list"
  rt_free :: "nat list"
  rt_live :: nat

definition rt_default :: range_table where
  "rt_default = \<lparr> rt_slots = [], rt_free = [], rt_live = 0 \<rparr>"

text \<open>\<open>None\<close> is the panic of an index out of range.\<close>

definition rt_alloc :: "range_state \<Rightarrow> range_table \<Rightarrow> (nat \<times> range_table) option" where
  "rt_alloc st t =
     (let t = t\<lparr>rt_live := rt_live t + 1\<rparr>
      in if rt_free t \<noteq> [] then
           (let slot = last (rt_free t); t = t\<lparr>rt_free := butlast (rt_free t)\<rparr>
            in if slot < length (rt_slots t) then Some (slot, t\<lparr>rt_slots := (rt_slots t)[slot := Some st]\<rparr>) else None)
         else (let t = t\<lparr>rt_slots := rt_slots t @ [Some st]\<rparr> in Some (length (rt_slots t) - 1, t)))"

definition rt_get :: "range_table \<Rightarrow> nat \<Rightarrow> range_state option" where
  "rt_get t slot = Option.bind (nth_opt (rt_slots t) slot) (\<lambda>e. e)"

definition rt_set :: "nat \<Rightarrow> range_state \<Rightarrow> range_table \<Rightarrow> bool \<times> range_table" where
  "rt_set slot st t =
     (case nth_opt (rt_slots t) slot of
        Some (Some _) \<Rightarrow> (True, t\<lparr>rt_slots := (rt_slots t)[slot := Some st]\<rparr>)
      | _ \<Rightarrow> (False, t))"

definition rt_release :: "nat \<Rightarrow> range_table \<Rightarrow> range_table" where
  "rt_release slot t =
     (case nth_opt (rt_slots t) slot of
        Some (Some _) \<Rightarrow>
          t\<lparr>rt_slots := (rt_slots t)[slot := None], rt_free := rt_free t @ [slot], rt_live := rt_live t - 1\<rparr>
      | _ \<Rightarrow> t)"

definition rt_is_empty :: "range_table \<Rightarrow> bool" where
  "rt_is_empty t = (rt_live t = 0)"

section \<open>Nodes\<close>

text \<open>The number of UTF-16 units of UTF-8 text: one per character, two above the BMP.\<close>

definition utf16_length :: "string \<Rightarrow> nat" where
  "utf16_length text =
     u32_of (length (filter (\<lambda>c. \<not> utf8_cont c) text) + length (filter (\<lambda>c. 0xF0 \<le> byte c) text))"

definition node_length :: "base_document \<Rightarrow> node_id \<Rightarrow> nat" where
  "node_length base n =
     (case get_node base (ni_node n) of
        None \<Rightarrow> 0
      | Some node \<Rightarrow>
          (case bn_data node of
             NText content \<Rightarrow> utf16_length content
           | NComment contents \<Rightarrow> utf16_length contents
           | NProcessingInstruction _ contents \<Rightarrow> utf16_length contents
           | NCDataSection contents \<Rightarrow> utf16_length contents
           | NDoctype _ _ _ \<Rightarrow> 0
           | _ \<Rightarrow> u32_of (length (bn_children node))))"

definition is_text :: "base_document \<Rightarrow> node_id \<Rightarrow> bool" where
  "is_text base n =
     (case map_option bn_data (get_node base (ni_node n)) of
        Some (NText _) \<Rightarrow> True | Some (NCDataSection _) \<Rightarrow> True | _ \<Rightarrow> False)"

definition is_character_data :: "base_document \<Rightarrow> node_id \<Rightarrow> bool" where
  "is_character_data base n =
     (case map_option bn_data (get_node base (ni_node n)) of
        Some (NText _) \<Rightarrow> True | Some (NCDataSection _) \<Rightarrow> True | Some (NComment _) \<Rightarrow> True
      | Some (NProcessingInstruction _ _) \<Rightarrow> True | _ \<Rightarrow> False)"

definition is_doctype_id :: "base_document \<Rightarrow> node_id \<Rightarrow> bool" where
  "is_doctype_id base n =
     (case map_option bn_data (get_node base (ni_node n)) of Some (NDoctype _ _ _) \<Rightarrow> True | _ \<Rightarrow> False)"

definition parent_of :: "base_document \<Rightarrow> node_id \<Rightarrow> node_id option" where
  "parent_of base n =
     map_option (\<lambda>p. \<lparr> ni_document = ni_document n, ni_node = p \<rparr>) (parent_link base (ni_node n))"

section \<open>Ancestors and positions\<close>

partial_function (option) ancestor_loop :: "base_document \<Rightarrow> nat \<Rightarrow> nat \<Rightarrow> bool option" where
  "ancestor_loop base possible cursor =
     (if cursor = possible then Some True
      else (case parent_link base cursor of None \<Rightarrow> Some False | Some p \<Rightarrow> ancestor_loop base possible p))"

definition is_inclusive_ancestor :: "base_document \<Rightarrow> node_id \<Rightarrow> node_id \<Rightarrow> bool option" where
  "is_inclusive_ancestor base possible node =
     (if ni_document possible \<noteq> ni_document node then Some False
      else ancestor_loop base (ni_node possible) (ni_node node))"

definition is_inclusive_descendant :: "base_document \<Rightarrow> node_id \<Rightarrow> node_id \<Rightarrow> bool option" where
  "is_inclusive_descendant base possible node = is_inclusive_ancestor base node possible"

text \<open>The child of \<open>target\<close> above \<open>child\<close>; \<open>Some None\<close> when the climb leaves the tree.\<close>

partial_function (option) climb_to :: "base_document \<Rightarrow> nat \<Rightarrow> nat \<Rightarrow> nat option option" where
  "climb_to base target child =
     (if parent_link base child = Some target then Some (Some child)
      else (case parent_link base child of None \<Rightarrow> Some None | Some p \<Rightarrow> climb_to base target p))"

definition child_index :: "base_document \<Rightarrow> nat \<Rightarrow> nat \<Rightarrow> nat \<Rightarrow> nat" where
  "child_index base doc parent child =
     (case position (\<lambda>s. ni_node s = child) (child_ids base doc parent) of
        Some i \<Rightarrow> if i \<le> u32_max then i else u32_max
      | None \<Rightarrow> u32_max)"

partial_function (option) bp_position ::
  "base_document \<Rightarrow> nat \<Rightarrow> boundary_point \<Rightarrow> boundary_point \<Rightarrow> ordering option" where
  "bp_position base doc a b =
     (if bp_node a = bp_node b then Some (cmp (bp_offset a) (bp_offset b))
      else Option.bind (tree_order base doc (ni_node (bp_node b)) (ni_node (bp_node a))) (\<lambda>order.
        if order = Less then Option.bind (bp_position base doc b a) (\<lambda>o'. Some (reverse_ord o'))
        else Option.bind (is_inclusive_ancestor base (bp_node a) (bp_node b)) (\<lambda>above.
          if above then
            Option.bind (climb_to base (ni_node (bp_node a)) (ni_node (bp_node b))) (\<lambda>climbed.
              case climbed of
                None \<Rightarrow> Some Less
              | Some child \<Rightarrow>
                  Some (if child_index base doc (ni_node (bp_node a)) child < bp_offset a then Greater else Less))
          else Some Less)))"

definition same_root :: "base_document \<Rightarrow> node_id \<Rightarrow> node_id \<Rightarrow> bool option" where
  "same_root base a b =
     (if ni_document a \<noteq> ni_document b then Some False
      else if get_node base (ni_node a) = None \<or> get_node base (ni_node b) = None then Some False
      else Option.bind (root_of base (ni_node a)) (\<lambda>ra. map_option (\<lambda>rb. ra = rb) (root_of base (ni_node b))))"

partial_function (option) common_ancestor :: "base_document \<Rightarrow> node_id \<Rightarrow> node_id \<Rightarrow> node_id option" where
  "common_ancestor base container b =
     Option.bind (is_inclusive_ancestor base container b) (\<lambda>above.
       if above then Some container
       else (case parent_of base container of None \<Rightarrow> Some container | Some p \<Rightarrow> common_ancestor base p b))"

definition is_contained :: "base_document \<Rightarrow> nat \<Rightarrow> range_state \<Rightarrow> node_id \<Rightarrow> bool option" where
  "is_contained base doc r node =
     Option.bind (same_root base node (bp_node (rs_start r))) (\<lambda>same.
       if \<not> same then Some False
       else Option.bind (bp_position base doc \<lparr> bp_node = node, bp_offset = 0 \<rparr> (rs_start r)) (\<lambda>o1.
         if o1 \<noteq> Greater then Some False
         else map_option (\<lambda>o2. o2 = Less)
           (bp_position base doc \<lparr> bp_node = node, bp_offset = node_length base node \<rparr> (rs_end r))))"

definition is_partially_contained :: "base_document \<Rightarrow> range_state \<Rightarrow> node_id \<Rightarrow> bool option" where
  "is_partially_contained base r node =
     Option.bind (is_inclusive_ancestor base node (bp_node (rs_start r))) (\<lambda>x.
       map_option (\<lambda>y. x \<noteq> y) (is_inclusive_ancestor base node (bp_node (rs_end r))))"

fun span_loop ::
  "base_document \<Rightarrow> nat \<Rightarrow> range_state \<Rightarrow> bool \<Rightarrow> bool \<Rightarrow> node_id list \<Rightarrow>
   node_id option \<times> node_id list \<times> node_id option \<Rightarrow> (node_id option \<times> node_id list \<times> node_id option) option" where
  "span_loop base doc r want_first want_last [] acc = Some acc"
| "span_loop base doc r want_first want_last (child # cs) (start, kept, stop) =
     Option.bind (is_partially_contained base r child) (\<lambda>partial.
       if partial then
         span_loop base doc r want_first want_last cs
           (if want_first \<and> start = None then Some child else start, kept,
            if want_last then Some child else stop)
       else Option.bind (is_contained base doc r child) (\<lambda>c.
         span_loop base doc r want_first want_last cs (start, if c then kept @ [child] else kept, stop)))"

definition ancestor_span ::
  "base_document \<Rightarrow> nat \<Rightarrow> range_state \<Rightarrow> node_id \<Rightarrow> bool \<Rightarrow> bool \<Rightarrow>
   (node_id option \<times> node_id list \<times> node_id option) option option" where
  "ancestor_span base doc r ancestor want_first want_last =
     Option.bind (is_inclusive_ancestor base ancestor (bp_node (rs_start r))) (\<lambda>s.
     Option.bind (is_inclusive_ancestor base ancestor (bp_node (rs_end r))) (\<lambda>e.
       if \<not> s \<or> \<not> e then Some None
       else map_option Some (span_loop base doc r want_first want_last
              (child_ids base (ni_document ancestor) (ni_node ancestor)) (None, [], None))))"

section \<open>Adjustment by mutations\<close>

definition adjust_points :: "(boundary_point \<Rightarrow> boundary_point) \<Rightarrow> range_table \<Rightarrow> range_table" where
  "adjust_points f t =
     t\<lparr>rt_slots := map (map_option (\<lambda>r. r\<lparr>rs_start := f (rs_start r), rs_end := f (rs_end r)\<rparr>)) (rt_slots t)\<rparr>"

text \<open>The same for a step that walks the tree.\<close>

definition adjust_slot ::
  "(boundary_point \<Rightarrow> boundary_point option) \<Rightarrow> range_state option \<Rightarrow> range_state option option" where
  "adjust_slot f slot =
     (case slot of
        None \<Rightarrow> Some None
      | Some r \<Rightarrow> Option.bind (f (rs_start r)) (\<lambda>s. map_option (\<lambda>e. Some (r\<lparr>rs_start := s, rs_end := e\<rparr>)) (f (rs_end r))))"

definition adjust_points_walk ::
  "(boundary_point \<Rightarrow> boundary_point option) \<Rightarrow> range_table \<Rightarrow> range_table option" where
  "adjust_points_walk f t = map_option (\<lambda>ss. t\<lparr>rt_slots := ss\<rparr>) (those (map (adjust_slot f) (rt_slots t)))"

definition insert_point :: "node_id \<Rightarrow> nat \<Rightarrow> nat \<Rightarrow> boundary_point \<Rightarrow> boundary_point" where
  "insert_point parent index count point =
     (if bp_node point = parent \<and> bp_offset point > index
      then point\<lparr>bp_offset := sat_add32 (bp_offset point) count\<rparr> else point)"

definition adjust_for_insert :: "node_id \<Rightarrow> nat \<Rightarrow> nat \<Rightarrow> range_table \<Rightarrow> range_table" where
  "adjust_for_insert parent index count t = adjust_points (insert_point parent index count) t"

definition remove_point ::
  "base_document \<Rightarrow> node_id \<Rightarrow> nat \<Rightarrow> node_id \<Rightarrow> boundary_point \<Rightarrow> boundary_point option" where
  "remove_point base parent index removed point =
     Option.bind (is_inclusive_descendant base (bp_node point) removed) (\<lambda>inside.
       Some (if inside then \<lparr> bp_node = parent, bp_offset = index \<rparr>
             else if bp_node point = parent \<and> bp_offset point > index
             then point\<lparr>bp_offset := bp_offset point - 1\<rparr> else point))"

definition adjust_for_remove ::
  "base_document \<Rightarrow> node_id \<Rightarrow> nat \<Rightarrow> node_id \<Rightarrow> range_table \<Rightarrow> range_table option" where
  "adjust_for_remove base parent index removed t = adjust_points_walk (remove_point base parent index removed) t"

definition replace_data_point :: "node_id \<Rightarrow> nat \<Rightarrow> nat \<Rightarrow> nat \<Rightarrow> boundary_point \<Rightarrow> boundary_point" where
  "replace_data_point node offset count len point =
     (if bp_node point \<noteq> node then point
      else if bp_offset point > offset \<and> bp_offset point \<le> sat_add32 offset count
        then point\<lparr>bp_offset := offset\<rparr>
      else if bp_offset point > sat_add32 offset count
        then point\<lparr>bp_offset := sat_add32 (bp_offset point) len - min count (bp_offset point - offset)\<rparr>
      else point)"

definition adjust_for_replace_data :: "node_id \<Rightarrow> nat \<Rightarrow> nat \<Rightarrow> nat \<Rightarrow> range_table \<Rightarrow> range_table" where
  "adjust_for_replace_data node offset count len t = adjust_points (replace_data_point node offset count len) t"

definition normalize_point ::
  "node_id \<Rightarrow> node_id \<Rightarrow> node_id \<Rightarrow> nat \<Rightarrow> nat \<Rightarrow> boundary_point \<Rightarrow> boundary_point" where
  "normalize_point node sibling parent index len point =
     (if bp_node point = sibling then \<lparr> bp_node = node, bp_offset = sat_add32 (bp_offset point) len \<rparr>
      else if bp_node point = parent \<and> bp_offset point = index then \<lparr> bp_node = node, bp_offset = len \<rparr>
      else point)"

definition adjust_for_normalize ::
  "node_id \<Rightarrow> node_id \<Rightarrow> node_id \<Rightarrow> nat \<Rightarrow> nat \<Rightarrow> range_table \<Rightarrow> range_table" where
  "adjust_for_normalize node sibling parent index len t =
     adjust_points (normalize_point node sibling parent index len) t"

definition split_point ::
  "node_id \<Rightarrow> node_id \<Rightarrow> node_id \<Rightarrow> nat \<Rightarrow> nat \<Rightarrow> boundary_point \<Rightarrow> boundary_point" where
  "split_point node new_node parent index offset point =
     (let point = (if bp_node point = node \<and> bp_offset point > offset
                   then \<lparr> bp_node = new_node, bp_offset = bp_offset point - offset \<rparr> else point)
      in if bp_node point = parent \<and> bp_offset point = sat_add32 index 1
         then point\<lparr>bp_offset := (bp_offset point + 1) mod 2 ^ 32\<rparr> else point)"

definition adjust_for_split ::
  "node_id \<Rightarrow> node_id \<Rightarrow> node_id \<Rightarrow> nat \<Rightarrow> nat \<Rightarrow> range_table \<Rightarrow> range_table" where
  "adjust_for_split node new_node parent index offset t =
     adjust_points (split_point node new_node parent index offset) t"

definition replace_all_point :: "base_document \<Rightarrow> node_id \<Rightarrow> boundary_point \<Rightarrow> boundary_point option" where
  "replace_all_point base parent point =
     (if bp_node point = parent then
        Some (if bp_offset point > 0 then point\<lparr>bp_offset := 0\<rparr> else point)
      else map_option (\<lambda>inside. if inside then \<lparr> bp_node = parent, bp_offset = 0 \<rparr> else point)
             (is_inclusive_descendant base (bp_node point) parent))"

definition adjust_for_replace_all :: "base_document \<Rightarrow> node_id \<Rightarrow> range_table \<Rightarrow> range_table option" where
  "adjust_for_replace_all base parent t = adjust_points_walk (replace_all_point base parent) t"

end
