(* ===== verification/Dom_Props.thy ===== *)
theory Dom_Props
  imports Dom_Range
begin

text \<open>
  The properties of the DOM walks and of live ranges: document order is preorder, boundary
  points are totally ordered by their addresses, a removal keeps live ranges valid and
  ordered, and the range table is a slot allocator.
\<close>

section \<open>Walks by address\<close>

lemma tree_addr:
  assumes "doc_tree base t" "n \<in> set (tnodes t)"
  obtains p s where "tat t p = Some s" "troot s = n"
  using assms node_addr by blast

lemma parent_snoc:
  assumes "doc_tree base t" "tat t (p @ [i]) = Some s"
  obtains s' where "tat t p = Some s'" "parent_link base (troot s) = Some (troot s')" "i < length (tkids s')"
    "s = tkids s' ! i"
proof -
  obtain s' where s': "tat t p = Some s'" using assms(2) by (cases "tat t p") (auto simp: tat_append)
  have "parent_link base (troot s) = Some (troot s')"
    using parent_at[of base None t "p @ [i]" s] assms s' by (simp add: doc_tree_def)
  moreover have "i < length (tkids s')" "s = tkids s' ! i"
    using assms(2) s' by (auto simp: tat_append split: if_splits)
  ultimately show ?thesis using that s' by blast
qed

lemma parent_root: "doc_tree base t \<Longrightarrow> parent_link base (troot t) = None"
  using parent_at[of base None t "[]" t] by (simp add: doc_tree_def)

lemma ancestor_loop_addr:
  assumes "doc_tree base t" "tat t p = Some s" "tat t q = Some s'"
  shows "ancestor_loop base (troot s) (troot s') = Some (prefix p q)"
  using assms(3)
proof (induction q arbitrary: s' rule: rev_induct)
  case Nil
  have "troot t = troot s \<longleftrightarrow> p = []"
    using addr_inj[of t "[]" t p s] assms(1,2) by (auto simp: doc_tree_def)
  then show ?case using Nil parent_root[OF assms(1)] by (simp add: ancestor_loop.simps)
next
  case (snoc i q)
  obtain u where u: "tat t q = Some u" "parent_link base (troot s') = Some (troot u)"
    using parent_snoc[OF assms(1) snoc.prems] .
  have "troot s' = troot s \<longleftrightarrow> p = q @ [i]"
    using addr_inj[of t "q @ [i]" s' p s] assms(1,2) snoc.prems by (auto simp: doc_tree_def)
  then show ?case
    using snoc.IH[OF u(1)] u(2) by (auto simp: ancestor_loop.simps[of base "troot s" "troot s'"] prefix_snoc)
qed

lemma climb_addr:
  assumes "doc_tree base t" "tat t p = Some s" "tat t (p @ i # r) = Some s'"
  shows "climb_to base (troot s) (troot s') = Some (Some (troot (tkids s ! i))) \<and> i < length (tkids s)"
  using assms(3)
proof (induction r arbitrary: s' rule: rev_induct)
  case Nil
  obtain u where u: "tat t p = Some u" "parent_link base (troot s') = Some (troot u)" "i < length (tkids u)"
    "s' = tkids u ! i" using parent_snoc[OF assms(1) Nil] .
  then show ?case using assms(2) by (simp add: climb_to.simps)
next
  case (snoc j r)
  have "tat t ((p @ i # r) @ [j]) = Some s'" using snoc.prems by simp
  then obtain u where u: "tat t (p @ i # r) = Some u" "parent_link base (troot s') = Some (troot u)"
    using parent_snoc[OF assms(1)] by blast
  have "troot u \<noteq> troot s"
    using addr_inj[of t "p @ i # r" u p s] assms(1,2) u(1) by (auto simp: doc_tree_def)
  then show ?case
    using snoc.IH[OF u(1)] u(2) by (simp add: climb_to.simps[of base "troot s" "troot s'"])
qed

section \<open>Keys of boundary points\<close>

text \<open>
  Between and around the children of a node lie its boundary points: child \<open>i\<close> takes the odd
  key \<open>2 * i + 1\<close> and offset \<open>k\<close> the even key \<open>2 * k\<close>, so that offset \<open>k\<close> is before child \<open>i\<close>
  exactly when \<open>k \<le> i\<close>.
\<close>

definition bkey :: "nat list \<Rightarrow> nat \<Rightarrow> nat list" where
  "bkey p k = map (\<lambda>i. 2 * i + 1) p @ [2 * k]"

lemma bkey_simps: "bkey [] k = [2 * k]" "bkey (i # p) k = (2 * i + 1) # bkey p k"
  by (simp_all add: bkey_def)

lemma bkey_not_Nil [simp]: "bkey p k \<noteq> []"
  by (simp add: bkey_def)

lemma bkey_cmp:
  "cmp (bkey p k) (bkey q j) =
     (if p = q then cmp k j
      else if prefix p q then (if q ! length p < k then Greater else Less)
      else if prefix q p then (if p ! length q < j then Less else Greater)
      else cmp p q)"
proof (induction p arbitrary: q)
  case Nil
  then show ?case by (cases q) (auto simp: bkey_simps cmp_def)
next
  case (Cons i p)
  show ?case
  proof (cases q)
    case Nil
    then show ?thesis by (auto simp: bkey_simps cmp_def)
  next
    case q: (Cons i' q')
    show ?thesis
    proof (cases "i = i'")
      case True
      then show ?thesis using Cons.IH[of q'] q by (simp add: bkey_simps cmp_Cons)
    next
      case False
      then show ?thesis using q by (auto simp: bkey_simps cmp_def)
    qed
  qed
qed

lemma prefix_le: "prefix q p \<Longrightarrow> q \<le> (p :: nat list)"
proof -
  have "q \<le> q @ zs" for zs by (induction q) auto
  then show "prefix q p \<Longrightarrow> q \<le> p" by (auto simp: prefix_def)
qed

lemma bp_position_before:
  assumes "doc_tree base t" "tat t p = Some s" "tat t q = Some s'" "p < q" "k \<le> u32_max"
  shows "bp_position base d \<lparr> bp_node = \<lparr> ni_document = d, ni_node = troot s \<rparr>, bp_offset = k \<rparr>
      \<lparr> bp_node = \<lparr> ni_document = d, ni_node = troot s' \<rparr>, bp_offset = j \<rparr> = Some (cmp (bkey p k) (bkey q j))"
proof -
  have ne: "troot s \<noteq> troot s'" using addr_inj[of t p s q s'] assms by (auto simp: doc_tree_def)
  have ord: "tree_order base d (troot s') (troot s) = Some Greater"
    using tree_order_addr[OF assms(1,3,2), of d] assms(4) cmp_simps(3)[of q p] by simp
  note loop = ancestor_loop_addr[OF assms(1-3)]
  have npre: "\<not> prefix q p" using prefix_le[of q p] assms(4) by auto
  show ?thesis
  proof (cases "prefix p q")
    case False
    then show ?thesis
      using ne ord loop npre assms(4) bkey_cmp[of p k q j]
      by (subst bp_position.simps) (auto simp: is_inclusive_ancestor_def)
  next
    case True
    then obtain zs where zs: "q = p @ zs" by (auto simp: prefix_def)
    then obtain i r where q: "q = p @ i # r" using assms(4) by (cases zs) auto
    have rep: "represents base None t" and dist: "distinct (tnodes t)" using assms(1) by (simp_all add: doc_tree_def)
    have climb: "climb_to base (troot s) (troot s') = Some (Some (troot (tkids s ! i)))" "i < length (tkids s)"
      using climb_addr[OF assms(1,2), of i r s'] assms(3) q by simp_all
    have idx: "position (\<lambda>x. ni_node x = troot (tkids s ! i)) (child_ids base d (troot s)) = Some i"
    proof (rule position_SomeI)
      fix m
      assume m: "m < i"
      have at: "tat t (p @ [n]) = Some (tkids s ! n)" if "n < length (tkids s)" for n
        using assms(2) that by (simp add: tat_append)
      have "troot (tkids s ! m) \<noteq> troot (tkids s ! i)"
        using addr_inj[OF dist at[of m] at[of i]] m climb(2) by auto
      then show "ni_node (child_ids base d (troot s) ! m) \<noteq> troot (tkids s ! i)"
        using m climb(2) children_at[OF rep assms(2)] by simp
    qed (use climb(2) children_at[OF rep assms(2)] in simp_all)
    have "child_index base d (troot s) (troot (tkids s ! i)) < k \<longleftrightarrow> i < k"
      using assms(5) by (auto simp: child_index_def idx)
    then show ?thesis
      using ne ord loop climb True bkey_cmp[of p k q j] q
      by (subst bp_position.simps) (auto simp: is_inclusive_ancestor_def)
  qed
qed


definition at_point :: "dtree \<Rightarrow> nat \<Rightarrow> nat list \<Rightarrow> boundary_point \<Rightarrow> bool" where
  "at_point t d p a \<longleftrightarrow>
     ni_document (bp_node a) = d \<and> map_option troot (tat t p) = Some (ni_node (bp_node a)) \<and> bp_offset a \<le> u32_max"

lemma bp_position_key:
  assumes "doc_tree base t" "at_point t d p a" "at_point t d q b"
  shows "bp_position base d a b = Some (cmp (bkey p (bp_offset a)) (bkey q (bp_offset b)))"
proof -
  obtain s s' where s: "tat t p = Some s" "tat t q = Some s'"
    "a = \<lparr> bp_node = \<lparr> ni_document = d, ni_node = troot s \<rparr>, bp_offset = bp_offset a \<rparr>"
    "b = \<lparr> bp_node = \<lparr> ni_document = d, ni_node = troot s' \<rparr>, bp_offset = bp_offset b \<rparr>"
    "bp_offset a \<le> u32_max" "bp_offset b \<le> u32_max"
    using assms(2,3) by (auto simp: at_point_def)
  consider "p < q" | "p = q" | "q < p" by fastforce
  then show ?thesis
  proof cases
    case 1
    then show ?thesis using bp_position_before[OF assms(1) s(1,2) 1 s(5), of d "bp_offset b"] s(3,4) by simp
  next
    case 2
    then have "bp_node a = bp_node b" using s by (metis boundary_point.simps(1) option.inject)
    then show ?thesis using 2 by (simp add: bp_position.simps bkey_cmp)
  next
    case 3
    have ne: "troot s \<noteq> troot s'" using addr_inj[of t p s q s'] assms(1) s 3 by (auto simp: doc_tree_def)
    have before: "bp_position base d b a = Some (cmp (bkey q (bp_offset b)) (bkey p (bp_offset a)))"
      using bp_position_before[OF assms(1) s(2,1) 3 s(6), of d "bp_offset a"] s(3,4) by simp
    have "tree_order base d (troot s') (troot s) = Some Less"
      using tree_order_addr[OF assms(1) s(2,1), of d] 3 cmp_simps(1)[of q p] by simp
    moreover have "ni_node (bp_node a) = troot s" "ni_node (bp_node b) = troot s'" "bp_node a \<noteq> bp_node b"
      using s(3,4) ne by (metis boundary_point.simps(1) node_id.simps(2))+
    ultimately show ?thesis using before by (simp add: bp_position.simps[of base d a b])
  qed
qed

section \<open>Removing a subtree\<close>

fun tremove :: "dtree \<Rightarrow> nat list \<Rightarrow> nat \<Rightarrow> dtree" where
  "tremove t [] i = DNode (troot t) (take i (tkids t) @ drop (Suc i) (tkids t))"
| "tremove t (k # p) i = DNode (troot t) ((tkids t)[k := tremove (tkids t ! k) p i])"

text \<open>Where a boundary point goes when child \<open>i\<close> of address \<open>p\<close> is removed.\<close>

fun moved_point :: "nat list \<Rightarrow> nat \<Rightarrow> nat list \<Rightarrow> nat \<Rightarrow> nat list \<times> nat" where
  "moved_point [] i [] k = ([], if k > i then k - 1 else k)"
| "moved_point [] i (j # r) k = (if j < i then (j # r, k) else if j = i then ([], i) else ((j - 1) # r, k))"
| "moved_point (y # p) i [] k = ([], k)"
| "moved_point (y # p) i (j # r) k =
     (if j = y then (j # fst (moved_point p i r k), snd (moved_point p i r k)) else (j # r, k))"

definition moved_key :: "nat list \<Rightarrow> nat \<Rightarrow> nat list \<Rightarrow> nat \<Rightarrow> nat list" where
  "moved_key p i q k = bkey (fst (moved_point p i q k)) (snd (moved_point p i q k))"

lemma moved_key_mono: "bkey q k \<le> bkey q' k' \<Longrightarrow> moved_key p i q k \<le> moved_key p i q' k'"
proof (induction p arbitrary: q q')
  case Nil
  then show ?case by (cases q; cases q') (auto simp: moved_key_def bkey_simps split: if_splits)
next
  case (Cons y p)
  show ?case
  proof (cases q; cases q')
    fix j r j' r'
    assume q: "q = j # r" "q' = j' # r'"
    then show ?thesis
      using Cons.IH[of r r'] Cons.prems by (auto simp: moved_key_def bkey_simps split: if_splits)
  qed (use Cons.prems in \<open>auto simp: moved_key_def bkey_simps split: if_splits\<close>)
qed

lemma troot_tremove [simp]: "troot (tremove t p i) = troot t"
  by (cases p) auto

lemma tat_moved:
  assumes "tat t p = Some u" "i < length (tkids u)" "tat t q = Some v"
  shows "if prefix (p @ [i]) q then moved_point p i q k = (p, i)
    else snd (moved_point p i q k) = (if q = p \<and> k > i then k - 1 else k) \<and>
      (\<exists>v'. tat (tremove t p i) (fst (moved_point p i q k)) = Some v' \<and> troot v' = troot v \<and>
        length (tkids v') = (if q = p then length (tkids u) - 1 else length (tkids v)))"
  using assms
proof (induction p arbitrary: t q)
  case Nil
  then have u: "u = t" by simp
  show ?case
  proof (cases q)
    case Nil
    then show ?thesis using \<open>tat t q = Some v\<close> u \<open>i < length (tkids u)\<close> by auto
  next
    case q: (Cons j r)
    have j: "j < length (tkids t)" "tat (tkids t ! j) r = Some v" using Nil.prems q by (auto split: if_splits)
    then have "(take i (tkids t) @ drop (Suc i) (tkids t)) ! (if j < i then j else j - 1) = tkids t ! j" if "j \<noteq> i"
      using that Nil.prems u by (auto simp: nth_append min_def)
    then show ?thesis using j q u Nil.prems by (auto simp: min_def)
  qed
next
  case (Cons y p)
  have y: "y < length (tkids t)" "tat (tkids t ! y) p = Some u" using Cons.prems by (auto split: if_splits)
  show ?case
  proof (cases q)
    case Nil
    then show ?thesis using Cons.prems by auto
  next
    case q: (Cons j r)
    have j: "j < length (tkids t)" "tat (tkids t ! j) r = Some v" using Cons.prems q by (auto split: if_splits)
    show ?thesis
    proof (cases "j = y")
      case True
      then show ?thesis using Cons.IH[OF y(2) Cons.prems(2), of r] j q by (auto split: if_splits)
    next
      case False
      then show ?thesis using j q by auto
    qed
  qed
qed

lemma tat_tremove_parent:
  assumes "tat t p = Some u" "i < length (tkids u)"
  shows "\<exists>v'. tat (tremove t p i) p = Some v' \<and> troot v' = troot u \<and> length (tkids v') = length (tkids u) - 1"
  using assms
proof (induction p arbitrary: t)
  case (Cons y p)
  then have "y < length (tkids t)" "tat (tkids t ! y) p = Some u" by (auto split: if_splits)
  then show ?case using Cons.IH[of "tkids t ! y"] Cons.prems(2) by simp
qed auto

lemma ancestor_outside:
  assumes "doc_tree base t" "n \<notin> set (tnodes t)" "tat t q = Some v"
  shows "ancestor_loop base n (troot v) = Some False"
  using assms(3)
proof (induction q arbitrary: v rule: rev_induct)
  case Nil
  then have "troot v \<in> set (tnodes t)" using node_addr by blast
  then have "troot v \<noteq> n" using assms(2) by auto
  then show ?case using Nil parent_root[OF assms(1)] by (simp add: ancestor_loop.simps)
next
  case (snoc i q)
  obtain u where u: "tat t q = Some u" "parent_link base (troot v) = Some (troot u)"
    using parent_snoc[OF assms(1) snoc.prems] .
  have "troot v \<in> set (tnodes t)" using snoc.prems node_addr by blast
  then have "troot v \<noteq> n" using assms(2) by auto
  then show ?case using snoc.IH[OF u(1)] u(2) by (simp add: ancestor_loop.simps[of base n "troot v"])
qed

section \<open>Live ranges\<close>

text \<open>Both points lie in the tree, within their nodes, and the start is not after the end.\<close>

definition point_ok :: "base_document \<Rightarrow> dtree \<Rightarrow> nat \<Rightarrow> nat list \<Rightarrow> boundary_point \<Rightarrow> bool" where
  "point_ok base t d p a \<longleftrightarrow> at_point t d p a \<and> bp_offset a \<le> node_length base (bp_node a)"

definition range_ok :: "base_document \<Rightarrow> dtree \<Rightarrow> nat \<Rightarrow> range_state \<Rightarrow> bool" where
  "range_ok base t d r \<longleftrightarrow>
     (\<exists>p q. point_ok base t d p (rs_start r) \<and> point_ok base t d q (rs_end r)) \<and>
     bp_position base d (rs_start r) (rs_end r) \<in> {Some Less, Some Equal}"

definition table_ok :: "base_document \<Rightarrow> dtree \<Rightarrow> nat \<Rightarrow> range_table \<Rightarrow> bool" where
  "table_ok base t d tbl \<longleftrightarrow> (\<forall>r. Some r \<in> set (rt_slots tbl) \<longrightarrow> range_ok base t d r)"

definition is_container :: "node_data \<Rightarrow> bool" where
  "is_container data =
     (case data of
        NText _ \<Rightarrow> False | NComment _ \<Rightarrow> False | NProcessingInstruction _ _ \<Rightarrow> False
      | NCDataSection _ \<Rightarrow> False | NDoctype _ _ _ \<Rightarrow> False | _ \<Rightarrow> True)"

text \<open>
  What \<open>remove_node\<close> of \<open>blitz_dom\<close> does to the tree: the parent loses the child, the child's
  subtree stays whole with no parent, and no node's data changes.
\<close>

definition node_removed :: "base_document \<Rightarrow> dtree \<Rightarrow> nat list \<Rightarrow> nat \<Rightarrow> base_document \<Rightarrow> bool" where
  "node_removed base t p i base' \<longleftrightarrow>
     (\<exists>u. tat t p = Some u \<and> i < length (tkids u) \<and> length (tkids u) \<le> u32_max \<and>
        doc_tree base' (tremove t p i) \<and> doc_tree base' (tkids u ! i) \<and>
        (\<exists>node. get_node base (troot u) = Some node \<and> is_container (bn_data node))) \<and>
     (\<forall>n. map_option bn_data (get_node base' n) = map_option bn_data (get_node base n))"

lemma node_length_cong:
  assumes "map_option bn_data (get_node base' (ni_node n)) = map_option bn_data (get_node base (ni_node n))"
    "length (children_of base' (ni_node n)) = length (children_of base (ni_node n))"
  shows "node_length base' n = node_length base n"
  using assms unfolding node_length_def children_of_def
  by (cases "get_node base (ni_node n)"; cases "get_node base' (ni_node n)")
    (auto split: node_data.splits)

lemma node_length_container:
  "get_node base (ni_node n) = Some node \<Longrightarrow> is_container (bn_data node) \<Longrightarrow>
     node_length base n = u32_of (length (bn_children node))"
  by (auto simp: node_length_def is_container_def split: node_data.splits)

lemma children_len:
  assumes "doc_tree base t" "tat t p = Some s"
  shows "length (children_of base (troot s)) = length (tkids s)"
proof -
  have "represents base None t" using assms(1) by (simp add: doc_tree_def)
  from represents_at[OF this assms(2)] obtain node where "get_node base (troot s) = Some node"
    "bn_children node = map troot (tkids s)" by (rule represents_node)
  then show ?thesis by (simp add: children_of_def)
qed

lemma removed_outside:
  assumes "doc_tree base t" "node_removed base t p i base'" "tat t p = Some u"
  shows "troot (tkids u ! i) \<notin> set (tnodes (tremove t p i))"
proof
  let ?s = "tkids u ! i"
  have i: "i < length (tkids u)" and t': "doc_tree base' (tremove t p i)" and s: "doc_tree base' ?s"
    using assms(2,3) by (auto simp: node_removed_def)
  have at: "tat t (p @ [i]) = Some ?s" using assms(3) i by (simp add: tat_append)
  assume "troot ?s \<in> set (tnodes (tremove t p i))"
  then obtain q v where v: "tat (tremove t p i) q = Some v" "troot v = troot ?s" using node_addr by blast
  show False
  proof (cases q rule: rev_cases)
    case Nil
    then have "troot t = troot ?s" using v by auto
    then show False using addr_inj[of t "[]" t "p @ [i]" ?s] assms(1) at by (simp add: doc_tree_def)
  next
    case (snoc r j)
    then show False using parent_snoc[OF t' v(1)[unfolded snoc]] parent_root[OF s] v(2) by (metis option.distinct(1))
  qed
qed

lemma parent_length_removed:
  assumes "node_removed base t p i base'" "tat t p = Some u"
  shows "node_length base' \<lparr> ni_document = d, ni_node = troot u \<rparr> = length (tkids u) - 1"
proof -
  have i: "i < length (tkids u)" "length (tkids u) \<le> u32_max" and t': "doc_tree base' (tremove t p i)"
    and data: "map_option bn_data (get_node base' (troot u)) = map_option bn_data (get_node base (troot u))"
    using assms by (auto simp: node_removed_def)
  obtain node where node: "get_node base (troot u) = Some node" "is_container (bn_data node)"
    using assms by (auto simp: node_removed_def)
  obtain node' where node': "get_node base' (troot u) = Some node'" "bn_data node' = bn_data node"
    using data node by (cases "get_node base' (troot u)") auto
  obtain v' where v': "tat (tremove t p i) p = Some v'" "troot v' = troot u" "length (tkids v') = length (tkids u) - 1"
    using tat_tremove_parent[OF assms(2) i(1)] by blast
  have "length (bn_children node') = length (tkids u) - 1"
    using children_len[OF t' v'(1)] v'(2,3) node' by (simp add: children_of_def)
  moreover have "length (tkids u) - Suc 0 \<le> u32_max" using i(2) by linarith
  ultimately show ?thesis using node_length_container[of base' _ node'] node' node(2) by (simp add: u32_of_def)
qed

lemma parent_length:
  assumes "doc_tree base t" "node_removed base t p i base'" "tat t p = Some u"
  shows "node_length base \<lparr> ni_document = d, ni_node = troot u \<rparr> = length (tkids u)"
proof -
  obtain node where node: "get_node base (troot u) = Some node" "is_container (bn_data node)"
    using assms by (auto simp: node_removed_def)
  have "length (bn_children node) = length (tkids u)"
    using children_len[OF assms(1,3)] node by (simp add: children_of_def)
  then show ?thesis
    using node_length_container[of base _ node] node assms(2,3) by (auto simp: u32_of_def node_removed_def)
qed

lemma remove_point_moves:
  fixes d :: nat
  assumes "doc_tree base t" "node_removed base t p i base'" "tat t p = Some u" "point_ok base t d q a"
  shows "\<exists>a'. remove_point base' \<lparr> ni_document = d, ni_node = troot u \<rparr> i
      \<lparr> ni_document = d, ni_node = troot (tkids u ! i) \<rparr> a = Some a' \<and>
    point_ok base' (tremove t p i) d (fst (moved_point p i q (bp_offset a))) a' \<and>
    bp_offset a' = snd (moved_point p i q (bp_offset a))"
proof -
  let ?s = "tkids u ! i" and ?P = "\<lparr> ni_document = d, ni_node = troot u \<rparr>"
  have i: "i < length (tkids u)" "length (tkids u) \<le> u32_max" and t': "doc_tree base' (tremove t p i)"
    and s: "doc_tree base' ?s" and data: "\<And>n. map_option bn_data (get_node base' n) = map_option bn_data (get_node base n)"
    using assms(2,3) by (auto simp: node_removed_def)
  obtain v where v: "tat t q = Some v" "bp_node a = \<lparr> ni_document = d, ni_node = troot v \<rparr>" "bp_offset a \<le> u32_max"
    "bp_offset a \<le> node_length base (bp_node a)"
    using assms(4) by (cases "bp_node a") (auto simp: point_ok_def at_point_def)
  note moved = tat_moved[OF assms(3) i(1) v(1), of "bp_offset a"]
  show ?thesis
  proof (cases "prefix (p @ [i]) q")
    case True
    then obtain r where q: "q = p @ i # r" by (auto simp: prefix_def)
    then have "tat ?s r = Some v" using v(1) assms(3) i(1) by (simp add: tat_append)
    then have "ancestor_loop base' (troot ?s) (troot v) = Some True"
      using ancestor_loop_addr[OF s, of "[]" ?s r v] by simp
    then have "remove_point base' ?P i \<lparr> ni_document = d, ni_node = troot ?s \<rparr> a = Some \<lparr> bp_node = ?P, bp_offset = i \<rparr>"
      using v(2) by (simp add: remove_point_def is_inclusive_descendant_def is_inclusive_ancestor_def)
    moreover have "point_ok base' (tremove t p i) d p \<lparr> bp_node = ?P, bp_offset = i \<rparr>"
      using tat_tremove_parent[OF assms(3) i(1)] parent_length_removed[OF assms(2,3), of d] i
      by (auto simp: point_ok_def at_point_def)
    ultimately show ?thesis using moved True by simp
  next
    case False
    define k' where "k' = (if q = p \<and> bp_offset a > i then bp_offset a - 1 else bp_offset a)"
    obtain v' where v': "tat (tremove t p i) (fst (moved_point p i q (bp_offset a))) = Some v'" "troot v' = troot v"
      "length (tkids v') = (if q = p then length (tkids u) - 1 else length (tkids v))"
      "snd (moved_point p i q (bp_offset a)) = k'"
      using moved False by (auto simp: k'_def)
    have "troot v = troot u \<longleftrightarrow> q = p"
      using addr_inj[of t q v p u] assms(1,3) v(1) by (auto simp: doc_tree_def)
    moreover have "ancestor_loop base' (troot ?s) (troot v) = Some False"
      using ancestor_outside[OF t' removed_outside[OF assms(1-3)] v'(1)] v'(2) by simp
    ultimately have res: "remove_point base' ?P i \<lparr> ni_document = d, ni_node = troot ?s \<rparr> a = Some (a\<lparr>bp_offset := k'\<rparr>)"
      using v(2) by (auto simp: remove_point_def is_inclusive_descendant_def is_inclusive_ancestor_def k'_def)
    have "k' \<le> node_length base' (bp_node a)"
    proof (cases "q = p")
      case True
      then have "bp_node a = ?P" using v(1,2) assms(3) by simp
      then show ?thesis
        using v(4) True parent_length[OF assms(1-3), of d] parent_length_removed[OF assms(2,3), of d] i
        by (auto simp: k'_def)
    next
      case False
      have "node_length base' (bp_node a) = node_length base (bp_node a)"
        by (rule node_length_cong)
          (use data children_len[OF assms(1) v(1)] children_len[OF t' v'(1)] v' v(2) False in simp_all)
      then show ?thesis using v(4) False by (simp add: k'_def)
    qed
    then show ?thesis using res v v' by (auto simp: point_ok_def at_point_def k'_def)
  qed
qed

lemma those_map_Some: "(\<And>x. x \<in> set xs \<Longrightarrow> f x = Some (g x)) \<Longrightarrow> those (map f xs) = Some (map g xs)"
  by (induction xs) auto

lemma range_ok_removed:
  assumes "doc_tree base t" "node_removed base t p i base'" "tat t p = Some u" "range_ok base t d r"
  defines "f \<equiv> remove_point base' \<lparr> ni_document = d, ni_node = troot u \<rparr> i \<lparr> ni_document = d, ni_node = troot (tkids u ! i) \<rparr>"
  shows "\<exists>r'. adjust_slot f (Some r) = Some (Some r') \<and> range_ok base' (tremove t p i) d r'"
proof -
  obtain q q' where ok: "point_ok base t d q (rs_start r)" "point_ok base t d q' (rs_end r)"
    using assms(4) by (auto simp: range_ok_def)
  obtain a where a: "f (rs_start r) = Some a"
    "point_ok base' (tremove t p i) d (fst (moved_point p i q (bp_offset (rs_start r)))) a"
    "bp_offset a = snd (moved_point p i q (bp_offset (rs_start r)))"
    using remove_point_moves[OF assms(1-3) ok(1)] unfolding f_def by blast
  obtain b where b: "f (rs_end r) = Some b"
    "point_ok base' (tremove t p i) d (fst (moved_point p i q' (bp_offset (rs_end r)))) b"
    "bp_offset b = snd (moved_point p i q' (bp_offset (rs_end r)))"
    using remove_point_moves[OF assms(1-3) ok(2)] unfolding f_def by blast
  have t': "doc_tree base' (tremove t p i)" using assms(2) by (auto simp: node_removed_def)
  have "bkey q (bp_offset (rs_start r)) \<le> bkey q' (bp_offset (rs_end r))"
    using assms(4) bp_position_key[OF assms(1), of d q "rs_start r" q' "rs_end r"] ok
    by (auto simp: range_ok_def point_ok_def)
  then have "moved_key p i q (bp_offset (rs_start r)) \<le> moved_key p i q' (bp_offset (rs_end r))"
    by (rule moved_key_mono)
  then have "bp_position base' d a b \<in> {Some Less, Some Equal}"
    using bp_position_key[OF t', of d _ a _ b] a b by (auto simp: point_ok_def moved_key_def)
  then have "range_ok base' (tremove t p i) d (r\<lparr>rs_start := a, rs_end := b\<rparr>)"
    using a(2) b(2) by (auto simp: range_ok_def)
  then show ?thesis using a(1) b(1) by (simp add: adjust_slot_def)
qed

section \<open>The range table\<close>

definition rt_inv :: "range_table \<Rightarrow> bool" where
  "rt_inv t \<longleftrightarrow> rt_live t = length (filter (\<lambda>e. e \<noteq> None) (rt_slots t)) \<and> distinct (rt_free t) \<and>
     set (rt_free t) = {i. i < length (rt_slots t) \<and> rt_slots t ! i = None}"

inductive rt_reach :: "range_table \<Rightarrow> bool" where
  rt_start: "rt_reach rt_default"
| rt_alloced: "rt_reach t \<Longrightarrow> rt_alloc st t = Some (slot, t') \<Longrightarrow> rt_reach t'"
| rt_setted: "rt_reach t \<Longrightarrow> rt_reach (snd (rt_set slot st t))"
| rt_released: "rt_reach t \<Longrightarrow> rt_reach (rt_release slot t)"
| rt_adjusted: "rt_reach t \<Longrightarrow> rt_reach (adjust_points f t)"
| rt_walked: "rt_reach t \<Longrightarrow> adjust_points_walk w t = Some t' \<Longrightarrow> rt_reach t'"

lemma filter_update_count:
  "i < length xs \<Longrightarrow>
     length (filter P (xs[i := x])) + (if P (xs ! i) then 1 else 0) = length (filter P xs) + (if P x then 1 else 0)"
proof (induction xs arbitrary: i)
  case (Cons y ys)
  then show ?case by (cases i) (auto split: if_splits)
qed simp

lemma none_slots_update:
  "i < length xs \<Longrightarrow> {k. k < length xs \<and> xs[i := x] ! k = None} =
     (if x = None then insert i {k. k < length xs \<and> xs ! k = None} else {k. k < length xs \<and> xs ! k = None} - {i})"
  by (auto simp: nth_list_update split: if_splits)

lemma count_slots:
  assumes "i < length xs"
  shows "xs ! i = None \<Longrightarrow> length (filter (\<lambda>e. e \<noteq> None) (xs[i := Some x])) = Suc (length (filter (\<lambda>e. e \<noteq> None) xs))"
    and "xs ! i \<noteq> None \<Longrightarrow> length (filter (\<lambda>e. e \<noteq> None) (xs[i := Some x])) = length (filter (\<lambda>e. e \<noteq> None) xs)"
    and "xs ! i \<noteq> None \<Longrightarrow> length (filter (\<lambda>e. e \<noteq> None) (xs[i := None])) = length (filter (\<lambda>e. e \<noteq> None) xs) - 1"
  using filter_update_count[OF assms, of "\<lambda>e. e \<noteq> None" "Some x"]
    filter_update_count[OF assms, of "\<lambda>e. e \<noteq> None" None] by simp_all

lemma rt_get_nth: "rt_get t k = (if k < length (rt_slots t) then rt_slots t ! k else None)"
  by (simp add: rt_get_def nth_opt_def)

lemma rt_alloc_spec:
  assumes "rt_inv t"
  shows "\<exists>slot t'. rt_alloc st t = Some (slot, t') \<and> rt_inv t' \<and> rt_get t slot = None \<and>
    rt_get t' = (rt_get t)(slot := Some st) \<and> rt_live t' = rt_live t + 1"
proof (cases "rt_free t = []")
  case True
  let ?t' = "t\<lparr>rt_live := rt_live t + 1, rt_slots := rt_slots t @ [Some st]\<rparr>"
  have "rt_inv ?t'" using assms True by (auto simp: rt_inv_def nth_append)
  moreover have "rt_get ?t' = (rt_get t)(length (rt_slots t) := Some st)"
    by (auto simp: rt_get_nth nth_append fun_eq_iff)
  ultimately show ?thesis
    using True by (intro exI[of _ "length (rt_slots t)"] exI[of _ ?t']) (simp add: rt_alloc_def Let_def rt_get_nth)
next
  case False
  define slot where "slot = last (rt_free t)"
  let ?t' = "t\<lparr>rt_live := rt_live t + 1, rt_free := butlast (rt_free t), rt_slots := (rt_slots t)[slot := Some st]\<rparr>"
  have free: "rt_free t = butlast (rt_free t) @ [slot]" using False by (simp add: slot_def)
  have slot: "slot < length (rt_slots t)" "rt_slots t ! slot = None"
    using assms last_in_set[OF False] by (auto simp: rt_inv_def slot_def)
  have dist: "distinct (butlast (rt_free t) @ [slot])" using assms free by (simp add: rt_inv_def)
  have "set (butlast (rt_free t)) = set (butlast (rt_free t) @ [slot]) - {slot}" using dist by simp
  also have "\<dots> = {k. k < length (rt_slots t) \<and> rt_slots t ! k = None} - {slot}"
    using assms free by (simp add: rt_inv_def)
  finally have "set (butlast (rt_free t)) = {k. k < length (rt_slots t) \<and> (rt_slots t)[slot := Some st] ! k = None}"
    unfolding none_slots_update[OF slot(1)] by simp
  then have "rt_inv ?t'" using assms dist count_slots(1)[OF slot] by (simp add: rt_inv_def)
  moreover have "rt_get ?t' = (rt_get t)(slot := Some st)"
    using slot by (auto simp: rt_get_nth fun_eq_iff)
  ultimately show ?thesis
    using False slot
    by (intro exI[of _ slot] exI[of _ ?t']) (simp add: rt_alloc_def Let_def rt_get_nth flip: slot_def)
qed

lemma rt_set_spec:
  assumes "rt_inv t"
  shows "rt_inv (snd (rt_set slot st t)) \<and> fst (rt_set slot st t) = (rt_get t slot \<noteq> None) \<and>
    rt_get (snd (rt_set slot st t)) = (if rt_get t slot = None then rt_get t else (rt_get t)(slot := Some st))"
proof (cases "rt_get t slot")
  case None
  then have "rt_set slot st t = (False, t)" by (auto simp: rt_set_def rt_get_def split: option.splits)
  then show ?thesis using assms None by simp
next
  case (Some r)
  then have s: "slot < length (rt_slots t)" "rt_slots t ! slot = Some r" by (auto simp: rt_get_nth split: if_splits)
  then have eq: "rt_set slot st t = (True, t\<lparr>rt_slots := (rt_slots t)[slot := Some st]\<rparr>)"
    by (simp add: rt_set_def nth_opt_def)
  have "rt_inv (t\<lparr>rt_slots := (rt_slots t)[slot := Some st]\<rparr>)"
    using assms s count_slots(2)[OF s(1)] none_slots_update[OF s(1), of "Some st"] by (simp add: rt_inv_def)
  then show ?thesis using s Some by (auto simp: eq rt_get_nth fun_eq_iff)
qed

lemma rt_release_spec:
  assumes "rt_inv t"
  shows "rt_inv (rt_release slot t) \<and> rt_get (rt_release slot t) = (rt_get t)(slot := None)"
proof (cases "rt_get t slot")
  case None
  then have "rt_release slot t = t" by (auto simp: rt_release_def rt_get_def split: option.splits)
  then show ?thesis using assms None by (simp add: fun_upd_idem)
next
  case (Some r)
  then have s: "slot < length (rt_slots t)" "rt_slots t ! slot = Some r" by (auto simp: rt_get_nth split: if_splits)
  then have eq: "rt_release slot t =
      t\<lparr>rt_slots := (rt_slots t)[slot := None], rt_free := rt_free t @ [slot], rt_live := rt_live t - 1\<rparr>"
    by (simp add: rt_release_def nth_opt_def)
  have "rt_inv (t\<lparr>rt_slots := (rt_slots t)[slot := None], rt_free := rt_free t @ [slot], rt_live := rt_live t - 1\<rparr>)"
    using assms s count_slots(3)[OF s(1)] none_slots_update[OF s(1), of None] by (simp add: rt_inv_def)
  then show ?thesis using s by (auto simp: eq rt_get_nth fun_eq_iff)
qed

lemma rt_inv_slots:
  assumes "rt_inv t" "map (\<lambda>e. e = None) ss = map (\<lambda>e. e = None) (rt_slots t)"
  shows "rt_inv (t\<lparr>rt_slots := ss\<rparr>)"
proof -
  have len: "length ss = length (rt_slots t)" using arg_cong[OF assms(2), of length] by simp
  have nth: "ss ! i = None \<longleftrightarrow> rt_slots t ! i = None" if "i < length ss" for i
    using arg_cong[OF assms(2), of "\<lambda>l. l ! i"] that len by simp
  have count: "length (filter (\<lambda>e. e \<noteq> None) xs) = length (filter Not (map (\<lambda>e. e = None) xs))" for xs :: "range_state option list"
    by (induction xs) auto
  have "length (filter (\<lambda>e. e \<noteq> None) ss) = length (filter (\<lambda>e. e \<noteq> None) (rt_slots t))"
    unfolding count assms(2) ..
  then show ?thesis using assms(1) len nth by (auto simp: rt_inv_def)
qed

lemma those_Some_map: "those xs = Some ys \<Longrightarrow> xs = map Some ys"
  by (induction xs arbitrary: ys) (auto split: option.splits)

lemma adjust_slot_None: "adjust_slot f e = Some e' \<Longrightarrow> (e' = None) = (e = None)"
  by (cases e) (auto simp: adjust_slot_def bind_eq_Some_conv)

lemma rt_reach_inv: "rt_reach t \<Longrightarrow> rt_inv t"
proof (induction rule: rt_reach.induct)
  case rt_start
  show ?case by (simp add: rt_inv_def rt_default_def)
next
  case (rt_alloced t st slot t')
  then show ?case using rt_alloc_spec[of t st] by auto
next
  case (rt_adjusted t f)
  then show ?case unfolding adjust_points_def by (intro rt_inv_slots) (simp_all add: comp_def)
next
  case (rt_walked t w t')
  obtain ss where ss: "map (adjust_slot w) (rt_slots t) = map Some ss" "t' = t\<lparr>rt_slots := ss\<rparr>"
    using rt_walked.hyps by (auto simp: adjust_points_walk_def dest: those_Some_map)
  have "map (adjust_slot w) xs = map Some ys \<Longrightarrow> map (\<lambda>e. e = None) ys = map (\<lambda>e. e = None) xs" for xs ys
    by (induction xs arbitrary: ys) (auto simp: Cons_eq_map_conv adjust_slot_None)
  from this[OF ss(1)] have "map (\<lambda>e. e = None) ss = map (\<lambda>e. e = None) (rt_slots t)" .
  then show ?case unfolding ss(2) by (intro rt_inv_slots rt_walked.IH)
qed (simp_all add: rt_set_spec rt_release_spec)

section \<open>Examples\<close>

definition example_node :: "nat option \<Rightarrow> nat list \<Rightarrow> string \<Rightarrow> blitz_node" where
  "example_node par cs i =
     (let e = \<lparr> el_name = \<lparr> qn_prefix = None, qn_ns = html_namespace, qn_local = ''p'' \<rparr>,
        el_attrs = [\<lparr> at_name = \<lparr> qn_prefix = None, qn_ns = [], qn_local = ''id'' \<rparr>, at_value = i \<rparr>],
        el_template_contents = None \<rparr>
      in \<lparr> bn_parent = par, bn_children = cs, bn_data = NElement e, bn_element = Some e \<rparr>)"

definition example_doc :: base_document where
  "example_doc = \<lparr> get_node = [0 \<mapsto> example_node None [1, 2] ''r'', 1 \<mapsto> example_node (Some 0) [3] ''a'',
     2 \<mapsto> example_node (Some 0) [] ''b'', 3 \<mapsto> example_node (Some 1) [] ''b''], root_node = 0 \<rparr>"

definition example_tree :: dtree where
  "example_tree = DNode 0 [DNode 1 [DNode 3 []], DNode 2 []]"

definition example_doc_removed :: base_document where
  "example_doc_removed = example_doc\<lparr>get_node := (get_node example_doc)
     (0 \<mapsto> example_node None [2] ''r'', 1 \<mapsto> example_node None [3] ''a'')\<rparr>"

lemma example_doc_tree: "doc_tree example_doc example_tree"
  by (simp add: doc_tree_def example_doc_def example_tree_def example_node_def Let_def)

lemma example_node_removed: "node_removed example_doc example_tree [] 0 example_doc_removed"
  by (simp add: node_removed_def doc_tree_def example_doc_def example_tree_def example_node_def
      example_doc_removed_def is_container_def u32_max_def Let_def)

section \<open>The properties\<close>

text \<open>
  \<^bold>\<open>C20.\<close> \<open>tree_order\<close> is document order: on every document that represents a tree it returns,
  and compares two nodes as their positions in the preorder traversal.
\<close>

theorem tree_order_preorder:
  assumes "doc_tree base t" "i < length (tnodes t)" "j < length (tnodes t)"
  shows "tree_order base d (tnodes t ! i) (tnodes t ! j) = Some (cmp i j)"
proof -
  have len: "length (taddrs t) = length (tnodes t)" using nodes_addrs(1)[of t] by (metis length_map)
  have node: "\<exists>s. tat t (taddrs t ! k) = Some s \<and> troot s = tnodes t ! k" if "k < length (tnodes t)" for k
  proof -
    have "tat t (taddrs t ! k) \<noteq> None" using set_addrs(1)[of "taddrs t ! k" t] that len by (metis nth_mem)
    moreover have "tnodes t ! k = troot (the (tat t (taddrs t ! k)))"
      using that len nodes_addrs(1)[of t] by (metis nth_map)
    ultimately show ?thesis by auto
  qed
  obtain s s' where s: "tat t (taddrs t ! i) = Some s" "troot s = tnodes t ! i"
    "tat t (taddrs t ! j) = Some s'" "troot s' = tnodes t ! j"
    using node[OF assms(2)] node[OF assms(3)] by blast
  have less: "taddrs t ! m < taddrs t ! n" if "m < n" "n < length (tnodes t)" for m n
    using sorted_addrs(1)[of t] that len by (simp add: sorted_wrt_iff_nth_less)
  have "cmp (taddrs t ! i) (taddrs t ! j) = cmp i j"
    using less[of i j] less[of j i] assms(2,3) by (cases i j rule: linorder_cases) (auto simp: cmp_def)
  then show ?thesis using tree_order_addr[OF assms(1) s(1,3), of d] s(2,4) by simp
qed

theorem tree_order_preorder_witness: "tree_order example_doc 7 3 2 = Some Less"
  using tree_order_preorder[OF example_doc_tree, of 2 3 7] by (simp add: example_tree_def cmp_def)

text \<open>
  \<open>getElementById\<close> and the form owner lookup find the first element in document order:
  on a document that represents a tree the search returns, with the first node of the
  preorder traversal that carries the id.
\<close>

theorem first_element_with_id_preorder:
  assumes "doc_tree base t" "troot t = root_node base" "i \<noteq> []"
  shows "first_element_with_id base d i =
    Some (map_option (\<lambda>n. \<lparr> ni_document = d, ni_node = n \<rparr>)
      (find (\<lambda>n. \<exists>node. get_node base n = Some node \<and> has_id i node) (tnodes t)))"
  using id_search_forest(1)[of base None t d i "[]"] assms
  by (simp add: first_element_with_id_def doc_tree_def id_search.simps[of base d i "[]"] split: option.splits)

theorem first_element_with_id_preorder_witness:
  "first_element_with_id example_doc 7 ''b'' = Some (Some \<lparr> ni_document = 7, ni_node = 3 \<rparr>)"
  using first_element_with_id_preorder[OF example_doc_tree, of "''b''" 7]
  by (simp add: example_tree_def example_doc_def example_node_def has_id_def Let_def)

text \<open>
  \<^bold>\<open>C22.\<close> Removing a node keeps every live range valid: the pre-remove steps return, and in the
  new tree each range still has both points in the tree and within their nodes, with its
  start not after its end.
\<close>

theorem removal_keeps_ranges:
  assumes "doc_tree base t" "table_ok base t d tbl" "node_removed base t p i base'" "tat t p = Some u"
  shows "\<exists>tbl'. adjust_for_remove base' \<lparr> ni_document = d, ni_node = troot u \<rparr> i
      \<lparr> ni_document = d, ni_node = troot (tkids u ! i) \<rparr> tbl = Some tbl' \<and>
    table_ok base' (tremove t p i) d tbl' \<and>
    map (\<lambda>slot. slot = None) (rt_slots tbl') = map (\<lambda>slot. slot = None) (rt_slots tbl)"
proof -
  let ?f = "remove_point base' \<lparr> ni_document = d, ni_node = troot u \<rparr> i \<lparr> ni_document = d, ni_node = troot (tkids u ! i) \<rparr>"
  have slot: "\<exists>slot'. adjust_slot ?f slot = Some slot' \<and> (slot' = None) = (slot = None) \<and>
      (\<forall>r'. slot' = Some r' \<longrightarrow> range_ok base' (tremove t p i) d r')" if "slot \<in> set (rt_slots tbl)" for slot
  proof (cases slot)
    case None
    then show ?thesis by (simp add: adjust_slot_def)
  next
    case (Some r)
    then have "range_ok base t d r" using assms(2) that by (auto simp: table_ok_def)
    from range_ok_removed[OF assms(1,3,4) this] show ?thesis using Some by auto
  qed
  then obtain g where g: "\<And>slot. slot \<in> set (rt_slots tbl) \<Longrightarrow> adjust_slot ?f slot = Some (g slot) \<and>
      (g slot = None) = (slot = None) \<and> (\<forall>r'. g slot = Some r' \<longrightarrow> range_ok base' (tremove t p i) d r')"
    by metis
  have "those (map (adjust_slot ?f) (rt_slots tbl)) = Some (map g (rt_slots tbl))"
    by (rule those_map_Some) (use g in blast)
  then have "adjust_for_remove base' \<lparr> ni_document = d, ni_node = troot u \<rparr> i
      \<lparr> ni_document = d, ni_node = troot (tkids u ! i) \<rparr> tbl = Some (tbl\<lparr>rt_slots := map g (rt_slots tbl)\<rparr>)"
    by (simp add: adjust_for_remove_def adjust_points_walk_def)
  moreover have "table_ok base' (tremove t p i) d (tbl\<lparr>rt_slots := map g (rt_slots tbl)\<rparr>)"
    using g unfolding table_ok_def by (auto dest: sym)
  moreover have "map (\<lambda>slot. slot = None) (map g (rt_slots tbl)) = map (\<lambda>slot. slot = None) (rt_slots tbl)"
    using g by simp
  ultimately show ?thesis by (intro exI[of _ "tbl\<lparr>rt_slots := map g (rt_slots tbl)\<rparr>"]) simp
qed

theorem removal_keeps_ranges_witness:
  "\<exists>tbl'. adjust_for_remove example_doc_removed \<lparr> ni_document = 7, ni_node = 0 \<rparr> 0 \<lparr> ni_document = 7, ni_node = 1 \<rparr>
      \<lparr> rt_slots = [Some (range_collapsed \<lparr> bp_node = \<lparr> ni_document = 7, ni_node = 3 \<rparr>, bp_offset = 0 \<rparr>)],
         rt_free = [], rt_live = 1 \<rparr> = Some tbl' \<and>
    table_ok example_doc_removed (tremove example_tree [] 0) 7 tbl'"
proof -
  let ?a = "\<lparr> bp_node = \<lparr> ni_document = 7, ni_node = 3 \<rparr>, bp_offset = 0 \<rparr>"
  let ?tbl = "\<lparr> rt_slots = [Some (range_collapsed ?a)], rt_free = [], rt_live = 1 \<rparr>"
  have "point_ok example_doc example_tree 7 [0, 0] ?a" by (simp add: point_ok_def at_point_def example_tree_def)
  moreover have "bp_position example_doc 7 ?a ?a = Some Equal" by (simp add: bp_position.simps)
  ultimately have "table_ok example_doc example_tree 7 ?tbl"
    by (auto simp: table_ok_def range_ok_def range_collapsed_def)
  from removal_keeps_ranges[OF example_doc_tree this example_node_removed, of example_tree]
  show ?thesis by (simp add: example_tree_def) blast
qed

text \<open>
  \<^bold>\<open>C21.\<close> Boundary points are totally ordered: \<open>position\<close> returns for any two points of a tree and
  compares their keys, and two points have the same key only when they are the same point.
\<close>

theorem boundary_points_ordered:
  assumes "doc_tree base t" "at_point t d p a" "at_point t d q b"
  shows "bp_position base d a b = Some (cmp (bkey p (bp_offset a)) (bkey q (bp_offset b))) \<and>
    (bkey p (bp_offset a) = bkey q (bp_offset b) \<longleftrightarrow> a = b)"
proof -
  have "bkey p k = bkey q j \<longleftrightarrow> p = q \<and> k = j" for k j
    by (auto simp: bkey_def inj_map_eq_map inj_def)
  moreover have "p = q \<longleftrightarrow> bp_node a = bp_node b"
  proof -
    obtain s s' where s: "tat t p = Some s" "troot s = ni_node (bp_node a)" "tat t q = Some s'"
      "troot s' = ni_node (bp_node b)" "ni_document (bp_node a) = ni_document (bp_node b)"
      using assms(2,3) by (auto simp: at_point_def)
    then have "bp_node a = bp_node b" if "p = q"
      using that by (cases "bp_node a"; cases "bp_node b") simp
    moreover have "p = q" if "bp_node a = bp_node b"
      using that s addr_inj[of t p s q s'] assms(1) by (simp add: doc_tree_def)
    ultimately show ?thesis by blast
  qed
  ultimately have "bkey p (bp_offset a) = bkey q (bp_offset b) \<longleftrightarrow> a = b"
    by (metis boundary_point.equality old.unit.exhaust)
  then show ?thesis using bp_position_key[OF assms] by simp
qed

theorem boundary_points_ordered_witness:
  "bp_position example_doc 7 \<lparr> bp_node = \<lparr> ni_document = 7, ni_node = 0 \<rparr>, bp_offset = 1 \<rparr>
     \<lparr> bp_node = \<lparr> ni_document = 7, ni_node = 3 \<rparr>, bp_offset = 0 \<rparr> = Some Greater"
  using boundary_points_ordered[OF example_doc_tree,
      where d = 7 and p = "[]" and q = "[0, 0]" and a = "\<lparr> bp_node = \<lparr> ni_document = 7, ni_node = 0 \<rparr>, bp_offset = 1 \<rparr>"
        and b = "\<lparr> bp_node = \<lparr> ni_document = 7, ni_node = 3 \<rparr>, bp_offset = 0 \<rparr>"]
  by (simp add: at_point_def example_tree_def bkey_def u32_max_def cmp_def)

text \<open>
  The range table is a slot allocator. After any sequence of operations, registering a
  range never fails, takes a slot that held nothing and leaves every other slot alone;
  overwriting and freeing act on that slot only, and the live count is the number of ranges.
\<close>

theorem range_table_allocates:
  assumes "rt_reach t"
  shows "(\<exists>slot t'. rt_alloc st t = Some (slot, t') \<and> rt_get t slot = None \<and> rt_get t' = (rt_get t)(slot := Some st)) \<and>
    rt_get (snd (rt_set k st t)) = (if rt_get t k = None then rt_get t else (rt_get t)(k := Some st)) \<and>
    rt_get (rt_release k t) = (rt_get t)(k := None) \<and>
    rt_live t = card {k. rt_get t k \<noteq> None}"
proof -
  have inv: "rt_inv t" by (rule rt_reach_inv[OF assms])
  have "{k. rt_get t k \<noteq> None} = {k. k < length (rt_slots t) \<and> rt_slots t ! k \<noteq> None}"
    by (auto simp: rt_get_nth split: if_splits)
  then have "rt_live t = card {k. rt_get t k \<noteq> None}"
    using inv length_filter_conv_card[of "\<lambda>e. e \<noteq> None" "rt_slots t"] by (simp add: rt_inv_def)
  then show ?thesis
    using rt_alloc_spec[OF inv, of st] rt_set_spec[OF inv, of k st] rt_release_spec[OF inv, of k] by blast
qed

theorem range_table_allocates_witness:
  "\<exists>slot t'. rt_alloc (range_attribute \<lparr> ap_scope = \<lparr> ni_document = 7, ni_node = 0 \<rparr>, ap_id = 0 \<rparr>) rt_default = Some (slot, t') \<and>
     rt_get t' slot \<noteq> None"
  using range_table_allocates[OF rt_start, of "range_attribute \<lparr> ap_scope = \<lparr> ni_document = 7, ni_node = 0 \<rparr>, ap_id = 0 \<rparr>" 0]
  by auto

end
