(* ===== verification/Microsyntaxes.thy ===== *)
theory Microsyntaxes
  imports Rust_Std
begin

text \<open>
  \<open>crates/renderer/src/dom/microsyntaxes.rs\<close>: dates, months, weeks, times and exact decimals of
  form controls. \<open>u64\<close> values are natural numbers bounded by their parser; \<open>i128\<close> arithmetic is
  integer arithmetic with the checked operations written out. The conversions to and from
  \<open>f64\<close> (\<open>valid_float\<close>, \<open>format_number\<close>, \<open>time_value\<close>, \<open>local_datetime_value\<close>) are not modelled; of
  \<open>Decimal::to_f64\<close> only the two facts \<open>parse_decimal\<close> reads, whether the correctly rounded value
  is finite and whether it is zero, which are comparisons of exact numbers.
\<close>

definition i128_max :: int where "i128_max = 2 ^ 127 - 1"
definition i128_min :: int where "i128_min = - (2 ^ 127)"
definition i64_hi :: int where "i64_hi = 2 ^ 63 - 1"
definition i64_lo :: int where "i64_lo = - (2 ^ 63)"

definition checked128 :: "int \<Rightarrow> int option" where
  "checked128 n = (if i128_min \<le> n \<and> n \<le> i128_max then Some n else None)"

definition sat64 :: "int \<Rightarrow> int" where
  "sat64 n = max i64_lo (min i64_hi n)"

text \<open>Rust's \<open>/\<close> and \<open>%\<close> truncate toward zero.\<close>

definition rust_div :: "int \<Rightarrow> int \<Rightarrow> int" where
  "rust_div a b = sgn a * sgn b * (\<bar>a\<bar> div \<bar>b\<bar>)"

definition rust_rem :: "int \<Rightarrow> int \<Rightarrow> int" where
  "rust_rem a b = a - rust_div a b * b"

section \<open>Dates\<close>

definition is_leap_year :: "nat \<Rightarrow> bool" where
  "is_leap_year year = (year mod 4 = 0 \<and> (year mod 100 \<noteq> 0 \<or> year mod 400 = 0))"

definition month_days :: "nat \<Rightarrow> nat \<Rightarrow> nat" where
  "month_days year month =
     (if month \<in> set [1, 3, 5, 7, 8, 10, 12] then 31
      else if month \<in> set [4, 6, 9, 11] then 30
      else if month = 2 \<and> is_leap_year year then 29
      else if month = 2 then 28
      else 0)"

definition parse_year :: "string \<Rightarrow> nat option" where
  "parse_year v =
     (if length v < 4 \<or> \<not> list_all is_ascii_digit v then None
      else case parse_unsigned u64_max v of Some year \<Rightarrow> if year > 0 then Some year else None | None \<Rightarrow> None)"

definition parse_two_digits :: "string \<Rightarrow> nat option" where
  "parse_two_digits v =
     (if length v \<noteq> 2 \<or> \<not> list_all is_ascii_digit v then None else parse_unsigned u64_max v)"

definition valid_date_string :: "string \<Rightarrow> bool" where
  "valid_date_string v =
     (let parts = split_by (\<lambda>c. c = CHR ''-'') v
      in case Option.bind (nth_opt parts 0) parse_year of None \<Rightarrow> False | Some year \<Rightarrow>
        (case Option.bind (nth_opt parts 1) parse_two_digits of None \<Rightarrow> False | Some month \<Rightarrow>
         (case Option.bind (nth_opt parts 2) parse_two_digits of None \<Rightarrow> False | Some day \<Rightarrow>
            if nth_opt parts 3 \<noteq> None \<or> \<not> (1 \<le> month \<and> month \<le> 12) then False
            else 1 \<le> day \<and> day \<le> month_days year month)))"

definition valid_month_string :: "string \<Rightarrow> bool" where
  "valid_month_string v =
     (let parts = split_by (\<lambda>c. c = CHR ''-'') v
      in case Option.bind (nth_opt parts 0) parse_year of None \<Rightarrow> False | Some year \<Rightarrow>
        (case Option.bind (nth_opt parts 1) parse_two_digits of None \<Rightarrow> False | Some month \<Rightarrow>
           nth_opt parts 2 = None \<and> 1 \<le> month \<and> month \<le> 12))"

definition january_first_weekday :: "nat \<Rightarrow> nat" where
  "january_first_weekday year =
     (let previous = year - 1; days = 365 * previous + previous div 4 - previous div 100 + previous div 400
      in days mod 7)"

definition weeks_in_year :: "nat \<Rightarrow> nat" where
  "weeks_in_year year =
     (if january_first_weekday year = 3 \<or> (is_leap_year year \<and> january_first_weekday year = 2) then 53 else 52)"

definition valid_week_string :: "string \<Rightarrow> bool" where
  "valid_week_string v =
     (case split_once (CHR ''-'') v of None \<Rightarrow> False | Some (y, rest) \<Rightarrow>
      (case Option.bind (strip_prefix ''W'' rest) parse_two_digits of None \<Rightarrow> False | Some week \<Rightarrow>
       (case parse_year y of None \<Rightarrow> False | Some year \<Rightarrow> 1 \<le> week \<and> week \<le> weeks_in_year year)))"

definition days_from_civil :: "nat \<Rightarrow> nat \<Rightarrow> nat \<Rightarrow> int" where
  "days_from_civil year month day =
     (let year = int year; month = int month; day = int day;
          year = year - (if month \<le> 2 then 1 else 0);
          era = rust_div (if year \<ge> 0 then year else year - 399) 400;
          year_of_era = year - era * 400;
          month_index = month + (if month > 2 then -3 else 9);
          day_of_year = rust_div (153 * month_index + 2) 5 + day - 1;
          day_of_era = year_of_era * 365 + rust_div year_of_era 4 - rust_div year_of_era 100 + day_of_year
      in era * 146097 + day_of_era - 719468)"

definition date_value :: "string \<Rightarrow> int option" where
  "date_value v =
     (let parts = split_by (\<lambda>c. c = CHR ''-'') v
      in case Option.bind (nth_opt parts 0) parse_year of None \<Rightarrow> None | Some year \<Rightarrow>
        (case Option.bind (nth_opt parts 1) parse_two_digits of None \<Rightarrow> None | Some month \<Rightarrow>
         (case Option.bind (nth_opt parts 2) parse_two_digits of None \<Rightarrow> None | Some day \<Rightarrow>
            if nth_opt parts 3 \<noteq> None \<or> \<not> (1 \<le> month \<and> month \<le> 12) then None
            else if \<not> (1 \<le> day \<and> day \<le> month_days year month) then None
            else Some (days_from_civil year month day))))"

definition month_value :: "string \<Rightarrow> int option" where
  "month_value v =
     (let parts = split_by (\<lambda>c. c = CHR ''-'') v
      in case Option.bind (nth_opt parts 0) parse_year of None \<Rightarrow> None | Some year \<Rightarrow>
        (case Option.bind (nth_opt parts 1) parse_two_digits of None \<Rightarrow> None | Some month \<Rightarrow>
           if nth_opt parts 2 \<noteq> None \<or> \<not> (1 \<le> month \<and> month \<le> 12) then None
           else Some ((int year - 1970) * 12 + int month - 1)))"

definition EPOCH_MONDAY :: int where
  "EPOCH_MONDAY = -3"

definition weekday_from_days :: "int \<Rightarrow> int" where
  "weekday_from_days days = rust_rem (rust_rem days 7 + 10) 7"

definition monday_of_week_one :: "nat \<Rightarrow> int" where
  "monday_of_week_one year =
     (let january_fourth = days_from_civil year 1 4 in january_fourth - weekday_from_days january_fourth)"

definition week_value :: "string \<Rightarrow> int option" where
  "week_value v =
     (case split_once (CHR ''-'') v of None \<Rightarrow> None | Some (y, rest) \<Rightarrow>
      (case Option.bind (strip_prefix ''W'' rest) parse_two_digits of None \<Rightarrow> None | Some week \<Rightarrow>
       (case parse_year y of None \<Rightarrow> None | Some year \<Rightarrow>
          if \<not> (1 \<le> week \<and> week \<le> weeks_in_year year) then None
          else Some (rust_div (monday_of_week_one year - EPOCH_MONDAY) 7 + int week - 1))))"

section \<open>Times\<close>

record micro_time =
  tm_hour :: nat
  tm_minute :: nat
  tm_second :: nat
  tm_millis :: nat

definition parse_fraction :: "string \<Rightarrow> nat option" where
  "parse_fraction fraction =
     (if fraction = [] \<or> length fraction > 3 \<or> \<not> list_all is_ascii_digit fraction then None
      else parse_unsigned u64_max (fraction @ replicate (3 - length fraction) (CHR ''0'')))"

definition valid_time_string :: "string \<Rightarrow> micro_time option" where
  "valid_time_string v =
     (let (clock, fraction) = (case split_once (CHR ''.'') v of Some (c, f) \<Rightarrow> (c, Some f) | None \<Rightarrow> (v, None));
          parts = split_by (\<lambda>c. c = CHR '':'') clock
      in case Option.bind (nth_opt parts 0) parse_two_digits of None \<Rightarrow> None | Some hour \<Rightarrow>
        (case Option.bind (nth_opt parts 1) parse_two_digits of None \<Rightarrow> None | Some minute \<Rightarrow>
         (case (case nth_opt parts 2 of Some s \<Rightarrow> map_option Some (parse_two_digits s) | None \<Rightarrow> Some None) of
            None \<Rightarrow> None
          | Some sec \<Rightarrow>
              if nth_opt parts 3 \<noteq> None \<or> hour > 23 \<or> minute > 59 \<or> (\<exists>s \<in> set_option sec. s > 59) then None
              else if fraction \<noteq> None \<and> sec = None then None
              else
                (case (case fraction of Some f \<Rightarrow> parse_fraction f | None \<Rightarrow> Some 0) of
                   None \<Rightarrow> None
                 | Some millis \<Rightarrow>
                     Some \<lparr> tm_hour = hour, tm_minute = minute, tm_second = (case sec of Some s \<Rightarrow> s | None \<Rightarrow> 0),
                       tm_millis = millis \<rparr>))))"

definition pad_left :: "nat \<Rightarrow> string \<Rightarrow> string" where
  "pad_left w s = replicate (w - length s) (CHR ''0'') @ s"

definition normalized_time :: "micro_time \<Rightarrow> string" where
  "normalized_time t =
     (let seconds = (if tm_second t \<noteq> 0 \<or> tm_millis t \<noteq> 0 then '':'' @ pad_left 2 (show_nat (tm_second t)) else []);
          fraction = (if tm_millis t \<noteq> 0
                      then ''.'' @ trim_end_matches (CHR ''0'') (pad_left 3 (show_nat (tm_millis t))) else [])
      in pad_left 2 (show_nat (tm_hour t)) @ '':'' @ pad_left 2 (show_nat (tm_minute t)) @ seconds @ fraction)"

definition valid_local_datetime :: "string \<Rightarrow> (string \<times> micro_time) option" where
  "valid_local_datetime v =
     (case position (\<lambda>c. c = CHR ''T'' \<or> c = CHR '' '') v of
        None \<Rightarrow> None
      | Some separator \<Rightarrow>
          (let date = take separator v; rest = drop separator v
           in case valid_time_string (drop 1 rest) of
                None \<Rightarrow> None
              | Some time \<Rightarrow> if valid_date_string date then Some (date, time) else None))"

section \<open>Decimals\<close>

definition digits_of :: "string \<Rightarrow> string" where
  "digits_of s = takeWhile is_ascii_digit s"

definition after_digits :: "string \<Rightarrow> string" where
  "after_digits s = dropWhile is_ascii_digit s"

text \<open>An exponent, accumulated with saturating \<open>i64\<close> arithmetic.\<close>

definition saturated_exponent :: "string \<Rightarrow> int" where
  "saturated_exponent ds = foldl (\<lambda>e c. sat64 (sat64 (e * 10) + int (digit_val c))) 0 ds"

definition split_sign :: "string \<Rightarrow> bool \<times> string" where
  "split_sign s =
     (case s of [] \<Rightarrow> (False, s)
      | c # cs \<Rightarrow> if c = CHR ''-'' then (True, cs) else if c = CHR ''+'' then (False, cs) else (False, s))"

definition is_exponent_mark :: "string \<Rightarrow> bool" where
  "is_exponent_mark s = (case s of [] \<Rightarrow> False | c # _ \<Rightarrow> c = CHR ''e'' \<or> c = CHR ''E'')"

definition authored_decimal_scale :: "string \<Rightarrow> nat option" where
  "authored_decimal_scale text =
     (let s = after_digits (snd (split_sign text));
          (fraction_digits, s) =
            (if starts_with s ''.'' then (length (digits_of (drop 1 s)), after_digits (drop 1 s)) else (0, s))
      in case (if is_exponent_mark s then
                 (let (negative, t) = split_sign (drop 1 s); e = saturated_exponent (digits_of t)
                  in if digits_of t = [] then None else Some (if negative then - e else e, after_digits t))
               else Some (0, s)) of
           None \<Rightarrow> None
         | Some (exponent, rest) \<Rightarrow>
             if rest \<noteq> [] then None
             else (let scale = max (sat64 (int fraction_digits - exponent)) 0
                   in Some (if scale \<le> 2 ^ 32 - 1 then nat scale else 2 ^ 32 - 1)))"

record decimal =
  de_negative :: bool
  de_digits :: string
  de_scale :: nat

definition decimal_zero :: decimal where
  "decimal_zero = \<lparr> de_negative = False, de_digits = ''0'', de_scale = 0 \<rparr>"

definition from_integer :: "int \<Rightarrow> decimal" where
  "from_integer v = \<lparr> de_negative = (v < 0), de_digits = show_nat (nat \<bar>v\<bar>), de_scale = 0 \<rparr>"

definition decimal_is_negative :: "decimal \<Rightarrow> bool" where
  "decimal_is_negative d = (de_negative d \<and> de_digits d \<noteq> ''0'')"

definition decimal_is_zero :: "decimal \<Rightarrow> bool" where
  "decimal_is_zero d = (de_digits d = ''0'')"

text \<open>\<open>text.parse::<i128>()\<close> of a digit string.\<close>

definition parse_i128_digits :: "string \<Rightarrow> int option" where
  "parse_i128_digits text =
     (if text = [] \<or> \<not> list_all is_ascii_digit text then None
      else if int (digits_val text) \<le> i128_max then Some (int (digits_val text)) else None)"

definition mantissa_at :: "decimal \<Rightarrow> nat \<Rightarrow> int option" where
  "mantissa_at d scale =
     (if scale < de_scale d then None
      else map_option (\<lambda>magnitude. if de_negative d then - magnitude else magnitude)
             (parse_i128_digits (de_digits d @ replicate (scale - de_scale d) (CHR ''0''))))"

fun strip_leading_zeros :: "string \<Rightarrow> string" where
  "strip_leading_zeros (c # d # ds) = (if c = CHR ''0'' then strip_leading_zeros (d # ds) else c # d # ds)"
| "strip_leading_zeros ds = ds"

fun strip_trailing_zeros :: "nat \<Rightarrow> string \<Rightarrow> string \<times> nat" where
  "strip_trailing_zeros 0 ds = (ds, 0)"
| "strip_trailing_zeros (Suc scale) ds =
     (if ds \<noteq> [] \<and> last ds = CHR ''0'' then strip_trailing_zeros scale (butlast ds) else (ds, Suc scale))"

definition decimal_normalize :: "decimal \<Rightarrow> decimal" where
  "decimal_normalize d =
     (let (ds, scale) = strip_trailing_zeros (de_scale d) (strip_leading_zeros (de_digits d))
      in if ds = ''0'' then \<lparr> de_negative = False, de_digits = ds, de_scale = 0 \<rparr>
         else \<lparr> de_negative = de_negative d, de_digits = ds, de_scale = scale \<rparr>)"

definition from_mantissa :: "int \<Rightarrow> nat \<Rightarrow> decimal" where
  "from_mantissa mantissa scale =
     decimal_normalize \<lparr> de_negative = (mantissa < 0), de_digits = show_nat (nat \<bar>mantissa\<bar>), de_scale = scale \<rparr>"

definition decimal_compare :: "decimal \<Rightarrow> decimal \<Rightarrow> int option" where
  "decimal_compare a b =
     (let scale = max (de_scale a) (de_scale b)
      in case mantissa_at a scale of None \<Rightarrow> None | Some x \<Rightarrow>
         (case mantissa_at b scale of None \<Rightarrow> None | Some y \<Rightarrow> Some (sgn (x - y))))"

text \<open>
  \<open>to_f64\<close> rounds to nearest, ties to even: it is infinite from half a unit above the greatest
  finite number on, and zero up to half the least positive number.
\<close>

definition rounds_to_infinity :: "decimal \<Rightarrow> bool" where
  "rounds_to_infinity d = (digits_val (de_digits d) \<ge> (2 ^ 1024 - 2 ^ 970) * 10 ^ de_scale d)"

definition rounds_to_zero :: "decimal \<Rightarrow> bool" where
  "rounds_to_zero d = (digits_val (de_digits d) * 2 ^ 1075 \<le> 10 ^ de_scale d)"

definition parse_decimal :: "string \<Rightarrow> decimal option" where
  "parse_decimal input =
     (let (negative, s) = split_sign (dropWhile (\<lambda>c. byte c \<in> set [9, 10, 12, 13, 32]) input);
          whole = digits_of s; s = after_digits s;
          (fraction, s) = (if starts_with s ''.'' then (digits_of (drop 1 s), after_digits (drop 1 s)) else ([], s));
          digits = whole @ fraction;
          fraction_digits = int (length fraction)
      in if digits = [] then None
         else
           (let exponent = (if is_exponent_mark s then
                              (let (neg, t) = split_sign (drop 1 s); e = saturated_exponent (digits_of t)
                               in if digits_of t \<noteq> [] \<and> neg then - e else e)
                            else 0);
                significant = dropWhile (\<lambda>c. c = CHR ''0'') digits
            in if significant = [] then Some decimal_zero
               else
                 (let magnitude = sat64 (sat64 (int (length significant) - 1 + exponent) - fraction_digits)
                  in if magnitude > 309 then None
                     else if magnitude < -324 then Some decimal_zero
                     else
                       (let scale = fraction_digits - exponent;
                            (digits, scale) = (if scale < 0 then (digits @ replicate (nat (- scale)) (CHR ''0''), 0)
                                               else (digits, scale))
                        in if scale > 2 ^ 32 - 1 then None
                           else
                             (let d = decimal_normalize \<lparr> de_negative = negative, de_digits = digits, de_scale = nat scale \<rparr>
                              in if rounds_to_infinity d then None
                                 else if rounds_to_zero d then Some decimal_zero else Some d)))))"

text \<open>The least multiple of the step that covers a distance, taken off or added.\<close>

definition step_cover :: "int \<Rightarrow> int \<Rightarrow> int option" where
  "step_cover distance step_at =
     Option.bind (checked128 distance) (\<lambda>a.
     Option.bind (checked128 (a + step_at)) (\<lambda>b.
     Option.bind (checked128 (b - 1)) (\<lambda>c. checked128 (c div step_at * step_at))))"

definition step_inside :: "int \<Rightarrow> int \<Rightarrow> int \<Rightarrow> int \<Rightarrow> int option" where
  "step_inside minimum_at maximum_at step_at aligned =
     (if aligned > maximum_at
      then Option.bind (step_cover (aligned - maximum_at) step_at) (\<lambda>e. checked128 (aligned - e))
      else if aligned < minimum_at
      then Option.bind (step_cover (minimum_at - aligned) step_at) (\<lambda>e. checked128 (aligned + e))
      else Some aligned)"

definition align_mantissas :: "int \<Rightarrow> int \<Rightarrow> int \<Rightarrow> int \<Rightarrow> int \<Rightarrow> int option" where
  "align_mantissas minimum_at maximum_at step_at step_base_at value_at =
     (if step_at \<le> 0 then None
      else
        Option.bind (checked128 (value_at - step_base_at)) (\<lambda>n1.
        Option.bind (checked128 (n1 * 2)) (\<lambda>n2.
        Option.bind (checked128 (n2 + step_at)) (\<lambda>numerator.
        Option.bind (checked128 (step_at * 2)) (\<lambda>denominator.
        Option.bind (checked128 (numerator div denominator * step_at)) (\<lambda>offset.
        Option.bind (checked128 (step_base_at + offset)) (\<lambda>aligned.
        Option.bind (step_inside minimum_at maximum_at step_at aligned) (\<lambda>aligned.
        Some (if aligned < minimum_at \<or> aligned > maximum_at
              then max minimum_at (min maximum_at value_at) else aligned)))))))))"

definition align_range :: "decimal \<Rightarrow> decimal \<Rightarrow> decimal \<Rightarrow> decimal \<Rightarrow> decimal \<Rightarrow> decimal option" where
  "align_range minimum maximum step step_base v =
     Option.bind (decimal_compare maximum minimum) (\<lambda>order.
       if order = -1 then Some minimum
       else
         (let scale = max (max (max (max (de_scale v) (de_scale maximum)) (de_scale minimum)) (de_scale step)) (de_scale step_base)
          in Option.bind (mantissa_at v scale) (\<lambda>value_at.
             Option.bind (mantissa_at minimum scale) (\<lambda>minimum_at.
             Option.bind (mantissa_at maximum scale) (\<lambda>maximum_at.
             Option.bind (mantissa_at step_base scale) (\<lambda>step_base_at.
             Option.bind (mantissa_at step scale) (\<lambda>step_at.
             map_option (\<lambda>aligned. from_mantissa aligned scale)
               (align_mantissas minimum_at maximum_at step_at step_base_at value_at))))))))"

definition range_default :: "decimal \<Rightarrow> decimal \<Rightarrow> decimal" where
  "range_default minimum maximum =
     (if decimal_compare maximum minimum \<in> set [None, Some (-1)] then minimum
      else
        (let scale = max (de_scale minimum) (de_scale maximum)
         in case mantissa_at minimum scale of None \<Rightarrow> minimum | Some minimum_at \<Rightarrow>
            (case mantissa_at maximum scale of None \<Rightarrow> minimum | Some maximum_at \<Rightarrow>
             (case checked128 (maximum_at - minimum_at) of None \<Rightarrow> minimum | Some difference \<Rightarrow>
              (case Option.bind (checked128 (minimum_at * 10)) (\<lambda>m.
                      Option.bind (checked128 (difference * 5)) (\<lambda>h. checked128 (m + h))) of
                 None \<Rightarrow> minimum
               | Some half_scaled \<Rightarrow>
                   if scale + 1 > 2 ^ 32 - 1 then minimum else from_mantissa half_scaled (scale + 1))))))"

end
