(* ===== verification/Micro_Props.thy ===== *)
theory Micro_Props
  imports Complex_Main Microsyntaxes Cookie_Date
begin

text \<open>
  The properties of the form control microsyntaxes: exact step alignment, ISO weeks, and the
  normalized time string.
\<close>

section \<open>Step alignment\<close>

lemma checked128_Some: "checked128 n = Some m \<longleftrightarrow> m = n \<and> i128_min \<le> n \<and> n \<le> i128_max"
  by (auto simp: checked128_def)

lemma div_round:
  assumes "(0 :: int) < s"
  shows "2 * ((2 * n + s) div (2 * s) * s) \<le> 2 * n + s" "2 * n - s < 2 * ((2 * n + s) div (2 * s) * s)"
proof -
  define q where "q = (2 * n + s) div (2 * s)"
  have "2 * s * q \<le> 2 * n + s" "2 * n + s < 2 * s * q + 2 * s"
    using mult_div_mod_eq[of "2 * s" "2 * n + s"] pos_mod_bound[of "2 * s" "2 * n + s"]
      pos_mod_sign[of "2 * s" "2 * n + s"] assms unfolding q_def by linarith+
  then show "2 * (q * s) \<le> 2 * n + s" "2 * n - s < 2 * (q * s)"
    by (simp_all add: algebra_simps)
qed

lemma div_ceil:
  assumes "(0 :: int) < s"
  shows "a \<le> (a + s - 1) div s * s" "(a + s - 1) div s * s < a + s"
proof -
  define q where "q = (a + s - 1) div s"
  have "s * q + (a + s - 1) mod s = a + s - 1" unfolding q_def by (rule mult_div_mod_eq)
  moreover have "0 \<le> (a + s - 1) mod s" "(a + s - 1) mod s < s" using assms by simp_all
  ultimately have "a \<le> s * q" "s * q < a + s" by linarith+
  then show "a \<le> q * s" "q * s < a + s" by (simp_all add: mult.commute)
qed

text \<open>A grid point: \<open>base + k * step\<close>.\<close>

definition on_grid :: "int \<Rightarrow> int \<Rightarrow> int \<Rightarrow> bool" where
  "on_grid sb st x \<longleftrightarrow> (\<exists>k. x = sb + k * st)"

lemma on_grid_diff:
  assumes "on_grid sb st x" "on_grid sb st y" "0 < st" "x < y"
  shows "x + st \<le> y"
proof -
  obtain k l where "x = sb + k * st" "y = sb + l * st" using assms by (auto simp: on_grid_def)
  moreover have "k < l" using assms(3,4) calculation by (simp add: mult_less_cancel_right_pos)
  then have "(k + 1) * st \<le> l * st" using assms(3) by (intro mult_right_mono) simp_all
  ultimately show ?thesis by (simp add: algebra_simps)
qed

text \<open>The nearest grid point, before it is brought into the interval.\<close>

definition nearest_grid :: "int \<Rightarrow> int \<Rightarrow> int \<Rightarrow> int" where
  "nearest_grid st sb v = sb + ((v - sb) * 2 + st) div (st * 2) * st"

lemma nearest_grid_props:
  assumes "0 < st"
  shows "on_grid sb st (nearest_grid st sb v)" "2 * nearest_grid st sb v \<le> 2 * v + st" "2 * v - st < 2 * nearest_grid st sb v"
proof -
  define q where "q = (2 * (v - sb) + st) div (2 * st) * st"
  have eq: "nearest_grid st sb v = sb + q"
    by (simp add: nearest_grid_def q_def mult.commute)
  have "2 * q \<le> 2 * (v - sb) + st" "2 * (v - sb) - st < 2 * q"
    using div_round[OF assms, of "v - sb"] unfolding q_def by simp_all
  then show "2 * nearest_grid st sb v \<le> 2 * v + st" "2 * v - st < 2 * nearest_grid st sb v"
    by (simp_all add: eq)
  show "on_grid sb st (nearest_grid st sb v)" unfolding eq q_def on_grid_def by blast
qed

text \<open>The result of the alignment as a function of exact integers.\<close>

definition aligned_to :: "int \<Rightarrow> int \<Rightarrow> int \<Rightarrow> int \<Rightarrow> int \<Rightarrow> int" where
  "aligned_to mn mx st sb v =
     (let a = nearest_grid st sb v;
          a = (if a > mx then a - (a - mx + st - 1) div st * st
               else if a < mn then a + (mn - a + st - 1) div st * st else a)
      in if a < mn \<or> a > mx then max mn (min mx v) else a)"

lemma checked_bindD: "Option.bind (checked128 n) f = Some r \<Longrightarrow> f n = Some r"
  by (auto simp: checked128_def split: if_splits)

lemma step_cover_eq: "step_cover a st = Some e \<Longrightarrow> e = (a + st - 1) div st * st"
  unfolding step_cover_def by (drule checked_bindD)+ (simp add: checked128_Some)

lemma step_inside_eq:
  "step_inside mn mx st a = Some b \<Longrightarrow>
     b = (if a > mx then a - (a - mx + st - 1) div st * st
          else if a < mn then a + (mn - a + st - 1) div st * st else a)"
  by (auto simp: step_inside_def bind_eq_Some_conv checked128_Some split: if_splits dest!: step_cover_eq)

lemma align_mantissas_eq:
  assumes "align_mantissas mn mx st sb v = Some r"
  shows "0 < st \<and> r = aligned_to mn mx st sb v"
proof -
  have st: "0 < st" using assms by (auto simp: align_mantissas_def split: if_splits)
  then have "Option.bind (step_inside mn mx st (nearest_grid st sb v)) (\<lambda>a.
      Some (if a < mn \<or> a > mx then max mn (min mx v) else a)) = Some r"
    using assms unfolding align_mantissas_def nearest_grid_def by (auto dest!: checked_bindD)
  then show ?thesis
    using st by (auto simp: bind_eq_Some_conv aligned_to_def Let_def dest!: step_inside_eq)
qed

lemma grid_shift: "on_grid sb st a \<Longrightarrow> on_grid sb st (a + k * st)" "on_grid sb st a \<Longrightarrow> on_grid sb st (a - k * st)"
proof -
  show "on_grid sb st (a + k * st)" if "on_grid sb st a"
    using that unfolding on_grid_def by (metis add.assoc distrib_right)
  show "on_grid sb st (a - k * st)" if "on_grid sb st a"
    using that unfolding on_grid_def by (metis add_diff_eq left_diff_distrib)
qed

lemma aligned_to_nearest:
  assumes "0 < st" "mn \<le> mx"
  shows "mn \<le> aligned_to mn mx st sb v \<and> aligned_to mn mx st sb v \<le> mx \<and>
    (\<forall>g. on_grid sb st g \<and> mn \<le> g \<and> g \<le> mx \<longrightarrow>
       on_grid sb st (aligned_to mn mx st sb v) \<and> \<bar>aligned_to mn mx st sb v - v\<bar> \<le> \<bar>g - v\<bar>)"
proof -
  define a where "a = nearest_grid st sb v"
  note near = nearest_grid_props[OF assms(1), where sb = sb and v = v, folded a_def]
  define b where "b = (if a > mx then a - (a - mx + st - 1) div st * st
    else if a < mn then a + (mn - a + st - 1) div st * st else a)"
  have r: "aligned_to mn mx st sb v = (if b < mn \<or> b > mx then max mn (min mx v) else b)"
    by (simp add: aligned_to_def a_def b_def Let_def)
  have grid: "on_grid sb st b" using near(1) grid_shift by (simp add: b_def)
  have best: "mn \<le> b \<and> b \<le> mx \<and> \<bar>b - v\<bar> \<le> \<bar>g - v\<bar>" if g: "on_grid sb st g" "mn \<le> g" "g \<le> mx" for g
  proof -
    consider "a > mx" | "a < mn" | "mn \<le> a" "a \<le> mx" by linarith
    then show ?thesis
    proof cases
      case 1
      then have b: "b \<le> mx" "mx < b + st" using div_ceil[OF assms(1), of "a - mx"] by (simp_all add: b_def)
      have "g \<le> b" using on_grid_diff[OF grid g(1) assms(1)] g(3) b(2) by linarith
      moreover have "b + st \<le> a" using on_grid_diff[OF grid near(1) assms(1)] b(1) 1 by linarith
      ultimately show ?thesis using near g b by linarith
    next
      case 2
      then have b: "mn \<le> b" "b < mn + st"
        using div_ceil[OF assms(1), of "mn - a"] assms(2) by (simp_all add: b_def)
      have "b \<le> g" using on_grid_diff[OF g(1) grid assms(1)] g(2) b(2) by linarith
      moreover have "a + st \<le> b" using on_grid_diff[OF near(1) grid assms(1)] b(1) 2 by linarith
      ultimately show ?thesis using near g b by linarith
    next
      case 3
      then have "b = a" by (simp add: b_def)
      moreover have "g = a \<or> g + st \<le> a \<or> a + st \<le> g"
        using on_grid_diff[OF g(1) near(1) assms(1)] on_grid_diff[OF near(1) g(1) assms(1)] by linarith
      ultimately show ?thesis using near 3 by linarith
    qed
  qed
  show ?thesis
  proof (cases "b < mn \<or> b > mx")
    case True
    then have "\<not> (on_grid sb st g \<and> mn \<le> g \<and> g \<le> mx)" for g using best[of g] by linarith
    moreover have "aligned_to mn mx st sb v = max mn (min mx v)" using True unfolding r by simp
    ultimately show ?thesis using assms(2) by (metis max.cobounded1 max.bounded_iff min.cobounded1)
  next
    case False
    then show ?thesis using best grid unfolding r by simp
  qed
qed

text \<open>Arithmetic that stays well inside \<open>i128\<close> does not overflow.\<close>

lemma checked128_fits: "\<bar>n\<bar> \<le> 2 ^ 126 \<Longrightarrow> checked128 n = Some n"
  by (simp add: checked128_Some i128_min_def i128_max_def abs_le_iff)

lemma step_cover_total:
  assumes "0 < st" "st \<le> 2 ^ 120" "0 \<le> a" "a \<le> 2 ^ 123"
  shows "\<exists>e. step_cover a st = Some e \<and> a \<le> e \<and> e < a + st"
proof -
  note e = div_ceil[OF assms(1), of a]
  have "checked128 a = Some a" "checked128 (a + st) = Some (a + st)" "checked128 (a + st - 1) = Some (a + st - 1)"
    "checked128 ((a + st - 1) div st * st) = Some ((a + st - 1) div st * st)"
    using assms e by (simp_all add: checked128_fits)
  then show ?thesis using e by (simp add: step_cover_def)
qed

lemma step_inside_total:
  assumes "0 < st" "st \<le> 2 ^ 120" "\<bar>a\<bar> \<le> 2 ^ 122" "\<bar>mn\<bar> \<le> 2 ^ 120" "\<bar>mx\<bar> \<le> 2 ^ 120"
  shows "\<exists>b. step_inside mn mx st a = Some b"
proof -
  consider "a > mx" | "a \<le> mx" "a < mn" | "a \<le> mx" "mn \<le> a" by linarith
  then show ?thesis
  proof cases
    case 1
    then obtain e where e: "step_cover (a - mx) st = Some e" "a - mx \<le> e" "e < a - mx + st"
      using step_cover_total[OF assms(1,2), of "a - mx"] assms(3-5) by (auto simp: abs_le_iff)
    then have "checked128 (a - e) = Some (a - e)" using assms by (intro checked128_fits) (simp add: abs_le_iff)
    then show ?thesis using e 1 by (simp add: step_inside_def)
  next
    case 2
    then obtain e where e: "step_cover (mn - a) st = Some e" "mn - a \<le> e" "e < mn - a + st"
      using step_cover_total[OF assms(1,2), of "mn - a"] assms(3-5) by (auto simp: abs_le_iff)
    then have "checked128 (a + e) = Some (a + e)" using assms by (intro checked128_fits) (simp add: abs_le_iff)
    then show ?thesis using e 2 by (simp add: step_inside_def)
  qed (simp add: step_inside_def)
qed

lemma align_mantissas_total:
  assumes "0 < st" "st \<le> 2 ^ 120" "\<bar>mn\<bar> \<le> 2 ^ 120" "\<bar>mx\<bar> \<le> 2 ^ 120" "\<bar>sb\<bar> \<le> 2 ^ 120" "\<bar>v\<bar> \<le> 2 ^ 120"
  shows "\<exists>r. align_mantissas mn mx st sb v = Some r"
proof -
  define off where "off = ((v - sb) * 2 + st) div (st * 2) * st"
  have near: "2 * (sb + off) \<le> 2 * v + st" "2 * v - st < 2 * (sb + off)"
    using nearest_grid_props(2,3)[OF assms(1), where sb = sb and v = v] unfolding nearest_grid_def off_def[symmetric] by blast+
  then have a: "\<bar>sb + off\<bar> \<le> 2 ^ 122" "\<bar>off\<bar> \<le> 2 ^ 122" using assms by (simp_all add: abs_le_iff)
  have c: "checked128 (v - sb) = Some (v - sb)" "checked128 ((v - sb) * 2) = Some ((v - sb) * 2)"
    "checked128 ((v - sb) * 2 + st) = Some ((v - sb) * 2 + st)" "checked128 (st * 2) = Some (st * 2)"
    "checked128 off = Some off" "checked128 (sb + off) = Some (sb + off)"
    using assms a by (simp_all add: checked128_fits abs_le_iff)
  obtain b where "step_inside mn mx st (sb + off) = Some b"
    using step_inside_total[OF assms(1,2) a(1) assms(3,4)] by blast
  then show ?thesis using c assms(1) unfolding align_mantissas_def off_def by simp
qed

subsection \<open>Decimals\<close>

text \<open>The rational number a decimal stands for.\<close>

definition dec_value :: "decimal \<Rightarrow> rat" where
  "dec_value d = (if de_negative d then - 1 else 1) * of_nat (digits_val (de_digits d)) / 10 ^ de_scale d"

lemma digits_val_zeros: "digits_val (ds @ replicate k (CHR ''0'')) = digits_val ds * 10 ^ k"
proof (induction k)
  case (Suc k)
  have "replicate (Suc k) (CHR ''0'') = replicate k (CHR ''0'') @ [CHR ''0'']" by (simp add: replicate_append_same)
  then show ?case using Suc digits_val_snoc[of "ds @ replicate k (CHR ''0'')"] by (simp add: digit_val_def)
qed simp

lemma mantissa_at_value:
  assumes "mantissa_at d s = Some m"
  shows "dec_value d = of_int m / 10 ^ s"
proof -
  have s: "de_scale d \<le> s" and m: "m = (if de_negative d then - 1 else 1) * int (digits_val (de_digits d) * 10 ^ (s - de_scale d))"
    using assms by (auto simp: mantissa_at_def parse_i128_digits_def digits_val_zeros split: if_splits)
  have "(10 :: rat) ^ s = 10 ^ de_scale d * 10 ^ (s - de_scale d)" using s by (simp flip: power_add)
  then show ?thesis by (simp add: dec_value_def m)
qed

lemma strip_leading_val: "digits_val (strip_leading_zeros ds) = digits_val ds"
  by (induction ds rule: strip_leading_zeros.induct) (simp_all add: digits_val_def digit_val_def)

lemma strip_trailing_val:
  "strip_trailing_zeros s ds = (ds', s') \<Longrightarrow> digits_val ds * 10 ^ s' = digits_val ds' * 10 ^ s"
proof (induction s ds rule: strip_trailing_zeros.induct)
  case (2 s ds)
  show ?case
  proof (cases "ds \<noteq> [] \<and> last ds = CHR ''0''")
    case True
    then have "digits_val ds = 10 * digits_val (butlast ds)"
      using digits_val_snoc[of "butlast ds" "last ds"] append_butlast_last_id[of ds] by (simp add: digit_val_def)
    then show ?thesis using 2 True by simp
  qed (use 2 in auto)
qed simp

lemma decimal_normalize_value: "dec_value (decimal_normalize d) = dec_value d"
proof -
  obtain ds s where st: "strip_trailing_zeros (de_scale d) (strip_leading_zeros (de_digits d)) = (ds, s)" by fastforce
  have "digits_val (de_digits d) * 10 ^ s = digits_val ds * 10 ^ de_scale d"
    using strip_trailing_val[OF st] by (simp add: strip_leading_val)
  then have "of_nat (digits_val (de_digits d)) * (10 :: rat) ^ s = of_nat (digits_val ds) * 10 ^ de_scale d"
    by (metis of_nat_mult of_nat_numeral of_nat_power)
  then have q: "of_nat (digits_val (de_digits d)) / (10 :: rat) ^ de_scale d = of_nat (digits_val ds) / 10 ^ s"
    by (simp add: frac_eq_eq)
  then have "of_nat (digits_val (de_digits d)) / (10 :: rat) ^ de_scale d = 0" if "ds = ''0''"
    using that by (simp add: digits_val_def digit_val_def)
  then show ?thesis using st q by (auto simp: decimal_normalize_def dec_value_def digits_val_def digit_val_def)
qed

lemma from_mantissa_value: "dec_value (from_mantissa m s) = of_int m / 10 ^ s"
  by (simp add: from_mantissa_def decimal_normalize_value) (simp add: dec_value_def digits_val_show)

lemma decimal_compare_value:
  assumes "decimal_compare a b = Some ord"
  shows "ord = sgn (ord :: int) \<and> (ord = - 1 \<longleftrightarrow> dec_value a < dec_value b)"
proof -
  obtain x y where "mantissa_at a (max (de_scale a) (de_scale b)) = Some x"
    "mantissa_at b (max (de_scale a) (de_scale b)) = Some y" "ord = sgn (x - y)"
    using assms by (auto simp: decimal_compare_def Let_def split: option.splits)
  then show ?thesis by (auto simp: mantissa_at_value divide_less_cancel sgn_if)
qed

text \<open>A decimal on the step grid, as a number.\<close>

definition step_value :: "decimal \<Rightarrow> decimal \<Rightarrow> int \<Rightarrow> rat" where
  "step_value step_base step k = dec_value step_base + of_int k * dec_value step"

lemma align_range_cases:
  assumes "align_range mn mx st sb v = Some r" "dec_value mn \<le> dec_value mx"
  shows "\<exists>s mn' mx' st' sb' v'. 0 < st' \<and> r = from_mantissa (aligned_to mn' mx' st' sb' v') s \<and>
    mantissa_at mn s = Some mn' \<and> mantissa_at mx s = Some mx' \<and> mantissa_at st s = Some st' \<and>
    mantissa_at sb s = Some sb' \<and> mantissa_at v s = Some v'"
proof -
  obtain ord where ord: "decimal_compare mx mn = Some ord" using assms(1) by (auto simp: align_range_def bind_eq_Some_conv)
  then have "ord \<noteq> - 1" using assms(2) decimal_compare_value by fastforce
  define s where "s = max (max (max (max (de_scale v) (de_scale mx)) (de_scale mn)) (de_scale st)) (de_scale sb)"
  obtain mn' mx' st' sb' v' a where m: "mantissa_at v s = Some v'" "mantissa_at mn s = Some mn'"
    "mantissa_at mx s = Some mx'" "mantissa_at sb s = Some sb'" "mantissa_at st s = Some st'"
    and a: "align_mantissas mn' mx' st' sb' v' = Some a" "r = from_mantissa a s"
    using assms(1) \<open>ord \<noteq> - 1\<close> unfolding align_range_def ord s_def[symmetric] Let_def
    by (auto simp: bind_eq_Some_conv)
  show ?thesis using align_mantissas_eq[OF a(1)] a(2) m by blast
qed

lemma grid_at_scale:
  assumes "mantissa_at st s = Some st'" "mantissa_at sb s = Some sb'"
  shows "step_value sb st k = of_int (sb' + k * st') / 10 ^ s"
  using mantissa_at_value[OF assms(1)] mantissa_at_value[OF assms(2)]
  by (simp add: step_value_def add_divide_distrib)

lemma abs_diff_scaled: "\<bar>of_int a / (10 :: rat) ^ s - of_int b / 10 ^ s\<bar> = of_int \<bar>a - b\<bar> / 10 ^ s"
proof -
  have "of_int a / (10 :: rat) ^ s - of_int b / 10 ^ s = of_int (a - b) / 10 ^ s" by (simp add: diff_divide_distrib)
  then show ?thesis by (simp only: abs_divide of_int_abs) simp
qed

lemma align_range_result:
  assumes "align_range mn mx st sb v = Some r" "dec_value mn \<le> dec_value mx"
  shows "dec_value mn \<le> dec_value r \<and> dec_value r \<le> dec_value mx \<and>
    (\<forall>k. dec_value mn \<le> step_value sb st k \<and> step_value sb st k \<le> dec_value mx \<longrightarrow>
       (\<exists>j. dec_value r = step_value sb st j) \<and>
       \<bar>dec_value r - dec_value v\<bar> \<le> \<bar>step_value sb st k - dec_value v\<bar>)"
proof -
  obtain s mn' mx' st' sb' v' where st: "0 < st'" and r: "r = from_mantissa (aligned_to mn' mx' st' sb' v') s"
    and m: "mantissa_at mn s = Some mn'" "mantissa_at mx s = Some mx'" "mantissa_at st s = Some st'"
      "mantissa_at sb s = Some sb'" "mantissa_at v s = Some v'"
    using align_range_cases[OF assms] by blast
  note val = m(1,2,5)[THEN mantissa_at_value]
  have "mn' \<le> mx'" using assms(2) by (simp add: val divide_le_cancel)
  note near = aligned_to_nearest[OF st this, of sb' v']
  have "(\<exists>j. dec_value r = step_value sb st j) \<and>
       \<bar>dec_value r - dec_value v\<bar> \<le> \<bar>step_value sb st k - dec_value v\<bar>"
    if "dec_value mn \<le> step_value sb st k \<and> step_value sb st k \<le> dec_value mx" for k
  proof -
    have "on_grid sb' st' (sb' + k * st') \<and> mn' \<le> sb' + k * st' \<and> sb' + k * st' \<le> mx'"
      using that unfolding val grid_at_scale[OF m(3,4)] on_grid_def by (auto simp: divide_le_cancel simp del: of_int_add)
    with near have g: "on_grid sb' st' (aligned_to mn' mx' st' sb' v')"
      and d: "\<bar>aligned_to mn' mx' st' sb' v' - v'\<bar> \<le> \<bar>sb' + k * st' - v'\<bar>" by blast+
    from g obtain j where "aligned_to mn' mx' st' sb' v' = sb' + j * st'" by (auto simp: on_grid_def)
    moreover have "\<bar>dec_value r - dec_value v\<bar> \<le> \<bar>step_value sb st k - dec_value v\<bar>"
      unfolding r val grid_at_scale[OF m(3,4)] from_mantissa_value abs_diff_scaled
      by (rule divide_right_mono) (use d in \<open>simp_all only: of_int_le_iff zero_le_power zero_le_numeral\<close>)
    ultimately show ?thesis unfolding r grid_at_scale[OF m(3,4)] from_mantissa_value by metis
  qed
  with near show ?thesis by (simp add: r val from_mantissa_value divide_le_cancel)
qed

text \<open>
  Operands with a digit whose mantissas at the common scale leave room for the checked arithmetic.
\<close>

definition range_scale :: "decimal list \<Rightarrow> nat" where
  "range_scale ds = fold max (map de_scale ds) 0"

definition fits_scale :: "nat \<Rightarrow> decimal \<Rightarrow> bool" where
  "fits_scale s d =
     (de_digits d \<noteq> [] \<and> (case mantissa_at d s of None \<Rightarrow> False | Some m \<Rightarrow> \<bar>m\<bar> \<le> 2 ^ 120))"

lemma fits_scale_mantissa: "fits_scale s d \<Longrightarrow> \<exists>m. mantissa_at d s = Some m \<and> \<bar>m\<bar> \<le> 2 ^ 120"
  by (auto simp: fits_scale_def split: option.splits)

lemma mantissa_at_smaller:
  assumes "fits_scale s d" "de_scale d \<le> t" "t \<le> s"
  shows "\<exists>m. mantissa_at d t = Some m"
proof -
  obtain m where m: "mantissa_at d s = Some m" using fits_scale_mantissa[OF assms(1)] by blast
  have "digits_val (de_digits d) * 10 ^ (t - de_scale d) \<le> digits_val (de_digits d) * 10 ^ (s - de_scale d)"
    using assms by (intro mult_left_mono power_increasing) simp_all
  moreover have "int (digits_val (de_digits d) * 10 ^ (s - de_scale d)) \<le> i128_max"
    "list_all is_ascii_digit (de_digits d)"
    using m by (auto simp: mantissa_at_def parse_i128_digits_def digits_val_zeros split: if_splits)
  ultimately have "int (digits_val (de_digits d) * 10 ^ (t - de_scale d)) \<le> i128_max"
    "list_all is_ascii_digit (de_digits d @ replicate (t - de_scale d) (CHR ''0''))"
    by (linarith, auto simp: list_all_iff is_ascii_digit_def)
  then show ?thesis using assms by (simp add: mantissa_at_def parse_i128_digits_def digits_val_zeros fits_scale_def)
qed

lemma align_range_total:
  assumes "0 < dec_value st" "dec_value mn \<le> dec_value mx"
    and fits: "list_all (fits_scale (range_scale [v, mx, mn, st, sb])) [v, mx, mn, st, sb]"
  shows "\<exists>r. align_range mn mx st sb v = Some r"
proof -
  define s where "s = max (max (max (max (de_scale v) (de_scale mx)) (de_scale mn)) (de_scale st)) (de_scale sb)"
  have s: "range_scale [v, mx, mn, st, sb] = s" by (simp add: range_scale_def s_def max.commute)
  have f: "fits_scale s v" "fits_scale s mx" "fits_scale s mn" "fits_scale s st" "fits_scale s sb"
    using fits unfolding s by simp_all
  obtain mn' mx' st' sb' v' where m: "mantissa_at v s = Some v'" "mantissa_at mn s = Some mn'"
    "mantissa_at mx s = Some mx'" "mantissa_at sb s = Some sb'" "mantissa_at st s = Some st'"
    and b: "\<bar>v'\<bar> \<le> 2 ^ 120" "\<bar>mn'\<bar> \<le> 2 ^ 120" "\<bar>mx'\<bar> \<le> 2 ^ 120" "\<bar>sb'\<bar> \<le> 2 ^ 120" "\<bar>st'\<bar> \<le> 2 ^ 120"
    using f[THEN fits_scale_mantissa] by blast
  have "0 < st'" using assms(1) mantissa_at_value[OF m(5)] by (simp add: zero_less_divide_iff)
  then obtain a where a: "align_mantissas mn' mx' st' sb' v' = Some a"
    using align_mantissas_total[of st' mn' mx' sb' v'] b by (auto simp: abs_le_iff)
  define t where "t = max (de_scale mx) (de_scale mn)"
  have "t \<le> s" "de_scale mx \<le> t" "de_scale mn \<le> t" unfolding t_def s_def by linarith+
  then obtain ord where ord: "decimal_compare mx mn = Some ord"
    using mantissa_at_smaller[OF f(2), of t] mantissa_at_smaller[OF f(3), of t]
    by (auto simp: decimal_compare_def t_def)
  then have "ord \<noteq> - 1" using assms(2) decimal_compare_value by fastforce
  then show ?thesis unfolding align_range_def ord Let_def s_def[symmetric] by (simp add: m a)
qed

text \<open>
  Aligning a range control's value gives a number inside the interval; when the interval
  has a step at all, the number is a step and none in the interval is nearer to the value. The
  checked arithmetic gives an answer for every positive step whose operands are at most
  \<open>2 ^ 120\<close> at the common scale.
\<close>

theorem align_range_nearest:
  assumes "dec_value minimum \<le> dec_value maximum"
  shows "(\<forall>r. align_range minimum maximum step step_base v = Some r \<longrightarrow>
      dec_value minimum \<le> dec_value r \<and> dec_value r \<le> dec_value maximum \<and>
      (\<forall>k. dec_value minimum \<le> step_value step_base step k \<and> step_value step_base step k \<le> dec_value maximum \<longrightarrow>
         (\<exists>j. dec_value r = step_value step_base step j) \<and>
         \<bar>dec_value r - dec_value v\<bar> \<le> \<bar>step_value step_base step k - dec_value v\<bar>)) \<and>
    (0 < dec_value step \<and>
     list_all (fits_scale (range_scale [v, maximum, minimum, step, step_base])) [v, maximum, minimum, step, step_base]
     \<longrightarrow> (\<exists>r. align_range minimum maximum step step_base v = Some r))"
  using align_range_result[OF _ assms] align_range_total[OF _ assms] by blast

lemma align_example:
  "align_range decimal_zero (from_integer 1) (from_mantissa 3 1) decimal_zero (from_mantissa 5 1) = Some (from_mantissa 6 1)"
  by code_simp

theorem align_range_nearest_witness:
  "dec_value decimal_zero \<le> dec_value (from_integer 1) \<and>
   dec_value (from_mantissa 6 1) \<le> dec_value (from_integer 1)"
proof -
  have le: "dec_value decimal_zero \<le> dec_value (from_integer 1)"
    by (simp add: dec_value_def decimal_zero_def from_integer_def digits_val_show)
      (simp add: digits_val_def digit_val_def)
  show ?thesis using align_range_nearest[OF le] align_example le by blast
qed

text \<open>
  Normalizing a zero with a scale strips its last digit: the result has no digits, is not
  recognised as zero, and has no mantissa at its own scale.
\<close>

lemma normalize_zero_empty:
  "from_mantissa 0 1 = \<lparr> de_negative = False, de_digits = [], de_scale = 0 \<rparr> \<and>
   \<not> decimal_is_zero (from_mantissa 0 1) \<and> mantissa_at (from_mantissa 0 1) 0 = None"
  by code_simp

lemma range_default_zero_misaligned:
  "align_range (from_integer (-1)) (from_integer 1) (from_integer 1) (from_integer (-1))
     (range_default (from_integer (-1)) (from_integer 1)) = None"
proof -
  have "decimal_compare (from_integer 1) (from_integer (-1)) = Some 1" "de_scale (from_integer 1) = 0"
    "de_scale (from_integer (-1)) = 0" "mantissa_at (from_integer (-1)) 0 = Some (-1)"
    "mantissa_at (from_integer 1) 0 = Some 1" "checked128 2 = Some 2"
    "Option.bind (checked128 (-10)) (\<lambda>m. Option.bind (checked128 10) (\<lambda>h. checked128 (m + h))) = Some 0"
    by code_simp+
  then have "range_default (from_integer (-1)) (from_integer 1) = from_mantissa 0 1" by (simp add: range_default_def)
  moreover have "align_range (from_integer (-1)) (from_integer 1) (from_integer 1) (from_integer (-1)) (from_mantissa 0 1) = None"
    by code_simp
  ultimately show ?thesis by simp
qed

section \<open>Padded numbers\<close>

lemma digits_val_leading_zeros: "digits_val (replicate k (CHR ''0'') @ ds) = digits_val ds"
  by (induction k) (simp_all add: digits_val_def digit_val_def)

lemma show_nat_length: "n < 10 ^ k \<Longrightarrow> 0 < k \<Longrightarrow> length (show_nat n) \<le> k"
proof (induction n arbitrary: k rule: show_nat.induct)
  case (1 n)
  show ?case
  proof (cases "n < 10")
    case False
    then obtain j where k: "k = Suc j" "0 < j" using 1(2,3) by (cases k; cases "k - 1") auto
    then have "length (show_nat (n div 10)) \<le> j" using 1 False by (intro 1(1)) (simp_all add: less_mult_imp_div_less)
    then show ?thesis using False k by (subst show_nat.simps) simp
  qed (use 1(3) in \<open>subst show_nat.simps, simp\<close>)
qed

lemma pad_left_digits: "list_all is_ascii_digit (pad_left w (show_nat n))" "pad_left w (show_nat n) \<noteq> []"
  using show_nat_digits[of n] by (auto simp: pad_left_def list_all_iff is_ascii_digit_def)

lemma pad_left_length: "n < 10 ^ w \<Longrightarrow> 0 < w \<Longrightarrow> length (pad_left w (show_nat n)) = w"
  using show_nat_length[of n w] by (simp add: pad_left_def)

lemma pad_left_val: "digits_val (pad_left w (show_nat n)) = n"
  by (simp add: pad_left_def digits_val_leading_zeros digits_val_show)

lemma parse_unsigned_digits:
  assumes "list_all is_ascii_digit ds" "ds \<noteq> []" "digits_val ds \<le> hi"
  shows "parse_unsigned hi ds = Some (digits_val ds)"
proof -
  have "\<not> starts_with ds ''+''" using assms(1,2) by (cases ds) (auto simp: starts_with_def is_ascii_digit_def)
  then show ?thesis using assms by (simp add: parse_unsigned_def Let_def)
qed

lemma parse_two_digits_pad: "n < 100 \<Longrightarrow> parse_two_digits (pad_left 2 (show_nat n)) = Some n"
  using pad_left_length[of n 2] parse_unsigned_digits[of "pad_left 2 (show_nat n)" u64_max] pad_left_digits
  by (simp add: parse_two_digits_def pad_left_val u64_max_def)

lemma parse_year_pad: "1 \<le> y \<Longrightarrow> y \<le> u64_max \<Longrightarrow> parse_year (pad_left 4 (show_nat y)) = Some y"
  using parse_unsigned_digits[of "pad_left 4 (show_nat y)" u64_max] pad_left_digits
  by (simp add: parse_year_def pad_left_val) (simp add: pad_left_def)

text \<open>Digits contain no separator.\<close>

lemma split_once_digits:
  "list_all is_ascii_digit ds \<Longrightarrow> \<not> is_ascii_digit d \<Longrightarrow> split_once d (ds @ d # rest) = Some (ds, rest)"
  by (induction ds) auto

lemma split_once_none: "d \<notin> set ds \<Longrightarrow> split_once d ds = None"
  by (induction ds) auto

lemma digits_no_sep: "list_all is_ascii_digit ds \<Longrightarrow> \<not> is_ascii_digit d \<Longrightarrow> list_all (\<lambda>c. c \<noteq> d) ds"
  by (auto simp: list_all_iff)

section \<open>ISO weeks\<close>

definition week_string :: "nat \<Rightarrow> nat \<Rightarrow> string" where
  "week_string y w = pad_left 4 (show_nat y) @ ''-W'' @ pad_left 2 (show_nat w)"

lemma rust_div_pos: "0 \<le> a \<Longrightarrow> 0 < b \<Longrightarrow> rust_div a b = a div b"
  by (cases "a = 0") (simp_all add: rust_div_def)

lemma era_split: "0 \<le> z \<Longrightarrow>
    rust_div z 400 = z div 400 \<and> z - z div 400 * 400 = z mod 400 \<and>
    rust_div (z mod 400) 4 = z mod 400 div 4 \<and> rust_div (z mod 400) 100 = z mod 400 div 100"
  by (simp add: rust_div_pos minus_div_mult_eq_mod)

lemma days_from_civil_count:
  assumes "1 \<le> y" "1 \<le> m" "1 \<le> d"
  shows "days_from_civil y m d = civil_days (int y) (int m) (int d)"
proof -
  define z where "z = int y - (if int m \<le> 2 then 1 else 0)"
  define mp where "mp = int m + (if int m > 2 then -3 else 9)"
  have z: "0 \<le> z" and mp: "0 \<le> mp" using assms by (simp_all add: z_def mp_def)
  have "civil_days (int y) (int m) (int d) =
      (z div 400) * 146097 + (z mod 400 * 365 + z mod 400 div 4 - z mod 400 div 100 + ((153 * mp + 2) div 5 + int d - 1)) - 719468"
    by (simp add: civil_days_def z_def mp_def Let_def)
  moreover have "rust_div (153 * mp + 2) 5 = (153 * mp + 2) div 5" using mp by (simp add: rust_div_pos)
  moreover have "days_from_civil y m d = z div 400 * 146097 + (z mod 400 * 365 + rust_div (z mod 400) 4
      - rust_div (z mod 400) 100 + (rust_div (153 * mp + 2) 5 + int d - 1)) - 719468"
    using era_split[OF z] z unfolding days_from_civil_def Let_def z_def[symmetric] mp_def[symmetric]
    by (simp del: minus_div_mult_eq_mod)
  ultimately show ?thesis using era_split[OF z] by simp
qed

lemma rust_rem_sgn: "0 < b \<Longrightarrow> rust_rem a b = sgn a * (\<bar>a\<bar> mod b)"
proof (cases a "0 :: int" rule: linorder_cases)
  case less
  assume "0 < b"
  then show ?thesis
    using less by (simp add: rust_rem_def rust_div_def mult.commute) (use mult_div_mod_eq[of b "- a"] in linarith)
qed (simp_all add: rust_rem_def rust_div_def minus_div_mult_eq_mod)

lemma weekday_from_days_mod: "weekday_from_days d = (d + 3) mod 7"
proof -
  define r where "r = rust_rem d 7"
  obtain k where k: "d = r + 7 * k" unfolding r_def rust_rem_def by (auto intro: that[of "rust_div d 7"])
  have "\<bar>d\<bar> mod 7 < 7" "0 \<le> \<bar>d\<bar> mod 7" by simp_all
  then have "- 7 < r" unfolding r_def using rust_rem_sgn[of 7 d] by (auto simp: sgn_if)
  then have "weekday_from_days d = (r + 10) mod 7"
    unfolding weekday_from_days_def r_def[symmetric] by (simp add: rust_rem_sgn sgn_if)
  also have "r + 10 = (d + 3) + 7 * (1 - k)" by (simp add: k)
  also have "\<dots> mod 7 = (d + 3) mod 7" by (rule mod_mult_self2)
  finally show ?thesis .
qed

text \<open>The day count of January 1, on which the weekday of January 4 and of January 1 both depend.\<close>

definition days_before :: "nat \<Rightarrow> int" where
  "days_before y = 365 * (int y - 1) + leaps (int y - 1)"

lemma january_fourth: "civil_days (int y) 1 4 = days_before y - 719159"
  by (simp add: civil_days_count days_before_def)

lemma monday_of_week_one_eq: "1 \<le> y \<Longrightarrow> monday_of_week_one y = days_before y - 719159 - (days_before y + 3) mod 7"
proof -
  assume "1 \<le> y"
  have "(days_before y - 719159 + 3) mod 7 = (days_before y + 3 + 7 * (- 102737)) mod 7" by simp
  also have "\<dots> = (days_before y + 3) mod 7" by (rule mod_mult_self2)
  finally show ?thesis
    using days_from_civil_count[of y 1 4] january_fourth[of y] \<open>1 \<le> y\<close>
    by (simp add: monday_of_week_one_def weekday_from_days_mod)
qed

lemma january_first_weekday_eq: "1 \<le> y \<Longrightarrow> int (january_first_weekday y) = days_before y mod 7"
proof -
  assume "1 \<le> y"
  then obtain p where y: "y = Suc p" by (cases y) auto
  have "p div 100 \<le> 365 * p + p div 4" by linarith
  then show ?thesis
    by (simp add: y january_first_weekday_def days_before_def leaps_def zmod_int zdiv_int of_nat_diff algebra_simps)
qed

lemma is_leap_year_eq: "is_leap_year y = is_leap (int y)"
proof -
  have "int y mod 4 = int (y mod 4)" "int y mod 100 = int (y mod 100)" "int y mod 400 = int (y mod 400)"
    by (simp_all add: zmod_int)
  then show ?thesis by (simp add: is_leap_year_def is_leap_def)
qed

lemma days_before_Suc: "days_before (y + 1) = days_before y + 365 + (if is_leap_year y then 1 else 0)"
  using leap_step[of "int y"] by (simp add: days_before_def is_leap_year_eq algebra_simps)

lemma week_gap:
  fixes D l :: int
  assumes "l = 0 \<or> l = 1"
  shows "365 + l - (D + 365 + l + 3) mod 7 + (D + 3) mod 7 =
    (if D mod 7 = 3 \<or> (l = 1 \<and> D mod 7 = 2) then 371 else 364)"
proof -
  define r q where "r = D mod 7" and "q = D div 7"
  have "0 \<le> r" "r < 7" by (simp_all add: r_def)
  have D: "D = r + 7 * q" and r: "r \<in> {0, 1, 2, 3, 4, 5, 6}" by (simp add: r_def q_def, use \<open>0 \<le> r\<close> \<open>r < 7\<close> in auto)
  have e: "D + 365 + l + 3 = r + l + 368 + 7 * q" "D + 3 = r + 3 + 7 * q" using D by linarith+
  have "(D + 365 + l + 3) mod 7 = (r + l + 368) mod 7" by (subst e(1)) (rule mod_mult_self2)
  moreover have "(D + 3) mod 7 = (r + 3) mod 7" by (subst e(2)) (rule mod_mult_self2)
  ultimately show ?thesis unfolding r_def[symmetric] using assms r by auto
qed

lemma monday_of_next_year:
  assumes "1 \<le> y"
  shows "monday_of_week_one (y + 1) = monday_of_week_one y + 7 * int (weeks_in_year y)"
proof -
  define l :: int where "l = (if is_leap_year y then 1 else 0)"
  have "7 * int (weeks_in_year y) = (if days_before y mod 7 = 3 \<or> (l = 1 \<and> days_before y mod 7 = 2) then 371 else 364)"
    using january_first_weekday_eq[OF assms] by (auto simp: weeks_in_year_def l_def)
  moreover have "days_before (y + 1) = days_before y + 365 + l" using days_before_Suc[of y] by (simp add: l_def)
  then have "monday_of_week_one (y + 1) = days_before y + 365 + l - 719159 - (days_before y + 365 + l + 3) mod 7"
    using monday_of_week_one_eq[of "y + 1"] by simp
  moreover have "l = 0 \<or> l = 1" by (simp add: l_def)
  ultimately show ?thesis
    using monday_of_week_one_eq[OF assms] week_gap[of l "days_before y"] by linarith
qed

lemma monday_aligned: "1 \<le> y \<Longrightarrow> 7 dvd monday_of_week_one y + 3"
proof -
  assume y: "1 \<le> y"
  define x where "x = days_before y + 3"
  have "monday_of_week_one y + 3 = x - x mod 7 + 7 * (- 102737)"
    using monday_of_week_one_eq[OF y] by (simp add: x_def)
  also have "7 dvd x - x mod 7 + 7 * (- 102737)" by (intro dvd_add dvd_minus_mod) simp
  finally show ?thesis .
qed

text \<open>The parsed week, as a function of the numbers.\<close>

lemma week_value_string:
  assumes "1 \<le> y" "y \<le> u64_max" "w < 100"
  shows "week_value (week_string y w) =
    (if 1 \<le> w \<and> w \<le> weeks_in_year y then Some ((monday_of_week_one y + 3) div 7 + int w - 1) else None)"
proof -
  have "split_once (CHR ''-'') (week_string y w) = Some (pad_left 4 (show_nat y), CHR ''W'' # pad_left 2 (show_nat w))"
    unfolding week_string_def using split_once_digits[OF pad_left_digits(1), of "CHR ''-''"]
    by (simp add: is_ascii_digit_def)
  moreover have "rust_div (monday_of_week_one y - EPOCH_MONDAY) 7 = (monday_of_week_one y + 3) div 7"
    using monday_aligned[OF assms(1)] by (auto simp: EPOCH_MONDAY_def rust_div_def abs_mult sgn_mult sgn_mult_abs elim!: dvdE)
  ultimately show ?thesis using parse_two_digits_pad[OF assms(3)] parse_year_pad[OF assms(1,2)]
    by (simp add: week_value_def strip_prefix_def starts_with_def)
qed

text \<open>
  Week strings number the ISO weeks without gap or overlap: the week of a year's last week is
  followed by week 1 of the next year, a week past the last is refused, and week 1 is the one
  that has January 4.
\<close>

theorem iso_weeks:
  assumes "1 \<le> y" "y < u64_max"
  shows "(\<forall>w. 1 \<le> w \<and> w < weeks_in_year y \<longrightarrow>
      (\<exists>n. week_value (week_string y w) = Some n \<and> week_value (week_string y (w + 1)) = Some (n + 1))) \<and>
    (\<exists>n. week_value (week_string y (weeks_in_year y)) = Some n \<and> week_value (week_string (y + 1) 1) = Some (n + 1)) \<and>
    week_value (week_string y (weeks_in_year y + 1)) = None \<and>
    (\<exists>n. week_value (week_string y 1) = Some n \<and>
       7 * n - 3 \<le> civil_days (int y) 1 4 \<and> civil_days (int y) 1 4 < 7 * n + 4)"
proof -
  have w: "52 \<le> weeks_in_year z" "weeks_in_year z \<le> 53" for z by (simp_all add: weeks_in_year_def)
  note val = week_value_string[of y, OF assms(1)]
  obtain q where q: "monday_of_week_one y = 7 * q - 3" using monday_aligned[OF assms(1)]
    by (metis add_diff_cancel_right' dvdE)
  have "monday_of_week_one (y + 1) = 7 * (q + int (weeks_in_year y)) - 3"
    using monday_of_next_year[OF assms(1)] q by simp
  moreover have "7 * q - 3 \<le> civil_days (int y) 1 4" "civil_days (int y) 1 4 < 7 * q + 4"
    using q january_fourth[of y] monday_of_week_one_eq[OF assms(1)]
      pos_mod_bound[of 7 "days_before y + 3"] pos_mod_sign[of 7 "days_before y + 3"] by linarith+
  moreover have "week_value (week_string (y + 1) 1) = Some ((monday_of_week_one (y + 1) + 3) div 7)"
    using week_value_string[of "y + 1" 1] w(1)[of "y + 1"] assms by simp
  ultimately show ?thesis using w[of y] assms by (auto simp: val q)
qed

theorem iso_weeks_witness:
  "weeks_in_year 2020 = 53 \<and> week_value (week_string 2020 54) = None \<and>
   (\<exists>n. week_value (week_string 2020 53) = Some n \<and> week_value (week_string 2021 1) = Some (n + 1))"
proof -
  have "weeks_in_year 2020 = 53" by (simp add: weeks_in_year_def january_first_weekday_def is_leap_year_def)
  then show ?thesis using iso_weeks[of 2020] by (simp add: u64_max_def)
qed

section \<open>Times\<close>

definition time_ok :: "micro_time \<Rightarrow> bool" where
  "time_ok t = (tm_hour t \<le> 23 \<and> tm_minute t \<le> 59 \<and> tm_second t \<le> 59 \<and> tm_millis t \<le> 999)"

lemma trim_zeros_back: "\<exists>k. s = trim_end_matches (CHR ''0'') s @ replicate k (CHR ''0'')"
proof -
  have "takeWhile (\<lambda>c. c = CHR ''0'') (rev s) = replicate (length (takeWhile (\<lambda>c. c = CHR ''0'') (rev s))) (CHR ''0'')"
    by (metis (full_types) replicate_length_same set_takeWhileD)
  then have "rev s = replicate (length (takeWhile (\<lambda>c. c = CHR ''0'') (rev s))) (CHR ''0'') @ rev (trim_end_matches (CHR ''0'') s)"
    by (metis rev_rev_ident takeWhile_dropWhile_id trim_end_matches_def)
  then show ?thesis by (metis rev_append rev_replicate rev_rev_ident)
qed

lemma parse_fraction_trim:
  assumes "0 < n" "n \<le> 999"
  defines "f \<equiv> trim_end_matches (CHR ''0'') (pad_left 3 (show_nat n))"
  shows "list_all is_ascii_digit f" "parse_fraction f = Some n"
proof -
  obtain k where k: "pad_left 3 (show_nat n) = f @ replicate k (CHR ''0'')" using trim_zeros_back f_def by blast
  have len: "length f + k = 3" using pad_left_length[of n 3] assms(2) by (simp add: k)
  have val: "digits_val (f @ replicate k (CHR ''0'')) = n" using pad_left_val[of 3 n] by (simp add: k)
  have digits: "list_all is_ascii_digit (f @ replicate k (CHR ''0''))" using pad_left_digits(1)[of 3 n] by (simp add: k)
  then show fd: "list_all is_ascii_digit f" by simp
  have "f \<noteq> []" using val assms(1) digits_val_zeros[of "[]" k] by (auto simp: digits_val_def)
  moreover have "3 - length f = k" using len by simp
  moreover have "parse_unsigned u64_max (f @ replicate k (CHR ''0'')) = Some n"
    using parse_unsigned_digits[OF digits] val assms(2) \<open>f \<noteq> []\<close> by (simp add: u64_max_def)
  ultimately show "parse_fraction f = Some n" using len fd by (simp add: parse_fraction_def)
qed

text \<open>The clock part, split at its colons, and the text before the fraction.\<close>

definition clock2 :: "nat \<Rightarrow> nat \<Rightarrow> string" where
  "clock2 h mi = pad_left 2 (show_nat h) @ CHR '':'' # pad_left 2 (show_nat mi)"

definition clock3 :: "nat \<Rightarrow> nat \<Rightarrow> nat \<Rightarrow> string" where
  "clock3 h mi s = clock2 h mi @ CHR '':'' # pad_left 2 (show_nat s)"

lemma pad_no_sep: "\<not> is_ascii_digit d \<Longrightarrow> list_all (\<lambda>c. c \<noteq> d) (pad_left w (show_nat n))"
  by (rule digits_no_sep[OF pad_left_digits(1)])

lemma clock_split:
  "split_by (\<lambda>c. c = CHR '':'') (clock2 h mi) = [pad_left 2 (show_nat h), pad_left 2 (show_nat mi)]"
  "split_by (\<lambda>c. c = CHR '':'') (clock3 h mi s) =
     [pad_left 2 (show_nat h), pad_left 2 (show_nat mi), pad_left 2 (show_nat s)]"
  by (simp_all add: clock2_def clock3_def split_by_word split_by_last pad_no_sep is_ascii_digit_def)

lemma clock_no_point: "CHR ''.'' \<notin> set (clock2 h mi)" "CHR ''.'' \<notin> set (clock3 h mi s)"
proof -
  have "CHR ''.'' \<notin> set (pad_left 2 (show_nat n))" for n
    using pad_no_sep[of "CHR ''.''" 2 n] by (auto simp: list_all_iff is_ascii_digit_def)
  then show "CHR ''.'' \<notin> set (clock2 h mi)" "CHR ''.'' \<notin> set (clock3 h mi s)"
    by (simp_all add: clock2_def clock3_def)
qed

lemma split_once_append: "d \<notin> set a \<Longrightarrow> split_once d (a @ d # b) = Some (a, b)"
  by (induction a) auto

lemma normalized_time_cases:
  "normalized_time t =
     (if tm_second t = 0 \<and> tm_millis t = 0 then clock2 (tm_hour t) (tm_minute t)
      else clock3 (tm_hour t) (tm_minute t) (tm_second t) @
        (if tm_millis t = 0 then [] else CHR ''.'' # trim_end_matches (CHR ''0'') (pad_left 3 (show_nat (tm_millis t)))))"
  by (simp add: normalized_time_def clock2_def clock3_def)

lemma valid_time_clock:
  assumes "h \<le> 23" "mi \<le> 59" "s \<le> 59"
  shows "valid_time_string (clock2 h mi) = Some \<lparr> tm_hour = h, tm_minute = mi, tm_second = 0, tm_millis = 0 \<rparr>"
    "valid_time_string (clock3 h mi s) = Some \<lparr> tm_hour = h, tm_minute = mi, tm_second = s, tm_millis = 0 \<rparr>"
    "parse_fraction f = Some n \<Longrightarrow> valid_time_string (clock3 h mi s @ CHR ''.'' # f) =
       Some \<lparr> tm_hour = h, tm_minute = mi, tm_second = s, tm_millis = n \<rparr>"
  using assms clock_no_point
  by (simp_all add: valid_time_string_def clock_split split_once_none split_once_append nth_opt_def parse_two_digits_pad)

text \<open>
  A time prints in its shortest form and parses back to itself: the seconds and the fraction
  are printed only when they are not zero.
\<close>

theorem normalized_time_roundtrip:
  assumes "time_ok t"
  shows "valid_time_string (normalized_time t) = Some t \<and>
    (tm_second t = 0 \<and> tm_millis t = 0 \<longrightarrow> length (normalized_time t) = 5)"
proof -
  have b: "tm_hour t \<le> 23" "tm_minute t \<le> 59" "tm_second t \<le> 59" "tm_millis t \<le> 999"
    using assms by (simp_all add: time_ok_def)
  have "length (clock2 (tm_hour t) (tm_minute t)) = 5" using b(1,2) by (simp add: clock2_def pad_left_length)
  then show ?thesis
    using b by (cases t) (auto simp: normalized_time_cases valid_time_clock parse_fraction_trim(2))
qed

theorem normalized_time_roundtrip_witness:
  "time_ok \<lparr> tm_hour = 9, tm_minute = 5, tm_second = 0, tm_millis = 120 \<rparr> \<and>
   normalized_time \<lparr> tm_hour = 9, tm_minute = 5, tm_second = 0, tm_millis = 120 \<rparr> = ''09:05:00.12'' \<and>
   valid_time_string ''09:05:00.12'' = Some \<lparr> tm_hour = 9, tm_minute = 5, tm_second = 0, tm_millis = 120 \<rparr>"
proof -
  have ok: "time_ok \<lparr> tm_hour = 9, tm_minute = 5, tm_second = 0, tm_millis = 120 \<rparr>" by (simp add: time_ok_def)
  have n: "normalized_time \<lparr> tm_hour = 9, tm_minute = 5, tm_second = 0, tm_millis = 120 \<rparr> = ''09:05:00.12''"
    by code_simp
  show ?thesis using normalized_time_roundtrip[OF ok] ok unfolding n by blast
qed

end
