(* ===== verification/Browser_Site.thy ===== *)
theory Browser_Site
  imports Site_Identity Browser_Storage
begin

text \<open>
  Renderer site locks (\<open>crates/browser/src/site.rs\<close>). A lock is the site of the documents one
  renderer process may host; every claim a renderer makes for an origin or a URL is checked
  against it. \<open>Url::parse\<close> is \<open>url_parse\<close> of the record \<open>crates\<close>.
\<close>

datatype site_lock = SiteTuple string | SiteOpaque tab_id

definition for_url :: "crates \<Rightarrow> url \<Rightarrow> site_lock option" where
  "for_url cx u =
     (if u_scheme u = ''http'' \<or> u_scheme u = ''https'' then map_option SiteTuple (site cx u) else None)"

definition allows_url :: "crates \<Rightarrow> site_lock \<Rightarrow> url \<Rightarrow> bool" where
  "allows_url cx lock u =
     (case for_url cx u of
        Some s \<Rightarrow> s = lock
      | None \<Rightarrow> (case lock of SiteOpaque _ \<Rightarrow> u_scheme u \<in> set [''about'', ''blob'', ''data''] | SiteTuple _ \<Rightarrow> False))"

definition authorize_url :: "crates \<Rightarrow> site_lock \<Rightarrow> string \<Rightarrow> url option" where
  "authorize_url cx lock spec =
     (case url_parse cx spec of Some u \<Rightarrow> if allows_url cx lock u then Some u else None | None \<Rightarrow> None)"

definition allows_origin :: "crates \<Rightarrow> site_lock \<Rightarrow> origin \<Rightarrow> bool" where
  "allows_origin cx lock orig =
     (case lock of SiteTuple locked \<Rightarrow> site_for_origin cx orig = Some locked | SiteOpaque _ \<Rightarrow> False)"

definition authorize_origin :: "crates \<Rightarrow> site_lock \<Rightarrow> serialized_origin \<Rightarrow> origin option" where
  "authorize_origin cx lock claim =
     (case claim of STuple orig \<Rightarrow> if allows_origin cx lock orig then Some orig else None | SOpaque \<Rightarrow> None)"

definition lock_storage_key :: "crates \<Rightarrow> site_lock \<Rightarrow> serialized_origin \<Rightarrow> storage_key option" where
  "lock_storage_key cx lock claim = Option.bind (authorize_origin cx lock claim) storage_key_from_origin"

definition allows_message_origin :: "crates \<Rightarrow> site_lock \<Rightarrow> serialized_origin \<Rightarrow> bool" where
  "allows_message_origin cx lock orig =
     (case orig of SOpaque \<Rightarrow> True | STuple orig \<Rightarrow> allows_origin cx lock orig)"

section \<open>Laws\<close>

lemma authorize_origin_site:
  "authorize_origin cx lock claim = Some orig \<Longrightarrow>
     \<exists>locked. lock = SiteTuple locked \<and> site_for_origin cx orig = Some locked \<and> claim = STuple orig"
  by (auto simp: authorize_origin_def allows_origin_def split: serialized_origin.splits site_lock.splits if_splits)

lemma lock_storage_key_site:
  "lock_storage_key cx lock claim = Some key \<Longrightarrow>
     \<exists>locked. lock = SiteTuple locked \<and> site_for_origin cx key = Some locked"
  by (auto simp: lock_storage_key_def bind_eq_Some_conv storage_key_from_origin_def split: if_splits
      dest!: authorize_origin_site)

text \<open>A lock admits a network URL only when it is the lock of that URL.\<close>

lemma allows_url_network:
  "u_scheme u \<in> {''http'', ''https''} \<Longrightarrow> site cx u \<noteq> None \<Longrightarrow>
     allows_url cx lock u \<longleftrightarrow> lock = SiteTuple (the (site cx u))"
  by (auto simp: allows_url_def for_url_def)

end
