(* ===== verification/Renderer_Manager.thy ===== *)
theory Renderer_Manager
  imports Browser_Site
begin

text \<open>
  The renderer processes of a browser: the assignment registry
  (\<open>crates/browser/src/assignment.rs\<close>), the process manager (\<open>crates/browser/src/manager.rs\<close>) and
  the site lock of a process handle (\<open>RendererHandle::bind\<close> of \<open>crates/browser/src/link.rs\<close>).

  One state holds what the code shares between tasks. Each operation is what one task does
  without waiting while it holds a lock or performs one atomic access, so a sequence of
  operations is an interleaving of the tasks: \<open>Drop for Assignment\<close> takes five steps,
  \<open>acquire_reserved\<close> two when it spawns, \<open>release_loop\<close> three and \<open>fill_spare\<close> four, and a process can
  die between any two. \<open>m_acquiring\<close> is set while \<open>acquire_reserved\<close> waits for a spawn, holding the
  state lock; the steps that need the lock cannot run then. A process handle exists
  (\<open>m_procs\<close>) while some \<open>Arc\<close> of it does; \<open>Weak::upgrade\<close> asks exactly that. Spawning a process is
  third-party behaviour: whether it succeeds is an argument of the step.
\<close>

definition u64_succ :: "nat \<Rightarrow> nat" where
  "u64_succ n = (n + 1) mod 2 ^ 64"

section \<open>Subscribers\<close>

text \<open>\<open>RendererWake\<close>, over the events of the protocol.\<close>

datatype 'e renderer_wake = WakeEvent nat 'e | WaiterSettled nat

definition EVENT_SUBSCRIBER_CAPACITY :: nat where
  "EVENT_SUBSCRIBER_CAPACITY = 4096"

record 'e subscriber =
  sub_queue :: "'e renderer_wake list"
  sub_closed :: bool

definition subscribe :: "'e subscriber list \<Rightarrow> 'e subscriber list" where
  "subscribe subs = subs @ [\<lparr> sub_queue = [], sub_closed = False \<rparr>]"

text \<open>\<open>Assignment::publish\<close>: what \<open>try_send\<close> does to each subscriber, and whether one was full.\<close>

definition publish :: "'e renderer_wake \<Rightarrow> 'e subscriber list \<Rightarrow> bool \<times> 'e subscriber list" where
  "publish wake subs =
     (list_ex (\<lambda>s. \<not> sub_closed s \<and> length (sub_queue s) \<ge> EVENT_SUBSCRIBER_CAPACITY) subs,
      map (\<lambda>s. s\<lparr>sub_queue := sub_queue s @ [wake]\<rparr>)
        (filter (\<lambda>s. \<not> sub_closed s \<and> length (sub_queue s) < EVENT_SUBSCRIBER_CAPACITY) subs))"

definition publish_event :: "nat \<Rightarrow> 'e \<Rightarrow> 'e subscriber list \<Rightarrow> bool \<times> 'e subscriber list" where
  "publish_event frame event subs = publish (WakeEvent frame event) subs"

definition publish_waiter_settled :: "nat \<Rightarrow> 'e subscriber list \<Rightarrow> bool \<times> 'e subscriber list" where
  "publish_waiter_settled waiter subs = publish (WaiterSettled waiter) subs"

section \<open>State\<close>

record renderer_handle =
  rh_site :: "site_lock option"
  rh_alive :: bool
  rh_assignments :: nat

record assignment =
  a_process :: nat
  a_tab :: tab_id
  a_site :: site_lock

text \<open>
  How far \<open>Drop for Assignment\<close> has come: the last \<open>Arc\<close> is gone, the release is noted, the record
  has left the registry, the process count is decremented. Sending the notice ends the drop.
\<close>

datatype drop_stage = Held | Dropping | Noted | Unlisted | Counted

datatype fill_state = FillIdle | FillBegun | FillSpawning nat | FillReady "nat option"

record manager =
  m_procs :: "nat \<rightharpoonup> renderer_handle"
  m_assigned :: "nat \<rightharpoonup> assignment \<times> drop_stage"
  r_live :: "nat set"
  r_next :: nat
  r_max_released :: nat
  r_releases :: "nat list"
  m_spare :: "nat option"
  m_sites :: "site_lock \<rightharpoonup> nat list"
  m_spawning_spare :: bool
  m_fill :: fill_state
  m_slots :: nat
  m_next :: nat
  m_acquiring :: "(nat \<times> tab_id \<times> site_lock) option"
  m_loop :: "(nat \<times> site_lock option \<times> bool) option"
  m_stopped :: "nat set"

text \<open>
  \<open>m_fill\<close>, \<open>m_acquiring\<close> and \<open>m_loop\<close> are the local variables of \<open>fill_spare\<close>, \<open>acquire_reserved\<close> and
  \<open>release_loop\<close> between their steps; \<open>m_stopped\<close> records the processes \<open>release_loop\<close> decided to shut down.
\<close>

definition manager_new :: "nat \<Rightarrow> manager" where
  "manager_new limit = \<lparr> m_procs = Map.empty, m_assigned = Map.empty, r_live = {}, r_next = 1, r_max_released = 0,
     r_releases = [], m_spare = None, m_sites = Map.empty, m_spawning_spare = False, m_fill = FillIdle,
     m_slots = limit, m_next = 1, m_acquiring = None, m_loop = None, m_stopped = {} \<rparr>"

section \<open>Process limit\<close>

text \<open>
  \<open>renderer_process_limit\<close>: the environment variable and the text of \<open>/proc/meminfo\<close> are arguments.
\<close>

definition str_lines :: "string \<Rightarrow> string list" where
  "str_lines text =
     (let parts = split_by (\<lambda>c. c = CHR 0x0A) text;
          parts = (if last parts = [] then butlast parts else parts)
      in map (\<lambda>l. if l \<noteq> [] \<and> last l = CHR 0x0D then butlast l else l) parts)"

text \<open>The first item of \<open>str::split_whitespace\<close>.\<close>

fun take_word :: "string \<Rightarrow> string" where
  "take_word [] = []"
| "take_word (c # cs) = (if list_ex (starts_with (c # cs)) white_space then [] else c # take_word cs)"

definition first_word :: "string \<Rightarrow> string option" where
  "first_word s = (let w = take_word (trim_start s) in if w = [] then None else Some w)"

fun first_available :: "string list \<Rightarrow> nat option" where
  "first_available [] = None"
| "first_available (line # lines) =
     (case Option.bind (strip_prefix ''MemAvailable:'' line) (\<lambda>rest.
             Option.bind (first_word rest) (parse_unsigned usize_max)) of
        Some n \<Rightarrow> Some n
      | None \<Rightarrow> first_available lines)"

definition renderer_process_limit :: "string option \<Rightarrow> string option \<Rightarrow> nat" where
  "renderer_process_limit env meminfo =
     (case Option.bind (Option.bind env (parse_unsigned usize_max)) (\<lambda>n. if n > 0 then Some n else None) of
        Some n \<Rightarrow> n
      | None \<Rightarrow>
          (let available_kib = (case Option.bind meminfo (\<lambda>t. first_available (str_lines t)) of
                                  Some k \<Rightarrow> k | None \<Rightarrow> 512 * 1024)
           in max 1 (min 128 (available_kib div (64 * 1024)))))"

section \<open>Processes\<close>

text \<open>\<open>RendererHandle::bind\<close>: the new lock, or the error of a different one.\<close>

definition bind_site :: "site_lock \<Rightarrow> renderer_handle \<Rightarrow> renderer_handle option" where
  "bind_site lock p =
     (case rh_site p of
        Some existing \<Rightarrow> if existing \<noteq> lock then None else Some p
      | None \<Rightarrow> Some (p\<lparr>rh_site := Some lock\<rparr>))"

definition upgrade :: "manager \<Rightarrow> nat \<Rightarrow> bool" where
  "upgrade s p = (m_procs s p \<noteq> None)"

definition is_alive :: "manager \<Rightarrow> nat \<Rightarrow> bool" where
  "is_alive s p = (case m_procs s p of Some q \<Rightarrow> rh_alive q | None \<Rightarrow> False)"

text \<open>A handle goes when no \<open>Arc\<close> of it is left; its permit returns to the semaphore.\<close>

definition referenced :: "manager \<Rightarrow> nat \<Rightarrow> bool" where
  "referenced s p \<longleftrightarrow> m_spare s = Some p \<or> (\<exists>i\<in>dom (m_assigned s). a_process (fst (the (m_assigned s i))) = p) \<or>
     p \<in> set (r_releases s) \<or> map_option fst (m_loop s) = Some p \<or> m_fill s = FillReady (Some p)"

definition drop_handle :: "nat \<Rightarrow> manager \<Rightarrow> manager" where
  "drop_handle p s = s\<lparr>m_procs := (m_procs s)(p := None), m_slots := m_slots s + 1\<rparr>"

definition process_dies :: "nat \<Rightarrow> manager \<Rightarrow> manager" where
  "process_dies p s =
     (case m_procs s p of None \<Rightarrow> s | Some q \<Rightarrow> s\<lparr>m_procs := (m_procs s)(p \<mapsto> q\<lparr>rh_alive := False\<rparr>)\<rparr>)"

text \<open>\<open>spawn_slot\<close> up to the spawn: the permit and the identity it takes, or no permit.\<close>

definition take_slot :: "manager \<Rightarrow> (nat \<times> manager) option" where
  "take_slot s =
     (if m_slots s = 0 then None
      else Some (m_next s, s\<lparr>m_slots := m_slots s - 1, m_next := u64_succ (m_next s)\<rparr>))"

text \<open>\<open>spawn_slot\<close> after it: a new handle that owns the permit, or the permit given back.\<close>

definition spawn_process :: "bool \<Rightarrow> nat \<Rightarrow> site_lock option \<Rightarrow> manager \<Rightarrow> manager" where
  "spawn_process spawn_ok p lock s =
     (if spawn_ok
      then s\<lparr>m_procs := (m_procs s)(p \<mapsto> \<lparr> rh_site = lock, rh_alive = True, rh_assignments = 0 \<rparr>)\<rparr>
      else s\<lparr>m_slots := m_slots s + 1\<rparr>)"

section \<open>The registry\<close>

definition note_released :: "nat \<Rightarrow> manager \<Rightarrow> manager" where
  "note_released i s = s\<lparr>r_max_released := max (r_max_released s) i\<rparr>"

definition was_released :: "nat \<Rightarrow> manager \<Rightarrow> bool" where
  "was_released i s = (i \<noteq> 0 \<and> i \<le> r_max_released s)"

definition reserve :: "nat \<Rightarrow> tab_id \<Rightarrow> site_lock \<Rightarrow> manager \<Rightarrow> nat \<times> manager" where
  "reserve p tab lock s =
     (let i = r_next s
      in (i, s\<lparr>r_next := u64_succ (r_next s),
             m_assigned := (m_assigned s)(i \<mapsto> (\<lparr> a_process = p, a_tab = tab, a_site = lock \<rparr>, Held)),
             r_live := insert i (r_live s),
             m_procs := (case m_procs s p of
                           None \<Rightarrow> m_procs s
                         | Some q \<Rightarrow> (m_procs s)(p \<mapsto> q\<lparr>rh_assignments := rh_assignments q + 1\<rparr>))\<rparr>))"

definition resolve :: "nat \<Rightarrow> manager \<Rightarrow> assignment option \<times> manager" where
  "resolve i s =
     (if i \<notin> r_live s then (None, s)
      else
        (case m_assigned s i of
           Some (a, Held) \<Rightarrow> (Some a, s)
         | _ \<Rightarrow> (None, note_released i (s\<lparr>r_live := r_live s - {i}\<rparr>))))"

definition hosted_by :: "nat \<Rightarrow> assignment \<Rightarrow> bool" where
  "hosted_by p a = (a_process a = p)"

datatype renderer_violation = RendererViolation

definition live_assignment :: "nat \<Rightarrow> nat \<Rightarrow> manager \<Rightarrow> (renderer_violation + assignment option) \<times> manager" where
  "live_assignment p i s =
     (let (found, s) = resolve i s
      in case found of
           Some a \<Rightarrow> if hosted_by p a then (Inr (Some a), s)
                     else (if was_released i s then (Inr None, s) else (Inl RendererViolation, s))
         | None \<Rightarrow> (if was_released i s then (Inr None, s) else (Inl RendererViolation, s)))"

text \<open>
  The authority of a storage or broadcast call (\<open>route_service_call\<close>): the caller's assignment,
  then the key its site lock grants for the claimed origin.
\<close>

definition authorized_key ::
  "crates \<Rightarrow> nat \<Rightarrow> nat \<Rightarrow> serialized_origin \<Rightarrow> manager \<Rightarrow> storage_key option" where
  "authorized_key cx p i claim s =
     (case fst (live_assignment p i s) of
        Inr (Some a) \<Rightarrow> lock_storage_key cx (a_site a) claim
      | _ \<Rightarrow> None)"

text \<open>\<open>Drop for Assignment\<close>, one step at a time.\<close>

definition drop_step :: "nat \<Rightarrow> manager \<Rightarrow> manager option" where
  "drop_step i s =
     (case m_assigned s i of
        None \<Rightarrow> None
      | Some (a, Held) \<Rightarrow> Some (s\<lparr>m_assigned := (m_assigned s)(i \<mapsto> (a, Dropping))\<rparr>)
      | Some (a, Dropping) \<Rightarrow> Some (note_released i (s\<lparr>m_assigned := (m_assigned s)(i \<mapsto> (a, Noted))\<rparr>))
      | Some (a, Noted) \<Rightarrow>
          Some (s\<lparr>r_live := r_live s - {i}, m_assigned := (m_assigned s)(i \<mapsto> (a, Unlisted))\<rparr>)
      | Some (a, Unlisted) \<Rightarrow>
          Some (s\<lparr>m_assigned := (m_assigned s)(i \<mapsto> (a, Counted)),
                  m_procs := (case m_procs s (a_process a) of
                                None \<Rightarrow> m_procs s
                              | Some q \<Rightarrow> (m_procs s)(a_process a \<mapsto> q\<lparr>rh_assignments := rh_assignments q - 1\<rparr>))\<rparr>)
      | Some (a, Counted) \<Rightarrow>
          Some (s\<lparr>m_assigned := (m_assigned s)(i := None), r_releases := r_releases s @ [a_process a]\<rparr>))"

section \<open>The manager\<close>

text \<open>
  The process \<open>acquire_reserved\<close> picks without spawning: the spare, bound to the site, or, when
  the budget is spent, a live process of the same site.
\<close>

definition take_spare :: "nat \<Rightarrow> site_lock \<Rightarrow> manager \<Rightarrow> nat option \<times> manager" where
  "take_spare p lock s =
     (let s = s\<lparr>m_spare := None\<rparr>
      in case Option.bind (m_procs s p) (bind_site lock) of
           Some q \<Rightarrow> (Some p, s\<lparr>m_procs := (m_procs s)(p \<mapsto> q)\<rparr>)
         | None \<Rightarrow> (None, s))"

definition reuse_process :: "site_lock \<Rightarrow> manager \<Rightarrow> nat option \<times> manager" where
  "reuse_process lock s =
     (let candidates = filter (is_alive s) (case m_sites s lock of Some ps \<Rightarrow> ps | None \<Rightarrow> [])
      in (find (upgrade s) candidates, s\<lparr>m_sites := (m_sites s)(lock \<mapsto> candidates)\<rparr>))"

definition list_process :: "nat \<Rightarrow> site_lock \<Rightarrow> manager \<Rightarrow> manager" where
  "list_process p lock s =
     (let processes = (case m_sites s lock of Some ps \<Rightarrow> ps | None \<Rightarrow> [])
      in s\<lparr>m_sites := (m_sites s)(lock \<mapsto>
            (if list_ex (\<lambda>c. upgrade s c \<and> c = p) processes then processes else processes @ [p]))\<rparr>)"

definition host_assignment :: "nat option \<Rightarrow> tab_id \<Rightarrow> site_lock \<Rightarrow> manager \<Rightarrow> nat option \<times> manager" where
  "host_assignment picked tab lock s =
     (case picked of
        None \<Rightarrow> (None, s)
      | Some p \<Rightarrow> (let (i, s) = reserve p tab lock (list_process p lock s) in (Some i, s)))"

text \<open>The assignment, or \<open>None\<close> for an error or, with \<open>m_acquiring\<close> set, for a spawn under way.\<close>

definition acquire_reserved :: "tab_id \<Rightarrow> site_lock \<Rightarrow> manager \<Rightarrow> nat option \<times> manager" where
  "acquire_reserved tab lock s =
     (case m_spare s of
        Some p \<Rightarrow> (let (picked, s) = take_spare p lock s in host_assignment picked tab lock s)
      | None \<Rightarrow>
          (case take_slot s of
             Some (p, s) \<Rightarrow> (None, s\<lparr>m_acquiring := Some (p, tab, lock)\<rparr>)
           | None \<Rightarrow> (let (picked, s) = reuse_process lock s in host_assignment picked tab lock s)))"

definition acquire_spawned :: "bool \<Rightarrow> manager \<Rightarrow> (nat option \<times> manager) option" where
  "acquire_spawned spawn_ok s =
     (case m_acquiring s of
        None \<Rightarrow> None
      | Some (p, tab, lock) \<Rightarrow>
          (let s = spawn_process spawn_ok p (Some lock) (s\<lparr>m_acquiring := None\<rparr>)
           in Some (host_assignment (if spawn_ok then Some p else None) tab lock s)))"

text \<open>
  \<open>acquire\<close> when no other task runs in between. Whether a spawn succeeds and whether the \<open>Assign\<close>
  notice reaches the renderer are arguments. A notice that cannot be sent (\<open>assign_notify\<close> fails,
  the renderer has stopped) drops the assignment, all five steps of it. The task that fills
  the spare after a success is a step of its own, \<open>fill_begin\<close>.
\<close>

definition drop_assignment :: "nat \<Rightarrow> manager \<Rightarrow> manager" where
  "drop_assignment i = (\<lambda>s. case drop_step i s of Some t \<Rightarrow> t | None \<Rightarrow> s) ^^ 5"

definition acquire_notify :: "bool \<Rightarrow> nat option \<times> manager \<Rightarrow> nat option \<times> manager" where
  "acquire_notify notified r =
     (case fst r of
        None \<Rightarrow> (None, snd r)
      | Some i \<Rightarrow> if notified then (Some i, snd r) else (None, drop_assignment i (snd r)))"

definition acquire :: "bool \<Rightarrow> bool \<Rightarrow> tab_id \<Rightarrow> site_lock \<Rightarrow> manager \<Rightarrow> nat option \<times> manager" where
  "acquire spawn_ok notified tab lock s =
     (let r = acquire_reserved tab lock s
      in acquire_notify notified (case acquire_spawned spawn_ok (snd r) of Some r' \<Rightarrow> r' | None \<Rightarrow> r))"

text \<open>\<open>release_loop\<close>: receive a notice and read the lock, decide under the state lock, and finish.\<close>

definition release_recv :: "manager \<Rightarrow> manager option" where
  "release_recv s =
     (case (m_loop s, r_releases s) of
        (None, p # rest) \<Rightarrow> Some (s\<lparr>m_loop := Some (p, Option.bind (m_procs s p) rh_site, False), r_releases := rest\<rparr>)
      | _ \<Rightarrow> None)"

definition unlist_process :: "nat \<Rightarrow> site_lock option \<Rightarrow> manager \<Rightarrow> manager" where
  "unlist_process p lock s =
     (case lock of
        None \<Rightarrow> s
      | Some l \<Rightarrow>
          (case m_sites s l of
             None \<Rightarrow> s
           | Some ps \<Rightarrow>
               (let ps = filter (\<lambda>c. upgrade s c \<and> c \<noteq> p) ps
                in s\<lparr>m_sites := (m_sites s)(l := (if ps = [] then None else Some ps))\<rparr>)))"

definition release_eval :: "manager \<Rightarrow> manager option" where
  "release_eval s =
     (case m_loop s of
        Some (p, lock, False) \<Rightarrow>
          (let s = s\<lparr>m_loop := Some (p, lock, True)\<rparr>
           in Some (if map_option rh_assignments (m_procs s p) = Some 0
                    then (unlist_process p lock s)\<lparr>m_stopped := insert p (m_stopped s)\<rparr> else s))
      | _ \<Rightarrow> None)"

definition release_done :: "manager \<Rightarrow> manager option" where
  "release_done s = (case m_loop s of Some (p, lock, True) \<Rightarrow> Some (s\<lparr>m_loop := None\<rparr>) | _ \<Rightarrow> None)"

text \<open>\<open>fill_spare\<close>: claim the spawn under the state lock, spawn without it, store under it.\<close>

definition fill_begin :: "manager \<Rightarrow> manager" where
  "fill_begin s =
     (if m_spare s \<noteq> None \<or> m_spawning_spare s then s else s\<lparr>m_spawning_spare := True, m_fill := FillBegun\<rparr>)"

definition fill_take_slot :: "manager \<Rightarrow> manager option" where
  "fill_take_slot s =
     (if m_fill s = FillBegun
      then Some (case take_slot s of
                   None \<Rightarrow> s\<lparr>m_fill := FillReady None\<rparr>
                 | Some (p, s) \<Rightarrow> s\<lparr>m_fill := FillSpawning p\<rparr>)
      else None)"

definition fill_spawned :: "bool \<Rightarrow> manager \<Rightarrow> manager option" where
  "fill_spawned spawn_ok s =
     (case m_fill s of
        FillSpawning p \<Rightarrow>
          Some ((spawn_process spawn_ok p None s)\<lparr>m_fill := FillReady (if spawn_ok then Some p else None)\<rparr>)
      | _ \<Rightarrow> None)"

definition fill_store :: "manager \<Rightarrow> manager option" where
  "fill_store s =
     (case m_fill s of
        FillReady spare \<Rightarrow>
          (let s = s\<lparr>m_spawning_spare := False, m_fill := FillIdle\<rparr>
           in Some (case spare of Some p \<Rightarrow> s\<lparr>m_spare := Some p\<rparr> | None \<Rightarrow> s))
      | _ \<Rightarrow> None)"

section \<open>Interleavings\<close>

datatype mgr_op =
    Acquire tab_id site_lock
  | AcquireSpawned bool
  | DropStep nat
  | ReleaseRecv
  | ReleaseEval
  | ReleaseDone
  | FillBegin
  | FillTakeSlot
  | FillSpawned bool
  | FillStore
  | Resolve nat nat
  | ProcessDies nat
  | DropHandle nat

text \<open>The operations that take the state lock wait for \<open>acquire_reserved\<close>.\<close>

fun needs_lock :: "mgr_op \<Rightarrow> bool" where
  "needs_lock (Acquire _ _) = True"
| "needs_lock ReleaseEval = True"
| "needs_lock FillBegin = True"
| "needs_lock FillStore = True"
| "needs_lock _ = False"

text \<open>\<open>None\<close> where the operation cannot run in the state.\<close>

fun mgr_run :: "mgr_op \<Rightarrow> manager \<Rightarrow> manager option" where
  "mgr_run (Acquire tab lock) s = Some (snd (acquire_reserved tab lock s))"
| "mgr_run (AcquireSpawned spawn_ok) s = map_option snd (acquire_spawned spawn_ok s)"
| "mgr_run (DropStep i) s = drop_step i s"
| "mgr_run ReleaseRecv s = release_recv s"
| "mgr_run ReleaseEval s = release_eval s"
| "mgr_run ReleaseDone s = release_done s"
| "mgr_run FillBegin s = Some (fill_begin s)"
| "mgr_run FillTakeSlot s = fill_take_slot s"
| "mgr_run (FillSpawned spawn_ok) s = fill_spawned spawn_ok s"
| "mgr_run FillStore s = fill_store s"
| "mgr_run (Resolve p i) s = Some (snd (live_assignment p i s))"
| "mgr_run (ProcessDies p) s = Some (process_dies p s)"
| "mgr_run (DropHandle p) s = (if upgrade s p \<and> \<not> referenced s p then Some (drop_handle p s) else None)"

definition mgr_apply :: "mgr_op \<Rightarrow> manager \<Rightarrow> manager option" where
  "mgr_apply op s = (if needs_lock op \<and> m_acquiring s \<noteq> None then None else mgr_run op s)"

text \<open>The states reachable in \<open>n\<close> operations from a manager with the given process limit.\<close>

inductive mgr_reach :: "nat \<Rightarrow> nat \<Rightarrow> manager \<Rightarrow> bool" for limit where
  reach_new: "mgr_reach limit 0 (manager_new limit)"
| reach_step: "mgr_reach limit n s \<Longrightarrow> mgr_apply op s = Some t \<Longrightarrow> mgr_reach limit (Suc n) t"

end
