(* ===== verification/Renderer_Manager_Inv.thy ===== *)
theory Renderer_Manager_Inv
  imports Renderer_Manager
begin

text \<open>
  The invariant of the renderer process manager, in parts over the fields they read, and that
  every operation keeps each of them.
\<close>

section \<open>Parts\<close>

type_synonym locks = "nat \<rightharpoonup> site_lock option"
type_synonym asgs = "nat \<rightharpoonup> assignment \<times> drop_stage"

text \<open>The site lock of every process that exists.\<close>

definition locks_of :: "(nat \<rightharpoonup> renderer_handle) \<Rightarrow> locks" where
  "locks_of procs = (\<lambda>p. map_option rh_site (procs p))"

text \<open>The assignments a process still counts.\<close>

definition counted :: "asgs \<Rightarrow> nat \<Rightarrow> nat set" where
  "counted asg p = {i. \<exists>a st. asg i = Some (a, st) \<and> a_process a = p \<and> st \<noteq> Counted}"

definition hosts_ok :: "locks \<Rightarrow> asgs \<Rightarrow> bool" where
  "hosts_ok ls asg \<longleftrightarrow> (\<forall>i a st. asg i = Some (a, st) \<longrightarrow> ls (a_process a) = Some (Some (a_site a)))"

definition counts_ok :: "(nat \<rightharpoonup> renderer_handle) \<Rightarrow> asgs \<Rightarrow> bool" where
  "counts_ok procs asg \<longleftrightarrow> finite (dom asg) \<and> (\<forall>p q. procs p = Some q \<longrightarrow> rh_assignments q = card (counted asg p))"

definition sites_ok :: "locks \<Rightarrow> (site_lock \<rightharpoonup> nat list) \<Rightarrow> nat set \<Rightarrow> bool" where
  "sites_ok ls sites stopped \<longleftrightarrow>
     (\<forall>l ps p x. sites l = Some ps \<and> p \<in> set ps \<and> ls p = Some x \<longrightarrow> x = Some l \<and> p \<notin> stopped)"

text \<open>The processes no site owns yet: the spare, and the one about to become the spare.\<close>

definition spare_ok :: "locks \<Rightarrow> nat option \<Rightarrow> fill_state \<Rightarrow> bool \<Rightarrow> bool" where
  "spare_ok ls spare fill spawning \<longleftrightarrow>
     (\<forall>p. spare = Some p \<longrightarrow> ls p = Some None) \<and> (\<forall>p. fill = FillReady (Some p) \<longrightarrow> ls p = Some None) \<and>
     (spawning \<longleftrightarrow> fill \<noteq> FillIdle) \<and> (spawning \<longrightarrow> spare = None)"

definition stopped_ok :: "locks \<Rightarrow> asgs \<Rightarrow> nat set \<Rightarrow> bool" where
  "stopped_ok ls asg stopped \<longleftrightarrow> (\<forall>p\<in>stopped. counted asg p = {} \<and> ls p \<noteq> Some None)"

definition registry_ok :: "asgs \<Rightarrow> nat set \<Rightarrow> nat \<Rightarrow> nat \<Rightarrow> bool" where
  "registry_ok asg live nxt released \<longleftrightarrow>
     0 < nxt \<and> (\<forall>i\<in>dom asg. 0 < i \<and> i < nxt) \<and> released < nxt \<and>
     (\<forall>i\<in>live. \<exists>a st. asg i = Some (a, st) \<and> st \<in> {Held, Dropping, Noted}) \<and>
     (\<forall>i a. asg i = Some (a, Held) \<longrightarrow> i \<in> live) \<and>
     (\<forall>i. 0 < i \<and> i < nxt \<and> (i \<notin> live \<or> (\<exists>a. asg i = Some (a, Noted))) \<longrightarrow> i \<le> released)"

text \<open>The identities taken for a spawn that has not ended, and their number.\<close>

definition spawning_ids :: "fill_state \<Rightarrow> (nat \<times> tab_id \<times> site_lock) option \<Rightarrow> nat list" where
  "spawning_ids fill acq =
     (case fill of FillSpawning p \<Rightarrow> [p] | _ \<Rightarrow> []) @ (case acq of Some (p, _, _) \<Rightarrow> [p] | None \<Rightarrow> [])"

definition fresh_ok :: "locks \<Rightarrow> (site_lock \<rightharpoonup> nat list) \<Rightarrow> nat set \<Rightarrow> nat list \<Rightarrow> nat \<Rightarrow> bool" where
  "fresh_ok ls sites stopped pending nxt \<longleftrightarrow>
     distinct pending \<and> (\<forall>p\<in>set pending. p < nxt) \<and>
     (\<forall>p. p \<in> dom ls \<or> p \<in> stopped \<or> (\<exists>l ps. sites l = Some ps \<and> p \<in> set ps) \<longrightarrow> p < nxt \<and> p \<notin> set pending)"

definition slots_ok :: "nat \<Rightarrow> locks \<Rightarrow> nat \<Rightarrow> nat list \<Rightarrow> bool" where
  "slots_ok limit ls slots pending \<longleftrightarrow> finite (dom ls) \<and> slots + card (dom ls) + length pending = limit"

definition notices_ok :: "locks \<Rightarrow> nat list \<Rightarrow> (nat \<times> site_lock option \<times> bool) option \<Rightarrow> bool" where
  "notices_ok ls releases loop \<longleftrightarrow>
     (\<forall>p\<in>set releases. \<exists>l. ls p = Some (Some l)) \<and>
     (\<forall>p x b. loop = Some (p, x, b) \<longrightarrow> x \<noteq> None \<and> ls p = Some x)"

definition mgr_inv :: "nat \<Rightarrow> manager \<Rightarrow> bool" where
  "mgr_inv limit s \<longleftrightarrow>
     (let ls = locks_of (m_procs s); pending = spawning_ids (m_fill s) (m_acquiring s)
      in hosts_ok ls (m_assigned s) \<and> counts_ok (m_procs s) (m_assigned s) \<and>
         sites_ok ls (m_sites s) (m_stopped s) \<and> spare_ok ls (m_spare s) (m_fill s) (m_spawning_spare s) \<and>
         stopped_ok ls (m_assigned s) (m_stopped s) \<and>
         registry_ok (m_assigned s) (r_live s) (r_next s) (r_max_released s) \<and>
         fresh_ok ls (m_sites s) (m_stopped s) pending (m_next s) \<and> slots_ok limit ls (m_slots s) pending \<and>
         notices_ok ls (r_releases s) (m_loop s))"

lemma mgr_invD:
  assumes "mgr_inv limit s"
  shows "hosts_ok (locks_of (m_procs s)) (m_assigned s)" "counts_ok (m_procs s) (m_assigned s)"
    "sites_ok (locks_of (m_procs s)) (m_sites s) (m_stopped s)"
    "spare_ok (locks_of (m_procs s)) (m_spare s) (m_fill s) (m_spawning_spare s)"
    "stopped_ok (locks_of (m_procs s)) (m_assigned s) (m_stopped s)"
    "registry_ok (m_assigned s) (r_live s) (r_next s) (r_max_released s)"
    "fresh_ok (locks_of (m_procs s)) (m_sites s) (m_stopped s) (spawning_ids (m_fill s) (m_acquiring s)) (m_next s)"
    "slots_ok limit (locks_of (m_procs s)) (m_slots s) (spawning_ids (m_fill s) (m_acquiring s))"
    "notices_ok (locks_of (m_procs s)) (r_releases s) (m_loop s)"
  using assms by (simp_all add: mgr_inv_def Let_def)

lemma same_dom:
  assumes "dom ls' = dom ls"
  shows "fresh_ok ls' sites stopped pending nxt = fresh_ok ls sites stopped pending nxt"
    "slots_ok limit ls' slots pending = slots_ok limit ls slots pending"
  by (simp_all only: fresh_ok_def slots_ok_def assms)

lemma locks_of_upd: "locks_of (procs(p \<mapsto> q)) = (locks_of procs)(p \<mapsto> rh_site q)"
  by (auto simp: locks_of_def)

lemma locks_of_del: "locks_of (procs(p := None)) = (locks_of procs)(p := None)"
  by (auto simp: locks_of_def)

lemma locks_of_same: "procs p = Some q \<Longrightarrow> rh_site q' = rh_site q \<Longrightarrow> locks_of (procs(p \<mapsto> q')) = locks_of procs"
  by (auto simp: locks_of_def)

lemma locks_of_Some: "locks_of procs p = Some x \<longleftrightarrow> (\<exists>q. procs p = Some q \<and> rh_site q = x)"
  by (auto simp: locks_of_def)

lemmas lock_simps = locks_of_upd locks_of_del locks_of_same

lemma inv_process_dies: "mgr_inv limit s \<Longrightarrow> mgr_inv limit (process_dies p s)"
  by (cases "m_procs s p") (auto simp: mgr_inv_def process_dies_def locks_of_same Let_def counts_ok_def)

section \<open>Sites and the spare\<close>

text \<open>Binding the spare.\<close>

lemma bind_spare:
  assumes "hosts_ok ls asg" "sites_ok ls sites stopped" "stopped_ok ls asg stopped" "notices_ok ls releases loop"
    and "ls p = Some None"
  shows "hosts_ok (ls(p \<mapsto> Some l)) asg" "sites_ok (ls(p \<mapsto> Some l)) sites stopped"
    "stopped_ok (ls(p \<mapsto> Some l)) asg stopped" "notices_ok (ls(p \<mapsto> Some l)) releases loop"
proof -
  show "hosts_ok (ls(p \<mapsto> Some l)) asg" using assms(1,5) by (fastforce simp: hosts_ok_def)
  show "sites_ok (ls(p \<mapsto> Some l)) sites stopped" using assms(2,5) by (fastforce simp: sites_ok_def)
  show "stopped_ok (ls(p \<mapsto> Some l)) asg stopped" using assms(3,5) by (fastforce simp: stopped_ok_def)
  show "notices_ok (ls(p \<mapsto> Some l)) releases loop" using assms(4,5) by (fastforce simp: notices_ok_def)
qed

text \<open>Listing a process under its site, and keeping fewer.\<close>

lemma sites_ok_upd:
  assumes "sites_ok ls sites stopped"
    and "\<And>p. p \<in> set ps \<Longrightarrow> (\<exists>old. sites l = Some old \<and> p \<in> set old) \<or> ls p = Some (Some l) \<and> p \<notin> stopped"
  shows "sites_ok ls (sites(l \<mapsto> ps)) stopped"
  unfolding sites_ok_def
proof (intro allI impI, elim conjE)
  fix l' ps' p x
  assume a: "(sites(l \<mapsto> ps)) l' = Some ps'" "p \<in> set ps'" "ls p = Some x"
  show "x = Some l' \<and> p \<notin> stopped"
  proof (cases "l' = l")
    case True
    then show ?thesis using a assms(2)[of p] assms(1) by (auto simp: sites_ok_def)
  next
    case False
    then show ?thesis using a assms(1) by (auto simp: sites_ok_def)
  qed
qed

lemma sites_ok_del: "sites_ok ls sites stopped \<Longrightarrow> sites_ok ls (sites(l := None)) stopped"
  by (auto simp: sites_ok_def split: if_splits)

lemma fresh_ok_sites:
  assumes "fresh_ok ls sites stopped pending nxt"
    and "\<And>p. p \<in> set ps \<Longrightarrow> (\<exists>old. sites l = Some old \<and> p \<in> set old) \<or> p \<in> dom ls"
  shows "fresh_ok ls (sites(l \<mapsto> ps)) stopped pending nxt"
proof -
  have "p \<in> dom ls \<or> p \<in> stopped \<or> (\<exists>l ps. sites l = Some ps \<and> p \<in> set ps)"
    if "(sites(l \<mapsto> ps)) l' = Some ps'" "p \<in> set ps'" for l' ps' p
    using that assms(2)[of p] by (cases "l' = l") auto
  then show ?thesis using assms(1) unfolding fresh_ok_def by blast
qed

lemma fresh_ok_mono:
  assumes "fresh_ok ls sites stopped pending nxt"
    and "\<And>p. p \<in> dom ls' \<or> p \<in> stopped' \<or> (\<exists>l ps. sites' l = Some ps \<and> p \<in> set ps) \<Longrightarrow>
      p \<in> dom ls \<or> p \<in> stopped \<or> (\<exists>l ps. sites l = Some ps \<and> p \<in> set ps)"
  shows "fresh_ok ls' sites' stopped' pending nxt"
  using assms unfolding fresh_ok_def by blast

lemma fresh_ok_del: "fresh_ok ls sites stopped pending nxt \<Longrightarrow> fresh_ok ls (sites(l := None)) stopped pending nxt"
  unfolding fresh_ok_def by (metis fun_upd_apply option.distinct(1))

lemma inv_list_process:
  assumes "mgr_inv limit s" "locks_of (m_procs s) p = Some (Some l)" "p \<notin> m_stopped s"
  shows "mgr_inv limit (list_process p l s)"
proof -
  let ?old = "case m_sites s l of Some ps \<Rightarrow> ps | None \<Rightarrow> []"
  define ps where "ps = (if list_ex (\<lambda>c. upgrade s c \<and> c = p) ?old then ?old else ?old @ [p])"
  have ps: "(\<exists>old. m_sites s l = Some old \<and> x \<in> set old) \<or> x = p" if "x \<in> set ps" for x
    using that by (auto simp: ps_def split: if_splits option.splits)
  have "sites_ok (locks_of (m_procs s)) ((m_sites s)(l \<mapsto> ps)) (m_stopped s)"
    by (rule sites_ok_upd) (use assms ps in \<open>auto simp: mgr_inv_def Let_def\<close>)
  moreover have "fresh_ok (locks_of (m_procs s)) ((m_sites s)(l \<mapsto> ps)) (m_stopped s)
      (spawning_ids (m_fill s) (m_acquiring s)) (m_next s)"
    by (rule fresh_ok_sites) (use assms ps in \<open>auto simp: mgr_inv_def Let_def\<close>)
  ultimately show ?thesis using assms(1) by (simp add: mgr_inv_def Let_def list_process_def ps_def)
qed

lemma list_process_sel [simp]:
  "m_procs (list_process p l s) = m_procs s" "m_stopped (list_process p l s) = m_stopped s"
  "r_next (list_process p l s) = r_next s" "m_next (list_process p l s) = m_next s"
  by (simp_all add: list_process_def Let_def)

section \<open>Reserving and releasing\<close>

lemma counted_upd:
  "counted (asg(i \<mapsto> (a, st))) p =
     (if a_process a = p \<and> st \<noteq> Counted then insert i (counted asg p) else counted asg p - {i})"
  by (auto simp: counted_def)

lemma counted_del: "counted (asg(i := None)) p = counted asg p - {i}"
  by (auto simp: counted_def)

lemma finite_counted: "finite (dom asg) \<Longrightarrow> finite (counted asg p)"
  by (rule finite_subset[of _ "dom asg"]) (auto simp: counted_def)

lemma counted_same:
  assumes "asg i = Some (a, st)" "st \<noteq> Counted" "st' \<noteq> Counted"
  shows "counted (asg(i \<mapsto> (a, st'))) = counted asg"
  using assms by (intro ext) (auto simp: counted_def)

lemma hosts_ok_upd: "hosts_ok ls asg \<Longrightarrow> ls (a_process a) = Some (Some (a_site a)) \<Longrightarrow> hosts_ok ls (asg(i \<mapsto> (a, st)))"
  by (auto simp: hosts_ok_def)

lemma registry_reserve:
  assumes "registry_ok asg live nxt released"
  shows "registry_ok (asg(nxt \<mapsto> (a, Held))) (insert nxt live) (Suc nxt) released"
  using assms unfolding registry_ok_def by (auto simp: less_Suc_eq)

lemma inv_reserve:
  assumes inv: "mgr_inv limit s" and p: "locks_of (m_procs s) p = Some (Some l)" "p \<notin> m_stopped s"
    and room: "r_next s + 1 < 2 ^ 64"
  shows "mgr_inv limit (snd (reserve p tab l s))"
proof -
  let ?a = "\<lparr> a_process = p, a_tab = tab, a_site = l \<rparr>"
  obtain q where q: "m_procs s p = Some q" using p by (auto simp: locks_of_Some)
  have new: "r_next s \<notin> dom (m_assigned s)" using inv by (auto simp: mgr_inv_def registry_ok_def Let_def)
  have fin: "finite (dom (m_assigned s))" using inv by (simp add: mgr_inv_def counts_ok_def Let_def)
  have out: "r_next s \<notin> counted (m_assigned s) x" for x using new by (auto simp: counted_def)
  have c: "counted ((m_assigned s)(r_next s \<mapsto> (?a, Held))) x =
      (if x = p then insert (r_next s) (counted (m_assigned s) x) else counted (m_assigned s) x)" for x
    using out[of x] by (auto simp: counted_upd)
  have "counts_ok ((m_procs s)(p \<mapsto> q\<lparr>rh_assignments := rh_assignments q + 1\<rparr>)) ((m_assigned s)(r_next s \<mapsto> (?a, Held)))"
    using inv q out finite_counted[OF fin] by (auto simp: mgr_inv_def Let_def counts_ok_def c fin)
  moreover have "stopped_ok (locks_of (m_procs s)) ((m_assigned s)(r_next s \<mapsto> (?a, Held))) (m_stopped s)"
    using inv p(2) by (auto simp: mgr_inv_def Let_def stopped_ok_def c)
  moreover have "registry_ok ((m_assigned s)(r_next s \<mapsto> (?a, Held))) (insert (r_next s) (r_live s)) (Suc (r_next s)) (r_max_released s)"
    using inv by (intro registry_reserve) (simp add: mgr_inv_def Let_def)
  moreover have "hosts_ok (locks_of (m_procs s)) ((m_assigned s)(r_next s \<mapsto> (?a, Held)))"
    using inv p(1) by (intro hosts_ok_upd) (simp_all add: mgr_inv_def Let_def)
  ultimately show ?thesis
    using inv q room by (simp add: mgr_inv_def Let_def reserve_def locks_of_same u64_succ_def)
qed

text \<open>Hosting an assignment on a process of the right site.\<close>

lemma inv_host:
  assumes "mgr_inv limit s" "r_next s + 1 < 2 ^ 64"
    and "\<And>p. picked = Some p \<Longrightarrow> locks_of (m_procs s) p = Some (Some l) \<and> p \<notin> m_stopped s"
  shows "mgr_inv limit (snd (host_assignment picked tab l s))"
proof (cases picked)
  case (Some p)
  then have p: "locks_of (m_procs s) p = Some (Some l)" "p \<notin> m_stopped s" using assms(3) by simp_all
  have "mgr_inv limit (snd (reserve p tab l (list_process p l s)))"
    by (rule inv_reserve) (use inv_list_process[OF assms(1) p] p assms(2) in simp_all)
  then show ?thesis using Some by (simp add: host_assignment_def case_prod_beta)
qed (use assms in \<open>simp add: host_assignment_def\<close>)

section \<open>Acquiring\<close>

lemma inv_take_spare:
  assumes inv: "mgr_inv limit s" and sp: "m_spare s = Some p"
  shows "\<exists>s'. take_spare p l s = (Some p, s') \<and> mgr_inv limit s' \<and>
    locks_of (m_procs s') p = Some (Some l) \<and> p \<notin> m_stopped s' \<and> r_next s' = r_next s"
proof -
  note parts = mgr_invD[OF inv]
  have un: "locks_of (m_procs s) p = Some None" using inv sp by (simp add: mgr_inv_def Let_def spare_ok_def)
  then obtain q where q: "m_procs s p = Some q" "rh_site q = None" by (auto simp: locks_of_Some)
  have dom: "dom ((locks_of (m_procs s))(p \<mapsto> Some l)) = dom (locks_of (m_procs s))" using un by auto
  have live: "p \<notin> m_stopped s" using inv un by (auto simp: mgr_inv_def Let_def stopped_ok_def)
  have idle: "m_fill s = FillIdle" using inv sp by (auto simp: mgr_inv_def Let_def spare_ok_def)
  let ?q = "q\<lparr>rh_site := Some l\<rparr>"
  let ?s = "s\<lparr>m_spare := None, m_procs := (m_procs s)(p \<mapsto> ?q)\<rparr>"
  have "mgr_inv limit ?s"
    using parts(2,4,6,7,8) q(1) idle bind_spare[OF parts(1,3,5,9) un]
    by (simp add: mgr_inv_def Let_def locks_of_upd spare_ok_def same_dom[OF dom] counts_ok_def)
  moreover have "take_spare p l s = (Some p, ?s)" using q by (simp add: take_spare_def bind_site_def)
  ultimately show ?thesis using live by (simp add: locks_of_upd)
qed

lemma inv_reuse:
  assumes inv: "mgr_inv limit s"
  shows "\<exists>picked s'. reuse_process l s = (picked, s') \<and> mgr_inv limit s' \<and> r_next s' = r_next s \<and>
    (\<forall>p. picked = Some p \<longrightarrow> locks_of (m_procs s') p = Some (Some l) \<and> p \<notin> m_stopped s')"
proof -
  define ps where "ps = filter (is_alive s) (case m_sites s l of Some ps \<Rightarrow> ps | None \<Rightarrow> [])"
  have ps: "\<exists>old. m_sites s l = Some old \<and> x \<in> set old" if "x \<in> set ps" for x
    using that by (cases "m_sites s l") (auto simp: ps_def)
  have "sites_ok (locks_of (m_procs s)) ((m_sites s)(l \<mapsto> ps)) (m_stopped s)"
    by (rule sites_ok_upd) (use inv ps in \<open>auto simp: mgr_inv_def Let_def\<close>)
  moreover have "fresh_ok (locks_of (m_procs s)) ((m_sites s)(l \<mapsto> ps)) (m_stopped s)
      (spawning_ids (m_fill s) (m_acquiring s)) (m_next s)"
    by (rule fresh_ok_sites) (use inv ps in \<open>auto simp: mgr_inv_def Let_def\<close>)
  ultimately have inv': "mgr_inv limit (s\<lparr>m_sites := (m_sites s)(l \<mapsto> ps)\<rparr>)"
    using inv by (simp add: mgr_inv_def Let_def)
  have "locks_of (m_procs s) p = Some (Some l) \<and> p \<notin> m_stopped s" if "find (upgrade s) ps = Some p" for p
  proof -
    have "p \<in> set ps" "m_procs s p \<noteq> None" using that by (auto simp: find_Some_iff upgrade_def)
    moreover obtain x where "locks_of (m_procs s) p = Some x" using calculation(2) by (auto simp: locks_of_def)
    ultimately show ?thesis using ps[of p] inv by (auto simp: mgr_inv_def Let_def sites_ok_def)
  qed
  then show ?thesis using inv' unfolding reuse_process_def ps_def[symmetric] Let_def by simp
qed

text \<open>Taking a permit and a process identity.\<close>

lemma fresh_ok_take:
  "fresh_ok ls sites stopped pending nxt \<Longrightarrow> set pending' = insert nxt (set pending) \<Longrightarrow> distinct pending' \<Longrightarrow>
     fresh_ok ls sites stopped pending' (Suc nxt)"
  unfolding fresh_ok_def by (metis insert_iff less_Suc_eq less_irrefl)

lemma fresh_new: "mgr_inv limit s \<Longrightarrow> m_next s \<notin> set (spawning_ids (m_fill s) (m_acquiring s))"
  by (auto simp: mgr_inv_def fresh_ok_def Let_def)

lemma inv_acquire_wait:
  assumes inv: "mgr_inv limit s" and t: "take_slot s = Some (p, s')" and idle: "m_acquiring s = None"
    and room: "m_next s + 1 < 2 ^ 64"
  shows "mgr_inv limit (s'\<lparr>m_acquiring := Some (p, tab, l)\<rparr>)"
proof -
  have "p = m_next s" "s' = s\<lparr>m_slots := m_slots s - 1, m_next := Suc (m_next s)\<rparr>" "m_slots s \<noteq> 0"
    using t room by (auto simp: take_slot_def u64_succ_def split: if_splits)
  moreover have "fresh_ok (locks_of (m_procs s)) (m_sites s) (m_stopped s)
      (spawning_ids (m_fill s) (Some (m_next s, tab, l))) (Suc (m_next s))"
    using inv idle fresh_new[OF inv]
    by (intro fresh_ok_take[where pending = "spawning_ids (m_fill s) (m_acquiring s)"])
      (auto simp: mgr_inv_def Let_def spawning_ids_def split: fill_state.splits)
  ultimately show ?thesis using inv idle by (auto simp: mgr_inv_def Let_def slots_ok_def spawning_ids_def)
qed

lemma inv_fill_take_slot:
  assumes inv: "mgr_inv limit s" and t: "fill_take_slot s = Some s'" and room: "m_next s + 1 < 2 ^ 64"
  shows "mgr_inv limit s'"
proof -
  have b: "m_fill s = FillBegun" using t by (auto simp: fill_take_slot_def split: if_splits)
  show ?thesis
  proof (cases "m_slots s = 0")
    case True
    then show ?thesis using inv t b
      by (auto simp: fill_take_slot_def take_slot_def mgr_inv_def Let_def spare_ok_def spawning_ids_def)
  next
    case False
    then have s': "s' = s\<lparr>m_slots := m_slots s - 1, m_next := Suc (m_next s), m_fill := FillSpawning (m_next s)\<rparr>"
      using t room b by (auto simp: fill_take_slot_def take_slot_def u64_succ_def)
    have "fresh_ok (locks_of (m_procs s)) (m_sites s) (m_stopped s)
      (spawning_ids (FillSpawning (m_next s)) (m_acquiring s)) (Suc (m_next s))"
      using inv b fresh_new[OF inv]
      by (intro fresh_ok_take[where pending = "spawning_ids (m_fill s) (m_acquiring s)"])
        (auto simp: mgr_inv_def Let_def spawning_ids_def split: option.splits)
    then show ?thesis using inv b False by (auto simp: s' mgr_inv_def Let_def slots_ok_def spawning_ids_def spare_ok_def)
  qed
qed

text \<open>A new process, and a spawn that failed.\<close>

lemma new_process:
  assumes "ls p = None"
  shows "hosts_ok ls asg \<Longrightarrow> hosts_ok (ls(p \<mapsto> x)) asg"
    "notices_ok ls releases loop \<Longrightarrow> notices_ok (ls(p \<mapsto> x)) releases loop"
    "p \<notin> stopped \<Longrightarrow> stopped_ok ls asg stopped \<Longrightarrow> stopped_ok (ls(p \<mapsto> x)) asg stopped"
    "spare_ok ls spare fill sp \<Longrightarrow> spare_ok (ls(p \<mapsto> x)) spare fill sp"
    "hosts_ok ls asg \<Longrightarrow> counted asg p = {}"
proof -
  show "hosts_ok (ls(p \<mapsto> x)) asg" if "hosts_ok ls asg"
    using that assms unfolding hosts_ok_def by (metis fun_upd_apply option.distinct(1))
  show "notices_ok (ls(p \<mapsto> x)) releases loop" if "notices_ok ls releases loop"
    using that assms unfolding notices_ok_def by (metis fun_upd_apply option.distinct(1))
  show "stopped_ok (ls(p \<mapsto> x)) asg stopped" if "p \<notin> stopped" "stopped_ok ls asg stopped"
    using that unfolding stopped_ok_def by (metis fun_upd_apply)
  show "spare_ok (ls(p \<mapsto> x)) spare fill sp" if "spare_ok ls spare fill sp"
    using that assms unfolding spare_ok_def by (metis fun_upd_apply option.distinct(1))
  show "counted asg p = {}" if "hosts_ok ls asg" using that assms by (fastforce simp: hosts_ok_def counted_def)
qed

lemma fresh_pending:
  assumes "fresh_ok ls sites stopped pending nxt" "p \<in> set pending"
  shows "ls p = None" "p \<notin> stopped" "sites l = Some ps \<Longrightarrow> p \<notin> set ps" "p < nxt"
  using assms unfolding fresh_ok_def by blast+

lemma fresh_ok_spawned:
  assumes "fresh_ok ls sites stopped pending nxt" "distinct pending'" "set pending = insert p (set pending')" "p \<notin> set pending'"
  shows "fresh_ok (ls(p \<mapsto> x)) sites stopped pending' nxt" "fresh_ok ls sites stopped pending' nxt"
  using assms unfolding fresh_ok_def by auto

lemma slots_ok_spawned:
  assumes "slots_ok limit ls slots pending" "ls p = None" "length pending = Suc (length pending')"
  shows "slots_ok limit (ls(p \<mapsto> x)) slots pending'" "slots_ok limit ls (Suc slots) pending'"
proof -
  have "p \<notin> dom ls" using assms(2) by auto
  then show "slots_ok limit (ls(p \<mapsto> x)) slots pending'" using assms(1,3) by (simp add: slots_ok_def)
  show "slots_ok limit ls (Suc slots) pending'" using assms(1,3) by (simp add: slots_ok_def)
qed

lemma sites_ok_spawned:
  "sites_ok ls sites stopped \<Longrightarrow> (\<And>l ps. sites l = Some ps \<Longrightarrow> p \<notin> set ps) \<Longrightarrow> sites_ok (ls(p \<mapsto> x)) sites stopped"
  unfolding sites_ok_def by (metis fun_upd_apply)

text \<open>
  A spawn ends: the identity is pending no more, and the process exists if the spawn succeeded.
\<close>

lemma inv_spawned:
  assumes inv: "mgr_inv limit s" and pend: "set (spawning_ids (m_fill s) (m_acquiring s)) = insert p (set (spawning_ids f a))"
    "length (spawning_ids (m_fill s) (m_acquiring s)) = Suc (length (spawning_ids f a))"
    and fill: "spare_ok (locks_of (m_procs (spawn_process ok p x s))) (m_spare s) f (m_spawning_spare s)"
  shows "mgr_inv limit ((spawn_process ok p x s)\<lparr>m_fill := f, m_acquiring := a\<rparr>)"
proof -
  note parts = mgr_invD[OF inv]
  let ?pend = "spawning_ids (m_fill s) (m_acquiring s)"
  let ?ls = "locks_of (m_procs s)"
  have "distinct ?pend" using parts(7) by (simp add: fresh_ok_def)
  then have "card (insert p (set (spawning_ids f a))) = Suc (length (spawning_ids f a))"
    using pend by (metis distinct_card)
  then have d: "distinct (spawning_ids f a)" "p \<notin> set (spawning_ids f a)"
    by (metis List.finite_set card_distinct card_insert_if card_length Suc_n_not_le_n nat.inject insert_absorb)+
  have p: "p \<in> set ?pend" using pend(1) by simp
  note fp = fresh_pending[OF parts(7) p]
  note fr = fresh_ok_spawned[OF parts(7) d(1) pend(1) d(2)]
  note sl = slots_ok_spawned[OF parts(8) fp(1) pend(2)]
  show ?thesis
  proof (cases ok)
    case True
    then have "counts_ok (m_procs (spawn_process ok p x s)) (m_assigned s)"
      using parts(2) new_process(5)[OF fp(1) parts(1)] by (auto simp: counts_ok_def spawn_process_def)
    then show ?thesis using True fill fr(1) sl(1) parts(6) new_process(1)[OF fp(1) parts(1)]
        new_process(2)[OF fp(1) parts(9)] new_process(3)[OF fp(1,2) parts(5)] sites_ok_spawned[OF parts(3) fp(3)]
      by (simp add: mgr_inv_def Let_def spawn_process_def locks_of_upd)
  next
    case False
    then show ?thesis using fill fr(2) sl(2) parts by (simp add: mgr_inv_def Let_def spawn_process_def)
  qed
qed

lemma inv_fill_spawned:
  assumes inv: "mgr_inv limit s" and t: "fill_spawned ok s = Some s'"
  shows "mgr_inv limit s'"
proof -
  obtain p where f: "m_fill s = FillSpawning p" using t by (auto simp: fill_spawned_def split: fill_state.splits)
  let ?f = "FillReady (if ok then Some p else None)"
  have s': "s' = (spawn_process ok p None s)\<lparr>m_fill := ?f, m_acquiring := m_acquiring s\<rparr>"
    using t f by (cases ok) (auto simp: fill_spawned_def spawn_process_def)
  have "spare_ok (locks_of (m_procs (spawn_process ok p None s))) (m_spare s) ?f (m_spawning_spare s)"
    using mgr_invD(4)[OF inv] f by (auto simp: spare_ok_def spawn_process_def locks_of_upd)
  then show ?thesis unfolding s' by (intro inv_spawned[OF inv]) (auto simp: f spawning_ids_def split: option.splits)
qed

lemma inv_acquire_spawned:
  assumes inv: "mgr_inv limit s" and t: "acquire_spawned ok s = Some (r, s')" and room: "r_next s + 1 < 2 ^ 64"
  shows "mgr_inv limit s'"
proof -
  obtain p tab l where a: "m_acquiring s = Some (p, tab, l)" using t by (auto simp: acquire_spawned_def split: option.splits)
  let ?s = "(spawn_process ok p (Some l) s)\<lparr>m_fill := m_fill s, m_acquiring := None\<rparr>"
  note parts = mgr_invD[OF inv]
  have p: "locks_of (m_procs s) p = None" "p \<notin> m_stopped s"
    using fresh_pending(1,2)[OF parts(7), of p] a by (simp_all add: spawning_ids_def)
  have "spare_ok (locks_of (m_procs (spawn_process ok p (Some l) s))) (m_spare s) (m_fill s) (m_spawning_spare s)"
    using parts(4) new_process(4)[OF p(1) parts(4)] by (simp add: spawn_process_def locks_of_upd)
  then have "mgr_inv limit ?s"
    by (intro inv_spawned[OF inv]) (auto simp: a spawning_ids_def split: fill_state.splits)
  then have "mgr_inv limit (snd (host_assignment (if ok then Some p else None) tab l ?s))"
    by (rule inv_host) (use p room in \<open>auto simp: spawn_process_def locks_of_upd split: if_splits\<close>)
  moreover have "?s = spawn_process ok p (Some l) (s\<lparr>m_acquiring := None\<rparr>)" by (simp add: spawn_process_def)
  ultimately show ?thesis using t a by (simp add: acquire_spawned_def)
qed

lemma inv_acquire:
  assumes inv: "mgr_inv limit s" and free: "m_acquiring s = None"
    and room: "r_next s + 1 < 2 ^ 64" "m_next s + 1 < 2 ^ 64"
  shows "mgr_inv limit (snd (acquire_reserved tab l s))"
proof (cases "m_spare s")
  case (Some p)
  obtain s' where t: "take_spare p l s = (Some p, s')" "mgr_inv limit s'" "locks_of (m_procs s') p = Some (Some l)"
    "p \<notin> m_stopped s'" "r_next s' = r_next s" using inv_take_spare[OF inv Some] by blast
  then show ?thesis using Some room inv_host[OF t(2), of "Some p" l tab] by (simp add: acquire_reserved_def)
next
  case None
  show ?thesis
  proof (cases "take_slot s")
    case (Some r)
    then show ?thesis using None inv_acquire_wait[OF inv _ free room(2), of "fst r" "snd r"]
      by (simp add: acquire_reserved_def case_prod_beta)
  next
    case no: None
    obtain picked s' where t: "reuse_process l s = (picked, s')" "mgr_inv limit s'" "r_next s' = r_next s"
      "\<forall>p. picked = Some p \<longrightarrow> locks_of (m_procs s') p = Some (Some l) \<and> p \<notin> m_stopped s'"
      using inv_reuse[OF inv] by blast
    then show ?thesis using None no room inv_host[OF t(2), of picked l tab] by (simp add: acquire_reserved_def)
  qed
qed

section \<open>Dropping an assignment\<close>

lemma registry_bounds:
  assumes "registry_ok asg live nxt released"
  shows "asg i = Some x \<Longrightarrow> 0 < i \<and> i < nxt" "asg i = Some (a, st) \<Longrightarrow> st \<in> {Unlisted, Counted} \<Longrightarrow> i \<notin> live"
    "asg i = Some (a, Noted) \<Longrightarrow> i \<le> released" "asg i = None \<Longrightarrow> i \<notin> live"
proof -
  show b: "0 < i \<and> i < nxt" if "asg i = Some x" for x using assms that by (auto simp: registry_ok_def)
  show "i \<notin> live" if "asg i = Some (a, st)" "st \<in> {Unlisted, Counted}" using assms that by (fastforce simp: registry_ok_def)
  show "i \<le> released" if "asg i = Some (a, Noted)" using assms that b by (auto simp: registry_ok_def)
  show "i \<notin> live" if "asg i = None" using assms that by (fastforce simp: registry_ok_def)
qed

lemma registry_drop:
  assumes "registry_ok asg live nxt released"
  shows "asg i = Some (a, Held) \<Longrightarrow> registry_ok (asg(i \<mapsto> (a, Dropping))) live nxt released"
    "asg i = Some (a, Dropping) \<Longrightarrow> registry_ok (asg(i \<mapsto> (a, Noted))) live nxt (max released i)"
    "asg i = Some (a, Noted) \<Longrightarrow> registry_ok (asg(i \<mapsto> (a, Unlisted))) (live - {i}) nxt released"
    "asg i = Some (a, Unlisted) \<Longrightarrow> registry_ok (asg(i \<mapsto> (a, Counted))) live nxt released"
    "asg i = Some (a, Counted) \<Longrightarrow> registry_ok (asg(i := None)) live nxt released"
proof -
  note b = registry_bounds[OF assms, of i]
  show "registry_ok (asg(i \<mapsto> (a, Dropping))) live nxt released" if "asg i = Some (a, Held)"
    using assms that b unfolding registry_ok_def by auto
  show "registry_ok (asg(i \<mapsto> (a, Noted))) live nxt (max released i)" if "asg i = Some (a, Dropping)"
    using assms that b unfolding registry_ok_def by (auto simp: max_def split: if_splits)
  show "registry_ok (asg(i \<mapsto> (a, Unlisted))) (live - {i}) nxt released" if "asg i = Some (a, Noted)"
    using assms that b unfolding registry_ok_def by auto
  show "registry_ok (asg(i \<mapsto> (a, Counted))) live nxt released" if "asg i = Some (a, Unlisted)"
    using assms that b unfolding registry_ok_def by auto
  show "registry_ok (asg(i := None)) live nxt released" if "asg i = Some (a, Counted)"
    using assms that b unfolding registry_ok_def by auto
qed

text \<open>A step of a drop that changes no count.\<close>

lemma stage_parts:
  assumes "asg i = Some (a, st)" "st \<noteq> Counted" "st' \<noteq> Counted"
  shows "hosts_ok ls asg \<Longrightarrow> hosts_ok ls (asg(i \<mapsto> (a, st')))"
    "counts_ok procs asg \<Longrightarrow> counts_ok procs (asg(i \<mapsto> (a, st')))"
    "stopped_ok ls asg stopped \<Longrightarrow> stopped_ok ls (asg(i \<mapsto> (a, st'))) stopped"
  using assms counted_same[of asg i a st st'] by (auto simp: hosts_ok_def counts_ok_def stopped_ok_def)

lemma stopped_ok_mono: "stopped_ok ls asg stopped \<Longrightarrow> (\<And>p. counted asg' p \<subseteq> counted asg p) \<Longrightarrow> stopped_ok ls asg' stopped"
  unfolding stopped_ok_def by blast

lemma inv_drop_step:
  assumes inv: "mgr_inv limit s" and t: "drop_step i s = Some s'"
  shows "mgr_inv limit s'"
proof -
  note parts = mgr_invD[OF inv]
  obtain a st where a: "m_assigned s i = Some (a, st)" using t by (auto simp: drop_step_def split: option.splits)
  obtain q where q: "m_procs s (a_process a) = Some q" "rh_site q = Some (a_site a)"
    using parts(1) a by (fastforce simp: hosts_ok_def locks_of_Some)
  have fin: "finite (dom (m_assigned s))" using parts(2) by (simp add: counts_ok_def)
  show ?thesis
  proof (cases st)
    case Held
    then show ?thesis using t a parts stage_parts[of "m_assigned s" i a st Dropping] registry_drop(1)[OF parts(6)]
      by (auto simp: drop_step_def mgr_inv_def Let_def)
  next
    case Dropping
    then show ?thesis using t a parts stage_parts[of "m_assigned s" i a st Noted] registry_drop(2)[OF parts(6)]
      by (auto simp: drop_step_def note_released_def mgr_inv_def Let_def)
  next
    case Noted
    then show ?thesis using t a parts stage_parts[of "m_assigned s" i a st Unlisted] registry_drop(3)[OF parts(6)]
      by (auto simp: drop_step_def mgr_inv_def Let_def)
  next
    case Unlisted
    have c: "counted ((m_assigned s)(i \<mapsto> (a, Counted))) p = counted (m_assigned s) p - {i}" for p by (simp add: counted_upd)
    have "i \<in> counted (m_assigned s) (a_process a)" using a Unlisted by (auto simp: counted_def)
    moreover have "i \<notin> counted (m_assigned s) p" if "p \<noteq> a_process a" for p using a that by (auto simp: counted_def)
    ultimately have "counts_ok ((m_procs s)(a_process a \<mapsto> q\<lparr>rh_assignments := rh_assignments q - 1\<rparr>)) ((m_assigned s)(i \<mapsto> (a, Counted)))"
      using parts(2) q(1) finite_counted[OF fin] by (auto simp: counts_ok_def c)
    moreover have "stopped_ok (locks_of (m_procs s)) ((m_assigned s)(i \<mapsto> (a, Counted))) (m_stopped s)"
      by (rule stopped_ok_mono[OF parts(5)]) (auto simp: c)
    moreover have "hosts_ok (locks_of (m_procs s)) ((m_assigned s)(i \<mapsto> (a, Counted)))"
      using parts(1) a by (auto simp: hosts_ok_def)
    ultimately show ?thesis using t a q(1) parts Unlisted registry_drop(4)[OF parts(6)]
      by (auto simp: drop_step_def mgr_inv_def Let_def locks_of_same)
  next
    case Counted
    have c: "counted ((m_assigned s)(i := None)) = counted (m_assigned s)"
      using a Counted by (intro ext) (auto simp: counted_def)
    have "notices_ok (locks_of (m_procs s)) (r_releases s @ [a_process a]) (m_loop s)"
      using parts(9) q by (auto simp: notices_ok_def locks_of_def)
    moreover have "hosts_ok (locks_of (m_procs s)) ((m_assigned s)(i := None))" using parts(1) by (auto simp: hosts_ok_def)
    ultimately show ?thesis using t a parts Counted c registry_drop(5)[OF parts(6)]
      by (auto simp: drop_step_def mgr_inv_def Let_def counts_ok_def stopped_ok_def)
  qed
qed

lemma inv_resolve:
  assumes inv: "mgr_inv limit s"
  shows "mgr_inv limit (snd (live_assignment p i s))"
proof -
  note parts = mgr_invD[OF inv]
  have snd: "snd (live_assignment p i s) = snd (resolve i s)"
    by (simp add: live_assignment_def case_prod_beta Let_def split: option.splits)
  show ?thesis
  proof (cases "i \<in> r_live s \<and> (\<forall>a. m_assigned s i \<noteq> Some (a, Held))")
    case True
    then obtain a st where a: "m_assigned s i = Some (a, st)" "st \<noteq> Held"
      using registry_bounds(4)[OF parts(6), of i] by (cases "m_assigned s i") auto
    then have r: "snd (resolve i s) = note_released i (s\<lparr>r_live := r_live s - {i}\<rparr>)"
      using True by (cases st) (simp_all add: resolve_def)
    have "registry_ok (m_assigned s) (r_live s - {i}) (r_next s) (max (r_max_released s) i)"
      using parts(6) a registry_bounds(1)[OF parts(6) a(1)] unfolding registry_ok_def by (auto simp: max_def)
    then show ?thesis using parts unfolding snd r by (simp add: mgr_inv_def Let_def note_released_def)
  next
    case False
    then have "snd (resolve i s) = s" by (auto simp: resolve_def)
    then show ?thesis using inv snd by simp
  qed
qed

section \<open>Releases and the spare\<close>

lemma inv_release_recv:
  assumes inv: "mgr_inv limit s" and t: "release_recv s = Some s'"
  shows "mgr_inv limit s'"
proof -
  note parts = mgr_invD[OF inv]
  obtain p rest where r: "m_loop s = None" "r_releases s = p # rest"
    and s': "s' = s\<lparr>m_loop := Some (p, Option.bind (m_procs s p) rh_site, False), r_releases := rest\<rparr>"
    using t by (auto simp: release_recv_def split: option.splits list.splits)
  have "notices_ok (locks_of (m_procs s)) rest (Some (p, Option.bind (m_procs s p) rh_site, False))"
    using parts(9) r by (auto simp: notices_ok_def locks_of_def)
  then show ?thesis using parts by (simp add: s' mgr_inv_def Let_def)
qed

text \<open>A process leaves the list of its site, and with that every list.\<close>

lemma unlist_sites:
  assumes sites: "sites_ok (locks_of (m_procs s)) (m_sites s) stopped" and p: "locks_of (m_procs s) p = Some (Some l)"
  shows "sites_ok (locks_of (m_procs s)) (m_sites (unlist_process p (Some l) s)) (insert p stopped)"
    "m_sites (unlist_process p (Some l) s) l' = Some ps \<Longrightarrow> \<exists>old. m_sites s l' = Some old \<and> set ps \<subseteq> set old"
proof -
  show sub: "\<exists>old. m_sites s l' = Some old \<and> set ps \<subseteq> set old" if "m_sites (unlist_process p (Some l) s) l' = Some ps" for l' ps
    using that by (auto simp: unlist_process_def Let_def split: option.splits if_splits)
  have out: "p \<notin> set ps" if "m_sites (unlist_process p (Some l) s) l' = Some ps" for l' ps
  proof (cases "l' = l")
    case True
    then show ?thesis using that by (auto simp: unlist_process_def Let_def split: option.splits if_splits)
  next
    case False
    then show ?thesis using sub[OF that] sites p by (force simp: sites_ok_def)
  qed
  show "sites_ok (locks_of (m_procs s)) (m_sites (unlist_process p (Some l) s)) (insert p stopped)"
    unfolding sites_ok_def using sub out sites unfolding sites_ok_def by (metis insert_iff subsetD)
qed

lemma unlist_sel [simp]:
  "m_procs (unlist_process p l s) = m_procs s" "m_assigned (unlist_process p l s) = m_assigned s"
  "m_stopped (unlist_process p l s) = m_stopped s" "m_spare (unlist_process p l s) = m_spare s"
  "m_fill (unlist_process p l s) = m_fill s" "m_spawning_spare (unlist_process p l s) = m_spawning_spare s"
  "r_live (unlist_process p l s) = r_live s" "r_next (unlist_process p l s) = r_next s"
  "r_max_released (unlist_process p l s) = r_max_released s" "m_acquiring (unlist_process p l s) = m_acquiring s"
  "m_next (unlist_process p l s) = m_next s" "m_slots (unlist_process p l s) = m_slots s"
  "r_releases (unlist_process p l s) = r_releases s" "m_loop (unlist_process p l s) = m_loop s"
  by (auto simp: unlist_process_def Let_def split: option.splits)

lemma inv_release_eval:
  assumes inv: "mgr_inv limit s" and t: "release_eval s = Some s'"
  shows "mgr_inv limit s'"
proof -
  note parts = mgr_invD[OF inv]
  obtain p x where l: "m_loop s = Some (p, x, False)"
    using t by (auto simp: release_eval_def split: option.splits bool.splits)
  then obtain lk where lk: "x = Some lk" "locks_of (m_procs s) p = Some (Some lk)" using parts(9) by (auto simp: notices_ok_def)
  obtain q where q: "m_procs s p = Some q" "rh_site q = Some lk" using lk by (auto simp: locks_of_Some)
  define u where "u = s\<lparr>m_loop := Some (p, x, True)\<rparr>"
  have "notices_ok (locks_of (m_procs s)) (r_releases s) (Some (p, x, True))"
    using parts(9) lk by (auto simp: notices_ok_def)
  then have inv_u: "mgr_inv limit u" using parts by (simp add: u_def mgr_inv_def Let_def)
  show ?thesis
  proof (cases "rh_assignments q = 0")
    case False
    then show ?thesis using t l q(1) inv_u by (simp add: release_eval_def u_def)
  next
    case True
    note up = mgr_invD[OF inv_u]
    have lu: "locks_of (m_procs u) p = Some (Some lk)" using lk(2) by (simp add: u_def)
    have s': "s' = (unlist_process p (Some lk) u)\<lparr>m_stopped := insert p (m_stopped u)\<rparr>"
      using t l q(1) True lk(1) by (simp add: release_eval_def u_def)
    have "counted (m_assigned s) p = {}"
      using parts(2) q(1) True finite_counted[of "m_assigned s" p] by (auto simp: counts_ok_def)
    then have "stopped_ok (locks_of (m_procs u)) (m_assigned u) (insert p (m_stopped u))"
      using up(5) lu by (auto simp: stopped_ok_def u_def)
    moreover have "fresh_ok (locks_of (m_procs u)) (m_sites (unlist_process p (Some lk) u)) (insert p (m_stopped u))
        (spawning_ids (m_fill u) (m_acquiring u)) (m_next u)"
    proof (rule fresh_ok_mono[OF up(7)])
      fix x
      assume "x \<in> dom (locks_of (m_procs u)) \<or> x \<in> insert p (m_stopped u) \<or>
        (\<exists>l ps. m_sites (unlist_process p (Some lk) u) l = Some ps \<and> x \<in> set ps)"
      then show "x \<in> dom (locks_of (m_procs u)) \<or> x \<in> m_stopped u \<or> (\<exists>l ps. m_sites u l = Some ps \<and> x \<in> set ps)"
        using lu unlist_sites(2)[OF up(3) lu] by blast
    qed
    ultimately show ?thesis using up unlist_sites(1)[OF up(3) lu] by (simp add: s' mgr_inv_def Let_def)
  qed
qed

lemma inv_release_done: "mgr_inv limit s \<Longrightarrow> release_done s = Some s' \<Longrightarrow> mgr_inv limit s'"
  by (auto simp: release_done_def mgr_inv_def Let_def notices_ok_def split: option.splits bool.splits)

lemma inv_fill_begin: "mgr_inv limit s \<Longrightarrow> mgr_inv limit (fill_begin s)"
  by (auto simp: fill_begin_def mgr_inv_def Let_def spare_ok_def spawning_ids_def)

lemma inv_fill_store:
  assumes inv: "mgr_inv limit s" and t: "fill_store s = Some s'"
  shows "mgr_inv limit s'"
proof -
  note parts = mgr_invD[OF inv]
  obtain r where r: "m_fill s = FillReady r" using t by (auto simp: fill_store_def split: fill_state.splits)
  have "spawning_ids FillIdle (m_acquiring s) = spawning_ids (m_fill s) (m_acquiring s)" by (simp add: r spawning_ids_def)
  then show ?thesis using t r parts by (cases r) (auto simp: fill_store_def mgr_inv_def Let_def spare_ok_def)
qed

text \<open>A handle nobody refers to.\<close>

lemma inv_drop_handle:
  assumes inv: "mgr_inv limit s" and p: "upgrade s p" "\<not> referenced s p"
  shows "mgr_inv limit (drop_handle p s)"
proof -
  note parts = mgr_invD[OF inv]
  let ?ls = "(locks_of (m_procs s))(p := None)"
  have ref: "m_spare s \<noteq> Some p" "p \<notin> set (r_releases s)" "map_option fst (m_loop s) \<noteq> Some p" "m_fill s \<noteq> FillReady (Some p)"
    using p(2) by (auto simp: referenced_def)
  have asg: "a_process a \<noteq> p" if "m_assigned s i = Some (a, st)" for i a st
    using p(2) that by (force simp: referenced_def)
  have "p \<in> dom (locks_of (m_procs s))" using p(1) by (auto simp: upgrade_def locks_of_def)
  then have "slots_ok limit ?ls (Suc (m_slots s)) (spawning_ids (m_fill s) (m_acquiring s))"
    using parts(8) card_Suc_Diff1[of "dom (locks_of (m_procs s))" p] by (auto simp: slots_ok_def)
  moreover have "hosts_ok ?ls (m_assigned s)" using parts(1) asg by (auto simp: hosts_ok_def)
  moreover have "counts_ok ((m_procs s)(p := None)) (m_assigned s)" using parts(2) by (auto simp: counts_ok_def)
  moreover have "sites_ok ?ls (m_sites s) (m_stopped s)" using parts(3) by (auto simp: sites_ok_def split: if_splits)
  moreover have "spare_ok ?ls (m_spare s) (m_fill s) (m_spawning_spare s)" using parts(4) ref by (auto simp: spare_ok_def)
  moreover have "stopped_ok ?ls (m_assigned s) (m_stopped s)" using parts(5) by (auto simp: stopped_ok_def)
  moreover have "fresh_ok ?ls (m_sites s) (m_stopped s) (spawning_ids (m_fill s) (m_acquiring s)) (m_next s)"
    using parts(7) unfolding fresh_ok_def by (metis Diff_iff dom_fun_upd)
  moreover have "notices_ok ?ls (r_releases s) (m_loop s)" using parts(9) ref by (auto simp: notices_ok_def)
  ultimately show ?thesis using parts(6) by (simp add: drop_handle_def mgr_inv_def Let_def locks_of_del)
qed

section \<open>Reachable states\<close>

lemma inv_new: "mgr_inv limit (manager_new limit)"
  by (simp add: mgr_inv_def manager_new_def Let_def hosts_ok_def counts_ok_def sites_ok_def spare_ok_def stopped_ok_def
      registry_ok_def fresh_ok_def slots_ok_def notices_ok_def spawning_ids_def locks_of_def)

lemma inv_apply:
  assumes "mgr_inv limit s" "r_next s + 1 < 2 ^ 64" "m_next s + 1 < 2 ^ 64" "mgr_apply op s = Some t"
  shows "mgr_inv limit t"
proof -
  have run: "mgr_run op s = Some t" "needs_lock op \<Longrightarrow> m_acquiring s = None"
    using assms(4) unfolding mgr_apply_def by (meson option.distinct(1))+
  show ?thesis
  proof (cases op)
    case (Acquire tab l)
    then show ?thesis using run inv_acquire[OF assms(1) _ assms(2,3)] by auto
  next
    case (AcquireSpawned ok)
    then show ?thesis using run inv_acquire_spawned[OF assms(1) _ assms(2)] by (auto simp: prod.expand)
  next
    case (DropHandle p)
    then show ?thesis using run inv_drop_handle[OF assms(1)] by (auto split: if_splits)
  next
    case (DropStep i)
    then show ?thesis using run(1) by (simp add: inv_drop_step[OF assms(1)])
  next
    case ReleaseRecv
    then show ?thesis using run(1) by (simp add: inv_release_recv[OF assms(1)])
  next
    case ReleaseEval
    then show ?thesis using run(1) by (simp add: inv_release_eval[OF assms(1)])
  next
    case ReleaseDone
    then show ?thesis using run(1) by (simp add: inv_release_done[OF assms(1)])
  next
    case FillTakeSlot
    then show ?thesis using run(1) by (simp add: inv_fill_take_slot[OF assms(1) _ assms(3)])
  next
    case (FillSpawned ok)
    then show ?thesis using run(1) by (simp add: inv_fill_spawned[OF assms(1)])
  next
    case FillStore
    then show ?thesis using run(1) by (simp add: inv_fill_store[OF assms(1)])
  qed (use run(1) inv_fill_begin[OF assms(1)] inv_resolve[OF assms(1)] inv_process_dies[OF assms(1)] in auto)
qed

lemma run_acquire_spawned:
  assumes "mgr_run (AcquireSpawned ok) s = Some t"
  shows "\<exists>p tab l. m_acquiring s = Some (p, tab, l) \<and>
    t = snd (host_assignment (if ok then Some p else None) tab l (spawn_process ok p (Some l) (s\<lparr>m_acquiring := None\<rparr>)))"
proof -
  obtain p tab l where a: "m_acquiring s = Some (p, tab, l)"
    using assms by (cases "m_acquiring s") (auto simp: acquire_spawned_def)
  then show ?thesis using assms by (simp add: acquire_spawned_def)
qed

text \<open>Each operation takes at most one identity of either kind.\<close>

lemma counters_host:
  "r_next (snd (host_assignment picked tab l s)) \<le> Suc (r_next s)" "m_next (snd (host_assignment picked tab l s)) = m_next s"
  by (auto simp: host_assignment_def reserve_def u64_succ_def Let_def split: option.splits)

lemma counters_pick:
  "r_next (snd (take_spare p l s)) = r_next s" "m_next (snd (take_spare p l s)) = m_next s"
  "r_next (snd (reuse_process l s)) = r_next s" "m_next (snd (reuse_process l s)) = m_next s"
  "r_next (spawn_process ok p x s) = r_next s" "m_next (spawn_process ok p x s) = m_next s"
  by (auto simp: take_spare_def reuse_process_def spawn_process_def Let_def split: option.splits)

lemma counters_acquire:
  "r_next (snd (acquire_reserved tab l s)) \<le> Suc (r_next s) \<and> m_next (snd (acquire_reserved tab l s)) \<le> Suc (m_next s)"
proof (cases "m_spare s")
  case (Some p)
  then show ?thesis using counters_host[of "fst (take_spare p l s)" tab l "snd (take_spare p l s)"]
    by (simp add: acquire_reserved_def case_prod_beta counters_pick)
next
  case None
  then show ?thesis using counters_host[of "fst (reuse_process l s)" tab l "snd (reuse_process l s)"]
    by (simp add: acquire_reserved_def case_prod_beta counters_pick take_slot_def u64_succ_def)
qed

lemma counters_drop: "drop_step i s = Some t \<Longrightarrow> r_next t = r_next s \<and> m_next t = m_next s"
  by (auto simp: drop_step_def note_released_def split: option.splits drop_stage.splits)

lemma counters_resolve: "r_next (snd (live_assignment p i s)) = r_next s \<and> m_next (snd (live_assignment p i s)) = m_next s"
  by (simp add: live_assignment_def resolve_def note_released_def Let_def split: option.split drop_stage.split)

lemma counters_release:
  "release_recv s = Some t \<Longrightarrow> r_next t = r_next s \<and> m_next t = m_next s"
  "release_eval s = Some t \<Longrightarrow> r_next t = r_next s \<and> m_next t = m_next s"
  "release_done s = Some t \<Longrightarrow> r_next t = r_next s \<and> m_next t = m_next s"
  by (auto simp: release_recv_def release_eval_def release_done_def Let_def split: option.splits list.splits bool.splits)

lemma counters_fill:
  "r_next (fill_begin s) = r_next s \<and> m_next (fill_begin s) = m_next s"
  "fill_take_slot s = Some t \<Longrightarrow> r_next t = r_next s \<and> m_next t \<le> Suc (m_next s)"
  "fill_spawned ok s = Some t \<Longrightarrow> r_next t = r_next s \<and> m_next t = m_next s"
  "fill_store s = Some t \<Longrightarrow> r_next t = r_next s \<and> m_next t = m_next s"
  by (auto simp: fill_begin_def fill_take_slot_def take_slot_def u64_succ_def fill_spawned_def fill_store_def
      spawn_process_def Let_def split: fill_state.splits if_splits option.splits)

lemma counters_apply:
  assumes "mgr_apply op s = Some t"
  shows "r_next t \<le> Suc (r_next s) \<and> m_next t \<le> Suc (m_next s)"
proof -
  have run: "mgr_run op s = Some t" using assms by (auto simp: mgr_apply_def split: if_splits)
  show ?thesis
  proof (cases op)
    case (AcquireSpawned ok)
    then obtain p tab l where "t = snd (host_assignment (if ok then Some p else None) tab l
        (spawn_process ok p (Some l) (s\<lparr>m_acquiring := None\<rparr>)))"
      using run run_acquire_spawned by blast
    then show ?thesis using counters_host[of _ tab l "spawn_process ok p (Some l) (s\<lparr>m_acquiring := None\<rparr>)"]
      by (simp add: counters_pick)
  qed (use run counters_acquire counters_drop counters_resolve counters_release counters_fill in
      \<open>fastforce simp: process_dies_def drop_handle_def split: option.splits if_splits\<close>)+
qed

lemma mgr_reach_inv:
  assumes "mgr_reach limit n s" "n < 2 ^ 63"
  shows "mgr_inv limit s \<and> r_next s \<le> Suc n \<and> m_next s \<le> Suc n"
  using assms
proof (induction rule: mgr_reach.induct)
  case reach_new
  then show ?case by (simp add: inv_new) (simp add: manager_new_def)
next
  case (reach_step n s op t)
  then have "mgr_inv limit s" "r_next s \<le> Suc n" "m_next s \<le> Suc n" by simp_all
  moreover have "r_next s + 1 < 2 ^ 64" "m_next s + 1 < 2 ^ 64" using calculation(2,3) reach_step(4) by simp_all
  ultimately show ?case using inv_apply[OF _ _ _ reach_step(2)] counters_apply[OF reach_step(2)] by force
qed

end
