(* ===== verification/Renderer_Manager_Props.thy ===== *)
theory Renderer_Manager_Props
  imports Renderer_Manager_Inv
begin

text \<open>
  What the renderer process manager guarantees for every interleaving of its tasks: site
  isolation, the process budget, safe shutdown, the answer to every renderer call, and when a
  document can be hosted.
\<close>

section \<open>Resolved calls\<close>

lemma held_hosted:
  assumes "mgr_inv limit s" "m_assigned s i = Some (a, Held)"
  shows "i \<in> r_live s" "\<exists>q. m_procs s (a_process a) = Some q \<and> rh_site q = Some (a_site a)" "a_process a \<notin> m_stopped s"
proof -
  note parts = mgr_invD[OF assms(1)]
  show "i \<in> r_live s" using parts(6) assms(2) by (auto simp: registry_ok_def)
  show "\<exists>q. m_procs s (a_process a) = Some q \<and> rh_site q = Some (a_site a)"
    using parts(1) assms(2) by (fastforce simp: hosts_ok_def locks_of_Some)
  have "i \<in> counted (m_assigned s) (a_process a)" using assms(2) by (auto simp: counted_def)
  then show "a_process a \<notin> m_stopped s" using parts(5) by (auto simp: stopped_ok_def)
qed

lemma live_assignment_held:
  assumes "mgr_inv limit s"
  shows "fst (live_assignment p i s) = Inr (Some a) \<longleftrightarrow> m_assigned s i = Some (a, Held) \<and> a_process a = p"
  using held_hosted(1)[OF assms, of i]
  by (auto simp: live_assignment_def resolve_def hosted_by_def split: option.splits drop_stage.splits if_splits)

lemma not_held_case: "\<nexists>a. r = Some (a, Held) \<Longrightarrow> (case r of Some (a, Held) \<Rightarrow> x a | _ \<Rightarrow> y) = y"
  by (cases r) (auto split: drop_stage.split)

text \<open>The answer for an identity with no assignment held.\<close>

lemma live_assignment_gone:
  assumes inv: "mgr_inv limit s" and i: "\<forall>a. m_assigned s i \<noteq> Some (a, Held)"
  shows "fst (live_assignment p i s) = (if 0 < i \<and> i < r_next s then Inr None else Inl RendererViolation)"
proof -
  note reg = mgr_invD(6)[OF inv]
  show ?thesis
  proof (cases "i \<in> r_live s")
    case True
    then obtain a st where a: "m_assigned s i = Some (a, st)" "st \<noteq> Held"
      using i registry_bounds(4)[OF reg, of i] by (cases "m_assigned s i") auto
    then have "resolve i s = (None, note_released i (s\<lparr>r_live := r_live s - {i}\<rparr>))"
      using True by (cases st) (simp_all add: resolve_def)
    then show ?thesis using registry_bounds(1)[OF reg a(1)]
      by (simp add: live_assignment_def was_released_def note_released_def)
  next
    case False
    then have "was_released i s \<longleftrightarrow> 0 < i \<and> i < r_next s"
      using reg by (auto simp: was_released_def registry_ok_def)
    then show ?thesis using False by (simp add: live_assignment_def resolve_def)
  qed
qed

section \<open>Listed processes\<close>

text \<open>
  A live process of a site that was not stopped is listed under its site, except possibly the
  one an acquisition is about to list.
\<close>

definition listed_except :: "nat option \<Rightarrow> manager \<Rightarrow> bool" where
  "listed_except x s \<longleftrightarrow>
     (\<forall>p q l. m_procs s p = Some q \<and> rh_site q = Some l \<and> rh_alive q \<and> p \<notin> m_stopped s \<and> x \<noteq> Some p \<longrightarrow>
        (\<exists>ps. m_sites s l = Some ps \<and> p \<in> set ps))"

lemma listed_cong:
  assumes "m_sites t = m_sites s" "m_stopped t = m_stopped s"
    and "\<And>p q l. m_procs t p = Some q \<Longrightarrow> rh_site q = Some l \<Longrightarrow> rh_alive q \<Longrightarrow> x \<noteq> Some p \<Longrightarrow>
      \<exists>q'. m_procs s p = Some q' \<and> rh_site q' = Some l \<and> rh_alive q'"
  shows "listed_except x s \<Longrightarrow> listed_except x t"
  using assms unfolding listed_except_def by (metis (no_types, lifting))

lemma listed_host:
  assumes "listed_except picked s" "\<And>p. picked = Some p \<Longrightarrow> locks_of (m_procs s) p = Some (Some l)"
  shows "listed_except None (snd (host_assignment picked tab l s))"
proof (cases picked)
  case (Some p)
  have "listed_except None (list_process p l s)"
    unfolding listed_except_def
  proof (intro allI impI, elim conjE)
    fix p' q l'
    assume a: "m_procs (list_process p l s) p' = Some q" "rh_site q = Some l'" "rh_alive q" "p' \<notin> m_stopped (list_process p l s)"
    show "\<exists>ps. m_sites (list_process p l s) l' = Some ps \<and> p' \<in> set ps"
    proof (cases "p' = p")
      case True
      then have "l' = l" using a(1,2) assms(2)[OF Some] by (auto simp: locks_of_Some)
      then show ?thesis using True by (auto simp: list_process_def Let_def list_ex_iff)
    next
      case False
      then obtain ps where "m_sites s l' = Some ps" "p' \<in> set ps"
        using a assms(1) Some unfolding listed_except_def by fastforce
      then show ?thesis by (cases "l' = l") (auto simp: list_process_def Let_def)
    qed
  qed
  then have "listed_except None (snd (reserve p tab l (list_process p l s)))"
    by (rule listed_cong[rotated 3]) (auto simp: reserve_def Let_def split: option.splits if_splits)
  then show ?thesis using Some by (simp add: host_assignment_def case_prod_beta)
qed (use assms in \<open>simp add: host_assignment_def\<close>)

lemma listed_weaken: "listed_except None s \<Longrightarrow> listed_except x s"
  by (auto simp: listed_except_def)

lemma listed_acquire:
  assumes inv: "mgr_inv limit s" and l: "listed_except None s"
  shows "listed_except None (snd (acquire_reserved tab lk s))"
proof (cases "m_spare s")
  case (Some p)
  obtain s' where t: "take_spare p lk s = (Some p, s')" "locks_of (m_procs s') p = Some (Some lk)"
    using inv_take_spare[OF inv Some] by blast
  have "listed_except (Some p) s'"
    by (rule listed_cong[OF _ _ _ listed_weaken[OF l]])
      (use t(1) in \<open>auto simp: take_spare_def Let_def split: option.splits\<close>)
  then show ?thesis using Some t listed_host[of "Some p" s' lk tab] by (simp add: acquire_reserved_def)
next
  case None
  show ?thesis
  proof (cases "take_slot s")
    case (Some r)
    then have "listed_except None ((snd r)\<lparr>m_acquiring := Some (fst r, tab, lk)\<rparr>)"
      by (intro listed_cong[OF _ _ _ l]) (auto simp: take_slot_def split: if_splits)
    then show ?thesis using None Some by (simp add: acquire_reserved_def case_prod_beta)
  next
    case no: None
    obtain picked s' where t: "reuse_process lk s = (picked, s')" "\<forall>p. picked = Some p \<longrightarrow> locks_of (m_procs s') p = Some (Some lk)"
      using inv_reuse[OF inv] by blast
    have "listed_except None s'"
      using l t(1) unfolding listed_except_def reuse_process_def Let_def by (fastforce simp: is_alive_def)
    then show ?thesis using None no t listed_host[of picked s' lk tab] listed_weaken by (simp add: acquire_reserved_def)
  qed
qed

lemma listed_acquire_spawned:
  assumes "listed_except None s" "acquire_spawned ok s = Some (r, t)"
  shows "listed_except None t"
proof -
  obtain p tab lk where a: "m_acquiring s = Some (p, tab, lk)" using assms(2) by (cases "m_acquiring s") (auto simp: acquire_spawned_def)
  let ?s = "spawn_process ok p (Some lk) (s\<lparr>m_acquiring := None\<rparr>)"
  have "listed_except (if ok then Some p else None) ?s"
    by (rule listed_cong[OF _ _ _ listed_weaken[OF assms(1)]]) (auto simp: spawn_process_def split: if_splits)
  then have "listed_except None (snd (host_assignment (if ok then Some p else None) tab lk ?s))"
    by (rule listed_host) (auto simp: spawn_process_def locks_of_upd split: if_splits)
  then show ?thesis using assms(2) a by (simp add: acquire_spawned_def)
qed

lemma listed_release_eval:
  assumes l: "listed_except None s" and t: "release_eval s = Some t"
  shows "listed_except None t"
proof -
  obtain p x where lp: "m_loop s = Some (p, x, False)"
    using t by (auto simp: release_eval_def split: option.splits bool.splits)
  define u where "u = s\<lparr>m_loop := Some (p, x, True)\<rparr>"
  have lu: "listed_except None u" by (rule listed_cong[OF _ _ _ l]) (simp_all add: u_def)
  show ?thesis
  proof (cases "map_option rh_assignments (m_procs s p) = Some 0")
    case False
    then show ?thesis using t lp lu by (auto simp: release_eval_def u_def Let_def split: if_splits)
  next
    case True
    then have t: "t = (unlist_process p x u)\<lparr>m_stopped := insert p (m_stopped u)\<rparr>"
      using t lp by (simp add: release_eval_def u_def)
    have "\<exists>ps. m_sites (unlist_process p x u) l = Some ps \<and> c \<in> set ps"
      if "m_procs u c = Some q" "m_sites u l = Some old" "c \<in> set old" "c \<noteq> p" for c q l old
    proof (cases "x = Some l")
      case True
      have "c \<in> set (filter (\<lambda>c. upgrade u c \<and> c \<noteq> p) old)" using that by (simp add: upgrade_def)
      then show ?thesis using True that by (auto simp: unlist_process_def Let_def filter_empty_conv)
    next
      case False
      then show ?thesis using that by (auto simp: unlist_process_def Let_def split: option.splits)
    qed
    then show ?thesis using lu unfolding t listed_except_def by simp blast
  qed
qed

lemma listed_apply:
  assumes inv: "mgr_inv limit s" and l: "listed_except None s" and t: "mgr_apply op s = Some t"
  shows "listed_except None t"
proof -
  have run: "mgr_run op s = Some t" using t unfolding mgr_apply_def by (meson option.distinct(1))
  note cong = listed_cong[OF _ _ _ l]
  show ?thesis
  proof (cases op)
    case (Acquire tab lk)
    then show ?thesis using run listed_acquire[OF inv l] by auto
  next
    case (AcquireSpawned ok)
    then show ?thesis using run listed_acquire_spawned[OF l] by (cases "acquire_spawned ok s") auto
  next
    case ReleaseEval
    then show ?thesis using run by (simp add: listed_release_eval[OF l])
  next
    case (DropStep i)
    then show ?thesis using run
      by (intro cong) (auto simp: drop_step_def note_released_def split: option.splits drop_stage.splits if_splits)
  next
    case (Resolve p i)
    then have "t = snd (live_assignment p i s)" using run by simp
    moreover have "m_sites (snd (live_assignment p i s)) = m_sites s" "m_stopped (snd (live_assignment p i s)) = m_stopped s"
      "m_procs (snd (live_assignment p i s)) = m_procs s"
      by (simp_all add: live_assignment_def resolve_def note_released_def Let_def split: option.split drop_stage.split)
    ultimately show ?thesis by (intro cong) simp_all
  next
    case ReleaseRecv
    then show ?thesis using run by (intro cong) (auto simp: release_recv_def split: option.splits list.splits)
  next
    case ReleaseDone
    then show ?thesis using run by (intro cong) (auto simp: release_done_def split: option.splits bool.splits)
  next
    case FillBegin
    then show ?thesis using run by (intro cong) (auto simp: fill_begin_def split: if_splits)
  next
    case FillTakeSlot
    then show ?thesis using run by (intro cong) (auto simp: fill_take_slot_def take_slot_def split: if_splits)
  next
    case (FillSpawned ok)
    then show ?thesis using run
      by (intro cong) (auto simp: fill_spawned_def spawn_process_def split: fill_state.splits if_splits)
  next
    case FillStore
    then show ?thesis using run by (intro cong) (auto simp: fill_store_def Let_def split: fill_state.splits option.splits)
  next
    case (ProcessDies p)
    then show ?thesis using run by (intro cong) (auto simp: process_dies_def split: option.splits if_splits)
  next
    case (DropHandle p)
    then show ?thesis using run by (intro cong) (auto simp: drop_handle_def split: if_splits)
  qed
qed

lemma mgr_reach_listed:
  assumes "mgr_reach limit n s" "n < 2 ^ 63"
  shows "listed_except None s"
  using assms
proof (induction rule: mgr_reach.induct)
  case reach_new
  then show ?case by (simp add: listed_except_def manager_new_def)
next
  case (reach_step n s op t)
  then show ?case using mgr_reach_inv[OF reach_step(1)] listed_apply by force
qed

section \<open>Locks are permanent\<close>

text \<open>No operation changes the lock of a process that has one.\<close>

definition locks_kept :: "manager \<Rightarrow> manager \<Rightarrow> bool" where
  "locks_kept s t \<longleftrightarrow> (\<forall>p l q. locks_of (m_procs s) p = Some (Some l) \<and> m_procs t p = Some q \<longrightarrow> rh_site q = Some l)"

lemma locks_keptI: "(\<And>p l q. locks_of (m_procs s) p = Some (Some l) \<Longrightarrow> m_procs t p = Some q \<Longrightarrow> rh_site q = Some l) \<Longrightarrow> locks_kept s t"
  unfolding locks_kept_def by blast

lemma locks_kept_host: "locks_kept s u \<Longrightarrow> locks_kept s (snd (host_assignment picked tab l u))"
  unfolding locks_kept_def
  by (auto simp: host_assignment_def reserve_def Let_def split: option.splits if_splits)

lemma locks_kept_spawn:
  "locks_of (m_procs s) p = None \<Longrightarrow> m_procs u = m_procs s \<Longrightarrow> locks_kept s (spawn_process ok p x u)"
  by (auto simp: locks_kept_def spawn_process_def locks_of_def split: if_splits)

lemma locks_kept_acquire:
  assumes inv: "mgr_inv limit s"
  shows "locks_kept s (snd (acquire_reserved tab l s))"
proof (cases "m_spare s")
  case (Some p)
  have un: "locks_of (m_procs s) p = Some None" using mgr_invD(4)[OF inv] Some by (simp add: spare_ok_def)
  have "locks_kept s (snd (take_spare p l s))"
    using un by (auto simp: locks_kept_def take_spare_def bind_site_def locks_of_def Let_def split: option.splits if_splits)
  then show ?thesis using Some locks_kept_host by (simp add: acquire_reserved_def case_prod_beta)
next
  case None
  have "locks_kept s (snd (reuse_process l s))" by (auto simp: locks_kept_def reuse_process_def locks_of_def Let_def)
  moreover have "locks_kept s ((snd r)\<lparr>m_acquiring := x\<rparr>)" if "take_slot s = Some r" for r x
    using that by (auto simp: locks_kept_def take_slot_def locks_of_def split: if_splits)
  ultimately show ?thesis using None locks_kept_host by (simp add: acquire_reserved_def case_prod_beta split: option.split)
qed

lemma locks_kept_apply:
  assumes inv: "mgr_inv limit s" and t: "mgr_apply op s = Some t"
  shows "locks_kept s t"
proof -
  have run: "mgr_run op s = Some t" using t unfolding mgr_apply_def by (meson option.distinct(1))
  have pending: "locks_of (m_procs s) p = None" if "p \<in> set (spawning_ids (m_fill s) (m_acquiring s))" for p
    using fresh_pending(1)[OF mgr_invD(7)[OF inv] that] .
  show ?thesis
  proof (cases op)
    case (Acquire tab l)
    then show ?thesis using run locks_kept_acquire[OF inv] by auto
  next
    case (AcquireSpawned ok)
    then obtain p tab l where a: "m_acquiring s = Some (p, tab, l)"
      and t: "t = snd (host_assignment (if ok then Some p else None) tab l
        (spawn_process ok p (Some l) (s\<lparr>m_acquiring := None\<rparr>)))"
      using run run_acquire_spawned by blast
    have "locks_of (m_procs s) p = None" using a by (intro pending) (simp add: spawning_ids_def)
    then show ?thesis unfolding t by (intro locks_kept_host locks_kept_spawn) simp_all
  next
    case (FillSpawned ok)
    then obtain p where f: "m_fill s = FillSpawning p" using run by (auto simp: fill_spawned_def split: fill_state.splits)
    have "locks_of (m_procs s) p = None" using f by (intro pending) (simp add: spawning_ids_def)
    then show ?thesis using run FillSpawned f locks_kept_spawn[of s p s ok None] by (auto simp: fill_spawned_def locks_kept_def)
  next
    case (DropStep i)
    then show ?thesis using run
      by (intro locks_keptI) (auto simp: drop_step_def note_released_def locks_of_def split: option.splits drop_stage.splits if_splits)
  next
    case (Resolve p i)
    have "m_procs (snd (live_assignment p i s)) = m_procs s"
      by (simp add: live_assignment_def resolve_def note_released_def Let_def split: option.split drop_stage.split)
    then show ?thesis using run Resolve by (auto simp: locks_kept_def locks_of_def)
  next
    case ReleaseEval
    then have "m_procs t = m_procs s"
      using run by (auto simp: release_eval_def Let_def split: option.splits bool.splits)
    then show ?thesis by (auto simp: locks_kept_def locks_of_def)
  qed (use run in \<open>auto simp: locks_kept_def locks_of_def release_recv_def release_done_def fill_begin_def fill_take_slot_def
      take_slot_def fill_store_def process_dies_def drop_handle_def Let_def
      split: option.splits list.splits bool.splits fill_state.splits if_splits\<close>)
qed

text \<open>A stopped process stays stopped.\<close>

lemma stopped_host: "m_stopped (snd (host_assignment picked tab l s)) = m_stopped s"
  by (simp add: host_assignment_def reserve_def Let_def split: option.split)

lemma stopped_acquire: "m_stopped (snd (acquire_reserved tab l s)) = m_stopped s"
  by (simp add: acquire_reserved_def stopped_host case_prod_beta take_spare_def reuse_process_def take_slot_def Let_def
      split: option.split)

lemma stopped_mono:
  assumes "mgr_apply op s = Some t"
  shows "m_stopped s \<subseteq> m_stopped t"
proof -
  have run: "mgr_run op s = Some t" using assms unfolding mgr_apply_def by (meson option.distinct(1))
  show ?thesis
  proof (cases op)
    case (Acquire tab l)
    then show ?thesis using run stopped_acquire by auto
  next
    case (AcquireSpawned ok)
    then show ?thesis using run run_acquire_spawned[of ok s t] by (auto simp: stopped_host spawn_process_def)
  next
    case (Resolve p i)
    have "m_stopped (snd (live_assignment p i s)) = m_stopped s"
      by (simp add: live_assignment_def resolve_def note_released_def Let_def split: option.split drop_stage.split)
    then show ?thesis using run Resolve by auto
  next
    case (DropStep i)
    then show ?thesis using run by (auto simp: drop_step_def note_released_def split: option.splits drop_stage.splits)
  qed (use run in \<open>auto simp: release_recv_def release_eval_def release_done_def fill_begin_def fill_take_slot_def
      take_slot_def fill_store_def fill_spawned_def spawn_process_def process_dies_def drop_handle_def Let_def
      split: option.splits list.splits bool.splits fill_state.splits if_splits\<close>)
qed

section \<open>A run\<close>

definition mgr_ops :: "mgr_op list \<Rightarrow> manager \<Rightarrow> manager option" where
  "mgr_ops ops s = foldl (\<lambda>r op. Option.bind r (mgr_apply op)) (Some s) ops"

lemma mgr_ops_Nil: "mgr_ops [] s = Some s"
  by (simp add: mgr_ops_def)

lemma foldl_None: "foldl (\<lambda>r op. Option.bind r (mgr_apply op)) None ops = None"
  by (induction ops) auto

lemma mgr_ops_Cons: "mgr_ops (op # ops) s = Option.bind (mgr_apply op s) (mgr_ops ops)"
  by (cases "mgr_apply op s") (simp_all add: mgr_ops_def foldl_None)

lemma mgr_ops_reach: "mgr_reach limit n s \<Longrightarrow> mgr_ops ops s = Some t \<Longrightarrow> mgr_reach limit (n + length ops) t"
proof (induction ops arbitrary: n s)
  case (Cons op ops)
  then obtain u where "mgr_apply op s = Some u" "mgr_ops ops u = Some t" by (auto simp: mgr_ops_Cons bind_eq_Some_conv)
  then show ?case using Cons.IH[of "Suc n" u] Cons.prems(1) reach_step by fastforce
qed (simp add: mgr_ops_Nil)

text \<open>
  A process that has a lock never loses it, and its identity is never given to another process
  that could have a different one.
\<close>

definition locked_for_good :: "nat \<Rightarrow> site_lock \<Rightarrow> manager \<Rightarrow> bool" where
  "locked_for_good p l s \<longleftrightarrow> (\<forall>q. m_procs s p = Some q \<longrightarrow> rh_site q = Some l) \<and>
     p < m_next s \<and> p \<notin> set (spawning_ids (m_fill s) (m_acquiring s))"

lemma locked_now:
  assumes "mgr_inv limit s" "m_procs s p = Some q" "rh_site q = Some l"
  shows "locked_for_good p l s"
  using mgr_invD(7)[OF assms(1)] assms(2,3) by (auto simp: locked_for_good_def fresh_ok_def locks_of_def dom_def)

text \<open>A step takes at most one new identity, and creates only processes whose identity was taken.\<close>

definition identities_kept :: "manager \<Rightarrow> manager \<Rightarrow> bool" where
  "identities_kept s t \<longleftrightarrow> m_next s \<le> m_next t \<and>
     set (spawning_ids (m_fill t) (m_acquiring t)) \<subseteq> insert (m_next s) (set (spawning_ids (m_fill s) (m_acquiring s))) \<and>
     dom (m_procs t) \<subseteq> dom (m_procs s) \<union> set (spawning_ids (m_fill s) (m_acquiring s))"

lemma identities_same:
  "m_next t = m_next s \<Longrightarrow> m_fill t = m_fill s \<Longrightarrow> m_acquiring t = m_acquiring s \<Longrightarrow> dom (m_procs t) \<subseteq> dom (m_procs s) \<Longrightarrow>
   identities_kept s t"
  by (auto simp: identities_kept_def)

lemma identities_host:
  assumes "identities_kept s u"
  shows "identities_kept s (snd (host_assignment picked tab l u))"
proof -
  let ?t = "snd (host_assignment picked tab l u)"
  have "m_next ?t = m_next u" "m_fill ?t = m_fill u" "m_acquiring ?t = m_acquiring u" "dom (m_procs ?t) = dom (m_procs u)"
    using counters_host[of picked tab l u]
    by (auto simp: host_assignment_def list_process_def reserve_def Let_def split: option.splits)
  then show ?thesis using assms by (simp add: identities_kept_def)
qed

lemma identities_acquire:
  assumes "m_acquiring s = None" "m_next s + 1 < 2 ^ 64"
  shows "identities_kept s (snd (acquire_reserved tab l s))"
proof (cases "m_spare s")
  case (Some p)
  have "identities_kept s (snd (take_spare p l s))"
    by (rule identities_same) (auto simp: take_spare_def Let_def bind_eq_Some_conv split: option.splits)
  then show ?thesis using Some identities_host by (simp add: acquire_reserved_def case_prod_beta)
next
  case None
  have "identities_kept s (snd (reuse_process l s))"
    by (rule identities_same) (auto simp: reuse_process_def Let_def)
  moreover have "identities_kept s ((snd r)\<lparr>m_acquiring := Some (fst r, tab, l)\<rparr>)" if "take_slot s = Some r" for r
    using that assms by (auto simp: identities_kept_def take_slot_def u64_succ_def spawning_ids_def split: if_splits)
  ultimately show ?thesis using None identities_host by (simp add: acquire_reserved_def case_prod_beta split: option.split)
qed

lemma identities_apply:
  assumes "mgr_apply op s = Some t" "m_next s + 1 < 2 ^ 64"
  shows "identities_kept s t"
proof -
  have run: "mgr_run op s = Some t" using assms(1) unfolding mgr_apply_def by (meson option.distinct(1))
  show ?thesis
  proof (cases op)
    case (Acquire tab l)
    moreover have "m_acquiring s = None"
      using assms(1) Acquire by (cases "m_acquiring s") (simp_all add: mgr_apply_def)
    ultimately show ?thesis using run identities_acquire[OF _ assms(2)] by auto
  next
    case (AcquireSpawned ok)
    then obtain p tab l where a: "m_acquiring s = Some (p, tab, l)"
      and t: "t = snd (host_assignment (if ok then Some p else None) tab l
        (spawn_process ok p (Some l) (s\<lparr>m_acquiring := None\<rparr>)))"
      using run run_acquire_spawned by blast
    show ?thesis unfolding t
      by (rule identities_host) (auto simp: identities_kept_def spawn_process_def spawning_ids_def a)
  next
    case (FillTakeSlot)
    then show ?thesis using run assms(2)
      by (cases "m_acquiring s")
        (auto simp: identities_kept_def fill_take_slot_def take_slot_def u64_succ_def spawning_ids_def split: if_splits)
  next
    case (FillSpawned ok)
    then show ?thesis using run
      by (cases "m_acquiring s"; cases ok)
        (auto simp: identities_kept_def fill_spawned_def spawn_process_def spawning_ids_def split: fill_state.splits if_splits)
  next
    case FillStore
    then show ?thesis using run
      by (cases "m_acquiring s")
        (auto simp: identities_kept_def fill_store_def spawning_ids_def Let_def split: fill_state.splits option.splits)
  next
    case FillBegin
    then show ?thesis using run by (auto simp: identities_kept_def fill_begin_def spawning_ids_def split: if_splits)
  next
    case (Resolve p i)
    have "m_procs (snd (live_assignment p i s)) = m_procs s" "m_fill (snd (live_assignment p i s)) = m_fill s"
      "m_acquiring (snd (live_assignment p i s)) = m_acquiring s" "m_next (snd (live_assignment p i s)) = m_next s"
      by (simp_all add: live_assignment_def resolve_def note_released_def Let_def split: option.split drop_stage.split)
    then show ?thesis using run Resolve by (auto intro: identities_same)
  next
    case (DropStep i)
    then show ?thesis using run
      by (intro identities_same) (auto simp: drop_step_def note_released_def split: option.splits drop_stage.splits if_splits)
  qed (use run in \<open>auto intro!: identities_same simp: release_recv_def release_eval_def release_done_def unlist_process_def
      process_dies_def drop_handle_def Let_def split: option.splits list.splits bool.splits if_splits\<close>)
qed

lemma locked_step:
  assumes "mgr_inv limit s" "locked_for_good p l s" "mgr_apply op s = Some t" "m_next s + 1 < 2 ^ 64"
  shows "locked_for_good p l t"
proof -
  note ids = identities_apply[OF assms(3,4), unfolded identities_kept_def]
  have s: "p < m_next s" "p \<notin> set (spawning_ids (m_fill s) (m_acquiring s))" using assms(2) by (simp_all add: locked_for_good_def)
  have "rh_site q = Some l" if q: "m_procs t p = Some q" for q
  proof -
    have "p \<in> dom (m_procs s)" using ids q s(2) by blast
    then have "locks_of (m_procs s) p = Some (Some l)" using assms(2) by (auto simp: locked_for_good_def locks_of_def)
    then show ?thesis using locks_kept_apply[OF assms(1,3)] q unfolding locks_kept_def by blast
  qed
  moreover have "p < m_next t" "p \<notin> set (spawning_ids (m_fill t) (m_acquiring t))" using ids s by auto
  ultimately show ?thesis by (simp add: locked_for_good_def)
qed

lemma locked_run:
  assumes "mgr_reach limit n s" "locked_for_good p l s" "mgr_ops ops s = Some t" "n + length ops < 2 ^ 63"
  shows "locked_for_good p l t"
  using assms
proof (induction ops arbitrary: n s)
  case (Cons op ops)
  then obtain u where u: "mgr_apply op s = Some u" "mgr_ops ops u = Some t" by (auto simp: mgr_ops_Cons bind_eq_Some_conv)
  have "mgr_inv limit s" "m_next s + 1 < 2 ^ 64" using mgr_reach_inv[OF Cons.prems(1)] Cons.prems(4) by simp_all
  then have "locked_for_good p l u" using locked_step Cons.prems(2) u(1) by blast
  then show ?case using Cons.IH[of "Suc n" u] reach_step[OF Cons.prems(1) u(1)] u(2) Cons.prems(4) by simp
qed (simp add: mgr_ops_Nil)

text \<open>A granted key comes from a document the process hosts, on the site both are locked to.\<close>

lemma key_hosted:
  assumes inv: "mgr_inv limit s" and k: "authorized_key cx p i claim s = Some key"
  shows "\<exists>a q locked. m_assigned s i = Some (a, Held) \<and> a_process a = p \<and> a_site a = SiteTuple locked \<and>
    m_procs s p = Some q \<and> rh_site q = Some (SiteTuple locked) \<and> site_for_origin cx key = Some locked"
proof -
  obtain a where a: "fst (live_assignment p i s) = Inr (Some a)" "lock_storage_key cx (a_site a) claim = Some key"
    using k by (auto simp: authorized_key_def split: sum.splits option.splits)
  have h: "m_assigned s i = Some (a, Held)" "a_process a = p" using a(1) live_assignment_held[OF inv] by auto
  show ?thesis using held_hosted(2)[OF inv h(1)] h lock_storage_key_site[OF a(2)] by auto
qed

text \<open>A spare is made ready, a document of one site takes it, on a manager with two process slots.\<close>

definition example_ops :: "site_lock \<Rightarrow> mgr_op list" where
  "example_ops l = [FillBegin, FillTakeSlot, FillSpawned True, FillStore, Acquire 7 l]"

definition example_assignment :: "site_lock \<Rightarrow> assignment" where
  "example_assignment l = \<lparr> a_process = 1, a_tab = 7, a_site = l \<rparr>"

definition example_manager :: "site_lock \<Rightarrow> manager" where
  "example_manager l = \<lparr> m_procs = [1 \<mapsto> \<lparr> rh_site = Some l, rh_alive = True, rh_assignments = 1 \<rparr>],
     m_assigned = [1 \<mapsto> (example_assignment l, Held)], r_live = {1}, r_next = 2, r_max_released = 0, r_releases = [],
     m_spare = None, m_sites = [l \<mapsto> [1]], m_spawning_spare = False, m_fill = FillIdle, m_slots = 1, m_next = 2,
     m_acquiring = None, m_loop = None, m_stopped = {} \<rparr>"

lemma example_run: "mgr_ops (example_ops l) (manager_new 2) = Some (example_manager l)"
  by (simp add: example_ops_def mgr_ops_Cons mgr_ops_Nil mgr_apply_def manager_new_def fill_begin_def fill_take_slot_def
      take_slot_def u64_succ_def fill_spawned_def spawn_process_def fill_store_def acquire_reserved_def take_spare_def
      bind_site_def host_assignment_def list_process_def reserve_def upgrade_def example_manager_def example_assignment_def)

lemma example_reach: "mgr_reach 2 5 (example_manager l)"
  using mgr_ops_reach[OF reach_new example_run, of l] by (simp add: example_ops_def numeral_eq_Suc)

section \<open>Properties\<close>

text \<open>
  \<^bold>\<open>C1.\<close> Site isolation. Whatever the interleaving of acquisitions, releases, spawns and crashes,
  a renderer process gets a storage key only through a document that is held and assigned to
  that very process, and the key's site is the site the document and the process are locked
  to. The lock is permanent: after any further operations, also when all its documents are
  gone, the process is locked to the same site, no later process takes its identity with
  another lock, and every key it is given later is of that site. Every other process that
  gets the same key is locked to the same site.
\<close>

theorem renderer_isolation:
  assumes "mgr_reach limit n s" "n < 2 ^ 63" "authorized_key cx p i claim s = Some key"
  shows "\<exists>a q locked. m_assigned s i = Some (a, Held) \<and> a_process a = p \<and> a_site a = SiteTuple locked \<and>
    m_procs s p = Some q \<and> rh_site q = Some (SiteTuple locked) \<and> site_for_origin cx key = Some locked \<and>
    (\<forall>ops t. mgr_ops ops s = Some t \<and> n + length ops < 2 ^ 63 \<longrightarrow>
       (\<forall>q'. m_procs t p = Some q' \<longrightarrow> rh_site q' = Some (SiteTuple locked)) \<and>
       (\<forall>i' claim' key'. authorized_key cx p i' claim' t = Some key' \<longrightarrow> site_for_origin cx key' = Some locked)) \<and>
    (\<forall>p' i' claim' q'. authorized_key cx p' i' claim' s = Some key \<and> m_procs s p' = Some q' \<longrightarrow>
       rh_site q' = Some (SiteTuple locked))"
proof -
  have inv: "mgr_inv limit s" using mgr_reach_inv[OF assms(1,2)] by simp
  obtain a q locked where a: "m_assigned s i = Some (a, Held)" "a_process a = p" "a_site a = SiteTuple locked"
    and q: "m_procs s p = Some q" "rh_site q = Some (SiteTuple locked)" "site_for_origin cx key = Some locked"
    using key_hosted[OF inv assms(3)] by blast
  have later: "rh_site q' = Some (SiteTuple locked)"
    if "mgr_ops ops s = Some t" "n + length ops < 2 ^ 63" "m_procs t p = Some q'" for ops t q'
    using locked_run[OF assms(1) locked_now[OF inv q(1,2)] that(1,2)] that(3) unfolding locked_for_good_def by blast
  have keys: "site_for_origin cx key' = Some locked"
    if "mgr_ops ops s = Some t" "n + length ops < 2 ^ 63" "authorized_key cx p i' claim' t = Some key'" for ops t i' claim' key'
  proof -
    have "mgr_inv limit t" using mgr_reach_inv[OF mgr_ops_reach[OF assms(1) that(1)] that(2)] by simp
    then show ?thesis using key_hosted that(3) later[OF that(1,2)] by force
  qed
  have "rh_site q' = Some (SiteTuple locked)"
    if "authorized_key cx p' i' claim' s = Some key" "m_procs s p' = Some q'" for p' i' claim' q'
    using key_hosted[OF inv that(1)] that(2) q(3) by auto
  then show ?thesis using a q later keys by blast
qed

definition example_origin :: origin where
  "example_origin = Tuple ''https'' (Ipv4 1 2 3 4) 443"

definition plain_crates :: crates where
  "plain_crates = \<lparr> psl_domain = (\<lambda>_. None), psl_suffix = (\<lambda>_. None), host_parse = (\<lambda>_. None), url_parse = (\<lambda>_. None) \<rparr>"

definition example_lock :: site_lock where
  "example_lock = SiteTuple (the (site_for_origin plain_crates example_origin))"

lemma example_key: "authorized_key plain_crates 1 1 (STuple example_origin) (example_manager example_lock) = Some example_origin"
  by (simp add: authorized_key_def live_assignment_def resolve_def example_manager_def hosted_by_def example_assignment_def
      lock_storage_key_def authorize_origin_def allows_origin_def example_lock_def site_for_origin_def origin_site_tuple_def
      example_origin_def site_scheme_def storage_key_from_origin_def)

theorem renderer_isolation_witness:
  "authorized_key plain_crates 1 1 (STuple example_origin) (example_manager example_lock) = Some example_origin \<and>
   (\<exists>q locked. m_procs (example_manager example_lock) 1 = Some q \<and> rh_site q = Some (SiteTuple locked) \<and>
      site_for_origin plain_crates example_origin = Some locked)"
proof -
  have small: "(5 :: nat) < 2 ^ 63" by simp
  show ?thesis using renderer_isolation[OF example_reach small example_key] example_key by blast
qed

text \<open>
  \<^bold>\<open>C6.\<close> Safe shutdown. A document that is still held keeps its process: the process exists, is
  locked to the document's site, and was not stopped by the release loop. A process counts
  exactly its assignments whose drop has not reached the count, so the loop stops only
  processes without documents, and those never get one again.
\<close>

theorem held_document_keeps_process:
  assumes "mgr_reach limit n s" "n < 2 ^ 63"
  shows "(\<forall>i a. m_assigned s i = Some (a, Held) \<longrightarrow>
      a_process a \<notin> m_stopped s \<and> (\<exists>q. m_procs s (a_process a) = Some q \<and> rh_site q = Some (a_site a) \<and> 0 < rh_assignments q)) \<and>
    (\<forall>p q. m_procs s p = Some q \<longrightarrow> rh_assignments q = card (counted (m_assigned s) p)) \<and>
    (\<forall>op t i a. mgr_apply op s = Some t \<and> m_assigned t i = Some (a, Held) \<and> n + 1 < 2 ^ 63 \<longrightarrow> a_process a \<notin> m_stopped s)"
proof -
  have inv: "mgr_inv limit s" using mgr_reach_inv[OF assms] by simp
  note parts = mgr_invD[OF inv]
  have count: "rh_assignments q = card (counted (m_assigned s) p)" if "m_procs s p = Some q" for p q
    using parts(2) that by (simp add: counts_ok_def)
  have "0 < rh_assignments q" if "m_assigned s i = Some (a, Held)" "m_procs s (a_process a) = Some q" for i a q
  proof -
    have "i \<in> counted (m_assigned s) (a_process a)" using that(1) by (auto simp: counted_def)
    moreover have "finite (counted (m_assigned s) (a_process a))"
      using parts(2) by (intro finite_counted) (simp add: counts_ok_def)
    ultimately show ?thesis using count[OF that(2)] by (metis card_gt_0_iff empty_iff)
  qed
  moreover have "a_process a \<notin> m_stopped s"
    if "mgr_apply op s = Some t" "m_assigned t i = Some (a, Held)" "n + 1 < 2 ^ 63" for op t i a
  proof -
    have "mgr_inv limit t" using mgr_reach_inv[OF reach_step[OF assms(1) that(1)]] that(3) by simp
    then have "a_process a \<notin> m_stopped t" using held_hosted(3) that(2) by blast
    moreover have "m_stopped s \<subseteq> m_stopped t" using stopped_mono[OF that(1)] .
    ultimately show ?thesis by blast
  qed
  ultimately show ?thesis using held_hosted(2,3)[OF inv] count by blast
qed

theorem held_document_keeps_process_witness:
  "m_assigned (example_manager example_lock) 1 = Some (example_assignment example_lock, Held) \<and>
   (\<exists>q. m_procs (example_manager example_lock) 1 = Some q \<and> 0 < rh_assignments q)"
proof -
  have small: "(5 :: nat) < 2 ^ 63" by simp
  have a: "m_assigned (example_manager example_lock) 1 = Some (example_assignment example_lock, Held)"
    by (simp add: example_manager_def)
  have "a_process (example_assignment example_lock) = 1" by (simp add: example_assignment_def)
  then show ?thesis using held_document_keeps_process[OF example_reach small, of example_lock] a by metis
qed

text \<open>
  \<^bold>\<open>C32.\<close> The process budget. At every moment the processes that exist, the spawns under way and the
  free slots add up to the limit; there is at most one spare, it belongs to no site, and it is
  never being replaced while it is there.
\<close>

theorem process_budget:
  assumes "mgr_reach limit n s" "n < 2 ^ 63"
  shows "finite (dom (m_procs s)) \<and>
    m_slots s + card (dom (m_procs s)) + length (spawning_ids (m_fill s) (m_acquiring s)) = limit \<and>
    (\<forall>p. m_spare s = Some p \<longrightarrow>
       m_fill s = FillIdle \<and> (\<exists>q. m_procs s p = Some q \<and> rh_site q = None \<and> rh_assignments q = 0))"
proof -
  have inv: "mgr_inv limit s" using mgr_reach_inv[OF assms] by simp
  note parts = mgr_invD[OF inv]
  have dom: "dom (locks_of (m_procs s)) = dom (m_procs s)" by (auto simp: locks_of_def)
  have "m_fill s = FillIdle \<and> (\<exists>q. m_procs s p = Some q \<and> rh_site q = None \<and> rh_assignments q = 0)"
    if "m_spare s = Some p" for p
  proof -
    have un: "locks_of (m_procs s) p = Some None" and f: "m_fill s = FillIdle"
      using parts(4) that by (auto simp: spare_ok_def)
    then obtain q where q: "m_procs s p = Some q" "rh_site q = None" by (auto simp: locks_of_Some)
    have "counted (m_assigned s) p = {}" using parts(1) un by (fastforce simp: hosts_ok_def counted_def)
    then have "rh_assignments q = 0" using parts(2) q(1) by (simp add: counts_ok_def)
    then show ?thesis using q f by blast
  qed
  then show ?thesis using parts(8) by (simp add: slots_ok_def dom)
qed

theorem process_budget_witness:
  "m_slots (example_manager example_lock) = 1 \<and> card (dom (m_procs (example_manager example_lock))) = 1 \<and>
   m_slots (example_manager example_lock) + card (dom (m_procs (example_manager example_lock))) +
     length (spawning_ids (m_fill (example_manager example_lock)) (m_acquiring (example_manager example_lock))) = 2"
proof -
  have small: "(5 :: nat) < 2 ^ 63" by simp
  have "m_slots (example_manager example_lock) = 1" "card (dom (m_procs (example_manager example_lock))) = 1"
    by (simp_all add: example_manager_def)
  then show ?thesis using process_budget[OF example_reach small, of example_lock] by blast
qed

text \<open>
  The answer to every renderer call. A call for a document the caller hosts reaches it. A call
  for a document that was assigned and whose drop has begun is answered as released, at every
  stage of the drop; a call for an identity never assigned is a violation. A call for a
  document held by another process never reaches it, and is a violation unless a higher
  identity was already released.
\<close>

theorem renderer_call_answer:
  assumes "mgr_reach limit n s" "n < 2 ^ 63"
  shows "fst (live_assignment p i s) =
    (case m_assigned s i of
       Some (a, Held) \<Rightarrow>
         if a_process a = p then Inr (Some a)
         else if i \<le> r_max_released s then Inr None else Inl RendererViolation
     | _ \<Rightarrow> if 0 < i \<and> i < r_next s then Inr None else Inl RendererViolation)"
proof -
  have inv: "mgr_inv limit s" using mgr_reach_inv[OF assms] by simp
  show ?thesis
  proof (cases "\<exists>a. m_assigned s i = Some (a, Held)")
    case True
    then obtain a where a: "m_assigned s i = Some (a, Held)" by blast
    have "0 < i" using registry_bounds(1)[OF mgr_invD(6)[OF inv] a] by simp
    then show ?thesis using a held_hosted(1)[OF inv a]
      by (simp add: live_assignment_def resolve_def hosted_by_def was_released_def)
  next
    case False
    then have "fst (live_assignment p i s) = (if 0 < i \<and> i < r_next s then Inr None else Inl RendererViolation)"
      using live_assignment_gone[OF inv] by blast
    then show ?thesis by (simp only: not_held_case[OF False])
  qed
qed

theorem renderer_call_answer_witness:
  "fst (live_assignment 1 1 (example_manager example_lock)) = Inr (Some (example_assignment example_lock)) \<and>
   fst (live_assignment 1 2 (example_manager example_lock)) = Inl RendererViolation"
proof -
  have small: "(5 :: nat) < 2 ^ 63" by simp
  note call = renderer_call_answer[OF example_reach small, of _ _ example_lock]
  show ?thesis unfolding call by (simp add: example_manager_def example_assignment_def)
qed

text \<open>
  The process an acquisition picks: the spare, a process it spawns, or a live process of the
  site. The registry is untouched until the assignment is recorded.
\<close>

definition can_host :: "bool \<Rightarrow> site_lock \<Rightarrow> manager \<Rightarrow> bool" where
  "can_host spawn_ok l s \<longleftrightarrow> m_spare s \<noteq> None \<or> 0 < m_slots s \<and> spawn_ok \<or>
     m_slots s = 0 \<and> (\<exists>p q. m_procs s p = Some q \<and> rh_site q = Some l \<and> rh_alive q \<and> p \<notin> m_stopped s)"

definition document_count :: "manager \<Rightarrow> nat \<Rightarrow> nat" where
  "document_count s p = (case m_procs s p of Some q \<Rightarrow> rh_assignments q | None \<Rightarrow> 0)"

definition same_registry :: "manager \<Rightarrow> manager \<Rightarrow> bool" where
  "same_registry s t \<longleftrightarrow> m_assigned t = m_assigned s \<and> r_live t = r_live s \<and> document_count t = document_count s"

lemma reuse_live:
  assumes inv: "mgr_inv limit s" and listed: "listed_except None s"
  shows "fst (reuse_process l s) \<noteq> None \<longleftrightarrow>
    (\<exists>p q. m_procs s p = Some q \<and> rh_site q = Some l \<and> rh_alive q \<and> p \<notin> m_stopped s)"
proof
  assume "fst (reuse_process l s) \<noteq> None"
  then obtain p ps where ps: "m_sites s l = Some ps" "p \<in> set ps" "is_alive s p" "upgrade s p"
    by (cases "m_sites s l") (auto simp: reuse_process_def Let_def find_None_iff)
  then show "\<exists>p q. m_procs s p = Some q \<and> rh_site q = Some l \<and> rh_alive q \<and> p \<notin> m_stopped s"
    using mgr_invD(3)[OF inv] unfolding sites_ok_def is_alive_def locks_of_def
    by (cases "m_procs s p") fastforce+
next
  assume "\<exists>p q. m_procs s p = Some q \<and> rh_site q = Some l \<and> rh_alive q \<and> p \<notin> m_stopped s"
  then obtain p q where p: "m_procs s p = Some q" "rh_site q = Some l" "rh_alive q" "p \<notin> m_stopped s" by blast
  then obtain ps where ps: "m_sites s l = Some ps" "p \<in> set ps" using listed unfolding listed_except_def by blast
  have "p \<in> set (filter (is_alive s) ps)" "upgrade s p" using p ps by (simp_all add: is_alive_def upgrade_def)
  then have "find (upgrade s) (filter (is_alive s) ps) \<noteq> None" unfolding find_None_iff by blast
  then show "fst (reuse_process l s) \<noteq> None" using ps(1) by (simp add: reuse_process_def Let_def)
qed

lemma acquire_picks:
  assumes inv: "mgr_inv limit s" and listed: "listed_except None s" and idle: "m_acquiring s = None"
  shows "\<exists>picked u. acquire spawn_ok notified tab l s = acquire_notify notified (host_assignment picked tab l u) \<and>
    (picked \<noteq> None \<longleftrightarrow> can_host spawn_ok l s) \<and> (\<forall>p. picked = Some p \<longrightarrow> locks_of (m_procs u) p = Some (Some l)) \<and>
    same_registry s u \<and> r_next u = r_next s \<and> r_releases u = r_releases s"
proof (cases "m_spare s")
  case (Some p)
  have un: "locks_of (m_procs s) p = Some None" using mgr_invD(4)[OF inv] Some by (simp add: spare_ok_def)
  then obtain q where q: "m_procs s p = Some q" "rh_site q = None" by (auto simp: locks_of_Some)
  define u where "u = s\<lparr>m_spare := None, m_procs := (m_procs s)(p \<mapsto> q\<lparr>rh_site := Some l\<rparr>)\<rparr>"
  have r: "acquire_reserved tab l s = host_assignment (Some p) tab l u"
    using Some q by (simp add: acquire_reserved_def take_spare_def bind_site_def u_def)
  have "acquire_spawned spawn_ok (snd (host_assignment (Some p) tab l u)) = None"
    using idle by (simp add: acquire_spawned_def host_assignment_def reserve_def list_process_def u_def Let_def)
  then show ?thesis using Some q
    by (intro exI[of _ "Some p"] exI[of _ u])
      (auto simp: acquire_def r can_host_def same_registry_def document_count_def u_def locks_of_def)
next
  case None
  show ?thesis
  proof (cases "m_slots s")
    case 0
    obtain picked u where r: "reuse_process l s = (picked, u)"
      "\<forall>p. picked = Some p \<longrightarrow> locks_of (m_procs u) p = Some (Some l)" using inv_reuse[OF inv] by blast
    have u: "u = s\<lparr>m_sites := m_sites u\<rparr>" using r(1) by (auto simp: reuse_process_def Let_def)
    have a: "acquire_reserved tab l s = host_assignment picked tab l u"
      using None 0 r(1) by (simp add: acquire_reserved_def take_slot_def)
    have "m_acquiring u = None" using arg_cong[OF u, of m_acquiring] idle by simp
    then have "acquire_spawned spawn_ok (snd (host_assignment picked tab l u)) = None"
      by (simp add: acquire_spawned_def host_assignment_def reserve_def list_process_def Let_def split: option.split)
    moreover have "picked \<noteq> None \<longleftrightarrow> can_host spawn_ok l s"
      using reuse_live[OF inv listed, of l] r(1) None 0 by (simp add: can_host_def)
    moreover have "same_registry s u" "r_next u = r_next s" "r_releases u = r_releases s"
      using arg_cong[OF u, of m_assigned] arg_cong[OF u, of r_live] arg_cong[OF u, of m_procs] arg_cong[OF u, of r_next]
        arg_cong[OF u, of r_releases] by (simp_all add: same_registry_def document_count_def fun_eq_iff)
    ultimately show ?thesis using r(2) by (intro exI[of _ picked] exI[of _ u]) (simp add: acquire_def a)
  next
    case (Suc k)
    define p where "p = m_next s"
    define u where "u = spawn_process spawn_ok p (Some l) (s\<lparr>m_slots := k, m_next := u64_succ (m_next s), m_acquiring := None\<rparr>)"
    have r: "acquire spawn_ok notified tab l s = acquire_notify notified (host_assignment (if spawn_ok then Some p else None) tab l u)"
      using None Suc idle by (simp add: acquire_def acquire_reserved_def take_slot_def acquire_spawned_def u_def p_def Let_def)
    have "locks_of (m_procs s) p = None"
      using mgr_invD(7)[OF inv] unfolding fresh_ok_def p_def by (meson domIff less_irrefl)
    then have "same_registry s u" by (auto simp: same_registry_def document_count_def u_def spawn_process_def locks_of_def)
    then show ?thesis using None Suc
      by (intro exI[of _ "if spawn_ok then Some p else None"] exI[of _ u])
        (auto simp: r can_host_def u_def spawn_process_def locks_of_def)
  qed
qed

text \<open>Recording an assignment and dropping it at once leaves the registry as it was, and one notice.\<close>

lemma host_recorded:
  assumes "host_assignment (Some p) tab l u = (r, v)" "locks_of (m_procs u) p = Some (Some l)"
  shows "r = Some (r_next u)" "r_next u \<in> r_live v"
    "m_assigned v (r_next u) = Some (\<lparr> a_process = p, a_tab = tab, a_site = l \<rparr>, Held)"
    "\<exists>q. m_procs v p = Some q \<and> rh_site q = Some l"
  using assms by (auto simp: host_assignment_def reserve_def list_process_def Let_def locks_of_Some)

lemma drop_assignment_recorded:
  assumes "m_assigned v i = Some (a, Held)" "m_procs v (a_process a) = Some q"
  shows "drop_assignment i v = v\<lparr>m_assigned := (m_assigned v)(i := None), r_live := r_live v - {i},
    r_max_released := max (r_max_released v) i, r_releases := r_releases v @ [a_process a],
    m_procs := (m_procs v)(a_process a \<mapsto> q\<lparr>rh_assignments := rh_assignments q - 1\<rparr>)\<rparr>"
proof -
  define f where "f = (\<lambda>s. case drop_step i s of Some t \<Rightarrow> t | None \<Rightarrow> s)"
  define v1 where "v1 = v\<lparr>m_assigned := (m_assigned v)(i \<mapsto> (a, Dropping))\<rparr>"
  define v2 where "v2 = v\<lparr>m_assigned := (m_assigned v)(i \<mapsto> (a, Noted)), r_max_released := max (r_max_released v) i\<rparr>"
  define v3 where "v3 = v2\<lparr>r_live := r_live v - {i}, m_assigned := (m_assigned v)(i \<mapsto> (a, Unlisted))\<rparr>"
  define v4 where "v4 = v3\<lparr>m_assigned := (m_assigned v)(i \<mapsto> (a, Counted)),
    m_procs := (m_procs v)(a_process a \<mapsto> q\<lparr>rh_assignments := rh_assignments q - 1\<rparr>)\<rparr>"
  have "f v = v1" using assms(1) by (simp add: f_def drop_step_def v1_def)
  moreover have "f v1 = v2" by (simp add: f_def drop_step_def note_released_def v1_def v2_def)
  moreover have "f v2 = v3" by (simp add: f_def drop_step_def v2_def v3_def)
  moreover have "f v3 = v4" using assms(2) by (simp add: f_def drop_step_def v2_def v3_def v4_def)
  moreover have "drop_assignment i v = f (f (f (f (f v))))"
    by (simp add: drop_assignment_def f_def[symmetric] numeral_eq_Suc)
  ultimately have "drop_assignment i v = f v4" by (simp only:)
  then show ?thesis by (simp add: f_def drop_step_def v2_def v3_def v4_def)
qed

lemma host_dropped:
  assumes r: "host_assignment (Some p) tab l u = (r, v)" and lock: "locks_of (m_procs u) p = Some (Some l)"
    and new: "m_assigned u (r_next u) = None" "r_next u \<notin> r_live u"
  shows "same_registry u (drop_assignment (r_next u) v)" "r_releases (drop_assignment (r_next u) v) = r_releases u @ [p]"
proof -
  obtain q where q: "m_procs u p = Some q" using lock by (auto simp: locks_of_Some)
  have v: "m_assigned v = (m_assigned u)(r_next u \<mapsto> (\<lparr> a_process = p, a_tab = tab, a_site = l \<rparr>, Held))"
    "m_procs v = (m_procs u)(p \<mapsto> q\<lparr>rh_assignments := rh_assignments q + 1\<rparr>)"
    "r_live v = insert (r_next u) (r_live u)" "r_releases v = r_releases u"
    using r q by (auto simp: host_assignment_def reserve_def list_process_def Let_def)
  note d = drop_assignment_recorded[of v "r_next u" "\<lparr> a_process = p, a_tab = tab, a_site = l \<rparr>"
      "q\<lparr>rh_assignments := rh_assignments q + 1\<rparr>"]
  show "r_releases (drop_assignment (r_next u) v) = r_releases u @ [p]" using v by (simp add: d)
  show "same_registry u (drop_assignment (r_next u) v)" using v new q
    by (auto simp: d same_registry_def document_count_def)
qed

text \<open>
  \<^bold>\<open>C31.\<close> Hosting a document, with no other task in between and the state lock free. The
  acquisition returns an assignment exactly when a process can be found (a spare is ready, or
  the budget has a slot and the spawn succeeds, or the budget is spent and a live process of
  the site exists that the release loop has not decided to stop) and the \<open>Assign\<close> notice is
  delivered to it. The assignment then has the next identity, is held and live, and its process is
  locked to the site. Otherwise the acquisition fails and leaves no trace in the registry: the same
  documents are assigned and every process counts as many as before; when only the notice
  failed, one release notice asks the manager to look at the process again.
\<close>

theorem acquire_succeeds:
  assumes "mgr_reach limit n s" "n < 2 ^ 63" "m_acquiring s = None"
  shows "\<exists>r t. acquire spawn_ok notified tab l s = (r, t) \<and> (r \<noteq> None \<longleftrightarrow> notified \<and> can_host spawn_ok l s) \<and>
    (\<forall>i. r = Some i \<longrightarrow> i = r_next s \<and> i \<in> r_live t \<and> (\<exists>p q.
       m_assigned t i = Some (\<lparr> a_process = p, a_tab = tab, a_site = l \<rparr>, Held) \<and> m_procs t p = Some q \<and> rh_site q = Some l)) \<and>
    (r = None \<longrightarrow> same_registry s t \<and> (can_host spawn_ok l s \<longrightarrow> (\<exists>p. r_releases t = r_releases s @ [p])))"
proof -
  have inv: "mgr_inv limit s" using mgr_reach_inv[OF assms(1,2)] by simp
  obtain picked u where u: "acquire spawn_ok notified tab l s = acquire_notify notified (host_assignment picked tab l u)"
    "picked \<noteq> None \<longleftrightarrow> can_host spawn_ok l s" "\<forall>p. picked = Some p \<longrightarrow> locks_of (m_procs u) p = Some (Some l)"
    "same_registry s u" "r_next u = r_next s" "r_releases u = r_releases s"
    using acquire_picks[OF inv mgr_reach_listed[OF assms(1,2)] assms(3)] by metis
  show ?thesis
  proof (cases picked)
    case None
    then have "acquire_notify notified (host_assignment picked tab l u) = (None, u)"
      by (simp add: acquire_notify_def host_assignment_def)
    then show ?thesis using u None by (simp add: same_registry_def)
  next
    case (Some p)
    obtain r v where h: "host_assignment (Some p) tab l u = (r, v)" by fastforce
    have lock: "locks_of (m_procs u) p = Some (Some l)" using u(3) Some by simp
    note rec = host_recorded[OF h lock]
    have "r_next s \<notin> dom (m_assigned s)" "r_next s \<notin> r_live s"
      using mgr_invD(6)[OF inv] unfolding registry_ok_def by blast+
    then have new: "m_assigned u (r_next u) = None" "r_next u \<notin> r_live u" using u(4,5) by (auto simp: same_registry_def)
    note gone = host_dropped[OF h lock new]
    have can: "can_host spawn_ok l s" using u(2) Some by simp
    show ?thesis
    proof (cases notified)
      case True
      then show ?thesis using u(1,5) Some h rec can by (auto simp: acquire_notify_def)
    next
      case False
      then show ?thesis using u(1,4,6) Some h rec can gone by (auto simp: acquire_notify_def same_registry_def)
    qed
  qed
qed

theorem acquire_succeeds_witness:
  "m_spare (the (mgr_ops (take 4 (example_ops example_lock)) (manager_new 2))) = Some 1 \<and>
   (\<exists>t. acquire False True 9 example_lock (the (mgr_ops (take 4 (example_ops example_lock)) (manager_new 2))) = (Some 1, t)) \<and>
   fst (acquire False False 9 example_lock (the (mgr_ops (take 4 (example_ops example_lock)) (manager_new 2)))) = None"
proof -
  let ?ops = "take 4 (example_ops example_lock)"
  obtain s where s: "mgr_ops ?ops (manager_new 2) = Some s" "m_spare s = Some 1" "m_acquiring s = None" "r_next s = 1"
    by (simp add: example_ops_def mgr_ops_Cons mgr_ops_Nil mgr_apply_def manager_new_def fill_begin_def fill_take_slot_def
        take_slot_def u64_succ_def fill_spawned_def spawn_process_def fill_store_def)
  have r: "mgr_reach 2 4 s" using mgr_ops_reach[OF reach_new s(1)] by (simp add: example_ops_def numeral_eq_Suc)
  have small: "(4 :: nat) < 2 ^ 63" by simp
  have can: "can_host False example_lock s" using s(2) by (simp add: can_host_def)
  note acq = acquire_succeeds[OF r small s(3), of False _ 9 example_lock]
  show ?thesis using acq[of True] acq[of False] can s by force
qed

text \<open>
  With a higher identity released, naming another process's live document is taken for a
  stale call: process 2 asks for document 1 of process 1 after its own document 2 was dropped.
\<close>

lemma foreign_call_not_violation:
  "\<exists>s. mgr_ops (example_ops (SiteOpaque 7) @ [Acquire 8 (SiteOpaque 8), AcquireSpawned True, DropStep 2, DropStep 2])
      (manager_new 2) = Some s \<and>
    m_assigned s 1 = Some (example_assignment (SiteOpaque 7), Held) \<and> fst (live_assignment 2 1 s) = Inr None"
proof -
  have "mgr_ops (example_ops l @ ops) (manager_new 2) = mgr_ops ops (example_manager l)" for l ops
    using example_run[of l] by (simp add: mgr_ops_def)
  then show ?thesis
    by (simp add: mgr_ops_Cons mgr_ops_Nil mgr_apply_def example_manager_def acquire_reserved_def take_slot_def u64_succ_def
        acquire_spawned_def spawn_process_def host_assignment_def list_process_def reserve_def drop_step_def note_released_def
        live_assignment_def resolve_def hosted_by_def was_released_def example_assignment_def)
qed

end
