(* ===== verification/Window_Features.thy ===== *)
theory Window_Features
  imports Site_Identity
begin

text \<open>
  \<open>crates/renderer/src/window_features.rs\<close>: the \<open>features\<close> argument of \<open>window.open\<close> and what it
  does to the opener. The byte position of the tokenizer is the rest of the text.
\<close>

datatype opener_policy = Keep | NoOpener | NoReferrer

definition ascii_whitespace :: "char \<Rightarrow> bool" where
  "ascii_whitespace c = (byte c \<in> set [9, 10, 12, 13, 32])"

definition is_separator :: "char \<Rightarrow> bool" where
  "is_separator c = (ascii_whitespace c \<or> c = CHR ''='' \<or> c = CHR '','')"

definition parse_boolean :: "string \<Rightarrow> bool" where
  "parse_boolean v =
     (if v = [] \<or> eq_ignore_ascii_case v ''yes'' \<or> eq_ignore_ascii_case v ''true'' then True
      else
        (let digits = dropWhile ascii_whitespace v;
             digits = (case digits of c # cs \<Rightarrow> if c = CHR ''+'' \<or> c = CHR ''-'' then cs else digits | [] \<Rightarrow> digits)
         in list_ex (\<lambda>d. d \<noteq> CHR ''0'') (takeWhile is_ascii_digit digits)))"

record window_features =
  wf_noopener :: bool
  wf_noreferrer :: bool

definition features_default :: window_features where
  "features_default = \<lparr> wf_noopener = False, wf_noreferrer = False \<rparr>"

text \<open>One turn of the tokenizer: the name, the value, and the rest of the text.\<close>

definition feature_token :: "string \<Rightarrow> string \<times> string \<times> string" where
  "feature_token s =
     (let s = dropWhile is_separator s;
          name = takeWhile (\<lambda>c. \<not> is_separator c) s;
          s = dropWhile (\<lambda>c. \<not> is_separator c) s;
          s = dropWhile (\<lambda>c. c \<noteq> CHR ''='' \<and> c \<noteq> CHR '','' \<and> is_separator c) s
      in if s \<noteq> [] \<and> is_separator (hd s)
         then (let s = dropWhile (\<lambda>c. is_separator c \<and> c \<noteq> CHR '','') s
               in (name, takeWhile (\<lambda>c. \<not> is_separator c) s, dropWhile (\<lambda>c. \<not> is_separator c) s))
         else (name, [], s))"

definition set_feature :: "string \<Rightarrow> string \<Rightarrow> window_features \<Rightarrow> window_features" where
  "set_feature name v parsed =
     (if name = [] then parsed
      else if eq_ignore_ascii_case name ''noopener'' then parsed\<lparr>wf_noopener := parse_boolean v\<rparr>
      else if eq_ignore_ascii_case name ''noreferrer'' then parsed\<lparr>wf_noreferrer := parse_boolean v\<rparr>
      else parsed)"

lemma dropWhile_le: "length (dropWhile P xs) \<le> length xs"
  by (induction xs) auto

text \<open>Every turn consumes: a separator, or a name.\<close>

lemma feature_token_consumes:
  assumes "s \<noteq> []" "feature_token s = (name, v, rest)"
  shows "length rest < length s"
proof -
  define a where "a = dropWhile is_separator s"
  define b where "b = dropWhile (\<lambda>c. \<not> is_separator c) a"
  define c where "c = dropWhile (\<lambda>c. c \<noteq> CHR ''='' \<and> c \<noteq> CHR '','' \<and> is_separator c) b"
  define d where "d = dropWhile (\<lambda>c. is_separator c \<and> c \<noteq> CHR '','') c"
  have "length b < length s"
  proof (cases "is_separator (hd s)")
    case True
    then have "length a < length s" using assms(1) dropWhile_le[of is_separator "tl s"]
      by (cases s) (simp_all add: a_def less_Suc_eq_le)
    then show ?thesis using dropWhile_le[of _ a] unfolding b_def by (metis le_less_trans)
  next
    case False
    then have "a = s" using assms(1) by (cases s) (simp_all add: a_def)
    then show ?thesis using False assms(1) dropWhile_le[of "\<lambda>c. \<not> is_separator c" "tl s"]
      by (cases s) (simp_all add: b_def less_Suc_eq_le)
  qed
  moreover have "length c \<le> length b" "length d \<le> length c" "length (dropWhile (\<lambda>c. \<not> is_separator c) d) \<le> length d"
    unfolding c_def d_def by (rule dropWhile_le)+
  moreover have "rest = c \<or> rest = dropWhile (\<lambda>c. \<not> is_separator c) d"
    using assms(2) unfolding feature_token_def Let_def a_def[symmetric] b_def[symmetric] c_def[symmetric] d_def[symmetric]
    by (auto split: if_splits)
  ultimately show ?thesis by auto
qed

function features_loop :: "string \<Rightarrow> window_features \<Rightarrow> window_features" where
  "features_loop s parsed =
     (if s = [] then parsed
      else (case feature_token s of (name, v, rest) \<Rightarrow> features_loop rest (set_feature name v parsed)))"
  by pat_completeness auto
termination
  by (relation "measure (\<lambda>(s, parsed). length s)") (auto dest!: feature_token_consumes[OF _ sym])

declare features_loop.simps [simp del]

definition parse_features :: "string \<Rightarrow> window_features" where
  "parse_features features = features_loop features features_default"

definition opener_policy_for :: "crates \<Rightarrow> window_features \<Rightarrow> origin option \<Rightarrow> origin \<Rightarrow> opener_policy" where
  "opener_policy_for cx f blob_origin top_level_origin =
     (let blob_severs = (case blob_origin of Some orig \<Rightarrow> \<not> origins_same_site cx orig top_level_origin | None \<Rightarrow> False)
      in if wf_noreferrer f then NoReferrer
         else if blob_severs \<or> wf_noopener f then NoOpener else Keep)"

section \<open>Feature lists\<close>

text \<open>A feature as a page writes it: a name, alone or with a value.\<close>

definition feature_word :: "string \<Rightarrow> bool" where
  "feature_word w = list_all (\<lambda>c. \<not> is_separator c) w"

definition feature_text :: "string \<times> string option \<Rightarrow> string" where
  "feature_text f = (case f of (name, None) \<Rightarrow> name | (name, Some v) \<Rightarrow> name @ CHR ''='' # v)"

definition feature_ok :: "string \<times> string option \<Rightarrow> bool" where
  "feature_ok f = (fst f \<noteq> [] \<and> feature_word (fst f) \<and> (case snd f of None \<Rightarrow> True | Some v \<Rightarrow> feature_word v))"

definition feature_value :: "string \<times> string option \<Rightarrow> string" where
  "feature_value f = (case snd f of None \<Rightarrow> [] | Some v \<Rightarrow> v)"

fun feature_list :: "(string \<times> string option) list \<Rightarrow> string" where
  "feature_list [] = []"
| "feature_list [f] = feature_text f"
| "feature_list (f # fs) = feature_text f @ CHR '','' # feature_list fs"

lemma word_split:
  assumes "feature_word w" "tail = [] \<or> is_separator (hd tail)"
  shows "takeWhile (\<lambda>c. \<not> is_separator c) (w @ tail) = w" "dropWhile (\<lambda>c. \<not> is_separator c) (w @ tail) = tail"
proof -
  have "takeWhile (\<lambda>c. \<not> is_separator c) tail = []" "dropWhile (\<lambda>c. \<not> is_separator c) tail = tail"
    using assms(2) by (cases tail; auto)+
  then show "takeWhile (\<lambda>c. \<not> is_separator c) (w @ tail) = w" "dropWhile (\<lambda>c. \<not> is_separator c) (w @ tail) = tail"
    using assms(1) by (simp_all add: feature_word_def list_all_iff takeWhile_append2 dropWhile_append2)
qed

lemma separators [simp]: "is_separator (CHR ''='')" "is_separator (CHR '','')"
  by (simp_all add: is_separator_def)

lemma feature_token_text:
  assumes "feature_ok f" "list_all is_separator pre" "tail = [] \<or> hd tail = CHR '',''"
  shows "feature_token (pre @ feature_text f @ tail) = (fst f, feature_value f, tail)"
proof -
  obtain name v where f: "f = (name, v)" by (cases f)
  have n: "name \<noteq> []" "feature_word name" and v: "\<And>w. v = Some w \<Longrightarrow> feature_word w"
    using assms(1) by (auto simp: f feature_ok_def)
  define after where "after = (case v of None \<Rightarrow> tail | Some w \<Rightarrow> CHR ''='' # w @ tail)"
  have whole: "feature_text f @ tail = name @ after" by (simp add: f feature_text_def after_def split: option.split)
  have "dropWhile is_separator (pre @ name @ after) = name @ after"
    using assms(2) n by (cases name) (auto simp: list_all_iff feature_word_def dropWhile_append2)
  moreover have "after = [] \<or> is_separator (hd after)" using assms(3) by (auto simp: after_def split: option.split)
  note name = word_split[OF n(2) this]
  have stop: "dropWhile (\<lambda>c. c \<noteq> CHR ''='' \<and> c \<noteq> CHR '','' \<and> is_separator c) after = after"
    using assms(3) by (cases tail) (auto simp: after_def split: option.split)
  have skip: "dropWhile (\<lambda>c. is_separator c \<and> c \<noteq> CHR '','') after = (case v of None \<Rightarrow> tail | Some w \<Rightarrow> w @ tail)"
  proof (cases v)
    case None
    then show ?thesis using assms(3) by (cases tail) (auto simp: after_def)
  next
    case (Some w)
    then show ?thesis using assms(3) v[OF Some] by (cases w; cases tail) (auto simp: after_def feature_word_def)
  qed
  have tail: "tail = [] \<or> is_separator (hd tail)" using assms(3) by auto
  ultimately show ?thesis
    unfolding whole feature_token_def Let_def
    using name stop skip word_split[OF _ tail] word_split[of "[]", OF _ tail] v assms(3)
    by (cases v) (auto simp: f feature_value_def after_def feature_word_def)
qed

lemma features_loop_list:
  assumes "list_all feature_ok fs" "list_all is_separator pre" "fs = [] \<longrightarrow> pre = []"
  shows "features_loop (pre @ feature_list fs) parsed = fold (\<lambda>f. set_feature (fst f) (feature_value f)) fs parsed"
  using assms
proof (induction fs arbitrary: pre parsed rule: feature_list.induct)
  case 1
  then show ?case by (simp add: features_loop.simps)
next
  case (2 f)
  have "pre @ feature_text f \<noteq> []" using 2 by (auto simp: feature_text_def feature_ok_def split: prod.splits option.splits)
  then show ?case using feature_token_text[of f pre "[]"] 2 by (auto simp: features_loop.simps)
next
  case (3 f g fs)
  have "pre @ feature_text f @ CHR '','' # feature_list (g # fs) \<noteq> []" by simp
  moreover have "features_loop (CHR '','' # feature_list (g # fs)) x = fold (\<lambda>f. set_feature (fst f) (feature_value f)) (g # fs) x" for x
    using 3(1)[of "[CHR '','']" x] 3(2) by simp
  ultimately show ?case using feature_token_text[of f pre "CHR '','' # feature_list (g # fs)"] 3(2,3)
    by (subst features_loop.simps) simp
qed

text \<open>The value a list gives a boolean feature: the last one under that name.\<close>

definition last_value :: "string \<Rightarrow> (string \<times> string option) list \<Rightarrow> bool" where
  "last_value name fs =
     (let vs = map feature_value (filter (\<lambda>f. eq_ignore_ascii_case (fst f) name) fs) in vs \<noteq> [] \<and> parse_boolean (last vs))"

lemma fold_features:
  assumes "list_all feature_ok fs"
  shows "fold (\<lambda>f. set_feature (fst f) (feature_value f)) fs features_default =
    \<lparr> wf_noopener = last_value ''noopener'' fs, wf_noreferrer = last_value ''noreferrer'' fs \<rparr>"
  using assms
proof (induction fs rule: rev_induct)
  case Nil
  then show ?case by (simp add: features_default_def last_value_def)
next
  case (snoc f fs)
  have "\<not> (eq_ignore_ascii_case (fst f) ''noopener'' \<and> eq_ignore_ascii_case (fst f) ''noreferrer'')"
    by (simp add: eq_ignore_ascii_case_def to_ascii_lowercase_def ascii_lower_char_def)
  then show ?case using snoc by (auto simp: set_feature_def last_value_def Let_def feature_ok_def)
qed

text \<open>
  A comma-separated feature list gives each boolean feature its last value, whatever the case
  of the names, and the opener policy follows: \<open>noreferrer\<close> alone decides the strongest state, and
  the opener is kept exactly when neither feature nor a cross-site blob severs it.
\<close>

theorem window_open_features:
  assumes "list_all feature_ok fs"
  shows "parse_features (feature_list fs) =
      \<lparr> wf_noopener = last_value ''noopener'' fs, wf_noreferrer = last_value ''noreferrer'' fs \<rparr> \<and>
    opener_policy_for cx (parse_features (feature_list fs)) blob top_origin =
      (if last_value ''noreferrer'' fs then NoReferrer
       else if last_value ''noopener'' fs \<or> (\<exists>orig. blob = Some orig \<and> \<not> origins_same_site cx orig top_origin) then NoOpener
       else Keep)"
proof -
  have "parse_features (feature_list fs) =
      \<lparr> wf_noopener = last_value ''noopener'' fs, wf_noreferrer = last_value ''noreferrer'' fs \<rparr>"
    using features_loop_list[OF assms, of "[]" features_default] fold_features[OF assms] by (simp add: parse_features_def)
  then show ?thesis by (auto simp: opener_policy_for_def split: option.split)
qed

theorem window_open_features_witness:
  "feature_list [(''width'', Some ''100''), (''NoOpener'', Some ''0''), (''noopener'', None)] = ''width=100,NoOpener=0,noopener'' \<and>
   wf_noopener (parse_features ''width=100,NoOpener=0,noopener'')"
proof -
  let ?fs = "[(''width'', Some ''100''), (''NoOpener'', Some ''0''), (''noopener'', None)]"
  have ok: "list_all feature_ok ?fs" "last_value ''noopener'' ?fs" "feature_list ?fs = ''width=100,NoOpener=0,noopener''"
    by code_simp+
  then show ?thesis using window_open_features[OF ok(1)] by simp
qed

end
