(* ===== verification/Mime_Sniff.thy ===== *)
theory Mime_Sniff
  imports Http_Headers
begin

unbundle bit_operations_syntax

text \<open>
  \<open>crates/renderer/src/sniff.rs\<close>: MIME types, their parser and serializer, and the computed type of
  a response. Strings are their UTF-8 bytes; the characters the code inspects are ASCII, except
  in \<open>is_http_quoted_string_token\<close>, whose range U+0080 to U+00FF is the lead bytes C2 and C3 with
  their continuation bytes. The encoding sniffers at the head of the file, which answer values
  of \<open>encoding_rs\<close>, are not modelled.
\<close>

section \<open>Characters\<close>

definition is_binary_byte :: "char \<Rightarrow> bool" where
  "is_binary_byte c =
     (byte c \<le> 0x08 \<or> byte c = 0x0B \<or> (0x0E \<le> byte c \<and> byte c \<le> 0x1A) \<or> (0x1C \<le> byte c \<and> byte c \<le> 0x1F))"

definition is_whitespace_byte :: "char \<Rightarrow> bool" where
  "is_whitespace_byte c = (byte c \<in> set [0x09, 0x0A, 0x0C, 0x0D, 0x20])"

definition is_tag_terminating :: "char \<Rightarrow> bool" where
  "is_tag_terminating c = (byte c \<in> set [0x20, 0x3E])"

definition is_http_whitespace :: "char \<Rightarrow> bool" where
  "is_http_whitespace c = (byte c \<in> set [9, 10, 13, 32])"

definition trim_end_ws :: "string \<Rightarrow> string" where
  "trim_end_ws s = rev (dropWhile is_http_whitespace (rev s))"

definition trim_http_ws :: "string \<Rightarrow> string" where
  "trim_http_ws s = trim_end_ws (dropWhile is_http_whitespace s)"

definition is_http_token_char :: "char \<Rightarrow> bool" where
  "is_http_token_char c =
     ((48 \<le> byte c \<and> byte c \<le> 57) \<or> (65 \<le> byte c \<and> byte c \<le> 90) \<or> (97 \<le> byte c \<and> byte c \<le> 122) \<or>
      byte c \<in> set [33, 35, 36, 37, 38, 39, 42, 43, 45, 46, 94, 95, 96, 124, 126])"

definition is_http_token :: "string \<Rightarrow> bool" where
  "is_http_token s = (s \<noteq> [] \<and> list_all is_http_token_char s)"

definition is_http_quoted_string_token :: "char \<Rightarrow> bool" where
  "is_http_quoted_string_token c =
     (byte c = 9 \<or> (0x20 \<le> byte c \<and> byte c \<le> 0x7E) \<or> (0x80 \<le> byte c \<and> byte c \<le> 0xBF) \<or> byte c \<in> set [0xC2, 0xC3])"

section \<open>MIME types\<close>

record mime_type =
  mt_essence :: string
  mt_parameters :: "(string \<times> string) list"

definition mime_html :: "mime_type \<Rightarrow> bool" where
  "mime_html m = (mt_essence m = ''text/html'')"

definition mime_xml :: "mime_type \<Rightarrow> bool" where
  "mime_xml m =
     (let subtype = (case split_once (CHR ''/'') (mt_essence m) of Some (_, s) \<Rightarrow> s | None \<Rightarrow> [])
      in subtype = ''xml'' \<or> ends_with subtype ''+xml'')"

definition mime_image :: "mime_type \<Rightarrow> bool" where
  "mime_image m = starts_with (mt_essence m) ''image/''"

definition mime_av :: "mime_type \<Rightarrow> bool" where
  "mime_av m =
     (starts_with (mt_essence m) ''audio/'' \<or> starts_with (mt_essence m) ''video/'' \<or> mt_essence m = ''application/ogg'')"

fun escape_quoted :: "string \<Rightarrow> string" where
  "escape_quoted [] = []"
| "escape_quoted (c # cs) = (if c = CHR ''\"'' \<or> c = CHR 92 then CHR 92 # c # escape_quoted cs else c # escape_quoted cs)"

definition parameter_text :: "string \<times> string \<Rightarrow> string" where
  "parameter_text p =
     CHR '';'' # fst p @ CHR ''='' #
     (if snd p = [] \<or> \<not> is_http_token (snd p) then CHR ''\"'' # escape_quoted (snd p) @ ''\"'' else snd p)"

definition mime_serialize :: "mime_type \<Rightarrow> string" where
  "mime_serialize m = mt_essence m @ concat (map parameter_text (mt_parameters m))"

text \<open>The unescaped value and the input after the closing quote; the input starts past the opening one.\<close>

fun collect_http_quoted_string :: "string \<Rightarrow> string \<times> string" where
  "collect_http_quoted_string [] = ([], [])"
| "collect_http_quoted_string (c # cs) =
     (if c = CHR ''\"'' then ([], cs)
      else if c = CHR 92 then
        (case cs of
           [] \<Rightarrow> ([CHR 92], [])
         | e # cs' \<Rightarrow> (let (v, rest) = collect_http_quoted_string cs' in (e # v, rest)))
      else (let (v, rest) = collect_http_quoted_string cs in (c # v, rest)))"

lemma collect_http_length: "length (snd (collect_http_quoted_string s)) \<le> length s"
proof (induction s rule: collect_http_quoted_string.induct)
  case (2 c cs)
  consider "c = CHR ''\"''" | "c = CHR 92" "cs = []" | e cs' where "c = CHR 92" "cs = e # cs'"
    | "c \<noteq> CHR ''\"''" "c \<noteq> CHR 92" by (cases cs) blast+
  then show ?case using 2 by cases (auto simp: case_prod_unfold Let_def)
qed simp

text \<open>The value of a parameter and the input from the next semicolon on.\<close>

definition parameter_value :: "string \<Rightarrow> string option \<times> string" where
  "parameter_value s =
     (if hd s = CHR ''\"''
      then (let (v, rest) = collect_http_quoted_string (tl s) in (Some v, dropWhile (\<lambda>c. c \<noteq> CHR '';'') rest))
      else (let v = trim_end_ws (takeWhile (\<lambda>c. c \<noteq> CHR '';'') s)
            in (if v = [] then None else Some v, dropWhile (\<lambda>c. c \<noteq> CHR '';'') s)))"

definition add_parameter :: "string \<Rightarrow> string \<Rightarrow> (string \<times> string) list \<Rightarrow> (string \<times> string) list" where
  "add_parameter name v ps =
     (if name \<noteq> [] \<and> is_http_token name \<and> list_all is_http_quoted_string_token v \<and> name \<notin> fst ` set ps
      then ps @ [(name, if name = ''charset'' then to_ascii_lowercase v else v)] else ps)"

lemma dropWhile_shorter: "length (dropWhile P xs) \<le> length xs"
  by (induction xs) auto

lemma parameter_value_length: "length (snd (parameter_value s)) \<le> length s"
proof (cases "s \<noteq> [] \<and> hd s = CHR ''\"''")
  case True
  then show ?thesis
    using collect_http_length[of "tl s"] dropWhile_shorter[of "\<lambda>c. c \<noteq> CHR '';''" "snd (collect_http_quoted_string (tl s))"]
    by (cases s) (auto simp: parameter_value_def case_prod_unfold Let_def)
next
  case False
  then show ?thesis
    using dropWhile_shorter[of "\<lambda>c. c \<noteq> CHR '';''" s] collect_http_length[of "tl s"]
      dropWhile_shorter[of "\<lambda>c. c \<noteq> CHR '';''" "snd (collect_http_quoted_string (tl s))"]
    by (cases s) (auto simp: parameter_value_def case_prod_unfold Let_def)
qed

text \<open>The parameters; the input is empty or starts at a semicolon.\<close>

function parse_parameters :: "string \<Rightarrow> (string \<times> string) list \<Rightarrow> (string \<times> string) list" where
  "parse_parameters [] ps = ps"
| "parse_parameters (c # s) ps =
     (let s = dropWhile is_http_whitespace s;
          name = to_ascii_lowercase (takeWhile (\<lambda>c. c \<noteq> CHR '';'' \<and> c \<noteq> CHR ''='') s);
          rest = dropWhile (\<lambda>c. c \<noteq> CHR '';'' \<and> c \<noteq> CHR ''='') s
      in if rest = [] then ps
         else if hd rest = CHR '';'' then parse_parameters rest ps
         else if tl rest = [] then ps
         else (case parameter_value (tl rest) of
                 (None, rest) \<Rightarrow> parse_parameters rest ps
               | (Some v, rest) \<Rightarrow> parse_parameters rest (add_parameter name v ps)))"
  by pat_completeness auto
termination
proof (relation "measure (\<lambda>(s, ps). length s)", goal_cases)
  case (2 c s ps x xa xb)
  then show ?case using dropWhile_shorter[of "\<lambda>c. c \<noteq> CHR '';'' \<and> c \<noteq> CHR ''=''" x] dropWhile_shorter[of is_http_whitespace s]
    by simp
next
  case (3 c s ps x xa xb xc y)
  then have "y = snd (parameter_value (tl xb))" by (metis snd_conv)
  then have "length y \<le> length (tl xb)" by (simp only: parameter_value_length)
  then show ?case using 3 dropWhile_shorter[of "\<lambda>c. c \<noteq> CHR '';'' \<and> c \<noteq> CHR ''=''" x] dropWhile_shorter[of is_http_whitespace s]
    by (cases xb) auto
next
  case (4 c s ps x xa xb xc y z)
  then have "y = snd (parameter_value (tl xb))" by (metis snd_conv)
  then have "length y \<le> length (tl xb)" by (simp only: parameter_value_length)
  then show ?case using 4 dropWhile_shorter[of "\<lambda>c. c \<noteq> CHR '';'' \<and> c \<noteq> CHR ''=''" x] dropWhile_shorter[of is_http_whitespace s]
    by (cases xb) auto
qed simp

definition parse_mime_type :: "string \<Rightarrow> mime_type option" where
  "parse_mime_type input =
     (let s = trim_http_ws input;
          kind = takeWhile (\<lambda>c. c \<noteq> CHR ''/'') s;
          s = dropWhile (\<lambda>c. c \<noteq> CHR ''/'') s
      in if kind = [] \<or> \<not> is_http_token kind \<or> s = [] then None
         else
           (let s = tl s;
                subtype = trim_end_ws (takeWhile (\<lambda>c. c \<noteq> CHR '';'') s);
                s = dropWhile (\<lambda>c. c \<noteq> CHR '';'') s
            in if subtype = [] \<or> \<not> is_http_token subtype then None
               else Some \<lparr> mt_essence = to_ascii_lowercase kind @ CHR ''/'' # to_ascii_lowercase subtype,
                      mt_parameters = parse_parameters s [] \<rparr>))"

definition parse_serialized_mime_type :: "string \<Rightarrow> string" where
  "parse_serialized_mime_type input = (case parse_mime_type input of None \<Rightarrow> [] | Some m \<Rightarrow> mime_serialize m)"

definition mime_type_parts :: "string \<Rightarrow> (string \<times> string) option" where
  "mime_type_parts input =
     (case parse_mime_type input of
        None \<Rightarrow> None
      | Some m \<Rightarrow> Some (mt_essence m,
          (case find (\<lambda>p. fst p = ''boundary'') (mt_parameters m) of Some p \<Rightarrow> snd p | None \<Rightarrow> [])))"

text \<open>The loop of \<open>extract_mime_type\<close>: the type, the essence and the charset so far.\<close>

definition extract_item ::
  "string \<Rightarrow> mime_type option \<times> string option \<times> string option \<Rightarrow> mime_type option \<times> string option \<times> string option" where
  "extract_item item acc =
     (case acc of (mime, essence, charset) \<Rightarrow>
       (case parse_mime_type item of
          None \<Rightarrow> acc
        | Some m \<Rightarrow>
            if mt_essence m = ''*/*'' then acc
            else if essence = Some (mt_essence m)
            then (let m = (case charset of
                             Some v \<Rightarrow> if \<not> list_ex (\<lambda>p. fst p = ''charset'') (mt_parameters m)
                                       then m\<lparr>mt_parameters := mt_parameters m @ [(''charset'', v)]\<rparr> else m
                           | None \<Rightarrow> m)
                  in (Some m, essence, charset))
            else (Some m, Some (mt_essence m), map_option snd (find (\<lambda>p. fst p = ''charset'') (mt_parameters m)))))"

definition extract_mime_type :: "string \<Rightarrow> string option" where
  "extract_mime_type v =
     map_option mime_serialize (fst (fold extract_item (split_header_value v) (None, None, None)))"

section \<open>Patterns\<close>

record mime_row =
  row_pattern :: "nat list"
  row_mask :: "nat list"
  row_whitespace :: bool
  row_terminal :: bool
  row_mime :: string

definition mime_row_of :: "nat list \<Rightarrow> nat list \<Rightarrow> bool \<Rightarrow> bool \<Rightarrow> string \<Rightarrow> mime_row" where
  "mime_row_of pattern msk whitespace terminal mime =
     \<lparr> row_pattern = pattern, row_mask = msk, row_whitespace = whitespace, row_terminal = terminal, row_mime = mime \<rparr>"

definition SCRIPTABLE_ROWS :: "mime_row list" where
  "SCRIPTABLE_ROWS = [
     mime_row_of (map byte ''<!DOCTYPE HTML'') ([0xFF, 0xFF, 0xDF, 0xDF, 0xDF, 0xDF, 0xDF, 0xDF, 0xDF, 0xFF, 0xDF, 0xDF, 0xDF, 0xDF]) True True ''text/html'',
     mime_row_of (map byte ''<HTML'') ([0xFF, 0xDF, 0xDF, 0xDF, 0xDF]) True True ''text/html'',
     mime_row_of (map byte ''<HEAD'') ([0xFF, 0xDF, 0xDF, 0xDF, 0xDF]) True True ''text/html'',
     mime_row_of (map byte ''<SCRIPT'') ([0xFF, 0xDF, 0xDF, 0xDF, 0xDF, 0xDF, 0xDF]) True True ''text/html'',
     mime_row_of (map byte ''<IFRAME'') ([0xFF, 0xDF, 0xDF, 0xDF, 0xDF, 0xDF, 0xDF]) True True ''text/html'',
     mime_row_of (map byte ''<H1'') ([0xFF, 0xDF, 0xFF]) True True ''text/html'',
     mime_row_of (map byte ''<DIV'') ([0xFF, 0xDF, 0xDF, 0xDF]) True True ''text/html'',
     mime_row_of (map byte ''<FONT'') ([0xFF, 0xDF, 0xDF, 0xDF, 0xDF]) True True ''text/html'',
     mime_row_of (map byte ''<TABLE'') ([0xFF, 0xDF, 0xDF, 0xDF, 0xDF, 0xDF]) True True ''text/html'',
     mime_row_of (map byte ''<A'') ([0xFF, 0xDF]) True True ''text/html'',
     mime_row_of (map byte ''<STYLE'') ([0xFF, 0xDF, 0xDF, 0xDF, 0xDF, 0xDF]) True True ''text/html'',
     mime_row_of (map byte ''<TITLE'') ([0xFF, 0xDF, 0xDF, 0xDF, 0xDF, 0xDF]) True True ''text/html'',
     mime_row_of (map byte ''<B'') ([0xFF, 0xDF]) True True ''text/html'',
     mime_row_of (map byte ''<BODY'') ([0xFF, 0xDF, 0xDF, 0xDF, 0xDF]) True True ''text/html'',
     mime_row_of (map byte ''<BR'') ([0xFF, 0xDF, 0xDF]) True True ''text/html'',
     mime_row_of (map byte ''<P'') ([0xFF, 0xDF]) True True ''text/html'',
     mime_row_of (map byte ''<!--'') (replicate 4 0xFF) True True ''text/html'',
     mime_row_of (map byte ''<?xml'') (replicate 5 0xFF) True False ''text/xml'',
     mime_row_of (map byte ''%PDF-'') (replicate 5 0xFF) False False ''application/pdf'']"

definition BINARY_PLAIN_ROWS :: "mime_row list" where
  "BINARY_PLAIN_ROWS = [
     mime_row_of (map byte ''%!PS-Adobe-'') (replicate 11 0xFF) False False ''application/postscript'',
     mime_row_of ([0xFE, 0xFF, 0, 0]) ([0xFF, 0xFF, 0, 0]) False False ''text/plain'',
     mime_row_of ([0xFF, 0xFE, 0, 0]) ([0xFF, 0xFF, 0, 0]) False False ''text/plain'',
     mime_row_of ([0xEF, 0xBB, 0xBF, 0]) ([0xFF, 0xFF, 0xFF, 0]) False False ''text/plain'']"

definition IMAGE_ROWS :: "mime_row list" where
  "IMAGE_ROWS = [
     mime_row_of ([0, 0, 0x01, 0]) (replicate 4 0xFF) False False ''image/x-icon'',
     mime_row_of ([0, 0, 0x02, 0]) (replicate 4 0xFF) False False ''image/x-icon'',
     mime_row_of (map byte ''BM'') (replicate 2 0xFF) False False ''image/bmp'',
     mime_row_of (map byte ''GIF87a'') (replicate 6 0xFF) False False ''image/gif'',
     mime_row_of (map byte ''GIF89a'') (replicate 6 0xFF) False False ''image/gif'',
     mime_row_of ([0x52, 0x49, 0x46, 0x46, 0, 0, 0, 0, 0x57, 0x45, 0x42, 0x50, 0x56, 0x50]) ([0xFF, 0xFF, 0xFF, 0xFF, 0, 0, 0, 0, 0xFF, 0xFF, 0xFF, 0xFF, 0xFF, 0xFF]) False False ''image/webp'',
     mime_row_of ([0x89, 0x50, 0x4E, 0x47, 0x0D, 0x0A, 0x1A, 0x0A]) (replicate 8 0xFF) False False ''image/png'',
     mime_row_of ([0xFF, 0xD8, 0xFF]) (replicate 3 0xFF) False False ''image/jpeg'']"

definition AUDIO_VIDEO_ROWS :: "mime_row list" where
  "AUDIO_VIDEO_ROWS = [
     mime_row_of ([0x46, 0x4F, 0x52, 0x4D, 0, 0, 0, 0, 0x41, 0x49, 0x46, 0x46]) ([0xFF, 0xFF, 0xFF, 0xFF, 0, 0, 0, 0, 0xFF, 0xFF, 0xFF, 0xFF]) False False ''audio/aiff'',
     mime_row_of (map byte ''ID3'') (replicate 3 0xFF) False False ''audio/mpeg'',
     mime_row_of ([0x4F, 0x67, 0x67, 0x53, 0]) (replicate 5 0xFF) False False ''application/ogg'',
     mime_row_of ([0x4D, 0x54, 0x68, 0x64, 0, 0, 0, 0x06]) (replicate 8 0xFF) False False ''audio/midi'',
     mime_row_of ([0x52, 0x49, 0x46, 0x46, 0, 0, 0, 0, 0x41, 0x56, 0x49, 0x20]) ([0xFF, 0xFF, 0xFF, 0xFF, 0, 0, 0, 0, 0xFF, 0xFF, 0xFF, 0xFF]) False False ''video/avi'',
     mime_row_of ([0x52, 0x49, 0x46, 0x46, 0, 0, 0, 0, 0x57, 0x41, 0x56, 0x45]) ([0xFF, 0xFF, 0xFF, 0xFF, 0, 0, 0, 0, 0xFF, 0xFF, 0xFF, 0xFF]) False False ''audio/wave'']"

definition ARCHIVE_ROWS :: "mime_row list" where
  "ARCHIVE_ROWS = [
     mime_row_of ([0x1F, 0x8B, 0x08]) (replicate 3 0xFF) False False ''application/x-gzip'',
     mime_row_of ([0x50, 0x4B, 0x03, 0x04]) (replicate 4 0xFF) False False ''application/zip'',
     mime_row_of ([0x52, 0x61, 0x72, 0x21, 0x1A, 0x07, 0]) (replicate 7 0xFF) False False ''application/x-rar-compressed'']"

text \<open>The input after the pattern.\<close>

fun match_bytes :: "string \<Rightarrow> nat list \<Rightarrow> nat list \<Rightarrow> string option" where
  "match_bytes input [] ms = Some input"
| "match_bytes [] (p # ps) ms = None"
| "match_bytes (b # bs) (p # ps) [] = None"
| "match_bytes (b # bs) (p # ps) (m # ms) = (if byte b AND m \<noteq> p then None else match_bytes bs ps ms)"

definition matches_pattern :: "string \<Rightarrow> nat list \<Rightarrow> nat list \<Rightarrow> bool \<Rightarrow> bool \<Rightarrow> bool" where
  "matches_pattern input pattern msk whitespace terminal =
     (case match_bytes (if whitespace then dropWhile is_whitespace_byte input else input) pattern msk of
        None \<Rightarrow> False
      | Some rest \<Rightarrow> if terminal then rest \<noteq> [] \<and> is_tag_terminating (hd rest) else True)"

definition row_matches :: "string \<Rightarrow> mime_row \<Rightarrow> bool" where
  "row_matches header r = matches_pattern header (row_pattern r) (row_mask r) (row_whitespace r) (row_terminal r)"

definition match_rows :: "string \<Rightarrow> mime_row list \<Rightarrow> string option" where
  "match_rows header rows = map_option row_mime (find (row_matches header) rows)"

section \<open>Signatures\<close>

text \<open>\<open>slice::get\<close> of a range.\<close>

definition slice_get :: "string \<Rightarrow> nat \<Rightarrow> nat \<Rightarrow> string option" where
  "slice_get s i j = (if i \<le> j \<and> j \<le> length s then Some (take (j - i) (drop i s)) else None)"

function mp4_brands :: "string \<Rightarrow> nat \<Rightarrow> nat \<Rightarrow> bool" where
  "mp4_brands s box_size bytes_read =
     (if bytes_read < box_size
      then (if slice_get s bytes_read (bytes_read + 3) = Some ''mp4'' then True else mp4_brands s box_size (bytes_read + 4))
      else False)"
  by pat_completeness auto
termination by (relation "measure (\<lambda>(s, b, n). b - n)") auto

declare mp4_brands.simps [simp del]

definition mp4_signature :: "string \<Rightarrow> bool" where
  "mp4_signature s =
     (if length s < 12 then False
      else
        (let box_size = ((byte (s ! 0) * 256 + byte (s ! 1)) * 256 + byte (s ! 2)) * 256 + byte (s ! 3)
         in if length s < box_size \<or> box_size mod 4 \<noteq> 0 then False
            else if slice_get s 4 8 \<noteq> Some ''ftyp'' then False
            else if slice_get s 8 11 = Some ''mp4'' then True
            else mp4_brands s box_size 16))"

function vint_loop :: "string \<Rightarrow> nat \<Rightarrow> nat \<Rightarrow> nat \<Rightarrow> nat option" where
  "vint_loop s msk number_size index =
     (if number_size < 8 \<and> number_size < length s
      then (case nth_opt s index of
              None \<Rightarrow> None
            | Some b \<Rightarrow> if byte b AND msk \<noteq> 0 then Some number_size
                        else vint_loop s (msk div 2) (number_size + 1) (index + 1))
      else Some number_size)"
  by pat_completeness auto
termination by (relation "measure (\<lambda>(s, m, n, i). 8 - n)") auto

declare vint_loop.simps [simp del]

definition parse_vint :: "string \<Rightarrow> nat \<Rightarrow> nat option" where
  "parse_vint s start = vint_loop s 0x80 1 start"

definition padded_webm :: "string \<Rightarrow> nat \<Rightarrow> bool" where
  "padded_webm s offset =
     (if offset > length s then False
      else starts_with (dropWhile (\<lambda>c. byte c = 0) (drop offset s)) ''webm'')"

function webm_loop :: "string \<Rightarrow> nat \<Rightarrow> bool" where
  "webm_loop s iter =
     (if iter < length s \<and> iter < 38
      then (if slice_get s iter (iter + 2) = Some [char_of (0x42 :: nat), char_of (0x82 :: nat)]
            then (case parse_vint s (iter + 2) of
                    None \<Rightarrow> False
                  | Some number_size \<Rightarrow>
                      (let iter = iter + 2 + number_size
                       in if iter \<ge> length s - 4 then False
                          else if padded_webm s iter then True else webm_loop s (iter + 1)))
            else webm_loop s (iter + 1))
      else False)"
  by pat_completeness auto
termination by (relation "measure (\<lambda>(s, i). length s - i)") auto

declare webm_loop.simps [simp del]

definition webm_signature :: "string \<Rightarrow> bool" where
  "webm_signature s =
     (if slice_get s 0 4 \<noteq> Some (map char_of [0x1A :: nat, 0x45, 0xDF, 0xA3]) then False else webm_loop s 4)"

definition mp3_header :: "string \<Rightarrow> nat \<Rightarrow> bool" where
  "mp3_header s offset =
     (case slice_get s offset (offset + 4) of
        None \<Rightarrow> False
      | Some b \<Rightarrow>
          if byte (b ! 0) \<noteq> 0xFF \<or> byte (b ! 1) AND 0xE0 \<noteq> 0xE0 then False
          else
            (let layer = drop_bit 1 (byte (b ! 1) AND 0x06);
                 bit_rate = drop_bit 4 (byte (b ! 2) AND 0xF0);
                 sample_rate = drop_bit 2 (byte (b ! 2) AND 0x0C)
             in if layer = 0 then False else if bit_rate = 15 then False else if sample_rate = 3 then False
                else 4 - layer = 3))"

definition MP3_RATES :: "nat list" where
  "MP3_RATES = [0, 32000, 40000, 48000, 56000, 64000, 80000, 96000, 112000, 128000, 160000, 192000, 224000, 256000, 320000]"

definition MP25_RATES :: "nat list" where
  "MP25_RATES = [0, 8000, 16000, 24000, 32000, 40000, 48000, 56000, 64000, 80000, 96000, 112000, 128000, 144000, 160000]"

definition SAMPLE_RATES :: "nat list" where
  "SAMPLE_RATES = [44100, 48000, 32000]"

definition mp3_frame_size :: "string \<Rightarrow> nat \<Rightarrow> nat option" where
  "mp3_frame_size s offset =
     (case slice_get s offset (offset + 4) of
        None \<Rightarrow> None
      | Some b \<Rightarrow>
          (let version = drop_bit 3 (byte (b ! 1) AND 0x18);
               bitrate_index = drop_bit 4 (byte (b ! 2) AND 0xF0);
               sample_index = drop_bit 2 (byte (b ! 2) AND 0x0C)
           in case nth_opt (if version AND 0x01 = 0 then MP3_RATES else MP25_RATES) bitrate_index of
                None \<Rightarrow> None
              | Some bitrate \<Rightarrow>
                  (case nth_opt SAMPLE_RATES sample_index of
                     None \<Rightarrow> None
                   | Some rate \<Rightarrow>
                       (let sample_rate = (if version = 2 then rate div 2 else if version = 0 then rate div 4 else rate)
                        in if sample_rate = 0 then None
                           else
                             (let size = bitrate * (if version = 1 then 72 else 144) div sample_rate
                              in Some (if drop_bit 1 (byte (b ! 2) AND 0x02) \<noteq> 0 then size + 1 else size))))))"

definition mp3_signature :: "string \<Rightarrow> bool" where
  "mp3_signature s =
     (if \<not> mp3_header s 0 then False
      else (case mp3_frame_size s 0 of
              None \<Rightarrow> False
            | Some skipped \<Rightarrow> if skipped < 4 \<or> skipped > length s then False else mp3_header s skipped))"

definition match_image :: "string \<Rightarrow> string option" where
  "match_image header = match_rows header IMAGE_ROWS"

definition match_av :: "string \<Rightarrow> string option" where
  "match_av header =
     (case match_rows header AUDIO_VIDEO_ROWS of
        Some m \<Rightarrow> Some m
      | None \<Rightarrow> if mp4_signature header then Some ''video/mp4''
               else if webm_signature header then Some ''video/webm''
               else if mp3_signature header then Some ''audio/mpeg'' else None)"

section \<open>The computed type\<close>

definition supported_image :: "string \<Rightarrow> bool" where
  "supported_image e =
     (e \<in> set [''image/x-icon'', ''image/bmp'', ''image/gif'', ''image/webp'', ''image/png'', ''image/jpeg''])"

definition supported_av :: "string \<Rightarrow> bool" where
  "supported_av e =
     (e \<in> set [''audio/aiff'', ''audio/mpeg'', ''application/ogg'', ''audio/midi'', ''video/avi'', ''audio/wave'',
        ''video/mp4'', ''video/webm''])"

definition identify_unknown :: "string \<Rightarrow> bool \<Rightarrow> string" where
  "identify_unknown header scriptable =
     (case if scriptable then match_rows header SCRIPTABLE_ROWS else None of
        Some found \<Rightarrow> found
      | None \<Rightarrow>
     (case match_rows header BINARY_PLAIN_ROWS of
        Some found \<Rightarrow> found
      | None \<Rightarrow>
     (case match_image header of
        Some found \<Rightarrow> found
      | None \<Rightarrow>
     (case match_av header of
        Some found \<Rightarrow> found
      | None \<Rightarrow>
     (case match_rows header ARCHIVE_ROWS of
        Some found \<Rightarrow> found
      | None \<Rightarrow> if list_ex is_binary_byte header then ''application/octet-stream'' else ''text/plain'')))))"

definition text_or_binary :: "string \<Rightarrow> string" where
  "text_or_binary header =
     (if length header \<ge> 2 \<and>
         (starts_with header (map char_of [0xFE :: nat, 0xFF]) \<or> starts_with header (map char_of [0xFF :: nat, 0xFE]))
      then ''text/plain''
      else if starts_with header (map char_of [0xEF :: nat, 0xBB, 0xBF]) then ''text/plain''
      else if list_ex is_binary_byte header then ''application/octet-stream'' else ''text/plain'')"

definition RESOURCE_HEADER_LEN :: nat where
  "RESOURCE_HEADER_LEN = 1445"

definition sniff_mime :: "string \<Rightarrow> string option \<Rightarrow> bool \<Rightarrow> bool \<Rightarrow> string" where
  "sniff_mime header supplied no_sniff apache_bug =
     (let parsed = Option.bind supplied parse_mime_type;
          given = (case supplied of Some s \<Rightarrow> s | None \<Rightarrow> [])
      in case parsed of
           None \<Rightarrow> identify_unknown header (\<not> no_sniff)
         | Some mime \<Rightarrow>
             if mime_html mime \<or> mime_xml mime then given
             else if mt_essence mime \<in> set [''unknown/unknown'', ''application/unknown'', ''*/*'']
             then identify_unknown header (\<not> no_sniff)
             else if no_sniff then given
             else if apache_bug then text_or_binary header
             else
               (case (if mime_image mime \<and> supported_image (mt_essence mime) then match_image header else None) of
                  Some matched \<Rightarrow> matched
                | None \<Rightarrow>
                    (case (if mime_av mime \<and> supported_av (mt_essence mime) then match_av header else None) of
                       Some matched \<Rightarrow> matched
                     | None \<Rightarrow> given)))"

definition apache_bug_content_type :: "string \<Rightarrow> bool" where
  "apache_bug_content_type v =
     (v \<in> set [''text/plain'', ''text/plain; charset=ISO-8859-1'', ''text/plain; charset=iso-8859-1'', ''text/plain; charset=UTF-8''])"

definition nosniff :: "string \<Rightarrow> bool" where
  "nosniff v = (case split_header_value v of first # _ \<Rightarrow> eq_ignore_ascii_case first ''nosniff'' | [] \<Rightarrow> False)"

definition headers_nosniff :: "(string \<times> string) list \<Rightarrow> bool" where
  "headers_nosniff headers =
     (case combined_header_in headers ''x-content-type-options'' of Some v \<Rightarrow> nosniff v | None \<Rightarrow> False)"

end
