(* ===== verification/Mime_Props.thy ===== *)
theory Mime_Props
  imports Mime_Sniff
begin

text \<open>
  The MIME types of \<open>sniff.rs\<close>: what the parser accepts is what the serializer prints, an extracted
  type is in that canonical form, and sniffing never makes a response markup that its server
  declared to be something else.
\<close>

section \<open>The parser's result\<close>

definition lower_token :: "string \<Rightarrow> bool" where
  "lower_token s = (is_http_token s \<and> to_ascii_lowercase s = s)"

definition parameter_ok :: "string \<times> string \<Rightarrow> bool" where
  "parameter_ok p =
     (lower_token (fst p) \<and> list_all is_http_quoted_string_token (snd p) \<and>
      (fst p = ''charset'' \<longrightarrow> to_ascii_lowercase (snd p) = snd p))"

definition mime_ok :: "mime_type \<Rightarrow> bool" where
  "mime_ok m =
     ((\<exists>t s. lower_token t \<and> lower_token s \<and> mt_essence m = t @ CHR ''/'' # s) \<and>
      list_all parameter_ok (mt_parameters m) \<and> distinct (map fst (mt_parameters m)))"

lemma token_char_lower [simp]: "is_http_token_char (ascii_lower_char c) \<longleftrightarrow> is_http_token_char c"
  by (auto simp: is_http_token_char_def ascii_lower_char_def)

lemma quoted_char_lower [simp]:
  "is_http_quoted_string_token (ascii_lower_char c) \<longleftrightarrow> is_http_quoted_string_token c"
  by (auto simp: is_http_quoted_string_token_def ascii_lower_char_def)

lemma token_lower [simp]: "is_http_token (to_ascii_lowercase s) \<longleftrightarrow> is_http_token s"
  by (simp add: is_http_token_def to_ascii_lowercase_def list.pred_map comp_def)

lemma quoted_lower [simp]:
  "list_all is_http_quoted_string_token (to_ascii_lowercase s) \<longleftrightarrow> list_all is_http_quoted_string_token s"
  by (simp add: to_ascii_lowercase_def list.pred_map comp_def)

lemma lower_token_lowercase: "is_http_token s \<Longrightarrow> lower_token (to_ascii_lowercase s)"
  by (simp add: lower_token_def)

lemma to_ascii_lowercase_Nil_iff [simp]: "to_ascii_lowercase s = [] \<longleftrightarrow> s = []"
  by (simp add: to_ascii_lowercase_def)

lemma add_parameter_ok:
  assumes "to_ascii_lowercase n = n" "list_all parameter_ok ps" "distinct (map fst ps)"
  shows "list_all parameter_ok (add_parameter n v ps) \<and> distinct (map fst (add_parameter n v ps))"
  using assms by (auto simp: add_parameter_def parameter_ok_def lower_token_def)

lemma parse_parameters_ok:
  assumes "list_all parameter_ok ps" "distinct (map fst ps)"
  shows "list_all parameter_ok (parse_parameters s ps) \<and> distinct (map fst (parse_parameters s ps))"
  using assms
proof (induction s ps rule: parse_parameters.induct)
  case (2 c s ps)
  let ?s = "dropWhile is_http_whitespace s"
  let ?rest = "dropWhile (\<lambda>c. c \<noteq> CHR '';'' \<and> c \<noteq> CHR ''='') ?s"
  let ?name = "to_ascii_lowercase (takeWhile (\<lambda>c. c \<noteq> CHR '';'' \<and> c \<noteq> CHR ''='') ?s)"
  obtain v r where pv: "parameter_value (tl ?rest) = (v, r)" by (cases "parameter_value (tl ?rest)")
  consider "?rest = []" | "?rest \<noteq> []" "hd ?rest = CHR '';''"
    | "?rest \<noteq> []" "hd ?rest \<noteq> CHR '';''" "tl ?rest = []"
    | "?rest \<noteq> []" "hd ?rest \<noteq> CHR '';''" "tl ?rest \<noteq> []" "v = None"
    | w where "?rest \<noteq> []" "hd ?rest \<noteq> CHR '';''" "tl ?rest \<noteq> []" "v = Some w"
    by (cases v) auto
  then show ?case
  proof cases
    case 2
    then show ?thesis using "2.IH"(1)[OF refl refl refl] "2.prems" by (simp add: Let_def)
  next
    case 4
    then show ?thesis using "2.IH"(2)[OF refl refl refl 4(1,2,3) pv[symmetric]] "2.prems" pv by (simp add: Let_def)
  next
    case 5
    have "list_all parameter_ok (add_parameter ?name w ps) \<and> distinct (map fst (add_parameter ?name w ps))"
      using "2.prems" by (intro add_parameter_ok) simp_all
    then show ?thesis using "2.IH"(3)[OF refl refl refl 5(1,2,3) pv[symmetric] 5(4)] pv 5 "2.prems" by (simp add: Let_def)
  qed (use "2.prems" in \<open>simp_all add: Let_def\<close>)
qed simp

lemma mime_ok_intro:
  "is_http_token t \<Longrightarrow> is_http_token s \<Longrightarrow>
   mime_ok \<lparr> mt_essence = to_ascii_lowercase t @ CHR ''/'' # to_ascii_lowercase s, mt_parameters = parse_parameters ps [] \<rparr>"
  using parse_parameters_ok[of "[]" ps] lower_token_lowercase[of t] lower_token_lowercase[of s]
  unfolding mime_ok_def mime_type.simps by auto

lemma parse_mime_type_ok: "parse_mime_type s = Some m \<Longrightarrow> mime_ok m"
  unfolding parse_mime_type_def Let_def by (auto simp del: dropWhile_eq_Nil_conv split: if_splits intro: mime_ok_intro)

section \<open>Reading a serialization\<close>

lemma token_char_plain:
  assumes "is_http_token_char c"
  shows "\<not> is_http_whitespace c" "c \<noteq> CHR ''/''" "c \<noteq> CHR '';''" "c \<noteq> CHR ''=''" "c \<noteq> CHR ''\"''"
  using assms by (auto simp: is_http_token_char_def is_http_whitespace_def)

lemma token_hd: "is_http_token s \<Longrightarrow> is_http_token_char (hd s)"
  by (cases s) (auto simp: is_http_token_def)

lemma token_last: "is_http_token s \<Longrightarrow> is_http_token_char (last s)"
  by (auto simp: is_http_token_def list_all_iff)

lemma token_scan:
  assumes "is_http_token t" and "\<And>c. is_http_token_char c \<Longrightarrow> P c" and "rest = [] \<or> \<not> P (hd rest)"
  shows "takeWhile P (t @ rest) = t" "dropWhile P (t @ rest) = rest"
proof -
  have "\<forall>c\<in>set t. P c" using assms by (auto simp: is_http_token_def list_all_iff)
  then show "takeWhile P (t @ rest) = t" "dropWhile P (t @ rest) = rest"
    using assms(3) by (cases rest; simp add: takeWhile_append dropWhile_append)+
qed

lemma trim_end_ws_id: "s = [] \<or> \<not> is_http_whitespace (last s) \<Longrightarrow> trim_end_ws s = s"
  by (cases s rule: rev_cases) (auto simp: trim_end_ws_def)

lemma trim_end_ws_token: "is_http_token s \<Longrightarrow> trim_end_ws s = s"
  using trim_end_ws_id token_char_plain(1) token_last by blast

lemma drop_ws_token: "is_http_token t \<Longrightarrow> dropWhile is_http_whitespace (t @ rest) = t @ rest"
  using token_hd token_char_plain(1) by (cases t) (auto simp: is_http_token_def)

lemma collect_escaped: "collect_http_quoted_string (escape_quoted v @ CHR ''\"'' # rest) = (v, rest)"
  by (induction v) auto

definition value_text :: "string \<Rightarrow> string" where
  "value_text v = (if v = [] \<or> \<not> is_http_token v then CHR ''\"'' # escape_quoted v @ ''\"'' else v)"

lemma parameter_text_split: "parameter_text (n, v) = CHR '';'' # n @ CHR ''='' # value_text v"
  by (simp add: parameter_text_def value_text_def)

lemma value_text_Nil [simp]: "value_text v \<noteq> []"
  by (auto simp: value_text_def)

lemma value_text_last: "\<not> is_http_whitespace (last (value_text v))"
proof (cases "v = [] \<or> \<not> is_http_token v")
  case True
  then show ?thesis by (auto simp: value_text_def is_http_whitespace_def)
next
  case False
  then show ?thesis using token_char_plain(1) token_last by (simp add: value_text_def)
qed

lemma parameter_value_text:
  assumes "rest = [] \<or> hd rest = CHR '';''"
  shows "parameter_value (value_text v @ rest) = (Some v, rest)"
proof (cases "v = [] \<or> \<not> is_http_token v")
  case True
  moreover have "dropWhile (\<lambda>c. c \<noteq> CHR '';'') rest = rest" using assms by (cases rest) auto
  ultimately show ?thesis by (simp add: parameter_value_def value_text_def collect_escaped)
next
  case False
  then have tok: "is_http_token v" and "v \<noteq> []" by auto
  have "takeWhile (\<lambda>c. c \<noteq> CHR '';'') (v @ rest) = v" "dropWhile (\<lambda>c. c \<noteq> CHR '';'') (v @ rest) = rest"
    using token_scan[OF tok, of "\<lambda>c. c \<noteq> CHR '';''" rest] token_char_plain(3) assms by auto
  moreover have "hd (v @ rest) \<noteq> CHR ''\"''" using token_hd[OF tok] token_char_plain(5) \<open>v \<noteq> []\<close> by auto
  ultimately show ?thesis using \<open>v \<noteq> []\<close> tok trim_end_ws_token[OF tok]
    by (simp add: parameter_value_def value_text_def Let_def)
qed

lemma parameters_text_start: "concat (map parameter_text ps) = [] \<or> hd (concat (map parameter_text ps)) = CHR '';''"
  by (cases ps) (auto simp: parameter_text_def)

lemma parse_parameter_text:
  assumes ok: "parameter_ok (n, v)" and new: "n \<notin> fst ` set acc" and rest: "rest = [] \<or> hd rest = CHR '';''"
  shows "parse_parameters (parameter_text (n, v) @ rest) acc = parse_parameters rest (acc @ [(n, v)])"
proof -
  have tok: "is_http_token n" and low: "to_ascii_lowercase n = n" using ok by (auto simp: parameter_ok_def lower_token_def)
  let ?P = "\<lambda>c. c \<noteq> CHR '';'' \<and> c \<noteq> CHR ''=''"
  let ?r = "CHR ''='' # value_text v @ rest"
  have ws: "dropWhile is_http_whitespace (n @ ?r) = n @ ?r" by (rule drop_ws_token[OF tok])
  have scan: "takeWhile ?P (n @ ?r) = n" "dropWhile ?P (n @ ?r) = ?r"
    using token_scan[OF tok, of ?P ?r] token_char_plain(3,4) by auto
  have add: "add_parameter n v acc = acc @ [(n, v)]"
    using ok new by (auto simp: add_parameter_def parameter_ok_def lower_token_def is_http_token_def)
  have "parse_parameters (CHR '';'' # (n @ ?r)) acc = parse_parameters rest (acc @ [(n, v)])"
    by (simp only: parse_parameters.simps ws scan low Let_def list.sel if_False parameter_value_text[OF rest]
        prod.case option.case add) simp
  then show ?thesis by (simp add: parameter_text_split)
qed

lemma parse_parameters_text:
  "list_all parameter_ok ps \<Longrightarrow> distinct (map fst (acc @ ps)) \<Longrightarrow>
   parse_parameters (concat (map parameter_text ps)) acc = acc @ ps"
proof (induction ps arbitrary: acc)
  case (Cons p ps)
  obtain n v where p: "p = (n, v)" by (cases p)
  have "parse_parameters (parameter_text (n, v) @ concat (map parameter_text ps)) acc =
    parse_parameters (concat (map parameter_text ps)) (acc @ [(n, v)])"
    using Cons.prems p parameters_text_start by (intro parse_parameter_text) auto
  then show ?case using Cons.IH[of "acc @ [(n, v)]"] Cons.prems p by simp
qed simp

lemma serialize_ends:
  assumes "is_http_token s"
  shows "\<not> is_http_whitespace (last (s @ concat (map parameter_text ps)))"
proof (cases ps rule: rev_cases)
  case Nil
  then show ?thesis using token_last[OF assms] token_char_plain(1) by simp
next
  case (snoc qs p)
  obtain n v where "p = (n, v)" by (cases p)
  then show ?thesis using snoc value_text_last[of v] by (simp add: parameter_text_split)
qed

lemma parse_serialized_ok:
  assumes "mime_ok m"
  shows "parse_mime_type (mime_serialize m) = Some m"
proof -
  obtain t s where t: "is_http_token t" "to_ascii_lowercase t = t"
    and s: "is_http_token s" "to_ascii_lowercase s = s" and e: "mt_essence m = t @ CHR ''/'' # s"
    using assms by (auto simp: mime_ok_def lower_token_def)
  let ?ps = "concat (map parameter_text (mt_parameters m))"
  have ser: "mime_serialize m = t @ CHR ''/'' # s @ ?ps" by (simp add: mime_serialize_def e)
  have "last (t @ CHR ''/'' # s @ ?ps) = last (s @ ?ps)" using s(1) by (auto simp: is_http_token_def last_append)
  then have trim: "trim_http_ws (mime_serialize m) = t @ CHR ''/'' # s @ ?ps"
    using serialize_ends[OF s(1)] trim_end_ws_id[of "t @ CHR ''/'' # s @ ?ps"]
    by (simp add: trim_http_ws_def ser drop_ws_token[OF t(1)])
  have kind: "takeWhile (\<lambda>c. c \<noteq> CHR ''/'') (t @ CHR ''/'' # s @ ?ps) = t"
    "dropWhile (\<lambda>c. c \<noteq> CHR ''/'') (t @ CHR ''/'' # s @ ?ps) = CHR ''/'' # s @ ?ps"
    using token_scan[OF t(1), of "\<lambda>c. c \<noteq> CHR ''/''" "CHR ''/'' # s @ ?ps"] token_char_plain(2) by auto
  have sub: "takeWhile (\<lambda>c. c \<noteq> CHR '';'') (s @ ?ps) = s" "dropWhile (\<lambda>c. c \<noteq> CHR '';'') (s @ ?ps) = ?ps"
    using token_scan[OF s(1), of "\<lambda>c. c \<noteq> CHR '';''" ?ps] token_char_plain(3) parameters_text_start by auto
  have ne: "t \<noteq> []" "s \<noteq> []" using t s by (auto simp: is_http_token_def)
  have "parse_parameters ?ps [] = mt_parameters m"
    using parse_parameters_text[of "mt_parameters m" "[]"] assms by (simp add: mime_ok_def)
  then show ?thesis
    unfolding parse_mime_type_def trim Let_def kind list.sel sub trim_end_ws_token[OF s(1)]
    using t s e ne by simp
qed

text \<open>\<^bold>\<open>C29.\<close> A parsed MIME type is what its serialization parses to: names, order and case of the
  parameters, quoting and escapes included.\<close>

theorem mime_roundtrip:
  assumes "parse_mime_type s = Some m"
  shows "parse_mime_type (mime_serialize m) = Some m"
  using assms by (intro parse_serialized_ok parse_mime_type_ok)

theorem mime_roundtrip_witness:
  "parse_mime_type (mime_serialize \<lparr> mt_essence = ''text/html'', mt_parameters = [(''charset'', ''utf-8''), (''x'', ''a b'')] \<rparr>) =
     Some \<lparr> mt_essence = ''text/html'', mt_parameters = [(''charset'', ''utf-8''), (''x'', ''a b'')] \<rparr>"
  by (rule mime_roundtrip[of "'' Text/HTML;Charset=UTF-8; x=\"a b\" ''"]) code_simp

section \<open>Extracting a type\<close>

lemma find_fst: "find (\<lambda>p. fst p = n) ps = Some p \<Longrightarrow> p \<in> set ps \<and> fst p = n"
  by (auto simp: find_Some_iff)

definition extract_ok :: "mime_type option \<times> string option \<times> string option \<Rightarrow> bool" where
  "extract_ok acc =
     (case acc of (m, e, c) \<Rightarrow>
        (\<forall>t. m = Some t \<longrightarrow> mime_ok t \<and> mt_essence t \<noteq> ''*/*'') \<and>
        (\<forall>v. c = Some v \<longrightarrow> list_all is_http_quoted_string_token v \<and> to_ascii_lowercase v = v))"

lemma mime_ok_charset:
  assumes "mime_ok m" "find (\<lambda>p. fst p = ''charset'') (mt_parameters m) = Some p"
  shows "list_all is_http_quoted_string_token (snd p) \<and> to_ascii_lowercase (snd p) = snd p"
proof -
  have "p \<in> set (mt_parameters m)" "fst p = ''charset''" using find_fst[OF assms(2)] by auto
  moreover have "parameter_ok p" using assms(1) calculation(1) by (simp add: mime_ok_def list_all_iff)
  ultimately show ?thesis by (simp add: parameter_ok_def)
qed

lemma lower_token_charset: "lower_token ''charset''"
  by code_simp

lemma mime_ok_push_charset:
  assumes "mime_ok m" "\<not> list_ex (\<lambda>p. fst p = ''charset'') (mt_parameters m)"
    "list_all is_http_quoted_string_token v" "to_ascii_lowercase v = v"
  shows "mime_ok (m\<lparr>mt_parameters := mt_parameters m @ [(''charset'', v)]\<rparr>)"
  using assms lower_token_charset unfolding mime_ok_def parameter_ok_def by (auto simp: list_ex_iff)

lemma extract_item_ok:
  assumes "extract_ok acc"
  shows "extract_ok (extract_item item acc)"
proof -
  obtain mm e c where acc: "acc = (mm, e, c)" by (cases acc)
  show ?thesis
  proof (cases "parse_mime_type item")
    case None
    then show ?thesis using assms acc by (simp add: extract_item_def)
  next
    case (Some m)
    have ok: "mime_ok m" by (rule parse_mime_type_ok[OF Some])
    consider "mt_essence m = ''*/*''" | "mt_essence m \<noteq> ''*/*''" "e = Some (mt_essence m)"
      | "mt_essence m \<noteq> ''*/*''" "e \<noteq> Some (mt_essence m)" by blast
    then show ?thesis
    proof cases
      case 1
      then show ?thesis using assms acc Some by (simp add: extract_item_def)
    next
      case 2
      then show ?thesis using assms acc Some ok mime_ok_push_charset[OF ok]
        by (auto simp: extract_item_def extract_ok_def Let_def split: option.splits)
    next
      case 3
      then show ?thesis using assms acc Some ok mime_ok_charset[OF ok] by (auto simp: extract_item_def extract_ok_def)
    qed
  qed
qed

lemma extract_fold_ok: "extract_ok acc \<Longrightarrow> extract_ok (fold extract_item items acc)"
  by (induction items arbitrary: acc) (simp_all add: extract_item_ok)

text \<open>The type extracted from a combined \<open>Content-Type\<close> value is in canonical form, parsing it
  and printing it again changes nothing, and it is never the wildcard type.\<close>

theorem extracted_type_canonical:
  assumes "extract_mime_type v = Some r"
  shows "\<exists>m. parse_mime_type r = Some m \<and> mime_serialize m = r \<and> mt_essence m \<noteq> ''*/*''"
proof -
  have "extract_ok (fold extract_item (split_header_value v) (None, None, None))"
    by (rule extract_fold_ok) (simp add: extract_ok_def)
  moreover obtain m where "fst (fold extract_item (split_header_value v) (None, None, None)) = Some m" "r = mime_serialize m"
    using assms by (auto simp: extract_mime_type_def)
  ultimately have "mime_ok m" "mt_essence m \<noteq> ''*/*''" by (auto simp: extract_ok_def case_prod_unfold)
  then show ?thesis using parse_serialized_ok \<open>r = mime_serialize m\<close> by auto
qed

theorem extracted_type_canonical_witness:
  "\<exists>m. parse_mime_type ''text/html;x=1;charset=gbk'' = Some m \<and> mime_serialize m = ''text/html;x=1;charset=gbk'' \<and>
     mt_essence m \<noteq> ''*/*''"
  by (rule extracted_type_canonical[of "''text/html; charset=GBK, text/html;x=1, */*''"]) code_simp

section \<open>Sniffing\<close>

definition markup :: "string \<Rightarrow> bool" where
  "markup s = (case parse_mime_type s of Some m \<Rightarrow> mime_html m \<or> mime_xml m | None \<Rightarrow> False)"

definition declared_unknown :: "string option \<Rightarrow> bool" where
  "declared_unknown supplied =
     (case Option.bind supplied parse_mime_type of
        None \<Rightarrow> True
      | Some m \<Rightarrow> mt_essence m \<in> set [''unknown/unknown'', ''application/unknown'', ''*/*''])"

lemma rows_not_markup:
  "list_all (\<lambda>r. \<not> markup (row_mime r)) BINARY_PLAIN_ROWS" "list_all (\<lambda>r. \<not> markup (row_mime r)) IMAGE_ROWS"
  "list_all (\<lambda>r. \<not> markup (row_mime r)) AUDIO_VIDEO_ROWS" "list_all (\<lambda>r. \<not> markup (row_mime r)) ARCHIVE_ROWS"
  by code_simp+

lemma signatures_not_markup:
  "\<not> markup ''video/mp4''" "\<not> markup ''video/webm''" "\<not> markup ''audio/mpeg''"
  "\<not> markup ''application/octet-stream''" "\<not> markup ''text/plain''"
  by code_simp+

lemma match_rows_row: "match_rows h rows = Some r \<Longrightarrow> \<exists>row\<in>set rows. row_matches h row \<and> row_mime row = r"
  by (auto simp: match_rows_def find_Some_iff)

lemma match_rows_not_markup: "list_all (\<lambda>r. \<not> markup (row_mime r)) rows \<Longrightarrow> match_rows h rows = Some r \<Longrightarrow> \<not> markup r"
  using match_rows_row by (fastforce simp: list_all_iff)

lemma match_image_not_markup: "match_image h = Some r \<Longrightarrow> \<not> markup r"
  using match_rows_not_markup[OF rows_not_markup(2)] by (simp add: match_image_def)

lemma match_av_not_markup: "match_av h = Some r \<Longrightarrow> \<not> markup r"
  using match_rows_not_markup[OF rows_not_markup(3)] signatures_not_markup
  by (auto simp: match_av_def split: option.splits if_splits)

lemma identify_unknown_markup:
  assumes "markup (identify_unknown h scriptable)"
  shows "scriptable \<and> match_rows h SCRIPTABLE_ROWS = Some (identify_unknown h scriptable)"
proof (cases "if scriptable then match_rows h SCRIPTABLE_ROWS else None")
  case None
  then show ?thesis
    using assms match_rows_not_markup[OF rows_not_markup(1)] match_rows_not_markup[OF rows_not_markup(4)]
      match_image_not_markup match_av_not_markup signatures_not_markup
    by (simp add: identify_unknown_def split: option.splits if_splits)
qed (simp add: identify_unknown_def split: if_splits)

lemma text_or_binary_not_markup: "\<not> markup (text_or_binary h)"
  using signatures_not_markup by (simp add: text_or_binary_def)

text \<open>\<^bold>\<open>C28.\<close> A response is treated as HTML or XML only when its server declared exactly that type, or
  when no usable type was declared, sniffing is allowed and the body starts like a scriptable
  type. Under \<open>nosniff\<close> a usable declared type is kept as it is.\<close>

theorem sniffing_never_escalates:
  "(markup (sniff_mime h supplied no_sniff apache_bug) \<longrightarrow>
      supplied = Some (sniff_mime h supplied no_sniff apache_bug) \<or>
      declared_unknown supplied \<and> \<not> no_sniff \<and>
      (\<exists>row\<in>set SCRIPTABLE_ROWS. row_matches h row \<and> row_mime row = sniff_mime h supplied no_sniff apache_bug)) \<and>
   (no_sniff \<and> \<not> declared_unknown supplied \<longrightarrow> supplied = Some (sniff_mime h supplied no_sniff apache_bug))"
proof (cases "Option.bind supplied parse_mime_type")
  case None
  then have "sniff_mime h supplied no_sniff apache_bug = identify_unknown h (\<not> no_sniff)" "declared_unknown supplied"
    by (simp_all add: sniff_mime_def declared_unknown_def)
  then show ?thesis using identify_unknown_markup[of h "\<not> no_sniff"] match_rows_row by auto
next
  case (Some m)
  then obtain given where g: "supplied = Some given" by (cases supplied) auto
  show ?thesis
  proof (cases "declared_unknown supplied")
    case True
    then have "\<not> (mime_html m \<or> mime_xml m)" using Some by (auto simp: declared_unknown_def mime_html_def mime_xml_def ends_with_def)
    then have "sniff_mime h supplied no_sniff apache_bug = identify_unknown h (\<not> no_sniff)"
      using True Some by (auto simp: sniff_mime_def declared_unknown_def Let_def)
    then show ?thesis using identify_unknown_markup[of h "\<not> no_sniff"] match_rows_row True by auto
  next
    case False
    then show ?thesis
      using Some g match_image_not_markup match_av_not_markup text_or_binary_not_markup
      by (auto simp: sniff_mime_def declared_unknown_def Let_def split: option.splits if_splits)
  qed
qed

theorem sniffing_never_escalates_witness:
  "\<exists>row\<in>set SCRIPTABLE_ROWS. row_matches ''<html><p>'' row \<and> row_mime row = ''text/html''"
proof -
  have s: "sniff_mime ''<html><p>'' None False False = ''text/html''" "markup ''text/html''" by code_simp+
  show ?thesis using sniffing_never_escalates[of "''<html><p>''" None False False] unfolding s(1) by (simp add: s(2))
qed

end
