(* ===== verification/Sandbox_Flags.thy ===== *)
theory Sandbox_Flags
  imports Dom_Tree "HOL-Library.Word"
begin

unbundle bit_operations_syntax

text \<open>
  \<open>crates/renderer/src/protocol.rs\<close>: sandboxing flag sets and browsing-context target names. A
  flag set is the 32-bit word of the code.
\<close>

section \<open>Flags\<close>

datatype sandbox_flag =
    Navigation
  | AuxiliaryNavigation
  | TopLevelNavigationWithoutUserActivation
  | TopLevelNavigationWithUserActivation
  | Origin
  | Forms
  | PointerLock
  | Scripts
  | AutomaticFeatures
  | DocumentDomain
  | PropagatesToAuxiliary
  | Modals
  | OrientationLock
  | Presentation
  | Downloads
  | CustomProtocolsNavigation

definition SANDBOX_ALL :: "sandbox_flag list" where
  "SANDBOX_ALL = [Navigation, AuxiliaryNavigation, TopLevelNavigationWithoutUserActivation,
     TopLevelNavigationWithUserActivation, Origin, Forms, PointerLock, Scripts, AutomaticFeatures, DocumentDomain,
     PropagatesToAuxiliary, Modals, OrientationLock, Presentation, Downloads, CustomProtocolsNavigation]"

text \<open>The discriminant \<open>self as u32\<close>.\<close>

fun flag_index :: "sandbox_flag \<Rightarrow> nat" where
  "flag_index Navigation = 0"
| "flag_index AuxiliaryNavigation = 1"
| "flag_index TopLevelNavigationWithoutUserActivation = 2"
| "flag_index TopLevelNavigationWithUserActivation = 3"
| "flag_index Origin = 4"
| "flag_index Forms = 5"
| "flag_index PointerLock = 6"
| "flag_index Scripts = 7"
| "flag_index AutomaticFeatures = 8"
| "flag_index DocumentDomain = 9"
| "flag_index PropagatesToAuxiliary = 10"
| "flag_index Modals = 11"
| "flag_index OrientationLock = 12"
| "flag_index Presentation = 13"
| "flag_index Downloads = 14"
| "flag_index CustomProtocolsNavigation = 15"

definition flag_bit :: "sandbox_flag \<Rightarrow> 32 word" where
  "flag_bit f = push_bit (flag_index f) 1"

definition flags_bits :: "sandbox_flag list \<Rightarrow> 32 word" where
  "flags_bits flags = fold (\<lambda>f bits. bits OR flag_bit f) flags 0"

definition ALL_FLAGS :: "32 word" where
  "ALL_FLAGS = flags_bits SANDBOX_ALL"

definition sandbox_empty :: "32 word" where
  "sandbox_empty = 0"

definition SANDBOX_TOKENS :: "(string \<times> sandbox_flag list) list" where
  "SANDBOX_TOKENS = [
     (''allow-popups'', [AuxiliaryNavigation, CustomProtocolsNavigation]),
     (''allow-top-navigation'',
        [TopLevelNavigationWithoutUserActivation, TopLevelNavigationWithUserActivation, CustomProtocolsNavigation]),
     (''allow-top-navigation-by-user-activation'', [TopLevelNavigationWithUserActivation]),
     (''allow-same-origin'', [Origin]),
     (''allow-forms'', [Forms]),
     (''allow-pointer-lock'', [PointerLock]),
     (''allow-scripts'', [Scripts, AutomaticFeatures]),
     (''allow-popups-to-escape-sandbox'', [PropagatesToAuxiliary]),
     (''allow-modals'', [Modals]),
     (''allow-orientation-lock'', [OrientationLock]),
     (''allow-presentation'', [Presentation]),
     (''allow-downloads'', [Downloads]),
     (''allow-top-navigation-to-custom-protocols'', [CustomProtocolsNavigation])]"

definition sandbox_supports :: "string \<Rightarrow> bool" where
  "sandbox_supports token = list_ex (\<lambda>(keyword, _). eq_ignore_ascii_case keyword token) SANDBOX_TOKENS"

definition clear_flags :: "sandbox_flag list \<Rightarrow> 32 word \<Rightarrow> 32 word" where
  "clear_flags cleared flags = fold (\<lambda>f bits. bits AND NOT (flag_bit f)) cleared flags"

definition sandbox_token :: "string \<Rightarrow> 32 word \<Rightarrow> 32 word" where
  "sandbox_token token flags =
     (case find (\<lambda>(keyword, _). eq_ignore_ascii_case keyword token) SANDBOX_TOKENS of
        Some (_, cleared) \<Rightarrow> clear_flags cleared flags
      | None \<Rightarrow> flags)"

definition sandbox_parse :: "string option \<Rightarrow> 32 word" where
  "sandbox_parse attribute =
     (case attribute of
        None \<Rightarrow> sandbox_empty
      | Some a \<Rightarrow> fold sandbox_token (split_ascii_whitespace a) ALL_FLAGS)"

definition sandbox_contains :: "32 word \<Rightarrow> sandbox_flag \<Rightarrow> bool" where
  "sandbox_contains s f = (s AND flag_bit f \<noteq> 0)"

definition sandbox_union :: "32 word \<Rightarrow> 32 word \<Rightarrow> 32 word" where
  "sandbox_union a b = a OR b"

definition sandbox_is_empty :: "32 word \<Rightarrow> bool" where
  "sandbox_is_empty s = (s = 0)"

definition blocks_auxiliary_navigation :: "32 word \<Rightarrow> bool" where
  "blocks_auxiliary_navigation s = sandbox_contains s AuxiliaryNavigation"

definition blocks_navigation :: "32 word \<Rightarrow> bool" where
  "blocks_navigation s = sandbox_contains s Navigation"

definition propagates_to_auxiliary :: "32 word \<Rightarrow> bool" where
  "propagates_to_auxiliary s = sandbox_contains s PropagatesToAuxiliary"

definition scripts_disabled :: "32 word \<Rightarrow> bool" where
  "scripts_disabled s = sandbox_contains s Scripts"

definition origin_is_opaque :: "32 word \<Rightarrow> bool" where
  "origin_is_opaque s = sandbox_contains s Origin"

definition auxiliary_flags :: "32 word \<Rightarrow> 32 word" where
  "auxiliary_flags s = (if propagates_to_auxiliary s then s else sandbox_empty)"

section \<open>Target names\<close>

text \<open>A \<open>ContextName\<close> is the string it wraps.\<close>

datatype target_name = TCurrent | TParent | TTop | TBlank | TNamed string

definition target_keyword :: "string \<Rightarrow> target_name option" where
  "target_keyword raw =
     (if eq_ignore_ascii_case raw ''_self'' then Some TCurrent
      else if eq_ignore_ascii_case raw ''_parent'' then Some TParent
      else if eq_ignore_ascii_case raw ''_top'' then Some TTop
      else if eq_ignore_ascii_case raw ''_blank'' then Some TBlank
      else None)"

definition context_name_parse :: "string \<Rightarrow> string option" where
  "context_name_parse raw = (if raw \<noteq> [] \<and> target_keyword raw = None then Some raw else None)"

definition target_parse :: "string \<Rightarrow> target_name" where
  "target_parse raw =
     (if raw = [] then TCurrent else case target_keyword raw of Some t \<Rightarrow> t | None \<Rightarrow> TNamed raw)"

definition for_window_open :: "string \<Rightarrow> target_name" where
  "for_window_open raw = (if raw = [] then TBlank else target_parse raw)"

definition noopener_withholds :: "target_name \<Rightarrow> bool" where
  "noopener_withholds t = (case t of TBlank \<Rightarrow> True | TNamed _ \<Rightarrow> True | _ \<Rightarrow> False)"

definition new_context_name :: "target_name \<Rightarrow> string option" where
  "new_context_name t = (case t of TNamed n \<Rightarrow> Some n | _ \<Rightarrow> None)"

definition is_canonical :: "target_name \<Rightarrow> bool" where
  "is_canonical t = (case t of TNamed n \<Rightarrow> target_parse n = t | _ \<Rightarrow> True)"

section \<open>What a directive allows\<close>

lemma flag_index_lt: "flag_index f < 32"
  by (cases f) simp_all

lemma flag_index_inj: "flag_index f = flag_index g \<longleftrightarrow> f = g"
  by (cases f; cases g) simp_all

lemma bit_flag_bit: "bit (flag_bit f) n \<longleftrightarrow> n = flag_index f"
  using flag_index_lt[of f] by (auto simp: flag_bit_def bit_simps)

lemma sandbox_contains_bit: "sandbox_contains s f \<longleftrightarrow> bit s (flag_index f)"
proof
  assume "sandbox_contains s f"
  then obtain n where "bit (s AND flag_bit f) n"
    using bit_eqI[of "s AND flag_bit f" 0] by (auto simp: sandbox_contains_def)
  then show "bit s (flag_index f)" by (auto simp: bit_and_iff bit_flag_bit)
next
  assume "bit s (flag_index f)"
  then have "bit (s AND flag_bit f) (flag_index f)" by (simp add: bit_and_iff bit_flag_bit)
  then show "sandbox_contains s f" by (auto simp: sandbox_contains_def)
qed

lemma contains_flags_bits: "sandbox_contains (fold (\<lambda>f bits. bits OR flag_bit f) fs s) g \<longleftrightarrow> g \<in> set fs \<or> sandbox_contains s g"
  by (induction fs arbitrary: s) (auto simp: sandbox_contains_bit bit_or_iff bit_flag_bit flag_index_inj)

lemma contains_clear: "sandbox_contains (clear_flags fs s) g \<longleftrightarrow> g \<notin> set fs \<and> sandbox_contains s g"
  unfolding clear_flags_def
  by (induction fs arbitrary: s)
     (auto simp: sandbox_contains_bit bit_and_iff bit_not_iff bit_flag_bit flag_index_inj flag_index_lt)

lemma contains_union [simp]: "sandbox_contains (sandbox_union a b) g \<longleftrightarrow> sandbox_contains a g \<or> sandbox_contains b g"
  by (simp add: sandbox_contains_bit sandbox_union_def bit_or_iff)

lemma contains_empty [simp]: "\<not> sandbox_contains sandbox_empty g"
  by (simp add: sandbox_contains_def sandbox_empty_def)

lemma contains_all [simp]: "sandbox_contains ALL_FLAGS g"
  unfolding ALL_FLAGS_def flags_bits_def contains_flags_bits by (cases g) (simp_all add: SANDBOX_ALL_def)

text \<open>The flags a token lifts.\<close>

definition token_lifts :: "string \<Rightarrow> sandbox_flag \<Rightarrow> bool" where
  "token_lifts token f = (\<exists>(keyword, cleared)\<in>set SANDBOX_TOKENS. to_ascii_lowercase token = keyword \<and> f \<in> set cleared)"

lemma tokens_lowercase: "list_all (\<lambda>(keyword, _). to_ascii_lowercase keyword = keyword) SANDBOX_TOKENS"
  by code_simp

lemma tokens_distinct: "distinct (map fst SANDBOX_TOKENS)"
  by code_simp

lemma find_token:
  "find (\<lambda>(keyword, _). eq_ignore_ascii_case keyword token) SANDBOX_TOKENS =
     map_option (\<lambda>c. (to_ascii_lowercase token, c)) (map_of SANDBOX_TOKENS (to_ascii_lowercase token))"
proof -
  have "list_all (\<lambda>(keyword, _). to_ascii_lowercase keyword = keyword) ts \<Longrightarrow>
    find (\<lambda>(keyword, _). eq_ignore_ascii_case keyword token) ts =
     map_option (\<lambda>c. (to_ascii_lowercase token, c)) (map_of ts (to_ascii_lowercase token))" for ts :: "(string \<times> sandbox_flag list) list"
    by (induction ts) (auto simp: eq_ignore_ascii_case_def)
  then show ?thesis using tokens_lowercase by blast
qed

lemma token_lifts_map_of:
  "token_lifts token f \<longleftrightarrow> (\<exists>c. map_of SANDBOX_TOKENS (to_ascii_lowercase token) = Some c \<and> f \<in> set c)"
  unfolding token_lifts_def map_of_eq_Some_iff[OF tokens_distinct] by auto

lemma contains_token: "sandbox_contains (sandbox_token token s) f \<longleftrightarrow> \<not> token_lifts token f \<and> sandbox_contains s f"
  by (auto simp: token_lifts_map_of sandbox_token_def find_token contains_clear split: option.splits)

lemma contains_tokens:
  "sandbox_contains (fold sandbox_token ts s) f \<longleftrightarrow> (\<forall>t\<in>set ts. \<not> token_lifts t f) \<and> sandbox_contains s f"
  by (induction ts arbitrary: s) (auto simp: contains_token)

lemma token_lifts_never: "\<not> token_lifts t Navigation" "\<not> token_lifts t DocumentDomain"
  by (auto simp: token_lifts_def SANDBOX_TOKENS_def)

text \<open>A \<open>sandbox\<close> attribute sets exactly the flags that none of its tokens lifts, whatever the
  order, case or repetition of the tokens; the navigation and \<open>document.domain\<close> flags are
  never lifted, an absent attribute sets nothing, and what an embedder's set adds stays set.\<close>

theorem sandbox_directive:
  "(sandbox_contains (sandbox_parse (Some a)) f \<longleftrightarrow> (\<forall>t\<in>set (split_ascii_whitespace a). \<not> token_lifts t f)) \<and>
   sandbox_contains (sandbox_parse (Some a)) Navigation \<and> sandbox_contains (sandbox_parse (Some a)) DocumentDomain \<and>
   \<not> sandbox_contains (sandbox_parse None) f \<and>
   (sandbox_contains (sandbox_union (sandbox_parse (Some a)) s) f \<longleftrightarrow>
      (\<forall>t\<in>set (split_ascii_whitespace a). \<not> token_lifts t f) \<or> sandbox_contains s f)"
  by (simp add: sandbox_parse_def contains_tokens token_lifts_never)

theorem sandbox_directive_witness:
  "\<not> sandbox_contains (sandbox_parse (Some ''Allow-Scripts  allow-forms'')) Scripts \<and>
   sandbox_contains (sandbox_parse (Some ''Allow-Scripts  allow-forms'')) Origin"
proof -
  have s: "split_ascii_whitespace ''Allow-Scripts  allow-forms'' = [''Allow-Scripts'', ''allow-forms'']" by code_simp
  have l: "token_lifts ''Allow-Scripts'' Scripts" "\<not> token_lifts ''Allow-Scripts'' Origin" "\<not> token_lifts ''allow-forms'' Origin"
    by code_simp+
  show ?thesis
    using sandbox_directive[of "''Allow-Scripts  allow-forms''" Scripts 0]
      sandbox_directive[of "''Allow-Scripts  allow-forms''" Origin 0] l by (simp add: s)
qed

section \<open>Names\<close>

lemma target_keyword_not_named: "target_keyword raw \<noteq> Some (TNamed n)"
  by (simp add: target_keyword_def)

text \<open>A parsed target is canonical: it is a keyword's selector or a name that is neither empty
  nor the spelling of a keyword in any case, and the name a new context gets is always one a
  lookup can find again.\<close>

theorem targets_canonical:
  "is_canonical (target_parse raw) \<and> is_canonical (for_window_open raw) \<and>
   new_context_name (for_window_open raw) = context_name_parse raw \<and>
   (case context_name_parse raw of
      Some n \<Rightarrow> n = raw \<and> target_parse n = TNamed n \<and> for_window_open n = TNamed n \<and> noopener_withholds (TNamed n)
    | None \<Rightarrow> new_context_name (target_parse raw) = None)"
  using target_keyword_not_named[of raw]
  by (auto simp: is_canonical_def target_parse_def for_window_open_def new_context_name_def context_name_parse_def
      noopener_withholds_def split: option.splits target_name.splits)

end
