(* ===== verification/Frame_Tree.thy ===== *)
theory Frame_Tree
  imports Sandbox_Flags Tb_Prelude
begin

text \<open>
  \<open>crates/renderer/src/messaging.rs\<close>, \<open>FrameTree\<close>: the browsing contexts of one tab. Frames are
  the numbers of their \<open>FrameId\<close>, a container is the document and node of its \<open>NodeId\<close>. The
  hash maps are partial functions; where the code iterates over one, the definition takes the
  iteration order as an argument, a list of its keys. Loops that follow parent or child links are
  \<open>partial_function\<close>s, and \<open>None\<close> means that they do not return.
\<close>

type_synonym container = "nat \<times> nat"

definition MAX_FRAMES :: nat where
  "MAX_FRAMES = 256"

definition MAIN_FRAME :: nat where
  "MAIN_FRAME = 0"

datatype frame_origin =
    Container nat container
  | Auxiliary nat bool

record frame_tree =
  ft_origins :: "nat \<Rightarrow> frame_origin option"
  ft_children :: "nat \<Rightarrow> nat list option"
  ft_owners :: "container \<Rightarrow> nat option"
  ft_names :: "nat \<Rightarrow> string option"
  ft_popup_sandbox :: "nat \<Rightarrow> 32 word option"
  ft_main_auxiliary_with_opener :: bool

definition frame_tree_default :: frame_tree where
  "frame_tree_default = \<lparr> ft_origins = Map.empty, ft_children = Map.empty, ft_owners = Map.empty, ft_names = Map.empty,
     ft_popup_sandbox = Map.empty, ft_main_auxiliary_with_opener = False \<rparr>"

text \<open>\<open>len\<close>, given the keys of \<open>origins\<close>.\<close>

definition ft_len :: "nat list \<Rightarrow> frame_tree \<Rightarrow> nat" where
  "ft_len keys t = length keys"

section \<open>Queries\<close>

definition frame_name :: "frame_tree \<Rightarrow> nat \<Rightarrow> string" where
  "frame_name t f = (case ft_names t f of Some n \<Rightarrow> n | None \<Rightarrow> [])"

definition frame_contains :: "frame_tree \<Rightarrow> nat \<Rightarrow> bool" where
  "frame_contains t f = (ft_origins t f \<noteq> None)"

definition frame_is_alive :: "frame_tree \<Rightarrow> nat \<Rightarrow> bool" where
  "frame_is_alive t f = (f = MAIN_FRAME \<or> frame_contains t f)"

definition frame_parent :: "frame_tree \<Rightarrow> nat \<Rightarrow> nat option" where
  "frame_parent t f = (case ft_origins t f of Some (Container p _) \<Rightarrow> Some p | _ \<Rightarrow> None)"

definition frame_opener :: "frame_tree \<Rightarrow> nat \<Rightarrow> nat option" where
  "frame_opener t f = (case ft_origins t f of Some (Auxiliary opener visible) \<Rightarrow> if visible then Some opener else None | _ \<Rightarrow> None)"

definition auxiliary_opener :: "frame_tree \<Rightarrow> nat \<Rightarrow> nat option" where
  "auxiliary_opener t f = (case ft_origins t f of Some (Auxiliary opener _) \<Rightarrow> Some opener | _ \<Rightarrow> None)"

definition frame_children :: "frame_tree \<Rightarrow> nat \<Rightarrow> nat list" where
  "frame_children t f = (case ft_children t f of Some cs \<Rightarrow> cs | None \<Rightarrow> [])"

definition frame_container :: "frame_tree \<Rightarrow> nat \<Rightarrow> container option" where
  "frame_container t f = (case ft_origins t f of Some (Container _ c) \<Rightarrow> Some c | _ \<Rightarrow> None)"

definition frame_for_container :: "frame_tree \<Rightarrow> container \<Rightarrow> nat option" where
  "frame_for_container t c = ft_owners t c"

definition popup_sandbox :: "frame_tree \<Rightarrow> nat \<Rightarrow> 32 word" where
  "popup_sandbox t f = (case ft_popup_sandbox t f of Some s \<Rightarrow> s | None \<Rightarrow> sandbox_empty)"

section \<open>Updates\<close>

text \<open>\<open>siblings.insert(index, child)\<close> before the target, or \<open>push\<close>.\<close>

definition insert_before :: "nat option \<Rightarrow> nat \<Rightarrow> nat list \<Rightarrow> nat list" where
  "insert_before before child siblings =
     (case Option.bind before (\<lambda>target. position (\<lambda>f. f = target) siblings) of
        Some i \<Rightarrow> take i siblings @ child # drop i siblings
      | None \<Rightarrow> siblings @ [child])"

definition name_entry :: "nat \<Rightarrow> (nat \<Rightarrow> string option) \<Rightarrow> nat \<Rightarrow> string option" where
  "name_entry f names = (case names f of Some _ \<Rightarrow> names | None \<Rightarrow> names(f \<mapsto> []))"

definition add_container :: "nat \<Rightarrow> nat \<Rightarrow> container \<Rightarrow> nat option \<Rightarrow> frame_tree \<Rightarrow> frame_tree" where
  "add_container parent child c before t =
     t\<lparr>ft_origins := (ft_origins t)(child \<mapsto> Container parent c),
       ft_owners := (ft_owners t)(c \<mapsto> child),
       ft_children := (ft_children t)(parent \<mapsto> insert_before before child (frame_children t parent)),
       ft_names := name_entry child (ft_names t)\<rparr>"

definition set_popup_sandbox :: "nat \<Rightarrow> 32 word \<Rightarrow> frame_tree \<Rightarrow> frame_tree" where
  "set_popup_sandbox f s t =
     t\<lparr>ft_popup_sandbox := (if s = sandbox_empty then (ft_popup_sandbox t)(f := None) else (ft_popup_sandbox t)(f \<mapsto> s))\<rparr>"

definition add_auxiliary :: "nat \<Rightarrow> nat \<Rightarrow> bool \<Rightarrow> 32 word \<Rightarrow> frame_tree \<Rightarrow> frame_tree" where
  "add_auxiliary opener child visible s t =
     set_popup_sandbox child s
       (t\<lparr>ft_origins := (ft_origins t)(child \<mapsto> Auxiliary opener visible), ft_names := name_entry child (ft_names t)\<rparr>)"

definition reposition_frame :: "nat list \<Rightarrow> nat \<Rightarrow> nat option \<Rightarrow> frame_tree \<Rightarrow> frame_tree" where
  "reposition_frame keys child before t =
     (case find (\<lambda>p. child \<in> set (frame_children t p)) keys of
        None \<Rightarrow> t
      | Some p \<Rightarrow>
          t\<lparr>ft_children := (ft_children t)(p \<mapsto> insert_before before child (remove1 child (frame_children t p)))\<rparr>)"

definition set_frame_name :: "nat \<Rightarrow> string \<Rightarrow> frame_tree \<Rightarrow> frame_tree" where
  "set_frame_name f name t = t\<lparr>ft_names := (ft_names t)(f \<mapsto> name)\<rparr>"

definition set_main_auxiliary_with_opener :: "bool \<Rightarrow> frame_tree \<Rightarrow> frame_tree" where
  "set_main_auxiliary_with_opener a t = t\<lparr>ft_main_auxiliary_with_opener := a\<rparr>"

definition keeps_name_across_origins :: "frame_tree \<Rightarrow> nat \<Rightarrow> bool" where
  "keeps_name_across_origins t f =
     (case ft_origins t f of
        Some (Container _ _) \<Rightarrow> True
      | Some (Auxiliary opener visible) \<Rightarrow> visible \<and> frame_is_alive t opener
      | None \<Rightarrow> ft_main_auxiliary_with_opener t)"

definition reset_name_on_cross_origin_navigation :: "nat \<Rightarrow> bool \<Rightarrow> frame_tree \<Rightarrow> bool \<times> frame_tree" where
  "reset_name_on_cross_origin_navigation f same_origin t =
     (if same_origin \<or> keeps_name_across_origins t f then (False, t)
      else (case ft_names t f of Some n \<Rightarrow> n \<noteq> [] | None \<Rightarrow> False, t\<lparr>ft_names := (ft_names t)(f := None)\<rparr>))"

definition remove_tree_frame :: "nat \<Rightarrow> frame_tree \<Rightarrow> frame_origin option \<times> frame_tree" where
  "remove_tree_frame child t =
     (case ft_origins t child of
        None \<Rightarrow> (None, t)
      | Some orig \<Rightarrow>
          (let t = t\<lparr>ft_origins := (ft_origins t)(child := None)\<rparr>;
               t = (case orig of
                      Container p c \<Rightarrow>
                        t\<lparr>ft_children := (case ft_children t p of
                            Some siblings \<Rightarrow> (ft_children t)(p \<mapsto> filter (\<lambda>f. f \<noteq> child) siblings)
                          | None \<Rightarrow> ft_children t),
                          ft_owners := (ft_owners t)(c := None)\<rparr>
                    | Auxiliary _ _ \<Rightarrow> t)
           in (Some orig,
               t\<lparr>ft_children := (ft_children t)(child := None), ft_names := (ft_names t)(child := None),
                 ft_popup_sandbox := (ft_popup_sandbox t)(child := None)\<rparr>)))"

section \<open>Walks\<close>

partial_function (option) top_level :: "frame_tree \<Rightarrow> nat \<Rightarrow> nat option" where
  "top_level t f = (case frame_parent t f of Some p \<Rightarrow> top_level t p | None \<Rightarrow> Some f)"

partial_function (option) frame_is_inclusive_descendant :: "frame_tree \<Rightarrow> nat \<Rightarrow> nat \<Rightarrow> bool option" where
  "frame_is_inclusive_descendant t ancestor f =
     (if f = ancestor then Some True
      else case frame_parent t f of Some p \<Rightarrow> frame_is_inclusive_descendant t ancestor p | None \<Rightarrow> Some False)"

text \<open>\<open>find_by_target_name\<close> over the frames of a list, one after the other: the recursion of the code
  runs over the list of the children.\<close>

partial_function (option) find_in_subtrees :: "frame_tree \<Rightarrow> string \<Rightarrow> nat list \<Rightarrow> nat option option" where
  "find_in_subtrees t target fs =
     (if fs = [] then Some None
      else if frame_name t (hd fs) = target then Some (Some (hd fs))
      else Option.bind (find_in_subtrees t target (frame_children t (hd fs)))
             (\<lambda>found. if found \<noteq> None then Some found else find_in_subtrees t target (tl fs)))"

definition find_by_target_name :: "frame_tree \<Rightarrow> nat \<Rightarrow> string \<Rightarrow> nat option option" where
  "find_by_target_name t subtree target = find_in_subtrees t target [subtree]"

definition is_auxiliary :: "frame_tree \<Rightarrow> nat \<Rightarrow> bool" where
  "is_auxiliary t f = (case ft_origins t f of Some (Auxiliary _ _) \<Rightarrow> True | _ \<Rightarrow> False)"

definition find_by_auxiliary_name :: "nat list \<Rightarrow> frame_tree \<Rightarrow> nat \<Rightarrow> string \<Rightarrow> nat option option" where
  "find_by_auxiliary_name keys t current target =
     find_in_subtrees t target (filter (\<lambda>f. f \<noteq> current) (sort (filter (is_auxiliary t) keys)))"

definition choose_navigable :: "nat list \<Rightarrow> frame_tree \<Rightarrow> target_name \<Rightarrow> nat \<Rightarrow> nat option option" where
  "choose_navigable keys t target current =
     (case target of
        TCurrent \<Rightarrow> Some (Some current)
      | TParent \<Rightarrow> Some (Some (case frame_parent t current of Some p \<Rightarrow> p | None \<Rightarrow> current))
      | TTop \<Rightarrow> map_option Some (top_level t current)
      | TBlank \<Rightarrow> Some None
      | TNamed name \<Rightarrow>
          Option.bind (top_level t current) (\<lambda>top_frame.
          Option.bind (find_by_target_name t current name) (\<lambda>found.
            if found \<noteq> None then Some found
            else Option.bind (find_by_target_name t top_frame name) (\<lambda>found.
              if found \<noteq> None then Some found else find_by_auxiliary_name keys t top_frame name))))"

text \<open>The frames \<open>detach_child_frames\<close> removes, in order: its stack of pending frames has its last
  element on top.\<close>

partial_function (option) collect_descendants :: "frame_tree \<Rightarrow> nat list \<Rightarrow> nat list option" where
  "collect_descendants t pending =
     (if pending = [] then Some []
      else Option.bind (collect_descendants t (butlast pending @ frame_children t (last pending)))
             (\<lambda>removed. Some (last pending # removed)))"

end
