(* ===== verification/Message_Ports.thy ===== *)
theory Message_Ports
  imports Url_Model Tb_Prelude
begin

text \<open>
  \<open>crates/renderer/src/messaging.rs\<close>, \<open>PortTable\<close>: the endpoints of message channels, and the
  deliveries they produce. An operation that takes \<open>&mut self\<close> and \<open>deliveries\<close> is a function on
  the pair of both. \<open>TargetOrigin\<close> of \<open>protocol.rs\<close> takes the URL parser as an argument.
\<close>

section \<open>Deliveries\<close>

datatype target_origin = AnyOrigin | ExactOrigin origin

definition target_origin_parse :: "(string \<Rightarrow> url option) \<Rightarrow> string \<Rightarrow> origin option \<Rightarrow> target_origin option" where
  "target_origin_parse url_parse spec sender =
     (if spec = ''*'' then Some AnyOrigin
      else if spec = ''/'' then map_option ExactOrigin sender
      else map_option (\<lambda>u. ExactOrigin (u_origin u)) (url_parse spec))"

definition target_origin_admits :: "target_origin \<Rightarrow> origin \<Rightarrow> bool" where
  "target_origin_admits t orig = (case t of AnyOrigin \<Rightarrow> True | ExactOrigin target \<Rightarrow> target = orig)"

record window_message =
  wm_source :: nat
  wm_origin :: string
  wm_target_origin :: target_origin
  wm_payload :: string
  wm_ports :: "nat list"

text \<open>\<open>Delivery::WindowMessage\<close> has the target frame and its document beside the fields that the
  engine passes on as a \<open>WindowMessage\<close>.\<close>

datatype delivery =
    DWindowMessage nat nat window_message
  | DPortMessage nat string "nat list"
  | DPortClosed nat

section \<open>Endpoints\<close>

record queued_port_message =
  qm_payload :: string
  qm_ports :: "nat list"

record port_endpoint =
  pe_peer :: "nat option"
  pe_owner :: "nat option"
  pe_enabled :: bool
  pe_closed :: bool
  pe_detached :: bool
  pe_recipient :: "nat option"
  pe_close_pending :: bool
  pe_queue :: "queued_port_message list"

definition port_default :: port_endpoint where
  "port_default = \<lparr> pe_peer = None, pe_owner = None, pe_enabled = False, pe_closed = False, pe_detached = False,
     pe_recipient = None, pe_close_pending = False, pe_queue = [] \<rparr>"

record port_table =
  pt_next :: nat
  pt_ports :: "nat \<Rightarrow> port_endpoint option"

definition port_table_default :: port_table where
  "port_table_default = \<lparr> pt_next = 0, pt_ports = Map.empty \<rparr>"

definition put_port :: "nat \<Rightarrow> port_endpoint \<Rightarrow> port_table \<Rightarrow> port_table" where
  "put_port e p t = t\<lparr>pt_ports := (pt_ports t)(e \<mapsto> p)\<rparr>"

definition drop_port :: "nat \<Rightarrow> port_table \<Rightarrow> port_table" where
  "drop_port e t = t\<lparr>pt_ports := (pt_ports t)(e := None)\<rparr>"

definition port_alloc :: "port_table \<Rightarrow> nat \<times> port_table" where
  "port_alloc t = (pt_next t, put_port (pt_next t) port_default (t\<lparr>pt_next := sat_succ (pt_next t)\<rparr>))"

definition port_new_pair :: "nat \<Rightarrow> port_table \<Rightarrow> (nat \<times> nat) \<times> port_table" where
  "port_new_pair owner t =
     (let (port1, t) = port_alloc t;
          (port2, t) = port_alloc t;
          first = the (pt_ports t port1);
          t = put_port port1 (first\<lparr>pe_peer := Some port2, pe_owner := Some owner, pe_recipient := Some owner\<rparr>) t;
          second = the (pt_ports t port2);
          t = put_port port2 (second\<lparr>pe_peer := Some port1, pe_owner := Some owner, pe_recipient := Some owner\<rparr>) t
      in ((port1, port2), t))"

definition port_route :: "nat \<Rightarrow> nat \<Rightarrow> port_table \<Rightarrow> port_table" where
  "port_route e recipient t =
     (case pt_ports t e of
        Some p \<Rightarrow> if pe_detached p then put_port e (p\<lparr>pe_recipient := Some recipient\<rparr>) t else t
      | None \<Rightarrow> t)"

text \<open>The loop that empties a queue into the deliveries.\<close>

definition drain_queue :: "nat \<Rightarrow> queued_port_message list \<Rightarrow> delivery list" where
  "drain_queue e q = map (\<lambda>m. DPortMessage e (qm_payload m) (qm_ports m)) q"

definition flush_port :: "nat \<Rightarrow> port_endpoint \<Rightarrow> port_table \<times> delivery list \<Rightarrow> port_table \<times> delivery list" where
  "flush_port e p td = (put_port e (p\<lparr>pe_queue := []\<rparr>) (fst td), snd td @ drain_queue e (pe_queue p))"

definition port_post ::
  "nat \<Rightarrow> string \<Rightarrow> nat list \<Rightarrow> port_table \<times> delivery list \<Rightarrow> port_table \<times> delivery list" where
  "port_post from payload ports td =
     (let t = fst td in
      case pt_ports t from of
        None \<Rightarrow> td
      | Some port \<Rightarrow>
          if pe_closed port \<or> pe_detached port then td
          else (case pe_peer port of
                  None \<Rightarrow> td
                | Some peer_id \<Rightarrow>
                    (case pt_ports t peer_id of
                       None \<Rightarrow> td
                     | Some peer \<Rightarrow>
                         if pe_closed peer then td
                         else (let peer = peer\<lparr>pe_queue := pe_queue peer @ [\<lparr> qm_payload = payload, qm_ports = ports \<rparr>]\<rparr>
                               in if pe_enabled peer \<and> \<not> pe_detached peer then flush_port peer_id peer td
                                  else (put_port peer_id peer t, snd td)))))"

definition port_requeue ::
  "nat \<Rightarrow> string \<Rightarrow> nat list \<Rightarrow> port_table \<times> delivery list \<Rightarrow> port_table \<times> delivery list" where
  "port_requeue e payload ports td =
     (case pt_ports (fst td) e of
        None \<Rightarrow> td
      | Some port \<Rightarrow>
          if pe_closed port then td
          else (let port = port\<lparr>pe_queue := \<lparr> qm_payload = payload, qm_ports = ports \<rparr> # pe_queue port\<rparr>
                in if pe_enabled port \<and> \<not> pe_detached port then flush_port e port td
                   else (put_port e port (fst td), snd td)))"

definition port_requeue_close :: "nat \<Rightarrow> port_table \<times> delivery list \<Rightarrow> port_table \<times> delivery list" where
  "port_requeue_close e td =
     (case pt_ports (fst td) e of
        None \<Rightarrow> td
      | Some port \<Rightarrow>
          if pe_closed port then td
          else if pe_detached port then (put_port e (port\<lparr>pe_close_pending := True\<rparr>) (fst td), snd td)
          else (fst td, snd td @ [DPortClosed e]))"

definition port_start :: "nat \<Rightarrow> port_table \<times> delivery list \<Rightarrow> port_table \<times> delivery list" where
  "port_start e td =
     (case pt_ports (fst td) e of
        None \<Rightarrow> td
      | Some port \<Rightarrow>
          if pe_closed port then td
          else (let port = port\<lparr>pe_enabled := True\<rparr>
                in if pe_detached port then (put_port e port (fst td), snd td) else flush_port e port td))"

text \<open>The peer of an endpoint that goes away, as \<open>close\<close> and \<open>forget\<close> treat it.\<close>

definition disentangle_peer :: "nat \<Rightarrow> port_table \<times> delivery list \<Rightarrow> port_table \<times> delivery list" where
  "disentangle_peer peer_id td =
     (case pt_ports (fst td) peer_id of
        None \<Rightarrow> td
      | Some peer \<Rightarrow>
          (let peer = peer\<lparr>pe_peer := None\<rparr>
           in if pe_closed peer then (put_port peer_id peer (fst td), snd td)
              else if pe_detached peer then (put_port peer_id (peer\<lparr>pe_close_pending := True\<rparr>) (fst td), snd td)
              else if pe_owner peer \<noteq> None then (put_port peer_id peer (fst td), snd td @ [DPortClosed peer_id])
              else (put_port peer_id peer (fst td), snd td)))"

definition port_close :: "nat \<Rightarrow> port_table \<times> delivery list \<Rightarrow> port_table \<times> delivery list" where
  "port_close e td =
     (case pt_ports (fst td) e of
        None \<Rightarrow> td
      | Some port \<Rightarrow>
          if pe_closed port then td
          else
            (let t = put_port e (port\<lparr>pe_closed := True, pe_enabled := False, pe_queue := [], pe_peer := None\<rparr>) (fst td);
                 td = (case pe_peer port of Some peer_id \<Rightarrow> disentangle_peer peer_id (t, snd td) | None \<Rightarrow> (t, snd td))
             in (drop_port e (fst td), snd td)))"

definition port_detach :: "nat \<Rightarrow> nat \<Rightarrow> port_table \<Rightarrow> bool \<times> port_table" where
  "port_detach e frame t =
     (case pt_ports t e of
        None \<Rightarrow> (False, t)
      | Some port \<Rightarrow>
          if pe_closed port \<or> pe_detached port \<or> pe_owner port \<noteq> Some frame then (False, t)
          else (True, put_port e (port\<lparr>pe_owner := None, pe_detached := True, pe_recipient := Some frame, pe_enabled := False\<rparr>) t))"

definition port_adopt :: "nat \<Rightarrow> nat \<Rightarrow> port_table \<Rightarrow> bool option \<times> port_table" where
  "port_adopt e frame t =
     (case pt_ports t e of
        None \<Rightarrow> (None, t)
      | Some port \<Rightarrow>
          if \<not> pe_detached port \<or> pe_recipient port \<noteq> Some frame then (None, t)
          else (Some (pe_close_pending port),
                put_port e (port\<lparr>pe_detached := False, pe_owner := Some frame, pe_recipient := None, pe_close_pending := False\<rparr>) t))"

definition port_peer :: "port_table \<Rightarrow> nat \<Rightarrow> nat option" where
  "port_peer t e = Option.bind (pt_ports t e) pe_peer"

definition in_transit_from :: "port_table \<Rightarrow> nat \<Rightarrow> nat \<Rightarrow> bool" where
  "in_transit_from t e frame =
     (case pt_ports t e of Some p \<Rightarrow> pe_detached p \<and> \<not> pe_closed p \<and> pe_recipient p = Some frame | None \<Rightarrow> False)"

definition all_in_transit_from :: "port_table \<Rightarrow> nat list \<Rightarrow> nat \<Rightarrow> bool" where
  "all_in_transit_from t es frame = list_all (\<lambda>e. in_transit_from t e frame) es"

definition port_owner :: "port_table \<Rightarrow> nat \<Rightarrow> nat option" where
  "port_owner t e = Option.bind (pt_ports t e) pe_owner"

text \<open>\<open>keys\<close> is the iteration order of the table.\<close>

definition owned_ports :: "nat list \<Rightarrow> nat \<Rightarrow> port_table \<Rightarrow> nat list" where
  "owned_ports keys frame t =
     filter (\<lambda>e. case pt_ports t e of Some p \<Rightarrow> pe_owner p = Some frame \<and> \<not> pe_closed p | None \<Rightarrow> False) keys"

definition port_close_frame_ports ::
  "nat list \<Rightarrow> nat \<Rightarrow> port_table \<times> delivery list \<Rightarrow> port_table \<times> delivery list" where
  "port_close_frame_ports keys frame td = fold port_close (owned_ports keys frame (fst td)) td"

definition port_forget :: "nat \<Rightarrow> port_table \<times> delivery list \<Rightarrow> port_table \<times> delivery list" where
  "port_forget e td =
     (case pt_ports (fst td) e of
        None \<Rightarrow> td
      | Some port \<Rightarrow>
          (let t = drop_port e (fst td)
           in case pe_peer port of
                None \<Rightarrow> (t, snd td)
              | Some peer_id \<Rightarrow> disentangle_peer peer_id (t, snd td)))"

end
