(* ===== verification/Browsing_Contexts.thy ===== *)
theory Browsing_Contexts
  imports Frame_Tree Message_Ports
begin

text \<open>
  \<open>crates/renderer/src/messaging.rs\<close>, \<open>Shared\<close>, with the callers that change it: the host functions
  of \<open>js/bindings/messaging.rs\<close> and \<open>js/world.rs\<close>, each run on behalf of one frame, and the routing of
  \<open>engine.rs\<close> and \<open>document/mod.rs\<close>. A host function takes ids; a JavaScript number that is no id makes
  the code return without effect. The argument \<open>iter\<close> is the iteration order of the port table.
\<close>

section \<open>Shared state\<close>

definition PAYLOAD_VERSION :: string where
  "PAYLOAD_VERSION = ''tb1:''"

record shared =
  sh_tree :: frame_tree
  sh_ports :: port_table
  sh_deliveries :: "delivery list"
  sh_next_frame :: nat
  sh_document_ids :: "nat \<Rightarrow> nat option"
  sh_next_document :: nat
  sh_removed_frames :: "(nat \<times> container option) list"

definition shared_default :: shared where
  "shared_default = \<lparr> sh_tree = frame_tree_default, sh_ports = port_table_default, sh_deliveries = [], sh_next_frame = 1,
     sh_document_ids = Map.empty, sh_next_document = 0, sh_removed_frames = [] \<rparr>"

definition allocate_frame :: "shared \<Rightarrow> nat \<times> shared" where
  "allocate_frame s = (sh_next_frame s, s\<lparr>sh_next_frame := sat_succ (sh_next_frame s)\<rparr>)"

definition begin_document :: "nat \<Rightarrow> shared \<Rightarrow> nat \<times> shared" where
  "begin_document f s =
     (sh_next_document s,
      s\<lparr>sh_next_document := sat_succ (sh_next_document s), sh_document_ids := (sh_document_ids s)(f \<mapsto> sh_next_document s)\<rparr>)"

definition document_id :: "shared \<Rightarrow> nat \<Rightarrow> nat option" where
  "document_id s f = sh_document_ids s f"

definition forget_document :: "nat \<Rightarrow> shared \<Rightarrow> shared" where
  "forget_document f s = s\<lparr>sh_document_ids := (sh_document_ids s)(f := None)\<rparr>"

definition take_deliveries :: "shared \<Rightarrow> delivery list \<times> shared" where
  "take_deliveries s = (sh_deliveries s, s\<lparr>sh_deliveries := []\<rparr>)"

definition take_removed_frames :: "shared \<Rightarrow> (nat \<times> container option) list \<times> shared" where
  "take_removed_frames s = (sh_removed_frames s, s\<lparr>sh_removed_frames := []\<rparr>)"

text \<open>An operation of the port table with \<open>&mut self.deliveries\<close>.\<close>

definition on_ports :: "(port_table \<times> delivery list \<Rightarrow> port_table \<times> delivery list) \<Rightarrow> shared \<Rightarrow> shared" where
  "on_ports f s =
     (let (t, ds) = f (sh_ports s, sh_deliveries s) in s\<lparr>sh_ports := t, sh_deliveries := ds\<rparr>)"

definition close_frame_ports :: "(port_table \<Rightarrow> nat list) \<Rightarrow> nat \<Rightarrow> shared \<Rightarrow> shared" where
  "close_frame_ports iter f s = on_ports (port_close_frame_ports (iter (sh_ports s)) f) s"

definition forget_endpoints :: "nat list \<Rightarrow> shared \<Rightarrow> shared" where
  "forget_endpoints es s = fold (\<lambda>e. on_ports (port_forget e)) es s"

definition requeue_port_message :: "nat \<Rightarrow> string \<Rightarrow> nat list \<Rightarrow> shared \<Rightarrow> shared" where
  "requeue_port_message e payload ports s = on_ports (port_requeue e payload ports) s"

definition requeue_port_close :: "nat \<Rightarrow> shared \<Rightarrow> shared" where
  "requeue_port_close e s = on_ports (port_requeue_close e) s"

definition remove_shared_frame :: "nat \<Rightarrow> shared \<Rightarrow> shared" where
  "remove_shared_frame f s = s\<lparr>sh_tree := snd (remove_tree_frame f (sh_tree s))\<rparr>"

text \<open>The body of the second loop of \<open>detach_child_frames\<close>.\<close>

definition detach_one :: "(port_table \<Rightarrow> nat list) \<Rightarrow> nat \<Rightarrow> shared \<Rightarrow> shared" where
  "detach_one iter child s =
     (let c = (case fst (remove_tree_frame child (sh_tree s)) of Some (Container _ c) \<Rightarrow> Some c | _ \<Rightarrow> None);
          s = close_frame_ports iter child (forget_document child (remove_shared_frame child s))
      in s\<lparr>sh_removed_frames := sh_removed_frames s @ [(child, c)]\<rparr>)"

definition detach_child_frames :: "(port_table \<Rightarrow> nat list) \<Rightarrow> nat \<Rightarrow> shared \<Rightarrow> shared option" where
  "detach_child_frames iter f s =
     map_option (\<lambda>removed. fold (detach_one iter) removed s)
       (collect_descendants (sh_tree s) (frame_children (sh_tree s) f))"

definition remove_child_navigable :: "(port_table \<Rightarrow> nat list) \<Rightarrow> nat \<Rightarrow> container \<Rightarrow> shared \<Rightarrow> shared option" where
  "remove_child_navigable iter f c s =
     map_option
       (\<lambda>s. let s = close_frame_ports iter f (forget_document f (remove_shared_frame f s))
            in s\<lparr>sh_removed_frames := sh_removed_frames s @ [(f, Some c)]\<rparr>)
       (detach_child_frames iter f s)"

definition close_auxiliary :: "(port_table \<Rightarrow> nat list) \<Rightarrow> nat \<Rightarrow> shared \<Rightarrow> shared option" where
  "close_auxiliary iter f s =
     (if frame_opener (sh_tree s) f = None then Some s
      else map_option
             (\<lambda>s. let s = close_frame_ports iter f (forget_document f (remove_shared_frame f s))
                  in s\<lparr>sh_removed_frames := sh_removed_frames s @ [(f, None)]\<rparr>)
             (detach_child_frames iter f s))"

section \<open>Host functions\<close>

definition endpoint_owned :: "nat \<Rightarrow> nat \<Rightarrow> shared \<Rightarrow> bool" where
  "endpoint_owned frame e s = (port_owner (sh_ports s) e = Some frame)"

definition host_post_window_message ::
  "(string \<Rightarrow> url option) \<Rightarrow> nat \<Rightarrow> string \<Rightarrow> origin \<Rightarrow> nat \<Rightarrow> string \<Rightarrow> string \<Rightarrow> nat list \<Rightarrow> shared \<Rightarrow> shared" where
  "host_post_window_message url_parse source origin_text origin_identity target spec payload ports s =
     (if \<not> starts_with payload PAYLOAD_VERSION then s
      else if \<not> all_in_transit_from (sh_ports s) ports source then s
      else (case target_origin_parse url_parse spec (Some origin_identity) of
              None \<Rightarrow> forget_endpoints ports s
            | Some target_origin \<Rightarrow>
                (case document_id s target of
                   None \<Rightarrow> forget_endpoints ports s
                 | Some document \<Rightarrow>
                     s\<lparr>sh_deliveries := sh_deliveries s @ [DWindowMessage target document
                         \<lparr> wm_source = source, wm_origin = origin_text, wm_target_origin = target_origin,
                           wm_payload = payload, wm_ports = ports \<rparr>]\<rparr>)))"

definition host_port_new :: "nat \<Rightarrow> shared \<Rightarrow> (nat \<times> nat) \<times> shared" where
  "host_port_new frame s = (let (pair, t) = port_new_pair frame (sh_ports s) in (pair, s\<lparr>sh_ports := t\<rparr>))"

definition host_port_post :: "nat \<Rightarrow> nat \<Rightarrow> string \<Rightarrow> nat list \<Rightarrow> shared \<Rightarrow> shared" where
  "host_port_post frame e payload ports s =
     (if \<not> starts_with payload PAYLOAD_VERSION then s
      else if \<not> endpoint_owned frame e s then s
      else if \<not> all_in_transit_from (sh_ports s) ports frame then s
      else on_ports (port_post e payload ports) s)"

definition host_port_start :: "nat \<Rightarrow> nat \<Rightarrow> shared \<Rightarrow> shared" where
  "host_port_start frame e s = (if \<not> endpoint_owned frame e s then s else on_ports (port_start e) s)"

definition host_port_close :: "nat \<Rightarrow> nat \<Rightarrow> shared \<Rightarrow> shared" where
  "host_port_close frame e s = (if \<not> endpoint_owned frame e s then s else on_ports (port_close e) s)"

definition host_port_detach :: "nat \<Rightarrow> nat \<Rightarrow> shared \<Rightarrow> bool \<times> shared" where
  "host_port_detach frame e s = (let (r, t) = port_detach e frame (sh_ports s) in (r, s\<lparr>sh_ports := t\<rparr>))"

definition host_port_adopt :: "nat \<Rightarrow> nat \<Rightarrow> shared \<Rightarrow> bool option \<times> shared" where
  "host_port_adopt frame e s = (let (r, t) = port_adopt e frame (sh_ports s) in (r, s\<lparr>sh_ports := t\<rparr>))"

definition host_port_peer :: "nat \<Rightarrow> nat \<Rightarrow> shared \<Rightarrow> nat option" where
  "host_port_peer frame e s = (if \<not> endpoint_owned frame e s then None else port_peer (sh_ports s) e)"

text \<open>\<open>World::register_frame_for_container\<close>, run by the world of \<open>frame\<close>: whether the container is a
  connected child navigable container, its \<open>name\<close> attribute and the frame it sorts before come
  from the document; \<open>keys\<close> are the keys of the frame tree.\<close>

definition register_frame_for_container ::
  "nat list \<Rightarrow> bool \<Rightarrow> string \<Rightarrow> nat option \<Rightarrow> nat \<Rightarrow> container \<Rightarrow> shared \<Rightarrow> nat option \<times> shared" where
  "register_frame_for_container keys eligible name before frame c s =
     (if frame_for_container (sh_tree s) c \<noteq> None then (None, s)
      else if \<not> eligible \<or> ft_len keys (sh_tree s) \<ge> MAX_FRAMES then (None, s)
      else (let (f, s) = allocate_frame s;
                t = add_container frame f c before (sh_tree s);
                t = (if name \<noteq> [] then set_frame_name f name t else t)
            in (Some f, s\<lparr>sh_tree := t\<rparr>)))"

text \<open>\<open>World::create_auxiliary\<close>: \<open>allowed\<close> is the result of the sandbox and URL checks, \<open>has_host\<close>
  whether a frame host is installed.\<close>

definition create_auxiliary ::
  "nat list \<Rightarrow> bool \<Rightarrow> bool \<Rightarrow> 32 word \<Rightarrow> bool \<Rightarrow> target_name \<Rightarrow> nat \<Rightarrow> shared \<Rightarrow> nat option \<times> shared" where
  "create_auxiliary keys allowed has_host sandbox keep target current s =
     (if \<not> allowed then (None, s)
      else if ft_len keys (sh_tree s) \<ge> MAX_FRAMES then (None, s)
      else (let (f, s) = allocate_frame s;
                t = add_auxiliary current f keep (auxiliary_flags sandbox) (sh_tree s);
                t = (case new_context_name target of Some n \<Rightarrow> set_frame_name f n t | None \<Rightarrow> t);
                s = s\<lparr>sh_tree := t\<rparr>
            in if has_host then (Some f, s) else (None, remove_shared_frame f s)))"

definition destroy_child_navigables :: "(port_table \<Rightarrow> nat list) \<Rightarrow> container list \<Rightarrow> shared \<Rightarrow> shared option" where
  "destroy_child_navigables iter cs s =
     fold (\<lambda>c acc. Option.bind acc (\<lambda>s.
             case frame_for_container (sh_tree s) c of
               Some f \<Rightarrow> remove_child_navigable iter f c s
             | None \<Rightarrow> Some s)) cs (Some s)"

section \<open>Routing\<close>

text \<open>The tasks of \<open>document/mod.rs\<close> that carry messages.\<close>

datatype message_task =
    TWindowMessage window_message
  | TPortMessage nat string "nat list"
  | TPortClosed nat

text \<open>The engine: the shared state and the task queue of each frame's document.\<close>

record engine =
  en_shared :: shared
  en_frames :: "nat \<Rightarrow> message_task list option"

definition push_task :: "nat \<Rightarrow> message_task \<Rightarrow> engine \<Rightarrow> engine" where
  "push_task f task en =
     en\<lparr>en_frames := (en_frames en)(f := map_option (\<lambda>ts. ts @ [task]) (en_frames en f))\<rparr>"

definition route_endpoints :: "nat list \<Rightarrow> nat \<Rightarrow> shared \<Rightarrow> shared" where
  "route_endpoints es target s = s\<lparr>sh_ports := fold (\<lambda>e. port_route e target) es (sh_ports s)\<rparr>"

definition apply_delivery :: "delivery \<Rightarrow> engine \<Rightarrow> engine" where
  "apply_delivery d en =
     (let s = en_shared en in
      case d of
        DWindowMessage target document m \<Rightarrow>
          if en_frames en target \<noteq> None \<and> document_id s target = Some document
          then push_task target (TWindowMessage m) (en\<lparr>en_shared := route_endpoints (wm_ports m) target s\<rparr>)
          else en\<lparr>en_shared := forget_endpoints (wm_ports m) s\<rparr>
      | DPortMessage e payload ports \<Rightarrow>
          (case port_owner (sh_ports s) e of
             Some f \<Rightarrow>
               if en_frames en f \<noteq> None
               then push_task f (TPortMessage e payload ports) (en\<lparr>en_shared := route_endpoints ports f s\<rparr>)
               else en\<lparr>en_shared := forget_endpoints ports s\<rparr>
           | None \<Rightarrow> en\<lparr>en_shared := requeue_port_message e payload ports s\<rparr>)
      | DPortClosed e \<Rightarrow>
          (case port_owner (sh_ports s) e of
             Some f \<Rightarrow> if en_frames en f \<noteq> None then push_task f (TPortClosed e) en else en
           | None \<Rightarrow> en\<lparr>en_shared := requeue_port_close e s\<rparr>))"

definition apply_deliveries :: "delivery list \<Rightarrow> engine \<Rightarrow> engine" where
  "apply_deliveries ds en = fold apply_delivery ds en"

text \<open>What a task does in the realm of its frame.\<close>

datatype realm_event =
    WindowMessageEvent nat string string "nat list"
  | PortMessageEvent nat string "nat list"
  | PortCloseEvent nat

definition endpoint_moved :: "nat \<Rightarrow> nat \<Rightarrow> shared \<Rightarrow> bool" where
  "endpoint_moved frame e s = (port_owner (sh_ports s) e \<noteq> Some frame)"

definition deliver_window_message :: "bool \<Rightarrow> origin \<Rightarrow> window_message \<Rightarrow> shared \<Rightarrow> realm_event option \<times> shared" where
  "deliver_window_message js_ok orig m s =
     (if \<not> target_origin_admits (wm_target_origin m) orig then (None, forget_endpoints (wm_ports m) s)
      else if \<not> js_ok then (None, s)
      else (Some (WindowMessageEvent (wm_source m) (wm_origin m) (wm_payload m) (wm_ports m)), s))"

definition deliver_port_message :: "bool \<Rightarrow> nat \<Rightarrow> nat \<Rightarrow> string \<Rightarrow> nat list \<Rightarrow> shared \<Rightarrow> realm_event option \<times> shared" where
  "deliver_port_message js_ok frame e payload ports s =
     (if endpoint_moved frame e s then (None, requeue_port_message e payload ports s)
      else if \<not> js_ok then (None, s)
      else (Some (PortMessageEvent e payload ports), s))"

definition deliver_port_close :: "bool \<Rightarrow> nat \<Rightarrow> nat \<Rightarrow> shared \<Rightarrow> realm_event option \<times> shared" where
  "deliver_port_close js_ok frame e s =
     (if endpoint_moved frame e s then (None, requeue_port_close e s)
      else if \<not> js_ok then (None, s)
      else (Some (PortCloseEvent e), s))"

text \<open>The messaging part of \<open>reset_js_realm\<close>.\<close>

definition forget_task :: "message_task \<Rightarrow> shared \<Rightarrow> shared" where
  "forget_task task s =
     (case task of
        TWindowMessage m \<Rightarrow> forget_endpoints (wm_ports m) s
      | TPortMessage _ _ ports \<Rightarrow> forget_endpoints ports s
      | TPortClosed _ \<Rightarrow> s)"

definition reset_realm :: "(port_table \<Rightarrow> nat list) \<Rightarrow> bool \<Rightarrow> nat \<Rightarrow> message_task list \<Rightarrow> shared \<Rightarrow> shared option" where
  "reset_realm iter navigation frame tasks s =
     (let s = fold forget_task tasks s;
          s = (if navigation then snd (begin_document frame s) else s)
      in detach_child_frames iter frame (close_frame_ports iter frame s))"

end
