(* ===== verification/Frame_Tree_Inv.thy ===== *)
theory Frame_Tree_Inv
  imports Frame_Tree
begin

text \<open>
  The invariant of the frame tree. Frame ids are minted in increasing order and never reused, so a
  parent or an opener is always older than its frame: this is what makes every walk along the
  tree end. The walks are related to a listing of a subtree in tree order.
\<close>

section \<open>Invariant\<close>

definition origin_ok :: "nat \<Rightarrow> frame_tree \<Rightarrow> nat \<Rightarrow> frame_origin \<Rightarrow> bool" where
  "origin_ok n t f orig =
     (MAIN_FRAME < f \<and> f < n \<and>
      (case orig of Container p c \<Rightarrow> p < f \<and> ft_owners t c = Some f | Auxiliary opener _ \<Rightarrow> opener < f))"

definition tree_ok :: "nat \<Rightarrow> frame_tree \<Rightarrow> bool" where
  "tree_ok n t =
     (finite (dom (ft_origins t)) \<and>
      (\<forall>f orig. ft_origins t f = Some orig \<longrightarrow> origin_ok n t f orig) \<and>
      (\<forall>c f. ft_owners t c = Some f \<longrightarrow> (\<exists>p. ft_origins t f = Some (Container p c))) \<and>
      (\<forall>p. distinct (frame_children t p) \<and> set (frame_children t p) = {f. frame_parent t f = Some p}) \<and>
      (\<forall>f s. ft_popup_sandbox t f = Some s \<longrightarrow> s \<noteq> sandbox_empty))"

lemma frame_parent_Some: "frame_parent t f = Some p \<longleftrightarrow> (\<exists>c. ft_origins t f = Some (Container p c))"
  by (auto simp: frame_parent_def split: option.splits frame_origin.splits)

lemma tree_okD:
  assumes "tree_ok n t"
  shows "finite (dom (ft_origins t))" "ft_origins t f = Some orig \<Longrightarrow> origin_ok n t f orig"
    "ft_owners t c = Some f \<Longrightarrow> \<exists>p. ft_origins t f = Some (Container p c)"
    "distinct (frame_children t p)" "set (frame_children t p) = {f. frame_parent t f = Some p}"
    "ft_popup_sandbox t f = Some s \<Longrightarrow> s \<noteq> sandbox_empty"
  using assms unfolding tree_ok_def by blast+

lemma tree_okI:
  assumes "finite (dom (ft_origins t))" "\<And>f orig. ft_origins t f = Some orig \<Longrightarrow> origin_ok n t f orig"
    "\<And>c f. ft_owners t c = Some f \<Longrightarrow> \<exists>p. ft_origins t f = Some (Container p c)"
    "\<And>p. distinct (frame_children t p)" "\<And>p. set (frame_children t p) = {f. frame_parent t f = Some p}"
    "\<And>f s. ft_popup_sandbox t f = Some s \<Longrightarrow> s \<noteq> sandbox_empty"
  shows "tree_ok n t"
  using assms unfolding tree_ok_def by blast

lemma tree_ok_parent:
  assumes "tree_ok n t" "frame_parent t f = Some p"
  shows "p < f" "f < n"
proof -
  obtain c where "ft_origins t f = Some (Container p c)" using assms(2) by (auto simp: frame_parent_Some)
  then have "origin_ok n t f (Container p c)" by (rule tree_okD(2)[OF assms(1)])
  then show "p < f" "f < n" by (auto simp: origin_ok_def)
qed

lemma tree_ok_children:
  "tree_ok n t \<Longrightarrow> f \<in> set (frame_children t p) \<longleftrightarrow> frame_parent t f = Some p"
  "tree_ok n t \<Longrightarrow> distinct (frame_children t p)"
  by (auto simp: tree_ok_def)

lemma tree_ok_fresh: "tree_ok n t \<Longrightarrow> n \<le> f \<Longrightarrow> ft_origins t f = None"
  unfolding tree_ok_def origin_ok_def by (metis not_None_eq not_less)

lemma tree_ok_default: "tree_ok 1 frame_tree_default"
  by (auto simp: tree_ok_def frame_tree_default_def frame_children_def frame_parent_def)

lemma origin_ok_cong:
  "origin_ok n t f orig \<Longrightarrow> n \<le> m \<Longrightarrow> (\<And>p c. orig = Container p c \<Longrightarrow> ft_owners u c = ft_owners t c) \<Longrightarrow> origin_ok m u f orig"
  by (cases orig) (auto simp: origin_ok_def)

lemma tree_ok_transfer:
  assumes "tree_ok n t" "n \<le> m" "ft_origins u = ft_origins t" "ft_owners u = ft_owners t"
    "\<And>p. distinct (frame_children u p)" "\<And>p. set (frame_children u p) = set (frame_children t p)"
    "\<And>f s. ft_popup_sandbox u f = Some s \<Longrightarrow> s \<noteq> sandbox_empty"
  shows "tree_ok m u"
proof (rule tree_okI)
  show "set (frame_children u p) = {f. frame_parent u f = Some p}" for p
    using assms(3,6) tree_okD(5)[OF assms(1), of p] by (simp add: frame_parent_def)
  show "origin_ok m u f orig" if "ft_origins u f = Some orig" for f orig
    using that tree_okD(2)[OF assms(1)] assms(2,3,4) by (metis origin_ok_cong)
qed (use assms tree_okD(1,3)[OF assms(1)] in simp_all)

lemma tree_ok_mono:
  assumes "tree_ok n t" "n \<le> m"
  shows "tree_ok m t"
  using tree_okD(4,6)[OF assms(1)] by (intro tree_ok_transfer[OF assms]) simp_all

lemma tree_ok_owners:
  assumes "tree_ok n t"
  shows "ft_owners t c = Some f \<longleftrightarrow> (\<exists>p. ft_origins t f = Some (Container p c))"
proof
  assume "\<exists>p. ft_origins t f = Some (Container p c)"
  then obtain p where "ft_origins t f = Some (Container p c)" ..
  then have "origin_ok n t f (Container p c)" by (rule tree_okD(2)[OF assms])
  then show "ft_owners t c = Some f" by (simp add: origin_ok_def)
qed (rule tree_okD(3)[OF assms])

section \<open>Updates\<close>

lemma position_Some_lt: "position P xs = Some i \<Longrightarrow> i < length xs"
  by (induction xs arbitrary: i) (auto split: if_splits)

lemma set_insert_before [simp]: "set (insert_before b x xs) = insert x (set xs)"
proof (cases "Option.bind b (\<lambda>target. position (\<lambda>f. f = target) xs)")
  case (Some i)
  have "set (take i xs) \<union> set (drop i xs) = set xs" by (metis append_take_drop_id set_append)
  then show ?thesis using Some by (auto simp: insert_before_def)
qed (simp add: insert_before_def)

lemma distinct_insert_before: "distinct xs \<Longrightarrow> x \<notin> set xs \<Longrightarrow> distinct (insert_before b x xs)"
proof (cases "Option.bind b (\<lambda>target. position (\<lambda>f. f = target) xs)")
  case (Some i)
  assume d: "distinct xs" "x \<notin> set xs"
  have "distinct (take i xs @ drop i xs)" using d(1) by simp
  then have "distinct (take i xs)" "distinct (drop i xs)" "set (take i xs) \<inter> set (drop i xs) = {}"
    unfolding distinct_append by auto
  then show ?thesis using Some d(2) by (auto simp: insert_before_def dest: in_set_takeD in_set_dropD)
qed (simp add: insert_before_def)

lemma frame_children_add:
  "frame_children (add_container p f c b t) q = (if q = p then insert_before b f (frame_children t p) else frame_children t q)"
  by (simp add: add_container_def frame_children_def)

lemma frame_parent_add: "frame_parent (add_container p f c b t) g = (if g = f then Some p else frame_parent t g)"
  by (simp add: add_container_def frame_parent_def)

lemma tree_ok_add_container:
  assumes ok: "tree_ok n t" and p: "p < n" "MAIN_FRAME < n" and c: "ft_owners t c = None"
  shows "tree_ok (Suc n) (add_container p n c b t)" (is "tree_ok _ ?u")
proof (rule tree_okI)
  have fresh: "ft_origins t n = None" "frame_parent t n = None"
    using tree_ok_fresh[OF ok] by (auto simp: frame_parent_def)
  have org: "ft_origins ?u f = (if f = n then Some (Container p c) else ft_origins t f)"
    and own: "ft_owners ?u d = (if d = c then Some n else ft_owners t d)"
    and "ft_popup_sandbox ?u = ft_popup_sandbox t" for f d by (simp_all add: add_container_def)
  show "finite (dom (ft_origins ?u))" using tree_okD(1)[OF ok] by (simp add: add_container_def)
  show "distinct (frame_children ?u q)" for q
    using tree_okD(4,5)[OF ok] fresh(2) by (auto simp: frame_children_add intro!: distinct_insert_before)
  show "set (frame_children ?u q) = {f. frame_parent ?u f = Some q}" for q
    using tree_okD(5)[OF ok] fresh(2) by (auto simp: frame_children_add frame_parent_add)
  show "origin_ok (Suc n) ?u f orig" if "ft_origins ?u f = Some orig" for f orig
  proof (cases "f = n")
    case False
    then have f: "ft_origins t f = Some orig" using that org by simp
    have "ft_owners ?u d = ft_owners t d" if "orig = Container q d" for q d
      using tree_ok_owners[OF ok, of d f] f that c own by auto
    then show ?thesis by (rule origin_ok_cong[OF tree_okD(2)[OF ok f] le_SucI[OF order_refl]])
  qed (use that p org own[of c] in \<open>auto simp: origin_ok_def\<close>)
  show "\<exists>q. ft_origins ?u f = Some (Container q d)" if "ft_owners ?u d = Some f" for d f
  proof (cases "d = c")
    case False
    then have "\<exists>q. ft_origins t f = Some (Container q d)" using that own tree_okD(3)[OF ok] by simp
    then show ?thesis using org fresh(1) by auto
  qed (use that own org in auto)
  show "s \<noteq> sandbox_empty" if "ft_popup_sandbox ?u f = Some s" for f s
    using that tree_okD(6)[OF ok] by (simp add: add_container_def)
qed

lemma tree_ok_cong:
  assumes "tree_ok n t" "ft_origins u = ft_origins t" "ft_owners u = ft_owners t" "ft_children u = ft_children t"
    "\<And>f s. ft_popup_sandbox u f = Some s \<Longrightarrow> s \<noteq> sandbox_empty"
  shows "tree_ok n u"
  using assms(2,3,4,5) tree_okD(4)[OF assms(1)] by (intro tree_ok_transfer[OF assms(1) order_refl]) (simp_all add: frame_children_def)

lemma tree_ok_set_popup_sandbox:
  assumes "tree_ok n t"
  shows "tree_ok n (set_popup_sandbox f s t)"
  using tree_okD(6)[OF assms] by (intro tree_ok_cong[OF assms]) (auto simp: set_popup_sandbox_def split: if_splits)

lemma tree_ok_set_frame_name:
  assumes "tree_ok n t"
  shows "tree_ok n (set_frame_name f s t)"
  using tree_okD(6)[OF assms] by (intro tree_ok_cong[OF assms]) (auto simp: set_frame_name_def split: if_splits)

lemma tree_ok_set_main:
  assumes "tree_ok n t"
  shows "tree_ok n (set_main_auxiliary_with_opener a t)"
  using tree_okD(6)[OF assms] by (intro tree_ok_cong[OF assms]) (auto simp: set_main_auxiliary_with_opener_def split: if_splits)

lemma tree_ok_reset_name:
  assumes "tree_ok n t"
  shows "tree_ok n (snd (reset_name_on_cross_origin_navigation f so t))"
  using tree_okD(6)[OF assms] by (intro tree_ok_cong[OF assms]) (auto simp: reset_name_on_cross_origin_navigation_def split: if_splits)

lemma tree_ok_add_auxiliary:
  assumes "tree_ok n t" "opener < n" "MAIN_FRAME < n"
  shows "tree_ok (Suc n) (add_auxiliary opener n visible s t)"
proof -
  let ?u = "t\<lparr>ft_origins := (ft_origins t)(n \<mapsto> Auxiliary opener visible), ft_names := name_entry n (ft_names t)\<rparr>"
  have fresh: "ft_origins t n = None" using tree_ok_fresh[OF assms(1)] by simp
  have parent: "frame_parent ?u = frame_parent t" using fresh by (auto simp: frame_parent_def fun_eq_iff)
  have kids: "frame_children ?u = frame_children t" by (simp add: frame_children_def fun_eq_iff)
  have "tree_ok (Suc n) ?u"
  proof (rule tree_okI)
    show "origin_ok (Suc n) ?u f orig" if "ft_origins ?u f = Some orig" for f orig
    proof (cases "f = n")
      case False
      then have "ft_origins t f = Some orig" using that by simp
      then show ?thesis by (intro origin_ok_cong[OF tree_okD(2)[OF assms(1)]]) auto
    qed (use that assms(2,3) in \<open>auto simp: origin_ok_def\<close>)
    show "\<exists>p. ft_origins ?u f = Some (Container p c)" if "ft_owners ?u c = Some f" for c f
      using tree_okD(3)[OF assms(1), of c f] that fresh by auto
  qed (use tree_okD[OF assms(1)] in \<open>auto simp: parent kids\<close>)
  then show ?thesis by (simp add: add_auxiliary_def tree_ok_set_popup_sandbox)
qed

lemma tree_ok_reposition:
  assumes "tree_ok n t"
  shows "tree_ok n (reposition_frame keys f b t)"
proof (cases "find (\<lambda>p. f \<in> set (frame_children t p)) keys")
  case (Some p)
  let ?u = "reposition_frame keys f b t"
  have "f \<in> set (frame_children t p)" using Some by (auto simp: find_Some_iff)
  moreover have "distinct (frame_children t p)" using tree_ok_children(2)[OF assms] .
  ultimately have "distinct (insert_before b f (remove1 f (frame_children t p)))"
    "set (insert_before b f (remove1 f (frame_children t p))) = set (frame_children t p)"
    by (auto intro!: distinct_insert_before)
  moreover have "frame_children ?u q = (if q = p then insert_before b f (remove1 f (frame_children t p)) else frame_children t q)" for q
    using Some by (simp add: reposition_frame_def frame_children_def)
  moreover have "frame_parent ?u = frame_parent t" "ft_origins ?u = ft_origins t" "ft_owners ?u = ft_owners t"
    "ft_popup_sandbox ?u = ft_popup_sandbox t" using Some by (simp_all add: reposition_frame_def frame_parent_def fun_eq_iff)
  ultimately show ?thesis using tree_okD(4,6)[OF assms] by (intro tree_ok_transfer[OF assms order_refl]) simp_all
qed (use assms in \<open>simp add: reposition_frame_def\<close>)

section \<open>Removal\<close>

text \<open>Removing the frames of a list, parents before their children: what is left of each field.\<close>

definition removed_tree :: "nat set \<Rightarrow> frame_tree \<Rightarrow> frame_tree \<Rightarrow> bool" where
  "removed_tree X t u =
     ((\<forall>f. ft_origins u f = (if f \<in> X then None else ft_origins t f)) \<and>
      (\<forall>c. ft_owners u c = (case ft_owners t c of Some f \<Rightarrow> if f \<in> X then None else Some f | None \<Rightarrow> None)) \<and>
      (\<forall>p. frame_children u p = (if p \<in> X then [] else filter (\<lambda>f. f \<notin> X) (frame_children t p))) \<and>
      (\<forall>f. ft_names u f = (if f \<in> X then None else ft_names t f)) \<and>
      (\<forall>f. ft_popup_sandbox u f = (if f \<in> X then None else ft_popup_sandbox t f)))"

lemma removed_treeD:
  assumes "removed_tree X t u"
  shows "ft_origins u f = (if f \<in> X then None else ft_origins t f)"
    "ft_owners u c = (case ft_owners t c of Some f \<Rightarrow> if f \<in> X then None else Some f | None \<Rightarrow> None)"
    "frame_children u p = (if p \<in> X then [] else filter (\<lambda>f. f \<notin> X) (frame_children t p))"
    "ft_names u f = (if f \<in> X then None else ft_names t f)"
    "ft_popup_sandbox u f = (if f \<in> X then None else ft_popup_sandbox t f)"
  using assms unfolding removed_tree_def by blast+

lemma removed_treeI:
  assumes "\<And>f. ft_origins u f = (if f \<in> X then None else ft_origins t f)"
    "\<And>c. ft_owners u c = (case ft_owners t c of Some f \<Rightarrow> if f \<in> X then None else Some f | None \<Rightarrow> None)"
    "\<And>p. frame_children u p = (if p \<in> X then [] else filter (\<lambda>f. f \<notin> X) (frame_children t p))"
    "\<And>f. ft_names u f = (if f \<in> X then None else ft_names t f)"
    "\<And>f. ft_popup_sandbox u f = (if f \<in> X then None else ft_popup_sandbox t f)"
  shows "removed_tree X t u"
  using assms unfolding removed_tree_def by blast

lemma removed_tree_none: "removed_tree {} t t"
  by (auto simp: removed_tree_def split: option.split)

lemma remove_tree_frame_fields:
  assumes "ft_origins t f = Some orig"
  shows "ft_origins (snd (remove_tree_frame f t)) = (ft_origins t)(f := None)"
    "ft_names (snd (remove_tree_frame f t)) = (ft_names t)(f := None)"
    "ft_popup_sandbox (snd (remove_tree_frame f t)) = (ft_popup_sandbox t)(f := None)"
    "ft_owners (snd (remove_tree_frame f t)) = (case orig of Container _ c \<Rightarrow> (ft_owners t)(c := None) | _ \<Rightarrow> ft_owners t)"
    "frame_children (snd (remove_tree_frame f t)) q =
       (if q = f then [] else case orig of
          Container p _ \<Rightarrow> if q = p then filter (\<lambda>g. g \<noteq> f) (frame_children t q) else frame_children t q
        | Auxiliary _ _ \<Rightarrow> frame_children t q)"
  using assms by (auto simp: remove_tree_frame_def Let_def frame_children_def split: frame_origin.split option.split)

lemma removed_tree_step:
  assumes ok: "tree_ok n t" and u: "removed_tree X t u" and f: "f \<notin> X" "ft_origins t f = Some orig"
  shows "removed_tree (insert f X) t (snd (remove_tree_frame f u))"
proof (rule removed_treeI)
  have uo: "ft_origins u f = Some orig" using removed_treeD(1)[OF u, of f] f by simp
  note fields = remove_tree_frame_fields[OF uo]
  show "frame_children (snd (remove_tree_frame f u)) p =
      (if p \<in> insert f X then [] else filter (\<lambda>g. g \<notin> insert f X) (frame_children t p))" for p
  proof (cases orig)
    case (Container q c)
    have "f \<in> set (frame_children t p) \<longleftrightarrow> p = q"
      using tree_ok_children(1)[OF ok, of f p] f(2) Container by (auto simp: frame_parent_def)
    then have "p \<noteq> q \<Longrightarrow> filter (\<lambda>g. g \<notin> insert f X) (frame_children t p) = filter (\<lambda>g. g \<notin> X) (frame_children t p)"
      by (intro filter_cong) auto
    then show ?thesis unfolding fields(5) using Container by (auto simp: removed_treeD(3)[OF u] conj_commute)
  next
    case (Auxiliary q v)
    have "f \<notin> set (frame_children t p)"
      using tree_ok_children(1)[OF ok, of f p] f(2) Auxiliary by (auto simp: frame_parent_def)
    then have "filter (\<lambda>g. g \<notin> insert f X) (frame_children t p) = filter (\<lambda>g. g \<notin> X) (frame_children t p)"
      by (intro filter_cong) auto
    then show ?thesis unfolding fields(5) using Auxiliary by (auto simp: removed_treeD(3)[OF u])
  qed
  show "ft_owners (snd (remove_tree_frame f u)) c =
      (case ft_owners t c of Some g \<Rightarrow> if g \<in> insert f X then None else Some g | None \<Rightarrow> None)" for c
    using tree_ok_owners[OF ok, of c f] f unfolding fields(4)
    by (cases orig) (auto simp: removed_treeD(2)[OF u] split: option.splits)
  show "ft_origins (snd (remove_tree_frame f u)) g = (if g \<in> insert f X then None else ft_origins t g)"
    "ft_names (snd (remove_tree_frame f u)) g = (if g \<in> insert f X then None else ft_names t g)"
    "ft_popup_sandbox (snd (remove_tree_frame f u)) g = (if g \<in> insert f X then None else ft_popup_sandbox t g)" for g
    unfolding fields by (simp_all add: removed_treeD(1,4,5)[OF u])
qed

text \<open>A set of frames that has the children of its members.\<close>

definition closed_below :: "frame_tree \<Rightarrow> nat set \<Rightarrow> bool" where
  "closed_below t X = (\<forall>f p. frame_parent t f = Some p \<longrightarrow> p \<in> X \<longrightarrow> f \<in> X)"

lemma tree_ok_removed:
  assumes ok: "tree_ok n t" and u: "removed_tree X t u" and closed: "closed_below t X"
  shows "tree_ok n u"
proof (rule tree_okI)
  show "set (frame_children u p) = {f. frame_parent u f = Some p}" for p
  proof -
    have "frame_parent u f = (if f \<in> X then None else frame_parent t f)" for f
      by (simp add: frame_parent_def removed_treeD(1)[OF u])
    then show ?thesis using closed tree_okD(5)[OF ok, of p] unfolding removed_treeD(3)[OF u] closed_below_def by auto
  qed
  show "distinct (frame_children u p)" for p using tree_okD(4)[OF ok] unfolding removed_treeD(3)[OF u] by simp
  show "origin_ok n u f orig" if "ft_origins u f = Some orig" for f orig
  proof -
    have f: "f \<notin> X" "ft_origins t f = Some orig" using that removed_treeD(1)[OF u, of f] by (auto split: if_splits)
    have "ft_owners u c = ft_owners t c" if "orig = Container p c" for p c
      using tree_ok_owners[OF ok, of c f] f that by (auto simp: removed_treeD(2)[OF u])
    then show ?thesis by (rule origin_ok_cong[OF tree_okD(2)[OF ok f(2)] order_refl])
  qed
  show "\<exists>p. ft_origins u f = Some (Container p c)" if "ft_owners u c = Some f" for c f
  proof -
    have "ft_owners t c = Some f" "f \<notin> X"
      using that unfolding removed_treeD(2)[OF u] by (auto split: option.splits if_splits)
    then show ?thesis using tree_okD(3)[OF ok] by (simp add: removed_treeD(1)[OF u])
  qed
  show "finite (dom (ft_origins u))"
    by (rule finite_subset[OF _ tree_okD(1)[OF ok]]) (auto simp: removed_treeD(1)[OF u] split: if_splits)
  show "s \<noteq> sandbox_empty" if "ft_popup_sandbox u f = Some s" for f s
    using that tree_okD(6)[OF ok] unfolding removed_treeD(5)[OF u] by (auto split: if_splits)
qed

lemma remove_absent: "ft_origins t f = None \<Longrightarrow> snd (remove_tree_frame f t) = t"
  by (simp add: remove_tree_frame_def)

lemma tree_ok_remove_leaf:
  assumes "tree_ok n t" "frame_children t f = []"
  shows "tree_ok n (snd (remove_tree_frame f t))"
proof (cases "ft_origins t f")
  case (Some orig)
  have "removed_tree {f} t (snd (remove_tree_frame f t))"
    using removed_tree_step[OF assms(1) removed_tree_none _ Some] by simp
  moreover have "closed_below t {f}" using tree_ok_children(1)[OF assms(1), of _ f] assms(2) by (auto simp: closed_below_def)
  ultimately show ?thesis using tree_ok_removed[OF assms(1)] by blast
qed (use assms in \<open>simp add: remove_absent\<close>)

section \<open>Descent\<close>

inductive descends :: "frame_tree \<Rightarrow> nat \<Rightarrow> nat \<Rightarrow> bool" for t where
  descends_refl: "descends t f f"
| descends_step: "frame_parent t f = Some p \<Longrightarrow> descends t a p \<Longrightarrow> descends t a f"

lemma descends_trans: "descends t b c \<Longrightarrow> descends t a b \<Longrightarrow> descends t a c"
  by (induction rule: descends.induct) (auto intro: descends.intros)

lemma descends_le:
  assumes "tree_ok n t" "descends t a f"
  shows "a \<le> f"
  using assms(2)
proof (induction rule: descends.induct)
  case (descends_step f p)
  then show ?case using tree_ok_parent(1)[OF assms(1), of f p] by simp
qed simp

lemma descends_child: "frame_parent t c = Some a \<Longrightarrow> descends t c f \<Longrightarrow> descends t a f"
  by (rule descends_trans[of t c f a]) (auto intro: descends.intros)

lemma descends_child_iff:
  "descends t a f \<longleftrightarrow> f = a \<or> (\<exists>c. frame_parent t c = Some a \<and> descends t c f)" (is "?l \<longleftrightarrow> ?r")
proof
  show "?l \<Longrightarrow> ?r" by (induction rule: descends.induct) (auto intro: descends.intros)
  show "?r \<Longrightarrow> ?l" by (auto intro: descends_refl descends_child)
qed

lemma descends_proper:
  assumes "tree_ok n t" "frame_parent t c = Some a" "descends t c f"
  shows "descends t a f" "a < f"
  using descends_child[OF assms(2,3)] descends_le[OF assms(1,3)] tree_ok_parent(1)[OF assms(1,2)] by auto

lemma descends_chain:
  assumes "descends t a f"
  shows "descends t b f \<Longrightarrow> descends t a b \<or> descends t b a"
  using assms
proof (induction rule: descends.induct)
  case (descends_step f p)
  note IH = descends_step.IH and hyps = descends_step.hyps
  from descends_step.prems show ?case
  proof cases
    case descends_refl
    then show ?thesis using hyps by (auto intro: descends.descends_step)
  next
    case (descends_step q)
    then show ?thesis using hyps IH by simp
  qed
qed auto

lemma top_level_root:
  assumes "tree_ok n t"
  shows "\<exists>r. top_level t f = Some r \<and> frame_parent t r = None \<and> descends t r f"
proof (induction f rule: less_induct)
  case (less f)
  show ?case
  proof (cases "frame_parent t f")
    case None
    then show ?thesis by (subst top_level.simps) (auto intro: descends.intros)
  next
    case (Some p)
    then show ?thesis using less.IH[OF tree_ok_parent(1)[OF assms Some]]
      by (subst top_level.simps) (auto intro: descends.intros)
  qed
qed

lemma frame_is_inclusive_descendant_eq:
  assumes "tree_ok n t"
  shows "frame_is_inclusive_descendant t a f = Some (descends t a f)"
proof (induction f rule: less_induct)
  case (less f)
  show ?case
  proof (cases "f = a")
    case True
    then show ?thesis by (subst frame_is_inclusive_descendant.simps) (simp add: descends_refl)
  next
    case False
    then have "descends t a f \<longleftrightarrow> (case frame_parent t f of Some p \<Rightarrow> descends t a p | None \<Rightarrow> False)"
      by (subst descends.simps) (auto split: option.split)
    then show ?thesis using False less.IH tree_ok_parent(1)[OF assms]
      by (subst frame_is_inclusive_descendant.simps) (auto split: option.split)
  qed
qed

section \<open>Tree order\<close>

text \<open>The frames below those of a list, each before its children, in the order of the children.\<close>

inductive frame_preorder :: "frame_tree \<Rightarrow> nat list \<Rightarrow> nat list \<Rightarrow> bool" for t where
  preorder_Nil: "frame_preorder t [] []"
| preorder_Cons: "frame_preorder t (frame_children t f) xs \<Longrightarrow> frame_preorder t fs ys \<Longrightarrow> frame_preorder t (f # fs) (f # xs @ ys)"

inductive_cases preorder_NilE: "frame_preorder t [] xs"
inductive_cases preorder_ConsE: "frame_preorder t (f # fs) xs"

lemma preorder_list:
  assumes "\<And>f. f \<in> set fs \<Longrightarrow> \<exists>xs. frame_preorder t [f] xs"
  shows "\<exists>xs. frame_preorder t fs xs"
  using assms
proof (induction fs)
  case (Cons f fs)
  obtain ys where "frame_preorder t fs ys" using Cons by auto
  moreover obtain xs where "frame_preorder t [f] xs" using Cons.prems[of f] by auto
  ultimately show ?case by (auto elim!: preorder_ConsE preorder_NilE intro: frame_preorder.intros)
qed (auto intro: preorder_Nil)

lemma tree_ok_leaf: "tree_ok n t \<Longrightarrow> n \<le> f \<Longrightarrow> frame_children t f = []"
  using tree_ok_children(1)[of n t _ f] tree_ok_parent[of n t _ f] by (metis hd_in_set less_trans not_less)

lemma preorder_one:
  assumes "tree_ok n t"
  shows "\<exists>xs. frame_preorder t [f] xs"
proof (induction "n - f" arbitrary: f rule: less_induct)
  case less
  have "\<exists>xs. frame_preorder t (frame_children t f) xs"
  proof (rule preorder_list)
    fix c assume "c \<in> set (frame_children t f)"
    then have "frame_parent t c = Some f" using tree_ok_children(1)[OF assms] by simp
    then have "n - c < n - f" using tree_ok_parent[OF assms] by (meson diff_less_mono2 less_trans)
    then show "\<exists>xs. frame_preorder t [c] xs" by (rule less)
  qed
  then show ?case by (auto intro: frame_preorder.intros)
qed

lemma preorder_total: "tree_ok n t \<Longrightarrow> \<exists>xs. frame_preorder t fs xs"
  by (rule preorder_list) (rule preorder_one)

lemma preorder_set:
  assumes "frame_preorder t fs xs" "tree_ok n t"
  shows "set xs = {g. \<exists>f\<in>set fs. descends t f g}"
  using assms
proof (induction rule: frame_preorder.induct)
  case (preorder_Cons f xs fs ys)
  have "{g. descends t f g} = insert f {g. \<exists>c\<in>set (frame_children t f). descends t c g}"
    using tree_ok_children(1)[OF preorder_Cons.prems] descends_child_iff[of t f] by auto
  then show ?case using preorder_Cons by auto
qed simp

lemma preorder_unique: "frame_preorder t fs xs \<Longrightarrow> frame_preorder t fs ys \<Longrightarrow> xs = ys"
proof (induction arbitrary: ys rule: frame_preorder.induct)
  case preorder_Nil
  then show ?case by (auto elim: preorder_NilE)
next
  case (preorder_Cons f xs fs zs)
  from preorder_Cons.prems show ?case using preorder_Cons.IH by (auto elim!: preorder_ConsE)
qed

lemma find_in_preorder:
  "frame_preorder t fs xs \<Longrightarrow> find_in_subtrees t target fs = Some (find (\<lambda>f. frame_name t f = target) xs)"
proof (induction rule: frame_preorder.induct)
  case preorder_Nil
  then show ?case by (subst find_in_subtrees.simps) simp
next
  case (preorder_Cons f xs fs ys)
  have app: "find P (as @ bs) = (case find P as of None \<Rightarrow> find P bs | Some x \<Rightarrow> Some x)" for P :: "nat \<Rightarrow> bool" and as bs
    by (induction as) auto
  show ?case using preorder_Cons.IH by (subst find_in_subtrees.simps) (auto simp: app split: option.split)
qed

section \<open>The stack of \<open>detach_child_frames\<close>\<close>

inductive stack_order :: "frame_tree \<Rightarrow> nat list \<Rightarrow> nat list \<Rightarrow> bool" for t where
  stack_Nil: "stack_order t [] []"
| stack_snoc: "stack_order t (frame_children t f) xs \<Longrightarrow> stack_order t fs ys \<Longrightarrow> stack_order t (fs @ [f]) (f # xs @ ys)"

lemma collect_stack:
  "stack_order t fs xs \<Longrightarrow> collect_descendants t qs = Some zs \<Longrightarrow> collect_descendants t (qs @ fs) = Some (xs @ zs)"
proof (induction arbitrary: qs zs rule: stack_order.induct)
  case (stack_snoc f xs fs ys)
  have "collect_descendants t ((qs @ fs) @ frame_children t f) = Some (xs @ ys @ zs)"
    using stack_snoc.IH(1)[OF stack_snoc.IH(2)[OF stack_snoc.prems]] by simp
  then show ?case by (subst collect_descendants.simps) (simp add: butlast_append)
qed simp

lemma stack_list:
  assumes "\<And>f. f \<in> set fs \<Longrightarrow> \<exists>xs. stack_order t (frame_children t f) xs"
  shows "\<exists>xs. stack_order t fs xs"
  using assms
proof (induction fs rule: rev_induct)
  case (snoc f fs)
  obtain ys where "stack_order t fs ys" using snoc by auto
  moreover obtain xs where "stack_order t (frame_children t f) xs" using snoc.prems[of f] by auto
  ultimately show ?case using stack_order.stack_snoc by blast
qed (auto intro: stack_Nil)

lemma stack_children:
  assumes "tree_ok n t"
  shows "\<exists>xs. stack_order t (frame_children t f) xs"
proof (induction "n - f" arbitrary: f rule: less_induct)
  case less
  show ?case
  proof (rule stack_list)
    fix c assume "c \<in> set (frame_children t f)"
    then have "frame_parent t c = Some f" using tree_ok_children(1)[OF assms] by simp
    then have "n - c < n - f" using tree_ok_parent[OF assms] by (meson diff_less_mono2 less_trans)
    then show "\<exists>xs. stack_order t (frame_children t c) xs" by (rule less)
  qed
qed

lemma stack_set:
  assumes "stack_order t fs xs" "tree_ok n t"
  shows "set xs = {g. \<exists>f\<in>set fs. descends t f g}"
  using assms
proof (induction rule: stack_order.induct)
  case (stack_snoc f xs fs ys)
  have "{g. descends t f g} = insert f {g. \<exists>c\<in>set (frame_children t f). descends t c g}"
    using tree_ok_children(1)[OF stack_snoc.prems] descends_child_iff[of t f] by auto
  then show ?case using stack_snoc by auto
qed simp

text \<open>No frame occurs twice: the subtrees of two siblings have no frame in common.\<close>

definition independent :: "frame_tree \<Rightarrow> nat list \<Rightarrow> bool" where
  "independent t fs = (distinct fs \<and> (\<forall>a\<in>set fs. \<forall>b\<in>set fs. descends t a b \<longrightarrow> a = b))"

lemma independent_children:
  assumes "tree_ok n t"
  shows "independent t (frame_children t p)"
proof -
  have "a = b" if "frame_parent t a = Some p" "frame_parent t b = Some p" "descends t a b" for a b
  proof (rule ccontr)
    assume "a \<noteq> b"
    then have "descends t a p" using that by (auto elim: descends.cases)
    then show False using descends_le[OF assms] tree_ok_parent(1)[OF assms that(1)] by (meson not_less)
  qed
  then show ?thesis using tree_okD(4,5)[OF assms] by (auto simp: independent_def)
qed

lemma stack_distinct:
  assumes "stack_order t fs xs" "tree_ok n t" "independent t fs"
  shows "distinct xs"
  using assms
proof (induction rule: stack_order.induct)
  case (stack_snoc f xs fs ys)
  have fs: "independent t fs" using stack_snoc.prems(2) by (auto simp: independent_def)
  have sets: "set xs = {g. \<exists>c\<in>set (frame_children t f). descends t c g}" "set ys = {g. \<exists>h\<in>set fs. descends t h g}"
    using stack_set stack_snoc by blast+
  have below: "descends t f g" "f < g" if "g \<in> set xs" for g
    using that sets(1) tree_ok_children(1)[OF stack_snoc.prems(1)] descends_proper[OF stack_snoc.prems(1)] by auto
  have "\<not> descends t f g" if "g \<in> set ys" for g
  proof
    assume "descends t f g"
    obtain h where "h \<in> set fs" "descends t h g" using \<open>g \<in> set ys\<close> sets(2) by auto
    then show False using descends_chain[OF \<open>descends t f g\<close>] stack_snoc.prems(2) by (auto simp: independent_def)
  qed
  then have "f \<notin> set ys" "set xs \<inter> set ys = {}" using below by (auto intro: descends_refl)
  moreover have "f \<notin> set xs" using below by auto
  ultimately show ?case
    using stack_snoc.IH(1)[OF stack_snoc.prems(1) independent_children[OF stack_snoc.prems(1)]]
      stack_snoc.IH(2)[OF stack_snoc.prems(1) fs] by auto
qed simp

lemma collect_descendants_spec:
  assumes "tree_ok n t"
  shows "\<exists>xs. collect_descendants t (frame_children t f) = Some xs \<and> distinct xs \<and> set xs = {g. g \<noteq> f \<and> descends t f g}"
proof -
  obtain xs where xs: "stack_order t (frame_children t f) xs" using stack_children[OF assms] by blast
  have "collect_descendants t [] = Some []" by (subst collect_descendants.simps) simp
  then have "collect_descendants t (frame_children t f) = Some xs" using collect_stack[OF xs, of "[]" "[]"] by simp
  moreover have "set xs = {g. g \<noteq> f \<and> descends t f g}"
  proof -
    have "g \<noteq> f" if "frame_parent t c = Some f" "descends t c g" for c g using descends_proper(2)[OF assms that] by simp
    then have "(\<exists>c. frame_parent t c = Some f \<and> descends t c g) \<longleftrightarrow> g \<noteq> f \<and> descends t f g" for g
      using descends_child_iff[of t f g] by blast
    then show ?thesis unfolding stack_set[OF xs assms] Bex_def tree_ok_children(1)[OF assms] by simp
  qed
  ultimately show ?thesis using stack_distinct[OF xs assms independent_children[OF assms]] by blast
qed

end
