(* ===== verification/Message_Ports_Inv.thy ===== *)
theory Message_Ports_Inv
  imports Message_Ports
begin

text \<open>
  The invariant of the port table: what a row may look like, and that entanglement is a symmetric
  relation between two rows. Every operation keeps it, under the guard its callers apply.
\<close>

section \<open>Invariant\<close>

definition row_ok :: "port_endpoint \<Rightarrow> bool" where
  "row_ok p =
     (\<not> pe_closed p \<and> (pe_detached p \<longleftrightarrow> pe_owner p = None) \<and> (pe_detached p \<longrightarrow> \<not> pe_enabled p \<and> pe_recipient p \<noteq> None) \<and>
      (pe_enabled p \<longrightarrow> pe_queue p = []) \<and> (pe_close_pending p \<longrightarrow> pe_detached p))"

definition entangled :: "port_table \<Rightarrow> bool" where
  "entangled t =
     (\<forall>e p e'. pt_ports t e = Some p \<longrightarrow> pe_peer p = Some e' \<longrightarrow>
        e' \<noteq> e \<and> (\<exists>p'. pt_ports t e' = Some p' \<and> pe_peer p' = Some e))"

definition ports_ok :: "port_table \<Rightarrow> bool" where
  "ports_ok t = (finite (dom (pt_ports t)) \<and> (\<forall>e p. pt_ports t e = Some p \<longrightarrow> e < pt_next t \<and> row_ok p) \<and> entangled t)"

lemma ports_okD:
  assumes "ports_ok t" "pt_ports t e = Some p"
  shows "e < pt_next t" "row_ok p" "\<not> pe_closed p" "pe_detached p \<longleftrightarrow> pe_owner p = None"
    "pe_detached p \<Longrightarrow> \<not> pe_enabled p" "pe_enabled p \<Longrightarrow> pe_queue p = []" "pe_close_pending p \<Longrightarrow> pe_detached p"
  using assms by (auto simp: ports_ok_def row_ok_def)

lemma ports_ok_peer:
  assumes "ports_ok t" "pt_ports t e = Some p" "pe_peer p = Some e'"
  obtains p' where "e' \<noteq> e" "pt_ports t e' = Some p'" "pe_peer p' = Some e"
  using assms unfolding ports_ok_def entangled_def by blast

lemma ports_ok_peerD:
  assumes "ports_ok t" "pt_ports t e = Some p" "pe_peer p = Some e'"
  shows "e' \<noteq> e \<and> (\<exists>p'. pt_ports t e' = Some p' \<and> pe_peer p' = Some e)"
  using assms unfolding ports_ok_def entangled_def by blast

lemma put_port_simps [simp]:
  "pt_ports (put_port e p t) = (pt_ports t)(e \<mapsto> p)" "pt_next (put_port e p t) = pt_next t"
  "pt_ports (drop_port e t) = (pt_ports t)(e := None)" "pt_next (drop_port e t) = pt_next t"
  by (simp_all add: put_port_def drop_port_def)

lemma ports_ok_put:
  assumes "ports_ok t" "pt_ports t e = Some p" "row_ok q" "pe_peer q = pe_peer p"
  shows "ports_ok (put_port e q t)"
proof -
  have "entangled (put_port e q t)"
    using assms unfolding ports_ok_def entangled_def by (auto split: if_splits) (metis option.inject)+
  then show ?thesis using assms by (auto simp: ports_ok_def)
qed

section \<open>Operations\<close>

lemma ports_ok_default: "ports_ok port_table_default"
  by (simp add: ports_ok_def entangled_def port_table_default_def)

lemma new_pair_eq:
  assumes "Suc (pt_next t) < u64_max"
  shows "port_new_pair f t =
    ((pt_next t, Suc (pt_next t)),
     t\<lparr>pt_next := Suc (Suc (pt_next t)),
       pt_ports := (pt_ports t)(pt_next t \<mapsto> port_default\<lparr>pe_peer := Some (Suc (pt_next t)), pe_owner := Some f, pe_recipient := Some f\<rparr>,
         Suc (pt_next t) \<mapsto> port_default\<lparr>pe_peer := Some (pt_next t), pe_owner := Some f, pe_recipient := Some f\<rparr>)\<rparr>)"
  using assms by (simp add: port_new_pair_def port_alloc_def Let_def put_port_def fun_upd_twist)

lemma ports_ok_new_pair:
  assumes "ports_ok t" "Suc (pt_next t) < u64_max"
  shows "ports_ok (snd (port_new_pair f t))"
proof -
  have fresh: "pt_ports t n = Some p \<Longrightarrow> n < pt_next t" for n p using assms(1) ports_okD(1) by blast
  have peers: "pt_ports t e = Some p \<Longrightarrow> pe_peer p = Some e' \<Longrightarrow> e' \<noteq> e \<and> e' < pt_next t \<and> (\<exists>p'. pt_ports t e' = Some p' \<and> pe_peer p' = Some e)"
    for e p e' using ports_ok_peer[OF assms(1)] fresh by metis
  have "entangled (snd (port_new_pair f t))"
    using fresh peers unfolding new_pair_eq[OF assms(2)] entangled_def
    by (auto simp: port_default_def split: if_splits) fastforce+
  then show ?thesis using assms(1) fresh
    unfolding new_pair_eq[OF assms(2)] ports_ok_def by (auto simp: row_ok_def port_default_def split: if_splits intro: less_SucI)
qed

lemma ports_ok_route: "ports_ok t \<Longrightarrow> ports_ok (port_route e f t)"
  by (auto simp: port_route_def row_ok_def split: option.split dest: ports_okD intro!: ports_ok_put)

lemma ports_ok_routes: "ports_ok t \<Longrightarrow> ports_ok (fold (\<lambda>e. port_route e f) es t)"
  by (induction es arbitrary: t) (simp_all add: ports_ok_route)

lemma ports_ok_detach: "ports_ok t \<Longrightarrow> ports_ok (snd (port_detach e f t))"
  by (auto simp: port_detach_def row_ok_def split: option.split dest: ports_okD intro!: ports_ok_put)

lemma ports_ok_adopt: "ports_ok t \<Longrightarrow> ports_ok (snd (port_adopt e f t))"
  by (auto simp: port_adopt_def row_ok_def split: option.split dest: ports_okD intro!: ports_ok_put)

lemma fst_flush_port [simp]: "fst (flush_port e p td) = put_port e (p\<lparr>pe_queue := []\<rparr>) (fst td)"
  by (simp add: flush_port_def)

lemma ports_ok_post: "ports_ok (fst td) \<Longrightarrow> ports_ok (fst (port_post e payload ports td))"
  by (auto simp: port_post_def row_ok_def Let_def split: option.split dest: ports_okD intro!: ports_ok_put)

lemma ports_ok_requeue: "ports_ok (fst td) \<Longrightarrow> ports_ok (fst (port_requeue e payload ports td))"
  by (auto simp: port_requeue_def row_ok_def Let_def split: option.split dest: ports_okD intro!: ports_ok_put)

lemma ports_ok_requeue_close: "ports_ok (fst td) \<Longrightarrow> ports_ok (fst (port_requeue_close e td))"
  by (auto simp: port_requeue_close_def row_ok_def split: option.split dest: ports_okD intro!: ports_ok_put)

lemma ports_ok_start: "ports_ok (fst td) \<Longrightarrow> port_owner (fst td) e \<noteq> None \<Longrightarrow> ports_ok (fst (port_start e td))"
  by (auto simp: port_start_def port_owner_def row_ok_def Let_def split: option.split dest: ports_okD intro!: ports_ok_put)

text \<open>In a well-formed table, closing and forgetting an endpoint are the same.\<close>

lemma put_drop_port [simp]: "drop_port e (put_port e p t) = drop_port e t"
  by (simp add: put_port_def drop_port_def)

lemma drop_put_other: "e \<noteq> e' \<Longrightarrow> drop_port e (put_port e' q t) = put_port e' q (drop_port e t)"
  by (simp add: put_port_def drop_port_def fun_upd_twist)

lemma port_close_forget:
  assumes "ports_ok (fst td)"
  shows "port_close e td = port_forget e td"
proof (cases "pt_ports (fst td) e")
  case None
  then show ?thesis by (simp add: port_close_def port_forget_def)
next
  case (Some p)
  have "\<not> pe_closed p" using ports_okD(3)[OF assms Some] .
  show ?thesis
  proof (cases "pe_peer p")
    case None
    then show ?thesis using Some \<open>\<not> pe_closed p\<close> by (simp add: port_close_def port_forget_def Let_def)
  next
    case (Some e')
    obtain p' where "e' \<noteq> e" "pt_ports (fst td) e' = Some p'"
      using ports_ok_peer[OF assms \<open>pt_ports (fst td) e = Some p\<close> Some] by metis
    then show ?thesis using Some \<open>pt_ports (fst td) e = Some p\<close> \<open>\<not> pe_closed p\<close>
      by (simp add: port_close_def port_forget_def disentangle_peer_def Let_def drop_put_other)
  qed
qed

definition forgotten :: "nat \<Rightarrow> port_table \<Rightarrow> port_table" where
  "forgotten e t =
     (case pt_ports t e of
        None \<Rightarrow> t
      | Some p \<Rightarrow>
          (case pe_peer p of
             None \<Rightarrow> drop_port e t
           | Some e' \<Rightarrow>
               (let q = the (pt_ports t e')
                in put_port e' (q\<lparr>pe_peer := None, pe_close_pending := pe_close_pending q \<or> pe_detached q\<rparr>) (drop_port e t))))"

lemma port_forget_eq:
  assumes "ports_ok (fst td)"
  shows "port_forget e td =
    (forgotten e (fst td),
     snd td @ (case Option.bind (port_peer (fst td) e) (\<lambda>e'. if port_owner (fst td) e' \<noteq> None then Some e' else None) of
                 Some e' \<Rightarrow> [DPortClosed e'] | None \<Rightarrow> []))"
proof (cases "pt_ports (fst td) e")
  case None
  then show ?thesis by (cases td) (simp add: port_forget_def forgotten_def port_peer_def)
next
  case (Some p)
  show ?thesis
  proof (cases "pe_peer p")
    case None
    then show ?thesis using Some by (simp add: port_forget_def forgotten_def port_peer_def)
  next
    case (Some e')
    obtain q where q: "e' \<noteq> e" "pt_ports (fst td) e' = Some q"
      using ports_ok_peer[OF assms \<open>pt_ports (fst td) e = Some p\<close> Some] by metis
    have "q\<lparr>pe_peer := None, pe_close_pending := pe_close_pending q \<or> pe_detached q\<rparr> = q\<lparr>pe_peer := None\<rparr>" if "\<not> pe_detached q"
      using that ports_okD(7)[OF assms q(2)] by (cases q) auto
    then show ?thesis using Some \<open>pt_ports (fst td) e = Some p\<close> q ports_okD(3,4)[OF assms q(2)]
      by (auto simp: port_forget_def forgotten_def port_peer_def port_owner_def disentangle_peer_def Let_def)
  qed
qed

lemma forgotten_gone [simp]: "pt_ports (forgotten e t) e = None \<or> (\<exists>p. pt_ports t e = Some p \<and> pe_peer p = Some e)"
  by (auto simp: forgotten_def Let_def split: option.split)

lemma pt_next_forgotten [simp]: "pt_next (forgotten e t) = pt_next t"
  by (auto simp: forgotten_def Let_def split: option.split)

lemma forgotten_other:
  assumes "ports_ok t" "x \<noteq> e"
  shows "pt_ports (forgotten e t) x =
    (if port_peer t e = Some x
     then map_option (\<lambda>q. q\<lparr>pe_peer := None, pe_close_pending := pe_close_pending q \<or> pe_detached q\<rparr>) (pt_ports t x)
     else pt_ports t x)"
proof (cases "pt_ports t e")
  case None
  then show ?thesis by (simp add: forgotten_def port_peer_def)
next
  case (Some p)
  show ?thesis
  proof (cases "pe_peer p")
    case None
    then show ?thesis using Some assms(2) by (simp add: forgotten_def port_peer_def)
  next
    case (Some e')
    then show ?thesis using \<open>pt_ports t e = Some p\<close> assms(2) ports_ok_peerD[OF assms(1) \<open>pt_ports t e = Some p\<close> Some]
      by (auto simp: forgotten_def port_peer_def Let_def)
  qed
qed

lemma forgotten_self:
  assumes "ports_ok t"
  shows "pt_ports (forgotten e t) e = None"
proof (cases "pt_ports t e")
  case (Some p)
  then show ?thesis using ports_ok_peerD[OF assms Some, of e] forgotten_gone[of e t] by auto
qed (simp add: forgotten_def)

lemma ports_ok_forgotten:
  assumes "ports_ok t"
  shows "ports_ok (forgotten e t)"
proof -
  have rows: "\<exists>q. pt_ports t x = Some q \<and> x \<noteq> e \<and>
      p = (if port_peer t e = Some x then q\<lparr>pe_peer := None, pe_close_pending := pe_close_pending q \<or> pe_detached q\<rparr> else q)"
    if "pt_ports (forgotten e t) x = Some p" for x p
    using that forgotten_self[OF assms, of e] forgotten_other[OF assms, of x e] by (cases "x = e") (auto split: if_splits)
  have "dom (pt_ports (forgotten e t)) \<subseteq> dom (pt_ports t)" using rows by blast
  then have "finite (dom (pt_ports (forgotten e t)))" using assms finite_subset by (auto simp: ports_ok_def)
  moreover have "x < pt_next t \<and> row_ok p" if "pt_ports (forgotten e t) x = Some p" for x p
  proof -
    obtain q where q: "pt_ports t x = Some q"
      "p = (if port_peer t e = Some x then q\<lparr>pe_peer := None, pe_close_pending := pe_close_pending q \<or> pe_detached q\<rparr> else q)"
      using rows[OF \<open>pt_ports (forgotten e t) x = Some p\<close>] by blast
    show ?thesis using q(2) ports_okD(1,2)[OF assms q(1)] by (auto simp: row_ok_def split: if_splits)
  qed
  moreover have "entangled (forgotten e t)"
    unfolding entangled_def
  proof (intro allI impI)
    fix x p x' assume x: "pt_ports (forgotten e t) x = Some p" "pe_peer p = Some x'"
    obtain q where q: "pt_ports t x = Some q" "x \<noteq> e" "port_peer t e \<noteq> Some x" "p = q" using rows[OF x(1)] x(2) by (cases "port_peer t e = Some x") auto
    obtain q' where q': "x' \<noteq> x" "pt_ports t x' = Some q'" "pe_peer q' = Some x" using ports_ok_peer[OF assms q(1)] x(2) q(4) by metis
    have "x' \<noteq> e" using q(3) q'(2,3) by (auto simp: port_peer_def)
    moreover have "port_peer t e \<noteq> Some x'"
    proof
      assume "port_peer t e = Some x'"
      then obtain r where r: "pt_ports t e = Some r" "pe_peer r = Some x'"
        by (cases "pt_ports t e") (auto simp: port_peer_def)
      show False using ports_ok_peer[OF assms r] q' q(2) by (metis option.inject)
    qed
    ultimately show "x' \<noteq> x \<and> (\<exists>p'. pt_ports (forgotten e t) x' = Some p' \<and> pe_peer p' = Some x)"
      using q' forgotten_other[OF assms, of x' e] by simp
  qed
  ultimately show ?thesis by (simp add: ports_ok_def)
qed

lemma ports_ok_forget: "ports_ok (fst td) \<Longrightarrow> ports_ok (fst (port_forget e td))"
  by (simp add: port_forget_eq ports_ok_forgotten)

lemma ports_ok_close: "ports_ok (fst td) \<Longrightarrow> ports_ok (fst (port_close e td))"
  by (simp add: port_close_forget ports_ok_forget)

lemma ports_ok_closes: "ports_ok (fst td) \<Longrightarrow> ports_ok (fst (fold port_close es td))"
  by (induction es arbitrary: td) (simp_all add: ports_ok_close)

lemma ports_ok_close_frame_ports: "ports_ok (fst td) \<Longrightarrow> ports_ok (fst (port_close_frame_ports keys f td))"
  by (simp add: port_close_frame_ports_def ports_ok_closes)

lemmas ports_ok_ops = ports_ok_route ports_ok_routes ports_ok_detach ports_ok_adopt ports_ok_post ports_ok_requeue
  ports_ok_requeue_close ports_ok_start ports_ok_forget ports_ok_close ports_ok_close_frame_ports

section \<open>Counters\<close>

lemma pt_next_ops [simp]:
  "pt_next (port_route e f t) = pt_next t" "pt_next (snd (port_detach e f t)) = pt_next t"
  "pt_next (snd (port_adopt e f t)) = pt_next t" "pt_next (fst (port_post e payload ports td)) = pt_next (fst td)"
  "pt_next (fst (port_requeue e payload ports td)) = pt_next (fst td)"
  "pt_next (fst (port_requeue_close e td)) = pt_next (fst td)" "pt_next (fst (port_start e td)) = pt_next (fst td)"
  "pt_next (fst (disentangle_peer e td)) = pt_next (fst td)"
  by (auto simp: port_route_def port_detach_def port_adopt_def port_post_def port_requeue_def port_requeue_close_def port_start_def
      disentangle_peer_def Let_def split: option.split)

lemma pt_next_close [simp]: "pt_next (fst (port_close e td)) = pt_next (fst td)"
  by (auto simp: port_close_def Let_def split: option.split)

lemma pt_next_forget [simp]: "pt_next (fst (port_forget e td)) = pt_next (fst td)"
  by (auto simp: port_forget_def Let_def split: option.split)

lemma pt_next_closes [simp]: "pt_next (fst (fold port_close es td)) = pt_next (fst td)"
  by (induction es arbitrary: td) simp_all

lemma pt_next_routes [simp]: "pt_next (fold (\<lambda>e. port_route e f) es t) = pt_next t"
  by (induction es arbitrary: t) simp_all

lemma pt_next_close_frame_ports [simp]: "pt_next (fst (port_close_frame_ports keys f td)) = pt_next (fst td)"
  by (simp add: port_close_frame_ports_def)

end
