(* ===== verification/Browsing_Inv.thy ===== *)
theory Browsing_Inv
  imports Browsing_Contexts Frame_Tree_Inv Message_Ports_Inv
begin

text \<open>
  Reachable shared states: every operation the host functions, the engine and the documents apply to
  the state that the frames of a page share, in any order, and the invariant they keep.
\<close>

section \<open>Fields\<close>

lemma on_ports_fields [simp]:
  "sh_ports (on_ports f s) = fst (f (sh_ports s, sh_deliveries s))"
  "sh_deliveries (on_ports f s) = snd (f (sh_ports s, sh_deliveries s))"
  "sh_tree (on_ports f s) = sh_tree s" "sh_next_frame (on_ports f s) = sh_next_frame s"
  "sh_document_ids (on_ports f s) = sh_document_ids s" "sh_next_document (on_ports f s) = sh_next_document s"
  "sh_removed_frames (on_ports f s) = sh_removed_frames s"
  by (simp_all add: on_ports_def case_prod_unfold Let_def)

lemma forget_endpoints_fields [simp]:
  "sh_tree (forget_endpoints es s) = sh_tree s" "sh_next_frame (forget_endpoints es s) = sh_next_frame s"
  "sh_document_ids (forget_endpoints es s) = sh_document_ids s" "sh_next_document (forget_endpoints es s) = sh_next_document s"
  "sh_removed_frames (forget_endpoints es s) = sh_removed_frames s"
  unfolding forget_endpoints_def by (induction es arbitrary: s) simp_all

lemma forget_endpoints_Cons [simp]:
  "forget_endpoints [] s = s" "forget_endpoints (e # es) s = forget_endpoints es (on_ports (port_forget e) s)"
  by (simp_all add: forget_endpoints_def)

lemma forget_endpoints_ports:
  "ports_ok (sh_ports s) \<Longrightarrow> ports_ok (sh_ports (forget_endpoints es s)) \<and> pt_next (sh_ports (forget_endpoints es s)) = pt_next (sh_ports s)"
  by (induction es arbitrary: s) (simp_all add: ports_ok_forget)

lemma close_frame_ports_fields [simp]:
  "sh_tree (close_frame_ports iter f s) = sh_tree s" "sh_next_frame (close_frame_ports iter f s) = sh_next_frame s"
  "sh_document_ids (close_frame_ports iter f s) = sh_document_ids s"
  "sh_next_document (close_frame_ports iter f s) = sh_next_document s"
  "sh_removed_frames (close_frame_ports iter f s) = sh_removed_frames s"
  by (simp_all add: close_frame_ports_def)

section \<open>Invariant\<close>

definition docs_ok :: "shared \<Rightarrow> bool" where
  "docs_ok s =
     ((\<forall>f d. sh_document_ids s f = Some d \<longrightarrow> d < sh_next_document s) \<and>
      (\<forall>f g d. sh_document_ids s f = Some d \<longrightarrow> sh_document_ids s g = Some d \<longrightarrow> f = g))"

definition shared_ok :: "shared \<Rightarrow> bool" where
  "shared_ok s =
     (0 < sh_next_frame s \<and> tree_ok (sh_next_frame s) (sh_tree s) \<and> ports_ok (sh_ports s) \<and> docs_ok s)"

definition room :: "shared \<Rightarrow> bool" where
  "room s = (Suc (pt_next (sh_ports s)) < u64_max \<and> sh_next_frame s < u64_max \<and> sh_next_document s < u64_max)"

lemma shared_okI:
  "shared_ok s \<Longrightarrow> sh_tree u = sh_tree s \<Longrightarrow> sh_next_frame u = sh_next_frame s \<Longrightarrow> sh_document_ids u = sh_document_ids s \<Longrightarrow>
   sh_next_document u = sh_next_document s \<Longrightarrow> ports_ok (sh_ports u) \<Longrightarrow> shared_ok u"
  by (simp add: shared_ok_def docs_ok_def)

lemma shared_ok_default: "shared_ok shared_default"
  using tree_ok_default ports_ok_default by (simp add: shared_ok_def shared_default_def docs_ok_def)

lemma docs_ok_begin: "docs_ok s \<Longrightarrow> sh_next_document s < u64_max \<Longrightarrow> docs_ok (snd (begin_document f s))"
  unfolding docs_ok_def begin_document_def by (auto split: if_splits) (meson less_SucI less_irrefl)+

lemma docs_ok_forget: "docs_ok s \<Longrightarrow> docs_ok (forget_document f s)"
  unfolding docs_ok_def forget_document_def by (auto split: if_splits)

section \<open>Removing subtrees\<close>

abbreviation removed_by :: "nat list \<Rightarrow> frame_tree \<Rightarrow> frame_tree" where
  "removed_by xs t \<equiv> fold (\<lambda>f t. snd (remove_tree_frame f t)) xs t"

lemma removed_by_tree:
  assumes "tree_ok n t" "removed_tree X t u" "distinct xs" "set xs \<inter> X = {}" "\<And>f. f \<in> set xs \<Longrightarrow> ft_origins t f \<noteq> None"
  shows "removed_tree (set xs \<union> X) t (removed_by xs u)"
  using assms(2-)
proof (induction xs arbitrary: X u)
  case (Cons f xs)
  obtain orig where "ft_origins t f = Some orig" using Cons.prems(4)[of f] by auto
  then have "removed_tree (insert f X) t (snd (remove_tree_frame f u))"
    using removed_tree_step[OF assms(1) Cons.prems(1)] Cons.prems(3) by auto
  then show ?case using Cons.IH[of "insert f X" "snd (remove_tree_frame f u)"] Cons.prems by simp
qed simp

lemma detach_one_fields [simp]:
  "sh_tree (detach_one iter f s) = snd (remove_tree_frame f (sh_tree s))"
  "sh_next_frame (detach_one iter f s) = sh_next_frame s"
  "sh_document_ids (detach_one iter f s) = (sh_document_ids s)(f := None)"
  "sh_next_document (detach_one iter f s) = sh_next_document s"
  by (simp_all add: detach_one_def Let_def remove_shared_frame_def forget_document_def)

lemma detach_one_ports:
  "sh_ports (detach_one iter f s) = fst (port_close_frame_ports (iter (sh_ports s)) f (sh_ports s, sh_deliveries s))"
  by (simp add: detach_one_def Let_def remove_shared_frame_def forget_document_def close_frame_ports_def)

lemma detach_fold_fields:
  "sh_tree (fold (detach_one iter) xs s) = removed_by xs (sh_tree s)"
  "sh_next_frame (fold (detach_one iter) xs s) = sh_next_frame s"
  "sh_next_document (fold (detach_one iter) xs s) = sh_next_document s"
  "sh_document_ids (fold (detach_one iter) xs s) f = (if f \<in> set xs then None else sh_document_ids s f)"
  by (induction xs arbitrary: s) auto

lemma detach_fold_ports:
  "ports_ok (sh_ports s) \<Longrightarrow>
   ports_ok (sh_ports (fold (detach_one iter) xs s)) \<and> pt_next (sh_ports (fold (detach_one iter) xs s)) = pt_next (sh_ports s)"
  by (induction xs arbitrary: s) (simp_all add: detach_one_ports ports_ok_close_frame_ports)

lemma detach_fold_docs: "docs_ok s \<Longrightarrow> docs_ok (fold (detach_one iter) xs s)"
  by (auto simp: docs_ok_def detach_fold_fields)

lemma descends_origin:
  assumes "descends t f g" "g \<noteq> f"
  shows "ft_origins t g \<noteq> None"
  using assms(1)
proof cases
  case (descends_step p)
  then show ?thesis by (auto simp: frame_parent_Some)
qed (use assms(2) in simp)

lemma detach_child_frames_eq:
  assumes "tree_ok n (sh_tree s)"
  obtains xs where "detach_child_frames iter f s = Some (fold (detach_one iter) xs s)" "distinct xs"
    "set xs = {g. g \<noteq> f \<and> descends (sh_tree s) f g}"
    "removed_tree (set xs) (sh_tree s) (removed_by xs (sh_tree s))" "tree_ok n (removed_by xs (sh_tree s))"
proof -
  let ?t = "sh_tree s"
  obtain xs where xs: "collect_descendants ?t (frame_children ?t f) = Some xs" "distinct xs"
    "set xs = {g. g \<noteq> f \<and> descends ?t f g}" using collect_descendants_spec[OF assms] by blast
  have "removed_tree (set xs) ?t (removed_by xs ?t)"
    using removed_by_tree[OF assms removed_tree_none xs(2)] descends_origin xs(3) by fastforce
  moreover have "closed_below ?t (set xs)"
  proof -
    have "g \<in> set xs" if "frame_parent ?t g = Some p" "p \<in> set xs" for g p
    proof -
      have "descends ?t f p" using that(2) xs(3) by simp
      then have "descends ?t f g" "f < g"
        using that(1) descends_le[OF assms \<open>descends ?t f p\<close>] tree_ok_parent(1)[OF assms that(1)]
        by (auto intro: descends.intros)
      then show ?thesis using xs(3) by simp
    qed
    then show ?thesis by (auto simp: closed_below_def)
  qed
  ultimately show thesis using that[of xs] xs tree_ok_removed[OF assms] by (auto simp: detach_child_frames_def)
qed

lemma shared_ok_detach_children:
  assumes "shared_ok s" "detach_child_frames iter f s = Some s'"
  shows "shared_ok s' \<and> sh_next_frame s' = sh_next_frame s \<and> pt_next (sh_ports s') = pt_next (sh_ports s) \<and>
    sh_next_document s' = sh_next_document s \<and> frame_children (sh_tree s') f = []"
proof -
  have ok: "tree_ok (sh_next_frame s) (sh_tree s)" using assms(1) by (simp add: shared_ok_def)
  obtain xs where xs: "detach_child_frames iter f s = Some (fold (detach_one iter) xs s)"
    "set xs = {g. g \<noteq> f \<and> descends (sh_tree s) f g}"
    "removed_tree (set xs) (sh_tree s) (removed_by xs (sh_tree s))" "tree_ok (sh_next_frame s) (removed_by xs (sh_tree s))"
    by (rule detach_child_frames_eq[OF ok, of iter f])
  have "c \<in> set xs" if "frame_parent (sh_tree s) c = Some f" for c
    using that xs(2) tree_ok_parent(1)[OF ok that] by (auto intro: descends.intros)
  then have "filter (\<lambda>g. g \<notin> set xs) (frame_children (sh_tree s) f) = []"
    using tree_ok_children(1)[OF ok] by (simp add: filter_empty_conv)
  then have "frame_children (removed_by xs (sh_tree s)) f = []" by (simp add: removed_treeD(3)[OF xs(3)])
  moreover have s': "s' = fold (detach_one iter) xs s" using assms(2) xs(1) by simp
  ultimately show ?thesis using assms(1) xs(4) detach_fold_ports[of s iter xs] detach_fold_docs[of s iter xs]
    unfolding s' by (simp add: shared_ok_def detach_fold_fields)
qed

text \<open>Removing a frame that has no children left, as the last steps of the callers do.\<close>

lemma shared_ok_drop_leaf:
  assumes "shared_ok s" "frame_children (sh_tree s) f = []"
  shows "shared_ok (close_frame_ports iter f (forget_document f (remove_shared_frame f s))\<lparr>sh_removed_frames := r\<rparr>)"
    "shared_ok (forget_document f (remove_shared_frame f s))"
proof -
  have "tree_ok (sh_next_frame s) (snd (remove_tree_frame f (sh_tree s)))"
    using assms by (intro tree_ok_remove_leaf) (simp_all add: shared_ok_def)
  moreover have "docs_ok (forget_document f (remove_shared_frame f s))"
    using assms(1) by (intro docs_ok_forget) (simp add: shared_ok_def docs_ok_def remove_shared_frame_def)
  ultimately show ok: "shared_ok (forget_document f (remove_shared_frame f s))"
    using assms(1) by (simp add: shared_ok_def forget_document_def remove_shared_frame_def)
  show "shared_ok (close_frame_ports iter f (forget_document f (remove_shared_frame f s))\<lparr>sh_removed_frames := r\<rparr>)"
    using ok by (intro shared_okI[OF ok]) (simp_all add: close_frame_ports_def ports_ok_close_frame_ports shared_ok_def)
qed

section \<open>Reachability\<close>

inductive shared_step :: "shared \<Rightarrow> shared \<Rightarrow> bool" where
  step_post_window: "shared_step s (host_post_window_message up g ot oi target spec payload ports s)"
| step_port_new: "shared_step s (snd (host_port_new g s))"
| step_port_post: "shared_step s (host_port_post g e payload ports s)"
| step_port_start: "shared_step s (host_port_start g e s)"
| step_port_close: "shared_step s (host_port_close g e s)"
| step_port_detach: "shared_step s (snd (host_port_detach g e s))"
| step_port_adopt: "shared_step s (snd (host_port_adopt g e s))"
| step_register: "g < sh_next_frame s \<Longrightarrow> shared_step s (snd (register_frame_for_container keys eligible name before g c s))"
| step_auxiliary: "g < sh_next_frame s \<Longrightarrow> shared_step s (snd (create_auxiliary keys allowed has_host sandbox keep target g s))"
| step_name: "shared_step s (s\<lparr>sh_tree := set_frame_name f name (sh_tree s)\<rparr>)"
| step_popup: "shared_step s (s\<lparr>sh_tree := set_popup_sandbox f flags (sh_tree s)\<rparr>)"
| step_main: "shared_step s (s\<lparr>sh_tree := set_main_auxiliary_with_opener a (sh_tree s)\<rparr>)"
| step_reset_name: "shared_step s (s\<lparr>sh_tree := snd (reset_name_on_cross_origin_navigation f so (sh_tree s))\<rparr>)"
| step_reposition: "shared_step s (s\<lparr>sh_tree := reposition_frame keys f before (sh_tree s)\<rparr>)"
| step_destroy: "frame_for_container (sh_tree s) c = Some f \<Longrightarrow> remove_child_navigable iter f c s = Some s' \<Longrightarrow> shared_step s s'"
| step_close_auxiliary: "close_auxiliary iter f s = Some s' \<Longrightarrow> shared_step s s'"
| step_detach_children: "detach_child_frames iter f s = Some s' \<Longrightarrow> shared_step s s'"
| step_remove_leaf: "frame_children (sh_tree s) f = [] \<Longrightarrow> shared_step s (forget_document f (remove_shared_frame f s))"
| step_close_frame_ports: "shared_step s (close_frame_ports iter f s)"
| step_begin_document: "shared_step s (snd (begin_document f s))"
| step_take_deliveries: "shared_step s (snd (take_deliveries s))"
| step_take_removed: "shared_step s (snd (take_removed_frames s))"
| step_route: "shared_step s (route_endpoints es f s)"
| step_forget: "shared_step s (forget_endpoints es s)"
| step_requeue: "shared_step s (requeue_port_message e payload ports s)"
| step_requeue_close: "shared_step s (requeue_port_close e s)"

inductive shared_reach :: "nat \<Rightarrow> shared \<Rightarrow> bool" where
  reach_init: "shared_reach 0 shared_default"
| reach_step: "shared_reach n s \<Longrightarrow> shared_step s s' \<Longrightarrow> shared_reach (Suc n) s'"

definition counters_le :: "nat \<Rightarrow> shared \<Rightarrow> bool" where
  "counters_le n s = (sh_next_frame s \<le> Suc n \<and> pt_next (sh_ports s) \<le> 2 * n \<and> sh_next_document s \<le> n)"

definition keeps :: "shared \<Rightarrow> shared \<Rightarrow> bool" where
  "keeps s s' =
     (shared_ok s' \<and> sh_next_frame s' \<le> Suc (sh_next_frame s) \<and> pt_next (sh_ports s') \<le> pt_next (sh_ports s) + 2 \<and>
      sh_next_document s' \<le> Suc (sh_next_document s))"

lemma keeps_ports:
  assumes "shared_ok s" "ports_ok (fst (f (sh_ports s, sh_deliveries s)))"
    "pt_next (fst (f (sh_ports s, sh_deliveries s))) = pt_next (sh_ports s)"
  shows "keeps s (on_ports f s)"
  using assms by (simp add: keeps_def shared_ok_def docs_ok_def)

lemma keeps_table:
  assumes "shared_ok s" "ports_ok t" "pt_next t \<le> pt_next (sh_ports s) + 2"
  shows "keeps s (s\<lparr>sh_ports := t\<rparr>)"
  using assms by (simp add: keeps_def shared_ok_def docs_ok_def)

lemma keeps_tree: "shared_ok s \<Longrightarrow> tree_ok (sh_next_frame s) t \<Longrightarrow> keeps s (s\<lparr>sh_tree := t\<rparr>)"
  by (simp add: keeps_def shared_ok_def docs_ok_def)

lemma keeps_refl: "shared_ok s \<Longrightarrow> keeps s s"
  by (simp add: keeps_def)

lemma keeps_forget_endpoints: "shared_ok s \<Longrightarrow> keeps s (forget_endpoints es s)"
  using forget_endpoints_ports[of s es] by (simp add: keeps_def shared_ok_def docs_ok_def)

lemma keeps_host:
  assumes "shared_ok s"
  shows "keeps s (host_post_window_message up g ot oi target spec payload ports s)"
    "keeps s (host_port_post g e payload ports s)" "keeps s (host_port_start g e s)" "keeps s (host_port_close g e s)"
    "keeps s (snd (host_port_detach g e s))" "keeps s (snd (host_port_adopt g e s))"
proof -
  have ok: "ports_ok (sh_ports s)" using assms by (simp add: shared_ok_def)
  have deliver: "keeps s (s\<lparr>sh_deliveries := ds\<rparr>)" for ds using assms by (simp add: keeps_def shared_ok_def docs_ok_def)
  show "keeps s (host_post_window_message up g ot oi target spec payload ports s)"
    using assms keeps_forget_endpoints[OF assms] keeps_refl[OF assms] deliver
    by (simp add: host_post_window_message_def split: option.split)
  show "keeps s (host_port_post g e payload ports s)"
    using ok assms keeps_refl[OF assms] by (simp add: host_port_post_def keeps_ports ports_ok_post)
  show "keeps s (host_port_start g e s)"
    using ok assms keeps_refl[OF assms] by (auto simp: host_port_start_def endpoint_owned_def intro!: keeps_ports ports_ok_start)
  show "keeps s (host_port_close g e s)"
    using ok assms keeps_refl[OF assms] by (simp add: host_port_close_def keeps_ports ports_ok_close)
  show "keeps s (snd (host_port_detach g e s))"
    using ok assms ports_ok_detach[OF ok] by (simp add: host_port_detach_def case_prod_unfold Let_def keeps_table)
  show "keeps s (snd (host_port_adopt g e s))"
    using ok assms ports_ok_adopt[OF ok] by (simp add: host_port_adopt_def case_prod_unfold Let_def keeps_table)
qed

lemma keeps_port_new:
  assumes "shared_ok s" "room s"
  shows "keeps s (snd (host_port_new g s))"
proof -
  have "ports_ok (sh_ports s)" "Suc (pt_next (sh_ports s)) < u64_max" using assms by (auto simp: shared_ok_def room_def)
  then have "ports_ok (snd (port_new_pair g (sh_ports s)))"
    "pt_next (snd (port_new_pair g (sh_ports s))) \<le> pt_next (sh_ports s) + 2"
    using ports_ok_new_pair new_pair_eq by auto
  then show ?thesis using assms(1) by (simp add: host_port_new_def case_prod_unfold Let_def keeps_table)
qed

lemma keeps_allocated:
  assumes "shared_ok s" "room s" "tree_ok (Suc (sh_next_frame s)) t"
  shows "keeps s (snd (allocate_frame s)\<lparr>sh_tree := t\<rparr>)"
  using assms by (simp add: keeps_def shared_ok_def docs_ok_def allocate_frame_def room_def)

lemma keeps_register:
  assumes "shared_ok s" "room s" "g < sh_next_frame s"
  shows "keeps s (snd (register_frame_for_container keys eligible name before g c s))"
proof -
  have "tree_ok (Suc (sh_next_frame s)) (add_container g (sh_next_frame s) c before (sh_tree s))" if "ft_owners (sh_tree s) c = None"
    using assms that by (intro tree_ok_add_container) (auto simp: shared_ok_def MAIN_FRAME_def)
  then show ?thesis using assms keeps_refl[OF assms(1)] keeps_allocated[OF assms(1,2)] tree_ok_set_frame_name
    by (auto simp: register_frame_for_container_def frame_for_container_def allocate_frame_def Let_def)
qed

lemma frame_children_named [simp]: "frame_children (set_frame_name f n t) = frame_children t"
  by (simp add: set_frame_name_def frame_children_def fun_eq_iff)

lemma keeps_auxiliary:
  assumes "shared_ok s" "room s" "g < sh_next_frame s"
  shows "keeps s (snd (create_auxiliary keys allowed has_host sandbox keep target g s))"
proof -
  let ?n = "sh_next_frame s"
  let ?t = "case new_context_name target of
      Some n \<Rightarrow> set_frame_name ?n n (add_auxiliary g ?n keep (auxiliary_flags sandbox) (sh_tree s))
    | None \<Rightarrow> add_auxiliary g ?n keep (auxiliary_flags sandbox) (sh_tree s)"
  have ok: "tree_ok ?n (sh_tree s)" using assms(1) by (simp add: shared_ok_def)
  have t: "tree_ok (Suc ?n) ?t"
    using assms(1) tree_ok_add_auxiliary[OF ok assms(3)] tree_ok_set_frame_name
    by (auto simp: shared_ok_def MAIN_FRAME_def split: option.split)
  have "frame_children ?t = frame_children (sh_tree s)"
    by (auto simp: add_auxiliary_def set_popup_sandbox_def frame_children_def set_frame_name_def split: option.split)
  then have "frame_children ?t ?n = []" using tree_ok_leaf[OF ok] by simp
  then have "tree_ok (Suc ?n) (snd (remove_tree_frame ?n ?t))" by (rule tree_ok_remove_leaf[OF t])
  then show ?thesis using keeps_refl[OF assms(1)] keeps_allocated[OF assms(1,2)] t
    by (simp add: create_auxiliary_def allocate_frame_def remove_shared_frame_def Let_def cong: option.case_cong)
qed

lemma keeps_trans_leaf:
  assumes "shared_ok s" "detach_child_frames iter f s = Some u"
  shows "keeps s (close_frame_ports iter f (forget_document f (remove_shared_frame f u))\<lparr>sh_removed_frames := r\<rparr>)"
  using shared_ok_detach_children[OF assms] shared_ok_drop_leaf(1)[where s = u and f = f]
  by (simp add: keeps_def forget_document_def remove_shared_frame_def close_frame_ports_def)

lemma shared_step_keeps:
  assumes "shared_step s s'" "shared_ok s" "room s"
  shows "keeps s s'"
  using assms
proof (cases rule: shared_step.cases)
  case (step_destroy c f iter)
  then show ?thesis using keeps_trans_leaf[OF assms(2)] by (auto simp: remove_child_navigable_def Let_def)
next
  case (step_close_auxiliary iter f)
  then show ?thesis using keeps_trans_leaf[OF assms(2)] keeps_refl[OF assms(2)]
    by (auto simp: close_auxiliary_def Let_def split: if_splits)
next
  case (step_detach_children iter f)
  then show ?thesis using shared_ok_detach_children[OF assms(2)] by (simp add: keeps_def)
next
  case (step_remove_leaf f)
  then show ?thesis using shared_ok_drop_leaf(2)[OF assms(2)] by (simp add: keeps_def forget_document_def remove_shared_frame_def)
next
  case (step_close_frame_ports iter f)
  then show ?thesis using assms(2) by (simp add: close_frame_ports_def keeps_ports ports_ok_close_frame_ports shared_ok_def)
next
  case (step_begin_document f)
  then show ?thesis using assms docs_ok_begin[of s f]
    by (simp add: keeps_def shared_ok_def room_def) (simp add: begin_document_def)
next
  case (step_route es f)
  then show ?thesis using assms(2) by (simp add: route_endpoints_def keeps_table ports_ok_routes shared_ok_def)
next
  case (step_requeue e payload ports)
  then show ?thesis using assms(2) by (simp add: requeue_port_message_def keeps_ports ports_ok_requeue shared_ok_def)
next
  case (step_requeue_close e)
  then show ?thesis using assms(2) by (simp add: requeue_port_close_def keeps_ports ports_ok_requeue_close shared_ok_def)
next
  case step_take_deliveries
  then show ?thesis using assms(2) by (simp add: keeps_def take_deliveries_def shared_ok_def docs_ok_def)
next
  case step_take_removed
  then show ?thesis using assms(2) by (simp add: keeps_def take_removed_frames_def shared_ok_def docs_ok_def)
next
  case (step_name f name)
  then show ?thesis using assms(2) by (simp add: keeps_tree tree_ok_set_frame_name shared_ok_def)
next
  case (step_popup f flags)
  then show ?thesis using assms(2) by (simp add: keeps_tree tree_ok_set_popup_sandbox shared_ok_def)
next
  case (step_main a)
  then show ?thesis using assms(2) by (simp add: keeps_tree tree_ok_set_main shared_ok_def)
next
  case (step_reset_name f so)
  then show ?thesis using assms(2) by (simp add: keeps_tree tree_ok_reset_name shared_ok_def)
next
  case (step_reposition keys f before)
  then show ?thesis using assms(2) by (simp add: keeps_tree tree_ok_reposition shared_ok_def)
qed (use assms keeps_host[OF assms(2)] keeps_port_new[OF assms(2,3)] keeps_register[OF assms(2,3)]
      keeps_auxiliary[OF assms(2,3)] keeps_forget_endpoints[OF assms(2)] in simp_all)

lemma shared_reach_inv:
  assumes "shared_reach n s" "n \<le> 2 ^ 62"
  shows "shared_ok s \<and> counters_le n s"
  using assms
proof (induction rule: shared_reach.induct)
  case reach_init
  show ?case using shared_ok_default by (simp add: counters_le_def shared_default_def port_table_default_def)
next
  case (reach_step n s s')
  have IH: "shared_ok s" "counters_le n s" using reach_step by auto
  then have "room s" using reach_step.prems by (simp add: room_def counters_le_def u64_max_def)
  then have "keeps s s'" using shared_step_keeps[OF reach_step.hyps(2) IH(1)] by blast
  then show ?case using IH(2) by (auto simp: keeps_def counters_le_def)
qed

end
