(* ===== verification/Message_Queues.thy ===== *)
theory Message_Queues
  imports Main
begin

text \<open>
  The interface that message order is proved against: queues to which labelled steps append and from
  which nothing is lost. \<open>view\<close> is all that has ever been put into a queue and is still on its way or,
  where the state keeps it, has arrived. The message ports of a page and the lanes of the renderer
  channel interpret it.
\<close>

inductive qrun :: "('s \<Rightarrow> ('q \<times> 'm) option \<Rightarrow> 's \<Rightarrow> bool) \<Rightarrow> 's \<Rightarrow> ('q \<times> 'm) list \<Rightarrow> 's \<Rightarrow> bool" for qstep where
  qrun_Nil: "qrun qstep s [] s"
| qrun_silent: "qstep s None s' \<Longrightarrow> qrun qstep s' ls s'' \<Longrightarrow> qrun qstep s ls s''"
| qrun_send: "qstep s (Some l) s' \<Longrightarrow> qrun qstep s' ls s'' \<Longrightarrow> qrun qstep s (l # ls) s''"

locale message_queues =
  fixes inv :: "'s \<Rightarrow> bool"
    and view :: "'s \<Rightarrow> 'q \<Rightarrow> 'm list"
    and qstep :: "'s \<Rightarrow> ('q \<times> 'm) option \<Rightarrow> 's \<Rightarrow> bool"
  assumes qstep_inv: "inv s \<Longrightarrow> qstep s l s' \<Longrightarrow> inv s'"
    and qstep_view: "inv s \<Longrightarrow> qstep s l s' \<Longrightarrow>
      view s' x = view s x @ (case l of Some (y, m) \<Rightarrow> if y = x then [m] else [] | None \<Rightarrow> [])"
begin

lemma run_inv: "qrun qstep s ls s' \<Longrightarrow> inv s \<Longrightarrow> inv s'"
  by (induction rule: qrun.induct) (auto dest: qstep_inv)

lemma run_view: "qrun qstep s ls s' \<Longrightarrow> inv s \<Longrightarrow> view s' x = view s x @ map snd (filter (\<lambda>l. fst l = x) ls)"
proof (induction rule: qrun.induct)
  case (qrun_silent s s' ls s'')
  then show ?case using qstep_inv[OF qrun_silent.prems qrun_silent.hyps(1)] qstep_view[OF qrun_silent.prems qrun_silent.hyps(1), of x] by simp
next
  case (qrun_send s l s' ls s'')
  then show ?case
    using qstep_inv[OF qrun_send.prems qrun_send.hyps(1)] qstep_view[OF qrun_send.prems qrun_send.hyps(1), of x] by (cases l) simp
qed simp

end

text \<open>
  Queues from which messages are also taken at the front, and that can go away. A step is described by an event: what it sends
  to a queue, what it takes from it, and whether the queue is gone after it.
\<close>

inductive erun :: "('s \<Rightarrow> 'e \<Rightarrow> 's \<Rightarrow> bool) \<Rightarrow> 's \<Rightarrow> 'e list \<Rightarrow> 's \<Rightarrow> bool" for estep where
  erun_Nil: "erun estep s [] s"
| erun_Cons: "estep s e s' \<Longrightarrow> erun estep s' es s'' \<Longrightarrow> erun estep s (e # es) s''"

locale drained_queues =
  fixes inv :: "'s \<Rightarrow> bool"
    and view :: "'s \<Rightarrow> 'q \<Rightarrow> 'm list"
    and estep :: "'s \<Rightarrow> 'e \<Rightarrow> 's \<Rightarrow> bool"
    and sent :: "'e \<Rightarrow> 'q \<Rightarrow> 'm list"
    and taken :: "'e \<Rightarrow> 'q \<Rightarrow> 'm list"
    and gone :: "'e \<Rightarrow> 'q \<Rightarrow> bool"
  assumes estep_inv: "inv s \<Longrightarrow> estep s e s' \<Longrightarrow> inv s'"
    and estep_view: "inv s \<Longrightarrow> estep s e s' \<Longrightarrow> \<not> gone e x \<Longrightarrow> taken e x @ view s' x = view s x @ sent e x"
begin

lemma run_drained:
  "erun estep s es s' \<Longrightarrow> inv s \<Longrightarrow> \<forall>e \<in> set es. \<not> gone e x \<Longrightarrow>
     concat (map (\<lambda>e. taken e x) es) @ view s' x = view s x @ concat (map (\<lambda>e. sent e x) es)"
proof (induction rule: erun.induct)
  case (erun_Cons s e s' es s'')
  let ?T = "concat (map (\<lambda>e. taken e x) es)" and ?S = "concat (map (\<lambda>e. sent e x) es)"
  have "taken e x @ ?T @ view s'' x = taken e x @ view s' x @ ?S"
    using erun_Cons.IH estep_inv[OF erun_Cons.prems(1) erun_Cons.hyps(1)] erun_Cons.prems(2) by simp
  also have "\<dots> = (taken e x @ view s' x) @ ?S" by simp
  also have "taken e x @ view s' x = view s x @ sent e x"
    using estep_view[OF erun_Cons.prems(1) erun_Cons.hyps(1)] erun_Cons.prems(2) by simp
  finally show ?case by simp
qed simp

end

end
