(* ===== verification/Port_Rows.thy ===== *)
theory Port_Rows
  imports Browsing_Inv Message_Queues
begin

text \<open>
  What the operations of the port table do to one row, and to the messages on their way to a port.
\<close>

section \<open>Forgetting rows\<close>

definition severed :: "port_endpoint \<Rightarrow> port_endpoint" where
  "severed p = p\<lparr>pe_peer := None, pe_close_pending := pe_close_pending p \<or> pe_detached p\<rparr>"

text \<open>The row of \<open>x\<close> after the endpoints \<open>E\<close> went away.\<close>

definition row_after :: "nat set \<Rightarrow> port_table \<Rightarrow> port_table \<Rightarrow> nat \<Rightarrow> bool" where
  "row_after E t u x =
     (pt_ports u x =
        (if x \<in> E then None
         else map_option (\<lambda>p. if (case pe_peer p of Some e \<Rightarrow> e \<in> E | None \<Rightarrow> False) then severed p else p) (pt_ports t x)))"

lemma severed_fields [simp]:
  "pe_peer (severed p) = None" "pe_owner (severed p) = pe_owner p" "pe_detached (severed p) = pe_detached p"
  "pe_recipient (severed p) = pe_recipient p" "pe_enabled (severed p) = pe_enabled p" "pe_queue (severed p) = pe_queue p"
  "pe_closed (severed p) = pe_closed p"
  by (simp_all add: severed_def)

lemma forgotten_row:
  assumes "ports_ok t"
  shows "row_after {e} t (forgotten e t) x"
proof (cases "x = e")
  case True
  then show ?thesis using forgotten_self[OF assms, of e] by (simp add: row_after_def)
next
  case False
  have "port_peer t e = Some x \<longleftrightarrow> (\<exists>p. pt_ports t x = Some p \<and> pe_peer p = Some e)"
  proof
    assume "port_peer t e = Some x"
    then obtain q where "pt_ports t e = Some q" "pe_peer q = Some x" by (auto simp: port_peer_def bind_eq_Some_conv)
    then show "\<exists>p. pt_ports t x = Some p \<and> pe_peer p = Some e" using ports_ok_peerD[OF assms] by blast
  next
    assume "\<exists>p. pt_ports t x = Some p \<and> pe_peer p = Some e"
    then obtain p where "pt_ports t x = Some p" "pe_peer p = Some e" by blast
    then show "port_peer t e = Some x" using ports_ok_peerD[OF assms] by (fastforce simp: port_peer_def)
  qed
  then show ?thesis using False forgotten_other[OF assms False]
    by (cases "pt_ports t x") (auto simp: row_after_def severed_def split: option.split)
qed

lemma row_after_comp:
  assumes "row_after E t u x" "row_after F u v x"
  shows "row_after (E \<union> F) t v x"
  using assms by (cases "pt_ports t x") (auto simp: row_after_def split: option.splits if_splits)

lemma forgets_row:
  "ports_ok (fst td) \<Longrightarrow> row_after (set es) (fst td) (fst (fold port_forget es td)) x"
proof (induction es arbitrary: td)
  case Nil
  then show ?case by (cases "pt_ports (fst td) x") (auto simp: row_after_def split: option.split)
next
  case (Cons e es)
  have "row_after {e} (fst td) (fst (port_forget e td)) x" using forgotten_row[OF Cons.prems] by (simp add: port_forget_eq[OF Cons.prems])
  moreover have "row_after (set es) (fst (port_forget e td)) (fst (fold port_forget es (port_forget e td))) x"
    using Cons.IH ports_ok_forget[OF Cons.prems] by blast
  ultimately have "row_after ({e} \<union> set es) (fst td) (fst (fold port_forget es (port_forget e td))) x" by (rule row_after_comp)
  then show ?case by simp
qed

lemma closes_forgets: "ports_ok (fst td) \<Longrightarrow> fold port_close es td = fold port_forget es td"
  by (induction es arbitrary: td) (simp_all add: port_close_forget ports_ok_forget)

lemma forget_endpoints_fold:
  "(sh_ports (forget_endpoints es s), sh_deliveries (forget_endpoints es s)) = fold port_forget es (sh_ports s, sh_deliveries s)"
  by (induction es arbitrary: s) simp_all

lemma forget_endpoints_row:
  assumes "ports_ok (sh_ports s)"
  shows "row_after (set es) (sh_ports s) (sh_ports (forget_endpoints es s)) x"
  using forgets_row[of "(sh_ports s, sh_deliveries s)" es x] assms forget_endpoints_fold[of es s] by (metis fst_conv)

section \<open>Closing the ports of a frame\<close>

definition iterates :: "(port_table \<Rightarrow> nat list) \<Rightarrow> bool" where
  "iterates iter = (\<forall>t. finite (dom (pt_ports t)) \<longrightarrow> set (iter t) = dom (pt_ports t))"

definition owned_by :: "nat set \<Rightarrow> port_table \<Rightarrow> nat set" where
  "owned_by F t = {e. \<exists>f\<in>F. port_owner t e = Some f}"

lemma port_owner_Some: "port_owner t e = Some f \<longleftrightarrow> (\<exists>p. pt_ports t e = Some p \<and> pe_owner p = Some f)"
  by (auto simp: port_owner_def bind_eq_Some_conv)

lemma set_owned_ports:
  assumes "ports_ok t" "iterates iter"
  shows "set (owned_ports (iter t) f t) = owned_by {f} t"
proof -
  have "set (iter t) = dom (pt_ports t)" using assms by (auto simp: iterates_def ports_ok_def)
  then show ?thesis using ports_okD(3)[OF assms(1)]
    by (auto simp: owned_ports_def owned_by_def port_owner_Some split: option.splits)
qed

lemma close_frame_ports_row:
  assumes "ports_ok (sh_ports s)" "iterates iter"
  shows "row_after (owned_by {f} (sh_ports s)) (sh_ports s) (sh_ports (close_frame_ports iter f s)) x"
proof -
  let ?td = "(sh_ports s, sh_deliveries s)"
  have "sh_ports (close_frame_ports iter f s) = fst (fold port_forget (owned_ports (iter (sh_ports s)) f (sh_ports s)) ?td)"
    using assms(1) by (simp add: close_frame_ports_def port_close_frame_ports_def closes_forgets)
  then show ?thesis using forgets_row[of ?td] set_owned_ports[OF assms] assms(1) by (metis fst_conv)
qed

lemma row_after_owner: "row_after E t u e \<Longrightarrow> port_owner u e = (if e \<in> E then None else port_owner t e)"
  by (cases "pt_ports t e") (auto simp: port_owner_def row_after_def)

lemma row_after_owned:
  assumes "\<And>e. row_after E t u e"
  shows "owned_by F u = owned_by F t - E"
  using row_after_owner[OF assms] by (auto simp: owned_by_def)

lemma detach_fold_row:
  assumes "ports_ok (sh_ports s)" "iterates iter"
  shows "row_after (owned_by (set xs) (sh_ports s)) (sh_ports s) (sh_ports (fold (detach_one iter) xs s)) x"
  using assms(1)
proof (induction xs arbitrary: s x)
  case Nil
  then show ?case by (cases "pt_ports (sh_ports s) x") (auto simp: row_after_def owned_by_def split: option.split)
next
  case (Cons f xs)
  let ?u = "detach_one iter f s"
  have "sh_ports ?u = sh_ports (close_frame_ports iter f s)" by (simp add: detach_one_ports close_frame_ports_def)
  then have u: "row_after (owned_by {f} (sh_ports s)) (sh_ports s) (sh_ports ?u) y" for y
    using close_frame_ports_row[OF Cons.prems assms(2)] by simp
  have "ports_ok (sh_ports ?u)" using detach_fold_ports[OF Cons.prems, of iter "[f]"] by simp
  then have "row_after (owned_by (set xs) (sh_ports ?u)) (sh_ports ?u) (sh_ports (fold (detach_one iter) xs ?u)) x" by (rule Cons.IH)
  then have "row_after (owned_by {f} (sh_ports s) \<union> owned_by (set xs) (sh_ports ?u)) (sh_ports s) (sh_ports (fold (detach_one iter) xs ?u)) x"
    by (rule row_after_comp[OF u])
  moreover have "owned_by {f} (sh_ports s) \<union> owned_by (set xs) (sh_ports ?u) = owned_by (set (f # xs)) (sh_ports s)"
    unfolding row_after_owned[OF u] by (auto simp: owned_by_def)
  ultimately show ?case by simp
qed

section \<open>The messages on their way to a port\<close>

definition port_messages :: "nat \<Rightarrow> delivery list \<Rightarrow> (string \<times> nat list) list" where
  "port_messages e ds =
     concat (map (\<lambda>d. case d of DPortMessage e' payload ports \<Rightarrow> if e' = e then [(payload, ports)] else [] | _ \<Rightarrow> []) ds)"

definition queued_messages :: "port_table \<Rightarrow> nat \<Rightarrow> (string \<times> nat list) list" where
  "queued_messages t e =
     (case pt_ports t e of Some p \<Rightarrow> map (\<lambda>m. (qm_payload m, qm_ports m)) (pe_queue p) | None \<Rightarrow> [])"

definition pending_messages :: "shared \<Rightarrow> nat \<Rightarrow> (string \<times> nat list) list" where
  "pending_messages s e = port_messages e (sh_deliveries s) @ queued_messages (sh_ports s) e"

lemma port_messages_simps [simp]:
  "port_messages e [] = []" "port_messages e (ds @ ds') = port_messages e ds @ port_messages e ds'"
  by (simp_all add: port_messages_def)

lemma port_messages_drain: "port_messages e (drain_queue e' q) = (if e = e' then map (\<lambda>m. (qm_payload m, qm_ports m)) q else [])"
  by (induction q) (auto simp: port_messages_def drain_queue_def)

definition td_pending :: "port_table \<times> delivery list \<Rightarrow> nat \<Rightarrow> (string \<times> nat list) list" where
  "td_pending td e = port_messages e (snd td) @ queued_messages (fst td) e"

lemma pending_on_ports: "pending_messages (on_ports f s) e = td_pending (f (sh_ports s, sh_deliveries s)) e"
  by (simp add: pending_messages_def td_pending_def)

lemma td_pending_flush:
  "td_pending (flush_port e p (t, ds)) x =
     (if x = e then port_messages e ds @ map (\<lambda>m. (qm_payload m, qm_ports m)) (pe_queue p) else td_pending (t, ds) x)"
  by (simp add: td_pending_def flush_port_def port_messages_drain queued_messages_def)

lemma td_pending_put:
  "td_pending (put_port e p t, ds) x =
     (if x = e then port_messages e ds @ map (\<lambda>m. (qm_payload m, qm_ports m)) (pe_queue p) else td_pending (t, ds) x)"
  by (simp add: td_pending_def queued_messages_def)

lemma td_pending_Some:
  "pt_ports t e = Some p \<Longrightarrow> td_pending (t, ds) e = port_messages e ds @ map (\<lambda>m. (qm_payload m, qm_ports m)) (pe_queue p)"
  by (simp add: td_pending_def queued_messages_def)

text \<open>The endpoint a post by the owner of \<open>e\<close> reaches.\<close>

lemma td_pending_post:
  assumes "ports_ok t" "port_owner t e \<noteq> None"
  shows "td_pending (port_post e payload ports (t, ds)) x =
    td_pending (t, ds) x @ (if port_peer t e = Some x then [(payload, ports)] else [])"
proof -
  obtain p where p: "pt_ports t e = Some p" "\<not> pe_detached p" "\<not> pe_closed p"
    using assms ports_okD(3,4)[OF assms(1)] by (auto simp: port_owner_Some)
  show ?thesis
  proof (cases "pe_peer p")
    case None
    then show ?thesis using p by (simp add: port_post_def port_peer_def Let_def)
  next
    case (Some q)
    then obtain r where r: "pt_ports t q = Some r" "\<not> pe_closed r"
      using ports_ok_peerD[OF assms(1) p(1) Some] ports_okD(3)[OF assms(1)] by auto
    then show ?thesis using p Some
      by (auto simp: port_post_def port_peer_def Let_def td_pending_flush td_pending_put td_pending_Some)
  qed
qed

lemma td_pending_start:
  assumes "ports_ok t" "port_owner t e \<noteq> None"
  shows "td_pending (port_start e (t, ds)) x = td_pending (t, ds) x"
proof -
  obtain p where p: "pt_ports t e = Some p" "\<not> pe_detached p" "\<not> pe_closed p"
    using assms ports_okD(3,4)[OF assms(1)] by (auto simp: port_owner_Some)
  then show ?thesis by (auto simp: port_start_def Let_def td_pending_flush td_pending_Some)
qed

lemma queued_detach: "queued_messages (snd (port_detach e f t)) x = queued_messages t x"
  by (auto simp: port_detach_def queued_messages_def split: option.split)

lemma queued_adopt: "queued_messages (snd (port_adopt e f t)) x = queued_messages t x"
  by (auto simp: port_adopt_def queued_messages_def split: option.split)

lemma queued_route: "queued_messages (port_route e f t) x = queued_messages t x"
  by (auto simp: port_route_def queued_messages_def split: option.split)

lemma queued_routes: "queued_messages (fold (\<lambda>e. port_route e f) es t) x = queued_messages t x"
  by (induction es arbitrary: t) (simp_all add: queued_route)

lemma queued_new_pair:
  assumes "ports_ok t" "Suc (pt_next t) < u64_max"
  shows "queued_messages (snd (port_new_pair f t)) x = queued_messages t x"
proof -
  have "pt_ports t (pt_next t) = None" "pt_ports t (Suc (pt_next t)) = None"
    using ports_okD(1)[OF assms(1)] by (metis less_irrefl not_None_eq, metis not_None_eq not_less_eq less_SucI less_irrefl)
  then show ?thesis unfolding new_pair_eq[OF assms(2)] by (auto simp: queued_messages_def port_default_def)
qed

end
