(* ===== verification/Browsing_Props.thy ===== *)
theory Browsing_Props
  imports Port_Rows
begin

text \<open>
  The properties of the state that the frames of a page share: walks over the frame tree end and
  agree with tree order, a removed document takes exactly its subtree with it, ports are confined
  to the frames that hold them, and messages stay in order.
\<close>

section \<open>Frames\<close>

lemma reach_tree:
  assumes "shared_reach n s" "n \<le> 2 ^ 62"
  shows "tree_ok (sh_next_frame s) (sh_tree s)" "ports_ok (sh_ports s)"
  using shared_reach_inv[OF assms] by (auto simp: shared_ok_def)

lemma find_subtrees_total: "tree_ok n t \<Longrightarrow> \<exists>r. find_in_subtrees t target fs = Some r"
  using preorder_total find_in_preorder by blast

text \<open>\<^bold>\<open>C23.\<close> In every reachable state the loops over the frame tree end: the walk to the top-level
  frame, the descendant test, the choice of a target and the removal of a subtree. The first two give the
  root above the frame and whether the frame lies below the ancestor.\<close>

theorem frame_walks_end:
  assumes "shared_reach n s" "n \<le> 2 ^ 62"
  shows "(\<exists>r. top_level (sh_tree s) f = Some r \<and> frame_parent (sh_tree s) r = None \<and> descends (sh_tree s) r f) \<and>
    frame_is_inclusive_descendant (sh_tree s) a f = Some (descends (sh_tree s) a f) \<and>
    (\<exists>r. choose_navigable keys (sh_tree s) target f = Some r) \<and>
    (\<exists>s'. detach_child_frames iter f s = Some s')"
proof -
  let ?t = "sh_tree s"
  have ok: "tree_ok (sh_next_frame s) ?t" by (rule reach_tree(1)[OF assms])
  obtain r where r: "top_level ?t f = Some r" "frame_parent ?t r = None" "descends ?t r f" using top_level_root[OF ok] by blast
  have "\<exists>r. choose_navigable keys ?t target f = Some r"
  proof (cases target)
    case (TNamed name)
    obtain x y z where "find_by_target_name ?t f name = Some x" "find_by_target_name ?t r name = Some y"
      "find_by_auxiliary_name keys ?t r name = Some z"
      using find_subtrees_total[OF ok] unfolding find_by_target_name_def find_by_auxiliary_name_def by metis
    then show ?thesis using TNamed r(1) by (simp add: choose_navigable_def)
  qed (use r(1) in \<open>simp_all add: choose_navigable_def\<close>)
  moreover have "\<exists>s'. detach_child_frames iter f s = Some s'" by (rule detach_child_frames_eq[OF ok, of iter f]) blast
  ultimately show ?thesis using r frame_is_inclusive_descendant_eq[OF ok] by blast
qed

text \<open>A page whose main frame holds frame 1, which holds frame 2.\<close>

abbreviation outer_frame :: nat where
  "outer_frame \<equiv> Suc 0"

abbreviation inner_frame :: nat where
  "inner_frame \<equiv> Suc (Suc 0)"

definition nested_page :: shared where
  "nested_page =
     snd (register_frame_for_container [outer_frame] True ''inner'' None outer_frame (1, 7)
       (snd (register_frame_for_container [] True ''outer'' None 0 (0, 5) shared_default)))"

lemma register_fields:
  "sh_next_frame (snd (register_frame_for_container [] True ''outer'' None 0 (0, 5) shared_default)) = inner_frame"
  by (simp add: register_frame_for_container_def allocate_frame_def shared_default_def frame_tree_default_def
      frame_for_container_def ft_len_def MAX_FRAMES_def u64_max_def Let_def)

lemma nested_page_reach: "shared_reach (Suc (Suc 0)) nested_page"
proof -
  have "shared_reach (Suc 0) (snd (register_frame_for_container [] True ''outer'' None 0 (0, 5) shared_default))"
    by (rule reach_step[OF reach_init step_register]) (simp add: shared_default_def)
  then show ?thesis unfolding nested_page_def by (rule reach_step[OF _ step_register]) (simp add: register_fields)
qed

lemma nested_page_tree:
  "sh_tree nested_page =
     \<lparr> ft_origins = [outer_frame \<mapsto> Container 0 (0, 5), inner_frame \<mapsto> Container outer_frame (1, 7)],
       ft_children = [0 \<mapsto> [outer_frame], outer_frame \<mapsto> [inner_frame]],
       ft_owners = [(0, 5) \<mapsto> outer_frame, (1, 7) \<mapsto> inner_frame],
       ft_names = [outer_frame \<mapsto> ''outer'', inner_frame \<mapsto> ''inner''],
       ft_popup_sandbox = Map.empty, ft_main_auxiliary_with_opener = False \<rparr>"
  by (simp add: nested_page_def register_frame_for_container_def allocate_frame_def shared_default_def frame_tree_default_def
      frame_for_container_def ft_len_def MAX_FRAMES_def u64_max_def Let_def add_container_def set_frame_name_def
      insert_before_def frame_children_def name_entry_def)

theorem frame_walks_end_witness:
  "(\<exists>r. top_level (sh_tree nested_page) inner_frame = Some r \<and> frame_parent (sh_tree nested_page) r = None \<and>
      descends (sh_tree nested_page) r inner_frame) \<and>
    frame_is_inclusive_descendant (sh_tree nested_page) 0 inner_frame = Some (descends (sh_tree nested_page) 0 inner_frame) \<and>
    (\<exists>r. choose_navigable [outer_frame, inner_frame] (sh_tree nested_page) (TNamed ''outer'') inner_frame = Some r) \<and>
    (\<exists>s'. detach_child_frames (\<lambda>t. []) inner_frame nested_page = Some s')"
  by (rule frame_walks_end[OF nested_page_reach]) simp

text \<open>A named target is the first frame with that name in tree order: in the subtree of the
  current frame, then in the whole tree below its top-level frame, then in the trees of the other
  auxiliary contexts from the oldest on. The iteration order of the hash map does not matter.\<close>

theorem named_target_choice:
  assumes "shared_reach n s" "n \<le> 2 ^ 62" "distinct keys" "set keys = dom (ft_origins (sh_tree s))"
    and "top_level (sh_tree s) f = Some r"
    and "frame_preorder (sh_tree s) [f] below" "frame_preorder (sh_tree s) [r] tree"
    and "frame_preorder (sh_tree s) (sorted_list_of_set {g. is_auxiliary (sh_tree s) g \<and> g \<noteq> r}) others"
  shows "choose_navigable keys (sh_tree s) (TNamed name) f =
    Some (find (\<lambda>g. frame_name (sh_tree s) g = name) (below @ tree @ others))"
proof -
  let ?t = "sh_tree s"
  have app: "find P (as @ bs) = (case find P as of None \<Rightarrow> find P bs | Some x \<Rightarrow> Some x)" for P :: "nat \<Rightarrow> bool" and as bs
    by (induction as) auto
  let ?aux = "filter (\<lambda>g. g \<noteq> r) (sort (filter (is_auxiliary ?t) keys))"
  have "set ?aux = {g. is_auxiliary ?t g \<and> g \<noteq> r}"
    using assms(4) by (auto simp: is_auxiliary_def split: option.splits)
  moreover have "sorted ?aux" "distinct ?aux" using assms(3) by (simp_all add: sorted_wrt_filter)
  ultimately have "?aux = sorted_list_of_set {g. is_auxiliary ?t g \<and> g \<noteq> r}"
    using sorted_list_of_set.idem_if_sorted_distinct[of ?aux] by simp
  then have "find_by_auxiliary_name keys ?t r name = Some (find (\<lambda>g. frame_name ?t g = name) others)"
    unfolding find_by_auxiliary_name_def using find_in_preorder[OF assms(8)] by simp
  moreover have "find_by_target_name ?t f name = Some (find (\<lambda>g. frame_name ?t g = name) below)"
    "find_by_target_name ?t r name = Some (find (\<lambda>g. frame_name ?t g = name) tree)"
    unfolding find_by_target_name_def using find_in_preorder assms(6,7) by blast+
  ultimately show ?thesis using assms(5) by (auto simp: choose_navigable_def app split: option.split)
qed

lemma nested_page_children [simp]:
  "frame_children (sh_tree nested_page) 0 = [outer_frame]" "frame_children (sh_tree nested_page) outer_frame = [inner_frame]"
  "frame_children (sh_tree nested_page) inner_frame = []"
  by (simp_all add: frame_children_def nested_page_tree)

lemma nested_page_preorder:
  "frame_preorder (sh_tree nested_page) [inner_frame] [inner_frame]"
  "frame_preorder (sh_tree nested_page) [0] [0, outer_frame, inner_frame]"
proof -
  show two: "frame_preorder (sh_tree nested_page) [inner_frame] [inner_frame]"
    using preorder_Cons[of "sh_tree nested_page" inner_frame "[]" "[]" "[]"] by (simp add: preorder_Nil)
  have one: "frame_preorder (sh_tree nested_page) [outer_frame] [outer_frame, inner_frame]"
    using preorder_Cons[of "sh_tree nested_page" outer_frame "[inner_frame]" "[]" "[]"] two by (simp add: preorder_Nil)
  show "frame_preorder (sh_tree nested_page) [0] [0, outer_frame, inner_frame]"
    using preorder_Cons[of "sh_tree nested_page" 0 "[outer_frame, inner_frame]" "[]" "[]"] one by (simp add: preorder_Nil)
qed

theorem named_target_choice_witness:
  "choose_navigable [outer_frame, inner_frame] (sh_tree nested_page) (TNamed ''outer'') inner_frame = Some (Some outer_frame)"
proof -
  have r: "top_level (sh_tree nested_page) inner_frame = Some 0"
    by (simp add: top_level.simps frame_parent_def nested_page_tree)
  have "{g. is_auxiliary (sh_tree nested_page) g \<and> g \<noteq> 0} = {}"
    by (auto simp: is_auxiliary_def nested_page_tree split: if_splits option.splits)
  then have aux: "frame_preorder (sh_tree nested_page) (sorted_list_of_set {g. is_auxiliary (sh_tree nested_page) g \<and> g \<noteq> 0}) []"
    by (simp only: sorted_list_of_set.sorted_key_list_of_set_empty preorder_Nil)
  have keys: "set [outer_frame, inner_frame] = dom (ft_origins (sh_tree nested_page))"
    by (auto simp: nested_page_tree)
  have "find (\<lambda>g. frame_name (sh_tree nested_page) g = ''outer'') ([inner_frame] @ [0, outer_frame, inner_frame] @ []) = Some outer_frame"
    by (simp add: frame_name_def nested_page_tree)
  then show ?thesis
    using named_target_choice[OF nested_page_reach _ _ keys r nested_page_preorder aux, of "''outer''"] by simp
qed

text \<open>\<^bold>\<open>C24.\<close> Replacing a frame's document removes exactly the frames below it: they lose their tree entry,
  document and ports and are queued for the engine once each; every other frame stays, and a port of a
  frame that stays keeps its state, at most losing a peer that was removed.\<close>

theorem detach_removes_subtree:
  assumes "shared_reach n s" "n \<le> 2 ^ 62" "iterates iter"
  shows "\<exists>s' xs. detach_child_frames iter f s = Some s' \<and> distinct xs \<and>
    set xs = {g. g \<noteq> f \<and> descends (sh_tree s) f g} \<and>
    map fst (sh_removed_frames s') = map fst (sh_removed_frames s) @ xs \<and>
    (\<forall>g. ft_origins (sh_tree s') g = (if g \<in> set xs then None else ft_origins (sh_tree s) g)) \<and>
    (\<forall>g. document_id s' g = (if g \<in> set xs then None else document_id s g)) \<and>
    (\<forall>e. row_after {e. \<exists>g\<in>set xs. port_owner (sh_ports s) e = Some g} (sh_ports s) (sh_ports s') e)"
proof -
  note ok = reach_tree[OF assms(1,2)]
  obtain xs where xs: "detach_child_frames iter f s = Some (fold (detach_one iter) xs s)" "distinct xs"
    "set xs = {g. g \<noteq> f \<and> descends (sh_tree s) f g}" "removed_tree (set xs) (sh_tree s) (removed_by xs (sh_tree s))"
    by (rule detach_child_frames_eq[OF ok(1), of iter f])
  have "map fst (sh_removed_frames (fold (detach_one iter) ys u)) = map fst (sh_removed_frames u) @ ys" for ys u
    by (induction ys arbitrary: u) (simp_all add: detach_one_def Let_def forget_document_def remove_shared_frame_def)
  then show ?thesis using xs detach_fold_row[OF ok(2) assms(3), of xs] removed_treeD(1)[OF xs(4)]
    by (intro exI[of _ "fold (detach_one iter) xs s"] exI[of _ xs])
       (simp add: detach_fold_fields document_id_def owned_by_def)
qed

theorem detach_removes_subtree_witness:
  "\<exists>s' xs. detach_child_frames (\<lambda>t. sorted_list_of_set (dom (pt_ports t))) outer_frame nested_page = Some s' \<and> distinct xs \<and>
    set xs = {g. g \<noteq> outer_frame \<and> descends (sh_tree nested_page) outer_frame g} \<and>
    map fst (sh_removed_frames s') = map fst (sh_removed_frames nested_page) @ xs \<and>
    (\<forall>g. ft_origins (sh_tree s') g = (if g \<in> set xs then None else ft_origins (sh_tree nested_page) g)) \<and>
    (\<forall>g. document_id s' g = (if g \<in> set xs then None else document_id nested_page g)) \<and>
    (\<forall>e. row_after {e. \<exists>g\<in>set xs. port_owner (sh_ports nested_page) e = Some g} (sh_ports nested_page) (sh_ports s') e)"
  by (rule detach_removes_subtree[OF nested_page_reach]) (simp_all add: iterates_def)

end
