(* ===== verification/Port_Props.thy ===== *)
theory Port_Props
  imports Port_Rows
begin

text \<open>
  The properties of message ports: they are confined to the frames that hold them, the messages on
  their way to a port form one queue, and routing keeps the order of that queue unless the port is
  in transit.
\<close>

section \<open>Channels\<close>

lemma reach_ports:
  assumes "shared_reach n s" "n \<le> 2 ^ 62"
  shows "shared_ok s" "ports_ok (sh_ports s)" "room s"
  using shared_reach_inv[OF assms] assms(2) by (auto simp: shared_ok_def room_def counters_le_def u64_max_def)

text \<open>In every reachable state an endpoint of the table is open; it is either held by one frame or in
  transit to one; an endpoint whose queue is enabled is held and its queue is empty; and two entangled
  endpoints are distinct rows that name each other.\<close>

theorem message_channels_wf:
  assumes "shared_reach n s" "n \<le> 2 ^ 62" "pt_ports (sh_ports s) e = Some p"
  shows "\<not> pe_closed p \<and> (pe_detached p \<longleftrightarrow> pe_owner p = None) \<and> (pe_owner p = None \<longrightarrow> pe_recipient p \<noteq> None) \<and>
    (pe_enabled p \<longrightarrow> pe_owner p \<noteq> None \<and> pe_queue p = []) \<and>
    (pe_close_pending p \<longrightarrow> pe_detached p) \<and>
    (\<forall>e'. pe_peer p = Some e' \<longrightarrow> e' \<noteq> e \<and> (\<exists>p'. pt_ports (sh_ports s) e' = Some p' \<and> pe_peer p' = Some e))"
  using ports_okD(2)[OF reach_ports(2)[OF assms(1,2)] assms(3)] ports_ok_peerD[OF reach_ports(2)[OF assms(1,2)] assms(3)]
  by (auto simp: row_ok_def)

text \<open>The main frame opens a channel with ports 0 and 1.\<close>

definition channel_page :: shared where
  "channel_page = snd (host_port_new 0 shared_default)"

lemma channel_page_reach: "shared_reach (Suc 0) channel_page"
  unfolding channel_page_def by (rule reach_step[OF reach_init step_port_new])

lemma channel_page_ports:
  "sh_ports channel_page = \<lparr> pt_next = Suc (Suc 0), pt_ports =
     [0 \<mapsto> port_default\<lparr>pe_peer := Some (Suc 0), pe_owner := Some 0, pe_recipient := Some 0\<rparr>,
      Suc 0 \<mapsto> port_default\<lparr>pe_peer := Some 0, pe_owner := Some 0, pe_recipient := Some 0\<rparr>] \<rparr>"
  "sh_deliveries channel_page = []"
proof -
  have "Suc (pt_next port_table_default) < u64_max" by (simp add: port_table_default_def u64_max_def)
  from new_pair_eq[OF this, of 0] show
    "sh_ports channel_page = \<lparr> pt_next = Suc (Suc 0), pt_ports =
     [0 \<mapsto> port_default\<lparr>pe_peer := Some (Suc 0), pe_owner := Some 0, pe_recipient := Some 0\<rparr>,
      Suc 0 \<mapsto> port_default\<lparr>pe_peer := Some 0, pe_owner := Some 0, pe_recipient := Some 0\<rparr>] \<rparr>"
    "sh_deliveries channel_page = []"
    by (simp_all add: channel_page_def host_port_new_def shared_default_def port_table_default_def case_prod_unfold Let_def)
qed

theorem message_channels_wf_witness:
  "\<exists>p'. pt_ports (sh_ports channel_page) (Suc 0) = Some p' \<and> pe_peer p' = Some 0"
  using message_channels_wf[OF channel_page_reach, of 0 "port_default\<lparr>pe_peer := Some (Suc 0), pe_owner := Some 0, pe_recipient := Some 0\<rparr>"]
  by (simp add: channel_page_ports)

section \<open>Confinement\<close>

text \<open>The host functions that script of frame \<open>g\<close> can call, with any arguments.\<close>

inductive host_step :: "nat \<Rightarrow> shared \<Rightarrow> shared \<Rightarrow> bool" for g where
  host_window: "host_step g s (host_post_window_message up g ot oi target spec payload ports s)"
| host_new: "host_step g s (snd (host_port_new g s))"
| host_post: "host_step g s (host_port_post g e payload ports s)"
| host_start: "host_step g s (host_port_start g e s)"
| host_close: "host_step g s (host_port_close g e s)"
| host_detach: "host_step g s (snd (host_port_detach g e s))"
| host_adopt: "host_step g s (snd (host_port_adopt g e s))"

text \<open>The endpoints a frame holds: owned by it, or in transit to it.\<close>

definition holds :: "port_table \<Rightarrow> nat \<Rightarrow> nat \<Rightarrow> bool" where
  "holds t g e = (port_owner t e = Some g \<or> in_transit_from t e g)"

definition row_change :: "port_table \<Rightarrow> nat \<Rightarrow> port_endpoint \<Rightarrow> port_endpoint \<Rightarrow> bool" where
  "row_change t g p p' =
     (p' = p \<or> (\<exists>x. pe_peer p = Some x \<and> holds t g x \<and> (p' = severed p \<or> (\<exists>m. p' = p\<lparr>pe_queue := pe_queue p @ [m]\<rparr>))))"

lemma row_after_change:
  assumes "row_after E t u e" "pt_ports t e = Some p" "\<And>x. x \<in> E \<Longrightarrow> holds t g x" "\<not> holds t g e"
  shows "\<exists>p'. pt_ports u e = Some p' \<and> row_change t g p p'"
  using assms by (auto simp: row_after_def row_change_def split: option.splits if_splits)

lemma confined_post:
  assumes ok: "ports_ok t" and p: "pt_ports t e = Some p" and own: "port_owner t x = Some g"
  shows "\<exists>p'. pt_ports (fst (port_post x payload ports (t, ds))) e = Some p' \<and> row_change t g p p'"
proof -
  obtain q where q: "pt_ports t x = Some q" "\<not> pe_detached q" "\<not> pe_closed q"
    using own ports_okD(3,4)[OF ok] by (auto simp: port_owner_Some)
  show ?thesis
  proof (cases "pe_peer q = Some e")
    case True
    then have "pe_peer p = Some x" using ports_ok_peerD[OF ok q(1) True] p by simp
    moreover have "holds t g x" using own by (simp add: holds_def)
    moreover have "p\<lparr>pe_queue := []\<rparr> = p" if "pe_enabled p" using ports_okD(6)[OF ok p that] by (cases p) simp
    ultimately show ?thesis using q True p ports_okD(3)[OF ok p]
      by (auto simp: port_post_def Let_def row_change_def)
  next
    case False
    then show ?thesis using q p by (auto simp: port_post_def Let_def row_change_def split: option.split)
  qed
qed

text \<open>\<^bold>\<open>C7.\<close> Whatever arguments the script of a frame passes to the host functions, an endpoint that the
  frame does not hold stays in the table unchanged, unless the frame holds the other end: then a message
  may be queued behind the others, or the link be cut. Ownership, recipient and the enabled flag
  never change.\<close>

theorem port_confinement:
  assumes "shared_reach n s" "n \<le> 2 ^ 62" "host_step g s s'"
    and "pt_ports (sh_ports s) e = Some p" "\<not> holds (sh_ports s) g e"
  shows "\<exists>p'. pt_ports (sh_ports s') e = Some p' \<and> row_change (sh_ports s) g p p' \<and>
    pe_owner p' = pe_owner p \<and> pe_detached p' = pe_detached p \<and> pe_recipient p' = pe_recipient p \<and> pe_enabled p' = pe_enabled p"
proof -
  note ok = reach_ports(2)[OF assms(1,2)]
  have refl: "row_change (sh_ports s) g p p" by (simp add: row_change_def)
  have "\<exists>p'. pt_ports (sh_ports s') e = Some p' \<and> row_change (sh_ports s) g p p'"
    using assms(3)
  proof cases
    case (host_window up ot oi target spec payload ports)
    have "\<exists>p'. pt_ports (sh_ports (forget_endpoints ports s)) e = Some p' \<and> row_change (sh_ports s) g p p'"
      if "all_in_transit_from (sh_ports s) ports g"
      using row_after_change[OF forget_endpoints_row[OF ok] assms(4) _ assms(5)] that
      by (auto simp: all_in_transit_from_def holds_def list_all_iff)
    then show ?thesis using host_window assms(4) refl by (auto simp: host_post_window_message_def split: option.splits)
  next
    case host_new
    have "e < pt_next (sh_ports s)" using ports_okD(1)[OF ok assms(4)] .
    then show ?thesis using host_new new_pair_eq[of "sh_ports s" g] reach_ports(3)[OF assms(1,2)] assms(4) refl
      by (simp add: host_port_new_def case_prod_unfold Let_def room_def)
  next
    case (host_post x payload ports)
    then show ?thesis using confined_post[OF ok assms(4), of x g payload ports "sh_deliveries s"] assms(4) refl
      by (auto simp: host_port_post_def endpoint_owned_def)
  next
    case (host_start x)
    then show ?thesis using assms(4,5) refl
      by (auto simp: host_port_start_def endpoint_owned_def port_start_def holds_def Let_def split: option.split)
  next
    case (host_close x)
    have "row_after {x} (sh_ports s) (fst (port_close x (sh_ports s, sh_deliveries s))) e"
      using forgotten_row[OF ok] by (simp add: port_close_forget ok port_forget_eq)
    then have "\<exists>p'. pt_ports (fst (port_close x (sh_ports s, sh_deliveries s))) e = Some p' \<and> row_change (sh_ports s) g p p'"
      if "port_owner (sh_ports s) x = Some g" using row_after_change[OF _ assms(4) _ assms(5)] that by (auto simp: holds_def)
    then show ?thesis using host_close assms(4) refl by (auto simp: host_port_close_def endpoint_owned_def)
  next
    case (host_detach x)
    then show ?thesis using assms(4,5) refl
      by (auto simp: host_port_detach_def port_detach_def holds_def port_owner_Some case_prod_unfold Let_def split: option.split)
  next
    case (host_adopt x)
    then show ?thesis using assms(4,5) refl ports_okD(3)[OF ok assms(4)]
      by (auto simp: host_port_adopt_def port_adopt_def holds_def in_transit_from_def case_prod_unfold Let_def split: option.split)
  qed
  then show ?thesis by (auto simp: row_change_def)
qed

theorem port_confinement_witness:
  "\<exists>p'. pt_ports (sh_ports (snd (host_port_adopt 1 0 channel_page))) 0 = Some p' \<and>
    row_change (sh_ports channel_page) 1 (port_default\<lparr>pe_peer := Some 1, pe_owner := Some 0, pe_recipient := Some 0\<rparr>) p' \<and>
    pe_owner p' = Some 0 \<and> \<not> pe_detached p' \<and> pe_recipient p' = Some 0 \<and> \<not> pe_enabled p'"
  using port_confinement[OF channel_page_reach _ host_adopt[of 1 channel_page 0], of 0
      "port_default\<lparr>pe_peer := Some 1, pe_owner := Some 0, pe_recipient := Some 0\<rparr>"]
  by (simp add: channel_page_ports holds_def port_owner_def in_transit_from_def port_default_def)

section \<open>Order\<close>

text \<open>
  What a step does to the messages on their way: a post puts one on its way to the other end, the router takes the deliveries,
  endpoints go away.
\<close>

datatype port_event = PPosted nat string "nat list" | PTook "delivery list" | PGone "nat list" | PQuiet

fun posted_to :: "port_event \<Rightarrow> nat \<Rightarrow> (string \<times> nat list) list" where
  "posted_to (PPosted y payload ports) x = (if y = x then [(payload, ports)] else [])"
| "posted_to _ x = []"

fun taken_for :: "port_event \<Rightarrow> nat \<Rightarrow> (string \<times> nat list) list" where
  "taken_for (PTook ds) x = port_messages x ds"
| "taken_for _ x = []"

fun gone_by :: "port_event \<Rightarrow> nat \<Rightarrow> bool" where
  "gone_by (PGone es) x = (x \<in> set es)"
| "gone_by _ x = False"

definition post_event :: "nat \<Rightarrow> nat \<Rightarrow> string \<Rightarrow> nat list \<Rightarrow> shared \<Rightarrow> port_event" where
  "post_event g e payload ports s =
     (case (if starts_with payload PAYLOAD_VERSION \<and> endpoint_owned g e s \<and> all_in_transit_from (sh_ports s) ports g
            then port_peer (sh_ports s) e else None) of
        Some q \<Rightarrow> PPosted q payload ports
      | None \<Rightarrow> PQuiet)"

text \<open>
  The steps of the frames and of the router on the shared table, up to the moment the router has taken the deliveries. Putting a
  taken message back (\<open>requeue_port_message\<close>) is not among them.
\<close>

inductive port_step :: "shared \<Rightarrow> port_event \<Rightarrow> shared \<Rightarrow> bool" where
  pstep_post: "port_step s (post_event g e payload ports s) (host_port_post g e payload ports s)"
| pstep_start: "port_step s PQuiet (host_port_start g e s)"
| pstep_detach: "port_step s PQuiet (snd (host_port_detach g e s))"
| pstep_adopt: "port_step s PQuiet (snd (host_port_adopt g e s))"
| pstep_new: "room s \<Longrightarrow> port_step s PQuiet (snd (host_port_new g s))"
| pstep_route: "port_step s PQuiet (route_endpoints es f s)"
| pstep_window: "document_id s target \<noteq> None \<Longrightarrow> target_origin_parse up spec (Some oi) \<noteq> None \<Longrightarrow>
    port_step s PQuiet (host_post_window_message up g ot oi target spec payload ports s)"
| pstep_window_lost: "port_step s (PGone ports) (host_post_window_message up g ot oi target spec payload ports s)"
| pstep_close: "port_step s (PGone [e]) (host_port_close g e s)"
| pstep_close_frame:
    "port_step s (PGone (owned_ports (iter (sh_ports s)) f (sh_ports s))) (close_frame_ports iter f s)"
| pstep_forget: "port_step s (PGone es) (forget_endpoints es s)"
| pstep_take: "port_step s (PTook (fst (take_deliveries s))) (snd (take_deliveries s))"

lemma port_step_ok:
  assumes "shared_ok s" "port_step s l s'"
  shows "shared_ok s'"
  using assms(2)
proof cases
  case (pstep_new g)
  then show ?thesis using keeps_port_new[OF assms(1)] by (simp add: keeps_def)
next
  case (pstep_route es f)
  then show ?thesis using assms(1) by (simp add: route_endpoints_def shared_ok_def docs_ok_def ports_ok_routes)
next
  case (pstep_close_frame iter f)
  have "keeps s s'" unfolding pstep_close_frame(2) close_frame_ports_def
    using assms(1) by (intro keeps_ports) (simp_all add: ports_ok_close_frame_ports shared_ok_def)
  then show ?thesis by (simp add: keeps_def)
next
  case (pstep_forget es)
  then show ?thesis using keeps_forget_endpoints[OF assms(1)] by (simp add: keeps_def)
next
  case pstep_take
  then show ?thesis using assms(1) by (simp add: take_deliveries_def shared_ok_def docs_ok_def)
qed (use keeps_host[OF assms(1)] in \<open>simp_all add: keeps_def\<close>)

text \<open>Endpoints that go away take no message of another endpoint with them.\<close>

lemma queued_row:
  assumes "row_after E t u x" "x \<notin> E"
  shows "queued_messages u x = queued_messages t x"
  using assms by (cases "pt_ports t x") (auto simp: row_after_def queued_messages_def)

lemma td_pending_forget:
  assumes "ports_ok (fst td)" "x \<noteq> e"
  shows "td_pending (port_forget e td) x = td_pending td x"
  using queued_row[OF forgotten_row[OF assms(1), of e x]] assms(2)
  by (auto simp: port_forget_eq[OF assms(1)] td_pending_def port_messages_def split: option.split)

lemma td_pending_forgets: "ports_ok (fst td) \<Longrightarrow> x \<notin> set es \<Longrightarrow> td_pending (fold port_forget es td) x = td_pending td x"
  by (induction es arbitrary: td) (simp_all add: td_pending_forget ports_ok_forget)

lemma pending_forget_endpoints:
  assumes "ports_ok (sh_ports s)" "x \<notin> set es"
  shows "pending_messages (forget_endpoints es s) x = pending_messages s x"
  using td_pending_forgets[of "(sh_ports s, sh_deliveries s)" x es] assms forget_endpoints_fold[of es s]
  by (metis fst_conv pending_messages_def snd_conv td_pending_def)

lemma port_step_view:
  assumes "shared_ok s" "port_step s l s'" "\<not> gone_by l x"
  shows "taken_for l x @ pending_messages s' x = pending_messages s x @ posted_to l x"
proof -
  have ok: "ports_ok (sh_ports s)" using assms(1) by (simp add: shared_ok_def)
  have base: "pending_messages s x = td_pending (sh_ports s, sh_deliveries s) x" by (simp add: pending_messages_def td_pending_def)
  show ?thesis
    using assms(2)
  proof cases
    case (pstep_post g e payload ports)
    then show ?thesis using td_pending_post[OF ok, of e payload ports "sh_deliveries s" x]
      by (auto simp: host_port_post_def post_event_def pending_on_ports base endpoint_owned_def split: option.split)
  next
    case (pstep_start g e)
    then show ?thesis using td_pending_start[OF ok, of e "sh_deliveries s" x]
      by (auto simp: host_port_start_def pending_on_ports base endpoint_owned_def)
  next
    case (pstep_detach g e)
    then show ?thesis by (simp add: host_port_detach_def pending_messages_def queued_detach case_prod_unfold Let_def)
  next
    case (pstep_adopt g e)
    then show ?thesis by (simp add: host_port_adopt_def pending_messages_def queued_adopt case_prod_unfold Let_def)
  next
    case (pstep_new g)
    then show ?thesis using queued_new_pair[OF ok, of g x] by (simp add: host_port_new_def pending_messages_def case_prod_unfold Let_def room_def)
  next
    case (pstep_route es f)
    then show ?thesis by (simp add: route_endpoints_def pending_messages_def queued_routes)
  next
    case (pstep_window target up spec oi g ot payload ports)
    then show ?thesis by (auto simp: host_post_window_message_def pending_messages_def port_messages_def)
  next
    case (pstep_window_lost ports up g ot oi target spec payload)
    then show ?thesis using pending_forget_endpoints[OF ok, of x ports] assms(3)
      by (auto simp: host_post_window_message_def split: option.split) (simp_all add: pending_messages_def port_messages_def)
  next
    case (pstep_close e g)
    then show ?thesis using td_pending_forget[of "(sh_ports s, sh_deliveries s)" x e] ok assms(3)
      by (auto simp: host_port_close_def pending_on_ports base port_close_forget)
  next
    case (pstep_close_frame iter f)
    have "pending_messages s' x = td_pending (fold port_forget (owned_ports (iter (sh_ports s)) f (sh_ports s)) (sh_ports s, sh_deliveries s)) x"
      unfolding pstep_close_frame(2) by (simp add: close_frame_ports_def pending_on_ports port_close_frame_ports_def closes_forgets ok)
    then show ?thesis using td_pending_forgets ok assms(3) base by (simp add: pstep_close_frame(1))
  next
    case (pstep_forget es)
    then show ?thesis using pending_forget_endpoints[OF ok] assms(3) by simp
  next
    case pstep_take
    then show ?thesis by (simp add: take_deliveries_def pending_messages_def)
  qed
qed

interpretation mq: drained_queues shared_ok pending_messages port_step posted_to taken_for gone_by
  by unfold_locales (rule port_step_ok, assumption+, rule port_step_view)

text \<open>\<^bold>\<open>C8.\<close> Messages to a port reach the router in the order of the posts. However frames interleave their calls (posting, starting, transferring,
  receiving and closing ports, posting to windows, closing a frame's ports) with the router taking the deliveries, for every port that
  none of these steps closes: the messages that the router took for it, followed by those still on their way, are those that were
  pending at the start followed by the posted ones, in the order of the posts. Nothing is lost, duplicated or reordered up to that
  point. What the router does with a message it has taken, in particular putting it back for a port in transit, is not
  covered.\<close>

theorem port_messages_fifo:
  assumes "shared_reach n s" "n \<le> 2 ^ 62" "erun port_step s events s'" "\<forall>l \<in> set events. \<not> gone_by l x"
  shows "concat (map (\<lambda>l. taken_for l x) events) @ pending_messages s' x =
    pending_messages s x @ concat (map (\<lambda>l. posted_to l x) events)"
  by (rule mq.run_drained[OF assms(3) reach_ports(1)[OF assms(1,2)] assms(4)])

lemma channel_post_event:
  "post_event 0 0 ''tb1:a'' [] channel_page = PPosted 1 ''tb1:a'' []"
  by (simp add: post_event_def PAYLOAD_VERSION_def starts_with_def endpoint_owned_def port_owner_def port_peer_def
      all_in_transit_from_def channel_page_ports)

theorem port_messages_fifo_witness:
  "pending_messages (host_port_start 0 1 (host_port_post 0 0 ''tb1:a'' [] channel_page)) 1 = [(''tb1:a'', [])]"
proof -
  have "port_step channel_page (PPosted 1 ''tb1:a'' []) (host_port_post 0 0 ''tb1:a'' [] channel_page)"
    using pstep_post[of channel_page 0 0 "''tb1:a''" "[]"] channel_post_event by simp
  then have "erun port_step channel_page [PPosted 1 ''tb1:a'' [], PQuiet] (host_port_start 0 1 (host_port_post 0 0 ''tb1:a'' [] channel_page))"
    by (rule erun_Cons[where estep = port_step, OF _ erun_Cons[where estep = port_step, OF pstep_start erun_Nil]])
  from port_messages_fifo[OF channel_page_reach _ this, of 1] show ?thesis
    by (simp add: pending_messages_def queued_messages_def channel_page_ports port_default_def)
qed

section \<open>Routing\<close>

fun carried :: "delivery \<Rightarrow> nat list" where
  "carried (DWindowMessage _ _ m) = wm_ports m"
| "carried (DPortMessage _ _ ports) = ports"
| "carried (DPortClosed _) = []"

definition task_messages :: "nat \<Rightarrow> message_task list \<Rightarrow> (string \<times> nat list) list" where
  "task_messages e ts =
     concat (map (\<lambda>t. case t of TPortMessage e' payload ports \<Rightarrow> if e' = e then [(payload, ports)] else [] | _ \<Rightarrow> []) ts)"

text \<open>What routing one delivery leaves alone of an endpoint that the delivery does not carry.\<close>

definition same_port :: "nat \<Rightarrow> shared \<Rightarrow> shared \<Rightarrow> bool" where
  "same_port e s s' =
     (port_owner (sh_ports s') e = port_owner (sh_ports s) e \<and>
      (pt_ports (sh_ports s') e = None \<longleftrightarrow> pt_ports (sh_ports s) e = None) \<and>
      queued_messages (sh_ports s') e = queued_messages (sh_ports s) e)"

lemma same_port_refl [simp]: "same_port e s s"
  by (simp add: same_port_def)

lemma same_port_forget:
  assumes "ports_ok (sh_ports s)" "e \<notin> set es"
  shows "same_port e s (forget_endpoints es s)"
  using forget_endpoints_row[OF assms(1), of es e] assms(2)
  by (cases "pt_ports (sh_ports s) e") (auto simp: same_port_def row_after_def port_owner_def queued_messages_def)

lemma route_other: "e \<notin> set es \<Longrightarrow> pt_ports (fold (\<lambda>x. port_route x f) es t) e = pt_ports t e"
  by (induction es arbitrary: t) (auto simp: port_route_def split: option.split)

lemma same_port_route: "e \<notin> set es \<Longrightarrow> same_port e s (route_endpoints es f s)"
  by (simp add: same_port_def route_endpoints_def route_other port_owner_def queued_messages_def)

lemma same_port_requeue: "x \<noteq> e \<Longrightarrow> same_port e s (requeue_port_message x payload ports s)"
  by (auto simp: same_port_def requeue_port_message_def port_requeue_def port_owner_def queued_messages_def Let_def split: option.split)

lemma same_port_requeue_close: "same_port e s (requeue_port_close x s)"
  by (auto simp: same_port_def requeue_port_close_def port_requeue_close_def port_owner_def queued_messages_def split: option.split)

lemma push_task_fields [simp]:
  "en_shared (push_task f t en) = en_shared en"
  "en_frames (push_task f t en) g = (if g = f then map_option (\<lambda>ts. ts @ [t]) (en_frames en f) else en_frames en g)"
  by (simp_all add: push_task_def)

lemma apply_delivery_ok:
  assumes "ports_ok (sh_ports (en_shared en))"
  shows "ports_ok (sh_ports (en_shared (apply_delivery d en)))"
  using assms forget_endpoints_ports[OF assms]
  by (auto simp: apply_delivery_def Let_def route_endpoints_def requeue_port_message_def requeue_port_close_def
      ports_ok_routes ports_ok_requeue ports_ok_requeue_close split: delivery.split option.split)

lemma apply_delivery_other:
  assumes "ports_ok (sh_ports (en_shared en))" "e \<notin> set (carried d)" "\<nexists>payload ports. d = DPortMessage e payload ports"
  shows "same_port e (en_shared en) (en_shared (apply_delivery d en))"
  using assms same_port_forget[OF assms(1)] same_port_route same_port_requeue same_port_requeue_close
  by (auto simp: apply_delivery_def Let_def split: delivery.split option.split)

lemma apply_delivery_tasks:
  assumes "en_frames en f = Some ts" "\<And>payload ports. d \<noteq> DPortMessage e payload ports"
  shows "\<exists>ts'. en_frames (apply_delivery d en) f = Some ts' \<and> task_messages e ts' = task_messages e ts"
  using assms by (auto simp: apply_delivery_def Let_def task_messages_def split: delivery.split option.split)

lemma apply_delivery_frames: "en_frames en f = None \<longleftrightarrow> en_frames (apply_delivery d en) f = None"
  by (auto simp: apply_delivery_def Let_def split: delivery.split option.split)

lemma port_messages_Cons:
  "port_messages e (d # ds) =
     (case d of DPortMessage e' payload ports \<Rightarrow> if e' = e then (payload, ports) # port_messages e ds else port_messages e ds
      | _ \<Rightarrow> port_messages e ds)"
  by (auto simp: port_messages_def split: delivery.split)

text \<open>Routing the taken deliveries hands the messages of a port that a live frame holds to the tasks
  of that frame, all of them and in their order, and leaves the port's own queue as it was; the
  deliveries must not carry the port itself.\<close>

theorem routing_keeps_order:
  assumes "ports_ok (sh_ports (en_shared en))" "port_owner (sh_ports (en_shared en)) e = Some f" "en_frames en f = Some ts"
    and "e \<notin> set (concat (map carried ds))"
  shows "\<exists>ts'. en_frames (apply_deliveries ds en) f = Some ts' \<and>
    task_messages e ts' = task_messages e ts @ port_messages e ds \<and>
    port_owner (sh_ports (en_shared (apply_deliveries ds en))) e = Some f \<and>
    queued_messages (sh_ports (en_shared (apply_deliveries ds en))) e = queued_messages (sh_ports (en_shared en)) e"
  unfolding apply_deliveries_def using assms
proof (induction ds arbitrary: en ts)
  case (Cons d ds)
  let ?en = "apply_delivery d en"
  have ok: "ports_ok (sh_ports (en_shared ?en))" by (rule apply_delivery_ok[OF Cons.prems(1)])
  have rest: "e \<notin> set (concat (map carried ds))" "e \<notin> set (carried d)" using Cons.prems(4) by auto
  show ?case
  proof (cases "\<exists>payload ports. d = DPortMessage e payload ports")
    case True
    then obtain payload ports where d: "d = DPortMessage e payload ports" by blast
    have e: "?en = push_task f (TPortMessage e payload ports) (en\<lparr>en_shared := route_endpoints ports f (en_shared en)\<rparr>)"
      using Cons.prems(2,3) by (simp add: apply_delivery_def d)
    have "same_port e (en_shared en) (en_shared ?en)" unfolding e using rest(2) by (simp add: d same_port_route)
    then show ?thesis using Cons.IH[OF ok, of "ts @ [TPortMessage e payload ports]"] Cons.prems(2,3) rest(1)
      unfolding fold_Cons comp_def e by (auto simp: d same_port_def port_messages_Cons task_messages_def)
  next
    case False
    obtain ts' where ts': "en_frames ?en f = Some ts'" "task_messages e ts' = task_messages e ts"
      using apply_delivery_tasks[OF Cons.prems(3)] False by blast
    have "same_port e (en_shared en) (en_shared ?en)" using apply_delivery_other[OF Cons.prems(1) rest(2)] False by blast
    moreover have "port_messages e (d # ds) = port_messages e ds" using False by (auto simp: port_messages_Cons split: delivery.split)
    ultimately show ?thesis using Cons.IH[OF ok _ ts'(1)] Cons.prems(2) rest(1) ts'(2) by (auto simp: same_port_def)
  qed
qed simp

definition channel_engine :: engine where
  "channel_engine = \<lparr> en_shared = channel_page, en_frames = [0 \<mapsto> []] \<rparr>"

theorem routing_keeps_order_witness:
  "\<exists>ts'. en_frames (apply_deliveries [DPortMessage 1 ''tb1:a'' [], DPortMessage 1 ''tb1:b'' []] channel_engine) 0 = Some ts' \<and>
    task_messages 1 ts' = [(''tb1:a'', []), (''tb1:b'', [])] \<and>
    port_owner (sh_ports (en_shared (apply_deliveries [DPortMessage 1 ''tb1:a'' [], DPortMessage 1 ''tb1:b'' []] channel_engine))) 1 = Some 0 \<and>
    queued_messages (sh_ports (en_shared (apply_deliveries [DPortMessage 1 ''tb1:a'' [], DPortMessage 1 ''tb1:b'' []] channel_engine))) 1 = []"
proof -
  have h: "ports_ok (sh_ports (en_shared channel_engine))" "port_owner (sh_ports (en_shared channel_engine)) 1 = Some 0"
    "en_frames channel_engine 0 = Some []" "queued_messages (sh_ports (en_shared channel_engine)) 1 = []"
    using reach_ports(2)[OF channel_page_reach]
    by (simp_all add: channel_engine_def port_owner_def queued_messages_def channel_page_ports port_default_def)
  have m: "task_messages 1 [] @ port_messages 1 [DPortMessage 1 ''tb1:a'' [], DPortMessage 1 ''tb1:b'' []] = [(''tb1:a'', []), (''tb1:b'', [])]"
    by (simp add: task_messages_def port_messages_def)
  show ?thesis using routing_keeps_order[OF h(1,2,3), of "[DPortMessage 1 ''tb1:a'' [], DPortMessage 1 ''tb1:b'' []]"]
    unfolding m h(4) by simp
qed

text \<open>\<^bold>\<open>C40.\<close> For a port in transit, routing puts the messages that were taken for it back in front of its
  queue one by one, so they come out in the reverse of the order they were posted in.\<close>

theorem routing_reverses_in_transit:
  assumes "ports_ok (sh_ports (en_shared en))" "pt_ports (sh_ports (en_shared en)) e \<noteq> None"
    and "port_owner (sh_ports (en_shared en)) e = None" "e \<notin> set (concat (map carried ds))"
  shows "queued_messages (sh_ports (en_shared (apply_deliveries ds en))) e =
    rev (port_messages e ds) @ queued_messages (sh_ports (en_shared en)) e"
  unfolding apply_deliveries_def using assms
proof (induction ds arbitrary: en)
  case (Cons d ds)
  let ?en = "apply_delivery d en"
  have ok: "ports_ok (sh_ports (en_shared ?en))" by (rule apply_delivery_ok[OF Cons.prems(1)])
  have rest: "e \<notin> set (concat (map carried ds))" "e \<notin> set (carried d)" using Cons.prems(4) by auto
  show ?case
  proof (cases "\<exists>payload ports. d = DPortMessage e payload ports")
    case True
    then obtain payload ports where d: "d = DPortMessage e payload ports" by blast
    obtain p where p: "pt_ports (sh_ports (en_shared en)) e = Some p" using Cons.prems(2) by blast
    then have "pe_detached p" "\<not> pe_closed p"
      using ports_okD(3,4)[OF Cons.prems(1) p] Cons.prems(3) by (auto simp: port_owner_def)
    then have e: "pt_ports (sh_ports (en_shared ?en)) e = Some (p\<lparr>pe_queue := \<lparr> qm_payload = payload, qm_ports = ports \<rparr> # pe_queue p\<rparr>)"
      using Cons.prems(3) p by (simp add: apply_delivery_def d requeue_port_message_def port_requeue_def Let_def)
    have "port_owner (sh_ports (en_shared ?en)) e = None" using Cons.prems(3) p e by (simp add: port_owner_def)
    then show ?thesis using Cons.IH[OF ok] rest(1) e p by (simp add: d port_messages_Cons queued_messages_def)
  next
    case False
    have "same_port e (en_shared en) (en_shared ?en)" using apply_delivery_other[OF Cons.prems(1) rest(2)] False by blast
    moreover have "port_messages e (d # ds) = port_messages e ds" using False by (auto simp: port_messages_Cons split: delivery.split)
    ultimately show ?thesis using Cons.IH[OF ok] Cons.prems(2,3) rest(1) by (auto simp: same_port_def)
  qed
qed simp

text \<open>The run that shows it: port 1 is started, two messages are posted to it, and it is transferred before
  the engine routes them.\<close>

definition transfer_page :: shared where
  "transfer_page =
     snd (host_port_detach 0 1 (host_port_post 0 0 ''tb1:b'' [] (host_port_post 0 0 ''tb1:a'' [] (host_port_start 0 1 channel_page))))"

lemma transfer_page_reach: "shared_reach (Suc (Suc (Suc (Suc (Suc 0))))) transfer_page"
  unfolding transfer_page_def
  by (intro reach_step[OF reach_step[OF reach_step[OF reach_step[OF channel_page_reach step_port_start] step_port_post] step_port_post]
      step_port_detach])

lemma transfer_page_fields:
  "sh_deliveries transfer_page = [DPortMessage (Suc 0) ''tb1:a'' [], DPortMessage (Suc 0) ''tb1:b'' []]"
  "pt_ports (sh_ports transfer_page) (Suc 0) =
     Some (port_default\<lparr>pe_peer := Some 0, pe_owner := None, pe_recipient := Some 0, pe_detached := True\<rparr>)"
  by (simp_all add: transfer_page_def host_port_detach_def host_port_post_def host_port_start_def port_detach_def port_post_def
      port_start_def flush_port_def drain_queue_def endpoint_owned_def port_owner_def starts_with_def PAYLOAD_VERSION_def
      all_in_transit_from_def channel_page_ports port_default_def Let_def)

theorem routing_reverses_in_transit_witness:
  "queued_messages (sh_ports (en_shared (apply_deliveries (sh_deliveries transfer_page)
     \<lparr> en_shared = snd (take_deliveries transfer_page), en_frames = [0 \<mapsto> []] \<rparr>))) (Suc 0) = [(''tb1:b'', []), (''tb1:a'', [])]"
proof -
  let ?en = "\<lparr> en_shared = snd (take_deliveries transfer_page), en_frames = [0 \<mapsto> []] \<rparr> :: engine"
  have h: "ports_ok (sh_ports (en_shared ?en))" "pt_ports (sh_ports (en_shared ?en)) (Suc 0) \<noteq> None"
    "port_owner (sh_ports (en_shared ?en)) (Suc 0) = None" "queued_messages (sh_ports (en_shared ?en)) (Suc 0) = []"
    using reach_ports(2)[OF transfer_page_reach]
    by (simp_all add: take_deliveries_def port_owner_def queued_messages_def transfer_page_fields port_default_def)
  show ?thesis using routing_reverses_in_transit[OF h(1,2,3), of "sh_deliveries transfer_page"] unfolding h(4)
    by (simp add: transfer_page_fields port_messages_def)
qed

end
