(* ===== verification/Wire_Frames.thy ===== *)
theory Wire_Frames
  imports Main "HOL-Library.Word"
begin

text \<open>
  \<open>crates/browser/src/wire/channel.rs\<close>: the length-prefixed frames between the browser and a
  renderer. A reader is the bytes still to come, at whose end the peer has closed; a writer is the bytes
  it gets. The asynchronous variants do the same on asynchronous streams. The encoding of control
  payloads belongs to \<open>postcard\<close>: its two functions are arguments.
\<close>

type_synonym bytes = "8 word list"

section \<open>Frames\<close>

definition PROTOCOL_VERSION :: "8 word" where
  "PROTOCOL_VERSION = 26"

definition HEADER_BYTES :: nat where
  "HEADER_BYTES = 16"

definition MAX_CONTROL_BYTES :: nat where
  "MAX_CONTROL_BYTES = 24 * 1024 * 1024"

definition MAX_BODY_CHUNK_BYTES :: nat where
  "MAX_BODY_CHUNK_BYTES = 64 * 1024"

definition KIND_CONTROL :: "8 word" where
  "KIND_CONTROL = 0"

definition KIND_REQUEST_CHUNK :: "8 word" where
  "KIND_REQUEST_CHUNK = 1"

definition KIND_RESPONSE_CHUNK :: "8 word" where
  "KIND_RESPONSE_CHUNK = 2"

datatype frame_kind = Control | RequestChunk | ResponseChunk

fun kind_wire :: "frame_kind \<Rightarrow> 8 word" where
  "kind_wire Control = KIND_CONTROL"
| "kind_wire RequestChunk = KIND_REQUEST_CHUNK"
| "kind_wire ResponseChunk = KIND_RESPONSE_CHUNK"

definition kind_from_wire :: "8 word \<Rightarrow> frame_kind option" where
  "kind_from_wire b =
     (if b = KIND_CONTROL then Some Control
      else if b = KIND_REQUEST_CHUNK then Some RequestChunk
      else if b = KIND_RESPONSE_CHUNK then Some ResponseChunk
      else None)"

fun max_payload :: "frame_kind \<Rightarrow> nat" where
  "max_payload Control = MAX_CONTROL_BYTES"
| "max_payload RequestChunk = MAX_BODY_CHUNK_BYTES"
| "max_payload ResponseChunk = MAX_BODY_CHUNK_BYTES"

record frame =
  fr_kind :: frame_kind
  fr_request :: "64 word"

datatype wire_error =
    PayloadExceedsLimit
  | UnsupportedVersion
  | UnknownKind
  | NonzeroFlags
  | FrameExceedsLimit
  | Truncated
  | ExpectedControl
  | ExpectedBody
  | InvalidPayload
  | TrailingBytes
  | Unencodable

text \<open>\<open>to_be_bytes\<close> and \<open>from_be_bytes\<close>.\<close>

fun be_bytes :: "nat \<Rightarrow> nat \<Rightarrow> bytes" where
  "be_bytes 0 n = []"
| "be_bytes (Suc k) n = word_of_nat (n div 256 ^ k) # be_bytes k n"

definition be_value :: "bytes \<Rightarrow> nat" where
  "be_value bs = foldl (\<lambda>n b. 256 * n + unat b) 0 bs"

definition encode_header :: "frame_kind \<Rightarrow> 64 word \<Rightarrow> nat \<Rightarrow> wire_error + bytes" where
  "encode_header kind request len =
     (if len > max_payload kind then Inl PayloadExceedsLimit
      else if len \<ge> 2 ^ 32 then Inl PayloadExceedsLimit
      else Inr ([PROTOCOL_VERSION, kind_wire kind, 0, 0] @ be_bytes 8 (unat request) @ be_bytes 4 len))"

definition decode_header :: "bytes \<Rightarrow> wire_error + frame_kind \<times> 64 word \<times> nat" where
  "decode_header header =
     (if header ! 0 \<noteq> PROTOCOL_VERSION then Inl UnsupportedVersion
      else (case kind_from_wire (header ! 1) of
              None \<Rightarrow> Inl UnknownKind
            | Some kind \<Rightarrow>
                if header ! 2 \<noteq> 0 \<or> header ! 3 \<noteq> 0 then Inl NonzeroFlags
                else (let request = word_of_nat (be_value (take 8 (drop 4 header)));
                          len = be_value (take 4 (drop 12 header))
                      in if len > max_payload kind then Inl FrameExceedsLimit else Inr (kind, request, len))))"

definition write_frame :: "frame_kind \<Rightarrow> 64 word \<Rightarrow> bytes \<Rightarrow> wire_error + bytes" where
  "write_frame kind request payload =
     (case encode_header kind request (length payload) of Inl e \<Rightarrow> Inl e | Inr header \<Rightarrow> Inr (header @ payload))"

definition read_exact :: "nat \<Rightarrow> bytes \<Rightarrow> wire_error + bytes \<times> bytes" where
  "read_exact n bs = (if length bs < n then Inl Truncated else Inr (take n bs, drop n bs))"

text \<open>The frame and its payload, or none at a clean close, with what is left to read.\<close>

definition read_frame :: "bytes \<Rightarrow> wire_error + (frame \<times> bytes) option \<times> bytes" where
  "read_frame reader =
     (case reader of
        [] \<Rightarrow> Inr (None, [])
      | b # rest \<Rightarrow>
          (case read_exact (HEADER_BYTES - 1) rest of
             Inl e \<Rightarrow> Inl e
           | Inr (bs, rest) \<Rightarrow>
               (case decode_header (b # bs) of
                  Inl e \<Rightarrow> Inl e
                | Inr (kind, request, len) \<Rightarrow>
                    (case read_exact len rest of
                       Inl e \<Rightarrow> Inl e
                     | Inr (payload, rest) \<Rightarrow> Inr (Some (\<lparr> fr_kind = kind, fr_request = request \<rparr>, payload), rest)))))"

section \<open>Messages\<close>

definition write_control :: "('m \<Rightarrow> bytes option) \<Rightarrow> 'm \<Rightarrow> wire_error + bytes" where
  "write_control to_allocvec message =
     (case to_allocvec message of None \<Rightarrow> Inl Unencodable | Some payload \<Rightarrow> write_frame Control 0 payload)"

definition write_body :: "64 word \<Rightarrow> bytes \<Rightarrow> wire_error + bytes" where
  "write_body request payload = write_frame ResponseChunk request payload"

definition decode_control :: "(bytes \<Rightarrow> ('m \<times> bytes) option) \<Rightarrow> bytes \<Rightarrow> wire_error + 'm" where
  "decode_control take_from_bytes payload =
     (case take_from_bytes payload of
        None \<Rightarrow> Inl InvalidPayload
      | Some (message, trailing) \<Rightarrow> if trailing = [] then Inr message else Inl TrailingBytes)"

definition read_control :: "(bytes \<Rightarrow> ('m \<times> bytes) option) \<Rightarrow> bytes \<Rightarrow> wire_error + 'm option \<times> bytes" where
  "read_control take_from_bytes reader =
     (case read_frame reader of
        Inl e \<Rightarrow> Inl e
      | Inr (None, rest) \<Rightarrow> Inr (None, rest)
      | Inr (Some (frame, payload), rest) \<Rightarrow>
          if fr_kind frame = Control
          then (case decode_control take_from_bytes payload of Inl e \<Rightarrow> Inl e | Inr m \<Rightarrow> Inr (Some m, rest))
          else Inl ExpectedControl)"

definition read_body :: "bytes \<Rightarrow> wire_error + (64 word \<times> bytes) option \<times> bytes" where
  "read_body reader =
     (case read_frame reader of
        Inl e \<Rightarrow> Inl e
      | Inr (None, rest) \<Rightarrow> Inr (None, rest)
      | Inr (Some (frame, payload), rest) \<Rightarrow>
          if fr_kind frame = ResponseChunk then Inr (Some (fr_request frame, payload), rest) else Inl ExpectedBody)"

section \<open>Headers\<close>

lemma kind_wire_roundtrip [simp]: "kind_from_wire (kind_wire k) = Some k"
  by (cases k) (simp_all add: kind_from_wire_def KIND_CONTROL_def KIND_REQUEST_CHUNK_def KIND_RESPONSE_CHUNK_def)

lemma kind_from_wire_Some: "kind_from_wire b = Some k \<longleftrightarrow> b = kind_wire k"
  by (cases k) (auto simp: kind_from_wire_def KIND_CONTROL_def KIND_REQUEST_CHUNK_def KIND_RESPONSE_CHUNK_def)

lemma length_be_bytes [simp]: "length (be_bytes k n) = k"
  by (induction k) simp_all

lemma be_value_Nil [simp]: "be_value [] = 0"
  by (simp add: be_value_def)

lemma be_value_shift: "foldl (\<lambda>n b. 256 * n + unat b) a bs = a * 256 ^ length bs + be_value (bs :: bytes)"
proof (induction bs arbitrary: a)
  case (Cons b bs)
  show ?case using Cons[of "256 * a + unat b"] Cons[of "unat b"] by (simp add: be_value_def algebra_simps)
qed simp

lemma be_value_Cons [simp]: "be_value (b # bs) = unat b * 256 ^ length bs + be_value bs"
  using be_value_shift[of "unat b" bs] by (simp add: be_value_def)

lemma be_value_less: "be_value bs < 256 ^ length bs"
proof (induction bs)
  case (Cons b bs)
  have "unat b < 2 ^ LENGTH(8)" by (rule unsigned_less)
  then have "unat b \<le> 255" by simp
  then have "unat b * 256 ^ length bs \<le> 255 * 256 ^ length bs" by (rule mult_right_mono) simp
  then show ?case using Cons unfolding be_value_Cons length_Cons power_Suc by linarith
qed simp

lemma be_bytes_numeral:
  "be_bytes (numeral k) n = word_of_nat (n div 256 ^ pred_numeral k) # be_bytes (pred_numeral k) n"
  by (simp add: numeral_eq_Suc)

lemma be_value_be_bytes: "be_value (be_bytes k n) = n mod 256 ^ k"
proof (induction k)
  case (Suc k)
  have "unat (word_of_nat (n div 256 ^ k) :: 8 word) = n div 256 ^ k mod 256" by (simp add: unat_of_nat)
  then show ?case using Suc mod_mult2_eq[of n "256 ^ k" 256] by (simp add: mult.commute)
qed simp

lemma be_bytes_mod: "be_bytes k (n mod 256 ^ k) = be_bytes k n"
proof -
  have "be_bytes j (n mod 256 ^ k) = be_bytes j n" if "j \<le> k" for j
    using that
  proof (induction j)
    case (Suc j)
    have "(256 :: nat) ^ k = 256 ^ j * 256 * 256 ^ (k - Suc j)"
      using Suc.prems by (metis power_add power_Suc2 le_add_diff_inverse)
    then have "n mod 256 ^ k div 256 ^ j mod 256 = n div 256 ^ j mod 256"
      by (simp add: mod_mult2_eq mult.assoc) 
    then have "(word_of_nat (n mod 256 ^ k div 256 ^ j) :: 8 word) = word_of_nat (n div 256 ^ j)"
      by (simp add: word_of_nat_eq_iff take_bit_eq_mod)
    then show ?case using Suc by simp
  qed simp
  then show ?thesis by blast
qed

lemma be_bytes_be_value: "be_bytes (length bs) (be_value bs) = bs"
proof (induction bs)
  case (Cons b bs)
  have "(unat b * 256 ^ length bs + be_value bs) div 256 ^ length bs = unat b" using be_value_less[of bs] by simp
  moreover have "be_bytes (length bs) (unat b * 256 ^ length bs + be_value bs) = bs"
    using be_bytes_mod[of "length bs" "unat b * 256 ^ length bs + be_value bs"] be_value_less[of bs] Cons by simp
  ultimately show ?case by simp
qed simp

lemma limits: "max_payload k < 2 ^ 32"
  by (cases k) (simp_all add: MAX_CONTROL_BYTES_def MAX_BODY_CHUNK_BYTES_def)

lemma encode_header_eq:
  "encode_header k r n =
     (if n > max_payload k then Inl PayloadExceedsLimit
      else Inr ([PROTOCOL_VERSION, kind_wire k, 0, 0] @ be_bytes 8 (unat r) @ be_bytes 4 n))"
  using limits[of k] by (simp add: encode_header_def)

lemma request_roundtrip: "word_of_nat (be_value (be_bytes 8 (unat r))) = (r :: 64 word)"
proof -
  have "unat r < 2 ^ LENGTH(64)" by (rule unsigned_less)
  then have "unat r < 256 ^ 8" by simp
  then have "be_value (be_bytes 8 (unat r)) = unat r" by (simp only: be_value_be_bytes mod_less)
  then show ?thesis by simp
qed

lemma decode_encoded:
  assumes "encode_header k r n = Inr h"
  shows "length h = HEADER_BYTES" "decode_header h = Inr (k, r, n)"
proof -
  have n: "n \<le> max_payload k" and h: "h = [PROTOCOL_VERSION, kind_wire k, 0, 0] @ be_bytes 8 (unat r) @ be_bytes 4 n"
    using assms by (auto simp: encode_header_eq split: if_splits)
  show "length h = HEADER_BYTES" by (simp add: h HEADER_BYTES_def)
  have "n < 256 ^ 4" using n limits[of k] by simp
  then have "be_value (be_bytes 4 n) = n" by (simp only: be_value_be_bytes mod_less)
  moreover have "take 8 (drop 4 h) = be_bytes 8 (unat r)" "take 4 (drop 12 h) = be_bytes 4 n" by (simp_all add: h)
  moreover have "h ! 0 = PROTOCOL_VERSION" "h ! 1 = kind_wire k" "h ! 2 = 0" "h ! 3 = 0" by (simp_all add: h)
  ultimately show "decode_header h = Inr (k, r, n)"
    using n unfolding decode_header_def Let_def by (simp add: request_roundtrip)
qed

lemma header_split:
  assumes "length h = HEADER_BYTES"
  shows "h = [h ! 0, h ! 1, h ! 2, h ! 3] @ take 8 (drop 4 h) @ take 4 (drop 12 h)"
proof -
  have "drop 12 h = take 4 (drop 12 h)" using assms by (simp add: HEADER_BYTES_def)
  moreover have "drop 4 h = take 8 (drop 4 h) @ drop 12 h" using append_take_drop_id[of 8 "drop 4 h"] by simp
  moreover have "h = take 4 h @ drop 4 h" by simp
  moreover have "take 4 h = [h ! 0, h ! 1, h ! 2, h ! 3]"
    using assms by (intro nth_equalityI) (auto simp: HEADER_BYTES_def less_Suc_eq numeral_eq_Suc)
  ultimately show ?thesis by metis
qed

lemma encode_decoded:
  assumes "length h = HEADER_BYTES" "decode_header h = Inr (k, r, n)"
  shows "encode_header k r n = Inr h"
proof -
  have kind: "h ! 0 = PROTOCOL_VERSION" "h ! 1 = kind_wire k" "h ! 2 = 0" "h ! 3 = 0"
    and r: "r = word_of_nat (be_value (take 8 (drop 4 h)))" and n: "n = be_value (take 4 (drop 12 h))" "n \<le> max_payload k"
    using assms(2) by (auto simp: decode_header_def Let_def kind_from_wire_Some split: if_splits option.splits)
  have len: "length (take 8 (drop 4 h)) = 8" "length (take 4 (drop 12 h)) = 4" using assms(1) by (simp_all add: HEADER_BYTES_def)
  have "be_value (take 8 (drop 4 h)) < 2 ^ 64" using be_value_less[of "take 8 (drop 4 h)"] len(1) by simp
  then have "unat r = be_value (take 8 (drop 4 h))" unfolding r by (simp add: unat_of_nat)
  then have "be_bytes 8 (unat r) = take 8 (drop 4 h)" "be_bytes 4 n = take 4 (drop 12 h)"
    using be_bytes_be_value[of "take 8 (drop 4 h)"] be_bytes_be_value[of "take 4 (drop 12 h)"] len n(1) by simp_all
  then show ?thesis using n(2) header_split[OF assms(1)] kind by (simp add: encode_header_eq)
qed

section \<open>Frames on the wire\<close>

lemma write_frame_Inr:
  "write_frame k r payload = Inr b \<longleftrightarrow> (\<exists>h. encode_header k r (length payload) = Inr h \<and> b = h @ payload)"
  by (auto simp: write_frame_def split: sum.splits)

lemma write_frame_length:
  "write_frame k r payload = Inr b \<Longrightarrow> length b = HEADER_BYTES + length payload"
  using decode_encoded(1) by (auto simp: write_frame_Inr)

lemma read_written:
  assumes "write_frame k r payload = Inr b"
  shows "read_frame (b @ rest) = Inr (Some (\<lparr> fr_kind = k, fr_request = r \<rparr>, payload), rest)"
proof -
  obtain h where h: "encode_header k r (length payload) = Inr h" "b = h @ payload" using assms by (auto simp: write_frame_Inr)
  note d = decode_encoded[OF h(1)]
  obtain x hs where hs: "h = x # hs" "length hs = HEADER_BYTES - 1" using d(1) by (cases h) (auto simp: HEADER_BYTES_def)
  then show ?thesis using d(2) by (simp add: h(2) read_frame_def read_exact_def)
qed

text \<open>A stream of frames, and the loop that reads it to the clean close.\<close>

fun write_frames :: "(frame \<times> bytes) list \<Rightarrow> wire_error + bytes" where
  "write_frames [] = Inr []"
| "write_frames ((f, payload) # fs) =
     (case write_frame (fr_kind f) (fr_request f) payload of
        Inl e \<Rightarrow> Inl e
      | Inr b \<Rightarrow> (case write_frames fs of Inl e \<Rightarrow> Inl e | Inr bs \<Rightarrow> Inr (b @ bs)))"

lemma read_frame_shorter: "read_frame bs = Inr (Some f, rest) \<Longrightarrow> length rest < length bs"
  by (auto simp: read_frame_def read_exact_def split: list.splits sum.splits if_splits prod.splits)

function read_frames :: "bytes \<Rightarrow> wire_error + (frame \<times> bytes) list" where
  "read_frames bs =
     (case read_frame bs of
        Inl e \<Rightarrow> Inl e
      | Inr (None, rest) \<Rightarrow> Inr []
      | Inr (Some f, rest) \<Rightarrow> (case read_frames rest of Inl e \<Rightarrow> Inl e | Inr fs \<Rightarrow> Inr (f # fs)))"
  by pat_completeness auto
termination by (relation "measure length") (auto dest: read_frame_shorter)

declare read_frames.simps [simp del]

lemma read_frame_Nil [simp]: "read_frame [] = Inr (None, [])"
  by (simp add: read_frame_def)

lemma write_frame_ne: "write_frame k r payload = Inr b \<Longrightarrow> b \<noteq> []"
  using write_frame_length[of k r payload b] by (auto simp: HEADER_BYTES_def)

lemma read_accepted:
  assumes "read_frame bs = Inr (Some (f, payload), rest)"
  shows "\<exists>b. write_frame (fr_kind f) (fr_request f) payload = Inr b \<and> bs = b @ rest"
proof -
  obtain x r1 where bs: "bs = x # r1" using assms by (cases bs) auto
  have h: "length (x # take (HEADER_BYTES - 1) r1) = HEADER_BYTES" "\<not> length r1 < HEADER_BYTES - 1"
    using assms by (auto simp: bs read_frame_def read_exact_def HEADER_BYTES_def split: if_splits)
  obtain k r n where d: "decode_header (x # take (HEADER_BYTES - 1) r1) = Inr (k, r, n)"
    using assms h(2) by (auto simp: bs read_frame_def read_exact_def split: sum.splits)
  have res: "\<not> length (drop (HEADER_BYTES - 1) r1) < n" "f = \<lparr> fr_kind = k, fr_request = r \<rparr>"
    "payload = take n (drop (HEADER_BYTES - 1) r1)" "rest = drop n (drop (HEADER_BYTES - 1) r1)"
    using assms h(2) d by (auto simp: bs read_frame_def read_exact_def split: if_splits)
  have "length payload = n" using res(1,3) by simp
  then have "write_frame (fr_kind f) (fr_request f) payload = Inr ((x # take (HEADER_BYTES - 1) r1) @ payload)"
    using encode_decoded[OF h(1) d] res(2) by (simp add: write_frame_def)
  moreover have "bs = ((x # take (HEADER_BYTES - 1) r1) @ payload) @ rest"
    unfolding bs res(3,4) append_assoc append_take_drop_id append_Cons ..
  ultimately show ?thesis by blast
qed

text \<open>\<^bold>\<open>C11.\<close> Reading a stream to its end and writing frames are inverse to each other: the frames that a
  byte stream carries, with their kinds, request ids and payloads, are exactly those whose writing gives that
  stream. Nothing else is accepted: any other byte stream is an error.\<close>

theorem frame_stream_exact:
  "read_frames bs = Inr fs \<longleftrightarrow> write_frames fs = Inr bs"
proof
  assume "read_frames bs = Inr fs"
  then show "write_frames fs = Inr bs"
  proof (induction bs arbitrary: fs rule: read_frames.induct)
    case (1 bs)
    show ?case
    proof (cases "read_frame bs")
      case (Inl e)
      then show ?thesis using "1.prems" by (simp add: read_frames.simps)
    next
      case (Inr x)
      obtain fo rest where x: "x = (fo, rest)" by (cases x)
      show ?thesis
      proof (cases fo)
        case None
        then have "bs = []" using Inr x by (auto simp: read_frame_def read_exact_def split: list.splits sum.splits if_splits prod.splits)
        then show ?thesis using "1.prems" None Inr x by (simp add: read_frames.simps)
      next
        case (Some fp)
        obtain f payload where fp: "fp = (f, payload)" by (cases fp)
        obtain gs where gs: "read_frames rest = Inr gs" "fs = (f, payload) # gs"
          using "1.prems" Inr x Some fp by (auto simp: read_frames.simps[of bs] split: sum.splits)
        have "write_frames gs = Inr rest" using "1.IH" Inr x Some gs(1) by blast
        then show ?thesis using read_accepted[of bs f payload rest] Inr x Some fp gs(2) by auto
      qed
    qed
  qed
next
  assume "write_frames fs = Inr bs"
  then show "read_frames bs = Inr fs"
  proof (induction fs arbitrary: bs)
    case Nil
    then show ?case by (simp add: read_frames.simps)
  next
    case (Cons fp fs)
    obtain f payload where fp: "fp = (f, payload)" by (cases fp)
    obtain b rest where b: "write_frame (fr_kind f) (fr_request f) payload = Inr b" "write_frames fs = Inr rest" "bs = b @ rest"
      using Cons.prems fp by (auto split: sum.splits)
    show ?case using read_written[OF b(1), of rest] Cons.IH[OF b(2)] fp by (simp add: read_frames.simps[of "b @ rest"] b(3))
  qed
qed

text \<open>A frame that is read has a payload within the limit of its kind, at most 24 MiB; a frame that
  is cut short anywhere after its first byte is an error, and never a frame or a clean close.\<close>

theorem frame_bounds:
  assumes "write_frame k r payload = Inr b" "0 < n" "n < length b"
  shows "length payload \<le> max_payload k \<and> max_payload k \<le> 24 * 1024 * 1024 \<and> read_frame (take n b) = Inl Truncated"
proof -
  obtain h where h: "encode_header k r (length payload) = Inr h" "b = h @ payload" using assms(1) by (auto simp: write_frame_Inr)
  note d = decode_encoded[OF h(1)]
  obtain x hs where hs: "h = x # hs" "length hs = HEADER_BYTES - 1" using d(1) by (cases h) (auto simp: HEADER_BYTES_def)
  obtain m where m: "n = Suc m" using assms(2) by (cases n) auto
  have "read_frame (take n b) = Inl Truncated"
  proof (cases "m < HEADER_BYTES - 1")
    case True
    then have "take n b = x # take m hs" "length (take m hs) = m" using hs by (simp_all add: h(2) m)
    then show ?thesis using True by (simp add: read_frame_def read_exact_def)
  next
    case False
    then have "take n b = x # hs @ take (m - (HEADER_BYTES - 1)) payload" using hs by (simp add: h(2) m)
    moreover have "m - (HEADER_BYTES - 1) < length payload" using assms(3) False hs by (simp add: h(2) m)
    ultimately show ?thesis using d(2) hs by (simp add: read_frame_def read_exact_def)
  qed
  moreover have "length payload \<le> max_payload k" using h(1) by (auto simp: encode_header_eq split: if_splits)
  moreover have "max_payload k \<le> 24 * 1024 * 1024" by (cases k) (simp_all add: MAX_CONTROL_BYTES_def MAX_BODY_CHUNK_BYTES_def)
  ultimately show ?thesis by blast
qed

theorem frame_bounds_witness:
  "read_frame (take 17 ([26, 2, 0, 0, 0, 0, 0, 0, 0, 0, 0, 9, 0, 0, 0, 2] @ [7, 8])) = Inl Truncated"
proof -
  have "write_frame ResponseChunk 9 [7, 8] = Inr ([26, 2, 0, 0, 0, 0, 0, 0, 0, 0, 0, 9, 0, 0, 0, 2] @ [7, 8])"
    by (simp add: write_frame_def encode_header_eq MAX_BODY_CHUNK_BYTES_def PROTOCOL_VERSION_def KIND_RESPONSE_CHUNK_def
        be_bytes_numeral)
  from frame_bounds[OF this, of 17] show ?thesis by simp
qed

end
