(* ===== verification/Exchange.thy ===== *)
theory Exchange
  imports Tb_Prelude Wire_Frames
begin

text \<open>
  \<open>crates/browser/src/exchange.rs\<close>: typed calls over decoded messages, in the browser (\<open>Client\<close>,
  \<open>Router\<close>) and in a renderer (\<open>BlockingClient\<close>). This theory has the messages, the lanes of the
  asynchronous side and what a router does with one message. The bounded channels and the one-shot
  channels of \<open>tokio\<close> are not in the sources: a channel is an argument \<open>chan_api\<close>, and what is
  sent on a one-shot channel is returned as a list of sends to numbered calls.
\<close>

type_synonym request_id = "64 word"

datatype ('c, 'r, 'n) message =
    MCall request_id 'c
  | MReply request_id 'r
  | MNotify 'n
  | MRequestChunk request_id bytes
  | MRequestEnd request_id "string option"
  | MResponseChunk request_id bytes
  | MCancel request_id

datatype exchange_error = ExchangeClosed | ExchangeProtocol | SubscriberLimit

fun exchange_error_text :: "exchange_error \<Rightarrow> string" where
  "exchange_error_text ExchangeClosed = ''exchange closed''"
| "exchange_error_text ExchangeProtocol = ''exchange protocol violation''"
| "exchange_error_text SubscriberLimit = ''exchange subscriber limit reached''"

datatype lane = ControlLane | DataLane

fun message_lane :: "('c, 'r, 'n) message \<Rightarrow> lane" where
  "message_lane (MCancel i) = ControlLane"
| "message_lane (MCall i c) = DataLane"
| "message_lane (MReply i r) = DataLane"
| "message_lane (MNotify n) = DataLane"
| "message_lane (MRequestChunk i b) = DataLane"
| "message_lane (MRequestEnd i e) = DataLane"
| "message_lane (MResponseChunk i b) = DataLane"

datatype ('c, 'n) server_input =
    SCall request_id 'c
  | SNotify 'n
  | SRequestChunk
  | SRequestEnd
  | SCancel request_id

fun input_lane :: "('c, 'n) server_input \<Rightarrow> lane" where
  "input_lane (SCancel i) = ControlLane"
| "input_lane (SCall i c) = DataLane"
| "input_lane (SNotify n) = DataLane"
| "input_lane SRequestChunk = DataLane"
| "input_lane SRequestEnd = DataLane"

section \<open>The outgoing half\<close>

datatype try_error = TryFull | TryClosed

record ('t, 'q) chan_api =
  ch_try_send :: "'t \<Rightarrow> 'q \<Rightarrow> try_error + 'q"
  ch_is_closed :: "'q \<Rightarrow> bool"

record 'q sender =
  sd_control :: 'q
  sd_data :: 'q
  sd_closed :: bool

definition sender_channel :: "lane \<Rightarrow> 'q sender \<Rightarrow> 'q" where
  "sender_channel l s = (case l of ControlLane \<Rightarrow> sd_control s | DataLane \<Rightarrow> sd_data s)"

definition set_channel :: "lane \<Rightarrow> 'q \<Rightarrow> 'q sender \<Rightarrow> 'q sender" where
  "set_channel l q s = (case l of ControlLane \<Rightarrow> s\<lparr>sd_control := q\<rparr> | DataLane \<Rightarrow> s\<lparr>sd_data := q\<rparr>)"

definition sender_disconnect :: "'q sender \<Rightarrow> 'q sender" where
  "sender_disconnect s = s\<lparr>sd_closed := True\<rparr>"

definition sender_is_closed :: "('t, 'q) chan_api \<Rightarrow> 'q sender \<Rightarrow> bool" where
  "sender_is_closed api s = (sd_closed s \<or> ch_is_closed api (sd_control s))"

definition sender_try_send :: "('t, 'q) chan_api \<Rightarrow> ('t \<Rightarrow> lane) \<Rightarrow> 't \<Rightarrow> 'q sender \<Rightarrow> exchange_error option \<times> 'q sender" where
  "sender_try_send api queue v s =
     (if sender_is_closed api s then (Some ExchangeClosed, s)
      else (case ch_try_send api v (sender_channel (queue v) s) of
              Inr q \<Rightarrow> (None, set_channel (queue v) q s)
            | Inl TryClosed \<Rightarrow> (Some ExchangeClosed, s)
            | Inl TryFull \<Rightarrow> (Some ExchangeClosed, sender_disconnect s)))"

definition sender_try_send_lossy :: "('t, 'q) chan_api \<Rightarrow> ('t \<Rightarrow> lane) \<Rightarrow> 't \<Rightarrow> 'q sender \<Rightarrow> exchange_error option \<times> 'q sender" where
  "sender_try_send_lossy api queue v s =
     (if sender_is_closed api s then (Some ExchangeClosed, s)
      else (case ch_try_send api v (sender_channel (queue v) s) of
              Inl TryClosed \<Rightarrow> (Some ExchangeClosed, s)
            | Inr q \<Rightarrow> (None, set_channel (queue v) q s)
            | Inl TryFull \<Rightarrow> (None, s)))"

section \<open>Calls in progress\<close>

text \<open>A call is a number; the one-shot channel that carries its answer goes by it.\<close>

datatype pending =
    Unary nat
  | Download bytes nat nat

datatype 'r answer =
    Replied 'r
  | Downloaded 'r bytes
  | Failed exchange_error

type_synonym pendings = "request_id \<Rightarrow> pending option"

fun pending_call :: "pending \<Rightarrow> nat" where
  "pending_call (Unary k) = k"
| "pending_call (Download b l k) = k"

definition route_reply :: "request_id \<Rightarrow> 'r \<Rightarrow> pendings \<Rightarrow> pendings \<times> (nat \<times> 'r answer) list" where
  "route_reply i body ps =
     (case ps i of
        Some (Unary k) \<Rightarrow> (ps(i := None), [(k, Replied body)])
      | Some (Download bs l k) \<Rightarrow> (ps(i := None), [(k, Downloaded body bs)])
      | None \<Rightarrow> (ps, []))"

definition route_chunk :: "request_id \<Rightarrow> bytes \<Rightarrow> pendings \<Rightarrow> exchange_error + pendings" where
  "route_chunk i bs ps =
     (case ps i of
        Some (Download buffer l k) \<Rightarrow>
          if min usize_max (length buffer + length bs) > l then Inl ExchangeProtocol
          else Inr (ps(i \<mapsto> Download (buffer @ bs) l k))
      | Some (Unary k) \<Rightarrow> Inl ExchangeProtocol
      | None \<Rightarrow> Inr ps)"

text \<open>\<open>order\<close> is the order in which the hash map yields its keys.\<close>

definition fail_pending :: "request_id list \<Rightarrow> pendings \<Rightarrow> pendings \<times> (nat \<times> 'r answer) list" where
  "fail_pending order ps =
     ((\<lambda>_. None), map (\<lambda>p. (pending_call p, Failed ExchangeClosed)) (List.map_filter ps order))"

text \<open>A subscriber is a channel; sending to it gives its new state unless it is full or closed.\<close>

definition route_notice :: "('n, 'q) chan_api \<Rightarrow> 'n \<Rightarrow> 'q list \<Rightarrow> 'q list" where
  "route_notice sub notice subscribers =
     List.map_filter (\<lambda>q. case ch_try_send sub notice q of Inr q' \<Rightarrow> Some q' | Inl e \<Rightarrow> None) subscribers"

section \<open>The router\<close>

record ('q, 's) router =
  rt_pending :: pendings
  rt_subscribers :: "'q list"
  rt_server :: "'s sender"

definition send_server ::
  "(('c, 'n) server_input, 's) chan_api \<Rightarrow> ('c, 'n) server_input \<Rightarrow> ('q, 's) router \<Rightarrow> exchange_error option \<times> ('q, 's) router" where
  "send_server srv input rt =
     (let (e, s) = sender_try_send srv input_lane input (rt_server rt) in (e, rt\<lparr>rt_server := s\<rparr>))"

definition route ::
  "(('c, 'n) server_input, 's) chan_api \<Rightarrow> ('n, 'q) chan_api \<Rightarrow> ('c, 'r, 'n) message \<Rightarrow> ('q, 's) router \<Rightarrow>
     exchange_error option \<times> ('q, 's) router \<times> (nat \<times> 'r answer) list" where
  "route srv sub m rt =
     (case m of
        MCall i body \<Rightarrow> (let (e, rt') = send_server srv (SCall i body) rt in (e, rt', []))
      | MReply i body \<Rightarrow> (let (ps, out) = route_reply i body (rt_pending rt) in (None, rt\<lparr>rt_pending := ps\<rparr>, out))
      | MNotify notice \<Rightarrow>
          (let rt = rt\<lparr>rt_subscribers := route_notice sub notice (rt_subscribers rt)\<rparr>;
               closed_before = sender_is_closed srv (rt_server rt);
               (e, rt') = send_server srv (SNotify notice) rt
           in (case e of None \<Rightarrow> (None, rt', [])
               | Some err \<Rightarrow> if closed_before then (None, rt', []) else (Some err, rt', [])))
      | MRequestChunk i bs \<Rightarrow> (let (e, rt') = send_server srv SRequestChunk rt in (e, rt', []))
      | MRequestEnd i err \<Rightarrow> (let (e, rt') = send_server srv SRequestEnd rt in (e, rt', []))
      | MResponseChunk i bs \<Rightarrow>
          (case route_chunk i bs (rt_pending rt) of
             Inl e \<Rightarrow> (Some e, rt, [])
           | Inr ps \<Rightarrow> (None, rt\<lparr>rt_pending := ps\<rparr>, []))
      | MCancel i \<Rightarrow> (let (e, rt') = send_server srv (SCancel i) rt in (e, rt', [])))"

definition router_close :: "request_id list \<Rightarrow> ('q, 's) router \<Rightarrow> ('q, 's) router \<times> (nat \<times> 'r answer) list" where
  "router_close order rt =
     (let (ps, out) = fail_pending order (rt_pending rt)
      in (rt\<lparr>rt_pending := ps, rt_server := sender_disconnect (rt_server rt)\<rparr>, out))"

text \<open>The loop of \<open>bind\<close> and of the reader of a renderer: it routes until a message is refused or the
  peer is gone, and then closes.\<close>

fun route_all ::
  "(('c, 'n) server_input, 's) chan_api \<Rightarrow> ('n, 'q) chan_api \<Rightarrow> (pendings \<Rightarrow> request_id list) \<Rightarrow> ('c, 'r, 'n) message list \<Rightarrow>
     ('q, 's) router \<Rightarrow> ('q, 's) router \<times> (nat \<times> 'r answer) list" where
  "route_all srv sub order [] rt = router_close (order (rt_pending rt)) rt"
| "route_all srv sub order (m # ms) rt =
     (let (e, rt', out) = route srv sub m rt
      in (case e of
            Some err \<Rightarrow> (let (rt'', out') = router_close (order (rt_pending rt')) rt' in (rt'', out @ out'))
          | None \<Rightarrow> (let (rt'', out') = route_all srv sub order ms rt' in (rt'', out @ out'))))"

text \<open>\<open>Client::subscribe\<close>, with the new channel as an argument.\<close>

definition client_subscribe ::
  "('n, 'q) chan_api \<Rightarrow> bool \<Rightarrow> 'q \<Rightarrow> nat \<Rightarrow> 'q list \<Rightarrow> exchange_error option \<times> 'q list" where
  "client_subscribe sub tx_closed q limit subscribers =
     (if tx_closed then (Some ExchangeClosed, subscribers)
      else (let subscribers = filter (\<lambda>q. \<not> ch_is_closed sub q) subscribers
            in if length subscribers = limit then (Some SubscriberLimit, subscribers)
               else (None, subscribers @ [q])))"

end
