(* ===== verification/Exchange_Blocking.thy ===== *)
theory Exchange_Blocking
  imports Exchange Message_Queues "HOL-Library.AList"
begin

text \<open>
  The blocking side of \<open>exchange.rs\<close>, which a renderer process runs: \<open>BlockingSender\<close>,
  \<open>BlockingReceiver\<close> and \<open>BlockingClient\<close>. Script threads call, the session posts messages, the writer
  thread takes them, the reader thread delivers replies and closes. Every access to shared state that is atomic in the
  code is one operation here, so a run is any interleaving of them. A call is the position of
  its thread in \<open>bx_calls\<close>; the hash map of pending calls is an association list.
\<close>

section \<open>State\<close>

datatype call_kind = WaitCall | CallbackCall

text \<open>How far \<open>BlockingClient::start\<close> has come.\<close>

datatype call_phase =
    Numbered request_id
  | Registered request_id
  | Checked request_id
  | Pushed request_id
  | SendFailed request_id
  | Started request_id
  | Rejected request_id

record 'c bcall =
  bc_kind :: call_kind
  bc_body :: 'c
  bc_phase :: call_phase

datatype recv_phase = RecvTop | RecvOpen | RecvNoControl | RecvAtWake | RecvDone

datatype close_phase = CloseIdle | CloseStored | CloseWoken | CloseDone

record ('c, 'o, 'n, 'r) bx =
  bx_control_cap :: nat
  bx_data_cap :: nat
  bx_control :: "('c, 'o, 'n) message list"
  bx_data :: "('c, 'o, 'n) message list"
  bx_wake :: nat
  bx_waking :: nat
  bx_closed :: bool
  bx_senders :: bool
  bx_recv :: recv_phase
  bx_taken_control :: "('c, 'o, 'n) message list"
  bx_taken_data :: "('c, 'o, 'n) message list"
  bx_next :: request_id
  bx_pending :: "(request_id \<times> nat) list"
  bx_calls :: "'c bcall list"
  bx_answers :: "nat \<Rightarrow> 'r answer list"
  bx_close :: close_phase

text \<open>\<open>blocking_pair\<close> and \<open>BlockingClient::new\<close>.\<close>

definition blocking_new :: "nat \<Rightarrow> nat \<Rightarrow> ('c, 'o, 'n, 'r) bx" where
  "blocking_new control data =
     \<lparr> bx_control_cap = control, bx_data_cap = data, bx_control = [], bx_data = [], bx_wake = 0, bx_waking = 0,
       bx_closed = False, bx_senders = True, bx_recv = RecvTop, bx_taken_control = [], bx_taken_data = [], bx_next = 1,
       bx_pending = [], bx_calls = [], bx_answers = (\<lambda>k. []), bx_close = CloseIdle \<rparr>"

definition answer_call :: "nat \<Rightarrow> 'r answer \<Rightarrow> ('c, 'o, 'n, 'r) bx \<Rightarrow> ('c, 'o, 'n, 'r) bx" where
  "answer_call k a s = s\<lparr>bx_answers := (bx_answers s)(k := bx_answers s k @ [a])\<rparr>"

definition set_phase :: "nat \<Rightarrow> call_phase \<Rightarrow> ('c, 'o, 'n, 'r) bx \<Rightarrow> ('c, 'o, 'n, 'r) bx" where
  "set_phase k ph s = s\<lparr>bx_calls := (bx_calls s)[k := (bx_calls s ! k)\<lparr>bc_phase := ph\<rparr>]\<rparr>"

definition call_phase_of :: "('c, 'o, 'n, 'r) bx \<Rightarrow> nat \<Rightarrow> call_phase option" where
  "call_phase_of s k = (if k < length (bx_calls s) then Some (bc_phase (bx_calls s ! k)) else None)"

section \<open>The sender\<close>

text \<open>The channel of a lane: the queue and whether it has room. A receiver that is gone refuses.\<close>

definition lane_room :: "lane \<Rightarrow> ('c, 'o, 'n, 'r) bx \<Rightarrow> bool" where
  "lane_room l s =
     (case l of ControlLane \<Rightarrow> length (bx_control s) < bx_control_cap s | DataLane \<Rightarrow> length (bx_data s) < bx_data_cap s)"

definition lane_push :: "('c, 'o, 'n) message \<Rightarrow> ('c, 'o, 'n, 'r) bx \<Rightarrow> ('c, 'o, 'n, 'r) bx" where
  "lane_push m s =
     (case message_lane m of ControlLane \<Rightarrow> s\<lparr>bx_control := bx_control s @ [m]\<rparr> | DataLane \<Rightarrow> s\<lparr>bx_data := bx_data s @ [m]\<rparr>)"

text \<open>\<open>BlockingSender::try_send\<close> after its test of the closed flag, which another thread may set at
  any time. The wake-up that follows a push or a disconnect is a step of its own.\<close>

definition post_push :: "('c, 'o, 'n) message \<Rightarrow> ('c, 'o, 'n, 'r) bx \<Rightarrow> ('c, 'o, 'n, 'r) bx" where
  "post_push m s =
     (if bx_recv s = RecvDone then s
      else if lane_room (message_lane m) s then (lane_push m s)\<lparr>bx_waking := Suc (bx_waking s)\<rparr>
      else s\<lparr>bx_closed := True, bx_waking := Suc (bx_waking s)\<rparr>)"

definition post_wake :: "('c, 'o, 'n, 'r) bx \<Rightarrow> ('c, 'o, 'n, 'r) bx option" where
  "post_wake s =
     (case bx_waking s of 0 \<Rightarrow> None | Suc w \<Rightarrow> Some (s\<lparr>bx_waking := w, bx_wake := Suc (bx_wake s)\<rparr>))"

section \<open>Calls\<close>

text \<open>\<open>BlockingClient::start\<close>, step by step: number, register, test the flag, push, wake, or fail.\<close>

definition call_number :: "call_kind \<Rightarrow> 'c \<Rightarrow> ('c, 'o, 'n, 'r) bx \<Rightarrow> ('c, 'o, 'n, 'r) bx" where
  "call_number kind body s =
     s\<lparr>bx_next := bx_next s + 1,
       bx_calls := bx_calls s @ [\<lparr> bc_kind = kind, bc_body = body, bc_phase = Numbered (bx_next s) \<rparr>]\<rparr>"

text \<open>A pending call that the insertion replaces is dropped: a waiting caller then sees a closed channel.\<close>

definition drop_replaced :: "request_id \<Rightarrow> ('c, 'o, 'n, 'r) bx \<Rightarrow> ('c, 'o, 'n, 'r) bx" where
  "drop_replaced i s =
     (case map_of (bx_pending s) i of
        Some k \<Rightarrow> if bc_kind (bx_calls s ! k) = WaitCall then answer_call k (Failed ExchangeClosed) s else s
      | None \<Rightarrow> s)"

definition call_register :: "nat \<Rightarrow> ('c, 'o, 'n, 'r) bx \<Rightarrow> ('c, 'o, 'n, 'r) bx option" where
  "call_register k s =
     (case call_phase_of s k of
        Some (Numbered i) \<Rightarrow>
          Some (set_phase k (Registered i) ((drop_replaced i s)\<lparr>bx_pending := AList.update i k (bx_pending s)\<rparr>))
      | _ \<Rightarrow> None)"

definition call_check :: "nat \<Rightarrow> ('c, 'o, 'n, 'r) bx \<Rightarrow> ('c, 'o, 'n, 'r) bx option" where
  "call_check k s =
     (case call_phase_of s k of
        Some (Registered i) \<Rightarrow> Some (set_phase k (if bx_closed s then SendFailed i else Checked i) s)
      | _ \<Rightarrow> None)"

text \<open>The send blocks while the lane is full.\<close>

definition call_push :: "nat \<Rightarrow> ('c, 'o, 'n, 'r) bx \<Rightarrow> ('c, 'o, 'n, 'r) bx option" where
  "call_push k s =
     (case call_phase_of s k of
        Some (Checked i) \<Rightarrow>
          if bx_recv s = RecvDone then Some (set_phase k (SendFailed i) s)
          else if lane_room DataLane s then Some (set_phase k (Pushed i) (lane_push (MCall i (bc_body (bx_calls s ! k))) s))
          else None
      | _ \<Rightarrow> None)"

definition call_wake :: "nat \<Rightarrow> ('c, 'o, 'n, 'r) bx \<Rightarrow> ('c, 'o, 'n, 'r) bx option" where
  "call_wake k s =
     (case call_phase_of s k of
        Some (Pushed i) \<Rightarrow> Some (set_phase k (Started i) (s\<lparr>bx_wake := Suc (bx_wake s)\<rparr>))
      | _ \<Rightarrow> None)"

text \<open>A callback is called when it was still pending. A waiting caller returns the error whatever its
  reply channel holds.\<close>

definition call_fail :: "nat \<Rightarrow> ('c, 'o, 'n, 'r) bx \<Rightarrow> ('c, 'o, 'n, 'r) bx option" where
  "call_fail k s =
     (case call_phase_of s k of
        Some (SendFailed i) \<Rightarrow>
          (let waiting = map_of (bx_pending s) i;
               answers = (case bc_kind (bx_calls s ! k) of
                            WaitCall \<Rightarrow> (bx_answers s)(k := [Failed ExchangeClosed])
                          | CallbackCall \<Rightarrow>
                              (case waiting of
                                 Some j \<Rightarrow> (bx_answers s)(j := bx_answers s j @ [Failed ExchangeClosed])
                               | None \<Rightarrow> bx_answers s))
           in Some (set_phase k (Rejected i) (s\<lparr>bx_pending := AList.delete i (bx_pending s), bx_answers := answers\<rparr>)))
      | _ \<Rightarrow> None)"

section \<open>Replies and the end\<close>

definition deliver_reply :: "request_id \<Rightarrow> 'r \<Rightarrow> ('c, 'o, 'n, 'r) bx \<Rightarrow> ('c, 'o, 'n, 'r) bx" where
  "deliver_reply i body s =
     (case map_of (bx_pending s) i of
        Some k \<Rightarrow> answer_call k (Replied body) (s\<lparr>bx_pending := AList.delete i (bx_pending s)\<rparr>)
      | None \<Rightarrow> s)"

text \<open>\<open>BlockingClient::close\<close>: the flag, the wake-up, the drain.\<close>

definition drain_pending :: "('c, 'o, 'n, 'r) bx \<Rightarrow> ('c, 'o, 'n, 'r) bx" where
  "drain_pending s = fold (\<lambda>(i, k). answer_call k (Failed ExchangeClosed)) (bx_pending s) (s\<lparr>bx_pending := []\<rparr>)"

definition close_step :: "('c, 'o, 'n, 'r) bx \<Rightarrow> ('c, 'o, 'n, 'r) bx option" where
  "close_step s =
     (case bx_close s of
        CloseIdle \<Rightarrow> Some (s\<lparr>bx_closed := True, bx_close := CloseStored\<rparr>)
      | CloseStored \<Rightarrow> Some (s\<lparr>bx_wake := Suc (bx_wake s), bx_close := CloseWoken\<rparr>)
      | CloseWoken \<Rightarrow> Some ((drain_pending s)\<lparr>bx_close := CloseDone\<rparr>)
      | CloseDone \<Rightarrow> None)"

section \<open>The receiver\<close>

definition take_control :: "('c, 'o, 'n, 'r) bx \<Rightarrow> ('c, 'o, 'n, 'r) bx option" where
  "take_control s =
     (case bx_control s of
        m # ms \<Rightarrow> Some (s\<lparr>bx_control := ms, bx_taken_control := bx_taken_control s @ [m], bx_recv := RecvTop\<rparr>)
      | [] \<Rightarrow> None)"

definition take_data :: "('c, 'o, 'n, 'r) bx \<Rightarrow> ('c, 'o, 'n, 'r) bx option" where
  "take_data s =
     (case bx_data s of
        m # ms \<Rightarrow> Some (s\<lparr>bx_data := ms, bx_taken_data := bx_taken_data s @ [m], bx_recv := RecvTop\<rparr>)
      | [] \<Rightarrow> None)"

text \<open>\<open>BlockingReceiver::recv\<close> in the loop of \<open>write_messages\<close>: each pass tests the flag, tries the control lane, tries the data
  lane and then waits for a wake-up. A message that it takes is written, and the loop starts over.\<close>

definition recv_step :: "('c, 'o, 'n, 'r) bx \<Rightarrow> ('c, 'o, 'n, 'r) bx option" where
  "recv_step s =
     (case bx_recv s of
        RecvTop \<Rightarrow> Some (s\<lparr>bx_recv := if bx_closed s then RecvDone else RecvOpen\<rparr>)
      | RecvOpen \<Rightarrow> (case take_control s of Some s' \<Rightarrow> Some s' | None \<Rightarrow> Some (s\<lparr>bx_recv := RecvNoControl\<rparr>))
      | RecvNoControl \<Rightarrow> (case take_data s of Some s' \<Rightarrow> Some s' | None \<Rightarrow> Some (s\<lparr>bx_recv := RecvAtWake\<rparr>))
      | RecvAtWake \<Rightarrow>
          (case bx_wake s of
             Suc w \<Rightarrow> Some (s\<lparr>bx_wake := w, bx_recv := RecvTop\<rparr>)
           | 0 \<Rightarrow> if bx_senders s then None
                  else (case take_control s of
                          Some s' \<Rightarrow> Some s'
                        | None \<Rightarrow> (case take_data s of Some s' \<Rightarrow> Some s' | None \<Rightarrow> Some (s\<lparr>bx_recv := RecvDone\<rparr>))))
      | RecvDone \<Rightarrow> None)"

text \<open>The writer thread also ends, and with it the receiver, when a write fails. The senders are gone
  when no thread is in a send and the client and the outbox are dropped.\<close>

definition recv_drop :: "('c, 'o, 'n, 'r) bx \<Rightarrow> ('c, 'o, 'n, 'r) bx" where
  "recv_drop s = s\<lparr>bx_recv := RecvDone\<rparr>"

fun phase_settled :: "call_phase \<Rightarrow> bool" where
  "phase_settled (Started i) = True"
| "phase_settled (Rejected i) = True"
| "phase_settled _ = False"

definition senders_drop :: "('c, 'o, 'n, 'r) bx \<Rightarrow> ('c, 'o, 'n, 'r) bx option" where
  "senders_drop s =
     (if bx_waking s = 0 \<and> bx_close s \<in> {CloseIdle, CloseDone} \<and> list_all (\<lambda>c. phase_settled (bc_phase c)) (bx_calls s)
      then Some (s\<lparr>bx_senders := False\<rparr>) else None)"

section \<open>Runs\<close>

datatype ('c, 'o, 'n, 'r) bx_op =
    PostPush "('c, 'o, 'n) message"
  | PostWake
  | CallNumber call_kind 'c
  | CallRegister nat
  | CallCheck nat
  | CallPush nat
  | CallWake nat
  | CallFail nat
  | DeliverReply request_id 'r
  | CloseStep
  | RecvStep
  | RecvDrop
  | SendersDrop

fun bx_apply :: "('c, 'o, 'n, 'r) bx_op \<Rightarrow> ('c, 'o, 'n, 'r) bx \<Rightarrow> ('c, 'o, 'n, 'r) bx option" where
  "bx_apply (PostPush m) s = (if bx_senders s then Some (post_push m s) else None)"
| "bx_apply PostWake s = post_wake s"
| "bx_apply (CallNumber kind body) s = (if bx_senders s then Some (call_number kind body s) else None)"
| "bx_apply (CallRegister k) s = call_register k s"
| "bx_apply (CallCheck k) s = call_check k s"
| "bx_apply (CallPush k) s = call_push k s"
| "bx_apply (CallWake k) s = call_wake k s"
| "bx_apply (CallFail k) s = call_fail k s"
| "bx_apply (DeliverReply i body) s = Some (deliver_reply i body s)"
| "bx_apply CloseStep s = (if bx_senders s then close_step s else None)"
| "bx_apply RecvStep s = recv_step s"
| "bx_apply RecvDrop s = Some (recv_drop s)"
| "bx_apply SendersDrop s = senders_drop s"

inductive bx_reach :: "nat \<Rightarrow> nat \<Rightarrow> nat \<Rightarrow> ('c, 'o, 'n, 'r) bx \<Rightarrow> bool" for cc dc where
  bx_init: "bx_reach cc dc 0 (blocking_new cc dc)"
| bx_step: "bx_reach cc dc n s \<Longrightarrow> bx_apply opn s = Some s' \<Longrightarrow> bx_reach cc dc (Suc n) s'"

fun bx_run :: "('c, 'o, 'n, 'r) bx_op list \<Rightarrow> ('c, 'o, 'n, 'r) bx \<Rightarrow> ('c, 'o, 'n, 'r) bx option" where
  "bx_run [] s = Some s"
| "bx_run (opn # ops) s = Option.bind (bx_apply opn s) (bx_run ops)"

lemma bx_run_reach: "bx_reach cc dc n s \<Longrightarrow> bx_run ops s = Some s' \<Longrightarrow> bx_reach cc dc (n + length ops) s'"
proof (induction ops arbitrary: n s)
  case (Cons opn ops)
  obtain t where t: "bx_apply opn s = Some t" "bx_run ops t = Some s'" using Cons.prems(2) by (auto simp: bind_eq_Some_conv)
  from Cons.IH[OF bx_step[OF Cons.prems(1) t(1)] t(2)] show ?case by simp
qed simp

lemma bx_run_the:
  "\<not> Option.is_none (bx_run ops (blocking_new cc dc)) \<Longrightarrow> bx_reach cc dc (length ops) (the (bx_run ops (blocking_new cc dc)))"
  using bx_run_reach[OF bx_init[of cc dc], of ops] by (auto simp: Option.is_none_def)

section \<open>What was put into the lanes\<close>

text \<open>The message that an operation puts into a lane, if any.\<close>

definition bx_label :: "('c, 'o, 'n, 'r) bx_op \<Rightarrow> ('c, 'o, 'n, 'r) bx \<Rightarrow> (lane \<times> ('c, 'o, 'n) message) option" where
  "bx_label opn s =
     (case opn of
        PostPush m \<Rightarrow> if bx_recv s \<noteq> RecvDone \<and> lane_room (message_lane m) s then Some (message_lane m, m) else None
      | CallPush k \<Rightarrow>
          (case call_phase_of s k of
             Some (Checked i) \<Rightarrow> if bx_recv s \<noteq> RecvDone then Some (DataLane, MCall i (bc_body (bx_calls s ! k))) else None
           | _ \<Rightarrow> None)
      | _ \<Rightarrow> None)"

fun bx_sent :: "('c, 'o, 'n, 'r) bx_op list \<Rightarrow> ('c, 'o, 'n, 'r) bx \<Rightarrow> (lane \<times> ('c, 'o, 'n) message) list" where
  "bx_sent [] s = []"
| "bx_sent (opn # ops) s =
     (case bx_label opn s of Some l \<Rightarrow> [l] | None \<Rightarrow> []) @ (case bx_apply opn s of Some s' \<Rightarrow> bx_sent ops s' | None \<Rightarrow> [])"

text \<open>What went through a lane: taken by the writer, or waiting.\<close>

definition lane_view :: "('c, 'o, 'n, 'r) bx \<Rightarrow> lane \<Rightarrow> ('c, 'o, 'n) message list" where
  "lane_view s l =
     (case l of ControlLane \<Rightarrow> bx_taken_control s @ bx_control s | DataLane \<Rightarrow> bx_taken_data s @ bx_data s)"

inductive lane_step :: "('c, 'o, 'n, 'r) bx \<Rightarrow> (lane \<times> ('c, 'o, 'n) message) option \<Rightarrow> ('c, 'o, 'n, 'r) bx \<Rightarrow> bool" where
  lane_step: "bx_apply opn s = Some s' \<Longrightarrow> lane_step s (bx_label opn s) s'"

lemma bx_run_lanes: "bx_run ops s = Some s' \<Longrightarrow> qrun lane_step s (bx_sent ops s) s'"
proof (induction ops arbitrary: s)
  case (Cons opn ops)
  obtain t where t: "bx_apply opn s = Some t" "bx_run ops t = Some s'" using Cons.prems by (auto simp: bind_eq_Some_conv)
  note run = Cons.IH[OF t(2)] lane_step[OF t(1)]
  show ?case using t(1) run by (cases "bx_label opn s") (auto intro: qrun_silent qrun_send)
qed (simp add: qrun_Nil)

end
