(* ===== verification/Exchange_Blocking_Inv.thy ===== *)
theory Exchange_Blocking_Inv
  imports Exchange_Blocking
begin

text \<open>
  Invariants of every run of the blocking exchange: no wake-up is lost, and every call has one answer
  or is still pending.
\<close>

section \<open>Small steps\<close>

lemma set_phase_fields [simp]:
  "bx_control (set_phase k ph s) = bx_control s" "bx_data (set_phase k ph s) = bx_data s"
  "bx_wake (set_phase k ph s) = bx_wake s" "bx_waking (set_phase k ph s) = bx_waking s"
  "bx_closed (set_phase k ph s) = bx_closed s" "bx_senders (set_phase k ph s) = bx_senders s"
  "bx_recv (set_phase k ph s) = bx_recv s" "bx_next (set_phase k ph s) = bx_next s"
  "bx_pending (set_phase k ph s) = bx_pending s" "bx_answers (set_phase k ph s) = bx_answers s"
  "bx_close (set_phase k ph s) = bx_close s" "length (bx_calls (set_phase k ph s)) = length (bx_calls s)"
  "bx_taken_control (set_phase k ph s) = bx_taken_control s" "bx_taken_data (set_phase k ph s) = bx_taken_data s"
  by (simp_all add: set_phase_def)

lemma answer_call_fields [simp]:
  "bx_control (answer_call k a s) = bx_control s" "bx_data (answer_call k a s) = bx_data s"
  "bx_wake (answer_call k a s) = bx_wake s" "bx_waking (answer_call k a s) = bx_waking s"
  "bx_closed (answer_call k a s) = bx_closed s" "bx_senders (answer_call k a s) = bx_senders s"
  "bx_recv (answer_call k a s) = bx_recv s" "bx_next (answer_call k a s) = bx_next s"
  "bx_pending (answer_call k a s) = bx_pending s" "bx_calls (answer_call k a s) = bx_calls s"
  "bx_close (answer_call k a s) = bx_close s"
  "bx_taken_control (answer_call k a s) = bx_taken_control s" "bx_taken_data (answer_call k a s) = bx_taken_data s"
  "bx_answers (answer_call k a s) j = (if j = k then bx_answers s k @ [a] else bx_answers s j)"
  by (simp_all add: answer_call_def)

lemma lane_push_fields [simp]:
  "bx_wake (lane_push m s) = bx_wake s" "bx_waking (lane_push m s) = bx_waking s"
  "bx_closed (lane_push m s) = bx_closed s" "bx_senders (lane_push m s) = bx_senders s"
  "bx_recv (lane_push m s) = bx_recv s" "bx_next (lane_push m s) = bx_next s"
  "bx_pending (lane_push m s) = bx_pending s" "bx_calls (lane_push m s) = bx_calls s"
  "bx_close (lane_push m s) = bx_close s" "bx_answers (lane_push m s) = bx_answers s"
  "bx_taken_control (lane_push m s) = bx_taken_control s" "bx_taken_data (lane_push m s) = bx_taken_data s"
  "bx_control (lane_push m s) = bx_control s @ (if message_lane m = ControlLane then [m] else [])"
  "bx_data (lane_push m s) = bx_data s @ (if message_lane m = DataLane then [m] else [])"
  by (cases "message_lane m"; simp add: lane_push_def)+

lemma drop_replaced_fields [simp]:
  "bx_control (drop_replaced i s) = bx_control s" "bx_data (drop_replaced i s) = bx_data s"
  "bx_wake (drop_replaced i s) = bx_wake s" "bx_waking (drop_replaced i s) = bx_waking s"
  "bx_closed (drop_replaced i s) = bx_closed s" "bx_senders (drop_replaced i s) = bx_senders s"
  "bx_recv (drop_replaced i s) = bx_recv s" "bx_next (drop_replaced i s) = bx_next s"
  "bx_pending (drop_replaced i s) = bx_pending s" "bx_calls (drop_replaced i s) = bx_calls s"
  "bx_close (drop_replaced i s) = bx_close s"
  "bx_taken_control (drop_replaced i s) = bx_taken_control s" "bx_taken_data (drop_replaced i s) = bx_taken_data s"
  by (simp_all add: drop_replaced_def split: option.split)

lemma drain_fold:
  "fold (\<lambda>(i, k). answer_call k (Failed ExchangeClosed)) ps s =
     s\<lparr>bx_answers := (\<lambda>j. bx_answers s j @ replicate (length (filter (\<lambda>p. snd p = j) ps)) (Failed ExchangeClosed))\<rparr>"
proof (induction ps arbitrary: s)
  case (Cons p ps)
  obtain i k where "p = (i, k)" by (cases p)
  then show ?case using Cons by (auto simp: answer_call_def fun_eq_iff replicate_app_Cons_same intro!: arg_cong[where f = "\<lambda>a. s\<lparr>bx_answers := a\<rparr>"])
qed simp

lemma drain_pending_eq:
  "drain_pending s = s\<lparr>bx_pending := [],
     bx_answers := (\<lambda>j. bx_answers s j @ replicate (length (filter (\<lambda>p. snd p = j) (bx_pending s))) (Failed ExchangeClosed))\<rparr>"
  by (simp add: drain_pending_def drain_fold)

lemma call_phase_of_cong: "bx_calls t = bx_calls s \<Longrightarrow> call_phase_of t k = call_phase_of s k"
  by (simp add: call_phase_of_def)

lemma call_phase_ofD: "call_phase_of s k = Some ph \<Longrightarrow> k < length (bx_calls s) \<and> bc_phase (bx_calls s ! k) = ph"
  by (simp add: call_phase_of_def split: if_splits)

section \<open>Wake-ups\<close>

text \<open>A wake-up is there, or a thread is about to send one.\<close>

definition is_pushed :: "call_phase \<Rightarrow> bool" where
  "is_pushed ph = (case ph of Pushed i \<Rightarrow> True | _ \<Rightarrow> False)"

definition stirring :: "('c, 'o, 'n, 'r) bx \<Rightarrow> bool" where
  "stirring s =
     (0 < bx_wake s \<or> 0 < bx_waking s \<or> bx_close s = CloseStored \<or> list_ex (\<lambda>c. is_pushed (bc_phase c)) (bx_calls s))"

text \<open>What the receiver has passed over in this pass is announced by a wake-up.\<close>

definition wake_inv :: "('c, 'o, 'n, 'r) bx \<Rightarrow> bool" where
  "wake_inv s =
     (case bx_recv s of
        RecvTop \<Rightarrow> True
      | RecvOpen \<Rightarrow> bx_closed s \<longrightarrow> stirring s
      | RecvNoControl \<Rightarrow> bx_closed s \<or> bx_control s \<noteq> [] \<longrightarrow> stirring s
      | RecvAtWake \<Rightarrow> bx_closed s \<or> bx_control s \<noteq> [] \<or> bx_data s \<noteq> [] \<longrightarrow> stirring s
      | RecvDone \<Rightarrow> True)"

lemma wake_inv_stirring: "stirring s \<Longrightarrow> wake_inv s"
  by (simp add: wake_inv_def split: recv_phase.split)

lemma wake_inv_same:
  assumes "wake_inv s" "stirring s \<Longrightarrow> stirring s'" "bx_recv s' = bx_recv s" "bx_closed s' = bx_closed s"
    "bx_control s' = bx_control s" "bx_data s' = bx_data s"
  shows "wake_inv s'"
  using assms by (auto simp: wake_inv_def split: recv_phase.splits)

lemma list_ex_update:
  "list_ex P xs \<Longrightarrow> \<not> P (xs ! k) \<Longrightarrow> list_ex P (xs[k := y])"
  by (metis list_ex_length length_list_update nth_list_update_neq)

lemma stirring_set_phase:
  assumes "stirring s" "call_phase_of s k = Some ph" "\<not> is_pushed ph"
  shows "stirring (set_phase k ph' s)"
  using assms call_phase_ofD[OF assms(2)]
  by (auto simp: stirring_def set_phase_def intro: list_ex_update)

lemma pushed_stirring: "k < length (bx_calls s) \<Longrightarrow> is_pushed ph \<Longrightarrow> stirring (set_phase k ph s)"
  by (auto simp: stirring_def set_phase_def list_ex_length intro!: exI[of _ k])

lemma stirring_cong:
  "bx_wake s' = bx_wake s \<Longrightarrow> bx_waking s' = bx_waking s \<Longrightarrow> bx_close s' = bx_close s \<Longrightarrow> bx_calls s' = bx_calls s \<Longrightarrow>
     stirring s' = stirring s"
  by (simp add: stirring_def)

lemma wake_inv_set_phase:
  assumes "wake_inv s" "call_phase_of s k = Some ph" "\<not> is_pushed ph"
  shows "wake_inv (set_phase k ph' s)"
  by (rule wake_inv_same[OF assms(1)]) (simp_all add: stirring_set_phase[OF _ assms(2,3)])

lemma is_pushed_simps [simp]:
  "\<not> is_pushed (Numbered i)" "\<not> is_pushed (Registered i)" "\<not> is_pushed (Checked i)" "is_pushed (Pushed i)"
  "\<not> is_pushed (SendFailed i)" "\<not> is_pushed (Started i)" "\<not> is_pushed (Rejected i)"
  by (simp_all add: is_pushed_def)

lemma wake_inv_post_push: "wake_inv s \<Longrightarrow> wake_inv (post_push m s)"
  by (simp add: post_push_def) (auto intro!: wake_inv_stirring simp: stirring_def)

lemma wake_inv_register:
  assumes "wake_inv s" "call_register k s = Some s'"
  shows "wake_inv s'"
proof -
  obtain i where i: "call_phase_of s k = Some (Numbered i)"
    and s': "s' = set_phase k (Registered i) ((drop_replaced i s)\<lparr>bx_pending := AList.update i k (bx_pending s)\<rparr>)" (is "_ = set_phase _ _ ?t")
    using assms(2) by (auto simp: call_register_def split: option.splits call_phase.splits)
  have "wake_inv ?t" by (rule wake_inv_same[OF assms(1)]) (simp_all add: stirring_def)
  moreover have "call_phase_of ?t k = Some (Numbered i)" using i call_phase_of_cong[of ?t s] by simp
  ultimately show ?thesis unfolding s' by (rule wake_inv_set_phase) simp
qed

lemma call_failD:
  assumes "call_fail k s = Some s'"
  obtains i as where "call_phase_of s k = Some (SendFailed i)"
    "s' = set_phase k (Rejected i) (s\<lparr>bx_pending := AList.delete i (bx_pending s), bx_answers := as\<rparr>)"
  using assms by (auto simp: call_fail_def Let_def split: option.splits call_phase.splits)

lemma wake_inv_fail:
  assumes "wake_inv s" "call_fail k s = Some s'"
  shows "wake_inv s'"
proof -
  obtain i as where i: "call_phase_of s k = Some (SendFailed i)"
    and s': "s' = set_phase k (Rejected i) (s\<lparr>bx_pending := AList.delete i (bx_pending s), bx_answers := as\<rparr>)" (is "_ = set_phase _ _ ?t")
    using call_failD[OF assms(2)] .
  have "wake_inv ?t" by (rule wake_inv_same[OF assms(1)]) (simp_all add: stirring_def)
  moreover have "call_phase_of ?t k = Some (SendFailed i)" using i call_phase_of_cong[of ?t s] by simp
  ultimately show ?thesis unfolding s' by (rule wake_inv_set_phase) simp
qed

lemma wake_inv_push:
  assumes "wake_inv s" "call_push k s = Some s'"
  shows "wake_inv s'"
proof -
  obtain i where i: "call_phase_of s k = Some (Checked i)" using assms(2) by (auto simp: call_push_def split: option.splits call_phase.splits)
  have k: "k < length (bx_calls s)" using call_phase_ofD[OF i] by simp
  show ?thesis
  proof (cases "bx_recv s = RecvDone")
    case True
    then show ?thesis using assms(2) i wake_inv_set_phase[OF assms(1) i] by (auto simp: call_push_def)
  next
    case False
    then show ?thesis using assms(2) i k by (auto simp: call_push_def split: if_splits intro!: wake_inv_stirring pushed_stirring)
  qed
qed

lemma take_controlD:
  "take_control s = Some s' \<Longrightarrow> bx_recv s' = RecvTop" "take_control s = None \<longleftrightarrow> bx_control s = []"
  "take_data s = Some s' \<Longrightarrow> bx_recv s' = RecvTop" "take_data s = None \<longleftrightarrow> bx_data s = []"
  by (auto simp: take_control_def take_data_def split: list.splits)

lemma stirring_recv: "stirring (s\<lparr>bx_recv := r\<rparr>) = stirring s"
  by (simp add: stirring_def)

lemma wake_inv_recv:
  assumes "wake_inv s" "recv_step s = Some s'"
  shows "wake_inv s'"
proof (cases "bx_recv s")
  case RecvTop
  then show ?thesis using assms(2) by (auto simp: recv_step_def wake_inv_def)
next
  case RecvOpen
  then show ?thesis using assms take_controlD(1)[of s s']
    by (cases "take_control s") (auto simp: recv_step_def wake_inv_def take_controlD(2) stirring_recv)
next
  case RecvNoControl
  then show ?thesis using assms take_controlD(3)[of s s']
    by (cases "take_data s") (auto simp: recv_step_def wake_inv_def take_controlD(4) stirring_recv)
next
  case RecvAtWake
  then have "bx_recv s' = RecvTop \<or> bx_recv s' = RecvDone"
    using assms(2) take_controlD(1,3) by (auto simp: recv_step_def split: nat.splits if_splits option.splits)
  then show ?thesis by (auto simp: wake_inv_def)
next
  case RecvDone
  then show ?thesis using assms(2) by (simp add: recv_step_def)
qed

lemma wake_inv_close:
  assumes "wake_inv s" "close_step s = Some s'"
  shows "wake_inv s'"
proof (cases "bx_close s")
  case CloseWoken
  then have s': "s' = (drain_pending s)\<lparr>bx_close := CloseDone\<rparr>" using assms(2) by (simp add: close_step_def)
  show ?thesis unfolding s' by (rule wake_inv_same[OF assms(1)]) (simp_all add: drain_pending_eq stirring_def CloseWoken)
qed (use assms in \<open>auto simp: close_step_def stirring_def intro!: wake_inv_stirring\<close>)

lemma wake_inv_apply:
  assumes "wake_inv s" "bx_apply opn s = Some s'"
  shows "wake_inv s'"
proof (cases opn)
  case (CallNumber kind body)
  then have s': "s' = call_number kind body s" using assms(2) by (simp split: if_splits)
  show ?thesis unfolding s' by (rule wake_inv_same[OF assms(1)]) (auto simp: call_number_def stirring_def)
next
  case (CallCheck k)
  then show ?thesis using assms(2) wake_inv_set_phase[OF assms(1)]
    by (auto simp: call_check_def split: option.splits call_phase.splits if_splits)
next
  case (DeliverReply i body)
  then have s': "s' = deliver_reply i body s" using assms(2) by simp
  show ?thesis unfolding s' by (rule wake_inv_same[OF assms(1)]) (auto simp: deliver_reply_def stirring_def split: option.split)
next
  case PostWake
  then show ?thesis using assms(2) by (auto simp: post_wake_def stirring_def intro!: wake_inv_stirring split: nat.splits)
next
  case (CallWake k)
  then show ?thesis using assms(2)
    by (auto simp: call_wake_def stirring_def intro!: wake_inv_stirring split: option.splits call_phase.splits)
next
  case SendersDrop
  then have s': "s' = s\<lparr>bx_senders := False\<rparr>" using assms(2) by (simp add: senders_drop_def split: if_splits)
  show ?thesis unfolding s' by (rule wake_inv_same[OF assms(1)]) (simp_all add: stirring_def)
next
  case RecvDrop
  then show ?thesis using assms(2) by (auto simp: recv_drop_def wake_inv_def)
qed (use assms wake_inv_post_push wake_inv_register wake_inv_push wake_inv_fail wake_inv_recv wake_inv_close in
      \<open>auto split: if_splits\<close>)

lemma wake_inv_reach: "bx_reach cc dc n s \<Longrightarrow> wake_inv s"
  by (induction rule: bx_reach.induct) (auto simp: blocking_new_def wake_inv_def wake_inv_apply[unfolded wake_inv_def])

section \<open>Answers\<close>

fun phase_id :: "call_phase \<Rightarrow> request_id" where
  "phase_id (Numbered i) = i"
| "phase_id (Registered i) = i"
| "phase_id (Checked i) = i"
| "phase_id (Pushed i) = i"
| "phase_id (SendFailed i) = i"
| "phase_id (Started i) = i"
| "phase_id (Rejected i) = i"

fun was_open :: "call_phase \<Rightarrow> bool" where
  "was_open (Checked i) = True"
| "was_open (Pushed i) = True"
| "was_open (Started i) = True"
| "was_open _ = False"

text \<open>A call by its phase, whether it is pending, and its answers: not registered and not answered,
  pending and not answered, or answered once. When the client has closed, no call that found it open is pending.\<close>

definition view_ok :: "nat \<Rightarrow> call_phase \<Rightarrow> bool \<Rightarrow> 'r answer list \<Rightarrow> bool \<Rightarrow> bool" where
  "view_ok k ph pend as ended =
     (phase_id ph = word_of_nat (Suc k) \<and>
      (case ph of
         Numbered i \<Rightarrow> \<not> pend \<and> as = []
       | Rejected i \<Rightarrow> \<not> pend \<and> length as = 1
       | _ \<Rightarrow> if pend then as = [] \<and> (ended \<longrightarrow> \<not> was_open ph) else length as = 1))"

definition is_pending :: "('c, 'o, 'n, 'r) bx \<Rightarrow> nat \<Rightarrow> bool" where
  "is_pending s k = (map_of (bx_pending s) (word_of_nat (Suc k)) = Some k)"

definition pending_ok :: "('c, 'o, 'n, 'r) bx \<Rightarrow> bool" where
  "pending_ok s =
     (bx_next s = word_of_nat (Suc (length (bx_calls s))) \<and> (bx_close s \<noteq> CloseIdle \<longrightarrow> bx_closed s) \<and>
      distinct (map fst (bx_pending s)) \<and>
      (\<forall>i k. map_of (bx_pending s) i = Some k \<longrightarrow> k < length (bx_calls s) \<and> i = word_of_nat (Suc k)))"

definition calls_inv :: "('c, 'o, 'n, 'r) bx \<Rightarrow> bool" where
  "calls_inv s =
     (pending_ok s \<and> (\<forall>k. bx_answers s k \<noteq> [] \<longrightarrow> k < length (bx_calls s)) \<and>
      (\<forall>k < length (bx_calls s). view_ok k (bc_phase (bx_calls s ! k)) (is_pending s k) (bx_answers s k) (bx_close s = CloseDone)))"

lemma calls_invD:
  assumes "calls_inv s"
  shows "pending_ok s" "k < length (bx_calls s) \<Longrightarrow> view_ok k (bc_phase (bx_calls s ! k)) (is_pending s k) (bx_answers s k) (bx_close s = CloseDone)"
    "\<not> k < length (bx_calls s) \<Longrightarrow> bx_answers s k = []"
  using assms by (auto simp: calls_inv_def)

lemma pending_okD:
  assumes "pending_ok s" "map_of (bx_pending s) i = Some k"
  shows "k < length (bx_calls s)" "i = word_of_nat (Suc k)" "is_pending s k"
  using assms by (auto simp: pending_ok_def is_pending_def)

lemma calls_inv_same:
  assumes "calls_inv s" "bx_next s' = bx_next s" "bx_calls s' = bx_calls s" "bx_pending s' = bx_pending s"
    "bx_answers s' = bx_answers s" "bx_close s' = bx_close s" "bx_closed s \<longrightarrow> bx_closed s'"
  shows "calls_inv s'"
  using assms by (auto simp: calls_inv_def pending_ok_def is_pending_def)

lemma id_inj:
  assumes "j < 2 ^ 64 - 1" "k < 2 ^ 64 - 1"
  shows "(word_of_nat (Suc j) :: request_id) = word_of_nat (Suc k) \<longleftrightarrow> j = k"
proof -
  have "unat (word_of_nat n :: request_id) = n" if "n < 2 ^ 64" for n using that by (simp add: unat_of_nat)
  then have "unat (word_of_nat (Suc j) :: request_id) = Suc j" "unat (word_of_nat (Suc k) :: request_id) = Suc k"
    using assms by (simp_all del: of_nat_Suc)
  then show ?thesis by (metis Suc_inject)
qed

text \<open>A step that changes the phase, the pending entry and the answers of one call.\<close>

lemma calls_inv_one:
  assumes "calls_inv s" "k < length (bx_calls s)"
    and "pending_ok s'" "length (bx_calls s') = length (bx_calls s)" "bx_close s' = bx_close s"
    and "\<And>j. j \<noteq> k \<Longrightarrow> j < length (bx_calls s) \<Longrightarrow> bc_phase (bx_calls s' ! j) = bc_phase (bx_calls s ! j)"
    and "\<And>j. j \<noteq> k \<Longrightarrow> j < length (bx_calls s) \<Longrightarrow> is_pending s' j = is_pending s j" "\<And>j. j \<noteq> k \<Longrightarrow> bx_answers s' j = bx_answers s j"
    and "view_ok k (bc_phase (bx_calls s' ! k)) (is_pending s' k) (bx_answers s' k) (bx_close s' = CloseDone)"
  shows "calls_inv s'"
  unfolding calls_inv_def
proof (intro conjI allI impI)
  fix j
  show "j < length (bx_calls s')" if "bx_answers s' j \<noteq> []"
    using that assms(2,4,8) calls_invD(3)[OF assms(1), of j] by (cases "j = k") auto
  show "view_ok j (bc_phase (bx_calls s' ! j)) (is_pending s' j) (bx_answers s' j) (bx_close s' = CloseDone)"
    if "j < length (bx_calls s')"
    using that assms(4-9) calls_invD(2)[OF assms(1), of j] by (cases "j = k") auto
qed (rule assms(3))

lemma set_phase_phase: "k < length (bx_calls s) \<Longrightarrow> bc_phase (bx_calls (set_phase k ph s) ! j) = (if j = k then ph else bc_phase (bx_calls s ! j))"
  by (simp add: set_phase_def)

lemma is_pending_fields [simp]:
  "is_pending (set_phase k ph s) = is_pending s"
  by (simp add: is_pending_def fun_eq_iff)

lemma pending_ok_set_phase [simp]: "pending_ok (set_phase k ph s) = pending_ok s"
  by (simp add: pending_ok_def)

text \<open>A step that only moves one call on.\<close>

lemma calls_inv_phase:
  assumes "calls_inv s" "call_phase_of s k = Some ph" "pending_ok t" "bx_calls t = bx_calls s" "bx_pending t = bx_pending s"
    "bx_answers t = bx_answers s" "bx_close t = bx_close s"
    and "view_ok k ph (is_pending s k) (bx_answers s k) (bx_close s = CloseDone) \<Longrightarrow>
      view_ok k ph' (is_pending s k) (bx_answers s k) (bx_close s = CloseDone)"
  shows "calls_inv (set_phase k ph' t)"
proof -
  note k = call_phase_ofD[OF assms(2)]
  have pend: "is_pending t = is_pending s" using assms(5) by (simp add: is_pending_def fun_eq_iff)
  show ?thesis
    by (rule calls_inv_one[OF assms(1), of k])
      (use k calls_invD(2)[OF assms(1), of k] assms(3-8) in \<open>simp_all add: set_phase_phase pend\<close>)
qed

lemma calls_inv_number:
  assumes "calls_inv s" "length (bx_calls s) < 2 ^ 64 - 1"
  shows "calls_inv (call_number kind body s)"
proof -
  let ?s = "call_number kind body s" and ?n = "length (bx_calls s)"
  note p = calls_invD(1)[OF assms(1)]
  have pend: "is_pending ?s = is_pending s" by (simp add: is_pending_def call_number_def fun_eq_iff)
  have new: "\<not> is_pending s ?n" using pending_okD(1)[OF p] by (auto simp: is_pending_def)
  have "pending_ok ?s" using p by (auto simp: pending_ok_def call_number_def less_Suc_eq add.commute)
  moreover have "view_ok j (bc_phase (bx_calls ?s ! j)) (is_pending ?s j) (bx_answers ?s j) (bx_close ?s = CloseDone)"
    if "j < length (bx_calls ?s)" for j
  proof (cases "j = ?n")
    case True
    then show ?thesis using calls_invD(3)[OF assms(1), of ?n] p new unfolding pend
      by (simp add: call_number_def view_ok_def pending_ok_def)
  next
    case False
    then show ?thesis using that calls_invD(2)[OF assms(1), of j] unfolding pend by (simp add: call_number_def nth_append)
  qed
  ultimately show ?thesis using calls_invD(3)[OF assms(1)]
    by (auto simp: calls_inv_def) (auto simp: call_number_def less_Suc_eq)
qed

lemma calls_inv_register:
  assumes "calls_inv s" "call_register k s = Some s'" "length (bx_calls s) \<le> 2 ^ 64 - 1"
  shows "calls_inv s'"
proof -
  obtain i where i: "call_phase_of s k = Some (Numbered i)"
    and s': "s' = set_phase k (Registered i) ((drop_replaced i s)\<lparr>bx_pending := AList.update i k (bx_pending s)\<rparr>)"
    using assms(2) by (auto simp: call_register_def split: option.splits call_phase.splits)
  note k = call_phase_ofD[OF i]
  note p = calls_invD(1)[OF assms(1)]
  have v: "i = word_of_nat (Suc k)" "\<not> is_pending s k" "bx_answers s k = []"
    using calls_invD(2)[OF assms(1), of k] k by (simp_all add: view_ok_def)
  have free: "map_of (bx_pending s) i = None"
  proof (rule ccontr)
    assume "map_of (bx_pending s) i \<noteq> None"
    then obtain j where j: "map_of (bx_pending s) i = Some j" by auto
    note jd = pending_okD[OF p j]
    have "j = k" using jd(1,2) v(1) k assms(3) id_inj[of j k] by simp
    then show False using j v by (simp add: is_pending_def)
  qed
  then have "drop_replaced i s = s" by (simp add: drop_replaced_def)
  then have s'': "s' = set_phase k (Registered i) (s\<lparr>bx_pending := AList.update i k (bx_pending s)\<rparr>)" unfolding s' by simp
  have pend: "is_pending s' j = (if j = k then True else is_pending s j)" if "j < length (bx_calls s)" for j
    using that k v(1) assms(3) id_inj[of j k] unfolding s'' by (simp add: is_pending_def update_conv' del: of_nat_Suc)
  have "pending_ok s'" using p k v(1) unfolding s'' by (auto simp: pending_ok_def update_conv' distinct_update)
  then show ?thesis
    by (rule calls_inv_one[OF assms(1) conjunct1[OF k]])
      (use k v pend in \<open>simp_all add: s'' set_phase_phase view_ok_def\<close>)
qed

lemma calls_inv_fail:
  assumes "calls_inv s" "call_fail k s = Some s'" "length (bx_calls s) \<le> 2 ^ 64 - 1"
  shows "calls_inv s'"
proof -
  obtain i where i: "call_phase_of s k = Some (SendFailed i)"
    using assms(2) by (auto simp: call_fail_def split: option.splits call_phase.splits)
  note k = call_phase_ofD[OF i]
  note p = calls_invD(1)[OF assms(1)]
  have v: "i = word_of_nat (Suc k)" "if is_pending s k then bx_answers s k = [] else length (bx_answers s k) = 1"
    using calls_invD(2)[OF assms(1), of k] k by (simp_all add: view_ok_def split: if_splits)
  have own: "map_of (bx_pending s) i = (if is_pending s k then Some k else None)"
  proof (cases "map_of (bx_pending s) i")
    case (Some j)
    have "j = k" using pending_okD[OF p Some] v(1) k assms(3) id_inj[of j k] by simp
    then show ?thesis using Some v(1) by (simp add: is_pending_def)
  qed (use v(1) in \<open>simp add: is_pending_def\<close>)
  define as where "as = (case bc_kind (bx_calls s ! k) of
      WaitCall \<Rightarrow> (bx_answers s)(k := [Failed ExchangeClosed])
    | CallbackCall \<Rightarrow> (case map_of (bx_pending s) i of
        Some j \<Rightarrow> (bx_answers s)(j := bx_answers s j @ [Failed ExchangeClosed]) | None \<Rightarrow> bx_answers s))"
  have s': "s' = set_phase k (Rejected i) (s\<lparr>bx_pending := AList.delete i (bx_pending s), bx_answers := as\<rparr>)"
    using assms(2) i by (simp add: call_fail_def as_def)
  have as: "length (as k) = 1" "\<And>j. j \<noteq> k \<Longrightarrow> as j = bx_answers s j"
    using v(2) own by (auto simp: as_def split: call_kind.split if_splits)
  have pend: "is_pending s' j = (j \<noteq> k \<and> is_pending s j)" if "j < length (bx_calls s)" for j
    using that k v(1) assms(3) id_inj[of j k] by (simp add: s' is_pending_def delete_conv' del: of_nat_Suc)
  have "pending_ok s'" using p unfolding s' by (auto simp: pending_ok_def delete_conv' distinct_delete)
  then show ?thesis
    by (rule calls_inv_one[OF assms(1) conjunct1[OF k]]) (use k v(1) as pend in \<open>simp_all add: s' set_phase_phase view_ok_def\<close>)
qed

lemma calls_inv_deliver:
  assumes "calls_inv s" "length (bx_calls s) \<le> 2 ^ 64 - 1"
  shows "calls_inv (deliver_reply i body s)"
proof (cases "map_of (bx_pending s) i")
  case None
  then show ?thesis using assms by (simp add: deliver_reply_def)
next
  case (Some k)
  note p = calls_invD(1)[OF assms(1)]
  note k = pending_okD[OF p Some]
  let ?s = "deliver_reply i body s"
  have s': "?s = answer_call k (Replied body) (s\<lparr>bx_pending := AList.delete i (bx_pending s)\<rparr>)" using Some by (simp add: deliver_reply_def)
  have v: "view_ok k (bc_phase (bx_calls s ! k)) True (bx_answers s k) (bx_close s = CloseDone)"
    using calls_invD(2)[OF assms(1) k(1)] k(3) by simp
  have "view_ok k (bc_phase (bx_calls s ! k)) False (bx_answers s k @ [Replied body]) (bx_close s = CloseDone)"
    using v by (auto simp: view_ok_def split: call_phase.splits)
  moreover have pend: "is_pending ?s j = (j \<noteq> k \<and> is_pending s j)" if "j < length (bx_calls s)" for j
    using that k assms(2) id_inj[of j k] unfolding s' by (simp add: is_pending_def delete_conv' del: of_nat_Suc)
  moreover have "pending_ok ?s" using p unfolding s' by (auto simp: pending_ok_def delete_conv' distinct_delete)
  ultimately show ?thesis
    by (intro calls_inv_one[OF assms(1) k(1)]) (use k(1,3) in \<open>simp_all add: s'\<close>)
qed

lemma drained_once:
  assumes "distinct (map fst ps)" "\<And>i k. (i, k) \<in> set ps \<Longrightarrow> i = f k"
  shows "length (filter (\<lambda>p. snd p = j) ps) = (if map_of ps (f j) = Some j then 1 else 0)"
  using assms
proof (induction ps)
  case (Cons p ps)
  obtain i k where p: "p = (i, k)" by (cases p)
  have ik: "i = f k" using Cons.prems(2)[of i k] p by simp
  have IH: "length (filter (\<lambda>p. snd p = j) ps) = (if map_of ps (f j) = Some j then 1 else 0)" using Cons by simp
  have "map_of ps (f j) = None" if "f j = i" using Cons.prems(1) that p by (auto simp: map_of_eq_None_iff)
  then show ?case using IH ik p by (auto split: if_splits)
qed simp

lemma calls_inv_drain:
  assumes "calls_inv s" "bx_close s = CloseWoken"
  shows "calls_inv ((drain_pending s)\<lparr>bx_close := CloseDone\<rparr>)"
proof -
  let ?s = "(drain_pending s)\<lparr>bx_close := CloseDone\<rparr>"
  note p = calls_invD(1)[OF assms(1)]
  have ans: "bx_answers ?s j = bx_answers s j @ (if is_pending s j then [Failed ExchangeClosed] else [])" for j
  proof -
    have "length (filter (\<lambda>p. snd p = j) (bx_pending s)) = (if map_of (bx_pending s) (word_of_nat (Suc j)) = Some j then 1 else 0)"
      using p by (intro drained_once) (auto simp: pending_ok_def map_of_is_SomeI)
    then show ?thesis by (simp add: drain_pending_eq is_pending_def)
  qed
  have pend: "\<not> is_pending ?s j" for j by (simp add: drain_pending_eq is_pending_def)
  have view: "view_ok j (bc_phase (bx_calls ?s ! j)) (is_pending ?s j) (bx_answers ?s j) (bx_close ?s = CloseDone)"
    if "j < length (bx_calls ?s)" for j
  proof -
    have "view_ok j (bc_phase (bx_calls s ! j)) (is_pending s j) (bx_answers s j) (bx_close s = CloseDone)"
      using that calls_invD(2)[OF assms(1), of j] by (simp add: drain_pending_eq)
    moreover have "bx_calls ?s = bx_calls s" by (simp add: drain_pending_eq)
    ultimately show ?thesis using ans[of j] pend[of j] by (auto simp: view_ok_def split: call_phase.splits if_splits)
  qed
  have "pending_ok ?s" using p assms(2) by (simp add: pending_ok_def drain_pending_eq)
  moreover have "j < length (bx_calls ?s)" if "bx_answers ?s j \<noteq> []" for j
    using that ans[of j] calls_invD(3)[OF assms(1), of j] pending_okD(1)[OF p, of _ j]
    by (auto simp: drain_pending_eq is_pending_def split: if_splits)
  ultimately show ?thesis using view unfolding calls_inv_def by blast
qed

lemma calls_inv_close:
  assumes "calls_inv s" "close_step s = Some s'"
  shows "calls_inv s'"
proof (cases "bx_close s")
  case CloseWoken
  then show ?thesis using assms calls_inv_drain[OF assms(1)] by (simp add: close_step_def)
qed (use assms in \<open>auto simp: close_step_def calls_inv_def pending_ok_def is_pending_def\<close>)

lemma take_client:
  "take_control s = Some s' \<Longrightarrow> bx_next s' = bx_next s \<and> bx_calls s' = bx_calls s \<and> bx_pending s' = bx_pending s \<and>
     bx_answers s' = bx_answers s \<and> bx_close s' = bx_close s \<and> bx_closed s' = bx_closed s"
  "take_data s = Some s' \<Longrightarrow> bx_next s' = bx_next s \<and> bx_calls s' = bx_calls s \<and> bx_pending s' = bx_pending s \<and>
     bx_answers s' = bx_answers s \<and> bx_close s' = bx_close s \<and> bx_closed s' = bx_closed s"
  by (auto simp: take_control_def take_data_def split: list.splits)

lemma recv_step_client:
  assumes "recv_step s = Some s'"
  shows "bx_next s' = bx_next s \<and> bx_calls s' = bx_calls s \<and> bx_pending s' = bx_pending s \<and>
     bx_answers s' = bx_answers s \<and> bx_close s' = bx_close s \<and> bx_closed s' = bx_closed s"
  using assms take_client[of s s'] by (cases "bx_recv s") (auto simp: recv_step_def split: option.splits nat.splits if_splits)

lemma calls_inv_step:
  assumes "calls_inv s" "bx_apply opn s = Some s'" "length (bx_calls s) < 2 ^ 64 - 1"
  shows "calls_inv s'"
proof (cases opn)
  case (PostPush m)
  then have s': "s' = post_push m s" using assms(2) by (simp split: if_splits)
  show ?thesis unfolding s' by (rule calls_inv_same[OF assms(1)]) (simp_all add: post_push_def)
next
  case PostWake
  then show ?thesis using assms(2) by (auto simp: post_wake_def split: nat.splits intro: calls_inv_same[OF assms(1)])
next
  case (CallNumber kind body)
  then show ?thesis using assms calls_inv_number by (auto split: if_splits)
next
  case (CallCheck k)
  moreover have "bx_close s = CloseDone \<longrightarrow> bx_closed s" using calls_invD(1)[OF assms(1)] by (auto simp: pending_ok_def)
  ultimately show ?thesis using assms(2)
    by (auto simp: call_check_def view_ok_def split: option.splits call_phase.splits
        intro!: calls_inv_phase[OF assms(1)] calls_invD(1)[OF assms(1)])
next
  case (CallPush k)
  have "pending_ok (lane_push m s)" for m using calls_invD(1)[OF assms(1)] by (simp add: pending_ok_def)
  then show ?thesis using assms(2) CallPush calls_invD(1)[OF assms(1)]
    by (auto simp: call_push_def view_ok_def split: option.splits call_phase.splits if_splits intro!: calls_inv_phase[OF assms(1)])
next
  case (CallWake k)
  have "pending_ok (s\<lparr>bx_wake := w\<rparr>)" for w using calls_invD(1)[OF assms(1)] by (simp add: pending_ok_def)
  then show ?thesis using assms(2) CallWake
    by (auto simp: call_wake_def view_ok_def split: option.splits call_phase.splits if_splits intro!: calls_inv_phase[OF assms(1)])
next
  case SendersDrop
  then show ?thesis using assms(2) by (auto simp: senders_drop_def split: if_splits intro: calls_inv_same[OF assms(1)])
next
  case RecvStep
  then show ?thesis using recv_step_client[of s s'] assms(2) calls_inv_same[OF assms(1)] by auto
next
  case RecvDrop
  then show ?thesis using assms(2) by (auto simp: recv_drop_def intro: calls_inv_same[OF assms(1)])
qed (use assms calls_inv_register[OF assms(1), of _ s'] calls_inv_fail[OF assms(1), of _ s'] calls_inv_deliver[OF assms(1)]
    calls_inv_close[OF assms(1), of s'] in \<open>auto split: if_splits\<close>)

lemma calls_length_step: "bx_apply opn s = Some s' \<Longrightarrow> length (bx_calls s') \<le> Suc (length (bx_calls s))"
  using recv_step_client[of s s']
  by (cases opn) (auto simp: post_push_def post_wake_def call_number_def call_register_def call_check_def call_push_def call_wake_def
      call_fail_def Let_def deliver_reply_def close_step_def drain_pending_eq recv_drop_def senders_drop_def
      split: if_splits nat.splits option.splits call_phase.splits close_phase.splits)

lemma bx_reach_inv:
  assumes "bx_reach cc dc n s" "n < 2 ^ 64"
  shows "calls_inv s \<and> length (bx_calls s) \<le> n"
  using assms
proof (induction rule: bx_reach.induct)
  case bx_init
  then show ?case by (simp add: blocking_new_def calls_inv_def pending_ok_def)
next
  case (bx_step n s opn s')
  then show ?case using calls_inv_step[of s opn s'] calls_length_step[of opn s s'] by simp
qed

section \<open>Order\<close>

lemma lane_view_same:
  "bx_control s' = bx_control s \<Longrightarrow> bx_data s' = bx_data s \<Longrightarrow> bx_taken_control s' = bx_taken_control s \<Longrightarrow>
     bx_taken_data s' = bx_taken_data s \<Longrightarrow> lane_view s' x = lane_view s x"
  by (simp add: lane_view_def split: lane.split)

lemma lane_view_push: "lane_view (lane_push m s) x = lane_view s x @ (if message_lane m = x then [m] else [])"
  by (cases x) (simp_all add: lane_view_def)

lemma lane_view_set_phase [simp]: "lane_view (set_phase k ph s) x = lane_view s x"
  by (rule lane_view_same) simp_all

lemma lane_view_updates [simp]:
  "lane_view (s\<lparr>bx_recv := r\<rparr>) x = lane_view s x" "lane_view (s\<lparr>bx_waking := w\<rparr>) x = lane_view s x"
  "lane_view (s\<lparr>bx_closed := c\<rparr>) x = lane_view s x" "lane_view (s\<lparr>bx_wake := w\<rparr>) x = lane_view s x"
  by (rule lane_view_same; simp)+

lemma lane_view_recv:
  assumes "recv_step s = Some s'"
  shows "lane_view s' x = lane_view s x"
proof -
  have "lane_view t x = lane_view s x" if "take_control s = Some t \<or> take_data s = Some t" for t
    using that by (cases x) (auto simp: take_control_def take_data_def lane_view_def split: list.splits)
  then show ?thesis using assms
    by (cases "bx_recv s") (auto simp: recv_step_def split: option.splits nat.splits if_splits)
qed

lemma lane_view_step:
  assumes "lane_step s l s'"
  shows "lane_view s' x = lane_view s x @ (case l of Some (y, m) \<Rightarrow> if y = x then [m] else [] | None \<Rightarrow> [])"
  using assms
proof cases
  case (lane_step opn)
  show ?thesis
  proof (cases opn)
    case (PostPush m)
    then show ?thesis using lane_step PostPush by (auto simp: post_push_def bx_label_def lane_view_push split: if_splits)
  next
    case (CallPush k)
    then show ?thesis using lane_step
      by (auto simp: call_push_def bx_label_def lane_view_push split: option.splits call_phase.splits if_splits)
  next
    case RecvStep
    then show ?thesis using lane_step lane_view_recv by (simp add: bx_label_def)
  qed (use lane_step in \<open>auto simp: bx_label_def post_wake_def call_number_def call_register_def call_check_def call_wake_def call_fail_def
      Let_def deliver_reply_def close_step_def drain_pending_eq recv_drop_def senders_drop_def
      intro!: lane_view_same split: if_splits nat.splits option.splits call_phase.splits close_phase.splits\<close>)
qed

interpretation lanes: message_queues "\<lambda>s. True" lane_view lane_step
  by unfold_locales (simp_all add: lane_view_step)

end
