(* ===== verification/Exchange_Router.thy ===== *)
theory Exchange_Router
  imports Exchange
begin

text \<open>
  What a router does with the messages of a connection: every pending call gets one answer, and a
  download gets its chunks, all of them, in order and within its limit.
\<close>

definition calls_of :: "pendings \<Rightarrow> nat set" where
  "calls_of ps = pending_call ` ran ps"

definition calls_distinct :: "pendings \<Rightarrow> bool" where
  "calls_distinct ps = (\<forall>i j p q. ps i = Some p \<longrightarrow> ps j = Some q \<longrightarrow> pending_call p = pending_call q \<longrightarrow> i = j)"

definition answers_to :: "nat \<Rightarrow> (nat \<times> 'r answer) list \<Rightarrow> 'r answer list" where
  "answers_to k out = map snd (filter (\<lambda>a. fst a = k) out)"

definition enumerates :: "(pendings \<Rightarrow> request_id list) \<Rightarrow> bool" where
  "enumerates order = (\<forall>ps. distinct (order ps) \<and> set (order ps) = dom ps)"

lemma answers_to_simps [simp]:
  "answers_to k [] = []" "answers_to k (xs @ ys) = answers_to k xs @ answers_to k ys"
  "answers_to k ((j, a) # xs) = (if j = k then [a] else []) @ answers_to k xs"
  by (simp_all add: answers_to_def)

lemma calls_ofI: "ps i = Some p \<Longrightarrow> pending_call p \<in> calls_of ps"
  by (auto simp: calls_of_def ran_def)

lemma calls_of_iff: "k \<in> calls_of ps \<longleftrightarrow> (\<exists>i p. ps i = Some p \<and> pending_call p = k)"
  by (auto simp: calls_of_def ran_def)

lemma calls_ofE:
  assumes "k \<in> calls_of ps"
  obtains i p where "ps i = Some p" "pending_call p = k"
  using assms by (auto simp: calls_of_def ran_def)

lemma calls_distinctD: "calls_distinct ps \<Longrightarrow> ps i = Some p \<Longrightarrow> ps j = Some q \<Longrightarrow> pending_call p = pending_call q \<Longrightarrow> i = j"
  unfolding calls_distinct_def by blast

section \<open>Failing\<close>

lemma failed_answers:
  assumes "distinct order" "calls_distinct ps"
  shows "answers_to k (map (\<lambda>p. (pending_call p, Failed ExchangeClosed)) (List.map_filter ps order)) =
    (if \<exists>i \<in> set order. \<exists>p. ps i = Some p \<and> pending_call p = k then [Failed ExchangeClosed] else [])"
  using assms(1)
proof (induction order)
  case (Cons i order)
  show ?case
  proof (cases "ps i")
    case None
    then show ?thesis using Cons by (simp add: List.map_filter_simps)
  next
    case (Some p)
    show ?thesis
    proof (cases "pending_call p = k")
      case True
      have "\<not> (\<exists>j \<in> set order. \<exists>q. ps j = Some q \<and> pending_call q = k)"
        using calls_distinctD[OF assms(2) Some] True Cons.prems by auto
      then show ?thesis using Cons Some True by (auto simp: List.map_filter_simps)
    next
      case False
      then show ?thesis using Cons Some by (auto simp: List.map_filter_simps)
    qed
  qed
qed (simp add: List.map_filter_simps)

lemma fail_pending_answers:
  assumes "enumerates order" "calls_distinct ps" "fail_pending (order ps) ps = (ps', out)"
  shows "ps' = (\<lambda>_. None)" "answers_to k out = (if k \<in> calls_of ps then [Failed ExchangeClosed] else [])"
proof -
  have o: "distinct (order ps)" "set (order ps) = dom ps" using assms(1) by (auto simp: enumerates_def)
  have "(\<exists>i \<in> set (order ps). \<exists>p. ps i = Some p \<and> pending_call p = k) \<longleftrightarrow> k \<in> calls_of ps"
    using o(2) by (auto simp: calls_of_def ran_def)
  then show "answers_to k out = (if k \<in> calls_of ps then [Failed ExchangeClosed] else [])"
    using assms(3) failed_answers[OF o(1) assms(2), of k] by (auto simp: fail_pending_def)
  show "ps' = (\<lambda>_. None)" using assms(3) by (simp add: fail_pending_def)
qed

lemma router_close_answers:
  assumes "enumerates order" "calls_distinct (rt_pending rt)" "router_close (order (rt_pending rt)) rt = (rt', out)"
  shows "rt_pending rt' = (\<lambda>_. None)" "answers_to k out = (if k \<in> calls_of (rt_pending rt) then [Failed ExchangeClosed] else [])"
  using assms(3) fail_pending_answers[OF assms(1,2), of _ out] by (auto simp: router_close_def split: prod.splits)

section \<open>One message\<close>

lemma send_server_pending: "send_server srv inp rt = (e, rt') \<Longrightarrow> rt_pending rt' = rt_pending rt"
  by (auto simp: send_server_def split: prod.splits)

text \<open>A message leaves the pending calls as they are, answers one, or adds to the buffer of a download.\<close>

lemma route_pending:
  assumes "route srv sub m rt = (e, rt', out)"
  shows "(\<exists>i body. m = MReply i body \<and> route_reply i body (rt_pending rt) = (rt_pending rt', out) \<and> e = None) \<or>
    (\<exists>i bs. m = MResponseChunk i bs \<and> out = [] \<and>
       (case route_chunk i bs (rt_pending rt) of
          Inl err \<Rightarrow> e = Some err \<and> rt_pending rt' = rt_pending rt
        | Inr ps \<Rightarrow> e = None \<and> rt_pending rt' = ps)) \<or>
    (\<forall>i body bs. m \<noteq> MReply i body \<and> m \<noteq> MResponseChunk i bs) \<and> out = [] \<and> rt_pending rt' = rt_pending rt"
proof (cases m)
  case (MNotify notice)
  then show ?thesis using assms send_server_pending[of srv "SNotify notice"]
    by (fastforce simp: route_def Let_def split: prod.splits option.splits if_splits)
qed (use assms send_server_pending in \<open>force simp: route_def Let_def split: prod.splits sum.splits\<close>)+

text \<open>The books balance: a call that leaves the pending ones is answered once.\<close>

definition balanced :: "pendings \<Rightarrow> pendings \<Rightarrow> (nat \<times> 'r answer) list \<Rightarrow> bool" where
  "balanced ps ps' out = (\<forall>k. length (answers_to k out) + of_bool (k \<in> calls_of ps') = of_bool (k \<in> calls_of ps))"

lemma calls_of_delete:
  assumes "calls_distinct ps" "ps i = Some p"
  shows "calls_distinct (ps(i := None))" "calls_of (ps(i := None)) = calls_of ps - {pending_call p}"
proof -
  show "calls_distinct (ps(i := None))" using assms(1) by (auto simp: calls_distinct_def)
  show "calls_of (ps(i := None)) = calls_of ps - {pending_call p}"
  proof (rule set_eqI)
    fix k
    have "pending_call q \<noteq> pending_call p" if "ps j = Some q" "j \<noteq> i" for j q
      using calls_distinctD[OF assms(1) that(1) assms(2)] that(2) by auto
    moreover have "j \<noteq> i" if "ps j = Some q" "pending_call q \<noteq> pending_call p" for j q using that assms(2) by auto
    ultimately show "k \<in> calls_of (ps(i := None)) \<longleftrightarrow> k \<in> calls_of ps - {pending_call p}"
      unfolding calls_of_iff Diff_iff by (simp split: if_split) metis
  qed
qed

lemma calls_of_update:
  assumes "calls_distinct ps" "ps i = Some p" "pending_call q = pending_call p"
  shows "calls_distinct (ps(i \<mapsto> q))" "calls_of (ps(i \<mapsto> q)) = calls_of ps"
proof -
  have *: "(\<exists>p'. (ps(i \<mapsto> q)) j = Some p' \<and> pending_call p' = k) \<longleftrightarrow> (\<exists>p'. ps j = Some p' \<and> pending_call p' = k)" for j k
    using assms(2,3) by (cases "j = i") simp_all
  have dist: "calls_distinct rs \<longleftrightarrow> (\<forall>i j k. (\<exists>p. rs i = Some p \<and> pending_call p = k) \<longrightarrow> (\<exists>p. rs j = Some p \<and> pending_call p = k) \<longrightarrow> i = j)" for rs
    unfolding calls_distinct_def by blast
  show "calls_distinct (ps(i \<mapsto> q))" using assms(1) by (simp only: dist *)
  show "calls_of (ps(i \<mapsto> q)) = calls_of ps" unfolding set_eq_iff calls_of_iff * by blast
qed

lemma route_reply_balanced:
  assumes "calls_distinct ps" "route_reply i body ps = (ps', out)"
  shows "calls_distinct ps' \<and> balanced ps ps' out"
proof (cases "ps i")
  case None
  then show ?thesis using assms by (simp add: route_reply_def balanced_def)
next
  case (Some p)
  note d = calls_of_delete[OF assms(1) Some]
  have "ps' = ps(i := None)" "length (answers_to k out) = of_bool (k = pending_call p)" for k
    using assms(2) Some by (auto simp: route_reply_def split: pending.splits)
  then show ?thesis using d calls_ofI[of ps i p] Some by (auto simp: balanced_def)
qed

lemma route_balanced:
  assumes "calls_distinct (rt_pending rt)" "route srv sub m rt = (e, rt', out)"
  shows "calls_distinct (rt_pending rt') \<and> balanced (rt_pending rt) (rt_pending rt') out"
  using route_pending[OF assms(2)]
proof (elim disjE exE conjE)
  fix i body assume "route_reply i body (rt_pending rt) = (rt_pending rt', out)"
  then show ?thesis by (rule route_reply_balanced[OF assms(1)])
next
  fix i bs
  assume out: "out = []" and c: "case route_chunk i bs (rt_pending rt) of Inl err \<Rightarrow> e = Some err \<and> rt_pending rt' = rt_pending rt
    | Inr ps \<Rightarrow> e = None \<and> rt_pending rt' = ps"
  show ?thesis
  proof (cases "rt_pending rt i")
    case None
    then show ?thesis using c out assms(1) by (simp add: route_chunk_def balanced_def)
  next
    case (Some p)
    then show ?thesis using c out assms(1) calls_of_update[OF assms(1) Some]
      by (cases p) (auto simp: route_chunk_def balanced_def split: if_splits)
  qed
qed (use assms(1) in \<open>simp add: balanced_def\<close>)

lemma route_all_answers:
  assumes "enumerates order" "calls_distinct (rt_pending rt)" "route_all srv sub order ms rt = (rt', out)"
  shows "rt_pending rt' = (\<lambda>_. None) \<and> length (answers_to k out) = of_bool (k \<in> calls_of (rt_pending rt))"
  using assms(2,3)
proof (induction ms arbitrary: rt rt' out)
  case Nil
  then show ?case using router_close_answers[OF assms(1) Nil(1), of rt' out] by auto
next
  case (Cons m ms)
  obtain e rt1 out1 where r: "route srv sub m rt = (e, rt1, out1)" by (cases "route srv sub m rt") auto
  note b = route_balanced[OF Cons.prems(1) r]
  obtain rt2 out2 where 2: "(case e of None \<Rightarrow> route_all srv sub order ms rt1 | Some err \<Rightarrow> router_close (order (rt_pending rt1)) rt1) = (rt2, out2)"
    "rt' = rt2" "out = out1 @ out2"
    using Cons.prems(2) r by (cases e) (auto split: prod.splits)
  have "rt_pending rt2 = (\<lambda>_. None) \<and> length (answers_to k out2) = of_bool (k \<in> calls_of (rt_pending rt1))"
  proof (cases e)
    case None
    then show ?thesis using Cons.IH[of rt1 rt2 out2] 2(1) b by simp
  next
    case (Some err)
    then show ?thesis using router_close_answers[OF assms(1) conjunct1[OF b], of rt2 out2] 2(1) by auto
  qed
  then show ?case using b 2(2,3) by (auto simp: balanced_def)
qed

section \<open>Downloads\<close>

definition chunks_of :: "request_id \<Rightarrow> ('c, 'r, 'n) message list \<Rightarrow> bytes" where
  "chunks_of i ms = concat (map (\<lambda>m. case m of MResponseChunk j bs \<Rightarrow> if j = i then bs else [] | _ \<Rightarrow> []) ms)"

lemma answers_to_in: "(k, a) \<in> set out \<longleftrightarrow> a \<in> set (answers_to k out)"
  by (force simp: answers_to_def)

text \<open>A message that is routed without an error and is not the reply of a download adds its chunk to the download.\<close>

lemma route_download:
  assumes "calls_distinct (rt_pending rt)" "route srv sub m rt = (e, rt', out)" "rt_pending rt i = Some (Download buf l k)"
    "\<forall>body. m \<noteq> MReply i body" "length buf \<le> l" "l < usize_max"
  shows "answers_to k out = [] \<and>
    (e = None \<longrightarrow> rt_pending rt' i = Some (Download (buf @ chunks_of i [m]) l k) \<and> length (buf @ chunks_of i [m]) \<le> l)"
  using route_pending[OF assms(2)]
proof (elim disjE exE conjE)
  fix j body assume m: "m = MReply j body" and r: "route_reply j body (rt_pending rt) = (rt_pending rt', out)"
  have "j \<noteq> i" using m assms(4) by auto
  moreover have "pending_call p \<noteq> k" if "rt_pending rt j = Some p" for p
    using calls_distinctD[OF assms(1) that assms(3)] \<open>j \<noteq> i\<close> by auto
  moreover have "rt_pending rt' = fst (route_reply j body (rt_pending rt))" "out = snd (route_reply j body (rt_pending rt))"
    using r by simp_all
  ultimately show ?thesis using assms(3,5) m
    by (auto simp: route_reply_def chunks_of_def split: option.splits pending.splits)
next
  fix j bs assume m: "m = MResponseChunk j bs" and out: "out = []"
    and c: "case route_chunk j bs (rt_pending rt) of Inl err \<Rightarrow> e = Some err \<and> rt_pending rt' = rt_pending rt
      | Inr ps \<Rightarrow> e = None \<and> rt_pending rt' = ps"
  show ?thesis
  proof (cases "j = i")
    case True
    then show ?thesis using c out m assms(3,6) by (auto simp: route_chunk_def chunks_of_def split: if_splits)
  next
    case False
    then show ?thesis using c out m assms(3,5)
      by (auto simp: route_chunk_def chunks_of_def split: option.splits pending.splits if_splits)
  qed
next
  assume o: "\<forall>i body bs. m \<noteq> MReply i body \<and> m \<noteq> MResponseChunk i bs" "out = []" "rt_pending rt' = rt_pending rt"
  then have "chunks_of i [m] = []" by (cases m) (auto simp: chunks_of_def)
  then show ?thesis using o assms(3,5) by simp
qed

lemma route_all_download:
  assumes "enumerates order" "calls_distinct (rt_pending rt)" "route_all srv sub order ms rt = (rt', out)"
    "rt_pending rt i = Some (Download buf l k)" "length buf \<le> l" "l < usize_max" "(k, Downloaded body bs) \<in> set out"
  shows "\<exists>ms1 ms2. ms = ms1 @ MReply i body # ms2 \<and> (\<forall>b. MReply i b \<notin> set ms1) \<and> bs = buf @ chunks_of i ms1 \<and> length bs \<le> l"
  using assms(2-5,7)
proof (induction ms arbitrary: rt rt' out buf)
  case Nil
  then show ?case using router_close_answers(2)[OF assms(1) Nil(1), of rt' out k] by (auto simp: answers_to_in split: if_splits)
next
  case (Cons m ms)
  obtain e rt1 out1 where r: "route srv sub m rt = (e, rt1, out1)" by (cases "route srv sub m rt") auto
  note b = route_balanced[OF Cons.prems(1) r]
  obtain rt2 out2 where 2: "(case e of None \<Rightarrow> route_all srv sub order ms rt1 | Some err \<Rightarrow> router_close (order (rt_pending rt1)) rt1) = (rt2, out2)"
    "rt' = rt2" "out = out1 @ out2"
    using Cons.prems(2) r by (cases e) (auto split: prod.splits)
  show ?case
  proof (cases "\<exists>b. m = MReply i b")
    case True
    then obtain b where m: "m = MReply i b" ..
    have o: "e = None" "out1 = [(k, Downloaded b buf)]" "rt_pending rt1 = (rt_pending rt)(i := None)"
      using r m Cons.prems(3) by (auto simp: route_def route_reply_def)
    have "k \<notin> calls_of (rt_pending rt1)" using calls_of_delete[OF Cons.prems(1,3)] o(3) by simp
    then have "answers_to k out2 = []" using route_all_answers[OF assms(1) conjunct1[OF b], of srv sub ms rt2 out2 k] 2(1) o(1) by simp
    then have "body = b" "bs = buf" using Cons.prems(5) 2(3) o(2) by (auto simp: answers_to_in)
    then show ?thesis using m Cons.prems(4) by (intro exI[of _ "[]"] exI[of _ ms]) (simp add: chunks_of_def)
  next
    case False
    note d = route_download[OF Cons.prems(1) r Cons.prems(3) _ Cons.prems(4) assms(6)]
    have in2: "(k, Downloaded body bs) \<in> set out2" using Cons.prems(5) 2(3) d False by (auto simp: answers_to_in)
    have e: "e = None"
    proof (rule ccontr)
      assume "e \<noteq> None"
      then show False using router_close_answers(2)[OF assms(1) conjunct1[OF b], of rt2 out2 k] 2(1) in2
        by (auto simp: answers_to_in split: if_splits)
    qed
    obtain ms1 ms2 where IH: "ms = ms1 @ MReply i body # ms2" "\<forall>b. MReply i b \<notin> set ms1" "bs = (buf @ chunks_of i [m]) @ chunks_of i ms1" "length bs \<le> l"
      using Cons.IH[OF conjunct1[OF b], of rt2 out2 "buf @ chunks_of i [m]"] d False e 2(1) in2 by auto
    then show ?thesis using False by (intro exI[of _ "m # ms1"] exI[of _ ms2]) (auto simp: chunks_of_def)
  qed
qed

end
