(* ===== verification/Exchange_Client.thy ===== *)
theory Exchange_Client
  imports Exchange "HOL-Library.AList"
begin

text \<open>
  The asynchronous client of \<open>exchange.rs\<close>, \<open>Client\<close> with \<open>CancelOnDrop\<close> and the task of \<open>bind\<close>, as interleavings of the
  callers and the router task. Each access to the pending map, the counter or the closed flag is one
  operation. Whether the outgoing channel of \<open>tokio\<close> grants a permit is the environment's choice.
\<close>

section \<open>State\<close>

datatype async_phase =
    AReserved
  | ANumbered request_id
  | ARegistered request_id
  | AWaiting request_id
  | ARefused
  | ADropped

text \<open>A call keeps its phase and the limit of its download, if it is one.\<close>

datatype router_phase = Routing | Failing | Closing | Ended

record ('c, 'r) ac =
  ac_closed :: bool
  ac_next :: request_id
  ac_pending :: "(request_id \<times> pending) list"
  ac_calls :: "('c \<times> nat option \<times> async_phase) list"
  ac_sent :: "('c, unit, unit) message list"
  ac_answers :: "nat \<Rightarrow> 'r answer list"
  ac_router :: router_phase
  ac_server_closed :: bool

definition client_new :: "('c, 'r) ac" where
  "client_new =
     \<lparr> ac_closed = False, ac_next = 1, ac_pending = [], ac_calls = [], ac_sent = [], ac_answers = (\<lambda>k. []),
       ac_router = Routing, ac_server_closed = False \<rparr>"

definition async_phase_of :: "('c, 'r) ac \<Rightarrow> nat \<Rightarrow> async_phase option" where
  "async_phase_of s k = (if k < length (ac_calls s) then Some (snd (snd (ac_calls s ! k))) else None)"

definition set_async :: "nat \<Rightarrow> async_phase \<Rightarrow> ('c, 'r) ac \<Rightarrow> ('c, 'r) ac" where
  "set_async k ph s =
     s\<lparr>ac_calls := (ac_calls s)[k := (fst (ac_calls s ! k), fst (snd (ac_calls s ! k)), ph)]\<rparr>"

definition send_answers :: "(nat \<times> 'r answer) list \<Rightarrow> ('c, 'r) ac \<Rightarrow> ('c, 'r) ac" where
  "send_answers out s = s\<lparr>ac_answers := fold (\<lambda>(k, a) f. f(k := f k @ [a])) out (ac_answers s)\<rparr>"

section \<open>A call\<close>

text \<open>\<open>Client::start_call\<close>: \<open>reserve\<close> refuses when the flag is set, and otherwise waits for a permit.\<close>

definition call_reserve :: "'c \<Rightarrow> nat option \<Rightarrow> ('c, 'r) ac \<Rightarrow> ('c, 'r) ac" where
  "call_reserve body limit s =
     s\<lparr>ac_calls := ac_calls s @ [(body, limit, if ac_closed s then ARefused else AReserved)]\<rparr>"

definition call_next_id :: "nat \<Rightarrow> ('c, 'r) ac \<Rightarrow> ('c, 'r) ac option" where
  "call_next_id k s =
     (case async_phase_of s k of
        Some AReserved \<Rightarrow> Some (set_async k (ANumbered (ac_next s)) (s\<lparr>ac_next := ac_next s + 1\<rparr>))
      | _ \<Rightarrow> None)"

text \<open>A pending call that the insertion replaces loses its sender, which its caller sees as closed.\<close>

definition call_insert :: "nat \<Rightarrow> ('c, 'r) ac \<Rightarrow> ('c, 'r) ac option" where
  "call_insert k s =
     (case async_phase_of s k of
        Some (ANumbered i) \<Rightarrow>
          (let p = (case fst (snd (ac_calls s ! k)) of None \<Rightarrow> Unary k | Some l \<Rightarrow> Download [] l k);
               out = (case map_of (ac_pending s) i of
                        Some q \<Rightarrow> [(pending_call q, Failed ExchangeClosed)]
                      | None \<Rightarrow> [])
           in Some (set_async k (ARegistered i) (send_answers out (s\<lparr>ac_pending := AList.update i p (ac_pending s)\<rparr>))))
      | _ \<Rightarrow> None)"

definition call_permit_send :: "nat \<Rightarrow> ('c, 'r) ac \<Rightarrow> ('c, 'r) ac option" where
  "call_permit_send k s =
     (case async_phase_of s k of
        Some (ARegistered i) \<Rightarrow> Some (set_async k (AWaiting i) (s\<lparr>ac_sent := ac_sent s @ [MCall i (fst (ac_calls s ! k))]\<rparr>))
      | _ \<Rightarrow> None)"

text \<open>\<open>CancelOnDrop\<close>: a caller that goes away before its answer removes the pending call and cancels it.\<close>

definition call_drop :: "nat \<Rightarrow> ('c, 'r) ac \<Rightarrow> ('c, 'r) ac option" where
  "call_drop k s =
     (case async_phase_of s k of
        Some (AWaiting i) \<Rightarrow>
          Some (set_async k ADropped
            (s\<lparr>ac_pending := AList.delete i (ac_pending s),
               ac_sent := (if ac_closed s then ac_sent s else ac_sent s @ [MCancel i])\<rparr>))
      | _ \<Rightarrow> None)"

section \<open>The router task\<close>

text \<open>Replies and chunks go to the pending calls, by the definitions for a single message. A chunk that is refused ends the
  loop.\<close>

definition rebuild :: "(request_id \<times> pending) list \<Rightarrow> pendings \<Rightarrow> (request_id \<times> pending) list" where
  "rebuild al ps = List.map_filter (\<lambda>(i, p). map_option (Pair i) (ps i)) al"

definition async_reply :: "request_id \<Rightarrow> 'r \<Rightarrow> ('c, 'r) ac \<Rightarrow> ('c, 'r) ac option" where
  "async_reply i body s =
     (if ac_router s \<noteq> Routing then None
      else (let (ps, out) = route_reply i body (map_of (ac_pending s))
            in Some (send_answers out (s\<lparr>ac_pending := rebuild (ac_pending s) ps\<rparr>))))"

definition async_chunk :: "request_id \<Rightarrow> bytes \<Rightarrow> ('c, 'r) ac \<Rightarrow> ('c, 'r) ac option" where
  "async_chunk i bs s =
     (if ac_router s \<noteq> Routing then None
      else (case route_chunk i bs (map_of (ac_pending s)) of
              Inl e \<Rightarrow> Some (s\<lparr>ac_router := Failing\<rparr>)
            | Inr ps \<Rightarrow> Some (s\<lparr>ac_pending := rebuild (ac_pending s) ps\<rparr>)))"

text \<open>The end of the loop in \<open>bind\<close>: \<open>fail_pending\<close>, then the server input, then the flag. The loop also ends when the peer is
  gone or another message is refused.\<close>

definition async_peer_gone :: "('c, 'r) ac \<Rightarrow> ('c, 'r) ac option" where
  "async_peer_gone s = (if ac_router s = Routing then Some (s\<lparr>ac_router := Failing\<rparr>) else None)"

definition async_close :: "('c, 'r) ac \<Rightarrow> ('c, 'r) ac option" where
  "async_close s =
     (case ac_router s of
        Routing \<Rightarrow> None
      | Failing \<Rightarrow>
          (let (ps, out) = fail_pending (map fst (ac_pending s)) (map_of (ac_pending s))
           in Some (send_answers out (s\<lparr>ac_pending := [], ac_server_closed := True, ac_router := Closing\<rparr>)))
      | Closing \<Rightarrow> Some (s\<lparr>ac_closed := True, ac_router := Ended\<rparr>)
      | Ended \<Rightarrow> None)"

section \<open>Runs\<close>

datatype ('c, 'r) ac_op =
    ACall 'c "nat option"
  | ANextId nat
  | AInsert nat
  | APermitSend nat
  | ADrop nat
  | AReply request_id 'r
  | AChunk request_id bytes
  | APeerGone
  | AClose

fun ac_apply :: "('c, 'r) ac_op \<Rightarrow> ('c, 'r) ac \<Rightarrow> ('c, 'r) ac option" where
  "ac_apply (ACall body limit) s = Some (call_reserve body limit s)"
| "ac_apply (ANextId k) s = call_next_id k s"
| "ac_apply (AInsert k) s = call_insert k s"
| "ac_apply (APermitSend k) s = call_permit_send k s"
| "ac_apply (ADrop k) s = call_drop k s"
| "ac_apply (AReply i body) s = async_reply i body s"
| "ac_apply (AChunk i bs) s = async_chunk i bs s"
| "ac_apply APeerGone s = async_peer_gone s"
| "ac_apply AClose s = async_close s"

fun ac_run :: "('c, 'r) ac_op list \<Rightarrow> ('c, 'r) ac \<Rightarrow> ('c, 'r) ac option" where
  "ac_run [] s = Some s"
| "ac_run (opn # ops) s = Option.bind (ac_apply opn s) (ac_run ops)"

end
