(* ===== verification/Exchange_Client_Inv.thy ===== *)
theory Exchange_Client_Inv
  imports Exchange_Client
begin

text \<open>
  The invariant of the asynchronous client over all interleavings: identifiers belong to one call each, a pending
  entry belongs to a call that has registered, and a call that has not registered has no answer. After the router task
  has failed the pending calls no answer is sent any more.
\<close>

section \<open>Phases and identifiers\<close>

text \<open>A call that has its permit and is not yet in the map.\<close>

fun registering :: "async_phase \<Rightarrow> bool" where
  "registering AReserved = True"
| "registering (ANumbered i) = True"
| "registering _ = False"

fun phase_id :: "async_phase \<Rightarrow> request_id option" where
  "phase_id (ANumbered i) = Some i"
| "phase_id (ARegistered i) = Some i"
| "phase_id (AWaiting i) = Some i"
| "phase_id _ = None"

definition call_id :: "('c, 'r) ac \<Rightarrow> nat \<Rightarrow> request_id option" where
  "call_id s k = Option.bind (async_phase_of s k) phase_id"

definition in_map :: "('c, 'r) ac \<Rightarrow> nat \<Rightarrow> request_id \<Rightarrow> bool" where
  "in_map s k i \<longleftrightarrow> async_phase_of s k = Some (ARegistered i) \<or> async_phase_of s k = Some (AWaiting i)"

lemma phase_set_async:
  "async_phase_of (set_async k ph s) k' = (if k' = k \<and> k < length (ac_calls s) then Some ph else async_phase_of s k')"
  by (simp add: async_phase_of_def set_async_def nth_list_update)

lemma phase_cong: "ac_calls t = ac_calls s \<Longrightarrow> async_phase_of t = async_phase_of s"
  by (auto simp: async_phase_of_def)

lemma phase_bound: "async_phase_of s k = Some ph \<Longrightarrow> k < length (ac_calls s)"
  by (simp add: async_phase_of_def split: if_splits)

lemma set_async_fields [simp]:
  "ac_answers (set_async k ph s) = ac_answers s" "ac_pending (set_async k ph s) = ac_pending s"
  "ac_next (set_async k ph s) = ac_next s" "ac_router (set_async k ph s) = ac_router s"
  by (simp_all add: set_async_def)

lemma send_answers_fields [simp]:
  "ac_calls (send_answers out s) = ac_calls s" "ac_pending (send_answers out s) = ac_pending s"
  "ac_next (send_answers out s) = ac_next s" "ac_router (send_answers out s) = ac_router s"
  by (simp_all add: send_answers_def)

lemma send_answers_other: "k \<notin> fst ` set out \<Longrightarrow> ac_answers (send_answers out s) k = ac_answers s k"
proof -
  have "k \<notin> fst ` set out \<Longrightarrow> fold (\<lambda>(k, a) f. f(k := f k @ [a])) out f k = f k" for f :: "nat \<Rightarrow> 'a answer list"
    by (induction out arbitrary: f) (auto simp: case_prod_beta)
  then show "k \<notin> fst ` set out \<Longrightarrow> ac_answers (send_answers out s) k = ac_answers s k" by (simp add: send_answers_def)
qed

lemma send_answers_Nil [simp]: "send_answers [] s = s"
  by (simp add: send_answers_def)

section \<open>The invariant\<close>

definition ids_ok :: "nat \<Rightarrow> ('c, 'r) ac \<Rightarrow> bool" where
  "ids_ok n s \<longleftrightarrow> (\<exists>m \<le> n. ac_next s = word_of_nat (Suc m) \<and> (\<forall>k i. call_id s k = Some i \<longrightarrow> unat i \<le> m))"

definition ids_unique :: "('c, 'r) ac \<Rightarrow> bool" where
  "ids_unique s \<longleftrightarrow> (\<forall>k k' i. call_id s k = Some i \<and> call_id s k' = Some i \<longrightarrow> k = k')"

definition map_ok :: "('c, 'r) ac \<Rightarrow> bool" where
  "map_ok s \<longleftrightarrow> (\<forall>i p. map_of (ac_pending s) i = Some p \<longrightarrow> in_map s (pending_call p) i)"

definition quiet :: "('c, 'r) ac \<Rightarrow> bool" where
  "quiet s \<longleftrightarrow> (\<forall>k. (case async_phase_of s k of None \<Rightarrow> True | Some ph \<Rightarrow> registering ph) \<longrightarrow> ac_answers s k = [])"

definition ac_inv :: "nat \<Rightarrow> ('c, 'r) ac \<Rightarrow> bool" where
  "ac_inv n s \<longleftrightarrow> ids_ok n s \<and> ids_unique s \<and> map_ok s \<and> quiet s"

lemma ac_inv_new: "ac_inv 0 client_new"
  by (simp add: ac_inv_def ids_ok_def ids_unique_def map_ok_def quiet_def client_new_def call_id_def async_phase_of_def)

text \<open>Steps that number no call.\<close>

lemma ids_same:
  assumes "ac_inv n s" "ac_next t = ac_next s" "\<And>k i. call_id t k = Some i \<Longrightarrow> call_id s k = Some i"
  shows "ids_ok (Suc n) t" "ids_unique t"
proof -
  obtain m where "m \<le> n" "ac_next s = word_of_nat (Suc m)" "\<And>k i. call_id s k = Some i \<Longrightarrow> unat i \<le> m"
    using assms(1) unfolding ac_inv_def ids_ok_def by blast
  then show "ids_ok (Suc n) t" unfolding ids_ok_def using assms(2,3) by (intro exI[of _ m]) auto
  show "ids_unique t" using assms(1,3) unfolding ac_inv_def ids_unique_def by blast
qed

subsection \<open>The router task\<close>

text \<open>It only takes entries out of the map or extends them, and answers calls that are in it.\<close>

lemma ac_inv_router:
  assumes inv: "ac_inv n s" and same: "ac_calls t = ac_calls s" "ac_next t = ac_next s"
    and ps: "\<And>i p. map_of (ac_pending t) i = Some p \<Longrightarrow> \<exists>p'. map_of (ac_pending s) i = Some p' \<and> pending_call p' = pending_call p"
    and ans: "\<And>k. (\<forall>i. \<not> in_map s k i) \<Longrightarrow> ac_answers t k = ac_answers s k"
  shows "ac_inv (Suc n) t"
proof -
  have ph: "async_phase_of t = async_phase_of s" using phase_cong[OF same(1)] .
  have "ids_ok (Suc n) t" "ids_unique t" using ids_same[OF inv same(2)] by (simp_all add: call_id_def ph)
  moreover have "map_ok t" using inv ps unfolding ac_inv_def map_ok_def in_map_def ph by metis
  moreover have "quiet t" unfolding quiet_def ph
  proof (intro allI impI)
    fix k assume k: "case async_phase_of s k of None \<Rightarrow> True | Some ph \<Rightarrow> registering ph"
    then have "\<forall>i. \<not> in_map s k i" by (auto simp: in_map_def split: option.splits)
    then show "ac_answers t k = []" using ans k inv unfolding ac_inv_def quiet_def by metis
  qed
  ultimately show ?thesis by (simp add: ac_inv_def)
qed

lemma rebuild_entries: "map_of (rebuild al ps) i = Some p \<Longrightarrow> ps i = Some p"
  by (drule map_of_SomeD) (auto simp: rebuild_def List.map_filter_def)

lemma route_reply_entries:
  assumes "route_reply i body ps = (ps', out)"
  shows "ps' j = Some p \<Longrightarrow> ps j = Some p" "(k, a) \<in> set out \<Longrightarrow> \<exists>p. ps i = Some p \<and> pending_call p = k"
  using assms by (auto simp: route_reply_def split: option.splits pending.splits if_splits)

lemma route_chunk_entries:
  assumes "route_chunk i bs ps = Inr ps'" "ps' j = Some p"
  shows "\<exists>p'. ps j = Some p' \<and> pending_call p' = pending_call p"
  using assms by (auto simp: route_chunk_def split: option.splits pending.splits if_splits)

lemma map_ok_in_map: "ac_inv n s \<Longrightarrow> map_of (ac_pending s) i = Some p \<Longrightarrow> in_map s (pending_call p) i"
  by (simp add: ac_inv_def map_ok_def)

lemma fail_pending_calls:
  "fail_pending order ps = (ps', out) \<Longrightarrow> (k, a) \<in> set out \<Longrightarrow> \<exists>i p. ps i = Some p \<and> pending_call p = k"
  by (auto simp: fail_pending_def List.map_filter_def) blast

lemma fail_pending_skips:
  assumes "ac_inv n s" "fail_pending order (map_of (ac_pending s)) = (ps, out)" "\<forall>i. \<not> in_map s k i"
  shows "k \<notin> fst ` set out"
proof
  assume "k \<in> fst ` set out"
  then obtain a where "(k, a) \<in> set out" by auto
  then show False using fail_pending_calls[OF assms(2)] map_ok_in_map[OF assms(1)] assms(3) by metis
qed

lemma ac_inv_reply:
  assumes "ac_inv n s" "async_reply i body s = Some t"
  shows "ac_inv (Suc n) t"
proof -
  obtain ps out where r: "route_reply i body (map_of (ac_pending s)) = (ps, out)" by fastforce
  then have t: "t = send_answers out (s\<lparr>ac_pending := rebuild (ac_pending s) ps\<rparr>)"
    using assms(2) by (simp add: async_reply_def split: if_splits)
  show ?thesis
  proof (rule ac_inv_router[OF assms(1)])
    show "\<exists>p'. map_of (ac_pending s) j = Some p' \<and> pending_call p' = pending_call p" if "map_of (ac_pending t) j = Some p" for j p
      using that route_reply_entries(1)[OF r] rebuild_entries by (fastforce simp: t)
    show "ac_answers t k = ac_answers s k" if "\<forall>i. \<not> in_map s k i" for k
    proof -
      have "k \<notin> fst ` set out" using route_reply_entries(2)[OF r] map_ok_in_map[OF assms(1)] that by fastforce
      then show ?thesis by (simp add: t send_answers_other)
    qed
  qed (simp_all add: t)
qed

lemma ac_inv_chunk:
  assumes "ac_inv n s" "async_chunk i bs s = Some t"
  shows "ac_inv (Suc n) t"
proof (cases "route_chunk i bs (map_of (ac_pending s))")
  case (Inl e)
  then have "t = s\<lparr>ac_router := Failing\<rparr>" using assms(2) by (simp add: async_chunk_def split: if_splits)
  then show ?thesis by (intro ac_inv_router[OF assms(1)]) auto
next
  case (Inr ps)
  then have t: "t = s\<lparr>ac_pending := rebuild (ac_pending s) ps\<rparr>" using assms(2) by (simp add: async_chunk_def split: if_splits)
  show ?thesis
    by (rule ac_inv_router[OF assms(1)]) (use route_chunk_entries[OF Inr] rebuild_entries in \<open>auto simp: t\<close>)
qed

lemma ac_inv_close:
  fixes s :: "('a, 'b) ac"
  assumes "ac_inv n s" "async_close s = Some t"
  shows "ac_inv (Suc n) t"
proof (cases "ac_router s")
  case Failing
  obtain ps and out :: "(nat \<times> 'b answer) list"
    where f: "fail_pending (map fst (ac_pending s)) (map_of (ac_pending s)) = (ps, out)" by fastforce
  then have t: "t = send_answers out (s\<lparr>ac_pending := [], ac_server_closed := True, ac_router := Closing\<rparr>)"
    using assms(2) Failing by (simp add: async_close_def)
  show ?thesis
  proof (rule ac_inv_router[OF assms(1)])
    show "ac_answers t k = ac_answers s k" if "\<forall>i. \<not> in_map s k i" for k
    proof -
      have "k \<notin> fst ` set out" using fail_pending_skips[OF assms(1) f that] .
      then show ?thesis by (simp add: t send_answers_other)
    qed
  qed (simp_all add: t)
next
  case Closing
  then have "t = s\<lparr>ac_closed := True, ac_router := Ended\<rparr>" using assms(2) by (simp add: async_close_def)
  then show ?thesis by (intro ac_inv_router[OF assms(1)]) auto
qed (use assms(2) in \<open>simp_all add: async_close_def\<close>)

subsection \<open>The callers\<close>

lemma map_okI:
  assumes "ac_inv n s" "\<And>k i. in_map s k i \<Longrightarrow> in_map t k i"
    and "\<And>i p. map_of (ac_pending t) i = Some p \<Longrightarrow> map_of (ac_pending s) i = Some p \<or> in_map t (pending_call p) i"
  shows "map_ok t"
  unfolding map_ok_def using map_ok_in_map[OF assms(1)] assms(2,3) by blast

lemma ac_inv_reserve:
  assumes "ac_inv n s"
  shows "ac_inv (Suc n) (call_reserve body limit s)"
proof -
  let ?t = "call_reserve body limit s"
  have ph: "async_phase_of ?t k = (if k = length (ac_calls s) then Some (if ac_closed s then ARefused else AReserved) else async_phase_of s k)" for k
    by (auto simp: async_phase_of_def call_reserve_def nth_append)
  have old: "async_phase_of s (length (ac_calls s)) = None" by (simp add: async_phase_of_def)
  have id: "call_id ?t = call_id s" by (auto simp: call_id_def ph old)
  have "ids_ok (Suc n) ?t" "ids_unique ?t" using ids_same[OF assms, of ?t] by (simp_all add: id) (simp_all add: call_reserve_def)
  moreover have "ac_pending ?t = ac_pending s" by (simp add: call_reserve_def)
  then have "map_ok ?t" using old by (intro map_okI[OF assms]) (auto simp: in_map_def ph)
  moreover have "quiet ?t" unfolding quiet_def
  proof (intro allI impI)
    fix k assume k: "case async_phase_of ?t k of None \<Rightarrow> True | Some ph \<Rightarrow> registering ph"
    have "case async_phase_of s k of None \<Rightarrow> True | Some ph \<Rightarrow> registering ph" using k old by (cases "k = length (ac_calls s)") (simp_all add: ph)
    then show "ac_answers ?t k = []" using assms by (simp add: ac_inv_def quiet_def call_reserve_def)
  qed
  ultimately show ?thesis by (simp add: ac_inv_def)
qed

lemma ac_inv_next_id:
  assumes inv: "ac_inv n s" and t: "call_next_id k s = Some t" and room: "Suc n < 2 ^ 64"
  shows "ac_inv (Suc n) t"
proof -
  have k: "async_phase_of s k = Some AReserved" and t: "t = set_async k (ANumbered (ac_next s)) (s\<lparr>ac_next := ac_next s + 1\<rparr>)"
    using t by (auto simp: call_next_id_def split: option.splits async_phase.splits)
  have ph: "async_phase_of t k' = (if k' = k then Some (ANumbered (ac_next s)) else async_phase_of s k')" for k'
    using phase_bound[OF k] by (simp add: t phase_set_async phase_cong[of "s\<lparr>ac_next := ac_next s + 1\<rparr>" s])
  have f: "ac_next t = ac_next s + 1" "ac_pending t = ac_pending s" "ac_answers t = ac_answers s" by (simp_all add: t)
  obtain m where m: "m \<le> n" "ac_next s = word_of_nat (Suc m)" "\<And>k i. call_id s k = Some i \<Longrightarrow> unat i \<le> m"
    using inv by (auto simp: ac_inv_def ids_ok_def)
  have u: "unat (ac_next s) = Suc m" using m(1,2) room by (simp add: unat_of_nat del: of_nat_Suc)
  have id: "call_id t k' = (if k' = k then Some (ac_next s) else call_id s k')" for k' by (simp add: call_id_def ph)
  have "ids_ok (Suc n) t" unfolding ids_ok_def
    using m u by (intro exI[of _ "Suc m"]) (auto simp: id f(1) le_SucI)
  moreover have "ids_unique t" using inv m(3) u unfolding ac_inv_def ids_unique_def id by (auto split: if_splits) (metis Suc_n_not_le_n)+
  moreover have "map_ok t" by (rule map_okI[OF inv]) (use k in \<open>auto simp: in_map_def ph f\<close>)
  moreover have "quiet t" using inv k by (auto simp: ac_inv_def quiet_def ph f)
  ultimately show ?thesis by (simp add: ac_inv_def)
qed

text \<open>An insertion never replaces an entry: the identifier is new.\<close>

lemma call_insert_fresh:
  assumes inv: "ac_inv n s" and k: "async_phase_of s k = Some (ANumbered i)"
  shows "map_of (ac_pending s) i = None"
proof (rule ccontr)
  assume "map_of (ac_pending s) i \<noteq> None"
  then obtain p where p: "in_map s (pending_call p) i" using map_ok_in_map[OF inv] by blast
  then have "call_id s (pending_call p) = Some i" "call_id s k = Some i" using k by (auto simp: in_map_def call_id_def)
  then have "pending_call p = k" using inv by (auto simp: ac_inv_def ids_unique_def)
  then show False using p k by (simp add: in_map_def)
qed

lemma call_insertD:
  assumes inv: "ac_inv n s" and t: "call_insert k s = Some t"
  shows "\<exists>i p. async_phase_of s k = Some (ANumbered i) \<and> pending_call p = k \<and>
    t = set_async k (ARegistered i) (s\<lparr>ac_pending := AList.update i p (ac_pending s)\<rparr>)"
proof -
  obtain i where k: "async_phase_of s k = Some (ANumbered i)"
    using t by (auto simp: call_insert_def split: option.splits async_phase.splits)
  let ?p = "case fst (snd (ac_calls s ! k)) of None \<Rightarrow> Unary k | Some l \<Rightarrow> Download [] l k"
  have "pending_call ?p = k" by (simp split: option.split)
  moreover have "t = set_async k (ARegistered i) (s\<lparr>ac_pending := AList.update i ?p (ac_pending s)\<rparr>)"
    using t k call_insert_fresh[OF inv k] by (simp add: call_insert_def)
  ultimately show ?thesis using k by blast
qed

lemma ac_inv_insert:
  assumes inv: "ac_inv n s" and t: "call_insert k s = Some t"
  shows "ac_inv (Suc n) t"
proof -
  obtain i p where k: "async_phase_of s k = Some (ANumbered i)" and p: "pending_call p = k"
    and t: "t = set_async k (ARegistered i) (s\<lparr>ac_pending := AList.update i p (ac_pending s)\<rparr>)"
    using call_insertD[OF assms] by blast
  have ph: "async_phase_of t k' = (if k' = k then Some (ARegistered i) else async_phase_of s k')" for k'
    using phase_bound[OF k] by (simp add: t phase_set_async phase_cong[of "s\<lparr>ac_pending := AList.update i p (ac_pending s)\<rparr>" s])
  have f: "ac_next t = ac_next s" "map_of (ac_pending t) = (map_of (ac_pending s))(i \<mapsto> p)" "ac_answers t = ac_answers s"
    by (simp_all add: t update_conv')
  have id: "call_id t = call_id s" using k by (auto simp: call_id_def ph)
  have "ids_ok (Suc n) t" "ids_unique t" using ids_same[OF inv f(1)] by (simp_all add: id)
  moreover have "map_ok t" by (rule map_okI[OF inv]) (use k p in \<open>auto simp: in_map_def ph f split: if_splits\<close>)
  moreover have "quiet t" using inv k by (auto simp: ac_inv_def quiet_def ph f split: if_splits)
  ultimately show ?thesis by (simp add: ac_inv_def)
qed

lemma ac_inv_permit:
  assumes inv: "ac_inv n s" and t: "call_permit_send k s = Some t"
  shows "ac_inv (Suc n) t"
proof -
  obtain i where k: "async_phase_of s k = Some (ARegistered i)"
    and t: "t = set_async k (AWaiting i) (s\<lparr>ac_sent := ac_sent s @ [MCall i (fst (ac_calls s ! k))]\<rparr>)"
    using t by (auto simp: call_permit_send_def split: option.splits async_phase.splits)
  have ph: "async_phase_of t k' = (if k' = k then Some (AWaiting i) else async_phase_of s k')" for k'
    using phase_bound[OF k] by (simp add: t phase_set_async phase_cong[of "s\<lparr>ac_sent := m\<rparr>" s for m])
  have f: "ac_next t = ac_next s" "ac_pending t = ac_pending s" "ac_answers t = ac_answers s" by (simp_all add: t)
  have id: "call_id t = call_id s" using k by (auto simp: call_id_def ph)
  have "ids_ok (Suc n) t" "ids_unique t" using ids_same[OF inv f(1)] by (simp_all add: id)
  moreover have "map_ok t" by (rule map_okI[OF inv]) (use k in \<open>auto simp: in_map_def ph f\<close>)
  moreover have "quiet t" using inv k by (auto simp: ac_inv_def quiet_def ph f split: if_splits)
  ultimately show ?thesis by (simp add: ac_inv_def)
qed

lemma call_dropD:
  assumes "call_drop k s = Some t"
  shows "\<exists>i m. async_phase_of s k = Some (AWaiting i) \<and>
    t = set_async k ADropped (s\<lparr>ac_pending := AList.delete i (ac_pending s), ac_sent := m\<rparr>)"
  using assms by (auto simp: call_drop_def split: option.splits async_phase.splits)

lemma ac_inv_drop:
  assumes inv: "ac_inv n s" and t: "call_drop k s = Some t"
  shows "ac_inv (Suc n) t"
proof -
  obtain i m where k: "async_phase_of s k = Some (AWaiting i)"
    and t: "t = set_async k ADropped (s\<lparr>ac_pending := AList.delete i (ac_pending s), ac_sent := m\<rparr>)"
    using call_dropD[OF t] by blast
  have ph: "async_phase_of t k' = (if k' = k then Some ADropped else async_phase_of s k')" for k'
    using phase_bound[OF k]
    by (simp add: t phase_set_async phase_cong[of "s\<lparr>ac_pending := AList.delete i (ac_pending s), ac_sent := m\<rparr>" s])
  have f: "ac_next t = ac_next s" "map_of (ac_pending t) = (map_of (ac_pending s))(i := None)" "ac_answers t = ac_answers s"
    by (simp_all add: t delete_conv')
  have id: "call_id t k' = (if k' = k then None else call_id s k')" for k' by (simp add: call_id_def ph)
  have "call_id s k' = Some j" if "call_id t k' = Some j" for k' j using that by (simp add: id split: if_splits)
  then have "ids_ok (Suc n) t" "ids_unique t" using ids_same[OF inv f(1)] by blast+
  moreover have "map_ok t" unfolding map_ok_def
  proof (intro allI impI)
    fix j p assume "map_of (ac_pending t) j = Some p"
    then have j: "j \<noteq> i" "map_of (ac_pending s) j = Some p" by (auto simp: f split: if_splits)
    have "in_map s (pending_call p) j" using map_ok_in_map[OF inv j(2)] .
    then show "in_map t (pending_call p) j" using j(1) k by (auto simp: in_map_def ph)
  qed
  moreover have "quiet t" using inv k by (auto simp: ac_inv_def quiet_def ph f split: if_splits)
  ultimately show ?thesis by (simp add: ac_inv_def)
qed

lemma ac_inv_step:
  assumes "ac_inv n s" "ac_apply opn s = Some t" "Suc n < 2 ^ 64"
  shows "ac_inv (Suc n) t"
proof (cases opn)
  case APeerGone
  then have "t = s\<lparr>ac_router := Failing\<rparr>" using assms(2) by (simp add: async_peer_gone_def split: if_splits)
  then show ?thesis by (intro ac_inv_router[OF assms(1)]) auto
qed (use assms ac_inv_reserve[OF assms(1)] ac_inv_next_id[OF assms(1)] ac_inv_insert[OF assms(1)] ac_inv_permit[OF assms(1)]
      ac_inv_drop[OF assms(1)] ac_inv_reply[OF assms(1)] ac_inv_chunk[OF assms(1)] ac_inv_close[OF assms(1)] in auto)

lemma ac_inv_run: "ac_inv n s \<Longrightarrow> ac_run ops s = Some t \<Longrightarrow> n + length ops < 2 ^ 64 \<Longrightarrow> ac_inv (n + length ops) t"
proof (induction ops arbitrary: n s)
  case (Cons opn ops)
  obtain u where u: "ac_apply opn s = Some u" "ac_run ops u = Some t" using Cons.prems(2) by (auto simp: bind_eq_Some_conv)
  have "ac_inv (Suc n) u" using ac_inv_step[OF Cons.prems(1) u(1)] Cons.prems(3) by simp
  then show ?case using Cons.IH[of "Suc n" u] u(2) Cons.prems(3) by simp
qed simp

section \<open>After the pending calls were failed\<close>

definition failed_all :: "('c, 'r) ac \<Rightarrow> bool" where
  "failed_all s \<longleftrightarrow> ac_router s = Closing \<or> ac_router s = Ended"

text \<open>A call that was not registered by then: when it is in the map later, it stays there until its caller gives up.\<close>

definition stranded :: "nat \<Rightarrow> ('c, 'r) ac \<Rightarrow> bool" where
  "stranded k s \<longleftrightarrow> (case async_phase_of s k of
       Some AReserved \<Rightarrow> True
     | Some (ANumbered i) \<Rightarrow> True
     | Some (ARegistered i) \<Rightarrow> \<exists>p. map_of (ac_pending s) i = Some p \<and> pending_call p = k
     | Some (AWaiting i) \<Rightarrow> \<exists>p. map_of (ac_pending s) i = Some p \<and> pending_call p = k
     | Some ADropped \<Rightarrow> True
     | _ \<Rightarrow> False)"

lemma stranded_other:
  assumes "stranded k s" "async_phase_of t k = async_phase_of s k"
    and "\<And>i. call_id s k = Some i \<Longrightarrow> map_of (ac_pending t) i = map_of (ac_pending s) i"
  shows "stranded k t"
  using assms by (auto simp: stranded_def call_id_def split: option.splits async_phase.splits)

lemma stranded_insert:
  assumes inv: "ac_inv n s" and k: "stranded k s" and t: "call_insert j s = Some t"
  shows "stranded k t \<and> failed_all t = failed_all s \<and> ac_answers t = ac_answers s"
proof -
  obtain i p where j: "async_phase_of s j = Some (ANumbered i)" and p: "pending_call p = j"
    and t: "t = set_async j (ARegistered i) (s\<lparr>ac_pending := AList.update i p (ac_pending s)\<rparr>)"
    using call_insertD[OF inv t] by blast
  have ph: "async_phase_of t k' = (if k' = j then Some (ARegistered i) else async_phase_of s k')" for k'
    using phase_bound[OF j] by (simp add: t phase_set_async phase_cong[of "s\<lparr>ac_pending := AList.update i p (ac_pending s)\<rparr>" s])
  have f: "map_of (ac_pending t) = (map_of (ac_pending s))(i \<mapsto> p)" by (simp add: t update_conv')
  have "stranded k t"
  proof (cases "k = j")
    case True
    then show ?thesis using p by (simp add: stranded_def ph f)
  next
    case False
    have "map_of (ac_pending t) i' = map_of (ac_pending s) i'" if "call_id s k = Some i'" for i'
    proof -
      have "call_id s j = Some i" using j by (simp add: call_id_def)
      then have "i' \<noteq> i" using inv that False by (auto simp: ac_inv_def ids_unique_def)
      then show ?thesis by (simp add: f)
    qed
    moreover have "async_phase_of t k = async_phase_of s k" using False by (simp add: ph)
    ultimately show ?thesis by (intro stranded_other[OF k])
  qed
  then show ?thesis by (simp add: t failed_all_def)
qed

lemma stranded_drop:
  assumes inv: "ac_inv n s" and k: "stranded k s" and t: "call_drop j s = Some t"
  shows "stranded k t \<and> failed_all t = failed_all s \<and> ac_answers t = ac_answers s"
proof -
  obtain i m where j: "async_phase_of s j = Some (AWaiting i)"
    and t: "t = set_async j ADropped (s\<lparr>ac_pending := AList.delete i (ac_pending s), ac_sent := m\<rparr>)"
    using call_dropD[OF t] by blast
  have ph: "async_phase_of t k' = (if k' = j then Some ADropped else async_phase_of s k')" for k'
    using phase_bound[OF j]
    by (simp add: t phase_set_async phase_cong[of "s\<lparr>ac_pending := AList.delete i (ac_pending s), ac_sent := m\<rparr>" s])
  have "stranded k t"
  proof (cases "k = j")
    case True
    then show ?thesis by (simp add: stranded_def ph)
  next
    case False
    have "map_of (ac_pending t) i' = map_of (ac_pending s) i'" if "call_id s k = Some i'" for i'
    proof -
      have "call_id s j = Some i" using j by (simp add: call_id_def)
      then have "i' \<noteq> i" using inv that False by (auto simp: ac_inv_def ids_unique_def)
      then show ?thesis by (simp add: t delete_conv')
    qed
    moreover have "async_phase_of t k = async_phase_of s k" using False by (simp add: ph)
    ultimately show ?thesis by (intro stranded_other[OF k])
  qed
  then show ?thesis by (simp add: t failed_all_def)
qed

lemma stranded_step:
  assumes inv: "ac_inv n s" and s: "failed_all s" "stranded k s" and t: "ac_apply opn s = Some t"
  shows "stranded k t \<and> failed_all t \<and> ac_answers t = ac_answers s"
proof (cases opn)
  case (ACall body limit)
  have "async_phase_of (call_reserve body limit s) k = async_phase_of s k"
    using s(2) by (auto simp: stranded_def async_phase_of_def call_reserve_def nth_append split: if_splits)
  then have "stranded k (call_reserve body limit s)" by (rule stranded_other[OF s(2)]) (simp add: call_reserve_def)
  then show ?thesis using t ACall s(1) by (auto simp: call_reserve_def failed_all_def)
next
  case (ANextId j)
  then have j: "async_phase_of s j = Some AReserved" and t: "t = set_async j (ANumbered (ac_next s)) (s\<lparr>ac_next := ac_next s + 1\<rparr>)"
    using t by (auto simp: call_next_id_def split: option.splits async_phase.splits)
  have ph: "async_phase_of t k' = (if k' = j then Some (ANumbered (ac_next s)) else async_phase_of s k')" for k'
    using phase_bound[OF j] by (simp add: t phase_set_async phase_cong[of "s\<lparr>ac_next := ac_next s + 1\<rparr>" s])
  have f: "ac_pending t = ac_pending s" by (simp add: t)
  have "stranded k t" using s(2) unfolding stranded_def ph f by (cases "k = j") simp_all
  then show ?thesis using s(1) by (simp add: t failed_all_def)
next
  case (APermitSend j)
  then obtain i where j: "async_phase_of s j = Some (ARegistered i)"
    and t: "t = set_async j (AWaiting i) (s\<lparr>ac_sent := ac_sent s @ [MCall i (fst (ac_calls s ! j))]\<rparr>)"
    using t by (auto simp: call_permit_send_def split: option.splits async_phase.splits)
  have ph: "async_phase_of t k' = (if k' = j then Some (AWaiting i) else async_phase_of s k')" for k'
    using phase_bound[OF j] by (simp add: t phase_set_async phase_cong[of "s\<lparr>ac_sent := m\<rparr>" s for m])
  have f: "ac_pending t = ac_pending s" by (simp add: t)
  have "stranded k t" using s(2) j unfolding stranded_def ph f by (cases "k = j") simp_all
  then show ?thesis using s(1) by (simp add: t failed_all_def)
next
  case (AInsert j)
  then show ?thesis using t stranded_insert[OF inv s(2)] s(1) by auto
next
  case (ADrop j)
  then show ?thesis using t stranded_drop[OF inv s(2)] s(1) by auto
next
  case AClose
  then have c: "t = s\<lparr>ac_closed := True, ac_router := Ended\<rparr>" using t s(1) by (auto simp: async_close_def failed_all_def)
  have "async_phase_of t k = async_phase_of s k" by (simp add: c async_phase_of_def)
  then have "stranded k t" by (rule stranded_other[OF s(2)]) (simp add: c)
  then show ?thesis by (simp add: c failed_all_def)
qed (use t s(1) in \<open>auto simp: failed_all_def async_reply_def async_chunk_def async_peer_gone_def\<close>)

lemma stranded_run:
  assumes "ac_inv n s" "failed_all s" "stranded k s" "ac_run ops s = Some t" "n + length ops < 2 ^ 64"
  shows "stranded k t \<and> failed_all t \<and> ac_answers t = ac_answers s"
  using assms
proof (induction ops arbitrary: n s)
  case (Cons opn ops)
  obtain u where u: "ac_apply opn s = Some u" "ac_run ops u = Some t" using Cons.prems(4) by (auto simp: bind_eq_Some_conv)
  have "ac_inv (Suc n) u" using ac_inv_step[OF Cons.prems(1) u(1)] Cons.prems(5) by simp
  moreover have "stranded k u" "failed_all u" "ac_answers u = ac_answers s"
    using stranded_step[OF Cons.prems(1,2,3) u(1)] by simp_all
  ultimately show ?case using Cons.IH[of "Suc n" u] u(2) Cons.prems(5) by simp
qed simp

text \<open>Failing the pending calls does not reach a call that is still registering.\<close>

lemma close_strands:
  fixes s :: "('a, 'b) ac"
  assumes inv: "ac_inv n s" and r: "ac_router s = Failing" and k: "async_phase_of s k = Some ph" "registering ph"
    and t: "ac_apply AClose s = Some t"
  shows "failed_all t" "async_phase_of t = async_phase_of s" "stranded k t" "ac_answers t k = []" "ac_pending t = []"
proof -
  obtain ps and out :: "(nat \<times> 'b answer) list"
    where f: "fail_pending (map fst (ac_pending s)) (map_of (ac_pending s)) = (ps, out)" by fastforce
  then have t: "t = send_answers out (s\<lparr>ac_pending := [], ac_server_closed := True, ac_router := Closing\<rparr>)"
    using t r by (simp add: async_close_def)
  show "failed_all t" "ac_pending t = []" by (simp_all add: t failed_all_def)
  show same: "async_phase_of t = async_phase_of s" by (rule phase_cong) (simp add: t)
  show "stranded k t" using k by (cases ph) (simp_all add: stranded_def same)
  have "\<forall>i. \<not> in_map s k i" using k by (auto simp: in_map_def)
  then have "k \<notin> fst ` set out" using fail_pending_skips[OF inv f] by blast
  moreover have "ac_answers s k = []" using inv k by (simp add: ac_inv_def quiet_def)
  ultimately show "ac_answers t k = []" by (simp add: t send_answers_other)
qed

text \<open>A caller with a permit can always number, register and send its call.\<close>

lemma call_completes:
  assumes "async_phase_of s k = Some AReserved" "ac_pending s = []"
  shows "\<exists>u i. ac_run [ANextId k, AInsert k, APermitSend k] s = Some u \<and> async_phase_of u k = Some (AWaiting i)"
proof -
  have k: "k < length (ac_calls s)" using phase_bound[OF assms(1)] .
  define s1 where "s1 = set_async k (ANumbered (ac_next s)) (s\<lparr>ac_next := ac_next s + 1\<rparr>)"
  have 1: "ac_apply (ANextId k) s = Some s1" using assms(1) by (simp add: call_next_id_def s1_def)
  have p1: "async_phase_of s1 k = Some (ANumbered (ac_next s))" "ac_pending s1 = []" "k < length (ac_calls s1)"
    using k assms(2) by (simp_all add: s1_def phase_set_async) (simp add: set_async_def)
  obtain s2 where 2: "ac_apply (AInsert k) s1 = Some s2" and p2: "async_phase_of s2 k = Some (ARegistered (ac_next s))" "k < length (ac_calls s2)"
    using p1 by (auto simp: call_insert_def phase_set_async Let_def) (simp add: set_async_def)
  obtain s3 where 3: "ac_apply (APermitSend k) s2 = Some s3" and p3: "async_phase_of s3 k = Some (AWaiting (ac_next s))"
    using p2 by (auto simp: call_permit_send_def phase_set_async)
  show ?thesis using 1 2 3 p3 by simp
qed

end
