(* ===== verification/Exchange_Props.thy ===== *)
theory Exchange_Props
  imports Exchange_Blocking_Inv Exchange_Router Exchange_Client_Inv
begin

text \<open>
  What callers over the renderer channel can rely on: one answer to every call, wake-ups that are not
  lost, lanes that keep their order, and downloads that are complete and bounded.
\<close>

section \<open>Calls of a renderer\<close>

text \<open>\<^bold>\<open>C9.\<close> However the threads of a renderer interleave, a blocking call or callback gets at most one answer. A
  call that has not been answered is registered under its identifier, so a reply still reaches it. Once the
  client has closed, every call that was started has exactly one answer, and so has every call that was refused.\<close>

theorem calls_answered_once:
  assumes "bx_reach cc dc n s" "n < 2 ^ 64" "k < length (bx_calls s)"
  shows "length (bx_answers s k) \<le> 1 \<and>
    (\<forall>i. bc_phase (bx_calls s ! k) = Started i \<longrightarrow>
       (bx_answers s k = [] \<longleftrightarrow> map_of (bx_pending s) i = Some k) \<and>
       (bx_close s = CloseDone \<longrightarrow> length (bx_answers s k) = 1)) \<and>
    (\<forall>i. bc_phase (bx_calls s ! k) = Rejected i \<longrightarrow> length (bx_answers s k) = 1)"
proof -
  have "calls_inv s" using bx_reach_inv[OF assms(1,2)] by simp
  from calls_invD(2)[OF this assms(3)] show ?thesis
    by (auto simp: view_ok_def is_pending_def split: call_phase.splits if_splits)
qed

text \<open>A callback registers, the reader closes before the call tests the flag, and the drain answers it.\<close>

definition closing_ops :: "(nat, nat, nat, nat) bx_op list" where
  "closing_ops = [CallNumber CallbackCall 7, CallRegister 0, CloseStep, CallCheck 0, CloseStep, CloseStep, CallFail 0]"

definition closing_run :: "(nat, nat, nat, nat) bx" where
  "closing_run = the (bx_run closing_ops (blocking_new 4 4))"

lemma closing_run_reach: "bx_reach 4 4 (length closing_ops) closing_run"
  unfolding closing_run_def by (rule bx_run_the) code_simp

lemma closing_run_calls: "length (bx_calls closing_run) = 1" "bc_phase (bx_calls closing_run ! 0) = Rejected 1"
  by code_simp+

theorem calls_answered_once_witness: "length (bx_answers closing_run 0) = 1"
  using calls_answered_once[OF closing_run_reach, of 0] by (simp add: closing_run_calls closing_ops_def)

section \<open>Wake-ups\<close>

text \<open>\<^bold>\<open>C12.\<close> The writer never sleeps over a message: when it waits for a wake-up, none is there, and no thread
  is between putting a message into a lane and sending the wake-up, then both lanes are empty and
  the exchange is open.\<close>

theorem no_lost_wakeup:
  assumes "bx_reach cc dc n s" "bx_recv s = RecvAtWake" "bx_wake s = 0" "bx_waking s = 0" "bx_close s \<noteq> CloseStored"
    "\<forall>c \<in> set (bx_calls s). \<forall>i. bc_phase c \<noteq> Pushed i"
  shows "bx_control s = [] \<and> bx_data s = [] \<and> \<not> bx_closed s"
proof -
  have "\<not> stirring s" using assms(3-6) by (auto simp: stirring_def list_ex_iff is_pushed_def split: call_phase.splits)
  then show ?thesis using wake_inv_reach[OF assms(1)] assms(2) by (simp add: wake_inv_def)
qed

definition idle_ops :: "(nat, nat, nat, nat) bx_op list" where
  "idle_ops = [RecvStep, RecvStep, PostPush (MNotify 1), RecvStep, PostWake, RecvStep, RecvStep, RecvStep, RecvStep, RecvStep, RecvStep, RecvStep]"

definition idle_run :: "(nat, nat, nat, nat) bx" where
  "idle_run = the (bx_run idle_ops (blocking_new 4 4))"

lemma idle_run_reach: "bx_reach 4 4 (length idle_ops) idle_run"
  unfolding idle_run_def by (rule bx_run_the) code_simp

lemma idle_run_waits:
  "bx_recv idle_run = RecvAtWake" "bx_wake idle_run = 0" "bx_waking idle_run = 0" "bx_close idle_run = CloseIdle" "bx_calls idle_run = []"
  by code_simp+

theorem no_lost_wakeup_witness: "bx_control idle_run = [] \<and> bx_data idle_run = [] \<and> \<not> bx_closed idle_run"
  by (rule no_lost_wakeup[OF idle_run_reach]) (simp_all add: idle_run_waits)

section \<open>Lanes\<close>

text \<open>In each lane the writer takes the messages in the order in which they were put there, each once:
  what it has taken followed by what still waits is what was sent. So a reply cannot overtake the
  chunks it belongs to.\<close>

theorem lanes_keep_order:
  assumes "bx_run ops (blocking_new cc dc) = Some s"
  shows "bx_taken_control s @ bx_control s = map snd (filter (\<lambda>l. fst l = ControlLane) (bx_sent ops (blocking_new cc dc))) \<and>
    bx_taken_data s @ bx_data s = map snd (filter (\<lambda>l. fst l = DataLane) (bx_sent ops (blocking_new cc dc)))"
  using lanes.run_view[OF bx_run_lanes[OF assms] TrueI, of ControlLane] lanes.run_view[OF bx_run_lanes[OF assms] TrueI, of DataLane]
  by (simp add: lane_view_def blocking_new_def)

theorem lanes_keep_order_witness: "bx_taken_data idle_run @ bx_data idle_run = [MNotify 1]"
proof -
  have "bx_run idle_ops (blocking_new 4 4) = Some idle_run"
  proof -
    have "\<not> Option.is_none (bx_run idle_ops (blocking_new 4 4))" by code_simp
    then show ?thesis by (simp add: idle_run_def Option.is_none_def)
  qed
  moreover have "map snd (filter (\<lambda>l. fst l = DataLane) (bx_sent idle_ops (blocking_new 4 4))) = [MNotify 1]" by code_simp
  ultimately show ?thesis using lanes_keep_order[of idle_ops 4 4 idle_run] by simp
qed

section \<open>Calls of the browser\<close>

text \<open>\<^bold>\<open>C13.\<close> Whatever messages a peer sends and however the connection ends, the router answers every call that was pending exactly
  once and answers no other call, and nothing stays pending.\<close>

theorem router_answers_all:
  assumes "enumerates order" "calls_distinct (rt_pending rt)" "route_all srv sub order ms rt = (rt', out)"
  shows "rt_pending rt' = (\<lambda>_. None) \<and> length (answers_to k out) = (if k \<in> calls_of (rt_pending rt) then 1 else 0)"
  using route_all_answers[OF assms, of k] by simp

text \<open>A download that is answered has all chunks that the peer sent before its reply, in order, and nothing else; it is never longer than
  the limit of the call.\<close>

theorem download_complete:
  assumes "enumerates order" "calls_distinct (rt_pending rt)" "route_all srv sub order ms rt = (rt', out)"
    "rt_pending rt i = Some (Download [] l k)" "l < usize_max" "(k, Downloaded body bs) \<in> set out"
  shows "\<exists>ms1 ms2. ms = ms1 @ MReply i body # ms2 \<and> (\<forall>b. MReply i b \<notin> set ms1) \<and> bs = chunks_of i ms1 \<and> length bs \<le> l"
  using route_all_download[OF assms(1-4) _ assms(5,6)] by simp

text \<open>A connection with one download of at most four bytes, over channels that are always open.\<close>

definition open_chan :: "('t, 't list) chan_api" where
  "open_chan = \<lparr> ch_try_send = (\<lambda>v q. Inr (q @ [v])), ch_is_closed = (\<lambda>q. False) \<rparr>"

definition one_download :: "(nat list, (nat, nat) server_input list) router" where
  "one_download =
     \<lparr> rt_pending = [7 \<mapsto> Download [] 4 0], rt_subscribers = [],
       rt_server = \<lparr> sd_control = [], sd_data = [], sd_closed = False \<rparr> \<rparr>"

definition download_messages :: "(nat, nat, nat) message list" where
  "download_messages = [MResponseChunk 7 [1, 2], MCall 3 5, MResponseChunk 7 [3], MReply 7 9]"

definition sorted_keys :: "pendings \<Rightarrow> request_id list" where
  "sorted_keys ps = sorted_list_of_set (dom ps)"

lemma sorted_keys_enumerates: "enumerates sorted_keys"
  by (simp add: enumerates_def sorted_keys_def)

lemma one_download_distinct: "calls_distinct (rt_pending one_download)"
  by (simp add: calls_distinct_def one_download_def)

lemma one_download_out:
  "snd (route_all open_chan open_chan sorted_keys download_messages one_download) = [(0, Downloaded 9 [1, 2, 3])]"
  by (simp add: download_messages_def one_download_def route_def route_chunk_def route_reply_def send_server_def sender_try_send_def
      sender_is_closed_def open_chan_def sender_channel_def set_channel_def usize_max_def router_close_def fail_pending_def
      sorted_keys_def List.map_filter_simps)

theorem router_answers_all_witness:
  "length (answers_to 0 (snd (route_all open_chan open_chan sorted_keys download_messages one_download))) = 1"
proof -
  obtain rt' out where r: "route_all open_chan open_chan sorted_keys download_messages one_download = (rt', out)" by fastforce
  have "0 \<in> calls_of (rt_pending one_download)" by (auto simp: calls_of_def one_download_def ran_def)
  then show ?thesis using router_answers_all[OF sorted_keys_enumerates one_download_distinct r, of 0] r by simp
qed

theorem download_complete_witness:
  "\<exists>ms1 ms2. download_messages = ms1 @ MReply 7 9 # ms2 \<and> (\<forall>b. MReply 7 b \<notin> set ms1) \<and> [1, 2, 3] = chunks_of 7 ms1 \<and>
     length ([1, 2, 3] :: bytes) \<le> 4"
proof -
  obtain rt' out where r: "route_all open_chan open_chan sorted_keys download_messages one_download = (rt', out)" by fastforce
  have "(0, Downloaded 9 [1, 2, 3]) \<in> set out" using one_download_out r by simp
  moreover have "rt_pending one_download 7 = Some (Download [] 4 0)" by (simp add: one_download_def)
  ultimately show ?thesis
    using download_complete[OF sorted_keys_enumerates one_download_distinct r, of 7 4 0 9 "[1, 2, 3]"] by (simp add: usize_max_def)
qed

section \<open>Calls of the asynchronous client\<close>

text \<open>\<^bold>\<open>C37.\<close> A call of the asynchronous client can get lost when the connection ends. In any run, take any call that has its permit and is not
  yet registered at the moment the router task fails the pending calls. Failing them does not answer it, and no continuation of the
  run does: it has no answer at any later moment, and when it has been registered and sent it stays in the map of pending calls,
  which nobody will empty, until its caller gives up. Nothing stops the caller from getting there: the three steps that number,
  register and send the call can run at once. (Fewer than \<open>2 ^ 64\<close> operations, so that identifiers do not repeat.)\<close>

theorem late_call_never_answered:
  assumes "ac_run before client_new = Some s" "ac_router s = Failing" "async_phase_of s k = Some ph" "registering ph"
    and "ac_run (AClose # after) s = Some t" "length before + length after + 1 < 2 ^ 64"
  shows "ac_answers t k = [] \<and> (ac_router t = Closing \<or> ac_router t = Ended) \<and>
    (\<forall>i. async_phase_of t k = Some (AWaiting i) \<longrightarrow> (\<exists>p. map_of (ac_pending t) i = Some p \<and> pending_call p = k)) \<and>
    (ph = AReserved \<longrightarrow> (\<exists>u i. ac_run [AClose, ANextId k, AInsert k, APermitSend k] s = Some u \<and> async_phase_of u k = Some (AWaiting i)))"
proof -
  have inv: "ac_inv (length before) s" using ac_inv_run[OF ac_inv_new assms(1)] assms(6) by simp
  obtain u where u: "ac_apply AClose s = Some u" "ac_run after u = Some t" using assms(5) by (auto simp: bind_eq_Some_conv)
  note c = close_strands[OF inv assms(2-4) u(1)]
  have "ac_inv (Suc (length before)) u" using ac_inv_step[OF inv u(1)] assms(6) by simp
  then have e: "stranded k t \<and> failed_all t \<and> ac_answers t = ac_answers u" using stranded_run c(1,3) u(2) assms(6) by force
  have "\<exists>u i. ac_run [AClose, ANextId k, AInsert k, APermitSend k] s = Some u \<and> async_phase_of u k = Some (AWaiting i)"
    if "ph = AReserved" using call_completes[of u k] u(1) c(2,5) assms(3) that by auto
  then show ?thesis using e c(4) by (auto simp: stranded_def failed_all_def)
qed

text \<open>A run in which the router task fails the pending calls between the permit of a call and its registration.\<close>

definition late_before :: "(nat, nat) ac_op list" where
  "late_before = [ACall 7 None, APeerGone]"

definition late_after :: "(nat, nat) ac_op list" where
  "late_after = [AClose, ANextId 0, AInsert 0, APermitSend 0]"

theorem late_call_never_answered_witness:
  "async_phase_of (the (ac_run (late_before @ AClose # late_after) client_new)) 0 = Some (AWaiting 1) \<and>
   ac_answers (the (ac_run (late_before @ AClose # late_after) client_new)) 0 = []"
proof -
  define s where "s = the (ac_run late_before client_new)"
  define t where "t = the (ac_run (AClose # late_after) s)"
  have s: "ac_run late_before client_new = Some s"
    by (simp add: s_def late_before_def client_new_def call_reserve_def async_peer_gone_def)
  have f: "ac_router s = Failing" "async_phase_of s 0 = Some AReserved"
    by (simp_all add: s_def late_before_def client_new_def call_reserve_def async_peer_gone_def async_phase_of_def)
  have "\<not> Option.is_none (ac_run (AClose # late_after) (the (ac_run late_before client_new)))" by code_simp
  then have t: "ac_run (AClose # late_after) s = Some t" by (auto simp: t_def s_def Option.is_none_def)
  have "ac_answers t 0 = []"
    using late_call_never_answered[OF s f(1,2) _ t] by (simp add: late_before_def late_after_def)
  moreover have "the (ac_run (late_before @ AClose # late_after) client_new) = t"
    using s t by (auto simp: late_before_def bind_eq_Some_conv)
  moreover have "async_phase_of (the (ac_run (late_before @ AClose # late_after) client_new)) 0 = Some (AWaiting 1)" by code_simp
  ultimately show ?thesis by simp
qed

end
