(* ===== verification/Csp_Source.thy ===== *)
theory Csp_Source
  imports Referrer
begin

text \<open>
  \<open>crates/renderer/src/csp.rs\<close>, the lower half: source expressions of a Content Security Policy and how a
  URL, a nonce or a hash matches them. What the code takes from other crates is the record
  \<open>csp_crates\<close>: accessors of \<open>url::Url\<close> that need its serializer, percent decoding, the SHA-2 digests and
  the standard base64 encoder.
\<close>

record csp_crates =
  cc_url :: url_api
  cc_host_str :: "url \<Rightarrow> string option"
  cc_port_or_known_default :: "url \<Rightarrow> 16 word option"
  cc_host_parse :: "string \<Rightarrow> host option"
  cc_host_display :: "host \<Rightarrow> string"
  cc_percent_decode :: "string \<Rightarrow> string"
  cc_sha256 :: "string \<Rightarrow> string"
  cc_sha384 :: "string \<Rightarrow> string"
  cc_sha512 :: "string \<Rightarrow> string"
  cc_base64 :: "string \<Rightarrow> string"

section \<open>Strings\<close>

definition csp_ws :: string where
  "csp_ws = map char_of [9, 10, 12, 13, 32 :: nat]"

definition is_alphabetic :: "char \<Rightarrow> bool" where
  "is_alphabetic c = ((65 \<le> byte c \<and> byte c \<le> 90) \<or> (97 \<le> byte c \<and> byte c \<le> 122))"

definition is_alphanumeric :: "char \<Rightarrow> bool" where
  "is_alphanumeric c = (is_alphabetic c \<or> is_ascii_digit c)"

definition is_ascii_str :: "string \<Rightarrow> bool" where
  "is_ascii_str s = list_all (\<lambda>c. byte c < 128) s"

definition strip_suffix :: "string \<Rightarrow> string \<Rightarrow> string option" where
  "strip_suffix p s = (if ends_with s p then Some (take (length s - length p) s) else None)"

definition replace_char :: "char \<Rightarrow> char \<Rightarrow> string \<Rightarrow> string" where
  "replace_char a b s = map (\<lambda>c. if c = a then b else c) s"

fun split_once_str :: "string \<Rightarrow> string \<Rightarrow> (string \<times> string) option" where
  "split_once_str p [] = (if p = [] then Some ([], []) else None)"
| "split_once_str p (c # cs) =
     (if starts_with (c # cs) p then Some ([], drop (length p) (c # cs))
      else map_option (\<lambda>(a, b). (c # a, b)) (split_once_str p cs))"

definition rsplit_once :: "char \<Rightarrow> string \<Rightarrow> (string \<times> string) option" where
  "rsplit_once d s = map_option (\<lambda>i. (take i s, drop (Suc i) s)) (rfind d s)"

definition trim_ascii :: "string \<Rightarrow> string" where
  "trim_ascii s = trim_chars csp_ws s"

definition csp_split_ascii_whitespace :: "string \<Rightarrow> string list" where
  "csp_split_ascii_whitespace s = filter (\<lambda>part. part \<noteq> []) (split_by (\<lambda>c. c \<in> set csp_ws) s)"

definition split_commas :: "string \<Rightarrow> string list" where
  "split_commas header = filter (\<lambda>token. token \<noteq> []) (map trim_ascii (split_by (\<lambda>c. c = CHR '','') header))"

definition strip_prefix_ignore_ascii_case :: "string \<Rightarrow> string \<Rightarrow> string option" where
  "strip_prefix_ignore_ascii_case s p =
     (if length s < length p then None
      else if eq_ignore_ascii_case (take (length p) s) p then Some (drop (length p) s) else None)"

section \<open>Nonces and hashes\<close>

fun base64_loop :: "bool \<Rightarrow> nat \<Rightarrow> string \<Rightarrow> bool" where
  "base64_loop saw_data padding [] = saw_data"
| "base64_loop saw_data padding (c # cs) =
     (if padding > 0 then
        (if c = CHR ''='' then (if padding + 1 > 2 then False else base64_loop saw_data (padding + 1) cs) else False)
      else if c = CHR ''='' then (if \<not> saw_data then False else base64_loop saw_data 1 cs)
      else if is_alphanumeric c \<or> c \<in> set ''+/-_'' then base64_loop True padding cs
      else False)"

definition is_base64_value :: "string \<Rightarrow> bool" where
  "is_base64_value s = base64_loop False 0 s"

definition csp_algorithm :: "string \<Rightarrow> string option" where
  "csp_algorithm a =
     (if eq_ignore_ascii_case a ''sha256'' then Some ''sha256''
      else if eq_ignore_ascii_case a ''sha384'' then Some ''sha384''
      else if eq_ignore_ascii_case a ''sha512'' then Some ''sha512''
      else None)"

definition hash_source :: "string \<Rightarrow> (string \<times> string) option" where
  "hash_source expression =
     Option.bind (strip_prefix [CHR 39] expression) (\<lambda>rest.
     Option.bind (split_once CHR ''-'' rest) (\<lambda>(algorithm, rest).
     Option.bind (csp_algorithm algorithm) (\<lambda>algorithm.
     Option.bind (strip_suffix [CHR 39] rest) (\<lambda>v.
       if is_base64_value v then Some (algorithm, v) else None))))"

definition is_hash_source :: "string \<Rightarrow> bool" where
  "is_hash_source expression = (hash_source expression \<noteq> None)"

definition NONCE_PREFIX :: string where
  "NONCE_PREFIX = CHR 39 # ''nonce-''"

definition is_nonce_source :: "string \<Rightarrow> bool" where
  "is_nonce_source expression =
     (case strip_prefix_ignore_ascii_case expression NONCE_PREFIX of
        None \<Rightarrow> False
      | Some rest \<Rightarrow> (case strip_suffix [CHR 39] rest of None \<Rightarrow> False | Some v \<Rightarrow> is_base64_value v))"

definition nonce_matches :: "string \<Rightarrow> string list \<Rightarrow> bool" where
  "nonce_matches nonce sources =
     (if nonce = [] then False
      else list_ex (\<lambda>expression.
        case Option.bind (strip_prefix_ignore_ascii_case expression NONCE_PREFIX) (strip_suffix [CHR 39]) of
          None \<Rightarrow> False
        | Some v \<Rightarrow> v = nonce \<and> is_base64_value v) sources)"

text \<open>A keyword with its quotes.\<close>

definition quoted :: "string \<Rightarrow> string" where
  "quoted k = CHR 39 # k @ [CHR 39]"

definition has_keyword :: "string list \<Rightarrow> string \<Rightarrow> bool" where
  "has_keyword sources keyword = list_ex (\<lambda>expression. eq_ignore_ascii_case expression keyword) sources"

definition hash_matches :: "csp_crates \<Rightarrow> string \<Rightarrow> string \<Rightarrow> bool" where
  "hash_matches cc expression source =
     (case hash_source expression of
        None \<Rightarrow> False
      | Some (algorithm, expected) \<Rightarrow>
          (let expected' = replace_char CHR ''_'' CHR ''/'' (replace_char CHR ''-'' CHR ''+'' expected)
           in if algorithm = ''sha256'' then cc_base64 cc (cc_sha256 cc source) = expected'
              else if algorithm = ''sha384'' then cc_base64 cc (cc_sha384 cc source) = expected'
              else if algorithm = ''sha512'' then cc_base64 cc (cc_sha512 cc source) = expected'
              else False))"

section \<open>Subresource integrity\<close>

definition integrity_entry :: "string \<Rightarrow> (string \<times> string) option" where
  "integrity_entry entry =
     Option.bind (split_once CHR ''-'' entry) (\<lambda>(algorithm, rest).
     (let v = (case split_once CHR ''?'' rest of Some (v, _) \<Rightarrow> v | None \<Rightarrow> rest)
      in Option.bind (csp_algorithm algorithm) (\<lambda>algorithm.
         if is_base64_value v then Some (algorithm, v) else None)))"

definition parse_integrity_metadata :: "string \<Rightarrow> (string \<times> string) list" where
  "parse_integrity_metadata metadata = List.map_filter integrity_entry (csp_split_ascii_whitespace metadata)"

definition integrity_matches :: "string list \<Rightarrow> string \<Rightarrow> bool" where
  "integrity_matches sources integrity =
     (let expressions = List.map_filter hash_source sources
      in if expressions = [] then False
         else (let entries = parse_integrity_metadata integrity
               in if entries = [] then False
                  else list_all (\<lambda>(algorithm, v).
                    list_ex (\<lambda>(expected_algorithm, expected).
                      eq_ignore_ascii_case expected_algorithm algorithm \<and> expected = v) expressions) entries))"

function pad_base64 :: "string \<Rightarrow> string" where
  "pad_base64 s = (if length s mod 4 \<noteq> 0 then pad_base64 (s @ ''='') else s)"
  by pat_completeness auto
termination
  by (relation "measure (\<lambda>s. (4 - length s mod 4) mod 4)") (auto simp: mod_Suc)

declare pad_base64.simps [simp del]

definition normalize_base64 :: "string \<Rightarrow> string" where
  "normalize_base64 v = pad_base64 (replace_char CHR ''_'' CHR ''/'' (replace_char CHR ''-'' CHR ''+'' v))"

text \<open>\<open>Iterator::max_by_key\<close>: the last of the greatest.\<close>

fun max_by_key :: "('a \<Rightarrow> nat) \<Rightarrow> 'a list \<Rightarrow> 'a option" where
  "max_by_key f [] = None"
| "max_by_key f (x # xs) =
     (case max_by_key f xs of None \<Rightarrow> Some x | Some y \<Rightarrow> if f x \<le> f y then Some y else Some x)"

definition algorithm_strength :: "string \<Rightarrow> nat" where
  "algorithm_strength a = (if a = ''sha512'' then 2 else if a = ''sha384'' then 1 else 0)"

definition integrity_verifies :: "csp_crates \<Rightarrow> string \<Rightarrow> string \<Rightarrow> bool" where
  "integrity_verifies cc integrity content =
     (let integrity = trim integrity
      in if integrity = [] then True
         else (let entries = parse_integrity_metadata integrity
               in case max_by_key algorithm_strength (map fst entries) of
                    None \<Rightarrow> True
                  | Some strongest \<Rightarrow>
                      list_ex (\<lambda>(algorithm, expected).
                        algorithm = strongest \<and>
                        (if strongest = ''sha512'' then cc_base64 cc (cc_sha512 cc content)
                         else if strongest = ''sha384'' then cc_base64 cc (cc_sha384 cc content)
                         else cc_base64 cc (cc_sha256 cc content)) = normalize_base64 expected) entries))"

section \<open>Source expressions\<close>

datatype port_part = PortStar | PortNumber nat

datatype source_expr =
    SchemeSource string
  | HostSource "string option" string "port_part option" "string option"

definition is_scheme :: "string \<Rightarrow> bool" where
  "is_scheme s =
     (case s of [] \<Rightarrow> False
      | c # cs \<Rightarrow> is_alphabetic c \<and> list_all (\<lambda>c. is_alphanumeric c \<or> c \<in> set ''+-.'') cs)"

definition parse_port_part :: "string \<Rightarrow> port_part option" where
  "parse_port_part port =
     (if port = ''*'' then Some PortStar
      else if port \<noteq> [] \<and> list_all is_ascii_digit port then map_option PortNumber (parse_unsigned 65535 port)
      else None)"

definition split_host_port :: "string \<Rightarrow> (string \<times> port_part option) option" where
  "split_host_port hostport =
     (if starts_with hostport ''['' then
        (case position (\<lambda>c. c = CHR '']'') hostport of
           None \<Rightarrow> None
         | Some e \<Rightarrow>
             (let host = take (Suc e) hostport; after = drop (Suc e) hostport
              in if after = [] then Some (host, None)
                 else Option.bind (strip_prefix '':'' after) (\<lambda>port. map_option (\<lambda>p. (host, Some p)) (parse_port_part port))))
      else
        (case rsplit_once CHR '':'' hostport of
           None \<Rightarrow> Some (hostport, None)
         | Some (host, port) \<Rightarrow>
             if port = [] then None else map_option (\<lambda>p. (host, Some p)) (parse_port_part port)))"

definition valid_host_part :: "string \<Rightarrow> bool" where
  "valid_host_part host =
     (if host = ''*'' then True
      else
        (let rest = (case strip_prefix ''*.'' host of Some r \<Rightarrow> r | None \<Rightarrow> host)
         in if rest = [] then False
            else
              (let body = (case strip_suffix ''.'' rest of Some b \<Rightarrow> b | None \<Rightarrow> rest)
               in if body = [] then False
                  else list_all (\<lambda>label. label \<noteq> [] \<and> list_all (\<lambda>c. is_alphanumeric c \<or> c = CHR ''-'') label)
                         (split_by (\<lambda>c. c = CHR ''.'') body))))"

definition scheme_only :: "string \<Rightarrow> string option" where
  "scheme_only expression =
     (case strip_suffix '':'' expression of
        Some scheme \<Rightarrow> if is_scheme scheme \<and> CHR ''/'' \<notin> set scheme then Some (to_ascii_lowercase scheme) else None
      | None \<Rightarrow> None)"

definition parse_host_source :: "string option \<Rightarrow> string \<Rightarrow> source_expr option" where
  "parse_host_source scheme rest =
     (if rest = [] then None
      else
        (let (hostport, path) = (case position (\<lambda>c. c = CHR ''/'') rest of
                                   Some i \<Rightarrow> (take i rest, Some (drop i rest))
                                 | None \<Rightarrow> (rest, None))
         in if (case path of Some p \<Rightarrow> CHR '';'' \<in> set p \<or> CHR '','' \<in> set p | None \<Rightarrow> False) then None
            else (case split_host_port hostport of
                    None \<Rightarrow> None
                  | Some (host, port) \<Rightarrow>
                      if \<not> valid_host_part host then None
                      else Some (HostSource scheme (to_ascii_lowercase host) port path))))"

definition parse_source :: "string \<Rightarrow> source_expr option" where
  "parse_source expression =
     (if eq_ignore_ascii_case expression (quoted ''self'') \<or> starts_with expression [CHR 39] \<or> expression = ''*'' then None
      else (case scheme_only expression of
              Some scheme \<Rightarrow> Some (SchemeSource scheme)
            | None \<Rightarrow>
                (case split_once_str ''://'' expression of
                   Some (scheme, rest) \<Rightarrow>
                     if \<not> is_scheme scheme then None else parse_host_source (Some (to_ascii_lowercase scheme)) rest
                 | None \<Rightarrow> parse_host_source None expression)))"

section \<open>Matching URLs\<close>

definition csp_default_port :: "string \<Rightarrow> 16 word option" where
  "csp_default_port scheme =
     (if scheme = ''http'' \<or> scheme = ''ws'' then Some 80
      else if scheme = ''https'' \<or> scheme = ''wss'' then Some 443
      else if scheme = ''ftp'' then Some 21
      else None)"

definition origin_scheme :: "origin \<Rightarrow> string option" where
  "origin_scheme orig = (case orig of Tuple scheme _ _ \<Rightarrow> Some scheme | Opaque _ \<Rightarrow> None)"

definition scheme_part_matches :: "string \<Rightarrow> string \<Rightarrow> bool" where
  "scheme_part_matches expression_scheme url_scheme =
     (eq_ignore_ascii_case expression_scheme url_scheme \<or>
      (eq_ignore_ascii_case expression_scheme ''http'' \<and> eq_ignore_ascii_case url_scheme ''https'') \<or>
      (eq_ignore_ascii_case expression_scheme ''ws'' \<and> to_ascii_lowercase url_scheme \<in> set [''wss'', ''http'', ''https'']) \<or>
      (eq_ignore_ascii_case expression_scheme ''wss'' \<and> eq_ignore_ascii_case url_scheme ''https''))"

definition host_part_matches :: "csp_crates \<Rightarrow> string \<Rightarrow> url \<Rightarrow> bool" where
  "host_part_matches cc pattern u =
     (case cc_host_str cc u of
        None \<Rightarrow> False
      | Some host \<Rightarrow>
          if pattern = ''*'' then True
          else (case strip_prefix ''*'' pattern of
                  Some remaining \<Rightarrow>
                    if starts_with remaining ''.'' then ends_with (to_ascii_lowercase host) remaining
                    else eq_ignore_ascii_case pattern host
                | None \<Rightarrow> eq_ignore_ascii_case pattern host))"

definition port_part_matches :: "port_part option \<Rightarrow> url \<Rightarrow> bool" where
  "port_part_matches port u =
     (case port of
        Some PortStar \<Rightarrow> True
      | _ \<Rightarrow>
          (let inp = (case port of Some (PortNumber n) \<Rightarrow> Some (word_of_nat n) | _ \<Rightarrow> None)
           in if inp = u_port u then True
              else if u_port u = None then inp = csp_default_port (u_scheme u)
              else inp = None \<and> u_port u = csp_default_port (u_scheme u)))"

definition path_part_matches :: "csp_crates \<Rightarrow> string \<Rightarrow> string \<Rightarrow> bool" where
  "path_part_matches cc path_a path_b =
     (if path_a = [] then True
      else if path_a = ''/'' \<and> path_b = [] then True
      else
        (let exact = (\<not> ends_with path_a ''/'');
             parts_a = split_by (\<lambda>c. c = CHR ''/'') path_a;
             parts_b = split_by (\<lambda>c. c = CHR ''/'') path_b
         in if length parts_a > length parts_b then False
            else if exact \<and> length parts_a \<noteq> length parts_b then False
            else
              (let parts_a = (if exact then parts_a else butlast parts_a)
               in list_all (\<lambda>(a, b). cc_percent_decode cc a = cc_percent_decode cc b) (zip parts_a parts_b))))"

definition host_source_matches ::
  "csp_crates \<Rightarrow> url \<Rightarrow> string option \<Rightarrow> string \<Rightarrow> port_part option \<Rightarrow> string option \<Rightarrow> origin \<Rightarrow> nat \<Rightarrow> bool" where
  "host_source_matches cc u scheme host port path orig redirects =
     (if (case scheme of Some s \<Rightarrow> \<not> scheme_part_matches s (u_scheme u) | None \<Rightarrow> False) then False
      else if scheme = None \<and>
              (case origin_scheme orig of None \<Rightarrow> True | Some s \<Rightarrow> \<not> scheme_part_matches s (u_scheme u)) then False
      else if \<not> host_part_matches cc host u then False
      else if \<not> port_part_matches port u then False
      else if redirects = 0 \<and>
              (case path of Some p \<Rightarrow> p \<noteq> [] \<and> \<not> path_part_matches cc p (u_path u) | None \<Rightarrow> False) then False
      else True)"

definition csp_same_origin :: "csp_crates \<Rightarrow> url \<Rightarrow> origin \<Rightarrow> url \<Rightarrow> bool" where
  "csp_same_origin cc u orig document_url =
     (case orig of
        Tuple _ _ _ \<Rightarrow> u_origin u = orig
      | Opaque _ \<Rightarrow> u_href (set_fragment (cc_url cc) None u) = u_href (set_fragment (cc_url cc) None document_url))"

definition self_ports :: "csp_crates \<Rightarrow> string \<Rightarrow> 16 word \<Rightarrow> url \<Rightarrow> bool" where
  "self_ports cc scheme port u =
     (cc_port_or_known_default cc u = Some port \<or> (csp_default_port scheme = Some port \<and> u_port u = None))"

definition hosts_equal :: "host \<Rightarrow> url \<Rightarrow> bool" where
  "hosts_equal origin_host u =
     (case u_host u of
        None \<Rightarrow> False
      | Some h \<Rightarrow>
          (case (origin_host, h) of
             (Domain l, Domain r) \<Rightarrow> eq_ignore_ascii_case l r
           | (Ipv4 a b c d, Ipv4 a' b' c' d') \<Rightarrow> origin_host = h
           | (Ipv6 g, Ipv6 g') \<Rightarrow> g = g'
           | _ \<Rightarrow> False))"

definition self_matches :: "csp_crates \<Rightarrow> url \<Rightarrow> origin \<Rightarrow> url \<Rightarrow> bool" where
  "self_matches cc u orig document_url =
     (if u_scheme u = ''blob'' then False
      else if csp_same_origin cc u orig document_url then True
      else (case orig of
              Opaque _ \<Rightarrow> False
            | Tuple scheme host port \<Rightarrow>
                if \<not> hosts_equal host u then False
                else if \<not> self_ports cc scheme port u then False
                else u_scheme u = ''https'' \<or> u_scheme u = ''wss'' \<or>
                     (scheme = ''http'' \<and> (u_scheme u = ''http'' \<or> u_scheme u = ''ws''))))"

definition url_matches_expression :: "csp_crates \<Rightarrow> url \<Rightarrow> string \<Rightarrow> origin \<Rightarrow> url \<Rightarrow> nat \<Rightarrow> bool" where
  "url_matches_expression cc u expression orig document_url redirects =
     (if expression = ''*'' then
        u_scheme u = ''http'' \<or> u_scheme u = ''https'' \<or>
        (case origin_scheme orig of Some s \<Rightarrow> eq_ignore_ascii_case s (u_scheme u) | None \<Rightarrow> False)
      else
        (case parse_source expression of
           Some (SchemeSource scheme) \<Rightarrow> scheme_part_matches scheme (u_scheme u)
         | Some (HostSource scheme host port path) \<Rightarrow> host_source_matches cc u scheme host port path orig redirects
         | None \<Rightarrow>
             if eq_ignore_ascii_case expression (quoted ''self'') then self_matches cc u orig document_url else False))"

definition url_matches_list :: "csp_crates \<Rightarrow> url \<Rightarrow> string list \<Rightarrow> origin \<Rightarrow> url \<Rightarrow> nat \<Rightarrow> bool" where
  "url_matches_list cc u sources orig document_url redirects =
     (if sources = [] then False
      else if length sources = 1 \<and> eq_ignore_ascii_case (sources ! 0) (quoted ''none'') then False
      else list_ex (\<lambda>expression. url_matches_expression cc u expression orig document_url redirects) sources)"

end
