(* ===== verification/Csp.thy ===== *)
theory Csp
  imports Csp_Source Sandbox_Flags
begin

text \<open>
  \<open>crates/renderer/src/csp.rs\<close>, the upper half: policies, their delivery by header and \<open>meta\<close>, and the checks
  of requests, inline scripts, evaluation and embedding that produce violations.
\<close>

section \<open>Data\<close>

datatype disposition = Enforce | Report

fun disposition_as_str :: "disposition \<Rightarrow> string" where
  "disposition_as_str Enforce = ''enforce''"
| "disposition_as_str Report = ''report''"

record csp_policy =
  cp_directives :: "(string \<times> string list) list"
  cp_disposition :: disposition
  cp_serialized :: string

record violation =
  vi_effective_directive :: string
  vi_original_policy :: string
  vi_disposition :: disposition
  vi_blocked_uri :: string
  vi_sample :: "string option"
  vi_document_uri :: string
  vi_source_file :: "string option"
  vi_line_number :: nat
  vi_column_number :: nat
  vi_status_code :: nat
  vi_report_uris :: "string list"
  vi_report_to :: "string list"

definition violation_blocks :: "violation \<Rightarrow> bool" where
  "violation_blocks v = (vi_disposition v = Enforce)"

definition csp_blocks :: "violation list \<Rightarrow> bool" where
  "csp_blocks vs = list_ex violation_blocks vs"

type_synonym csp_list = "csp_policy list"

definition csp_empty :: csp_list where
  "csp_empty = []"

datatype inline_kind = KScript | KNavigation | KScriptAttribute | KEvaluation

record inline_script =
  is_source :: string
  is_nonce :: string
  is_nonceable :: bool
  is_parser_inserted :: bool
  is_kind :: inline_kind

datatype destination = DConnect | DScript | DStyleSheet | DImg | DFont | DFrame

definition destination_is_image :: "destination \<Rightarrow> bool" where
  "destination_is_image d = (d = DImg)"

datatype effective =
  EScriptSrcElem | EScriptSrcAttr | EScriptSrc | EStyleSrcElem | EConnectSrc | EImgSrc | EFontSrc | EFrameSrc

fun effective_name :: "effective \<Rightarrow> string" where
  "effective_name EScriptSrcElem = ''script-src-elem''"
| "effective_name EScriptSrcAttr = ''script-src-attr''"
| "effective_name EScriptSrc = ''script-src''"
| "effective_name EStyleSrcElem = ''style-src-elem''"
| "effective_name EConnectSrc = ''connect-src''"
| "effective_name EImgSrc = ''img-src''"
| "effective_name EFontSrc = ''font-src''"
| "effective_name EFrameSrc = ''frame-src''"

fun effective_fallback :: "effective \<Rightarrow> string list" where
  "effective_fallback EScriptSrcElem = [''script-src-elem'', ''script-src'', ''default-src'']"
| "effective_fallback EScriptSrcAttr = [''script-src-attr'', ''script-src'', ''default-src'']"
| "effective_fallback EScriptSrc = [''script-src'', ''default-src'']"
| "effective_fallback EStyleSrcElem = [''style-src-elem'', ''style-src'', ''default-src'']"
| "effective_fallback EConnectSrc = [''connect-src'', ''default-src'']"
| "effective_fallback EImgSrc = [''img-src'', ''default-src'']"
| "effective_fallback EFontSrc = [''font-src'', ''default-src'']"
| "effective_fallback EFrameSrc = [''frame-src'', ''child-src'', ''default-src'']"

fun destination_effective :: "destination \<Rightarrow> effective" where
  "destination_effective DConnect = EConnectSrc"
| "destination_effective DScript = EScriptSrcElem"
| "destination_effective DStyleSheet = EStyleSrcElem"
| "destination_effective DImg = EImgSrc"
| "destination_effective DFont = EFontSrc"
| "destination_effective DFrame = EFrameSrc"

fun kind_effective :: "inline_kind \<Rightarrow> effective" where
  "kind_effective KScript = EScriptSrcElem"
| "kind_effective KNavigation = EScriptSrcElem"
| "kind_effective KScriptAttribute = EScriptSrcAttr"
| "kind_effective KEvaluation = EScriptSrc"

fun inline_blocked_uri :: "inline_kind \<Rightarrow> string" where
  "inline_blocked_uri KEvaluation = ''eval''"
| "inline_blocked_uri KScript = ''inline''"
| "inline_blocked_uri KNavigation = ''inline''"
| "inline_blocked_uri KScriptAttribute = ''inline''"

text \<open>\<open>chars().take(n)\<close> on UTF-8: a byte of the form \<open>10xxxxxx\<close> continues a character.\<close>

fun take_chars :: "nat \<Rightarrow> string \<Rightarrow> string" where
  "take_chars n [] = []"
| "take_chars n (c # cs) =
     (if 128 \<le> byte c \<and> byte c < (192 :: nat) then c # take_chars n cs
      else (case n of 0 \<Rightarrow> [] | Suc m \<Rightarrow> c # take_chars m cs))"

definition inline_sample :: "inline_script \<Rightarrow> string" where
  "inline_sample i = take_chars 40 (is_source i)"

record script_request =
  sr_nonce :: string
  sr_parser_inserted :: bool
  sr_integrity :: string

section \<open>Reports\<close>

definition csp_strip_url :: "csp_crates \<Rightarrow> url \<Rightarrow> string" where
  "csp_strip_url cc u =
     (if u_scheme u \<notin> set [''http'', ''https'', ''ws'', ''wss''] then u_scheme u
      else u_href (set_password (cc_url cc) None (set_username (cc_url cc) [] (set_fragment (cc_url cc) None u))))"

definition csp_blocked_uri :: "csp_crates \<Rightarrow> origin \<Rightarrow> effective \<Rightarrow> url \<Rightarrow> string" where
  "csp_blocked_uri cc orig eff u =
     (if eff = EFrameSrc \<and> u_origin u \<noteq> orig then
        u_scheme u @ ''://'' @ (case cc_host_str cc u of Some h \<Rightarrow> h | None \<Rightarrow> []) @
        (case cc_port_or_known_default cc u of Some p \<Rightarrow> '':'' @ show_nat (unat p) | None \<Rightarrow> [])
      else csp_strip_url cc u)"

definition strip_url_for_reports :: "csp_crates \<Rightarrow> string \<Rightarrow> string" where
  "strip_url_for_reports cc raw = (case parse_url (cc_url cc) raw of None \<Rightarrow> [] | Some u \<Rightarrow> csp_strip_url cc u)"

definition report_values :: "string \<Rightarrow> csp_policy \<Rightarrow> string list" where
  "report_values directive p = (case find (\<lambda>d. fst d = directive) (cp_directives p) of Some d \<Rightarrow> snd d | None \<Rightarrow> [])"

definition report_uris :: "csp_policy \<Rightarrow> string list" where
  "report_uris p = report_values ''report-uri'' p"

definition report_to :: "csp_policy \<Rightarrow> string list" where
  "report_to p = report_values ''report-to'' p"

fun endpoint_items :: "string \<Rightarrow> bool \<Rightarrow> string \<Rightarrow> string list" where
  "endpoint_items current in_quotes [] = [current]"
| "endpoint_items current in_quotes (c # cs) =
     (if c = CHR 34 then endpoint_items (current @ [c]) (\<not> in_quotes) cs
      else if c = CHR '','' \<and> \<not> in_quotes then current # endpoint_items [] in_quotes cs
      else endpoint_items (current @ [c]) in_quotes cs)"

definition parse_reporting_endpoints_value :: "string \<Rightarrow> (string \<times> string) list" where
  "parse_reporting_endpoints_value combined =
     List.map_filter (\<lambda>item.
       (let (name, u) = (case split_once CHR ''='' item of Some nu \<Rightarrow> nu | None \<Rightarrow> (item, []));
            name = trim name; u = trim_matches (CHR 34) (trim u)
        in if name \<noteq> [] \<and> u \<noteq> [] then Some (name, u) else None))
       (endpoint_items [] False combined)"

section \<open>Delivery\<close>

definition directive_value :: "csp_policy \<Rightarrow> string \<Rightarrow> string list option" where
  "directive_value p name = map_option snd (find (\<lambda>d. fst d = name) (cp_directives p))"

fun parse_directives :: "string list \<Rightarrow> (string \<times> string list) list \<Rightarrow> (string \<times> string list) list" where
  "parse_directives [] directives = directives"
| "parse_directives (raw # raws) directives =
     (let token = trim_ascii raw
      in if token = [] \<or> \<not> is_ascii_str token then parse_directives raws directives
         else (case csp_split_ascii_whitespace token of
                 [] \<Rightarrow> parse_directives raws directives
               | name # values \<Rightarrow>
                   (let name = to_ascii_lowercase name
                    in if list_ex (\<lambda>d. fst d = name) directives then parse_directives raws directives
                       else parse_directives raws (directives @ [(name, values)]))))"

definition parse_serialized :: "string \<Rightarrow> disposition \<Rightarrow> csp_policy" where
  "parse_serialized serialized d =
     \<lparr> cp_directives = parse_directives (split_by (\<lambda>c. c = CHR '';'') serialized) [], cp_disposition = d,
       cp_serialized = trim_ascii serialized \<rparr>"

definition parse_policy_list :: "string \<Rightarrow> disposition \<Rightarrow> csp_list" where
  "parse_policy_list header d =
     filter (\<lambda>p. cp_directives p \<noteq> []) (map (\<lambda>token. parse_serialized token d) (split_commas header))"

definition csp_from_headers :: "string option \<Rightarrow> string option \<Rightarrow> csp_list" where
  "csp_from_headers enforce report_only =
     (case enforce of Some h \<Rightarrow> parse_policy_list h Enforce | None \<Rightarrow> []) @
     (case report_only of Some h \<Rightarrow> parse_policy_list h Report | None \<Rightarrow> [])"

definition META_DROPPED :: "string list" where
  "META_DROPPED = [''report-uri'', ''report-to'', ''frame-ancestors'', ''sandbox'']"

definition csp_push_meta :: "string \<Rightarrow> csp_list \<Rightarrow> csp_list" where
  "csp_push_meta content ps =
     (let p = parse_serialized content Enforce;
          p = p\<lparr>cp_directives := filter (\<lambda>d. fst d \<notin> set META_DROPPED) (cp_directives p)\<rparr>
      in if cp_directives p \<noteq> [] then ps @ [p] else ps)"

definition upgrades_insecure_requests :: "csp_list \<Rightarrow> bool" where
  "upgrades_insecure_requests ps =
     list_ex (\<lambda>p. cp_disposition p = Enforce \<and> list_ex (\<lambda>d. fst d = ''upgrade-insecure-requests'') (cp_directives p)) ps"

fun join_spaces :: "string list \<Rightarrow> string" where
  "join_spaces [] = []"
| "join_spaces [s] = s"
| "join_spaces (s # ss) = s @ '' '' @ join_spaces ss"

definition csp_sandbox_flags :: "csp_list \<Rightarrow> 32 word" where
  "csp_sandbox_flags ps =
     fold (\<lambda>p flags.
       (case directive_value p ''sandbox'' of
          Some v \<Rightarrow> sandbox_union flags (sandbox_parse (Some (join_spaces v)))
        | None \<Rightarrow> flags))
       (filter (\<lambda>p. cp_disposition p = Enforce) ps) sandbox_empty"

section \<open>Inline checks\<close>

fun allows_all_loop :: "inline_kind \<Rightarrow> string list \<Rightarrow> bool \<Rightarrow> bool" where
  "allows_all_loop kind [] allow = allow"
| "allows_all_loop kind (e # es) allow =
     (if is_nonce_source e \<or> is_hash_source e then False
      else if kind \<in> {KScript, KScriptAttribute, KNavigation} \<and> eq_ignore_ascii_case e (quoted ''strict-dynamic'') then False
      else allows_all_loop kind es (if eq_ignore_ascii_case e (quoted ''unsafe-inline'') then True else allow))"

definition allows_all_inline :: "string list \<Rightarrow> inline_kind \<Rightarrow> bool" where
  "allows_all_inline sources kind = allows_all_loop kind sources False"

fun element_loop :: "csp_crates \<Rightarrow> inline_script \<Rightarrow> string list \<Rightarrow> bool" where
  "element_loop cc i [] = False"
| "element_loop cc i (e # es) =
     (if eq_ignore_ascii_case e (quoted ''strict-dynamic'') \<and> is_kind i = KScript \<and> \<not> is_parser_inserted i then True
      else if hash_matches cc e (is_source i) then True
      else element_loop cc i es)"

definition element_matches :: "csp_crates \<Rightarrow> string list \<Rightarrow> inline_script \<Rightarrow> bool" where
  "element_matches cc sources i =
     (if allows_all_inline sources (is_kind i) then True
      else if is_kind i = KScript \<and> is_nonceable i \<and> nonce_matches (is_nonce i) sources then True
      else if \<not> (is_kind i = KScript \<or> has_keyword sources (quoted ''unsafe-hashes'')) then False
      else element_loop cc i sources)"

definition evaluation_blocks :: "csp_crates \<Rightarrow> string list \<Rightarrow> string \<Rightarrow> bool" where
  "evaluation_blocks cc sources source =
     (if has_keyword sources (quoted ''unsafe-eval'') then False
      else \<not> list_ex (\<lambda>e. hash_matches cc e source) sources)"

definition inline_check_blocks :: "csp_crates \<Rightarrow> effective \<Rightarrow> string list \<Rightarrow> inline_script \<Rightarrow> bool" where
  "inline_check_blocks cc eff sources i =
     (case eff of
        EScriptSrc \<Rightarrow> evaluation_blocks cc sources (is_source i)
      | EScriptSrcElem \<Rightarrow> \<not> element_matches cc sources i
      | EScriptSrcAttr \<Rightarrow> \<not> element_matches cc sources i
      | _ \<Rightarrow> False)"

section \<open>Request checks\<close>

definition request_check_blocks ::
  "csp_crates \<Rightarrow> effective \<Rightarrow> string list \<Rightarrow> origin \<Rightarrow> url \<Rightarrow> url \<Rightarrow> script_request option \<Rightarrow> nat \<Rightarrow> bool" where
  "request_check_blocks cc eff sources orig document_url u script redirects =
     (let script = (case script of Some s \<Rightarrow> s | None \<Rightarrow> \<lparr> sr_nonce = [], sr_parser_inserted = True, sr_integrity = [] \<rparr>);
          by_url = (\<not> url_matches_list cc u sources orig document_url redirects)
      in if redirects = 0 \<and> (eff = EScriptSrcElem \<or> eff = EScriptSrc) then
           (if nonce_matches (sr_nonce script) sources then False
            else if integrity_matches sources (sr_integrity script) then False
            else if has_keyword sources (quoted ''strict-dynamic'') then sr_parser_inserted script
            else by_url)
         else by_url)"

text \<open>The loop over the fallback list: the first directive that is present decides.\<close>

fun first_directive :: "csp_policy \<Rightarrow> string list \<Rightarrow> (string list \<Rightarrow> bool) \<Rightarrow> bool" where
  "first_directive p [] check = False"
| "first_directive p (name # names) check =
     (case directive_value p name of None \<Rightarrow> first_directive p names check | Some sources \<Rightarrow> check sources)"

definition policy_request_violation ::
  "csp_crates \<Rightarrow> csp_policy \<Rightarrow> origin \<Rightarrow> url \<Rightarrow> url \<Rightarrow> destination \<Rightarrow> script_request option \<Rightarrow> nat \<Rightarrow> bool" where
  "policy_request_violation cc p orig document_url u dest script redirects =
     (let eff = destination_effective dest
      in first_directive p (effective_fallback eff)
           (\<lambda>sources. request_check_blocks cc eff sources orig document_url u script redirects))"

definition policy_inline_violation :: "csp_crates \<Rightarrow> csp_policy \<Rightarrow> inline_script \<Rightarrow> bool" where
  "policy_inline_violation cc p i =
     (let eff = kind_effective (is_kind i)
      in first_directive p (effective_fallback eff) (\<lambda>sources. inline_check_blocks cc eff sources i))"

definition make_violation :: "csp_policy \<Rightarrow> string \<Rightarrow> string \<Rightarrow> string option \<Rightarrow> string \<Rightarrow> violation" where
  "make_violation p directive blocked sample document_uri =
     \<lparr> vi_effective_directive = directive, vi_original_policy = cp_serialized p, vi_disposition = cp_disposition p,
       vi_blocked_uri = blocked, vi_sample = sample, vi_document_uri = document_uri, vi_source_file = None,
       vi_line_number = 0, vi_column_number = 0, vi_status_code = 0, vi_report_uris = report_uris p, vi_report_to = report_to p \<rparr>"

definition csp_violations ::
  "csp_crates \<Rightarrow> csp_list \<Rightarrow> origin \<Rightarrow> url \<Rightarrow> url \<Rightarrow> destination \<Rightarrow> script_request option \<Rightarrow> nat \<Rightarrow> violation list" where
  "csp_violations cc ps orig document_url u dest script redirects =
     (let eff = destination_effective dest
      in map (\<lambda>p. make_violation p (effective_name eff) (csp_blocked_uri cc orig eff u) None (csp_strip_url cc document_url))
           (filter (\<lambda>p. policy_request_violation cc p orig document_url u dest script redirects) ps))"

definition check_request ::
  "csp_crates \<Rightarrow> csp_list \<Rightarrow> origin \<Rightarrow> url \<Rightarrow> url \<Rightarrow> destination \<Rightarrow> script_request option \<Rightarrow> violation list" where
  "check_request cc ps orig document_url u dest script = csp_violations cc ps orig document_url u dest script 0"

definition check_redirected_request ::
  "csp_crates \<Rightarrow> csp_list \<Rightarrow> origin \<Rightarrow> url \<Rightarrow> url \<Rightarrow> url \<Rightarrow> destination \<Rightarrow> violation list" where
  "check_redirected_request cc ps orig document_url response_url blocked_url dest =
     map (\<lambda>v. v\<lparr>vi_blocked_uri := csp_blocked_uri cc orig (destination_effective dest) blocked_url\<rparr>)
       (csp_violations cc ps orig document_url response_url dest None 1)"

definition check_inline :: "csp_crates \<Rightarrow> csp_list \<Rightarrow> url \<Rightarrow> inline_script \<Rightarrow> violation list" where
  "check_inline cc ps document_url i =
     map (\<lambda>p. make_violation p (effective_name (kind_effective (is_kind i))) (inline_blocked_uri (is_kind i))
                (Some (inline_sample i)) (csp_strip_url cc document_url))
       (filter (\<lambda>p. policy_inline_violation cc p i) ps)"

definition check_frame_ancestors :: "csp_crates \<Rightarrow> csp_list \<Rightarrow> url \<Rightarrow> url list \<Rightarrow> violation list" where
  "check_frame_ancestors cc ps child_url ancestors =
     map (\<lambda>p. make_violation p ''frame-ancestors'' (csp_strip_url cc child_url) None (csp_strip_url cc child_url))
       (filter (\<lambda>p. case directive_value p ''frame-ancestors'' of
                      None \<Rightarrow> False
                    | Some sources \<Rightarrow>
                        \<not> list_all (\<lambda>a. url_matches_list cc a sources (u_origin child_url) child_url 0) ancestors) ps)"

section \<open>Redirect hops\<close>

record tuple_origin =
  to_scheme :: string
  to_host :: string
  to_port :: "16 word"

definition tuple_from_origin :: "csp_crates \<Rightarrow> origin \<Rightarrow> tuple_origin option" where
  "tuple_from_origin cc orig =
     (case orig of
        Tuple scheme host port \<Rightarrow> Some \<lparr> to_scheme = scheme, to_host = cc_host_display cc host, to_port = port \<rparr>
      | Opaque _ \<Rightarrow> None)"

definition tuple_to_origin :: "csp_crates \<Rightarrow> tuple_origin \<Rightarrow> origin" where
  "tuple_to_origin cc t =
     Tuple (to_scheme t) (case cc_host_parse cc (to_host t) of Some h \<Rightarrow> h | None \<Rightarrow> Domain (to_host t)) (to_port t)"

record redirect_gate =
  rg_list :: csp_list
  rg_origin :: "tuple_origin option"
  rg_destination :: destination

definition redirect_gate_new :: "csp_crates \<Rightarrow> csp_list \<Rightarrow> origin \<Rightarrow> destination \<Rightarrow> redirect_gate" where
  "redirect_gate_new cc ps orig dest = \<lparr> rg_list = ps, rg_origin = tuple_from_origin cc orig, rg_destination = dest \<rparr>"

text \<open>\<open>Origin::new_opaque\<close> gives an origin unlike any other: its identity is an argument.\<close>

definition gate_origin :: "csp_crates \<Rightarrow> nat \<Rightarrow> redirect_gate \<Rightarrow> origin" where
  "gate_origin cc fresh g = (case rg_origin g of None \<Rightarrow> Opaque fresh | Some t \<Rightarrow> tuple_to_origin cc t)"

definition redirect_allows :: "csp_crates \<Rightarrow> nat \<Rightarrow> redirect_gate \<Rightarrow> url \<Rightarrow> url \<Rightarrow> nat \<Rightarrow> bool" where
  "redirect_allows cc fresh g document_url u redirects =
     (\<not> csp_blocks (csp_violations cc (rg_list g) (gate_origin cc fresh g) document_url u (rg_destination g) None redirects))"

definition redirected_violations :: "csp_crates \<Rightarrow> nat \<Rightarrow> redirect_gate \<Rightarrow> url \<Rightarrow> url \<Rightarrow> url \<Rightarrow> violation list" where
  "redirected_violations cc fresh g document_url response_url blocked_url =
     check_redirected_request cc (rg_list g) (gate_origin cc fresh g) document_url response_url blocked_url (rg_destination g)"

section \<open>Elements\<close>

partial_function (option) ancestor_is :: "base_document \<Rightarrow> nat option \<Rightarrow> string \<Rightarrow> bool option" where
  "ancestor_is base current name =
     (case current of
        None \<Rightarrow> Some False
      | Some node \<Rightarrow>
          if is_html_element base node name then Some True
          else ancestor_is base (Option.bind (get_node base node) bn_parent) name)"

definition meta_policy :: "base_document \<Rightarrow> nat \<Rightarrow> string option option" where
  "meta_policy base i =
     (if \<not> is_html_element base i ''meta'' then Some None
      else (case dom_attr base i ''http-equiv'' of
              None \<Rightarrow> Some None
            | Some http_equiv \<Rightarrow>
                if \<not> eq_ignore_ascii_case http_equiv ''content-security-policy'' then Some None
                else map_option (\<lambda>in_head. if in_head then dom_attr base i ''content'' else None)
                       (ancestor_is base (Some i) ''head'')))"

definition str_contains :: "string \<Rightarrow> string \<Rightarrow> bool" where
  "str_contains s needle = (split_once_str needle s \<noteq> None)"

definition nonce_attribute :: "dom_attribute \<Rightarrow> string \<times> bool \<Rightarrow> string \<times> bool" where
  "nonce_attribute a st =
     (let name = qn_local (at_name a);
          st = (if eq_ignore_ascii_case name ''nonce'' \<and> fst st = [] then (at_value a, True) else st)
      in if list_ex (\<lambda>needle. str_contains (to_ascii_lowercase name) needle \<or> str_contains (to_ascii_lowercase (at_value a)) needle)
              [''<link'', ''<script'', ''<style'']
         then (fst st, False) else st)"

definition element_nonce :: "base_document \<Rightarrow> nat \<Rightarrow> string option \<Rightarrow> string \<times> bool" where
  "element_nonce base i slot =
     (case Option.bind (get_node base i) bn_element of
        None \<Rightarrow> ([], False)
      | Some e \<Rightarrow>
          (let nonce = (case slot of Some s \<Rightarrow> s | None \<Rightarrow> []);
               (nonce, nonceable) = fold nonce_attribute (el_attrs e) (nonce, nonce \<noteq> [])
           in (nonce, if nonce = [] then False else nonceable)))"

end
