(* ===== verification/Csp_Props.thy ===== *)
theory Csp_Props
  imports Csp Dom_Trees
begin

text \<open>
  What a Content Security Policy enforces: which requests and scripts it blocks, against declarative definitions; that policies parse to a
  normal form; how source paths match; and that integrity metadata cannot be weakened.
\<close>

section \<open>The directive that decides\<close>

text \<open>The value of the first directive of the fallback list that the policy has.\<close>

definition governing :: "csp_policy \<Rightarrow> effective \<Rightarrow> string list option" where
  "governing p eff =
     Option.bind (find (\<lambda>name. directive_value p name \<noteq> None) (effective_fallback eff)) (directive_value p)"

lemma first_directive_find:
  "first_directive p names check =
     (\<exists>sources. Option.bind (find (\<lambda>name. directive_value p name \<noteq> None) names) (directive_value p) = Some sources \<and> check sources)"
  by (induction names) (auto split: option.splits)

lemma first_directive_governing:
  "first_directive p (effective_fallback eff) check \<longleftrightarrow> (\<exists>sources. governing p eff = Some sources \<and> check sources)"
  by (simp only: first_directive_find governing_def)

lemma make_violation_blocks [simp]: "violation_blocks (make_violation p d b s u) = (cp_disposition p = Enforce)"
  by (simp add: violation_blocks_def make_violation_def)

lemma csp_blocks_map:
  "csp_blocks (map (\<lambda>p. make_violation p d b s u) (filter P ps)) \<longleftrightarrow> (\<exists>p \<in> set ps. P p \<and> cp_disposition p = Enforce)"
  by (auto simp: csp_blocks_def list_ex_iff)

section \<open>What lets a request through\<close>

text \<open>The directives that can decide for a destination, the most specific one first.\<close>

fun deciding_directives :: "destination \<Rightarrow> string list" where
  "deciding_directives DConnect = [''connect-src'', ''default-src'']"
| "deciding_directives DScript = [''script-src-elem'', ''script-src'', ''default-src'']"
| "deciding_directives DStyleSheet = [''style-src-elem'', ''style-src'', ''default-src'']"
| "deciding_directives DImg = [''img-src'', ''default-src'']"
| "deciding_directives DFont = [''font-src'', ''default-src'']"
| "deciding_directives DFrame = [''frame-src'', ''child-src'', ''default-src'']"

text \<open>The policy's source list for a destination: that of a directive it has, where it has no more specific one.\<close>

definition decides :: "csp_policy \<Rightarrow> destination \<Rightarrow> string list \<Rightarrow> bool" where
  "decides p dest sources \<longleftrightarrow>
     (\<exists>specific d general. deciding_directives dest = specific @ d # general \<and>
        map_of (cp_directives p) d = Some sources \<and> (\<forall>d' \<in> set specific. map_of (cp_directives p) d' = None))"

text \<open>Base64 text: characters of the alphabet, then at most two equals signs.\<close>

definition base64_text :: "string \<Rightarrow> bool" where
  "base64_text s \<longleftrightarrow>
     (\<exists>body n. s = body @ replicate n CHR ''='' \<and> body \<noteq> [] \<and> n \<le> 2 \<and> (\<forall>c \<in> set body. is_alphanumeric c \<or> c \<in> set ''+/-_''))"

text \<open>The list has \<open>'nonce-N'\<close> for the nonce \<open>N\<close> of the element; only the word \<open>nonce\<close> ignores case.\<close>

definition nonce_listed :: "string \<Rightarrow> string list \<Rightarrow> bool" where
  "nonce_listed n sources \<longleftrightarrow>
     base64_text n \<and> (\<exists>pre. to_ascii_lowercase pre = CHR 39 # ''nonce-'' \<and> pre @ n @ [CHR 39] \<in> set sources)"

definition digest_name :: "string \<Rightarrow> string \<Rightarrow> bool" where
  "digest_name written alg \<longleftrightarrow> alg \<in> {''sha256'', ''sha384'', ''sha512''} \<and> to_ascii_lowercase written = alg"

text \<open>The list has \<open>'alg-V'\<close>.\<close>

definition hash_listed :: "string \<Rightarrow> string \<Rightarrow> string list \<Rightarrow> bool" where
  "hash_listed alg v sources \<longleftrightarrow>
     base64_text v \<and> (\<exists>written. digest_name written alg \<and> CHR 39 # written @ CHR ''-'' # v @ [CHR 39] \<in> set sources)"

text \<open>The \<open>integrity\<close> attribute has the entry \<open>alg-V\<close>, perhaps with options after a question mark.\<close>

definition integrity_has :: "string \<Rightarrow> string \<Rightarrow> string \<Rightarrow> bool" where
  "integrity_has integrity alg v \<longleftrightarrow>
     base64_text v \<and> (\<exists>written opts. digest_name written alg \<and> (opts = [] \<or> hd opts = CHR ''?'') \<and>
       written @ CHR ''-'' # v @ opts \<in> set (csp_split_ascii_whitespace integrity))"

definition integrity_listed :: "string \<Rightarrow> string list \<Rightarrow> bool" where
  "integrity_listed integrity sources \<longleftrightarrow>
     (\<exists>alg v. integrity_has integrity alg v) \<and> (\<forall>alg v. integrity_has integrity alg v \<longrightarrow> hash_listed alg v sources)"

text \<open>Why a source list lets a request through.\<close>

definition request_admitted ::
  "csp_crates \<Rightarrow> string list \<Rightarrow> origin \<Rightarrow> url \<Rightarrow> url \<Rightarrow> destination \<Rightarrow> script_request option \<Rightarrow> bool" where
  "request_admitted cc sources orig document_url u dest script \<longleftrightarrow>
     (dest = DScript \<and> (\<exists>s. script = Some s \<and> (nonce_listed (sr_nonce s) sources \<or> integrity_listed (sr_integrity s) sources))) \<or>
     (if dest = DScript \<and> (\<exists>e \<in> set sources. to_ascii_lowercase e = CHR 39 # ''strict-dynamic'' @ [CHR 39])
      then \<exists>s. script = Some s \<and> \<not> sr_parser_inserted s
      else \<exists>e \<in> set sources. url_matches_expression cc u e orig document_url 0)"

subsection \<open>The code's helpers against these definitions\<close>

lemma map_of_directive: "directive_value p d = map_of (cp_directives p) d"
proof -
  have "map_option snd (find (\<lambda>e. fst e = d) ds) = map_of ds d" for ds :: "(string \<times> string list) list"
    by (induction ds) auto
  then show ?thesis by (simp add: directive_value_def)
qed

lemma find_first: "find P xs = Some x \<longleftrightarrow> (\<exists>us vs. xs = us @ x # vs \<and> P x \<and> (\<forall>u \<in> set us. \<not> P u))"
proof (induction xs)
  case (Cons a xs)
  show ?case
  proof (cases "P a")
    case True
    then show ?thesis by (auto simp: Cons_eq_append_conv)
  next
    case False
    have "(\<exists>us vs. a # xs = us @ x # vs \<and> P x \<and> (\<forall>u \<in> set us. \<not> P u)) \<longleftrightarrow> (\<exists>us vs. xs = us @ x # vs \<and> P x \<and> (\<forall>u \<in> set us. \<not> P u))"
      (is "?l \<longleftrightarrow> ?r")
    proof
      assume ?l
      then obtain us vs where u: "a # xs = us @ x # vs" "P x" "\<forall>u \<in> set us. \<not> P u" by blast
      then obtain us' where "us = a # us'" using False by (cases us) auto
      then show ?r using u by (intro exI[of _ us'] exI[of _ vs]) simp
    next
      assume ?r
      then obtain us vs where "xs = us @ x # vs" "P x" "\<forall>u \<in> set us. \<not> P u" by blast
      then show ?l using False by (intro exI[of _ "a # us"] exI[of _ vs]) simp
    qed
    then show ?thesis using Cons.IH False by simp
  qed
qed simp

lemma governing_decides: "governing p (destination_effective dest) = Some sources \<longleftrightarrow> decides p dest sources"
proof -
  have "effective_fallback (destination_effective dest) = deciding_directives dest" by (cases dest) simp_all
  then show ?thesis
    by (auto simp: governing_def decides_def bind_eq_Some_conv find_first map_of_directive)
qed

lemma base64_padding: "0 < k \<Longrightarrow> k \<le> 2 \<Longrightarrow> base64_loop True k s \<longleftrightarrow> (\<exists>n. s = replicate n CHR ''='' \<and> k + n \<le> 2)"
proof (induction s arbitrary: k)
  case (Cons c s)
  have "(\<exists>n. c # s = replicate n CHR ''='' \<and> k + n \<le> 2) \<longleftrightarrow> c = CHR ''='' \<and> (\<exists>n. s = replicate n CHR ''='' \<and> Suc k + n \<le> 2)"
    (is "?l \<longleftrightarrow> ?r")
  proof
    assume ?l
    then obtain n where "c # s = replicate n CHR ''=''" "k + n \<le> 2" by blast
    then show ?r by (cases n) auto
  next
    assume ?r
    then obtain n where "c = CHR ''=''" "s = replicate n CHR ''=''" "Suc k + n \<le> 2" by blast
    then show ?l by (intro exI[of _ "Suc n"]) simp
  qed
  then show ?case using Cons.IH[of "Suc k"] Cons.prems by (auto split: if_splits)
qed auto

lemma base64_loop_text:
  "base64_loop saw 0 s \<longleftrightarrow>
     (\<exists>body n. s = body @ replicate n CHR ''='' \<and> (saw \<or> body \<noteq> []) \<and> n \<le> 2 \<and>
        (\<forall>c \<in> set body. is_alphanumeric c \<or> c \<in> set ''+/-_''))"
proof (induction s arbitrary: saw)
  case (Cons c s)
  have eq: "\<not> is_alphanumeric CHR ''=''" by (simp add: is_alphanumeric_def is_alphabetic_def is_ascii_digit_def)
  show ?case
  proof (cases "c = CHR ''=''")
    case True
    have "(\<exists>body n. c # s = body @ replicate n CHR ''='' \<and> (saw \<or> body \<noteq> []) \<and> n \<le> 2 \<and>
        (\<forall>c \<in> set body. is_alphanumeric c \<or> c \<in> set ''+/-_'')) \<longleftrightarrow> saw \<and> (\<exists>n. s = replicate n CHR ''='' \<and> 1 + n \<le> 2)"
      (is "?l \<longleftrightarrow> ?r")
    proof
      assume ?l
      then obtain body n where b: "c # s = body @ replicate n CHR ''=''" "saw \<or> body \<noteq> []" "n \<le> 2"
        "\<forall>c \<in> set body. is_alphanumeric c \<or> c \<in> set ''+/-_''" by blast
      have "body = []" using b(1,4) True eq by (cases body) auto
      then obtain m where "n = Suc m" using b(1) by (cases n) auto
      then show ?r using b \<open>body = []\<close> by auto
    next
      assume ?r
      then obtain n where "saw" "s = replicate n CHR ''=''" "1 + n \<le> 2" by blast
      then show ?l using True by (intro exI[of _ "[]"] exI[of _ "Suc n"]) simp
    qed
    then show ?thesis using True base64_padding[of 1 s] by (cases saw) auto
  next
    case False
    have "(\<exists>body n. c # s = body @ replicate n CHR ''='' \<and> (saw \<or> body \<noteq> []) \<and> n \<le> 2 \<and>
        (\<forall>c \<in> set body. is_alphanumeric c \<or> c \<in> set ''+/-_'')) \<longleftrightarrow> (is_alphanumeric c \<or> c \<in> set ''+/-_'') \<and>
        (\<exists>body n. s = body @ replicate n CHR ''='' \<and> n \<le> 2 \<and> (\<forall>c \<in> set body. is_alphanumeric c \<or> c \<in> set ''+/-_''))"
      (is "?l \<longleftrightarrow> ?r")
    proof
      assume ?l
      then obtain body n where b: "c # s = body @ replicate n CHR ''=''" "n \<le> 2"
        "\<forall>c \<in> set body. is_alphanumeric c \<or> c \<in> set ''+/-_''" by blast
      obtain body' where "body = c # body'" using b(1) False by (cases body; cases n) auto
      then show ?r using b by auto
    next
      assume ?r
      then obtain body n where "is_alphanumeric c \<or> c \<in> set ''+/-_''" "s = body @ replicate n CHR ''=''" "n \<le> 2"
        "\<forall>c \<in> set body. is_alphanumeric c \<or> c \<in> set ''+/-_''" by blast
      then show ?l by (intro exI[of _ "c # body"] exI[of _ n]) simp
    qed
    then show ?thesis using Cons.IH[of True] False by simp
  qed
qed auto

lemma base64_text_eq: "is_base64_value s = base64_text s"
  by (simp add: is_base64_value_def base64_text_def base64_loop_text)

lemma strip_suffix_eq: "strip_suffix q s = Some v \<longleftrightarrow> s = v @ q"
proof
  assume "strip_suffix q s = Some v"
  then have "drop (length s - length q) s = q" "v = take (length s - length q) s"
    by (auto simp: strip_suffix_def ends_with_def split: if_splits)
  then show "s = v @ q" by (metis append_take_drop_id)
qed (simp add: strip_suffix_def ends_with_def)

lemma strip_prefix_eq: "strip_prefix q s = Some v \<longleftrightarrow> s = q @ v"
  by (auto simp: strip_prefix_def starts_with_def) (metis append_take_drop_id)

lemma strip_nocase_eq:
  "strip_prefix_ignore_ascii_case s q = Some v \<longleftrightarrow> (\<exists>pre. s = pre @ v \<and> to_ascii_lowercase pre = to_ascii_lowercase q)"
proof
  assume "strip_prefix_ignore_ascii_case s q = Some v"
  then show "\<exists>pre. s = pre @ v \<and> to_ascii_lowercase pre = to_ascii_lowercase q"
    by (intro exI[of _ "take (length q) s"])
      (auto simp: strip_prefix_ignore_ascii_case_def eq_ignore_ascii_case_def split: if_splits)
next
  assume "\<exists>pre. s = pre @ v \<and> to_ascii_lowercase pre = to_ascii_lowercase q"
  then obtain pre where "s = pre @ v" "to_ascii_lowercase pre = to_ascii_lowercase q" by blast
  moreover have "length pre = length q" using arg_cong[OF calculation(2), of length] by (simp add: to_ascii_lowercase_def)
  ultimately show "strip_prefix_ignore_ascii_case s q = Some v"
    by (simp add: strip_prefix_ignore_ascii_case_def eq_ignore_ascii_case_def)
qed

lemma split_once_eq: "split_once d s = Some (a, b) \<longleftrightarrow> s = a @ d # b \<and> d \<notin> set a"
proof (induction s arbitrary: a)
  case (Cons c s)
  show ?case
  proof (cases "c = d")
    case True
    then show ?thesis by (cases a) auto
  next
    case False
    then show ?thesis using Cons.IH by (cases a) auto
  qed
qed simp

lemma split_once_no: "split_once d s = None \<longleftrightarrow> d \<notin> set s"
  by (induction s) auto

lemma nonce_listed_eq: "nonce_matches n sources = nonce_listed n sources"
proof -
  have "to_ascii_lowercase NONCE_PREFIX = CHR 39 # ''nonce-''"
    by (simp add: NONCE_PREFIX_def to_ascii_lowercase_def ascii_lower_char_def)
  then have "Option.bind (strip_prefix_ignore_ascii_case e NONCE_PREFIX) (strip_suffix [CHR 39]) = Some v \<longleftrightarrow>
      (\<exists>pre. to_ascii_lowercase pre = CHR 39 # ''nonce-'' \<and> e = pre @ v @ [CHR 39])" for e v
    by (auto simp: bind_eq_Some_conv strip_nocase_eq strip_suffix_eq)
  then have one: "Option.bind (strip_prefix_ignore_ascii_case e NONCE_PREFIX) (strip_suffix [CHR 39]) = Some n \<longleftrightarrow>
      (\<exists>pre. to_ascii_lowercase pre = CHR 39 # ''nonce-'' \<and> e = pre @ n @ [CHR 39])" for e .
  have "(case r of None \<Rightarrow> False | Some v \<Rightarrow> v = n \<and> is_base64_value v) \<longleftrightarrow> r = Some n \<and> base64_text n" for r
    by (cases r) (auto simp: base64_text_eq)
  then have "nonce_matches n sources \<longleftrightarrow> n \<noteq> [] \<and> base64_text n \<and>
      (\<exists>e \<in> set sources. Option.bind (strip_prefix_ignore_ascii_case e NONCE_PREFIX) (strip_suffix [CHR 39]) = Some n)"
    unfolding nonce_matches_def list_ex_iff by auto
  then have "nonce_matches n sources \<longleftrightarrow> n \<noteq> [] \<and> nonce_listed n sources"
    unfolding nonce_listed_def one by blast
  moreover have "n = [] \<Longrightarrow> \<not> base64_text n" by (simp add: base64_text_def)
  ultimately show ?thesis by (auto simp: nonce_listed_def)
qed

lemma lower_digest_names:
  "to_ascii_lowercase ''sha256'' = ''sha256''" "to_ascii_lowercase ''sha384'' = ''sha384''" "to_ascii_lowercase ''sha512'' = ''sha512''"
  by (simp_all add: to_ascii_lowercase_def ascii_lower_char_def)

lemma digest_name_eq: "csp_algorithm w = Some alg \<longleftrightarrow> digest_name w alg"
  by (auto simp: csp_algorithm_def digest_name_def eq_ignore_ascii_case_def lower_digest_names)

lemma digest_name_plain:
  assumes "digest_name w alg"
  shows "CHR ''-'' \<notin> set w"
proof
  assume "CHR ''-'' \<in> set w"
  then have "ascii_lower_char CHR ''-'' \<in> set (to_ascii_lowercase w)" by (simp add: to_ascii_lowercase_def)
  then show False using assms by (auto simp: digest_name_def ascii_lower_char_def)
qed

lemma hash_source_iff:
  "hash_source e = Some (alg, v) \<longleftrightarrow> base64_text v \<and> (\<exists>w. digest_name w alg \<and> e = CHR 39 # w @ CHR ''-'' # v @ [CHR 39])"
    (is "?l \<longleftrightarrow> ?r")
proof
  assume ?l
  then show ?r
    by (auto simp: hash_source_def bind_eq_Some_conv strip_prefix_eq split_once_eq digest_name_eq strip_suffix_eq base64_text_eq
        split: if_splits)
next
  assume ?r
  then obtain w where w: "base64_text v" "digest_name w alg" "e = CHR 39 # w @ CHR ''-'' # v @ [CHR 39]" by blast
  have "strip_prefix [CHR 39] e = Some (w @ CHR ''-'' # v @ [CHR 39])" using w(3) by (simp add: strip_prefix_eq)
  moreover have "split_once CHR ''-'' (w @ CHR ''-'' # v @ [CHR 39]) = Some (w, v @ [CHR 39])"
    using digest_name_plain[OF w(2)] by (simp add: split_once_eq)
  moreover have "csp_algorithm w = Some alg" using w(2) by (simp add: digest_name_eq)
  moreover have "strip_suffix [CHR 39] (v @ [CHR 39]) = Some v" by (simp add: strip_suffix_eq)
  ultimately show ?l using w(1) by (simp add: hash_source_def base64_text_eq)
qed

lemma hash_source_eq: "(\<exists>e \<in> set sources. hash_source e = Some (alg, v)) \<longleftrightarrow> hash_listed alg v sources"
  unfolding hash_listed_def hash_source_iff by blast

lemma base64_no_question:
  assumes "base64_text v"
  shows "CHR ''?'' \<notin> set v"
proof
  assume "CHR ''?'' \<in> set v"
  then have "is_alphanumeric CHR ''?'' \<or> CHR ''?'' \<in> set ''+/-_=''"
    using assms by (auto simp: base64_text_def split: if_splits)
  then show False by (simp add: is_alphanumeric_def is_alphabetic_def is_ascii_digit_def)
qed

lemma integrity_entry_eq:
  "integrity_entry t = Some (alg, v) \<longleftrightarrow> base64_text v \<and>
     (\<exists>w opts. digest_name w alg \<and> (opts = [] \<or> hd opts = CHR ''?'') \<and> t = w @ CHR ''-'' # v @ opts)" (is "?l \<longleftrightarrow> ?r")
proof
  assume ?l
  then obtain w rest where w: "t = w @ CHR ''-'' # rest" "digest_name w alg" "base64_text v"
    "v = (case split_once CHR ''?'' rest of Some (v, _) \<Rightarrow> v | None \<Rightarrow> rest)"
    by (auto simp: integrity_entry_def bind_eq_Some_conv split_once_eq digest_name_eq base64_text_eq Let_def split: if_splits)
  have "\<exists>opts. (opts = [] \<or> hd opts = CHR ''?'') \<and> rest = v @ opts"
  proof (cases "split_once CHR ''?'' rest")
    case None
    then show ?thesis using w(4) by simp
  next
    case (Some r)
    then obtain o' where "rest = v @ CHR ''?'' # o'" using w(4) by (cases r) (auto simp: split_once_eq)
    then show ?thesis by (intro exI[of _ "CHR ''?'' # o'"]) simp
  qed
  then show ?r using w by blast
next
  assume ?r
  then obtain w opts where w: "digest_name w alg" "opts = [] \<or> hd opts = CHR ''?''" "t = w @ CHR ''-'' # v @ opts" "base64_text v"
    by blast
  have "(case split_once CHR ''?'' (v @ opts) of Some (v, _) \<Rightarrow> v | None \<Rightarrow> v @ opts) = v"
  proof (cases opts)
    case Nil
    then have "split_once CHR ''?'' (v @ opts) = None" using base64_no_question[OF w(4)] by (simp add: split_once_no)
    then show ?thesis using Nil by simp
  next
    case (Cons c o')
    then have "split_once CHR ''?'' (v @ opts) = Some (v, o')" using w(2) base64_no_question[OF w(4)] by (simp add: split_once_eq)
    then show ?thesis by simp
  qed
  moreover have "split_once CHR ''-'' t = Some (w, v @ opts)" using w(3) digest_name_plain[OF w(1)] by (simp add: split_once_eq)
  moreover have "csp_algorithm w = Some alg" using w(1) by (simp add: digest_name_eq)
  ultimately show ?l using w(4) by (simp add: integrity_entry_def base64_text_eq)
qed

lemma integrity_listed_eq: "integrity_matches sources integrity = integrity_listed integrity sources"
proof -
  have entries: "(alg, v) \<in> set (parse_integrity_metadata integrity) \<longleftrightarrow> integrity_has integrity alg v" for alg v
  proof -
    have "(alg, v) \<in> set (parse_integrity_metadata integrity) \<longleftrightarrow>
        (\<exists>t \<in> set (csp_split_ascii_whitespace integrity). integrity_entry t = Some (alg, v))"
      by (force simp: parse_integrity_metadata_def List.map_filter_def image_iff)
    then show ?thesis unfolding integrity_has_def integrity_entry_eq by blast
  qed
  have hashes: "(alg, v) \<in> set (List.map_filter hash_source sources) \<longleftrightarrow> hash_listed alg v sources" for alg v
    unfolding hash_source_eq[symmetric] by (force simp: List.map_filter_def image_iff)
  have lower: "to_ascii_lowercase alg = alg" if "hash_listed alg v sources \<or> integrity_has integrity alg v" for alg v
    using that by (auto simp: hash_listed_def integrity_has_def digest_name_def lower_digest_names)
  have some: "xs \<noteq> [] \<longleftrightarrow> (\<exists>a b. (a, b) \<in> set xs)" for xs :: "(string \<times> string) list" by (cases xs) auto
  have "integrity_matches sources integrity \<longleftrightarrow> List.map_filter hash_source sources \<noteq> [] \<and> parse_integrity_metadata integrity \<noteq> [] \<and>
      (\<forall>alg v. integrity_has integrity alg v \<longrightarrow> (\<exists>alg'. to_ascii_lowercase alg' = to_ascii_lowercase alg \<and> hash_listed alg' v sources))"
    unfolding entries[symmetric] hashes[symmetric]
    by (auto simp: integrity_matches_def Let_def list_all_iff list_ex_iff eq_ignore_ascii_case_def) blast+
  also have "\<dots> \<longleftrightarrow> List.map_filter hash_source sources \<noteq> [] \<and> parse_integrity_metadata integrity \<noteq> [] \<and>
      (\<forall>alg v. integrity_has integrity alg v \<longrightarrow> hash_listed alg v sources)"
    using lower by metis
  also have "\<dots> \<longleftrightarrow> integrity_listed integrity sources"
    unfolding integrity_listed_def entries[symmetric] hashes[symmetric] some by blast
  finally show ?thesis .
qed

text \<open>\<open>'none'\<close> matches no URL, so a list that has only this expression needs no rule of its own.\<close>

lemma lower_quote: "ascii_lower_char c = CHR 39 \<Longrightarrow> c = CHR 39"
proof (rule ccontr)
  assume c: "ascii_lower_char c = CHR 39" "c \<noteq> CHR 39"
  then have up: "char_of (byte c + 32) = CHR 39" "65 \<le> byte c" "byte c \<le> 90" by (auto simp: ascii_lower_char_def split: if_splits)
  have "(byte c + 32) mod 256 = 39" using arg_cong[OF up(1), of "of_char :: char \<Rightarrow> nat"] by (simp only: of_char_of) simp
  then show False using up(2,3) by simp
qed

lemma none_matches_nothing: "eq_ignore_ascii_case e (quoted ''none'') \<Longrightarrow> \<not> url_matches_expression cc u e orig document_url n"
proof -
  assume e: "eq_ignore_ascii_case e (quoted ''none'')"
  have "ascii_lower_char CHR 39 = CHR 39" by (simp add: ascii_lower_char_def)
  then have "map ascii_lower_char e \<noteq> [] \<and> hd (map ascii_lower_char e) = CHR 39"
    using e by (simp add: eq_ignore_ascii_case_def quoted_def to_ascii_lowercase_def)
  then obtain e' where "e = CHR 39 # e'" using lower_quote by (cases e) auto
  moreover from this have "parse_source e = None" by (simp add: parse_source_def starts_with_def)
  moreover have "\<not> eq_ignore_ascii_case e (quoted ''self'')"
    using e by (simp add: eq_ignore_ascii_case_def quoted_def to_ascii_lowercase_def ascii_lower_char_def)
  ultimately show ?thesis by (simp add: url_matches_expression_def)
qed

lemma url_matches_list_eq:
  "url_matches_list cc u sources orig document_url n \<longleftrightarrow> (\<exists>e \<in> set sources. url_matches_expression cc u e orig document_url n)"
proof (cases "length sources = 1")
  case True
  then obtain e where "sources = [e]" by (auto simp: length_Suc_conv)
  then show ?thesis using none_matches_nothing[of e] by (auto simp: url_matches_list_def)
qed (auto simp: url_matches_list_def list_ex_iff)

lemma request_admitted_eq:
  "request_check_blocks cc (destination_effective dest) sources orig document_url u script 0 \<longleftrightarrow>
     \<not> request_admitted cc sources orig document_url u dest script"
proof -
  have strict: "has_keyword sources (quoted ''strict-dynamic'') \<longleftrightarrow>
      (\<exists>e \<in> set sources. to_ascii_lowercase e = CHR 39 # ''strict-dynamic'' @ [CHR 39])"
    by (simp add: has_keyword_def list_ex_iff eq_ignore_ascii_case_def quoted_def to_ascii_lowercase_def ascii_lower_char_def)
  have "\<not> nonce_listed [] sources" "\<not> integrity_listed [] sources"
    by (simp_all add: nonce_listed_def base64_text_def integrity_listed_def integrity_has_def csp_split_ascii_whitespace_def)
  then show ?thesis
    by (cases dest; cases script)
      (simp_all add: request_check_blocks_def request_admitted_def nonce_listed_eq integrity_listed_eq url_matches_list_eq strict)
qed

text \<open>\<^bold>\<open>C33.\<close> A request is blocked exactly when some enforced policy has a source list for its destination and that list does not admit
  it. The list is that of the most specific directive the policy has (for a script \<open>script-src-elem\<close>, then \<open>script-src\<close>, then
  \<open>default-src\<close>, and so on). It admits a script by its nonce, by integrity metadata whose every entry is a listed hash, and, where
  it has \<open>'strict-dynamic'\<close>, otherwise only when the script was not inserted by the parser; everything else it admits exactly when
  one of its expressions matches the URL. Policies that only report never block, and no policy can lift what another one blocks.\<close>

theorem request_decision:
  "csp_blocks (check_request cc ps orig document_url u dest script) \<longleftrightarrow>
     (\<exists>p \<in> set ps. cp_disposition p = Enforce \<and>
        (\<exists>sources. decides p dest sources \<and> \<not> request_admitted cc sources orig document_url u dest script))"
  by (auto simp: check_request_def csp_violations_def Let_def csp_blocks_map policy_request_violation_def first_directive_governing
      governing_decides request_admitted_eq)

section \<open>Inline scripts\<close>

definition unsafe_inline_applies :: "string list \<Rightarrow> inline_kind \<Rightarrow> bool" where
  "unsafe_inline_applies sources kind =
     (has_keyword sources (quoted ''unsafe-inline'') \<and> (\<forall>e \<in> set sources. \<not> is_nonce_source e \<and> \<not> is_hash_source e) \<and>
      (kind = KEvaluation \<or> \<not> has_keyword sources (quoted ''strict-dynamic'')))"

text \<open>Why a source list may let inline code run.\<close>

definition inline_allowed :: "csp_crates \<Rightarrow> string list \<Rightarrow> inline_script \<Rightarrow> bool" where
  "inline_allowed cc sources i =
     (if is_kind i = KEvaluation then
        has_keyword sources (quoted ''unsafe-eval'') \<or> (\<exists>e \<in> set sources. hash_matches cc e (is_source i))
      else
        unsafe_inline_applies sources (is_kind i) \<or>
        (is_kind i = KScript \<and> is_nonceable i \<and> nonce_matches (is_nonce i) sources) \<or>
        ((is_kind i = KScript \<or> has_keyword sources (quoted ''unsafe-hashes'')) \<and> (\<exists>e \<in> set sources. hash_matches cc e (is_source i))) \<or>
        (is_kind i = KScript \<and> \<not> is_parser_inserted i \<and> has_keyword sources (quoted ''strict-dynamic'')))"

lemma has_keyword_Cons [simp]: "has_keyword (e # es) k = (eq_ignore_ascii_case e k \<or> has_keyword es k)"
  by (simp add: has_keyword_def)

lemma has_keyword_Nil [simp]: "\<not> has_keyword [] k"
  by (simp add: has_keyword_def)

lemma allows_all_loop_eq:
  "kind \<noteq> KEvaluation \<Longrightarrow> allows_all_loop kind es allow \<longleftrightarrow>
     (allow \<or> has_keyword es (quoted ''unsafe-inline'')) \<and> (\<forall>e \<in> set es. \<not> is_nonce_source e \<and> \<not> is_hash_source e) \<and>
     \<not> has_keyword es (quoted ''strict-dynamic'')"
  by (induction es arbitrary: allow) (cases kind; auto)+

lemma element_loop_eq:
  "element_loop cc i es \<longleftrightarrow>
     (is_kind i = KScript \<and> \<not> is_parser_inserted i \<and> has_keyword es (quoted ''strict-dynamic'')) \<or>
     (\<exists>e \<in> set es. hash_matches cc e (is_source i))"
  by (induction es) auto

lemma inline_check_allowed: "inline_check_blocks cc (kind_effective (is_kind i)) sources i \<longleftrightarrow> \<not> inline_allowed cc sources i"
proof (cases "is_kind i = KEvaluation")
  case True
  then show ?thesis by (simp add: inline_check_blocks_def evaluation_blocks_def inline_allowed_def list_ex_iff)
next
  case False
  then have "inline_check_blocks cc (kind_effective (is_kind i)) sources i \<longleftrightarrow> \<not> element_matches cc sources i"
    by (cases "is_kind i") (simp_all add: inline_check_blocks_def)
  also have "\<dots> \<longleftrightarrow> \<not> inline_allowed cc sources i"
    using False by (auto simp: element_matches_def allows_all_inline_def allows_all_loop_eq element_loop_eq inline_allowed_def unsafe_inline_applies_def)
  finally show ?thesis .
qed

text \<open>\<^bold>\<open>C10.\<close> Inline script, a \<open>javascript:\<close> navigation, an event handler attribute or \<open>eval\<close> is blocked exactly when the governing list
  of some enforced policy gives none of the reasons to allow it: \<open>'unsafe-inline'\<close> in a list without nonces, hashes and \<open>'strict-dynamic'\<close>; for script elements also the nonce, or \<open>'strict-dynamic'\<close> when script inserted
  it; a hash, which outside script elements needs \<open>'unsafe-hashes'\<close>; for \<open>eval\<close> only \<open>'unsafe-eval'\<close> or a hash.\<close>

theorem inline_decision:
  "csp_blocks (check_inline cc ps document_url i) \<longleftrightarrow>
     (\<exists>p \<in> set ps. cp_disposition p = Enforce \<and>
        (\<exists>sources. governing p (kind_effective (is_kind i)) = Some sources \<and> \<not> inline_allowed cc sources i))"
  by (auto simp: check_inline_def csp_blocks_map policy_inline_violation_def first_directive_governing inline_check_allowed)

section \<open>Parsed policies\<close>

definition directive_ok :: "string \<times> string list \<Rightarrow> bool" where
  "directive_ok d =
     (fst d \<noteq> [] \<and> to_ascii_lowercase (fst d) = fst d \<and> is_ascii_str (fst d) \<and>
      (\<forall>v \<in> set (snd d). v \<noteq> [] \<and> is_ascii_str v \<and> (\<forall>c \<in> set v. c \<notin> set csp_ws)))"

definition policy_wf :: "csp_policy \<Rightarrow> bool" where
  "policy_wf p =
     (cp_directives p \<noteq> [] \<and> distinct (map fst (cp_directives p)) \<and> (\<forall>d \<in> set (cp_directives p). directive_ok d))"

lemma split_by_parts: "x \<in> set (split_by P s) \<Longrightarrow> c \<in> set x \<Longrightarrow> c \<in> set s \<and> \<not> P c"
proof (induction s arbitrary: x)
  case (Cons a s)
  then show ?case by (cases "P a"; cases "split_by P s") (auto, blast+)
qed simp

lemma split_ws_parts:
  assumes "x \<in> set (csp_split_ascii_whitespace s)" "is_ascii_str s"
  shows "x \<noteq> []" "is_ascii_str x" "\<forall>c \<in> set x. c \<notin> set csp_ws"
proof -
  have x: "x \<noteq> []" "x \<in> set (split_by (\<lambda>c. c \<in> set csp_ws) s)" using assms(1) by (simp_all add: csp_split_ascii_whitespace_def)
  show "x \<noteq> []" by (rule x(1))
  show "is_ascii_str x" using split_by_parts[OF x(2)] assms(2) by (simp add: is_ascii_str_def list_all_iff)
  show "\<forall>c \<in> set x. c \<notin> set csp_ws" using split_by_parts[OF x(2)] by blast
qed

lemma ascii_lower_ascii: "is_ascii_str s \<Longrightarrow> is_ascii_str (to_ascii_lowercase s)"
  by (auto simp: is_ascii_str_def to_ascii_lowercase_def ascii_lower_char_def list_all_iff)

lemma parse_directives_ok:
  "distinct (map fst ds) \<Longrightarrow> \<forall>d \<in> set ds. directive_ok d \<Longrightarrow>
     distinct (map fst (parse_directives raws ds)) \<and> (\<forall>d \<in> set (parse_directives raws ds). directive_ok d)"
proof (induction raws arbitrary: ds)
  case (Cons raw raws)
  note IH = Cons.IH and prems = Cons.prems
  let ?token = "trim_ascii raw"
  show ?case
  proof (cases "?token = [] \<or> \<not> is_ascii_str ?token")
    case True
    then show ?thesis using IH[OF prems] by simp
  next
    case False
    show ?thesis
    proof (cases "csp_split_ascii_whitespace ?token")
      case Nil
      then show ?thesis using IH[OF prems] False by simp
    next
      case (Cons name vals)
      have parts: "\<forall>x \<in> set (name # vals). x \<noteq> [] \<and> is_ascii_str x \<and> (\<forall>c \<in> set x. c \<notin> set csp_ws)"
        using split_ws_parts[of _ ?token] Cons False by simp
      then have "directive_ok (to_ascii_lowercase name, vals)"
        by (auto simp: directive_ok_def ascii_lower_ascii) (simp add: to_ascii_lowercase_def)
      then have new: "\<forall>d \<in> set (ds @ [(to_ascii_lowercase name, vals)]). directive_ok d" using prems(2) by simp
      show ?thesis
      proof (cases "list_ex (\<lambda>d. fst d = to_ascii_lowercase name) ds")
        case True
        then show ?thesis using IH[OF prems] Cons False by (simp add: Let_def)
      next
        case distinct: False
        then have "distinct (map fst (ds @ [(to_ascii_lowercase name, vals)]))" using prems(1) by (auto simp: list_ex_iff)
        from IH[OF this new] show ?thesis using distinct Cons False by (simp add: Let_def)
      qed
    qed
  qed
qed simp

lemma parse_policies_ok: "cp_directives (parse_serialized s d) \<noteq> [] \<Longrightarrow> policy_wf (parse_serialized s d)"
  using parse_directives_ok[of "[]" "split_by (\<lambda>c. c = CHR '';'') s"]
  by (auto simp: policy_wf_def parse_serialized_def)

lemma wf_from_headers: "p \<in> set (csp_from_headers enforce report_only) \<Longrightarrow> policy_wf p"
  using parse_policies_ok by (auto simp: csp_from_headers_def parse_policy_list_def split: option.splits)

definition from_meta :: "csp_policy \<Rightarrow> bool" where
  "from_meta p = (cp_disposition p = Enforce \<and> (\<forall>d \<in> set (cp_directives p). fst d \<notin> set META_DROPPED))"

lemma push_meta_new:
  assumes "p \<in> set (csp_push_meta content ps)"
  shows "p \<in> set ps \<or> policy_wf p \<and> from_meta p"
proof -
  let ?q = "parse_serialized content Enforce"
  let ?p = "?q\<lparr>cp_directives := filter (\<lambda>d. fst d \<notin> set META_DROPPED) (cp_directives ?q)\<rparr>"
  have "p \<in> set ps \<or> p = ?p \<and> cp_directives ?p \<noteq> []"
    using assms unfolding csp_push_meta_def Let_def by (auto simp del: csp_policy.simps split: if_splits)
  moreover have "policy_wf ?p \<and> from_meta ?p" if ne: "cp_directives ?p \<noteq> []"
  proof -
    have "cp_directives ?q \<noteq> []" using ne by auto
    from parse_policies_ok[OF this] have "policy_wf ?p" using ne by (auto simp: policy_wf_def distinct_map_filter)
    moreover have "from_meta ?p" by (simp add: from_meta_def parse_serialized_def)
    ultimately show ?thesis ..
  qed
  ultimately show ?thesis by blast
qed

text \<open>\<^bold>\<open>C36.\<close> However policies are delivered, each has directives with distinct lower-case ASCII names and values without
  whitespace, and at least one. A policy that a \<open>meta\<close> element adds is enforced and has none of the directives that
  \<open>meta\<close> must not deliver.\<close>

theorem policies_normal_form:
  assumes "p \<in> set (fold csp_push_meta metas (csp_from_headers enforce report_only))"
  shows "policy_wf p \<and> (p \<notin> set (csp_from_headers enforce report_only) \<longrightarrow> from_meta p)"
proof -
  have "p \<in> set ps \<or> policy_wf p \<and> from_meta p" if "p \<in> set (fold csp_push_meta metas ps)" for ps
    using that by (induction metas arbitrary: ps) (use push_meta_new in \<open>fastforce+\<close>)
  from this[OF assms] show ?thesis using wf_from_headers by blast
qed

theorem policies_normal_form_witness:
  "policy_wf (hd (csp_from_headers (Some ''Script-Src 'self'; script-src *'') None))"
proof -
  have "hd (csp_from_headers (Some ''Script-Src 'self'; script-src *'') None) \<in>
      set (fold csp_push_meta [] (csp_from_headers (Some ''Script-Src 'self'; script-src *'') None))"
    by code_simp
  from policies_normal_form[OF this] show ?thesis by blast
qed

section \<open>An instance\<close>

text \<open>Crates under which digests and escapes are the identity, and a URL of \<open>a.test\<close>.\<close>

definition plain_crates :: csp_crates where
  "plain_crates =
     \<lparr> cc_url = \<lparr> set_username = (\<lambda>s u. u), set_password = (\<lambda>s u. u), set_fragment = (\<lambda>s u. u), set_path = (\<lambda>s u. u),
                  set_query = (\<lambda>s u. u), parse_url = (\<lambda>s. None) \<rparr>,
       cc_host_str = (\<lambda>u. case u_host u of Some (Domain d) \<Rightarrow> Some d | _ \<Rightarrow> None),
       cc_port_or_known_default = u_port, cc_host_parse = (\<lambda>s. Some (Domain s)),
       cc_host_display = (\<lambda>h. case h of Domain d \<Rightarrow> d | _ \<Rightarrow> []), cc_percent_decode = (\<lambda>s. s), cc_sha256 = (\<lambda>s. s),
       cc_sha384 = (\<lambda>s. s), cc_sha512 = (\<lambda>s. s), cc_base64 = (\<lambda>s. s) \<rparr>"

definition a_test_url :: "string \<Rightarrow> url" where
  "a_test_url path =
     \<lparr> u_href = ''https://a.test'' @ path, u_scheme = ''https'', u_username = [], u_password = None, u_host = Some (Domain ''a.test''),
       u_port = None, u_path = path, u_query = None, u_fragment = None, u_origin = Tuple ''https'' (Domain ''a.test'') 443 \<rparr>"

section \<open>Redirects\<close>

lemma host_source_redirect:
  "host_source_matches cc u scheme host port path orig 0 \<Longrightarrow> host_source_matches cc u scheme host port path orig n"
  by (auto simp: host_source_matches_def split: if_splits)

lemma expression_redirect:
  "url_matches_expression cc u e orig document_url 0 \<Longrightarrow> url_matches_expression cc u e orig document_url n"
  using host_source_redirect
  by (auto simp: url_matches_expression_def split: if_splits option.splits source_expr.splits)

lemma list_redirect: "url_matches_list cc u sources orig document_url 0 \<Longrightarrow> url_matches_list cc u sources orig document_url n"
  using expression_redirect by (fastforce simp: url_matches_list_def list_ex_iff split: if_splits)

lemma no_integrity: "\<not> integrity_matches sources []"
  by (simp add: integrity_matches_def parse_integrity_metadata_def csp_split_ascii_whitespace_def List.map_filter_simps)

lemma request_redirect:
  "\<not> request_check_blocks cc eff sources orig document_url u None 0 \<Longrightarrow> \<not> request_check_blocks cc eff sources orig document_url u None n"
  using list_redirect[of cc u sources orig document_url n] no_integrity[of sources]
  by (auto simp: request_check_blocks_def nonce_matches_def Let_def split: if_splits)

text \<open>The check of a redirect hop only ignores paths: a URL that the gate of a request lets through as the original target it also
  lets through as the target of any redirect.\<close>

theorem redirects_only_relax:
  assumes "redirect_allows cc fresh g document_url u 0"
  shows "redirect_allows cc fresh g document_url u n"
  using assms request_redirect
  by (auto simp: redirect_allows_def csp_violations_def Let_def csp_blocks_map policy_request_violation_def first_directive_governing)

definition image_gate :: redirect_gate where
  "image_gate = redirect_gate_new plain_crates (csp_from_headers (Some ''img-src a.test/pics/'') None) (u_origin (a_test_url ''/'')) DImg"

theorem redirects_only_relax_witness: "redirect_allows plain_crates 0 image_gate (a_test_url ''/'') (a_test_url ''/pics/x'') 3"
proof -
  have "redirect_allows plain_crates 0 image_gate (a_test_url ''/'') (a_test_url ''/pics/x'') 0" by code_simp
  then show ?thesis by (rule redirects_only_relax)
qed

section \<open>Paths\<close>

fun unsplit :: "char \<Rightarrow> string list \<Rightarrow> string" where
  "unsplit d [] = []"
| "unsplit d [x] = x"
| "unsplit d (x # xs) = x @ d # unsplit d xs"

lemma split_by_ne [simp]: "split_by P s \<noteq> []"
  by (induction s) (auto split: list.splits)

lemma unsplit_Cons: "xs \<noteq> [] \<Longrightarrow> unsplit d (x # xs) = x @ d # unsplit d xs"
  by (cases xs) simp_all

lemma unsplit_append: "xs \<noteq> [] \<Longrightarrow> ys \<noteq> [] \<Longrightarrow> unsplit d (xs @ ys) = unsplit d xs @ d # unsplit d ys"
proof (induction xs)
  case (Cons x xs)
  then show ?case by (cases xs) (simp_all add: unsplit_Cons)
qed simp

lemma unsplit_split: "unsplit d (split_by (\<lambda>c. c = d) s) = s"
proof (induction s)
  case (Cons c s)
  then show ?case
  proof (cases "split_by (\<lambda>c. c = d) s")
    case (Cons w ws)
    with \<open>unsplit d (split_by (\<lambda>c. c = d) s) = s\<close> show ?thesis by (cases ws) (auto simp: unsplit_Cons)
  qed simp
qed simp

lemma split_by_append:
  "P d \<Longrightarrow> split_by P (x @ d # y) = split_by P x @ split_by P y"
  by (induction x) (auto split: list.splits)

text \<open>Paths whose pieces have no escapes.\<close>

definition unescaped :: "csp_crates \<Rightarrow> string \<Rightarrow> bool" where
  "unescaped cc path = (\<forall>x \<in> set (split_by (\<lambda>c. c = CHR ''/'') path). cc_percent_decode cc x = x)"

lemma zip_pieces:
  assumes "length xs \<le> length ys" "\<forall>x \<in> set xs \<union> set ys. f x = x"
  shows "list_all (\<lambda>(a, b). f a = f b) (zip xs ys) \<longleftrightarrow> xs = take (length xs) ys"
  using assms
proof (induction xs arbitrary: ys)
  case (Cons x xs)
  then show ?case by (cases ys) auto
qed simp

lemma directory_prefix:
  "split_by (\<lambda>c. c = d) a = take (length (split_by (\<lambda>c. c = d) a)) (split_by (\<lambda>c. c = d) b) \<and>
     length (split_by (\<lambda>c. c = d) a) < length (split_by (\<lambda>c. c = d) b) \<longleftrightarrow> (\<exists>r. b = a @ d # r)" (is "?l \<longleftrightarrow> ?r")
proof
  let ?s = "split_by (\<lambda>c. c = d)"
  assume l: ?l
  then have "?s b = ?s a @ drop (length (?s a)) (?s b)" "drop (length (?s a)) (?s b) \<noteq> []" by (metis append_take_drop_id, simp)
  then have "unsplit d (?s b) = unsplit d (?s a) @ d # unsplit d (drop (length (?s a)) (?s b))"
    by (metis unsplit_append split_by_ne)
  then show ?r unfolding unsplit_split by blast
next
  assume ?r
  then obtain r where "b = a @ d # r" ..
  then show ?l using split_by_append[of "\<lambda>c. c = d" d a r] by (simp add: Suc_le_eq)
qed

text \<open>A source path without escapes matches the paths below it when it ends with a slash, and only itself otherwise; the
  empty path matches everything, and \<open>/\<close> also matches the empty path.\<close>

theorem source_path_reference:
  assumes "unescaped cc a" "unescaped cc b"
  shows "path_part_matches cc a b \<longleftrightarrow>
    a = [] \<or> (a = ''/'' \<and> b = []) \<or> (if ends_with a ''/'' then starts_with b a else a = b)"
proof (cases "ends_with a ''/''")
  case True
  let ?s = "split_by (\<lambda>c. c = CHR ''/'')"
  obtain a' where a': "a = a' @ ''/''"
    using True unfolding ends_with_def by (metis append_take_drop_id)
  have sa: "?s a = ?s a' @ [[]]" using split_by_append[of "\<lambda>c. c = CHR ''/''" "CHR ''/''" a' "[]"] a' by simp
  have "list_all (\<lambda>(x, y). cc_percent_decode cc x = cc_percent_decode cc y) (zip (?s a') (?s b)) \<longleftrightarrow> ?s a' = take (length (?s a')) (?s b)"
    if "length (?s a') \<le> length (?s b)"
    using that assms unfolding unescaped_def sa by (intro zip_pieces) auto
  then have "path_part_matches cc a b \<longleftrightarrow> (a = ''/'' \<and> b = []) \<or>
      ?s a' = take (length (?s a')) (?s b) \<and> length (?s a') < length (?s b)"
    using True sa a' by (auto simp: path_part_matches_def Let_def)
  also have "?s a' = take (length (?s a')) (?s b) \<and> length (?s a') < length (?s b) \<longleftrightarrow> (\<exists>r. b = a @ r)"
    unfolding directory_prefix a' by simp
  also have "(\<exists>r. b = a @ r) \<longleftrightarrow> starts_with b a" unfolding starts_with_def by (metis append_eq_conv_conj append_take_drop_id)
  finally show ?thesis using True a' by auto
next
  case False
  let ?s = "split_by (\<lambda>c. c = CHR ''/'')"
  have "list_all (\<lambda>(x, y). cc_percent_decode cc x = cc_percent_decode cc y) (zip (?s a) (?s b)) \<longleftrightarrow> ?s a = ?s b"
    if "length (?s a) = length (?s b)"
    using that assms zip_pieces[of "?s a" "?s b" "cc_percent_decode cc"] unfolding unescaped_def by auto
  moreover have "?s a = ?s b \<longleftrightarrow> a = b" by (metis unsplit_split)
  moreover have "a \<noteq> ''/''" using False by (auto simp: ends_with_def)
  ultimately show ?thesis using False by (auto simp: path_part_matches_def Let_def)
qed

theorem source_path_reference_witness:
  "path_part_matches plain_crates ''/a/'' ''/a/b'' \<and> \<not> path_part_matches plain_crates ''/a'' ''/a/b''"
proof -
  have u: "unescaped plain_crates p" for p by (simp add: unescaped_def plain_crates_def)
  show ?thesis
    using source_path_reference[OF u u, of "''/a/''" "''/a/b''"] source_path_reference[OF u u, of "''/a''" "''/a/b''"]
    by (simp add: ends_with_def starts_with_def)
qed

section \<open>Integrity\<close>

lemma max_by_key_None: "max_by_key f xs = None \<longleftrightarrow> xs = []"
  by (cases xs) (auto split: option.splits)

lemma max_by_key_Some:
  assumes "max_by_key f xs = Some y"
  shows "x \<in> set xs \<Longrightarrow> f x \<le> f y"
  using assms
proof (induction xs arbitrary: x y)
  case (Cons a xs)
  show ?case
  proof (cases "max_by_key f xs")
    case None
    then show ?thesis using Cons.prems by (simp add: max_by_key_None)
  next
    case (Some z)
    have "f x' \<le> f z" if "x' \<in> set xs" for x' using Cons.IH[OF that Some] .
    then show ?thesis using Cons.prems Some by (fastforce split: if_splits)
  qed
qed simp

definition content_digest :: "csp_crates \<Rightarrow> string \<Rightarrow> string \<Rightarrow> string" where
  "content_digest cc algorithm content =
     (if algorithm = ''sha512'' then cc_base64 cc (cc_sha512 cc content)
      else if algorithm = ''sha384'' then cc_base64 cc (cc_sha384 cc content)
      else cc_base64 cc (cc_sha256 cc content))"

text \<open>\<^bold>\<open>C14.\<close> Integrity metadata cannot be downgraded: content that passes has the digest of some entry whose algorithm is at least as strong as that of
  every entry. A weaker entry that matches does not help when a stronger one is there and does not.\<close>

theorem integrity_not_downgraded:
  assumes "integrity_verifies cc integrity content" "(algorithm, expected) \<in> set (parse_integrity_metadata (trim integrity))"
  shows "\<exists>strongest v. (strongest, v) \<in> set (parse_integrity_metadata (trim integrity)) \<and>
    algorithm_strength algorithm \<le> algorithm_strength strongest \<and> content_digest cc strongest content = normalize_base64 v"
proof -
  let ?es = "parse_integrity_metadata (trim integrity)"
  have ne: "trim integrity \<noteq> []"
    using assms(2) by (auto simp: parse_integrity_metadata_def csp_split_ascii_whitespace_def List.map_filter_simps)
  obtain strongest where m: "max_by_key algorithm_strength (map fst ?es) = Some strongest"
    using assms(2) max_by_key_None[of algorithm_strength "map fst ?es"] by (cases "max_by_key algorithm_strength (map fst ?es)") auto
  obtain v where "(strongest, v) \<in> set ?es" "content_digest cc strongest content = normalize_base64 v"
    using assms(1) ne m unfolding integrity_verifies_def content_digest_def by (auto simp: Let_def list_ex_iff)
  moreover have "algorithm_strength algorithm \<le> algorithm_strength strongest"
    using max_by_key_Some[OF m, of algorithm] assms(2) by force
  ultimately show ?thesis by blast
qed

theorem integrity_not_downgraded_witness:
  "\<exists>strongest v. (strongest, v) \<in> set (parse_integrity_metadata (trim ''sha256-YWJj sha512-ZGVm'')) \<and>
    algorithm_strength ''sha256'' \<le> algorithm_strength strongest \<and> content_digest plain_crates strongest ''ZGVm'' = normalize_base64 v"
proof -
  have t: "trim ''sha256-YWJj sha512-ZGVm'' = ''sha256-YWJj sha512-ZGVm''" by (simp add: trim_def trim_start_def trim_end_def)
  have es: "parse_integrity_metadata ''sha256-YWJj sha512-ZGVm'' = [(''sha256'', ''YWJj''), (''sha512'', ''ZGVm'')]" by code_simp
  have "normalize_base64 ''ZGVm'' = ''ZGVm''" by code_simp
  then have "integrity_verifies plain_crates ''sha256-YWJj sha512-ZGVm'' ''ZGVm''"
    by (simp add: integrity_verifies_def t es algorithm_strength_def plain_crates_def)
  moreover have "(''sha256'', ''YWJj'') \<in> set (parse_integrity_metadata (trim ''sha256-YWJj sha512-ZGVm''))" by (simp add: t es)
  ultimately show ?thesis by (rule integrity_not_downgraded)
qed

section \<open>Nonces\<close>

text \<open>An attribute whose name or value holds the start of a tag, in any case: what dangling markup leaves behind.\<close>

definition swallows_tag :: "dom_attribute \<Rightarrow> bool" where
  "swallows_tag a \<longleftrightarrow>
     (\<exists>tag \<in> {''<link'', ''<script'', ''<style''}. \<exists>pre post.
        to_ascii_lowercase (qn_local (at_name a)) = pre @ tag @ post \<or> to_ascii_lowercase (at_value a) = pre @ tag @ post)"

definition names_nonce :: "dom_attribute \<Rightarrow> bool" where
  "names_nonce a \<longleftrightarrow> to_ascii_lowercase (qn_local (at_name a)) = ''nonce''"

lemma split_once_str_iff: "needle \<noteq> [] \<Longrightarrow> split_once_str needle s \<noteq> None \<longleftrightarrow> (\<exists>pre post. s = pre @ needle @ post)"
proof (induction s)
  case (Cons c s)
  have "starts_with (c # s) needle \<longleftrightarrow> (\<exists>post. c # s = needle @ post)"
    by (metis append_eq_conv_conj append_take_drop_id starts_with_def)
  moreover have "(\<exists>pre post. c # s = pre @ needle @ post) \<longleftrightarrow>
      (\<exists>post. c # s = needle @ post) \<or> (\<exists>pre post. s = pre @ needle @ post)" (is "?l \<longleftrightarrow> ?r")
  proof
    assume ?l
    then obtain pre post where "c # s = pre @ needle @ post" by blast
    then show ?r by (cases pre) auto
  next
    assume ?r
    then show ?l by (metis append_Cons append_Nil)
  qed
  ultimately show ?case using Cons by (auto split: if_splits)
qed simp

lemma nonce_attribute_eq:
  "nonce_attribute a (n, ok) =
     (if names_nonce a \<and> n = [] then at_value a else n, (names_nonce a \<and> n = [] \<or> ok) \<and> \<not> swallows_tag a)"
proof -
  have "to_ascii_lowercase ''nonce'' = ''nonce''" by (simp add: to_ascii_lowercase_def ascii_lower_char_def)
  then have "eq_ignore_ascii_case (qn_local (at_name a)) ''nonce'' = names_nonce a"
    by (simp add: eq_ignore_ascii_case_def names_nonce_def)
  moreover have "list_ex (\<lambda>needle. str_contains (to_ascii_lowercase (qn_local (at_name a))) needle \<or>
      str_contains (to_ascii_lowercase (at_value a)) needle) [''<link'', ''<script'', ''<style''] = swallows_tag a"
    unfolding swallows_tag_def str_contains_def list_ex_iff using split_once_str_iff by auto
  ultimately show ?thesis by (simp add: nonce_attribute_def Let_def) blast
qed

text \<open>Once a nonce is known, every later attribute counts; before it, only the absence of a nonce does.\<close>

lemma nonce_known: "n \<noteq> [] \<Longrightarrow> fold nonce_attribute as (n, ok) = (n, ok \<and> (\<forall>a \<in> set as. \<not> swallows_tag a))"
  by (induction as arbitrary: ok) (auto simp: nonce_attribute_eq)

lemma nonce_unknown:
  "\<forall>b \<in> set as. names_nonce b \<longrightarrow> at_value b = [] \<Longrightarrow> \<exists>ok'. fold nonce_attribute as ([], ok) = ([], ok')"
  by (induction as arbitrary: ok) (auto simp: nonce_attribute_eq)

text \<open>\<^bold>\<open>C39.\<close> The guard against dangling markup depends on the order of the attributes. When the nonce comes from the \<open>nonce\<close> attribute, for
  any element the attributes before it, up to the first \<open>nonce\<close> attribute that is not empty, are ignored, however many tags
  they swallow, and those from it on are not: the element is nonceable exactly when none of the latter holds the start of a \<open>link\<close>,
  \<open>script\<close> or \<open>style\<close> tag. When the nonce comes from the internal slot all attributes count.\<close>

theorem nonce_guard_order:
  assumes "Option.bind (get_node base i) bn_element = Some e" "el_attrs e = before @ a # after"
    and "names_nonce a" "at_value a \<noteq> []" "\<forall>b \<in> set before. names_nonce b \<longrightarrow> at_value b = []"
  shows "element_nonce base i None = (at_value a, \<forall>b \<in> set (a # after). \<not> swallows_tag b) \<and>
    (\<forall>s. s \<noteq> [] \<longrightarrow> element_nonce base i (Some s) = (s, \<forall>b \<in> set (el_attrs e). \<not> swallows_tag b))"
proof
  obtain ok where "fold nonce_attribute before ([], False) = ([], ok)" using nonce_unknown[OF assms(5)] by blast
  then have "fold nonce_attribute (el_attrs e) ([], False) = (at_value a, \<forall>b \<in> set (a # after). \<not> swallows_tag b)"
    using assms(3,4) by (simp add: assms(2) nonce_attribute_eq nonce_known)
  then show "element_nonce base i None = (at_value a, \<forall>b \<in> set (a # after). \<not> swallows_tag b)"
    using assms(4) by (simp add: element_nonce_def assms(1))
  show "\<forall>s. s \<noteq> [] \<longrightarrow> element_nonce base i (Some s) = (s, \<forall>b \<in> set (el_attrs e). \<not> swallows_tag b)"
    by (simp add: element_nonce_def assms(1) nonce_known)
qed

definition dangling_attribute :: dom_attribute where
  "dangling_attribute = \<lparr> at_name = \<lparr> qn_prefix = None, qn_ns = [], qn_local = ''<script'' \<rparr>, at_value = [] \<rparr>"

definition abc_nonce :: dom_attribute where
  "abc_nonce = \<lparr> at_name = \<lparr> qn_prefix = None, qn_ns = [], qn_local = ''nonce'' \<rparr>, at_value = ''abc'' \<rparr>"

definition script_element :: "dom_attribute list \<Rightarrow> dom_element" where
  "script_element attrs =
     \<lparr> el_name = \<lparr> qn_prefix = None, qn_ns = html_namespace, qn_local = ''script'' \<rparr>, el_attrs = attrs, el_template_contents = None \<rparr>"

definition script_document :: "dom_attribute list \<Rightarrow> base_document" where
  "script_document attrs =
     \<lparr> get_node = [7 \<mapsto> \<lparr> bn_parent = None, bn_children = [], bn_data = NElement (script_element attrs),
                           bn_element = Some (script_element attrs) \<rparr>], root_node = 0 \<rparr>"

theorem nonce_guard_order_witness:
  "swallows_tag dangling_attribute \<and> element_nonce (script_document [dangling_attribute, abc_nonce]) 7 None = (''abc'', True) \<and>
   element_nonce (script_document [abc_nonce, dangling_attribute]) 7 None = (''abc'', False)"
proof -
  have e: "Option.bind (get_node (script_document as) 7) bn_element = Some (script_element as)" for as
    by (simp add: script_document_def)
  have lower: "to_ascii_lowercase ''nonce'' = ''nonce''" "to_ascii_lowercase ''abc'' = ''abc''" "to_ascii_lowercase ''<script'' = ''<script''"
    by (simp_all add: to_ascii_lowercase_def ascii_lower_char_def)
  have n: "names_nonce abc_nonce" "at_value abc_nonce = ''abc''" "\<not> names_nonce dangling_attribute"
    by (simp_all add: names_nonce_def abc_nonce_def dangling_attribute_def lower)
  have clean: "\<not> swallows_tag abc_nonce" by (auto simp: swallows_tag_def abc_nonce_def lower Cons_eq_append_conv)
  have dirty: "swallows_tag dangling_attribute"
    unfolding swallows_tag_def dangling_attribute_def
    by (rule bexI[of _ "''<script''"], rule exI[of _ "[]"], rule exI[of _ "[]"]) (simp_all add: lower)
  have "element_nonce (script_document [dangling_attribute, abc_nonce]) 7 None = (''abc'', True)"
    using nonce_guard_order[OF e, of _ "[dangling_attribute]" abc_nonce "[]"] n clean by (simp add: script_element_def)
  moreover have "element_nonce (script_document [abc_nonce, dangling_attribute]) 7 None = (''abc'', False)"
    using nonce_guard_order[OF e, of _ "[]" abc_nonce "[dangling_attribute]"] n dirty by (simp add: script_element_def)
  ultimately show ?thesis using dirty by blast
qed

section \<open>Policies of \<open>meta\<close> elements\<close>

text \<open>In a document that represents a tree the walk to the \<open>head\<close> returns, and tells whether a node on the path to the root is one.\<close>

lemma ancestor_is_spine:
  assumes "doc_tree base t" "tat t p = Some s"
  shows "ancestor_is base (Some (troot s)) name = Some (list_ex (\<lambda>n. is_html_element base n name) (spine t p))"
  using assms(2)
proof (induction p arbitrary: s rule: rev_induct)
  case Nil
  have "Option.bind (get_node base (troot s)) bn_parent = None"
    using assms(1) parent_at[of base None t "[]" s] Nil by (simp add: doc_tree_def parent_link_def)
  moreover have "spine t [] = [troot s]" using Nil by (cases t) simp
  ultimately show ?case by (simp add: ancestor_is.simps[of base "Some (troot s)"] ancestor_is.simps[of base None])
next
  case (snoc i p)
  then obtain s' where s': "tat t p = Some s'" by (cases "tat t p") (auto simp: tat_append)
  have "Option.bind (get_node base (troot s)) bn_parent = Some (troot s')"
    using parent_at[of base None t "p @ [i]" s] assms(1) snoc.prems s' by (simp add: doc_tree_def parent_link_def)
  then show ?case using snoc.IH[OF s'] spine_snoc[OF snoc.prems] by (auto simp: ancestor_is.simps[of base "Some (troot s)"])
qed

lemma meta_policy_returns:
  assumes "doc_tree base t" "tat t p = Some s"
  shows "\<exists>r. meta_policy base (troot s) = Some r"
  using ancestor_is_spine[OF assms, of "''head''"] by (auto simp: meta_policy_def split: option.split)

end
