(* ===== verification/Dom_String.thy ===== *)
theory Dom_String
  imports Rust_Std "HOL-Library.Word"
begin

text \<open>
  \<open>crates/renderer/src/dom_string.rs\<close>: strings of UTF-16 code units. A Rust \<open>String\<close> is its
  UTF-8 bytes, a \<open>u16\<close> a 16-bit word; the conversions between UTF-8, characters and UTF-16 are
  those of the standard library (\<open>str::chars\<close>, \<open>str::encode_utf16\<close>, \<open>String::from_utf16\<close>,
  \<open>String::from_utf16_lossy\<close>).
\<close>

section \<open>Characters, UTF-8 and UTF-16\<close>

type_synonym u16 = "16 word"

definition scalar :: "nat \<Rightarrow> bool" where
  "scalar c = (c < 0xD800 \<or> (0xE000 \<le> c \<and> c < 0x110000))"

text \<open>The characters of well-formed UTF-8.\<close>

function chars :: "string \<Rightarrow> nat list" where
  "chars s =
     (case s of
        [] \<Rightarrow> []
      | a # r \<Rightarrow>
          (let b = byte a in
           if b < 0x80 then b # chars r
           else if b < 0xE0 then
             (case r of c1 # r' \<Rightarrow> ((b - 0xC0) * 64 + (byte c1 - 0x80)) # chars r' | _ \<Rightarrow> [])
           else if b < 0xF0 then
             (case r of c1 # c2 # r' \<Rightarrow>
                ((b - 0xE0) * 4096 + (byte c1 - 0x80) * 64 + (byte c2 - 0x80)) # chars r' | _ \<Rightarrow> [])
           else
             (case r of c1 # c2 # c3 # r' \<Rightarrow>
                ((b - 0xF0) * 262144 + (byte c1 - 0x80) * 4096 + (byte c2 - 0x80) * 64 + (byte c3 - 0x80)) # chars r'
              | _ \<Rightarrow> [])))"
  by pat_completeness auto
termination by (relation "measure length") auto

declare chars.simps [simp del]

definition utf8_char :: "nat \<Rightarrow> string" where
  "utf8_char c =
     map char_of
       (if c < 0x80 then [c]
        else if c < 0x800 then [0xC0 + c div 64, 0x80 + c mod 64]
        else if c < 0x10000 then [0xE0 + c div 4096, 0x80 + c div 64 mod 64, 0x80 + c mod 64]
        else [0xF0 + c div 262144, 0x80 + c div 4096 mod 64, 0x80 + c div 64 mod 64, 0x80 + c mod 64])"

definition utf8_of :: "nat list \<Rightarrow> string" where
  "utf8_of cs = concat (map utf8_char cs)"

definition utf16_char :: "nat \<Rightarrow> nat list" where
  "utf16_char c =
     (if c < 0x10000 then [c] else [0xD800 + (c - 0x10000) div 0x400, 0xDC00 + (c - 0x10000) mod 0x400])"

definition utf16_of :: "nat list \<Rightarrow> u16 list" where
  "utf16_of cs = map word_of_nat (concat (map utf16_char cs))"

definition encode_utf16 :: "string \<Rightarrow> u16 list" where
  "encode_utf16 s = utf16_of (chars s)"

text \<open>\<open>char::decode_utf16\<close>: \<open>None\<close> at the first unpaired surrogate.\<close>

definition high_unit :: "nat \<Rightarrow> bool" where
  "high_unit u = (0xD800 \<le> u \<and> u < 0xDC00)"

definition low_unit :: "nat \<Rightarrow> bool" where
  "low_unit u = (0xDC00 \<le> u \<and> u < 0xE000)"

definition paired :: "nat \<Rightarrow> nat \<Rightarrow> nat" where
  "paired u v = 0x10000 + (u - 0xD800) * 0x400 + (v - 0xDC00)"

fun decode_utf16 :: "nat list \<Rightarrow> nat list option" where
  "decode_utf16 [] = Some []"
| "decode_utf16 (u # us) =
     (if low_unit u then None
      else if high_unit u then
        (case us of
           [] \<Rightarrow> None
         | v # vs \<Rightarrow> if low_unit v then map_option ((#) (paired u v)) (decode_utf16 vs) else None)
      else map_option ((#) u) (decode_utf16 us))"

definition string_from_utf16 :: "u16 list \<Rightarrow> string option" where
  "string_from_utf16 units = map_option utf8_of (decode_utf16 (map unat units))"

fun decode_utf16_lossy :: "nat list \<Rightarrow> nat list" where
  "decode_utf16_lossy [] = []"
| "decode_utf16_lossy (u # us) =
     (if low_unit u then 0xFFFD # decode_utf16_lossy us
      else if high_unit u then
        (case us of
           [] \<Rightarrow> [0xFFFD]
         | v # vs \<Rightarrow> if low_unit v then paired u v # decode_utf16_lossy vs else 0xFFFD # decode_utf16_lossy us)
      else u # decode_utf16_lossy us)"

definition string_from_utf16_lossy :: "u16 list \<Rightarrow> string" where
  "string_from_utf16_lossy units = utf8_of (decode_utf16_lossy (map unat units))"

section \<open>\<open>DomString\<close>\<close>

datatype dom_string = DEmpty | DUtf8 string | DUtf16 "u16 list"

definition dom_default :: dom_string where
  "dom_default = DEmpty"

definition dom_from_utf16 :: "u16 list \<Rightarrow> dom_string" where
  "dom_from_utf16 units =
     (if units = [] then dom_default
      else case string_from_utf16 units of Some text \<Rightarrow> DUtf8 text | None \<Rightarrow> DUtf16 units)"

definition dom_is_empty :: "dom_string \<Rightarrow> bool" where
  "dom_is_empty d = (case d of DEmpty \<Rightarrow> True | _ \<Rightarrow> False)"

definition has_unpaired_surrogate :: "dom_string \<Rightarrow> bool" where
  "has_unpaired_surrogate d = (case d of DUtf16 _ \<Rightarrow> True | _ \<Rightarrow> False)"

definition dom_len :: "dom_string \<Rightarrow> nat" where
  "dom_len d =
     (case d of DEmpty \<Rightarrow> 0 | DUtf8 text \<Rightarrow> length (encode_utf16 text) | DUtf16 units \<Rightarrow> length units)"

definition dom_units :: "dom_string \<Rightarrow> u16 list" where
  "dom_units d = (case d of DEmpty \<Rightarrow> [] | DUtf8 text \<Rightarrow> encode_utf16 text | DUtf16 units \<Rightarrow> units)"

definition to_string_lossy :: "dom_string \<Rightarrow> string" where
  "to_string_lossy d =
     (case d of DEmpty \<Rightarrow> [] | DUtf8 text \<Rightarrow> text | DUtf16 units \<Rightarrow> string_from_utf16_lossy units)"

definition dom_push_str :: "dom_string \<Rightarrow> string \<Rightarrow> dom_string" where
  "dom_push_str d extra =
     (if extra = [] then d
      else case d of
        DEmpty \<Rightarrow> DUtf8 extra
      | DUtf8 text \<Rightarrow> DUtf8 (text @ extra)
      | DUtf16 units \<Rightarrow> DUtf16 (units @ encode_utf16 extra))"

definition push_dom :: "dom_string \<Rightarrow> dom_string \<Rightarrow> dom_string" where
  "push_dom d extra =
     (case extra of
        DEmpty \<Rightarrow> d
      | DUtf8 text \<Rightarrow> dom_push_str d text
      | DUtf16 units \<Rightarrow>
          (case d of
             DEmpty \<Rightarrow> DUtf16 units
           | DUtf8 text \<Rightarrow> dom_from_utf16 (encode_utf16 text @ units)
           | DUtf16 existing \<Rightarrow> dom_from_utf16 (existing @ units)))"

definition dom_from_str :: "string \<Rightarrow> dom_string" where
  "dom_from_str text = (if text = [] then dom_default else DUtf8 text)"

section \<open>UTF-8\<close>

lemma utf8_of_simps [simp]: "utf8_of [] = []" "utf8_of (c # cs) = utf8_char c @ utf8_of cs"
  "utf8_of (cs @ ds) = utf8_of cs @ utf8_of ds"
  by (simp_all add: utf8_of_def)

lemma digits3: "c div 4096 * 4096 + c div 64 mod 64 * 64 + c mod 64 = (c :: nat)"
proof -
  have "c div 64 = c div 4096 * 64 + c div 64 mod 64"
    using div_mult_mod_eq[of "c div 64" 64] by (simp add: div_mult2_eq[symmetric])
  then show ?thesis using div_mult_mod_eq[of c 64] by linarith
qed

lemma digits4: "c div 262144 * 262144 + c div 4096 mod 64 * 4096 + c div 64 mod 64 * 64 + c mod 64 = (c :: nat)"
proof -
  have "c div 4096 = c div 262144 * 64 + c div 4096 mod 64"
    using div_mult_mod_eq[of "c div 4096" 64] by (simp add: div_mult2_eq[symmetric])
  then show ?thesis using digits3[of c] by linarith
qed

lemma chars_char:
  assumes "scalar c"
  shows "chars (utf8_char c @ s) = c # chars s"
proof -
  consider "c < 0x80" | "0x80 \<le> c" "c < 0x800" | "0x800 \<le> c" "c < 0x10000" | "0x10000 \<le> c" "c < 0x110000"
    using assms by (fastforce simp: scalar_def)
  then show ?thesis
  proof cases
    case 1
    then show ?thesis by (subst chars.simps) (simp add: utf8_char_def)
  next
    case 2
    then have d: "c div 64 < 32" "c mod 64 < 64" "2 \<le> c div 64"
      by (simp_all add: less_mult_imp_div_less less_eq_div_iff_mult_less_eq)
    show ?thesis using 2 d by (subst chars.simps) (simp add: utf8_char_def)
  next
    case 3
    then have d: "c div 4096 < 16" "c div 64 mod 64 < 64" "c mod 64 < 64" by (simp_all add: less_mult_imp_div_less)
    have "c div 4096 * 4096 + c div 64 mod 64 * 64 + c mod 64 = c" by (rule digits3)
    then show ?thesis using 3 d by (subst chars.simps) (simp add: utf8_char_def)
  next
    case 4
    then have d: "c div 262144 < 5" "c div 4096 mod 64 < 64" "c div 64 mod 64 < 64" "c mod 64 < 64"
      by (simp_all add: less_mult_imp_div_less)
    have "c div 262144 * 262144 + c div 4096 mod 64 * 4096 + c div 64 mod 64 * 64 + c mod 64 = c" by (rule digits4)
    then show ?thesis using 4 d by (subst chars.simps) (simp add: utf8_char_def)
  qed
qed

lemma chars_utf8: "list_all scalar cs \<Longrightarrow> chars (utf8_of cs) = cs"
  by (induction cs) (simp_all add: chars_char chars.simps[of "[]"])

lemma base64: "y < 64 \<Longrightarrow> (a * 64 + y) div 64 = a" "y < 64 \<Longrightarrow> (a * 64 + y) mod 64 = (y :: nat)"
  by simp_all

lemma base64_3:
  assumes "z < 64"
  shows "(x * 4096 + y * 64 + z) div 64 = x * 64 + y" "(x * 4096 + y * 64 + z) mod 64 = (z :: nat)"
proof -
  have "x * 4096 + y * 64 + z = (x * 64 + y) * 64 + z" by simp
  then show "(x * 4096 + y * 64 + z) div 64 = x * 64 + y" "(x * 4096 + y * 64 + z) mod 64 = z"
    using base64[OF assms, of "x * 64 + y"] by metis+
qed

lemma utf8_char2:
  assumes "2 \<le> x" "x < 32" "y < 64"
  shows "utf8_char (x * 64 + y) = map char_of [0xC0 + x, 0x80 + y]" "scalar (x * 64 + y)"
proof -
  have "128 \<le> x * 64 + y" "x * 64 + y < 2048" using assms by linarith+
  then show "utf8_char (x * 64 + y) = map char_of [0xC0 + x, 0x80 + y]" "scalar (x * 64 + y)"
    using assms by (simp_all add: utf8_char_def scalar_def)
qed

lemma utf8_char3:
  assumes "x < 16" "y < 64" "z < 64" "x = 0 \<longrightarrow> 32 \<le> y" "x = 13 \<longrightarrow> y < 32"
  shows "utf8_char (x * 4096 + y * 64 + z) = map char_of [0xE0 + x, 0x80 + y, 0x80 + z]"
    "scalar (x * 4096 + y * 64 + z)"
proof -
  let ?c = "x * 4096 + y * 64 + z"
  have c: "2048 \<le> ?c" "?c < 65536" using assms by (cases "x = 0"; linarith)+
  have s: "?c < 55296 \<or> 57344 \<le> ?c"
  proof (cases "x < 14")
    case True
    then have "?c < 55296" using assms by (cases "x = 13"; linarith)
    then show ?thesis ..
  next
    case False
    then show ?thesis by linarith
  qed
  have "y * 64 + z < 4096" using assms by linarith
  then have "?c div 4096 = x" by (simp add: add.assoc)
  moreover have "?c div 64 = x * 64 + y" "?c mod 64 = z" using base64_3[OF assms(3)] by simp_all
  ultimately show "utf8_char ?c = map char_of [0xE0 + x, 0x80 + y, 0x80 + z]"
    using c assms by (simp add: utf8_char_def)
  show "scalar ?c" using c s by (simp add: scalar_def)
qed

lemma utf8_char4:
  assumes "x < 5" "y < 64" "z < 64" "w < 64" "x = 0 \<longrightarrow> 16 \<le> y" "x = 4 \<longrightarrow> y < 16"
  shows "utf8_char (x * 262144 + y * 4096 + z * 64 + w) = map char_of [0xF0 + x, 0x80 + y, 0x80 + z, 0x80 + w]"
    "scalar (x * 262144 + y * 4096 + z * 64 + w)"
proof -
  let ?c = "x * 262144 + y * 4096 + z * 64 + w"
  have c: "65536 \<le> ?c" "?c < 1114112" using assms by (cases "x = 0"; cases "x = 4"; linarith)+
  have e: "?c = (x * 64 + y) * 4096 + (z * 64 + w)" "?c = (x * 4096 + y * 64 + z) * 64 + w"
    "?c = x * 262144 + (y * 4096 + z * 64 + w)" by simp_all
  have lt: "z * 64 + w < 4096" "y * 4096 + z * 64 + w < 262144" using assms by linarith+
  have "?c div 4096 = x * 64 + y" using lt(1) unfolding e(1) by simp
  moreover have "?c div 64 = x * 4096 + y * 64 + z" "?c mod 64 = w" unfolding e(2) by (rule base64[OF assms(4)])+
  moreover have "?c div 262144 = x" using lt(2) unfolding e(3) by simp
  moreover have "(x * 4096 + y * 64 + z) mod 64 = z" using base64_3(2)[OF assms(3)] .
  ultimately show "utf8_char ?c = map char_of [0xF0 + x, 0x80 + y, 0x80 + z, 0x80 + w]"
    using c assms by (simp add: utf8_char_def)
  show "scalar ?c" using c by (simp add: scalar_def)
qed

text \<open>The first character of well-formed UTF-8 and what follows it.\<close>

lemma cont_byte:
  assumes "utf8_cont a"
  obtains y where "y < 64" "byte a = 0x80 + y" "a = char_of (0x80 + y)"
proof
  have "128 \<le> byte a" "byte a \<le> 191" using assms by (simp_all add: utf8_cont_def)
  then show "byte a - 0x80 < 64" "byte a = 0x80 + (byte a - 0x80)" by linarith+
  then show "a = char_of (0x80 + (byte a - 0x80))" by (metis char_of_char)
qed

lemma valid_first:
  assumes "utf8_valid s" "s \<noteq> []"
  obtains c r where "scalar c" "s = utf8_char c @ r" "utf8_valid r"
proof -
  obtain a r where s: "s = a # r" using assms(2) by (cases s) auto
  note v = assms(1)[unfolded s, unfolded utf8_valid.simps[of "a # r"], simplified]
  have a: "a = char_of (byte a)" by simp
  consider "byte a < 0x80" | "0xC2 \<le> byte a" "byte a \<le> 0xDF" | "0xE0 \<le> byte a" "byte a \<le> 0xEF"
    | "0xF0 \<le> byte a" "byte a \<le> 0xF4"
    using v by (auto simp: Let_def split: if_splits)
  then show thesis
  proof cases
    case 1
    then have "utf8_valid r" using v by (simp add: Let_def)
    then show thesis using that[of "byte a" r] 1 s by (simp add: utf8_char_def scalar_def)
  next
    case 2
    then obtain b r' where r: "r = b # r'" "utf8_cont b" "utf8_valid r'"
      using v by (auto simp: Let_def split: list.splits)
    obtain y :: nat where y: "y < 64" "b = char_of (0x80 + y)" using cont_byte[OF r(2)] by metis
    have x: "2 \<le> byte a - 0xC0" "byte a - 0xC0 < 32" "0xC0 + (byte a - 0xC0) = byte a" using 2 by simp_all
    show thesis using that[of "(byte a - 0xC0) * 64 + y" r'] utf8_char2[OF x(1,2) y(1)] x(3) s r y(2) a by simp
  next
    case 3
    then obtain b d r' where r: "r = b # d # r'" "utf8_cont b" "utf8_cont d" "utf8_valid r'"
      "byte a = 0xE0 \<longrightarrow> 0xA0 \<le> byte b" "byte a = 0xED \<longrightarrow> byte b \<le> 0x9F"
      using v by (auto simp: Let_def split: list.splits)
    obtain y where y: "y < 64" "byte b = 0x80 + y" "b = char_of (0x80 + y)" using cont_byte[OF r(2)] by metis
    obtain z :: nat where z: "z < 64" "d = char_of (0x80 + z)" using cont_byte[OF r(3)] by metis
    have x: "byte a - 0xE0 < 16" "byte a - 0xE0 = 0 \<longrightarrow> 32 \<le> y" "byte a - 0xE0 = 13 \<longrightarrow> y < 32"
      "0xE0 + (byte a - 0xE0) = byte a" using 3 r(5,6) y(2) by auto
    show thesis using that[of "(byte a - 0xE0) * 4096 + y * 64 + z" r'] utf8_char3[OF x(1) y(1) z(1) x(2,3)]
        x(4) s r y(3) z(2) a by simp
  next
    case 4
    then obtain b d e r' where r: "r = b # d # e # r'" "utf8_cont b" "utf8_cont d" "utf8_cont e" "utf8_valid r'"
      "byte a = 0xF0 \<longrightarrow> 0x90 \<le> byte b" "byte a = 0xF4 \<longrightarrow> byte b \<le> 0x8F"
      using v by (auto simp: Let_def split: list.splits)
    obtain y where y: "y < 64" "byte b = 0x80 + y" "b = char_of (0x80 + y)" using cont_byte[OF r(2)] by metis
    obtain z :: nat where z: "z < 64" "d = char_of (0x80 + z)" using cont_byte[OF r(3)] by metis
    obtain w :: nat where w: "w < 64" "e = char_of (0x80 + w)" using cont_byte[OF r(4)] by metis
    have x: "byte a - 0xF0 < 5" "byte a - 0xF0 = 0 \<longrightarrow> 16 \<le> y" "byte a - 0xF0 = 4 \<longrightarrow> y < 16"
      "0xF0 + (byte a - 0xF0) = byte a" using 4 r(6,7) y(2) by auto
    show thesis using that[of "(byte a - 0xF0) * 262144 + y * 4096 + z * 64 + w" r']
        utf8_char4[OF x(1) y(1) z(1) w(1) x(2,3)] x(4) s r y(3) z(2) w(2) a by simp
  qed
qed

lemma chars_Nil [simp]: "chars [] = []"
  by (simp add: chars.simps)

lemma valid_Nil [simp]: "utf8_valid []"
  by (simp add: utf8_valid.simps)

lemma utf8_char_ne [simp]: "utf8_char c \<noteq> []"
  by (simp add: utf8_char_def)

lemma utf8_chars: "utf8_valid s \<Longrightarrow> utf8_of (chars s) = s \<and> list_all scalar (chars s)"
proof (induction "length s" arbitrary: s rule: less_induct)
  case less
  show ?case
  proof (cases "s = []")
    case False
    then obtain c r where c: "scalar c" "s = utf8_char c @ r" "utf8_valid r" using valid_first[OF less.prems] by blast
    have "length r < length s" using c(2) by simp
    then show ?thesis using less.hyps c chars_char by simp
  qed simp
qed

lemma chars_append: "utf8_valid s \<Longrightarrow> chars (s @ s') = chars s @ chars s'"
proof -
  have "chars (utf8_of cs @ s') = cs @ chars s'" if "list_all scalar cs" for cs
    using that by (induction cs) (simp_all add: chars_char)
  then show "utf8_valid s \<Longrightarrow> ?thesis" using utf8_chars[of s] by metis
qed

lemma valid_char:
  assumes "scalar c"
  shows "utf8_valid (utf8_char c @ s) = utf8_valid s"
proof -
  consider "c < 0x80" | "0x80 \<le> c" "c < 0x800" | "0x800 \<le> c" "c < 0x10000" | "0x10000 \<le> c" "c < 0x110000"
    using assms by (fastforce simp: scalar_def)
  then show ?thesis
  proof cases
    case 1
    then show ?thesis by (subst utf8_valid.simps) (simp add: utf8_char_def)
  next
    case 2
    then have d: "c div 64 < 32" "c mod 64 < 64" "2 \<le> c div 64"
      by (simp_all add: less_mult_imp_div_less less_eq_div_iff_mult_less_eq)
    have "c mod 64 \<le> 63" using d(2) by linarith
    then show ?thesis using 2 d by (subst utf8_valid.simps) (auto simp: utf8_char_def utf8_cont_def)
  next
    case 3
    then have d: "c div 4096 < 16" "c div 64 mod 64 < 64" "c mod 64 < 64" by (simp_all add: less_mult_imp_div_less)
    have c: "c div 4096 * 4096 + c div 64 mod 64 * 64 + c mod 64 = c" by (rule digits3)
    have lo: "32 \<le> c div 64 mod 64" if "c div 4096 = 0" using c 3 d that by linarith
    have hi: "c div 64 mod 64 < 32" if "c div 4096 = 13" using c assms d that unfolding scalar_def by linarith
    show ?thesis using 3 d lo hi by (subst utf8_valid.simps) (auto simp: utf8_char_def utf8_cont_def)
  next
    case 4
    then have d: "c div 262144 < 5" "c div 4096 mod 64 < 64" "c div 64 mod 64 < 64" "c mod 64 < 64"
      by (simp_all add: less_mult_imp_div_less)
    have c: "c div 262144 * 262144 + c div 4096 mod 64 * 4096 + c div 64 mod 64 * 64 + c mod 64 = c" by (rule digits4)
    have lo: "16 \<le> c div 4096 mod 64" if "c div 262144 = 0" using c 4 d that by linarith
    have hi: "c div 4096 mod 64 < 16" if "c div 262144 = 4" using c 4 d that by linarith
    show ?thesis using 4 d lo hi by (subst utf8_valid.simps) (auto simp: utf8_char_def utf8_cont_def)
  qed
qed

lemma valid_utf8: "list_all scalar cs \<Longrightarrow> utf8_valid (utf8_of cs @ s) = utf8_valid s"
  by (induction cs) (simp_all add: valid_char)

lemma valid_append: "utf8_valid s \<Longrightarrow> utf8_valid (s @ s') = utf8_valid s'"
  using valid_utf8[of "chars s" s'] utf8_chars[of s] by simp

section \<open>UTF-16\<close>

lemma decode_scalars: "decode_utf16 us = Some cs \<Longrightarrow> list_all (\<lambda>u. u < 0x10000) us \<Longrightarrow>
  list_all scalar cs \<and> concat (map utf16_char cs) = us"
proof (induction us arbitrary: cs rule: decode_utf16.induct)
  case (2 u us)
  show ?case
  proof (cases "high_unit u")
    case True
    then have "\<not> low_unit u" by (simp add: high_unit_def low_unit_def)
    then obtain v vs ds where v: "us = v # vs" "low_unit v" "decode_utf16 vs = Some ds" "cs = paired u v # ds"
      using "2.prems" True by (auto split: list.splits if_splits)
    define h l where "h = u - 0xD800" and "l = v - 0xDC00"
    then have hl: "u = 0xD800 + h" "v = 0xDC00 + l" "h < 0x400" "l < 0x400"
      using True v(2) unfolding high_unit_def low_unit_def by linarith+
    have c: "paired u v = 0x10000 + (h * 0x400 + l)" using hl by (simp add: paired_def)
    have "h * 0x400 + l < 0x100000" using hl by linarith
    then have "scalar (paired u v)" "utf16_char (paired u v) = [u, v]"
      using c hl by (simp_all add: scalar_def utf16_char_def)
    then show ?thesis using "2.IH"(1) \<open>\<not> low_unit u\<close> True v "2.prems" by simp
  next
    case False
    then obtain ds where d: "\<not> low_unit u" "decode_utf16 us = Some ds" "cs = u # ds"
      using "2.prems" by (auto split: if_splits)
    have "scalar u" "utf16_char u = [u]"
      using False d(1) "2.prems" by (auto simp: scalar_def utf16_char_def high_unit_def low_unit_def)
    then show ?thesis using "2.IH"(2) False d "2.prems" by simp
  qed
qed simp

lemma decode_char:
  assumes "scalar c"
  shows "decode_utf16 (utf16_char c @ us) = map_option ((#) c) (decode_utf16 us)"
proof (cases "c < 0x10000")
  case True
  then show ?thesis using assms by (auto simp: utf16_char_def scalar_def low_unit_def high_unit_def)
next
  case False
  let ?h = "(c - 0x10000) div 0x400" and ?l = "(c - 0x10000) mod 0x400"
  have d: "?h < 0x400" "?l < 0x400" using assms False by (simp_all add: scalar_def less_mult_imp_div_less)
  have "?h * 0x400 + ?l + 0x10000 = c" using False div_mult_mod_eq[of "c - 0x10000" "0x400"] by linarith
  then show ?thesis using False d
    by (simp add: utf16_char_def low_unit_def high_unit_def paired_def add.commute)
qed

lemma decode_utf16_of: "list_all scalar cs \<Longrightarrow> decode_utf16 (concat (map utf16_char cs)) = Some cs"
  by (induction cs) (simp_all add: decode_char)

lemma high_half: "scalar c \<Longrightarrow> (c - 0x10000) div 0x400 < 0x400"
proof -
  assume "scalar c"
  then have "c - 0x10000 < 0x400 * 0x400" unfolding scalar_def by linarith
  then show ?thesis by (rule less_mult_imp_div_less)
qed

lemma utf16_char_bound: "scalar c \<Longrightarrow> u \<in> set (utf16_char c) \<Longrightarrow> u < 0x10000"
proof -
  assume c: "scalar c" and u: "u \<in> set (utf16_char c)"
  have "(c - 0x10000) div 0x400 < 0x400" by (rule high_half[OF c])
  moreover have "(c - 0x10000) mod 0x400 < 0x400" by simp
  ultimately show ?thesis using u by (auto simp: utf16_char_def split: if_splits)
qed

lemma unat_utf16_of: "list_all scalar cs \<Longrightarrow> map unat (utf16_of cs) = concat (map utf16_char cs)"
proof -
  assume "list_all scalar cs"
  then have "u < 0x10000" if "u \<in> set (concat (map utf16_char cs))" for u
    using that utf16_char_bound by (auto simp: list_all_iff)
  then have "map (\<lambda>u. unat (word_of_nat u :: u16)) (concat (map utf16_char cs)) = concat (map utf16_char cs)"
    by (intro map_idI) (simp add: unat_of_nat)
  then show ?thesis by (simp add: utf16_of_def comp_def)
qed

lemma decode_unat:
  assumes "decode_utf16 (map unat (us :: u16 list)) = Some cs"
  shows "list_all scalar cs" "utf16_of cs = us"
proof -
  have "unat u < 0x10000" for u :: u16 using unsigned_less[of u] by simp
  then have "list_all scalar cs \<and> concat (map utf16_char cs) = map unat us"
    using decode_scalars[OF assms] by (simp add: list_all_iff)
  then show "list_all scalar cs" "utf16_of cs = us" by (simp_all add: utf16_of_def comp_def)
qed

text \<open>Text whose first unit is no low surrogate cannot complete what came before it.\<close>

lemma decode_None_append:
  "decode_utf16 us = None \<Longrightarrow> (vs \<noteq> [] \<longrightarrow> \<not> low_unit (hd vs)) \<Longrightarrow> decode_utf16 (us @ vs) = None"
proof (induction us rule: decode_utf16.induct)
  case (2 u us)
  show ?case
  proof (cases "low_unit u \<or> \<not> high_unit u")
    case True
    then show ?thesis using 2 by (cases "low_unit u") simp_all
  next
    case False
    then show ?thesis using 2 by (cases us; cases vs) (simp_all split: if_splits)
  qed
qed simp

lemma utf16_head: "list_all scalar cs \<Longrightarrow> us = concat (map utf16_char cs) \<Longrightarrow> us \<noteq> [] \<Longrightarrow> \<not> low_unit (hd us)"
proof -
  assume cs: "list_all scalar cs" and us: "us = concat (map utf16_char cs)" "us \<noteq> []"
  then obtain c ds where c: "cs = c # ds" "scalar c" by (cases cs) auto
  have "(c - 0x10000) div 0x400 < 0x400" by (rule high_half[OF c(2)])
  then show "\<not> low_unit (hd us)" using us c by (auto simp: utf16_char_def low_unit_def scalar_def)
qed

lemma encode_Nil [simp]: "encode_utf16 [] = []"
  by (simp add: encode_utf16_def utf16_of_def)

lemma encode_append: "utf8_valid s \<Longrightarrow> encode_utf16 (s @ s') = encode_utf16 s @ encode_utf16 s'"
  by (simp add: encode_utf16_def utf16_of_def chars_append)

lemma utf16_decode_encode: "utf8_valid s \<Longrightarrow> string_from_utf16 (encode_utf16 s) = Some s"
  using utf8_chars[of s] by (simp add: string_from_utf16_def encode_utf16_def unat_utf16_of decode_utf16_of)

lemma utf16_encode_decode:
  assumes "string_from_utf16 us = Some s"
  shows "encode_utf16 s = us" "utf8_valid s" "us \<noteq> [] \<Longrightarrow> s \<noteq> []"
proof -
  obtain cs where cs: "decode_utf16 (map unat us) = Some cs" "s = utf8_of cs"
    using assms by (auto simp: string_from_utf16_def)
  show e: "encode_utf16 s = us" using decode_unat[OF cs(1)] cs(2) chars_utf8 by (simp add: encode_utf16_def)
  show "utf8_valid s" using valid_utf8[of cs "[]"] decode_unat[OF cs(1)] cs(2) by simp
  show "us \<noteq> [] \<Longrightarrow> s \<noteq> []" using e by (auto simp: encode_utf16_def utf16_of_def)
qed

section \<open>Sequences of code units\<close>

text \<open>What the users of DOM strings rely on: a value stands for its code units.\<close>

locale code_units =
  fixes ok :: "'d \<Rightarrow> bool" and units :: "'d \<Rightarrow> 'u list" and empty :: 'd and append :: "'d \<Rightarrow> 'd \<Rightarrow> 'd"
  assumes ok_empty: "ok empty" and units_empty: "units empty = []"
    and ok_append: "ok d \<Longrightarrow> ok e \<Longrightarrow> ok (append d e)"
    and units_append: "ok d \<Longrightarrow> ok e \<Longrightarrow> units (append d e) = units d @ units e"
    and units_inj: "ok d \<Longrightarrow> ok e \<Longrightarrow> units d = units e \<Longrightarrow> d = e"
begin

lemma ok_appends: "ok d \<Longrightarrow> list_all ok es \<Longrightarrow> ok (foldl append d es)"
  by (induction es arbitrary: d) (simp_all add: ok_append)

lemma units_appends: "ok d \<Longrightarrow> list_all ok es \<Longrightarrow> units (foldl append d es) = units d @ concat (map units es)"
  by (induction es arbitrary: d) (simp_all add: ok_append units_append)

end

text \<open>The two canonical forms: text that is not empty, and units with an unpaired surrogate.\<close>

fun dom_ok :: "dom_string \<Rightarrow> bool" where
  "dom_ok DEmpty = True"
| "dom_ok (DUtf8 text) = (text \<noteq> [] \<and> utf8_valid text)"
| "dom_ok (DUtf16 units) = (string_from_utf16 units = None)"

lemma dom_units_simps [simp]: "dom_units DEmpty = []" "dom_units (DUtf8 text) = encode_utf16 text"
  "dom_units (DUtf16 us) = us"
  by (simp_all add: dom_units_def)

lemma ok_from_utf16: "dom_ok (dom_from_utf16 us)"
  using utf16_encode_decode[of us] by (auto simp: dom_from_utf16_def dom_default_def split: option.splits)

lemma units_from_utf16: "dom_units (dom_from_utf16 us) = us"
  using utf16_encode_decode[of us] by (auto simp: dom_from_utf16_def dom_default_def split: option.splits)

lemma from_utf16_units: "dom_ok d \<Longrightarrow> dom_from_utf16 (dom_units d) = d"
proof (cases d)
  case (DUtf8 t)
  assume "dom_ok d"
  then have "t \<noteq> []" "string_from_utf16 (encode_utf16 t) = Some t" using DUtf8 utf16_decode_encode by simp_all
  moreover from this have "encode_utf16 t \<noteq> []" by (auto simp: string_from_utf16_def)
  ultimately show ?thesis using DUtf8 by (simp add: dom_from_utf16_def)
qed (auto simp: dom_from_utf16_def dom_default_def string_from_utf16_def)

lemma string_from_utf16_push:
  assumes "string_from_utf16 us = None" "utf8_valid s"
  shows "string_from_utf16 (us @ encode_utf16 s) = None"
proof -
  have e: "map unat (encode_utf16 s) = concat (map utf16_char (chars s))" "list_all scalar (chars s)"
    using utf8_chars[OF assms(2)] by (simp_all add: encode_utf16_def unat_utf16_of)
  show ?thesis using assms(1) decode_None_append utf16_head[OF e(2) e(1)] by (auto simp: string_from_utf16_def)
qed

lemma push_str_ok: "dom_ok d \<Longrightarrow> utf8_valid s \<Longrightarrow> dom_ok (dom_push_str d s)"
  by (cases d) (simp_all add: dom_push_str_def valid_append string_from_utf16_push)

lemma push_str_units: "dom_ok d \<Longrightarrow> utf8_valid s \<Longrightarrow> dom_units (dom_push_str d s) = dom_units d @ encode_utf16 s"
  by (cases d) (simp_all add: dom_push_str_def encode_append encode_Nil)

lemma push_dom_ok: "dom_ok d \<Longrightarrow> dom_ok e \<Longrightarrow> dom_ok (push_dom d e)"
  by (cases e; cases d) (simp_all add: push_dom_def push_str_ok ok_from_utf16)

lemma push_dom_units: "dom_ok d \<Longrightarrow> dom_ok e \<Longrightarrow> dom_units (push_dom d e) = dom_units d @ dom_units e"
  by (cases e; cases d) (simp_all add: push_dom_def push_str_units units_from_utf16)

interpretation du: code_units dom_ok dom_units DEmpty push_dom
  by unfold_locales (simp_all add: push_dom_ok push_dom_units, metis from_utf16_units)

lemma from_str_ok: "utf8_valid s \<Longrightarrow> dom_ok (dom_from_str s)"
  by (simp add: dom_from_str_def dom_default_def)

lemma from_str_units: "dom_units (dom_from_str s) = encode_utf16 s"
  by (simp add: dom_from_str_def dom_default_def encode_utf16_def utf16_of_def)

text \<open>The values the module builds: its representation is private.\<close>

inductive dom_built :: "dom_string \<Rightarrow> bool" where
  built_default: "dom_built dom_default"
| built_utf16: "dom_built (dom_from_utf16 us)"
| built_str: "utf8_valid s \<Longrightarrow> dom_built (dom_from_str s)"
| built_push_str: "dom_built d \<Longrightarrow> utf8_valid s \<Longrightarrow> dom_built (dom_push_str d s)"
| built_push_dom: "dom_built d \<Longrightarrow> dom_built e \<Longrightarrow> dom_built (push_dom d e)"

lemma built_ok: "dom_built d \<Longrightarrow> dom_ok d"
  by (induction rule: dom_built.induct)
    (simp_all add: dom_default_def ok_from_utf16 from_str_ok push_str_ok push_dom_ok)

lemma lossy_scalars: "list_all (\<lambda>u. u < 0x10000) us \<Longrightarrow> list_all scalar (decode_utf16_lossy us)"
proof (induction us rule: decode_utf16_lossy.induct)
  case (2 u us)
  have pair: "scalar (paired u v)" if "high_unit u" "low_unit v" for v
  proof -
    have "u - 0xD800 < 0x400" "v - 0xDC00 < 0x400" using that unfolding high_unit_def low_unit_def by linarith+
    then have "(u - 0xD800) * 0x400 + (v - 0xDC00) < 0x100000" by linarith
    then show ?thesis by (simp add: paired_def scalar_def)
  qed
  have plain: "scalar u" if "\<not> high_unit u" "\<not> low_unit u"
    using that "2.prems" by (auto simp: scalar_def high_unit_def low_unit_def)
  have repl: "scalar 0xFFFD" by (simp add: scalar_def)
  consider "low_unit u" | "\<not> low_unit u" "\<not> high_unit u" | "\<not> low_unit u" "high_unit u" "us = []"
    | v vs where "\<not> low_unit u" "high_unit u" "us = v # vs" "low_unit v"
    | v vs where "\<not> low_unit u" "high_unit u" "us = v # vs" "\<not> low_unit v"
    by (metis neq_Nil_conv)
  then show ?case
  proof cases
    case 1
    then show ?thesis using "2.IH"(1) "2.prems" repl by simp
  next
    case c: 2
    then show ?thesis using "2.IH"(4) "2.prems" plain by simp
  next
    case 3
    then show ?thesis using repl by simp
  next
    case 4
    then show ?thesis using "2.IH"(2) "2.prems" pair by simp
  next
    case 5
    then show ?thesis using "2.IH"(3) "2.prems" repl by simp
  qed
qed simp

lemma lossy_valid: "dom_ok d \<Longrightarrow> utf8_valid (to_string_lossy d)"
proof (cases d)
  case (DUtf16 us)
  have "unat u < 0x10000" for u :: u16 using unsigned_less[of u] by simp
  then have "list_all scalar (decode_utf16_lossy (map unat us))" by (intro lossy_scalars) (simp add: list_all_iff)
  then show ?thesis using DUtf16 valid_utf8[of _ "[]"] by (simp add: to_string_lossy_def string_from_utf16_lossy_def)
qed (simp_all add: to_string_lossy_def)

text \<open>
  \<^bold>\<open>C30.\<close> C1. A DOM string is its sequence of UTF-16 code units. Every value the module builds is in
  canonical form: two values are equal exactly when their units are, the units of a value
  rebuild it, its length and emptiness are those of its units, it reports an unpaired surrogate
  exactly when its units are not well-formed UTF-16, both append operations append units, and
  text read as UTF-8 is well formed and loses nothing unless there is an unpaired surrogate.
\<close>

theorem dom_string_refines:
  assumes "dom_built d" "dom_built e" "utf8_valid s"
  shows "(d = e \<longleftrightarrow> dom_units d = dom_units e) \<and>
    dom_from_utf16 (dom_units d) = d \<and> dom_units (dom_from_utf16 us) = us \<and>
    dom_len d = length (dom_units d) \<and> (dom_is_empty d \<longleftrightarrow> dom_units d = []) \<and>
    (has_unpaired_surrogate d \<longleftrightarrow> string_from_utf16 (dom_units d) = None) \<and>
    dom_units (dom_push_str d s) = dom_units d @ encode_utf16 s \<and>
    dom_units (push_dom d e) = dom_units d @ dom_units e \<and>
    utf8_valid (to_string_lossy d) \<and>
    (\<not> has_unpaired_surrogate d \<longrightarrow> encode_utf16 (to_string_lossy d) = dom_units d)"
proof -
  note ok = built_ok[OF assms(1)] built_ok[OF assms(2)]
  have utf8: "string_from_utf16 (encode_utf16 t) = Some t" if "d = DUtf8 t" for t
    using that ok(1) utf16_decode_encode by simp
  have "dom_is_empty d \<longleftrightarrow> dom_units d = []"
    using ok(1) utf8 by (cases d) (auto simp: dom_is_empty_def string_from_utf16_def)
  moreover have "has_unpaired_surrogate d \<longleftrightarrow> string_from_utf16 (dom_units d) = None"
    using ok(1) utf8 by (cases d) (auto simp: has_unpaired_surrogate_def string_from_utf16_def)
  moreover have "dom_len d = length (dom_units d)" by (cases d) (simp_all add: dom_len_def)
  moreover have "\<not> has_unpaired_surrogate d \<longrightarrow> encode_utf16 (to_string_lossy d) = dom_units d"
    by (cases d) (simp_all add: has_unpaired_surrogate_def to_string_lossy_def)
  moreover have "d = e \<longleftrightarrow> dom_units d = dom_units e" using du.units_inj[OF ok] by blast
  ultimately show ?thesis
    using ok assms(3) by (simp add: from_utf16_units units_from_utf16 push_str_units push_dom_units lossy_valid)
qed

theorem dom_string_refines_witness:
  "dom_units (push_dom (dom_from_utf16 [0xD83D]) (dom_from_utf16 [0xDE00])) = [0xD83D, 0xDE00] \<and>
   push_dom (dom_from_utf16 [0xD83D]) (dom_from_utf16 [0xDE00]) = dom_from_utf16 [0xD83D, 0xDE00]"
  (is "dom_units (push_dom ?h ?l) = _ \<and> _")
proof -
  have u: "dom_units (push_dom ?h ?l) = [0xD83D, 0xDE00]"
    using dom_string_refines[OF built_utf16[of "[0xD83D]"] built_utf16[of "[0xDE00]"] valid_Nil, of "[]"]
    by (simp only: units_from_utf16 append.simps)
  moreover have "push_dom ?h ?l = dom_from_utf16 (dom_units (push_dom ?h ?l))"
    using from_utf16_units[OF built_ok[OF built_push_dom[OF built_utf16 built_utf16]]] by (rule sym)
  ultimately show ?thesis by (simp only: simp_thms)
qed

end
