(* ===== verification/Documents.thy ===== *)
theory Documents
  imports Dom_Range Dom_String
begin

text \<open>
  \<open>crates/renderer/src/documents.rs\<close>: a document is the tree of \<open>blitz_dom\<close> with the side
  tables the engine keeps per document, and the store of all documents. The functions of
  \<open>blitz_dom\<close> that create nodes are parameters. Hash sets and hash maps are sets and maps; the
  journal counter is a \<open>u64\<close> and document ids are \<open>u32\<close>, with their wrap-around written out.
\<close>

section \<open>The journal and the side tables\<close>

datatype journal_entry =
    ChildList node_id "node_id list" "node_id list" "node_id option" "node_id option"
  | AttributesEntry node_id string string "string option"
  | CharacterDataEntry node_id dom_string

record side_tables =
  sd_journal :: "(nat \<times> journal_entry) list"
  sd_next_journal_position :: nat
  sd_recording :: bool
  sd_started_scripts :: "nat set"
  sd_selectedness_normalized :: "nat set"
  sd_ranges :: range_table
  sd_exact_text :: "nat \<rightharpoonup> dom_string"
  sd_exact_attrs :: "nat \<times> string \<rightharpoonup> dom_string"
  sd_template_owners :: "nat \<rightharpoonup> nat \<times> nat"

definition side_default :: side_tables where
  "side_default =
     \<lparr> sd_journal = [], sd_next_journal_position = 0, sd_recording = False, sd_started_scripts = {},
       sd_selectedness_normalized = {}, sd_ranges = rt_default, sd_exact_text = Map.empty,
       sd_exact_attrs = Map.empty, sd_template_owners = Map.empty \<rparr>"

record blitz_document =
  bd_base :: base_document
  bd_side :: side_tables

definition from_base :: "base_document \<Rightarrow> blitz_document" where
  "from_base base = \<lparr> bd_base = base, bd_side = side_default \<rparr>"

definition on_side :: "(side_tables \<Rightarrow> side_tables) \<Rightarrow> blitz_document \<Rightarrow> blitz_document" where
  "on_side f d = d\<lparr>bd_side := f (bd_side d)\<rparr>"

definition is_selectedness_normalized :: "nat \<Rightarrow> blitz_document \<Rightarrow> bool" where
  "is_selectedness_normalized select d = (select \<in> sd_selectedness_normalized (bd_side d))"

definition mark_selectedness_normalized :: "nat \<Rightarrow> blitz_document \<Rightarrow> blitz_document" where
  "mark_selectedness_normalized select =
     on_side (\<lambda>s. s\<lparr>sd_selectedness_normalized := insert select (sd_selectedness_normalized s)\<rparr>)"

definition invalidate_selectedness :: "nat \<Rightarrow> blitz_document \<Rightarrow> blitz_document" where
  "invalidate_selectedness select =
     on_side (\<lambda>s. s\<lparr>sd_selectedness_normalized := sd_selectedness_normalized s - {select}\<rparr>)"

definition record_entry :: "journal_entry \<Rightarrow> blitz_document \<Rightarrow> blitz_document" where
  "record_entry entry =
     on_side (\<lambda>s.
       if sd_recording s then
         s\<lparr>sd_next_journal_position := (sd_next_journal_position s + 1) mod 2 ^ 64,
           sd_journal := sd_journal s @ [(sd_next_journal_position s, entry)]\<rparr>
       else s)"

definition set_recording :: "bool \<Rightarrow> blitz_document \<Rightarrow> blitz_document" where
  "set_recording recording = on_side (\<lambda>s. s\<lparr>sd_recording := recording\<rparr>)"

definition is_fragment :: "blitz_document \<Rightarrow> nat \<Rightarrow> bool" where
  "is_fragment d i =
     (case map_option bn_data (get_node (bd_base d) i) of
        Some (NFragment _) \<Rightarrow> True | Some (NShadowRoot _) \<Rightarrow> True | _ \<Rightarrow> False)"

section \<open>Character data and attributes with unpaired surrogates\<close>

definition remember_character_data :: "nat \<Rightarrow> dom_string \<Rightarrow> blitz_document \<Rightarrow> blitz_document" where
  "remember_character_data i data =
     on_side (\<lambda>s.
       s\<lparr>sd_exact_text := (sd_exact_text s)(i := if has_unpaired_surrogate data then Some data else None)\<rparr>)"

definition create_text ::
  "(base_document \<Rightarrow> string \<Rightarrow> base_document \<times> nat) \<Rightarrow> dom_string \<Rightarrow> blitz_document \<Rightarrow> blitz_document \<times> nat" where
  "create_text create_text_node data d =
     (let (base, i) = create_text_node (bd_base d) (to_string_lossy data)
      in (remember_character_data i data (d\<lparr>bd_base := base\<rparr>), i))"

definition create_comment ::
  "(base_document \<Rightarrow> string \<Rightarrow> base_document \<times> nat) \<Rightarrow> dom_string \<Rightarrow> blitz_document \<Rightarrow> blitz_document \<times> nat" where
  "create_comment create_comment_node data d =
     (let (base, i) = create_comment_node (bd_base d) (to_string_lossy data)
      in (remember_character_data i data (d\<lparr>bd_base := base\<rparr>), i))"

definition remember_attribute :: "nat \<Rightarrow> string \<Rightarrow> dom_string \<Rightarrow> blitz_document \<Rightarrow> blitz_document" where
  "remember_attribute i name value =
     on_side (\<lambda>s.
       s\<lparr>sd_exact_attrs := (sd_exact_attrs s)((i, name) := if has_unpaired_surrogate value then Some value else None)\<rparr>)"

definition attribute_units :: "blitz_document \<Rightarrow> nat \<Rightarrow> string \<Rightarrow> dom_string option" where
  "attribute_units d i name = sd_exact_attrs (bd_side d) (i, name)"

definition set_template_owner :: "nat \<Rightarrow> nat \<Rightarrow> nat \<Rightarrow> blitz_document \<Rightarrow> blitz_document" where
  "set_template_owner template document fragment =
     on_side (\<lambda>s. s\<lparr>sd_template_owners := (sd_template_owners s)(template \<mapsto> (document, fragment))\<rparr>)"

definition template_owner :: "blitz_document \<Rightarrow> nat \<Rightarrow> (nat \<times> nat) option" where
  "template_owner d template = sd_template_owners (bd_side d) template"

definition character_data :: "blitz_document \<Rightarrow> nat \<Rightarrow> dom_string" where
  "character_data d i =
     (case sd_exact_text (bd_side d) i of
        Some exact \<Rightarrow> exact
      | None \<Rightarrow>
          (case map_option bn_data (get_node (bd_base d) i) of
             Some (NText content) \<Rightarrow> dom_from_str content
           | Some (NComment contents) \<Rightarrow> dom_from_str contents
           | Some (NProcessingInstruction _ contents) \<Rightarrow> dom_from_str contents
           | Some (NCDataSection contents) \<Rightarrow> dom_from_str contents
           | _ \<Rightarrow> dom_default))"

text \<open>The stack of the walk, with its top first.\<close>

partial_function (option) text_walk :: "blitz_document \<Rightarrow> dom_string \<Rightarrow> nat list \<Rightarrow> dom_string option" where
  "text_walk d acc stack =
     (if stack = [] then Some acc
      else
        (case map_option bn_data (get_node (bd_base d) (hd stack)) of
           Some (NText _) \<Rightarrow> text_walk d (push_dom acc (character_data d (hd stack))) (tl stack)
         | Some (NCDataSection _) \<Rightarrow> text_walk d (push_dom acc (character_data d (hd stack))) (tl stack)
         | Some (NElement _) \<Rightarrow> text_walk d acc (children_of (bd_base d) (hd stack) @ tl stack)
         | _ \<Rightarrow> text_walk d acc (tl stack)))"

definition descendant_dom_text :: "blitz_document \<Rightarrow> nat \<Rightarrow> dom_string option" where
  "descendant_dom_text d i = text_walk d dom_default (children_of (bd_base d) i)"

section \<open>Started scripts\<close>

definition script_already_started :: "blitz_document \<Rightarrow> nat \<Rightarrow> bool" where
  "script_already_started d i = (i \<in> sd_started_scripts (bd_side d))"

definition mark_script_started :: "nat \<Rightarrow> blitz_document \<Rightarrow> bool \<times> blitz_document" where
  "mark_script_started i d =
     (i \<notin> sd_started_scripts (bd_side d),
      on_side (\<lambda>s. s\<lparr>sd_started_scripts := insert i (sd_started_scripts s)\<rparr>) d)"

text \<open>From \<open>crates/renderer/src/dom/adoption.rs\<close>: a template is walked through its contents.\<close>

definition children_for_walk :: "base_document \<Rightarrow> nat \<Rightarrow> nat list" where
  "children_for_walk base i =
     (case template_contents base i of
        Some fragment \<Rightarrow> children_of base fragment
      | None \<Rightarrow> children_of base i)"

definition lockstep_children :: "base_document \<Rightarrow> nat \<Rightarrow> base_document \<Rightarrow> nat \<Rightarrow> (nat \<times> nat) list" where
  "lockstep_children from_doc from to_doc to = zip (children_for_walk from_doc from) (children_for_walk to_doc to)"

partial_function (option) copy_walk :: "base_document \<Rightarrow> nat set \<Rightarrow> (nat \<times> nat) list \<Rightarrow> nat set option" where
  "copy_walk base started stack =
     (if stack = [] then Some started
      else
        (let (from, to) = last stack
         in copy_walk base (if from \<in> started then insert to started else started)
              (butlast stack @ lockstep_children base from base to)))"

definition copy_script_started :: "nat \<Rightarrow> nat \<Rightarrow> blitz_document \<Rightarrow> blitz_document option" where
  "copy_script_started from to d =
     (if sd_started_scripts (bd_side d) = {} then Some d
      else map_option (\<lambda>started. on_side (\<lambda>s. s\<lparr>sd_started_scripts := started\<rparr>) d)
             (copy_walk (bd_base d) (sd_started_scripts (bd_side d)) [(from, to)]))"

section \<open>The document store\<close>

record parsed =
  ps_id :: nat
  ps_document :: blitz_document

record document_store =
  st_documents :: "nat \<rightharpoonup> parsed"
  st_next_id :: nat

definition store_default :: document_store where
  "store_default = \<lparr> st_documents = Map.empty, st_next_id = 0 \<rparr>"

definition store_insert :: "parsed \<Rightarrow> document_store \<Rightarrow> nat \<times> document_store" where
  "store_insert p st =
     (let (p, st) =
        (if ps_id p = 0 then
           (let next = (st_next_id st + 1) mod 2 ^ 32 in (p\<lparr>ps_id := next\<rparr>, st\<lparr>st_next_id := next\<rparr>))
         else (p, st))
      in (ps_id p, st\<lparr>st_documents := (st_documents st)(ps_id p \<mapsto> p)\<rparr>))"

definition store_get :: "document_store \<Rightarrow> nat \<Rightarrow> parsed option" where
  "store_get st i = st_documents st i"

definition store_remove :: "nat \<Rightarrow> document_store \<Rightarrow> parsed option \<times> document_store" where
  "store_remove i st = (st_documents st i, st\<lparr>st_documents := (st_documents st)(i := None)\<rparr>)"

section \<open>The parts an operation leaves alone\<close>

lemma on_side_simps [simp]:
  "bd_base (on_side f d) = bd_base d" "bd_side (on_side f d) = f (bd_side d)"
  by (simp_all add: on_side_def)

lemma record_entry_simps [simp]:
  "bd_base (record_entry e d) = bd_base d" "sd_ranges (bd_side (record_entry e d)) = sd_ranges (bd_side d)"
  "sd_recording (bd_side (record_entry e d)) = sd_recording (bd_side d)"
  "sd_exact_text (bd_side (record_entry e d)) = sd_exact_text (bd_side d)"
  by (simp_all add: record_entry_def)

lemma invalidate_simps [simp]:
  "bd_base (invalidate_selectedness i d) = bd_base d"
  "sd_ranges (bd_side (invalidate_selectedness i d)) = sd_ranges (bd_side d)"
  "sd_recording (bd_side (invalidate_selectedness i d)) = sd_recording (bd_side d)"
  "sd_journal (bd_side (invalidate_selectedness i d)) = sd_journal (bd_side d)"
  by (simp_all add: invalidate_selectedness_def)

end
