(* ===== verification/Document_Props.thy ===== *)
theory Document_Props
  imports Documents
begin

text \<open>
  The properties of documents with side tables: character data round-trips exactly although the
  tree holds UTF-8 text, and descendant text is the concatenation of the text of the tree.
\<close>

section \<open>Text that a document holds\<close>

text \<open>The text of every node is a Rust string, and the side table holds DOM strings.\<close>

definition node_text :: "node_data \<Rightarrow> string option" where
  "node_text data =
     (case data of
        NText content \<Rightarrow> Some content | NComment contents \<Rightarrow> Some contents
      | NProcessingInstruction _ contents \<Rightarrow> Some contents | NCDataSection contents \<Rightarrow> Some contents | _ \<Rightarrow> None)"

definition texts_ok :: "blitz_document \<Rightarrow> bool" where
  "texts_ok d \<longleftrightarrow>
     (\<forall>n node s. get_node (bd_base d) n = Some node \<longrightarrow> node_text (bn_data node) = Some s \<longrightarrow> utf8_valid s) \<and>
     (\<forall>n e. sd_exact_text (bd_side d) n = Some e \<longrightarrow> dom_ok e)"

lemma character_data_ok: "texts_ok d \<Longrightarrow> dom_ok (character_data d n)"
  by (auto simp: character_data_def texts_ok_def node_text_def dom_default_def intro!: from_str_ok
      split: option.splits node_data.splits)

text \<open>
  What \<open>create_text_node\<close> and \<open>create_comment_node\<close> of \<open>blitz_dom\<close> do: a node with no links and
  the given data appears under an id that was free, and nothing else changes.
\<close>

definition creates_node ::
  "(string \<Rightarrow> node_data) \<Rightarrow> (base_document \<Rightarrow> string \<Rightarrow> base_document \<times> nat) \<Rightarrow> bool" where
  "creates_node mk create \<longleftrightarrow>
     (\<forall>base s. finite (dom (get_node base)) \<longrightarrow>
        get_node base (snd (create base s)) = None \<and>
        get_node (fst (create base s)) = (get_node base)(snd (create base s) \<mapsto>
          \<lparr> bn_parent = None, bn_children = [], bn_data = mk s, bn_element = None \<rparr>) \<and>
        root_node (fst (create base s)) = root_node base)"

lemma created_data:
  assumes "creates_node mk create" "\<And>s. node_text (mk s) = Some s" "dom_ok data" "finite (dom (get_node (bd_base d)))"
    and "create (bd_base d) (to_string_lossy data) = (base, i)"
  defines "d' \<equiv> remember_character_data i data (d\<lparr>bd_base := base\<rparr>)"
  shows "character_data d' i = data" "n \<noteq> i \<Longrightarrow> character_data d' n = character_data d n"
    "texts_ok d \<Longrightarrow> texts_ok d'"
proof -
  have base: "get_node base = (get_node (bd_base d))(i \<mapsto>
      \<lparr> bn_parent = None, bn_children = [], bn_data = mk (to_string_lossy data), bn_element = None \<rparr>)"
    using assms(1,4,5) unfolding creates_node_def by (metis fst_conv snd_conv)
  have get': "get_node (bd_base d') m = (if m = i then Some \<lparr> bn_parent = None, bn_children = [],
      bn_data = mk (to_string_lossy data), bn_element = None \<rparr> else get_node (bd_base d) m)" for m
    by (simp add: d'_def remember_character_data_def base)
  have exact': "sd_exact_text (bd_side d') m = (if m = i then if has_unpaired_surrogate data then Some data else None
      else sd_exact_text (bd_side d) m)" for m
    by (simp add: d'_def remember_character_data_def)
  have plain: "dom_from_str (to_string_lossy data) = data" if "\<not> has_unpaired_surrogate data"
    using that assms(3)
    by (cases data) (simp_all add: has_unpaired_surrogate_def dom_from_str_def to_string_lossy_def dom_default_def)
  show "character_data d' i = data"
  proof (cases "has_unpaired_surrogate data")
    case False
    then show ?thesis unfolding character_data_def get' exact'
      using plain assms(2)[of "to_string_lossy data"] by (simp add: node_text_def split: node_data.splits)
  qed (simp add: character_data_def exact')
  show "n \<noteq> i \<Longrightarrow> character_data d' n = character_data d n" unfolding character_data_def get' exact' by simp
  show "texts_ok d'" if "texts_ok d"
    unfolding texts_ok_def
  proof (intro conjI allI impI)
    fix m node s
    assume "get_node (bd_base d') m = Some node" "node_text (bn_data node) = Some s"
    then show "utf8_valid s"
      using that lossy_valid[OF assms(3)] assms(2)[of "to_string_lossy data"] unfolding get' texts_ok_def
      by (auto split: if_splits)
  next
    fix m e
    assume "sd_exact_text (bd_side d') m = Some e"
    then show "dom_ok e" using that assms(3) unfolding exact' texts_ok_def by (auto split: if_splits)
  qed
qed

text \<open>
  \<^bold>\<open>C25.\<close> C1. Character data round-trips. Creating a text node or a comment from a DOM string, with or
  without unpaired surrogates, and reading its data back gives the same string, whatever the
  side table held for the id before, and no other node's data changes.
\<close>

theorem character_data_roundtrip:
  assumes "creates_node NText create_text_node" "creates_node NComment create_comment_node" "dom_built data"
    and "finite (dom (get_node (bd_base d)))"
    and "create_text create_text_node data d = (d', i)" "create_comment create_comment_node data d = (d'', j)"
  shows "character_data d' i = data \<and> character_data d'' j = data \<and>
    (\<forall>n. n \<noteq> i \<longrightarrow> character_data d' n = character_data d n) \<and>
    (\<forall>n. n \<noteq> j \<longrightarrow> character_data d'' n = character_data d n) \<and>
    (texts_ok d \<longrightarrow> texts_ok d' \<and> texts_ok d'')"
proof -
  note ok = built_ok[OF assms(3)]
  obtain b where b: "create_text_node (bd_base d) (to_string_lossy data) = (b, i)"
    "d' = remember_character_data i data (d\<lparr>bd_base := b\<rparr>)"
    using assms(5) by (auto simp: create_text_def split: prod.splits)
  obtain c where c: "create_comment_node (bd_base d) (to_string_lossy data) = (c, j)"
    "d'' = remember_character_data j data (d\<lparr>bd_base := c\<rparr>)"
    using assms(6) by (auto simp: create_comment_def split: prod.splits)
  have reads: "node_text (NText s) = Some s" "node_text (NComment s) = Some s" for s by (simp_all add: node_text_def)
  show ?thesis
    using created_data[OF assms(1) reads(1) ok assms(4) b(1)] created_data[OF assms(2) reads(2) ok assms(4) c(1)] b(2) c(2) by simp
qed

text \<open>A document with one element, and creation under the id after the largest one.\<close>

definition create_next :: "(string \<Rightarrow> node_data) \<Rightarrow> base_document \<Rightarrow> string \<Rightarrow> base_document \<times> nat" where
  "create_next mk base s =
     (let i = Suc (Max (insert 0 (dom (get_node base))))
      in (base\<lparr>get_node := (get_node base)(i \<mapsto>
            \<lparr> bn_parent = None, bn_children = [], bn_data = mk s, bn_element = None \<rparr>)\<rparr>, i))"

lemma creates_next: "creates_node mk (create_next mk)"
proof -
  have "get_node base (Suc (Max (insert 0 (dom (get_node base))))) = None" if "finite (dom (get_node base))" for base :: base_document
    using Max_ge[of "insert 0 (dom (get_node base))" "Suc (Max (insert 0 (dom (get_node base))))"] that by fastforce
  then show ?thesis unfolding creates_node_def by (simp add: create_next_def Let_def)
qed

definition empty_page :: blitz_document where
  "empty_page = from_base
     \<lparr> get_node = [0 \<mapsto> \<lparr> bn_parent = None, bn_children = [], bn_data = NDocument, bn_element = None \<rparr>], root_node = 0 \<rparr>"

theorem character_data_roundtrip_witness:
  "character_data (fst (create_text (create_next NText) (dom_from_utf16 [0xD800]) empty_page)) 1 = dom_from_utf16 [0xD800]"
proof -
  have "create_text (create_next NText) (dom_from_utf16 [0xD800]) empty_page =
      (fst (create_text (create_next NText) (dom_from_utf16 [0xD800]) empty_page), 1)"
    by (simp add: create_text_def create_next_def empty_page_def from_base_def Let_def)
  moreover have "finite (dom (get_node (bd_base empty_page)))" by (simp add: empty_page_def from_base_def)
  ultimately show ?thesis
    using character_data_roundtrip[OF creates_next creates_next built_utf16 _ _ surjective_pairing[of "create_comment _ _ _"]]
    by blast
qed

section \<open>Descendant text\<close>

text \<open>The text nodes under a node in tree order, through elements only.\<close>

fun text_nodes :: "base_document \<Rightarrow> dtree \<Rightarrow> nat list" where
  "text_nodes base (DNode n ts) =
     (case map_option bn_data (get_node base n) of
        Some (NText _) \<Rightarrow> [n]
      | Some (NCDataSection _) \<Rightarrow> [n]
      | Some (NElement _) \<Rightarrow> concat (map (text_nodes base) ts)
      | _ \<Rightarrow> [])"

lemma text_walk_tree:
  "represents (bd_base d) par t \<Longrightarrow>
     text_walk d acc (troot t # stack) =
       text_walk d (foldl push_dom acc (map (character_data d) (text_nodes (bd_base d) t))) stack"
proof (induction t arbitrary: par acc stack)
  case (DNode n ts)
  then obtain node where node: "get_node (bd_base d) n = Some node" "bn_children node = map troot ts"
    and ts: "\<forall>t \<in> set ts. represents (bd_base d) (Some n) t"
    by (auto simp: forest_nth split: option.splits)
  have forest: "text_walk d acc (map troot us @ stack) =
      text_walk d (foldl push_dom acc (map (character_data d) (concat (map (text_nodes (bd_base d)) us)))) stack"
    if "set us \<subseteq> set ts" for us acc
    using that
  proof (induction us arbitrary: acc)
    case (Cons u us)
    then show ?case using DNode.IH[of u "Some n" acc "map troot us @ stack"] ts by simp
  qed simp
  show ?case
    using node forest[of ts acc]
    by (subst text_walk.simps) (simp add: children_of_def split: node_data.split)
qed

text \<open>
  C2. Descendant text is complete and in order. In a document that represents a tree the walk
  returns, and the code units of the result are those of the text nodes and CDATA sections below
  the node, reached through elements, in tree order, unpaired surrogates included, even where a
  high surrogate ends one node and the low one begins the next.
\<close>

theorem descendant_text_units:
  assumes "represents (bd_base d) par t" "texts_ok d"
  shows "\<exists>s. descendant_dom_text d (troot t) = Some s \<and> dom_ok s \<and>
    dom_units s = concat (map (\<lambda>n. dom_units (character_data d n)) (concat (map (text_nodes (bd_base d)) (tkids t))))"
proof -
  obtain n ts where t: "t = DNode n ts" by (cases t)
  obtain node where node: "get_node (bd_base d) n = Some node" "bn_children node = map troot ts"
    and ts: "\<forall>t \<in> set ts. represents (bd_base d) (Some n) t"
    using assms(1) t by (auto simp: forest_nth split: option.splits)
  let ?s = "foldl push_dom DEmpty (map (character_data d) (concat (map (text_nodes (bd_base d)) ts)))"
  have "text_walk d acc (map troot us) =
      Some (foldl push_dom acc (map (character_data d) (concat (map (text_nodes (bd_base d)) us))))"
    if "set us \<subseteq> set ts" for us acc
    using that
  proof (induction us arbitrary: acc)
    case Nil
    then show ?case by (simp add: text_walk.simps)
  next
    case (Cons u us)
    then show ?case using text_walk_tree[of d "Some n" u acc "map troot us"] ts by simp
  qed
  then have "descendant_dom_text d n = Some ?s"
    using node by (simp add: descendant_dom_text_def children_of_def dom_default_def)
  moreover have ok: "list_all dom_ok (map (character_data d) ns)" for ns
    using character_data_ok[OF assms(2)] by (simp add: list_all_iff)
  ultimately show ?thesis
    using du.ok_appends[OF du.ok_empty ok] du.units_appends[OF du.ok_empty ok] t by (simp add: comp_def)
qed

text \<open>A paragraph whose two text nodes hold the halves of a surrogate pair.\<close>

definition split_pair_page :: blitz_document where
  "split_pair_page =
     (let e = \<lparr> el_name = \<lparr> qn_prefix = None, qn_ns = html_namespace, qn_local = ''p'' \<rparr>, el_attrs = [],
                el_template_contents = None \<rparr>
      in remember_character_data 2 (DUtf16 [0xDE00]) (remember_character_data 1 (DUtf16 [0xD83D])
          (from_base
            \<lparr> get_node =
                [0 \<mapsto> \<lparr> bn_parent = None, bn_children = [1, 2], bn_data = NElement e, bn_element = Some e \<rparr>,
                 1 \<mapsto> \<lparr> bn_parent = Some 0, bn_children = [], bn_data = NText replacement_char, bn_element = None \<rparr>,
                 2 \<mapsto> \<lparr> bn_parent = Some 0, bn_children = [], bn_data = NText replacement_char, bn_element = None \<rparr>],
              root_node = 0 \<rparr>)))"

theorem descendant_text_units_witness:
  "\<exists>s. descendant_dom_text split_pair_page 0 = Some s \<and> dom_units s = [0xD83D, 0xDE00]"
proof -
  have "represents (bd_base split_pair_page) None (DNode 0 [DNode 1 [], DNode 2 []])"
    by (simp add: split_pair_page_def from_base_def remember_character_data_def Let_def)
  moreover have "utf8_valid replacement_char" by (simp add: replacement_char_def utf8_valid.simps utf8_cont_def)
  then have "texts_ok split_pair_page"
    by (auto simp: texts_ok_def split_pair_page_def from_base_def remember_character_data_def Let_def node_text_def
        has_unpaired_surrogate_def side_default_def string_from_utf16_def low_unit_def high_unit_def split: if_splits)
  moreover have "concat (map (text_nodes (bd_base split_pair_page)) [DNode 1 [], DNode 2 []]) = [1, 2]"
    by (simp add: split_pair_page_def from_base_def remember_character_data_def Let_def)
  moreover have "character_data split_pair_page 1 = DUtf16 [0xD83D]" "character_data split_pair_page 2 = DUtf16 [0xDE00]"
    by (simp_all add: character_data_def split_pair_page_def remember_character_data_def Let_def has_unpaired_surrogate_def)
  ultimately show ?thesis
    using descendant_text_units[of split_pair_page None "DNode 0 [DNode 1 [], DNode 2 []]"] by auto
qed

end
