(* ===== verification/Dom_Equality.thy ===== *)
theory Dom_Equality
  imports Documents
begin

text \<open>
  \<open>crates/renderer/src/dom/equality.rs\<close>: \<open>isEqualNode\<close> across documents. The recursion over the
  two trees is written with the calls that are still to be made, in the order in which
  \<open>Iterator::all\<close> makes them; \<open>None\<close> means that it does not return.
\<close>

section \<open>The comparison\<close>







section \<open>Equality of contents\<close>







subsection \<open>The code's views and these contents\<close>
















end
