(* ===== verification/Dom_Insertion.thy ===== *)
theory Dom_Insertion
  imports Documents
begin

text \<open>
  \<open>crates/renderer/src/dom/insertion.rs\<close>: validity of insertions, and insertion, replacement and
  moves of nodes with their journal records and their effect on live ranges; and the validation
  of \<open>insertBefore\<close>, \<open>replaceChild\<close> and \<open>replaceChildren\<close> in
  \<open>crates/renderer/src/js/bindings/node/core.rs\<close>. The four mutators of \<open>blitz_dom\<close> are
  parameters. An operation that walks the tree has the result \<open>None\<close> when the walk does not return.
\<close>

section \<open>Mutators of \<open>blitz_dom\<close>\<close>

record blitz_ops =
  remove_node :: "base_document \<Rightarrow> nat \<Rightarrow> base_document"
  insert_nodes_before :: "base_document \<Rightarrow> nat \<Rightarrow> nat list \<Rightarrow> base_document"
  append_children :: "base_document \<Rightarrow> nat \<Rightarrow> nat list \<Rightarrow> base_document"
  move_node :: "base_document \<Rightarrow> nat \<Rightarrow> nat \<Rightarrow> nat option \<Rightarrow> base_document"

definition on_base :: "(base_document \<Rightarrow> base_document) \<Rightarrow> blitz_document \<Rightarrow> blitz_document" where
  "on_base f d = d\<lparr>bd_base := f (bd_base d)\<rparr>"

definition set_ranges :: "range_table \<Rightarrow> blitz_document \<Rightarrow> blitz_document" where
  "set_ranges t = on_side (\<lambda>s. s\<lparr>sd_ranges := t\<rparr>)"

definition in_doc :: "nat \<Rightarrow> nat \<Rightarrow> node_id" where
  "in_doc document i = \<lparr> ni_document = document, ni_node = i \<rparr>"

section \<open>Classification\<close>

datatype tree_error = Stale | Hierarchy | NotFound

datatype inserted_node =
    InsFragment nat bool
  | InsElement
  | InsText
  | InsDoctype
  | InsCharacterData
  | InsOther

definition is_text_data :: "base_document \<Rightarrow> nat \<Rightarrow> bool" where
  "is_text_data base i =
     (case map_option bn_data (get_node base i) of
        Some (NText _) \<Rightarrow> True | Some (NCDataSection _) \<Rightarrow> True | _ \<Rightarrow> False)"

definition classify_inserted :: "blitz_document \<Rightarrow> nat \<Rightarrow> inserted_node" where
  "classify_inserted d i =
     (if is_fragment d i then
        (case get_node (bd_base d) i of
           None \<Rightarrow> InsOther
         | Some fragment \<Rightarrow>
             InsFragment (length (filter (is_element (bd_base d)) (bn_children fragment)))
               (list_ex (is_text_data (bd_base d)) (bn_children fragment)))
      else
        (case map_option bn_data (get_node (bd_base d) i) of
           Some (NElement _) \<Rightarrow> InsElement
         | Some (NText _) \<Rightarrow> InsText
         | Some (NCDataSection _) \<Rightarrow> InsText
         | Some (NDoctype _ _ _) \<Rightarrow> InsDoctype
         | Some (NComment _) \<Rightarrow> InsCharacterData
         | Some (NProcessingInstruction _ _) \<Rightarrow> InsCharacterData
         | _ \<Rightarrow> InsOther))"

definition is_doctype :: "base_document \<Rightarrow> nat \<Rightarrow> bool" where
  "is_doctype base i =
     (case map_option bn_data (get_node base i) of Some (NDoctype _ _ _) \<Rightarrow> True | _ \<Rightarrow> False)"

definition parent_has_doctype :: "base_document \<Rightarrow> nat \<Rightarrow> nat list \<Rightarrow> bool" where
  "parent_has_doctype base parent excluded =
     list_ex (\<lambda>child. child \<notin> set excluded \<and> is_doctype base child) (children_of base parent)"

definition sibling_doctype_follows :: "base_document \<Rightarrow> nat \<Rightarrow> nat \<Rightarrow> bool" where
  "sibling_doctype_follows base parent child =
     (case position (\<lambda>kid. kid = child) (children_of base parent) of
        None \<Rightarrow> False
      | Some pos \<Rightarrow> list_ex (is_doctype base) (drop (pos + 1) (children_of base parent)))"

definition sibling_element_precedes :: "base_document \<Rightarrow> nat \<Rightarrow> nat \<Rightarrow> bool" where
  "sibling_element_precedes base parent child =
     (case position (\<lambda>kid. kid = child) (children_of base parent) of
        None \<Rightarrow> False
      | Some pos \<Rightarrow> list_ex (is_element base) (take pos (children_of base parent)))"

definition parent_has_element :: "base_document \<Rightarrow> nat \<Rightarrow> nat list \<Rightarrow> bool" where
  "parent_has_element base parent excluded =
     list_ex (\<lambda>child. child \<notin> set excluded \<and> is_element base child) (children_of base parent)"

text \<open>The loop of \<open>siblings_around\<close>: whether the child was seen, and the sibling before it so far.\<close>

fun around_loop :: "nat \<Rightarrow> bool \<Rightarrow> nat option \<Rightarrow> nat list \<Rightarrow> nat option \<times> nat option" where
  "around_loop child seen previous [] = (previous, None)"
| "around_loop child seen previous (kid # kids) =
     (if kid = child then around_loop child True previous kids
      else if seen then (previous, Some kid)
      else around_loop child seen (Some kid) kids)"

definition siblings_around ::
  "base_document \<Rightarrow> nat \<Rightarrow> nat \<Rightarrow> nat \<Rightarrow> node_id option \<times> node_id option" where
  "siblings_around base document parent child =
     (let (previous, next) = around_loop child False None (children_of base parent)
      in (map_option (in_doc document) previous, map_option (in_doc document) next))"

text \<open>The stack of the walk, with its top first.\<close>

partial_function (option) container_walk :: "base_document \<Rightarrow> nat \<Rightarrow> nat list \<Rightarrow> node_id list option" where
  "container_walk base document stack =
     (if stack = [] then Some []
      else
        Option.bind (container_walk base document (children_of base (hd stack) @ tl stack)) (\<lambda>found.
          Some (if is_child_navigable_container base (hd stack)
                then in_doc document (hd stack) # found else found)))"

fun iframe_containers_in_subtrees :: "base_document \<Rightarrow> node_id list \<Rightarrow> node_id list option" where
  "iframe_containers_in_subtrees base [] = Some []"
| "iframe_containers_in_subtrees base (root # roots) =
     Option.bind (container_walk base (ni_document root) [ni_node root]) (\<lambda>found.
       map_option (append found) (iframe_containers_in_subtrees base roots))"

section \<open>Unlinking and placing\<close>

text \<open>From \<open>crates/renderer/src/dom/forms.rs\<close>.\<close>

partial_function (option) select_walk :: "base_document \<Rightarrow> nat option \<Rightarrow> nat option option" where
  "select_walk base cursor =
     (case cursor of
        None \<Rightarrow> Some None
      | Some current \<Rightarrow>
          if is_html_element base current ''select'' then Some (Some current)
          else select_walk base (parent_link base current))"

definition option_select_owner :: "base_document \<Rightarrow> nat \<Rightarrow> nat option option" where
  "option_select_owner base node = select_walk base (parent_link base node)"

definition try_u32 :: "nat \<Rightarrow> nat option" where
  "try_u32 n = (if n \<le> u32_max then Some n else None)"

definition index_of :: "base_document \<Rightarrow> nat \<Rightarrow> nat \<Rightarrow> nat option" where
  "index_of base parent child =
     Option.bind (position (\<lambda>sibling. sibling = child) (children_of base parent)) try_u32"

definition doc_ranges :: "blitz_document \<Rightarrow> range_table" where
  "doc_ranges d = sd_ranges (bd_side d)"

definition unlink_journaled :: "blitz_ops \<Rightarrow> node_id \<Rightarrow> blitz_document \<Rightarrow> blitz_document option" where
  "unlink_journaled ops target d =
     (let document = ni_document target; base = bd_base d in
      case parent_link base (ni_node target) of
        None \<Rightarrow> Some d
      | Some parent \<Rightarrow>
          (let (previous, next) = siblings_around base document parent (ni_node target);
               index = (if rt_is_empty (doc_ranges d) then None else index_of base parent (ni_node target))
           in Option.bind (option_select_owner base (ni_node target)) (\<lambda>owner.
                let d = (case owner of Some select \<Rightarrow> invalidate_selectedness select d | None \<Rightarrow> d);
                    d = on_base (\<lambda>base. remove_node ops base (ni_node target)) d
                in Option.bind
                     (case index of
                        None \<Rightarrow> Some d
                      | Some index \<Rightarrow>
                          map_option (\<lambda>t. set_ranges t d)
                            (adjust_for_remove (bd_base d) (in_doc document parent) index target (doc_ranges d)))
                     (\<lambda>d. Some (record_entry (ChildList (in_doc document parent) [] [target] previous next) d)))))"

fun leave_loop :: "base_document \<Rightarrow> node_id \<Rightarrow> node_id list \<Rightarrow> range_table \<Rightarrow> range_table option" where
  "leave_loop base fragment [] t = Some t"
| "leave_loop base fragment (child # children) t =
     Option.bind (adjust_for_remove base fragment 0 child t) (leave_loop base fragment children)"

definition adjust_children_leaving ::
  "node_id \<Rightarrow> node_id list \<Rightarrow> blitz_document \<Rightarrow> blitz_document option" where
  "adjust_children_leaving fragment children d =
     (if children = [] \<or> rt_is_empty (doc_ranges d) then Some d
      else map_option (\<lambda>t. set_ranges t d) (leave_loop (bd_base d) fragment children (doc_ranges d)))"

text \<open>The sibling before the place: of the reference, or the last child for an append.\<close>

definition previous_at :: "base_document \<Rightarrow> node_id \<Rightarrow> node_id option \<Rightarrow> node_id option" where
  "previous_at base parent reference =
     (case reference of
        Some reference \<Rightarrow> fst (siblings_around base (ni_document parent) (ni_node parent) (ni_node reference))
      | None \<Rightarrow>
          (case children_of base (ni_node parent) of
             [] \<Rightarrow> None
           | kids \<Rightarrow> Some (in_doc (ni_document parent) (last kids))))"

definition link_child :: "blitz_ops \<Rightarrow> node_id \<Rightarrow> node_id option \<Rightarrow> node_id \<Rightarrow> base_document \<Rightarrow> base_document" where
  "link_child ops parent reference child base =
     (case reference of
        Some reference \<Rightarrow> insert_nodes_before ops base (ni_node reference) [ni_node child]
      | None \<Rightarrow> append_children ops base (ni_node parent) [ni_node child])"

definition place_inner ::
  "blitz_ops \<Rightarrow> node_id \<Rightarrow> node_id \<Rightarrow> node_id option \<Rightarrow> blitz_document \<Rightarrow> blitz_document" where
  "place_inner ops parent child reference d =
     (let previous = previous_at (bd_base d) parent reference
      in record_entry (ChildList parent [child] [] previous reference)
           (on_base (link_child ops parent reference child) d))"

definition place_journaled ::
  "blitz_ops \<Rightarrow> node_id \<Rightarrow> node_id \<Rightarrow> node_id option \<Rightarrow> blitz_document \<Rightarrow> blitz_document" where
  "place_journaled ops parent child reference d =
     (let d = place_inner ops parent child reference d
      in if reference = None \<or> rt_is_empty (doc_ranges d) then d
         else
           (case index_of (bd_base d) (ni_node parent) (ni_node child) of
              Some index \<Rightarrow> set_ranges (adjust_for_insert parent index 1 (doc_ranges d)) d
            | None \<Rightarrow> d))"

section \<open>Insertion\<close>

definition next_sibling :: "base_document \<Rightarrow> node_id \<Rightarrow> node_id option" where
  "next_sibling base n = map_option (in_doc (ni_document n)) (dom_sibling base (ni_node n) True)"

definition splice_parsed ::
  "blitz_ops \<Rightarrow> node_id \<Rightarrow> node_id \<Rightarrow> node_id option \<Rightarrow> blitz_document \<Rightarrow> blitz_document option" where
  "splice_parsed ops parent fragment reference d =
     (let moved = child_ids (bd_base d) (ni_document fragment) (ni_node fragment)
      in if moved = [] then Some d
         else
           Option.bind (adjust_children_leaving fragment moved d) (\<lambda>d.
             let d = record_entry (ChildList fragment [] moved None None) d;
                 reference_index =
                   Option.bind reference (\<lambda>r. index_of (bd_base d) (ni_node parent) (ni_node r));
                 previous = previous_at (bd_base d) parent reference;
                 d = on_base (fold (link_child ops parent reference) moved) d;
                 d = (case reference_index of
                        Some index \<Rightarrow> set_ranges (adjust_for_insert parent index (u32_of (length moved)) (doc_ranges d)) d
                      | None \<Rightarrow> d)
             in Some (record_entry (ChildList parent moved [] previous reference) d)))"

definition insert_parsed ::
  "blitz_ops \<Rightarrow> node_id \<Rightarrow> node_id \<Rightarrow> node_id option \<Rightarrow> blitz_document \<Rightarrow> blitz_document option" where
  "insert_parsed ops parent node reference d =
     (if is_fragment d (ni_node node) then splice_parsed ops parent node reference d
      else
        (let reference = (if reference = Some node then next_sibling (bd_base d) node else reference)
         in map_option (place_journaled ops parent node reference) (unlink_journaled ops node d)))"

text \<open>The loop over the added nodes of \<open>replace_all_journaled\<close>.\<close>

fun append_loop :: "blitz_ops \<Rightarrow> node_id \<Rightarrow> node_id list \<Rightarrow> blitz_document \<Rightarrow> blitz_document option" where
  "append_loop ops parent [] d = Some d"
| "append_loop ops parent (child # added) d =
     Option.bind (unlink_journaled ops child d) (\<lambda>d.
       append_loop ops parent added (on_base (\<lambda>base. append_children ops base (ni_node parent) [ni_node child]) d))"

definition replace_all_journaled ::
  "blitz_ops \<Rightarrow> node_id \<Rightarrow> node_id list \<Rightarrow> blitz_document \<Rightarrow> (blitz_document \<times> node_id list) option" where
  "replace_all_journaled ops parent added d =
     (let removed = child_ids (bd_base d) (ni_document parent) (ni_node parent)
      in Option.bind (iframe_containers_in_subtrees (bd_base d) removed) (\<lambda>iframes.
         Option.bind
           (if removed \<noteq> [] \<and> \<not> rt_is_empty (doc_ranges d)
            then map_option (\<lambda>t. set_ranges t d) (adjust_for_replace_all (bd_base d) parent (doc_ranges d))
            else Some d) (\<lambda>d.
         let d = on_base (fold (\<lambda>kid base. remove_node ops base (ni_node kid)) removed) d
         in Option.bind (append_loop ops parent added d) (\<lambda>d.
              Some (if added \<noteq> [] \<or> removed \<noteq> [] then record_entry (ChildList parent added removed None None) d else d,
                    iframes)))))"

definition fragment_children :: "blitz_document \<Rightarrow> node_id \<Rightarrow> node_id list" where
  "fragment_children d fragment = child_ids (bd_base d) (ni_document fragment) (ni_node fragment)"

definition replace_all_with_node ::
  "blitz_ops \<Rightarrow> node_id \<Rightarrow> node_id \<Rightarrow> blitz_document \<Rightarrow> (blitz_document \<times> node_id list) option" where
  "replace_all_with_node ops parent node d =
     (if is_fragment d (ni_node node) then
        (let moved = fragment_children d node
         in Option.bind (adjust_children_leaving node moved d) (\<lambda>d.
              let d = on_base (fold (\<lambda>child base. remove_node ops base (ni_node child)) moved) d;
                  d = record_entry (ChildList node [] moved None None) d
              in replace_all_journaled ops parent moved d))
      else replace_all_journaled ops parent [node] d)"

section \<open>Collecting insertion steps\<close>

text \<open>The recursions over a subtree, with the calls that are still to be made first to last.\<close>

definition has_nonce :: "base_document \<Rightarrow> nat \<Rightarrow> bool" where
  "has_nonce base i =
     (case Option.bind (get_node base i) bn_element of
        None \<Rightarrow> False
      | Some e \<Rightarrow>
          qn_ns (el_name e) \<in> set [html_namespace, svg_namespace, mathml_namespace] \<and>
          (case dom_attr base i ''nonce'' of None \<Rightarrow> False | Some value \<Rightarrow> value \<noteq> []))"

partial_function (option) nonce_calls :: "base_document \<Rightarrow> nat \<Rightarrow> node_id list \<Rightarrow> nat list \<Rightarrow> node_id list option" where
  "nonce_calls base document out calls =
     (if calls = [] then Some out
      else nonce_calls base document
        (if has_nonce base (hd calls) then out @ [in_doc document (hd calls)] else out)
        (children_of base (hd calls) @ tl calls))"

definition collect_nonce_elements :: "base_document \<Rightarrow> node_id \<Rightarrow> node_id list \<Rightarrow> node_id list option" where
  "collect_nonce_elements base i out = nonce_calls base (ni_document i) out [ni_node i]"

datatype insertion_step = IframeStep node_id | ScriptStep node_id | MetaStep node_id

definition own_step :: "base_document \<Rightarrow> node_id \<Rightarrow> insertion_step list" where
  "own_step base i =
     (if is_html_element base (ni_node i) ''script'' then [ScriptStep i]
      else if is_child_navigable_container base (ni_node i) then [IframeStep i]
      else if is_html_element base (ni_node i) ''meta'' then [MetaStep i]
      else [])"

partial_function (option) step_calls ::
  "base_document \<Rightarrow> nat \<Rightarrow> insertion_step list \<Rightarrow> nat list \<Rightarrow> insertion_step list option" where
  "step_calls base document out calls =
     (if calls = [] then Some out
      else step_calls base document (out @ own_step base (in_doc document (hd calls)))
        (children_of base (hd calls) @ tl calls))"

definition collect_html_insertion_steps ::
  "base_document \<Rightarrow> node_id \<Rightarrow> insertion_step list \<Rightarrow> insertion_step list option" where
  "collect_html_insertion_steps base i out = step_calls base (ni_document i) out [ni_node i]"

section \<open>Validity\<close>

definition ensure_parented :: "base_document \<Rightarrow> node_id \<Rightarrow> node_id \<Rightarrow> tree_error + unit" where
  "ensure_parented base parent reference =
     (if ni_document reference = ni_document parent \<and> ni_node reference \<in> set (children_of base (ni_node parent))
      then Inr () else Inl NotFound)"

definition host_including_parent :: "base_document \<Rightarrow> nat \<Rightarrow> nat option" where
  "host_including_parent base i =
     (case get_node base i of
        None \<Rightarrow> None
      | Some candidate \<Rightarrow>
          (case bn_parent candidate of
             Some parent \<Rightarrow> Some parent
           | None \<Rightarrow>
               (case bn_data candidate of
                  NFragment host \<Rightarrow> host | NShadowRoot host \<Rightarrow> Some host | _ \<Rightarrow> None)))"

partial_function (option) cycle_walk :: "base_document \<Rightarrow> nat \<Rightarrow> nat option \<Rightarrow> (tree_error + unit) option" where
  "cycle_walk base node cursor =
     (case cursor of
        None \<Rightarrow> Some (Inr ())
      | Some current \<Rightarrow>
          if current = node then Some (Inl Hierarchy)
          else cycle_walk base node (host_including_parent base current))"

definition ensure_no_cycle :: "base_document \<Rightarrow> nat \<Rightarrow> nat \<Rightarrow> (tree_error + unit) option" where
  "ensure_no_cycle base parent node = cycle_walk base node (Some parent)"

definition same_document_reference :: "node_id \<Rightarrow> node_id option \<Rightarrow> node_id option" where
  "same_document_reference parent reference =
     Option.bind reference (\<lambda>child. if ni_document child = ni_document parent then Some child else None)"

definition ensure_doctype_position ::
  "base_document \<Rightarrow> node_id \<Rightarrow> node_id option \<Rightarrow> nat list \<Rightarrow> tree_error + unit" where
  "ensure_doctype_position base parent reference excluded =
     (let has_doctype = parent_has_doctype base (ni_node parent) excluded;
          child_id = same_document_reference parent reference;
          element_precedes =
            (case child_id of Some child \<Rightarrow> sibling_element_precedes base (ni_node parent) (ni_node child) | None \<Rightarrow> False);
          has_element = parent_has_element base (ni_node parent) excluded
      in if has_doctype \<or> element_precedes \<or> (child_id = None \<and> has_element) then Inl Hierarchy else Inr ())"

definition ensure_element_position ::
  "base_document \<Rightarrow> node_id \<Rightarrow> node_id option \<Rightarrow> nat list \<Rightarrow> tree_error + unit" where
  "ensure_element_position base parent reference excluded =
     (let has_element = parent_has_element base (ni_node parent) excluded;
          child_id = same_document_reference parent reference;
          doctype_follows =
            (case child_id of Some child \<Rightarrow> sibling_doctype_follows base (ni_node parent) (ni_node child) | None \<Rightarrow> False);
          child_is_doctype =
            (case child_id of
               Some child \<Rightarrow> ni_node child \<notin> set excluded \<and> is_doctype base (ni_node child)
             | None \<Rightarrow> False)
      in if has_element \<or> doctype_follows \<or> child_is_doctype then Inl Hierarchy else Inr ())"

definition ensure_document_content_model ::
  "base_document \<Rightarrow> node_id \<Rightarrow> node_id option \<Rightarrow> nat list \<Rightarrow> inserted_node \<Rightarrow> tree_error + unit" where
  "ensure_document_content_model base parent reference excluded inserted =
     (case inserted of
        InsText \<Rightarrow> Inl Hierarchy
      | InsOther \<Rightarrow> Inl Hierarchy
      | InsCharacterData \<Rightarrow> Inr ()
      | InsFragment elements has_text \<Rightarrow>
          if elements > 1 \<or> has_text then Inl Hierarchy
          else if elements = 0 then Inr ()
          else ensure_element_position base parent reference excluded
      | InsElement \<Rightarrow> ensure_element_position base parent reference excluded
      | InsDoctype \<Rightarrow> ensure_doctype_position base parent reference excluded)"

section \<open>Moves\<close>

datatype move_target = MoveEnd | MoveBefore node_id | MoveUnparented

definition move_element_clash :: "base_document \<Rightarrow> nat \<Rightarrow> nat \<Rightarrow> bool" where
  "move_element_clash base parent node =
     list_ex (\<lambda>child. child \<noteq> node \<and> is_element base child) (children_of base parent)"

definition ensure_can_move ::
  "blitz_document \<Rightarrow> node_id \<Rightarrow> node_id \<Rightarrow> move_target \<Rightarrow> (tree_error + unit) option" where
  "ensure_can_move d parent node target =
     (let base = bd_base d in
      if ni_document node \<noteq> ni_document parent then Some (Inl Hierarchy)
      else
        Option.bind (shadow_including_root base (ni_node parent)) (\<lambda>parent_root.
        Option.bind (shadow_including_root base (ni_node node)) (\<lambda>node_root.
          if parent_root \<noteq> node_root then Some (Inl Hierarchy)
          else
            Option.bind (ensure_no_cycle base (ni_node parent) (ni_node node)) (\<lambda>acyclic.
              case acyclic of
                Inl e \<Rightarrow> Some (Inl e)
              | Inr _ \<Rightarrow>
                  Some
                    (case (case target of
                             MoveBefore child \<Rightarrow>
                               if ni_document child \<noteq> ni_document parent then Inl NotFound
                               else ensure_parented base parent child
                           | MoveUnparented \<Rightarrow> Inl NotFound
                           | MoveEnd \<Rightarrow> Inr ()) of
                       Inl e \<Rightarrow> Inl e
                     | Inr _ \<Rightarrow>
                         (let kind = classify_inserted d (ni_node node);
                              parent_is_document = (root_node base = ni_node parent)
                          in if \<not> (kind = InsElement \<or> kind = InsText \<or> kind = InsCharacterData) then Inl Hierarchy
                             else if parent_is_document \<and> kind = InsText then Inl Hierarchy
                             else if parent_is_document \<and> kind = InsElement \<and>
                               move_element_clash base (ni_node parent) (ni_node node) then Inl Hierarchy
                             else if parent_link base (ni_node node) = None then Inl Hierarchy
                             else Inr ()))))))"

definition move_parsed ::
  "blitz_ops \<Rightarrow> node_id \<Rightarrow> node_id \<Rightarrow> move_target \<Rightarrow> blitz_document \<Rightarrow> blitz_document option" where
  "move_parsed ops parent node target d =
     (let reference = (case target of MoveBefore child \<Rightarrow> Some child | _ \<Rightarrow> None);
          document = ni_document node;
          old_parent = parent_link (bd_base d) (ni_node node);
          (previous, next) =
            (case old_parent of
               None \<Rightarrow> (None, None)
             | Some old \<Rightarrow> siblings_around (bd_base d) document old (ni_node node));
          index =
            (if rt_is_empty (doc_ranges d) then None
             else Option.bind old_parent (\<lambda>old. map_option (Pair old) (index_of (bd_base d) old (ni_node node))));
          d = on_base (\<lambda>base. move_node ops base (ni_node node) (ni_node parent) (map_option ni_node reference)) d
      in Option.bind
           (case index of
              None \<Rightarrow> Some d
            | Some (old, index) \<Rightarrow>
                map_option (\<lambda>t. set_ranges t d)
                  (adjust_for_remove (bd_base d) (in_doc document old) index node (doc_ranges d)))
           (\<lambda>d.
             let d = (case old_parent of
                        Some old \<Rightarrow> record_entry (ChildList (in_doc document old) [] [node] previous next) d
                      | None \<Rightarrow> d);
                 added_previous = map_option (in_doc document) (dom_sibling (bd_base d) (ni_node node) False);
                 d = record_entry (ChildList parent [node] [] added_previous reference) d
             in Some
                  (if reference \<noteq> None \<and> \<not> rt_is_empty (doc_ranges d) then
                     (case index_of (bd_base d) (ni_node parent) (ni_node node) of
                        Some index \<Rightarrow> set_ranges (adjust_for_insert parent index 1 (doc_ranges d)) d
                      | None \<Rightarrow> d)
                   else d)))"

section \<open>Replacement\<close>

definition child_index_of :: "base_document \<Rightarrow> node_id \<Rightarrow> node_id option \<Rightarrow> nat option" where
  "child_index_of base parent child =
     Option.bind child (\<lambda>c. index_of base (ni_node parent) (ni_node c))"

definition adjust_replace_removal :: "node_id \<Rightarrow> node_id \<Rightarrow> blitz_document \<Rightarrow> blitz_document option" where
  "adjust_replace_removal parent old d =
     (if rt_is_empty (doc_ranges d) then Some d
      else
        (case child_index_of (bd_base d) parent (Some old) of
           None \<Rightarrow> Some d
         | Some index \<Rightarrow>
             map_option (\<lambda>t. set_ranges t d) (adjust_for_remove (bd_base d) parent index old (doc_ranges d))))"

datatype replacement =
    ReplNode node_id
  | ReplFragmentContents node_id "node_id list"
  | ReplAdopted "node_id list"

definition replace_parsed ::
  "blitz_ops \<Rightarrow> node_id \<Rightarrow> node_id \<Rightarrow> replacement \<Rightarrow> blitz_document \<Rightarrow> (blitz_document \<times> node_id list) option" where
  "replace_parsed ops parent old repl d =
     (if repl = ReplNode old then
        (let reference = next_sibling (bd_base d) old
         in map_option (\<lambda>d. (place_journaled ops parent old reference d, [old])) (unlink_journaled ops old d))
      else
        (let previous = fst (siblings_around (bd_base d) (ni_document parent) (ni_node parent) (ni_node old));
             reference = next_sibling (bd_base d) old;
             reference =
               (case repl of
                  ReplNode node \<Rightarrow> if reference = Some node then next_sibling (bd_base d) node else reference
                | _ \<Rightarrow> reference);
             added =
               (case repl of ReplNode node \<Rightarrow> [node] | ReplFragmentContents _ children \<Rightarrow> children | ReplAdopted children \<Rightarrow> children)
         in Option.bind
              (case repl of
                 ReplFragmentContents fragment _ \<Rightarrow>
                   map_option (record_entry (ChildList fragment [] added None None))
                     (adjust_children_leaving fragment added d)
               | ReplNode node \<Rightarrow> unlink_journaled ops node d
               | ReplAdopted _ \<Rightarrow> Some d)
              (\<lambda>d.
                Option.bind (adjust_replace_removal parent old d) (\<lambda>d.
                  let d = on_base (\<lambda>base. remove_node ops base (ni_node old)) d;
                      reference_index = child_index_of (bd_base d) parent reference;
                      d = on_base (fold (link_child ops parent reference) added) d;
                      d = (case reference_index of
                             Some index \<Rightarrow> set_ranges (adjust_for_insert parent index (u32_of (length added)) (doc_ranges d)) d
                           | None \<Rightarrow> d)
                  in Some (record_entry (ChildList parent added [old] previous reference) d, added)))))"

section \<open>Validation of the bindings\<close>

datatype node_reference = TreeRef node_id | AttributeRef node_id nat

datatype exception = TypeError | HierarchyRequestError | NotFoundError

fun throw_dom_error :: "tree_error \<Rightarrow> exception" where
  "throw_dom_error Hierarchy = HierarchyRequestError"
| "throw_dom_error NotFound = NotFoundError"
| "throw_dom_error Stale = TypeError"

definition node_ref_tree :: "node_reference \<Rightarrow> node_id option" where
  "node_ref_tree r = (case r of TreeRef i \<Rightarrow> Some i | AttributeRef _ _ \<Rightarrow> None)"

definition can_have_children :: "base_document \<Rightarrow> nat \<Rightarrow> bool" where
  "can_have_children base i =
     (root_node base = i \<or> is_element base i \<or>
      (case map_option bn_data (get_node base i) of
         Some (NFragment _) \<Rightarrow> True | Some (NShadowRoot _) \<Rightarrow> True | _ \<Rightarrow> False))"

text \<open>\<open>owned\<close> says whether some realm owns the node (\<open>world_for_node\<close>).\<close>

definition insertion_excluding_children ::
  "(node_id \<Rightarrow> bool) \<Rightarrow> document_store \<Rightarrow> node_id \<Rightarrow> node_reference \<Rightarrow> node_reference option \<Rightarrow> nat list \<Rightarrow>
   (exception + node_id \<times> node_id option) option" where
  "insertion_excluding_children owned store parent node child excluded =
     (case child of
        Some (AttributeRef _ _) \<Rightarrow> Some (Inl NotFoundError)
      | _ \<Rightarrow>
     (case node_ref_tree node of
        None \<Rightarrow> Some (Inl HierarchyRequestError)
      | Some node \<Rightarrow>
     if \<not> owned parent then Some (Inl TypeError)
     else
     (case store_get store (ni_document parent) of
        None \<Rightarrow> Some (Inl TypeError)
      | Some parsed \<Rightarrow>
     (let base = bd_base (ps_document parsed);
          parent_is_document = (root_node base = ni_node parent);
          reference = (case child of Some (TreeRef i) \<Rightarrow> Some i | _ \<Rightarrow> None)
      in if \<not> can_have_children base (ni_node parent) then Some (Inl HierarchyRequestError)
         else
           Option.bind
             (if ni_document node = ni_document parent then ensure_no_cycle base (ni_node parent) (ni_node node)
              else Some (Inr ())) (\<lambda>acyclic.
           Some
             (case acyclic of
                Inl e \<Rightarrow> Inl (throw_dom_error e)
              | Inr _ \<Rightarrow>
             (case (case reference of None \<Rightarrow> Inr () | Some reference \<Rightarrow> ensure_parented base parent reference) of
                Inl e \<Rightarrow> Inl (throw_dom_error e)
              | Inr _ \<Rightarrow>
             (case store_get store (ni_document node) of
                None \<Rightarrow> Inl TypeError
              | Some node_parsed \<Rightarrow>
                  if root_node (bd_base (ps_document node_parsed)) = ni_node node then Inl HierarchyRequestError
                  else
                    (let inserted = classify_inserted (ps_document node_parsed) (ni_node node)
                     in if inserted = InsOther then Inl HierarchyRequestError
                        else if \<not> parent_is_document then
                          (if inserted = InsDoctype then Inl HierarchyRequestError else Inr (node, reference))
                        else
                          (case ensure_document_content_model base parent reference excluded inserted of
                             Inl e \<Rightarrow> Inl (throw_dom_error e)
                           | Inr _ \<Rightarrow> Inr (node, reference)))))))))))"

text \<open>The replacement that \<open>replace_target\<close> forms of a node of the same document.\<close>

definition same_document_replacement :: "blitz_document \<Rightarrow> node_id \<Rightarrow> replacement" where
  "same_document_replacement d node =
     (if is_fragment d (ni_node node) then ReplFragmentContents node (fragment_children d node) else ReplNode node)"

text \<open>The target of \<open>moveBefore\<close>: a node is moved before its next sibling when it is its own reference.\<close>

definition move_before_target :: "blitz_document \<Rightarrow> node_id \<Rightarrow> node_reference option \<Rightarrow> move_target" where
  "move_before_target d node child =
     (case child of
        None \<Rightarrow> MoveEnd
      | Some (AttributeRef _ _) \<Rightarrow> MoveUnparented
      | Some (TreeRef child) \<Rightarrow>
          if child = node then (case next_sibling (bd_base d) node of None \<Rightarrow> MoveEnd | Some next \<Rightarrow> MoveBefore next)
          else MoveBefore child)"

definition insertion_tree_nodes ::
  "(node_id \<Rightarrow> bool) \<Rightarrow> document_store \<Rightarrow> node_id \<Rightarrow> node_reference \<Rightarrow> node_reference option \<Rightarrow>
   (exception + node_id \<times> node_id option) option" where
  "insertion_tree_nodes owned store parent node child = insertion_excluding_children owned store parent node child []"

end
