(* ===== verification/Dom_Arena.thy ===== *)
theory Dom_Arena
  imports Dom_Insertion Dom_Props
begin

text \<open>
  Well-formed documents and what the mutators of \<open>blitz_dom\<close> do to their links. The invariant
  \<open>arena\<close> speaks of all nodes of a document, in its tree or detached: parent and child links
  agree and have no cycle, also through the hosts of fragments and shadow roots; only elements,
  text, comments, processing instructions and doctypes have parents, a doctype only the document
  itself; only documents, elements, fragments and shadow roots have children.
\<close>

section \<open>The invariant of links\<close>

definition is_comment_data :: "base_document \<Rightarrow> nat \<Rightarrow> bool" where
  "is_comment_data base i =
     (case map_option bn_data (get_node base i) of
        Some (NComment _) \<Rightarrow> True | Some (NProcessingInstruction _ _) \<Rightarrow> True | _ \<Rightarrow> False)"

definition child_kind :: "base_document \<Rightarrow> nat \<Rightarrow> bool" where
  "child_kind base i = (is_element base i \<or> is_text_data base i \<or> is_comment_data base i \<or> is_doctype base i)"

definition parent_kind :: "base_document \<Rightarrow> nat \<Rightarrow> bool" where
  "parent_kind base i =
     (case map_option bn_data (get_node base i) of
        Some NDocument \<Rightarrow> i = root_node base | Some (NElement _) \<Rightarrow> True | Some (NFragment _) \<Rightarrow> True
      | Some (NShadowRoot _) \<Rightarrow> True | _ \<Rightarrow> False)"

definition host_links :: "base_document \<Rightarrow> (nat \<times> nat) set" where
  "host_links base = {(n, p). host_including_parent base n = Some p}"

definition arena :: "base_document \<Rightarrow> bool" where
  "arena base \<longleftrightarrow>
     finite (dom (get_node base)) \<and>
     (\<forall>n p. parent_link base n = Some p \<longleftrightarrow> n \<in> set (children_of base p)) \<and>
     (\<forall>p. distinct (children_of base p)) \<and>
     acyclic (host_links base) \<and>
     (\<forall>n p. parent_link base n = Some p \<longrightarrow>
        child_kind base n \<and> (is_doctype base n \<longrightarrow> p = root_node base) \<and> parent_kind base p) \<and>
     map_option bn_data (get_node base (root_node base)) = Some NDocument"

lemma arenaD:
  assumes "arena base"
  shows "finite (dom (get_node base))" "parent_link base n = Some p \<longleftrightarrow> n \<in> set (children_of base p)"
    "distinct (children_of base p)" "acyclic (host_links base)"
    "parent_link base n = Some p \<Longrightarrow> child_kind base n" "parent_link base n = Some p \<Longrightarrow> is_doctype base n \<Longrightarrow> p = root_node base"
    "parent_link base n = Some p \<Longrightarrow> parent_kind base p"
    "map_option bn_data (get_node base (root_node base)) = Some NDocument"
  using assms unfolding arena_def by blast+

lemma parent_link_Some: "parent_link base n = Some p \<longleftrightarrow> (\<exists>node. get_node base n = Some node \<and> bn_parent node = Some p)"
  by (simp add: parent_link_def bind_eq_Some_conv)

lemma parent_host: "parent_link base n = Some p \<Longrightarrow> (n, p) \<in> host_links base"
  by (auto simp: parent_link_Some host_links_def host_including_parent_def)

section \<open>Links after a removal and after an insertion\<close>

definition relink ::
  "(nat \<Rightarrow> nat option \<Rightarrow> nat option) \<Rightarrow> (nat \<Rightarrow> nat list \<Rightarrow> nat list) \<Rightarrow> base_document \<Rightarrow> base_document" where
  "relink par kids base =
     base\<lparr>get_node := \<lambda>m. map_option
        (\<lambda>node. node\<lparr>bn_parent := par m (bn_parent node), bn_children := kids m (bn_children node)\<rparr>) (get_node base m)\<rparr>"

lemma relink_simps [simp]:
  "root_node (relink par kids base) = root_node base"
  "dom (get_node (relink par kids base)) = dom (get_node base)"
  "get_node (relink par kids base) m = None \<longleftrightarrow> get_node base m = None"
  "map_option bn_data (get_node (relink par kids base) m) = map_option bn_data (get_node base m)"
  "map_option bn_element (get_node (relink par kids base) m) = map_option bn_element (get_node base m)"
  by (auto simp: relink_def option.map_comp comp_def dom_def)

lemma relink_kinds [simp]:
  "is_element (relink par kids base) = is_element base" "is_text_data (relink par kids base) = is_text_data base"
  "is_comment_data (relink par kids base) = is_comment_data base" "is_doctype (relink par kids base) = is_doctype base"
  "child_kind (relink par kids base) = child_kind base" "parent_kind (relink par kids base) = parent_kind base"
  by (simp_all only: fun_eq_iff is_element_def is_text_data_def is_comment_data_def is_doctype_def child_kind_def
      parent_kind_def relink_simps simp_thms)

lemma relink_parent: "get_node base m \<noteq> None \<Longrightarrow> parent_link (relink par kids base) m = par m (parent_link base m)"
  by (auto simp: relink_def parent_link_def)

lemma relink_children: "get_node base m \<noteq> None \<Longrightarrow> children_of (relink par kids base) m = kids m (children_of base m)"
  by (auto simp: relink_def children_of_def)

lemma no_node [simp]:
  "get_node base m = None \<Longrightarrow> parent_link base m = None" "get_node base m = None \<Longrightarrow> children_of base m = []"
  by (simp_all add: parent_link_def children_of_def)

text \<open>\<open>unlinked base n\<close>: \<open>n\<close> has no parent and is no child.\<close>

definition unlinked :: "base_document \<Rightarrow> nat \<Rightarrow> base_document" where
  "unlinked base n = relink (\<lambda>m par. if m = n then None else par) (\<lambda>m kids. filter (\<lambda>c. c \<noteq> n) kids) base"

text \<open>\<open>linked base p i n\<close>: \<open>n\<close> is child \<open>i\<close> of \<open>p\<close>.\<close>

definition linked :: "base_document \<Rightarrow> nat \<Rightarrow> nat \<Rightarrow> nat \<Rightarrow> base_document" where
  "linked base p i n =
     relink (\<lambda>m par. if m = n then Some p else par)
       (\<lambda>m kids. if m = p then take i kids @ n # drop i kids else kids) base"

lemma unlinked_parent [simp]: "parent_link (unlinked base n) m = (if m = n then None else parent_link base m)"
  by (cases "get_node base m") (simp_all add: unlinked_def relink_parent)

lemma unlinked_children [simp]: "children_of (unlinked base n) m = filter (\<lambda>c. c \<noteq> n) (children_of base m)"
  by (cases "get_node base m") (simp_all add: unlinked_def relink_children)

lemma linked_parent:
  "get_node base n \<noteq> None \<Longrightarrow> parent_link (linked base p i n) m = (if m = n then Some p else parent_link base m)"
  by (cases "get_node base m") (auto simp: linked_def relink_parent)

lemma linked_children:
  "get_node base p \<noteq> None \<Longrightarrow> children_of (linked base p i n) m =
     (if m = p then take i (children_of base p) @ n # drop i (children_of base p) else children_of base m)"
  by (cases "get_node base m") (auto simp: linked_def relink_children)

lemma link_kinds [simp]:
  "child_kind (unlinked base n) = child_kind base" "child_kind (linked base p i n) = child_kind base"
  "parent_kind (unlinked base n) = parent_kind base" "parent_kind (linked base p i n) = parent_kind base"
  "is_doctype (unlinked base n) = is_doctype base" "is_doctype (linked base p i n) = is_doctype base"
  "is_element (unlinked base n) = is_element base" "is_element (linked base p i n) = is_element base"
  "is_text_data (unlinked base n) = is_text_data base" "is_text_data (linked base p i n) = is_text_data base"
  "is_comment_data (unlinked base n) = is_comment_data base" "is_comment_data (linked base p i n) = is_comment_data base"
  "root_node (unlinked base n) = root_node base" "root_node (linked base p i n) = root_node base"
  "dom (get_node (unlinked base n)) = dom (get_node base)" "dom (get_node (linked base p i n)) = dom (get_node base)"
  "get_node (unlinked base n) m = None \<longleftrightarrow> get_node base m = None"
  "get_node (linked base p i n) m = None \<longleftrightarrow> get_node base m = None"
  "map_option bn_data (get_node (unlinked base n) m) = map_option bn_data (get_node base m)"
  "map_option bn_data (get_node (linked base p i n) m) = map_option bn_data (get_node base m)"
  by (simp_all add: unlinked_def linked_def)

lemma distinct_splice: "distinct xs \<Longrightarrow> x \<notin> set xs \<Longrightarrow> distinct (take i xs @ x # drop i xs)"
  using set_take_disj_set_drop_if_distinct[of xs i i] by (auto dest: in_set_takeD in_set_dropD)

lemma kind_node: "child_kind base n \<Longrightarrow> get_node base n \<noteq> None" "parent_kind base n \<Longrightarrow> get_node base n \<noteq> None"
  by (cases "get_node base n"; simp add: child_kind_def is_element_def is_text_data_def is_comment_data_def
      is_doctype_def parent_kind_def)+

text \<open>Only fragments and shadow roots are reached through a host, and they are no children.\<close>

lemma child_kind_host: "child_kind base n \<Longrightarrow> host_including_parent base n = parent_link base n"
  by (auto simp: child_kind_def is_element_def is_text_data_def is_comment_data_def is_doctype_def
      host_including_parent_def parent_link_def split: option.splits node_data.splits)

definition own_host :: "base_document \<Rightarrow> nat \<Rightarrow> nat option" where
  "own_host base n =
     (case map_option bn_data (get_node base n) of
        Some (NFragment h) \<Rightarrow> h | Some (NShadowRoot h) \<Rightarrow> Some h | _ \<Rightarrow> None)"

lemma host_data:
  "host_including_parent base n = (case parent_link base n of Some p \<Rightarrow> Some p | None \<Rightarrow> own_host base n)"
  by (auto simp: host_including_parent_def parent_link_def own_host_def split: option.splits node_data.splits)

lemma own_host_links [simp]: "own_host (unlinked base n) m = own_host base m" "own_host (linked base p i n) m = own_host base m"
  by (simp_all only: own_host_def link_kinds)

lemma host_links_unlinked:
  assumes "child_kind base n \<or> parent_link base n = None"
  shows "host_links (unlinked base n) \<subseteq> host_links base"
proof -
  have "host_including_parent (unlinked base n) m = host_including_parent base m \<or>
      host_including_parent (unlinked base n) m = None" for m
  proof (cases "m = n \<and> child_kind base n")
    case True
    then show ?thesis using child_kind_host[of "unlinked base n" n] by simp
  next
    case False
    then show ?thesis using assms by (cases "m = n") (simp_all add: host_data split: option.split)
  qed
  then have same: "host_including_parent base a = Some b" if "host_including_parent (unlinked base n) a = Some b" for a b
    using that by (metis option.distinct(1))
  show ?thesis by (auto simp: host_links_def same)
qed

lemma host_links_linked:
  assumes "get_node base n \<noteq> None"
  shows "host_links (linked base p i n) \<subseteq> insert (n, p) (host_links base)"
proof -
  have "host_including_parent (linked base p i n) m = (if m = n then Some p else host_including_parent base m)" for m
    using assms by (simp add: host_data linked_parent split: option.split)
  then show ?thesis unfolding host_links_def by (auto split: if_splits)
qed

lemma arena_unlinked:
  assumes "arena base"
  shows "arena (unlinked base n)"
proof -
  have "child_kind base n \<or> parent_link base n = None" using arenaD(5)[OF assms] by (cases "parent_link base n") auto
  then have "acyclic (host_links (unlinked base n))"
    using acyclic_subset[OF arenaD(4)[OF assms]] host_links_unlinked by blast
  then show ?thesis using assms unfolding arena_def by (auto simp: arenaD(2)[OF assms])
qed

lemma arena_linked:
  assumes "arena base" "parent_link base n = None" "child_kind base n" "is_doctype base n \<longrightarrow> p = root_node base"
    and "parent_kind base p" "(p, n) \<notin> (host_links base)\<^sup>*"
  shows "arena (linked base p i n)"
proof -
  have n: "get_node base n \<noteq> None" and p: "get_node base p \<noteq> None" using assms(3,5) kind_node by blast+
  note links = linked_parent[OF n] linked_children[OF p]
  have "acyclic (insert (n, p) (host_links base))" using assms(6) arenaD(4)[OF assms(1)] by (simp add: acyclic_insert)
  then have "acyclic (host_links (linked base p i n))" using acyclic_subset host_links_linked[OF n] by blast
  moreover have n_child: "n \<notin> set (children_of base q)" for q using assms(2) arenaD(2)[OF assms(1), of n q] by simp
  have "distinct (children_of (linked base p i n) q)" for q
    using arenaD(3)[OF assms(1), of q] distinct_splice[OF arenaD(3)[OF assms(1), of q] n_child[of q], of i]
    unfolding links by (cases "q = p") simp_all
  moreover have "parent_link (linked base p i n) m = Some q \<longleftrightarrow> m \<in> set (children_of (linked base p i n) q)" for m q
  proof (cases "q = p")
    case True
    have "set (take i (children_of base p) @ n # drop i (children_of base p)) = insert n (set (children_of base p))"
      by (metis append_take_drop_id set_append list.simps(15) Un_insert_right)
    then show ?thesis using True arenaD(2)[OF assms(1), of m p] by (auto simp: links)
  next
    case False
    then show ?thesis using arenaD(2)[OF assms(1), of m q] n_child by (auto simp: links)
  qed
  moreover have "child_kind base m \<and> (is_doctype base m \<longrightarrow> q = root_node base) \<and> parent_kind base q"
    if "parent_link (linked base p i n) m = Some q" for m q
    using that assms(3-5) arenaD(5-7)[OF assms(1), of m q] by (auto simp: linked_parent[OF n] split: if_splits)
  ultimately show ?thesis
    unfolding arena_def link_kinds using arenaD(1,8)[OF assms(1)] by blast
qed

section \<open>Walks end\<close>

lemma host_wf: "arena base \<Longrightarrow> wf ((host_links base)\<inverse>)"
proof -
  assume a: "arena base"
  have "finite (host_links base)"
  proof -
    have "host_links base \<subseteq> (\<lambda>n. (n, the (host_including_parent base n))) ` dom (get_node base)"
      by (force simp: host_links_def host_including_parent_def split: option.splits)
    then show ?thesis using arenaD(1)[OF a] finite_subset by blast
  qed
  then show ?thesis using arenaD(4)[OF a] finite_acyclic_wf_converse by blast
qed

lemma walk_induct [consumes 1, case_names step]:
  assumes "arena base" "\<And>n. (\<And>p. host_including_parent base n = Some p \<Longrightarrow> P p) \<Longrightarrow> P n"
  shows "P n"
  using host_wf[OF assms(1)]
proof (induction n rule: wf_induct_rule)
  case (less n)
  then show ?case using assms(2) by (auto simp: host_links_def)
qed

lemma ancestor_loop_returns:
  assumes "arena base"
  shows "\<exists>b. ancestor_loop base m n = Some b"
proof (induction n rule: walk_induct[OF assms])
  case (1 n)
  then show ?case
    using parent_host[of base n]
    by (subst ancestor_loop.simps) (auto simp: host_links_def split: option.splits)
qed

lemma select_walk_returns: "arena base \<Longrightarrow> \<exists>r. select_walk base (Some n) = Some r"
proof (induction n rule: walk_induct)
  case (step n)
  then show ?case
    using parent_host[of base n] select_walk.simps[of base None]
    by (subst select_walk.simps) (cases "parent_link base n"; auto simp: host_links_def)
qed

lemma owner_returns: "arena base \<Longrightarrow> \<exists>r. option_select_owner base n = Some r"
  using select_walk_returns[of base] select_walk.simps[of base None]
  by (cases "parent_link base n") (auto simp: option_select_owner_def)

lemma cycle_walk_spec:
  assumes "arena base"
  shows "cycle_walk base m (Some n) = Some (if (n, m) \<in> (host_links base)\<^sup>* then Inl Hierarchy else Inr ())"
proof (induction n rule: walk_induct[OF assms])
  case (1 n)
  show ?case
  proof (cases "n = m")
    case False
    show ?thesis
    proof (cases "host_including_parent base n")
      case None
      then have "(n, m) \<notin> (host_links base)\<^sup>*"
        using False by (auto elim: converse_rtranclE simp: host_links_def)
      then show ?thesis using False None by (subst cycle_walk.simps) (simp add: cycle_walk.simps[of base m None])
    next
      case (Some p)
      then have "(n, m) \<in> (host_links base)\<^sup>* \<longleftrightarrow> (p, m) \<in> (host_links base)\<^sup>*"
        using False by (auto elim: converse_rtranclE simp: host_links_def intro: converse_rtrancl_into_rtrancl)
      then show ?thesis using False Some 1 by (subst cycle_walk.simps) simp
    qed
  qed (simp add: cycle_walk.simps)
qed

lemma adjust_for_remove_returns:
  assumes "arena base"
  shows "\<exists>t'. adjust_for_remove base parent index removed t = Some t' \<and> rt_live t' = rt_live t \<and>
    map (\<lambda>s. s = None) (rt_slots t') = map (\<lambda>s. s = None) (rt_slots t)"
proof -
  have point: "\<exists>a'. remove_point base parent index removed a = Some a'" for a
  proof -
    obtain b where "ancestor_loop base (ni_node removed) (ni_node (bp_node a)) = Some b"
      using ancestor_loop_returns[OF assms] by blast
    then have "is_inclusive_descendant base (bp_node a) removed =
        Some (if ni_document removed = ni_document (bp_node a) then b else False)"
      by (simp add: is_inclusive_descendant_def is_inclusive_ancestor_def)
    then show ?thesis by (simp add: remove_point_def)
  qed
  then obtain f where f: "\<And>a. remove_point base parent index removed a = Some (f a)" by metis
  have "adjust_slot (remove_point base parent index removed) s =
      Some (map_option (\<lambda>r. r\<lparr>rs_start := f (rs_start r), rs_end := f (rs_end r)\<rparr>) s)" for s
    by (cases s) (simp_all add: adjust_slot_def f)
  then have "those (map (adjust_slot (remove_point base parent index removed)) (rt_slots t)) =
      Some (map (map_option (\<lambda>r. r\<lparr>rs_start := f (rs_start r), rs_end := f (rs_end r)\<rparr>)) (rt_slots t))"
    by (intro those_map_Some)
  then show ?thesis by (simp add: adjust_for_remove_def adjust_points_walk_def)
qed

end
