(* ===== verification/Dom_Links.thy ===== *)
theory Dom_Links
  imports Dom_Arena
begin

text \<open>
  What the code relies on of the mutators of \<open>blitz_dom\<close>, and what the operations of
  \<open>insertion.rs\<close> do to the links of a document: they return, keep the invariant of links, and
  the children of the parent are the list that the DOM prescribes.
\<close>

section \<open>The mutators\<close>

definition place_index :: "base_document \<Rightarrow> nat \<Rightarrow> nat option \<Rightarrow> nat" where
  "place_index base p reference =
     (case reference of
        None \<Rightarrow> length (children_of base p)
      | Some r \<Rightarrow> (case position (\<lambda>s. s = r) (children_of base p) of
                     Some i \<Rightarrow> i | None \<Rightarrow> length (children_of base p)))"

text \<open>A node leaves its old parent and becomes a child before the reference, or the last child.\<close>

definition placed :: "base_document \<Rightarrow> nat \<Rightarrow> nat option \<Rightarrow> nat \<Rightarrow> base_document" where
  "placed base p reference n = linked (unlinked base n) p (place_index (unlinked base n) p reference) n"

definition link_ok :: "base_document \<Rightarrow> nat \<Rightarrow> nat \<Rightarrow> bool" where
  "link_ok base p n \<longleftrightarrow>
     child_kind base n \<and> parent_kind base p \<and> (is_doctype base n \<longrightarrow> p = root_node base) \<and>
     (p, n) \<notin> (host_links base)\<^sup>*"

text \<open>
  The documented behaviour of the mutators on well-formed documents: \<open>remove_node\<close> takes a node
  from its parent and keeps its subtree, \<open>append_children\<close> and \<open>insert_nodes_before\<close> detach the
  node from its old parent and link it at the end or before the anchor, \<open>move_node\<close> does either.
\<close>

definition blitz_laws :: "blitz_ops \<Rightarrow> bool" where
  "blitz_laws ops \<longleftrightarrow>
     (\<forall>base n. arena base \<longrightarrow>
        remove_node ops base n = unlinked base n \<and>
        (\<forall>p. link_ok base p n \<longrightarrow>
           append_children ops base p [n] = placed base p None n \<and>
           move_node ops base n p None = placed base p None n \<and>
           (\<forall>r. parent_link base r = Some p \<and> r \<noteq> n \<longrightarrow>
              insert_nodes_before ops base r [n] = placed base p (Some r) n \<and>
              move_node ops base n p (Some r) = placed base p (Some r) n)))"

lemma blitz_lawsD:
  assumes "blitz_laws ops" "arena base"
  shows "remove_node ops base n = unlinked base n"
    "link_ok base p n \<Longrightarrow> append_children ops base p [n] = placed base p None n"
    "link_ok base p n \<Longrightarrow> parent_link base r = Some p \<Longrightarrow> r \<noteq> n \<Longrightarrow>
       insert_nodes_before ops base r [n] = placed base p (Some r) n"
    "link_ok base p n \<Longrightarrow> (\<And>r. reference = Some r \<Longrightarrow> parent_link base r = Some p \<and> r \<noteq> n) \<Longrightarrow>
       move_node ops base n p reference = placed base p reference n"
  using assms unfolding blitz_laws_def by (blast, blast, blast, cases reference) auto

text \<open>Mutators that do no more than that.\<close>

definition plain_ops :: blitz_ops where
  "plain_ops =
     \<lparr> remove_node = unlinked,
       insert_nodes_before = (\<lambda>base r ns. fold (\<lambda>n b. placed b (the (parent_link base r)) (Some r) n) ns base),
       append_children = (\<lambda>base p ns. fold (\<lambda>n b. placed b p None n) ns base),
       move_node = (\<lambda>base n p reference. placed base p reference n) \<rparr>"

lemma plain_laws: "blitz_laws plain_ops"
  by (simp add: blitz_laws_def plain_ops_def)

section \<open>Links of placed nodes\<close>

lemma placed_kinds [simp]:
  "child_kind (placed base p r n) = child_kind base" "parent_kind (placed base p r n) = parent_kind base"
  "is_doctype (placed base p r n) = is_doctype base" "is_element (placed base p r n) = is_element base"
  "is_text_data (placed base p r n) = is_text_data base" "is_comment_data (placed base p r n) = is_comment_data base"
  "root_node (placed base p r n) = root_node base" "dom (get_node (placed base p r n)) = dom (get_node base)"
  "map_option bn_data (get_node (placed base p r n) m) = map_option bn_data (get_node base m)"
  by (simp_all add: placed_def)

lemma placed_parent:
  "link_ok base p n \<Longrightarrow> parent_link (placed base p r n) m = (if m = n then Some p else parent_link base m)"
  using kind_node(1)[of base n] linked_parent[of "unlinked base n" n] by (simp add: placed_def link_ok_def)

lemma placed_children:
  assumes "link_ok base p n"
  defines "ks \<equiv> filter (\<lambda>c. c \<noteq> n) (children_of base p)"
  shows "children_of (placed base p r n) m =
    (if m = p then take (place_index (unlinked base n) p r) ks @ n # drop (place_index (unlinked base n) p r) ks
     else filter (\<lambda>c. c \<noteq> n) (children_of base m))"
  using kind_node(2)[of base p] linked_children[of "unlinked base n" p] assms(1) unfolding ks_def
  by (simp add: placed_def link_ok_def)

lemma host_links_unlinked_arena: "arena base \<Longrightarrow> host_links (unlinked base n) \<subseteq> host_links base"
  using host_links_unlinked[of base n] arenaD(5)[of base n] by (cases "parent_link base n") auto

lemma link_ok_unlinked: "arena base \<Longrightarrow> link_ok base p n \<Longrightarrow> link_ok (unlinked base m) p n"
  using rtrancl_mono[OF host_links_unlinked_arena[of base m]] by (auto simp: link_ok_def)

lemma arena_placed:
  assumes "arena base" "link_ok base p n"
  shows "arena (placed base p r n)"
  using link_ok_unlinked[OF assms, of n] arena_linked[OF arena_unlinked[OF assms(1), of n], of n p]
  unfolding placed_def link_ok_def by simp

text \<open>Placing one node leaves room for another under the same parent.\<close>

lemma link_ok_placed:
  assumes "arena base" "link_ok base p n" "link_ok base p m" "n \<noteq> m"
  shows "link_ok (placed base p r n) p m"
proof -
  have "host_links (placed base p r n) \<subseteq> insert (n, p) (host_links base)"
    using host_links_linked[of "unlinked base n" n p] host_links_unlinked_arena[OF assms(1), of n] assms(2) kind_node(1)
    unfolding placed_def link_ok_def by fastforce
  moreover have "(p, m) \<notin> (insert (n, p) (host_links base))\<^sup>*"
  proof
    assume "(p, m) \<in> (insert (n, p) (host_links base))\<^sup>*"
    then have "(p, m) \<in> (host_links base)\<^sup>* \<or> (p, n) \<in> (host_links base)\<^sup>* \<and> (p, m) \<in> (host_links base)\<^sup>*"
      by (auto simp: rtrancl_insert)
    then show False using assms(3) by (auto simp: link_ok_def)
  qed
  ultimately have "(p, m) \<notin> (host_links (placed base p r n))\<^sup>*" using rtrancl_mono by blast
  then show ?thesis using assms(3) by (simp add: link_ok_def)
qed

end
