(* ===== verification/Dom_Effects.thy ===== *)
theory Dom_Effects
  imports Dom_Links
begin

text \<open>
  The effect of the operations of \<open>insertion.rs\<close> on the links of a document, in terms of the
  children before and after the place.
\<close>

section \<open>Places\<close>

text \<open>The children of \<open>p\<close> are \<open>xs @ ys\<close>, and the place before the reference is between them.\<close>

definition place_split :: "base_document \<Rightarrow> nat \<Rightarrow> nat option \<Rightarrow> nat list \<Rightarrow> nat list \<Rightarrow> bool" where
  "place_split base p reference xs ys \<longleftrightarrow>
     children_of base p = xs @ ys \<and>
     (case reference of None \<Rightarrow> ys = [] | Some r \<Rightarrow> ys \<noteq> [] \<and> hd ys = r \<and> r \<notin> set xs)"

lemma place_splitE:
  assumes "reference \<noteq> None \<Longrightarrow> the reference \<in> set (children_of base p)"
  obtains xs ys where "place_split base p reference xs ys"
proof (cases reference)
  case None
  then show ?thesis using that[of "children_of base p" "[]"] by (simp add: place_split_def)
next
  case (Some r)
  then obtain xs ys where "children_of base p = xs @ r # ys" "r \<notin> set xs"
    using assms split_list_first[of r "children_of base p"] by auto
  then show ?thesis using that[of xs "r # ys"] Some by (simp add: place_split_def)
qed

lemma place_split_index: "place_split base p reference xs ys \<Longrightarrow> place_index base p reference = length xs"
proof -
  have pos: "position (\<lambda>s. s = r) (xs @ r # zs) = Some (length xs)" if "r \<notin> set xs" for r zs
    using that by (intro position_SomeI) (auto simp: nth_append in_set_conv_nth)
  show "place_split base p reference xs ys \<Longrightarrow> ?thesis"
    using pos[of "hd ys" "tl ys"] by (cases ys) (auto simp: place_split_def place_index_def split: option.splits)
qed

lemma unlinked_children_same: "n \<notin> set (children_of base p) \<Longrightarrow> children_of (unlinked base n) p = children_of base p"
  by (auto simp: filter_id_conv)

lemma unlinked_none:
  assumes "arena base" "parent_link base n = None"
  shows "unlinked base n = base"
proof -
  have kids: "filter (\<lambda>c. c \<noteq> n) (bn_children node) = bn_children node" if "get_node base m = Some node" for m node
    using that arenaD(2)[OF assms(1), of n m] assms(2) by (auto simp: filter_id_conv children_of_def)
  have "map_option (\<lambda>node. node\<lparr>bn_parent := if m = n then None else bn_parent node,
      bn_children := filter (\<lambda>c. c \<noteq> n) (bn_children node)\<rparr>) (get_node base m) = get_node base m" for m
    using kids[of m] assms(2) by (cases "get_node base m") (auto simp: parent_link_def)
  then show ?thesis by (simp add: unlinked_def relink_def)
qed

lemma unlinked_twice: "arena base \<Longrightarrow> unlinked (unlinked base n) n = unlinked base n"
  by (rule unlinked_none[OF arena_unlinked]) simp_all

lemma placed_unlinked: "arena base \<Longrightarrow> placed (unlinked base n) p r n = placed base p r n"
  by (simp add: placed_def unlinked_twice)

section \<open>Splicing\<close>

text \<open>
  \<open>base'\<close> is \<open>base\<close> with \<open>ns\<close> taken from their parents and made children of \<open>p\<close> between \<open>xs\<close>
  and \<open>ys\<close>, all other links and all data kept.
\<close>

definition spliced :: "base_document \<Rightarrow> nat \<Rightarrow> nat list \<Rightarrow> nat list \<Rightarrow> nat list \<Rightarrow> base_document \<Rightarrow> bool" where
  "spliced base p xs ns ys base' \<longleftrightarrow>
     arena base' \<and> children_of base' p = xs @ ns @ ys \<and>
     (\<forall>m. m \<noteq> p \<longrightarrow> children_of base' m = filter (\<lambda>c. c \<notin> set ns) (children_of base m)) \<and>
     (\<forall>m. parent_link base' m = (if m \<in> set ns then Some p else parent_link base m)) \<and>
     (\<forall>m. map_option bn_data (get_node base' m) = map_option bn_data (get_node base m)) \<and>
     root_node base' = root_node base"

lemma spliced_placed:
  assumes "arena base" "link_ok base p n" "place_split (unlinked base n) p r xs ys"
  shows "spliced base p xs [n] ys (placed base p r n)"
proof -
  have "children_of (placed base p r n) p = xs @ n # ys"
    using placed_children[OF assms(2), of r p] place_split_index[OF assms(3)] assms(3)
    by (simp add: place_split_def)
  then show ?thesis
    using arena_placed[OF assms(1,2), of r] placed_children[OF assms(2), of r] placed_parent[OF assms(2), of r]
    by (simp add: spliced_def)
qed

lemma spliced_fold:
  assumes "blitz_laws ops" "arena base" "distinct ns" "\<And>n. n \<in> set ns \<Longrightarrow> link_ok base (ni_node parent) n"
    and "set ns \<inter> set (children_of base (ni_node parent)) = {}"
    and "place_split base (ni_node parent) (map_option ni_node reference) xs ys"
  shows "spliced base (ni_node parent) xs ns ys
    (fold (link_child ops parent reference) (map (in_doc doc) ns) base)"
  using assms
proof (induction ns arbitrary: base xs)
  case Nil
  then show ?case by (simp add: spliced_def place_split_def)
next
  case (Cons n ns)
  let ?p = "ni_node parent" and ?r = "map_option ni_node reference"
  have ok: "link_ok base ?p n" and fresh: "n \<notin> set (children_of base ?p)" using Cons.prems by simp_all
  have split: "place_split (unlinked base n) ?p ?r xs ys"
    using Cons.prems(6) unlinked_children_same[OF fresh] by (simp add: place_split_def)
  have step: "link_child ops parent reference (in_doc doc n) base = placed base ?p ?r n"
  proof (cases reference)
    case None
    then show ?thesis using blitz_lawsD(2)[OF Cons.prems(1,2) ok] by (simp add: link_child_def in_doc_def)
  next
    case (Some r)
    then have r: "ni_node r \<in> set (children_of base ?p)"
      using Cons.prems(6) by (cases ys) (auto simp: place_split_def)
    then have "parent_link base (ni_node r) = Some ?p" "ni_node r \<noteq> n"
      using arenaD(2)[OF Cons.prems(2)] fresh by auto
    then show ?thesis using Some blitz_lawsD(3)[OF Cons.prems(1,2) ok] by (simp add: link_child_def in_doc_def)
  qed
  let ?b = "placed base ?p ?r n"
  have sp: "spliced base ?p xs [n] ys ?b" by (rule spliced_placed[OF Cons.prems(2) ok split])
  have "?r \<noteq> Some n" using Cons.prems(6) fresh by (cases ys) (auto simp: place_split_def)
  then have "place_split ?b ?p ?r (xs @ [n]) ys"
    using sp Cons.prems(6) by (auto simp: spliced_def place_split_def split: option.splits)
  moreover have "link_ok ?b ?p m" if "m \<in> set ns" for m
    using that Cons.prems(2-4) link_ok_placed[OF Cons.prems(2) ok] by auto
  moreover have "set ns \<inter> set (children_of ?b ?p) = {}"
    using sp Cons.prems(3,5,6) by (auto simp: spliced_def place_split_def)
  ultimately have "spliced ?b ?p (xs @ [n]) ns ys (fold (link_child ops parent reference) (map (in_doc doc) ns) ?b)"
    using Cons.IH[of ?b "xs @ [n]"] Cons.prems(1,3) sp by (simp add: spliced_def)
  then show ?case
    using sp Cons.prems(3) by (auto simp: step spliced_def)
qed

section \<open>Operations\<close>

lemma on_base_simps [simp]: "bd_base (on_base f d) = f (bd_base d)" "bd_side (on_base f d) = bd_side d"
  "doc_ranges (on_base f d) = doc_ranges d"
  by (simp_all add: on_base_def doc_ranges_def)

lemma set_ranges_simps [simp]: "bd_base (set_ranges t d) = bd_base d" "doc_ranges (set_ranges t d) = t"
  "sd_journal (bd_side (set_ranges t d)) = sd_journal (bd_side d)"
  "sd_recording (bd_side (set_ranges t d)) = sd_recording (bd_side d)"
  by (simp_all add: set_ranges_def doc_ranges_def)

lemma doc_ranges_simps [simp]: "doc_ranges (record_entry e d) = doc_ranges d"
  "doc_ranges (invalidate_selectedness i d) = doc_ranges d"
  by (simp_all add: doc_ranges_def)

lemma in_doc_simps [simp]: "ni_node (in_doc d n) = n" "ni_document (in_doc d n) = d"
  by (simp_all add: in_doc_def)

lemma child_ids_in_doc: "child_ids base d i = map (in_doc d) (children_of base i)"
  by (simp add: child_ids_def children_of_def in_doc_def split: option.splits)

lemma set_ranges_same [simp]: "set_ranges (doc_ranges d) d = d"
  by (simp add: set_ranges_def doc_ranges_def on_side_def)

text \<open>The pre-remove steps on the table of ranges: nothing when no range is live or the index is out of range.\<close>

definition removal_ranges :: "base_document \<Rightarrow> node_id \<Rightarrow> nat option \<Rightarrow> node_id \<Rightarrow> range_table \<Rightarrow> range_table option" where
  "removal_ranges base parent index removed t =
     (case (if rt_is_empty t then None else index) of
        None \<Rightarrow> Some t | Some i \<Rightarrow> adjust_for_remove base parent i removed t)"

lemma removal_ranges_returns:
  assumes "arena base"
  shows "\<exists>t'. removal_ranges base parent index removed t = Some t' \<and> rt_live t' = rt_live t \<and>
    map (\<lambda>s. s = None) (rt_slots t') = map (\<lambda>s. s = None) (rt_slots t)"
  using adjust_for_remove_returns[OF assms] by (auto simp: removal_ranges_def split: option.splits)

lemma bind_map_Some: "Option.bind (map_option f x) (\<lambda>d. Some (g d)) = map_option (\<lambda>t. g (f t)) x"
  by (cases x) simp_all

lemma unlink_eq:
  assumes "blitz_laws ops" "arena (bd_base d)" "parent_link (bd_base d) (ni_node target) = Some p"
  defines "base' \<equiv> unlinked (bd_base d) (ni_node target)" and "parent \<equiv> in_doc (ni_document target) p"
  shows "\<exists>d0. sd_journal (bd_side d0) = sd_journal (bd_side d) \<and> sd_recording (bd_side d0) = sd_recording (bd_side d) \<and>
    doc_ranges d0 = doc_ranges d \<and> bd_base d0 = base' \<and>
    unlink_journaled ops target d =
      map_option (\<lambda>t. record_entry (ChildList parent [] [target]
          (fst (siblings_around (bd_base d) (ni_document target) p (ni_node target)))
          (snd (siblings_around (bd_base d) (ni_document target) p (ni_node target)))) (set_ranges t d0))
        (removal_ranges base' parent (index_of (bd_base d) p (ni_node target)) target (doc_ranges d))"
proof -
  obtain owner where owner: "option_select_owner (bd_base d) (ni_node target) = Some owner"
    using owner_returns[OF assms(2)] by blast
  define d0 where "d0 = on_base (\<lambda>base. remove_node ops base (ni_node target))
    (case owner of Some select \<Rightarrow> invalidate_selectedness select d | None \<Rightarrow> d)"
  have d0: "bd_base d0 = base'" "doc_ranges d0 = doc_ranges d" "sd_journal (bd_side d0) = sd_journal (bd_side d)"
    "sd_recording (bd_side d0) = sd_recording (bd_side d)"
    using blitz_lawsD(1)[OF assms(1,2)] by (simp_all add: d0_def base'_def split: option.splits)
  obtain x y where xy: "siblings_around (bd_base d) (ni_document target) p (ni_node target) = (x, y)"
    by (cases "siblings_around (bd_base d) (ni_document target) p (ni_node target)")
  have same: "set_ranges (doc_ranges d) d0 = d0" using set_ranges_same[of d0] d0(2) by simp
  show ?thesis
    using d0 assms(3) owner xy same
    by (intro exI[of _ d0])
      (auto simp: unlink_journaled_def d0_def[symmetric] removal_ranges_def parent_def Let_def bind_map_Some
        split: option.splits)
qed

lemma unlink_links:
  assumes "blitz_laws ops" "arena (bd_base d)"
  shows "\<exists>d'. unlink_journaled ops target d = Some d' \<and> bd_base d' = unlinked (bd_base d) (ni_node target)"
proof (cases "parent_link (bd_base d) (ni_node target)")
  case None
  then show ?thesis using unlinked_none[OF assms(2) None] by (simp add: unlink_journaled_def)
next
  case (Some p)
  from unlink_eq[OF assms Some] show ?thesis
    using removal_ranges_returns[OF arena_unlinked[OF assms(2)]] by fastforce
qed

lemma place_links:
  assumes "blitz_laws ops" "arena (bd_base d)" "link_ok (bd_base d) (ni_node parent) (ni_node child)"
    and "\<And>r. reference = Some r \<Longrightarrow> parent_link (bd_base d) (ni_node r) = Some (ni_node parent) \<and> ni_node r \<noteq> ni_node child"
  shows "bd_base (place_journaled ops parent child reference d) =
    placed (bd_base d) (ni_node parent) (map_option ni_node reference) (ni_node child)"
proof -
  have "link_child ops parent reference child (bd_base d) =
      placed (bd_base d) (ni_node parent) (map_option ni_node reference) (ni_node child)"
    using blitz_lawsD(2,3)[OF assms(1-3)] assms(4) by (auto simp: link_child_def split: option.splits)
  then show ?thesis by (simp add: place_journaled_def place_inner_def Let_def split: option.splits)
qed

end
