(* ===== verification/Dom_Insert_Links.thy ===== *)
theory Dom_Insert_Links
  imports Dom_Effects
begin

text \<open>
  Insertion, replacement and moves return and have the effect on the links that the DOM
  prescribes, for a valid insertion into a well-formed document.
\<close>

section \<open>Valid insertions\<close>

text \<open>The nodes that an insertion moves: the children of a fragment, or the node itself.\<close>

definition moved_nodes :: "blitz_document \<Rightarrow> nat \<Rightarrow> nat list" where
  "moved_nodes d n = (if is_fragment d n then children_of (bd_base d) n else [n])"

definition insertion_ok :: "blitz_document \<Rightarrow> nat \<Rightarrow> nat \<Rightarrow> bool" where
  "insertion_ok d p n \<longleftrightarrow>
     parent_kind (bd_base d) p \<and> (p, n) \<notin> (host_links (bd_base d))\<^sup>* \<and>
     (is_fragment d n \<or> child_kind (bd_base d) n \<and> (is_doctype (bd_base d) n \<longrightarrow> p = root_node (bd_base d)))"

lemma fragment_kind: "is_fragment d n \<Longrightarrow> \<not> child_kind (bd_base d) n"
  by (cases "get_node (bd_base d) n") (auto simp: is_fragment_def child_kind_def is_element_def is_text_data_def
      is_comment_data_def is_doctype_def split: node_data.splits)

lemma fragment_not_root: "arena (bd_base d) \<Longrightarrow> is_fragment d n \<Longrightarrow> n \<noteq> root_node (bd_base d)"
  using arenaD(8)[of "bd_base d"] by (auto simp: is_fragment_def)

lemma moved_ok:
  assumes "arena (bd_base d)" "insertion_ok d p n" "m \<in> set (moved_nodes d n)"
  shows "link_ok (bd_base d) p m"
proof (cases "is_fragment d n")
  case True
  then have par: "parent_link (bd_base d) m = Some n" using assms(1,3) arenaD(2) by (simp add: moved_nodes_def)
  then have "(m, n) \<in> host_links (bd_base d)" by (rule parent_host)
  then have "(p, m) \<notin> (host_links (bd_base d))\<^sup>*"
    using assms(2) rtrancl_into_rtrancl[of p m "host_links (bd_base d)" n] by (auto simp: insertion_ok_def)
  moreover have "\<not> is_doctype (bd_base d) m" using arenaD(6)[OF assms(1) par] fragment_not_root[OF assms(1) True] by blast
  ultimately show ?thesis using assms(2) arenaD(5)[OF assms(1) par] by (simp add: link_ok_def insertion_ok_def)
next
  case False
  then show ?thesis using assms(2,3) by (simp add: moved_nodes_def link_ok_def insertion_ok_def)
qed

lemma moved_distinct: "arena (bd_base d) \<Longrightarrow> distinct (moved_nodes d n)"
  using arenaD(3) by (simp add: moved_nodes_def)

lemma fragment_apart:
  assumes "arena (bd_base d)" "insertion_ok d p n" "is_fragment d n"
  shows "set (children_of (bd_base d) n) \<inter> set (children_of (bd_base d) p) = {}"
proof -
  have "n \<noteq> p" using assms(2) by (auto simp: insertion_ok_def)
  then show ?thesis using arenaD(2)[OF assms(1)] by (metis disjoint_iff option.inject)
qed

section \<open>Insertion\<close>

lemma node_id_eq: "ni_document a = ni_document b \<Longrightarrow> ni_node a = ni_node b \<Longrightarrow> a = b" for a b :: node_id
  by (cases a; cases b) simp

lemma leave_returns:
  assumes "arena (bd_base d)"
  shows "\<exists>d'. adjust_children_leaving fragment children d = Some d' \<and> bd_base d' = bd_base d"
proof -
  have "\<exists>t'. leave_loop (bd_base d) fragment children t = Some t'" for t
  proof (induction children arbitrary: t)
    case (Cons c cs)
    obtain t' where "adjust_for_remove (bd_base d) fragment 0 c t = Some t'"
      using adjust_for_remove_returns[OF assms] by blast
    then show ?case using Cons[of t'] by simp
  qed simp
  then show ?thesis by (auto simp: adjust_children_leaving_def) (metis set_ranges_simps(1) option.simps(9))
qed

lemma next_sibling_split:
  assumes "arena base" "children_of base p = us @ ni_node n # vs"
  shows "next_sibling base n = (case vs of [] \<Rightarrow> None | v # _ \<Rightarrow> Some (in_doc (ni_document n) v))"
proof -
  have par: "parent_link base (ni_node n) = Some p" using arenaD(2)[OF assms(1)] assms(2) by simp
  then obtain node where node: "get_node base (ni_node n) = Some node" "bn_parent node = Some p" by (auto simp: parent_link_Some)
  obtain pnode where pnode: "get_node base p = Some pnode" "bn_children pnode = us @ ni_node n # vs"
    using assms(2) by (cases "get_node base p") (auto simp: children_of_def)
  have "distinct (us @ ni_node n # vs)" using arenaD(3)[OF assms(1), of p] assms(2) by simp
  then have "position (\<lambda>s. s = ni_node n) (us @ ni_node n # vs) = Some (length us)"
    using position_distinct[of "us @ ni_node n # vs" "length us"] by simp
  then show ?thesis using node pnode
    by (simp add: next_sibling_def dom_sibling_def Let_def nth_opt_def nth_append split: list.split)
qed

lemma place_split_filter:
  assumes "place_split base p reference us vs" "reference \<noteq> Some n"
  shows "place_split (unlinked base n) p reference (filter (\<lambda>c. c \<noteq> n) us) (filter (\<lambda>c. c \<noteq> n) vs)"
  using assms by (cases vs) (auto simp: place_split_def split: option.splits)

text \<open>The reference that \<open>insert_parsed\<close> uses, when the node itself was given, is its next sibling.\<close>

lemma place_split_self:
  assumes "arena base" "place_split base p (Some (ni_node n)) us vs"
  shows "place_split (unlinked base (ni_node n)) p (map_option ni_node (next_sibling base n))
    (filter (\<lambda>c. c \<noteq> ni_node n) us) (filter (\<lambda>c. c \<noteq> ni_node n) vs)"
proof -
  obtain ws where vs: "vs = ni_node n # ws" using assms(2) by (cases vs) (auto simp: place_split_def)
  then have kids: "children_of base p = us @ ni_node n # ws" using assms(2) by (simp add: place_split_def)
  then have d: "distinct (us @ ni_node n # ws)" using arenaD(3)[OF assms(1)] by metis
  then have "filter (\<lambda>c. c \<noteq> ni_node n) us = us" "filter (\<lambda>c. c \<noteq> ni_node n) ws = ws" by (auto simp: filter_id_conv)
  then show ?thesis
    using kids vs d next_sibling_split[OF assms(1) kids]
    by (cases ws) (auto simp: place_split_def)
qed

lemma reference_linked:
  assumes "arena base" "place_split base p (map_option ni_node reference) xs ys" "reference = Some r"
  shows "parent_link base (ni_node r) = Some p"
  using assms arenaD(2)[OF assms(1)] by (cases ys) (auto simp: place_split_def)

lemma insert_links:
  assumes "blitz_laws ops" "arena (bd_base d)" "insertion_ok d (ni_node parent) (ni_node node)"
    and "place_split (bd_base d) (ni_node parent) (map_option ni_node reference) us vs"
    and "\<And>r. reference = Some r \<Longrightarrow> ni_document r = ni_document node"
  defines "ms \<equiv> moved_nodes d (ni_node node)"
  shows "\<exists>d'. insert_parsed ops parent node reference d = Some d' \<and>
    spliced (bd_base d) (ni_node parent) (filter (\<lambda>c. c \<notin> set ms) us) ms (filter (\<lambda>c. c \<notin> set ms) vs) (bd_base d')"
proof (cases "is_fragment d (ni_node node)")
  case True
  let ?p = "ni_node parent"
  have ms: "ms = children_of (bd_base d) (ni_node node)" using True by (simp add: ms_def moved_nodes_def)
  have apart: "set ms \<inter> set (children_of (bd_base d) ?p) = {}" using fragment_apart[OF assms(2,3) True] ms by simp
  then have fil: "filter (\<lambda>c. c \<notin> set ms) us = us" "filter (\<lambda>c. c \<notin> set ms) vs = vs"
    using assms(4) by (auto simp: place_split_def filter_id_conv)
  obtain d1 where d1: "adjust_children_leaving node (map (in_doc (ni_document node)) ms) d = Some d1" "bd_base d1 = bd_base d"
    using leave_returns[OF assms(2)] by blast
  have sp: "spliced (bd_base d) ?p us ms vs (fold (link_child ops parent reference) (map (in_doc (ni_document node)) ms) (bd_base d))"
    using spliced_fold[OF assms(1,2) moved_distinct[OF assms(2), of "ni_node node"] _ _ assms(4)]
      moved_ok[OF assms(2,3)] apart by (simp add: ms_def)
  show ?thesis
  proof (cases "ms = []")
    case True
    then show ?thesis using \<open>is_fragment d (ni_node node)\<close> sp fil ms
      by (simp add: insert_parsed_def splice_parsed_def child_ids_in_doc)
  next
    case False
    then show ?thesis using True sp fil ms d1
      by (simp add: insert_parsed_def splice_parsed_def child_ids_in_doc Let_def split: option.split)
  qed
next
  case False
  let ?p = "ni_node parent" and ?n = "ni_node node" and ?base = "bd_base d"
  let ?fil = "filter (\<lambda>c. c \<noteq> ?n)"
  have ms: "ms = [?n]" using False by (simp add: ms_def moved_nodes_def)
  have ok: "link_ok ?base ?p ?n" using moved_ok[OF assms(2,3)] ms by (simp add: ms_def)
  define ref where "ref = (if reference = Some node then next_sibling ?base node else reference)"
  have split: "place_split (unlinked ?base ?n) ?p (map_option ni_node ref) (?fil us) (?fil vs)"
  proof (cases "reference = Some node")
    case True
    then show ?thesis using place_split_self[OF assms(2), of ?p node us vs] assms(4) by (simp add: ref_def)
  next
    case False
    have "map_option ni_node reference \<noteq> Some ?n"
    proof
      assume "map_option ni_node reference = Some ?n"
      then obtain r where "reference = Some r" "ni_node r = ?n" by blast
      then show False using node_id_eq[of r node] assms(5)[of r] False by simp
    qed
    then show ?thesis using place_split_filter[OF assms(4)] False by (simp add: ref_def)
  qed
  obtain d1 where d1: "unlink_journaled ops node d = Some d1" "bd_base d1 = unlinked ?base ?n"
    using unlink_links[OF assms(1,2)] by blast
  have refs: "parent_link (bd_base d1) (ni_node r) = Some ?p \<and> ni_node r \<noteq> ?n" if "ref = Some r" for r
    using reference_linked[OF arena_unlinked[OF assms(2)] split that] d1(2) by (auto split: if_splits)
  have a1: "arena (bd_base d1)" using d1(2) arena_unlinked[OF assms(2)] by simp
  have ok1: "link_ok (bd_base d1) ?p ?n" using d1(2) link_ok_unlinked[OF assms(2) ok] by simp
  have "bd_base (place_journaled ops parent node ref d1) = placed (bd_base d1) ?p (map_option ni_node ref) ?n"
    by (rule place_links[OF assms(1) a1 ok1 refs])
  then have "bd_base (place_journaled ops parent node ref d1) = placed ?base ?p (map_option ni_node ref) ?n"
    using d1(2) placed_unlinked[OF assms(2)] by simp
  then show ?thesis
    using spliced_placed[OF assms(2) ok split] d1(1) False ms by (simp add: insert_parsed_def ref_def Let_def)
qed

section \<open>Replacement\<close>

lemma unlinked_comm_children [simp]:
  "children_of (unlinked (unlinked base n) m) p = filter (\<lambda>c. c \<noteq> n \<and> c \<noteq> m) (children_of base p)"
  by (simp add: filter_filter conj_commute)

lemma filter_ne: "x \<notin> set xs \<Longrightarrow> filter (\<lambda>c. c \<noteq> x) xs = xs"
  by (auto simp: filter_id_conv)

text \<open>Splicing into a document from which a child was removed first, in either order.\<close>

lemma spliced_unlinked:
  assumes "arena base" "spliced (unlinked (unlinked base n) old) p xs [n] ys base'"
  shows "spliced (unlinked base old) p xs [n] ys base'"
  using assms(2) by (auto simp: spliced_def filter_filter intro!: filter_cong)

lemma replace_removal_returns:
  assumes "arena (bd_base d)"
  shows "\<exists>d'. adjust_replace_removal parent old d = Some d' \<and> bd_base d' = bd_base d"
  using adjust_for_remove_returns[OF assms] by (fastforce simp: adjust_replace_removal_def split: option.split)

text \<open>The reference for a replacement: the next sibling of the old child that is not the new node.\<close>

lemma replace_reference:
  assumes "arena base" "children_of base p = us @ ni_node old # vs" "ni_document node = ni_document old"
  defines "r \<equiv> (if next_sibling base old = Some node then next_sibling base node else next_sibling base old)"
  shows "map_option ni_node r = (case filter (\<lambda>c. c \<noteq> ni_node node) vs of [] \<Rightarrow> None | v # _ \<Rightarrow> Some v)"
proof -
  have dist: "distinct (us @ ni_node old # vs)" using arenaD(3)[OF assms(1), of p] assms(2) by simp
  note old = next_sibling_split[OF assms(1,2)]
  show ?thesis
  proof (cases vs)
    case Nil
    then show ?thesis using old by (simp add: r_def)
  next
    case (Cons v ws)
    show ?thesis
    proof (cases "v = ni_node node")
      case True
      have "children_of base p = (us @ [ni_node old]) @ ni_node node # ws" using assms(2) Cons True by simp
      from next_sibling_split[OF assms(1) this] have "next_sibling base node =
          (case ws of [] \<Rightarrow> None | v # _ \<Rightarrow> Some (in_doc (ni_document node) v))" .
      moreover have "filter (\<lambda>c. c \<noteq> ni_node node) ws = ws" using dist Cons True by (auto simp: filter_id_conv)
      moreover have "next_sibling base old = Some node"
        using old Cons True assms(3) node_id_eq[of "in_doc (ni_document old) v" node] by simp
      ultimately show ?thesis using Cons True by (cases ws) (simp_all add: r_def)
    next
      case False
      then have "next_sibling base old \<noteq> Some node" using old Cons by auto
      then show ?thesis using old Cons False by (simp add: r_def)
    qed
  qed
qed

text \<open>The second half of \<open>replace_parsed\<close>: the old child goes and the new ones come.\<close>

definition replace_tail ::
  "blitz_ops \<Rightarrow> node_id \<Rightarrow> node_id \<Rightarrow> node_id option \<Rightarrow> node_id option \<Rightarrow> node_id list \<Rightarrow> blitz_document \<Rightarrow>
   (blitz_document \<times> node_id list) option" where
  "replace_tail ops parent old previous reference added d =
     Option.bind (adjust_replace_removal parent old d) (\<lambda>d.
       let d = on_base (\<lambda>base. remove_node ops base (ni_node old)) d;
           reference_index = child_index_of (bd_base d) parent reference;
           d = on_base (fold (link_child ops parent reference) added) d;
           d = (case reference_index of
                  Some index \<Rightarrow> set_ranges (adjust_for_insert parent index (u32_of (length added)) (doc_ranges d)) d
                | None \<Rightarrow> d)
       in Some (record_entry (ChildList parent added [old] previous reference) d, added))"

lemma replace_parsed_eq:
  "replace_parsed ops parent old repl d =
     (if repl = ReplNode old then
        map_option (\<lambda>d'. (place_journaled ops parent old (next_sibling (bd_base d) old) d', [old])) (unlink_journaled ops old d)
      else
        (let previous = fst (siblings_around (bd_base d) (ni_document parent) (ni_node parent) (ni_node old))
         in case repl of
              ReplNode node \<Rightarrow>
                Option.bind (unlink_journaled ops node d)
                  (replace_tail ops parent old previous
                    (if next_sibling (bd_base d) old = Some node then next_sibling (bd_base d) node else next_sibling (bd_base d) old)
                    [node])
            | ReplFragmentContents fragment children \<Rightarrow>
                Option.bind (map_option (record_entry (ChildList fragment [] children None None))
                    (adjust_children_leaving fragment children d))
                  (replace_tail ops parent old previous (next_sibling (bd_base d) old) children)
            | ReplAdopted children \<Rightarrow>
                replace_tail ops parent old previous (next_sibling (bd_base d) old) children d))"
  unfolding replace_parsed_def replace_tail_def by (cases repl) (simp_all add: Let_def cong: option.case_cong)

lemma replace_tail_links:
  assumes "blitz_laws ops" "arena (bd_base d)" "distinct ms" "\<And>n. n \<in> set ms \<Longrightarrow> link_ok (bd_base d) (ni_node parent) n"
    and "children_of (unlinked (bd_base d) (ni_node old)) (ni_node parent) = xs @ ys" "distinct (xs @ ys)"
    and "set ms \<inter> set (xs @ ys) = {}"
    and "map_option ni_node reference = (case ys of [] \<Rightarrow> None | v # _ \<Rightarrow> Some v)"
  shows "\<exists>d'. replace_tail ops parent old previous reference (map (in_doc doc) ms) d = Some (d', map (in_doc doc) ms) \<and>
    spliced (unlinked (bd_base d) (ni_node old)) (ni_node parent) xs ms ys (bd_base d')"
proof -
  obtain d1 where d1: "adjust_replace_removal parent old d = Some d1" "bd_base d1 = bd_base d"
    using replace_removal_returns[OF assms(2)] by blast
  let ?b = "unlinked (bd_base d) (ni_node old)"
  have "place_split ?b (ni_node parent) (map_option ni_node reference) xs ys"
    using assms(5,6,8) by (cases ys) (auto simp: place_split_def)
  then have "spliced ?b (ni_node parent) xs ms ys (fold (link_child ops parent reference) (map (in_doc doc) ms) ?b)"
    using assms(3-5,7) arena_unlinked[OF assms(2)] link_ok_unlinked[OF assms(2)]
    by (intro spliced_fold[OF assms(1)]) auto
  then show ?thesis
    using d1 blitz_lawsD(1)[OF assms(1,2)] by (simp add: replace_tail_def Let_def split: option.split)
qed

text \<open>The nodes that a replacement brings, and when they may come.\<close>

fun repl_ok :: "blitz_document \<Rightarrow> node_id \<Rightarrow> node_id \<Rightarrow> replacement \<Rightarrow> nat list \<Rightarrow> bool" where
  "repl_ok d parent old (ReplNode node) ms =
     (ms = [ni_node node] \<and> \<not> is_fragment d (ni_node node) \<and> insertion_ok d (ni_node parent) (ni_node node) \<and>
      ni_document node = ni_document old)"
| "repl_ok d parent old (ReplFragmentContents fragment children) ms =
     (is_fragment d (ni_node fragment) \<and> insertion_ok d (ni_node parent) (ni_node fragment) \<and>
      ms = children_of (bd_base d) (ni_node fragment) \<and> children = map (in_doc (ni_document fragment)) ms)"
| "repl_ok d parent old (ReplAdopted children) ms =
     (distinct ms \<and> (\<forall>m \<in> set ms. parent_link (bd_base d) m = None \<and> link_ok (bd_base d) (ni_node parent) m) \<and>
      children = map (in_doc (ni_document parent)) ms)"

lemma replace_links:
  assumes "blitz_laws ops" "arena (bd_base d)" "repl_ok d parent old repl ms"
    and kids: "children_of (bd_base d) (ni_node parent) = us @ ni_node old # vs"
  shows "\<exists>d' added. replace_parsed ops parent old repl d = Some (d', added) \<and> map ni_node added = ms \<and>
    spliced (unlinked (bd_base d) (ni_node old)) (ni_node parent) (filter (\<lambda>c. c \<notin> set ms) us) ms
      (filter (\<lambda>c. c \<notin> set ms) vs) (bd_base d')"
proof -
  let ?p = "ni_node parent" and ?o = "ni_node old" and ?base = "bd_base d"
  have dist: "distinct (us @ ?o # vs)" using arenaD(3)[OF assms(2)] kids by metis
  have gone: "children_of (unlinked ?base ?o) ?p = us @ vs" using kids dist by (simp add: filter_ne)
  note sib = next_sibling_split[OF assms(2) kids]
  have many: "\<exists>d' added. replace_tail ops parent old previous (next_sibling ?base old) (map (in_doc doc) ms) d1 = Some (d', added) \<and>
      map ni_node added = ms \<and> spliced (unlinked ?base ?o) ?p (filter (\<lambda>c. c \<notin> set ms) us) ms (filter (\<lambda>c. c \<notin> set ms) vs) (bd_base d')"
    if "bd_base d1 = ?base" "distinct ms" "\<And>m. m \<in> set ms \<Longrightarrow> link_ok ?base ?p m" "set ms \<inter> set (children_of ?base ?p) = {}"
    for d1 previous doc
  proof -
    have "filter (\<lambda>c. c \<notin> set ms) us = us" "filter (\<lambda>c. c \<notin> set ms) vs = vs"
      using that(4) kids by (auto simp: filter_id_conv)
    moreover have "map_option ni_node (next_sibling ?base old) = (case vs of [] \<Rightarrow> None | v # _ \<Rightarrow> Some v)"
      using sib by (cases vs) simp_all
    ultimately show ?thesis
      using replace_tail_links[OF assms(1), of d1 ms parent old us vs "next_sibling ?base old" previous doc] that assms(2) gone dist kids
      by (fastforce simp: comp_def)
  qed
  show ?thesis
  proof (cases repl)
    case (ReplFragmentContents f cs)
    then have f: "is_fragment d (ni_node f)" "insertion_ok d ?p (ni_node f)" "ms = children_of ?base (ni_node f)"
      "cs = map (in_doc (ni_document f)) ms" using assms(3) by simp_all
    then have ms: "ms = moved_nodes d (ni_node f)" by (simp add: moved_nodes_def)
    obtain d1 where d1: "adjust_children_leaving f cs d = Some d1" "bd_base d1 = ?base"
      using leave_returns[OF assms(2)] by blast
    show ?thesis
      using many[of "record_entry (ChildList f [] cs None None) d1"] d1 f arenaD(3)[OF assms(2)]
        moved_ok[OF assms(2) f(2)] fragment_apart[OF assms(2) f(2,1)] ReplFragmentContents ms
      by (simp add: replace_parsed_eq Let_def)
  next
    case (ReplAdopted cs)
    then have "distinct ms" "\<And>m. m \<in> set ms \<Longrightarrow> link_ok ?base ?p m" "cs = map (in_doc (ni_document parent)) ms"
      and free: "\<forall>m \<in> set ms. parent_link ?base m = None"
      using assms(3) by simp_all
    moreover have "set ms \<inter> set (children_of ?base ?p) = {}" using free arenaD(2)[OF assms(2), of _ ?p] by (metis disjoint_iff option.distinct(1))
    ultimately show ?thesis using many[of d] ReplAdopted by (simp add: replace_parsed_eq Let_def)
  next
    case (ReplNode n)
    let ?n = "ni_node n"
    have n: "ms = [?n]" "\<not> is_fragment d ?n" "insertion_ok d ?p ?n" "ni_document n = ni_document old"
      using assms(3) ReplNode by simp_all
    then have ok: "link_ok ?base ?p ?n" using moved_ok[OF assms(2) n(3)] by (simp add: moved_nodes_def)
    obtain d1 where d1: "unlink_journaled ops n d = Some d1" "bd_base d1 = unlinked ?base ?n"
      using unlink_links[OF assms(1,2)] by blast
    show ?thesis
    proof (cases "n = old")
      case True
      have "place_split ?base ?p (map_option ni_node (Some n)) us (?n # vs)"
        using kids dist True by (simp add: place_split_def)
      then obtain d' where d': "insert_parsed ops parent n (Some n) d = Some d'"
        "spliced ?base ?p (filter (\<lambda>c. c \<noteq> ?n) us) [?n] (filter (\<lambda>c. c \<noteq> ?n) vs) (bd_base d')"
        using insert_links[OF assms(1,2) n(3), of "Some n" us "?n # vs"] n(1,2) by (auto simp: moved_nodes_def)
      have "spliced (unlinked ?base ?n) ?p (filter (\<lambda>c. c \<noteq> ?n) us) [?n] (filter (\<lambda>c. c \<noteq> ?n) vs) (bd_base d')"
        using d'(2) by (auto simp: spliced_def filter_filter)
      then show ?thesis using d'(1) n(1,2) ReplNode True d1(1) by (simp add: replace_parsed_eq insert_parsed_def)
    next
      case False
      then have ne: "?n \<noteq> ?o" using node_id_eq[of n old] n(4) by auto
      have dist2: "distinct (filter (\<lambda>c. c \<noteq> ?n) us @ filter (\<lambda>c. c \<noteq> ?n) vs)" using dist by auto
      have "filter (\<lambda>c. c \<noteq> ?n \<and> c \<noteq> ?o) ws = filter (\<lambda>c. c \<noteq> ?n) ws" if "?o \<notin> set ws" for ws
        using that by (intro filter_cong) auto
      then have kids2: "children_of (unlinked (bd_base d1) ?o) ?p = filter (\<lambda>c. c \<noteq> ?n) us @ filter (\<lambda>c. c \<noteq> ?n) vs"
        using d1(2) kids dist ne by simp
      have a1: "arena (bd_base d1)" using d1(2) arena_unlinked[OF assms(2)] by simp
      have ok1: "link_ok (bd_base d1) ?p m" if "m \<in> set [?n]" for m
        using that d1(2) link_ok_unlinked[OF assms(2) ok] by simp
      have self: "map (in_doc (ni_document n)) [?n] = [n]" using node_id_eq[of "in_doc (ni_document n) ?n" n] by simp
      obtain d' where d': "replace_tail ops parent old
          (fst (siblings_around ?base (ni_document parent) ?p ?o))
          (if next_sibling ?base old = Some n then next_sibling ?base n else next_sibling ?base old) [n] d1 = Some (d', [n])"
        "spliced (unlinked (bd_base d1) ?o) ?p (filter (\<lambda>c. c \<noteq> ?n) us) [?n] (filter (\<lambda>c. c \<noteq> ?n) vs) (bd_base d')"
        using replace_tail_links[OF assms(1) a1 _ ok1 kids2 dist2 _ replace_reference[OF assms(2) kids n(4)],
            where ms = "[?n]" and doc = "ni_document n" and previous = "fst (siblings_around ?base (ni_document parent) ?p ?o)"]
        unfolding self by auto
      then show ?thesis
        using spliced_unlinked[OF assms(2), of ?n ?o] d1 n(1) ReplNode False by (simp add: replace_parsed_eq Let_def)
    qed
  qed
qed

end
