(* ===== verification/Dom_Forest.thy ===== *)
theory Dom_Forest
  imports Dom_Effects
begin

text \<open>
  A well-formed document is a forest: every node with no parent is the root of a tree that the
  document represents, and every node lies in exactly one of them. So walks down end as well.
\<close>

section \<open>Parent links\<close>

definition parent_links :: "base_document \<Rightarrow> (nat \<times> nat) set" where
  "parent_links base = {(n, p). parent_link base n = Some p}"

lemma parent_links_host: "parent_links base \<subseteq> host_links base"
  by (auto simp: parent_links_def dest: parent_host)

lemma parent_acyclic: "arena base \<Longrightarrow> acyclic (parent_links base)"
  using acyclic_subset[OF arenaD(4) parent_links_host] .

lemma parents_linear:
  assumes "(x, a) \<in> (parent_links base)\<^sup>*" "(x, b) \<in> (parent_links base)\<^sup>*"
  shows "(a, b) \<in> (parent_links base)\<^sup>* \<or> (b, a) \<in> (parent_links base)\<^sup>*"
  using assms(1)
proof (induction rule: rtrancl_induct)
  case (step y z)
  then show ?case
  proof (cases "(y, b) \<in> (parent_links base)\<^sup>*")
    case True
    then show ?thesis using step.hyps(2)
      by (cases rule: converse_rtranclE) (auto simp: parent_links_def intro: converse_rtrancl_into_rtrancl)
  qed (use step in \<open>auto intro: rtrancl_into_rtrancl\<close>)
qed (use assms(2) in blast)

section \<open>Trees\<close>

lemma tree_below: "represents base par t \<Longrightarrow> x \<in> set (tnodes t) \<Longrightarrow> (x, troot t) \<in> (parent_links base)\<^sup>*"
  "forest_of base par ts \<Longrightarrow> x \<in> set (fnodes ts) \<Longrightarrow> \<exists>t \<in> set ts. (x, troot t) \<in> (parent_links base)\<^sup>*"
proof (induction t and ts arbitrary: par and par rule: tnodes_fnodes.induct)
  case (1 n ts)
  show ?case
  proof (cases "x = n")
    case False
    then obtain t where t: "t \<in> set ts" "(x, troot t) \<in> (parent_links base)\<^sup>*"
      using 1 by (auto split: option.splits)
    moreover have "represents base (Some n) t" using "1.prems"(1) t(1) by (auto simp: forest_nth split: option.splits)
    then have "(troot t, n) \<in> parent_links base"
      by (rule represents_node) (auto simp: parent_links_def parent_link_Some)
    ultimately show ?thesis by (auto intro: rtrancl_into_rtrancl)
  qed simp
qed auto

lemma siblings_apart:
  assumes "arena base" "parent_link base a = Some p" "parent_link base b = Some p" "a \<noteq> b"
    and "(x, a) \<in> (parent_links base)\<^sup>*" "(x, b) \<in> (parent_links base)\<^sup>*"
  shows False
proof -
  have up: False if "(c, e) \<in> (parent_links base)\<^sup>*" "c \<noteq> e" "parent_link base c = Some p" "parent_link base e = Some p" for c e
  proof -
    have "(p, e) \<in> (parent_links base)\<^sup>*" using that(1-3) by (auto elim: converse_rtranclE simp: parent_links_def)
    then have "(p, p) \<in> (parent_links base)\<^sup>+" using that(4) by (auto simp: parent_links_def intro: rtrancl_into_trancl1)
    then show False using parent_acyclic[OF assms(1)] by (auto simp: acyclic_def)
  qed
  show False using parents_linear[OF assms(5,6)] up[of a b] up[of b a] assms(2-4) by blast
qed

lemma root_apart:
  assumes "arena base" "parent_link base c = Some p" shows "(p, c) \<notin> (parent_links base)\<^sup>*"
proof
  assume "(p, c) \<in> (parent_links base)\<^sup>*"
  then have "(p, p) \<in> (parent_links base)\<^sup>+" using assms(2) by (auto simp: parent_links_def intro: rtrancl_into_trancl1)
  then show False using parent_acyclic[OF assms(1)] by (auto simp: acyclic_def)
qed

lemma tree_distinct:
  assumes "arena base"
  shows "represents base par t \<Longrightarrow> distinct (tnodes t)"
    "forest_of base (Some n) ts \<Longrightarrow> distinct (map troot ts) \<Longrightarrow> distinct (fnodes ts)"
proof (induction t and ts arbitrary: par and n rule: tnodes_fnodes.induct)
  case (1 n ts)
  then have f: "forest_of base (Some n) ts" "children_of base n = map troot ts" by (auto simp: children_of_def split: option.splits)
  have "n \<notin> set (fnodes ts)"
  proof
    assume "n \<in> set (fnodes ts)"
    then obtain t where t: "t \<in> set ts" "(n, troot t) \<in> (parent_links base)\<^sup>*" using tree_below(2)[OF f(1)] by blast
    then have "parent_link base (troot t) = Some n" using f(2) arenaD(2)[OF assms] by simp
    then show False using root_apart[OF assms] t(2) by blast
  qed
  moreover have "distinct (map troot ts)" using arenaD(3)[OF assms, of n] f(2) by simp
  ultimately show ?case using 1 f by simp
next
  case (3 t ts)
  have rep: "represents base (Some n) t" "forest_of base (Some n) ts" using "3.prems" by simp_all
  have par: "parent_link base (troot s) = Some n" if "s \<in> set (t # ts)" for s
    using that "3.prems"(1) represents_node[of base "Some n" s] by (metis forest_nth parent_link_Some)
  have "set (tnodes t) \<inter> set (fnodes ts) = {}"
  proof (rule ccontr)
    assume "set (tnodes t) \<inter> set (fnodes ts) \<noteq> {}"
    then obtain x where x: "x \<in> set (tnodes t)" "x \<in> set (fnodes ts)" by blast
    then obtain s where s: "s \<in> set ts" "(x, troot s) \<in> (parent_links base)\<^sup>*" using tree_below(2)[OF rep(2)] by blast
    have "troot t \<noteq> troot s" using "3.prems"(2) s(1) by auto
    then show False using siblings_apart[OF assms par par, of t s x] tree_below(1)[OF rep(1) x(1)] s by simp
  qed
  then show ?case using "3.IH"(1)[OF rep(1)] "3.IH"(2)[OF rep(2)] "3.prems"(2) by simp
qed simp

lemma parent_wf:
  assumes "arena base" shows "wf (parent_links base)"
proof -
  have "parent_links base \<subseteq> (\<lambda>n. (n, the (parent_link base n))) ` dom (get_node base)"
  proof
    fix e assume "e \<in> parent_links base"
    then obtain n p where e: "e = (n, p)" "parent_link base n = Some p" by (auto simp: parent_links_def)
    then have "n \<in> dom (get_node base)" by (auto simp: parent_link_Some)
    then show "e \<in> (\<lambda>n. (n, the (parent_link base n))) ` dom (get_node base)" using e by (intro image_eqI[of _ _ n]) simp_all
  qed
  then have "finite (parent_links base)" using arenaD(1)[OF assms] finite_subset by blast
  then show ?thesis using parent_acyclic[OF assms] by (rule finite_acyclic_wf)
qed

lemma arena_subtree:
  assumes "arena base"
  shows "get_node base n \<noteq> None \<Longrightarrow> \<exists>t. represents base (parent_link base n) t \<and> troot t = n"
proof (induction n rule: wf_induct_rule[OF parent_wf[OF assms]])
  case (1 n)
  then obtain node where node: "get_node base n = Some node" by blast
  have kids: "\<exists>t. represents base (Some n) t \<and> troot t = c" if "c \<in> set (bn_children node)" for c
  proof -
    have c: "parent_link base c = Some n" using that node arenaD(2)[OF assms, of c n] by (simp add: children_of_def)
    moreover have "get_node base c \<noteq> None" using c by (auto simp: parent_link_Some)
    ultimately show ?thesis using 1(1)[of c] by (simp add: parent_links_def)
  qed
  then obtain f where f: "\<And>c. c \<in> set (bn_children node) \<Longrightarrow> represents base (Some n) (f c) \<and> troot (f c) = c" by metis
  have "represents base (parent_link base n) (DNode n (map f (bn_children node)))"
    using f node by (auto simp: forest_nth parent_link_def intro!: map_idI[symmetric])
  then show ?case by (intro exI[of _ "DNode n (map f (bn_children node))"]) simp
qed

text \<open>Every node lies in the tree of a root.\<close>

lemma arena_root:
  assumes "arena base" "get_node base n \<noteq> None"
  obtains r where "parent_link base r = None" "(n, r) \<in> (parent_links base)\<^sup>*" "get_node base r \<noteq> None"
proof -
  have "get_node base n \<noteq> None \<longrightarrow> (\<exists>r. parent_link base r = None \<and> (n, r) \<in> (parent_links base)\<^sup>* \<and> get_node base r \<noteq> None)"
  proof (induction n rule: walk_induct[OF assms(1)])
    case (1 n)
    show ?case
    proof (cases "parent_link base n")
      case (Some p)
      then have "get_node base p \<noteq> None" using arenaD(7)[OF assms(1) Some] kind_node(2) by blast
      moreover have "host_including_parent base n = Some p" using parent_host[OF Some] by (simp add: host_links_def)
      ultimately show ?thesis using 1 Some
        by (auto simp: parent_links_def intro: converse_rtrancl_into_rtrancl)
    qed auto
  qed
  then show thesis using that assms(2) by blast
qed

lemma represents_up:
  assumes "represents base par t" "(x, troot t) \<in> (parent_links base)\<^sup>*" "arena base"
  shows "x \<in> set (tnodes t)"
  using assms(2)
proof (induction rule: converse_rtrancl_induct)
  case base
  then show ?case by (cases t) simp
next
  case (step x y)
  obtain q s where s: "tat t q = Some s" "troot s = y" using step.IH node_addr by blast
  have "x \<in> set (children_of base y)" using step.hyps(1) arenaD(2)[OF assms(3)] by (simp add: parent_links_def)
  then obtain i where i: "i < length (tkids s)" "troot (tkids s ! i) = x"
    using represents_node[OF represents_at[OF assms(1) s(1)]] s(2)
    by (metis (no_types, lifting) children_of_def in_set_conv_nth length_map nth_map option.simps(5))
  have "tat t (q @ [i]) = Some (tkids s ! i)" using s(1) i(1) by (simp add: tat_append)
  then show ?case using i(2) node_addr by blast
qed

lemma arena_tree:
  assumes "arena base" "get_node base n \<noteq> None"
  obtains t where "doc_tree base t" "n \<in> set (tnodes t)"
proof -
  obtain r where r: "parent_link base r = None" "(n, r) \<in> (parent_links base)\<^sup>*" "get_node base r \<noteq> None"
    using arena_root[OF assms] .
  obtain t where t: "represents base None t" "troot t = r" using arena_subtree[OF assms(1) r(3)] r(1) by auto
  show thesis
    using that[of t] t tree_distinct(1)[OF assms(1) t(1)] represents_up[OF t(1) _ assms(1)] r(2) by (simp add: doc_tree_def)
qed

section \<open>Walks down end\<close>

lemma container_walk_tree:
  "represents base par t \<Longrightarrow> \<exists>found. \<forall>stack. container_walk base doc (troot t # stack) = map_option (append found) (container_walk base doc stack)"
  "forest_of base par ts \<Longrightarrow> \<exists>found. \<forall>stack. container_walk base doc (map troot ts @ stack) = map_option (append found) (container_walk base doc stack)"
proof (induction t and ts arbitrary: par and par rule: tnodes_fnodes.induct)
  case (1 n ts)
  then obtain found where f: "\<And>stack. container_walk base doc (map troot ts @ stack) = map_option (append found) (container_walk base doc stack)"
    by (auto split: option.splits)
  have "children_of base n = map troot ts" using "1.prems" by (auto simp: children_of_def split: option.splits)
  then have "container_walk base doc (n # stack) =
      map_option (append (if is_child_navigable_container base n then in_doc doc n # found else found)) (container_walk base doc stack)" for stack
    by (subst container_walk.simps) (cases "container_walk base doc stack"; simp add: f)
  then show ?case unfolding dtree.sel by blast
next
  case 2
  then show ?case by (intro exI[of _ "[]"]) (simp add: option.map_ident)
next
  case (3 t ts)
  then obtain f g where "\<And>stack. container_walk base doc (troot t # stack) = map_option (append f) (container_walk base doc stack)"
    "\<And>stack. container_walk base doc (map troot ts @ stack) = map_option (append g) (container_walk base doc stack)"
    by (metis forest_of.simps(2))
  then show ?case by (intro exI[of _ "f @ g"]) (simp add: option.map_comp comp_def)
qed

lemma containers_return:
  assumes "arena base" "\<And>n. n \<in> set roots \<Longrightarrow> get_node base (ni_node n) \<noteq> None"
  shows "\<exists>found. iframe_containers_in_subtrees base roots = Some found"
  using assms(2)
proof (induction roots)
  case (Cons r rs)
  obtain t where t: "represents base (parent_link base (ni_node r)) t" "troot t = ni_node r"
    using arena_subtree[OF assms(1)] Cons.prems by fastforce
  obtain found where "container_walk base (ni_document r) [ni_node r] = Some found"
    using container_walk_tree(1)[OF t(1), of "ni_document r"] t(2) by (metis container_walk.simps option.simps(9))
  then show ?case using Cons by fastforce
qed simp

end
