(* ===== verification/Dom_Validity.thy ===== *)
theory Dom_Validity
  imports Dom_Insert_Links Dom_Forest
begin

text \<open>
  What validation gives: the insertion keeps the invariant of links, and the children of the
  document keep the order that the DOM prescribes.
\<close>

section \<open>Accepted insertions\<close>

text \<open>The nodes are of one document, which the store holds.\<close>

definition held :: "document_store \<Rightarrow> nat \<Rightarrow> blitz_document \<Rightarrow> bool" where
  "held store document d \<longleftrightarrow> (\<exists>parsed. store_get store document = Some parsed \<and> ps_document parsed = d)"

lemma classify_kinds:
  "classify_inserted d n = InsElement \<Longrightarrow> is_element (bd_base d) n \<and> \<not> is_fragment d n"
  "classify_inserted d n = InsText \<Longrightarrow> is_text_data (bd_base d) n \<and> \<not> is_fragment d n"
  "classify_inserted d n = InsCharacterData \<Longrightarrow> is_comment_data (bd_base d) n \<and> \<not> is_fragment d n"
  "classify_inserted d n = InsDoctype \<Longrightarrow> is_doctype (bd_base d) n \<and> \<not> is_fragment d n"
  "classify_inserted d n = InsFragment k b \<Longrightarrow> is_fragment d n \<and>
     k = length (filter (is_element (bd_base d)) (children_of (bd_base d) n)) \<and>
     b = list_ex (is_text_data (bd_base d)) (children_of (bd_base d) n)"
  by (auto simp: classify_inserted_def is_element_def is_text_data_def is_comment_data_def is_doctype_def children_of_def
      split: if_splits option.splits node_data.splits)

lemma accepted:
  assumes "insertion_excluding_children owned store parent (TreeRef node) child excluded = Some (Inr (n, reference))"
    and "held store (ni_document parent) d" "ni_document node = ni_document parent"
  shows "n = node" "can_have_children (bd_base d) (ni_node parent)"
    "ensure_no_cycle (bd_base d) (ni_node parent) (ni_node node) = Some (Inr ())"
    "reference = (case child of Some (TreeRef r) \<Rightarrow> Some r | _ \<Rightarrow> None)"
    "\<And>r. reference = Some r \<Longrightarrow> ensure_parented (bd_base d) parent r = Inr ()"
    "classify_inserted d (ni_node node) \<noteq> InsOther"
    "ni_node parent \<noteq> root_node (bd_base d) \<Longrightarrow> classify_inserted d (ni_node node) \<noteq> InsDoctype"
    "ni_node parent = root_node (bd_base d) \<Longrightarrow>
       ensure_document_content_model (bd_base d) parent reference excluded (classify_inserted d (ni_node node)) = Inr ()"
  using assms unfolding insertion_excluding_children_def held_def Let_def node_ref_tree_def
  by (auto split: option.splits node_reference.splits if_splits sum.splits bind_splits)

lemma parent_kindI: "arena base \<Longrightarrow> can_have_children base p \<Longrightarrow> parent_kind base p"
  using arenaD(8)[of base]
  by (auto simp: can_have_children_def parent_kind_def is_element_def split: option.splits node_data.splits)

lemma accepted_ok:
  assumes "insertion_excluding_children owned store parent (TreeRef node) child excluded = Some (Inr (n, reference))"
    and "held store (ni_document parent) d" "ni_document node = ni_document parent" "arena (bd_base d)"
  shows "insertion_ok d (ni_node parent) (ni_node node)"
proof -
  note acc = accepted[OF assms(1-3)]
  have "parent_kind (bd_base d) (ni_node parent)"
    using acc(2) by (rule parent_kindI[OF assms(4)])
  moreover have "(ni_node parent, ni_node node) \<notin> (host_links (bd_base d))\<^sup>*"
    using acc(3) cycle_walk_spec[OF assms(4)] by (auto simp: ensure_no_cycle_def split: if_splits)
  moreover have "is_fragment d (ni_node node) \<or> child_kind (bd_base d) (ni_node node) \<and>
      (is_doctype (bd_base d) (ni_node node) \<longrightarrow> ni_node parent = root_node (bd_base d))"
  proof (cases "classify_inserted d (ni_node node)")
    case InsDoctype
    then show ?thesis using classify_kinds(4)[OF InsDoctype] acc(7) by (auto simp: child_kind_def)
  next
    case InsOther
    then show ?thesis using acc(6) by simp
  qed (auto dest: classify_kinds simp: child_kind_def is_doctype_def is_element_def is_text_data_def is_comment_data_def
      split: option.splits node_data.splits)
  ultimately show ?thesis by (simp add: insertion_ok_def)
qed

section \<open>The children of a document\<close>

text \<open>At most one element and at most one doctype, no doctype after the element, and no text.\<close>

fun prolog :: "base_document \<Rightarrow> nat list \<Rightarrow> bool" where
  "prolog base [] = True"
| "prolog base (c # cs) =
     (\<not> is_text_data base c \<and>
      (is_element base c \<longrightarrow> \<not> list_ex (\<lambda>s. is_element base s \<or> is_doctype base s) cs) \<and>
      (is_doctype base c \<longrightarrow> \<not> list_ex (is_doctype base) cs) \<and> prolog base cs)"

definition document_ok :: "blitz_document \<Rightarrow> bool" where
  "document_ok d = prolog (bd_base d) (children_of (bd_base d) (root_node (bd_base d)))"

lemma list_ex_disj: "list_ex (\<lambda>x. P x \<or> Q x) xs \<longleftrightarrow> list_ex P xs \<or> list_ex Q xs"
  by (induction xs) auto

lemma list_ex_filterD: "list_ex P (filter Q xs) \<Longrightarrow> list_ex P xs"
  by (auto simp: list_ex_iff)

lemma prolog_append:
  "prolog base (xs @ ys) \<longleftrightarrow> prolog base xs \<and> prolog base ys \<and>
     (list_ex (is_element base) xs \<longrightarrow> \<not> list_ex (is_element base) ys \<and> \<not> list_ex (is_doctype base) ys) \<and>
     (list_ex (is_doctype base) xs \<longrightarrow> \<not> list_ex (is_doctype base) ys)"
proof (induction xs)
  case (Cons x xs)
  show ?case unfolding append_Cons prolog.simps list_ex_Cons_iff list_ex_disj list_ex_append Cons.IH by blast
qed simp

lemma prolog_filter: "prolog base xs \<Longrightarrow> prolog base (filter P xs)"
  by (induction xs) (auto simp: list_ex_iff)

lemma prolog_data:
  assumes "\<And>m. map_option bn_data (get_node base' m) = map_option bn_data (get_node base m)"
  shows "prolog base' xs = prolog base xs"
proof -
  have "is_element base' = is_element base" "is_doctype base' = is_doctype base" "is_text_data base' = is_text_data base"
    using assms by (auto simp: is_element_def is_doctype_def is_text_data_def fun_eq_iff)
  then show ?thesis by (induction xs) simp_all
qed

text \<open>When new children fit between others.\<close>

definition fits :: "base_document \<Rightarrow> nat list \<Rightarrow> nat list \<Rightarrow> nat list \<Rightarrow> bool" where
  "fits base us ms vs \<longleftrightarrow> prolog base ms \<and>
     (list_ex (is_element base) ms \<longrightarrow> \<not> list_ex (is_element base) (us @ vs) \<and> \<not> list_ex (is_doctype base) vs) \<and>
     (list_ex (is_doctype base) ms \<longrightarrow> \<not> list_ex (is_doctype base) (us @ vs) \<and> \<not> list_ex (is_element base) us)"

lemma fits_prolog:
  assumes "prolog base (us @ vs)" "fits base us ms vs"
  shows "prolog base (filter P us @ ms @ filter P vs)"
  using assms prolog_filter[of base us P] prolog_filter[of base vs P]
    list_ex_filterD[of _ P us] list_ex_filterD[of _ P vs]
  unfolding prolog_append fits_def list_ex_append by blast

text \<open>An accepted node brings children that fit, when its element and its doctype pass their checks.\<close>

lemma content_model_cases:
  assumes "ensure_document_content_model (bd_base d) parent reference excluded (classify_inserted d n) = Inr ()"
    and "arena (bd_base d)"
  defines "ms \<equiv> moved_nodes d n"
  shows "prolog (bd_base d) ms"
    "list_ex (is_element (bd_base d)) ms \<Longrightarrow> ensure_element_position (bd_base d) parent reference excluded = Inr ()"
    "list_ex (is_doctype (bd_base d)) ms \<Longrightarrow> ensure_doctype_position (bd_base d) parent reference excluded = Inr ()"
proof -
  let ?b = "bd_base d"
  have no_doctype: "\<not> is_doctype ?b m" if "is_fragment d n" "m \<in> set (children_of ?b n)" for m
    using that arenaD(2,6)[OF assms(2)] fragment_not_root[OF assms(2)] by blast
  have one: "prolog ?b xs" if "length (filter (is_element ?b) xs) \<le> 1" "\<not> list_ex (is_text_data ?b) xs" "\<not> list_ex (is_doctype ?b) xs" for xs
    using that by (induction xs) (auto simp: list_ex_iff filter_empty_conv Suc_le_eq split: if_splits)
  have all: "prolog ?b ms \<and> (list_ex (is_element ?b) ms \<longrightarrow> ensure_element_position ?b parent reference excluded = Inr ()) \<and>
      (list_ex (is_doctype ?b) ms \<longrightarrow> ensure_doctype_position ?b parent reference excluded = Inr ())"
  proof (cases "classify_inserted d n")
    case (InsFragment k t)
    note f = classify_kinds(5)[OF InsFragment]
    then have ms: "ms = children_of ?b n" "\<not> list_ex (is_doctype ?b) ms"
      using no_doctype by (auto simp: ms_def moved_nodes_def list_ex_iff)
    have "k \<le> 1" "\<not> t" "k \<noteq> 0 \<longrightarrow> ensure_element_position ?b parent reference excluded = Inr ()"
      using assms(1) InsFragment by (auto simp: ensure_document_content_model_def split: if_splits)
    then show ?thesis using f ms one[of ms] by (auto simp: list_ex_iff filter_empty_conv)
  qed (use assms(1) in \<open>auto dest!: classify_kinds simp: ms_def moved_nodes_def ensure_document_content_model_def is_element_def
      is_text_data_def is_comment_data_def is_doctype_def split: option.splits node_data.splits\<close>)
  then show "prolog ?b ms" "list_ex (is_element ?b) ms \<Longrightarrow> ensure_element_position ?b parent reference excluded = Inr ()"
    "list_ex (is_doctype ?b) ms \<Longrightarrow> ensure_doctype_position ?b parent reference excluded = Inr ()" by simp_all
qed

lemma position_split: "r \<notin> set us \<Longrightarrow> position (\<lambda>s. s = r) (us @ r # ws) = Some (length us)"
  by (intro position_SomeI) (auto simp: nth_append in_set_conv_nth)

lemma fits_insert:
  assumes "ensure_document_content_model (bd_base d) parent reference [] (classify_inserted d n) = Inr ()" "arena (bd_base d)"
    and "place_split (bd_base d) (ni_node parent) (map_option ni_node reference) us vs"
    and "\<And>r. reference = Some r \<Longrightarrow> ni_document r = ni_document parent"
  shows "fits (bd_base d) us (moved_nodes d n) vs"
proof -
  note model = content_model_cases[OF assms(1,2)]
  have kids: "children_of (bd_base d) (ni_node parent) = us @ vs" using assms(3) by (simp add: place_split_def)
  have same: "same_document_reference parent reference = reference"
    using assms(4) by (cases reference) (auto simp: same_document_reference_def)
  have split: "reference = None \<and> vs = [] \<or> (\<exists>r ws. reference = Some r \<and> vs = ni_node r # ws \<and> ni_node r \<notin> set us)"
    using assms(3) by (cases reference; cases vs) (auto simp: place_split_def)
  have "\<not> list_ex (is_element (bd_base d)) (us @ vs) \<and> \<not> list_ex (is_doctype (bd_base d)) vs"
    if "ensure_element_position (bd_base d) parent reference [] = Inr ()"
    using that split kids unfolding ensure_element_position_def same Let_def
    by (auto simp: parent_has_element_def sibling_doctype_follows_def position_split list_ex_iff split: if_splits)
  moreover have "\<not> list_ex (is_doctype (bd_base d)) (us @ vs) \<and> \<not> list_ex (is_element (bd_base d)) us"
    if "ensure_doctype_position (bd_base d) parent reference [] = Inr ()"
    using that split kids unfolding ensure_doctype_position_def same Let_def
    by (auto simp: parent_has_doctype_def parent_has_element_def sibling_element_precedes_def position_split list_ex_iff split: if_splits)
  ultimately show ?thesis using model unfolding fits_def by blast
qed

lemma fits_replace:
  assumes "ensure_document_content_model (bd_base d) parent (Some old) [ni_node old] (classify_inserted d n) = Inr ()"
    and "arena (bd_base d)" "children_of (bd_base d) (ni_node parent) = us @ ni_node old # vs" "ni_document old = ni_document parent"
  shows "fits (bd_base d) us (moved_nodes d n) vs"
proof -
  note model = content_model_cases[OF assms(1,2)]
  have dist: "distinct (us @ ni_node old # vs)" using arenaD(3)[OF assms(2)] assms(3) by metis
  have same: "same_document_reference parent (Some old) = Some old" using assms(4) by (simp add: same_document_reference_def)
  have "\<not> list_ex (is_element (bd_base d)) (us @ vs) \<and> \<not> list_ex (is_doctype (bd_base d)) vs"
    if "ensure_element_position (bd_base d) parent (Some old) [ni_node old] = Inr ()"
    using that dist assms(3) unfolding ensure_element_position_def same Let_def
    by (auto simp: parent_has_element_def sibling_doctype_follows_def position_split list_ex_iff ball_Un split: if_splits)
  moreover have "\<not> list_ex (is_doctype (bd_base d)) (us @ vs) \<and> \<not> list_ex (is_element (bd_base d)) us"
    if "ensure_doctype_position (bd_base d) parent (Some old) [ni_node old] = Inr ()"
    using that dist assms(3) unfolding ensure_doctype_position_def same Let_def
    by (auto simp: parent_has_doctype_def parent_has_element_def sibling_element_precedes_def position_split list_ex_iff ball_Un split: if_splits)
  ultimately show ?thesis using model unfolding fits_def by blast
qed

text \<open>A splice keeps the document in order when the new children of the document itself fit.\<close>

lemma spliced_document:
  assumes "document_ok d" "spliced base p (filter P us) ms (filter P vs) (bd_base d')"
    and data: "\<And>m. map_option bn_data (get_node base m) = map_option bn_data (get_node (bd_base d) m)"
    and root: "root_node base = root_node (bd_base d)"
    and other: "\<And>m. m \<noteq> p \<Longrightarrow> \<exists>Q. children_of base m = filter Q (children_of (bd_base d) m)"
    and kids: "p = root_node (bd_base d) \<Longrightarrow> prolog (bd_base d) (us @ vs) \<and> fits (bd_base d) us ms vs"
  shows "document_ok d'"
proof (cases "p = root_node (bd_base d)")
  case True
  then have "prolog (bd_base d) (filter P us @ ms @ filter P vs)" using kids fits_prolog by blast
  then show ?thesis using True assms(2) root prolog_data[of "bd_base d'" "bd_base d"] data
    by (simp add: document_ok_def spliced_def)
next
  case False
  then obtain Q where "children_of base (root_node (bd_base d)) = filter Q (children_of (bd_base d) (root_node (bd_base d)))"
    using other[of "root_node (bd_base d)"] by auto
  then have "children_of (bd_base d') (root_node (bd_base d')) =
      filter (\<lambda>c. c \<notin> set ms) (filter Q (children_of (bd_base d) (root_node (bd_base d))))"
    using assms(2) False root by (simp add: spliced_def)
  then show ?thesis using assms(1,2) data prolog_data[of "bd_base d'" "bd_base d"] prolog_filter
    by (simp add: document_ok_def spliced_def)
qed

end
