(* ===== verification/Dom_Replace_All.thy ===== *)
theory Dom_Replace_All
  imports Dom_Validity
begin

text \<open>
  Replacing all children, and moves: both return and have the prescribed effect on the links.
\<close>

section \<open>Replacing all children\<close>

text \<open>\<open>base'\<close> is \<open>base\<close> with \<open>ns\<close> taken from their parents.\<close>

definition cleared :: "base_document \<Rightarrow> nat list \<Rightarrow> base_document \<Rightarrow> bool" where
  "cleared base ns base' \<longleftrightarrow>
     arena base' \<and>
     (\<forall>m. children_of base' m = filter (\<lambda>c. c \<notin> set ns) (children_of base m)) \<and>
     (\<forall>m. parent_link base' m = (if m \<in> set ns then None else parent_link base m)) \<and>
     (\<forall>m. map_option bn_data (get_node base' m) = map_option bn_data (get_node base m)) \<and>
     root_node base' = root_node base \<and> (\<forall>p n. link_ok base p n \<longrightarrow> link_ok base' p n)"

lemma cleared_fold:
  assumes "blitz_laws ops" "arena base"
  shows "cleared base ns (fold (\<lambda>kid base. remove_node ops base (ni_node kid)) (map (in_doc doc) ns) base)"
  using assms(2)
proof (induction ns arbitrary: base)
  case Nil
  then show ?case by (simp add: cleared_def)
next
  case (Cons n ns)
  have "cleared (unlinked base n) ns (fold (\<lambda>kid base. remove_node ops base (ni_node kid)) (map (in_doc doc) ns) (unlinked base n))"
    by (rule Cons.IH[OF arena_unlinked[OF Cons.prems]])
  then show ?case
    using blitz_lawsD(1)[OF assms(1) Cons.prems] link_ok_unlinked[OF Cons.prems]
    by (auto simp: cleared_def filter_filter intro!: filter_cong)
qed

lemma cleared_trans: "cleared a ms b \<Longrightarrow> cleared b ns c \<Longrightarrow> cleared a (ms @ ns) c"
  by (auto simp: cleared_def filter_filter intro!: filter_cong)

lemma append_loop_links:
  assumes "blitz_laws ops" "arena (bd_base d)" "distinct ns" "\<And>n. n \<in> set ns \<Longrightarrow> link_ok (bd_base d) (ni_node parent) n"
    and "set ns \<inter> set (children_of (bd_base d) (ni_node parent)) = {}"
  shows "\<exists>d'. append_loop ops parent (map (in_doc doc) ns) d = Some d' \<and>
    spliced (bd_base d) (ni_node parent) (children_of (bd_base d) (ni_node parent)) ns [] (bd_base d')"
  using assms(2-5)
proof (induction ns arbitrary: d)
  case Nil
  then show ?case by (simp add: spliced_def)
next
  case (Cons n ns)
  let ?p = "ni_node parent"
  have ok: "link_ok (bd_base d) ?p n" and fresh: "n \<notin> set (children_of (bd_base d) ?p)" using Cons.prems by simp_all
  obtain d1 where d1: "unlink_journaled ops (in_doc doc n) d = Some d1" "bd_base d1 = unlinked (bd_base d) n"
    using unlink_links[OF assms(1) Cons.prems(1), of "in_doc doc n"] by auto
  define d2 where "d2 = on_base (\<lambda>base. append_children ops base ?p [n]) d1"
  have "append_children ops (unlinked (bd_base d) n) ?p [n] = placed (bd_base d) ?p None n"
    using blitz_lawsD(2)[OF assms(1) arena_unlinked[OF Cons.prems(1)] link_ok_unlinked[OF Cons.prems(1) ok]]
    by (simp add: placed_unlinked[OF Cons.prems(1)])
  then have b2: "bd_base d2 = placed (bd_base d) ?p None n" using d1(2) by (simp add: d2_def)
  have "place_split (unlinked (bd_base d) n) ?p None (children_of (bd_base d) ?p) []"
    using unlinked_children_same[OF fresh] by (simp add: place_split_def)
  then have sp: "spliced (bd_base d) ?p (children_of (bd_base d) ?p) [n] [] (bd_base d2)"
    unfolding b2 by (rule spliced_placed[OF Cons.prems(1) ok])
  have "\<exists>d'. append_loop ops parent (map (in_doc doc) ns) d2 = Some d' \<and>
      spliced (bd_base d2) ?p (children_of (bd_base d2) ?p) ns [] (bd_base d')"
  proof (rule Cons.IH)
    show "arena (bd_base d2)" using sp by (simp add: spliced_def)
    show "distinct ns" using Cons.prems(2) by simp
    show "link_ok (bd_base d2) ?p m" if "m \<in> set ns" for m
      unfolding b2 using that Cons.prems(2,3) link_ok_placed[OF Cons.prems(1) ok] by auto
    show "set ns \<inter> set (children_of (bd_base d2) ?p) = {}" using sp Cons.prems(2,4) by (auto simp: spliced_def)
  qed
  then obtain d' where "append_loop ops parent (map (in_doc doc) ns) d2 = Some d'"
    "spliced (bd_base d2) ?p (children_of (bd_base d2) ?p) ns [] (bd_base d')" by blast
  then show ?case using sp d1(1) Cons.prems(2) by (auto simp: spliced_def d2_def)
qed

lemma adjust_for_replace_all_returns:
  assumes "arena base"
  shows "\<exists>t'. adjust_for_replace_all base parent t = Some t'"
proof -
  have "\<exists>a'. replace_all_point base parent a = Some a'" for a
    using ancestor_loop_returns[OF assms, of "ni_node parent" "ni_node (bp_node a)"]
    by (auto simp: replace_all_point_def is_inclusive_descendant_def is_inclusive_ancestor_def)
  then obtain f where f: "\<And>a. replace_all_point base parent a = Some (f a)" by metis
  have "adjust_slot (replace_all_point base parent) s =
      Some (map_option (\<lambda>r. r\<lparr>rs_start := f (rs_start r), rs_end := f (rs_end r)\<rparr>) s)" for s
    by (cases s) (simp_all add: adjust_slot_def f)
  then have "those (map (adjust_slot (replace_all_point base parent)) (rt_slots t)) =
      Some (map (map_option (\<lambda>r. r\<lparr>rs_start := f (rs_start r), rs_end := f (rs_end r)\<rparr>)) (rt_slots t))"
    by (intro those_map_Some)
  then show ?thesis by (simp add: adjust_for_replace_all_def adjust_points_walk_def)
qed

lemma replace_all_links:
  assumes "blitz_laws ops" "arena (bd_base d)" "distinct ms" "\<And>n. n \<in> set ms \<Longrightarrow> link_ok (bd_base d) (ni_node parent) n"
  shows "\<exists>d' iframes b. replace_all_journaled ops parent (map (in_doc doc) ms) d = Some (d', iframes) \<and>
    cleared (bd_base d) (children_of (bd_base d) (ni_node parent)) b \<and> spliced b (ni_node parent) [] ms [] (bd_base d')"
proof -
  let ?p = "ni_node parent"
  let ?kids = "children_of (bd_base d) ?p"
  have "get_node (bd_base d) n \<noteq> None" if "n \<in> set ?kids" for n
    using that arenaD(2)[OF assms(2), of n ?p] by (auto simp: parent_link_Some)
  then obtain iframes where f: "iframe_containers_in_subtrees (bd_base d) (map (in_doc (ni_document parent)) ?kids) = Some iframes"
    using containers_return[OF assms(2), of "map (in_doc (ni_document parent)) ?kids"] by fastforce
  obtain t where t: "adjust_for_replace_all (bd_base d) parent (doc_ranges d) = Some t"
    using adjust_for_replace_all_returns[OF assms(2)] by blast
  define d1 where "d1 = (if ?kids \<noteq> [] \<and> \<not> rt_is_empty (doc_ranges d) then set_ranges t d else d)"
  define d2 where "d2 = on_base (fold (\<lambda>kid base. remove_node ops base (ni_node kid)) (map (in_doc (ni_document parent)) ?kids)) d1"
  have c: "cleared (bd_base d) ?kids (bd_base d2)"
    using cleared_fold[OF assms(1,2), of ?kids "ni_document parent"] by (simp add: d2_def d1_def)
  then have none: "children_of (bd_base d2) ?p = []" by (simp add: cleared_def)
  have "\<exists>d'. append_loop ops parent (map (in_doc doc) ms) d2 = Some d' \<and>
      spliced (bd_base d2) ?p (children_of (bd_base d2) ?p) ms [] (bd_base d')"
    using c assms(3,4) none by (intro append_loop_links[OF assms(1)]) (simp_all add: cleared_def)
  then obtain d' where d': "append_loop ops parent (map (in_doc doc) ms) d2 = Some d'" "spliced (bd_base d2) ?p [] ms [] (bd_base d')"
    using none by auto
  have step: "(if map (in_doc (ni_document parent)) ?kids \<noteq> [] \<and> \<not> rt_is_empty (doc_ranges d)
      then map_option (\<lambda>t. set_ranges t d) (adjust_for_replace_all (bd_base d) parent (doc_ranges d)) else Some d) = Some d1"
    by (simp add: t d1_def)
  define d3 where "d3 = (if ms \<noteq> [] \<or> ?kids \<noteq> [] then
      record_entry (ChildList parent (map (in_doc doc) ms) (map (in_doc (ni_document parent)) ?kids) None None) d' else d')"
  have "replace_all_journaled ops parent (map (in_doc doc) ms) d = Some (d3, iframes)"
    unfolding replace_all_journaled_def child_ids_in_doc Let_def step using f d'(1) by (simp add: d2_def d3_def)
  moreover have "bd_base d3 = bd_base d'" by (simp add: d3_def)
  ultimately show ?thesis using c d'(2) by auto
qed

text \<open>The children of the parent are the moved nodes, and nothing else is under it.\<close>

lemma replace_all_with_node_links:
  assumes "blitz_laws ops" "arena (bd_base d)" "insertion_ok d (ni_node parent) (ni_node node)"
  defines "ms \<equiv> moved_nodes d (ni_node node)"
  shows "\<exists>d' iframes b ns. replace_all_with_node ops parent node d = Some (d', iframes) \<and>
    cleared (bd_base d) ns b \<and> set (children_of (bd_base d) (ni_node parent)) \<subseteq> set ns \<and>
    spliced b (ni_node parent) [] ms [] (bd_base d')"
proof (cases "is_fragment d (ni_node node)")
  case False
  then have ms: "ms = [ni_node node]" by (simp add: ms_def moved_nodes_def)
  have self: "map (in_doc (ni_document node)) ms = [node]" using ms node_id_eq[of "in_doc (ni_document node) (ni_node node)" node] by simp
  have "\<And>n. n \<in> set ms \<Longrightarrow> link_ok (bd_base d) (ni_node parent) n" using moved_ok[OF assms(2,3)] by (simp add: ms_def)
  then show ?thesis
    using replace_all_links[OF assms(1,2), of ms parent "ni_document node"] ms False unfolding self
    by (auto simp: replace_all_with_node_def)
next
  case True
  let ?p = "ni_node parent"
  have ms: "ms = children_of (bd_base d) (ni_node node)" using True by (simp add: ms_def moved_nodes_def)
  have apart: "set ms \<inter> set (children_of (bd_base d) ?p) = {}" using fragment_apart[OF assms(2,3) True] ms by simp
  let ?moved = "map (in_doc (ni_document node)) ms"
  obtain d1 where d1: "adjust_children_leaving node ?moved d = Some d1" "bd_base d1 = bd_base d"
    using leave_returns[OF assms(2)] by blast
  define d2 where "d2 = record_entry (ChildList node [] ?moved None None)
    (on_base (fold (\<lambda>child base. remove_node ops base (ni_node child)) ?moved) d1)"
  have c: "cleared (bd_base d) ms (bd_base d2)"
    using cleared_fold[OF assms(1,2), of ms "ni_document node"] d1(2) by (simp add: d2_def)
  have kids: "children_of (bd_base d2) ?p = children_of (bd_base d) ?p"
    using c apart by (auto simp: cleared_def filter_id_conv)
  have "distinct ms" using moved_distinct[OF assms(2)] by (simp add: ms_def)
  moreover have "link_ok (bd_base d2) ?p n" if "n \<in> set ms" for n
    using that c moved_ok[OF assms(2,3)] by (simp add: cleared_def ms_def)
  ultimately obtain d' iframes b where d': "replace_all_journaled ops parent ?moved d2 = Some (d', iframes)"
    "cleared (bd_base d2) (children_of (bd_base d) ?p) b" "spliced b ?p [] ms [] (bd_base d')"
    using replace_all_links[OF assms(1), of d2 ms parent "ni_document node"] c kids by (auto simp: cleared_def)
  have "replace_all_with_node ops parent node d = Some (d', iframes)"
    using True d1(1) d'(1) ms by (simp add: replace_all_with_node_def fragment_children_def child_ids_in_doc d2_def)
  moreover have "cleared (bd_base d) (ms @ children_of (bd_base d) ?p) b" by (rule cleared_trans[OF c d'(2)])
  ultimately show ?thesis using d'(3) by (intro exI[of _ "ms @ children_of (bd_base d) ?p"] exI conjI) auto
qed

section \<open>Moves\<close>

lemma move_links:
  assumes "blitz_laws ops" "arena (bd_base d)" "link_ok (bd_base d) (ni_node parent) (ni_node node)"
    and "\<And>r. target = MoveBefore r \<Longrightarrow> parent_link (bd_base d) (ni_node r) = Some (ni_node parent) \<and> ni_node r \<noteq> ni_node node"
  shows "\<exists>d'. move_parsed ops parent node target d = Some d' \<and>
    bd_base d' = placed (bd_base d) (ni_node parent) (case target of MoveBefore r \<Rightarrow> Some (ni_node r) | _ \<Rightarrow> None) (ni_node node)"
proof -
  define reference where "reference = (case target of MoveBefore r \<Rightarrow> Some r | _ \<Rightarrow> None)"
  have ref: "map_option ni_node reference = (case target of MoveBefore r \<Rightarrow> Some (ni_node r) | _ \<Rightarrow> None)"
    by (simp add: reference_def split: move_target.split)
  let ?b = "placed (bd_base d) (ni_node parent) (map_option ni_node reference) (ni_node node)"
  have moved: "move_node ops (bd_base d) (ni_node node) (ni_node parent) (map_option ni_node reference) = ?b"
    using assms(4) by (intro blitz_lawsD(4)[OF assms(1,2,3)]) (auto simp: reference_def split: move_target.splits)
  have "\<exists>t'. adjust_for_remove ?b parent' index node t = Some t'" for parent' index t
    using adjust_for_remove_returns[OF arena_placed[OF assms(2,3)]] by blast
  then obtain f where "\<And>parent' index t. adjust_for_remove ?b parent' index node t = Some (f parent' index t)" by metis
  then show ?thesis
    unfolding ref[symmetric] move_parsed_def reference_def[symmetric] Let_def
    using moved by (auto simp: split_beta split: option.split prod.split if_splits)
qed

end
