(* ===== verification/Dom_Insertion_Props.thy ===== *)
theory Dom_Insertion_Props
  imports Dom_Replace_All
begin

text \<open>
  Properties of \<open>insertion.rs\<close> with the validation of the bindings: what is accepted is done
  completely, keeps the links of the document well formed and keeps the order of the children of
  the document itself; \<open>moveBefore\<close> keeps the links but not the order.
\<close>

section \<open>Documents in order\<close>

definition well_formed :: "blitz_document \<Rightarrow> bool" where
  "well_formed d \<longleftrightarrow> arena (bd_base d) \<and> document_ok d"

lemma accepted_place:
  assumes "insertion_excluding_children owned store parent (TreeRef node) child excluded = Some (Inr (n, reference))"
    and "held store (ni_document parent) d" "ni_document node = ni_document parent"
  shows "reference = Some r \<Longrightarrow> ni_document r = ni_document parent \<and> ni_node r \<in> set (children_of (bd_base d) (ni_node parent))"
  using accepted(5)[OF assms, of r] by (auto simp: ensure_parented_def split: if_splits)

lemma cleared_data: "cleared base ns b \<Longrightarrow> map_option bn_data (get_node b m) = map_option bn_data (get_node base m)"
  by (simp add: cleared_def)

lemma next_sibling_ne:
  assumes "arena base" "next_sibling base n = Some r" shows "r \<noteq> n"
proof -
  obtain p where "parent_link base (ni_node n) = Some p"
    using assms(2) by (auto simp: next_sibling_def dom_sibling_def parent_link_def bind_eq_Some_conv split: option.splits)
  then obtain us vs where kids: "children_of base p = us @ ni_node n # vs"
    using arenaD(2)[OF assms(1)] split_list by metis
  moreover have "distinct (us @ ni_node n # vs)" using arenaD(3)[OF assms(1), of p] kids by simp
  ultimately have "ni_node r \<noteq> ni_node n" using next_sibling_split[OF assms(1) kids] assms(2) by (cases vs) auto
  then show ?thesis by auto
qed

lemma can_moveD:
  assumes "ensure_can_move d parent node target = Some (Inr ())"
  shows "classify_inserted d (ni_node node) \<in> {InsElement, InsText, InsCharacterData}"
    "ensure_no_cycle (bd_base d) (ni_node parent) (ni_node node) = Some (Inr ())" "ni_document node = ni_document parent"
    "target = MoveBefore r \<Longrightarrow> ensure_parented (bd_base d) parent r = Inr ()"
  using assms unfolding ensure_can_move_def Let_def
  by (auto split: if_splits bind_splits sum.splits move_target.splits)

lemma can_move_ok:
  assumes "arena (bd_base d)" "can_have_children (bd_base d) (ni_node parent)" "ensure_can_move d parent node target = Some (Inr ())"
  shows "link_ok (bd_base d) (ni_node parent) (ni_node node)"
proof -
  let ?b = "bd_base d" and ?n = "ni_node node"
  note can = can_moveD[OF assms(3)]
  have "child_kind ?b ?n \<and> \<not> is_doctype ?b ?n"
    using can(1) by (auto dest!: classify_kinds simp: child_kind_def is_doctype_def is_element_def is_text_data_def
        is_comment_data_def split: option.splits node_data.splits)
  then show ?thesis
    using can(2) cycle_walk_spec[OF assms(1)] parent_kindI[OF assms(1,2)] by (auto simp: link_ok_def ensure_no_cycle_def split: if_splits)
qed

section \<open>A document\<close>

text \<open>A doctype and an element with a text; a comment and a fragment with an element are detached.\<close>

definition page_node :: "nat option \<Rightarrow> nat list \<Rightarrow> node_data \<Rightarrow> blitz_node" where
  "page_node parent children data =
     \<lparr> bn_parent = parent, bn_children = children, bn_data = data,
       bn_element = (case data of NElement e \<Rightarrow> Some e | _ \<Rightarrow> None) \<rparr>"

definition page_element :: node_data where
  "page_element = NElement \<lparr> el_name = \<lparr> qn_prefix = None, qn_ns = [], qn_local = ''a'' \<rparr>, el_attrs = [], el_template_contents = None \<rparr>"

definition page :: base_document where
  "page =
     \<lparr> get_node =
         [0 \<mapsto> page_node None [1, 2] NDocument, 1 \<mapsto> page_node (Some 0) [] (NDoctype ''html'' [] []),
          2 \<mapsto> page_node (Some 0) [3] page_element, 3 \<mapsto> page_node (Some 2) [] (NText ''t''),
          4 \<mapsto> page_node None [] (NComment ''c''), 5 \<mapsto> page_node None [6] (NFragment None),
          6 \<mapsto> page_node (Some 5) [] page_element],
       root_node = 0 \<rparr>"

definition page_store :: document_store where
  "page_store = \<lparr> st_documents = [7 \<mapsto> \<lparr> ps_id = 7, ps_document = from_base page \<rparr>], st_next_id = 7 \<rparr>"

lemma page_kinds:
  "is_element page n \<longleftrightarrow> n = 2 \<or> n = 6" "is_text_data page n \<longleftrightarrow> n = 3" "is_doctype page n \<longleftrightarrow> n = 1"
  "is_comment_data page n \<longleftrightarrow> n = 4" "is_fragment (from_base page) n \<longleftrightarrow> n = 5" "root_node page = 0"
  by (auto simp: page_def page_node_def page_element_def from_base_def is_element_def is_text_data_def is_doctype_def
      is_comment_data_def is_fragment_def)

lemma page_links:
  "parent_link page n = (if n \<in> {1, 2} then Some 0 else if n = 3 then Some 2 else if n = 6 then Some 5 else None)"
  "children_of page n = (if n = 0 then [1, 2] else if n = 2 then [3] else if n = 5 then [6] else [])"
  "host_including_parent page n = parent_link page n" "shadow_including_parent page n = parent_link page n"
  by (auto simp: page_def page_node_def page_element_def parent_link_def children_of_def host_including_parent_def
      shadow_including_parent_def)

lemma page_parents: "parent_kind page p \<longleftrightarrow> p \<in> {0, 2, 5, 6}"
  by (auto simp: page_def page_node_def page_element_def parent_kind_def)

lemma page_well_formed: "well_formed (from_base page)"
proof -
  have "host_links page = {(1, 0), (2, 0), (3, 2), (6, 5)}"
    by (auto simp: host_links_def page_links split: if_splits)
  then have "host_links page \<subseteq> less_than\<inverse>" by (auto simp: less_than_iff)
  then have "acyclic (host_links page)"
    using acyclic_subset[OF wf_acyclic[OF wf_less_than, THEN acyclic_converse[THEN iffD2]]] by blast
  moreover have "finite (dom (get_node page))" by (simp add: page_def)
  moreover have "map_option bn_data (get_node page (root_node page)) = Some NDocument" by (simp add: page_def page_node_def)
  ultimately have "arena page"
    by (auto simp: arena_def page_links page_kinds page_parents child_kind_def split: if_splits)
  then show ?thesis by (simp add: well_formed_def document_ok_def from_base_def page_links page_kinds)
qed

lemma page_arena: "arena page" "document_ok (from_base page)" "bd_base (from_base page) = page"
  using page_well_formed by (simp_all add: well_formed_def from_base_def)

lemma page_held: "held page_store 7 (from_base page)"
  by (simp add: held_def page_store_def store_get_def)

lemma page_get: "store_get page_store 7 = Some \<lparr> ps_id = 7, ps_document = from_base page \<rparr>"
  by (simp add: page_store_def store_get_def)

lemma page_cycle: "ensure_no_cycle page 0 n = Some (if n = 0 then Inl Hierarchy else Inr ())"
  by (simp add: ensure_no_cycle_def cycle_walk.simps[of page n "Some 0"] cycle_walk.simps[of page n None] page_links)

lemma page_classes:
  "classify_inserted (from_base page) 4 = InsCharacterData" "classify_inserted (from_base page) 5 = InsFragment 1 False"
  "classify_inserted (from_base page) 2 = InsElement"
proof -
  have "get_node page 4 = Some (page_node None [] (NComment ''c''))" "get_node page 5 = Some (page_node None [6] (NFragment None))"
    "get_node page 2 = Some (page_node (Some 0) [3] page_element)" by (simp_all add: page_def)
  then show "classify_inserted (from_base page) 4 = InsCharacterData" "classify_inserted (from_base page) 5 = InsFragment 1 False"
    "classify_inserted (from_base page) 2 = InsElement"
    by (simp_all add: classify_inserted_def page_kinds page_arena page_node_def page_element_def)
qed

lemmas page_facts = page_kinds page_links page_arena page_get page_cycle page_classes

section \<open>Properties\<close>

text \<open>
  \<^bold>\<open>C18.\<close> An insertion that \<open>insertBefore\<close> accepts, into a well-formed document and of a node of the same
  document, returns: the children of the parent are the old ones with the node, or the children of the
  fragment, at the place before the reference child, every other link and all data are kept, and the
  document is well formed again, with its own children in the order that the DOM prescribes. The mutators
  of \<open>blitz_dom\<close> are assumed to do what they document.
\<close>

theorem validated_insert:
  assumes "blitz_laws ops" "well_formed d" "held store (ni_document parent) d" "ni_document node = ni_document parent"
    and "insertion_tree_nodes owned store parent (TreeRef node) child = Some (Inr (n, reference))"
  defines "ms \<equiv> moved_nodes d (ni_node node)"
  shows "\<exists>us vs d'. place_split (bd_base d) (ni_node parent) (map_option ni_node reference) us vs \<and>
    insert_parsed ops parent n reference d = Some d' \<and> well_formed d' \<and>
    spliced (bd_base d) (ni_node parent) (filter (\<lambda>c. c \<notin> set ms) us) ms (filter (\<lambda>c. c \<notin> set ms) vs) (bd_base d')"
proof -
  note acc = assms(5)[unfolded insertion_tree_nodes_def]
  have arena: "arena (bd_base d)" and ok: "document_ok d" using assms(2) by (simp_all add: well_formed_def)
  note place = accepted_place[OF acc assms(3,4)] and facts = accepted[OF acc assms(3,4)]
  have "the (map_option ni_node reference) \<in> set (children_of (bd_base d) (ni_node parent))" if "map_option ni_node reference \<noteq> None"
    using that place by auto
  then obtain us vs where split: "place_split (bd_base d) (ni_node parent) (map_option ni_node reference) us vs"
    by (rule place_splitE)
  have docs: "ni_document r = ni_document node" if "reference = Some r" for r using place[OF that] assms(4) by simp
  from insert_links[OF assms(1) arena accepted_ok[OF acc assms(3,4) arena] split docs]
  obtain d' where d': "insert_parsed ops parent node reference d = Some d'"
    "spliced (bd_base d) (ni_node parent) (filter (\<lambda>c. c \<notin> set ms) us) ms (filter (\<lambda>c. c \<notin> set ms) vs) (bd_base d')"
    unfolding ms_def by blast
  have "document_ok d'"
  proof (rule spliced_document[OF ok d'(2)])
    show "\<exists>Q. children_of (bd_base d) m = filter Q (children_of (bd_base d) m)" for m by (rule exI[of _ "\<lambda>_. True"]) simp
    assume root: "ni_node parent = root_node (bd_base d)"
    have "prolog (bd_base d) (us @ vs)" using ok split root by (simp add: document_ok_def place_split_def)
    moreover have "fits (bd_base d) us ms vs"
      unfolding ms_def by (rule fits_insert[OF facts(8)[OF root] arena split]) (use place in blast)
    ultimately show "prolog (bd_base d) (us @ vs) \<and> fits (bd_base d) us ms vs" ..
  qed simp_all
  then show ?thesis using split d' facts(1) by (auto simp: well_formed_def spliced_def)
qed

theorem validated_insert_witness:
  "\<exists>us vs d'. place_split page 0 (Some 2) us vs \<and>
    insert_parsed plain_ops (in_doc 7 0) (in_doc 7 4) (Some (in_doc 7 2)) (from_base page) = Some d' \<and> well_formed d' \<and>
    spliced page 0 (filter (\<lambda>c. c \<notin> set [4]) us) [4] (filter (\<lambda>c. c \<notin> set [4]) vs) (bd_base d')"
proof -
  have "insertion_tree_nodes (\<lambda>_. True) page_store (in_doc 7 0) (TreeRef (in_doc 7 4)) (Some (TreeRef (in_doc 7 2))) =
      Some (Inr (in_doc 7 4, Some (in_doc 7 2)))"
    by (simp add: insertion_tree_nodes_def insertion_excluding_children_def node_ref_tree_def can_have_children_def
        ensure_parented_def ensure_document_content_model_def page_facts Let_def)
  from validated_insert[OF plain_laws page_well_formed _ _ this] show ?thesis
    using page_held by (simp add: moved_nodes_def page_facts)
qed

text \<open>
  \<^bold>\<open>C19.\<close> A replacement that \<open>replaceChild\<close> accepts returns: the new node, or the children of the fragment, take
  the place of the old child, which is detached, also when the new node is a sibling of it or the child
  itself, and the document is well formed again.
\<close>

theorem validated_replace:
  assumes "blitz_laws ops" "well_formed d" "held store (ni_document parent) d" "ni_document node = ni_document parent"
    and "insertion_excluding_children owned store parent (TreeRef node) (Some (TreeRef old)) [ni_node old] = Some (Inr (n, reference))"
  defines "ms \<equiv> moved_nodes d (ni_node node)"
  shows "\<exists>us vs d' added. children_of (bd_base d) (ni_node parent) = us @ ni_node old # vs \<and>
    replace_parsed ops parent old (same_document_replacement d n) d = Some (d', added) \<and> map ni_node added = ms \<and> well_formed d' \<and>
    spliced (unlinked (bd_base d) (ni_node old)) (ni_node parent)
      (filter (\<lambda>c. c \<notin> set ms) us) ms (filter (\<lambda>c. c \<notin> set ms) vs) (bd_base d')"
proof -
  note facts = accepted[OF assms(5,3,4)] and place = accepted_place[OF assms(5,3,4), of old]
  have arena: "arena (bd_base d)" and ok: "document_ok d" using assms(2) by (simp_all add: well_formed_def)
  have ref: "reference = Some old" using facts(4) by simp
  obtain us vs where kids: "children_of (bd_base d) (ni_node parent) = us @ ni_node old # vs"
    using place[OF ref] split_list by fastforce
  have "repl_ok d parent old (same_document_replacement d node) ms"
    using accepted_ok[OF assms(5,3,4) arena] place[OF ref] assms(4)
    by (simp add: same_document_replacement_def ms_def moved_nodes_def fragment_children_def child_ids_in_doc)
  then obtain d' added where d': "replace_parsed ops parent old (same_document_replacement d node) d = Some (d', added)"
    "map ni_node added = ms" "spliced (unlinked (bd_base d) (ni_node old)) (ni_node parent)
      (filter (\<lambda>c. c \<notin> set ms) us) ms (filter (\<lambda>c. c \<notin> set ms) vs) (bd_base d')"
    using replace_links[OF assms(1) arena _ kids] by blast
  have "document_ok d'"
  proof (rule spliced_document[OF ok d'(3)])
    show "\<exists>Q. children_of (unlinked (bd_base d) (ni_node old)) m = filter Q (children_of (bd_base d) m)" for m
      by (rule exI[of _ "\<lambda>c. c \<noteq> ni_node old"]) simp
    assume root: "ni_node parent = root_node (bd_base d)"
    have "prolog (bd_base d) (us @ vs)" using ok kids root by (auto simp: document_ok_def prolog_append)
    then show "prolog (bd_base d) (us @ vs) \<and> fits (bd_base d) us ms vs"
      using fits_replace[OF _ arena kids] facts(8)[OF root] place[OF ref] ref by (simp add: ms_def)
  qed simp_all
  then show ?thesis using kids d' facts(1) by (auto simp: well_formed_def spliced_def)
qed

theorem validated_replace_witness:
  "\<exists>us vs d' added. children_of page 0 = us @ 2 # vs \<and>
    replace_parsed plain_ops (in_doc 7 0) (in_doc 7 2) (same_document_replacement (from_base page) (in_doc 7 5)) (from_base page) =
      Some (d', added) \<and> map ni_node added = [6] \<and> well_formed d' \<and>
    spliced (unlinked page 2) 0 (filter (\<lambda>c. c \<notin> set [6]) us) [6] (filter (\<lambda>c. c \<notin> set [6]) vs) (bd_base d')"
proof -
  have "insertion_excluding_children (\<lambda>_. True) page_store (in_doc 7 0) (TreeRef (in_doc 7 5)) (Some (TreeRef (in_doc 7 2)))
      [ni_node (in_doc 7 2)] = Some (Inr (in_doc 7 5, Some (in_doc 7 2)))"
    by (simp add: insertion_excluding_children_def node_ref_tree_def can_have_children_def
        ensure_parented_def ensure_document_content_model_def ensure_element_position_def parent_has_element_def
        same_document_reference_def sibling_doctype_follows_def page_facts Let_def)
  from validated_replace[OF plain_laws page_well_formed _ _ this] show ?thesis
    using page_held by (simp add: moved_nodes_def page_facts)
qed

text \<open>
  \<^bold>\<open>C35.\<close> A replacement of all children that \<open>replaceChildren\<close> accepts returns: the children of the parent are
  exactly the new ones, the others are detached, and the document is well formed again.
\<close>

theorem validated_replace_all:
  assumes "blitz_laws ops" "well_formed d" "held store (ni_document parent) d" "ni_document node = ni_document parent"
    and "insertion_excluding_children owned store parent (TreeRef node) None (children_of (bd_base d) (ni_node parent)) =
      Some (Inr (n, reference))"
  defines "ms \<equiv> moved_nodes d (ni_node node)"
  shows "\<exists>d' iframes. replace_all_with_node ops parent n d = Some (d', iframes) \<and> well_formed d' \<and>
    children_of (bd_base d') (ni_node parent) = ms \<and>
    (\<forall>m \<in> set (children_of (bd_base d) (ni_node parent)) - set ms. parent_link (bd_base d') m = None)"
proof -
  note facts = accepted[OF assms(5,3,4)]
  have arena: "arena (bd_base d)" and ok: "document_ok d" using assms(2) by (simp_all add: well_formed_def)
  obtain d' iframes b ns where d': "replace_all_with_node ops parent node d = Some (d', iframes)"
    "cleared (bd_base d) ns b" "set (children_of (bd_base d) (ni_node parent)) \<subseteq> set ns"
    "spliced b (ni_node parent) [] ms [] (bd_base d')"
    using replace_all_with_node_links[OF assms(1) arena accepted_ok[OF assms(5,3,4) arena]] unfolding ms_def by metis
  have "document_ok d'"
  proof (rule spliced_document[OF ok, of b "ni_node parent" "\<lambda>_. True" "[]" ms "[]"])
    show "spliced b (ni_node parent) (filter (\<lambda>_. True) []) ms (filter (\<lambda>_. True) []) (bd_base d')" using d'(4) by simp
    show "\<exists>Q. children_of b m = filter Q (children_of (bd_base d) m)" for m
      using d'(2) by (intro exI[of _ "\<lambda>c. c \<notin> set ns"]) (simp add: cleared_def)
    assume root: "ni_node parent = root_node (bd_base d)"
    then show "prolog (bd_base d) ([] @ []) \<and> fits (bd_base d) [] ms []"
      using content_model_cases(1)[OF facts(8)[OF root] arena] by (simp add: fits_def ms_def)
  qed (use d'(2) in \<open>simp_all add: cleared_def\<close>)
  then show ?thesis using d' facts(1) by (auto simp: well_formed_def spliced_def cleared_def)
qed

theorem validated_replace_all_witness:
  "\<exists>d' iframes. replace_all_with_node plain_ops (in_doc 7 0) (in_doc 7 5) (from_base page) = Some (d', iframes) \<and>
    well_formed d' \<and> children_of (bd_base d') 0 = [6] \<and> (\<forall>m \<in> {1, 2}. parent_link (bd_base d') m = None)"
proof -
  have "insertion_excluding_children (\<lambda>_. True) page_store (in_doc 7 0) (TreeRef (in_doc 7 5)) None
      (children_of (bd_base (from_base page)) (ni_node (in_doc 7 0))) = Some (Inr (in_doc 7 5, None))"
    by (simp add: insertion_excluding_children_def node_ref_tree_def can_have_children_def
        ensure_document_content_model_def ensure_element_position_def parent_has_element_def
        same_document_reference_def page_facts Let_def)
  from validated_replace_all[OF plain_laws page_well_formed _ _ this] show ?thesis
    using page_held by (simp add: moved_nodes_def page_facts)
qed

text \<open>
  A move that \<open>moveBefore\<close> accepts returns and takes the node to the place before the reference child
  with the links well formed; a node moved before itself stays where it is.
\<close>

theorem validated_move:
  fixes d :: blitz_document and node :: node_id and child :: "node_reference option"
  defines "target \<equiv> move_before_target d node child"
  assumes "blitz_laws ops" "arena (bd_base d)" "can_have_children (bd_base d) (ni_node parent)"
    and "ensure_can_move d parent node target = Some (Inr ())"
  shows "\<exists>d' us vs. move_parsed ops parent node target d = Some d' \<and>
    place_split (unlinked (bd_base d) (ni_node node)) (ni_node parent)
      (case target of MoveBefore r \<Rightarrow> Some (ni_node r) | _ \<Rightarrow> None) us vs \<and>
    spliced (bd_base d) (ni_node parent) us [ni_node node] vs (bd_base d')"
proof -
  let ?b = "bd_base d" and ?p = "ni_node parent" and ?n = "ni_node node"
  let ?r = "case target of MoveBefore r \<Rightarrow> Some (ni_node r) | _ \<Rightarrow> None"
  note can = can_moveD[OF assms(5)]
  have link: "link_ok ?b ?p ?n" by (rule can_move_ok[OF assms(3,4,5)])
  have r: "parent_link ?b (ni_node r) = Some ?p \<and> ni_node r \<noteq> ?n" if "target = MoveBefore r" for r
  proof -
    have "ni_node r \<in> set (children_of ?b ?p)" "ni_document r = ni_document parent"
      using can(4)[OF that] by (auto simp: ensure_parented_def split: if_splits)
    moreover have "r \<noteq> node" using that next_sibling_ne[OF assms(3), of node r]
      by (auto simp: target_def move_before_target_def split: option.splits node_reference.splits if_splits)
    ultimately show ?thesis using can(3) node_id_eq[of r node] arenaD(2)[OF assms(3)] by auto
  qed
  obtain d' where d': "move_parsed ops parent node target d = Some d'" "bd_base d' = placed ?b ?p ?r ?n"
    using move_links[OF assms(2,3) link r] by blast
  have "?r \<noteq> None \<Longrightarrow> the ?r \<in> set (children_of (unlinked ?b ?n) ?p)"
    using r arenaD(2)[OF assms(3)] by (cases target) auto
  then obtain us vs where "place_split (unlinked ?b ?n) ?p ?r us vs" by (rule place_splitE)
  moreover from this have "spliced ?b ?p us [?n] vs (bd_base d')" unfolding d'(2) by (rule spliced_placed[OF assms(3) link])
  ultimately show ?thesis using d'(1) by blast
qed

lemma page_root: "shadow_including_root page 0 = Some 0" "shadow_including_root page 2 = Some 0"
  by (simp_all add: shadow_including_root.simps[of page 0] shadow_including_root.simps[of page 2] page_links)

lemma page_can_move: "ensure_can_move (from_base page) (in_doc 7 0) (in_doc 7 2) (MoveBefore (in_doc 7 1)) = Some (Inr ())"
  by (simp add: ensure_can_move_def ensure_parented_def move_element_clash_def page_root page_facts Let_def)

theorem validated_move_witness:
  "\<exists>d' us vs. move_parsed plain_ops (in_doc 7 0) (in_doc 7 2) (MoveBefore (in_doc 7 1)) (from_base page) = Some d' \<and>
    place_split (unlinked page 2) 0 (Some 1) us vs \<and> spliced page 0 us [2] vs (bd_base d')"
proof -
  have t: "move_before_target (from_base page) (in_doc 7 2) (Some (TreeRef (in_doc 7 1))) = MoveBefore (in_doc 7 1)"
    by (simp add: move_before_target_def in_doc_def)
  show ?thesis
    using validated_move[of plain_ops "from_base page" "in_doc 7 0" "in_doc 7 2" "Some (TreeRef (in_doc 7 1))", unfolded t]
      plain_laws page_can_move by (simp add: page_facts can_have_children_def)
qed

section \<open>Moves in a document\<close>

text \<open>The document itself is nobody's child, and an element of it reaches it in one step.\<close>

lemma root_links:
  assumes "arena base" "parent_link base el = Some (root_node base)"
  shows "parent_link base (root_node base) = None" "shadow_including_root base (root_node base) = Some (root_node base)"
    "shadow_including_root base el = Some (root_node base)" "el \<noteq> root_node base"
    "(root_node base, el) \<notin> (host_links base)\<^sup>*" "ensure_no_cycle base (root_node base) el = Some (Inr ())"
proof -
  let ?r = "root_node base"
  obtain node where node: "get_node base ?r = Some node" "bn_data node = NDocument" using arenaD(8)[OF assms(1)] by auto
  have "\<not> child_kind base ?r"
    using node by (simp add: child_kind_def is_element_def is_text_data_def is_comment_data_def is_doctype_def)
  then show up: "parent_link base ?r = None" using arenaD(5)[OF assms(1), of ?r] by (cases "parent_link base ?r") auto
  then have no: "bn_parent node = None" using node(1) by (simp add: parent_link_def)
  then have top: "shadow_including_parent base ?r = None" using node by (simp add: shadow_including_parent_def)
  then show root: "shadow_including_root base ?r = Some ?r" by (subst shadow_including_root.simps) simp
  have "shadow_including_parent base el = Some ?r"
    using assms(2) by (auto simp: shadow_including_parent_def parent_link_Some)
  then show "shadow_including_root base el = Some ?r" using root by (subst shadow_including_root.simps) simp
  show ne: "el \<noteq> ?r" using assms(2) up by auto
  have "host_including_parent base ?r = None" using node no by (simp add: host_including_parent_def)
  then show path: "(?r, el) \<notin> (host_links base)\<^sup>*" using ne by (auto elim: converse_rtranclE simp: host_links_def)
  show "ensure_no_cycle base ?r el = Some (Inr ())" using path by (simp add: ensure_no_cycle_def cycle_walk_spec[OF assms(1)])
qed

lemma classify_element: "is_element (bd_base d) n \<Longrightarrow> classify_inserted d n = InsElement"
  by (auto simp: classify_inserted_def is_fragment_def is_element_def split: option.splits node_data.splits)

lemma is_element_not_doctype: "is_element base n \<Longrightarrow> \<not> is_doctype base n"
  by (auto simp: is_element_def is_doctype_def split: option.splits node_data.splits)

text \<open>A document whose doctype comes before its element, with comments and processing instructions anywhere.\<close>

definition doctype_first :: "blitz_document \<Rightarrow> nat list \<Rightarrow> nat \<Rightarrow> nat list \<Rightarrow> nat \<Rightarrow> nat list \<Rightarrow> bool" where
  "doctype_first d us dt vs el ws \<longleftrightarrow> children_of (bd_base d) (root_node (bd_base d)) = us @ dt # vs @ el # ws \<and>
     is_doctype (bd_base d) dt \<and> is_element (bd_base d) el"

lemma doctype_first_links:
  assumes "well_formed d" "doctype_first d us dt vs el ws"
  shows "parent_link (bd_base d) dt = Some (root_node (bd_base d))" "parent_link (bd_base d) el = Some (root_node (bd_base d))"
    "dt \<noteq> el" "el \<notin> set (us @ dt # vs @ ws)" "dt \<notin> set us"
    "\<not> move_element_clash (bd_base d) (root_node (bd_base d)) el"
proof -
  let ?b = "bd_base d" and ?r = "root_node (bd_base d)"
  have arena: "arena ?b" and kids: "children_of ?b ?r = us @ dt # vs @ el # ws" using assms by (simp_all add: well_formed_def doctype_first_def)
  show "parent_link ?b dt = Some ?r" "parent_link ?b el = Some ?r" using arenaD(2)[OF arena, of _ ?r] kids by auto
  have "distinct (us @ dt # vs @ el # ws)" using arenaD(3)[OF arena, of ?r] kids by simp
  then show "dt \<noteq> el" "el \<notin> set (us @ dt # vs @ ws)" "dt \<notin> set us" by auto
  have "prolog ?b (us @ dt # vs @ el # ws)" using assms(1) kids by (simp add: well_formed_def document_ok_def)
  then have "prolog ?b ((us @ dt # vs) @ el # ws)" by simp
  then have "\<not> list_ex (is_element ?b) (us @ dt # vs)" "\<not> list_ex (is_element ?b) ws"
    using assms(2) unfolding prolog_append by (auto simp: doctype_first_def list_ex_disj)
  then show "\<not> move_element_clash ?b ?r el" by (auto simp: move_element_clash_def kids list_ex_iff)
qed

text \<open>
  \<^bold>\<open>C38.\<close> \<open>moveBefore\<close> breaks the order of a document. In every well-formed document whose doctype comes before
  its element, whatever else is around them, moving the element before the doctype is accepted and done: the links
  stay well formed, the element now comes right before the doctype, and the children of the document are no longer in
  the order that the DOM prescribes. \<open>insertBefore\<close> refuses the same move with a hierarchy error.
\<close>

theorem move_before_doctype:
  assumes "blitz_laws ops" "well_formed d" "held store k d" "doctype_first d us dt vs el ws"
  defines "root \<equiv> in_doc k (root_node (bd_base d))"
  defines "target \<equiv> move_before_target d (in_doc k el) (Some (TreeRef (in_doc k dt)))"
  shows "ensure_can_move d root (in_doc k el) target = Some (Inr ()) \<and>
    (\<exists>d'. move_parsed ops root (in_doc k el) target d = Some d' \<and> arena (bd_base d') \<and>
       children_of (bd_base d') (root_node (bd_base d)) = us @ el # dt # vs @ ws \<and> \<not> document_ok d') \<and>
    (\<forall>owned. owned root \<longrightarrow>
       insertion_tree_nodes owned store root (TreeRef (in_doc k el)) (Some (TreeRef (in_doc k dt))) = Some (Inl HierarchyRequestError))"
proof -
  let ?b = "bd_base d" and ?r = "root_node (bd_base d)"
  have arena: "arena ?b" using assms(2) by (simp add: well_formed_def)
  have kids: "children_of ?b ?r = us @ dt # vs @ el # ws" and dt: "is_doctype ?b dt" and el: "is_element ?b el"
    using assms(4) by (simp_all add: doctype_first_def)
  note links = doctype_first_links[OF assms(2,4)] and up = root_links[OF arena doctype_first_links(2)[OF assms(2,4)]]
  have target: "target = MoveBefore (in_doc k dt)" using links(3) by (simp add: target_def move_before_target_def in_doc_def)
  have [simp]: "ni_node (in_doc k m) = m" "ni_document (in_doc k m) = k" for m by (simp_all add: in_doc_def)
  have can: "ensure_can_move d root (in_doc k el) target = Some (Inr ())"
    using links up classify_element[OF el] kids by (simp add: ensure_can_move_def ensure_parented_def target root_def)
  have "can_have_children ?b (ni_node root)" by (simp add: root_def can_have_children_def)
  then have link: "link_ok ?b ?r el" using can_move_ok[OF arena _ can] by (simp add: root_def)
  obtain d' where d': "move_parsed ops root (in_doc k el) target d = Some d'" "bd_base d' = placed ?b ?r (Some dt) el"
    using move_links[OF assms(1) arena, of root "in_doc k el" target] link links(1,3) by (auto simp: root_def target)
  have rest: "filter (\<lambda>c. c \<noteq> el) xs = xs" if "el \<notin> set xs" for xs using that by (induction xs) auto
  have "place_split (unlinked ?b el) ?r (Some dt) us (dt # vs @ ws)"
    using links(4,5) by (simp add: place_split_def kids rest)
  then have s: "spliced ?b ?r us [el] (dt # vs @ ws) (bd_base d')" unfolding d'(2) by (rule spliced_placed[OF arena link])
  then have new: "arena (bd_base d')" "children_of (bd_base d') ?r = us @ el # dt # vs @ ws" "root_node (bd_base d') = ?r"
    by (simp_all add: spliced_def)
  have kinds: "is_doctype (bd_base d') = is_doctype ?b" "is_element (bd_base d') = is_element ?b" by (simp_all add: d'(2))
  have "\<not> document_ok d'" using dt el by (simp add: document_ok_def new(2,3) prolog_append kinds)
  moreover have "insertion_tree_nodes owned store root (TreeRef (in_doc k el)) (Some (TreeRef (in_doc k dt))) =
      Some (Inl HierarchyRequestError)" if "owned root" for owned
  proof -
    have "ensure_element_position ?b root (Some (in_doc k dt)) [] = Inl Hierarchy"
      using el by (simp add: ensure_element_position_def parent_has_element_def root_def kids Let_def)
    then show ?thesis using that assms(3) up kids classify_element[OF el]
      by (auto simp: insertion_tree_nodes_def insertion_excluding_children_def node_ref_tree_def can_have_children_def held_def
          ensure_parented_def ensure_document_content_model_def root_def Let_def)
  qed
  ultimately show ?thesis using can d'(1) new(1,2) by blast
qed

theorem move_before_doctype_witness:
  "ensure_can_move (from_base page) (in_doc 7 0) (in_doc 7 2) (MoveBefore (in_doc 7 1)) = Some (Inr ()) \<and>
   (\<exists>d'. move_parsed plain_ops (in_doc 7 0) (in_doc 7 2) (MoveBefore (in_doc 7 1)) (from_base page) = Some d' \<and>
      children_of (bd_base d') 0 = [2, 1] \<and> \<not> document_ok d')"
proof -
  have first: "doctype_first (from_base page) [] 1 [] 2 []" by (simp add: doctype_first_def page_facts)
  have t: "move_before_target (from_base page) (in_doc 7 2) (Some (TreeRef (in_doc 7 1))) = MoveBefore (in_doc 7 1)"
    by (simp add: move_before_target_def in_doc_def)
  show ?thesis using move_before_doctype[OF plain_laws page_well_formed page_held first, unfolded t] by (auto simp: page_facts)
qed

end
