(* ===== verification/Spec2Isabelle.thy ===== *)
theory Spec2Isabelle
  imports Session_History_Props Browser_Storage_Props Cookie_Jar_Props Cookie_Rules_Props Net_Props
    Dom_Props Micro_Props Renderer_Manager_Props Window_Features Mime_Props Browsing_Props Port_Props Exchange_Props Csp_Props
    Document_Props Dom_Equality Dom_Insertion_Props
begin

text \<open>
  \<^bold>\<open>tinybrowser.\<close> A multi-process web browser in Rust. The browser process owns what must survive and be
  shared: the session history of a tab, web storage, the cookie jar, the network with its policies, and
  the renderer processes. A renderer process runs documents of one site: a DOM, live ranges, form
  values, a tree of frames and the message channels between them. The two talk in frames over one
  channel per process. This development models the parts that carry the browser's own logic as
  executable definitions, one theory per component, and proves what makes each correct.

  \<^bold>\<open>Conventions.\<close> A struct is a \<open>record\<close>, an enum a \<open>datatype\<close>, a fallible function
  returns \<open>option\<close> or a sum with the error on the left. Strings are their UTF-8 bytes as characters, so
  \<open>len()\<close> is list length. Hash maps are functions to \<open>option\<close>; where the code iterates over one, the
  order is an argument that a theorem quantifies over. Counters that saturate, wrap or are checked in
  the code are bounded in the same way here (\<open>u64_max\<close>, words, checked \<open>i64\<close>). Loops that follow
  links of a data structure are \<open>partial_function (option)\<close>, and theorems show that they return. State
  shared by tasks or frames is a record, its changes are an \<open>inductive\<close> step relation, and invariants
  are proved for every reachable state by rule induction. Code outside the repository is a parameter:
  the \<open>http\<close> and \<open>url\<close> crates (\<open>http_crate\<close>, \<open>url_api\<close>, with documented laws such as \<open>url_api_ok\<close> as hypotheses,
  each satisfied by a concrete instance in a witness), the Public Suffix List, URL parsing, the node store of
  \<open>blitz_dom\<close> (the record \<open>base_document\<close>), the outcome of spawning a process, the \<open>postcard\<close> codec, the digests and URL accessors of
  \<open>csp_crates\<close>, and the channels of \<open>tokio\<close> (\<open>chan_api\<close>).

  \<^bold>\<open>Shared theories.\<close>
  \<^item> \<open>Tb_Prelude\<close>: positions and updates of lists, saturating counters, the collections of simplification facts.
  \<^item> \<open>Rust_Std\<close>, \<open>Rust_Net\<close>: what the sources use of \<open>str\<close>, integer parsing and \<open>core::net\<close>.
  \<^item> \<open>Url_Model\<close>: the parts of a \<open>url::Url\<close> and its origin that the sources read.
  \<^item> \<open>Enumerated\<close> (\<open>crates/enumerated\<close>): keyword sets as a locale, interpreted by every keyword set of the program.

  \<^bold>\<open>Browser process.\<close>
  \<^item> \<open>Session_History\<close>, \<open>Session_History_Inv\<close>, \<open>Session_History_Props\<close> (\<open>browser/src/history.rs\<close>): the joint history
    of a tab. Every operation keeps it well-formed; commits, traversals and abandoned navigations do
    what they say.
  \<^item> \<open>Web_Storage\<close>, \<open>Browser_Storage\<close>, \<open>Browser_Storage_Props\<close> (\<open>webstorage\<close>, \<open>browser/src/storage.rs\<close>):
    storage areas with their quota, session namespaces and local storage, which refines a map
    from origin and key to value.
  \<^item> \<open>Site_Identity\<close>, \<open>Cookie_Date\<close>, \<open>Cookie_Jar\<close>, \<open>Cookie_Jar_Inv\<close>, \<open>Cookie_Jar_Props\<close>, \<open>Cookie_Rules_Props\<close>
    (\<open>cookies/src/lib.rs\<close>): sites, the date parser and its calendar, and the jar: limits in every reachable
    state, the cookie string against a declarative definition, and the rules for \<open>Secure\<close>, \<open>HttpOnly\<close> and
    \<open>SameSite\<close> cookies.
  \<^item> \<open>Http_Headers\<close>, \<open>Cors\<close>, \<open>Referrer\<close>, \<open>Orb\<close>, \<open>Secure_Context\<close>, \<open>Net_Props\<close> (\<open>net/src\<close>,
    \<open>secure-context\<close>): headers, the CORS check and preflight, referrer policies, opaque response blocking.
  \<^item> \<open>Browser_Site\<close>, \<open>Renderer_Manager\<close>, \<open>Renderer_Manager_Inv\<close>, \<open>Renderer_Manager_Props\<close>
    (\<open>site.rs\<close>, \<open>assignment.rs\<close>, \<open>manager.rs\<close>, parts of \<open>link.rs\<close>): which process may host which site, as
    interleavings of the tasks that share the manager: isolation of sites, the budget, liveness of an
    acquisition, no process stopped under a document it hosts.
  \<^item> \<open>Wire_Frames\<close> (\<open>wire/channel.rs\<close>): the frames on the channel to a renderer; reading and writing
    are inverse on byte streams.
  \<^item> \<open>Exchange\<close>, \<open>Exchange_Router\<close>, \<open>Exchange_Blocking\<close>, \<open>Exchange_Blocking_Inv\<close>, \<open>Exchange_Client\<close>, \<open>Exchange_Client_Inv\<close>, \<open>Exchange_Props\<close>
    (\<open>exchange.rs\<close>): calls over that channel. The router answers every pending call once and completes
    downloads in order and within their limit. The blocking client of a renderer and the asynchronous client of the browser are interleavings of their
    atomic steps: blocking calls are answered exactly once, no wake-up of the writer is lost and lanes
    keep their order; an asynchronous call that registers too late is shown to wait for ever.

  \<^bold>\<open>Renderer process.\<close>
  \<^item> \<open>Dom_Tree\<close>, \<open>Dom_Trees\<close>, \<open>Dom_Range\<close>, \<open>Dom_Props\<close> (\<open>dom/tree.rs\<close>, \<open>dom/range.rs\<close>): tree walks against
    preorder, boundary points and their order, live ranges under every mutation.
  \<^item> \<open>Microsyntaxes\<close>, \<open>Micro_Props\<close> (\<open>dom/microsyntaxes.rs\<close>): dates, times and exact decimals of form values.
  \<^item> \<open>Mime_Sniff\<close>, \<open>Mime_Props\<close> (\<open>sniff.rs\<close>): MIME types and the sniffing algorithm.
  \<^item> \<open>Window_Features\<close>, \<open>Sandbox_Flags\<close> (\<open>window_features.rs\<close>, \<open>protocol.rs\<close>): the features of
    \<open>window.open\<close>, sandboxing flags and target names.
  \<^item> \<open>Frame_Tree\<close>, \<open>Message_Ports\<close>, \<open>Browsing_Contexts\<close>, their invariants in \<open>Frame_Tree_Inv\<close>,
    \<open>Message_Ports_Inv\<close>, \<open>Browsing_Inv\<close>, and \<open>Port_Rows\<close>, \<open>Browsing_Props\<close>, \<open>Port_Props\<close> (\<open>messaging.rs\<close> with its
    callers in \<open>js/bindings/messaging.rs\<close>, \<open>js/world.rs\<close>, \<open>engine.rs\<close> and \<open>document/mod.rs\<close>): the state that the
    frames of a process share. Walks over the tree end, targets are found in tree order, a detached
    frame leaves nothing behind, script acts only on ports its frame holds, and messages of a port reach the router in the order of the posts;
    a message that the router puts back for a port in transit is shown to lose its place.
  \<^item> \<open>Csp_Source\<close>, \<open>Csp\<close>, \<open>Csp_Props\<close> (\<open>csp.rs\<close>): Content Security Policies. Requests and inline code are blocked exactly
    when a declarative definition says so, policies parse to a normal form, paths match by directory, integrity metadata
    cannot be weakened; the guard for nonces is shown to depend on the order of attributes.

  \<^item> \<open>Dom_String\<close> (\<open>dom_string.rs\<close>): strings of UTF-16 code units over the UTF-8 and UTF-16 conversions of the standard library;
    every operation refines the one on lists of units. \<open>Documents\<close>, \<open>Document_Props\<close> (\<open>documents.rs\<close>): the side tables of a document; character data
    round-trips and descendant text is the text of the tree. \<open>Dom_Equality\<close> (\<open>dom/equality.rs\<close>): \<open>isEqualNode\<close> is equality of contents.

  \<^item> \<open>Dom_Insertion\<close> (\<open>dom/insertion.rs\<close>, with the validation in \<open>js/bindings/node/core.rs\<close>): insertion, replacement and moves of nodes over the
    mutators of \<open>blitz_dom\<close>, whose documented behaviour is the hypothesis \<open>blitz_laws\<close>. \<open>Dom_Arena\<close> has the invariant of links and \<open>Dom_Forest\<close> the trees
    it gives, \<open>Dom_Links\<close>, \<open>Dom_Effects\<close>, \<open>Dom_Insert_Links\<close> and \<open>Dom_Replace_All\<close> the effect of each operation on the links, \<open>Dom_Validity\<close> what the validation
    gives, and \<open>Dom_Insertion_Props\<close> the properties: an accepted operation is carried out completely and keeps the links and the order of the
    children of a document; a move is shown to break that order.

  \<^bold>\<open>Interfaces.\<close> Four contracts are locales that the model interprets: keyword sets (\<open>enumerated\<close>, interpreted by the credentials
  modes, redirect modes, \<open>crossorigin\<close> attribute and referrer policies), key-value areas (\<open>storage_map\<close>, by the area of an origin), queues that only
  grow at their end (\<open>message_queues\<close> of \<open>Message_Queues\<close>, by the lanes of the renderer channel) and queues that are also drained at
  their front and can go away (\<open>drained_queues\<close>, by the message ports of a page). Properties rest on the interpreted facts.

  \<^bold>\<open>Bounds.\<close> Reachability theorems about \<open>u64\<close> identifiers assume at most \<open>2 ^ 62\<close> or fewer than \<open>2 ^ 63\<close> operations, so that no
  counter saturates or wraps; nothing else limits a run. Decimal theorems stay within the 128-bit arithmetic that the code checks,
  with mantissas below \<open>2 ^ 120\<close>.

  \<^bold>\<open>Not modelled.\<close> The JavaScript engine and the bindings around it, layout, painting, canvas and fonts
  (floating-point work in libraries), TLS, sockets, processes and files, the control protocols (CDP and
  WebDriver), the WebIDL code generator and the command line. Of the browser's own logic, still to come are
  adoption of nodes between documents (\<open>dom/adoption.rs\<close>), form controls (\<open>dom/forms.rs\<close>, \<open>dom/input.rs\<close>) and the tab coordinator (\<open>actor.rs\<close>, \<open>task.rs\<close>).
\<close>

end
